(* ===== verification/Ufp_Prelude.thy ===== *)
theory Ufp_Prelude
  imports Main "HOL-Library.Word" "HOL-Library.Multiset" "HOL-Library.Monad_Syntax"
begin

text \<open>
  Shared material of the development: the machine types of the C program, the outcome of a call
  that the C standard leaves undefined, the outcomes of the C library's allocator, and the generic
  facts on lists, multisets and words that several components use.

  Conventions used in every component.
  \<^item> A C function that can run into undefined behaviour (an invalid free, a dangling or null
    dereference, an array index out of range) or that can recurse without bound returns an
    \<open>option\<close>; \<open>None\<close> is that outcome, and a theorem that the call returns \<open>Some\<close> is a theorem
    that the call is safe and returns.
  \<^item> The C status codes \<open>0\<close> and \<open>-1\<close> are kept as integers of type \<^typ>\<open>int\<close>.
  \<^item> Addresses are natural numbers; sizes are natural numbers with the wrap-around of \<open>size_t\<close>
    written out where an addition can overflow.
\<close>

unbundle bit_operations_syntax

type_synonym u8 = "8 word"
type_synonym u16 = "16 word"
type_synonym u32 = "32 word"
type_synonym u64 = "64 word"
type_synonym addr = nat

named_theorems ufp_defs \<open>definitions of the model that proofs unfold together\<close>

subsection \<open>The C library's allocator\<close>

text \<open>
  The outcomes of the coming calls of \<open>malloc\<close>: the head of the list says whether the next call
  succeeds, and after the list every call succeeds.
\<close>

type_synonym malloc_oracle = "bool list"

fun c_malloc :: "malloc_oracle \<Rightarrow> bool \<times> malloc_oracle" where
  "c_malloc [] = (True, [])"
| "c_malloc (b # bs) = (b, bs)"

definition malloc_ok :: "malloc_oracle \<Rightarrow> bool" where
  "malloc_ok ms \<longleftrightarrow> False \<notin> set ms"

lemma malloc_ok_Nil [simp]: "malloc_ok []"
  by (simp add: malloc_ok_def)

lemma c_malloc_ok [simp]: "malloc_ok ms \<Longrightarrow> fst (c_malloc ms)"
  by (cases ms) (auto simp: malloc_ok_def)

lemma c_malloc_okE:
  assumes "malloc_ok ms"
  obtains ms' where "c_malloc ms = (True, ms')" "malloc_ok ms'"
  using assms by (cases ms) (auto simp: malloc_ok_def)

subsection \<open>Injective maps\<close>

lemma inj_map_upd:
  assumes "inj_on m (dom m)" "b \<notin> ran m"
  shows "inj_on (m(a \<mapsto> b)) (dom (m(a \<mapsto> b)))"
  using assms by (auto simp: inj_on_def ran_def dom_def)

lemma inj_map_del: "inj_on m (dom m) \<Longrightarrow> inj_on (m(a := None)) (dom (m(a := None)))"
  by (auto simp: inj_on_def dom_def)

lemma ran_map_del:
  assumes inj: "inj_on m (dom m)" and a: "m a = Some b"
  shows "ran (m(a := None)) = ran m - {b}"
proof -
  have other: "x = a" if "m x = Some b" for x
    using inj a that by (auto simp: inj_on_def dom_def)
  show ?thesis
  proof
    show "ran (m(a := None)) \<subseteq> ran m - {b}" using other by (auto simp: ran_def split: if_splits)
    show "ran m - {b} \<subseteq> ran (m(a := None))"
    proof
      fix y assume "y \<in> ran m - {b}"
      then obtain x where "m x = Some y" "y \<noteq> b" by (auto simp: ran_def)
      with a have "(m(a := None)) x = Some y" by auto
      then show "y \<in> ran (m(a := None))" by (rule ranI)
    qed
  qed
qed

subsection \<open>Lists of lists\<close>

lemma sum_list_update_frame:
  fixes f :: "'a \<Rightarrow> 'b :: comm_monoid_add"
  assumes "i < length ns"
  obtains C where "\<And>x. sum_list (map f (ns[i := x])) = C + f x"
proof
  fix x
  have "ns[i := x] = take i ns @ x # drop (Suc i) ns" by (rule upd_conv_take_nth_drop [OF assms])
  then show "sum_list (map f (ns[i := x])) =
      sum_list (map f (take i ns)) + sum_list (map f (drop (Suc i) ns)) + f x"
    by (simp add: ac_simps)
qed

lemma in_concat_nth: "x \<in> set (concat xss) \<longleftrightarrow> (\<exists>i<length xss. x \<in> set (xss ! i))"
  by (simp add: set_conv_nth [of xss]) blast

lemma mset_concat_frame:
  assumes "i < length xss"
  obtains C where "\<And>xs. mset (concat (xss[i := xs])) = C + mset xs" "mset (concat xss) = C + mset (xss ! i)"
proof -
  obtain C where C: "\<And>xs. mset (concat (xss[i := xs])) = C + mset xs"
    using sum_list_update_frame [OF assms, of mset] unfolding mset_concat by blast
  from C C [of "xss ! i"] show ?thesis by (intro that [of C]) simp_all
qed

subsection \<open>Words\<close>

lemma unat_drop_bit: "unat (drop_bit k x) = unat x div 2 ^ k" for x :: "'a::len word"
proof -
  have "unat x < 2 ^ LENGTH('a)" by (rule unsigned_less)
  then have "unat x mod 2 ^ LENGTH('a) = unat x" by (rule mod_less)
  then show ?thesis by (simp only: unsigned_drop_bit_eq) (simp add: drop_bit_eq_div take_bit_eq_mod)
qed

lemma xor_zero_iff: "a XOR b = 0 \<longleftrightarrow> a = b" for a b :: "'a::len word"
  by (auto simp: bit_eq_iff bit_xor_iff)

subsection \<open>Bytes in memory\<close>

text \<open>The value of a little-endian integer in memory.\<close>

fun le_bytes :: "u8 list \<Rightarrow> 'a :: len word" where
  "le_bytes [] = 0"
| "le_bytes (b # bs) = ucast b OR push_bit 8 (le_bytes bs)"

lemma bit_le_bytes:
  "bit (le_bytes bs :: 'a :: len word) n \<longleftrightarrow> n < LENGTH('a) \<and> n < 8 * length bs \<and> bit (bs ! (n div 8)) (n mod 8)"
proof (induction bs arbitrary: n)
  case (Cons b bs)
  have b: "\<not> bit b k" if "8 \<le> k" for k using that bit_imp_le_length [of b k] by auto
  show ?case
  proof (cases "n < 8")
    case True
    then show ?thesis by (auto simp: bit_or_iff bit_push_bit_iff bit_ucast_iff)
  next
    case False
    then have "n div 8 = Suc ((n - 8) div 8)" "n mod 8 = (n - 8) mod 8"
      by (simp_all add: div_if mod_if)
    with False b show ?thesis by (auto simp: bit_or_iff bit_push_bit_iff bit_ucast_iff Cons.IH)
  qed
qed simp

lemma le_bytes_eq_iff:
  assumes "length a = length b" "8 * length a \<le> LENGTH('a)"
  shows "(le_bytes a :: 'a :: len word) = le_bytes b \<longleftrightarrow> a = b"
proof
  assume e: "(le_bytes a :: 'a word) = le_bytes b"
  show "a = b"
  proof (rule nth_equalityI)
    fix i assume i: "i < length a"
    show "a ! i = b ! i"
    proof (rule bit_word_eqI)
      fix n assume n: "n < LENGTH(8)"
      then have m: "(8 * i + n) div 8 = i" "(8 * i + n) mod 8 = n" "8 * i + n < 8 * length a"
        using i by simp_all
      have "bit (le_bytes a :: 'a word) (8 * i + n) = bit (le_bytes b :: 'a word) (8 * i + n)" using e by simp
      then show "bit (a ! i) n = bit (b ! i) n" using m assms by (simp add: bit_le_bytes)
    qed
  qed (rule assms(1))
qed simp

subsection \<open>Alignment\<close>

lemma align_up_mod:
  fixes a x :: nat
  assumes "0 < a"
  shows "(x + (a - x mod a)) mod a = 0"
proof -
  have "x + (a - x mod a) = (x div a) * a + a"
    using div_mult_mod_eq [of x a] mod_less_divisor [OF assms, of x] by linarith
  then show ?thesis by simp
qed

end
