(* ===== verification/Ufp_Mem.thy ===== *)
theory Ufp_Mem
  imports Ufp_Prelude
begin

text \<open>
  The buddy allocator of the library (\<open>lib/lib_mem.c\<close>) over one memory pool.

  The nodes (\<open>struct ufp_mnode\<close>) form a binary tree. A pointer to a node is modelled by the path
  from the root to it (the sequence of child indices), so the \<open>parent\<close> pointer of a node is the
  path without its last step. The pool's memory is modelled as far as the allocator itself uses it:
  the header word in front of a block, which holds the pointer to the block's node. A header is
  present exactly while its block is allocated; freeing an address without a header is undefined.
\<close>

subsection \<open>Data\<close>

datatype ufp_mnode = Mnode
  (mn_allocated: bool)
  (mn_index: nat)
  (mn_size: nat)
  (mn_ptr: addr)
  (mn_child0: "ufp_mnode option")
  (mn_child1: "ufp_mnode option")

type_synonym mpath = "bool list"

record ufp_mpool =
  mp_node :: ufp_mnode
  mp_addr_virt :: addr
  mp_hdr :: "addr \<rightharpoonup> mpath"
  mp_mallocs :: malloc_oracle

definition size_header :: nat where
  "size_header = 8"

definition size_t_mod :: nat where
  "size_t_mod = 2 ^ 64"

text \<open>Dereferencing and updating through a node pointer.\<close>

fun mn_at :: "ufp_mnode \<Rightarrow> mpath \<Rightarrow> ufp_mnode option" where
  "mn_at n [] = Some n"
| "mn_at (Mnode a i s p c0 c1) (b # q) =
     (case (if b then c1 else c0) of None \<Rightarrow> None | Some c \<Rightarrow> mn_at c q)"

fun mn_upd :: "ufp_mnode \<Rightarrow> mpath \<Rightarrow> (ufp_mnode \<Rightarrow> ufp_mnode) \<Rightarrow> ufp_mnode" where
  "mn_upd n [] f = f n"
| "mn_upd (Mnode a i s p c0 c1) (b # q) f =
     (if b then Mnode a i s p c0 (map_option (\<lambda>c. mn_upd c q f) c1)
      else Mnode a i s p (map_option (\<lambda>c. mn_upd c q f) c0) c1)"

definition mn_child :: "ufp_mnode \<Rightarrow> nat \<Rightarrow> ufp_mnode option" where
  "mn_child n i = (if i = 0 then mn_child0 n else mn_child1 n)"

fun mn_child_clear :: "nat \<Rightarrow> ufp_mnode \<Rightarrow> ufp_mnode" where
  "mn_child_clear k (Mnode a i s p c0 c1) =
     (if k = 0 then Mnode a i s p None c1 else Mnode a i s p c0 None)"

fun mn_dealloc :: "ufp_mnode \<Rightarrow> ufp_mnode" where
  "mn_dealloc (Mnode a i s p c0 c1) = Mnode False i s p c0 c1"

subsection \<open>Operations\<close>

definition ufp_mnode_alloc ::
  "malloc_oracle \<Rightarrow> addr \<Rightarrow> nat \<Rightarrow> nat \<Rightarrow> ufp_mnode option \<times> malloc_oracle" where
  "ufp_mnode_alloc ms ptr sz index =
     (case c_malloc ms of
        (False, ms') \<Rightarrow> (None, ms')
      | (True, ms') \<Rightarrow> (Some (Mnode False index sz ptr None None), ms'))"

text \<open>\<open>ufp_mnode_release\<close> unlinks a node from its parent.\<close>

definition ufp_mnode_release :: "ufp_mnode \<Rightarrow> mpath \<Rightarrow> nat \<Rightarrow> ufp_mnode" where
  "ufp_mnode_release t parent index = mn_upd t parent (mn_child_clear index)"

definition ufp_mem_init :: "malloc_oracle \<Rightarrow> addr \<Rightarrow> nat \<Rightarrow> ufp_mnode option \<times> malloc_oracle" where
  "ufp_mem_init ms ptr sz = ufp_mnode_alloc ms ptr sz 0"

text \<open>
  The loop of \<open>_ufp_mem_alloc\<close> that splits a free node into two buddies. When the first
  \<open>malloc\<close> fails, \<open>child[1]\<close> keeps its value; when the second fails, the first buddy is released.
\<close>

definition mem_split ::
  "malloc_oracle \<Rightarrow> ufp_mnode \<Rightarrow> bool \<times> ufp_mnode option \<times> ufp_mnode option \<times> malloc_oracle" where
  "mem_split ms node =
     (let size_new = mn_size node div 2 in
      case ufp_mnode_alloc ms (mn_ptr node + size_new * 0) size_new 0 of
        (None, ms1) \<Rightarrow> (False, None, mn_child1 node, ms1)
      | (Some n0, ms1) \<Rightarrow>
          (case ufp_mnode_alloc ms1 (mn_ptr node + size_new * 1) size_new 1 of
             (None, ms2) \<Rightarrow> (False, None, None, ms2)
           | (Some n1, ms2) \<Rightarrow> (True, Some n0, Some n1, ms2)))"

fun mn_weight :: "ufp_mnode \<Rightarrow> nat" where
  "mn_weight (Mnode a i s p c0 c1) =
     Suc (s + (case c0 of None \<Rightarrow> 0 | Some c \<Rightarrow> mn_weight c)
            + (case c1 of None \<Rightarrow> 0 | Some c \<Rightarrow> mn_weight c))"

text \<open>
  \<open>_ufp_mem_alloc\<close>: the node found for \<open>size\<close> bytes (none is the C null pointer) and the tree after
  the call. A request of zero bytes would split nodes for ever; \<open>ufp_mem_alloc\<close> below gives that
  call no result, so the first branch here is never taken from there.
\<close>

function ufp_mem_alloc_node ::
  "malloc_oracle \<Rightarrow> ufp_mnode \<Rightarrow> nat \<Rightarrow> mpath option \<times> ufp_mnode \<times> malloc_oracle" where
  "ufp_mem_alloc_node ms (Mnode a i s p c0 c1) sz =
     (if sz = 0 then (None, Mnode a i s p c0 c1, ms)
      else if s div 2 < sz then
        (if \<not> a \<and> sz \<le> s then (Some [], Mnode True i s p c0 c1, ms)
         else (None, Mnode a i s p c0 c1, ms))
      else
        (case (if \<not> a then mem_split ms (Mnode a i s p c0 c1) else (True, c0, c1, ms)) of
           (False, d0, d1, ms1) \<Rightarrow> (None, Mnode a i s p d0 d1, ms1)
         | (True, d0, d1, ms1) \<Rightarrow>
             (case (case d0 of None \<Rightarrow> (None, None, ms1)
                    | Some n \<Rightarrow> (case ufp_mem_alloc_node ms1 n sz of
                                  (r, n', ms2) \<Rightarrow> (r, Some n', ms2))) of
                (Some q, e0, ms2) \<Rightarrow> (Some (False # q), Mnode True i s p e0 d1, ms2)
              | (None, e0, ms2) \<Rightarrow>
                  (case (case d1 of None \<Rightarrow> (None, None, ms2)
                         | Some n \<Rightarrow> (case ufp_mem_alloc_node ms2 n sz of
                                       (r, n', ms3) \<Rightarrow> (r, Some n', ms3))) of
                     (Some q, e1, ms3) \<Rightarrow> (Some (True # q), Mnode True i s p e0 e1, ms3)
                   | (None, e1, ms3) \<Rightarrow> (None, Mnode a i s p e0 e1, ms3)))))"
  by pat_completeness auto
termination
  by (relation "measure (\<lambda>(ms, n, sz). mn_weight n)")
     (auto simp: mem_split_def ufp_mnode_alloc_def Let_def split: if_splits prod.splits bool.splits)


declare ufp_mem_alloc_node.simps [simp del]

definition mem_alloc_at ::
  "ufp_mpool \<Rightarrow> nat \<Rightarrow> (ufp_mnode \<Rightarrow> nat) \<Rightarrow> (addr option \<times> ufp_mpool) option" where
  "mem_alloc_at mp sz_total offset =
     (if sz_total = 0 then None
      else case ufp_mem_alloc_node (mp_mallocs mp) (mp_node mp) sz_total of
        (None, t, ms) \<Rightarrow> Some (None, mp\<lparr>mp_node := t, mp_mallocs := ms\<rparr>)
      | (Some q, t, ms) \<Rightarrow>
          (case mn_at t q of
             None \<Rightarrow> None
           | Some n \<Rightarrow>
               let header = mn_ptr n + offset n in
               Some (Some (header + size_header),
                     mp\<lparr>mp_node := t, mp_mallocs := ms, mp_hdr := (mp_hdr mp)(header \<mapsto> q)\<rparr>)))"

definition ufp_mem_alloc :: "ufp_mpool \<Rightarrow> nat \<Rightarrow> (addr option \<times> ufp_mpool) option" where
  "ufp_mem_alloc mp sz = mem_alloc_at mp ((size_header + sz) mod size_t_mod) (\<lambda>n. 0)"

definition ufp_mem_alloc_align ::
  "nat \<Rightarrow> ufp_mpool \<Rightarrow> nat \<Rightarrow> nat \<Rightarrow> (addr option \<times> ufp_mpool) option" where
  "ufp_mem_alloc_align pagesize mp sz align0 =
     (let align = max align0 pagesize in
      mem_alloc_at mp ((align + size_header + sz) mod size_t_mod)
        (\<lambda>n. align - (mn_ptr n + size_header) mod align))"

function ufp_mem_free_node :: "ufp_mnode \<Rightarrow> mpath \<Rightarrow> ufp_mnode option" where
  "ufp_mem_free_node t q =
     (case mn_at t q of
        None \<Rightarrow> None
      | Some node \<Rightarrow>
          (let t1 = mn_upd t q mn_dealloc in
           if q = [] then Some t1
           else
             (let parent = butlast q in
              case mn_at t1 parent of
                None \<Rightarrow> None
              | Some par \<Rightarrow>
                  (case mn_child par (if mn_index node = 0 then 1 else 0) of
                     None \<Rightarrow> None
                   | Some buddy \<Rightarrow>
                       (if mn_allocated buddy then Some t1
                        else ufp_mem_free_node
                               (ufp_mnode_release (ufp_mnode_release t1 parent (mn_index buddy))
                                  parent (mn_index node))
                               parent)))))"
  by pat_completeness auto
termination
  by (relation "measure (\<lambda>(t, q). length q)") auto

declare ufp_mem_free_node.simps [simp del]

definition ufp_mem_free :: "ufp_mpool \<Rightarrow> addr \<Rightarrow> ufp_mpool option" where
  "ufp_mem_free mp addr_free =
     (if addr_free < size_header then None
      else let header = addr_free - size_header in
        case mp_hdr mp header of
          None \<Rightarrow> None
        | Some node \<Rightarrow>
            (case ufp_mem_free_node (mp_node mp) node of
               None \<Rightarrow> None
             | Some t \<Rightarrow> Some (mp\<lparr>mp_node := t, mp_hdr := (mp_hdr mp)(header := None)\<rparr>)))"

text \<open>\<open>_ufp_mem_destroy\<close>: the node structures in the order in which they are handed to \<open>free\<close>.\<close>

fun ufp_mem_destroy :: "ufp_mnode \<Rightarrow> mpath list" where
  "ufp_mem_destroy (Mnode a i s p c0 c1) =
     (case c0 of None \<Rightarrow> [] | Some c \<Rightarrow> map (Cons False) (ufp_mem_destroy c)) @
     (case c1 of None \<Rightarrow> [] | Some c \<Rightarrow> map (Cons True) (ufp_mem_destroy c)) @ [[]]"

text \<open>
  The pool itself (\<open>ufp_mpool_init\<close> and \<open>ufp_mpool_destroy\<close> of \<open>lib/lib_main.c\<close>): one huge page is
  mapped by \<open>mmap\<close>, whose result (none is \<open>MAP_FAILED\<close>) is an argument. The destroy operation gives
  the node structures it frees and the address it unmaps.
\<close>

definition SIZE_1GB :: nat where
  "SIZE_1GB = 2 ^ 30"

definition ufp_mpool_init :: "malloc_oracle \<Rightarrow> addr option \<Rightarrow> ufp_mpool option \<times> malloc_oracle" where
  "ufp_mpool_init ms mmap_result =
     (case c_malloc ms of
        (False, ms1) \<Rightarrow> (None, ms1)
      | (True, ms1) \<Rightarrow>
          (case mmap_result of
             None \<Rightarrow> (None, ms1)
           | Some base \<Rightarrow>
               (case ufp_mem_init ms1 base SIZE_1GB of
                  (None, ms2) \<Rightarrow> (None, ms2)
                | (Some root, ms2) \<Rightarrow>
                    (Some \<lparr>mp_node = root, mp_addr_virt = base, mp_hdr = Map.empty,
                           mp_mallocs = ms2\<rparr>, ms2))))"

definition ufp_mpool_destroy :: "ufp_mpool \<Rightarrow> mpath list \<times> addr \<times> nat" where
  "ufp_mpool_destroy mp = (ufp_mem_destroy (mp_node mp), mp_addr_virt mp, SIZE_1GB)"

subsection \<open>Well-formed pools\<close>

text \<open>
  The geometry of the tree and the canonical form the allocator keeps: a node has two children or
  none, a node with children is allocated, and at least one of two buddies is allocated (two free
  buddies are always merged).
\<close>

fun mn_wf :: "ufp_mnode \<Rightarrow> bool" where
  "mn_wf (Mnode a i s p None None) \<longleftrightarrow> True"
| "mn_wf (Mnode a i s p (Some n0) (Some n1)) \<longleftrightarrow>
     a \<and> mn_size n0 = s div 2 \<and> mn_ptr n0 = p \<and> mn_index n0 = 0 \<and>
     mn_size n1 = s div 2 \<and> mn_ptr n1 = p + s div 2 \<and> mn_index n1 = 1 \<and>
     (mn_allocated n0 \<or> mn_allocated n1) \<and> mn_wf n0 \<and> mn_wf n1"
| "mn_wf (Mnode a i s p _ _) \<longleftrightarrow> False"

text \<open>The blocks in use: the allocated nodes without children.\<close>

fun mn_blocks :: "ufp_mnode \<Rightarrow> mpath set" where
  "mn_blocks (Mnode a i s p None None) = (if a then {[]} else {})"
| "mn_blocks (Mnode a i s p (Some n0) (Some n1)) =
     Cons False ` mn_blocks n0 \<union> Cons True ` mn_blocks n1"
| "mn_blocks (Mnode a i s p _ _) = {}"

text \<open>The sizes of the free blocks.\<close>

fun mn_free_sizes :: "ufp_mnode \<Rightarrow> nat set" where
  "mn_free_sizes (Mnode a i s p None None) = (if a then {} else {s})"
| "mn_free_sizes (Mnode a i s p (Some n0) (Some n1)) = mn_free_sizes n0 \<union> mn_free_sizes n1"
| "mn_free_sizes (Mnode a i s p _ _) = {}"

text \<open>What freeing does, seen from the root: release the block, then merge free buddies.\<close>

fun mn_prop :: "ufp_mnode \<Rightarrow> mpath \<Rightarrow> ufp_mnode \<Rightarrow> ufp_mnode" where
  "mn_prop t [] x = x"
| "mn_prop (Mnode a i s p (Some n0) (Some n1)) (b # q) x =
     (let d0 = (if b then n0 else mn_prop n0 q x);
          d1 = (if b then mn_prop n1 q x else n1)
      in if \<not> mn_allocated d0 \<and> \<not> mn_allocated d1 then Mnode False i s p None None
         else Mnode a i s p (Some d0) (Some d1))"
| "mn_prop t (b # q) x = t"

definition mn_free :: "ufp_mnode \<Rightarrow> mpath \<Rightarrow> ufp_mnode" where
  "mn_free t q = (case mn_at t q of None \<Rightarrow> t | Some n \<Rightarrow> mn_prop t q (mn_dealloc n))"

lemma mn_wf_cases:
  assumes "mn_wf t"
  obtains (leaf) a i s p where "t = Mnode a i s p None None"
    | (split) i s p n0 n1 where "t = Mnode True i s p (Some n0) (Some n1)"
  using assms by (cases t rule: mn_wf.cases) auto

lemma malloc_ok_split:
  assumes "malloc_ok ms"
  obtains ms' where "malloc_ok ms'"
    "mem_split ms n = (True, Some (Mnode False 0 (mn_size n div 2) (mn_ptr n) None None),
       Some (Mnode False 1 (mn_size n div 2) (mn_ptr n + mn_size n div 2) None None), ms')"
proof -
  obtain ms1 where 1: "c_malloc ms = (True, ms1)" "malloc_ok ms1"
    using assms by (rule c_malloc_okE)
  obtain ms2 where 2: "c_malloc ms1 = (True, ms2)" "malloc_ok ms2"
    using 1(2) by (rule c_malloc_okE)
  show ?thesis
    by (rule that [OF 2(2)]) (simp add: mem_split_def ufp_mnode_alloc_def Let_def 1(1) 2(1))
qed

text \<open>One step of the search, by the three situations a well-formed pool can be in.\<close>

lemma alloc_node_small:
  "0 < sz \<Longrightarrow> s div 2 < sz \<Longrightarrow> ufp_mem_alloc_node ms (Mnode a i s p c0 c1) sz =
     (if \<not> a \<and> sz \<le> s then (Some [], Mnode True i s p c0 c1, ms)
      else (None, Mnode a i s p c0 c1, ms))"
  by (simp add: ufp_mem_alloc_node.simps)

definition alloc_pair ::
  "nat \<Rightarrow> nat \<Rightarrow> addr \<Rightarrow> malloc_oracle \<Rightarrow> ufp_mnode \<Rightarrow> ufp_mnode \<Rightarrow> nat \<Rightarrow> bool
   \<Rightarrow> mpath option \<times> ufp_mnode \<times> malloc_oracle" where
  "alloc_pair i s p ms n0 n1 sz a =
     (case ufp_mem_alloc_node ms n0 sz of
        (Some q, e0, ms2) \<Rightarrow> (Some (False # q), Mnode True i s p (Some e0) (Some n1), ms2)
      | (None, e0, ms2) \<Rightarrow>
          (case ufp_mem_alloc_node ms2 n1 sz of
             (Some q, e1, ms3) \<Rightarrow> (Some (True # q), Mnode True i s p (Some e0) (Some e1), ms3)
           | (None, e1, ms3) \<Rightarrow> (None, Mnode a i s p (Some e0) (Some e1), ms3)))"

lemma alloc_node_pair:
  "0 < sz \<Longrightarrow> \<not> s div 2 < sz \<Longrightarrow>
   ufp_mem_alloc_node ms (Mnode True i s p (Some n0) (Some n1)) sz = alloc_pair i s p ms n0 n1 sz True"
  by (subst ufp_mem_alloc_node.simps) (auto simp: alloc_pair_def split: prod.splits option.splits)

lemma alloc_node_split:
  assumes "0 < sz" "\<not> s div 2 < sz" "malloc_ok ms"
  obtains ms' where "malloc_ok ms'"
    "ufp_mem_alloc_node ms (Mnode False i s p None None) sz =
       alloc_pair i s p ms' (Mnode False 0 (s div 2) p None None)
         (Mnode False 1 (s div 2) (p + s div 2) None None) sz False"
proof -
  obtain ms' where "malloc_ok ms'" "mem_split ms (Mnode False i s p None None) =
    (True, Some (Mnode False 0 (s div 2) p None None),
     Some (Mnode False 1 (s div 2) (p + s div 2) None None), ms')"
    using malloc_ok_split [OF assms(3), of "Mnode False i s p None None"] by auto
  with assms show ?thesis
    by (intro that [of ms'])
       (auto simp: ufp_mem_alloc_node.simps [of ms False] alloc_pair_def
             split: prod.splits option.splits)
qed

lemma mn_free_sizes_le: "mn_wf t \<Longrightarrow> f \<in> mn_free_sizes t \<Longrightarrow> f \<le> mn_size t"
proof (induction t rule: mn_wf.induct)
  case (2 a i s p n0 n1)
  then have "f \<le> s div 2" by auto
  then show ?case by simp
qed (auto split: if_splits)

text \<open>What one search must achieve: an exact block or the proof that none is free.\<close>

definition alloc_found :: "ufp_mnode \<Rightarrow> nat \<Rightarrow> mpath \<Rightarrow> ufp_mnode \<Rightarrow> bool" where
  "alloc_found t sz q t' \<longleftrightarrow>
     mn_wf t' \<and> mn_allocated t' \<and> mn_size t' = mn_size t \<and> mn_ptr t' = mn_ptr t \<and>
     mn_index t' = mn_index t \<and> q \<notin> mn_blocks t \<and> mn_blocks t' = insert q (mn_blocks t) \<and>
     mn_free t' q = t \<and>
     (\<exists>i s p. mn_at t' q = Some (Mnode True i s p None None) \<and> sz \<le> s \<and> s div 2 < sz)"

definition alloc_none :: "ufp_mnode \<Rightarrow> nat \<Rightarrow> ufp_mnode \<Rightarrow> bool" where
  "alloc_none t sz t' \<longleftrightarrow> t' = t \<and> (\<forall>f \<in> mn_free_sizes t. f < sz)"

definition alloc_post :: "ufp_mnode \<Rightarrow> nat \<Rightarrow> mpath option \<times> ufp_mnode \<times> malloc_oracle \<Rightarrow> bool" where
  "alloc_post t sz res \<longleftrightarrow>
     (case res of (r, t', ms') \<Rightarrow> malloc_ok ms' \<and>
        (case r of None \<Rightarrow> alloc_none t sz t' | Some q \<Rightarrow> alloc_found t sz q t'))"

lemma alloc_found_left:
  assumes "alloc_found n0 sz q e0" "mn_wf n1"
    "mn_size n0 = s div 2" "mn_ptr n0 = p" "mn_index n0 = 0"
    "mn_size n1 = s div 2" "mn_ptr n1 = p + s div 2" "mn_index n1 = 1"
    and t: "t = (if mn_allocated n0 \<or> mn_allocated n1 then Mnode True i s p (Some n0) (Some n1)
                 else Mnode False i s p None None)"
    and b: "mn_blocks t = Cons False ` mn_blocks n0 \<union> Cons True ` mn_blocks n1"
  shows "alloc_found t sz (False # q) (Mnode True i s p (Some e0) (Some n1))"
  using assms unfolding alloc_found_def
  by (auto simp: mn_free_def Let_def split: option.splits)

lemma alloc_found_right:
  assumes "alloc_found n1 sz q e1" "mn_wf n0"
    "mn_size n0 = s div 2" "mn_ptr n0 = p" "mn_index n0 = 0"
    "mn_size n1 = s div 2" "mn_ptr n1 = p + s div 2" "mn_index n1 = 1"
    and t: "t = (if mn_allocated n0 \<or> mn_allocated n1 then Mnode True i s p (Some n0) (Some n1)
                 else Mnode False i s p None None)"
    and b: "mn_blocks t = Cons False ` mn_blocks n0 \<union> Cons True ` mn_blocks n1"
  shows "alloc_found t sz (True # q) (Mnode True i s p (Some n0) (Some e1))"
  using assms unfolding alloc_found_def
  by (auto simp: mn_free_def Let_def split: option.splits)

lemma alloc_pair_post:
  assumes n0: "\<And>ms. malloc_ok ms \<Longrightarrow> alloc_post n0 sz (ufp_mem_alloc_node ms n0 sz)"
    and n1: "\<And>ms. malloc_ok ms \<Longrightarrow> alloc_post n1 sz (ufp_mem_alloc_node ms n1 sz)"
    and ms: "malloc_ok ms"
    and wf: "mn_wf n0" "mn_wf n1" "mn_size n0 = s div 2" "mn_ptr n0 = p" "mn_index n0 = 0"
      "mn_size n1 = s div 2" "mn_ptr n1 = p + s div 2" "mn_index n1 = 1"
    and t: "t = (if mn_allocated n0 \<or> mn_allocated n1 then Mnode True i s p (Some n0) (Some n1)
                 else Mnode False i s p None None)"
    and b: "mn_blocks t = Cons False ` mn_blocks n0 \<union> Cons True ` mn_blocks n1"
    and f: "\<forall>f \<in> mn_free_sizes n0 \<union> mn_free_sizes n1. f < sz \<Longrightarrow>
              t = Mnode a i s p (Some n0) (Some n1)"
  shows "alloc_post t sz (alloc_pair i s p ms n0 n1 sz a)"
proof -
  obtain r0 e0 ms0 where 0: "ufp_mem_alloc_node ms n0 sz = (r0, e0, ms0)"
    by (cases "ufp_mem_alloc_node ms n0 sz") auto
  note p0 = n0 [OF ms, unfolded 0 alloc_post_def, simplified]
  show ?thesis
  proof (cases r0)
    case (Some q)
    with p0 have "alloc_found n0 sz q e0" "malloc_ok ms0" by auto
    with Some 0 show ?thesis
      using alloc_found_left [OF _ wf(2-8) t b] by (simp add: alloc_pair_def alloc_post_def)
  next
    case None
    with p0 have e0: "e0 = n0" "\<forall>f \<in> mn_free_sizes n0. f < sz" "malloc_ok ms0"
      by (auto simp: alloc_none_def)
    obtain r1 e1 ms1 where 1: "ufp_mem_alloc_node ms0 n1 sz = (r1, e1, ms1)"
      by (cases "ufp_mem_alloc_node ms0 n1 sz") auto
    note p1 = n1 [OF e0(3), unfolded 1 alloc_post_def, simplified]
    show ?thesis
    proof (cases r1)
      case (Some q)
      with p1 have "alloc_found n1 sz q e1" "malloc_ok ms1" by auto
      with Some None 0 1 e0(1) show ?thesis
        using alloc_found_right [OF _ wf(1,3-8) t b] by (simp add: alloc_pair_def alloc_post_def)
    next
      assume "r1 = None"
      with p1 have e1: "e1 = n1" "\<forall>f \<in> mn_free_sizes n1. f < sz" "malloc_ok ms1"
        by (auto simp: alloc_none_def)
      with e0 have "t = Mnode a i s p (Some n0) (Some n1)" by (intro f) auto
      with \<open>r1 = None\<close> None 0 1 e0 e1 show ?thesis
        by (auto simp: alloc_pair_def alloc_post_def alloc_none_def)
    qed
  qed
qed

lemma alloc_node_post:
  assumes "mn_wf t" "malloc_ok ms" "0 < sz"
  shows "alloc_post t sz (ufp_mem_alloc_node ms t sz)"
  using assms
proof (induction "mn_weight t" arbitrary: t ms rule: less_induct)
  case less
  from \<open>mn_wf t\<close> show ?case
  proof (cases rule: mn_wf_cases)
    case (leaf a i s p)
    show ?thesis
    proof (cases "s div 2 < sz")
      case True
      with leaf less.prems show ?thesis
        by (auto simp: alloc_node_small alloc_post_def alloc_found_def alloc_none_def mn_free_def)
    next
      case False
      show ?thesis
      proof (cases a)
        case True
        have "ufp_mem_alloc_node ms t sz = (None, t, ms)"
          using leaf True False less.prems(3) by (simp add: ufp_mem_alloc_node.simps)
        with leaf True less.prems show ?thesis by (simp add: alloc_post_def alloc_none_def)
      next
        assume "\<not> a"
        let ?n0 = "Mnode False 0 (s div 2) p None None"
        let ?n1 = "Mnode False 1 (s div 2) (p + s div 2) None None"
        obtain ms' where ms': "malloc_ok ms'"
          "ufp_mem_alloc_node ms t sz = alloc_pair i s p ms' ?n0 ?n1 sz False"
          using alloc_node_split [OF less.prems(3) False less.prems(2)] leaf \<open>\<not> a\<close> by auto
        have w: "mn_weight ?n0 < mn_weight t" "mn_weight ?n1 < mn_weight t"
          using leaf False less.prems(3) by auto
        have "alloc_post t sz (alloc_pair i s p ms' ?n0 ?n1 sz False)"
          by (rule alloc_pair_post [OF less.hyps [OF w(1)] less.hyps [OF w(2)] ms'(1)])
             (use leaf \<open>\<not> a\<close> less.prems False in auto)
        with ms'(2) show ?thesis by simp
      qed
    qed
  next
    case (split i s p n0 n1)
    have wf: "mn_wf n0" "mn_wf n1" using split less.prems(1) by auto
    have w: "mn_weight n0 < mn_weight t" "mn_weight n1 < mn_weight t"
      using split by auto
    have post: "alloc_post t sz (alloc_pair i s p ms n0 n1 sz True)"
      by (rule alloc_pair_post [OF less.hyps [OF w(1)] less.hyps [OF w(2)]])
         (use split less.prems wf in auto)
    show ?thesis
    proof (cases "s div 2 < sz")
      case True
      have "\<forall>f \<in> mn_free_sizes t. f < sz"
        using mn_free_sizes_le [OF wf(1)] mn_free_sizes_le [OF wf(2)] split less.prems(1) True
        by fastforce
      with True split less.prems show ?thesis
        by (simp add: alloc_node_small alloc_post_def alloc_none_def)
    next
      case False
      with post split less.prems show ?thesis by (simp add: alloc_node_pair)
    qed
  qed
qed

subsection \<open>Freeing\<close>

lemma mn_at_append:
  "mn_at t (q @ r) = (case mn_at t q of None \<Rightarrow> None | Some n \<Rightarrow> mn_at n r)"
  by (induction t q rule: mn_at.induct) (auto split: option.splits)

lemma mn_at_upd [simp]: "mn_at t q = Some n \<Longrightarrow> mn_at (mn_upd t q f) q = Some (f n)"
  by (induction t q arbitrary: n rule: mn_at.induct) (auto split: option.splits if_splits)

lemma mn_upd_upd: "mn_upd (mn_upd t q f) q g = mn_upd t q (\<lambda>n. g (f n))"
  by (induction t q f rule: mn_upd.induct) (auto simp: option.map_comp o_def cong: map_option_cong)

lemma mn_upd_append: "mn_upd t (q @ r) f = mn_upd t q (\<lambda>n. mn_upd n r f)"
  by (induction t q f rule: mn_upd.induct) (auto cong: map_option_cong)

lemma mn_upd_cong: "mn_at t q = Some n \<Longrightarrow> f n = g n \<Longrightarrow> mn_upd t q f = mn_upd t q g"
  by (induction t q f rule: mn_upd.induct) (auto split: option.splits if_splits)

lemma mn_wf_at: "mn_wf t \<Longrightarrow> mn_at t q = Some n \<Longrightarrow> mn_wf n"
proof (induction q arbitrary: t)
  case (Cons b q)
  from Cons.prems(1) show ?case
    by (cases rule: mn_wf_cases) (use Cons in \<open>auto split: if_splits\<close>)
qed simp

lemma mn_prop_append:
  assumes "mn_wf t" "mn_at t q = Some n"
  shows "mn_prop t (q @ r) x = mn_prop t q (mn_prop n r x)"
  using assms
proof (induction q arbitrary: t)
  case (Cons b q)
  from Cons.prems(1) show ?case
    by (cases rule: mn_wf_cases) (use Cons in \<open>auto simp: Let_def split: if_splits\<close>)
qed simp

text \<open>When the replaced node stays allocated, nothing above it is merged.\<close>

lemma mn_prop_allocated:
  assumes "mn_wf t" "mn_at t q = Some n" "mn_allocated x"
  shows "mn_prop t q x = mn_upd t q (\<lambda>_. x) \<and> mn_allocated (mn_prop t q x)"
  using assms
proof (induction q arbitrary: t)
  case (Cons b q)
  from Cons.prems(1) show ?case
  proof (cases rule: mn_wf_cases)
    case (split i s p n0 n1)
    let ?c = "if b then n1 else n0"
    have "mn_prop ?c q x = mn_upd ?c q (\<lambda>_. x) \<and> mn_allocated (mn_prop ?c q x)"
      by (rule Cons.IH) (use Cons.prems split in \<open>auto split: if_splits\<close>)
    with split show ?thesis by (cases b) (auto simp: Let_def)
  qed (use Cons in \<open>auto split: if_splits\<close>)
qed simp

text \<open>
  The loop of \<open>_ufp_mem_free\<close> climbs from the block to the root. It works on trees in which the
  node that is freed next has lost its children, so the invariant is the one of the tree before.
\<close>

lemma free_node_prop:
  assumes "mn_wf t" "mn_at t q = Some (Mnode True i s p c0 c1)"
    "u = mn_upd t q (\<lambda>_. Mnode True i s p None None)"
  shows "ufp_mem_free_node u q = Some (mn_prop t q (Mnode False i s p None None))"
  using assms
proof (induction q arbitrary: u i s p c0 c1 rule: rev_induct)
  case Nil
  then show ?case by (simp add: ufp_mem_free_node.simps)
next
  case (snoc b q)
  obtain m where m: "mn_at t q = Some m" "mn_at m [b] = Some (Mnode True i s p c0 c1)"
    using snoc.prems(2) by (auto simp: mn_at_append split: option.splits)
  have "mn_wf m" using snoc.prems(1) m(1) by (rule mn_wf_at)
  then obtain j z r n0 n1 where split: "m = Mnode True j z r (Some n0) (Some n1)"
    by (cases rule: mn_wf_cases) (use m(2) in \<open>auto split: if_splits\<close>)
  let ?x = "Mnode True i s p None None" and ?y = "Mnode False i s p None None"
  let ?buddy = "if b then n0 else n1"
  let ?par = "\<lambda>x. Mnode True j z r (Some (if b then n0 else x)) (Some (if b then x else n1))"
  have node: "(if b then n1 else n0) = Mnode True i s p c0 c1"
    using m(2) split by (auto split: if_splits)
  have idx: "i = (if b then 1 else 0)" "mn_index ?buddy = (if b then 0 else 1)"
    using \<open>mn_wf m\<close> split node by (auto split: if_splits)
  have u1: "mn_at u (q @ [b]) = Some ?x"
    unfolding snoc.prems(3) using snoc.prems(2) by simp
  have u2: "mn_upd u (q @ [b]) mn_dealloc = mn_upd t q (\<lambda>_. ?par ?y)"
    unfolding snoc.prems(3) mn_upd_upd unfolding mn_upd_append
    by (rule mn_upd_cong [OF m(1)]) (simp add: split node split: if_splits)
  note u = u1 u2
  have par: "mn_at (mn_upd t q (\<lambda>_. ?par ?y)) q = Some (?par ?y)"
    using m(1) by simp
  have buddy: "mn_child (?par ?y) (if mn_index ?x = 0 then 1 else 0) = Some ?buddy"
    using idx by (auto simp: mn_child_def)
  show ?case
  proof (cases "mn_allocated ?buddy")
    case True
    have "ufp_mem_free_node u (q @ [b]) = Some (mn_upd t q (\<lambda>_. ?par ?y))"
      using u par buddy True by (simp add: ufp_mem_free_node.simps [of u] Let_def)
    moreover have "mn_prop t (q @ [b]) ?y = mn_upd t q (\<lambda>_. ?par ?y)"
      using mn_prop_append [OF snoc.prems(1) m(1), of "[b]" ?y] True split
        mn_prop_allocated [OF snoc.prems(1) m(1), of "?par ?y"]
      by (cases b) (auto simp: Let_def)
    ultimately show ?thesis by simp
  next
    case False
    let ?v = "mn_upd t q (\<lambda>_. Mnode True j z r None None)"
    have "ufp_mnode_release (ufp_mnode_release (mn_upd t q (\<lambda>_. ?par ?y)) q (mn_index ?buddy)) q i = ?v"
      using idx by (cases b) (simp_all add: ufp_mnode_release_def mn_upd_upd)
    then have "ufp_mem_free_node u (q @ [b]) = ufp_mem_free_node ?v q"
      using u par buddy False by (simp add: ufp_mem_free_node.simps [of u] Let_def)
    also have "\<dots> = Some (mn_prop t q (Mnode False j z r None None))"
      using snoc.IH [OF snoc.prems(1) m(1) [unfolded split] refl] .
    also have "mn_prop t q (Mnode False j z r None None) = mn_prop t (q @ [b]) ?y"
      using mn_prop_append [OF snoc.prems(1) m(1), of "[b]" ?y] False split
      by (cases b) (auto simp: Let_def)
    finally show ?thesis .
  qed
qed

lemma mn_blocks_at:
  assumes "mn_wf t"
  shows "q \<in> mn_blocks t \<longleftrightarrow> (\<exists>i s p. mn_at t q = Some (Mnode True i s p None None))"
  using assms
proof (induction q arbitrary: t)
  case Nil
  then show ?case by (cases rule: mn_wf_cases) auto
next
  case (Cons b q)
  from Cons.prems(1) show ?case
    by (cases rule: mn_wf_cases) (use Cons in \<open>auto split: if_splits\<close>)
qed

lemma free_node_eq:
  assumes "mn_wf t" "q \<in> mn_blocks t"
  shows "ufp_mem_free_node t q = Some (mn_free t q)"
proof -
  obtain i s p where n: "mn_at t q = Some (Mnode True i s p None None)"
    using assms by (auto simp: mn_blocks_at)
  have "t = mn_upd t q (\<lambda>_. Mnode True i s p None None)"
    using n by (induction t q rule: mn_at.induct) (auto split: option.splits if_splits)
  from free_node_prop [OF assms(1) n this] n show ?thesis by (simp add: mn_free_def)
qed

lemma mn_prop_blocks:
  assumes "mn_wf t" "mn_at t q = Some (Mnode True i s p None None)"
  shows "mn_wf (mn_prop t q (Mnode False i s p None None)) \<and>
    mn_blocks (mn_prop t q (Mnode False i s p None None)) = mn_blocks t - {q} \<and>
    mn_size (mn_prop t q (Mnode False i s p None None)) = mn_size t \<and>
    mn_ptr (mn_prop t q (Mnode False i s p None None)) = mn_ptr t \<and>
    mn_index (mn_prop t q (Mnode False i s p None None)) = mn_index t"
  using assms
proof (induction q arbitrary: t)
  case Nil
  then show ?case by auto
next
  case (Cons b q)
  from Cons.prems(1) show ?case
  proof (cases rule: mn_wf_cases)
    case (split j z r n0 n1)
    let ?c = "if b then n1 else n0"
    let ?d = "mn_prop ?c q (Mnode False i s p None None)"
    have IH: "mn_wf ?d \<and> mn_blocks ?d = mn_blocks ?c - {q} \<and> mn_size ?d = mn_size ?c \<and>
        mn_ptr ?d = mn_ptr ?c \<and> mn_index ?d = mn_index ?c"
      by (rule Cons.IH) (use Cons.prems split in \<open>auto split: if_splits\<close>)
    have leaf: "mn_blocks n = {}" if "mn_wf n" "\<not> mn_allocated n" for n
      using that by (cases rule: mn_wf_cases) auto
    show ?thesis
    proof (cases b)
      case True
      with IH split Cons.prems(1) leaf [of n0] leaf [of ?d] show ?thesis
        by (auto simp: Let_def)
    next
      case False
      with IH split Cons.prems(1) leaf [of n1] leaf [of ?d] show ?thesis
        by (auto simp: Let_def)
    qed
  qed (use Cons in \<open>auto split: if_splits\<close>)
qed

lemma mn_free_wf:
  assumes "mn_wf t" "q \<in> mn_blocks t"
  shows "mn_wf (mn_free t q)" "mn_blocks (mn_free t q) = mn_blocks t - {q}"
    "mn_size (mn_free t q) = mn_size t" "mn_ptr (mn_free t q) = mn_ptr t"
proof -
  obtain i s p where n: "mn_at t q = Some (Mnode True i s p None None)"
    using assms by (auto simp: mn_blocks_at)
  from mn_prop_blocks [OF assms(1) n] n
  show "mn_wf (mn_free t q)" "mn_blocks (mn_free t q) = mn_blocks t - {q}"
    "mn_size (mn_free t q) = mn_size t" "mn_ptr (mn_free t q) = mn_ptr t"
    by (simp_all add: mn_free_def)
qed

subsection \<open>Extents\<close>

text \<open>The address range of a node depends only on its path and on the range of the root.\<close>

fun mn_ext :: "addr \<Rightarrow> nat \<Rightarrow> mpath \<Rightarrow> addr \<times> nat" where
  "mn_ext p s [] = (p, s)"
| "mn_ext p s (b # q) = mn_ext (if b then p + s div 2 else p) (s div 2) q"

definition mn_range :: "ufp_mnode \<Rightarrow> mpath \<Rightarrow> addr set" where
  "mn_range t q = (case mn_ext (mn_ptr t) (mn_size t) q of (p, s) \<Rightarrow> {p ..< p + s})"

lemma mn_ext_at:
  "mn_wf t \<Longrightarrow> mn_at t q = Some n \<Longrightarrow> mn_ext (mn_ptr t) (mn_size t) q = (mn_ptr n, mn_size n)"
proof (induction q arbitrary: t)
  case (Cons b q)
  from Cons.prems(1) show ?case
  proof (cases rule: mn_wf_cases)
    case (split i s p n0 n1)
    have "mn_ext (mn_ptr (if b then n1 else n0)) (mn_size (if b then n1 else n0)) q =
      (mn_ptr n, mn_size n)"
      by (rule Cons.IH) (use Cons.prems split in \<open>auto split: if_splits\<close>)
    with split Cons.prems(1) show ?thesis by (cases b) auto
  qed (use Cons in \<open>auto split: if_splits\<close>)
qed simp

lemma mn_ext_within:
  "mn_ext p s q = (p', s') \<Longrightarrow> p \<le> p' \<and> p' + s' \<le> p + s"
proof (induction q arbitrary: p s)
  case (Cons b q)
  from Cons.IH [of "if b then p + s div 2 else p" "s div 2"] Cons.prems
  have "(if b then p + s div 2 else p) \<le> p' \<and> p' + s' \<le> (if b then p + s div 2 else p) + s div 2"
    by simp
  then show ?case by (cases b) auto
qed simp

lemma mn_ext_disjoint:
  assumes "mn_wf t" "q \<in> mn_blocks t" "r \<in> mn_blocks t" "q \<noteq> r"
  shows "mn_range t q \<inter> mn_range t r = {}"
  using assms
proof (induction q arbitrary: t r)
  case Nil
  then show ?case by (cases rule: mn_wf_cases) (auto split: if_splits)
next
  case (Cons b q)
  from Cons.prems(1) show ?case
  proof (cases rule: mn_wf_cases)
    case (split i s p n0 n1)
    with Cons.prems(3) obtain c r' where r: "r = c # r'" by auto
    show ?thesis
    proof (cases "b = c")
      case True
      let ?c = "if b then n1 else n0"
      have "mn_range ?c q \<inter> mn_range ?c r' = {}"
        by (rule Cons.IH) (use Cons.prems split r True in \<open>auto split: if_splits\<close>)
      with split Cons.prems(1) r True show ?thesis by (auto simp: mn_range_def split: if_splits)
    next
      case False
      obtain pq sq pr sr where e:
        "mn_ext (if b then p + s div 2 else p) (s div 2) q = (pq, sq)"
        "mn_ext (if c then p + s div 2 else p) (s div 2) r' = (pr, sr)" by fastforce
      from mn_ext_within [OF e(1)] mn_ext_within [OF e(2)] False e split r show ?thesis
        by (auto simp: mn_range_def split: if_splits)
    qed
  qed (use Cons in \<open>auto split: if_splits\<close>)
qed

subsection \<open>The pool as clients see it\<close>

definition mp_live :: "ufp_mpool \<Rightarrow> addr set" where
  "mp_live mp = (\<lambda>h. h + size_header) ` dom (mp_hdr mp)"

text \<open>A pool is well-formed also in that the coming calls of \<open>malloc\<close> for its nodes succeed.\<close>

definition mp_wf :: "ufp_mpool \<Rightarrow> bool" where
  "mp_wf mp \<longleftrightarrow> mn_wf (mp_node mp) \<and> malloc_ok (mp_mallocs mp) \<and>
     ran (mp_hdr mp) = mn_blocks (mp_node mp) \<and> inj_on (mp_hdr mp) (dom (mp_hdr mp)) \<and>
     (\<forall>h q. mp_hdr mp h = Some q \<longrightarrow> h \<in> mn_range (mp_node mp) q)"

text \<open>The memory a live address owns: the range of its node, header included.\<close>

definition mp_range :: "ufp_mpool \<Rightarrow> addr \<Rightarrow> addr set" where
  "mp_range mp a =
     (case mp_hdr mp (a - size_header) of None \<Rightarrow> {} | Some q \<Rightarrow> mn_range (mp_node mp) q)"

lemma mp_live_iff: "a \<in> mp_live mp \<longleftrightarrow> size_header \<le> a \<and> mp_hdr mp (a - size_header) \<noteq> None"
  by (auto simp: mp_live_def image_iff) (metis domI le_add_diff_inverse2)

lemma mp_hdr_range_disjoint:
  assumes "mp_wf mp" "mp_hdr mp h = Some q" "mp_hdr mp k = Some r" "h \<noteq> k"
  shows "mn_range (mp_node mp) q \<inter> mn_range (mp_node mp) r = {}"
proof (rule mn_ext_disjoint)
  show "mn_wf (mp_node mp)" "q \<in> mn_blocks (mp_node mp)" "r \<in> mn_blocks (mp_node mp)"
    using assms by (auto simp: mp_wf_def ran_def)
  show "q \<noteq> r" using assms by (auto simp: mp_wf_def inj_on_def dom_def)
qed

lemma mp_live_disjoint:
  assumes "mp_wf mp" "a \<in> mp_live mp" "b \<in> mp_live mp" "a \<noteq> b"
  shows "mp_range mp a \<inter> mp_range mp b = {}"
proof -
  obtain q r where "mp_hdr mp (a - size_header) = Some q" "mp_hdr mp (b - size_header) = Some r"
    using assms(2,3) by (auto simp: mp_live_iff)
  moreover have "a - size_header \<noteq> b - size_header"
    using assms(2-4) by (auto simp: mp_live_iff)
  ultimately show ?thesis using mp_hdr_range_disjoint [OF assms(1)] by (simp add: mp_range_def)
qed

text \<open>A successful allocation, for either of the two entry points.\<close>

definition alloc_ok :: "ufp_mpool \<Rightarrow> nat \<Rightarrow> addr \<Rightarrow> addr \<Rightarrow> ufp_mpool \<Rightarrow> bool" where
  "alloc_ok mp tot ptr a mp' \<longleftrightarrow>
     mp_wf mp' \<and> a \<notin> mp_live mp \<and> mp_live mp' = insert a (mp_live mp) \<and>
     (\<forall>b \<in> mp_live mp. mp_range mp' b = mp_range mp b) \<and>
     {ptr ..< ptr + tot} \<subseteq> mp_range mp' a \<and> mp_range mp' a \<subseteq> mn_range (mp_node mp) [] \<and>
     ufp_mem_free mp' a = Some (mp\<lparr>mp_mallocs := mp_mallocs mp'\<rparr>)"

lemma mem_alloc_at_spec:
  assumes wf: "mp_wf mp" and tot: "0 < tot" and off: "\<And>n. tot \<le> mn_size n \<Longrightarrow> offset n < tot"
  shows "(\<exists>ms. mem_alloc_at mp tot offset = Some (None, mp\<lparr>mp_mallocs := ms\<rparr>) \<and> malloc_ok ms \<and>
            (\<forall>f \<in> mn_free_sizes (mp_node mp). f < tot)) \<or>
         (\<exists>n mp'. mem_alloc_at mp tot offset =
              Some (Some (mn_ptr n + offset n + size_header), mp') \<and>
            alloc_ok mp tot (mn_ptr n) (mn_ptr n + offset n + size_header) mp' \<and> tot \<le> mn_size n)"
proof -
  let ?t = "mp_node mp"
  have inv: "mn_wf ?t" "malloc_ok (mp_mallocs mp)" "ran (mp_hdr mp) = mn_blocks ?t"
    "inj_on (mp_hdr mp) (dom (mp_hdr mp))" "\<And>h q. mp_hdr mp h = Some q \<Longrightarrow> h \<in> mn_range ?t q"
    using wf by (auto simp: mp_wf_def)
  obtain r t' ms where res: "ufp_mem_alloc_node (mp_mallocs mp) ?t tot = (r, t', ms)"
    by (cases "ufp_mem_alloc_node (mp_mallocs mp) ?t tot") auto
  note post = alloc_node_post [OF inv(1,2) tot, unfolded res alloc_post_def, simplified]
  show ?thesis
  proof (cases r)
    case None
    with post have "t' = ?t" "\<forall>f \<in> mn_free_sizes ?t. f < tot" "malloc_ok ms"
      by (auto simp: alloc_none_def)
    with None res tot show ?thesis by (auto simp: mem_alloc_at_def)
  next
    case (Some q)
    with post have found: "alloc_found ?t tot q t'" and ms: "malloc_ok ms" by auto
    then obtain i s p where at: "mn_at t' q = Some (Mnode True i s p None None)"
      and s: "tot \<le> s" and wf': "mn_wf t'" and ptr: "mn_ptr t' = mn_ptr ?t" "mn_size t' = mn_size ?t"
      and new: "q \<notin> mn_blocks ?t" "mn_blocks t' = insert q (mn_blocks ?t)" and fr: "mn_free t' q = ?t"
      by (auto simp: alloc_found_def)
    let ?n = "Mnode True i s p None None"
    let ?h = "p + offset ?n"
    let ?mp' = "mp\<lparr>mp_node := t', mp_mallocs := ms, mp_hdr := (mp_hdr mp)(?h \<mapsto> q)\<rparr>"
    have rng: "mn_range t' = mn_range ?t" using ptr by (auto simp: mn_range_def fun_eq_iff)
    have rq: "mn_range ?t q = {p ..< p + s}"
      using mn_ext_at [OF wf' at] ptr by (simp add: mn_range_def)
    have hq: "?h \<in> mn_range ?t q" using off [of ?n] s by (simp add: rq)
    have fresh: "mp_hdr mp ?h = None"
    proof (rule ccontr)
      assume "mp_hdr mp ?h \<noteq> None"
      then obtain r where r: "mp_hdr mp ?h = Some r" by auto
      then have "r \<in> mn_blocks ?t" using inv(3) by (auto simp: ran_def)
      with new have "r \<noteq> q" "r \<in> mn_blocks t'" "q \<in> mn_blocks t'" by auto
      then have "mn_range t' q \<inter> mn_range t' r = {}" using mn_ext_disjoint [OF wf'] by auto
      with hq inv(5) [OF r] rng show False by auto
    qed
    have qran: "q \<notin> ran (mp_hdr mp)" using new inv(3) by simp
    have wfm: "mp_wf ?mp'"
      unfolding mp_wf_def
      using wf' ms inv fresh new hq rng qran inj_map_upd [OF inv(4) qran] by auto
    have res': "mem_alloc_at mp tot offset = Some (Some (?h + size_header), ?mp')"
      using res Some at tot by (simp add: mem_alloc_at_def Let_def)
    have live: "mp_live ?mp' = insert (?h + size_header) (mp_live mp)"
      "?h + size_header \<notin> mp_live mp"
      using fresh by (auto simp: mp_live_def)
    have ranges: "mp_range ?mp' b = mp_range mp b" if "b \<in> mp_live mp" for b
      using that fresh rng by (auto simp: mp_range_def mp_live_iff)
    have own: "mp_range ?mp' (?h + size_header) = {p ..< p + s}"
      using rng rq by (simp add: mp_range_def)
    have within: "{p ..< p + s} \<subseteq> mn_range ?t []"
      using mn_ext_within [of "mn_ptr ?t" "mn_size ?t" q p s] mn_ext_at [OF wf' at] ptr
      by (auto simp: mn_range_def)
    have "ufp_mem_free ?mp' (?h + size_header) = Some (mp\<lparr>mp_mallocs := ms\<rparr>)"
      using free_node_eq [OF wf', of q] new fr fun_upd_idem [of "mp_hdr mp" ?h None] fresh
      by (simp add: ufp_mem_free_def)
    then have "alloc_ok mp tot p (?h + size_header) ?mp'"
      unfolding alloc_ok_def using wfm live ranges own within s by auto
    with res' s show ?thesis by (intro disjI2 exI [of _ ?n] exI [of _ ?mp']) simp
  qed
qed

lemma mem_free_spec:
  assumes wf: "mp_wf mp" and a: "a \<in> mp_live mp"
  shows "\<exists>mp'. ufp_mem_free mp a = Some mp' \<and> mp_wf mp' \<and> mp_live mp' = mp_live mp - {a} \<and>
    (\<forall>b \<in> mp_live mp'. mp_range mp' b = mp_range mp b)"
proof -
  let ?t = "mp_node mp"
  let ?h = "a - size_header"
  obtain q where q: "mp_hdr mp ?h = Some q" and sz: "size_header \<le> a"
    using a by (auto simp: mp_live_iff)
  have inv: "mn_wf ?t" "malloc_ok (mp_mallocs mp)" "ran (mp_hdr mp) = mn_blocks ?t"
    "inj_on (mp_hdr mp) (dom (mp_hdr mp))" "\<And>h q. mp_hdr mp h = Some q \<Longrightarrow> h \<in> mn_range ?t q"
    using wf by (auto simp: mp_wf_def)
  have blk: "q \<in> mn_blocks ?t" using q inv(3) by (auto simp: ran_def)
  note f = mn_free_wf [OF inv(1) blk]
  let ?mp' = "mp\<lparr>mp_node := mn_free ?t q, mp_hdr := (mp_hdr mp)(?h := None)\<rparr>"
  have rng: "mn_range (mn_free ?t q) = mn_range ?t" using f by (auto simp: mn_range_def fun_eq_iff)
  have "ufp_mem_free mp a = Some ?mp'"
    using q sz free_node_eq [OF inv(1) blk] by (simp add: ufp_mem_free_def)
  moreover have "mp_wf ?mp'"
    unfolding mp_wf_def using inv f rng ran_map_del [OF inv(4) q] inj_map_del [OF inv(4)] by auto
  moreover have live: "mp_live ?mp' = mp_live mp - {a}"
    using sz by (auto simp: mp_live_iff split: if_splits)
  moreover have "\<forall>b \<in> mp_live ?mp'. mp_range ?mp' b = mp_range mp b"
    using rng by (auto simp: mp_range_def mp_live_iff)
  ultimately show ?thesis by blast
qed

subsection \<open>The interface of the pool\<close>

text \<open>
  What the tables of the forwarding application rely on: allocation hands out an address that is
  not in use, freeing an address in use always works and removes exactly that address.
\<close>

locale mem_pool =
  fixes alloc :: "'m \<Rightarrow> nat \<Rightarrow> (addr option \<times> 'm) option"
    and release :: "'m \<Rightarrow> addr \<Rightarrow> 'm option"
    and live :: "'m \<Rightarrow> addr set"
    and inv :: "'m \<Rightarrow> bool"
    and ok_size :: "nat \<Rightarrow> bool"
  assumes alloc_total: "inv m \<Longrightarrow> ok_size n \<Longrightarrow> \<exists>r m'. alloc m n = Some (r, m') \<and> inv m'"
    and alloc_fresh: "inv m \<Longrightarrow> ok_size n \<Longrightarrow> alloc m n = Some (Some a, m') \<Longrightarrow>
          inv m' \<and> a \<notin> live m \<and> live m' = insert a (live m)"
    and alloc_fail: "inv m \<Longrightarrow> ok_size n \<Longrightarrow> alloc m n = Some (None, m') \<Longrightarrow>
          inv m' \<and> live m' = live m"
    and release_live: "inv m \<Longrightarrow> a \<in> live m \<Longrightarrow>
          \<exists>m'. release m a = Some m' \<and> inv m' \<and> live m' = live m - {a}"
begin

text \<open>Releasing a list of distinct live addresses, in any order, never fails.\<close>

primrec release_all :: "'m \<Rightarrow> addr list \<Rightarrow> 'm option" where
  "release_all m [] = Some m"
| "release_all m (a # as) = (case release m a of None \<Rightarrow> None | Some m' \<Rightarrow> release_all m' as)"

lemma release_all_live:
  assumes "inv m" "distinct as" "set as \<subseteq> live m"
  shows "\<exists>m'. release_all m as = Some m' \<and> inv m' \<and> live m' = live m - set as"
  using assms
proof (induction as arbitrary: m)
  case (Cons a as)
  obtain m1 where m1: "release m a = Some m1" "inv m1" "live m1 = live m - {a}"
    using release_live [OF Cons.prems(1), of a] Cons.prems(3) by auto
  with Cons.prems have "set as \<subseteq> live m1" by auto
  with Cons.IH [OF m1(2)] Cons.prems(2) obtain m2 where
    "release_all m1 as = Some m2" "inv m2" "live m2 = live m1 - set as" by auto
  with m1 show ?case by auto
qed simp

text \<open>What every release keeps of the state, the releases of a list keep.\<close>

lemma release_all_keep:
  assumes "inv m" "distinct as" "set as \<subseteq> live m" "release_all m as = Some m'"
    and keep: "\<And>m a m'. inv m \<Longrightarrow> a \<in> live m \<Longrightarrow> release m a = Some m' \<Longrightarrow> f m' = f m"
  shows "f m' = f m"
  using assms(1-4)
proof (induction as arbitrary: m)
  case (Cons a as)
  obtain m1 where m1: "release m a = Some m1" "inv m1" "live m1 = live m - {a}"
    using release_live [OF Cons.prems(1), of a] Cons.prems(3) by auto
  have "f m' = f m1" by (rule Cons.IH) (use Cons.prems m1 in auto)
  also have "\<dots> = f m" by (rule keep) (use Cons.prems m1 in auto)
  finally show ?case .
qed simp

end

definition mem_size_ok :: "nat \<Rightarrow> bool" where
  "mem_size_ok n \<longleftrightarrow> size_header + n < size_t_mod"

lemma ufp_mem_alloc_cases:
  assumes "mp_wf mp" "mem_size_ok n"
  obtains (none) ms where "ufp_mem_alloc mp n = Some (None, mp\<lparr>mp_mallocs := ms\<rparr>)" "malloc_ok ms"
      "\<forall>f \<in> mn_free_sizes (mp_node mp). f < size_header + n"
    | (some) a mp' where "ufp_mem_alloc mp n = Some (Some a, mp')" "size_header \<le> a"
      "alloc_ok mp (size_header + n) (a - size_header) a mp'"
proof -
  have tot: "(size_header + n) mod size_t_mod = size_header + n" "0 < size_header + n"
    using assms(2) by (auto simp: mem_size_ok_def size_header_def)
  show ?thesis
    using mem_alloc_at_spec [OF assms(1) tot(2), of "\<lambda>_. 0"] none some tot
    unfolding ufp_mem_alloc_def by (auto simp: size_header_def)
qed

lemma mp_live_mallocs [simp]: "mp_live (mp\<lparr>mp_mallocs := ms\<rparr>) = mp_live mp"
  by (simp add: mp_live_def)

lemma mp_wf_mallocs: "mp_wf mp \<Longrightarrow> malloc_ok ms \<Longrightarrow> mp_wf (mp\<lparr>mp_mallocs := ms\<rparr>)"
  by (simp add: mp_wf_def)

lemma ufp_mem_alloc_total:
  assumes "mp_wf mp" "mem_size_ok n"
  shows "\<exists>r mp'. ufp_mem_alloc mp n = Some (r, mp') \<and> mp_wf mp'"
  using assms(1,2) by (rule ufp_mem_alloc_cases) (use assms in \<open>auto simp: alloc_ok_def mp_wf_mallocs\<close>)

lemma ufp_mem_alloc_fresh:
  assumes "mp_wf mp" "mem_size_ok n" "ufp_mem_alloc mp n = Some (Some a, mp')"
  shows "mp_wf mp' \<and> a \<notin> mp_live mp \<and> mp_live mp' = insert a (mp_live mp)"
  using assms(1,2) by (rule ufp_mem_alloc_cases) (use assms in \<open>auto simp: alloc_ok_def\<close>)

lemma ufp_mem_alloc_fail:
  assumes "mp_wf mp" "mem_size_ok n" "ufp_mem_alloc mp n = Some (None, mp')"
  shows "mp_wf mp' \<and> mp_live mp' = mp_live mp"
  using assms(1,2) by (rule ufp_mem_alloc_cases) (use assms in \<open>auto simp: mp_wf_mallocs\<close>)

interpretation pool: mem_pool ufp_mem_alloc ufp_mem_free mp_live mp_wf mem_size_ok
  by unfold_locales
     (use ufp_mem_alloc_total ufp_mem_alloc_fresh ufp_mem_alloc_fail mem_free_spec in blast)+

lemma finite_mn_blocks: "finite (mn_blocks t)"
  by (induction t rule: mn_blocks.induct) simp_all

lemma finite_mp_live: "mp_wf mp \<Longrightarrow> finite (mp_live mp)"
proof -
  assume wf: "mp_wf mp"
  have "mp_hdr mp ` dom (mp_hdr mp) = Some ` mn_blocks (mp_node mp)"
    using wf by (force simp: mp_wf_def ran_def dom_def image_iff)
  then have "finite (mp_hdr mp ` dom (mp_hdr mp))" by (simp add: finite_mn_blocks)
  then have "finite (dom (mp_hdr mp))" using wf by (auto simp: mp_wf_def dest: finite_imageD)
  then show ?thesis by (simp add: mp_live_def)
qed

lemma pool_all_free:
  assumes "mp_wf mp" "mp_live mp = {}"
  shows "\<exists>i s p. mp_node mp = Mnode False i s p None None"
proof -
  have empty: "mn_blocks (mp_node mp) = {}" "mn_wf (mp_node mp)"
    using assms by (auto simp: mp_live_def mp_wf_def ran_def dom_def)
  have some: "mn_blocks t \<noteq> {}" if "mn_wf t" "mn_allocated t" for t
    using that by (induction t rule: mn_wf.induct) auto
  from empty(2) show ?thesis
    by (cases rule: mn_wf_cases) (use empty some [of "mp_node mp"] in \<open>auto split: if_splits\<close>)
qed

text \<open>The place and the size of the whole pool.\<close>

definition mem_root :: "ufp_mpool \<Rightarrow> addr \<times> nat" where
  "mem_root mp = (mn_ptr (mp_node mp), mn_size (mp_node mp))"

lemma mem_free_root:
  assumes "mp_wf mp" "ufp_mem_free mp a = Some mp'"
  shows "mem_root mp' = mem_root mp"
proof -
  obtain q where q: "mp_hdr mp (a - size_header) = Some q"
    using assms(2) by (auto simp: ufp_mem_free_def Let_def split: if_splits option.splits)
  then have "q \<in> mn_blocks (mp_node mp)" "mn_wf (mp_node mp)" using assms(1) by (auto simp: mp_wf_def ran_def)
  then show ?thesis using assms(2) q free_node_eq mn_free_wf(3,4)
    by (auto simp: ufp_mem_free_def mem_root_def Let_def split: if_splits option.splits)
qed

subsection \<open>Properties\<close>

definition pool_ex :: ufp_mpool where
  "pool_ex = \<lparr>mp_node = Mnode False 0 4096 4096 None None, mp_addr_virt = 4096,
              mp_hdr = Map.empty, mp_mallocs = []\<rparr>"

lemma pool_ex_wf: "mp_wf pool_ex" "mp_live pool_ex = {}"
  by (auto simp: pool_ex_def mp_wf_def mp_live_def)

lemma pool_ex_alloc: "\<exists>mp'. ufp_mem_alloc pool_ex 100 = Some (Some 4104, mp')"
  by (simp add: ufp_mem_alloc_def mem_alloc_at_def pool_ex_def size_header_def size_t_mod_def
      ufp_mem_alloc_node.simps mem_split_def ufp_mnode_alloc_def Let_def)

text \<open>C4. On a well-formed pool \<open>ufp_mem_alloc\<close> always returns. A null result means that no free
  block of the pool is large enough for the request and its header; the pool's blocks are
  unchanged. Otherwise the result is an address not in use before, the \<open>n\<close> bytes behind it and
  its header lie inside one range of the pool, that range meets the range of no other block in
  use, and the ranges of the other blocks are unchanged.\<close>

theorem mem_alloc_sound:
  assumes "mp_wf mp" "size_header + n < size_t_mod"
  shows "\<exists>r mp'. ufp_mem_alloc mp n = Some (r, mp') \<and> mp_wf mp' \<and>
    (case r of
       None \<Rightarrow> mp_node mp' = mp_node mp \<and> mp_hdr mp' = mp_hdr mp \<and>
         (\<forall>f \<in> mn_free_sizes (mp_node mp). f < size_header + n)
     | Some a \<Rightarrow> a \<notin> mp_live mp \<and> mp_live mp' = insert a (mp_live mp) \<and>
         {a - size_header ..< a + n} \<subseteq> mp_range mp' a \<and>
         mp_range mp' a \<subseteq> mn_range (mp_node mp) [] \<and>
         (\<forall>b \<in> mp_live mp. mp_range mp' b = mp_range mp b \<and> mp_range mp' a \<inter> mp_range mp' b = {}))"
proof -
  have ok: "mem_size_ok n" using assms(2) by (simp add: mem_size_ok_def)
  from assms(1) ok show ?thesis
  proof (cases rule: ufp_mem_alloc_cases)
    case (none ms)
    with assms(1) show ?thesis by (auto simp: mp_wf_mallocs)
  next
    case (some a mp')
    then have ao: "mp_wf mp'" "mp_live mp' = insert a (mp_live mp)" "a \<notin> mp_live mp"
      by (auto simp: alloc_ok_def)
    have "mp_range mp' a \<inter> mp_range mp' b = {}" if "b \<in> mp_live mp" for b
      using mp_live_disjoint [OF ao(1), of a b] ao that by auto
    with some ao show ?thesis by (auto simp: alloc_ok_def)
  qed
qed

theorem mem_alloc_sound_witness:
  "mp_wf pool_ex \<and> size_header + 100 < size_t_mod \<and>
   (\<exists>mp'. ufp_mem_alloc pool_ex 100 = Some (Some 4104, mp') \<and> mp_wf mp')"
proof -
  have h: "size_header + 100 < size_t_mod" by (simp add: size_header_def size_t_mod_def)
  from mem_alloc_sound [OF pool_ex_wf(1) h] pool_ex_alloc h pool_ex_wf(1) show ?thesis by auto
qed

lemma mem_alloc_align_spec:
  assumes "mp_wf mp" "0 < pagesize" "max align pagesize + size_header + n < size_t_mod"
  shows "\<exists>r mp'. ufp_mem_alloc_align pagesize mp n align = Some (r, mp') \<and> mp_wf mp' \<and>
    (case r of
       None \<Rightarrow> mp_live mp' = mp_live mp
     | Some a \<Rightarrow> a mod (max align pagesize) = 0 \<and> a \<notin> mp_live mp \<and>
         mp_live mp' = insert a (mp_live mp) \<and> {a - size_header ..< a + n} \<subseteq> mp_range mp' a \<and>
         (\<forall>b \<in> mp_live mp. mp_range mp' a \<inter> mp_range mp' b = {}))"
proof -
  let ?al = "max align pagesize" and ?tot = "max align pagesize + size_header + n"
  let ?off = "\<lambda>m. ?al - (mn_ptr m + size_header) mod ?al"
  have al: "0 < ?al" using assms(2) by simp
  have tot: "?tot mod size_t_mod = ?tot" "0 < ?tot"
    using assms(3) by (auto simp: size_header_def)
  have eq: "ufp_mem_alloc_align pagesize mp n align = mem_alloc_at mp ?tot ?off"
    by (simp add: ufp_mem_alloc_align_def Let_def tot)
  have "?off m < ?tot" for m by (simp add: size_header_def trans_less_add1 le_less_trans)
  from mem_alloc_at_spec [OF assms(1) tot(2), of ?off, OF this] show ?thesis
  proof (elim disjE exE conjE)
    fix ms assume "mem_alloc_at mp ?tot ?off = Some (None, mp\<lparr>mp_mallocs := ms\<rparr>)" "malloc_ok ms"
    with assms(1) eq show ?thesis by (auto simp: mp_wf_mallocs)
  next
    fix m mp'
    define a where "a = mn_ptr m + ?off m + size_header"
    assume "mem_alloc_at mp ?tot ?off = Some (Some (mn_ptr m + ?off m + size_header), mp')"
      and "alloc_ok mp ?tot (mn_ptr m) (mn_ptr m + ?off m + size_header) mp'"
    then have res: "mem_alloc_at mp ?tot ?off = Some (Some a, mp')"
      and ok: "alloc_ok mp ?tot (mn_ptr m) a mp'" by (simp_all add: a_def)
    have "a = (mn_ptr m + size_header) + (?al - (mn_ptr m + size_header) mod ?al)"
      by (simp add: a_def)
    also have "\<dots> mod ?al = 0"
      by (rule align_up_mod [OF al])
    finally have mod: "a mod ?al = 0" .
    have "{a - size_header ..< a + n} \<subseteq> {mn_ptr m ..< mn_ptr m + ?tot}" by (auto simp: a_def)
    then have sub: "{a - size_header ..< a + n} \<subseteq> mp_range mp' a"
      using ok by (auto simp: alloc_ok_def)
    have dis: "mp_range mp' a \<inter> mp_range mp' b = {}" if "b \<in> mp_live mp" for b
      using mp_live_disjoint [of mp' a b] ok that by (auto simp: alloc_ok_def)
    show ?thesis
      unfolding eq res using ok mod sub dis by (simp add: alloc_ok_def)
  qed
qed

text \<open>C7. \<open>ufp_mem_alloc_align\<close> on a well-formed pool always returns, and a non-null result is a
  multiple of the alignment (never less than the page size) with its header and \<open>n\<close> bytes inside
  a range of the pool that no other block in use meets.\<close>

theorem mem_alloc_align_sound:
  assumes "mp_wf mp" "0 < pagesize" "max align pagesize + size_header + n < size_t_mod"
  shows "\<exists>r mp'. ufp_mem_alloc_align pagesize mp n align = Some (r, mp') \<and> mp_wf mp' \<and>
    (case r of
       None \<Rightarrow> mp_live mp' = mp_live mp
     | Some a \<Rightarrow> a mod (max align pagesize) = 0 \<and> a \<notin> mp_live mp \<and>
         mp_live mp' = insert a (mp_live mp) \<and> {a - size_header ..< a + n} \<subseteq> mp_range mp' a \<and>
         (\<forall>b \<in> mp_live mp. mp_range mp' a \<inter> mp_range mp' b = {}))"
  using assms by (rule mem_alloc_align_spec)

theorem mem_alloc_align_sound_witness:
  "mp_wf pool_ex \<and> (0::nat) < 64 \<and> max 64 64 + size_header + 100 < size_t_mod \<and>
   (\<exists>mp'. ufp_mem_alloc_align 64 pool_ex 100 64 = Some (Some 4160, mp') \<and> mp_wf mp')"
proof -
  have h: "(0::nat) < 64" "max 64 64 + size_header + 100 < size_t_mod"
    by (simp_all add: size_header_def size_t_mod_def)
  have r: "\<exists>mp'. ufp_mem_alloc_align 64 pool_ex 100 64 = Some (Some 4160, mp')"
    by (simp add: ufp_mem_alloc_align_def mem_alloc_at_def pool_ex_def size_header_def size_t_mod_def
        ufp_mem_alloc_node.simps mem_split_def ufp_mnode_alloc_def Let_def)
  from mem_alloc_align_sound [OF pool_ex_wf(1) h] r h pool_ex_wf(1) show ?thesis by auto
qed

text \<open>C5. Freeing an address in use never fails: the pool stays well-formed, exactly that address
  leaves the set in use and the ranges of the other blocks are unchanged. Freeing an address right
  after it was allocated restores the tree and the headers as they were: every split is undone.\<close>

theorem mem_free_sound:
  assumes "mp_wf mp" "a \<in> mp_live mp"
  shows "\<exists>mp'. ufp_mem_free mp a = Some mp' \<and> mp_wf mp' \<and> mp_live mp' = mp_live mp - {a} \<and>
    (\<forall>b \<in> mp_live mp'. mp_range mp' b = mp_range mp b) \<and>
    (\<forall>mp0 n. mp_wf mp0 \<longrightarrow> size_header + n < size_t_mod \<longrightarrow> ufp_mem_alloc mp0 n = Some (Some a, mp) \<longrightarrow>
       mp_node mp' = mp_node mp0 \<and> mp_hdr mp' = mp_hdr mp0)"
proof -
  obtain mp' where mp': "ufp_mem_free mp a = Some mp'" "mp_wf mp'" "mp_live mp' = mp_live mp - {a}"
    "\<forall>b \<in> mp_live mp'. mp_range mp' b = mp_range mp b"
    using mem_free_spec [OF assms] by blast
  have "mp_node mp' = mp_node mp0 \<and> mp_hdr mp' = mp_hdr mp0"
    if "mp_wf mp0" "size_header + n < size_t_mod" "ufp_mem_alloc mp0 n = Some (Some a, mp)" for mp0 n
  proof -
    have "mem_size_ok n" using that(2) by (simp add: mem_size_ok_def)
    with that(1) show ?thesis
      by (rule ufp_mem_alloc_cases) (use that(3) mp'(1) in \<open>auto simp: alloc_ok_def\<close>)
  qed
  with mp' show ?thesis by blast
qed

theorem mem_free_sound_witness:
  "\<exists>mp. ufp_mem_alloc pool_ex 100 = Some (Some 4104, mp) \<and> mp_wf mp \<and> 4104 \<in> mp_live mp \<and>
     (\<exists>mp'. ufp_mem_free mp 4104 = Some mp' \<and> mp_node mp' = mp_node pool_ex \<and>
            mp_hdr mp' = mp_hdr pool_ex)"
proof -
  have h: "mem_size_ok 100" "size_header + 100 < size_t_mod"
    by (simp_all add: mem_size_ok_def size_header_def size_t_mod_def)
  obtain mp where mp: "ufp_mem_alloc pool_ex 100 = Some (Some 4104, mp)"
    using pool_ex_alloc by blast
  have "mp_wf mp" "4104 \<in> mp_live mp"
    using ufp_mem_alloc_fresh [OF pool_ex_wf(1) h(1) mp] by auto
  with mem_free_sound [of mp 4104] mp pool_ex_wf(1) h(2) show ?thesis by blast
qed

text \<open>C6. However a well-formed pool has been split, freeing its blocks in use, each once and in any order, never fails and undoes every split:
  the pool is one free node again, of its old place and size, and from then on every request that fits into the whole pool is served.\<close>

theorem mem_no_fragmentation:
  assumes "mp_wf mp" "distinct as" "set as = mp_live mp"
  shows "\<exists>mp' i. mem_pool.release_all ufp_mem_free mp as = Some mp' \<and> mp_wf mp' \<and> mp_live mp' = {} \<and>
    mp_node mp' = Mnode False i (mn_size (mp_node mp)) (mn_ptr (mp_node mp)) None None \<and>
    (\<forall>n. size_header + n \<le> mn_size (mp_node mp) \<longrightarrow> size_header + n < size_t_mod \<longrightarrow>
       (\<exists>a mp''. ufp_mem_alloc mp' n = Some (Some a, mp'') \<and> mp_live mp'' = {a}))"
proof -
  obtain mp' where mp': "mem_pool.release_all ufp_mem_free mp as = Some mp'" "mp_wf mp'" "mp_live mp' = {}"
    using pool.release_all_live [OF assms(1,2)] assms(3) by auto
  have "mem_root mp' = mem_root mp"
    by (rule pool.release_all_keep [OF assms(1,2) _ mp'(1)]) (use assms(3) mem_free_root in auto)
  then obtain i where node: "mp_node mp' = Mnode False i (mn_size (mp_node mp)) (mn_ptr (mp_node mp)) None None"
    using pool_all_free [OF mp'(2,3)] by (auto simp: mem_root_def)
  have "\<exists>a mp''. ufp_mem_alloc mp' n = Some (Some a, mp'') \<and> mp_live mp'' = {a}"
    if "size_header + n \<le> mn_size (mp_node mp)" "size_header + n < size_t_mod" for n
  proof -
    have "mem_size_ok n" using that(2) by (simp add: mem_size_ok_def)
    with mp'(2) show ?thesis
      by (rule ufp_mem_alloc_cases) (use that(1) node mp'(3) in \<open>auto simp: alloc_ok_def\<close>)
  qed
  with mp' node show ?thesis by blast
qed

theorem mem_no_fragmentation_witness:
  "\<exists>mp mp'. ufp_mem_alloc pool_ex 100 = Some (Some 4104, mp) \<and> mp_wf mp \<and> mp_live mp = {4104} \<and>
     mem_pool.release_all ufp_mem_free mp [4104] = Some mp' \<and> mp_live mp' = {}"
proof -
  have h: "mem_size_ok 100" by (simp add: mem_size_ok_def size_header_def size_t_mod_def)
  obtain mp where mp: "ufp_mem_alloc pool_ex 100 = Some (Some 4104, mp)"
    using pool_ex_alloc by blast
  have "mp_wf mp" "mp_live mp = {4104}"
    using ufp_mem_alloc_fresh [OF pool_ex_wf(1) h mp] pool_ex_wf(2) by auto
  with mem_no_fragmentation [of mp "[4104]"] mp show ?thesis by auto
qed

text \<open>Well-formed pools are those whose coming calls of \<open>malloc\<close> succeed. When one fails while a node is being split, \<open>_ufp_mem_alloc\<close> leaves a node that is
  not allocated but has children. In this example a later request takes that node as a block, and the next smaller
  request descends into its children: it returns the very address that is in use already.\<close>

lemma mem_alloc_oom_overlap:
  "\<exists>mp1 mp2 mp3.
     ufp_mem_alloc (pool_ex\<lparr>mp_node := Mnode False 0 64 4096 None None,
                            mp_mallocs := [True, True, False, False]\<rparr>) 8 = Some (None, mp1) \<and>
     ufp_mem_alloc mp1 40 = Some (Some 4104, mp2) \<and> 4104 \<in> mp_live mp2 \<and>
     ufp_mem_alloc mp2 16 = Some (Some 4104, mp3)"
  by (simp add: ufp_mem_alloc_def mem_alloc_at_def pool_ex_def size_header_def size_t_mod_def
      ufp_mem_alloc_node.simps mem_split_def ufp_mnode_alloc_def Let_def mp_live_def)

lemma destroy_set: "q \<in> set (ufp_mem_destroy t) \<longleftrightarrow> mn_at t q \<noteq> None"
proof (induction t q rule: mn_at.induct)
  case (1 n)
  then show ?case by (cases n) simp
next
  case (2 a i s p c0 c1 b q)
  then show ?case by (cases c0; cases c1; cases b) auto
qed

lemma destroy_distinct: "distinct (ufp_mem_destroy t)"
  by (induction t rule: ufp_mem_destroy.induct) (auto simp: distinct_map split: option.splits)

lemma destroy_order:
  "sorted_wrt (\<lambda>q r. \<not> (\<exists>x. x \<noteq> [] \<and> r = q @ x)) (ufp_mem_destroy t)"
proof (induction t rule: ufp_mem_destroy.induct)
  case (1 a i s p c0 c1)
  then show ?case
    by (cases c0; cases c1) (simp_all add: sorted_wrt_append sorted_wrt_map)
qed

text \<open>\<open>_ufp_mem_destroy\<close> hands every node structure of the tree to \<open>free\<close> exactly once, and a
  node only after all the nodes below it, so no freed node is dereferenced.\<close>

theorem mem_destroy_each_once:
  "distinct (ufp_mem_destroy t) \<and> set (ufp_mem_destroy t) = {q. mn_at t q \<noteq> None} \<and>
   sorted_wrt (\<lambda>q r. \<not> (\<exists>x. x \<noteq> [] \<and> r = q @ x)) (ufp_mem_destroy t)"
  using destroy_set destroy_distinct destroy_order by auto

end
