(* ===== verification/Lpm.thy ===== *)
theory Lpm
  imports Ufp_Mem
begin

text \<open>
  The longest-prefix-match table of the forwarding application (\<open>src/lpm.c\<close>, \<open>src/lpm.h\<close>).

  A table is a tree of arrays: 65536 nodes indexed by the first sixteen bits of an address, and
  below each node an optional array of 256 nodes for the next eight bits, and so on. A node holds
  the list of the entries (\<open>struct lpm_entry\<close>) that cover its slot. An entry is known by its own
  address in the memory pool and by the address of the client's object (\<open>ptr\<close>).

  A C pointer to an address or prefix is modelled by the bytes from that pointer on.
\<close>

subsection \<open>Data\<close>

type_synonym bytes = "nat \<Rightarrow> u8"

record lpm_entry =
  le_addr :: addr
  le_ptr :: addr

datatype lpm_node = Lnode
  (ln_head: "lpm_entry list")
  (ln_next: "(addr \<times> lpm_node list) option")

text \<open>The memory the table works on: the pool and the client's objects by address.\<close>

record 'e lpm_mem =
  lm_pool :: ufp_mpool
  lm_objs :: "addr \<rightharpoonup> 'e"

text \<open>The function pointers of \<open>struct lpm_table\<close>; none is a dereference of a dangling pointer.\<close>

record 'e lpm_ops =
  entry_identify :: "'e lpm_mem \<Rightarrow> addr \<Rightarrow> u32 \<Rightarrow> nat \<Rightarrow> int option"
  entry_compare :: "'e lpm_mem \<Rightarrow> addr \<Rightarrow> nat \<Rightarrow> int option"
  entry_pull :: "'e lpm_mem \<Rightarrow> addr \<Rightarrow> 'e lpm_mem option"
  entry_put :: "'e lpm_mem \<Rightarrow> addr \<Rightarrow> 'e lpm_mem option"

type_synonym lpm_table = "lpm_node list"

definition TABLE_SIZE_16 :: nat where
  "TABLE_SIZE_16 = 2 ^ 16"

definition TABLE_SIZE_8 :: nat where
  "TABLE_SIZE_8 = 2 ^ 8"

definition sizeof_lpm_entry :: nat where
  "sizeof_lpm_entry = 24"

definition sizeof_lpm_node :: nat where
  "sizeof_lpm_node = 16"

subsection \<open>Initialisation and indexing\<close>

definition lpm_init_node :: lpm_node where
  "lpm_init_node = Lnode [] None"

definition lpm_init :: lpm_table where
  "lpm_init = replicate TABLE_SIZE_16 lpm_init_node"

text \<open>\<open>ntohl(((uint32_t *)prefix)[word])\<close>: four bytes, most significant first.\<close>

definition ntohl_word :: "bytes \<Rightarrow> nat \<Rightarrow> u32" where
  "ntohl_word p w =
     push_bit 24 (ucast (p (4 * w))) OR push_bit 16 (ucast (p (4 * w + 1))) OR
     push_bit 8 (ucast (p (4 * w + 2))) OR ucast (p (4 * w + 3))"

text \<open>
  The prefix is a pointer of which the callers know the size; the read is of the word at \<open>offset div 32\<close>. The callers keep it inside of their memory: \<open>route_update_store\<close>
  refuses prefixes of more bits than its array has, so no table is deeper than 128 bits and a lookup reads at most 16 bytes behind the start of an address, inside the slot of the packet.
\<close>

definition lpm_index :: "bytes \<Rightarrow> nat \<Rightarrow> nat \<Rightarrow> u32" where
  "lpm_index prefix offset rng =
     (let shift = 32 - ((offset mod 32) + rng);
          wrd = offset div 32;
          mask = push_bit rng 1 - 1
      in drop_bit shift (ntohl_word prefix wrd) AND mask)"

text \<open>
  The slots written by the loops \<open>for(i = 0; i < range; i++) ... node[index | i]\<close> after
  \<open>index &= ~(range - 1)\<close> with \<open>range = 1 << bits\<close>.
\<close>

definition lpm_slots :: "u32 \<Rightarrow> nat \<Rightarrow> nat list" where
  "lpm_slots index bits =
     (let rng = push_bit bits 1 :: u32;
          mask = NOT (rng - 1);
          index' = index AND mask
      in map (\<lambda>i. unat (index' OR of_nat i)) [0 ..< unat rng])"

subsection \<open>Entries of one slot\<close>

text \<open>
  The scan of \<open>lpm_entry_insert\<close>: \<open>Inl\<close> when an entry with the same identity exists, otherwise the
  position after the last entry for which \<open>entry_compare\<close> holds (0 when \<open>prior\<close> stays null).
\<close>

fun lpm_insert_scan ::
  "'e lpm_ops \<Rightarrow> 'e lpm_mem \<Rightarrow> u32 \<Rightarrow> nat \<Rightarrow> lpm_entry list \<Rightarrow> nat \<Rightarrow> nat \<Rightarrow> (unit + nat) option" where
  "lpm_insert_scan ops m eid len [] pos prior = Some (Inr prior)"
| "lpm_insert_scan ops m eid len (e # es) pos prior =
     (case entry_identify ops m (le_ptr e) eid len of
        None \<Rightarrow> None
      | Some r \<Rightarrow>
          (if r = 0 then Some (Inl ())
           else case entry_compare ops m (le_ptr e) len of
             None \<Rightarrow> None
           | Some c \<Rightarrow>
               lpm_insert_scan ops m eid len es (Suc pos) (if c \<noteq> 0 then Suc pos else prior)))"

definition lpm_entry_insert ::
  "'e lpm_ops \<Rightarrow> 'e lpm_mem \<Rightarrow> lpm_entry list \<Rightarrow> u32 \<Rightarrow> nat \<Rightarrow> lpm_entry
   \<Rightarrow> (int \<times> 'e lpm_mem \<times> lpm_entry list) option" where
  "lpm_entry_insert ops m head eid len e =
     (case lpm_insert_scan ops m eid len head 0 0 of
        None \<Rightarrow> None
      | Some (Inl _) \<Rightarrow> Some (-1, m, head)
      | Some (Inr prior) \<Rightarrow>
          (case entry_pull ops m (le_ptr e) of
             None \<Rightarrow> None
           | Some m' \<Rightarrow> Some (0, m', take prior head @ e # drop prior head)))"

definition lpm_mem_free :: "'e lpm_mem \<Rightarrow> addr \<Rightarrow> 'e lpm_mem option" where
  "lpm_mem_free m a = map_option (\<lambda>mp. m\<lparr>lm_pool := mp\<rparr>) (ufp_mem_free (lm_pool m) a)"

definition lpm_entry_drop ::
  "'e lpm_ops \<Rightarrow> 'e lpm_mem \<Rightarrow> lpm_entry \<Rightarrow> 'e lpm_mem option" where
  "lpm_entry_drop ops m e =
     (case entry_put ops m (le_ptr e) of
        None \<Rightarrow> None
      | Some m1 \<Rightarrow> lpm_mem_free m1 (le_addr e))"

fun lpm_entry_delete ::
  "'e lpm_ops \<Rightarrow> 'e lpm_mem \<Rightarrow> lpm_entry list \<Rightarrow> u32 \<Rightarrow> nat
   \<Rightarrow> (int \<times> 'e lpm_mem \<times> lpm_entry list) option" where
  "lpm_entry_delete ops m [] eid len = Some (-1, m, [])"
| "lpm_entry_delete ops m (e # es) eid len =
     (case entry_identify ops m (le_ptr e) eid len of
        None \<Rightarrow> None
      | Some r \<Rightarrow>
          (if r = 0 then
             (case lpm_entry_drop ops m e of None \<Rightarrow> None | Some m' \<Rightarrow> Some (0, m', es))
           else
             (case lpm_entry_delete ops m es eid len of
                None \<Rightarrow> None
              | Some (ret, m', es') \<Rightarrow> Some (ret, m', e # es'))))"

fun lpm_entry_delete_all :: "'e lpm_ops \<Rightarrow> 'e lpm_mem \<Rightarrow> lpm_entry list \<Rightarrow> 'e lpm_mem option" where
  "lpm_entry_delete_all ops m [] = Some m"
| "lpm_entry_delete_all ops m (e # es) =
     (case lpm_entry_drop ops m e of
        None \<Rightarrow> None
      | Some m' \<Rightarrow> lpm_entry_delete_all ops m' es)"

subsection \<open>Lookup\<close>

text \<open>\<open>_lpm_lookup\<close>: the innermost outcome \<open>None\<close> is the null pointer.\<close>

lemma lpm_size_nth [termination_simp]:
  "i < length ns \<Longrightarrow> size (ns ! i) < Suc (size_list size ns)"
  by (metis le_imp_less_Suc less_or_eq_imp_le nth_mem size_list_estimation')

function lpm_lookup_node :: "bytes \<Rightarrow> lpm_node \<Rightarrow> nat \<Rightarrow> lpm_entry list option option" where
  "lpm_lookup_node dst (Lnode h None) offset = None"
| "lpm_lookup_node dst (Lnode h (Some (ta, ns))) offset =
     (let index = unat (lpm_index dst offset 8) in
      if length ns \<le> index then None
      else let node = ns ! index in
        if ln_next node \<noteq> None then
          (case lpm_lookup_node dst node (offset + 8) of
             None \<Rightarrow> None
           | Some head \<Rightarrow>
               Some (if head = None \<and> ln_head node \<noteq> [] then Some (ln_head node) else head))
        else Some (if ln_head node \<noteq> [] then Some (ln_head node) else None))"
  by pat_completeness auto
termination
  by (relation "measure (\<lambda>(dst, n, offset). size n)") (auto simp: not_le intro: less_SucI lpm_size_nth)

definition lpm_lookup :: "lpm_table \<Rightarrow> bytes \<Rightarrow> lpm_entry option option" where
  "lpm_lookup tab dst =
     (let index = unat (lpm_index dst 0 16) in
      if length tab \<le> index then None
      else let node = tab ! index in
        case (if ln_next node \<noteq> None then
                (case lpm_lookup_node dst node 16 of
                   None \<Rightarrow> None
                 | Some head \<Rightarrow> Some (case head of None \<Rightarrow> ln_head node | Some h \<Rightarrow> h))
              else Some (ln_head node)) of
          None \<Rightarrow> None
        | Some head \<Rightarrow> Some (case head of [] \<Rightarrow> None | e # es \<Rightarrow> Some e))"

subsection \<open>Adding a prefix\<close>

text \<open>
  The loop over the slots of a prefix: allocate an entry and insert it, slot by slot. The outcome
  says whether the loop ran to its end, and how many slots were done.
\<close>

definition lpm_slot_set :: "lpm_table \<Rightarrow> nat \<Rightarrow> lpm_entry list \<Rightarrow> lpm_table" where
  "lpm_slot_set ns j h = ns[j := Lnode h (ln_next (ns ! j))]"

fun lpm_fill ::
  "'e lpm_ops \<Rightarrow> u32 \<Rightarrow> nat \<Rightarrow> addr \<Rightarrow> nat list \<Rightarrow> 'e lpm_mem \<Rightarrow> lpm_table
   \<Rightarrow> (bool \<times> nat \<times> 'e lpm_mem \<times> lpm_table) option" where
  "lpm_fill ops eid len ptr [] m ns = Some (True, 0, m, ns)"
| "lpm_fill ops eid len ptr (j # js) m ns =
     (if length ns \<le> j then None
      else case ufp_mem_alloc (lm_pool m) sizeof_lpm_entry of
        None \<Rightarrow> None
      | Some (None, mp) \<Rightarrow> Some (False, 0, m\<lparr>lm_pool := mp\<rparr>, ns)
      | Some (Some ea, mp) \<Rightarrow>
          (case lpm_entry_insert ops (m\<lparr>lm_pool := mp\<rparr>) (ln_head (ns ! j)) eid len
                  \<lparr>le_addr = ea, le_ptr = ptr\<rparr> of
             None \<Rightarrow> None
           | Some (ret, m1, h) \<Rightarrow>
               (if ret < 0 then
                  (case lpm_mem_free m1 ea of None \<Rightarrow> None | Some m2 \<Rightarrow> Some (False, 0, m2, ns))
                else
                  (case lpm_fill ops eid len ptr js m1 (lpm_slot_set ns j h) of
                     None \<Rightarrow> None
                   | Some (ok, n, m2, ns2) \<Rightarrow> Some (ok, Suc n, m2, ns2)))))"

text \<open>The rollback loop at \<open>err_lpm_add_self\<close>; the status of each deletion is ignored.\<close>

fun lpm_undo ::
  "'e lpm_ops \<Rightarrow> u32 \<Rightarrow> nat \<Rightarrow> nat list \<Rightarrow> 'e lpm_mem \<Rightarrow> lpm_table
   \<Rightarrow> ('e lpm_mem \<times> lpm_table) option" where
  "lpm_undo ops eid len [] m ns = Some (m, ns)"
| "lpm_undo ops eid len (j # js) m ns =
     (if length ns \<le> j then None
      else case lpm_entry_delete ops m (ln_head (ns ! j)) eid len of
        None \<Rightarrow> None
      | Some (ret, m1, h) \<Rightarrow> lpm_undo ops eid len js m1 (lpm_slot_set ns j h))"

text \<open>The check that a table of 256 nodes is unused, and the release of such a table.\<close>

definition lpm_unused :: "lpm_table \<Rightarrow> bool" where
  "lpm_unused ns \<longleftrightarrow> list_all (\<lambda>n. ln_next n = None \<and> ln_head n = []) ns"

definition lpm_prune ::
  "'e lpm_mem \<Rightarrow> lpm_entry list \<Rightarrow> addr \<Rightarrow> lpm_table \<Rightarrow> ('e lpm_mem \<times> lpm_node) option" where
  "lpm_prune m head ta ns =
     (if lpm_unused ns then
        (case lpm_mem_free m ta of None \<Rightarrow> None | Some m' \<Rightarrow> Some (m', Lnode head None))
      else Some (m, Lnode head (Some (ta, ns))))"

text \<open>The allocation of \<open>next_table\<close> at the head of \<open>_lpm_add\<close>.\<close>

definition lpm_open_table ::
  "'e lpm_mem \<Rightarrow> lpm_node \<Rightarrow> ('e lpm_mem \<times> (addr \<times> lpm_table) option) option" where
  "lpm_open_table m parent =
     (case ln_next parent of
        Some t \<Rightarrow> Some (m, Some t)
      | None \<Rightarrow>
          (case ufp_mem_alloc (lm_pool m) (sizeof_lpm_node * TABLE_SIZE_8) of
             None \<Rightarrow> None
           | Some (None, mp) \<Rightarrow> Some (m\<lparr>lm_pool := mp\<rparr>, None)
           | Some (Some ta, mp) \<Rightarrow>
               Some (m\<lparr>lm_pool := mp\<rparr>, Some (ta, replicate TABLE_SIZE_8 lpm_init_node))))"

text \<open>
  \<open>_lpm_add\<close>. Its counter \<open>entry_allocated\<close> is never incremented (unlike the one of \<open>lpm_add\<close>), so
  the rollback loop runs over no slot.
\<close>

function lpm_add_node ::
  "'e lpm_ops \<Rightarrow> bytes \<Rightarrow> nat \<Rightarrow> u32 \<Rightarrow> addr \<Rightarrow> 'e lpm_mem \<Rightarrow> lpm_node \<Rightarrow> nat
   \<Rightarrow> (int \<times> 'e lpm_mem \<times> lpm_node) option" where
  "lpm_add_node ops prefix len eid ptr m parent offset =
     (case lpm_open_table m parent of
        None \<Rightarrow> None
      | Some (m1, None) \<Rightarrow> Some (-1, m1, parent)
      | Some (m1, Some (ta, ns)) \<Rightarrow>
          (let index = lpm_index prefix offset 8 in
           if len - offset > 8 then
             (if length ns \<le> unat index then None
              else case lpm_add_node ops prefix len eid ptr m1 (ns ! unat index) (offset + 8) of
                None \<Rightarrow> None
              | Some (ret, m2, node) \<Rightarrow>
                  (if ret < 0 then
                     (case lpm_prune m2 (ln_head parent) ta (ns[unat index := node]) of
                        None \<Rightarrow> None
                      | Some (m3, parent') \<Rightarrow> Some (-1, m3, parent'))
                   else Some (0, m2, Lnode (ln_head parent) (Some (ta, ns[unat index := node])))))
           else
             (let slots = lpm_slots index (8 - (len - offset)); entry_allocated = 0 in
              case lpm_fill ops eid len ptr slots m1 ns of
                None \<Rightarrow> None
              | Some (True, n, m2, ns2) \<Rightarrow> Some (0, m2, Lnode (ln_head parent) (Some (ta, ns2)))
              | Some (False, n, m2, ns2) \<Rightarrow>
                  (case lpm_undo ops eid len (take entry_allocated slots) m2 ns2 of
                     None \<Rightarrow> None
                   | Some (m3, ns3) \<Rightarrow>
                       (case lpm_prune m3 (ln_head parent) ta ns3 of
                          None \<Rightarrow> None
                        | Some (m4, parent') \<Rightarrow> Some (-1, m4, parent'))))))"
  by pat_completeness auto
termination
  by (relation "measure (\<lambda>(ops, prefix, len, eid, ptr, m, parent, offset). len - offset)") auto

declare lpm_add_node.simps [simp del]

definition lpm_add ::
  "'e lpm_ops \<Rightarrow> lpm_table \<Rightarrow> bytes \<Rightarrow> nat \<Rightarrow> u32 \<Rightarrow> addr \<Rightarrow> 'e lpm_mem
   \<Rightarrow> (int \<times> 'e lpm_mem \<times> lpm_table) option" where
  "lpm_add ops tab prefix len eid ptr m =
     (let index = lpm_index prefix 0 16 in
      if len > 16 then
        (if length tab \<le> unat index then None
         else case lpm_add_node ops prefix len eid ptr m (tab ! unat index) 16 of
           None \<Rightarrow> None
         | Some (ret, m1, node) \<Rightarrow>
             Some (if ret < 0 then -1 else 0, m1, tab[unat index := node]))
      else
        (let slots = lpm_slots index (16 - len) in
         case lpm_fill ops eid len ptr slots m tab of
           None \<Rightarrow> None
         | Some (True, n, m1, tab1) \<Rightarrow> Some (0, m1, tab1)
         | Some (False, entry_allocated, m1, tab1) \<Rightarrow>
             (case lpm_undo ops eid len (take entry_allocated slots) m1 tab1 of
                None \<Rightarrow> None
              | Some (m2, tab2) \<Rightarrow> Some (-1, m2, tab2))))"

subsection \<open>Deleting prefixes\<close>

fun lpm_clear ::
  "'e lpm_ops \<Rightarrow> u32 \<Rightarrow> nat \<Rightarrow> nat list \<Rightarrow> 'e lpm_mem \<Rightarrow> lpm_table
   \<Rightarrow> (int \<times> 'e lpm_mem \<times> lpm_table) option" where
  "lpm_clear ops eid len [] m ns = Some (0, m, ns)"
| "lpm_clear ops eid len (j # js) m ns =
     (if length ns \<le> j then None
      else case lpm_entry_delete ops m (ln_head (ns ! j)) eid len of
        None \<Rightarrow> None
      | Some (ret, m1, h) \<Rightarrow>
          (if ret < 0 then Some (-1, m1, lpm_slot_set ns j h)
           else lpm_clear ops eid len js m1 (lpm_slot_set ns j h)))"

function lpm_delete_node ::
  "'e lpm_ops \<Rightarrow> bytes \<Rightarrow> nat \<Rightarrow> u32 \<Rightarrow> 'e lpm_mem \<Rightarrow> lpm_node \<Rightarrow> nat
   \<Rightarrow> (int \<times> 'e lpm_mem \<times> lpm_node) option" where
  "lpm_delete_node ops prefix len eid m parent offset =
     (case ln_next parent of
        None \<Rightarrow> Some (-1, m, parent)
      | Some (ta, ns) \<Rightarrow>
          (let index = lpm_index prefix offset 8;
               head = ln_head parent;
               res =
                 (if len - offset > 8 then
                    (if length ns \<le> unat index then None
                     else map_option (\<lambda>(ret, m1, node). (ret, m1, ns[unat index := node]))
                            (lpm_delete_node ops prefix len eid m (ns ! unat index) (offset + 8)))
                  else lpm_clear ops eid len (lpm_slots index (8 - (len - offset))) m ns)
           in case res of
                None \<Rightarrow> None
              | Some (ret, m1, ns1) \<Rightarrow>
                  (if ret < 0 then Some (-1, m1, Lnode head (Some (ta, ns1)))
                   else map_option (\<lambda>(m2, node). (0, m2, node)) (lpm_prune m1 head ta ns1))))"
  by pat_completeness auto
termination
  by (relation "measure (\<lambda>(ops, prefix, len, eid, m, parent, offset). len - offset)") auto

declare lpm_delete_node.simps [simp del]

definition lpm_delete ::
  "'e lpm_ops \<Rightarrow> lpm_table \<Rightarrow> bytes \<Rightarrow> nat \<Rightarrow> u32 \<Rightarrow> 'e lpm_mem
   \<Rightarrow> (int \<times> 'e lpm_mem \<times> lpm_table) option" where
  "lpm_delete ops tab prefix len eid m =
     (let index = lpm_index prefix 0 16 in
      if len > 16 then
        (if length tab \<le> unat index then None
         else case lpm_delete_node ops prefix len eid m (tab ! unat index) 16 of
           None \<Rightarrow> None
         | Some (ret, m1, node) \<Rightarrow>
             Some (if ret < 0 then -1 else 0, m1, tab[unat index := node]))
      else lpm_clear ops eid len (lpm_slots index (16 - len)) m tab)"

text \<open>
  \<open>_lpm_delete_all\<close> and \<open>lpm_delete_all\<close>: the loops over the nodes of a table. For each node the
  tables below it are released first, then its own entries, then the table that holds the nodes.
\<close>

fun lpm_delete_all_node :: "'e lpm_ops \<Rightarrow> 'e lpm_mem \<Rightarrow> lpm_node \<Rightarrow> 'e lpm_mem option"
  and lpm_delete_all_nodes :: "'e lpm_ops \<Rightarrow> 'e lpm_mem \<Rightarrow> lpm_node list \<Rightarrow> 'e lpm_mem option" where
  "lpm_delete_all_node ops m (Lnode h None) = Some m"
| "lpm_delete_all_node ops m (Lnode h (Some (ta, ns))) =
     (case lpm_delete_all_nodes ops m ns of
        None \<Rightarrow> None
      | Some m' \<Rightarrow> lpm_mem_free m' ta)"
| "lpm_delete_all_nodes ops m [] = Some m"
| "lpm_delete_all_nodes ops m (n # ns) =
     (case lpm_delete_all_node ops m n of
        None \<Rightarrow> None
      | Some m1 \<Rightarrow>
          (case lpm_entry_delete_all ops m1 (ln_head n) of
             None \<Rightarrow> None
           | Some m2 \<Rightarrow> lpm_delete_all_nodes ops m2 ns))"

definition lpm_delete_all ::
  "'e lpm_ops \<Rightarrow> lpm_table \<Rightarrow> 'e lpm_mem \<Rightarrow> ('e lpm_mem \<times> lpm_table) option" where
  "lpm_delete_all ops tab m =
     map_option (\<lambda>m'. (m', map (\<lambda>n. Lnode [] None) tab)) (lpm_delete_all_nodes ops m tab)"

subsection \<open>Traversal\<close>

text \<open>The lists of entries handed to \<open>entry_dump\<close>, in order.\<close>

definition lpm_dump_slots :: "lpm_table \<Rightarrow> nat list \<Rightarrow> lpm_entry list list option" where
  "lpm_dump_slots ns js =
     (if list_all (\<lambda>j. j < length ns) js
      then Some (filter (\<lambda>h. h \<noteq> []) (map (\<lambda>j. ln_head (ns ! j)) js)) else None)"

function lpm_traverse_node ::
  "bytes \<Rightarrow> nat \<Rightarrow> lpm_node \<Rightarrow> nat \<Rightarrow> (int \<times> lpm_entry list list) option" where
  "lpm_traverse_node prefix len parent offset =
     (case ln_next parent of
        None \<Rightarrow> Some (-1, [])
      | Some (ta, ns) \<Rightarrow>
          (let index = lpm_index prefix offset 8 in
           if len - offset > 8 then
             (if length ns \<le> unat index then None
              else map_option (\<lambda>(ret, hs). (0, hs))
                     (lpm_traverse_node prefix len (ns ! unat index) (offset + 8)))
           else map_option (\<lambda>hs. (0, hs))
                  (lpm_dump_slots ns (lpm_slots index (8 - (len - offset))))))"
  by pat_completeness auto
termination
  by (relation "measure (\<lambda>(prefix, len, parent, offset). len - offset)") auto

declare lpm_traverse_node.simps [simp del]

definition lpm_traverse :: "lpm_table \<Rightarrow> bytes \<Rightarrow> nat \<Rightarrow> (int \<times> lpm_entry list list) option" where
  "lpm_traverse tab prefix len =
     (let index = lpm_index prefix 0 16 in
      if len > 16 then
        (if length tab \<le> unat index then None
         else map_option (\<lambda>(ret, hs). (0, hs)) (lpm_traverse_node prefix len (tab ! unat index) 16))
      else map_option (\<lambda>hs. (0, hs)) (lpm_dump_slots tab (lpm_slots index (16 - len))))"

end
