(* ===== verification/Lpm_Bits.thy ===== *)
theory Lpm_Bits
  imports Lpm
begin

text \<open>
  Addresses as sequences of bits: what \<open>lpm_index\<close> reads of an address, which slots of an array a
  prefix covers, and when two addresses share a prefix. Bit 0 is the most significant bit of the
  first byte.
\<close>

definition abit :: "bytes \<Rightarrow> nat \<Rightarrow> bool" where
  "abit p i = bit (p (i div 8)) (7 - i mod 8)"

lemma byte_bit_less: "bit (b :: u8) n \<Longrightarrow> n < 8"
  using bit_imp_le_length [of b n] by simp

lemma bit_ntohl_word:
  assumes "k < 32"
  shows "bit (ntohl_word p w) k \<longleftrightarrow> bit (p (4 * w + (3 - k div 8))) (k mod 8)"
proof -
  have b: "\<not> bit (p i) n" if "8 \<le> n" for i n
    using that byte_bit_less [of "p i" n] by auto
  consider "k < 8" | "8 \<le> k" "k < 16" | "16 \<le> k" "k < 24" | "24 \<le> k" "k < 32"
    using assms by linarith
  then show ?thesis
  proof cases
    case 1
    then have "k div 8 = 0" "k mod 8 = k" by simp_all
    with 1 show ?thesis by (simp add: ntohl_word_def bit_or_iff bit_push_bit_iff bit_ucast_iff)
  next
    case 2
    then have "k div 8 = 1" "k mod 8 = k - 8" "k - 8 < 32" "3 - Suc 0 = 2" by (simp_all add: div_nat_eqI mod_nat_eqI)
    with 2 b show ?thesis
      by (simp add: ntohl_word_def bit_or_iff bit_push_bit_iff bit_ucast_iff)
  next
    case 3
    then have "k div 8 = 2" "k mod 8 = k - 16" "k - 16 < 32" by (simp_all add: div_nat_eqI mod_nat_eqI)
    with 3 b show ?thesis by (simp add: ntohl_word_def bit_or_iff bit_push_bit_iff bit_ucast_iff)
  next
    case 4
    then have "k div 8 = 3" "k mod 8 = k - 24" "k - 24 < 32" by (simp_all add: div_nat_eqI mod_nat_eqI)
    with 4 b show ?thesis by (simp add: ntohl_word_def bit_or_iff bit_push_bit_iff bit_ucast_iff)
  qed
qed

lemma lpm_index_take_bit: "lpm_index p off r = take_bit r (drop_bit (32 - (off mod 32 + r)) (ntohl_word p (off div 32)))"
  by (simp add: lpm_index_def Let_def take_bit_eq_mask mask_eq_exp_minus_1 push_bit_eq_mult)

lemma div_mod_8I: "n = 8 * q + r \<Longrightarrow> r < 8 \<Longrightarrow> n div 8 = q \<and> n mod 8 = (r::nat)"
  by simp

lemma bit_lpm_index:
  assumes "off mod 32 + r \<le> 32"
  shows "bit (lpm_index p off r) k \<longleftrightarrow> k < r \<and> abit p (off + r - 1 - k)"
proof (cases "k < r")
  case True
  define j where "j = off mod 32 + r - 1 - k"
  have j: "j < 32" "32 - (off mod 32 + r) + k = 31 - j" "off + r - 1 - k = 32 * (off div 32) + j"
    using True assms mult_div_mod_eq [of 32 off] unfolding j_def by linarith+
  have "j mod 8 < 8" by simp
  then have "31 - j = 8 * (3 - j div 8) + (7 - j mod 8)"
    using j(1) mult_div_mod_eq [of 8 j] by linarith
  from div_mod_8I [OF this] have d: "(31 - j) div 8 = 3 - j div 8" "(31 - j) mod 8 = 7 - j mod 8"
    by simp_all
  have "32 * (off div 32) + j = 8 * (4 * (off div 32) + j div 8) + j mod 8"
    using mult_div_mod_eq [of 8 j] by simp
  from div_mod_8I [OF this] have e: "(32 * (off div 32) + j) div 8 = 4 * (off div 32) + j div 8" "(32 * (off div 32) + j) mod 8 = j mod 8"
    by simp_all
  have "j div 8 \<le> 3" using j(1) by simp
  then have "bit (ntohl_word p (off div 32)) (31 - j) \<longleftrightarrow> abit p (32 * (off div 32) + j)"
    using j(1) by (simp add: bit_ntohl_word abit_def d e)
  then show ?thesis
    using True by (simp add: lpm_index_take_bit bit_take_bit_iff bit_drop_bit_eq flip: j(2,3))
qed (simp add: lpm_index_take_bit bit_take_bit_iff)


lemma lpm_index_less: "unat (lpm_index p off r) < 2 ^ r"
  by (simp add: lpm_index_take_bit unsigned_take_bit_eq)

lemma pow2_less_32: "k < 32 \<Longrightarrow> (2::nat) ^ k < 2 ^ 32"
  by (rule power_strict_increasing) simp_all

lemma unat_push1: "k < 32 \<Longrightarrow> unat (push_bit k 1 :: u32) = 2 ^ k"
proof -
  assume "k < 32"
  then have "unat (of_nat (2 ^ k) :: u32) = 2 ^ k"
    using pow2_less_32 [of k] by (simp only: unat_of_nat) (simp add: take_bit_eq_mod)
  then show ?thesis by (simp add: push_bit_eq_mult)
qed

lemma and_not_mask:
  fixes x :: u32
  shows "x AND NOT (push_bit k 1 - 1) = push_bit k (drop_bit k x)"
proof (rule bit_word_eqI)
  fix n assume "n < LENGTH(32)"
  have "push_bit k 1 - 1 = (mask k :: u32)" by (simp add: mask_eq_exp_minus_1 push_bit_eq_mult)
  then show "bit (x AND NOT (push_bit k 1 - 1)) n \<longleftrightarrow> bit (push_bit k (drop_bit k x)) n"
    using \<open>n < LENGTH(32)\<close> by (auto simp: bit_simps)
qed

lemma unat_and_not_mask:
  fixes x :: u32
  shows "unat (x AND NOT (push_bit k 1 - 1)) = 2 ^ k * (unat x div 2 ^ k)"
proof -
  have "2 ^ k * (unat x div 2 ^ k) \<le> unat x" by simp
  also have lt: "unat x < 2 ^ 32" using unsigned_less [of x] by simp
  finally have "2 ^ k * (unat x div 2 ^ k) mod 2 ^ 32 = 2 ^ k * (unat x div 2 ^ k)"
    "unat x mod 2 ^ 32 = unat x" using lt by simp_all
  then show ?thesis
    unfolding and_not_mask unsigned_push_bit_eq unsigned_drop_bit_eq
    by (simp add: push_bit_eq_mult drop_bit_eq_div take_bit_eq_mod mult.commute)
qed

lemma slot_value:
  fixes x :: u32
  assumes k: "k < 32" and i: "i < 2 ^ k"
  shows "unat ((x AND NOT (push_bit k 1 - 1)) OR of_nat i) = 2 ^ k * (unat x div 2 ^ k) + i"
proof -
  let ?a = "2 ^ k * (unat x div 2 ^ k)"
  have "i < 2 ^ 32" using i pow2_less_32 [OF k] by linarith
  then have i': "unat (of_nat i :: u32) = i" by (simp add: unat_of_nat take_bit_eq_mod)
  have "?a OR i = ?a + i"
  proof (rule disjunctive_add_eq_or [symmetric])
    have "bit ?a n \<Longrightarrow> k \<le> n" for n
      using bit_push_bit_iff_nat [of k "unat x div 2 ^ k" n] by (simp add: push_bit_eq_mult mult.commute)
    moreover have "bit i n \<Longrightarrow> n < k" for n
      using i by (metis bit_take_bit_iff take_bit_nat_eq_self)
    ultimately show "?a AND i = 0" by (intro bit_eqI) (auto simp: bit_and_iff dest: leD)
  qed
  then show ?thesis unfolding unsigned_or_eq unat_and_not_mask i' .
qed

lemma lpm_slots_eq:
  assumes "k < 32"
  shows "lpm_slots x k = map (\<lambda>i. 2 ^ k * (unat x div 2 ^ k) + i) [0 ..< 2 ^ k]"
  unfolding lpm_slots_def Let_def unat_push1 [OF assms]
  using slot_value [OF assms] by (intro map_cong) auto

subsection \<open>Prefixes\<close>

text \<open>The addresses \<open>p\<close> and \<open>q\<close> agree on the bits from \<open>off\<close> to \<open>len - 1\<close>.\<close>

definition match_from :: "nat \<Rightarrow> nat \<Rightarrow> bytes \<Rightarrow> bytes \<Rightarrow> bool" where
  "match_from off len p q \<longleftrightarrow> (\<forall>i. off \<le> i \<longrightarrow> i < len \<longrightarrow> abit p i = abit q i)"

text \<open>The address \<open>q\<close> lies in the prefix \<open>p/len\<close>.\<close>

definition pmatch :: "bytes \<Rightarrow> nat \<Rightarrow> bytes \<Rightarrow> bool" where
  "pmatch p len q \<longleftrightarrow> (\<forall>i<len. abit p i = abit q i)"

lemma match_from_0: "match_from 0 = (\<lambda>len p q. pmatch p len q)"
  by (intro ext) (auto simp: match_from_def pmatch_def)

lemma match_from_split:
  "a \<le> b \<Longrightarrow> b \<le> c \<Longrightarrow> match_from a c p q \<longleftrightarrow> match_from a b p q \<and> match_from b c p q"
  unfolding match_from_def by (meson le_trans less_le_trans not_le)

lemma match_from_refl [simp]: "match_from a b p p"
  by (simp add: match_from_def)

lemma pmatch_refl [simp]: "pmatch p len p"
  by (simp add: pmatch_def)

lemma pmatch_sym: "pmatch p len q \<Longrightarrow> pmatch q len p"
  by (simp add: pmatch_def)

lemma pmatch_trans: "pmatch p len q \<Longrightarrow> pmatch q len r \<Longrightarrow> pmatch p len r"
  by (simp add: pmatch_def)

lemma pmatch_le: "pmatch p len q \<Longrightarrow> len' \<le> len \<Longrightarrow> pmatch p len' q"
  by (simp add: pmatch_def)

lemma lpm_index_div_eq_iff:
  assumes r: "off mod 32 + r \<le> 32" and len: "off \<le> len" "len \<le> off + r"
  shows "unat (lpm_index p off r) div 2 ^ (off + r - len) = unat (lpm_index q off r) div 2 ^ (off + r - len)
    \<longleftrightarrow> match_from off len p q"
proof -
  let ?k = "off + r - len"
  have b: "bit x (c + n) \<Longrightarrow> n < 32" for x :: u32 and c n
    using bit_imp_le_length [of x "c + n"] by simp
  have "unat (lpm_index p off r) div 2 ^ ?k = unat (lpm_index q off r) div 2 ^ ?k \<longleftrightarrow>
      (drop_bit ?k (lpm_index p off r) = drop_bit ?k (lpm_index q off r))"
    by (simp only: word_unat_eq_iff unat_drop_bit)
  also have "\<dots> \<longleftrightarrow> (\<forall>n. bit (lpm_index p off r) (?k + n) = bit (lpm_index q off r) (?k + n))"
    using b by (simp only: bit_eq_iff bit_drop_bit_eq o_def) auto
  also have "\<dots> \<longleftrightarrow> match_from off len p q"
  proof
    assume *: "\<forall>n. bit (lpm_index p off r) (?k + n) = bit (lpm_index q off r) (?k + n)"
    show "match_from off len p q"
      unfolding match_from_def
    proof (intro allI impI)
      fix i assume i: "off \<le> i" "i < len"
      then have "?k + (len - 1 - i) < r" "off + r - 1 - (?k + (len - 1 - i)) = i"
        using len by linarith+
      with * [rule_format, of "len - 1 - i"] show "abit p i = abit q i"
        unfolding bit_lpm_index [OF r] by metis
    qed
  next
    assume m: "match_from off len p q"
    show "\<forall>n. bit (lpm_index p off r) (?k + n) = bit (lpm_index q off r) (?k + n)"
    proof
      fix n
      have "?k + n < r \<Longrightarrow> off \<le> off + r - 1 - (?k + n) \<and> off + r - 1 - (?k + n) < len"
        using len by linarith
      with m show "bit (lpm_index p off r) (?k + n) = bit (lpm_index q off r) (?k + n)"
        by (auto simp: bit_lpm_index [OF r] match_from_def)
    qed
  qed
  finally show ?thesis .
qed

lemma lpm_index_eq_iff:
  assumes "off mod 32 + r \<le> 32"
  shows "lpm_index p off r = lpm_index q off r \<longleftrightarrow> match_from off (off + r) p q"
  using lpm_index_div_eq_iff [of off r "off + r" p q] assms by (simp flip: word_unat_eq_iff)

lemma ex_add_iff_div:
  fixes c :: nat
  assumes "0 < c"
  shows "(\<exists>i<c. j = c * q + i) \<longleftrightarrow> j div c = q"
proof
  assume "j div c = q"
  then have "j = c * q + j mod c" using mult_div_mod_eq [of c j] by simp
  then show "\<exists>i<c. j = c * q + i" using assms mod_less_divisor by blast
qed (use assms in auto)

lemma lpm_slots_set:
  assumes r: "off mod 32 + r \<le> 32" "r < 32" and len: "off \<le> len" "len \<le> off + r"
  shows "j \<in> set (lpm_slots (lpm_index p off r) (off + r - len)) \<longleftrightarrow>
    j < 2 ^ r \<and> j div 2 ^ (off + r - len) = unat (lpm_index p off r) div 2 ^ (off + r - len)"
proof -
  let ?k = "off + r - len" and ?x = "unat (lpm_index p off r)"
  have k: "?k < 32" "?k \<le> r" using r len by linarith+
  have "j \<in> set (lpm_slots (lpm_index p off r) ?k) \<longleftrightarrow> (\<exists>i<2 ^ ?k. j = 2 ^ ?k * (?x div 2 ^ ?k) + i)"
    unfolding lpm_slots_eq [OF k(1)] set_map set_upt image_iff Bex_def by simp
  also have "\<dots> \<longleftrightarrow> j div 2 ^ ?k = ?x div 2 ^ ?k"
    by (rule ex_add_iff_div) simp
  also have "\<dots> \<longleftrightarrow> j < 2 ^ r \<and> j div 2 ^ ?k = ?x div 2 ^ ?k"
  proof -
    have "j < 2 ^ r" if "j div 2 ^ ?k = ?x div 2 ^ ?k"
    proof -
      have e: "(2::nat) ^ r = 2 ^ (r - ?k) * 2 ^ ?k" using k(2) by (simp flip: power_add)
      have "?x div 2 ^ ?k < 2 ^ (r - ?k)"
        using lpm_index_less [of p off r] unfolding e by (rule less_mult_imp_div_less)
      then have "j div 2 ^ ?k < 2 ^ (r - ?k)" using that by simp
      then show ?thesis unfolding e by (simp add: div_less_iff_less_mult)
    qed
    then show ?thesis by blast
  qed
  finally show ?thesis .
qed

lemma lpm_slots_index:
  assumes "off mod 32 + r \<le> 32" "r < 32" "off \<le> len" "len \<le> off + r"
  shows "unat (lpm_index q off r) \<in> set (lpm_slots (lpm_index p off r) (off + r - len)) \<longleftrightarrow>
    match_from off len p q"
  using lpm_slots_set [OF assms] lpm_index_div_eq_iff [OF assms(1,3,4), of q p] lpm_index_less [of q off r]
  by (auto simp: match_from_def)

lemma lpm_slots_distinct: "k < 32 \<Longrightarrow> distinct (lpm_slots x k)"
  by (auto simp: lpm_slots_eq distinct_map inj_on_def)

lemma lpm_slots_length: "k < 32 \<Longrightarrow> length (lpm_slots x k) = 2 ^ k"
  by (simp add: lpm_slots_eq)

text \<open>Every sequence of bits is an address.\<close>

lemma ex_abit: "\<exists>q. \<forall>i. abit q i = f i"
proof
  let ?q = "\<lambda>b. horner_sum of_bool 2 (map (\<lambda>n. f (8 * b + (7 - n))) [0..<8]) :: u8"
  show "\<forall>i. abit ?q i = f i"
  proof
    fix i :: nat
    have "7 - i mod 8 < 8" "7 - (7 - i mod 8) = i mod 8" using mod_less_divisor [of 8 i] by linarith+
    then show "abit ?q i = f i"
      by (simp add: abit_def bit_horner_sum_bit_word_iff)
  qed
qed

lemma ex_lpm_index:
  assumes r: "off mod 32 + r \<le> 32" and j: "j < 2 ^ r"
  shows "\<exists>q. unat (lpm_index q off r) = j \<and> (\<forall>i<off. abit q i = abit p i)"
proof -
  obtain q where q: "\<And>i. abit q i = (if i < off then abit p i else bit j (off + r - 1 - i))"
    using ex_abit [of "\<lambda>i. if i < off then abit p i else bit j (off + r - 1 - i)"] by auto
  have "unat (lpm_index q off r) = j"
  proof (rule bit_eqI)
    fix n
    have "bit j n \<Longrightarrow> n < r" using j by (metis bit_take_bit_iff take_bit_nat_eq_self)
    moreover have "n < r \<Longrightarrow> off + r - 1 - (off + r - 1 - n) = n \<and> \<not> off + r - 1 - n < off"
      by linarith
    ultimately show "bit (unat (lpm_index q off r)) n \<longleftrightarrow> bit j n"
      by (auto simp: bit_unsigned_iff bit_lpm_index [OF r] q)
  qed
  with q show ?thesis by auto
qed

end
