(* ===== verification/Lpm_Spec.thy ===== *)
theory Lpm_Spec
  imports Lpm_Bits
begin

text \<open>
  What the longest-prefix-match table promises, for any client whose entry operations satisfy the
  contract of the locale \<open>lpm_client\<close>: an invariant on the tree and on the memory it owns, the
  routes that cover an address, and the effect of every operation on both.
\<close>

subsection \<open>Ownership and routes\<close>

text \<open>The addresses a tree owns (its entries and arrays) and the objects its entries refer to.\<close>

primrec node_own :: "lpm_node \<Rightarrow> addr multiset" where
  "node_own (Lnode h nx) = mset (map le_addr h) +
     (case map_option (map_prod id (map node_own)) nx of
        None \<Rightarrow> {#} | Some (ta, os) \<Rightarrow> {#ta#} + sum_list os)"

primrec node_refs :: "lpm_node \<Rightarrow> addr multiset" where
  "node_refs (Lnode h nx) = mset (map le_ptr h) +
     (case map_option (map_prod id (map node_refs)) nx of
        None \<Rightarrow> {#} | Some (ta, os) \<Rightarrow> sum_list os)"

definition tab_own :: "lpm_table \<Rightarrow> addr multiset" where
  "tab_own ns = sum_list (map node_own ns)"

definition tab_refs :: "lpm_table \<Rightarrow> addr multiset" where
  "tab_refs ns = sum_list (map node_refs ns)"

lemma node_own_simps [simp]:
  "node_own (Lnode h None) = mset (map le_addr h)"
  "node_own (Lnode h (Some (ta, ns))) = mset (map le_addr h) + ({#ta#} + tab_own ns)"
  by (simp_all add: tab_own_def)

lemma node_refs_simps [simp]:
  "node_refs (Lnode h None) = mset (map le_ptr h)"
  "node_refs (Lnode h (Some (ta, ns))) = mset (map le_ptr h) + tab_refs ns"
  by (simp_all add: tab_refs_def)

declare node_own.simps [simp del] node_refs.simps [simp del]

lemma tab_frame:
  assumes "i < length ns"
  obtains C D where "\<And>x. tab_own (ns[i := x]) = C + node_own x" "tab_own ns = C + node_own (ns ! i)"
    "\<And>x. tab_refs (ns[i := x]) = D + node_refs x" "tab_refs ns = D + node_refs (ns ! i)"
proof -
  obtain C where C: "\<And>x. tab_own (ns[i := x]) = C + node_own x"
    using sum_list_update_frame [OF assms, of node_own] unfolding tab_own_def by blast
  obtain D where D: "\<And>x. tab_refs (ns[i := x]) = D + node_refs x"
    using sum_list_update_frame [OF assms, of node_refs] unfolding tab_refs_def by blast
  from C [of "ns ! i"] D [of "ns ! i"] C D show ?thesis by (intro that [of C D]) simp_all
qed

lemma slot_frame:
  assumes "j < length ns"
  obtains C D where "\<And>h. tab_own (lpm_slot_set ns j h) = mset (map le_addr h) + C"
    "tab_own ns = mset (map le_addr (ln_head (ns ! j))) + C"
    "\<And>h. tab_refs (lpm_slot_set ns j h) = mset (map le_ptr h) + D"
    "tab_refs ns = mset (map le_ptr (ln_head (ns ! j))) + D"
proof -
  obtain C D where fr: "\<And>x. tab_own (ns[j := x]) = C + node_own x" "tab_own ns = C + node_own (ns ! j)"
      "\<And>x. tab_refs (ns[j := x]) = D + node_refs x" "tab_refs ns = D + node_refs (ns ! j)"
    using tab_frame [OF assms] by blast
  obtain C' D' where "\<And>h. node_own (Lnode h (ln_next (ns ! j))) = mset (map le_addr h) + C'"
      "\<And>h. node_refs (Lnode h (ln_next (ns ! j))) = mset (map le_ptr h) + D'"
    by (cases "ln_next (ns ! j)") auto
  from this(1) [of "ln_head (ns ! j)"] this(2) [of "ln_head (ns ! j)"] this fr
  show ?thesis by (intro that [of "C + C'" "D + D'"]) (simp_all add: lpm_slot_set_def ac_simps)
qed

text \<open>The entries met on the way of an address, deepest first, and the objects they refer to.\<close>

function node_chain :: "bytes \<Rightarrow> nat \<Rightarrow> lpm_node \<Rightarrow> lpm_entry list" where
  "node_chain dst off (Lnode h None) = h"
| "node_chain dst off (Lnode h (Some (ta, ns))) =
     (let i = unat (lpm_index dst off 8) in
      (if i < length ns then node_chain dst (off + 8) (ns ! i) else []) @ h)"
  by pat_completeness auto
termination
  by (relation "measure (\<lambda>(dst, off, n). size n)") (auto intro: less_SucI lpm_size_nth)

definition node_routes :: "bytes \<Rightarrow> nat \<Rightarrow> lpm_node \<Rightarrow> addr list" where
  "node_routes dst off n = map le_ptr (node_chain dst off n)"

definition tab_chain :: "lpm_table \<Rightarrow> bytes \<Rightarrow> lpm_entry list" where
  "tab_chain tab dst = node_chain dst 16 (tab ! unat (lpm_index dst 0 16))"

definition tab_routes :: "lpm_table \<Rightarrow> bytes \<Rightarrow> addr list" where
  "tab_routes tab dst = map le_ptr (tab_chain tab dst)"

abbreviation ptrs :: "lpm_node \<Rightarrow> addr list" where
  "ptrs n \<equiv> map le_ptr (ln_head n)"

definition sub_routes :: "bytes \<Rightarrow> nat \<Rightarrow> lpm_node \<Rightarrow> addr list" where
  "sub_routes dst off n = (case ln_next n of None \<Rightarrow> [] | Some (ta, ns) \<Rightarrow>
     if unat (lpm_index dst off 8) < length ns
     then node_routes dst (off + 8) (ns ! unat (lpm_index dst off 8)) else [])"

lemma node_routes_eq: "node_routes dst off n = sub_routes dst off n @ ptrs n"
  by (cases "(dst, off, n)" rule: node_chain.cases)
    (auto simp: node_routes_def sub_routes_def Let_def)

subsection \<open>Well-formed trees\<close>

text \<open>
  \<open>K\<close> gives the identity and the prefix length of each object. The lengths of the entries of a node
  lie between \<open>lo\<close> and \<open>hi\<close>, longer ones come first, and no two entries of a node have the same
  identity and length.
\<close>

type_synonym keymap = "addr \<Rightarrow> u32 \<times> nat"

definition head_wf :: "keymap \<Rightarrow> nat \<Rightarrow> nat \<Rightarrow> addr list \<Rightarrow> bool" where
  "head_wf K lo hi ps \<longleftrightarrow> (\<forall>p\<in>set ps. lo \<le> snd (K p) \<and> snd (K p) \<le> hi) \<and>
     sorted_wrt (\<lambda>p q. snd (K q) \<le> snd (K p)) ps \<and> distinct (map K ps)"

function node_wf :: "keymap \<Rightarrow> nat \<Rightarrow> nat \<Rightarrow> lpm_node \<Rightarrow> bool" where
  "node_wf K lo hi (Lnode h None) \<longleftrightarrow> head_wf K lo hi (map le_ptr h)"
| "node_wf K lo hi (Lnode h (Some (ta, ns))) \<longleftrightarrow> head_wf K lo hi (map le_ptr h) \<and>
     length ns = TABLE_SIZE_8 \<and> (\<forall>n\<in>set ns. node_wf K (Suc hi) (hi + 8) n)"
  by pat_completeness auto
termination
  by (relation "measure (\<lambda>(K, lo, hi, n). size n)")
    (auto simp: less_Suc_eq_le intro!: le_SucI size_list_estimation')

definition tab_wf :: "keymap \<Rightarrow> lpm_table \<Rightarrow> bool" where
  "tab_wf K tab \<longleftrightarrow> length tab = TABLE_SIZE_16 \<and> (\<forall>n\<in>set tab. node_wf K 0 16 n)"

lemma node_wf_iff:
  "node_wf K lo hi n \<longleftrightarrow> head_wf K lo hi (ptrs n) \<and>
     (\<forall>ta ns. ln_next n = Some (ta, ns) \<longrightarrow>
        length ns = TABLE_SIZE_8 \<and> (\<forall>n\<in>set ns. node_wf K (Suc hi) (hi + 8) n))"
  by (cases "(K, lo, hi, n)" rule: node_wf.cases) auto

lemma node_wf_head: "node_wf K lo hi n \<Longrightarrow> head_wf K lo hi (ptrs n)"
  by (subst (asm) node_wf_iff) blast

lemma node_wf_next:
  "node_wf K lo hi n \<Longrightarrow> ln_next n = Some (ta, ns) \<Longrightarrow>
     length ns = TABLE_SIZE_8 \<and> (\<forall>n\<in>set ns. node_wf K (Suc hi) (hi + 8) n)"
  by (subst (asm) node_wf_iff) blast

lemma node_wf_init [simp]: "node_wf K lo hi lpm_init_node"
  by (simp add: lpm_init_node_def head_wf_def)

lemma index8_less: "unat (lpm_index p off 8) < TABLE_SIZE_8"
  using lpm_index_less [of p off 8] by (simp add: TABLE_SIZE_8_def)

lemma index16_less: "unat (lpm_index p 0 16) < TABLE_SIZE_16"
  using lpm_index_less [of p 0 16] by (simp add: TABLE_SIZE_16_def)

text \<open>Every route below a node is longer than the node's own entries.\<close>

lemma node_routes_len:
  assumes "node_wf K lo off n" "lo \<le> Suc off" "p \<in> set (node_routes dst off n)"
  shows "lo \<le> snd (K p)"
  using assms
proof (induction dst off n arbitrary: lo rule: node_chain.induct)
  case (1 dst off h)
  then show ?case by (auto simp: node_routes_def head_wf_def)
next
  case (2 dst off h ta ns)
  let ?i = "unat (lpm_index dst off 8)"
  have i: "?i < length ns" using 2(2) index8_less by simp
  then have wf: "node_wf K (Suc off) (off + 8) (ns ! ?i)" using 2(2) by simp
  from 2(4) i consider "p \<in> set (node_routes dst (off + 8) (ns ! ?i))" | "p \<in> set (map le_ptr h)"
    by (auto simp: node_routes_def Let_def)
  then show ?case
  proof cases
    case 1
    with 2(1) [OF refl i wf _ 1] 2(3) show ?thesis by simp
  next
    case 2
    with \<open>node_wf K lo off (Lnode h (Some (ta, ns)))\<close> show ?thesis by (auto simp: head_wf_def)
  qed
qed

lemma sub_routes_len:
  assumes "node_wf K lo off n" "p \<in> set (sub_routes dst off n)"
  shows "off < snd (K p)"
proof -
  let ?i = "unat (lpm_index dst off 8)"
  obtain ta ns where ns: "ln_next n = Some (ta, ns)" "?i < length ns"
      "p \<in> set (node_routes dst (off + 8) (ns ! ?i))"
    using assms(2) by (cases "ln_next n") (auto simp: sub_routes_def split: if_splits)
  then have "node_wf K (Suc off) (off + 8) (ns ! ?i)" using assms(1) by (auto simp: node_wf_iff [of K lo])
  from node_routes_len [OF this _ ns(3)] show ?thesis by simp
qed

lemma head_len:
  assumes "node_wf K lo off n" "p \<in> set (ptrs n)"
  shows "snd (K p) \<le> off" "lo \<le> snd (K p)"
  using assms by (auto simp: node_wf_iff [of K lo] head_wf_def)

subsection \<open>Inserting and removing routes\<close>

definition lins :: "keymap \<Rightarrow> nat \<Rightarrow> addr \<Rightarrow> addr list \<Rightarrow> addr list" where
  "lins K len p ps = takeWhile (\<lambda>q. len < snd (K q)) ps @ p # dropWhile (\<lambda>q. len < snd (K q)) ps"

definition ldel :: "keymap \<Rightarrow> u32 \<times> nat \<Rightarrow> addr list \<Rightarrow> addr list" where
  "ldel K k ps = filter (\<lambda>q. K q \<noteq> k) ps"

lemma lins_append_low:
  "\<forall>q\<in>set ys. snd (K q) \<le> len \<Longrightarrow> lins K len p (xs @ ys) = lins K len p xs @ ys"
proof (induction xs)
  case Nil
  then show ?case by (cases ys) (auto simp: lins_def)
qed (auto simp: lins_def)

lemma lins_append_high:
  "\<forall>q\<in>set xs. len < snd (K q) \<Longrightarrow> lins K len p (xs @ ys) = xs @ lins K len p ys"
  by (induction xs) (auto simp: lins_def)

lemma ldel_append [simp]: "ldel K k (xs @ ys) = ldel K k xs @ ldel K k ys"
  by (simp add: ldel_def)

lemma ldel_same: "\<forall>q\<in>set xs. snd (K q) \<noteq> snd k \<Longrightarrow> ldel K k xs = xs"
  by (auto simp: ldel_def intro: filter_True)

lemma set_lins [simp]: "set (lins K len p ps) = insert p (set ps)"
  unfolding lins_def by (metis Un_insert_right set_append takeWhile_dropWhile_id list.simps(15))

lemma mset_lins: "mset (lins K len p ps) = mset ps + {#p#}"
proof -
  have "mset (takeWhile Q ps) + mset (dropWhile Q ps) = mset ps" for Q :: "addr \<Rightarrow> bool"
    by (metis mset_append takeWhile_dropWhile_id)
  then show ?thesis by (simp add: lins_def)
qed

lemma lins_wf:
  assumes "head_wf K lo hi ps" "K p = (eid, len)" "lo \<le> len" "len \<le> hi" "(eid, len) \<notin> K ` set ps"
  shows "head_wf K lo hi (lins K len p ps)"
proof -
  define xs ys where "xs = takeWhile (\<lambda>q. len < snd (K q)) ps" and "ys = dropWhile (\<lambda>q. len < snd (K q)) ps"
  have ps: "ps = xs @ ys" and lins: "lins K len p ps = xs @ p # ys"
    by (simp_all add: xs_def ys_def lins_def)
  have s: "sorted_wrt (\<lambda>p q. snd (K q) \<le> snd (K p)) (xs @ ys)" "distinct (map K (xs @ ys))"
    using assms(1) ps by (simp_all add: head_wf_def)
  have hi: "len < snd (K q)" if "q \<in> set xs" for q
    using that by (auto simp: xs_def dest: set_takeWhileD)
  have low: "snd (K q) \<le> len" if "q \<in> set ys" for q
  proof (cases ys)
    case (Cons y zs)
    then have "snd (K y) \<le> len" using hd_dropWhile [of "\<lambda>q. len < snd (K q)" ps] by (auto simp: ys_def)
    with s(1) Cons that show ?thesis by (auto simp: sorted_wrt_append)
  qed (use that in simp)
  have "sorted_wrt (\<lambda>p q. snd (K q) \<le> snd (K p)) (xs @ p # ys)"
    using s(1) hi low assms(2) by (auto simp: sorted_wrt_append less_imp_le)
  moreover have "distinct (map K (xs @ p # ys))" using s(2) assms(2,5) ps by auto
  ultimately show ?thesis
    unfolding lins using assms(1-4) by (auto simp: head_wf_def ps)
qed

lemma ldel_wf: "head_wf K lo hi ps \<Longrightarrow> head_wf K lo hi (ldel K k ps)"
  by (auto simp: head_wf_def ldel_def sorted_wrt_filter distinct_map_filter)

lemma ldel_lins: "K p = (eid, len) \<Longrightarrow> (eid, len) \<notin> K ` set ps \<Longrightarrow> ldel K (eid, len) (lins K len p ps) = ps"
proof -
  assume a: "K p = (eid, len)" "(eid, len) \<notin> K ` set ps"
  have "filter (\<lambda>q. K q \<noteq> (eid, len)) ps = ps" using a(2) by (intro filter_True) (metis imageI)
  moreover have "ldel K (eid, len) (lins K len p ps) = filter (\<lambda>q. K q \<noteq> (eid, len)) ps"
    using a(1) unfolding ldel_def lins_def
    by (metis (mono_tags, lifting) filter.simps(2) filter_append takeWhile_dropWhile_id)
  ultimately show ?thesis by simp
qed

text \<open>The loops over the slots of one array.\<close>

definition slots_upd :: "(addr list \<Rightarrow> addr list) \<Rightarrow> nat list \<Rightarrow> lpm_table \<Rightarrow> lpm_table \<Rightarrow> bool" where
  "slots_upd F js ns ns' \<longleftrightarrow> length ns' = length ns \<and>
     (\<forall>j<length ns. ln_next (ns' ! j) = ln_next (ns ! j) \<and>
        ptrs (ns' ! j) = (if j \<in> set js then F (ptrs (ns ! j)) else ptrs (ns ! j)))"

lemma slots_upd_Nil [simp]: "slots_upd F [] ns ns"
  by (simp add: slots_upd_def)

lemma slots_upd_Cons:
  assumes "slots_upd F js (lpm_slot_set ns j h) ns'" "map le_ptr h = F (ptrs (ns ! j))" "j \<notin> set js" "j < length ns"
  shows "slots_upd F (j # js) ns ns'"
  using assms by (auto simp: slots_upd_def lpm_slot_set_def nth_list_update split: if_splits)

text \<open>The entries of key \<open>k\<close> are taken out of the slots \<open>js\<close>, and nothing else changes.\<close>

definition stripped :: "keymap \<Rightarrow> u32 \<times> nat \<Rightarrow> nat list \<Rightarrow> lpm_table \<Rightarrow> lpm_table \<Rightarrow> bool" where
  "stripped K k js ns ns' \<longleftrightarrow> length ns' = length ns \<and>
     (\<forall>i<length ns. ns' ! i =
        (if i \<in> set js then Lnode (filter (\<lambda>e. K (le_ptr e) \<noteq> k) (ln_head (ns ! i))) (ln_next (ns ! i)) else ns ! i))"

lemma stripped_Nil [simp]: "stripped K k [] ns ns"
  by (simp add: stripped_def)

lemma stripped_unique: "stripped K k js ns a \<Longrightarrow> stripped K k js ns b \<Longrightarrow> a = b"
  by (auto simp: stripped_def intro: nth_equalityI)

lemma stripped_Cons:
  assumes "stripped K k js (lpm_slot_set ns j h) ns'" "h = filter (\<lambda>e. K (le_ptr e) \<noteq> k) (ln_head (ns ! j))"
    "j \<notin> set js" "j < length ns"
  shows "stripped K k (j # js) ns ns'"
  using assms by (auto simp: stripped_def lpm_slot_set_def nth_list_update split: if_splits)

lemma stripped_Cons_rev:
  assumes "stripped K k js ns' (lpm_slot_set ns j h)" "filter (\<lambda>e. K (le_ptr e) \<noteq> k) h = ln_head (ns ! j)"
    "j \<notin> set js" "j < length ns"
  shows "stripped K k (j # js) ns' ns"
  unfolding stripped_def
proof (intro conjI allI impI)
  show "length ns = length ns'" using assms(1) by (simp add: stripped_def lpm_slot_set_def)
  fix i assume i: "i < length ns'"
  have "lpm_slot_set ns j h ! i = (if i \<in> set js
      then Lnode (filter (\<lambda>e. K (le_ptr e) \<noteq> k) (ln_head (ns' ! i))) (ln_next (ns' ! i)) else ns' ! i)"
    using assms(1) i by (simp add: stripped_def)
  moreover have "Lnode (ln_head (ns ! j)) (ln_next (ns ! j)) = ns ! j" by simp
  ultimately show "ns ! i = (if i \<in> set (j # js)
      then Lnode (filter (\<lambda>e. K (le_ptr e) \<noteq> k) (ln_head (ns' ! i))) (ln_next (ns' ! i)) else ns' ! i)"
    using assms(2-4) unfolding lpm_slot_set_def
    by (cases "i = j") (auto simp del: lpm_node.collapse simp: nth_list_update dest: sym)
qed

lemma slot_set_wf:
  assumes "\<forall>n\<in>set ns. node_wf K lo hi n" "j < length ns" "head_wf K lo hi (map le_ptr h)"
  shows "\<forall>n\<in>set (lpm_slot_set ns j h). node_wf K lo hi n"
proof
  fix n assume "n \<in> set (lpm_slot_set ns j h)"
  then have "n \<in> insert (Lnode h (ln_next (ns ! j))) (set ns)"
    unfolding lpm_slot_set_def using set_update_subset_insert by fast
  moreover have "node_wf K lo hi (ns ! j)" using assms by simp
  ultimately show "node_wf K lo hi n"
    using assms(1,3) by (auto simp: node_wf_iff [of K lo hi "ns ! j"] node_wf_iff [of K lo hi "Lnode h (ln_next (ns ! j))"])
qed

lemma slots_upd_routes:
  assumes "slots_upd F js ns ns'" "i < length ns"
  shows "node_routes dst off (ns' ! i) =
    sub_routes dst off (ns ! i) @ (if i \<in> set js then F (ptrs (ns ! i)) else ptrs (ns ! i))"
  using assms by (simp add: node_routes_eq slots_upd_def sub_routes_def)

lemma slots_upd_lins:
  assumes "slots_upd (lins K len p) js ns ns'" "i < length ns" "node_wf K lo off (ns ! i)" "len \<le> off"
  shows "node_routes dst off (ns' ! i) =
    (if i \<in> set js then lins K len p (node_routes dst off (ns ! i)) else node_routes dst off (ns ! i))"
proof -
  have "\<forall>q\<in>set (sub_routes dst off (ns ! i)). len < snd (K q)"
    using sub_routes_len [OF assms(3)] assms(4) by (meson le_less_trans)
  from lins_append_high [OF this] show ?thesis
    unfolding slots_upd_routes [OF assms(1,2)] by (simp add: node_routes_eq)
qed

lemma slots_upd_ldel:
  assumes "slots_upd (ldel K (eid, len)) js ns ns'" "i < length ns" "node_wf K lo off (ns ! i)" "len \<le> off"
  shows "node_routes dst off (ns' ! i) =
    (if i \<in> set js then ldel K (eid, len) (node_routes dst off (ns ! i)) else node_routes dst off (ns ! i))"
proof -
  have "\<forall>q\<in>set (sub_routes dst off (ns ! i)). snd (K q) \<noteq> snd (eid, len)"
    using sub_routes_len [OF assms(3)] assms(4) by force
  from ldel_same [OF this] show ?thesis
    unfolding slots_upd_routes [OF assms(1,2)] by (simp add: node_routes_eq)
qed

text \<open>An entry of a given length sits in the node of the level of that length.\<close>

lemma key_in_head:
  assumes "node_wf K lo off n" "len \<le> off"
  shows "(eid, len) \<in> K ` set (node_routes dst off n) \<longleftrightarrow> (eid, len) \<in> K ` set (ptrs n)"
proof -
  have "(eid, len) \<notin> K ` set (sub_routes dst off n)"
    using sub_routes_len [OF assms(1), of _ dst] assms(2) by (metis image_iff snd_conv not_le)
  then show ?thesis by (simp add: node_routes_eq image_Un)
qed

text \<open>The routes of an address in an array of nodes indexed by \<open>r\<close> bits from \<open>off\<close> on.\<close>

definition arr_routes :: "nat \<Rightarrow> nat \<Rightarrow> lpm_table \<Rightarrow> bytes \<Rightarrow> addr list" where
  "arr_routes off r ns dst = node_routes dst (off + r) (ns ! unat (lpm_index dst off r))"

lemma tab_routes_arr: "tab_routes tab = arr_routes 0 16 tab"
  by (rule ext) (simp add: tab_routes_def tab_chain_def arr_routes_def node_routes_def)

definition arr_wf :: "keymap \<Rightarrow> nat \<Rightarrow> nat \<Rightarrow> nat \<Rightarrow> lpm_table \<Rightarrow> bool" where
  "arr_wf K lo off r ns \<longleftrightarrow> off mod 32 + r \<le> 32 \<and> r < 32 \<and> length ns = 2 ^ r \<and>
     (\<forall>n\<in>set ns. node_wf K lo (off + r) n)"

text \<open>The requests for memory of the given sizes, one after the other, all succeed.\<close>

fun roomy :: "nat list \<Rightarrow> ufp_mpool \<Rightarrow> bool" where
  "roomy [] mp \<longleftrightarrow> True"
| "roomy (n # sizes) mp \<longleftrightarrow>
     (case ufp_mem_alloc mp n of Some (Some a, mp') \<Rightarrow> roomy sizes mp' | _ \<Rightarrow> False)"

subsection \<open>Memory and the contract of a client\<close>

text \<open>
  The memory is consistent: the pool is well-formed, its live blocks are the distinct owned
  addresses \<open>W\<close> and the objects, with no block both; the counter of an object is the number of
  references to it in \<open>R\<close>, and there is an object behind every reference. The client may ask
  that its objects stay \<open>good\<close>, whatever that is.
\<close>

definition lpm_mem_ok ::
  "('e \<Rightarrow> u32 \<times> nat) \<Rightarrow> ('e \<Rightarrow> nat) \<Rightarrow> (addr \<Rightarrow> 'e \<Rightarrow> bool) \<Rightarrow> keymap \<Rightarrow> 'e lpm_mem \<Rightarrow> addr multiset \<Rightarrow> addr multiset \<Rightarrow> bool" where
  "lpm_mem_ok keyof refc good K m W R \<longleftrightarrow>
     mp_wf (lm_pool m) \<and> (\<forall>a. count W a \<le> 1) \<and> mp_live (lm_pool m) = set_mset W \<union> dom (lm_objs m) \<and>
     set_mset W \<inter> dom (lm_objs m) = {} \<and> set_mset R \<subseteq> dom (lm_objs m) \<and>
     (\<forall>p e. lm_objs m p = Some e \<longrightarrow> keyof e = K p \<and> refc e = count R p \<and> good p e)"

text \<open>The objects that disappear are those whose last reference disappears.\<close>

definition frees :: "'e lpm_mem \<Rightarrow> addr multiset \<Rightarrow> 'e lpm_mem \<Rightarrow> addr multiset \<Rightarrow> bool" where
  "frees m R m' R' \<longleftrightarrow> set_mset R' \<subseteq> set_mset R \<and>
     dom (lm_objs m') = dom (lm_objs m) - (set_mset R - set_mset R')"

lemma frees_refl [simp]: "frees m R m R"
  by (simp add: frees_def)

lemma frees_trans: "frees m1 R1 m2 R2 \<Longrightarrow> frees m2 R2 m3 R3 \<Longrightarrow> frees m1 R1 m3 R3"
  by (auto simp: frees_def)

definition REF_LIMIT :: nat where
  "REF_LIMIT = 2 ^ 32"

locale lpm_client =
  fixes ops :: "'e lpm_ops"
    and keyof :: "'e \<Rightarrow> u32 \<times> nat"
    and refc :: "'e \<Rightarrow> nat"
    and good :: "addr \<Rightarrow> 'e \<Rightarrow> bool"
  assumes identify: "lm_objs m p = Some e \<Longrightarrow>
        entry_identify ops m p eid len = Some (if keyof e = (eid, len) then 0 else 1)"
    and compare: "lm_objs m p = Some e \<Longrightarrow>
        entry_compare ops m p len = Some (if len < snd (keyof e) then 1 else 0)"
    and pull: "lm_objs m p = Some e \<Longrightarrow> Suc (refc e) < REF_LIMIT \<Longrightarrow>
        \<exists>e'. entry_pull ops m p = Some (m\<lparr>lm_objs := (lm_objs m)(p \<mapsto> e')\<rparr>) \<and>
          keyof e' = keyof e \<and> refc e' = Suc (refc e) \<and> (good p e \<longrightarrow> good p e')"
    and put: "lm_objs m p = Some e \<Longrightarrow> 1 < refc e \<Longrightarrow>
        \<exists>e'. entry_put ops m p = Some (m\<lparr>lm_objs := (lm_objs m)(p \<mapsto> e')\<rparr>) \<and>
          keyof e' = keyof e \<and> refc e' = refc e - 1 \<and> (good p e \<longrightarrow> good p e')"
    and put_last: "lm_objs m p = Some e \<Longrightarrow> refc e = 1 \<Longrightarrow>
        entry_put ops m p = map_option (\<lambda>mp. m\<lparr>lm_pool := mp, lm_objs := (lm_objs m)(p := None)\<rparr>)
          (ufp_mem_free (lm_pool m) p)"
begin

abbreviation mok :: "keymap \<Rightarrow> 'e lpm_mem \<Rightarrow> addr multiset \<Rightarrow> addr multiset \<Rightarrow> bool" where
  "mok \<equiv> lpm_mem_ok keyof refc good"

lemma mok_obj:
  assumes "mok K m W R" "p \<in># R"
  obtains e where "lm_objs m p = Some e" "keyof e = K p" "refc e = count R p" "good p e"
  using assms by (auto simp: lpm_mem_ok_def dom_def subset_iff)

lemma mok_alloc:
  assumes "mok K m W R" "mem_size_ok n"
  shows "(\<exists>mp. ufp_mem_alloc (lm_pool m) n = Some (None, mp) \<and> mok K (m\<lparr>lm_pool := mp\<rparr>) W R) \<or>
    (\<exists>a mp. ufp_mem_alloc (lm_pool m) n = Some (Some a, mp) \<and> a \<notin> mp_live (lm_pool m) \<and>
       mok K (m\<lparr>lm_pool := mp\<rparr>) (add_mset a W) R)"
proof -
  have wf: "mp_wf (lm_pool m)" using assms(1) by (simp add: lpm_mem_ok_def)
  obtain r mp where r: "ufp_mem_alloc (lm_pool m) n = Some (r, mp)"
    using pool.alloc_total [OF wf assms(2)] by blast
  show ?thesis
  proof (cases r)
    case None
    with r pool.alloc_fail [OF wf assms(2)] assms(1) show ?thesis
      by (auto simp: lpm_mem_ok_def)
  next
    case (Some a)
    with r pool.alloc_fresh [OF wf assms(2), of a mp]
    have "mp_wf mp" "a \<notin> mp_live (lm_pool m)" "mp_live mp = insert a (mp_live (lm_pool m))" by auto
    with assms(1) have "mok K (m\<lparr>lm_pool := mp\<rparr>) (add_mset a W) R"
      unfolding lpm_mem_ok_def by (auto simp: not_in_iff [symmetric] subset_iff)
    with r Some \<open>a \<notin> mp_live (lm_pool m)\<close> show ?thesis by blast
  qed
qed

lemma mok_free:
  assumes "mok K m (add_mset a W) R"
  shows "\<exists>m'. lpm_mem_free m a = Some m' \<and> lm_objs m' = lm_objs m \<and> mok K m' W R"
proof -
  have wf: "mp_wf (lm_pool m)" "a \<in> mp_live (lm_pool m)" using assms by (auto simp: lpm_mem_ok_def)
  have "a \<notin># W" using assms unfolding lpm_mem_ok_def
    by (metis count_add_mset Suc_le_mono One_nat_def le_zero_eq not_in_iff)
  moreover have "count W x \<le> 1" for x
    using assms unfolding lpm_mem_ok_def by (metis count_add_mset le_SucI Suc_leD)
  moreover obtain mp where "ufp_mem_free (lm_pool m) a = Some mp" "mp_wf mp"
      "mp_live mp = mp_live (lm_pool m) - {a}"
    using pool.release_live [OF wf] by blast
  ultimately show ?thesis
    using assms by (auto simp: lpm_mem_ok_def lpm_mem_free_def)
qed

lemma mok_pull:
  assumes "mok K m W R" "p \<in> dom (lm_objs m)" "Suc (count R p) < REF_LIMIT"
  shows "\<exists>m'. entry_pull ops m p = Some m' \<and> lm_pool m' = lm_pool m \<and>
    dom (lm_objs m') = dom (lm_objs m) \<and> mok K m' W (add_mset p R)"
proof -
  obtain e where e: "lm_objs m p = Some e" "refc e = count R p" "keyof e = K p" "good p e"
    using assms(1,2) by (auto simp: lpm_mem_ok_def)
  obtain e' where e': "entry_pull ops m p = Some (m\<lparr>lm_objs := (lm_objs m)(p \<mapsto> e')\<rparr>)"
      "keyof e' = keyof e" "refc e' = Suc (refc e)" "good p e \<longrightarrow> good p e'"
    using pull [OF e(1)] assms(3) e(2) by auto
  have "mok K (m\<lparr>lm_objs := (lm_objs m)(p \<mapsto> e')\<rparr>) W (add_mset p R)"
    using assms(1,2) e e' unfolding lpm_mem_ok_def by auto
  with e' e(1) show ?thesis by auto
qed

lemma mok_put:
  assumes "mok K m W (add_mset p R)"
  shows "\<exists>m'. entry_put ops m p = Some m' \<and> mok K m' W R \<and>
    dom (lm_objs m') = (if p \<in># R then dom (lm_objs m) else dom (lm_objs m) - {p})"
proof -
  obtain e where e: "lm_objs m p = Some e" "keyof e = K p" "refc e = Suc (count R p)" "good p e"
    using mok_obj [OF assms, of p] by auto
  show ?thesis
  proof (cases "p \<in># R")
    case True
    then have "1 < refc e" using e(3) by simp
    then obtain e' where e': "entry_put ops m p = Some (m\<lparr>lm_objs := (lm_objs m)(p \<mapsto> e')\<rparr>)"
        "keyof e' = keyof e" "refc e' = refc e - 1" "good p e \<longrightarrow> good p e'"
      using put [OF e(1)] by auto
    have "mok K (m\<lparr>lm_objs := (lm_objs m)(p \<mapsto> e')\<rparr>) W R"
      using assms e e' unfolding lpm_mem_ok_def by auto
    with e' True e(1) show ?thesis by auto
  next
    case False
    then have r1: "refc e = 1" using e(3) by (simp add: not_in_iff)
    have wf: "mp_wf (lm_pool m)" "p \<in> mp_live (lm_pool m)" using assms e(1) by (auto simp: lpm_mem_ok_def)
    obtain mp where mp: "ufp_mem_free (lm_pool m) p = Some mp" "mp_wf mp"
        "mp_live mp = mp_live (lm_pool m) - {p}"
      using pool.release_live [OF wf] by blast
    have "mok K (m\<lparr>lm_pool := mp, lm_objs := (lm_objs m)(p := None)\<rparr>) W R"
      using assms e mp False unfolding lpm_mem_ok_def by (auto split: if_splits)
    with put_last [OF e(1) r1] mp False show ?thesis by auto
  qed
qed

text \<open>The operations on the list of one slot.\<close>

definition objs_ok :: "keymap \<Rightarrow> 'e lpm_mem \<Rightarrow> addr set \<Rightarrow> bool" where
  "objs_ok K m A \<longleftrightarrow> (\<forall>p\<in>A. \<exists>e. lm_objs m p = Some e \<and> keyof e = K p)"

lemma mok_objs_ok: "mok K m W R \<Longrightarrow> A \<subseteq> set_mset R \<Longrightarrow> objs_ok K m A"
  by (meson mok_obj objs_ok_def subsetD)

lemma insert_scan_eq:
  assumes "objs_ok K m (set (map le_ptr es))"
    "sorted_wrt (\<lambda>p q. snd (K q) \<le> snd (K p)) (map le_ptr es)"
  shows "lpm_insert_scan ops m eid len es pos prior =
    Some (if (eid, len) \<in> K ` set (map le_ptr es) then Inl ()
          else Inr (if es \<noteq> [] \<and> len < snd (K (le_ptr (hd es)))
            then pos + length (takeWhile (\<lambda>q. len < snd (K q)) (map le_ptr es)) else prior))"
  using assms
proof (induction es arbitrary: pos prior)
  case (Cons e es)
  obtain ob where ob: "lm_objs m (le_ptr e) = Some ob" "keyof ob = K (le_ptr e)"
    using Cons.prems(1) by (auto simp: objs_ok_def)
  have "es \<noteq> [] \<Longrightarrow> len < snd (K (le_ptr (hd es))) \<Longrightarrow> len < snd (K (le_ptr e))"
    using Cons.prems(2) by (cases es) auto
  moreover have "objs_ok K m (set (map le_ptr es))" using Cons.prems(1) by (auto simp: objs_ok_def)
  ultimately show ?case
    using Cons.IH Cons.prems(2) by (cases es) (auto simp: identify [OF ob(1)] compare [OF ob(1)] ob(2))
qed simp

lemma entry_insert_spec:
  assumes mok: "mok K m W R" and R: "set (map le_ptr h) \<subseteq> set_mset R"
    and wf: "head_wf K lo hi (map le_ptr h)"
    and p: "le_ptr e \<in> dom (lm_objs m)" "Suc (count R (le_ptr e)) < REF_LIMIT"
  shows "if (eid, len) \<in> K ` set (map le_ptr h) then lpm_entry_insert ops m h eid len e = Some (-1, m, h)
    else \<exists>m' h'. lpm_entry_insert ops m h eid len e = Some (0, m', h') \<and>
      lm_pool m' = lm_pool m \<and> dom (lm_objs m') = dom (lm_objs m) \<and>
      mok K m' W (add_mset (le_ptr e) R) \<and>
      map le_ptr h' = lins K len (le_ptr e) (map le_ptr h) \<and>
      mset (map le_addr h') = add_mset (le_addr e) (mset (map le_addr h)) \<and>
      (\<exists>i. h' = take i h @ e # drop i h)"
proof -
  let ?n = "length (takeWhile (\<lambda>q. len < snd (K q)) (map le_ptr h))"
  have scan: "lpm_insert_scan ops m eid len h 0 0 =
      Some (if (eid, len) \<in> K ` set (map le_ptr h) then Inl () else Inr ?n)"
    using insert_scan_eq [OF mok_objs_ok [OF mok R], of eid len 0 0] wf
    by (cases h) (auto simp: head_wf_def)
  obtain m' where m': "entry_pull ops m (le_ptr e) = Some m'" "lm_pool m' = lm_pool m"
      "dom (lm_objs m') = dom (lm_objs m)" "mok K m' W (add_mset (le_ptr e) R)"
    using mok_pull [OF mok p] by blast
  have "map le_ptr (take ?n h @ e # drop ?n h) = lins K len (le_ptr e) (map le_ptr h)"
    unfolding lins_def map_append list.map take_map [symmetric] drop_map [symmetric]
    by (simp only: takeWhile_eq_take [symmetric] dropWhile_eq_drop [symmetric])
  moreover have "mset (map le_addr (take ?n h @ e # drop ?n h)) = add_mset (le_addr e) (mset (map le_addr h))"
    by (metis append_take_drop_id list.simps(9) map_append mset.simps(2) mset_append union_mset_add_mset_right)
  ultimately show ?thesis
    using scan m' unfolding lpm_entry_insert_def by auto
qed

lemma entry_drop_spec:
  assumes "mok K m (add_mset (le_addr e) W) (add_mset (le_ptr e) R)"
  shows "\<exists>m'. lpm_entry_drop ops m e = Some m' \<and> mok K m' W R \<and> frees m (add_mset (le_ptr e) R) m' R"
proof -
  obtain m1 where m1: "entry_put ops m (le_ptr e) = Some m1" "mok K m1 (add_mset (le_addr e) W) R"
    "dom (lm_objs m1) = (if le_ptr e \<in># R then dom (lm_objs m) else dom (lm_objs m) - {le_ptr e})"
    using mok_put [OF assms] by blast
  then have "frees m (add_mset (le_ptr e) R) m1 R" by (auto simp: frees_def)
  then show ?thesis using mok_free [OF m1(2)] m1(1) by (auto simp: lpm_entry_drop_def frees_def)
qed

lemma entry_delete_spec:
  assumes "mok K m (mset (map le_addr h) + W) (mset (map le_ptr h) + R)" "distinct (map K (map le_ptr h))"
  shows "\<exists>m' h'. lpm_entry_delete ops m h eid len =
      Some (if (eid, len) \<in> K ` set (map le_ptr h) then 0 else -1, m', h') \<and>
    mok K m' (mset (map le_addr h') + W) (mset (map le_ptr h') + R) \<and>
    h' = filter (\<lambda>e. K (le_ptr e) \<noteq> (eid, len)) h \<and>
    frees m (mset (map le_ptr h) + R) m' (mset (map le_ptr h') + R) \<and>
    ((eid, len) \<notin> K ` set (map le_ptr h) \<longrightarrow> h' = h \<and> m' = m)"
  using assms
proof (induction h arbitrary: W R)
  case Nil
  then show ?case by (simp add: ldel_def)
next
  case (Cons e h)
  obtain ob where ob: "lm_objs m (le_ptr e) = Some ob" "keyof ob = K (le_ptr e)"
    using mok_obj [OF Cons.prems(1), of "le_ptr e"] by auto
  show ?case
  proof (cases "K (le_ptr e) = (eid, len)")
    case True
    have "filter (\<lambda>e. K (le_ptr e) \<noteq> (eid, len)) h = h"
      using Cons.prems(2) True by (intro filter_True) force
    moreover obtain m' where "lpm_entry_drop ops m e = Some m'"
        "mok K m' (mset (map le_addr h) + W) (mset (map le_ptr h) + R)"
        "frees m (add_mset (le_ptr e) (mset (map le_ptr h) + R)) m' (mset (map le_ptr h) + R)"
      using entry_drop_spec [of K m e "mset (map le_addr h) + W" "mset (map le_ptr h) + R"] Cons.prems(1) by auto
    ultimately show ?thesis
      using True by (force simp: identify [OF ob(1)] ob(2) ldel_def)
  next
    case False
    have "mok K m (mset (map le_addr h) + add_mset (le_addr e) W) (mset (map le_ptr h) + add_mset (le_ptr e) R)"
      using Cons.prems(1) by simp
    from Cons.IH [OF this] Cons.prems(2) False show ?thesis
      by (force simp: identify [OF ob(1)] ob(2) ldel_def)
  qed
qed

lemma entry_delete_present:
  assumes "mok K m (mset (map le_addr h) + W) (mset (map le_ptr h) + R)" "distinct (map K (map le_ptr h))"
    "(eid, len) \<in> K ` set (map le_ptr h)"
  obtains m' h' where "lpm_entry_delete ops m h eid len = Some (0, m', h')"
    "mok K m' (mset (map le_addr h') + W) (mset (map le_ptr h') + R)"
    "map le_ptr h' = ldel K (eid, len) (map le_ptr h)" "h' = filter (\<lambda>e. K (le_ptr e) \<noteq> (eid, len)) h"
    "frees m (mset (map le_ptr h) + R) m' (mset (map le_ptr h') + R)"
proof -
  have "\<exists>m' h'. lpm_entry_delete ops m h eid len = Some (0, m', h') \<and>
      mok K m' (mset (map le_addr h') + W) (mset (map le_ptr h') + R) \<and>
      h' = filter (\<lambda>e. K (le_ptr e) \<noteq> (eid, len)) h \<and>
      frees m (mset (map le_ptr h) + R) m' (mset (map le_ptr h') + R)"
    using entry_delete_spec [OF assms(1,2), of eid len] unfolding if_P [OF assms(3)] by blast
  then obtain m' h' where "lpm_entry_delete ops m h eid len = Some (0, m', h')"
      "mok K m' (mset (map le_addr h') + W) (mset (map le_ptr h') + R)"
      "h' = filter (\<lambda>e. K (le_ptr e) \<noteq> (eid, len)) h"
      "frees m (mset (map le_ptr h) + R) m' (mset (map le_ptr h') + R)"
    by blast
  moreover from this(3) have "map le_ptr h' = ldel K (eid, len) (map le_ptr h)"
    by (simp add: ldel_def filter_map o_def)
  ultimately show ?thesis using that by blast
qed

lemma entry_delete_absent:
  assumes "mok K m (mset (map le_addr h) + W) (mset (map le_ptr h) + R)" "distinct (map K (map le_ptr h))"
    "(eid, len) \<notin> K ` set (map le_ptr h)"
  shows "lpm_entry_delete ops m h eid len = Some (-1, m, h)"
  using entry_delete_spec [OF assms(1,2), of eid len] unfolding if_not_P [OF assms(3)] using assms(3) by auto

lemma entry_delete_all_spec:
  assumes "mok K m (mset (map le_addr h) + W) (mset (map le_ptr h) + R)"
  shows "\<exists>m'. lpm_entry_delete_all ops m h = Some m' \<and> mok K m' W R \<and> frees m (mset (map le_ptr h) + R) m' R"
  using assms
proof (induction h arbitrary: m)
  case (Cons e h)
  from Cons.prems obtain m1 where m1: "lpm_entry_drop ops m e = Some m1"
      "mok K m1 (mset (map le_addr h) + W) (mset (map le_ptr h) + R)"
      "frees m (add_mset (le_ptr e) (mset (map le_ptr h) + R)) m1 (mset (map le_ptr h) + R)"
    using entry_drop_spec [of K m e "mset (map le_addr h) + W" "mset (map le_ptr h) + R"] by auto
  from Cons.IH [OF m1(2)] m1(1) frees_trans [OF m1(3)] show ?case by auto
qed simp

declare lpm_fill.simps(2) [simp del]

lemma filter_inserted:
  assumes "\<exists>i. h' = take i h @ e # drop i h" "\<not> P e" "\<forall>x\<in>set h. P x"
  shows "filter P h' = h"
proof -
  obtain i where "h' = take i h @ e # drop i h" using assms(1) by blast
  then have "filter P h' = filter P (take i h @ drop i h)" using assms(2) by (simp only: filter_append) simp
  also have "\<dots> = h" using assms(3) by (simp only: append_take_drop_id) (simp add: filter_True)
  finally show ?thesis .
qed

lemma size_ok_entry: "mem_size_ok sizeof_lpm_entry"
  by (simp add: mem_size_ok_def sizeof_lpm_entry_def size_header_def size_t_mod_def)

definition fill_post where
  "fill_post K W R eid len p lo hi js m ns ok n m' ns' \<longleftrightarrow>
    n \<le> length js \<and> (ok \<longleftrightarrow> n = length js) \<and> mok K m' (tab_own ns' + W) (tab_refs ns' + R) \<and>
    slots_upd (lins K len p) (take n js) ns ns' \<and> (\<forall>n\<in>set ns'. node_wf K lo hi n) \<and>
    dom (lm_objs m') = dom (lm_objs m) \<and> tab_refs ns' = tab_refs ns + replicate_mset n p \<and>
    (\<forall>j\<in>set (take n js). (eid, len) \<notin> K ` set (ptrs (ns ! j))) \<and> stripped K (eid, len) (take n js) ns' ns"

text \<open>One round of the loop: it stops with nothing changed, or the entry is in the slot.\<close>

lemma fill_slot:
  assumes mok: "mok K m (tab_own ns + W) (tab_refs ns + R)" and j: "j < length ns"
    and wf: "\<forall>n\<in>set ns. node_wf K lo hi n" and len: "lo \<le> len" "len \<le> hi" and p: "K p = (eid, len)"
    "p \<in> dom (lm_objs m)" "Suc (count (tab_refs ns + R) p) < REF_LIMIT"
  obtains (stop) m' where "lpm_fill ops eid len p (j # js) m ns = Some (False, 0, m', ns)"
      "mok K m' (tab_own ns + W) (tab_refs ns + R)" "dom (lm_objs m') = dom (lm_objs m)"
      "(eid, len) \<in> K ` set (ptrs (ns ! j)) \<or> (\<exists>mp. ufp_mem_alloc (lm_pool m) sizeof_lpm_entry = Some (None, mp))"
    | (go) a m' h where
      "lpm_fill ops eid len p (j # js) m ns = map_option (\<lambda>(ok, n, m, ns). (ok, Suc n, m, ns))
         (lpm_fill ops eid len p js m' (lpm_slot_set ns j h))"
      "(eid, len) \<notin> K ` set (ptrs (ns ! j))"
      "ufp_mem_alloc (lm_pool m) sizeof_lpm_entry = Some (Some a, lm_pool m')"
      "mok K m' (tab_own (lpm_slot_set ns j h) + W) (tab_refs (lpm_slot_set ns j h) + R)"
      "dom (lm_objs m') = dom (lm_objs m)" "map le_ptr h = lins K len p (ptrs (ns ! j))"
      "filter (\<lambda>e. K (le_ptr e) \<noteq> (eid, len)) h = ln_head (ns ! j)"
      "tab_refs (lpm_slot_set ns j h) = add_mset p (tab_refs ns)"
      "\<forall>n\<in>set (lpm_slot_set ns j h). node_wf K lo hi n"
proof -
  obtain C D where fr: "\<And>h. tab_own (lpm_slot_set ns j h) = mset (map le_addr h) + C"
      "tab_own ns = mset (map le_addr (ln_head (ns ! j))) + C"
      "\<And>h. tab_refs (lpm_slot_set ns j h) = mset (map le_ptr h) + D"
      "tab_refs ns = mset (map le_ptr (ln_head (ns ! j))) + D"
    using slot_frame [OF j] by blast
  have hwf: "head_wf K lo hi (ptrs (ns ! j))" using wf j by (simp add: node_wf_head)
  from mok_alloc [OF mok size_ok_entry] consider
    (oom) mp where "ufp_mem_alloc (lm_pool m) sizeof_lpm_entry = Some (None, mp)"
      "mok K (m\<lparr>lm_pool := mp\<rparr>) (tab_own ns + W) (tab_refs ns + R)"
    | (ok) a mp where "ufp_mem_alloc (lm_pool m) sizeof_lpm_entry = Some (Some a, mp)"
      "mok K (m\<lparr>lm_pool := mp\<rparr>) (add_mset a (tab_own ns + W)) (tab_refs ns + R)"
    by blast
  then show ?thesis
  proof cases
    case oom
    then show ?thesis using j by (intro stop [of "m\<lparr>lm_pool := mp\<rparr>"]) (auto simp: lpm_fill.simps(2))
  next
    case (ok a mp)
    let ?m = "m\<lparr>lm_pool := mp\<rparr>" and ?e = "\<lparr>le_addr = a, le_ptr = p\<rparr>" and ?h = "ln_head (ns ! j)"
    have "set (ptrs (ns ! j)) \<subseteq> set_mset (tab_refs ns + R)" unfolding fr(4) by auto
    note ins = entry_insert_spec [OF ok(2) this hwf, of ?e eid len]
    show ?thesis
    proof (cases "(eid, len) \<in> K ` set (ptrs (ns ! j))")
      case True
      obtain m2 where "lpm_mem_free ?m a = Some m2" "lm_objs m2 = lm_objs ?m"
          "mok K m2 (tab_own ns + W) (tab_refs ns + R)"
        using mok_free [OF ok(2)] by blast
      with True ins p ok(1) j show ?thesis by (intro stop [of m2]) (auto simp: lpm_fill.simps(2))
    next
      case False
      with ins p obtain m1 h where m1: "lpm_entry_insert ops ?m ?h eid len ?e = Some (0, m1, h)"
          "lm_pool m1 = mp" "dom (lm_objs m1) = dom (lm_objs m)"
          "mok K m1 (add_mset a (tab_own ns + W)) (add_mset p (tab_refs ns + R))"
          "map le_ptr h = lins K len p (ptrs (ns ! j))"
          "mset (map le_addr h) = add_mset a (mset (map le_addr ?h))" "\<exists>i. h = take i ?h @ ?e # drop i ?h"
        by auto
      have filt: "filter (\<lambda>e. K (le_ptr e) \<noteq> (eid, len)) h = ?h"
        using False p(1) by (intro filter_inserted [OF m1(7)]) (auto intro: rev_image_eqI)
      have own: "tab_own (lpm_slot_set ns j h) + W = add_mset a (tab_own ns + W)"
          "tab_refs (lpm_slot_set ns j h) = add_mset p (tab_refs ns)"
        using fr(1,3) [of h] fr(2,4) m1(5,6) by (simp_all add: mset_lins)
      have "\<forall>n\<in>set (lpm_slot_set ns j h). node_wf K lo hi n"
        using lins_wf [OF hwf p(1) len False] by (intro slot_set_wf [OF wf j]) (simp only: m1(5))
      with False ok(1) m1 own j filt show ?thesis
        by (intro go [of m1 h a]) (auto simp: lpm_fill.simps(2) split: option.splits)
    qed
  qed
qed

lemma fill_spec:
  assumes "mok K m (tab_own ns + W) (tab_refs ns + R)" "\<forall>j\<in>set js. j < length ns" "distinct js"
    "\<forall>n\<in>set ns. node_wf K lo hi n" "lo \<le> len" "len \<le> hi" "K p = (eid, len)" "p \<in> dom (lm_objs m)"
    "count (tab_refs ns + R) p + length js < REF_LIMIT"
  shows "\<exists>ok n m' ns'. lpm_fill ops eid len p js m ns = Some (ok, n, m', ns') \<and>
    fill_post K W R eid len p lo hi js m ns ok n m' ns'"
  using assms
proof (induction js arbitrary: m ns)
  case Nil
  then show ?case by (auto simp: fill_post_def)
next
  case (Cons j js)
  note prems = Cons.prems
  have j: "j < length ns" and lim: "Suc (count (tab_refs ns + R) p) < REF_LIMIT" using prems(2,9) by auto
  from prems(1) j prems(4-8) lim show ?case
  proof (cases rule: fill_slot [where js = js])
    case (stop m')
    then show ?thesis
      using prems(4) by (intro exI [of _ False] exI [of _ 0] exI [of _ m'] exI [of _ ns]) (simp add: fill_post_def)
  next
    case (go a m1 h)
    let ?ns = "lpm_slot_set ns j h"
    have "\<exists>ok n m' ns'. lpm_fill ops eid len p js m1 ?ns = Some (ok, n, m', ns') \<and>
        fill_post K W R eid len p lo hi js m1 ?ns ok n m' ns'"
      using go(4,5,8,9) prems(2,3,5-9) by (intro Cons.IH) (auto simp: lpm_slot_set_def)
    then obtain ok n m' ns' where r: "lpm_fill ops eid len p js m1 ?ns = Some (ok, n, m', ns')"
        "fill_post K W R eid len p lo hi js m1 ?ns ok n m' ns'"
      by blast
    have nin: "j \<notin> set (take n js)" using prems(3) by (auto dest: in_set_takeD)
    have "slots_upd (lins K len p) (take (Suc n) (j # js)) ns ns'"
      using slots_upd_Cons [where F = "lins K len p", OF _ go(6) nin j] r(2) by (simp add: fill_post_def)
    moreover have "stripped K (eid, len) (take (Suc n) (j # js)) ns' ns"
      using stripped_Cons_rev [OF _ go(7) nin j] r(2) by (simp add: fill_post_def)
    moreover have "?ns ! i = ns ! i" if "i \<in> set (take n js)" for i
      using nin that unfolding lpm_slot_set_def by (metis nth_list_update_neq)
    ultimately have "fill_post K W R eid len p lo hi (j # js) m ns ok (Suc n) m' ns'"
      using r(2) go(2,5,8) by (auto simp: fill_post_def)
    moreover have "lpm_fill ops eid len p (j # js) m ns = Some (ok, Suc n, m', ns')"
      by (simp only: go(1) r(1)) simp
    ultimately show ?thesis by blast
  qed
qed

text \<open>When the entry exists in the first slot the loop stops there; with enough memory and no such
  entry it runs to the end.\<close>

lemma fill_dup:
  assumes "mok K m (tab_own ns + W) (tab_refs ns + R)" "j < length ns"
    "\<forall>n\<in>set ns. node_wf K lo hi n" "lo \<le> len" "len \<le> hi" "K p = (eid, len)" "p \<in> dom (lm_objs m)"
    "Suc (count (tab_refs ns + R) p) < REF_LIMIT" "(eid, len) \<in> K ` set (ptrs (ns ! j))"
  shows "\<exists>m'. lpm_fill ops eid len p (j # js) m ns = Some (False, 0, m', ns) \<and>
    mok K m' (tab_own ns + W) (tab_refs ns + R) \<and> dom (lm_objs m') = dom (lm_objs m)"
  using assms(1-8) by (cases rule: fill_slot [where js = js]) (use assms(9) in auto)

lemma fill_roomy:
  assumes "mok K m (tab_own ns + W) (tab_refs ns + R)" "\<forall>j\<in>set js. j < length ns" "distinct js"
    "\<forall>n\<in>set ns. node_wf K lo hi n" "lo \<le> len" "len \<le> hi" "K p = (eid, len)" "p \<in> dom (lm_objs m)"
    "count (tab_refs ns + R) p + length js < REF_LIMIT"
    "\<forall>j\<in>set js. (eid, len) \<notin> K ` set (ptrs (ns ! j))"
    "roomy (replicate (length js) sizeof_lpm_entry) (lm_pool m)"
  shows "\<exists>m' ns'. lpm_fill ops eid len p js m ns = Some (True, length js, m', ns')"
  using assms
proof (induction js arbitrary: m ns)
  case (Cons j js)
  note prems = Cons.prems
  have j: "j < length ns" and lim: "Suc (count (tab_refs ns + R) p) < REF_LIMIT" using prems(2,9) by auto
  from prems(1) j prems(4-8) lim show ?case
  proof (cases rule: fill_slot [where js = js])
    case (stop m')
    have "(eid, len) \<notin> K ` set (ptrs (ns ! j))" by (rule bspec [OF prems(10) list.set_intros(1)])
    with stop(4) obtain mp where "ufp_mem_alloc (lm_pool m) sizeof_lpm_entry = Some (None, mp)" by blast
    then show ?thesis using prems(11) by simp
  next
    case (go a m1 h)
    let ?ns = "lpm_slot_set ns j h"
    have js: "\<forall>i\<in>set js. i < length ?ns" "\<forall>i\<in>set js. ?ns ! i = ns ! i" "distinct js"
      using prems(2,3) by (auto simp: lpm_slot_set_def nth_list_update)
    have "count (tab_refs ?ns + R) p + length js < REF_LIMIT" using prems(9) go(8) by simp
    moreover have "roomy (replicate (length js) sizeof_lpm_entry) (lm_pool m1)"
      using prems(11) go(3) by simp
    moreover have "\<forall>i\<in>set js. (eid, len) \<notin> K ` set (ptrs (?ns ! i))" using js(2) prems(10) by simp
    ultimately have "\<exists>m' ns'. lpm_fill ops eid len p js m1 ?ns = Some (True, length js, m', ns')"
      using go(5) prems(8) by (intro Cons.IH [OF go(4) js(1,3) go(9) prems(5-7)]) simp_all
    then show ?thesis unfolding go(1) by auto
  qed
qed simp

lemma clear_absent:
  assumes "mok K m (tab_own ns + W) (tab_refs ns + R)" "j < length ns" "node_wf K lo hi (ns ! j)"
    "(eid, len) \<notin> K ` set (ptrs (ns ! j))"
  shows "lpm_clear ops eid len (j # js) m ns = Some (-1, m, ns)"
proof -
  obtain C D where "\<And>h. tab_own (lpm_slot_set ns j h) = mset (map le_addr h) + C"
      "tab_own ns = mset (map le_addr (ln_head (ns ! j))) + C"
      "\<And>h. tab_refs (lpm_slot_set ns j h) = mset (map le_ptr h) + D"
      "tab_refs ns = mset (map le_ptr (ln_head (ns ! j))) + D"
    using slot_frame [OF assms(2)] by blast
  with assms(1) have "mok K m (mset (map le_addr (ln_head (ns ! j))) + (C + W)) (mset (ptrs (ns ! j)) + (D + R))"
    by (simp add: ac_simps)
  from entry_delete_absent [OF this _ assms(4)] node_wf_head [OF assms(3)] assms(2) show ?thesis
    by (simp add: head_wf_def lpm_slot_set_def)
qed

lemma clear_present:
  assumes "mok K m (tab_own ns + W) (tab_refs ns + R)" "\<forall>j\<in>set js. j < length ns" "distinct js"
    "\<forall>n\<in>set ns. node_wf K lo hi n" "\<forall>j\<in>set js. (eid, len) \<in> K ` set (ptrs (ns ! j))"
  shows "\<exists>m' ns'. lpm_clear ops eid len js m ns = Some (0, m', ns') \<and>
    lpm_undo ops eid len js m ns = Some (m', ns') \<and>
    mok K m' (tab_own ns' + W) (tab_refs ns' + R) \<and>
    slots_upd (ldel K (eid, len)) js ns ns' \<and> (\<forall>n\<in>set ns'. node_wf K lo hi n) \<and>
    stripped K (eid, len) js ns ns' \<and> frees m (tab_refs ns + R) m' (tab_refs ns' + R)"
  using assms
proof (induction js arbitrary: m ns)
  case (Cons j js)
  note prems = Cons.prems
  have j: "j < length ns" "node_wf K lo hi (ns ! j)" using prems(2,4) by auto
  obtain C D where fr: "\<And>h. tab_own (lpm_slot_set ns j h) = mset (map le_addr h) + C"
      "tab_own ns = mset (map le_addr (ln_head (ns ! j))) + C"
      "\<And>h. tab_refs (lpm_slot_set ns j h) = mset (map le_ptr h) + D"
      "tab_refs ns = mset (map le_ptr (ln_head (ns ! j))) + D"
    using slot_frame [OF j(1)] by blast
  with prems(1) have "mok K m (mset (map le_addr (ln_head (ns ! j))) + (C + W)) (mset (ptrs (ns ! j)) + (D + R))"
    by (simp add: ac_simps)
  moreover have "(eid, len) \<in> K ` set (ptrs (ns ! j))" "distinct (map K (ptrs (ns ! j)))"
    using node_wf_head [OF j(2)] bspec [OF prems(5), of j] by (simp_all only: head_wf_def list.set insertI1)
  ultimately obtain m1 h where m1: "lpm_entry_delete ops m (ln_head (ns ! j)) eid len = Some (0, m1, h)"
      "mok K m1 (mset (map le_addr h) + (C + W)) (mset (map le_ptr h) + (D + R))"
      "map le_ptr h = ldel K (eid, len) (ptrs (ns ! j))"
      "h = filter (\<lambda>e. K (le_ptr e) \<noteq> (eid, len)) (ln_head (ns ! j))"
      "frees m (mset (ptrs (ns ! j)) + (D + R)) m1 (mset (map le_ptr h) + (D + R))"
    using entry_delete_present by blast
  have fs: "frees m (tab_refs ns + R) m1 (tab_refs (lpm_slot_set ns j h) + R)"
    using m1(5) unfolding fr(3,4) by (simp add: ac_simps)
  let ?ns = "lpm_slot_set ns j h"
  have wf: "\<forall>n\<in>set ?ns. node_wf K lo hi n"
    using ldel_wf [OF node_wf_head [OF j(2)], of "(eid, len)"]
    by (intro slot_set_wf [OF prems(4) j(1)]) (simp only: m1(3))
  have "\<exists>m' ns'. lpm_clear ops eid len js m1 ?ns = Some (0, m', ns') \<and>
    lpm_undo ops eid len js m1 ?ns = Some (m', ns') \<and>
    mok K m' (tab_own ns' + W) (tab_refs ns' + R) \<and>
    slots_upd (ldel K (eid, len)) js ?ns ns' \<and> (\<forall>n\<in>set ns'. node_wf K lo hi n) \<and>
    stripped K (eid, len) js ?ns ns' \<and> frees m1 (tab_refs ?ns + R) m' (tab_refs ns' + R)"
    using m1(2) fr(1,3) wf prems(2,3,5)
    by (intro Cons.IH) (auto simp: lpm_slot_set_def nth_list_update ac_simps)
  with m1(1) j(1) prems(3) slots_upd_Cons [where F = "ldel K (eid, len)", OF _ m1(3) _ j(1)]
    stripped_Cons [OF _ m1(4) _ j(1)] frees_trans [OF fs]
  show ?case by (auto simp: not_le)
qed simp

end

end
