(* ===== verification/Lpm_Ops.thy ===== *)
theory Lpm_Ops
  imports Lpm_Spec
begin

text \<open>
  The effect of the operations of the longest-prefix-match table on the routes of every address,
  for any client of the locale \<open>lpm_client\<close>: first for one array of nodes, then for the recursive
  functions, then for the table.
\<close>

subsection \<open>Effects on routes\<close>

type_synonym routes = "bytes \<Rightarrow> addr list"

definition all_have :: "keymap \<Rightarrow> u32 \<times> nat \<Rightarrow> nat \<Rightarrow> bytes \<Rightarrow> routes \<Rightarrow> bool" where
  "all_have K k off pfx rts \<longleftrightarrow> (\<forall>dst. match_from off (snd k) pfx dst \<longrightarrow> k \<in> K ` set (rts dst))"

definition none_have :: "keymap \<Rightarrow> u32 \<times> nat \<Rightarrow> nat \<Rightarrow> bytes \<Rightarrow> routes \<Rightarrow> bool" where
  "none_have K k off pfx rts \<longleftrightarrow> (\<forall>dst. match_from off (snd k) pfx dst \<longrightarrow> k \<notin> K ` set (rts dst))"

definition ins_routes :: "keymap \<Rightarrow> nat \<Rightarrow> nat \<Rightarrow> bytes \<Rightarrow> addr \<Rightarrow> routes \<Rightarrow> routes" where
  "ins_routes K off len pfx p rts = (\<lambda>dst. if match_from off len pfx dst then lins K len p (rts dst) else rts dst)"

definition del_routes :: "keymap \<Rightarrow> u32 \<times> nat \<Rightarrow> nat \<Rightarrow> bytes \<Rightarrow> routes \<Rightarrow> routes" where
  "del_routes K k off pfx rts = (\<lambda>dst. if match_from off (snd k) pfx dst then ldel K k (rts dst) else rts dst)"

lemma sum_list_replicate_empty [simp]: "sum_list (replicate n {#}) = {#}"
  by (induction n) simp_all

subsection \<open>One array\<close>

lemma arr_slots:
  assumes "arr_wf K lo off r ns" "off \<le> len" "len \<le> off + r"
  shows "\<forall>j\<in>set (lpm_slots (lpm_index pfx off r) (off + r - len)). j < length ns"
    "distinct (lpm_slots (lpm_index pfx off r) (off + r - len))"
    "length (lpm_slots (lpm_index pfx off r) (off + r - len)) = 2 ^ (off + r - len)"
    "unat (lpm_index dst off r) < length ns"
    "unat (lpm_index dst off r) \<in> set (lpm_slots (lpm_index pfx off r) (off + r - len)) \<longleftrightarrow> match_from off len pfx dst"
proof -
  have r: "off mod 32 + r \<le> 32" "r < 32" "length ns = 2 ^ r" and k: "off + r - len < 32"
    using assms by (auto simp: arr_wf_def)
  show "\<forall>j\<in>set (lpm_slots (lpm_index pfx off r) (off + r - len)). j < length ns"
    using lpm_slots_set [OF r(1,2) assms(2,3)] r(3) by simp
  show "unat (lpm_index dst off r) < length ns" using lpm_index_less r(3) by simp
qed (use assms lpm_slots_distinct lpm_slots_length lpm_slots_index in \<open>auto simp: arr_wf_def\<close>)

lemma arr_node:
  assumes "arr_wf K lo off r ns"
  shows "node_wf K lo (off + r) (ns ! unat (lpm_index dst off r))"
  using assms lpm_index_less [of dst off r] by (auto simp: arr_wf_def)

text \<open>Every slot of a prefix is the slot of an address in the prefix.\<close>

lemma slot_address:
  assumes "arr_wf K lo off r ns" "off \<le> len" "len \<le> off + r"
    "j \<in> set (lpm_slots (lpm_index pfx off r) (off + r - len))"
  obtains dst where "unat (lpm_index dst off r) = j" "match_from off len pfx dst"
proof -
  have "off mod 32 + r \<le> 32" "j < 2 ^ r"
    using assms(1,4) arr_slots(1) [OF assms(1-3)] by (auto simp: arr_wf_def)
  then obtain dst where "unat (lpm_index dst off r) = j" using ex_lpm_index by blast
  with arr_slots(5) [OF assms(1-3), of dst pfx] assms(4) that show ?thesis by blast
qed

lemma key_in_slot:
  assumes "arr_wf K lo off r ns" "len \<le> off + r"
  shows "(eid, len) \<in> K ` set (arr_routes off r ns dst) \<longleftrightarrow>
    (eid, len) \<in> K ` set (ptrs (ns ! unat (lpm_index dst off r)))"
  unfolding arr_routes_def by (rule key_in_head [OF arr_node [OF assms(1)] assms(2)])

lemma slots_have:
  assumes "arr_wf K lo off r ns" "off \<le> len" "len \<le> off + r"
    "j \<in> set (lpm_slots (lpm_index pfx off r) (off + r - len))"
  shows "all_have K (eid, len) off pfx (arr_routes off r ns) \<Longrightarrow> (eid, len) \<in> K ` set (ptrs (ns ! j))"
    "none_have K (eid, len) off pfx (arr_routes off r ns) \<Longrightarrow> (eid, len) \<notin> K ` set (ptrs (ns ! j))"
proof -
  obtain dst where dst: "unat (lpm_index dst off r) = j" "match_from off len pfx dst"
    using slot_address [OF assms] by blast
  show "all_have K (eid, len) off pfx (arr_routes off r ns) \<Longrightarrow> (eid, len) \<in> K ` set (ptrs (ns ! j))"
    using key_in_slot [OF assms(1,3), of eid dst] dst unfolding all_have_def snd_conv by metis
  show "none_have K (eid, len) off pfx (arr_routes off r ns) \<Longrightarrow> (eid, len) \<notin> K ` set (ptrs (ns ! j))"
    using key_in_slot [OF assms(1,3), of eid dst] dst unfolding none_have_def snd_conv by metis
qed

lemma arr_lins:
  assumes "arr_wf K lo off r ns" "off \<le> len" "len \<le> off + r"
    "slots_upd (lins K len p) (lpm_slots (lpm_index pfx off r) (off + r - len)) ns ns'"
  shows "arr_routes off r ns' = ins_routes K off len pfx p (arr_routes off r ns)"
  using slots_upd_lins [OF assms(4) arr_slots(4) [OF assms(1-3)] arr_node [OF assms(1)] assms(3)]
    arr_slots(5) [OF assms(1-3)]
  by (auto simp: arr_routes_def ins_routes_def)

lemma arr_ldel:
  assumes "arr_wf K lo off r ns" "off \<le> len" "len \<le> off + r"
    "slots_upd (ldel K (eid, len)) (lpm_slots (lpm_index pfx off r) (off + r - len)) ns ns'"
  shows "arr_routes off r ns' = del_routes K (eid, len) off pfx (arr_routes off r ns)"
  using slots_upd_ldel [OF assms(4) arr_slots(4) [OF assms(1-3)] arr_node [OF assms(1)] assms(3)]
    arr_slots(5) [OF assms(1-3)]
  by (auto simp: arr_routes_def del_routes_def)

lemma slots_nonempty:
  assumes "arr_wf K lo off r ns" "off \<le> len" "len \<le> off + r"
  obtains j js where "lpm_slots (lpm_index pfx off r) (off + r - len) = j # js"
proof (cases "lpm_slots (lpm_index pfx off r) (off + r - len)")
  case Nil
  with arr_slots(3) [OF assms, of pfx] show ?thesis by simp
qed (use that in blast)

subsection \<open>A node and its array\<close>

abbreviation nroutes :: "nat \<Rightarrow> lpm_node \<Rightarrow> routes" where
  "nroutes off n \<equiv> (\<lambda>dst. node_routes dst off n)"

lemma ins_routes_app:
  "\<forall>q\<in>set h. snd (K q) \<le> len \<Longrightarrow>
     ins_routes K off len pfx p (\<lambda>dst. rts dst @ h) = (\<lambda>dst. ins_routes K off len pfx p rts dst @ h)"
  by (auto simp: ins_routes_def lins_append_low)

lemma del_routes_app:
  "\<forall>q\<in>set h. snd (K q) \<noteq> snd k \<Longrightarrow>
     del_routes K k off pfx (\<lambda>dst. rts dst @ h) = (\<lambda>dst. del_routes K k off pfx rts dst @ h)"
  by (auto simp: del_routes_def ldel_same)

lemma have_app:
  assumes "\<forall>q\<in>set h. snd (K q) \<noteq> snd k"
  shows "all_have K k off pfx (\<lambda>dst. rts dst @ h) \<longleftrightarrow> all_have K k off pfx rts"
    "none_have K k off pfx (\<lambda>dst. rts dst @ h) \<longleftrightarrow> none_have K k off pfx rts"
proof -
  have "k \<notin> K ` set h" using assms by (metis image_iff)
  then show "all_have K k off pfx (\<lambda>dst. rts dst @ h) \<longleftrightarrow> all_have K k off pfx rts"
    "none_have K k off pfx (\<lambda>dst. rts dst @ h) \<longleftrightarrow> none_have K k off pfx rts"
    by (simp_all add: all_have_def none_have_def image_Un)
qed

lemma mod8_mod32: "off mod 8 = 0 \<Longrightarrow> off mod 32 + 8 \<le> (32 :: nat)"
proof -
  assume a: "off mod 8 = 0"
  have "off mod 32 mod 8 = 0" using a by (simp add: mod_mod_cancel)
  moreover have "off mod 32 < 32" by simp
  ultimately show ?thesis by presburger
qed

lemma arr_of_node:
  assumes "node_wf K lo off n" "ln_next n = Some (ta, ns)" "off mod 8 = 0"
  shows "arr_wf K (Suc off) off 8 ns" "nroutes off n = (\<lambda>dst. arr_routes off 8 ns dst @ ptrs n)"
proof -
  have l: "length ns = TABLE_SIZE_8" "\<forall>n\<in>set ns. node_wf K (Suc off) (off + 8) n"
    using node_wf_next [OF assms(1,2)] by auto
  then show "arr_wf K (Suc off) off 8 ns"
    using mod8_mod32 [OF assms(3)] by (simp add: arr_wf_def TABLE_SIZE_8_def)
  show "nroutes off n = (\<lambda>dst. arr_routes off 8 ns dst @ ptrs n)"
    using l(1) index8_less assms(2) by (simp add: node_routes_eq sub_routes_def arr_routes_def)
qed

lemma node_of_arr:
  assumes "arr_wf K (Suc off) off 8 ns" "head_wf K lo off (map le_ptr h)"
  shows "node_wf K lo off (Lnode h (Some (ta, ns)))"
    "nroutes off (Lnode h (Some (ta, ns))) = (\<lambda>dst. arr_routes off 8 ns dst @ map le_ptr h)"
proof -
  show "node_wf K lo off (Lnode h (Some (ta, ns)))"
    using assms by (simp add: arr_wf_def TABLE_SIZE_8_def)
  moreover have "length ns = TABLE_SIZE_8" using assms by (simp add: arr_wf_def TABLE_SIZE_8_def)
  ultimately show "nroutes off (Lnode h (Some (ta, ns))) = (\<lambda>dst. arr_routes off 8 ns dst @ map le_ptr h)"
    using index8_less by (simp add: node_routes_eq sub_routes_def arr_routes_def)
qed

lemma arr_fresh:
  assumes "off mod 8 = 0"
  shows "arr_wf K (Suc off) off 8 (replicate TABLE_SIZE_8 lpm_init_node)"
    "arr_routes off 8 (replicate TABLE_SIZE_8 lpm_init_node) = (\<lambda>dst. [])"
    "tab_own (replicate TABLE_SIZE_8 lpm_init_node) = {#}" "tab_refs (replicate TABLE_SIZE_8 lpm_init_node) = {#}"
proof -
  show "arr_wf K (Suc off) off 8 (replicate TABLE_SIZE_8 lpm_init_node)"
    using mod8_mod32 [OF assms] by (simp add: arr_wf_def TABLE_SIZE_8_def)
  show "arr_routes off 8 (replicate TABLE_SIZE_8 lpm_init_node) = (\<lambda>dst. [])"
    using index8_less by (simp add: fun_eq_iff arr_routes_def node_routes_def lpm_init_node_def)
qed (simp_all add: tab_own_def tab_refs_def lpm_init_node_def)

lemma unused_arr:
  assumes "lpm_unused ns" "arr_wf K lo off r ns"
  shows "tab_own ns = {#}" "tab_refs ns = {#}" "arr_routes off r ns = (\<lambda>dst. [])"
proof -
  have n: "n = Lnode [] None" if "n \<in> set ns" for n
    using assms(1) that by (cases n) (auto simp: lpm_unused_def list_all_iff)
  then have "\<exists>k. ns = replicate k (Lnode [] None)"
    by (intro exI [of _ "length ns"] replicate_length_same [symmetric]) blast
  then show "tab_own ns = {#}" "tab_refs ns = {#}"
    by (auto simp: tab_own_def tab_refs_def)
  show "arr_routes off r ns = (\<lambda>dst. [])"
  proof
    fix dst
    have "ns ! unat (lpm_index dst off r) = Lnode [] None"
      using assms(2) lpm_index_less [of dst off r] by (intro n) (auto simp: arr_wf_def)
    then show "arr_routes off r ns dst = []" by (simp add: arr_routes_def node_routes_def)
  qed
qed

text \<open>The routes below a node depend only on the bits from the node's offset on.\<close>

lemma node_chain_cong:
  assumes "\<forall>i\<ge>off. abit dst i = abit dst' i" "off mod 8 = 0"
  shows "node_chain dst off n = node_chain dst' off n"
  using assms
proof (induction dst off n rule: node_chain.induct)
  case (2 dst off h ta ns)
  have "lpm_index dst off 8 = lpm_index dst' off 8"
    using 2(2) mod8_mod32 [OF 2(3)] by (simp add: lpm_index_eq_iff match_from_def)
  moreover have "\<forall>i\<ge>off + 8. abit dst i = abit dst' i" "(off + 8) mod 8 = 0" using 2(2,3) by auto
  ultimately show ?case using 2(1) [OF refl] by (simp add: Let_def)
qed simp

lemma child_have:
  assumes "off mod 8 = 0" "off + 8 < len"
  shows "all_have K (eid, len) off pfx (arr_routes off 8 ns) \<Longrightarrow>
      all_have K (eid, len) (off + 8) pfx (nroutes (off + 8) (ns ! unat (lpm_index pfx off 8)))"
    "none_have K (eid, len) off pfx (arr_routes off 8 ns) \<longleftrightarrow>
      none_have K (eid, len) (off + 8) pfx (nroutes (off + 8) (ns ! unat (lpm_index pfx off 8)))"
proof -
  let ?c = "ns ! unat (lpm_index pfx off 8)"
  note m = mod8_mod32 [OF assms(1)]
  have split: "match_from off len pfx dst \<longleftrightarrow>
      lpm_index pfx off 8 = lpm_index dst off 8 \<and> match_from (off + 8) len pfx dst" for dst
    using match_from_split [of off "off + 8" len pfx dst] assms(2) by (simp add: lpm_index_eq_iff [OF m])
  have ex: "\<exists>dst'. match_from off len pfx dst' \<and> arr_routes off 8 ns dst' = nroutes (off + 8) ?c dst"
    if "match_from (off + 8) len pfx dst" for dst
  proof -
    obtain q where q: "\<And>i. abit q i = (if i < off + 8 then abit pfx i else abit dst i)"
      using ex_abit [of "\<lambda>i. if i < off + 8 then abit pfx i else abit dst i"] by auto
    have "match_from off len pfx q" using that by (auto simp: match_from_def q)
    moreover have "node_chain q (off + 8) ?c = node_chain dst (off + 8) ?c"
      using assms(1) by (intro node_chain_cong) (simp_all add: q)
    ultimately show ?thesis using split by (auto simp: arr_routes_def node_routes_def)
  qed
  show "all_have K (eid, len) off pfx (arr_routes off 8 ns) \<Longrightarrow>
      all_have K (eid, len) (off + 8) pfx (nroutes (off + 8) ?c)"
    using ex unfolding all_have_def snd_conv by metis
  show "none_have K (eid, len) off pfx (arr_routes off 8 ns) \<longleftrightarrow>
      none_have K (eid, len) (off + 8) pfx (nroutes (off + 8) ?c)"
    using ex split unfolding none_have_def snd_conv arr_routes_def by metis
qed

lemma child_upd:
  assumes "off mod 8 = 0" "off + 8 < len" "length ns = 2 ^ 8"
  shows "nroutes (off + 8) c = ins_routes K (off + 8) len pfx p (nroutes (off + 8) (ns ! unat (lpm_index pfx off 8))) \<Longrightarrow>
      arr_routes off 8 (ns[unat (lpm_index pfx off 8) := c]) = ins_routes K off len pfx p (arr_routes off 8 ns)"
    "nroutes (off + 8) c = del_routes K (eid, len) (off + 8) pfx (nroutes (off + 8) (ns ! unat (lpm_index pfx off 8))) \<Longrightarrow>
      arr_routes off 8 (ns[unat (lpm_index pfx off 8) := c]) = del_routes K (eid, len) off pfx (arr_routes off 8 ns)"
    "nroutes (off + 8) c = nroutes (off + 8) (ns ! unat (lpm_index pfx off 8)) \<Longrightarrow>
      arr_routes off 8 (ns[unat (lpm_index pfx off 8) := c]) = arr_routes off 8 ns"
proof -
  note m = mod8_mod32 [OF assms(1)]
  have split: "match_from off len pfx dst \<longleftrightarrow>
      unat (lpm_index pfx off 8) = unat (lpm_index dst off 8) \<and> match_from (off + 8) len pfx dst" for dst
    using match_from_split [of off "off + 8" len pfx dst] assms(2)
    by (simp add: lpm_index_eq_iff [OF m] flip: word_unat_eq_iff)
  have i: "unat (lpm_index q off 8) < length ns" for q using lpm_index_less [of q off 8] assms(3) by simp
  show "nroutes (off + 8) c = ins_routes K (off + 8) len pfx p (nroutes (off + 8) (ns ! unat (lpm_index pfx off 8))) \<Longrightarrow>
      arr_routes off 8 (ns[unat (lpm_index pfx off 8) := c]) = ins_routes K off len pfx p (arr_routes off 8 ns)"
    using i split by (auto simp: fun_eq_iff arr_routes_def ins_routes_def nth_list_update)
  show "nroutes (off + 8) c = del_routes K (eid, len) (off + 8) pfx (nroutes (off + 8) (ns ! unat (lpm_index pfx off 8))) \<Longrightarrow>
      arr_routes off 8 (ns[unat (lpm_index pfx off 8) := c]) = del_routes K (eid, len) off pfx (arr_routes off 8 ns)"
    using i split by (auto simp: fun_eq_iff arr_routes_def del_routes_def nth_list_update)
  show "nroutes (off + 8) c = nroutes (off + 8) (ns ! unat (lpm_index pfx off 8)) \<Longrightarrow>
      arr_routes off 8 (ns[unat (lpm_index pfx off 8) := c]) = arr_routes off 8 ns"
    using i by (auto simp: fun_eq_iff arr_routes_def nth_list_update)
qed

text \<open>
  The contract of adding a prefix: what status, what becomes of the routes. With status 0 the
  object is in the routes of exactly the addresses of the prefix; an entry with the same identity
  and prefix is refused and nothing changes; and a new one is accepted when there is memory.
\<close>

definition add_post :: "keymap \<Rightarrow> u32 \<times> nat \<Rightarrow> nat \<Rightarrow> bytes \<Rightarrow> addr \<Rightarrow> routes \<Rightarrow> bool \<Rightarrow> int \<Rightarrow> routes \<Rightarrow> bool" where
  "add_post K k off pfx p rts room ret rts' \<longleftrightarrow> (ret = 0 \<or> ret = -1) \<and>
     (ret = 0 \<longrightarrow> rts' = ins_routes K off (snd k) pfx p rts \<and> none_have K k off pfx rts) \<and>
     (all_have K k off pfx rts \<longrightarrow> ret = -1 \<and> rts' = rts) \<and>
     (none_have K k off pfx rts \<longrightarrow> room \<longrightarrow> ret = 0)"

lemma add_post_app:
  assumes "add_post K k off pfx p rts room ret rts'" "\<forall>q\<in>set h. snd (K q) < snd k"
  shows "add_post K k off pfx p (\<lambda>dst. rts dst @ h) room ret (\<lambda>dst. rts' dst @ h)"
proof -
  have a: "\<forall>q\<in>set h. snd (K q) \<noteq> snd k" "\<forall>q\<in>set h. snd (K q) \<le> snd k" using assms(2) by auto
  show ?thesis
    using assms(1) unfolding add_post_def have_app [OF a(1)] ins_routes_app [OF a(2)] by auto
qed

lemma add_post_room: "add_post K k off pfx p rts room ret rts' \<Longrightarrow> (room' \<longrightarrow> room) \<Longrightarrow> add_post K k off pfx p rts room' ret rts'"
  by (auto simp: add_post_def)

lemma add_post_child:
  assumes "off mod 8 = 0" "off + 8 < len" "length ns = 2 ^ 8"
    "add_post K (eid, len) (off + 8) pfx p (nroutes (off + 8) (ns ! unat (lpm_index pfx off 8))) room ret (nroutes (off + 8) c)"
  shows "add_post K (eid, len) off pfx p (arr_routes off 8 ns) room ret
    (arr_routes off 8 (ns[unat (lpm_index pfx off 8) := c]))"
  using assms(4) child_have [OF assms(1,2), of K eid pfx ns] child_upd(1,3) [OF assms(1-3), where pfx = pfx and c = c]
  unfolding add_post_def snd_conv by metis

text \<open>The sizes of the blocks that adding a prefix below a node asks for.\<close>

function node_need :: "bytes \<Rightarrow> nat \<Rightarrow> lpm_node \<Rightarrow> nat \<Rightarrow> nat list" where
  "node_need pfx len n off =
     (if ln_next n = None then [sizeof_lpm_node * TABLE_SIZE_8] else []) @
     (if 8 < len - off then
        node_need pfx len (case ln_next n of None \<Rightarrow> lpm_init_node | Some (ta, ns) \<Rightarrow> ns ! unat (lpm_index pfx off 8)) (off + 8)
      else replicate (2 ^ (off + 8 - len)) sizeof_lpm_entry)"
  by pat_completeness auto
termination by (relation "measure (\<lambda>(pfx, len, n, off). len - off)") auto

declare node_need.simps [simp del]

text \<open>What \<open>_lpm_add\<close> does with the array of its node.\<close>

definition lpm_add_arr ::
  "'e lpm_ops \<Rightarrow> bytes \<Rightarrow> nat \<Rightarrow> u32 \<Rightarrow> addr \<Rightarrow> 'e lpm_mem \<Rightarrow> lpm_table \<Rightarrow> nat
   \<Rightarrow> (int \<times> 'e lpm_mem \<times> lpm_table) option" where
  "lpm_add_arr ops pfx len eid ptr m ns off =
     (let i = unat (lpm_index pfx off 8) in
      if len - off > 8 then
        (if length ns \<le> i then None
         else map_option (\<lambda>(ret, m', node). (ret, m', ns[i := node]))
                (lpm_add_node ops pfx len eid ptr m (ns ! i) (off + 8)))
      else map_option (\<lambda>(ok, n, m', ns'). (if ok then 0 else -1, m', ns'))
             (lpm_fill ops eid len ptr (lpm_slots (lpm_index pfx off 8) (8 - (len - off))) m ns))"

lemma lpm_add_node_arr:
  "lpm_add_node ops pfx len eid ptr m n off =
     (case lpm_open_table m n of
        None \<Rightarrow> None
      | Some (m1, None) \<Rightarrow> Some (-1, m1, n)
      | Some (m1, Some (ta, ns)) \<Rightarrow>
          (case lpm_add_arr ops pfx len eid ptr m1 ns off of
             None \<Rightarrow> None
           | Some (ret, m2, ns2) \<Rightarrow>
               (if ret < 0 then map_option (\<lambda>(m3, n'). (-1, m3, n')) (lpm_prune m2 (ln_head n) ta ns2)
                else Some (0, m2, Lnode (ln_head n) (Some (ta, ns2))))))"
  by (subst lpm_add_node.simps)
    (auto simp: lpm_add_arr_def Let_def split: option.splits if_splits bool.splits prod.splits)

context lpm_client
begin

definition arr_fill_post where
  "arr_fill_post K W R eid len p lo off r pfx m ns ok n m' ns' \<longleftrightarrow>
     stripped K (eid, len) (take n (lpm_slots (lpm_index pfx off r) (off + r - len))) ns' ns \<and> (ok \<longleftrightarrow> n = 2 ^ (off + r - len)) \<and>
     mok K m' (tab_own ns' + W) (tab_refs ns' + R) \<and> arr_wf K lo off r ns' \<and>
     dom (lm_objs m') = dom (lm_objs m) \<and>
     n \<le> 2 ^ (off + r - len) \<and> tab_refs ns' = tab_refs ns + replicate_mset n p \<and>
     slots_upd (lins K len p) (take n (lpm_slots (lpm_index pfx off r) (off + r - len))) ns ns' \<and>
     (\<forall>j\<in>set (take n (lpm_slots (lpm_index pfx off r) (off + r - len))). (eid, len) \<notin> K ` set (ptrs (ns ! j))) \<and>
     (ok \<longrightarrow> arr_routes off r ns' = ins_routes K off len pfx p (arr_routes off r ns) \<and>
        none_have K (eid, len) off pfx (arr_routes off r ns)) \<and>
     (all_have K (eid, len) off pfx (arr_routes off r ns) \<longrightarrow> \<not> ok \<and> n = 0 \<and> ns' = ns) \<and>
     (none_have K (eid, len) off pfx (arr_routes off r ns) \<longrightarrow>
        roomy (replicate (2 ^ (off + r - len)) sizeof_lpm_entry) (lm_pool m) \<longrightarrow> ok)"

lemma arr_fill:
  assumes mok: "mok K m (tab_own ns + W) (tab_refs ns + R)" and wf: "arr_wf K lo off r ns"
    and len: "lo \<le> len" "off \<le> len" "len \<le> off + r" and p: "K p = (eid, len)" "p \<in> dom (lm_objs m)"
    "count (tab_refs ns + R) p + 2 ^ (off + r - len) < REF_LIMIT"
  shows "\<exists>ok n m' ns'.
    lpm_fill ops eid len p (lpm_slots (lpm_index pfx off r) (off + r - len)) m ns = Some (ok, n, m', ns') \<and>
    arr_fill_post K W R eid len p lo off r pfx m ns ok n m' ns'"
proof -
  let ?js = "lpm_slots (lpm_index pfx off r) (off + r - len)"
  note js = arr_slots [OF wf len(2,3)] and has = slots_have [OF wf len(2,3)]
  have nwf: "\<forall>n\<in>set ns. node_wf K lo (off + r) n" using wf by (simp add: arr_wf_def)
  have lim: "count (tab_refs ns + R) p + length ?js < REF_LIMIT" using p(3) js(3) by simp
  obtain ok n m' ns' where r: "lpm_fill ops eid len p ?js m ns = Some (ok, n, m', ns')"
      "fill_post K W R eid len p lo (off + r) ?js m ns ok n m' ns'"
    using fill_spec [OF mok js(1,2) nwf len(1,3) p(1,2) lim] by blast
  have wf': "arr_wf K lo off r ns'" using wf r(2) by (simp add: arr_wf_def fill_post_def slots_upd_def)
  have ok: "arr_routes off r ns' = ins_routes K off len pfx p (arr_routes off r ns) \<and>
      none_have K (eid, len) off pfx (arr_routes off r ns)" if ok
  proof
    have n: "take n ?js = ?js" using r(2) that by (simp add: fill_post_def)
    show "arr_routes off r ns' = ins_routes K off len pfx p (arr_routes off r ns)"
      using r(2) n by (intro arr_lins [OF wf len(2,3)]) (simp add: fill_post_def)
    have "\<forall>j\<in>set ?js. (eid, len) \<notin> K ` set (ptrs (ns ! j))" using r(2) n by (simp add: fill_post_def)
    then show "none_have K (eid, len) off pfx (arr_routes off r ns)"
      unfolding none_have_def snd_conv using js(5) key_in_slot [OF wf len(3)] by metis
  qed
  have dup: "\<not> ok \<and> n = 0 \<and> ns' = ns" if a: "all_have K (eid, len) off pfx (arr_routes off r ns)"
  proof -
    obtain j js' where j: "?js = j # js'" using slots_nonempty [OF wf len(2,3)] by blast
    then have "j < length ns" "(eid, len) \<in> K ` set (ptrs (ns ! j))" using js(1) [of pfx] has(1) [OF _ a] by auto
    then show ?thesis
      using fill_dup [OF mok _ nwf len(1,3) p(1,2), of j js'] lim r(1) j by auto
  qed
  have room: ok if "none_have K (eid, len) off pfx (arr_routes off r ns)"
      "roomy (replicate (2 ^ (off + r - len)) sizeof_lpm_entry) (lm_pool m)"
    using fill_roomy [OF mok js(1,2) nwf len(1,3) p(1,2) lim] has(2) that r(1) js(3) by auto
  have n: "n \<le> 2 ^ (off + r - len)" "ok \<longleftrightarrow> n = 2 ^ (off + r - len)"
    using r(2) unfolding fill_post_def js(3) by blast+
  have f: "mok K m' (tab_own ns' + W) (tab_refs ns' + R)" "dom (lm_objs m') = dom (lm_objs m)"
      "tab_refs ns' = tab_refs ns + replicate_mset n p" "slots_upd (lins K len p) (take n ?js) ns ns'"
      "\<forall>j\<in>set (take n ?js). (eid, len) \<notin> K ` set (ptrs (ns ! j))" "stripped K (eid, len) (take n ?js) ns' ns"
    using r(2) unfolding fill_post_def by blast+
  have "arr_fill_post K W R eid len p lo off r pfx m ns ok n m' ns'"
    unfolding arr_fill_post_def using n f wf' ok dup room by blast
  with r(1) show ?thesis by blast
qed

lemma size_ok_table: "mem_size_ok (sizeof_lpm_node * TABLE_SIZE_8)"
  by (simp add: mem_size_ok_def sizeof_lpm_node_def TABLE_SIZE_8_def size_header_def size_t_mod_def)

lemma open_table_spec:
  assumes mok: "mok K m (node_own n + W) (node_refs n + R)" and wf: "node_wf K lo off n" "off mod 8 = 0"
  obtains (oom) m1 where "lpm_open_table m n = Some (m1, None)" "mok K m1 (node_own n + W) (node_refs n + R)"
      "lm_objs m1 = lm_objs m" "\<not> roomy (node_need pfx len n off) (lm_pool m)" "ln_next n = None"
    | (ok) m1 ta ns where "lpm_open_table m n = Some (m1, Some (ta, ns))"
      "mok K m1 (tab_own ns + (mset (map le_addr (ln_head n)) + {#ta#} + W))
         (tab_refs ns + (mset (ptrs n) + R))"
      "lm_objs m1 = lm_objs m" "arr_wf K (Suc off) off 8 ns"
      "nroutes off n = (\<lambda>dst. arr_routes off 8 ns dst @ ptrs n)" "node_refs n = mset (ptrs n) + tab_refs ns"
      "roomy (node_need pfx len n off) (lm_pool m) \<Longrightarrow>
         roomy (if 8 < len - off then node_need pfx len (ns ! unat (lpm_index pfx off 8)) (off + 8)
                else replicate (2 ^ (off + 8 - len)) sizeof_lpm_entry) (lm_pool m1)"
proof (cases "ln_next n")
  case (Some t)
  obtain ta ns where t: "ln_next n = Some (ta, ns)" using Some by (cases t) auto
  then have n: "n = Lnode (ln_head n) (Some (ta, ns))" by (metis lpm_node.collapse)
  have own: "node_own n = mset (map le_addr (ln_head n)) + ({#ta#} + tab_own ns)"
      "node_refs n = mset (ptrs n) + tab_refs ns"
    by (subst n, simp)+
  show ?thesis
  proof (rule ok)
    show "lpm_open_table m n = Some (m, Some (ta, ns))" using t by (simp add: lpm_open_table_def)
    show "mok K m (tab_own ns + (mset (map le_addr (ln_head n)) + {#ta#} + W)) (tab_refs ns + (mset (ptrs n) + R))"
      using mok unfolding own by (simp add: ac_simps)
    show "roomy (node_need pfx len n off) (lm_pool m) \<Longrightarrow>
         roomy (if 8 < len - off then node_need pfx len (ns ! unat (lpm_index pfx off 8)) (off + 8)
                else replicate (2 ^ (off + 8 - len)) sizeof_lpm_entry) (lm_pool m)"
      using t by (subst (asm) node_need.simps) auto
  qed (use arr_of_node [OF wf(1) t wf(2)] own in auto)
next
  case None
  then have n: "n = Lnode (ln_head n) None" by (metis lpm_node.collapse)
  have own: "node_own n = mset (map le_addr (ln_head n))" "node_refs n = mset (ptrs n)"
    by (subst n, simp)+
  let ?ns = "replicate TABLE_SIZE_8 lpm_init_node"
  note fresh = arr_fresh [OF wf(2)]
  from mok_alloc [OF mok size_ok_table] consider
    (none) mp where "ufp_mem_alloc (lm_pool m) (sizeof_lpm_node * TABLE_SIZE_8) = Some (None, mp)"
      "mok K (m\<lparr>lm_pool := mp\<rparr>) (node_own n + W) (node_refs n + R)"
    | (some) a mp where "ufp_mem_alloc (lm_pool m) (sizeof_lpm_node * TABLE_SIZE_8) = Some (Some a, mp)"
      "mok K (m\<lparr>lm_pool := mp\<rparr>) (add_mset a (node_own n + W)) (node_refs n + R)"
    by blast
  then show ?thesis
  proof cases
    case none
    have "\<not> roomy (node_need pfx len n off) (lm_pool m)"
      using none(1) None by (subst node_need.simps) simp
    with none None show ?thesis by (intro oom [of "m\<lparr>lm_pool := mp\<rparr>"]) (simp_all add: lpm_open_table_def)
  next
    case (some a mp)
    show ?thesis
    proof (rule ok)
      show "lpm_open_table m n = Some (m\<lparr>lm_pool := mp\<rparr>, Some (a, ?ns))"
        using some None by (simp add: lpm_open_table_def)
      show "mok K (m\<lparr>lm_pool := mp\<rparr>) (tab_own ?ns + (mset (map le_addr (ln_head n)) + {#a#} + W))
          (tab_refs ?ns + (mset (ptrs n) + R))"
        using some(2) unfolding own fresh by (simp add: ac_simps)
      show "nroutes off n = (\<lambda>dst. arr_routes off 8 ?ns dst @ ptrs n)"
        using None fresh(2) by (simp add: node_routes_eq sub_routes_def)
      show "roomy (node_need pfx len n off) (lm_pool m) \<Longrightarrow>
         roomy (if 8 < len - off then node_need pfx len (?ns ! unat (lpm_index pfx off 8)) (off + 8)
                else replicate (2 ^ (off + 8 - len)) sizeof_lpm_entry) (lm_pool (m\<lparr>lm_pool := mp\<rparr>))"
        using None some(1) index8_less by (subst (asm) node_need.simps) (auto split: if_splits)
    qed (use fresh own in auto)
  qed
qed

lemma prune_spec:
  assumes mok: "mok K m (tab_own ns + (mset (map le_addr h) + {#ta#} + W)) (tab_refs ns + (mset (map le_ptr h) + R))"
    and wf: "arr_wf K (Suc off) off 8 ns" "head_wf K lo off (map le_ptr h)"
  shows "\<exists>m' n'. lpm_prune m h ta ns = Some (m', n') \<and> mok K m' (node_own n' + W) (node_refs n' + R) \<and>
    lm_objs m' = lm_objs m \<and> node_wf K lo off n' \<and> ln_head n' = h \<and>
    nroutes off n' = (\<lambda>dst. arr_routes off 8 ns dst @ map le_ptr h) \<and>
    node_refs n' = mset (map le_ptr h) + tab_refs ns"
proof (cases "lpm_unused ns")
  case True
  note e = unused_arr [OF True wf(1)]
  from mok have "mok K m (add_mset ta (mset (map le_addr h) + W)) (mset (map le_ptr h) + R)"
    unfolding e by (simp add: ac_simps)
  from mok_free [OF this] show ?thesis
    using True wf(2) e(2,3) by (auto simp: lpm_prune_def node_routes_def)
next
  case False
  have "mok K m (node_own (Lnode h (Some (ta, ns))) + W) (node_refs (Lnode h (Some (ta, ns))) + R)"
    using mok by (simp add: ac_simps)
  with node_of_arr [OF wf, of ta] False show ?thesis by (simp add: lpm_prune_def)
qed

lemma arr_upd_wf:
  assumes "arr_wf K lo off r ns" "node_wf K lo (off + r) c"
  shows "arr_wf K lo off r (ns[i := c])"
  using assms set_update_subset_insert [of ns i c] by (auto simp: arr_wf_def)

text \<open>The contract of the functions that add below a node, for the array and for the node itself.\<close>

definition arr_add_ok where
  "arr_add_ok K W R k p off pfx m ns room ret m' ns' \<longleftrightarrow>
     mok K m' (tab_own ns' + W) (tab_refs ns' + R) \<and> arr_wf K (Suc off) off 8 ns' \<and>
     dom (lm_objs m') = dom (lm_objs m) \<and>
     add_post K k off pfx p (arr_routes off 8 ns) room ret (arr_routes off 8 ns')"

definition node_add_ok where
  "node_add_ok K W R k p lo off pfx m n ret m' n' \<longleftrightarrow>
     mok K m' (node_own n' + W) (node_refs n' + R) \<and> node_wf K lo off n' \<and>
     dom (lm_objs m') = dom (lm_objs m) \<and>
     add_post K k off pfx p (nroutes off n) (roomy (node_need pfx (snd k) n off) (lm_pool m)) ret (nroutes off n')"

lemma add_arr_deep:
  assumes mok: "mok K m (tab_own ns + W) (tab_refs ns + R)" and wf: "arr_wf K (Suc off) off 8 ns"
    and off: "off mod 8 = 0" "off + 8 < len"
    and child: "\<And>W R. mok K m (node_own (ns ! unat (lpm_index pfx off 8)) + W) (node_refs (ns ! unat (lpm_index pfx off 8)) + R) \<Longrightarrow>
      count (node_refs (ns ! unat (lpm_index pfx off 8)) + R) p + 2 ^ 8 < REF_LIMIT \<Longrightarrow>
      \<exists>ret m' n'. lpm_add_node ops pfx len eid p m (ns ! unat (lpm_index pfx off 8)) (off + 8) = Some (ret, m', n') \<and>
        node_add_ok K W R (eid, len) p (Suc off) (off + 8) pfx m (ns ! unat (lpm_index pfx off 8)) ret m' n'"
    and cnt: "count (tab_refs ns + R) p + 2 ^ 8 < REF_LIMIT"
  shows "\<exists>ret m' ns'. lpm_add_arr ops pfx len eid p m ns off = Some (ret, m', ns') \<and>
    arr_add_ok K W R (eid, len) p off pfx m ns
      (roomy (node_need pfx len (ns ! unat (lpm_index pfx off 8)) (off + 8)) (lm_pool m)) ret m' ns'"
proof -
  let ?i = "unat (lpm_index pfx off 8)"
  have lns: "length ns = 2 ^ 8" "?i < length ns" using wf lpm_index_less [of pfx off 8] by (simp_all add: arr_wf_def)
  obtain C D where fr: "\<And>x. tab_own (ns[?i := x]) = C + node_own x" "tab_own ns = C + node_own (ns ! ?i)"
      "\<And>x. tab_refs (ns[?i := x]) = D + node_refs x" "tab_refs ns = D + node_refs (ns ! ?i)"
    using tab_frame [OF lns(2)] by blast
  have "mok K m (node_own (ns ! ?i) + (C + W)) (node_refs (ns ! ?i) + (D + R))"
      "count (node_refs (ns ! ?i) + (D + R)) p + 2 ^ 8 < REF_LIMIT"
    using mok cnt unfolding fr(2,4) by (simp_all add: ac_simps)
  from child [OF this] obtain ret m' c where
    r: "lpm_add_node ops pfx len eid p m (ns ! ?i) (off + 8) = Some (ret, m', c)"
      "node_add_ok K (C + W) (D + R) (eid, len) p (Suc off) (off + 8) pfx m (ns ! ?i) ret m' c"
    by blast
  have "mok K m' (tab_own (ns[?i := c]) + W) (tab_refs (ns[?i := c]) + R)"
    using r(2) unfolding fr(1,3) node_add_ok_def by (simp add: ac_simps)
  moreover have "arr_wf K (Suc off) off 8 (ns[?i := c])"
    using r(2) by (intro arr_upd_wf [OF wf]) (simp add: node_add_ok_def)
  ultimately have "arr_add_ok K W R (eid, len) p off pfx m ns
      (roomy (node_need pfx len (ns ! ?i) (off + 8)) (lm_pool m)) ret m' (ns[?i := c])"
    using r(2) add_post_child [OF off lns(1)] by (auto simp: arr_add_ok_def node_add_ok_def)
  moreover have "8 < len - off" using off(2) by simp
  ultimately show ?thesis using r(1) lns(2) by (auto simp: lpm_add_arr_def Let_def)
qed

lemma add_arr_leaf:
  assumes mok: "mok K m (tab_own ns + W) (tab_refs ns + R)" and wf: "arr_wf K (Suc off) off 8 ns"
    and off: "off < len" "len \<le> off + 8" and p: "K p = (eid, len)" "p \<in> dom (lm_objs m)"
    and cnt: "count (tab_refs ns + R) p + 2 ^ 8 < REF_LIMIT"
  shows "\<exists>ret m' ns'. lpm_add_arr ops pfx len eid p m ns off = Some (ret, m', ns') \<and>
    arr_add_ok K W R (eid, len) p off pfx m ns
      (roomy (replicate (2 ^ (off + 8 - len)) sizeof_lpm_entry) (lm_pool m)) ret m' ns'"
proof -
  have k: "8 - (len - off) = off + 8 - len" "\<not> 8 < len - off" and l: "Suc off \<le> len" "off \<le> len"
    using off by auto
  have "(2::nat) ^ (off + 8 - len) \<le> 2 ^ 8" using off by (intro power_increasing) auto
  then have c: "count (tab_refs ns + R) p + 2 ^ (off + 8 - len) < REF_LIMIT" using cnt by linarith
  obtain ok n m' ns' where
    r: "lpm_fill ops eid len p (lpm_slots (lpm_index pfx off 8) (off + 8 - len)) m ns = Some (ok, n, m', ns')"
      "arr_fill_post K W R eid len p (Suc off) off 8 pfx m ns ok n m' ns'"
    using arr_fill [OF mok wf l off(2) p c, where pfx = pfx] by blast
  then have "arr_add_ok K W R (eid, len) p off pfx m ns
      (roomy (replicate (2 ^ (off + 8 - len)) sizeof_lpm_entry) (lm_pool m)) (if ok then 0 else -1) m' ns'"
    unfolding arr_fill_post_def arr_add_ok_def add_post_def snd_conv by auto
  with r(1) k show ?thesis by (auto simp: lpm_add_arr_def Let_def)
qed

lemma add_node_wrap:
  assumes r: "arr_add_ok K (mset (map le_addr (ln_head n)) + {#ta#} + W) (mset (ptrs n) + R) (eid, len) p off pfx m1 ns
      (roomy (node_need pfx len n off) (lm_pool m)) ret m2 ns2"
    and arr: "lpm_open_table m n = Some (m1, Some (ta, ns))" "lpm_add_arr ops pfx len eid p m1 ns off = Some (ret, m2, ns2)"
    and wf: "head_wf K lo off (ptrs n)" "off < len" "nroutes off n = (\<lambda>dst. arr_routes off 8 ns dst @ ptrs n)"
    and objs: "lm_objs m1 = lm_objs m"
  shows "\<exists>ret m' n'. lpm_add_node ops pfx len eid p m n off = Some (ret, m', n') \<and>
    node_add_ok K W R (eid, len) p lo off pfx m n ret m' n'"
proof -
  have low: "\<forall>q\<in>set (ptrs n). snd (K q) < snd (eid, len)" using wf(1,2) by (auto simp: head_wf_def)
  have r': "mok K m2 (tab_own ns2 + (mset (map le_addr (ln_head n)) + {#ta#} + W)) (tab_refs ns2 + (mset (ptrs n) + R))"
      "arr_wf K (Suc off) off 8 ns2"
      "add_post K (eid, len) off pfx p (arr_routes off 8 ns) (roomy (node_need pfx len n off) (lm_pool m)) ret (arr_routes off 8 ns2)"
    using r by (auto simp: arr_add_ok_def)
  note post = add_post_app [OF r'(3) low]
  show ?thesis
  proof (cases "ret < 0")
    case True
    from prune_spec [OF r'(1,2) wf(1)] r True post arr wf(3) objs show ?thesis
      by (auto simp: lpm_add_node_arr add_post_def node_add_ok_def arr_add_ok_def)
  next
    case False
    have "mok K m2 (node_own (Lnode (ln_head n) (Some (ta, ns2))) + W) (node_refs (Lnode (ln_head n) (Some (ta, ns2))) + R)"
      using r'(1) by (simp add: ac_simps)
    with False r node_of_arr [OF r'(2) wf(1), of ta] post arr wf(3) objs show ?thesis
      by (auto simp: lpm_add_node_arr add_post_def node_add_ok_def arr_add_ok_def)
  qed
qed

lemma add_node_spec:
  assumes "mok K m (node_own n + W) (node_refs n + R)" "node_wf K lo off n" "off mod 8 = 0" "off < len"
    "K p = (eid, len)" "p \<in> dom (lm_objs m)" "count (node_refs n + R) p + 2 ^ 8 < REF_LIMIT"
  shows "\<exists>ret m' n'. lpm_add_node ops pfx len eid p m n off = Some (ret, m', n') \<and>
    node_add_ok K W R (eid, len) p lo off pfx m n ret m' n'"
  using assms
proof (induction "len - off" arbitrary: off n m W R lo rule: less_induct)
  case less
  from less.prems(1-3) show ?case
  proof (cases rule: open_table_spec [where pfx = pfx and len = len])
    case (oom m1)
    have "nroutes off n = (\<lambda>dst. ptrs n)" using oom(5) by (simp add: node_routes_eq sub_routes_def)
    with oom less.prems(2) show ?thesis
      by (auto simp: lpm_add_node_arr add_post_def node_add_ok_def)
  next
    case (ok m1 ta ns)
    let ?W = "mset (map le_addr (ln_head n)) + {#ta#} + W" and ?R = "mset (ptrs n) + R"
    have cnt: "count (tab_refs ns + ?R) p + 2 ^ 8 < REF_LIMIT" using less.prems(7) unfolding ok(6) by (simp add: ac_simps)
    have p1: "p \<in> dom (lm_objs m1)" using less.prems(6) ok(3) by simp
    have "\<exists>ret m2 ns2. lpm_add_arr ops pfx len eid p m1 ns off = Some (ret, m2, ns2) \<and>
        arr_add_ok K ?W ?R (eid, len) p off pfx m1 ns (roomy (node_need pfx len n off) (lm_pool m)) ret m2 ns2"
    proof (cases "8 < len - off")
      case True
      have "len - (off + 8) < len - off" "(off + 8) mod 8 = 0" "off + 8 < len" using True less.prems(3) by auto
      note add_arr_deep [OF ok(2,4) less.prems(3) this(3)
          less.hyps [OF this(1) _ arr_node [OF ok(4)] this(2,3) less.prems(5) p1] cnt]
      then show ?thesis using ok(7) True unfolding arr_add_ok_def by (auto elim!: add_post_room)
    next
      case False
      then have "len \<le> off + 8" using less.prems(4) by simp
      note add_arr_leaf [OF ok(2,4) less.prems(4) this less.prems(5) p1 cnt]
      then show ?thesis using ok(7) False unfolding arr_add_ok_def by (fastforce elim!: add_post_room)
    qed
    then obtain ret m2 ns2 where "lpm_add_arr ops pfx len eid p m1 ns off = Some (ret, m2, ns2)"
        "arr_add_ok K ?W ?R (eid, len) p off pfx m1 ns (roomy (node_need pfx len n off) (lm_pool m)) ret m2 ns2"
      by blast
    from add_node_wrap [OF this(2) ok(1) this(1) node_wf_head [OF less.prems(2)] less.prems(4) ok(5,3)]
    show ?thesis .
  qed
qed

end

end
