(* ===== verification/Lpm_Table.thy ===== *)
theory Lpm_Table
  imports Lpm_Ops
begin

text \<open>
  The operations of \<open>struct lpm_table\<close> as a whole: lookup, add, delete and delete all, and the
  refinement of the table by a plain list of routes.
\<close>

subsection \<open>Lookup\<close>

lemma lookup_node_spec:
  assumes "node_wf K lo off n" "ln_next n \<noteq> None"
  shows "\<exists>r. lpm_lookup_node dst n off = Some r \<and> (r = None \<longleftrightarrow> sub_routes dst off n = []) \<and>
    (\<forall>h. r = Some h \<longrightarrow> h \<noteq> [] \<and> le_ptr (hd h) = hd (sub_routes dst off n))"
  using assms
proof (induction dst n off arbitrary: lo rule: lpm_lookup_node.induct)
  case (2 dst h ta ns off)
  let ?c = "ns ! unat (lpm_index dst off 8)"
  have i: "unat (lpm_index dst off 8) < length ns" using 2(2) index8_less by simp
  have c: "node_wf K (Suc off) (off + 8) ?c" using 2(2) i by simp
  have sub: "sub_routes dst off (Lnode h (Some (ta, ns))) = sub_routes dst (off + 8) ?c @ ptrs ?c"
    using i by (simp add: sub_routes_def node_routes_eq)
  show ?case
  proof (cases "ln_next ?c")
    case None
    then have "sub_routes dst (off + 8) ?c = []" by (simp add: sub_routes_def)
    with None i sub show ?thesis by (cases "ln_head ?c") (auto simp: Let_def not_le)
  next
    case (Some t)
    have "\<not> length ns \<le> unat (lpm_index dst off 8)" using i by simp
    from 2(1) [OF refl this refl _ c] Some obtain r where r: "lpm_lookup_node dst ?c (off + 8) = Some r"
        "r = None \<longleftrightarrow> sub_routes dst (off + 8) ?c = []"
        "\<forall>h. r = Some h \<longrightarrow> h \<noteq> [] \<and> le_ptr (hd h) = hd (sub_routes dst (off + 8) ?c)"
      by auto
    with Some i sub show ?thesis
      by (cases "ln_head ?c"; cases r) (auto simp: Let_def not_le)
  qed
qed simp

lemma lpm_lookup_spec:
  assumes "tab_wf K tab"
  shows "\<exists>r. lpm_lookup tab dst = Some r \<and>
    map_option le_ptr r = (case tab_routes tab dst of [] \<Rightarrow> None | p # ps \<Rightarrow> Some p)"
proof -
  let ?n = "tab ! unat (lpm_index dst 0 16)"
  have i: "unat (lpm_index dst 0 16) < length tab" using assms index16_less by (simp add: tab_wf_def)
  have wf: "node_wf K 0 16 ?n" using assms i by (simp add: tab_wf_def)
  have rts: "tab_routes tab dst = sub_routes dst 16 ?n @ ptrs ?n"
    by (simp add: tab_routes_arr arr_routes_def node_routes_eq)
  show ?thesis
  proof (cases "ln_next ?n")
    case None
    then have "sub_routes dst 16 ?n = []" by (simp add: sub_routes_def)
    with None i rts show ?thesis by (cases "ln_head ?n") (auto simp: lpm_lookup_def Let_def)
  next
    case (Some t)
    then obtain r where r: "lpm_lookup_node dst ?n 16 = Some r" "r = None \<longleftrightarrow> sub_routes dst 16 ?n = []"
        "\<forall>h. r = Some h \<longrightarrow> h \<noteq> [] \<and> le_ptr (hd h) = hd (sub_routes dst 16 ?n)"
      using lookup_node_spec [OF wf, of dst] by auto
    show ?thesis
    proof (cases r)
      case None
      with r Some i rts show ?thesis by (cases "ln_head ?n") (auto simp: lpm_lookup_def Let_def)
    next
      case (Some h)
      with r obtain e h' where "h = e # h'" "sub_routes dst 16 ?n \<noteq> []" "le_ptr e = hd (sub_routes dst 16 ?n)"
        by (cases h) auto
      with r Some \<open>ln_next ?n = Some t\<close> i rts show ?thesis
        by (cases "sub_routes dst 16 ?n") (auto simp: lpm_lookup_def Let_def)
    qed
  qed
qed

subsection \<open>Add and delete\<close>

definition tab_need :: "bytes \<Rightarrow> nat \<Rightarrow> lpm_table \<Rightarrow> nat list" where
  "tab_need pfx len tab =
     (if len > 16 then node_need pfx len (tab ! unat (lpm_index pfx 0 16)) 16
      else replicate (2 ^ (16 - len)) sizeof_lpm_entry)"

lemma tab_wf_arr: "tab_wf K tab \<longleftrightarrow> arr_wf K 0 0 16 tab"
  by (auto simp: tab_wf_def arr_wf_def TABLE_SIZE_16_def)

lemma top_split:
  "16 < len \<Longrightarrow> match_from 0 len pfx dst \<longleftrightarrow>
     unat (lpm_index pfx 0 16) = unat (lpm_index dst 0 16) \<and> match_from 16 len pfx dst"
  using match_from_split [of 0 16 len pfx dst] lpm_index_eq_iff [of 0 16 pfx dst]
  by (simp flip: word_unat_eq_iff)

lemma top_have:
  assumes "16 < len"
  shows "all_have K (eid, len) 0 pfx (tab_routes tab) \<Longrightarrow>
      all_have K (eid, len) 16 pfx (nroutes 16 (tab ! unat (lpm_index pfx 0 16)))"
    "none_have K (eid, len) 0 pfx (tab_routes tab) \<longleftrightarrow>
      none_have K (eid, len) 16 pfx (nroutes 16 (tab ! unat (lpm_index pfx 0 16)))"
proof -
  let ?c = "tab ! unat (lpm_index pfx 0 16)"
  have ex: "\<exists>dst'. match_from 0 len pfx dst' \<and> tab_routes tab dst' = nroutes 16 ?c dst"
    if "match_from 16 len pfx dst" for dst
  proof -
    obtain q where q: "\<And>i. abit q i = (if i < 16 then abit pfx i else abit dst i)"
      using ex_abit [of "\<lambda>i. if i < 16 then abit pfx i else abit dst i"] by auto
    have "match_from 0 len pfx q" using that by (auto simp: match_from_def q)
    moreover have "node_chain q 16 ?c = node_chain dst 16 ?c" by (intro node_chain_cong) (simp_all add: q)
    moreover have "unat (lpm_index pfx 0 16) = unat (lpm_index q 0 16)"
      using top_split [OF assms] calculation(1) by blast
    ultimately show ?thesis
      by (intro exI [of _ q]) (simp add: tab_routes_arr arr_routes_def node_routes_def)
  qed
  have tr: "match_from 16 len pfx dst \<and> tab_routes tab dst = nroutes 16 ?c dst" if "match_from 0 len pfx dst" for dst
    using that top_split [OF assms, of pfx dst] by (simp add: tab_routes_arr arr_routes_def)
  show "all_have K (eid, len) 0 pfx (tab_routes tab) \<Longrightarrow> all_have K (eid, len) 16 pfx (nroutes 16 ?c)"
    using ex unfolding all_have_def snd_conv by metis
  show "none_have K (eid, len) 0 pfx (tab_routes tab) \<longleftrightarrow> none_have K (eid, len) 16 pfx (nroutes 16 ?c)"
    using ex tr unfolding none_have_def snd_conv by metis
qed

lemma top_upd:
  assumes "16 < len" "length tab = TABLE_SIZE_16"
  shows "nroutes 16 c = ins_routes K 16 len pfx p (nroutes 16 (tab ! unat (lpm_index pfx 0 16))) \<Longrightarrow>
      tab_routes (tab[unat (lpm_index pfx 0 16) := c]) = ins_routes K 0 len pfx p (tab_routes tab)"
    "nroutes 16 c = del_routes K (eid, len) 16 pfx (nroutes 16 (tab ! unat (lpm_index pfx 0 16))) \<Longrightarrow>
      tab_routes (tab[unat (lpm_index pfx 0 16) := c]) = del_routes K (eid, len) 0 pfx (tab_routes tab)"
    "nroutes 16 c = nroutes 16 (tab ! unat (lpm_index pfx 0 16)) \<Longrightarrow>
      tab_routes (tab[unat (lpm_index pfx 0 16) := c]) = tab_routes tab"
proof -
  have i: "unat (lpm_index q 0 16) < length tab" for q using index16_less assms(2) by simp
  note [simp] = tab_routes_arr arr_routes_def nth_list_update
  show "nroutes 16 c = ins_routes K 16 len pfx p (nroutes 16 (tab ! unat (lpm_index pfx 0 16))) \<Longrightarrow>
      tab_routes (tab[unat (lpm_index pfx 0 16) := c]) = ins_routes K 0 len pfx p (tab_routes tab)"
    using i top_split [OF assms(1)] by (auto simp: fun_eq_iff ins_routes_def)
  show "nroutes 16 c = del_routes K (eid, len) 16 pfx (nroutes 16 (tab ! unat (lpm_index pfx 0 16))) \<Longrightarrow>
      tab_routes (tab[unat (lpm_index pfx 0 16) := c]) = del_routes K (eid, len) 0 pfx (tab_routes tab)"
    using i top_split [OF assms(1)] by (auto simp: fun_eq_iff del_routes_def)
  show "nroutes 16 c = nroutes 16 (tab ! unat (lpm_index pfx 0 16)) \<Longrightarrow>
      tab_routes (tab[unat (lpm_index pfx 0 16) := c]) = tab_routes tab"
    using i by (auto simp: fun_eq_iff)
qed

lemma top_add_post:
  assumes "16 < len" "length tab = TABLE_SIZE_16"
    "add_post K (eid, len) 16 pfx p (nroutes 16 (tab ! unat (lpm_index pfx 0 16))) room ret (nroutes 16 c)"
  shows "add_post K (eid, len) 0 pfx p (tab_routes tab) room ret (tab_routes (tab[unat (lpm_index pfx 0 16) := c]))"
  using assms(3) top_have [OF assms(1), of K eid pfx tab] top_upd(1,3) [OF assms(1,2), where pfx = pfx and c = c]
  unfolding add_post_def snd_conv by metis

context lpm_client
begin

lemma lpm_add_deep:
  assumes mok: "mok K m (tab_own tab + W) (tab_refs tab + R)" and wf: "tab_wf K tab" and len: "16 < len"
    and p: "K p = (eid, len)" "p \<in> dom (lm_objs m)" "count (tab_refs tab + R) p + 2 ^ 16 < REF_LIMIT"
  shows "\<exists>ret m' tab'. lpm_add ops tab pfx len eid p m = Some (ret, m', tab') \<and>
    mok K m' (tab_own tab' + W) (tab_refs tab' + R) \<and> tab_wf K tab' \<and> dom (lm_objs m') = dom (lm_objs m) \<and>
    add_post K (eid, len) 0 pfx p (tab_routes tab) (roomy (tab_need pfx len tab) (lm_pool m)) ret (tab_routes tab')"
proof -
  let ?i = "unat (lpm_index pfx 0 16)"
  have l: "length tab = TABLE_SIZE_16" and i: "?i < length tab" using wf index16_less by (simp_all add: tab_wf_def)
  obtain C D where fr: "\<And>x. tab_own (tab[?i := x]) = C + node_own x" "tab_own tab = C + node_own (tab ! ?i)"
      "\<And>x. tab_refs (tab[?i := x]) = D + node_refs x" "tab_refs tab = D + node_refs (tab ! ?i)"
    using tab_frame [OF i] by blast
  have a: "mok K m (node_own (tab ! ?i) + (C + W)) (node_refs (tab ! ?i) + (D + R))"
      "count (node_refs (tab ! ?i) + (D + R)) p + 2 ^ 8 < REF_LIMIT"
    using mok p(3) unfolding fr(2,4) by (simp_all add: ac_simps)
  have n: "node_wf K 0 16 (tab ! ?i)" "16 mod 8 = (0 :: nat)" using wf i by (simp_all add: tab_wf_def)
  obtain ret m' c where r: "lpm_add_node ops pfx len eid p m (tab ! ?i) 16 = Some (ret, m', c)"
      "node_add_ok K (C + W) (D + R) (eid, len) p 0 16 pfx m (tab ! ?i) ret m' c"
    using add_node_spec [OF a(1) n len p(1,2) a(2), where pfx = pfx] by blast
  have "mok K m' (tab_own (tab[?i := c]) + W) (tab_refs (tab[?i := c]) + R)"
    using r(2) unfolding fr(1,3) node_add_ok_def by (simp add: ac_simps)
  moreover have "tab_wf K (tab[?i := c])"
    using r(2) arr_upd_wf [of K 0 0 16 tab c ?i] wf by (simp add: tab_wf_arr node_add_ok_def)
  moreover have "add_post K (eid, len) 0 pfx p (tab_routes tab) (roomy (tab_need pfx len tab) (lm_pool m)) ret
      (tab_routes (tab[?i := c]))"
    using r(2) len by (intro top_add_post [OF len l]) (simp add: node_add_ok_def tab_need_def)
  moreover have "dom (lm_objs m') = dom (lm_objs m)" "ret = 0 \<or> ret = -1"
    using r(2) unfolding node_add_ok_def add_post_def by blast+
  then have "lpm_add ops tab pfx len eid p m = Some (ret, m', tab[?i := c])"
    using r(1) i len by (auto simp: lpm_add_def Let_def)
  ultimately show ?thesis using \<open>dom (lm_objs m') = dom (lm_objs m)\<close> by blast
qed

lemma lpm_add_top:
  assumes mok: "mok K m (tab_own tab + W) (tab_refs tab + R)" and wf: "tab_wf K tab" and len: "len \<le> 16"
    and p: "K p = (eid, len)" "p \<in> dom (lm_objs m)" "count (tab_refs tab + R) p + 2 ^ 16 < REF_LIMIT"
  shows "\<exists>ok n m' tab' ret m2 tab2.
    lpm_fill ops eid len p (lpm_slots (lpm_index pfx 0 16) (16 - len)) m tab = Some (ok, n, m', tab') \<and>
    lpm_add ops tab pfx len eid p m = Some (ret, m2, tab2) \<and>
    mok K m2 (tab_own tab2 + W) (tab_refs tab2 + R) \<and> tab_wf K tab2 \<and>
    add_post K (eid, len) 0 pfx p (tab_routes tab) (roomy (tab_need pfx len tab) (lm_pool m)) ret (tab_routes tab2) \<and>
    (ok \<longleftrightarrow> ret = 0) \<and> (ok \<longrightarrow> dom (lm_objs m2) = dom (lm_objs m)) \<and>
    (ok \<longrightarrow> n = length (lpm_slots (lpm_index pfx 0 16) (16 - len))) \<and>
    (all_have K (eid, len) 0 pfx (tab_routes tab) \<longrightarrow> n = 0) \<and>
    (\<not> ok \<longrightarrow> tab2 = tab \<and> frees m (tab_refs tab + replicate_mset n p + R) m2 (tab_refs tab + R))"
proof -
  let ?js = "lpm_slots (lpm_index pfx 0 16) (16 - len)"
  have awf: "arr_wf K 0 0 16 tab" using wf by (simp add: tab_wf_arr)
  have "(2::nat) ^ (0 + 16 - len) \<le> 2 ^ 16" by (intro power_increasing) auto
  then have c: "count (tab_refs tab + R) p + 2 ^ (0 + 16 - len) < REF_LIMIT" using p(3) by linarith
  obtain ok n m' tab' where r: "lpm_fill ops eid len p ?js m tab = Some (ok, n, m', tab')"
      "arr_fill_post K W R eid len p 0 0 16 pfx m tab ok n m' tab'"
    using arr_fill [OF mok awf _ _ _ p(1,2) c, where pfx = pfx] len by auto
  have f: "mok K m' (tab_own tab' + W) (tab_refs tab' + R)" "arr_wf K 0 0 16 tab'" "dom (lm_objs m') = dom (lm_objs m)"
      "tab_refs tab' = tab_refs tab + replicate_mset n p" "stripped K (eid, len) (take n ?js) tab' tab"
      "slots_upd (lins K len p) (take n ?js) tab tab'"
    using r(2) unfolding arr_fill_post_def add_0 by blast+
  have post: "add_post K (eid, len) 0 pfx p (tab_routes tab) (roomy (tab_need pfx len tab) (lm_pool m))
      (if ok then 0 else -1) (if ok then tab_routes tab' else tab_routes tab)"
    using r(2) len unfolding arr_fill_post_def add_post_def snd_conv tab_need_def tab_routes_arr by auto
  have dup: "all_have K (eid, len) 0 pfx (tab_routes tab) \<longrightarrow> n = 0" "ok \<longrightarrow> n = length ?js"
    using r(2) arr_slots(3) [OF awf, of len pfx] len unfolding arr_fill_post_def tab_routes_arr by auto
  show ?thesis
  proof (cases ok)
    case True
    then show ?thesis
      using r(1) f post len dup by (auto simp: lpm_add_def tab_wf_arr)
  next
    case False
    have js: "\<forall>j\<in>set (take n ?js). j < length tab'" "distinct (take n ?js)"
      using arr_slots(1,2) [OF f(2), of len pfx] len by (auto dest: in_set_takeD)
    have "(eid, len) \<in> K ` set (ptrs (tab' ! j))" if "j \<in> set (take n ?js)" for j
      using f(6) js(1) that p(1) unfolding slots_upd_def by (metis image_eqI insertI1 set_lins)
    then obtain m2 tab2 where m2: "lpm_undo ops eid len (take n ?js) m' tab' = Some (m2, tab2)"
        "mok K m2 (tab_own tab2 + W) (tab_refs tab2 + R)" "stripped K (eid, len) (take n ?js) tab' tab2"
        "frees m' (tab_refs tab' + R) m2 (tab_refs tab2 + R)"
      using clear_present [OF f(1) js, of 0 "0 + 16" eid len] f(2) by (auto simp: arr_wf_def)
    have "tab2 = tab" using stripped_unique [OF m2(3) f(5)] .
    moreover from this have "frees m (tab_refs tab + replicate_mset n p + R) m2 (tab_refs tab + R)"
      using m2(4) f(3,4) by (simp add: frees_def)
    ultimately show ?thesis
      using False r(1) m2(1,2) post len wf dup by (auto simp: lpm_add_def)
  qed
qed

text \<open>Without an equal entry in the slots, the loop goes as far as the memory goes.\<close>

lemma fill_rooms:
  assumes "mok K m (tab_own ns + W) (tab_refs ns + R)" "\<forall>j\<in>set js. j < length ns" "distinct js"
    "\<forall>n\<in>set ns. node_wf K lo hi n" "lo \<le> len" "len \<le> hi" "K p = (eid, len)" "p \<in> dom (lm_objs m)"
    "count (tab_refs ns + R) p + length js < REF_LIMIT"
    "\<forall>j\<in>set js. (eid, len) \<notin> K ` set (ptrs (ns ! j))"
    "lpm_fill ops eid len p js m ns = Some (ok, n, m', ns')"
  shows "roomy (replicate n sizeof_lpm_entry) (lm_pool m) \<and>
    (\<not> ok \<longrightarrow> \<not> roomy (replicate (Suc n) sizeof_lpm_entry) (lm_pool m))"
  using assms
proof (induction js arbitrary: m ns n)
  case (Cons j js)
  note prems = Cons.prems
  have j: "j < length ns" and lim: "Suc (count (tab_refs ns + R) p) < REF_LIMIT" using prems(2,9) by auto
  have nj: "(eid, len) \<notin> K ` set (ptrs (ns ! j))" by (rule bspec [OF prems(10) list.set_intros(1)])
  from prems(1) j prems(4-8) lim show ?case
  proof (cases rule: fill_slot [where js = js])
    case (stop m1)
    with nj prems(11) show ?thesis by auto
  next
    case (go a m1 h)
    let ?ns = "lpm_slot_set ns j h"
    obtain k where k: "lpm_fill ops eid len p js m1 ?ns = Some (ok, k, m', ns')" "n = Suc k"
      using prems(11) unfolding go(1) by auto
    have js: "\<forall>i\<in>set js. i < length ?ns" "\<forall>i\<in>set js. ?ns ! i = ns ! i" "distinct js"
      using prems(2,3) by (auto simp: lpm_slot_set_def nth_list_update)
    have "count (tab_refs ?ns + R) p + length js < REF_LIMIT" using prems(9) go(8) by simp
    moreover have "\<forall>i\<in>set js. (eid, len) \<notin> K ` set (ptrs (?ns ! i))" using js(2) prems(10) by simp
    moreover have "p \<in> dom (lm_objs m1)" using go(5) prems(8) by simp
    ultimately have "roomy (replicate k sizeof_lpm_entry) (lm_pool m1) \<and>
        (\<not> ok \<longrightarrow> \<not> roomy (replicate (Suc k) sizeof_lpm_entry) (lm_pool m1))"
      using Cons.IH [OF go(4) js(1,3) go(9) prems(5-7) _ _ _ k(1)] by blast
    with go(3) k(2) show ?thesis by simp
  qed
qed simp

text \<open>The two ways a table answers: there is room and no such route, or there is such a route.\<close>

lemma lpm_add_room:
  assumes mok: "mok K m (tab_own tab + W) (tab_refs tab + R)" and wf: "tab_wf K tab"
    and p: "K p = (eid, len)" "p \<in> dom (lm_objs m)" "count (tab_refs tab + R) p + 2 ^ 16 < REF_LIMIT"
    and none: "none_have K (eid, len) 0 pfx (tab_routes tab)" and room: "roomy (tab_need pfx len tab) (lm_pool m)"
  shows "\<exists>m' tab'. lpm_add ops tab pfx len eid p m = Some (0, m', tab') \<and>
    mok K m' (tab_own tab' + W) (tab_refs tab' + R) \<and> tab_wf K tab' \<and> dom (lm_objs m') = dom (lm_objs m) \<and>
    tab_routes tab' = ins_routes K 0 len pfx p (tab_routes tab)"
proof (cases "16 < len")
  case True
  from lpm_add_deep [OF mok wf True p, of pfx] none room show ?thesis
    unfolding add_post_def snd_conv by (metis (no_types, lifting))
next
  case False
  then have "len \<le> 16" by simp
  from lpm_add_top [OF mok wf this p, of pfx] none room show ?thesis
    unfolding add_post_def snd_conv by (metis (no_types, lifting))
qed

lemma lpm_add_dup:
  assumes mok: "mok K m (tab_own tab + W) (tab_refs tab + R)" and wf: "tab_wf K tab"
    and p: "K p = (eid, len)" "p \<in> dom (lm_objs m)" "count (tab_refs tab + R) p + 2 ^ 16 < REF_LIMIT"
    and all: "all_have K (eid, len) 0 pfx (tab_routes tab)"
  shows "\<exists>m' tab'. lpm_add ops tab pfx len eid p m = Some (-1, m', tab') \<and>
    mok K m' (tab_own tab' + W) (tab_refs tab' + R) \<and> tab_wf K tab' \<and> dom (lm_objs m') = dom (lm_objs m) \<and>
    tab_routes tab' = tab_routes tab"
proof (cases "16 < len")
  case True
  from lpm_add_deep [OF mok wf True p, of pfx] all show ?thesis
    unfolding add_post_def by (metis (no_types, lifting))
next
  case False
  then have "len \<le> 16" by simp
  from lpm_add_top [OF mok wf this p, of pfx] all show ?thesis
    unfolding add_post_def by (fastforce simp: frees_def)
qed

text \<open>Deleting a prefix: below a node, and in the table.\<close>

lemma delete_array:
  assumes mok: "mok K m (tab_own ns + W) (tab_refs ns + R)" and wf: "arr_wf K lo off r ns"
    and len: "off \<le> len" "len \<le> off + r"
  shows "none_have K (eid, len) off pfx (arr_routes off r ns) \<Longrightarrow>
      lpm_clear ops eid len (lpm_slots (lpm_index pfx off r) (off + r - len)) m ns = Some (-1, m, ns)"
    "all_have K (eid, len) off pfx (arr_routes off r ns) \<Longrightarrow>
      \<exists>m' ns'. lpm_clear ops eid len (lpm_slots (lpm_index pfx off r) (off + r - len)) m ns = Some (0, m', ns') \<and>
        mok K m' (tab_own ns' + W) (tab_refs ns' + R) \<and> arr_wf K lo off r ns' \<and>
        frees m (tab_refs ns + R) m' (tab_refs ns' + R) \<and>
        arr_routes off r ns' = del_routes K (eid, len) off pfx (arr_routes off r ns)"
proof -
  note js = arr_slots [OF wf len] and has = slots_have [OF wf len]
  have nwf: "\<forall>n\<in>set ns. node_wf K lo (off + r) n" using wf by (simp add: arr_wf_def)
  obtain j js' where j: "lpm_slots (lpm_index pfx off r) (off + r - len) = j # js'"
    using slots_nonempty [OF wf len] by blast
  show "lpm_clear ops eid len (lpm_slots (lpm_index pfx off r) (off + r - len)) m ns = Some (-1, m, ns)"
    if "none_have K (eid, len) off pfx (arr_routes off r ns)"
  proof -
    have "(eid, len) \<notin> K ` set (ptrs (ns ! j))" by (rule has(2) [OF _ that]) (simp add: j)
    moreover have "j < length ns" using js(1) [of pfx] j by simp
    ultimately show ?thesis unfolding j using nwf by (intro clear_absent [OF mok]) auto
  qed
  assume a: "all_have K (eid, len) off pfx (arr_routes off r ns)"
  obtain m' ns' where r: "lpm_clear ops eid len (lpm_slots (lpm_index pfx off r) (off + r - len)) m ns = Some (0, m', ns')"
      "mok K m' (tab_own ns' + W) (tab_refs ns' + R)"
      "slots_upd (ldel K (eid, len)) (lpm_slots (lpm_index pfx off r) (off + r - len)) ns ns'"
      "\<forall>n\<in>set ns'. node_wf K lo (off + r) n" "frees m (tab_refs ns + R) m' (tab_refs ns' + R)"
    using clear_present [OF mok js(1,2) nwf] has(1) [OF _ a] by blast
  moreover have "arr_wf K lo off r ns'" using wf r(3,4) by (simp add: arr_wf_def slots_upd_def)
  ultimately show "\<exists>m' ns'. lpm_clear ops eid len (lpm_slots (lpm_index pfx off r) (off + r - len)) m ns = Some (0, m', ns') \<and>
        mok K m' (tab_own ns' + W) (tab_refs ns' + R) \<and> arr_wf K lo off r ns' \<and>
        frees m (tab_refs ns + R) m' (tab_refs ns' + R) \<and>
        arr_routes off r ns' = del_routes K (eid, len) off pfx (arr_routes off r ns)"
    using arr_ldel [OF wf len r(3)] by blast
qed

lemma delete_node_absent:
  assumes "mok K m (node_own n + W) (node_refs n + R)" "node_wf K lo off n" "off mod 8 = 0" "off < len"
    "none_have K (eid, len) off pfx (nroutes off n)"
  shows "lpm_delete_node ops pfx len eid m n off = Some (-1, m, n)"
  using assms
proof (induction "len - off" arbitrary: off n W R lo rule: less_induct)
  case less
  show ?case
  proof (cases "ln_next n")
    case None
    then show ?thesis by (subst lpm_delete_node.simps) simp
  next
    case (Some t)
    then obtain ta ns where t: "ln_next n = Some (ta, ns)" by (cases t) auto
    then have n: "n = Lnode (ln_head n) (Some (ta, ns))" by (metis lpm_node.collapse)
    note a = arr_of_node [OF less.prems(2) t less.prems(3)]
    let ?i = "unat (lpm_index pfx off 8)"
    have i: "?i < length ns" using arr_slots(4) [OF a(1), of off] by simp
    have "\<forall>q\<in>set (ptrs n). snd (K q) \<noteq> snd (eid, len)"
      using node_wf_head [OF less.prems(2)] less.prems(4) by (auto simp: head_wf_def)
    then have none: "none_have K (eid, len) off pfx (arr_routes off 8 ns)"
      using less.prems(5) unfolding a(2) by (simp add: have_app)
    have mok: "mok K m (tab_own ns + (mset (map le_addr (ln_head n)) + {#ta#} + W)) (tab_refs ns + (mset (ptrs n) + R))"
      using less.prems(1) by (subst (asm) (1 2) n) (simp add: ac_simps)
    show ?thesis
    proof (cases "8 < len - off")
      case True
      obtain C D where fr: "\<And>x. tab_own (ns[?i := x]) = C + node_own x" "tab_own ns = C + node_own (ns ! ?i)"
          "\<And>x. tab_refs (ns[?i := x]) = D + node_refs x" "tab_refs ns = D + node_refs (ns ! ?i)"
        using tab_frame [OF i] by blast
      have mokc: "mok K m (node_own (ns ! ?i) + (C + (mset (map le_addr (ln_head n)) + {#ta#} + W)))
          (node_refs (ns ! ?i) + (D + (mset (ptrs n) + R)))"
        using mok unfolding fr(2,4) by (simp add: ac_simps)
      have o: "len - (off + 8) < len - off" "(off + 8) mod 8 = 0" "off + 8 < len" using True less.prems(3) by auto
      have "none_have K (eid, len) (off + 8) pfx (nroutes (off + 8) (ns ! ?i))"
        using none child_have(2) [OF less.prems(3) o(3)] by blast
      then have "lpm_delete_node ops pfx len eid m (ns ! ?i) (off + 8) = Some (-1, m, ns ! ?i)"
        by (rule less.hyps [OF o(1) mokc arr_node [OF a(1)] o(2,3)])
      then show ?thesis
        using True i t by (subst lpm_delete_node.simps, subst (3) n) (simp add: Let_def)
    next
      case False
      then have "off \<le> len" "len \<le> off + 8" "8 - (len - off) = off + 8 - len" using less.prems(4) by auto
      with delete_array(1) [OF mok a(1) this(1,2) none] False t show ?thesis
        by (subst lpm_delete_node.simps, subst (3) n) (simp add: Let_def)
    qed
  qed
qed

definition arr_del_ok where
  "arr_del_ok K W R k off pfx m ns m' ns' \<longleftrightarrow>
     mok K m' (tab_own ns' + W) (tab_refs ns' + R) \<and> arr_wf K (Suc off) off 8 ns' \<and>
     frees m (tab_refs ns + R) m' (tab_refs ns' + R) \<and>
     arr_routes off 8 ns' = del_routes K k off pfx (arr_routes off 8 ns)"

lemma delete_arr_deep:
  assumes mok: "mok K m (tab_own ns + W) (tab_refs ns + R)" and wf: "arr_wf K (Suc off) off 8 ns"
    and off: "off mod 8 = 0" "off + 8 < len"
    and child: "\<And>W R. mok K m (node_own (ns ! unat (lpm_index pfx off 8)) + W) (node_refs (ns ! unat (lpm_index pfx off 8)) + R) \<Longrightarrow>
      \<exists>m' n'. lpm_delete_node ops pfx len eid m (ns ! unat (lpm_index pfx off 8)) (off + 8) = Some (0, m', n') \<and>
        mok K m' (node_own n' + W) (node_refs n' + R) \<and> node_wf K (Suc off) (off + 8) n' \<and>
        frees m (node_refs (ns ! unat (lpm_index pfx off 8)) + R) m' (node_refs n' + R) \<and>
        nroutes (off + 8) n' = del_routes K (eid, len) (off + 8) pfx (nroutes (off + 8) (ns ! unat (lpm_index pfx off 8)))"
  shows "\<exists>m' ns'. map_option (\<lambda>(ret, m1, node). (ret, m1, ns[unat (lpm_index pfx off 8) := node]))
      (lpm_delete_node ops pfx len eid m (ns ! unat (lpm_index pfx off 8)) (off + 8)) = Some (0, m', ns') \<and>
    arr_del_ok K W R (eid, len) off pfx m ns m' ns'"
proof -
  let ?i = "unat (lpm_index pfx off 8)"
  have i: "?i < length ns" "length ns = 2 ^ 8" using arr_slots(4) [OF wf, of off] wf by (simp_all add: arr_wf_def)
  obtain C D where fr: "\<And>x. tab_own (ns[?i := x]) = C + node_own x" "tab_own ns = C + node_own (ns ! ?i)"
      "\<And>x. tab_refs (ns[?i := x]) = D + node_refs x" "tab_refs ns = D + node_refs (ns ! ?i)"
    using tab_frame [OF i(1)] by blast
  have "mok K m (node_own (ns ! ?i) + (C + W)) (node_refs (ns ! ?i) + (D + R))"
    using mok unfolding fr(2,4) by (simp add: ac_simps)
  from child [OF this] obtain m1 c where c: "lpm_delete_node ops pfx len eid m (ns ! ?i) (off + 8) = Some (0, m1, c)"
      "mok K m1 (node_own c + (C + W)) (node_refs c + (D + R))" "node_wf K (Suc off) (off + 8) c"
      "frees m (node_refs (ns ! ?i) + (D + R)) m1 (node_refs c + (D + R))"
      "nroutes (off + 8) c = del_routes K (eid, len) (off + 8) pfx (nroutes (off + 8) (ns ! ?i))"
    by blast
  have "mok K m1 (tab_own (ns[?i := c]) + W) (tab_refs (ns[?i := c]) + R)"
      "frees m (tab_refs ns + R) m1 (tab_refs (ns[?i := c]) + R)"
    using c(2,4) unfolding fr(1,3,4) by (simp_all add: ac_simps)
  then show ?thesis
    using c(1) arr_upd_wf [OF wf c(3), of ?i] child_upd(2) [OF off i(2) c(5)] by (auto simp: arr_del_ok_def)
qed

lemma delete_node_present:
  assumes "mok K m (node_own n + W) (node_refs n + R)" "node_wf K lo off n" "off mod 8 = 0" "off < len"
    "all_have K (eid, len) off pfx (nroutes off n)"
  shows "\<exists>m' n'. lpm_delete_node ops pfx len eid m n off = Some (0, m', n') \<and>
    mok K m' (node_own n' + W) (node_refs n' + R) \<and> node_wf K lo off n' \<and>
    frees m (node_refs n + R) m' (node_refs n' + R) \<and>
    nroutes off n' = del_routes K (eid, len) off pfx (nroutes off n)"
  using assms
proof (induction "len - off" arbitrary: off n W R lo rule: less_induct)
  case less
  note hwf = node_wf_head [OF less.prems(2)]
  have low: "\<forall>q\<in>set (ptrs n). snd (K q) \<noteq> snd (eid, len)"
    using hwf less.prems(4) by (auto simp: head_wf_def)
  have "ln_next n \<noteq> None"
  proof
    assume "ln_next n = None"
    then have "node_routes pfx off n = ptrs n" by (simp add: node_routes_eq sub_routes_def)
    moreover have "(eid, len) \<in> K ` set (node_routes pfx off n)"
      using less.prems(5) unfolding all_have_def snd_conv by (meson match_from_refl)
    ultimately show False using low by (metis image_iff snd_conv)
  qed
  then obtain ta ns where t: "ln_next n = Some (ta, ns)" by auto
  then have n: "n = Lnode (ln_head n) (Some (ta, ns))" by (metis lpm_node.collapse)
  note a = arr_of_node [OF less.prems(2) t less.prems(3)]
  let ?i = "unat (lpm_index pfx off 8)"
  let ?W = "mset (map le_addr (ln_head n)) + {#ta#} + W" and ?R = "mset (ptrs n) + R"
  have i: "?i < length ns" "length ns = 2 ^ 8" using arr_slots(4) [OF a(1), of off] a(1) by (simp_all add: arr_wf_def)
  have hv: "all_have K (eid, len) off pfx (arr_routes off 8 ns)"
    using less.prems(5) unfolding a(2) by (simp add: have_app [OF low])
  have mok: "mok K m (tab_own ns + ?W) (tab_refs ns + ?R)"
    using less.prems(1) by (subst (asm) (1 2) n) (simp add: ac_simps)
  have "\<exists>m1 ns1. (if 8 < len - off then map_option (\<lambda>(ret, m1, node). (ret, m1, ns[?i := node]))
          (lpm_delete_node ops pfx len eid m (ns ! ?i) (off + 8))
        else lpm_clear ops eid len (lpm_slots (lpm_index pfx off 8) (8 - (len - off))) m ns) = Some (0, m1, ns1) \<and>
      arr_del_ok K ?W ?R (eid, len) off pfx m ns m1 ns1"
  proof (cases "8 < len - off")
    case True
    then have o: "len - (off + 8) < len - off" "(off + 8) mod 8 = 0" "off + 8 < len" using less.prems(3) by auto
    note child = child_have(1) [OF less.prems(3) o(3) hv]
    have "\<exists>m' ns'. map_option (\<lambda>(ret, m1, node). (ret, m1, ns[?i := node]))
        (lpm_delete_node ops pfx len eid m (ns ! ?i) (off + 8)) = Some (0, m', ns') \<and>
        arr_del_ok K ?W ?R (eid, len) off pfx m ns m' ns'"
      by (rule delete_arr_deep [OF mok a(1) less.prems(3) o(3)])
        (rule less.hyps [OF o(1) _ arr_node [OF a(1)] o(2,3) child])
    with True show ?thesis by simp
  next
    case False
    then have "off \<le> len" "len \<le> off + 8" "8 - (len - off) = off + 8 - len" using less.prems(4) by auto
    with delete_array(2) [OF mok a(1) this(1,2) hv] False show ?thesis by (simp add: arr_del_ok_def)
  qed
  then obtain m1 ns1 where r: "(if 8 < len - off then map_option (\<lambda>(ret, m1, node). (ret, m1, ns[?i := node]))
          (lpm_delete_node ops pfx len eid m (ns ! ?i) (off + 8))
        else lpm_clear ops eid len (lpm_slots (lpm_index pfx off 8) (8 - (len - off))) m ns) = Some (0, m1, ns1)"
      "mok K m1 (tab_own ns1 + ?W) (tab_refs ns1 + ?R)" "arr_wf K (Suc off) off 8 ns1"
      "frees m (tab_refs ns + ?R) m1 (tab_refs ns1 + ?R)"
      "arr_routes off 8 ns1 = del_routes K (eid, len) off pfx (arr_routes off 8 ns)"
    unfolding arr_del_ok_def by blast
  obtain m2 n' where p: "lpm_prune m1 (ln_head n) ta ns1 = Some (m2, n')" "mok K m2 (node_own n' + W) (node_refs n' + R)"
      "lm_objs m2 = lm_objs m1" "node_wf K lo off n'" "ln_head n' = ln_head n"
      "nroutes off n' = (\<lambda>dst. arr_routes off 8 ns1 dst @ ptrs n)"
      "node_refs n' = mset (ptrs n) + tab_refs ns1"
    using prune_spec [OF r(2,3) hwf] by blast
  have "lpm_delete_node ops pfx len eid m n off = Some (0, m2, n')"
    using r(1) p(1) t i(1) by (subst lpm_delete_node.simps) (auto simp: Let_def split: if_splits)
  moreover have "frees m (node_refs n + R) m2 (node_refs n' + R)"
    using r(4) p(3,7) by (subst n) (simp add: frees_def ac_simps)
  ultimately show ?case
    using p(2,4,6) r(5) del_routes_app [OF low, of off pfx "arr_routes off 8 ns"] a(2) by auto
qed

lemma lpm_delete_absent:
  assumes mok: "mok K m (tab_own tab + W) (tab_refs tab + R)" and wf: "tab_wf K tab"
    and none: "none_have K (eid, len) 0 pfx (tab_routes tab)"
  shows "lpm_delete ops tab pfx len eid m = Some (-1, m, tab)"
proof (cases "16 < len")
  case True
  let ?i = "unat (lpm_index pfx 0 16)"
  have i: "?i < length tab" using wf index16_less by (simp add: tab_wf_def)
  obtain C D where fr: "\<And>x. tab_own (tab[?i := x]) = C + node_own x" "tab_own tab = C + node_own (tab ! ?i)"
      "\<And>x. tab_refs (tab[?i := x]) = D + node_refs x" "tab_refs tab = D + node_refs (tab ! ?i)"
    using tab_frame [OF i] by blast
  have a: "mok K m (node_own (tab ! ?i) + (C + W)) (node_refs (tab ! ?i) + (D + R))"
    using mok unfolding fr(2,4) by (simp add: ac_simps)
  have n: "node_wf K 0 16 (tab ! ?i)" "16 mod 8 = (0 :: nat)" using wf i by (simp_all add: tab_wf_def)
  have "lpm_delete_node ops pfx len eid m (tab ! ?i) 16 = Some (-1, m, tab ! ?i)"
    using none top_have(2) [OF True] by (intro delete_node_absent [OF a n True]) blast
  then show ?thesis using True i by (simp add: lpm_delete_def Let_def)
next
  case False
  then show ?thesis
    using delete_array(1) [OF mok, of 0 0 16 len eid pfx] wf none
    by (simp add: lpm_delete_def Let_def tab_wf_arr tab_routes_arr)
qed

lemma lpm_delete_present:
  assumes mok: "mok K m (tab_own tab + W) (tab_refs tab + R)" and wf: "tab_wf K tab"
    and all: "all_have K (eid, len) 0 pfx (tab_routes tab)"
  shows "\<exists>m' tab'. lpm_delete ops tab pfx len eid m = Some (0, m', tab') \<and>
    mok K m' (tab_own tab' + W) (tab_refs tab' + R) \<and> tab_wf K tab' \<and>
    frees m (tab_refs tab + R) m' (tab_refs tab' + R) \<and>
    tab_routes tab' = del_routes K (eid, len) 0 pfx (tab_routes tab)"
proof (cases "16 < len")
  case True
  let ?i = "unat (lpm_index pfx 0 16)"
  have l: "length tab = TABLE_SIZE_16" and i: "?i < length tab" using wf index16_less by (simp_all add: tab_wf_def)
  obtain C D where fr: "\<And>x. tab_own (tab[?i := x]) = C + node_own x" "tab_own tab = C + node_own (tab ! ?i)"
      "\<And>x. tab_refs (tab[?i := x]) = D + node_refs x" "tab_refs tab = D + node_refs (tab ! ?i)"
    using tab_frame [OF i] by blast
  have a: "mok K m (node_own (tab ! ?i) + (C + W)) (node_refs (tab ! ?i) + (D + R))"
    using mok unfolding fr(2,4) by (simp add: ac_simps)
  have n: "node_wf K 0 16 (tab ! ?i)" "16 mod 8 = (0 :: nat)" using wf i by (simp_all add: tab_wf_def)
  obtain m' c where r: "lpm_delete_node ops pfx len eid m (tab ! ?i) 16 = Some (0, m', c)"
      "mok K m' (node_own c + (C + W)) (node_refs c + (D + R))" "node_wf K 0 16 c"
      "frees m (node_refs (tab ! ?i) + (D + R)) m' (node_refs c + (D + R))"
      "nroutes 16 c = del_routes K (eid, len) 16 pfx (nroutes 16 (tab ! ?i))"
    using delete_node_present [OF a n True top_have(1) [OF True all]] by blast
  have "mok K m' (tab_own (tab[?i := c]) + W) (tab_refs (tab[?i := c]) + R)"
      "frees m (tab_refs tab + R) m' (tab_refs (tab[?i := c]) + R)"
    using r(2,4) unfolding fr(1,3,4) by (simp_all add: ac_simps)
  moreover have "tab_wf K (tab[?i := c])"
    using r(3) arr_upd_wf [of K 0 0 16 tab c ?i] wf by (simp add: tab_wf_arr)
  ultimately show ?thesis
    using r(1) True i top_upd(2) [OF True l r(5)] by (simp add: lpm_delete_def Let_def)
next
  case False
  then show ?thesis
    using delete_array(2) [OF mok, of 0 0 16 len eid pfx] wf all
    by (simp add: lpm_delete_def Let_def tab_wf_arr tab_routes_arr)
qed

text \<open>Deleting everything gives back every block and every object of the table.\<close>

lemma delete_all_spec:
  "ops' = ops \<Longrightarrow> mok K m (node_own n + W) (node_refs n + R) \<Longrightarrow>
     \<exists>m'. lpm_delete_all_node ops' m n = Some m' \<and>
       mok K m' (mset (map le_addr (ln_head n)) + W) (mset (ptrs n) + R) \<and>
       frees m (node_refs n + R) m' (mset (ptrs n) + R)"
  "ops' = ops \<Longrightarrow> mok K m (tab_own ns + W) (tab_refs ns + R) \<Longrightarrow>
     \<exists>m'. lpm_delete_all_nodes ops' m ns = Some m' \<and> mok K m' W R \<and> frees m (tab_refs ns + R) m' R"
proof (induction ops' m n and ops' m ns arbitrary: W R and W R rule: lpm_delete_all_node_lpm_delete_all_nodes.induct)
  case (2 ops' m h ta ns)
  have "mok K m (tab_own ns + (add_mset ta (mset (map le_addr h) + W))) (tab_refs ns + (mset (map le_ptr h) + R))"
    using 2(3) by (simp add: ac_simps)
  from 2(1) [OF 2(2) this] obtain m1 where m1: "lpm_delete_all_nodes ops' m ns = Some m1"
      "mok K m1 (add_mset ta (mset (map le_addr h) + W)) (mset (map le_ptr h) + R)"
      "frees m (tab_refs ns + (mset (map le_ptr h) + R)) m1 (mset (map le_ptr h) + R)"
    by blast
  with mok_free [OF m1(2)] show ?case by (auto simp: frees_def)
next
  case (4 ops' m n ns)
  have "mok K m (node_own n + (tab_own ns + W)) (node_refs n + (tab_refs ns + R))"
    using 4(4) by (simp add: tab_own_def tab_refs_def ac_simps)
  from 4(1) [OF 4(3) this] obtain m1 where m1: "lpm_delete_all_node ops' m n = Some m1"
      "mok K m1 (mset (map le_addr (ln_head n)) + (tab_own ns + W)) (mset (ptrs n) + (tab_refs ns + R))"
      "frees m (node_refs n + (tab_refs ns + R)) m1 (mset (ptrs n) + (tab_refs ns + R))"
    by blast
  from entry_delete_all_spec [OF m1(2)] obtain m2 where m2: "lpm_entry_delete_all ops' m1 (ln_head n) = Some m2"
      "mok K m2 (tab_own ns + W) (tab_refs ns + R)" "frees m1 (mset (ptrs n) + (tab_refs ns + R)) m2 (tab_refs ns + R)"
    unfolding 4(3) by blast
  from 4(2) [OF m1(1) m2(1) 4(3) m2(2)] obtain m3 where m3: "lpm_delete_all_nodes ops' m2 ns = Some m3" "mok K m3 W R"
      "frees m2 (tab_refs ns + R) m3 R"
    by blast
  have "frees m (node_refs n + (tab_refs ns + R)) m3 R"
    using frees_trans [OF frees_trans [OF m1(3) m2(3)] m3(3)] .
  with m1(1) m2(1) m3(1,2) show ?case by (simp add: tab_refs_def ac_simps)
qed (simp_all add: tab_own_def tab_refs_def)

end

end
