(* ===== verification/Rib.thy ===== *)
theory Rib
  imports Lpm_Table
begin

text \<open>
  The abstract routing table: a list of routes, longest prefixes first. An address is routed by the
  first route whose prefix contains it. The lemmas relate the operations on the list to the effects
  on the routes of every address that the longest-prefix-match table has.
\<close>

record route =
  rt_pfx :: bytes
  rt_len :: nat
  rt_id :: u32
  rt_ptr :: addr

definition rt_covers :: "route \<Rightarrow> bytes \<Rightarrow> bool" where
  "rt_covers r dst \<longleftrightarrow> pmatch (rt_pfx r) (rt_len r) dst"

definition rt_same :: "bytes \<Rightarrow> nat \<Rightarrow> u32 \<Rightarrow> route \<Rightarrow> bool" where
  "rt_same pfx len eid r \<longleftrightarrow> rt_len r = len \<and> rt_id r = eid \<and> pmatch (rt_pfx r) len pfx"

definition rib_routes :: "route list \<Rightarrow> bytes \<Rightarrow> addr list" where
  "rib_routes rib dst = map rt_ptr (filter (\<lambda>r. rt_covers r dst) rib)"

definition rib_has :: "bytes \<Rightarrow> nat \<Rightarrow> u32 \<Rightarrow> route list \<Rightarrow> bool" where
  "rib_has pfx len eid rib \<longleftrightarrow> (\<exists>r\<in>set rib. rt_same pfx len eid r)"

definition rib_add :: "route \<Rightarrow> route list \<Rightarrow> route list" where
  "rib_add r rib = takeWhile (\<lambda>s. rt_len r < rt_len s) rib @ r # dropWhile (\<lambda>s. rt_len r < rt_len s) rib"

definition rib_del :: "bytes \<Rightarrow> nat \<Rightarrow> u32 \<Rightarrow> route list \<Rightarrow> route list" where
  "rib_del pfx len eid rib = filter (\<lambda>r. \<not> rt_same pfx len eid r) rib"

definition rib_ok :: "keymap \<Rightarrow> route list \<Rightarrow> bool" where
  "rib_ok K rib \<longleftrightarrow> sorted_wrt (\<lambda>r s. rt_len s \<le> rt_len r) rib \<and>
     (\<forall>r\<in>set rib. K (rt_ptr r) = (rt_id r, rt_len r))"

lemma set_rib_add [simp]: "set (rib_add r rib) = insert r (set rib)"
  unfolding rib_add_def by (metis Un_insert_right set_append takeWhile_dropWhile_id list.simps(15))

lemma distinct_rib_add:
  "distinct (map rt_ptr rib) \<Longrightarrow> rt_ptr r \<notin> rt_ptr ` set rib \<Longrightarrow> distinct (map rt_ptr (rib_add r rib))"
proof -
  assume a: "distinct (map rt_ptr rib)" "rt_ptr r \<notin> rt_ptr ` set rib"
  have "mset (rib_add r rib) = add_mset r (mset rib)"
    unfolding rib_add_def
    by (metis mset.simps(2) mset_append takeWhile_dropWhile_id union_mset_add_mset_right)
  then have "mset (map rt_ptr (rib_add r rib)) = mset (map rt_ptr (r # rib))" by simp
  then show ?thesis using a mset_eq_imp_distinct_iff by fastforce
qed

lemma rib_add_split:
  assumes "sorted_wrt (\<lambda>r s. rt_len s \<le> rt_len r) rib"
  obtains xs ys where "rib = xs @ ys" "rib_add r rib = xs @ r # ys"
    "\<forall>s\<in>set xs. rt_len r < rt_len s" "\<forall>s\<in>set ys. rt_len s \<le> rt_len r"
proof
  let ?xs = "takeWhile (\<lambda>s. rt_len r < rt_len s) rib" and ?ys = "dropWhile (\<lambda>s. rt_len r < rt_len s) rib"
  show "rib = ?xs @ ?ys" by simp
  show "rib_add r rib = ?xs @ r # ?ys" by (simp add: rib_add_def)
  show "\<forall>s\<in>set ?xs. rt_len r < rt_len s" by (auto dest: set_takeWhileD)
  have "sorted_wrt (\<lambda>r s. rt_len s \<le> rt_len r) (?xs @ ?ys)" using assms by simp
  then have s: "sorted_wrt (\<lambda>r s. rt_len s \<le> rt_len r) ?ys" unfolding sorted_wrt_append by blast
  show "\<forall>s\<in>set ?ys. rt_len s \<le> rt_len r"
  proof (cases ?ys)
    case (Cons y zs)
    then have "rt_len y \<le> rt_len r" using hd_dropWhile [of "\<lambda>s. rt_len r < rt_len s" rib] by auto
    with s show ?thesis unfolding Cons by auto
  next
    case Nil
    then show ?thesis by (simp only: list.set ball_empty)
  qed
qed

lemma rib_ok_add:
  assumes "rib_ok K rib" "K (rt_ptr r) = (rt_id r, rt_len r)"
  shows "rib_ok K (rib_add r rib)"
proof -
  have s: "sorted_wrt (\<lambda>r s. rt_len s \<le> rt_len r) rib" using assms(1) by (simp add: rib_ok_def)
  obtain xs ys where x: "rib = xs @ ys" "rib_add r rib = xs @ r # ys"
      "\<forall>s\<in>set xs. rt_len r < rt_len s" "\<forall>s\<in>set ys. rt_len s \<le> rt_len r"
    using rib_add_split [OF s] .
  show ?thesis
    unfolding x(2) using assms x(3,4) by (auto simp: rib_ok_def x(1) sorted_wrt_append less_imp_le)
qed

lemma rib_ok_del: "rib_ok K rib \<Longrightarrow> rib_ok K (rib_del pfx len eid rib)"
  by (auto simp: rib_ok_def rib_del_def sorted_wrt_filter)

lemma rib_routes_add:
  assumes "rib_ok K rib" "rt_len r = len"
  shows "rib_routes (rib_add r rib) = ins_routes K 0 len (rt_pfx r) (rt_ptr r) (rib_routes rib)"
proof
  fix dst
  have s: "sorted_wrt (\<lambda>r s. rt_len s \<le> rt_len r) rib" using assms(1) by (simp add: rib_ok_def)
  obtain xs ys where x: "rib = xs @ ys" "rib_add r rib = xs @ r # ys"
      "\<forall>s\<in>set xs. rt_len r < rt_len s" "\<forall>s\<in>set ys. rt_len s \<le> rt_len r"
    using rib_add_split [OF s] .
  have K: "\<forall>r\<in>set rib. snd (K (rt_ptr r)) = rt_len r" using assms(1) by (simp add: rib_ok_def)
  have "\<forall>q\<in>set (rib_routes xs dst). len < snd (K q)" "\<forall>q\<in>set (rib_routes ys dst). snd (K q) \<le> len"
    using x K assms(2) by (auto simp: rib_routes_def)
  then have "lins K len (rt_ptr r) (rib_routes xs dst @ [] @ rib_routes ys dst) =
      rib_routes xs dst @ rt_ptr r # rib_routes ys dst"
    by (simp only: lins_append_high lins_append_low) (simp add: lins_def)
  then show "rib_routes (rib_add r rib) dst = ins_routes K 0 len (rt_pfx r) (rt_ptr r) (rib_routes rib) dst"
    unfolding x(2) ins_routes_def match_from_0
    by (simp add: rib_routes_def rt_covers_def assms(2) x(1))
qed

lemma rib_key_iff:
  assumes "rib_ok K rib" "pmatch pfx len dst"
  shows "(eid, len) \<in> K ` set (rib_routes rib dst) \<longleftrightarrow> rib_has pfx len eid rib"
proof
  assume "(eid, len) \<in> K ` set (rib_routes rib dst)"
  then obtain r where r: "r \<in> set rib" "rt_covers r dst" "K (rt_ptr r) = (eid, len)"
    by (auto simp: rib_routes_def)
  with assms(1) have "rt_len r = len" "rt_id r = eid" by (auto simp: rib_ok_def)
  with r assms(2) show "rib_has pfx len eid rib"
    unfolding rib_has_def rt_same_def rt_covers_def by (metis pmatch_sym pmatch_trans)
next
  assume "rib_has pfx len eid rib"
  then obtain r where r: "r \<in> set rib" "rt_len r = len" "rt_id r = eid" "pmatch (rt_pfx r) len pfx"
    by (auto simp: rib_has_def rt_same_def)
  then have "rt_covers r dst" "K (rt_ptr r) = (eid, len)"
    using assms pmatch_trans by (auto simp: rt_covers_def rib_ok_def)
  with r(1) show "(eid, len) \<in> K ` set (rib_routes rib dst)" by (force simp: rib_routes_def)
qed

lemma rib_have:
  assumes "rib_ok K rib"
  shows "rib_has pfx len eid rib \<Longrightarrow> all_have K (eid, len) 0 pfx (rib_routes rib)"
    "\<not> rib_has pfx len eid rib \<Longrightarrow> none_have K (eid, len) 0 pfx (rib_routes rib)"
  using rib_key_iff [OF assms] by (auto simp: all_have_def none_have_def match_from_0)

lemma rib_routes_del:
  assumes "rib_ok K rib"
  shows "rib_routes (rib_del pfx len eid rib) = del_routes K (eid, len) 0 pfx (rib_routes rib)"
proof
  fix dst
  have "rt_same pfx len eid r \<longleftrightarrow> pmatch pfx len dst \<and> K (rt_ptr r) = (eid, len)"
    if "r \<in> set rib" "rt_covers r dst" for r
    using assms that unfolding rt_same_def rt_covers_def rib_ok_def
    by (metis pmatch_sym pmatch_trans prod.inject)
  then have "filter (\<lambda>r. \<not> rt_same pfx len eid r \<and> rt_covers r dst) rib =
      filter (\<lambda>r. rt_covers r dst \<and> \<not> (pmatch pfx len dst \<and> K (rt_ptr r) = (eid, len))) rib"
    by (intro filter_cong) auto
  then show "rib_routes (rib_del pfx len eid rib) dst = del_routes K (eid, len) 0 pfx (rib_routes rib) dst"
    by (auto simp: rib_routes_def rib_del_def del_routes_def ldel_def match_from_0 filter_map o_def)
qed

text \<open>The first route of an address has the longest of the prefixes that contain it.\<close>

lemma rib_first_longest:
  assumes "sorted_wrt (\<lambda>r s. rt_len s \<le> rt_len r) rib" "rib_routes rib dst = p # ps"
  obtains r where "r \<in> set rib" "rt_ptr r = p" "rt_covers r dst"
    "\<forall>s\<in>set rib. rt_covers s dst \<longrightarrow> rt_len s \<le> rt_len r"
proof -
  obtain r rs where f: "filter (\<lambda>r. rt_covers r dst) rib = r # rs" "rt_ptr r = p"
    using assms(2) by (auto simp: rib_routes_def)
  have "sorted_wrt (\<lambda>r s. rt_len s \<le> rt_len r) (r # rs)"
    using sorted_wrt_filter [OF assms(1), of "\<lambda>r. rt_covers r dst"] unfolding f(1) .
  then have "\<forall>s\<in>set (filter (\<lambda>r. rt_covers r dst) rib). rt_len s \<le> rt_len r" unfolding f(1) by auto
  moreover have "r \<in> set (filter (\<lambda>r. rt_covers r dst) rib)" unfolding f(1) by simp
  ultimately show ?thesis using that f(2) by auto
qed

subsection \<open>Every entry of the tree is on the way of some address\<close>

lemma set_tab_refs: "set_mset (tab_refs ns) = (\<Union>n\<in>set ns. set_mset (node_refs n))"
  by (induction ns) (simp_all add: tab_refs_def)

lemma node_routes_refs:
  "node_wf K lo off n \<Longrightarrow> set (node_routes dst off n) \<subseteq> set_mset (node_refs n)"
proof (induction dst off n arbitrary: lo rule: node_chain.induct)
  case (1 dst off h)
  then show ?case by (simp add: node_routes_def)
next
  case (2 dst off h ta ns)
  let ?i = "unat (lpm_index dst off 8)"
  have i: "?i < length ns" using 2(2) index8_less by simp
  then have "node_wf K (Suc off) (off + 8) (ns ! ?i)" using 2(2) by simp
  from 2(1) [OF refl i this]
  have "set (node_routes dst (off + 8) (ns ! ?i)) \<subseteq> set_mset (node_refs (ns ! ?i))" .
  moreover have "set_mset (node_refs (ns ! ?i)) \<subseteq> set_mset (tab_refs ns)"
    using nth_mem [OF i] by (auto simp: set_tab_refs)
  ultimately show ?case using i by (auto simp: node_routes_def Let_def)
qed

lemma tab_routes_refs:
  assumes "tab_wf K tab"
  shows "set (tab_routes tab dst) \<subseteq> set_mset (tab_refs tab)"
proof -
  let ?i = "unat (lpm_index dst 0 16)"
  have i: "?i < length tab" using assms index16_less by (simp add: tab_wf_def)
  then have "node_wf K 0 16 (tab ! ?i)" using assms by (simp add: tab_wf_def)
  from node_routes_refs [OF this] show ?thesis
    using nth_mem [OF i] unfolding set_tab_refs by (auto simp: tab_routes_arr arr_routes_def)
qed

lemma node_refs_routes:
  assumes "node_wf K lo off n" "off mod 8 = 0" "q \<in># node_refs n"
  shows "\<exists>dst. q \<in> set (node_routes dst off n) \<and> (\<forall>i<off. abit dst i = f i)"
  using assms
proof (induction n arbitrary: lo off f)
  case (Lnode h nx)
  show ?case
  proof (cases "q \<in> le_ptr ` set h")
    case True
    obtain dst where "\<And>i. abit dst i = f i" using ex_abit [of f] by blast
    with True show ?thesis by (auto simp: node_routes_eq)
  next
    case False
    then obtain ta ns where nx: "nx = Some (ta, ns)" and q: "q \<in># tab_refs ns"
      using Lnode.prems(3) by (cases nx) auto
    then obtain j where j: "j < length ns" "q \<in># node_refs (ns ! j)"
      by (auto simp: set_tab_refs in_set_conv_nth)
    have arr: "length ns = 2 ^ 8" "node_wf K (Suc off) (off + 8) (ns ! j)"
      using Lnode.prems(1) nx j(1) by (simp_all add: TABLE_SIZE_8_def)
    let ?f = "\<lambda>i. if i < off then f i else bit j (off + 7 - i)"
    have m: "(ta, ns) \<in> set_option nx" "ns \<in> Basic_BNFs.snds (ta, ns)" "ns ! j \<in> set ns" "(off + 8) mod 8 = 0"
      using nx j(1) Lnode.prems(2) by (auto simp: snds.simps)
    obtain dst where dst: "q \<in> set (node_routes dst (off + 8) (ns ! j))" "\<forall>i<off + 8. abit dst i = ?f i"
      using Lnode.IH [OF m(1-3) arr(2) m(4) j(2), of ?f] by blast
    have "unat (lpm_index dst off 8) = j"
    proof (rule bit_eqI)
      fix k
      have "j < 2 ^ 8" using j(1) arr(1) by simp
      then have k: "bit j k \<Longrightarrow> k < 8" by (metis bit_take_bit_iff take_bit_nat_eq_self)
      have a: "abit dst (off + 8 - 1 - k) = bit j k" if "k < 8"
      proof -
        have "off + 8 - 1 - k < off + 8" "\<not> off + 8 - 1 - k < off" "off + 7 - (off + 8 - 1 - k) = k"
          using that by linarith+
        with dst(2) show ?thesis by metis
      qed
      have "bit (unat (lpm_index dst off 8)) k \<longleftrightarrow> bit (lpm_index dst off 8) k" by (simp add: bit_unsigned_iff)
      then show "bit (unat (lpm_index dst off 8)) k \<longleftrightarrow> bit j k"
        unfolding bit_lpm_index [OF mod8_mod32 [OF Lnode.prems(2)]] using a k by blast
    qed
    with dst(1) nx j(1) have "q \<in> set (node_routes dst off (Lnode h nx))"
      unfolding node_routes_eq [of dst off "Lnode h nx"] sub_routes_def by simp
    moreover have "\<forall>i<off. abit dst i = f i" using dst(2) by auto
    ultimately show ?thesis by blast
  qed
qed

lemma tab_refs_routes:
  assumes "tab_wf K tab" "q \<in># tab_refs tab"
  shows "\<exists>dst. q \<in> set (tab_routes tab dst)"
proof -
  obtain j where j: "j < length tab" "q \<in># node_refs (tab ! j)"
    using assms(2) by (auto simp: set_tab_refs in_set_conv_nth)
  have w: "node_wf K 0 16 (tab ! j)" and l: "j < 2 ^ 16"
    using assms(1) j(1) by (simp_all add: tab_wf_def TABLE_SIZE_16_def)
  obtain d where d: "unat (lpm_index d 0 16) = j" using ex_lpm_index [of 0 16 j] l by auto
  obtain dst where dst: "q \<in> set (node_routes dst 16 (tab ! j))" "\<forall>i<16. abit dst i = abit d i"
    using node_refs_routes [OF w _ j(2), of "abit d"] by auto
  then have "lpm_index dst 0 16 = lpm_index d 0 16" by (simp add: lpm_index_eq_iff match_from_def)
  with dst(1) d have "q \<in> set (tab_routes tab dst)" by (simp add: tab_routes_arr arr_routes_def)
  then show ?thesis by blast
qed

subsection \<open>Changing the keys of objects that are not referred to\<close>

lemma head_wf_cong: "\<forall>q\<in>set ps. K q = K' q \<Longrightarrow> head_wf K lo hi ps = head_wf K' lo hi ps"
  by (induction ps) (auto simp: head_wf_def)

lemma node_wf_cong:
  "\<forall>q\<in>#node_refs n. K q = K' q \<Longrightarrow> node_wf K lo hi n = node_wf K' lo hi n"
proof (induction K lo hi n rule: node_wf.induct)
  case (1 K lo hi h)
  then show ?case by (simp add: head_wf_cong [of _ K K'])
next
  case (2 K lo hi h ta ns)
  have "node_wf K (Suc hi) (hi + 8) n = node_wf K' (Suc hi) (hi + 8) n" if "n \<in> set ns" for n
  proof (rule 2(1) [OF that])
    have "set_mset (node_refs n) \<subseteq> set_mset (tab_refs ns)"
      using that by (auto simp: set_tab_refs)
    then show "\<forall>q\<in>#node_refs n. K q = K' q" using 2(2) by auto
  qed
  moreover have "head_wf K lo hi (map le_ptr h) = head_wf K' lo hi (map le_ptr h)"
    using 2(2) by (intro head_wf_cong) auto
  ultimately show ?case by simp
qed

lemma tab_wf_cong:
  assumes "\<forall>q\<in>#tab_refs tab. K q = K' q"
  shows "tab_wf K tab = tab_wf K' tab"
proof -
  have "node_wf K 0 16 n = node_wf K' 0 16 n" if "n \<in> set tab" for n
    using that assms by (intro node_wf_cong) (auto simp: set_tab_refs)
  then show ?thesis by (simp add: tab_wf_def)
qed

lemma rib_ok_cong: "\<forall>r\<in>set rib. K (rt_ptr r) = K' (rt_ptr r) \<Longrightarrow> rib_ok K rib = rib_ok K' rib"
  by (simp add: rib_ok_def)

end
