(* ===== verification/Fib.thy ===== *)
theory Fib
  imports Rib
begin

text \<open>
  The forwarding information base (\<open>src/fib.c\<close>, \<open>src/fib.h\<close>): a client of the
  longest-prefix-match table whose objects are reference-counted route entries in the memory pool.
\<close>

subsection \<open>Data\<close>

datatype fib_type = FIB_TYPE_FORWARD | FIB_TYPE_LINK | FIB_TYPE_LOCAL

text \<open>
  \<open>struct fib_entry\<close>; \<open>prefix\<close> and \<open>nexthop\<close> hold the bytes that were copied (4 or 16), and
  \<open>id\<close> holds the bits that the comparison with an \<open>unsigned int\<close> sees.
\<close>

record fib_entry =
  fe_prefix :: "u8 list"
  fe_prefix_len :: nat
  fe_nexthop :: "u8 list"
  fe_port_index :: int
  fe_type :: fib_type
  fe_id :: u32
  fe_refcount :: u32

record fib =
  fib_addr :: addr
  fib_table :: lpm_table

definition sizeof_fib_entry :: nat where
  "sizeof_fib_entry = 52"

definition sizeof_fib :: nat where
  "sizeof_fib = sizeof_lpm_node * TABLE_SIZE_16 + 5 * 8"

definition AF_INET :: int where
  "AF_INET = 2"

definition AF_INET6 :: int where
  "AF_INET6 = 10"

subsection \<open>The entry operations\<close>

definition fib_entry_identify :: "fib_entry lpm_mem \<Rightarrow> addr \<Rightarrow> u32 \<Rightarrow> nat \<Rightarrow> int option" where
  "fib_entry_identify m ptr eid prefix_len =
     (case lm_objs m ptr of
        None \<Rightarrow> None
      | Some entry \<Rightarrow> Some (if fe_id entry = eid \<and> fe_prefix_len entry = prefix_len then 0 else 1))"

definition fib_entry_compare :: "fib_entry lpm_mem \<Rightarrow> addr \<Rightarrow> nat \<Rightarrow> int option" where
  "fib_entry_compare m ptr prefix_len =
     (case lm_objs m ptr of
        None \<Rightarrow> None
      | Some entry \<Rightarrow> Some (if fe_prefix_len entry > prefix_len then 1 else 0))"

definition fib_entry_pull :: "fib_entry lpm_mem \<Rightarrow> addr \<Rightarrow> fib_entry lpm_mem option" where
  "fib_entry_pull m ptr =
     (case lm_objs m ptr of
        None \<Rightarrow> None
      | Some entry \<Rightarrow>
          Some (m\<lparr>lm_objs := (lm_objs m)(ptr \<mapsto> entry\<lparr>fe_refcount := fe_refcount entry + 1\<rparr>)\<rparr>))"

definition fib_entry_put :: "fib_entry lpm_mem \<Rightarrow> addr \<Rightarrow> fib_entry lpm_mem option" where
  "fib_entry_put m ptr =
     (case lm_objs m ptr of
        None \<Rightarrow> None
      | Some entry \<Rightarrow>
          (let entry' = entry\<lparr>fe_refcount := fe_refcount entry - 1\<rparr> in
           if fe_refcount entry' = 0 then
             (case ufp_mem_free (lm_pool m) ptr of
                None \<Rightarrow> None
              | Some mp \<Rightarrow> Some (m\<lparr>lm_pool := mp, lm_objs := (lm_objs m)(ptr := None)\<rparr>))
           else Some (m\<lparr>lm_objs := (lm_objs m)(ptr \<mapsto> entry')\<rparr>)))"

definition fib_ops :: "fib_entry lpm_ops" where
  "fib_ops = \<lparr>entry_identify = fib_entry_identify, entry_compare = fib_entry_compare,
     entry_pull = fib_entry_pull, entry_put = fib_entry_put\<rparr>"

subsection \<open>The table\<close>

definition fib_alloc :: "fib_entry lpm_mem \<Rightarrow> (fib option \<times> fib_entry lpm_mem) option" where
  "fib_alloc m =
     (case ufp_mem_alloc (lm_pool m) sizeof_fib of
        None \<Rightarrow> None
      | Some (None, mp) \<Rightarrow> Some (None, m\<lparr>lm_pool := mp\<rparr>)
      | Some (Some a, mp) \<Rightarrow> Some (Some \<lparr>fib_addr = a, fib_table = lpm_init\<rparr>, m\<lparr>lm_pool := mp\<rparr>))"

definition fib_release :: "fib \<Rightarrow> fib_entry lpm_mem \<Rightarrow> fib_entry lpm_mem option" where
  "fib_release fib m =
     (case lpm_delete_all fib_ops (fib_table fib) m of
        None \<Rightarrow> None
      | Some (m1, tab) \<Rightarrow> lpm_mem_free m1 (fib_addr fib))"

text \<open>\<open>ufp_mem_free(entry)\<close> on a route entry: the object is gone with its block.\<close>

definition fib_entry_free :: "fib_entry lpm_mem \<Rightarrow> addr \<Rightarrow> fib_entry lpm_mem option" where
  "fib_entry_free m p =
     map_option (\<lambda>m'. m'\<lparr>lm_objs := (lm_objs m')(p := None)\<rparr>) (lpm_mem_free m p)"

definition fib_entry_fill ::
  "int \<Rightarrow> fib_type \<Rightarrow> bytes \<Rightarrow> nat \<Rightarrow> bytes \<Rightarrow> int \<Rightarrow> u32 \<Rightarrow> fib_entry option" where
  "fib_entry_fill family type prefix prefix_len nexthop port_index eid =
     (let entry = (\<lambda>n. \<lparr>fe_prefix = map prefix [0 ..< n], fe_prefix_len = prefix_len,
            fe_nexthop = map nexthop [0 ..< n], fe_port_index = port_index, fe_type = type,
            fe_id = eid, fe_refcount = 0\<rparr>) in
      if family = AF_INET then Some (entry 4)
      else if family = AF_INET6 then Some (entry 16)
      else None)"

definition fib_route_update ::
  "fib \<Rightarrow> int \<Rightarrow> fib_type \<Rightarrow> bytes \<Rightarrow> nat \<Rightarrow> bytes \<Rightarrow> int \<Rightarrow> u32 \<Rightarrow> fib_entry lpm_mem
   \<Rightarrow> (int \<times> fib \<times> fib_entry lpm_mem) option" where
  "fib_route_update fib family type prefix prefix_len nexthop port_index eid m =
     (case ufp_mem_alloc (lm_pool m) sizeof_fib_entry of
        None \<Rightarrow> None
      | Some (None, mp) \<Rightarrow> Some (-1, fib, m\<lparr>lm_pool := mp\<rparr>)
      | Some (Some p, mp) \<Rightarrow>
          (case fib_entry_fill family type prefix prefix_len nexthop port_index eid of
             None \<Rightarrow> map_option (\<lambda>m'. (-1, fib, m')) (fib_entry_free (m\<lparr>lm_pool := mp\<rparr>) p)
           | Some entry \<Rightarrow>
               (case lpm_add fib_ops (fib_table fib) prefix prefix_len eid p
                       (m\<lparr>lm_pool := mp, lm_objs := (lm_objs m)(p \<mapsto> entry)\<rparr>) of
                  None \<Rightarrow> None
                | Some (ret, m1, tab) \<Rightarrow>
                    (if ret < 0 then
                       map_option (\<lambda>m'. (-1, fib\<lparr>fib_table := tab\<rparr>, m')) (fib_entry_free m1 p)
                     else Some (0, fib\<lparr>fib_table := tab\<rparr>, m1)))))"

definition fib_route_delete ::
  "fib \<Rightarrow> bytes \<Rightarrow> nat \<Rightarrow> u32 \<Rightarrow> fib_entry lpm_mem \<Rightarrow> (int \<times> fib \<times> fib_entry lpm_mem) option" where
  "fib_route_delete fib prefix prefix_len eid m =
     map_option (\<lambda>(ret, m', tab). (if ret < 0 then -1 else 0, fib\<lparr>fib_table := tab\<rparr>, m'))
       (lpm_delete fib_ops (fib_table fib) prefix prefix_len eid m)"

definition fib_lookup :: "fib \<Rightarrow> bytes \<Rightarrow> addr option option" where
  "fib_lookup fib dst = map_option (map_option le_ptr) (lpm_lookup (fib_table fib) dst)"

subsection \<open>The contract of the table's client\<close>

definition fib_key :: "fib_entry \<Rightarrow> u32 \<times> nat" where
  "fib_key e = (fe_id e, fe_prefix_len e)"

definition fib_refc :: "fib_entry \<Rightarrow> nat" where
  "fib_refc e = unat (fe_refcount e)"

text \<open>An entry stays what it was when it was filled in, but for its counter.\<close>

definition fib_good :: "(addr \<Rightarrow> fib_entry) \<Rightarrow> addr \<Rightarrow> fib_entry \<Rightarrow> bool" where
  "fib_good D p e \<longleftrightarrow> e\<lparr>fe_refcount := 0\<rparr> = D p"

lemma unat_suc: "Suc (unat w) < REF_LIMIT \<Longrightarrow> unat (w + 1 :: u32) = Suc (unat w)"
  by (simp add: REF_LIMIT_def unat_plus_if' unsigned_1)

lemma unat_pred: "0 < unat w \<Longrightarrow> unat (w - 1 :: u32) = unat w - 1"
  by (simp add: unat_sub_if' unsigned_1)

interpretation fibc: lpm_client fib_ops fib_key fib_refc "fib_good D" for D
proof
  fix m :: "fib_entry lpm_mem" and p e eid len
  assume e: "lm_objs m p = Some e"
  show "entry_identify fib_ops m p eid len = Some (if fib_key e = (eid, len) then 0 else 1)"
    using e by (auto simp: fib_ops_def fib_entry_identify_def fib_key_def)
  show "entry_compare fib_ops m p len = Some (if len < snd (fib_key e) then 1 else 0)"
    using e by (auto simp: fib_ops_def fib_entry_compare_def fib_key_def)
  show "\<exists>e'. entry_pull fib_ops m p = Some (m\<lparr>lm_objs := (lm_objs m)(p \<mapsto> e')\<rparr>) \<and>
      fib_key e' = fib_key e \<and> fib_refc e' = Suc (fib_refc e) \<and> (fib_good D p e \<longrightarrow> fib_good D p e')"
    if "Suc (fib_refc e) < REF_LIMIT"
    using e that by (auto simp: fib_ops_def fib_entry_pull_def fib_key_def fib_refc_def fib_good_def unat_suc)
  show "\<exists>e'. entry_put fib_ops m p = Some (m\<lparr>lm_objs := (lm_objs m)(p \<mapsto> e')\<rparr>) \<and>
      fib_key e' = fib_key e \<and> fib_refc e' = fib_refc e - 1 \<and> (fib_good D p e \<longrightarrow> fib_good D p e')"
    if "1 < fib_refc e"
  proof -
    have "unat (fe_refcount e - 1) = unat (fe_refcount e) - 1" "fe_refcount e - 1 \<noteq> 0"
      using that unat_pred [of "fe_refcount e"] by (auto simp: fib_refc_def)
    with e show ?thesis
      by (auto simp: fib_ops_def fib_entry_put_def fib_key_def fib_refc_def fib_good_def)
  qed
  show "entry_put fib_ops m p = map_option (\<lambda>mp. m\<lparr>lm_pool := mp, lm_objs := (lm_objs m)(p := None)\<rparr>)
      (ufp_mem_free (lm_pool m) p)" if "fib_refc e = 1"
  proof -
    have "fe_refcount e = 1" using that unfolding fib_refc_def by (metis unsigned_1 word_unat_eq_iff)
    with e show ?thesis by (auto simp: fib_ops_def fib_entry_put_def split: option.splits)
  qed
qed

subsection \<open>The table stands for a list of routes\<close>

text \<open>
  \<open>rib\<close> is the abstract table, \<open>D\<close> gives the content with which each entry was filled in, and \<open>W\<close>
  the other live blocks of the pool. The live blocks are exactly the entries of the routes, the
  arrays and list entries of the tree, and \<open>W\<close>.
\<close>

definition fib_inv ::
  "fib \<Rightarrow> fib_entry lpm_mem \<Rightarrow> (addr \<Rightarrow> fib_entry) \<Rightarrow> route list \<Rightarrow> addr multiset \<Rightarrow> bool" where
  "fib_inv fib m D rib W \<longleftrightarrow>
     lpm_mem_ok fib_key fib_refc (fib_good D) (fib_key \<circ> D) m
       (tab_own (fib_table fib) + W) (tab_refs (fib_table fib)) \<and>
     tab_wf (fib_key \<circ> D) (fib_table fib) \<and> rib_ok (fib_key \<circ> D) rib \<and>
     tab_routes (fib_table fib) = rib_routes rib \<and>
     dom (lm_objs m) = rt_ptr ` set rib \<and> distinct (map rt_ptr rib)"

lemma tab_init [simp]: "tab_own lpm_init = {#}" "tab_refs lpm_init = {#}" "tab_wf K lpm_init"
    "tab_routes lpm_init = (\<lambda>dst. [])"
proof -
  show "tab_own lpm_init = {#}" "tab_refs lpm_init = {#}"
    by (simp_all add: tab_own_def tab_refs_def lpm_init_def lpm_init_node_def)
  show "tab_wf K lpm_init" by (simp add: tab_wf_def lpm_init_def)
  show "tab_routes lpm_init = (\<lambda>dst. [])"
    using index16_less
    by (simp add: fun_eq_iff tab_routes_arr arr_routes_def lpm_init_def lpm_init_node_def node_routes_def)
qed

lemma fib_size_ok: "mem_size_ok sizeof_fib" "mem_size_ok sizeof_fib_entry"
  by (simp_all add: mem_size_ok_def sizeof_fib_def sizeof_fib_entry_def sizeof_lpm_node_def
      TABLE_SIZE_16_def size_header_def size_t_mod_def)

text \<open>The references of the tree are those of the routes.\<close>

lemma fib_inv_refs:
  assumes "tab_wf K tab" "tab_routes tab = rib_routes rib"
  shows "set_mset (tab_refs tab) = rt_ptr ` set rib"
proof
  show "set_mset (tab_refs tab) \<subseteq> rt_ptr ` set rib"
    using tab_refs_routes [OF assms(1)] assms(2) by (fastforce simp: rib_routes_def)
  have "rt_ptr r \<in> set (rib_routes rib (rt_pfx r))" if "r \<in> set rib" for r
    using that by (auto simp: rib_routes_def rt_covers_def)
  then show "rt_ptr ` set rib \<subseteq> set_mset (tab_refs tab)"
    using tab_routes_refs [OF assms(1)] assms(2) by (metis image_subsetI subsetD)
qed

lemma fib_alloc_spec:
  assumes "mp_wf (lm_pool m)" "lm_objs m = Map.empty" "mp_live (lm_pool m) = set_mset W" "\<forall>a. count W a \<le> 1"
  shows "\<exists>r m'. fib_alloc m = Some (r, m') \<and>
    (\<forall>fib. r = Some fib \<longrightarrow> fib_addr fib \<notin># W \<and> fib_inv fib m' D [] (add_mset (fib_addr fib) W))"
proof -
  obtain r mp where r: "ufp_mem_alloc (lm_pool m) sizeof_fib = Some (r, mp)"
    using pool.alloc_total [OF assms(1) fib_size_ok(1)] by blast
  show ?thesis
  proof (cases r)
    case (Some a)
    with pool.alloc_fresh [OF assms(1) fib_size_ok(1)] r assms(3)
    have a: "mp_wf mp" "a \<notin># W" "mp_live mp = insert a (set_mset W)" by auto
    then have "fib_inv \<lparr>fib_addr = a, fib_table = lpm_init\<rparr> (m\<lparr>lm_pool := mp\<rparr>) D [] (add_mset a W)"
      using assms(2,4) by (auto simp: fib_inv_def lpm_mem_ok_def rib_ok_def rib_routes_def not_in_iff)
    with Some r a(2) show ?thesis by (auto simp: fib_alloc_def)
  qed (use r in \<open>simp add: fib_alloc_def\<close>)
qed

lemma fib_entry_fill_key:
  assumes "fib_entry_fill family type prefix len nexthop port eid = Some e"
  shows "fib_key e = (eid, len)" "fe_refcount e = 0" "e\<lparr>fe_refcount := 0\<rparr> = e"
  using assms by (auto simp: fib_entry_fill_def Let_def fib_key_def split: if_splits)

text \<open>A fresh entry, before it is put into the table.\<close>

lemma fib_fresh:
  assumes inv: "fib_inv fib m D rib W" and a: "ufp_mem_alloc (lm_pool m) sizeof_fib_entry = Some (Some p, mp)"
    and e: "fib_entry_fill family type prefix len nexthop port eid = Some e"
  shows "lpm_mem_ok fib_key fib_refc (fib_good (D(p := e))) (fib_key \<circ> D(p := e))
      (m\<lparr>lm_pool := mp, lm_objs := (lm_objs m)(p \<mapsto> e)\<rparr>)
      (tab_own (fib_table fib) + W) (tab_refs (fib_table fib) + {#})"
    "tab_wf (fib_key \<circ> D(p := e)) (fib_table fib)" "rib_ok (fib_key \<circ> D(p := e)) rib"
    "count (tab_refs (fib_table fib) + {#}) p = 0" "p \<notin> rt_ptr ` set rib"
    "p \<notin># tab_own (fib_table fib) + W" "mp_wf mp" "mp_live mp = insert p (mp_live (lm_pool m))"
    "p \<notin> mp_live (lm_pool m)"
proof -
  have ok: "lpm_mem_ok fib_key fib_refc (fib_good D) (fib_key \<circ> D) m (tab_own (fib_table fib) + W) (tab_refs (fib_table fib))"
    using inv by (simp add: fib_inv_def)
  then have wf: "mp_wf (lm_pool m)" and live: "mp_live (lm_pool m) = set_mset (tab_own (fib_table fib) + W) \<union> dom (lm_objs m)"
      and refs: "set_mset (tab_refs (fib_table fib)) \<subseteq> dom (lm_objs m)"
    by (simp_all add: lpm_mem_ok_def)
  from pool.alloc_fresh [OF wf fib_size_ok(2) a]
  show mp: "mp_wf mp" "mp_live mp = insert p (mp_live (lm_pool m))" "p \<notin> mp_live (lm_pool m)" by auto
  show p: "p \<notin> rt_ptr ` set rib" "p \<notin># tab_own (fib_table fib) + W" "count (tab_refs (fib_table fib) + {#}) p = 0"
    using mp(3) live refs inv by (auto simp: fib_inv_def not_in_iff [symmetric])
  have D: "\<forall>q\<in>#tab_refs (fib_table fib). (fib_key \<circ> D(p := e)) q = (fib_key \<circ> D) q"
    using p(3) by (auto simp: count_eq_zero_iff)
  show "tab_wf (fib_key \<circ> D(p := e)) (fib_table fib)"
    using tab_wf_cong [OF D] inv unfolding fib_inv_def by blast
  show "rib_ok (fib_key \<circ> D(p := e)) rib"
    using rib_ok_cong [of rib "fib_key \<circ> D(p := e)" "fib_key \<circ> D"] p(1) inv by (force simp: fib_inv_def)
  show "lpm_mem_ok fib_key fib_refc (fib_good (D(p := e))) (fib_key \<circ> D(p := e))
      (m\<lparr>lm_pool := mp, lm_objs := (lm_objs m)(p \<mapsto> e)\<rparr>)
      (tab_own (fib_table fib) + W) (tab_refs (fib_table fib) + {#})"
    using ok mp p live fib_entry_fill_key [OF e]
    by (auto simp: lpm_mem_ok_def fib_refc_def fib_good_def not_in_iff [symmetric])
qed

lemma fib_update_new:
  assumes "fib_inv fib m D rib W" "fib_entry_fill family type prefix len nexthop port eid = Some e"
    "\<not> rib_has prefix len eid rib"
    "roomy (sizeof_fib_entry # tab_need prefix len (fib_table fib)) (lm_pool m)"
  shows "\<exists>p fib' m'. fib_route_update fib family type prefix len nexthop port eid m = Some (0, fib', m') \<and>
    p \<notin> rt_ptr ` set rib \<and> fib_addr fib' = fib_addr fib \<and>
    fib_inv fib' m' (D(p := e))
      (rib_add \<lparr>rt_pfx = prefix, rt_len = len, rt_id = eid, rt_ptr = p\<rparr> rib) W"
proof -
  obtain p mp where a: "ufp_mem_alloc (lm_pool m) sizeof_fib_entry = Some (Some p, mp)"
      "roomy (tab_need prefix len (fib_table fib)) mp"
    using assms(4) by (auto split: option.splits prod.splits)
  let ?D = "D(p := e)" and ?m = "m\<lparr>lm_pool := mp, lm_objs := (lm_objs m)(p \<mapsto> e)\<rparr>"
  let ?r = "\<lparr>rt_pfx = prefix, rt_len = len, rt_id = eid, rt_ptr = p\<rparr>"
  note f = fib_fresh [OF assms(1) a(1) assms(2)]
  have K: "(fib_key \<circ> ?D) p = (eid, len)" using fib_entry_fill_key [OF assms(2)] by simp
  have p: "p \<in> dom (lm_objs ?m)" "count (tab_refs (fib_table fib) + {#}) p + 2 ^ 16 < REF_LIMIT"
    using f(4) by (simp_all add: REF_LIMIT_def)
  have none: "none_have (fib_key \<circ> ?D) (eid, len) 0 prefix (tab_routes (fib_table fib))"
    using rib_have(2) [OF f(3) assms(3)] assms(1) by (simp add: fib_inv_def)
  have "\<exists>m' tab'. lpm_add fib_ops (fib_table fib) prefix len eid p ?m = Some (0, m', tab') \<and>
      fibc.mok ?D (fib_key \<circ> ?D) m' (tab_own tab' + W) (tab_refs tab' + {#}) \<and> tab_wf (fib_key \<circ> ?D) tab' \<and>
      dom (lm_objs m') = dom (lm_objs ?m) \<and>
      tab_routes tab' = ins_routes (fib_key \<circ> ?D) 0 len prefix p (tab_routes (fib_table fib))"
    by (rule fibc.lpm_add_room [OF f(1,2) K p none]) (simp add: a(2))
  then obtain m' tab' where r: "lpm_add fib_ops (fib_table fib) prefix len eid p ?m = Some (0, m', tab')"
      "fibc.mok ?D (fib_key \<circ> ?D) m' (tab_own tab' + W) (tab_refs tab')" "tab_wf (fib_key \<circ> ?D) tab'"
      "dom (lm_objs m') = dom (lm_objs ?m)"
      "tab_routes tab' = ins_routes (fib_key \<circ> ?D) 0 len prefix p (tab_routes (fib_table fib))"
    by auto
  have "tab_routes tab' = rib_routes (rib_add ?r rib)"
    using r(5) rib_routes_add [OF f(3), of ?r len] assms(1) by (simp add: fib_inv_def)
  moreover have "rib_ok (fib_key \<circ> ?D) (rib_add ?r rib)" using rib_ok_add [OF f(3), of ?r] K by simp
  moreover have "dom (lm_objs m') = rt_ptr ` set (rib_add ?r rib)" using r(4) assms(1) by (simp add: fib_inv_def)
  moreover have "distinct (map rt_ptr (rib_add ?r rib))"
    using f(5) assms(1) distinct_rib_add [of rib ?r] by (simp add: fib_inv_def)
  ultimately have "fib_inv (fib\<lparr>fib_table := tab'\<rparr>) m' ?D (rib_add ?r rib) W"
    using r(2,3) by (simp add: fib_inv_def)
  then show ?thesis
    using a(1) assms(2) r(1) f(5) by (intro exI [of _ p]) (simp add: fib_route_update_def)
qed

lemma lm_objs_idem: "lm_objs m = x \<Longrightarrow> m\<lparr>lm_objs := x\<rparr> = m"
  by auto

text \<open>Freeing an entry to which no reference is left.\<close>

lemma fib_unref:
  assumes "fibc.mok (D(p := e)) (fib_key \<circ> D(p := e)) m W' (R + {#})" "p \<in> dom (lm_objs m)" "p \<notin># R"
  shows "\<exists>m2. fib_entry_free m p = Some m2 \<and> dom (lm_objs m2) = dom (lm_objs m) - {p} \<and>
    fibc.mok D (fib_key \<circ> D) m2 W' R"
proof -
  have wf: "mp_wf (lm_pool m)" "p \<in> mp_live (lm_pool m)" using assms(1,2) by (auto simp: lpm_mem_ok_def)
  obtain mp where mp: "ufp_mem_free (lm_pool m) p = Some mp" "mp_wf mp" "mp_live mp = mp_live (lm_pool m) - {p}"
    using pool.release_live [OF wf] by blast
  have "fibc.mok D (fib_key \<circ> D) (m\<lparr>lm_pool := mp, lm_objs := (lm_objs m)(p := None)\<rparr>) W' R"
    using assms mp by (auto simp: lpm_mem_ok_def fib_good_def split: if_splits)
  with mp(1) show ?thesis by (auto simp: fib_entry_free_def lpm_mem_free_def)
qed

lemma fib_update_dup:
  assumes "fib_inv fib m D rib W" "rib_has prefix len eid rib \<or>
    fib_entry_fill family type prefix len nexthop port eid = None"
  shows "\<exists>fib' m'. fib_route_update fib family type prefix len nexthop port eid m = Some (-1, fib', m') \<and>
    fib_addr fib' = fib_addr fib \<and> fib_inv fib' m' D rib W"
proof -
  have ok: "lpm_mem_ok fib_key fib_refc (fib_good D) (fib_key \<circ> D) m (tab_own (fib_table fib) + W) (tab_refs (fib_table fib))"
    using assms(1) by (simp add: fib_inv_def)
  show ?thesis
  proof (cases "\<exists>mp. ufp_mem_alloc (lm_pool m) sizeof_fib_entry = Some (None, mp)")
    case True
    with fibc.mok_alloc [OF ok fib_size_ok(2)] assms(1) show ?thesis
      by (auto simp: fib_route_update_def fib_inv_def)
  next
    case False
    then obtain p mp where a: "ufp_mem_alloc (lm_pool m) sizeof_fib_entry = Some (Some p, mp)"
        "fibc.mok D (fib_key \<circ> D) (m\<lparr>lm_pool := mp\<rparr>) (add_mset p (tab_own (fib_table fib) + W)) (tab_refs (fib_table fib))"
      using fibc.mok_alloc [OF ok fib_size_ok(2)] by auto
    show ?thesis
    proof (cases "fib_entry_fill family type prefix len nexthop port eid")
      case None
      have "p \<notin> dom (lm_objs m)" using a(2) by (auto simp: lpm_mem_ok_def)
      then have "lm_objs m p = None" by auto
      with None a fibc.mok_free [OF a(2)] assms(1) show ?thesis
        by (auto simp: fib_route_update_def fib_entry_free_def fib_inv_def fun_upd_idem lm_objs_idem)
    next
      case (Some e)
      let ?D = "D(p := e)" and ?m = "m\<lparr>lm_pool := mp, lm_objs := (lm_objs m)(p \<mapsto> e)\<rparr>"
      note f = fib_fresh [OF assms(1) a(1) Some]
      have has: "rib_has prefix len eid rib" using assms(2) Some by simp
      have K: "(fib_key \<circ> ?D) p = (eid, len)" using fib_entry_fill_key [OF Some] by simp
      have p: "p \<in> dom (lm_objs ?m)" "count (tab_refs (fib_table fib) + {#}) p + 2 ^ 16 < REF_LIMIT"
        using f(4) by (simp_all add: REF_LIMIT_def)
      have all: "all_have (fib_key \<circ> ?D) (eid, len) 0 prefix (tab_routes (fib_table fib))"
        using rib_have(1) [OF f(3) has] assms(1) by (simp add: fib_inv_def)
      obtain m' tab' where r: "lpm_add fib_ops (fib_table fib) prefix len eid p ?m = Some (-1, m', tab')"
          "fibc.mok ?D (fib_key \<circ> ?D) m' (tab_own tab' + W) (tab_refs tab' + {#})" "tab_wf (fib_key \<circ> ?D) tab'"
          "dom (lm_objs m') = dom (lm_objs ?m)" "tab_routes tab' = tab_routes (fib_table fib)"
        using fibc.lpm_add_dup [OF f(1,2) K p all] by blast
      have refs: "set_mset (tab_refs tab') = rt_ptr ` set rib"
        using fib_inv_refs [OF r(3)] r(5) assms(1) by (simp add: fib_inv_def)
      obtain m2 where m2: "fib_entry_free m' p = Some m2" "dom (lm_objs m2) = dom (lm_objs m)"
          "fibc.mok D (fib_key \<circ> D) m2 (tab_own tab' + W) (tab_refs tab')"
        using fib_unref [OF r(2)] refs f(5,9) r(4) ok by (auto simp: lpm_mem_ok_def)
      have "tab_wf (fib_key \<circ> D) tab'"
        using r(3) refs f(5) by (subst tab_wf_cong [where K' = "fib_key \<circ> ?D"]) auto
      then have "fib_inv (fib\<lparr>fib_table := tab'\<rparr>) m2 D rib W"
        using m2(2,3) r(5) assms(1) by (simp add: fib_inv_def)
      with a(1) Some r(1) m2(1) show ?thesis by (simp add: fib_route_update_def)
    qed
  qed
qed

lemma fib_delete_present:
  assumes inv: "fib_inv fib m D rib W" and has: "rib_has prefix len eid rib"
  shows "\<exists>fib' m'. fib_route_delete fib prefix len eid m = Some (0, fib', m') \<and>
    fib_addr fib' = fib_addr fib \<and> fib_inv fib' m' D (rib_del prefix len eid rib) W"
proof -
  have wf: "tab_wf (fib_key \<circ> D) (fib_table fib)" and rib: "rib_ok (fib_key \<circ> D) rib"
      and rts: "tab_routes (fib_table fib) = rib_routes rib" and objs: "dom (lm_objs m) = rt_ptr ` set rib"
      and dist: "distinct (map rt_ptr rib)"
      and ok: "fibc.mok D (fib_key \<circ> D) m (tab_own (fib_table fib) + W) (tab_refs (fib_table fib) + {#})"
    using inv by (simp_all add: fib_inv_def)
  obtain m' tab' where r: "lpm_delete fib_ops (fib_table fib) prefix len eid m = Some (0, m', tab')"
      "fibc.mok D (fib_key \<circ> D) m' (tab_own tab' + W) (tab_refs tab' + {#})" "tab_wf (fib_key \<circ> D) tab'"
      "frees m (tab_refs (fib_table fib) + {#}) m' (tab_refs tab' + {#})"
      "tab_routes tab' = del_routes (fib_key \<circ> D) (eid, len) 0 prefix (tab_routes (fib_table fib))"
    using fibc.lpm_delete_present [OF ok wf] rib_have(1) [OF rib has] rts by (metis (no_types, lifting))
  have rts': "tab_routes tab' = rib_routes (rib_del prefix len eid rib)"
    using r(5) rts rib_routes_del [OF rib] by simp
  have "dom (lm_objs m') = rt_ptr ` set (rib_del prefix len eid rib)"
    using r(4) fib_inv_refs [OF wf rts] fib_inv_refs [OF r(3) rts'] objs by (auto simp: frees_def)
  moreover have "distinct (map rt_ptr (rib_del prefix len eid rib))"
    using dist by (simp add: rib_del_def distinct_map_filter)
  ultimately have "fib_inv (fib\<lparr>fib_table := tab'\<rparr>) m' D (rib_del prefix len eid rib) W"
    using r(2,3) rts' rib_ok_del [OF rib] by (simp add: fib_inv_def)
  with r(1) show ?thesis by (simp add: fib_route_delete_def)
qed

lemma fib_delete_absent:
  assumes inv: "fib_inv fib m D rib W" and has: "\<not> rib_has prefix len eid rib"
  shows "fib_route_delete fib prefix len eid m = Some (-1, fib, m)"
proof -
  have rib: "rib_ok (fib_key \<circ> D) rib" and rts: "tab_routes (fib_table fib) = rib_routes rib"
    using inv by (simp_all add: fib_inv_def)
  have "lpm_delete fib_ops (fib_table fib) prefix len eid m = Some (-1, m, fib_table fib)"
    by (rule fibc.lpm_delete_absent [where D = D and W = W and R = "{#}"])
      (use inv rib_have(2) [OF rib has] rts in \<open>simp_all add: fib_inv_def\<close>)
  then show ?thesis by (simp add: fib_route_delete_def)
qed

text \<open>The rollback of \<open>lpm_add\<close> drops the last reference of the new entry, and so frees it.\<close>

lemma fib_rollback_frees:
  assumes inv: "fib_inv fib m D rib W" and e: "fib_entry_fill family type prefix len nexthop port eid = Some e"
    and len: "len \<le> 16" and has: "\<not> rib_has prefix len eid rib"
    and a: "ufp_mem_alloc (lm_pool m) sizeof_fib_entry = Some (Some p, mp)"
    and room: "roomy [sizeof_lpm_entry] mp" "\<not> roomy (replicate (2 ^ (16 - len)) sizeof_lpm_entry) mp"
  shows "\<exists>m2. lpm_add fib_ops (fib_table fib) prefix len eid p (m\<lparr>lm_pool := mp, lm_objs := (lm_objs m)(p \<mapsto> e)\<rparr>) =
    Some (-1, m2, fib_table fib) \<and> p \<notin> mp_live (lm_pool m2)"
proof -
  let ?D = "D(p := e)" and ?m = "m\<lparr>lm_pool := mp, lm_objs := (lm_objs m)(p \<mapsto> e)\<rparr>"
  let ?js = "lpm_slots (lpm_index prefix 0 16) (16 - len)"
  note f = fib_fresh [OF inv a e]
  have K: "(fib_key \<circ> ?D) p = (eid, len)" using fib_entry_fill_key [OF e] by simp
  have p: "p \<in> dom (lm_objs ?m)" "count (tab_refs (fib_table fib) + {#}) p + 2 ^ 16 < REF_LIMIT"
    using f(4) by (simp_all add: REF_LIMIT_def)
  have none: "none_have (fib_key \<circ> ?D) (eid, len) 0 prefix (arr_routes 0 16 (fib_table fib))"
    using rib_have(2) [OF f(3) has] inv by (simp add: fib_inv_def flip: tab_routes_arr)
  obtain ok n m' tab' ret m2 tab2 where r:
      "lpm_fill fib_ops eid len p ?js ?m (fib_table fib) = Some (ok, n, m', tab')"
      "lpm_add fib_ops (fib_table fib) prefix len eid p ?m = Some (ret, m2, tab2)"
      "fibc.mok ?D (fib_key \<circ> ?D) m2 (tab_own tab2 + W) (tab_refs tab2 + {#})"
      "ok \<longleftrightarrow> ret = 0" "ret = 0 \<or> ret = -1"
      "\<not> ok \<longrightarrow> tab2 = fib_table fib \<and>
         frees ?m (tab_refs (fib_table fib) + replicate_mset n p + {#}) m2 (tab_refs (fib_table fib) + {#})"
      "ok \<longrightarrow> n = length ?js"
    using fibc.lpm_add_top [OF f(1,2) len K p, of prefix] unfolding add_post_def by blast
  have arr: "arr_wf (fib_key \<circ> ?D) 0 0 16 (fib_table fib)" using f(2) by (simp add: tab_wf_arr)
  note js = arr_slots(1-3) [OF arr, of len prefix, simplified, OF len]
  have "roomy (replicate n sizeof_lpm_entry) (lm_pool ?m) \<and>
      (\<not> ok \<longrightarrow> \<not> roomy (replicate (Suc n) sizeof_lpm_entry) (lm_pool ?m))"
  proof (rule fibc.fill_rooms [OF f(1) js(1,2) _ _ _ K p(1) _ _ r(1)])
    show "\<forall>n\<in>set (fib_table fib). node_wf (fib_key \<circ> ?D) 0 16 n" using f(2) by (simp add: tab_wf_def)
    have "(2::nat) ^ (16 - len) \<le> 2 ^ 16" by (intro power_increasing) auto
    then show "count (tab_refs (fib_table fib) + {#}) p + length ?js < REF_LIMIT" using p(2) js(3) by linarith
    show "\<forall>j\<in>set ?js. (eid, len) \<notin> (fib_key \<circ> ?D) ` set (ptrs (fib_table fib ! j))"
      using slots_have(2) [OF arr, of len _ prefix, simplified, OF len _ none] by simp
  qed (use len in simp_all)
  with r(7) room js(3) have n: "\<not> ok" "0 < n" by (cases n; auto)+
  then have "p \<notin> dom (lm_objs m2)" "tab2 = fib_table fib" "ret = -1"
    using r(4-6) f(4) by (auto simp: frees_def count_eq_zero_iff)
  then show ?thesis using r(2,3) f(6) by (auto simp: lpm_mem_ok_def)
qed

subsection \<open>Properties\<close>

lemma fib_lookup_spec:
  assumes "fib_inv fib m D rib W"
  shows "\<exists>r. fib_lookup fib dst = Some r \<and>
    (case r of
       None \<Rightarrow> (\<forall>s\<in>set rib. \<not> rt_covers s dst)
     | Some p \<Rightarrow> (\<exists>s\<in>set rib. rt_ptr s = p \<and> rt_covers s dst \<and>
         (\<forall>t\<in>set rib. rt_covers t dst \<longrightarrow> rt_len t \<le> rt_len s)) \<and>
         (\<exists>e. lm_objs m p = Some e \<and> e\<lparr>fe_refcount := 0\<rparr> = D p))"
proof -
  have wf: "tab_wf (fib_key \<circ> D) (fib_table fib)" and rts: "tab_routes (fib_table fib) = rib_routes rib"
      and sorted: "sorted_wrt (\<lambda>r s. rt_len s \<le> rt_len r) rib" and objs: "dom (lm_objs m) = rt_ptr ` set rib"
    using assms by (simp_all add: fib_inv_def rib_ok_def)
  obtain r where r: "lpm_lookup (fib_table fib) dst = Some r"
      "map_option le_ptr r = (case rib_routes rib dst of [] \<Rightarrow> None | p # ps \<Rightarrow> Some p)"
    using lpm_lookup_spec [OF wf, of dst] rts by auto
  show ?thesis
  proof (cases "rib_routes rib dst")
    case Nil
    then show ?thesis using r by (auto simp: fib_lookup_def rib_routes_def filter_empty_conv)
  next
    case (Cons p ps)
    obtain s where s: "s \<in> set rib" "rt_ptr s = p" "rt_covers s dst"
        "\<forall>t\<in>set rib. rt_covers t dst \<longrightarrow> rt_len t \<le> rt_len s"
      using rib_first_longest [OF sorted Cons] by blast
    then obtain e where "lm_objs m p = Some e" using objs by (metis domD imageI)
    moreover from this have "e\<lparr>fe_refcount := 0\<rparr> = D p"
      using assms by (simp add: fib_inv_def lpm_mem_ok_def fib_good_def)
    ultimately show ?thesis using r Cons s by (auto simp: fib_lookup_def)
  qed
qed

text \<open>C1. Longest prefix match. A lookup never faults; it returns no entry exactly when no route's prefix
  contains the address, and otherwise the live entry of a route that contains the address and whose
  prefix no other such route exceeds in length, with the content (next hop, port, type) with which
  the route was entered.\<close>

theorem fib_lookup_longest:
  assumes "fib_inv fib m D rib W"
  shows "\<exists>r. fib_lookup fib dst = Some r \<and>
    (case r of
       None \<Rightarrow> (\<forall>s\<in>set rib. \<not> rt_covers s dst)
     | Some p \<Rightarrow> (\<exists>s\<in>set rib. rt_ptr s = p \<and> rt_covers s dst \<and>
         (\<forall>t\<in>set rib. rt_covers t dst \<longrightarrow> rt_len t \<le> rt_len s)) \<and>
         (\<exists>e. lm_objs m p = Some e \<and> e\<lparr>fe_refcount := 0\<rparr> = D p))"
  using assms by (rule fib_lookup_spec)

lemma fib_route_update_spec:
  assumes "fib_inv fib m D rib W"
    "rib_has prefix len eid rib \<or> fib_entry_fill family type prefix len nexthop port eid = None \<or>
       roomy (sizeof_fib_entry # tab_need prefix len (fib_table fib)) (lm_pool m)"
  shows "\<exists>ret fib' m'. fib_route_update fib family type prefix len nexthop port eid m = Some (ret, fib', m') \<and>
    fib_addr fib' = fib_addr fib \<and>
    (case fib_entry_fill family type prefix len nexthop port eid of
       None \<Rightarrow> ret = -1 \<and> fib_inv fib' m' D rib W
     | Some e \<Rightarrow>
         if rib_has prefix len eid rib then ret = -1 \<and> fib_inv fib' m' D rib W
         else ret = 0 \<and> (\<exists>p. p \<notin> rt_ptr ` set rib \<and> fib_inv fib' m' (D(p := e))
           (rib_add \<lparr>rt_pfx = prefix, rt_len = len, rt_id = eid, rt_ptr = p\<rparr> rib) W))"
proof (cases "rib_has prefix len eid rib \<or> fib_entry_fill family type prefix len nexthop port eid = None")
  case True
  from fib_update_dup [OF assms(1) True] True show ?thesis by (auto split: option.splits)
next
  case False
  then obtain e where "fib_entry_fill family type prefix len nexthop port eid = Some e" by auto
  with fib_update_new [OF assms(1) this] False assms(2) show ?thesis by fastforce
qed

text \<open>C2. Updating a route, all outcomes with enough memory or an existing route. Whatever the table
  holds, \<open>fib_route_update\<close> does not fault. A family other than the two of IP, or a route whose identity,
  length and prefix bits exist already, is refused with -1 and the table stands for the same routes, with no
  block leaked. A new route is accepted when the pool has room for its entry and nodes, and the table
  stands for the old routes and the new one, before the routes of the same length.\<close>

theorem fib_route_update_refines:
  assumes "fib_inv fib m D rib W"
    "rib_has prefix len eid rib \<or> fib_entry_fill family type prefix len nexthop port eid = None \<or>
       roomy (sizeof_fib_entry # tab_need prefix len (fib_table fib)) (lm_pool m)"
  shows "\<exists>ret fib' m'. fib_route_update fib family type prefix len nexthop port eid m = Some (ret, fib', m') \<and>
    fib_addr fib' = fib_addr fib \<and>
    (case fib_entry_fill family type prefix len nexthop port eid of
       None \<Rightarrow> ret = -1 \<and> fib_inv fib' m' D rib W
     | Some e \<Rightarrow>
         if rib_has prefix len eid rib then ret = -1 \<and> fib_inv fib' m' D rib W
         else ret = 0 \<and> (\<exists>p. p \<notin> rt_ptr ` set rib \<and> fib_inv fib' m' (D(p := e))
           (rib_add \<lparr>rt_pfx = prefix, rt_len = len, rt_id = eid, rt_ptr = p\<rparr> rib) W))"
  using assms by (rule fib_route_update_spec)

text \<open>An empty table on a pool of 4096 bytes, and one route in it.\<close>

definition fib_ex :: fib where
  "fib_ex = \<lparr>fib_addr = 0, fib_table = lpm_init\<rparr>"

definition fib_mem_ex :: "fib_entry lpm_mem" where
  "fib_mem_ex = \<lparr>lm_pool = pool_ex, lm_objs = Map.empty\<rparr>"

definition net_ex :: bytes where
  "net_ex i = (if i = 0 then 10 else 0)"

lemma fib_ex_inv: "fib_inv fib_ex fib_mem_ex D [] {#}"
  using pool_ex_wf
  by (auto simp: fib_inv_def fib_ex_def fib_mem_ex_def lpm_mem_ok_def rib_ok_def rib_routes_def)

lemma fib_ex_roomy: "roomy (sizeof_fib_entry # tab_need net_ex 16 (fib_table fib_ex)) (lm_pool fib_mem_ex)"
  by (simp add: tab_need_def sizeof_fib_entry_def sizeof_lpm_entry_def fib_ex_def fib_mem_ex_def
      ufp_mem_alloc_def mem_alloc_at_def pool_ex_def size_header_def size_t_mod_def
      ufp_mem_alloc_node.simps mem_split_def ufp_mnode_alloc_def Let_def)

lemma fib_one_ex:
  "\<exists>fib m D p W. fib_inv fib m D [\<lparr>rt_pfx = net_ex, rt_len = 16, rt_id = 1, rt_ptr = p\<rparr>] W"
proof -
  obtain e where e: "fib_entry_fill AF_INET FIB_TYPE_FORWARD net_ex 16 net_ex 0 1 = Some e"
    by (simp add: fib_entry_fill_def Let_def)
  have "\<not> rib_has net_ex 16 1 []" by (simp add: rib_has_def)
  from fib_update_new [OF fib_ex_inv e this fib_ex_roomy] show ?thesis
    by (fastforce simp: rib_add_def)
qed

theorem fib_route_update_refines_witness:
  "\<exists>fib' m' D' p. fib_route_update fib_ex AF_INET FIB_TYPE_FORWARD net_ex 16 net_ex 0 1 fib_mem_ex = Some (0, fib', m') \<and>
     fib_inv fib' m' D' [\<lparr>rt_pfx = net_ex, rt_len = 16, rt_id = 1, rt_ptr = p\<rparr>] {#}"
proof -
  obtain e where e: "fib_entry_fill AF_INET FIB_TYPE_FORWARD net_ex 16 net_ex 0 1 = Some e"
    by (simp add: fib_entry_fill_def Let_def)
  have "\<not> rib_has net_ex 16 1 []" by (simp add: rib_has_def)
  with fib_route_update_refines [OF fib_ex_inv, of net_ex 16 1 AF_INET FIB_TYPE_FORWARD net_ex 0] fib_ex_roomy e
  show ?thesis by (fastforce simp: rib_add_def)
qed

theorem fib_lookup_longest_witness:
  "\<exists>fib m D p W. fib_inv fib m D [\<lparr>rt_pfx = net_ex, rt_len = 16, rt_id = 1, rt_ptr = p\<rparr>] W \<and>
     fib_lookup fib net_ex = Some (Some p)"
proof -
  obtain fib m D p W where inv: "fib_inv fib m D [\<lparr>rt_pfx = net_ex, rt_len = 16, rt_id = 1, rt_ptr = p\<rparr>] W"
    using fib_one_ex by blast
  have "rt_covers \<lparr>rt_pfx = net_ex, rt_len = 16, rt_id = 1, rt_ptr = p\<rparr> net_ex" by (simp add: rt_covers_def)
  with fib_lookup_longest [OF inv, of net_ex] inv show ?thesis by (fastforce split: option.splits)
qed

lemma fib_route_delete_spec:
  assumes "fib_inv fib m D rib W"
  shows "if rib_has prefix len eid rib
    then \<exists>fib' m'. fib_route_delete fib prefix len eid m = Some (0, fib', m') \<and>
      fib_addr fib' = fib_addr fib \<and> fib_inv fib' m' D (rib_del prefix len eid rib) W
    else fib_route_delete fib prefix len eid m = Some (-1, fib, m)"
  using fib_delete_present [OF assms] fib_delete_absent [OF assms] by simp

text \<open>C3. Deleting a route. \<open>fib_route_delete\<close> never faults. When the table has a route with this
  identity, length and prefix bits it returns 0, the table stands for the other routes, and the
  entry, its list entries and the arrays that became unused are given back to the pool; otherwise it
  returns -1 and nothing changes.\<close>

theorem fib_route_delete_refines:
  assumes "fib_inv fib m D rib W"
  shows "if rib_has prefix len eid rib
    then \<exists>fib' m'. fib_route_delete fib prefix len eid m = Some (0, fib', m') \<and>
      fib_addr fib' = fib_addr fib \<and> fib_inv fib' m' D (rib_del prefix len eid rib) W
    else fib_route_delete fib prefix len eid m = Some (-1, fib, m)"
  using assms by (rule fib_route_delete_spec)

theorem fib_route_delete_refines_witness:
  "\<exists>fib m D p W fib' m'. fib_inv fib m D [\<lparr>rt_pfx = net_ex, rt_len = 16, rt_id = 1, rt_ptr = p\<rparr>] W \<and>
     fib_route_delete fib net_ex 16 1 m = Some (0, fib', m') \<and> fib_inv fib' m' D [] W"
proof -
  obtain fib m D p W where inv: "fib_inv fib m D [\<lparr>rt_pfx = net_ex, rt_len = 16, rt_id = 1, rt_ptr = p\<rparr>] W"
    using fib_one_ex by blast
  have "rib_has net_ex 16 1 [\<lparr>rt_pfx = net_ex, rt_len = 16, rt_id = 1, rt_ptr = p\<rparr>]"
    by (simp add: rib_has_def rt_same_def)
  moreover have "rib_del net_ex 16 1 [\<lparr>rt_pfx = net_ex, rt_len = 16, rt_id = 1, rt_ptr = p\<rparr>] = []"
    by (simp add: rib_del_def rt_same_def)
  ultimately show ?thesis
    using fib_route_delete_refines [OF inv, of net_ex 16 1] inv by fastforce
qed

lemma fib_release_spec:
  assumes "fib_inv fib m D rib (add_mset (fib_addr fib) W)"
  shows "\<exists>m'. fib_release fib m = Some m' \<and> mp_wf (lm_pool m') \<and> mp_live (lm_pool m') = set_mset W \<and>
    lm_objs m' = Map.empty"
proof -
  have ok: "fibc.mok D (fib_key \<circ> D) m (tab_own (fib_table fib) + add_mset (fib_addr fib) W) (tab_refs (fib_table fib) + {#})"
      and refs: "set_mset (tab_refs (fib_table fib)) = dom (lm_objs m)"
    using assms fib_inv_refs [of "fib_key \<circ> D" "fib_table fib" rib] by (simp_all add: fib_inv_def)
  obtain m1 where m1: "lpm_delete_all_nodes fib_ops m (fib_table fib) = Some m1"
      "fibc.mok D (fib_key \<circ> D) m1 (add_mset (fib_addr fib) W) {#}"
      "frees m (tab_refs (fib_table fib) + {#}) m1 {#}"
    using fibc.delete_all_spec(2) [OF refl ok] by blast
  then have objs: "lm_objs m1 = Map.empty" using refs by (simp add: frees_def)
  with fibc.mok_free [OF m1(2)] m1(1) show ?thesis
    by (auto simp: fib_release_def lpm_delete_all_def lpm_mem_ok_def)
qed

text \<open>C8. Releasing a table never faults, and gives back every block of it: the list entries, the
  arrays, the route entries (each once, with its last reference) and the table itself. The blocks of
  others stay.\<close>

theorem fib_release_frees_all:
  assumes "fib_inv fib m D rib (add_mset (fib_addr fib) W)"
  shows "\<exists>m'. fib_release fib m = Some m' \<and> mp_wf (lm_pool m') \<and> mp_live (lm_pool m') = set_mset W \<and>
    lm_objs m' = Map.empty"
  using assms by (rule fib_release_spec)

theorem fib_release_frees_all_witness:
  "\<exists>m fib. fib_inv fib m (\<lambda>p. undefined) [] (add_mset (fib_addr fib) {#}) \<and>
     (\<exists>m'. fib_release fib m = Some m' \<and> mp_live (lm_pool m') = {})"
proof -
  let ?mp = "\<lparr>mp_node = Mnode True 0 4096 4096 None None, mp_addr_virt = 4096,
      mp_hdr = [4096 \<mapsto> []], mp_mallocs = []\<rparr>" and ?fib = "\<lparr>fib_addr = 4104, fib_table = lpm_init\<rparr>"
  let ?m = "\<lparr>lm_pool = ?mp, lm_objs = Map.empty\<rparr> :: fib_entry lpm_mem"
  have "mp_wf ?mp" "mp_live ?mp = {4104}"
    by (auto simp: mp_wf_def mp_live_def size_header_def mn_range_def)
  then have "fib_inv ?fib ?m (\<lambda>p. undefined) [] (add_mset (fib_addr ?fib) {#})"
    by (auto simp: fib_inv_def lpm_mem_ok_def rib_ok_def rib_routes_def)
  with fib_release_frees_all [OF this] show ?thesis by fastforce
qed

text \<open>C13. The error path of \<open>fib_route_update\<close> for prefixes of at most 16 bits releases the route entry
  twice: when the pool runs out after at least one slot has been filled, the rollback of \<open>lpm_add\<close>
  drops the last reference and frees the entry, and \<open>err_lpm_add\<close> frees it again.\<close>

theorem fib_route_update_double_free:
  assumes "fib_inv fib m D rib W" "fib_entry_fill family type prefix len nexthop port eid = Some e"
    "len \<le> 16" "\<not> rib_has prefix len eid rib"
    "roomy [sizeof_fib_entry, sizeof_lpm_entry] (lm_pool m)"
    "\<not> roomy (sizeof_fib_entry # replicate (2 ^ (16 - len)) sizeof_lpm_entry) (lm_pool m)"
  shows "fib_route_update fib family type prefix len nexthop port eid m = None"
proof -
  obtain p mp where a: "ufp_mem_alloc (lm_pool m) sizeof_fib_entry = Some (Some p, mp)"
      "roomy [sizeof_lpm_entry] mp" "\<not> roomy (replicate (2 ^ (16 - len)) sizeof_lpm_entry) mp"
    using assms(5,6) by (auto split: option.splits prod.splits)
  obtain m2 where m2: "lpm_add fib_ops (fib_table fib) prefix len eid p
        (m\<lparr>lm_pool := mp, lm_objs := (lm_objs m)(p \<mapsto> e)\<rparr>) = Some (-1, m2, fib_table fib)"
      "p \<notin> mp_live (lm_pool m2)"
    using fib_rollback_frees [OF assms(1-4) a] by blast
  have "ufp_mem_free (lm_pool m2) p = None"
    using m2(2) by (auto simp: mp_live_iff ufp_mem_free_def Let_def)
  with a(1) assms(2) m2(1) show ?thesis
    by (simp add: fib_route_update_def fib_entry_free_def lpm_mem_free_def)
qed

definition pool_small :: ufp_mpool where
  "pool_small = \<lparr>mp_node = Mnode False 0 128 4096 None None, mp_addr_virt = 4096,
     mp_hdr = Map.empty, mp_mallocs = []\<rparr>"

theorem fib_route_update_double_free_witness:
  "fib_route_update fib_ex AF_INET FIB_TYPE_FORWARD net_ex 14 net_ex 0 1
     \<lparr>lm_pool = pool_small, lm_objs = Map.empty\<rparr> = None"
proof -
  let ?m = "\<lparr>lm_pool = pool_small, lm_objs = Map.empty\<rparr> :: fib_entry lpm_mem"
  have "mp_wf pool_small" "mp_live pool_small = {}" by (auto simp: pool_small_def mp_wf_def mp_live_def)
  then have inv: "fib_inv fib_ex ?m (\<lambda>p. undefined) [] {#}"
    by (auto simp: fib_inv_def fib_ex_def lpm_mem_ok_def rib_ok_def rib_routes_def)
  obtain e where e: "fib_entry_fill AF_INET FIB_TYPE_FORWARD net_ex 14 net_ex 0 1 = Some e"
    by (simp add: fib_entry_fill_def Let_def)
  have four: "replicate (2 ^ (16 - 14)) x = [x, x, x, x]" for x :: nat
    by (simp add: eval_nat_numeral)
  note eval = sizeof_fib_entry_def sizeof_lpm_entry_def ufp_mem_alloc_def mem_alloc_at_def pool_small_def
    size_header_def size_t_mod_def ufp_mem_alloc_node.simps mem_split_def ufp_mnode_alloc_def Let_def
  show ?thesis
  proof (rule fib_route_update_double_free [OF inv e])
    show "roomy [sizeof_fib_entry, sizeof_lpm_entry] (lm_pool ?m)" by (simp add: eval)
    show "\<not> roomy (sizeof_fib_entry # replicate (2 ^ (16 - 14)) sizeof_lpm_entry) (lm_pool ?m)"
      unfolding four by (simp add: eval)
  qed (simp_all add: rib_has_def)
qed

end
