(* ===== verification/Hash.thy ===== *)
theory Hash
  imports Lpm
begin

text \<open>
  The chained hash table of the forwarding application (\<open>src/hash.c\<close>, \<open>src/hash.h\<close>). The entries
  are embedded in the objects of a client, and the key of an entry is a pointer into that object. A
  key is modelled by the bytes behind its pointer; reading more bytes than there are is a fault.
\<close>

subsection \<open>Data\<close>

record hash_entry =
  he_addr :: addr
  he_key :: addr

type_synonym hash_table = "hash_entry list list"

text \<open>The function pointers of \<open>struct hash_table\<close>, and how a key pointer is read.\<close>

record 'e hash_ops =
  hash_entry_delete :: "'e lpm_mem \<Rightarrow> addr \<Rightarrow> 'e lpm_mem option"
  hash_key_generate :: "u8 list \<Rightarrow> nat \<Rightarrow> u32 option"
  hash_key_compare :: "u8 list \<Rightarrow> u8 list \<Rightarrow> int option"
  hash_key_read :: "'e lpm_mem \<Rightarrow> addr \<Rightarrow> u8 list option"

definition HASH_BIT :: nat where
  "HASH_BIT = 16"

definition HASH_SIZE :: nat where
  "HASH_SIZE = 2 ^ HASH_BIT"

subsection \<open>Operations\<close>

definition hash_init :: hash_table where
  "hash_init = replicate HASH_SIZE []"

definition hash_entry_init :: "addr \<Rightarrow> addr \<Rightarrow> hash_entry" where
  "hash_entry_init entry key = \<lparr>he_addr = entry, he_key = key\<rparr>"

text \<open>The loop that compares a key with the entries of a bucket, up to the first equal one.\<close>

fun hash_find :: "'e hash_ops \<Rightarrow> 'e lpm_mem \<Rightarrow> u8 list \<Rightarrow> hash_entry list \<Rightarrow> hash_entry option option" where
  "hash_find ops m key [] = Some None"
| "hash_find ops m key (entry # es) =
     (case hash_key_read ops m (he_key entry) of
        None \<Rightarrow> None
      | Some key_ent \<Rightarrow>
          (case hash_key_compare ops key key_ent of
             None \<Rightarrow> None
           | Some c \<Rightarrow> if c = 0 then Some (Some entry) else hash_find ops m key es))"

text \<open>The bucket of a key.\<close>

definition hash_head :: "'e hash_ops \<Rightarrow> hash_table \<Rightarrow> u8 list \<Rightarrow> nat option" where
  "hash_head ops tab key =
     (case hash_key_generate ops key HASH_BIT of
        None \<Rightarrow> None
      | Some hash_key \<Rightarrow> if unat hash_key < length tab then Some (unat hash_key) else None)"

definition hash_add :: "'e hash_ops \<Rightarrow> hash_table \<Rightarrow> addr \<Rightarrow> addr \<Rightarrow> 'e lpm_mem \<Rightarrow> (int \<times> hash_table) option" where
  "hash_add ops tab key entry_new m =
     (let entry = hash_entry_init entry_new key in
      do {
        k \<leftarrow> hash_key_read ops m key;
        h \<leftarrow> hash_head ops tab k;
        found \<leftarrow> hash_find ops m k (tab ! h);
        Some (case found of
                Some e \<Rightarrow> (-1, tab)
              | None \<Rightarrow> (0, tab[h := entry # tab ! h]))
      })"

definition hash_delete :: "'e hash_ops \<Rightarrow> hash_table \<Rightarrow> u8 list \<Rightarrow> 'e lpm_mem \<Rightarrow> (int \<times> hash_table \<times> 'e lpm_mem) option" where
  "hash_delete ops tab key m =
     do {
       h \<leftarrow> hash_head ops tab key;
       found \<leftarrow> hash_find ops m key (tab ! h);
       (case found of
          None \<Rightarrow> Some (-1, tab, m)
        | Some target \<Rightarrow>
            map_option (\<lambda>m'. (0, tab[h := remove1 target (tab ! h)], m'))
              (hash_entry_delete ops m (he_addr target)))
     }"

fun hash_delete_bucket :: "'e hash_ops \<Rightarrow> 'e lpm_mem \<Rightarrow> hash_entry list \<Rightarrow> 'e lpm_mem option" where
  "hash_delete_bucket ops m [] = Some m"
| "hash_delete_bucket ops m (entry # es) =
     (case hash_entry_delete ops m (he_addr entry) of
        None \<Rightarrow> None
      | Some m' \<Rightarrow> hash_delete_bucket ops m' es)"

fun hash_delete_buckets :: "'e hash_ops \<Rightarrow> 'e lpm_mem \<Rightarrow> hash_entry list list \<Rightarrow> 'e lpm_mem option" where
  "hash_delete_buckets ops m [] = Some m"
| "hash_delete_buckets ops m (b # bs) =
     (case hash_delete_bucket ops m b of
        None \<Rightarrow> None
      | Some m' \<Rightarrow> hash_delete_buckets ops m' bs)"

definition hash_delete_all :: "'e hash_ops \<Rightarrow> hash_table \<Rightarrow> 'e lpm_mem \<Rightarrow> (hash_table \<times> 'e lpm_mem) option" where
  "hash_delete_all ops tab m = map_option (\<lambda>m'. (map (\<lambda>b. []) tab, m')) (hash_delete_buckets ops m tab)"

definition hash_lookup :: "'e hash_ops \<Rightarrow> hash_table \<Rightarrow> u8 list \<Rightarrow> 'e lpm_mem \<Rightarrow> hash_entry option option" where
  "hash_lookup ops tab key m =
     do {
       h \<leftarrow> hash_head ops tab key;
       hash_find ops m key (tab ! h)
     }"

subsection \<open>The contract of a client\<close>

text \<open>
  The table holds exactly the client's objects: every object is in the bucket of its key, once, and
  no two objects have the same key. The live blocks of the pool are the objects and \<open>W\<close>.
\<close>

definition hash_ok ::
  "('e \<Rightarrow> u8 list) \<Rightarrow> (u8 list \<Rightarrow> nat) \<Rightarrow> nat \<Rightarrow> hash_table \<Rightarrow> 'e lpm_mem \<Rightarrow> addr set \<Rightarrow> bool" where
  "hash_ok keyof bucket key_off tab m W \<longleftrightarrow>
     mp_wf (lm_pool m) \<and> mp_live (lm_pool m) = W \<union> dom (lm_objs m) \<and> W \<inter> dom (lm_objs m) = {} \<and>
     length tab = HASH_SIZE \<and> distinct (map he_addr (concat tab)) \<and>
     he_addr ` set (concat tab) = dom (lm_objs m) \<and>
     (\<forall>i<length tab. \<forall>e\<in>set (tab ! i). he_key e = he_addr e + key_off \<and>
        (\<forall>ob. lm_objs m (he_addr e) = Some ob \<longrightarrow> bucket (keyof ob) = i)) \<and>
     (\<forall>p q a b. lm_objs m p = Some a \<longrightarrow> lm_objs m q = Some b \<longrightarrow> keyof a = keyof b \<longrightarrow> p = q)"

text \<open>The map from keys to objects that the table stands for.\<close>

definition hash_map :: "('e \<Rightarrow> u8 list) \<Rightarrow> 'e lpm_mem \<Rightarrow> u8 list \<Rightarrow> addr \<Rightarrow> bool" where
  "hash_map keyof m k p \<longleftrightarrow> (\<exists>ob. lm_objs m p = Some ob \<and> keyof ob = k)"

text \<open>A new object, put in front of the bucket of its key.\<close>

lemma hash_ok_insert:
  assumes ok: "hash_ok keyof bucket key_off tab m W"
    and m': "m' = m\<lparr>lm_pool := mp, lm_objs := (lm_objs m)(p \<mapsto> ob)\<rparr>"
    and mp: "mp_wf mp" "mp_live mp = insert p (mp_live (lm_pool m))"
    and p: "p \<notin> dom (lm_objs m)" "p \<notin> W"
    and new: "\<And>q o'. lm_objs m q = Some o' \<Longrightarrow> keyof o' \<noteq> keyof ob"
    and ms: "mset (concat (tab[h := hash_entry_init p (p + key_off) # tab ! h])) =
      mset (hash_entry_init p (p + key_off) # concat tab)"
    and h: "h < length tab" "h = bucket (keyof ob)"
  shows "hash_ok keyof bucket key_off (tab[h := hash_entry_init p (p + key_off) # tab ! h]) m' W"
proof -
  let ?e = "hash_entry_init p (p + key_off)"
  let ?tab = "tab[h := ?e # tab ! h]"
  have e: "he_addr ?e = p" "he_key ?e = p + key_off" by (simp_all add: hash_entry_init_def)
  have st: "set (concat ?tab) = insert ?e (set (concat tab))" using ms by (metis list.simps(15) set_mset_mset)
  have d: "distinct (map he_addr (concat ?tab)) = distinct (map he_addr (?e # concat tab))"
    using ms by (metis mset_eq_imp_distinct_iff mset_map)
  have old: "he_addr ` set (concat tab) = dom (lm_objs m)" "distinct (map he_addr (concat tab))"
    using ok by (simp_all add: hash_ok_def)
  show ?thesis
    unfolding hash_ok_def
  proof (intro conjI)
    show "distinct (map he_addr (concat ?tab))" unfolding d using e(1) p(1) old by simp
    show "he_addr ` set (concat ?tab) = dom (lm_objs m')" unfolding st using e(1) old(1) m' by simp
    show "\<forall>i<length ?tab. \<forall>x\<in>set (?tab ! i). he_key x = he_addr x + key_off \<and>
        (\<forall>ob. lm_objs m' (he_addr x) = Some ob \<longrightarrow> bucket (keyof ob) = i)"
    proof (intro allI impI ballI)
      fix i x assume i: "i < length ?tab" and x: "x \<in> set (?tab ! i)"
      have "x = ?e \<and> i = h \<or> x \<in> set (tab ! i)" using i x h(1) by (auto simp: nth_list_update split: if_splits)
      then show "he_key x = he_addr x + key_off \<and>
        (\<forall>ob. lm_objs m' (he_addr x) = Some ob \<longrightarrow> bucket (keyof ob) = i)"
      proof
        assume a: "x \<in> set (tab ! i)"
        then have "x \<in> set (concat tab)" using i unfolding in_concat_nth by auto
        then have "he_addr x \<noteq> p" using old(1) p(1) by blast
        with a i ok m' show ?thesis by (simp add: hash_ok_def)
      qed (use e m' h in simp)
    qed
    have inj: "q = r" if "lm_objs m q = Some a" "lm_objs m r = Some b" "keyof a = keyof b" for q r a b
      using ok that unfolding hash_ok_def by blast
    show "\<forall>p q a b. lm_objs m' p = Some a \<longrightarrow> lm_objs m' q = Some b \<longrightarrow> keyof a = keyof b \<longrightarrow> p = q"
    proof (intro allI impI)
      fix q r a b assume a: "lm_objs m' q = Some a" "lm_objs m' r = Some b" "keyof a = keyof b"
      then show "q = r"
        using new [of q a] new [of r b] inj [of q a r b] unfolding m' by (cases "q = p"; cases "r = p") auto
    qed
  qed (use ok m' mp p in \<open>auto simp: hash_ok_def\<close>)
qed

text \<open>An object taken out of its bucket and freed.\<close>

lemma hash_ok_remove:
  assumes ok: "hash_ok keyof bucket key_off tab m W" and h: "h < length tab" and e: "e \<in> set (tab ! h)"
    and mp: "mp_wf mp" "mp_live mp = mp_live (lm_pool m) - {he_addr e}"
  shows "hash_ok keyof bucket key_off (tab[h := remove1 e (tab ! h)])
    (m\<lparr>lm_pool := mp, lm_objs := (lm_objs m)(he_addr e := None)\<rparr>) W"
proof -
  let ?tab = "tab[h := remove1 e (tab ! h)]"
  obtain C where C: "\<And>xs. mset (concat (tab[h := xs])) = C + mset xs" "mset (concat tab) = C + mset (tab ! h)"
    using mset_concat_frame [OF h] by blast
  have ms: "mset (e # concat ?tab) = mset (concat tab)" using C e by simp
  then have st: "set (concat tab) = insert e (set (concat ?tab))" by (metis list.simps(15) set_mset_mset)
  have d: "distinct (map he_addr (e # concat ?tab))"
    using ok ms unfolding hash_ok_def by (metis mset_eq_imp_distinct_iff mset_map)
  have old: "he_addr ` set (concat tab) = dom (lm_objs m)" using ok by (simp add: hash_ok_def)
  have "he_addr e \<in> dom (lm_objs m)" unfolding old [symmetric] st by blast
  then have eW: "he_addr e \<notin> W" using ok by (auto simp: hash_ok_def)
  have sub: "set (?tab ! i) \<subseteq> set (tab ! i)" if "i < length tab" for i
    using h set_remove1_subset [of e "tab ! h"] by (auto simp: nth_list_update)
  show ?thesis
    unfolding hash_ok_def
  proof (intro conjI)
    show "distinct (map he_addr (concat ?tab))" using d by simp
    show "he_addr ` set (concat ?tab) = dom (lm_objs (m\<lparr>lm_pool := mp, lm_objs := (lm_objs m)(he_addr e := None)\<rparr>))"
    proof -
      have "he_addr e \<notin> he_addr ` set (concat ?tab)" using d unfolding list.map distinct.simps list.set_map by blast
      then have "he_addr ` set (concat ?tab) = dom (lm_objs m) - {he_addr e}" using old unfolding st by blast
      then show ?thesis by simp
    qed
    show "\<forall>i<length ?tab. \<forall>x\<in>set (?tab ! i). he_key x = he_addr x + key_off \<and>
        (\<forall>ob. lm_objs (m\<lparr>lm_pool := mp, lm_objs := (lm_objs m)(he_addr e := None)\<rparr>) (he_addr x) = Some ob \<longrightarrow>
          bucket (keyof ob) = i)"
    proof (intro allI impI ballI)
      fix i x assume i: "i < length ?tab" and x: "x \<in> set (?tab ! i)"
      have "i < length tab" "x \<in> set (tab ! i)" using i x sub [of i] by auto
      then show "he_key x = he_addr x + key_off \<and>
        (\<forall>ob. lm_objs (m\<lparr>lm_pool := mp, lm_objs := (lm_objs m)(he_addr e := None)\<rparr>) (he_addr x) = Some ob \<longrightarrow>
          bucket (keyof ob) = i)"
        using ok unfolding hash_ok_def by simp
    qed
  qed (use ok mp eW in \<open>auto simp: hash_ok_def split: if_splits\<close>)
qed

locale hash_client =
  fixes ops :: "'e hash_ops"
    and keyof :: "'e \<Rightarrow> u8 list"
    and bucket :: "u8 list \<Rightarrow> nat"
    and key_off :: nat
    and klen :: nat
  assumes generate: "length k = klen \<Longrightarrow> \<exists>h. hash_key_generate ops k HASH_BIT = Some h \<and> unat h = bucket k \<and> bucket k < HASH_SIZE"
    and key_compare: "length k = klen \<Longrightarrow> length k' = klen \<Longrightarrow> \<exists>c. hash_key_compare ops k k' = Some c \<and> (c = 0 \<longleftrightarrow> k = k')"
    and key_read: "lm_objs m p = Some ob \<Longrightarrow> hash_key_read ops m (p + key_off) = Some (keyof ob)"
    and entry_delete: "hash_entry_delete ops m p = map_option (\<lambda>mp. m\<lparr>lm_pool := mp, lm_objs := (lm_objs m)(p := None)\<rparr>)
          (ufp_mem_free (lm_pool m) p)"
begin

definition hok :: "hash_table \<Rightarrow> 'e lpm_mem \<Rightarrow> addr set \<Rightarrow> bool" where
  "hok tab m W \<longleftrightarrow> hash_ok keyof bucket key_off tab m W \<and> (\<forall>ob\<in>ran (lm_objs m). length (keyof ob) = klen)"

lemma hok_obj:
  assumes "hok tab m W" "i < length tab" "e \<in> set (tab ! i)"
  obtains ob where "lm_objs m (he_addr e) = Some ob" "hash_key_read ops m (he_key e) = Some (keyof ob)"
    "bucket (keyof ob) = i" "length (keyof ob) = klen"
proof -
  have "e \<in> set (concat tab)" using assms(2,3) by (auto simp: in_concat_nth simp del: set_concat)
  then have "he_addr e \<in> dom (lm_objs m)" using assms(1) unfolding hok_def hash_ok_def by blast
  then obtain ob where ob: "lm_objs m (he_addr e) = Some ob" by auto
  moreover have "he_key e = he_addr e + key_off" "bucket (keyof ob) = i" "length (keyof ob) = klen"
    using assms ob by (auto simp: hok_def hash_ok_def ran_def)
  ultimately show ?thesis using that key_read [OF ob] by simp
qed

lemma find_spec:
  assumes "length k = klen" "\<forall>e\<in>set es. \<exists>ob. lm_objs m (he_addr e) = Some ob \<and>
      hash_key_read ops m (he_key e) = Some (keyof ob) \<and> length (keyof ob) = klen"
  shows "\<exists>r. hash_find ops m k es = Some r \<and>
    (case r of None \<Rightarrow> \<forall>e\<in>set es. \<not> hash_map keyof m k (he_addr e)
     | Some e \<Rightarrow> e \<in> set es \<and> hash_map keyof m k (he_addr e))"
  using assms(2)
proof (induction es)
  case (Cons e es)
  obtain ob where ob: "lm_objs m (he_addr e) = Some ob" "hash_key_read ops m (he_key e) = Some (keyof ob)"
      "length (keyof ob) = klen"
    using Cons.prems by auto
  obtain c where c: "hash_key_compare ops k (keyof ob) = Some c" "c = 0 \<longleftrightarrow> k = keyof ob"
    using key_compare [OF assms(1) ob(3)] by blast
  from Cons show ?case
    using ob c by (auto simp: hash_map_def split: option.splits)
qed simp

lemma head_spec:
  assumes "length tab = HASH_SIZE" "length k = klen"
  shows "hash_head ops tab k = Some (bucket k)" "bucket k < length tab"
  using generate [OF assms(2)] assms(1) by (auto simp: hash_head_def)

text \<open>The search in the bucket of a key finds the object with that key, if there is one.\<close>

lemma lookup_spec:
  assumes "hok tab m W" "length k = klen"
  shows "\<exists>r. hash_find ops m k (tab ! bucket k) = Some r \<and> hash_lookup ops tab k m = Some r \<and>
    (case r of None \<Rightarrow> \<forall>p. \<not> hash_map keyof m k p
     | Some e \<Rightarrow> e \<in> set (tab ! bucket k) \<and> hash_map keyof m k (he_addr e))"
proof -
  have l: "length tab = HASH_SIZE" using assms(1) by (simp add: hok_def hash_ok_def)
  note h = head_spec [OF l assms(2)]
  have "\<forall>e\<in>set (tab ! bucket k). \<exists>ob. lm_objs m (he_addr e) = Some ob \<and>
      hash_key_read ops m (he_key e) = Some (keyof ob) \<and> length (keyof ob) = klen"
    using hok_obj [OF assms(1) h(2)] by metis
  from find_spec [OF assms(2) this] obtain r where r: "hash_find ops m k (tab ! bucket k) = Some r"
      "case r of None \<Rightarrow> \<forall>e\<in>set (tab ! bucket k). \<not> hash_map keyof m k (he_addr e)
       | Some e \<Rightarrow> e \<in> set (tab ! bucket k) \<and> hash_map keyof m k (he_addr e)"
    by blast
  have "\<not> hash_map keyof m k p" if "r = None" for p
  proof
    assume p: "hash_map keyof m k p"
    then have "p \<in> he_addr ` set (concat tab)"
      using assms(1) unfolding hok_def hash_ok_def hash_map_def by (metis domI)
    then obtain i e where e: "i < length tab" "e \<in> set (tab ! i)" "he_addr e = p"
      by (auto simp: in_concat_nth simp del: set_concat)
    obtain ob where "lm_objs m p = Some ob" "bucket (keyof ob) = i" using hok_obj [OF assms(1) e(1,2)] e(3) by metis
    with p have "i = bucket k" by (auto simp: hash_map_def)
    with e p r(2) that show False by auto
  qed
  with r h show ?thesis by (auto simp: hash_lookup_def split: option.splits)
qed

lemma add_spec:
  assumes ok: "hok tab m W" and p: "p \<notin> dom (lm_objs m)" "p \<notin> W" and ob: "length (keyof ob) = klen"
    and m': "m' = m\<lparr>lm_pool := mp, lm_objs := (lm_objs m)(p \<mapsto> ob)\<rparr>"
    and mp: "mp_wf mp" "mp_live mp = insert p (mp_live (lm_pool m))"
  shows "((\<exists>q. hash_map keyof m (keyof ob) q) \<longrightarrow> hash_add ops tab (p + key_off) p m' = Some (-1, tab)) \<and>
    ((\<nexists>q. hash_map keyof m (keyof ob) q) \<longrightarrow> (\<exists>tab'. hash_add ops tab (p + key_off) p m' = Some (0, tab') \<and> hok tab' m' W))"
proof -
  let ?k = "keyof ob" and ?h = "bucket (keyof ob)"
  have l: "length tab = HASH_SIZE" using ok by (simp add: hok_def hash_ok_def)
  note h = head_spec [OF l ob]
  have ent: "he_addr e \<noteq> p \<and> (\<exists>o'. lm_objs m (he_addr e) = Some o' \<and> length (keyof o') = klen)"
    if "i < length tab" "e \<in> set (tab ! i)" for i e
    using hok_obj [OF ok that] p(1) by (metis domI)
  have same: "lm_objs m' (he_addr e) = lm_objs m (he_addr e)" if "i < length tab" "e \<in> set (tab ! i)" for i e
    using ent [OF that] m' by simp
  have "\<forall>e\<in>set (tab ! ?h). \<exists>o'. lm_objs m' (he_addr e) = Some o' \<and>
      hash_key_read ops m' (he_key e) = Some (keyof o') \<and> length (keyof o') = klen"
  proof
    fix e assume e: "e \<in> set (tab ! ?h)"
    obtain o' where o': "lm_objs m' (he_addr e) = Some o'" "length (keyof o') = klen"
      using ent [OF h(2) e] same [OF h(2) e] by auto
    have "he_key e = he_addr e + key_off" using ok h(2) e by (auto simp: hok_def hash_ok_def)
    with key_read [OF o'(1)] o' show "\<exists>o'. lm_objs m' (he_addr e) = Some o' \<and>
      hash_key_read ops m' (he_key e) = Some (keyof o') \<and> length (keyof o') = klen" by simp
  qed
  from find_spec [OF ob this] obtain r where r: "hash_find ops m' ?k (tab ! ?h) = Some r"
      "case r of None \<Rightarrow> \<forall>e\<in>set (tab ! ?h). \<not> hash_map keyof m' ?k (he_addr e)
       | Some e \<Rightarrow> e \<in> set (tab ! ?h) \<and> hash_map keyof m' ?k (he_addr e)"
    by blast
  have iff: "(\<exists>q. hash_map keyof m ?k q) \<longleftrightarrow> r \<noteq> None"
    using lookup_spec [OF ok ob] r(2) same [OF h(2)] by (auto simp: hash_map_def split: option.splits) blast
  have rd: "hash_key_read ops m' (p + key_off) = Some ?k" using key_read [of m' p ob] m' by simp
  show ?thesis
  proof (cases r)
    case (Some e)
    with iff rd h r(1) show ?thesis by (simp add: hash_add_def)
  next
    case None
    let ?e = "hash_entry_init p (p + key_off)"
    let ?tab = "tab[?h := ?e # tab ! ?h]"
    obtain C where C: "\<And>xs. mset (concat (tab[?h := xs])) = C + mset xs" "mset (concat tab) = C + mset (tab ! ?h)"
      using mset_concat_frame [OF h(2)] by blast
    then have ms: "mset (concat ?tab) = mset (?e # concat tab)" by simp
    have new: "keyof o' \<noteq> ?k" if "lm_objs m q = Some o'" for q o'
      using iff None that by (auto simp: hash_map_def)
    have "hash_ok keyof bucket key_off ?tab m' W"
      by (rule hash_ok_insert [OF _ m' mp p _ ms h(2)]) (use ok new in \<open>auto simp: hok_def\<close>)
    moreover have "\<forall>o'\<in>ran (lm_objs m'). length (keyof o') = klen"
      using ok ob m' p(1) by (auto simp: hok_def ran_def split: if_splits)
    ultimately have "hok ?tab m' W" by (simp add: hok_def)
    with None iff rd h r(1) show ?thesis by (simp add: hash_add_def)
  qed
qed

lemma delete_spec:
  assumes ok: "hok tab m W" and k: "length k = klen"
  shows "((\<exists>p. hash_map keyof m k p) \<longrightarrow> (\<exists>p tab' m'. hash_map keyof m k p \<and> hash_delete ops tab k m = Some (0, tab', m') \<and>
      lm_objs m' = (lm_objs m)(p := None) \<and> hok tab' m' W)) \<and>
    ((\<nexists>p. hash_map keyof m k p) \<longrightarrow> hash_delete ops tab k m = Some (-1, tab, m))"
proof -
  have l: "length tab = HASH_SIZE" using ok by (simp add: hok_def hash_ok_def)
  note h = head_spec [OF l k]
  obtain r where r: "hash_find ops m k (tab ! bucket k) = Some r"
      "case r of None \<Rightarrow> \<forall>p. \<not> hash_map keyof m k p
       | Some e \<Rightarrow> e \<in> set (tab ! bucket k) \<and> hash_map keyof m k (he_addr e)"
    using lookup_spec [OF ok k] by blast
  show ?thesis
  proof (cases r)
    case None
    with r h show ?thesis by (simp add: hash_delete_def)
  next
    case (Some e)
    then have e: "e \<in> set (tab ! bucket k)" "hash_map keyof m k (he_addr e)" using r(2) by auto
    then have "he_addr e \<in> mp_live (lm_pool m)" "mp_wf (lm_pool m)"
      using ok by (auto simp: hok_def hash_ok_def hash_map_def)
    then obtain mp where mp: "ufp_mem_free (lm_pool m) (he_addr e) = Some mp" "mp_wf mp"
        "mp_live mp = mp_live (lm_pool m) - {he_addr e}"
      using pool.release_live by blast
    let ?m = "m\<lparr>lm_pool := mp, lm_objs := (lm_objs m)(he_addr e := None)\<rparr>"
    let ?tab = "tab[bucket k := remove1 e (tab ! bucket k)]"
    have "hash_ok keyof bucket key_off ?tab ?m W"
      using hash_ok_remove [OF _ h(2) e(1) mp(2,3)] ok by (simp add: hok_def)
    moreover have "\<forall>ob\<in>ran (lm_objs ?m). length (keyof ob) = klen"
      using ok by (auto simp: hok_def ran_def split: if_splits)
    ultimately have "hok ?tab ?m W" by (simp add: hok_def)
    moreover have "hash_delete ops tab k m = Some (0, ?tab, ?m)"
      using r(1) Some h mp(1) by (simp add: hash_delete_def entry_delete)
    ultimately show ?thesis using e(2) by auto
  qed
qed

text \<open>Deleting everything frees every object once.\<close>

lemma delete_bucket_spec:
  assumes "mp_wf (lm_pool m)" "mp_live (lm_pool m) = W \<union> dom (lm_objs m)" "W \<inter> dom (lm_objs m) = {}"
    "distinct (map he_addr es)" "he_addr ` set es \<subseteq> dom (lm_objs m)"
  shows "\<exists>m'. hash_delete_bucket ops m es = Some m' \<and> mp_wf (lm_pool m') \<and>
    mp_live (lm_pool m') = W \<union> dom (lm_objs m') \<and> dom (lm_objs m') = dom (lm_objs m) - he_addr ` set es"
  using assms
proof (induction es arbitrary: m)
  case (Cons e es)
  have "he_addr e \<in> mp_live (lm_pool m)" using Cons.prems by auto
  then obtain mp where mp: "ufp_mem_free (lm_pool m) (he_addr e) = Some mp" "mp_wf mp"
      "mp_live mp = mp_live (lm_pool m) - {he_addr e}"
    using pool.release_live Cons.prems(1) by blast
  let ?m = "m\<lparr>lm_pool := mp, lm_objs := (lm_objs m)(he_addr e := None)\<rparr>"
  have live: "mp_wf (lm_pool ?m)" "mp_live (lm_pool ?m) = W \<union> dom (lm_objs ?m)" "W \<inter> dom (lm_objs ?m) = {}"
      "distinct (map he_addr es)"
    using mp Cons.prems(2-5) by auto
  have "he_addr ` set es \<subseteq> dom (lm_objs m) - {he_addr e}" using Cons.prems(4,5) by (simp add: subset_Diff_insert)
  then have "he_addr ` set es \<subseteq> dom (lm_objs ?m)" by simp
  from Cons.IH [OF live this] obtain m' where "hash_delete_bucket ops ?m es = Some m'" "mp_wf (lm_pool m')"
      "mp_live (lm_pool m') = W \<union> dom (lm_objs m')" "dom (lm_objs m') = dom (lm_objs ?m) - he_addr ` set es"
    by blast
  then show ?case using mp(1) by (simp add: entry_delete Diff_insert2 [symmetric])
qed simp

lemma delete_buckets_spec:
  assumes "mp_wf (lm_pool m)" "mp_live (lm_pool m) = W \<union> dom (lm_objs m)" "W \<inter> dom (lm_objs m) = {}"
    "distinct (map he_addr (concat bs))" "he_addr ` set (concat bs) = dom (lm_objs m)"
  shows "\<exists>m'. hash_delete_buckets ops m bs = Some m' \<and> mp_wf (lm_pool m') \<and> mp_live (lm_pool m') = W \<and>
    lm_objs m' = Map.empty"
  using assms
proof (induction bs arbitrary: m)
  case (Cons b bs)
  have d: "distinct (map he_addr b)" "he_addr ` set b \<subseteq> dom (lm_objs m)" using Cons.prems(4,5) by auto
  obtain m1 where m1: "hash_delete_bucket ops m b = Some m1" "mp_wf (lm_pool m1)"
      "mp_live (lm_pool m1) = W \<union> dom (lm_objs m1)" "dom (lm_objs m1) = dom (lm_objs m) - he_addr ` set b"
    using delete_bucket_spec [OF Cons.prems(1-3) d] by blast
  have "he_addr ` set b \<inter> he_addr ` set (concat bs) = {}"
    using Cons.prems(4) unfolding concat.simps map_append distinct_append list.set_map by blast
  then have "he_addr ` set (concat bs) = dom (lm_objs m1)"
    using Cons.prems(5) unfolding m1(4) concat.simps set_append image_Un by blast
  moreover have "W \<inter> dom (lm_objs m1) = {}" using Cons.prems(3) m1(4) by blast
  moreover have "distinct (map he_addr (concat bs))"
    using Cons.prems(4) unfolding concat.simps map_append distinct_append by blast
  ultimately show ?case using Cons.IH [OF m1(2,3)] m1(1) by simp
qed auto

lemma delete_all_spec:
  assumes "hok tab m W"
  shows "\<exists>tab' m'. hash_delete_all ops tab m = Some (tab', m') \<and> mp_wf (lm_pool m') \<and>
    mp_live (lm_pool m') = W \<and> lm_objs m' = Map.empty \<and> tab' = map (\<lambda>b. []) tab"
  using delete_buckets_spec [of m W tab] assms unfolding hok_def hash_ok_def
  by (auto simp: hash_delete_all_def simp del: set_concat)

end

end
