(* ===== verification/Neigh.thy ===== *)
theory Neigh
  imports Hash Fib
begin

text \<open>
  The neighbour table of the forwarding application (\<open>src/neigh.c\<close>, \<open>src/neigh.h\<close>): link-layer
  addresses by IP address, a client of the hash table.
\<close>

subsection \<open>Data\<close>

record neigh_entry =
  ne_dst_mac :: "u8 list"
  ne_dst_addr :: "u8 list"

record neigh_table =
  nt_addr :: addr
  nt_ops :: "neigh_entry hash_ops"
  nt_table :: hash_table

definition GOLDEN_RATIO_PRIME_32 :: u32 where
  "GOLDEN_RATIO_PRIME_32 = 0x9e370001"

definition GOLDEN_RATIO_PRIME_64 :: u64 where
  "GOLDEN_RATIO_PRIME_64 = 0x9e37fffffffc0001"

definition ETH_ALEN :: nat where
  "ETH_ALEN = 6"

text \<open>The offset of \<open>dst_addr\<close> in \<open>struct neigh_entry\<close>, and the sizes.\<close>

definition neigh_key_off :: nat where
  "neigh_key_off = 32"

definition sizeof_neigh_entry :: nat where
  "sizeof_neigh_entry = 48"

definition sizeof_neigh_table :: nat where
  "sizeof_neigh_table = 8 * HASH_SIZE + 3 * 8"

subsection \<open>Keys\<close>

text \<open>\<open>((uintN_t *)key)[i]\<close> on the little-endian machine: a fault when the bytes are not there.\<close>

definition le_load :: "nat \<Rightarrow> u8 list \<Rightarrow> nat \<Rightarrow> 'a :: len word option" where
  "le_load sz key i =
     (if (i + 1) * sz \<le> length key then Some (le_bytes (take sz (drop (i * sz) key))) else None)"

definition neigh_key_generate_v4 :: "u8 list \<Rightarrow> nat \<Rightarrow> u32 option" where
  "neigh_key_generate_v4 key bit_len =
     do {
       k \<leftarrow> le_load 4 key 0;
       let hash = k * GOLDEN_RATIO_PRIME_32;
       Some (drop_bit (32 - bit_len) hash)
     }"

definition neigh_key_generate_v6 :: "u8 list \<Rightarrow> nat \<Rightarrow> u32 option" where
  "neigh_key_generate_v6 key bit_len =
     do {
       k0 \<leftarrow> le_load 8 key 0;
       k1 \<leftarrow> le_load 8 key 1;
       let hash = (k0 :: u64) * k1;
       let hash = hash * GOLDEN_RATIO_PRIME_64;
       Some (ucast (drop_bit (64 - bit_len) hash))
     }"

definition neigh_key_compare_v4 :: "u8 list \<Rightarrow> u8 list \<Rightarrow> int option" where
  "neigh_key_compare_v4 key_tgt key_ent =
     do {
       t0 \<leftarrow> le_load 4 key_tgt 0;
       e0 \<leftarrow> le_load 4 key_ent 0;
       Some (if (t0 :: u32) XOR e0 \<noteq> 0 then 1 else 0)
     }"

definition neigh_key_compare_v6 :: "u8 list \<Rightarrow> u8 list \<Rightarrow> int option" where
  "neigh_key_compare_v6 key_tgt key_ent =
     do {
       t0 \<leftarrow> le_load 8 key_tgt 0;
       e0 \<leftarrow> le_load 8 key_ent 0;
       if (t0 :: u64) XOR e0 \<noteq> 0 then Some 1
       else do {
         t1 \<leftarrow> le_load 8 key_tgt 1;
         e1 \<leftarrow> le_load 8 key_ent 1;
         Some (if (t1 :: u64) XOR e1 \<noteq> 0 then 1 else 0)
       }
     }"

subsection \<open>Operations\<close>

definition neigh_entry_delete :: "neigh_entry lpm_mem \<Rightarrow> addr \<Rightarrow> neigh_entry lpm_mem option" where
  "neigh_entry_delete m entry =
     map_option (\<lambda>mp. m\<lparr>lm_pool := mp, lm_objs := (lm_objs m)(entry := None)\<rparr>)
       (ufp_mem_free (lm_pool m) entry)"

definition neigh_key_read :: "neigh_entry lpm_mem \<Rightarrow> addr \<Rightarrow> u8 list option" where
  "neigh_key_read m key =
     (if key < neigh_key_off then None
      else map_option ne_dst_addr (lm_objs m (key - neigh_key_off)))"

definition neigh_ops_v4 :: "neigh_entry hash_ops" where
  "neigh_ops_v4 = \<lparr>hash_entry_delete = neigh_entry_delete, hash_key_generate = neigh_key_generate_v4,
     hash_key_compare = neigh_key_compare_v4, hash_key_read = neigh_key_read\<rparr>"

definition neigh_ops_v6 :: "neigh_entry hash_ops" where
  "neigh_ops_v6 = \<lparr>hash_entry_delete = neigh_entry_delete, hash_key_generate = neigh_key_generate_v6,
     hash_key_compare = neigh_key_compare_v6, hash_key_read = neigh_key_read\<rparr>"

definition neigh_alloc :: "neigh_entry lpm_mem \<Rightarrow> int \<Rightarrow> (neigh_table option \<times> neigh_entry lpm_mem) option" where
  "neigh_alloc m family =
     (case ufp_mem_alloc (lm_pool m) sizeof_neigh_table of
        None \<Rightarrow> None
      | Some (None, mp) \<Rightarrow> Some (None, m\<lparr>lm_pool := mp\<rparr>)
      | Some (Some a, mp) \<Rightarrow>
          (if family = AF_INET then
             Some (Some \<lparr>nt_addr = a, nt_ops = neigh_ops_v4, nt_table = hash_init\<rparr>, m\<lparr>lm_pool := mp\<rparr>)
           else if family = AF_INET6 then
             Some (Some \<lparr>nt_addr = a, nt_ops = neigh_ops_v6, nt_table = hash_init\<rparr>, m\<lparr>lm_pool := mp\<rparr>)
           else map_option (\<lambda>m'. (None, m')) (lpm_mem_free (m\<lparr>lm_pool := mp\<rparr>) a)))"

definition neigh_release :: "neigh_table \<Rightarrow> neigh_entry lpm_mem \<Rightarrow> neigh_entry lpm_mem option" where
  "neigh_release neigh m =
     (case hash_delete_all (nt_ops neigh) (nt_table neigh) m of
        None \<Rightarrow> None
      | Some (tab, m1) \<Rightarrow> lpm_mem_free m1 (nt_addr neigh))"

definition neigh_add ::
  "neigh_table \<Rightarrow> int \<Rightarrow> bytes \<Rightarrow> bytes \<Rightarrow> neigh_entry lpm_mem \<Rightarrow> (int \<times> neigh_table \<times> neigh_entry lpm_mem) option" where
  "neigh_add neigh family dst_addr mac_addr m =
     (case ufp_mem_alloc (lm_pool m) sizeof_neigh_entry of
        None \<Rightarrow> None
      | Some (None, mp) \<Rightarrow> Some (-1, neigh, m\<lparr>lm_pool := mp\<rparr>)
      | Some (Some p, mp) \<Rightarrow>
          (let mac = map mac_addr [0 ..< ETH_ALEN];
               sz = (if family = AF_INET then Some 4 else if family = AF_INET6 then Some 16 else None)
           in case sz of
                None \<Rightarrow> map_option (\<lambda>m'. (-1, neigh, m')) (neigh_entry_delete (m\<lparr>lm_pool := mp\<rparr>) p)
              | Some n \<Rightarrow>
                  (let entry = \<lparr>ne_dst_mac = mac, ne_dst_addr = map dst_addr [0 ..< n]\<rparr>;
                       m1 = m\<lparr>lm_pool := mp, lm_objs := (lm_objs m)(p \<mapsto> entry)\<rparr>
                   in case hash_add (nt_ops neigh) (nt_table neigh) (p + neigh_key_off) p m1 of
                        None \<Rightarrow> None
                      | Some (ret, tab) \<Rightarrow>
                          (if ret < 0 then map_option (\<lambda>m'. (-1, neigh, m')) (neigh_entry_delete m1 p)
                           else Some (0, neigh\<lparr>nt_table := tab\<rparr>, m1)))))"

definition neigh_delete ::
  "neigh_table \<Rightarrow> u8 list \<Rightarrow> neigh_entry lpm_mem \<Rightarrow> (int \<times> neigh_table \<times> neigh_entry lpm_mem) option" where
  "neigh_delete neigh dst_addr m =
     map_option (\<lambda>(ret, tab, m'). (if ret < 0 then -1 else 0, neigh\<lparr>nt_table := tab\<rparr>, m'))
       (hash_delete (nt_ops neigh) (nt_table neigh) dst_addr m)"

definition neigh_lookup :: "neigh_table \<Rightarrow> u8 list \<Rightarrow> neigh_entry lpm_mem \<Rightarrow> addr option option" where
  "neigh_lookup neigh dst_addr m =
     map_option (map_option he_addr) (hash_lookup (nt_ops neigh) (nt_table neigh) dst_addr m)"

subsection \<open>The contract of the hash table's client\<close>

definition neigh_bucket_v4 :: "u8 list \<Rightarrow> nat" where
  "neigh_bucket_v4 k = unat (the (neigh_key_generate_v4 k HASH_BIT))"

definition neigh_bucket_v6 :: "u8 list \<Rightarrow> nat" where
  "neigh_bucket_v6 k = unat (the (neigh_key_generate_v6 k HASH_BIT))"

lemma le_load_eq_iff:
  assumes "8 * n \<le> LENGTH('a)" "(i + 1) * n \<le> length a" "(i + 1) * n \<le> length b"
  shows "(le_load n a i :: 'a::len word option) = le_load n b i \<longleftrightarrow>
    take n (drop (i * n) a) = take n (drop (i * n) b)"
proof -
  have l: "length (take n (drop (i * n) a)) = n" "length (take n (drop (i * n) b)) = n" using assms(2,3) by auto
  have "le_bytes (take n (drop (i * n) a)) = (le_bytes (take n (drop (i * n) b)) :: 'a word) \<longleftrightarrow>
      take n (drop (i * n) a) = take n (drop (i * n) b)"
    using l assms(1) by (intro le_bytes_eq_iff) simp_all
  then show ?thesis using assms(2,3) by (simp add: le_load_def)
qed

lemma le_load_some: "(i + 1) * n \<le> length k \<Longrightarrow> \<exists>w. le_load n k i = Some w"
  by (simp add: le_load_def)

lemma unat_drop_high: "unat (drop_bit (LENGTH('a) - 16) w) < 2 ^ 16" if "16 \<le> LENGTH('a)" for w :: "'a::len word"
proof -
  have "unat w < 2 ^ LENGTH('a)" by (rule unsigned_less)
  also have "(2::nat) ^ LENGTH('a) = 2 ^ 16 * 2 ^ (LENGTH('a) - 16)" 
    using that by (metis le_add_diff_inverse power_add)
  finally have "unat w div 2 ^ (LENGTH('a) - 16) < 2 ^ 16" by (rule less_mult_imp_div_less)
  moreover have "unat (drop_bit (LENGTH('a) - 16) w) = unat w div 2 ^ (LENGTH('a) - 16)"
    by (rule unat_drop_bit)
  ultimately show ?thesis by simp
qed

interpretation neigh4: hash_client neigh_ops_v4 ne_dst_addr neigh_bucket_v4 neigh_key_off 4
proof
  fix k k' :: "u8 list"
  assume k: "length k = 4"
  obtain w :: u32 where w: "le_load 4 k 0 = Some w" using le_load_some [of 0 4 k] k by auto
  show "\<exists>h. hash_key_generate neigh_ops_v4 k HASH_BIT = Some h \<and> unat h = neigh_bucket_v4 k \<and> neigh_bucket_v4 k < HASH_SIZE"
    using unat_drop_high [of "w * GOLDEN_RATIO_PRIME_32"] w
    by (simp add: neigh_ops_v4_def neigh_bucket_v4_def neigh_key_generate_v4_def HASH_BIT_def HASH_SIZE_def)
  assume k': "length k' = 4"
  obtain v :: u32 where v: "le_load 4 k' 0 = Some v" using le_load_some [of 0 4 k'] k' by auto
  have "w = v \<longleftrightarrow> k = k'" using le_load_eq_iff [where 'a = 32, of 4 0 k k'] w v k k' by simp
  then show "\<exists>c. hash_key_compare neigh_ops_v4 k k' = Some c \<and> (c = 0 \<longleftrightarrow> k = k')"
    using w v xor_zero_iff [of w v] by (auto simp: neigh_ops_v4_def neigh_key_compare_v4_def)
qed (auto simp: neigh_ops_v4_def neigh_key_read_def neigh_entry_delete_def)

interpretation neigh6: hash_client neigh_ops_v6 ne_dst_addr neigh_bucket_v6 neigh_key_off 16
proof
  fix k k' :: "u8 list"
  assume k: "length k = 16"
  obtain w0 w1 :: u64 where w: "le_load 8 k 0 = Some w0" "le_load 8 k 1 = Some w1"
    using le_load_some [of 0 8 k] le_load_some [of 1 8 k] k by auto
  let ?h = "drop_bit 48 (w0 * w1 * GOLDEN_RATIO_PRIME_64)"
  have lt: "unat ?h < 2 ^ 16" using unat_drop_high [of "w0 * w1 * GOLDEN_RATIO_PRIME_64"] by simp
  then have "unat (ucast ?h :: u32) = unat ?h" by (simp add: unsigned_ucast_eq take_bit_eq_mod)
  with lt w show "\<exists>h. hash_key_generate neigh_ops_v6 k HASH_BIT = Some h \<and> unat h = neigh_bucket_v6 k \<and> neigh_bucket_v6 k < HASH_SIZE"
    by (simp add: neigh_ops_v6_def neigh_bucket_v6_def neigh_key_generate_v6_def HASH_BIT_def HASH_SIZE_def)
  assume k': "length k' = 16"
  obtain v0 v1 :: u64 where v: "le_load 8 k' 0 = Some v0" "le_load 8 k' 1 = Some v1"
    using le_load_some [of 0 8 k'] le_load_some [of 1 8 k'] k' by auto
  have "w0 = v0 \<longleftrightarrow> take 8 k = take 8 k'" "w1 = v1 \<longleftrightarrow> drop 8 k = drop 8 k'"
    using le_load_eq_iff [where 'a = 64, of 8 0 k k'] le_load_eq_iff [where 'a = 64, of 8 1 k k'] w v k k' by simp_all
  then have "w0 = v0 \<and> w1 = v1 \<longleftrightarrow> k = k'" by (metis append_take_drop_id)
  then show "\<exists>c. hash_key_compare neigh_ops_v6 k k' = Some c \<and> (c = 0 \<longleftrightarrow> k = k')"
    using w v xor_zero_iff [of w0 v0] xor_zero_iff [of w1 v1] by (auto simp: neigh_ops_v6_def neigh_key_compare_v6_def)
qed (auto simp: neigh_ops_v6_def neigh_key_read_def neigh_entry_delete_def)

subsection \<open>The table stands for a map\<close>

definition neigh_family :: "neigh_table \<Rightarrow> int \<Rightarrow> bool" where
  "neigh_family neigh family \<longleftrightarrow>
     family = AF_INET \<and> nt_ops neigh = neigh_ops_v4 \<or> family = AF_INET6 \<and> nt_ops neigh = neigh_ops_v6"

definition addr_size :: "int \<Rightarrow> nat" where
  "addr_size family = (if family = AF_INET then 4 else 16)"

text \<open>The neighbour of an address: the address of the entry for it.\<close>

definition neigh_of :: "neigh_entry lpm_mem \<Rightarrow> u8 list \<Rightarrow> addr \<Rightarrow> bool" where
  "neigh_of m k p \<longleftrightarrow> (\<exists>e. lm_objs m p = Some e \<and> ne_dst_addr e = k)"

definition neigh_inv :: "neigh_table \<Rightarrow> int \<Rightarrow> neigh_entry lpm_mem \<Rightarrow> addr set \<Rightarrow> bool" where
  "neigh_inv neigh family m W \<longleftrightarrow> neigh_family neigh family \<and>
     hash_ok ne_dst_addr (if family = AF_INET then neigh_bucket_v4 else neigh_bucket_v6) neigh_key_off
       (nt_table neigh) m W \<and>
     (\<forall>e\<in>ran (lm_objs m). length (ne_dst_addr e) = addr_size family)"

lemma neigh_inv_cases:
  assumes "neigh_inv neigh family m W"
  obtains (v4) "family = AF_INET" "nt_ops neigh = neigh_ops_v4" "addr_size family = 4" "neigh4.hok (nt_table neigh) m W"
    | (v6) "family = AF_INET6" "nt_ops neigh = neigh_ops_v6" "addr_size family = 16" "neigh6.hok (nt_table neigh) m W"
  using assms by (auto simp: neigh_inv_def neigh_family_def neigh4.hok_def neigh6.hok_def addr_size_def AF_INET_def AF_INET6_def)

lemma neigh_invI:
  "family = AF_INET \<Longrightarrow> nt_ops neigh = neigh_ops_v4 \<Longrightarrow> neigh4.hok (nt_table neigh) m W \<Longrightarrow> neigh_inv neigh family m W"
  "family = AF_INET6 \<Longrightarrow> nt_ops neigh = neigh_ops_v6 \<Longrightarrow> neigh6.hok (nt_table neigh) m W \<Longrightarrow> neigh_inv neigh family m W"
  by (simp_all add: neigh_inv_def neigh_family_def neigh4.hok_def neigh6.hok_def addr_size_def AF_INET_def AF_INET6_def)

lemma hash_map_neigh: "hash_map ne_dst_addr = neigh_of"
  by (intro ext) (simp add: hash_map_def neigh_of_def)

lemma neigh_unique: "neigh_inv neigh family m W \<Longrightarrow> neigh_of m k p \<Longrightarrow> neigh_of m k q \<Longrightarrow> p = q"
  unfolding neigh_inv_def hash_ok_def neigh_of_def by metis

lemma neigh_size_ok: "mem_size_ok sizeof_neigh_table" "mem_size_ok sizeof_neigh_entry"
  by (simp_all add: mem_size_ok_def sizeof_neigh_table_def sizeof_neigh_entry_def HASH_SIZE_def HASH_BIT_def
      size_header_def size_t_mod_def)

lemma neigh_pool:
  assumes "neigh_inv neigh family m W"
  shows "mp_wf (lm_pool m)" "mp_live (lm_pool m) = W \<union> dom (lm_objs m)" "W \<inter> dom (lm_objs m) = {}"
  using assms by (auto simp: neigh_inv_def hash_ok_def)

text \<open>The table is new, and stays as it is when only the pool's bookkeeping changes.\<close>

lemma hash_init_ok:
  assumes "mp_wf (lm_pool m)" "mp_live (lm_pool m) = W" "lm_objs m = Map.empty"
  shows "hash_ok keyof bucket key_off hash_init m W"
  using assms by (simp add: hash_ok_def hash_init_def)

lemma neigh_inv_pool:
  assumes "neigh_inv neigh family m W" "mp_wf mp" "mp_live mp = mp_live (lm_pool m)"
  shows "neigh_inv neigh family (m\<lparr>lm_pool := mp\<rparr>) W"
  using assms by (simp add: neigh_inv_def hash_ok_def)

text \<open>An empty table on the example pool, and a table with one neighbour.\<close>

definition neigh_mem_ex :: "neigh_entry lpm_mem" where
  "neigh_mem_ex = \<lparr>lm_pool = pool_ex, lm_objs = Map.empty\<rparr>"

definition neigh_ex :: neigh_table where
  "neigh_ex = \<lparr>nt_addr = 0, nt_ops = neigh_ops_v4, nt_table = hash_init\<rparr>"

lemma neigh_ex_inv: "neigh_inv neigh_ex AF_INET neigh_mem_ex {}"
  using hash_init_ok [of neigh_mem_ex "{}"] pool_ex_wf
  by (simp add: neigh_inv_def neigh_family_def neigh_ex_def neigh_mem_ex_def)

lemma neigh_ex_alloc: "\<exists>mp. ufp_mem_alloc (lm_pool neigh_mem_ex) sizeof_neigh_entry = Some (Some 4104, mp)"
  by (simp add: neigh_mem_ex_def sizeof_neigh_entry_def ufp_mem_alloc_def mem_alloc_at_def pool_ex_def
      size_header_def size_t_mod_def ufp_mem_alloc_node.simps mem_split_def ufp_mnode_alloc_def Let_def)

lemma neigh_one_ex:
  "\<exists>neigh m W. neigh_inv neigh AF_INET m W \<and> neigh_of m [10, 0, 0, 1] 4104"
proof -
  let ?e = "\<lparr>ne_dst_mac = replicate 6 1, ne_dst_addr = [10, 0, 0, 1]\<rparr>"
  obtain mp where a: "ufp_mem_alloc (lm_pool neigh_mem_ex) sizeof_neigh_entry = Some (Some 4104, mp)"
    using neigh_ex_alloc by blast
  let ?m = "neigh_mem_ex\<lparr>lm_pool := mp, lm_objs := (lm_objs neigh_mem_ex)(4104 \<mapsto> ?e)\<rparr>"
  have mp: "mp_wf mp" "mp_live mp = insert 4104 (mp_live (lm_pool neigh_mem_ex))"
    using pool.alloc_fresh [OF neigh_pool(1) [OF neigh_ex_inv] neigh_size_ok(2) a] by auto
  have ok: "neigh4.hok (nt_table neigh_ex) neigh_mem_ex {}"
    using neigh_ex_inv by (simp add: neigh_inv_def neigh4.hok_def addr_size_def)
  have "\<nexists>q. neigh_of neigh_mem_ex [10, 0, 0, 1] q" by (simp add: neigh_of_def neigh_mem_ex_def)
  moreover have e: "4104 \<notin> dom (lm_objs neigh_mem_ex)" "4104 \<notin> ({} :: addr set)" "length (ne_dst_addr ?e) = 4"
    by (simp_all add: neigh_mem_ex_def)
  ultimately obtain tab where "neigh4.hok tab ?m {}"
    using neigh4.add_spec [OF ok e refl mp] unfolding hash_map_neigh neigh_entry.simps by blast
  then have "neigh_inv (neigh_ex\<lparr>nt_table := tab\<rparr>) AF_INET ?m {}"
    by (intro neigh_invI) (simp_all add: neigh_ex_def)
  moreover have "neigh_of ?m [10, 0, 0, 1] 4104" by (simp add: neigh_of_def)
  ultimately show ?thesis by blast
qed

subsection \<open>Properties\<close>

lemma neigh_lookup_spec:
  assumes "neigh_inv neigh family m W" "length k = addr_size family"
  shows "\<exists>r. neigh_lookup neigh k m = Some r \<and> (\<forall>p. r = Some p \<longleftrightarrow> neigh_of m k p)"
proof -
  have "\<exists>r. hash_lookup (nt_ops neigh) (nt_table neigh) k m = Some r \<and>
      (case r of None \<Rightarrow> \<forall>p. \<not> neigh_of m k p | Some e \<Rightarrow> neigh_of m k (he_addr e))"
    using assms(1)
  proof (cases rule: neigh_inv_cases)
    case v4
    from neigh4.lookup_spec [OF v4(4), of k] assms(2) v4(2,3) show ?thesis
      unfolding hash_map_neigh by (fastforce split: option.splits)
  next
    case v6
    from neigh6.lookup_spec [OF v6(4), of k] assms(2) v6(2,3) show ?thesis
      unfolding hash_map_neigh by (fastforce split: option.splits)
  qed
  then obtain r where r: "hash_lookup (nt_ops neigh) (nt_table neigh) k m = Some r"
      "case r of None \<Rightarrow> \<forall>p. \<not> neigh_of m k p | Some e \<Rightarrow> neigh_of m k (he_addr e)"
    by blast
  then show ?thesis
    using neigh_unique [OF assms(1)] by (cases r) (auto simp: neigh_lookup_def)
qed

text \<open>C9. Looking up a neighbour. For an address of the table's family the lookup never faults (no
  bucket index out of range, no key read past its end); it returns the entry for that address when
  there is one, and none otherwise.\<close>

theorem neigh_lookup_correct:
  assumes "neigh_inv neigh family m W" "length k = addr_size family"
  shows "\<exists>r. neigh_lookup neigh k m = Some r \<and> (\<forall>p. r = Some p \<longleftrightarrow> neigh_of m k p)"
  using assms by (rule neigh_lookup_spec)

theorem neigh_lookup_correct_witness:
  "\<exists>neigh m W. neigh_inv neigh AF_INET m W \<and> neigh_lookup neigh [10, 0, 0, 1] m = Some (Some 4104)"
proof -
  obtain neigh m W where inv: "neigh_inv neigh AF_INET m W" and of1: "neigh_of m [10, 0, 0, 1] 4104"
    using neigh_one_ex by blast
  have "length [10, 0, 0, 1 :: u8] = addr_size AF_INET" by (simp add: addr_size_def)
  from neigh_lookup_correct [OF inv this] inv of1 show ?thesis by metis
qed

lemma neigh_add_spec:
  assumes "neigh_inv neigh family m W"
    "ufp_mem_alloc (lm_pool m) sizeof_neigh_entry = Some (Some p, mp)"
  shows "\<exists>ret neigh' m'. neigh_add neigh family dst mac m = Some (ret, neigh', m') \<and>
    neigh_inv neigh' family m' W \<and>
    (if \<exists>q. neigh_of m (map dst [0 ..< addr_size family]) q
     then ret = -1 \<and> lm_objs m' = lm_objs m \<and> mp_live (lm_pool m') = mp_live (lm_pool m)
     else ret = 0 \<and> lm_objs m' = (lm_objs m)(p \<mapsto>
       \<lparr>ne_dst_mac = map mac [0 ..< ETH_ALEN], ne_dst_addr = map dst [0 ..< addr_size family]\<rparr>))"
proof -
  let ?e = "\<lparr>ne_dst_mac = map mac [0 ..< ETH_ALEN], ne_dst_addr = map dst [0 ..< addr_size family]\<rparr>"
  let ?m1 = "m\<lparr>lm_pool := mp, lm_objs := (lm_objs m)(p \<mapsto> ?e)\<rparr>"
  note P = neigh_pool [OF assms(1)]
  have mp: "mp_wf mp" "mp_live mp = insert p (mp_live (lm_pool m))" "p \<notin> dom (lm_objs m)" "p \<notin> W"
    using pool.alloc_fresh [OF P(1) neigh_size_ok(2) assms(2)] P(2) by auto
  have add: "((\<exists>q. neigh_of m (map dst [0 ..< addr_size family]) q) \<longrightarrow>
      hash_add (nt_ops neigh) (nt_table neigh) (p + neigh_key_off) p ?m1 = Some (-1, nt_table neigh)) \<and>
    ((\<nexists>q. neigh_of m (map dst [0 ..< addr_size family]) q) \<longrightarrow>
      (\<exists>tab'. hash_add (nt_ops neigh) (nt_table neigh) (p + neigh_key_off) p ?m1 = Some (0, tab') \<and>
        neigh_inv (neigh\<lparr>nt_table := tab'\<rparr>) family ?m1 W))"
    using assms(1)
  proof (cases rule: neigh_inv_cases)
    case v4
    have "length (ne_dst_addr ?e) = 4" using v4(3) by simp
    note sp = neigh4.add_spec [OF v4(4) mp(3,4) this refl mp(1,2), unfolded hash_map_neigh neigh_entry.simps]
    have "neigh4.hok tab m' W \<Longrightarrow> neigh_inv (neigh\<lparr>nt_table := tab\<rparr>) family m' W" for tab m'
      using v4(2) by (intro neigh_invI(1) [OF v4(1)]) simp_all
    with sp show ?thesis unfolding v4(2) by blast
  next
    case v6
    have "length (ne_dst_addr ?e) = 16" using v6(3) by simp
    note sp = neigh6.add_spec [OF v6(4) mp(3,4) this refl mp(1,2), unfolded hash_map_neigh neigh_entry.simps]
    have "neigh6.hok tab m' W \<Longrightarrow> neigh_inv (neigh\<lparr>nt_table := tab\<rparr>) family m' W" for tab m'
      using v6(2) by (intro neigh_invI(2) [OF v6(1)]) simp_all
    with sp show ?thesis unfolding v6(2) by blast
  qed
  have sz: "(if family = AF_INET then Some 4 else if family = AF_INET6 then Some 16 else None) = Some (addr_size family)"
    using assms(1) by (auto simp: neigh_inv_def neigh_family_def addr_size_def)
  have unfold: "neigh_add neigh family dst mac m =
      (case hash_add (nt_ops neigh) (nt_table neigh) (p + neigh_key_off) p ?m1 of
         None \<Rightarrow> None
       | Some (ret, tab) \<Rightarrow>
           (if ret < 0 then map_option (\<lambda>m'. (-1, neigh, m')) (neigh_entry_delete ?m1 p)
            else Some (0, neigh\<lparr>nt_table := tab\<rparr>, ?m1)))"
    by (simp only: neigh_add_def Let_def assms(2) sz option.case prod.case)
  show ?thesis
  proof (cases "\<exists>q. neigh_of m (map dst [0 ..< addr_size family]) q")
    case True
    obtain mp' where mp': "ufp_mem_free mp p = Some mp'" "mp_wf mp'" "mp_live mp' = mp_live mp - {p}"
      using pool.release_live [OF mp(1), of p] mp(2) by auto
    then have live: "mp_live mp' = mp_live (lm_pool m)" using mp(2-4) P(2) by auto
    have "neigh_entry_delete ?m1 p = Some (m\<lparr>lm_pool := mp'\<rparr>)"
      using mp'(1) mp(3) by (auto simp: neigh_entry_delete_def fun_upd_idem domIff)
    with True add unfold neigh_inv_pool [OF assms(1) mp'(2) live] live show ?thesis by simp
  next
    case False
    with add unfold show ?thesis by auto
  qed
qed

text \<open>C10. Adding a neighbour. With enough memory the call never faults. For an address without an entry it
  returns 0 and the table has one entry more, with this address and this link-layer address; for an
  address that has an entry it returns -1 and the objects are what they were, the new block being
  given back.\<close>

theorem neigh_add_correct:
  assumes "neigh_inv neigh family m W"
    "ufp_mem_alloc (lm_pool m) sizeof_neigh_entry = Some (Some p, mp)"
  shows "\<exists>ret neigh' m'. neigh_add neigh family dst mac m = Some (ret, neigh', m') \<and>
    neigh_inv neigh' family m' W \<and>
    (if \<exists>q. neigh_of m (map dst [0 ..< addr_size family]) q
     then ret = -1 \<and> lm_objs m' = lm_objs m \<and> mp_live (lm_pool m') = mp_live (lm_pool m)
     else ret = 0 \<and> lm_objs m' = (lm_objs m)(p \<mapsto>
       \<lparr>ne_dst_mac = map mac [0 ..< ETH_ALEN], ne_dst_addr = map dst [0 ..< addr_size family]\<rparr>))"
  using assms by (rule neigh_add_spec)

theorem neigh_add_correct_witness:
  "\<exists>neigh' m'. neigh_add neigh_ex AF_INET net_ex net_ex neigh_mem_ex = Some (0, neigh', m') \<and>
     neigh_inv neigh' AF_INET m' {} \<and> dom (lm_objs m') = {4104}"
proof -
  obtain mp where a: "ufp_mem_alloc (lm_pool neigh_mem_ex) sizeof_neigh_entry = Some (Some 4104, mp)"
    using neigh_ex_alloc by blast
  have "\<nexists>q. neigh_of neigh_mem_ex (map net_ex [0 ..< addr_size AF_INET]) q"
    by (simp add: neigh_of_def neigh_mem_ex_def)
  with neigh_add_correct [OF neigh_ex_inv a, of net_ex net_ex] show ?thesis
    by (auto simp: neigh_mem_ex_def)
qed

lemma neigh_delete_spec:
  assumes "neigh_inv neigh family m W" "length k = addr_size family"
  shows "if \<exists>p. neigh_of m k p
    then \<exists>p neigh' m'. neigh_of m k p \<and> neigh_delete neigh k m = Some (0, neigh', m') \<and>
      lm_objs m' = (lm_objs m)(p := None) \<and> neigh_inv neigh' family m' W \<and>
      mp_live (lm_pool m') = mp_live (lm_pool m) - {p}
    else neigh_delete neigh k m = Some (-1, neigh, m)"
proof -
  have del: "((\<exists>p. neigh_of m k p) \<longrightarrow> (\<exists>p tab' m'. neigh_of m k p \<and>
      hash_delete (nt_ops neigh) (nt_table neigh) k m = Some (0, tab', m') \<and>
      lm_objs m' = (lm_objs m)(p := None) \<and> neigh_inv (neigh\<lparr>nt_table := tab'\<rparr>) family m' W)) \<and>
    ((\<nexists>p. neigh_of m k p) \<longrightarrow>
      hash_delete (nt_ops neigh) (nt_table neigh) k m = Some (-1, nt_table neigh, m))"
    using assms(1)
  proof (cases rule: neigh_inv_cases)
    case v4
    have "length k = 4" using v4(3) assms(2) by simp
    note sp = neigh4.delete_spec [OF v4(4) this, unfolded hash_map_neigh]
    have "neigh4.hok tab m' W \<Longrightarrow> neigh_inv (neigh\<lparr>nt_table := tab\<rparr>) family m' W" for tab m'
      using v4(2) by (intro neigh_invI(1) [OF v4(1)]) simp_all
    with sp show ?thesis unfolding v4(2) by blast
  next
    case v6
    have "length k = 16" using v6(3) assms(2) by simp
    note sp = neigh6.delete_spec [OF v6(4) this, unfolded hash_map_neigh]
    have "neigh6.hok tab m' W \<Longrightarrow> neigh_inv (neigh\<lparr>nt_table := tab\<rparr>) family m' W" for tab m'
      using v6(2) by (intro neigh_invI(2) [OF v6(1)]) simp_all
    with sp show ?thesis unfolding v6(2) by blast
  qed
  show ?thesis
  proof (cases "\<exists>p. neigh_of m k p")
    case True
    with del obtain p tab' m' where r: "neigh_of m k p"
        "hash_delete (nt_ops neigh) (nt_table neigh) k m = Some (0, tab', m')"
        "lm_objs m' = (lm_objs m)(p := None)" "neigh_inv (neigh\<lparr>nt_table := tab'\<rparr>) family m' W"
      by blast
    have "p \<in> dom (lm_objs m)" using r(1) by (auto simp: neigh_of_def)
    then have "mp_live (lm_pool m') = mp_live (lm_pool m) - {p}"
      using neigh_pool(2) [OF r(4)] neigh_pool(2,3) [OF assms(1)] r(3) by auto
    with True r show ?thesis by (auto simp: neigh_delete_def)
  qed (use del in \<open>auto simp: neigh_delete_def split: if_splits\<close>)
qed

text \<open>C11. Deleting a neighbour never faults: it returns 0 and removes exactly the entry of that address, whose
  block goes back to the pool, or -1 with nothing changed when there is none.\<close>

theorem neigh_delete_correct:
  assumes "neigh_inv neigh family m W" "length k = addr_size family"
  shows "if \<exists>p. neigh_of m k p
    then \<exists>p neigh' m'. neigh_of m k p \<and> neigh_delete neigh k m = Some (0, neigh', m') \<and>
      lm_objs m' = (lm_objs m)(p := None) \<and> neigh_inv neigh' family m' W \<and>
      mp_live (lm_pool m') = mp_live (lm_pool m) - {p}
    else neigh_delete neigh k m = Some (-1, neigh, m)"
  using assms by (rule neigh_delete_spec)

theorem neigh_delete_correct_witness:
  "\<exists>neigh m W neigh' m'. neigh_inv neigh AF_INET m W \<and> neigh_of m [10, 0, 0, 1] 4104 \<and>
     neigh_delete neigh [10, 0, 0, 1] m = Some (0, neigh', m') \<and> lm_objs m' 4104 = None"
proof -
  obtain neigh m W where inv: "neigh_inv neigh AF_INET m W" and of1: "neigh_of m [10, 0, 0, 1] 4104"
    using neigh_one_ex by blast
  have l: "length [10, 0, 0, 1 :: u8] = addr_size AF_INET" by (simp add: addr_size_def)
  have ex: "\<exists>p. neigh_of m [10, 0, 0, 1] p" using of1 by blast
  from neigh_delete_correct [OF inv l] ex obtain p neigh' m' where
    "neigh_of m [10, 0, 0, 1] p" "neigh_delete neigh [10, 0, 0, 1] m = Some (0, neigh', m')"
    "lm_objs m' = (lm_objs m)(p := None)"
    by auto
  moreover from this(1) have "p = 4104" using neigh_unique [OF inv _ of1] by blast
  ultimately show ?thesis using inv of1 by fastforce
qed

end
