(* ===== verification/Ufp_Io.thy ===== *)
theory Ufp_Io
  imports Ufp_Prelude
begin

text \<open>
  Packet input and output of the library, \<open>lib/lib_io.c\<close>, and the accessors of \<open>lib/lib_api.c\<close>.

  A thread owns a plane (an array of ports, each with a receive and a transmit ring of its own) and
  a buffer area cut into slots. A ring is kept with the array of descriptors its address stands
  for, \<open>ring_mem\<close>, whose elements are a parameter: their layout belongs to the device driver, and so
  do the operations that \<open>port->ops\<close> points to. Writes to device registers are returned as the list
  of pairs of address and value in the order in which they are made.
\<close>

subsection \<open>Data\<close>

record 'd ufp_ring =
  ring_addr_virt :: addr
  ring_addr_dma :: u64
  tail :: addr
  next_to_use :: u16
  next_to_clean :: u16
  slot_index :: "int list"
  ring_mem :: "'d list"

definition UFP_SLOT_INFLIGHT :: int where
  "UFP_SLOT_INFLIGHT = 0x1"

record ufp_buf =
  buf_addr_virt :: addr
  buf_addr_dma :: u64
  buf_slot_size :: u32
  buf_size :: u64
  buf_count :: u32
  slots :: "int list"

record ufp_packet =
  pkt_slot_buf :: addr
  pkt_slot_size :: u32
  pkt_slot_index :: int
  pkt_flag :: u32

definition UFP_PACKET_ERROR :: u32 where
  "UFP_PACKET_ERROR = 0x00000001"

definition UFP_PACKET_EOF :: u32 where
  "UFP_PACKET_EOF = 0x00000002"

record ufp_irq =
  irq_fd :: int
  irq_entry_idx :: u16
  irq_vector :: u32

type_synonym mmio = "(addr \<times> u32) list"

text \<open>
  The forwarding half of \<open>struct ufp_ops\<close>. An operation that touches a descriptor outside of the
  ring's memory is undefined.
\<close>

record 'd ufp_ops =
  unmask_queues :: "addr \<Rightarrow> u16 \<Rightarrow> mmio"
  fill_rx_desc :: "'d ufp_ring \<Rightarrow> u16 \<Rightarrow> u64 \<Rightarrow> 'd ufp_ring option"
  fetch_rx_desc :: "'d ufp_ring \<Rightarrow> u16 \<Rightarrow> ufp_packet \<Rightarrow> (int \<times> ufp_packet) option"
  fill_tx_desc :: "'d ufp_ring \<Rightarrow> u16 \<Rightarrow> u64 \<Rightarrow> ufp_packet \<Rightarrow> 'd ufp_ring option"
  fetch_tx_desc :: "'d ufp_ring \<Rightarrow> u16 \<Rightarrow> int option"

record 'd ufp_port =
  port_bar :: addr
  port_ops :: "'d ufp_ops"
  port_dev_idx :: u32
  rx_ring :: "'d ufp_ring"
  tx_ring :: "'d ufp_ring"
  rx_irq :: ufp_irq
  tx_irq :: ufp_irq
  port_mtu_frame :: u32
  num_tx_desc :: u32
  num_rx_desc :: u32
  port_num_qps :: u32
  rx_budget :: u32
  tx_budget :: u32
  port_mac_addr :: "u8 list"
  port_tap_fd :: int
  port_tap_index :: int
  rx_slot_next :: u32
  rx_slot_offset :: u32
  tx_suspended :: u32
  count_rx_alloc_failed :: u64
  count_rx_clean_total :: u64
  count_tx_xmit_failed :: u64
  count_tx_clean_total :: u64

record 'd ufp_plane =
  ports :: "'d ufp_port list"
  num_ports :: u16

text \<open>The port at an index, undefined outside of the array.\<close>

definition plane_port :: "'d ufp_plane \<Rightarrow> nat \<Rightarrow> 'd ufp_port option" where
  "plane_port plane port_idx =
     (if port_idx < length (ports plane) then Some (ports plane ! port_idx) else None)"

definition plane_set_port :: "'d ufp_plane \<Rightarrow> nat \<Rightarrow> 'd ufp_port \<Rightarrow> 'd ufp_plane" where
  "plane_set_port plane port_idx port = plane\<lparr>ports := (ports plane)[port_idx := port]\<rparr>"

subsection \<open>Rings\<close>

definition ufp_desc_unused :: "'d ufp_ring \<Rightarrow> u16 \<Rightarrow> u16" where
  "ufp_desc_unused ring num_desc =
     (let ntc = next_to_clean ring; ntu = next_to_use ring in
      if ntc > ntu then ntc - ntu - 1 else (num_desc - ntu) + ntc - 1)"

definition ufp_write_tail :: "'d ufp_ring \<Rightarrow> u32 \<Rightarrow> mmio" where
  "ufp_write_tail ring value = [(tail ring, value)]"

text \<open>The step of \<open>next_to_use\<close> and \<open>next_to_clean\<close>, on 16 bits and then around the ring.\<close>

definition ring_next :: "u16 \<Rightarrow> u32 \<Rightarrow> u16" where
  "ring_next idx num_desc =
     (let next = idx + 1 in if (ucast next :: u32) < num_desc then next else 0)"

definition ufp_slot_attach :: "'d ufp_ring \<Rightarrow> u16 \<Rightarrow> int \<Rightarrow> 'd ufp_ring option" where
  "ufp_slot_attach ring desc_index si =
     (if unat desc_index < length (slot_index ring)
      then Some (ring\<lparr>slot_index := (slot_index ring)[unat desc_index := si]\<rparr>) else None)"

definition ufp_slot_detach :: "'d ufp_ring \<Rightarrow> u16 \<Rightarrow> int option" where
  "ufp_slot_detach ring desc_index =
     (if unat desc_index < length (slot_index ring)
      then Some (slot_index ring ! unat desc_index) else None)"

subsection \<open>Slots\<close>

text \<open>
  The search of \<open>ufp_slot_assign\<close>: the outer option is the access outside of \<open>buf->slots\<close>, the inner
  one the search without a result. The first argument is the number of iterations left.
\<close>

fun slot_assign_find :: "nat \<Rightarrow> ufp_buf \<Rightarrow> u32 \<Rightarrow> u32 \<Rightarrow> (u32 \<times> int) option option" where
  "slot_assign_find 0 buf offset slot_next = Some None"
| "slot_assign_find (Suc i) buf offset slot_next =
     (let si = sint (offset + slot_next) in
      if 0 \<le> si \<and> nat si < length (slots buf)
      then if (slots buf ! nat si) AND UFP_SLOT_INFLIGHT = 0 then Some (Some (slot_next, si))
           else slot_assign_find i buf offset
                  (if slot_next + 1 = buf_count buf then 0 else slot_next + 1)
      else None)"

definition ufp_slot_assign ::
  "ufp_buf \<Rightarrow> 'd ufp_port \<Rightarrow> (int \<times> ufp_buf \<times> 'd ufp_port) option" where
  "ufp_slot_assign buf port =
     (case slot_assign_find (unat (buf_count buf)) buf (rx_slot_offset port) (rx_slot_next port) of
        None \<Rightarrow> None
      | Some None \<Rightarrow> Some (-1, buf, port)
      | Some (Some (slot_next, si)) \<Rightarrow>
          Some (si, buf\<lparr>slots := (slots buf)[nat si := (slots buf ! nat si) OR UFP_SLOT_INFLIGHT]\<rparr>,
                port\<lparr>rx_slot_next :=
                  (if slot_next + 1 = buf_count buf then 0 else slot_next + 1)\<rparr>))"

definition ufp_slot_release :: "ufp_buf \<Rightarrow> int \<Rightarrow> ufp_buf option" where
  "ufp_slot_release buf si =
     (if 0 \<le> si \<and> nat si < length (slots buf)
      then Some (buf\<lparr>slots := (slots buf)[nat si := 0]\<rparr>) else None)"

text \<open>
  The offset of a slot is a product of 32 bits. \<open>ufp_slot_addr_virt\<close> takes the index as 16 bits.
\<close>

definition ufp_slot_addr_dma :: "ufp_buf \<Rightarrow> int \<Rightarrow> u64" where
  "ufp_slot_addr_dma buf si =
     buf_addr_dma buf + ucast (buf_slot_size buf * (of_int si :: u32))"

definition ufp_slot_addr_virt :: "ufp_buf \<Rightarrow> u16 \<Rightarrow> addr" where
  "ufp_slot_addr_virt buf si =
     buf_addr_virt buf + unat (buf_slot_size buf * (ucast si :: u32))"

definition ufp_slot_size :: "ufp_buf \<Rightarrow> u32" where
  "ufp_slot_size buf = buf_slot_size buf"

subsection \<open>Receiving and sending\<close>

definition ufp_irq_unmask_queues :: "'d ufp_plane \<Rightarrow> nat \<Rightarrow> ufp_irq \<Rightarrow> mmio option" where
  "ufp_irq_unmask_queues plane port_idx irq =
     do { port \<leftarrow> plane_port plane port_idx;
          Some (unmask_queues (port_ops port) (port_bar port) (irq_entry_idx irq)) }"

text \<open>
  One turn of the loop of \<open>ufp_rx_assign\<close> after a slot was found, and the loop itself; its first
  argument is \<open>max_allocation - total_allocated\<close>.
\<close>

definition rx_assign_slot ::
  "ufp_buf \<Rightarrow> 'd ufp_port \<Rightarrow> int \<Rightarrow> 'd ufp_port option" where
  "rx_assign_slot buf port si =
     do { let ring = rx_ring port;
          let addr_dma = ufp_slot_addr_dma buf si;
          ring \<leftarrow> fill_rx_desc (port_ops port) ring (next_to_use ring) addr_dma;
          ring \<leftarrow> ufp_slot_attach ring (next_to_use ring) si;
          Some (port\<lparr>rx_ring :=
            ring\<lparr>next_to_use := ring_next (next_to_use ring) (num_rx_desc port)\<rparr>\<rparr>) }"

fun rx_assign_loop ::
  "nat \<Rightarrow> 'd ufp_port \<Rightarrow> ufp_buf \<Rightarrow> ('d ufp_port \<times> ufp_buf \<times> nat) option" where
  "rx_assign_loop 0 port buf = Some (port, buf, 0)"
| "rx_assign_loop (Suc left) port buf =
     do { (si, buf, port) \<leftarrow> ufp_slot_assign buf port;
          if si < 0
          then Some (port\<lparr>count_rx_alloc_failed :=
                       count_rx_alloc_failed port + of_nat (Suc left)\<rparr>, buf, 0)
          else do { port \<leftarrow> rx_assign_slot buf port si;
                    (port, buf, tot) \<leftarrow> rx_assign_loop left port buf;
                    Some (port, buf, Suc tot) } }"

definition ufp_rx_assign ::
  "'d ufp_plane \<Rightarrow> nat \<Rightarrow> ufp_buf \<Rightarrow> ('d ufp_plane \<times> ufp_buf \<times> mmio) option" where
  "ufp_rx_assign plane port_idx buf =
     do { port \<leftarrow> plane_port plane port_idx;
          let max_allocation = ufp_desc_unused (rx_ring port) (ucast (num_rx_desc port));
          if max_allocation = 0 then Some (plane, buf, [])
          else do { (port, buf, tot) \<leftarrow> rx_assign_loop (unat max_allocation) port buf;
                    Some (plane_set_port plane port_idx port, buf,
                      if tot \<noteq> 0
                      then ufp_write_tail (rx_ring port) (ucast (next_to_use (rx_ring port)))
                      else []) } }"

definition ufp_tx_assign ::
  "'d ufp_plane \<Rightarrow> nat \<Rightarrow> ufp_buf \<Rightarrow> ufp_packet \<Rightarrow> ('d ufp_plane \<times> ufp_buf) option" where
  "ufp_tx_assign plane port_idx buf packet =
     do { port \<leftarrow> plane_port plane port_idx;
          let ring = tx_ring port;
          if ufp_desc_unused ring (ucast (num_tx_desc port)) = 0
          then do { buf \<leftarrow> ufp_slot_release buf (pkt_slot_index packet);
                    Some (plane_set_port plane port_idx
                      (port\<lparr>count_tx_xmit_failed := count_tx_xmit_failed port + 1\<rparr>), buf) }
          else do {
            let addr_dma = ufp_slot_addr_dma buf (pkt_slot_index packet);
            ring \<leftarrow> fill_tx_desc (port_ops port) ring (next_to_use ring) addr_dma packet;
            ring \<leftarrow> ufp_slot_attach ring (next_to_use ring) (pkt_slot_index packet);
            let ring = ring\<lparr>next_to_use := ring_next (next_to_use ring) (num_tx_desc port)\<rparr>;
            Some (plane_set_port plane port_idx
              (port\<lparr>tx_ring := ring, tx_suspended := tx_suspended port + 1\<rparr>), buf) } }"

definition ufp_tx_xmit :: "'d ufp_plane \<Rightarrow> nat \<Rightarrow> ('d ufp_plane \<times> mmio) option" where
  "ufp_tx_xmit plane port_idx =
     do { port \<leftarrow> plane_port plane port_idx;
          if tx_suspended port \<noteq> 0
          then Some (plane_set_port plane port_idx (port\<lparr>tx_suspended := 0\<rparr>),
                     ufp_write_tail (tx_ring port) (ucast (next_to_use (tx_ring port))))
          else Some (plane, []) }"

text \<open>
  The loop of \<open>ufp_rx_clean\<close>, with \<open>rx_budget - total_rx_packets\<close> first and the index
  \<open>total_rx_packets\<close> into the caller's array of packets second.
\<close>

fun rx_clean_loop ::
  "nat \<Rightarrow> nat \<Rightarrow> 'd ufp_port \<Rightarrow> ufp_buf \<Rightarrow> ufp_packet list \<Rightarrow>
   ('d ufp_port \<times> ufp_packet list \<times> nat) option" where
  "rx_clean_loop 0 tot port buf packet = Some (port, packet, tot)"
| "rx_clean_loop (Suc left) tot port buf packet =
     (let ring = rx_ring port; ntc = next_to_clean ring in
      if ntc = next_to_use ring then Some (port, packet, tot)
      else if \<not> tot < length packet then None
      else do {
        (err, p) \<leftarrow> fetch_rx_desc (port_ops port) ring ntc (packet ! tot);
        if err < 0 then Some (port, packet[tot := p], tot)
        else do {
          si \<leftarrow> ufp_slot_detach ring ntc;
          let p = p\<lparr>pkt_slot_index := si, pkt_slot_buf := ufp_slot_addr_virt buf (of_int si)\<rparr>;
          let port = port\<lparr>rx_ring := ring\<lparr>next_to_clean := ring_next ntc (num_rx_desc port)\<rparr>\<rparr>;
          rx_clean_loop left (Suc tot) port buf (packet[tot := p]) } })"

definition ufp_rx_clean ::
  "'d ufp_plane \<Rightarrow> nat \<Rightarrow> ufp_buf \<Rightarrow> ufp_packet list \<Rightarrow>
   ('d ufp_plane \<times> ufp_packet list \<times> nat) option" where
  "ufp_rx_clean plane port_idx buf packet =
     do { port \<leftarrow> plane_port plane port_idx;
          (port, packet, tot) \<leftarrow> rx_clean_loop (unat (rx_budget port)) 0 port buf packet;
          Some (plane_set_port plane port_idx
            (port\<lparr>count_rx_clean_total := count_rx_clean_total port + of_nat tot\<rparr>),
            packet, tot) }"

fun tx_clean_loop ::
  "nat \<Rightarrow> nat \<Rightarrow> 'd ufp_port \<Rightarrow> ufp_buf \<Rightarrow> ('d ufp_port \<times> ufp_buf \<times> nat) option" where
  "tx_clean_loop 0 tot port buf = Some (port, buf, tot)"
| "tx_clean_loop (Suc left) tot port buf =
     (let ring = tx_ring port; ntc = next_to_clean ring in
      if ntc = next_to_use ring then Some (port, buf, tot)
      else do {
        err \<leftarrow> fetch_tx_desc (port_ops port) ring ntc;
        if err < 0 then Some (port, buf, tot)
        else do {
          si \<leftarrow> ufp_slot_detach ring ntc;
          buf \<leftarrow> ufp_slot_release buf si;
          let port = port\<lparr>tx_ring := ring\<lparr>next_to_clean := ring_next ntc (num_tx_desc port)\<rparr>\<rparr>;
          tx_clean_loop left (Suc tot) port buf } })"

definition ufp_tx_clean ::
  "'d ufp_plane \<Rightarrow> nat \<Rightarrow> ufp_buf \<Rightarrow> ('d ufp_plane \<times> ufp_buf) option" where
  "ufp_tx_clean plane port_idx buf =
     do { port \<leftarrow> plane_port plane port_idx;
          (port, buf, tot) \<leftarrow> tx_clean_loop (unat (tx_budget port)) 0 port buf;
          Some (plane_set_port plane port_idx
            (port\<lparr>count_tx_clean_total := count_tx_clean_total port + of_nat tot\<rparr>), buf) }"

subsection \<open>The accessors of the interface\<close>

datatype ufp_irq_type = UFP_IRQ_RX | UFP_IRQ_TX

definition ufp_macaddr :: "'d ufp_plane \<Rightarrow> nat \<Rightarrow> u8 list option" where
  "ufp_macaddr plane port_idx = map_option port_mac_addr (plane_port plane port_idx)"

definition ufp_portnum :: "'d ufp_plane \<Rightarrow> u16" where
  "ufp_portnum plane = num_ports plane"

definition ufp_framemtu :: "'d ufp_plane \<Rightarrow> nat \<Rightarrow> u32 option" where
  "ufp_framemtu plane port_idx = map_option port_mtu_frame (plane_port plane port_idx)"

definition ufp_tun_fd :: "'d ufp_plane \<Rightarrow> nat \<Rightarrow> int option" where
  "ufp_tun_fd plane port_idx = map_option port_tap_fd (plane_port plane port_idx)"

definition ufp_tun_index :: "'d ufp_plane \<Rightarrow> nat \<Rightarrow> int option" where
  "ufp_tun_index plane port_idx = map_option port_tap_index (plane_port plane port_idx)"

definition ufp_irq_of :: "'d ufp_plane \<Rightarrow> nat \<Rightarrow> ufp_irq_type \<Rightarrow> ufp_irq option" where
  "ufp_irq_of plane port_idx type =
     do { port \<leftarrow> plane_port plane port_idx;
          Some (case type of UFP_IRQ_RX \<Rightarrow> rx_irq port | UFP_IRQ_TX \<Rightarrow> tx_irq port) }"

definition ufp_irq_fd :: "'d ufp_plane \<Rightarrow> nat \<Rightarrow> ufp_irq_type \<Rightarrow> int option" where
  "ufp_irq_fd plane port_idx type =
     do { port \<leftarrow> plane_port plane port_idx;
          let irq = (case type of UFP_IRQ_RX \<Rightarrow> rx_irq port | UFP_IRQ_TX \<Rightarrow> tx_irq port);
          Some (irq_fd irq) }"

definition ufp_count_rx_alloc_failed :: "'d ufp_plane \<Rightarrow> nat \<Rightarrow> u64 option" where
  "ufp_count_rx_alloc_failed plane port_idx =
     map_option count_rx_alloc_failed (plane_port plane port_idx)"

definition ufp_count_rx_clean_total :: "'d ufp_plane \<Rightarrow> nat \<Rightarrow> u64 option" where
  "ufp_count_rx_clean_total plane port_idx =
     map_option count_rx_clean_total (plane_port plane port_idx)"

definition ufp_count_tx_xmit_failed :: "'d ufp_plane \<Rightarrow> nat \<Rightarrow> u64 option" where
  "ufp_count_tx_xmit_failed plane port_idx =
     map_option count_tx_xmit_failed (plane_port plane port_idx)"

definition ufp_count_tx_clean_total :: "'d ufp_plane \<Rightarrow> nat \<Rightarrow> u64 option" where
  "ufp_count_tx_clean_total plane port_idx =
     map_option count_tx_clean_total (plane_port plane port_idx)"

end
