(* ===== verification/Ufp_Ring.thy ===== *)
theory Ufp_Ring
  imports Ufp_Io
begin

text \<open>
  A ring as a queue: the slots of the descriptors from \<open>next_to_clean\<close> up to \<open>next_to_use\<close>, around
  the end of the array. The interface of a bounded queue is a locale whose client lemma says that
  items leave in the order in which they came; the index arithmetic of \<open>lib/lib_io.c\<close> on 16 bits
  is shown to provide it for every ring of up to 65536 descriptors.
\<close>

subsection \<open>The interface of a bounded queue\<close>

datatype 'a qop = Push 'a | Pop

locale bounded_queue =
  fixes inv :: "'q \<Rightarrow> bool"
    and items :: "'q \<Rightarrow> 'a list"
    and cap :: nat
    and room :: "'q \<Rightarrow> nat"
    and push :: "'q \<Rightarrow> 'a \<Rightarrow> 'q option"
    and pop :: "'q \<Rightarrow> ('a \<times> 'q) option"
  assumes room_items: "inv q \<Longrightarrow> room q + length (items q) = cap"
    and push_items: "inv q \<Longrightarrow> room q \<noteq> 0 \<Longrightarrow>
      \<exists>q'. push q x = Some q' \<and> inv q' \<and> items q' = items q @ [x]"
    and pop_items: "inv q \<Longrightarrow> items q \<noteq> [] \<Longrightarrow>
      \<exists>q'. pop q = Some (hd (items q), q') \<and> inv q' \<and> items q' = tl (items q)"
begin

text \<open>
  A sequence of operations, a push into a full queue and a pop from an empty one left out as the
  program leaves them out; the result is the final queue with what was taken in and given out.
\<close>

fun run :: "'a qop list \<Rightarrow> 'q \<Rightarrow> ('q \<times> 'a list \<times> 'a list) option" where
  "run [] q = Some (q, [], [])"
| "run (Push x # os) q =
     (if room q = 0 then run os q
      else do { q \<leftarrow> push q x; (q, ins, outs) \<leftarrow> run os q; Some (q, x # ins, outs) })"
| "run (Pop # os) q =
     (if items q = [] then run os q
      else do { (x, q) \<leftarrow> pop q; (q, ins, outs) \<leftarrow> run os q; Some (q, ins, x # outs) })"

lemma run_fifo:
  "inv q \<Longrightarrow> \<exists>q' ins outs. run os q = Some (q', ins, outs) \<and> inv q' \<and>
     items q @ ins = outs @ items q' \<and> length (items q') \<le> cap"
proof (induction os q rule: run.induct)
  case (1 q)
  then show ?case using room_items [of q] by simp
next
  case (2 x os q)
  show ?case
  proof (cases "room q = 0")
    case True
    then show ?thesis using 2 by simp
  next
    case False
    obtain q1 where q1: "push q x = Some q1" "inv q1" "items q1 = items q @ [x]"
      using push_items [OF 2(3) False] by blast
    obtain q' ins outs where r: "run os q1 = Some (q', ins, outs)" "inv q'"
        "items q1 @ ins = outs @ items q'" "length (items q') \<le> cap"
      using 2(2) [OF False q1(1,2)] by blast
    show ?thesis using False q1 r by simp
  qed
next
  case (3 os q)
  show ?case
  proof (cases "items q = []")
    case True
    then show ?thesis using 3 by simp
  next
    case False
    obtain q1 where q1: "pop q = Some (hd (items q), q1)" "inv q1" "items q1 = tl (items q)"
      using pop_items [OF 3(3) False] by blast
    obtain q' ins outs where r: "run os q1 = Some (q', ins, outs)" "inv q'"
        "items q1 @ ins = outs @ items q'" "length (items q') \<le> cap"
      using 3(2) [OF False q1(1) refl q1(2)] by blast
    have "items q @ ins = hd (items q) # (tl (items q) @ ins)" using False by (cases "items q") auto
    also have "tl (items q) @ ins = outs @ items q'" using q1(3) r(3) by simp
    finally have "items q @ ins = (hd (items q) # outs) @ items q'" by simp
    moreover have "run (Pop # os) q = Some (q', ins, hd (items q) # outs)"
      using False q1 r by simp
    ultimately show ?thesis using r by blast
  qed
qed

end

subsection \<open>Rings as queues\<close>

definition ring_ok :: "u32 \<Rightarrow> 'd ufp_ring \<Rightarrow> bool" where
  "ring_ok n r \<longleftrightarrow> 0 < n \<and> unat n \<le> 65536 \<and> length (slot_index r) = unat n \<and>
     length (ring_mem r) = unat n \<and>
     unat (next_to_use r) < unat n \<and> unat (next_to_clean r) < unat n"

definition ring_occ :: "u32 \<Rightarrow> 'd ufp_ring \<Rightarrow> nat" where
  "ring_occ n r = (unat (next_to_use r) + unat n - unat (next_to_clean r)) mod unat n"

definition ring_queue :: "u32 \<Rightarrow> 'd ufp_ring \<Rightarrow> int list" where
  "ring_queue n r =
     map (\<lambda>k. slot_index r ! ((unat (next_to_clean r) + k) mod unat n)) [0..<ring_occ n r]"

lemma length_ring_queue [simp]: "length (ring_queue n r) = ring_occ n r"
  by (simp add: ring_queue_def)

lemma unat_ucast_up:
  fixes x :: "'a::len word"
  assumes "LENGTH('a) \<le> LENGTH('b)"
  shows "unat (ucast x :: 'b::len word) = unat x"
  using assms by transfer (simp add: take_bit_nat_eq_self_iff min_def)

lemma unat_u16_u32 [simp]: "unat (ucast (x :: u16) :: u32) = unat x"
  by (rule unat_ucast_up) simp

lemma ring_next_unat:
  assumes "unat i < unat n" "unat n \<le> 65536"
  shows "unat (ring_next i n) = (unat i + 1) mod unat n"
proof (cases "unat i + 1 < 65536")
  case True
  then have u: "unat (i + 1) = unat i + 1" by (simp add: unat_word_ariths)
  have c: "unat (ucast (i + 1) :: u32) = unat i + 1"
    by (simp add: u)
  show ?thesis
    using assms by (auto simp: ring_next_def Let_def word_less_nat_alt c u mod_if)
next
  case False
  have "unat i < 65536" using unsigned_less [of i] by simp
  then have "unat i = 65535" using False by simp
  moreover have "i + 1 = 0"
    by (simp add: word_unat_eq_iff unat_word_ariths calculation)
  moreover have "unat n = 65536" using assms calculation by simp
  ultimately show ?thesis by (simp add: ring_next_def word_less_nat_alt)
qed

lemma ring_next_less:
  "unat i < unat n \<Longrightarrow> unat n \<le> 65536 \<Longrightarrow> unat (ring_next i n) < unat n"
  by (simp add: ring_next_unat)

text \<open>The number of free descriptors, computed on 16 bits: one descriptor always stays unused.\<close>

lemma desc_unused_eq:
  assumes "ring_ok n r"
  shows "unat (ufp_desc_unused r (ucast n)) + ring_occ n r = unat n - 1"
proof -
  let ?u = "unat (next_to_use r)" and ?c = "unat (next_to_clean r)"
  have b: "0 < unat n" "unat n \<le> 65536" "?u < unat n" "?c < unat n"
    using assms by (auto simp: ring_ok_def word_less_nat_alt)
  show ?thesis
  proof (cases "next_to_clean r > next_to_use r")
    case True
    then have lt: "?u < ?c" by (simp add: word_less_nat_alt)
    then have "unat (next_to_clean r - next_to_use r) = ?c - ?u"
      by (simp add: unat_sub word_le_nat_alt)
    moreover have "1 \<le> next_to_clean r - next_to_use r"
      using lt calculation by (simp add: word_le_nat_alt)
    ultimately have "unat (next_to_clean r - next_to_use r - 1) = ?c - ?u - 1"
      by (simp add: unat_sub)
    moreover have "ring_occ n r = ?u + unat n - ?c"
      using lt b by (simp add: ring_occ_def)
    ultimately show ?thesis using True lt b by (simp add: ufp_desc_unused_def Let_def)
  next
    case False
    then have le: "?c \<le> ?u" by (simp add: word_less_nat_alt)
    have "int (unat ((ucast n :: u16) - next_to_use r + next_to_clean r - 1)) =
        (int (unat n) - int ?u + int ?c - 1) mod 65536"
      by (simp add: uint_word_ariths mod_simps unsigned_ucast_eq take_bit_eq_mod flip: uint_nat)
    also have "\<dots> = int (unat n) - int ?u + int ?c - 1"
      using b le by (intro mod_pos_pos_trivial) linarith+
    finally have "unat ((ucast n :: u16) - next_to_use r + next_to_clean r - 1) =
        unat n - (?u - ?c) - 1"
      using b le by linarith
    moreover have "ring_occ n r = ?u - ?c"
      using le b by (simp add: ring_occ_def) (metis (no_types, lifting) Nat.add_diff_assoc2 diff_less_mono2 le_trans less_imp_diff_less mod_add_self2 mod_less)
    ultimately show ?thesis using False le b by (simp add: ufp_desc_unused_def Let_def)
  qed
qed

lemma ring_occ_bound: "ring_ok n r \<Longrightarrow> ring_occ n r \<le> unat n - 1"
  using desc_unused_eq [of n r] by linarith

lemma ring_occ_0_iff:
  assumes "ring_ok n r"
  shows "ring_occ n r = 0 \<longleftrightarrow> next_to_clean r = next_to_use r"
proof -
  let ?u = "unat (next_to_use r)" and ?c = "unat (next_to_clean r)"
  have b: "?u < unat n" "?c < unat n" using assms by (auto simp: ring_ok_def)
  show ?thesis
  proof (cases "?c \<le> ?u")
    case True
    then have "?u + unat n - ?c = (?u - ?c) + unat n" by simp
    then have "ring_occ n r = ((?u - ?c) + unat n) mod unat n" by (simp only: ring_occ_def)
    also have "\<dots> = ?u - ?c" using b by simp
    finally have "ring_occ n r = ?u - ?c" .
    then show ?thesis using True unfolding word_unat_eq_iff by linarith
  next
    case False
    then have "ring_occ n r = ?u + unat n - ?c" using b by (simp add: ring_occ_def)
    then show ?thesis using False b unfolding word_unat_eq_iff by linarith
  qed
qed

text \<open>The entry of the queue at a position, read and written.\<close>

definition ring_push :: "u32 \<Rightarrow> 'd ufp_ring \<Rightarrow> int \<Rightarrow> 'd ufp_ring option" where
  "ring_push n r si =
     do { r \<leftarrow> ufp_slot_attach r (next_to_use r) si;
          Some (r\<lparr>next_to_use := ring_next (next_to_use r) n\<rparr>) }"

definition ring_pop :: "u32 \<Rightarrow> 'd ufp_ring \<Rightarrow> (int \<times> 'd ufp_ring) option" where
  "ring_pop n r =
     do { si \<leftarrow> ufp_slot_detach r (next_to_clean r);
          Some (si, r\<lparr>next_to_clean := ring_next (next_to_clean r) n\<rparr>) }"

lemma ring_mod_shift:
  assumes "c < n" "u < n" "(u + n - c) mod n + 1 < n"
  shows "((u + 1) mod n + n - c) mod n = (u + n - c) mod n + (1::nat)"
proof -
  have "((u + 1) mod n + n - c) mod n = ((u + 1) mod n + (n - c)) mod n" using assms by simp
  also have "\<dots> = (u + 1 + (n - c)) mod n" by (simp add: mod_simps)
  also have "\<dots> = (u + n - c + 1) mod n" using assms by (simp add: algebra_simps)
  also have "\<dots> = ((u + n - c) mod n + 1) mod n" by (simp add: mod_simps)
  finally show ?thesis using assms by simp
qed

lemma ring_mod_unshift:
  assumes "c < n" "u < n" "(u + n - c) mod n \<noteq> 0"
  shows "(u + n - (c + 1) mod n) mod n = (u + n - c) mod n - (1::nat)"
proof (cases "c + 1 < n")
  case True
  have "u + n - c = (u + n - (c + 1)) + 1" using True by simp
  then have "((u + n - (c + 1)) mod n + 1) mod n = (u + n - c) mod n" by (simp add: mod_simps)
  then show ?thesis using assms True by (auto simp: mod_Suc split: if_splits)
next
  case False
  then have "n = Suc c" using assms by simp
  then show ?thesis using assms by (cases "u = c") (auto simp: Suc_diff_le mod_if)
qed

lemma mod_neq_shift:
  assumes "i < j" "j < n"
  shows "(c + i) mod n \<noteq> (c + j) mod (n::nat)"
proof
  assume "(c + i) mod n = (c + j) mod n"
  then have "n dvd (c + j) - (c + i)" by (metis mod_eq_dvd_iff_nat assms(1) add_le_cancel_left less_imp_le)
  then have "n dvd j - i" by simp
  then show False using assms by (auto dest: dvd_imp_le)
qed

lemma ring_mod_pos:
  assumes "c < n" "u < n"
  shows "(c + (u + n - c) mod n) mod n = (u::nat)"
proof -
  have "(c + (u + n - c) mod n) mod n = (c + (u + n - c)) mod n" by (simp add: mod_simps)
  then show ?thesis using assms by simp
qed

lemma ring_queue_nth:
  "k < ring_occ n r \<Longrightarrow>
   ring_queue n r ! k = slot_index r ! ((unat (next_to_clean r) + k) mod unat n)"
  by (simp add: ring_queue_def)

lemma ring_push_queue:
  assumes ok: "ring_ok n r" and room: "ufp_desc_unused r (ucast n) \<noteq> 0"
  shows "\<exists>r'. ring_push n r si = Some r' \<and> ring_ok n r' \<and> ring_queue n r' = ring_queue n r @ [si]"
proof -
  let ?u = "unat (next_to_use r)" and ?c = "unat (next_to_clean r)" and ?n = "unat n"
  let ?r' = "r\<lparr>slot_index := (slot_index r)[?u := si], next_to_use := ring_next (next_to_use r) n\<rparr>"
  have b: "?n \<le> 65536" "?u < ?n" "?c < ?n" "length (slot_index r) = ?n"
    using ok by (auto simp: ring_ok_def)
  have full: "ring_occ n r + 1 < ?n"
    using desc_unused_eq [OF ok] room by (simp add: word_unat_eq_iff)
  have p: "ring_push n r si = Some ?r'"
    using b by (simp add: ring_push_def ufp_slot_attach_def)
  have ok': "ring_ok n ?r'"
    using ok b by (simp add: ring_ok_def ring_next_less)
  have occ: "ring_occ n ?r' = ring_occ n r + 1"
    using ring_mod_shift [OF b(3,2)] full b by (simp add: ring_occ_def ring_next_unat)
  have "ring_queue n ?r' = ring_queue n r @ [si]"
  proof (rule nth_equalityI)
    fix k assume "k < length (ring_queue n ?r')"
    then have k: "k < ring_occ n r + 1" by (simp add: occ)
    have at: "ring_queue n ?r' ! k = (slot_index r)[?u := si] ! ((?c + k) mod ?n)"
      using k occ by (simp add: ring_queue_nth)
    have mid: "(?c + ring_occ n r) mod ?n = ?u"
      unfolding ring_occ_def by (rule ring_mod_pos [OF b(3,2)])
    show "ring_queue n ?r' ! k = (ring_queue n r @ [si]) ! k"
    proof (cases "k = ring_occ n r")
      case True
      then show ?thesis using b mid at by (simp add: nth_append)
    next
      case False
      then have kl: "k < ring_occ n r" using k by simp
      have "(?c + k) mod ?n \<noteq> (?c + ring_occ n r) mod ?n"
        using kl full by (intro mod_neq_shift) auto
      then show ?thesis using kl mid at by (simp add: nth_append ring_queue_nth)
    qed
  qed (simp add: occ)
  with p ok' show ?thesis by blast
qed

lemma ring_pop_queue:
  assumes ok: "ring_ok n r" and ne: "ring_queue n r \<noteq> []"
  shows "\<exists>r'. ring_pop n r = Some (hd (ring_queue n r), r') \<and> ring_ok n r' \<and>
    ring_queue n r' = tl (ring_queue n r)"
proof -
  let ?u = "unat (next_to_use r)" and ?c = "unat (next_to_clean r)" and ?n = "unat n"
  let ?r' = "r\<lparr>next_to_clean := ring_next (next_to_clean r) n\<rparr>"
  have b: "?n \<le> 65536" "?u < ?n" "?c < ?n" "length (slot_index r) = ?n"
    using ok by (auto simp: ring_ok_def)
  have pos: "0 < ring_occ n r" using ne by (metis length_greater_0_conv length_ring_queue)
  have "hd (ring_queue n r) = slot_index r ! ?c"
    using ne pos b by (simp add: hd_conv_nth ring_queue_nth)
  then have p: "ring_pop n r = Some (hd (ring_queue n r), ?r')"
    using b by (simp add: ring_pop_def ufp_slot_detach_def)
  have ok': "ring_ok n ?r'"
    using ok b by (simp add: ring_ok_def ring_next_less)
  have occ: "ring_occ n ?r' = ring_occ n r - 1"
    using ring_mod_unshift [OF b(3,2)] pos b by (simp add: ring_occ_def ring_next_unat)
  have "ring_queue n ?r' = tl (ring_queue n r)"
  proof (rule nth_equalityI)
    fix k assume "k < length (ring_queue n ?r')"
    then have k: "k < ring_occ n ?r'" "Suc k < ring_occ n r" using occ by auto
    have "((?c + 1) mod ?n + k) mod ?n = (?c + Suc k) mod ?n" by (simp add: mod_simps)
    then show "ring_queue n ?r' ! k = tl (ring_queue n r) ! k"
      using k b by (simp add: ring_queue_nth nth_tl ring_next_unat)
  qed (simp add: occ)
  with p ok' show ?thesis by blast
qed

interpretation rq: bounded_queue "ring_ok n" "ring_queue n" "unat n - 1"
  "\<lambda>r. unat (ufp_desc_unused r (ucast n))" "ring_push n" "ring_pop n" for n
proof
  show "unat (ufp_desc_unused r (ucast n)) + length (ring_queue n r) = unat n - 1"
    if "ring_ok n r" for r :: "'d ufp_ring"
    using desc_unused_eq [OF that] by simp
qed (auto intro!: ring_push_queue ring_pop_queue simp: word_unat_eq_iff)

text \<open>What the device and the driver do to the descriptors does not change the queue.\<close>

lemma ring_mem_frame [simp]:
  "ring_queue n (r\<lparr>ring_mem := m\<rparr>) = ring_queue n r"
  "ufp_desc_unused (r\<lparr>ring_mem := m\<rparr>) k = ufp_desc_unused r k"
  by (simp_all add: ring_queue_def ring_occ_def ufp_desc_unused_def)

lemma ring_ok_mem:
  "ring_ok n r \<Longrightarrow> length m = length (ring_mem r) \<Longrightarrow> ring_ok n (r\<lparr>ring_mem := m\<rparr>)"
  by (simp add: ring_ok_def)

lemma ring_push_mem:
  "ring_push n (r\<lparr>ring_mem := m\<rparr>) si = map_option (\<lambda>r. r\<lparr>ring_mem := m\<rparr>) (ring_push n r si)"
  by (simp add: ring_push_def ufp_slot_attach_def)

lemma ring_push_keeps:
  "ring_push n r si = Some r' \<Longrightarrow> ring_mem r' = ring_mem r \<and> tail r' = tail r \<and>
     next_to_clean r' = next_to_clean r \<and> next_to_use r' = ring_next (next_to_use r) n"
  by (auto simp: ring_push_def ufp_slot_attach_def split: if_splits)

lemma ring_pop_keeps:
  "ring_pop n r = Some (si, r') \<Longrightarrow> r' = r\<lparr>next_to_clean := ring_next (next_to_clean r) n\<rparr>"
  by (auto simp: ring_pop_def ufp_slot_detach_def split: if_splits)

lemma ring_queue_Nil_iff:
  "ring_ok n r \<Longrightarrow> ring_queue n r = [] \<longleftrightarrow> next_to_clean r = next_to_use r"
  using ring_occ_0_iff [of n r] by (simp flip: length_0_conv)

text \<open>C25. A ring is a queue. Take any ring of 1 to 65536 descriptors with both indices inside of it and
  any sequence of attachments (made when \<open>ufp_desc_unused\<close> is not zero) and detachments (made
  when \<open>next_to_clean\<close> differs from \<open>next_to_use\<close>): no access leaves the arrays, slots are
  detached in the order in which they were attached with none lost or duplicated, and the ring never
  holds more than \<open>num_desc - 1\<close> slots, so that a full ring is never taken for an empty one.
\<close>

theorem ring_fifo:
  assumes "ring_ok n r"
  shows "\<exists>r' ins outs. rq.run n ops r = Some (r', ins, outs) \<and> ring_ok n r' \<and>
    ring_queue n r @ ins = outs @ ring_queue n r' \<and> length (ring_queue n r') \<le> unat n - 1"
  using assms by (rule rq.run_fifo)

end
