(* ===== verification/Ufp_Slot.thy ===== *)
theory Ufp_Slot
  imports Ufp_Ring
begin

text \<open>
  Allocation of buffer slots. A slot is in flight while its flag is set; every port searches its
  own segment of the buffer, from where its last search ended and around the end of the segment.
\<close>

definition inflight :: "ufp_buf \<Rightarrow> int set" where
  "inflight buf = {si. 0 \<le> si \<and> nat si < length (slots buf) \<and>
     (slots buf ! nat si) AND UFP_SLOT_INFLIGHT \<noteq> 0}"

definition segment :: "u32 \<Rightarrow> ufp_buf \<Rightarrow> int set" where
  "segment offset buf = {int (unat offset) ..< int (unat offset + unat (buf_count buf))}"

text \<open>The segment of a port lies inside of the buffer, and the search of the port inside of it.\<close>

definition slot_ok :: "u32 \<Rightarrow> u32 \<Rightarrow> ufp_buf \<Rightarrow> bool" where
  "slot_ok offset next buf \<longleftrightarrow> next < buf_count buf \<and>
     unat offset + unat (buf_count buf) \<le> length (slots buf) \<and> length (slots buf) < 2 ^ 31"

lemma finite_inflight [simp]: "finite (inflight buf)"
proof (rule finite_subset)
  show "inflight buf \<subseteq> {0 ..< int (length (slots buf))}" by (auto simp: inflight_def)
qed simp

lemma inflight_int:
  "int k \<in> inflight buf \<longleftrightarrow> k < length (slots buf) \<and> (slots buf ! k) AND UFP_SLOT_INFLIGHT \<noteq> 0"
  by (simp add: inflight_def)

lemma slot_sint:
  assumes "slot_ok offset next buf"
  shows "sint (offset + next) = int (unat offset + unat next)"
    "unat offset + unat next < length (slots buf)"
proof -
  have lt: "unat offset + unat next < length (slots buf)" "length (slots buf) < 2 ^ 31"
    using assms by (auto simp: slot_ok_def word_less_nat_alt)
  then show "unat offset + unat next < length (slots buf)" by simp
  have u: "unat (offset + next) = unat offset + unat next"
    using lt by (simp add: unat_word_ariths)
  have ui: "uint (offset + next) = int (unat offset + unat next)"
    using u by (simp only: uint_nat)
  have "sint (offset + next) = signed_take_bit 31 (uint (offset + next))"
    by (simp add: sint_uint)
  also have "\<dots> = uint (offset + next)"
  proof (rule signed_take_bit_int_eq_self)
    have "unat offset + unat next < 2 ^ 31" using lt by (rule less_trans)
    then show "uint (offset + next) < 2 ^ 31" unfolding ui by (simp only: of_nat_less_numeral_power_cancel_iff)
  qed (rule order_trans [OF _ uint_ge_0], simp)
  finally show "sint (offset + next) = int (unat offset + unat next)" by (simp only: ui)
qed

lemma slot_ok_step:
  assumes "slot_ok offset next buf"
  defines "next' \<equiv> if next + 1 = buf_count buf then 0 else next + 1"
  shows "slot_ok offset next' buf" "unat next' = (unat next + 1) mod unat (buf_count buf)"
proof -
  have lt: "unat next < unat (buf_count buf)" using assms by (simp add: slot_ok_def word_less_nat_alt)
  have "unat (buf_count buf) < 2 ^ 31" using assms by (simp add: slot_ok_def)
  then have u: "unat (next + 1) = unat next + 1" using lt by (simp add: unat_word_ariths)
  have eq: "next + 1 = buf_count buf \<longleftrightarrow> unat next + 1 = unat (buf_count buf)"
    by (simp add: word_unat_eq_iff u)
  show m: "unat next' = (unat next + 1) mod unat (buf_count buf)"
    using lt u eq by (auto simp: next'_def)
  show "slot_ok offset next' buf" using assms(1) lt m by (simp add: slot_ok_def word_less_nat_alt)
qed

lemma slot_find_Suc:
  assumes "sint (offset + next) = int k" "k < length (slots buf)"
  shows "slot_assign_find (Suc i) buf offset next =
    (if (slots buf ! k) AND UFP_SLOT_INFLIGHT = 0 then Some (Some (next, int k))
     else slot_assign_find i buf offset (if next + 1 = buf_count buf then 0 else next + 1))"
  using assms by (simp add: Let_def)

text \<open>The search looks at one slot after the other and stops at the first that is free.\<close>

lemma slot_find_spec:
  assumes "slot_ok offset next buf"
  shows "(slot_assign_find i buf offset next = Some None \<and>
      (\<forall>k<i. int (unat offset + (unat next + k) mod unat (buf_count buf)) \<in> inflight buf)) \<or>
    (\<exists>n. slot_assign_find i buf offset next = Some (Some (n, int (unat offset + unat n))) \<and>
      slot_ok offset n buf \<and> int (unat offset + unat n) \<notin> inflight buf)"
  using assms
proof (induction i arbitrary: "next")
  case 0
  then show ?case by simp
next
  case (Suc i)
  note s = slot_sint [OF Suc.prems]
  let ?next' = "if next + 1 = buf_count buf then 0 else next + 1"
  note n' = slot_ok_step [OF Suc.prems]
  let ?m = "unat (buf_count buf)"
  have lt: "unat next < ?m" using Suc.prems by (simp add: slot_ok_def word_less_nat_alt)
  show ?case
  proof (cases "int (unat offset + unat next) \<in> inflight buf")
    case False
    then have "(slots buf ! (unat offset + unat next)) AND UFP_SLOT_INFLIGHT = 0"
      using s(2) unfolding inflight_int by blast
    then have "slot_assign_find (Suc i) buf offset next =
        Some (Some (next, int (unat offset + unat next)))"
      by (simp only: slot_find_Suc [OF s] simp_thms if_True)
    then show ?thesis using False Suc.prems by blast
  next
    case True
    then have "(slots buf ! (unat offset + unat next)) AND UFP_SLOT_INFLIGHT \<noteq> 0"
      unfolding inflight_int by blast
    then have eq: "slot_assign_find (Suc i) buf offset next = slot_assign_find i buf offset ?next'"
      by (simp only: slot_find_Suc [OF s] if_False)
    have sh: "(unat ?next' + k) mod ?m = (unat next + Suc k) mod ?m" for k
      by (simp only: n'(2)) (simp add: mod_simps)
    show ?thesis
      using Suc.IH [OF n'(1)]
    proof (elim disjE)
      assume a: "slot_assign_find i buf offset ?next' = Some None \<and>
        (\<forall>k<i. int (unat offset + (unat ?next' + k) mod ?m) \<in> inflight buf)"
      have "int (unat offset + (unat next + k) mod ?m) \<in> inflight buf" if "k < Suc i" for k
        using that a True lt sh by (cases k) simp_all
      then show ?thesis using a eq by simp
    qed (use eq in auto)
  qed
qed

lemma slot_flag_or: "(x OR UFP_SLOT_INFLIGHT) AND UFP_SLOT_INFLIGHT \<noteq> 0"
  by (simp add: UFP_SLOT_INFLIGHT_def bit.conj_disj_distrib2 or_eq_0_iff)

lemma inflight_set:
  assumes "k < length (slots buf)"
  shows "inflight (buf\<lparr>slots := (slots buf)[k := (slots buf ! k) OR UFP_SLOT_INFLIGHT]\<rparr>) =
    insert (int k) (inflight buf)"
  using assms by (auto simp: inflight_def nth_list_update slot_flag_or split: if_splits)

lemma inflight_clear:
  assumes "k < length (slots buf)"
  shows "inflight (buf\<lparr>slots := (slots buf)[k := 0]\<rparr>) = inflight buf - {int k}"
  using assms by (auto simp: inflight_def nth_list_update split: if_splits)

text \<open>
  \<open>ufp_slot_assign\<close> takes a free slot of the port's segment, and fails only when the whole segment
  is in flight.
\<close>

lemma slot_assign_cases:
  assumes ok: "slot_ok (rx_slot_offset port) (rx_slot_next port) buf"
  obtains (full) "ufp_slot_assign buf port = Some (-1, buf, port)"
      "segment (rx_slot_offset port) buf \<subseteq> inflight buf"
  | (slot) k n xs where
      "ufp_slot_assign buf port = Some (int k, buf\<lparr>slots := xs\<rparr>, port\<lparr>rx_slot_next := n\<rparr>)"
      "int k \<in> segment (rx_slot_offset port) buf" "int k \<notin> inflight buf"
      "length xs = length (slots buf)" "inflight (buf\<lparr>slots := xs\<rparr>) = insert (int k) (inflight buf)"
      "slot_ok (rx_slot_offset port) n (buf\<lparr>slots := xs\<rparr>)"
proof -
  let ?off = "rx_slot_offset port" and ?m = "unat (buf_count buf)"
  have lt: "unat (rx_slot_next port) < ?m" using ok by (simp add: slot_ok_def word_less_nat_alt)
  show thesis
    using slot_find_spec [OF ok, of ?m]
  proof (elim disjE exE conjE)
    assume f: "slot_assign_find ?m buf ?off (rx_slot_next port) = Some None"
      and all: "\<forall>k<?m. int (unat ?off + (unat (rx_slot_next port) + k) mod ?m) \<in> inflight buf"
    have "segment ?off buf \<subseteq> inflight buf"
    proof
      fix si assume si: "si \<in> segment ?off buf"
      define j where "j = nat si - unat ?off"
      have j: "si = int (unat ?off + j)" "j < ?m" using si unfolding segment_def j_def atLeastLessThan_iff by linarith+
      define k where "k = (j + ?m - unat (rx_slot_next port)) mod ?m"
      have "(unat (rx_slot_next port) + k) mod ?m = j"
        unfolding k_def by (rule ring_mod_pos [OF lt j(2)])
      moreover have "k < ?m" using lt by (simp add: k_def)
      ultimately show "si \<in> inflight buf" using all j(1) by metis
    qed
    moreover have "ufp_slot_assign buf port = Some (-1, buf, port)"
      by (simp add: ufp_slot_assign_def f)
    ultimately show thesis by (rule full [rotated])
  next
    fix n :: u32
    let ?k = "unat ?off + unat n"
    assume f: "slot_assign_find ?m buf ?off (rx_slot_next port) = Some (Some (n, int ?k))"
      and n: "slot_ok ?off n buf" and free: "int ?k \<notin> inflight buf"
    define xs where "xs = (slots buf)[?k := (slots buf ! ?k) OR UFP_SLOT_INFLIGHT]"
    have len: "length xs = length (slots buf)" by (simp add: xs_def)
    have klt: "?k < length (slots buf)" by (rule slot_sint(2) [OF n])
    have eq: "ufp_slot_assign buf port = Some (int ?k, buf\<lparr>slots := xs\<rparr>,
        port\<lparr>rx_slot_next := (if n + 1 = buf_count buf then 0 else n + 1)\<rparr>)"
      by (simp only: ufp_slot_assign_def f option.case prod.case nat_int xs_def)
    have seg: "int ?k \<in> segment ?off buf"
      using n unfolding segment_def slot_ok_def word_less_nat_alt by (simp only: atLeastLessThan_iff) linarith
    have "inflight (buf\<lparr>slots := xs\<rparr>) = insert (int ?k) (inflight buf)"
      unfolding xs_def by (rule inflight_set [OF klt])
    moreover have "slot_ok ?off (if n + 1 = buf_count buf then 0 else n + 1) (buf\<lparr>slots := xs\<rparr>)"
      using slot_ok_step(1) [OF n] by (simp add: slot_ok_def len)
    ultimately show thesis using slot [OF eq seg free len] by blast
  qed
qed

lemma slot_release_spec:
  assumes "si \<in> inflight buf"
  shows "\<exists>xs. ufp_slot_release buf si = Some (buf\<lparr>slots := xs\<rparr>) \<and>
    length xs = length (slots buf) \<and> inflight (buf\<lparr>slots := xs\<rparr>) = inflight buf - {si}"
proof -
  have si: "0 \<le> si" "nat si < length (slots buf)" using assms by (auto simp: inflight_def)
  show ?thesis
    using si inflight_clear [OF si(2)] by (intro exI [of _ "(slots buf)[nat si := 0]"]) (simp add: ufp_slot_release_def)
qed

end
