(* ===== verification/Ufp_Plane.thy ===== *)
theory Ufp_Plane
  imports Ufp_Slot
begin

text \<open>
  The packet operations over the interface that a device driver offers. The invariant of a plane
  accounts for every slot that is in flight: it is attached to exactly one descriptor of one ring,
  or it is held, once, by the program. Every operation of \<open>lib/lib_io.c\<close> keeps it, whatever the
  device writes into the descriptors meanwhile.
\<close>

subsection \<open>The driver's operations on descriptors\<close>

locale desc_ops =
  fixes ops :: "'d ufp_ops"
  assumes fill_rx: "unat i < length (ring_mem r) \<Longrightarrow>
      \<exists>d. fill_rx_desc ops r i a = Some (r\<lparr>ring_mem := (ring_mem r)[unat i := d]\<rparr>)"
    and fill_tx: "unat i < length (ring_mem r) \<Longrightarrow>
      \<exists>d. fill_tx_desc ops r i a p = Some (r\<lparr>ring_mem := (ring_mem r)[unat i := d]\<rparr>)"
    and fetch_rx: "unat i < length (ring_mem r) \<Longrightarrow> \<exists>e p'. fetch_rx_desc ops r i p = Some (e, p')"
    and fetch_tx: "unat i < length (ring_mem r) \<Longrightarrow> \<exists>e. fetch_tx_desc ops r i = Some e"
    and fetch_rx_index: "fetch_rx_desc ops (r\<lparr>next_to_clean := c\<rparr>) i p = fetch_rx_desc ops r i p"
    and fetch_tx_index: "fetch_tx_desc ops (r\<lparr>next_to_clean := c\<rparr>) i = fetch_tx_desc ops r i"

lemma distinct_mset_le_1:
  assumes "\<And>x. count (mset xs) x \<le> 1"
  shows "distinct xs"
  using assms
proof (induction xs)
  case (Cons a xs)
  have "count (mset xs) a = 0" using Cons.prems [of a] by simp
  moreover have "count (mset xs) x \<le> 1" for x
    by (rule order_trans [OF _ Cons.prems [of x]]) simp
  ultimately show ?case using Cons.IH by (simp add: count_mset_0_iff)
qed simp

lemma exI3: "P a b c \<Longrightarrow> \<exists>a b c. P a b c"
  by blast

subsection \<open>The invariant\<close>

definition port_held :: "'d ufp_port \<Rightarrow> int multiset" where
  "port_held p = mset (ring_queue (num_rx_desc p) (rx_ring p)) +
     mset (ring_queue (num_tx_desc p) (tx_ring p))"

definition plane_held :: "'d ufp_plane \<Rightarrow> int multiset" where
  "plane_held plane = sum_list (map port_held (ports plane))"

definition port_ok :: "'d ufp_ops \<Rightarrow> ufp_buf \<Rightarrow> nat \<Rightarrow> 'd ufp_port \<Rightarrow> bool" where
  "port_ok ops buf i p \<longleftrightarrow> port_ops p = ops \<and>
     ring_ok (num_rx_desc p) (rx_ring p) \<and> ring_ok (num_tx_desc p) (tx_ring p) \<and>
     unat (rx_slot_offset p) = i * unat (buf_count buf) \<and>
     slot_ok (rx_slot_offset p) (rx_slot_next p) buf"

definition plane_ok :: "'d ufp_ops \<Rightarrow> 'd ufp_plane \<Rightarrow> ufp_buf \<Rightarrow> bool" where
  "plane_ok ops plane buf \<longleftrightarrow> (\<forall>i < length (ports plane). port_ok ops buf i (ports plane ! i))"

definition io_inv :: "'d ufp_ops \<Rightarrow> 'd ufp_plane \<Rightarrow> ufp_buf \<Rightarrow> int multiset \<Rightarrow> bool" where
  "io_inv ops plane buf held \<longleftrightarrow> plane_ok ops plane buf \<and>
     plane_held plane + held = mset_set (inflight buf)"

lemma port_ok_slots:
  "length xs = length (slots buf) \<Longrightarrow> port_ok ops (buf\<lparr>slots := xs\<rparr>) i p = port_ok ops buf i p"
  by (simp add: port_ok_def slot_ok_def)

lemma plane_held_split:
  assumes "i < length (ports plane)"
  obtains C where "plane_held plane = C + port_held (ports plane ! i)"
    "\<And>p'. plane_held (plane_set_port plane i p') = C + port_held p'"
proof -
  obtain C where C: "\<And>x. sum_list (map port_held ((ports plane)[i := x])) = C + port_held x"
    using sum_list_update_frame [OF assms] by metis
  have "plane_held plane = C + port_held (ports plane ! i)"
    using C [of "ports plane ! i"] by (simp add: plane_held_def)
  moreover have "plane_held (plane_set_port plane i p') = C + port_held p'" for p'
    using C by (simp add: plane_held_def plane_set_port_def)
  ultimately show thesis by (rule that)
qed

lemma plane_held_set:
  assumes "i < length (ports plane)"
  shows "plane_held (plane_set_port plane i p') + port_held (ports plane ! i) =
    plane_held plane + port_held p'"
  using assms by (rule plane_held_split) (simp add: ac_simps)

lemma plane_ok_set:
  assumes "plane_ok ops plane buf" "port_ok ops buf i p'"
  shows "plane_ok ops (plane_set_port plane i p') buf"
  unfolding plane_ok_def
proof (intro allI impI)
  fix j assume "j < length (ports (plane_set_port plane i p'))"
  then show "port_ok ops buf j (ports (plane_set_port plane i p') ! j)"
    using assms by (cases "j = i") (auto simp: plane_ok_def plane_set_port_def)
qed

lemma plane_ok_slots:
  "length xs = length (slots buf) \<Longrightarrow> plane_ok ops plane (buf\<lparr>slots := xs\<rparr>) = plane_ok ops plane buf"
  by (simp add: plane_ok_def port_ok_slots)

lemma io_inv_portD:
  "io_inv ops plane buf held \<Longrightarrow> i < length (ports plane) \<Longrightarrow> port_ok ops buf i (ports plane ! i)"
  by (simp add: io_inv_def plane_ok_def)

lemma io_inv_held: "io_inv ops plane buf held \<Longrightarrow> si \<in># held \<Longrightarrow> si \<in> inflight buf"
  unfolding io_inv_def by (metis finite_inflight finite_set_mset_mset_set union_iff)

text \<open>A slot is in one place only.\<close>

lemma io_inv_count:
  assumes "io_inv ops plane buf held"
  shows "count (plane_held plane) si + count held si = (if si \<in> inflight buf then 1 else 0)"
proof -
  have "count (plane_held plane + held) si = count (mset_set (inflight buf)) si"
    using assms by (simp add: io_inv_def)
  then show ?thesis by (simp add: count_mset_set')
qed

text \<open>
  One port changes: the invariant follows from that port's own, the slots that came in flight and
  those that were released.
\<close>

lemma io_inv_update:
  assumes inv: "io_inv ops plane buf held" and i: "i < length (ports plane)"
    and ok: "port_ok ops buf i p'" and len: "length xs = length (slots buf)"
    and eq: "port_held p' + held' + mset_set (inflight buf) =
      port_held (ports plane ! i) + held + mset_set (inflight (buf\<lparr>slots := xs\<rparr>))"
  shows "io_inv ops (plane_set_port plane i p') (buf\<lparr>slots := xs\<rparr>) held'"
proof -
  have h: "plane_held (plane_set_port plane i p') + port_held (ports plane ! i) =
      plane_held plane + port_held p'"
    by (rule plane_held_set [OF i])
  have a: "plane_held plane + held = mset_set (inflight buf)" using inv by (simp add: io_inv_def)
  have "plane_held (plane_set_port plane i p') + held' + (port_held (ports plane ! i) + held) =
      (plane_held plane + held) + (port_held p' + held')"
    using h by (simp add: ac_simps)
  also have "\<dots> = mset_set (inflight buf) + (port_held p' + held')" by (simp only: a)
  also have "\<dots> = port_held (ports plane ! i) + held + mset_set (inflight (buf\<lparr>slots := xs\<rparr>))"
    using eq by (simp only: ac_simps)
  finally have "plane_held (plane_set_port plane i p') + held' =
      mset_set (inflight (buf\<lparr>slots := xs\<rparr>))"
    by (metis add.commute add_left_cancel)
  moreover have "plane_ok ops (plane_set_port plane i p') (buf\<lparr>slots := xs\<rparr>)"
    using inv ok len by (simp add: plane_ok_slots plane_ok_set io_inv_def)
  ultimately show ?thesis by (simp add: io_inv_def)
qed

subsection \<open>The operations\<close>

text \<open>The descriptor at a position of the queue.\<close>

definition ring_at :: "u32 \<Rightarrow> 'd ufp_ring \<Rightarrow> nat \<Rightarrow> u16" where
  "ring_at n r k = of_nat ((unat (next_to_clean r) + k) mod unat n)"

lemma ring_at_0: "ring_ok n r \<Longrightarrow> ring_at n r 0 = next_to_clean r"
  by (simp add: ring_at_def ring_ok_def)

lemma ring_at_next:
  assumes "ring_ok n r"
  shows "ring_at n (r\<lparr>next_to_clean := ring_next (next_to_clean r) n\<rparr>) k = ring_at n r (Suc k)"
proof -
  have b: "unat (next_to_clean r) < unat n" "unat n \<le> 65536" using assms by (auto simp: ring_ok_def)
  show ?thesis by (simp add: ring_at_def ring_next_unat [OF b] mod_simps)
qed

text \<open>
  What the loop of \<open>ufp_rx_clean\<close> has done after \<open>t\<close> packets: they are the oldest slots of the ring
  whose descriptors the device has completed, in order, and the next one is not complete unless the
  ring is empty or the budget is used up.
\<close>

definition rx_done :: "'d ufp_ops \<Rightarrow> u32 \<Rightarrow> 'd ufp_ring \<Rightarrow> ufp_buf \<Rightarrow> nat \<Rightarrow> ufp_packet \<Rightarrow> ufp_packet \<Rightarrow> bool"
where
  "rx_done ops n r buf k p p' \<longleftrightarrow>
     (case fetch_rx_desc ops r (ring_at n r k) p of
        None \<Rightarrow> False
      | Some (e, q) \<Rightarrow> 0 \<le> e \<and>
          p' = q\<lparr>pkt_slot_index := ring_queue n r ! k,
                 pkt_slot_buf := ufp_slot_addr_virt buf (of_int (ring_queue n r ! k))\<rparr>)"

definition rx_not_ready :: "'d ufp_ops \<Rightarrow> u32 \<Rightarrow> 'd ufp_ring \<Rightarrow> nat \<Rightarrow> ufp_packet \<Rightarrow> bool" where
  "rx_not_ready ops n r k p \<longleftrightarrow>
     (case fetch_rx_desc ops r (ring_at n r k) p of None \<Rightarrow> False | Some (e, q) \<Rightarrow> e < 0)"

definition tx_ready :: "'d ufp_ops \<Rightarrow> u32 \<Rightarrow> 'd ufp_ring \<Rightarrow> nat \<Rightarrow> bool" where
  "tx_ready ops n r k \<longleftrightarrow>
     (case fetch_tx_desc ops r (ring_at n r k) of None \<Rightarrow> False | Some e \<Rightarrow> 0 \<le> e)"

lemma ring_pop_head:
  assumes "ring_ok n r" "next_to_clean r \<noteq> next_to_use r"
  defines "r1 \<equiv> r\<lparr>next_to_clean := ring_next (next_to_clean r) n\<rparr>"
  shows "ring_queue n r = hd (ring_queue n r) # ring_queue n r1" "ring_ok n r1"
    "ufp_slot_detach r (next_to_clean r) = Some (hd (ring_queue n r))"
proof -
  have ne: "ring_queue n r \<noteq> []" using ring_queue_Nil_iff assms by blast
  obtain q where q: "ring_pop n r = Some (hd (ring_queue n r), q)" "ring_ok n q"
      "ring_queue n q = tl (ring_queue n r)"
    using ring_pop_queue [OF assms(1) ne] by blast
  have "q = r1" using ring_pop_keeps [OF q(1)] by (simp add: r1_def)
  then show "ring_queue n r = hd (ring_queue n r) # ring_queue n r1" "ring_ok n r1" using q ne by auto
  show "ufp_slot_detach r (next_to_clean r) = Some (hd (ring_queue n r))"
    using q(1) by (auto simp: ring_pop_def split: bind_splits)
qed

context desc_ops
begin

text \<open>Posting one slot on the receive ring, and one on the transmit ring.\<close>

lemma rx_assign_slot_spec:
  assumes "port_ops p = ops" "ring_ok (num_rx_desc p) (rx_ring p)"
    "ufp_desc_unused (rx_ring p) (ucast (num_rx_desc p)) \<noteq> 0"
  shows "\<exists>r. rx_assign_slot buf p si = Some (p\<lparr>rx_ring := r\<rparr>) \<and> ring_ok (num_rx_desc p) r \<and>
    ring_queue (num_rx_desc p) r = ring_queue (num_rx_desc p) (rx_ring p) @ [si] \<and> tail r = tail (rx_ring p)"
proof -
  let ?r = "rx_ring p" and ?n = "num_rx_desc p" and ?a = "ufp_slot_addr_dma buf si"
  have "unat (next_to_use ?r) < length (ring_mem ?r)" using assms(2) by (simp add: ring_ok_def)
  then obtain d where
    d: "fill_rx_desc ops ?r (next_to_use ?r) ?a =
      Some (?r\<lparr>ring_mem := (ring_mem ?r)[unat (next_to_use ?r) := d]\<rparr>)"
    using fill_rx by blast
  let ?r1 = "?r\<lparr>ring_mem := (ring_mem ?r)[unat (next_to_use ?r) := d]\<rparr>"
  have "ring_ok ?n ?r1" using assms(2) by (simp add: ring_ok_mem)
  then obtain r where r: "ring_push ?n ?r1 si = Some r" "ring_ok ?n r"
      "ring_queue ?n r = ring_queue ?n ?r @ [si]"
    using ring_push_queue [of ?n ?r1 si] assms(3) by auto
  have "tail r = tail ?r" using ring_push_keeps [OF r(1)] by simp
  moreover have "rx_assign_slot buf p si = Some (p\<lparr>rx_ring := r\<rparr>)"
    using r(1) d assms(1)
    by (auto simp: rx_assign_slot_def ring_push_def ufp_slot_attach_def split: if_splits)
  ultimately show ?thesis using r by blast
qed

text \<open>The loop of \<open>ufp_rx_assign\<close> posts free slots until it has no more room or no more slots.\<close>

lemma rx_assign_loop_spec:
  assumes "port_ok ops buf i p" "left \<le> unat (ufp_desc_unused (rx_ring p) (ucast (num_rx_desc p)))"
  shows "\<exists>new r nxt xs. rx_assign_loop left p buf =
      Some (p\<lparr>rx_ring := r, rx_slot_next := nxt,
              count_rx_alloc_failed := count_rx_alloc_failed p + of_nat (left - length new)\<rparr>,
            buf\<lparr>slots := xs\<rparr>, length new) \<and>
    ring_queue (num_rx_desc p) r = ring_queue (num_rx_desc p) (rx_ring p) @ new \<and>
    tail r = tail (rx_ring p) \<and> ring_ok (num_rx_desc p) r \<and>
    slot_ok (rx_slot_offset p) nxt (buf\<lparr>slots := xs\<rparr>) \<and> length xs = length (slots buf) \<and>
    length new \<le> left \<and> distinct new \<and> set new \<subseteq> segment (rx_slot_offset p) buf - inflight buf \<and>
    inflight (buf\<lparr>slots := xs\<rparr>) = inflight buf \<union> set new \<and>
    (length new < left \<longrightarrow> segment (rx_slot_offset p) buf \<subseteq> inflight (buf\<lparr>slots := xs\<rparr>))"
  (is "\<exists>new r nxt xs. ?P left p buf new r nxt xs")
  using assms
proof (induction left arbitrary: p buf)
  case 0
  have "?P 0 p buf [] (rx_ring p) (rx_slot_next p) (slots buf)"
    using 0 by (simp add: port_ok_def)
  then show ?case by blast
next
  case (Suc left)
  have ok: "port_ops p = ops" "ring_ok (num_rx_desc p) (rx_ring p)"
      "slot_ok (rx_slot_offset p) (rx_slot_next p) buf"
    using Suc.prems by (auto simp: port_ok_def)
  show ?case
    using ok(3)
  proof (cases rule: slot_assign_cases)
    case full
    then have "?P (Suc left) p buf [] (rx_ring p) (rx_slot_next p) (slots buf)"
      using ok by simp
    then show ?thesis by blast
  next
    case (slot k n xs)
    let ?b = "buf\<lparr>slots := xs\<rparr>" and ?p = "p\<lparr>rx_slot_next := n\<rparr>"
    have room: "ufp_desc_unused (rx_ring p) (ucast (num_rx_desc p)) \<noteq> 0" using Suc.prems by auto
    obtain r where r: "rx_assign_slot ?b ?p (int k) = Some (?p\<lparr>rx_ring := r\<rparr>)"
        "ring_ok (num_rx_desc p) r" "tail r = tail (rx_ring p)"
        "ring_queue (num_rx_desc p) r = ring_queue (num_rx_desc p) (rx_ring p) @ [int k]"
      using rx_assign_slot_spec [of ?p ?b "int k"] ok room by auto
    let ?q = "?p\<lparr>rx_ring := r\<rparr>"
    have "port_ok ops ?b i ?q"
      using Suc.prems(1) slot r by (simp add: port_ok_def)
    moreover have "left \<le> unat (ufp_desc_unused (rx_ring ?q) (ucast (num_rx_desc ?q)))"
      using Suc.prems(2) desc_unused_eq [OF r(2)] desc_unused_eq [OF ok(2)] r(4)
      by (auto dest!: arg_cong [of _ _ length])
    ultimately obtain new r' nxt ys where I: "?P left ?q ?b new r' nxt ys"
      using Suc.IH by blast
    have seg: "segment (rx_slot_offset p) ?b = segment (rx_slot_offset p) buf"
      by (simp add: segment_def)
    have "rx_assign_loop (Suc left) p buf =
      Some (p\<lparr>rx_ring := r', rx_slot_next := nxt,
              count_rx_alloc_failed := count_rx_alloc_failed p + of_nat (Suc left - length (int k # new))\<rparr>,
            buf\<lparr>slots := ys\<rparr>, length (int k # new))"
      using slot(1) r(1) I by simp
    moreover have "int k \<notin> set new" using I slot(5) by auto
    ultimately have "?P (Suc left) p buf (int k # new) r' nxt ys"
      using slot(2-5) r I seg by auto
    then show ?thesis by blast
  qed
qed

lemma rx_done_next:
  assumes "ring_ok n r" "next_to_clean r \<noteq> next_to_use r"
  shows "rx_done ops n (r\<lparr>next_to_clean := ring_next (next_to_clean r) n\<rparr>) buf k p p' =
    rx_done ops n r buf (Suc k) p p'"
proof -
  let ?r1 = "r\<lparr>next_to_clean := ring_next (next_to_clean r) n\<rparr>"
  have "ring_queue n ?r1 ! k = ring_queue n r ! Suc k"
    using ring_pop_head(1) [OF assms] by (metis nth_Cons_Suc)
  then show ?thesis
    by (simp only: rx_done_def fetch_rx_index ring_at_next [OF assms(1)])
qed

lemma rx_not_ready_next:
  "ring_ok n r \<Longrightarrow> rx_not_ready ops n (r\<lparr>next_to_clean := ring_next (next_to_clean r) n\<rparr>) k p =
     rx_not_ready ops n r (Suc k) p"
  by (simp add: rx_not_ready_def fetch_rx_index ring_at_next)

lemma tx_ready_next:
  "ring_ok n r \<Longrightarrow> tx_ready ops n (r\<lparr>next_to_clean := ring_next (next_to_clean r) n\<rparr>) k =
     tx_ready ops n r (Suc k)"
  by (simp add: tx_ready_def fetch_tx_index ring_at_next)

lemma rx_clean_loop_spec:
  assumes "port_ops p = ops" "ring_ok (num_rx_desc p) (rx_ring p)" "tot + left \<le> length pk"
  shows "\<exists>t r pk'. rx_clean_loop left tot p buf pk = Some (p\<lparr>rx_ring := r\<rparr>, pk', tot + t) \<and>
    ring_queue (num_rx_desc p) (rx_ring p) =
      take t (ring_queue (num_rx_desc p) (rx_ring p)) @ ring_queue (num_rx_desc p) r \<and>
    t \<le> left \<and> t \<le> ring_occ (num_rx_desc p) (rx_ring p) \<and>
    ring_ok (num_rx_desc p) r \<and> length pk' = length pk \<and> take tot pk' = take tot pk \<and>
    (\<forall>k<t. rx_done ops (num_rx_desc p) (rx_ring p) buf k (pk ! (tot + k)) (pk' ! (tot + k))) \<and>
    (t < left \<longrightarrow> t < ring_occ (num_rx_desc p) (rx_ring p) \<longrightarrow>
      rx_not_ready ops (num_rx_desc p) (rx_ring p) t (pk ! (tot + t)))"
  (is "\<exists>t r pk'. ?P left tot p pk t r pk'")
  using assms
proof (induction left arbitrary: tot p pk)
  case 0
  have "?P 0 tot p pk 0 (rx_ring p) pk" using 0 by simp
  then show ?case by blast
next
  case (Suc left)
  let ?r = "rx_ring p" and ?n = "num_rx_desc p"
  let ?c = "next_to_clean ?r" and ?q = "ring_queue ?n ?r"
  note ok = Suc.prems(2)
  show ?case
  proof (cases "?c = next_to_use ?r")
    case True
    then have "ring_occ ?n ?r = 0" using ring_occ_0_iff [OF ok] by simp
    then have "?P (Suc left) tot p pk 0 ?r pk" using True ok by (simp add: Let_def)
    then show ?thesis by (rule exI3 [where P = "?P (Suc left) tot p pk"])
  next
    case False
    have "unat ?c < length (ring_mem ?r)" using ok by (simp add: ring_ok_def)
    then obtain e q where f: "fetch_rx_desc ops ?r ?c (pk ! tot) = Some (e, q)"
      using fetch_rx by blast
    have tl: "tot < length pk" using Suc.prems(3) by simp
    show ?thesis
    proof (cases "e < 0")
      case True
      then have "?P (Suc left) tot p pk 0 ?r (pk[tot := q])"
        using False f ok Suc.prems(1) tl by (simp add: Let_def rx_not_ready_def ring_at_0)
      then show ?thesis by (rule exI3 [where P = "?P (Suc left) tot p pk"])
    next
      case nn: False
      let ?r1 = "?r\<lparr>next_to_clean := ring_next ?c ?n\<rparr>"
      note pop = ring_pop_head [OF ok False]
      let ?d = "q\<lparr>pkt_slot_index := hd ?q, pkt_slot_buf := ufp_slot_addr_virt buf (of_int (hd ?q))\<rparr>"
      let ?p1 = "p\<lparr>rx_ring := ?r1\<rparr>" and ?pk1 = "pk[tot := ?d]"
      have step: "rx_clean_loop (Suc left) tot p buf pk = rx_clean_loop left (Suc tot) ?p1 buf ?pk1"
        using False f nn pop(3) Suc.prems(1) tl by (simp add: Let_def)
      obtain t r pk' where I: "?P left (Suc tot) ?p1 ?pk1 t r pk'"
        using Suc.IH [of ?p1 "Suc tot" ?pk1] Suc.prems pop(2) by auto
      have occ: "ring_occ ?n ?r = Suc (ring_occ ?n ?r1)"
        using arg_cong [OF pop(1), of length] by simp
      have front: "pk' ! tot = ?d" "take tot pk' = take tot pk"
        using I tl by (metis lessI nth_take nth_list_update_eq,
            metis (no_types, lifting) less_Suc_eq_le less_irrefl min.absorb1 nat_le_linear take_take take_update_cancel order_refl le_SucI)
      have hd0: "hd ?q = ?q ! 0" using pop(1) by (metis nth_Cons_0)
      have got: "rx_done ops ?n ?r buf k (pk ! (tot + k)) (pk' ! (tot + k))" if "k < Suc t" for k
      proof (cases k)
        case 0
        then show ?thesis using f nn front(1) hd0 by (simp add: rx_done_def ring_at_0 [OF ok])
      next
        case (Suc j)
        then have "rx_done ops ?n ?r1 buf j (?pk1 ! (Suc tot + j)) (pk' ! (Suc tot + j))"
          using that I by auto
        then show ?thesis using Suc tl by (simp add: rx_done_next [OF ok False])
      qed
      have "ring_queue ?n ?r1 = take t (ring_queue ?n ?r1) @ ring_queue ?n r" using I by simp
      then have q: "?q = take (Suc t) ?q @ ring_queue ?n r"
        using pop(1) by (metis append_Cons take_Suc_Cons)
      have nr: "rx_not_ready ops ?n ?r (Suc t) (pk ! (tot + Suc t))"
        if "Suc t < Suc left" "Suc t < ring_occ ?n ?r"
      proof -
        have "rx_not_ready ops ?n ?r1 t (?pk1 ! (Suc tot + t))" using that I occ by simp
        then show ?thesis by (simp add: rx_not_ready_next [OF ok])
      qed
      have run: "rx_clean_loop (Suc left) tot p buf pk = Some (p\<lparr>rx_ring := r\<rparr>, pk', tot + Suc t)"
        unfolding step using I by simp
      have "t \<le> left" "t \<le> ring_occ ?n ?r1" "ring_ok ?n r" "length pk' = length pk"
        using I by simp_all
      then have "?P (Suc left) tot p pk (Suc t) r pk'"
        using run q nr got front(2) occ by (intro conjI) (simp_all only: Suc_le_mono, blast+)
      then show ?thesis by (rule exI3 [where P = "?P (Suc left) tot p pk"])
    qed
  qed
qed

lemma tx_clean_loop_spec:
  assumes "port_ops p = ops" "ring_ok (num_tx_desc p) (tx_ring p)"
    "distinct (ring_queue (num_tx_desc p) (tx_ring p))"
    "set (ring_queue (num_tx_desc p) (tx_ring p)) \<subseteq> inflight buf"
  shows "\<exists>t r xs. tx_clean_loop left tot p buf = Some (p\<lparr>tx_ring := r\<rparr>, buf\<lparr>slots := xs\<rparr>, tot + t) \<and>
    ring_queue (num_tx_desc p) (tx_ring p) =
      take t (ring_queue (num_tx_desc p) (tx_ring p)) @ ring_queue (num_tx_desc p) r \<and>
    inflight (buf\<lparr>slots := xs\<rparr>) = inflight buf - set (take t (ring_queue (num_tx_desc p) (tx_ring p))) \<and>
    t \<le> left \<and> t \<le> ring_occ (num_tx_desc p) (tx_ring p) \<and>
    ring_ok (num_tx_desc p) r \<and> length xs = length (slots buf) \<and>
    (\<forall>k<t. tx_ready ops (num_tx_desc p) (tx_ring p) k) \<and>
    (t < left \<longrightarrow> t < ring_occ (num_tx_desc p) (tx_ring p) \<longrightarrow>
      \<not> tx_ready ops (num_tx_desc p) (tx_ring p) t)"
  (is "\<exists>t r xs. ?P left tot p buf t r xs")
  using assms
proof (induction left arbitrary: tot p buf)
  case 0
  have "?P 0 tot p buf 0 (tx_ring p) (slots buf)" using 0 by simp
  then show ?case by (rule exI3 [where P = "?P 0 tot p buf"])
next
  case (Suc left)
  let ?r = "tx_ring p" and ?n = "num_tx_desc p"
  let ?c = "next_to_clean ?r" and ?q = "ring_queue ?n ?r"
  note ok = Suc.prems(2)
  show ?case
  proof (cases "?c = next_to_use ?r")
    case True
    then have "ring_occ ?n ?r = 0" using ring_occ_0_iff [OF ok] by simp
    then have "?P (Suc left) tot p buf 0 ?r (slots buf)" using True ok by (simp add: Let_def)
    then show ?thesis by (rule exI3 [where P = "?P (Suc left) tot p buf"])
  next
    case False
    have "unat ?c < length (ring_mem ?r)" using ok by (simp add: ring_ok_def)
    then obtain e where f: "fetch_tx_desc ops ?r ?c = Some e" using fetch_tx by blast
    show ?thesis
    proof (cases "e < 0")
      case True
      then have "?P (Suc left) tot p buf 0 ?r (slots buf)"
        using False f ok Suc.prems(1) by (simp add: Let_def tx_ready_def ring_at_0)
      then show ?thesis by (rule exI3 [where P = "?P (Suc left) tot p buf"])
    next
      case nn: False
      let ?r1 = "?r\<lparr>next_to_clean := ring_next ?c ?n\<rparr>"
      note pop = ring_pop_head [OF ok False]
      let ?p1 = "p\<lparr>tx_ring := ?r1\<rparr>"
      have mem: "hd ?q \<in> inflight buf" "hd ?q \<notin> set (ring_queue ?n ?r1)"
          "set (ring_queue ?n ?r1) \<subseteq> inflight buf" "distinct (ring_queue ?n ?r1)"
      proof -
        have d: "distinct (hd ?q # ring_queue ?n ?r1)" "set (hd ?q # ring_queue ?n ?r1) \<subseteq> inflight buf"
          using Suc.prems(3,4) unfolding pop(1) [symmetric] .
        then show "hd ?q \<in> inflight buf" "hd ?q \<notin> set (ring_queue ?n ?r1)"
          "set (ring_queue ?n ?r1) \<subseteq> inflight buf" "distinct (ring_queue ?n ?r1)" by auto
      qed
      obtain ys where ys: "ufp_slot_release buf (hd ?q) = Some (buf\<lparr>slots := ys\<rparr>)"
          "length ys = length (slots buf)" "inflight (buf\<lparr>slots := ys\<rparr>) = inflight buf - {hd ?q}"
        using slot_release_spec [OF mem(1)] by blast
      let ?b1 = "buf\<lparr>slots := ys\<rparr>"
      have step: "tx_clean_loop (Suc left) tot p buf = tx_clean_loop left (Suc tot) ?p1 ?b1"
        using False f nn pop(3) ys(1) Suc.prems(1) by (simp add: Let_def)
      have pre: "set (ring_queue ?n ?r1) \<subseteq> inflight ?b1" using mem(2,3) ys(3) by blast
      have "\<exists>t r xs. ?P left (Suc tot) ?p1 ?b1 t r xs"
        by (rule Suc.IH) (use Suc.prems(1) pop(2) mem(4) pre in simp_all)
      then obtain t r xs where I: "?P left (Suc tot) ?p1 ?b1 t r xs" by (elim exE)
      have occ: "ring_occ ?n ?r = Suc (ring_occ ?n ?r1)"
        using arg_cong [OF pop(1), of length] by simp
      have ready: "tx_ready ops ?n ?r k" if "k < Suc t" for k
        using that I f nn ok by (cases k) (auto simp: tx_ready_next tx_ready_def [of _ _ _ 0] ring_at_0)
      have t: "take (Suc t) ?q = hd ?q # take t (ring_queue ?n ?r1)"
        using pop(1) by (metis take_Suc_Cons)
      have "ring_queue ?n ?r1 = take t (ring_queue ?n ?r1) @ ring_queue ?n r" using I by simp
      then have q: "?q = take (Suc t) ?q @ ring_queue ?n r"
        using pop(1) t by (metis append_Cons)
      have nr: "\<not> tx_ready ops ?n ?r (Suc t)" if "Suc t < Suc left" "Suc t < ring_occ ?n ?r"
        using that I occ by (simp add: tx_ready_next [OF ok])
      have run: "tx_clean_loop (Suc left) tot p buf = Some (p\<lparr>tx_ring := r\<rparr>, buf\<lparr>slots := xs\<rparr>, tot + Suc t)"
        unfolding step using I by simp
      have infl: "inflight (buf\<lparr>slots := xs\<rparr>) = inflight buf - set (take (Suc t) ?q)"
      proof -
        have "inflight (buf\<lparr>slots := xs\<rparr>) = inflight ?b1 - set (take t (ring_queue ?n ?r1))" using I by simp
        then show ?thesis unfolding t ys(3) list.set by blast
      qed
      have "t \<le> left" "t \<le> ring_occ ?n ?r1" "ring_ok ?n r" "length xs = length (slots buf)"
        using I ys(2) by simp_all
      then have "?P (Suc left) tot p buf (Suc t) r xs"
        using run q nr ready infl occ by (intro conjI) (simp_all only: Suc_le_mono, blast+)
      then show ?thesis by (rule exI3 [where P = "?P (Suc left) tot p buf"])
    qed
  qed
qed

text \<open>The operations on a plane. A port other than the one named is left as it is.\<close>

lemma rx_assign_spec:
  assumes inv: "io_inv ops plane buf held" and i: "i < length (ports plane)"
  defines "p \<equiv> ports plane ! i"
  shows "\<exists>p' xs new. ufp_rx_assign plane i buf = Some (plane_set_port plane i p', buf\<lparr>slots := xs\<rparr>,
        if new = [] then [] else [(tail (rx_ring p), ucast (next_to_use (rx_ring p')))]) \<and>
      io_inv ops (plane_set_port plane i p') (buf\<lparr>slots := xs\<rparr>) held \<and>
      ring_queue (num_rx_desc p) (rx_ring p') = ring_queue (num_rx_desc p) (rx_ring p) @ new \<and>
      tx_ring p' = tx_ring p \<and> num_rx_desc p' = num_rx_desc p \<and> num_tx_desc p' = num_tx_desc p \<and>
      set new \<subseteq> segment (rx_slot_offset p) buf - inflight buf \<and>
      inflight (buf\<lparr>slots := xs\<rparr>) = inflight buf \<union> set new \<and>
      (length new = unat (ufp_desc_unused (rx_ring p) (ucast (num_rx_desc p))) \<or>
       segment (rx_slot_offset p) buf \<subseteq> inflight (buf\<lparr>slots := xs\<rparr>))"
proof -
  let ?m = "ufp_desc_unused (rx_ring p) (ucast (num_rx_desc p))"
  have ok: "port_ok ops buf i p" using io_inv_portD [OF inv i] by (simp add: p_def)
  have port: "plane_port plane i = Some p" using i by (simp add: plane_port_def p_def)
  show ?thesis
  proof (cases "?m = 0")
    case True
    have same: "plane_set_port plane i p = plane" by (simp add: plane_set_port_def p_def)
    show ?thesis
      using True port inv
      by (intro exI [of _ p] exI [of _ "slots buf"] exI [of _ "[]"]) (simp add: ufp_rx_assign_def same)
  next
    case False
    obtain new r nxt xs where L: "rx_assign_loop (unat ?m) p buf =
      Some (p\<lparr>rx_ring := r, rx_slot_next := nxt,
              count_rx_alloc_failed := count_rx_alloc_failed p + of_nat (unat ?m - length new)\<rparr>,
            buf\<lparr>slots := xs\<rparr>, length new)"
      and q: "ring_queue (num_rx_desc p) r = ring_queue (num_rx_desc p) (rx_ring p) @ new"
      and r: "tail r = tail (rx_ring p)" "ring_ok (num_rx_desc p) r"
        "slot_ok (rx_slot_offset p) nxt (buf\<lparr>slots := xs\<rparr>)" "length xs = length (slots buf)"
      and new: "length new \<le> unat ?m" "distinct new" "set new \<subseteq> segment (rx_slot_offset p) buf - inflight buf"
        "inflight (buf\<lparr>slots := xs\<rparr>) = inflight buf \<union> set new"
        "length new < unat ?m \<longrightarrow> segment (rx_slot_offset p) buf \<subseteq> inflight (buf\<lparr>slots := xs\<rparr>)"
      using rx_assign_loop_spec [OF ok order_refl] by metis
    let ?p' = "p\<lparr>rx_ring := r, rx_slot_next := nxt,
      count_rx_alloc_failed := count_rx_alloc_failed p + of_nat (unat ?m - length new)\<rparr>"
    have run: "ufp_rx_assign plane i buf = Some (plane_set_port plane i ?p', buf\<lparr>slots := xs\<rparr>,
        if new = [] then [] else [(tail (rx_ring p), ucast (next_to_use (rx_ring ?p')))])"
      using L False r(1) by (simp add: ufp_rx_assign_def port ufp_write_tail_def)
    have ok': "port_ok ops buf i ?p'"
      using ok r by (simp add: port_ok_def slot_ok_def)
    have "mset_set (inflight buf \<union> set new) = mset_set (inflight buf) + mset new"
      using new(2,3) by (subst mset_set_Union) (auto simp: mset_set_set)
    then have "port_held ?p' + held + mset_set (inflight buf) =
        port_held p + held + mset_set (inflight (buf\<lparr>slots := xs\<rparr>))"
      using q new(4) by (simp add: port_held_def)
    then have "io_inv ops (plane_set_port plane i ?p') (buf\<lparr>slots := xs\<rparr>) held"
      using io_inv_update [OF inv i ok' r(4)] by (simp add: p_def)
    then show ?thesis
      using run q new by (intro exI [of _ ?p'] exI [of _ xs] exI [of _ new]) (simp, linarith)
  qed
qed

lemma release_spec:
  assumes inv: "io_inv ops plane buf held" and si: "si \<in># held"
  shows "\<exists>xs. ufp_slot_release buf si = Some (buf\<lparr>slots := xs\<rparr>) \<and>
    io_inv ops plane (buf\<lparr>slots := xs\<rparr>) (held - {#si#}) \<and>
    inflight (buf\<lparr>slots := xs\<rparr>) = inflight buf - {si}"
proof -
  have mem: "si \<in> inflight buf" by (rule io_inv_held [OF inv si])
  obtain xs where xs: "ufp_slot_release buf si = Some (buf\<lparr>slots := xs\<rparr>)"
      "length xs = length (slots buf)" "inflight (buf\<lparr>slots := xs\<rparr>) = inflight buf - {si}"
    using slot_release_spec [OF mem] by blast
  have "mset_set (inflight buf - {si}) = mset_set (inflight buf) - {#si#}"
    using mem by (simp add: mset_set_Diff)
  also have "\<dots> = plane_held plane + held - {#si#}" using inv by (simp add: io_inv_def)
  also have "\<dots> = plane_held plane + (held - {#si#})" using si by (intro multiset_diff_union_assoc) simp
  finally have "io_inv ops plane (buf\<lparr>slots := xs\<rparr>) (held - {#si#})"
    using inv xs by (simp add: io_inv_def plane_ok_slots)
  then show ?thesis using xs by blast
qed

lemma tx_assign_spec:
  assumes inv: "io_inv ops plane buf held" and i: "i < length (ports plane)"
    and si: "pkt_slot_index pkt \<in># held"
  defines "p \<equiv> ports plane ! i"
  shows "\<exists>p' xs. ufp_tx_assign plane i buf pkt = Some (plane_set_port plane i p', buf\<lparr>slots := xs\<rparr>) \<and>
      io_inv ops (plane_set_port plane i p') (buf\<lparr>slots := xs\<rparr>) (held - {#pkt_slot_index pkt#}) \<and>
      rx_ring p' = rx_ring p \<and> num_rx_desc p' = num_rx_desc p \<and> num_tx_desc p' = num_tx_desc p \<and>
      (if ufp_desc_unused (tx_ring p) (ucast (num_tx_desc p)) = 0
       then tx_ring p' = tx_ring p \<and> tx_suspended p' = tx_suspended p \<and>
         count_tx_xmit_failed p' = count_tx_xmit_failed p + 1 \<and>
         inflight (buf\<lparr>slots := xs\<rparr>) = inflight buf - {pkt_slot_index pkt}
       else ring_queue (num_tx_desc p) (tx_ring p') =
           ring_queue (num_tx_desc p) (tx_ring p) @ [pkt_slot_index pkt] \<and>
         tx_suspended p' = tx_suspended p + 1 \<and> xs = slots buf)"
proof -
  let ?r = "tx_ring p" and ?n = "num_tx_desc p" and ?s = "pkt_slot_index pkt"
  have ok: "port_ok ops buf i p" using io_inv_portD [OF inv i] by (simp add: p_def)
  have rok: "ring_ok ?n ?r" using ok by (simp add: port_ok_def)
  have port: "plane_port plane i = Some p" using i by (simp add: plane_port_def p_def)
  show ?thesis
  proof (cases "ufp_desc_unused ?r (ucast ?n) = 0")
    case True
    let ?p' = "p\<lparr>count_tx_xmit_failed := count_tx_xmit_failed p + 1\<rparr>"
    obtain xs where xs: "ufp_slot_release buf ?s = Some (buf\<lparr>slots := xs\<rparr>)"
        "io_inv ops plane (buf\<lparr>slots := xs\<rparr>) (held - {#?s#})"
        "inflight (buf\<lparr>slots := xs\<rparr>) = inflight buf - {?s}"
      using release_spec [OF inv si] by blast
    have "port_ok ops (buf\<lparr>slots := xs\<rparr>) i ?p'"
      using io_inv_portD [OF xs(2) i] by (simp add: p_def port_ok_def)
    then have "io_inv ops (plane_set_port plane i ?p') (buf\<lparr>slots := xs\<rparr>) (held - {#?s#})"
      using io_inv_update [OF xs(2) i, of ?p' xs] by (simp add: port_held_def p_def)
    then show ?thesis
      using True xs port by (intro exI [of _ ?p'] exI [of _ xs]) (simp add: ufp_tx_assign_def)
  next
    case False
    let ?a = "ufp_slot_addr_dma buf ?s"
    have "unat (next_to_use ?r) < length (ring_mem ?r)" using rok by (simp add: ring_ok_def)
    then obtain d where
      d: "fill_tx_desc ops ?r (next_to_use ?r) ?a pkt =
        Some (?r\<lparr>ring_mem := (ring_mem ?r)[unat (next_to_use ?r) := d]\<rparr>)"
      using fill_tx by blast
    let ?r1 = "?r\<lparr>ring_mem := (ring_mem ?r)[unat (next_to_use ?r) := d]\<rparr>"
    have "ring_ok ?n ?r1" using rok by (simp add: ring_ok_mem)
    then obtain r where r: "ring_push ?n ?r1 ?s = Some r" "ring_ok ?n r"
        "ring_queue ?n r = ring_queue ?n ?r @ [?s]"
      using ring_push_queue [of ?n ?r1 ?s] False by auto
    let ?p' = "p\<lparr>tx_ring := r, tx_suspended := tx_suspended p + 1\<rparr>"
    have run: "ufp_tx_assign plane i buf pkt = Some (plane_set_port plane i ?p', buf\<lparr>slots := slots buf\<rparr>)"
      using r(1) d ok False port
      by (auto simp: ufp_tx_assign_def ring_push_def ufp_slot_attach_def port_ok_def split: if_splits)
    have ok': "port_ok ops buf i ?p'" using ok r by (simp add: port_ok_def)
    have "port_held ?p' + (held - {#?s#}) = port_held p + held"
      using r(3) si by (simp add: port_held_def)
    then have "io_inv ops (plane_set_port plane i ?p') (buf\<lparr>slots := slots buf\<rparr>) (held - {#?s#})"
      using io_inv_update [OF inv i ok', of "slots buf" "held - {#?s#}"] by (simp add: p_def)
    then show ?thesis using run r False by (intro exI [of _ ?p'] exI [of _ "slots buf"]) simp
  qed
qed

lemma tx_xmit_spec:
  assumes inv: "io_inv ops plane buf held" and i: "i < length (ports plane)"
  defines "p \<equiv> ports plane ! i"
  shows "\<exists>p'. ufp_tx_xmit plane i = Some (plane_set_port plane i p',
        if tx_suspended p = 0 then [] else [(tail (tx_ring p), ucast (next_to_use (tx_ring p)))]) \<and>
      p' = p\<lparr>tx_suspended := 0\<rparr> \<and> io_inv ops (plane_set_port plane i p') buf held"
proof -
  let ?p' = "p\<lparr>tx_suspended := 0\<rparr>"
  have ok: "port_ok ops buf i ?p'" using io_inv_portD [OF inv i] by (simp add: p_def port_ok_def)
  have port: "plane_port plane i = Some p" using i by (simp add: plane_port_def p_def)
  have "io_inv ops (plane_set_port plane i ?p') (buf\<lparr>slots := slots buf\<rparr>) held"
    using io_inv_update [OF inv i ok, of "slots buf" held] by (simp add: port_held_def p_def)
  moreover have "ufp_tx_xmit plane i = Some (plane_set_port plane i ?p',
      if tx_suspended p = 0 then [] else [(tail (tx_ring p), ucast (next_to_use (tx_ring p)))])"
  proof (cases "tx_suspended p = 0")
    case True
    then have "?p' = p" by simp
    moreover have "plane_set_port plane i p = plane" by (simp add: plane_set_port_def p_def)
    ultimately show ?thesis using True port by (simp only: ufp_tx_xmit_def) simp
  qed (simp add: ufp_tx_xmit_def ufp_write_tail_def port)
  ultimately show ?thesis by simp
qed

lemma rx_clean_spec:
  assumes inv: "io_inv ops plane buf held" and i: "i < length (ports plane)"
  defines "p \<equiv> ports plane ! i"
  assumes len: "unat (rx_budget p) \<le> length pk"
  shows "\<exists>p' pk' t. ufp_rx_clean plane i buf pk = Some (plane_set_port plane i p', pk', t) \<and>
      io_inv ops (plane_set_port plane i p') buf (held + mset (map pkt_slot_index (take t pk'))) \<and>
      ring_queue (num_rx_desc p) (rx_ring p) =
        map pkt_slot_index (take t pk') @ ring_queue (num_rx_desc p) (rx_ring p') \<and>
      tx_ring p' = tx_ring p \<and> num_rx_desc p' = num_rx_desc p \<and> num_tx_desc p' = num_tx_desc p \<and>
      count_rx_clean_total p' = count_rx_clean_total p + of_nat t \<and>
      t \<le> unat (rx_budget p) \<and> length pk' = length pk \<and>
      (\<forall>k<t. rx_done ops (num_rx_desc p) (rx_ring p) buf k (pk ! k) (pk' ! k)) \<and>
      (t = unat (rx_budget p) \<or> t = ring_occ (num_rx_desc p) (rx_ring p) \<or>
       rx_not_ready ops (num_rx_desc p) (rx_ring p) t (pk ! t))"
proof -
  let ?r = "rx_ring p" and ?n = "num_rx_desc p"
  have ok: "port_ok ops buf i p" using io_inv_portD [OF inv i] by (simp add: p_def)
  have pok: "port_ops p = ops" "ring_ok ?n ?r" using ok by (auto simp: port_ok_def)
  have port: "plane_port plane i = Some p" using i by (simp add: plane_port_def p_def)
  have "0 + unat (rx_budget p) \<le> length pk" using len by simp
  from rx_clean_loop_spec [OF pok this, of buf, unfolded add_0]
  obtain t r pk' where L: "rx_clean_loop (unat (rx_budget p)) 0 p buf pk = Some (p\<lparr>rx_ring := r\<rparr>, pk', t)"
    and q: "ring_queue ?n ?r = take t (ring_queue ?n ?r) @ ring_queue ?n r"
    and t: "t \<le> unat (rx_budget p)" "t \<le> ring_occ ?n ?r" and r: "ring_ok ?n r" and lpk: "length pk' = length pk"
    and got: "\<forall>k<t. rx_done ops ?n ?r buf k (pk ! k) (pk' ! k)"
    and nr: "t < unat (rx_budget p) \<longrightarrow> t < ring_occ ?n ?r \<longrightarrow> rx_not_ready ops ?n ?r t (pk ! t)"
    by (elim exE conjE)
  let ?p' = "p\<lparr>rx_ring := r, count_rx_clean_total := count_rx_clean_total p + of_nat t\<rparr>"
  have idx: "map pkt_slot_index (take t pk') = take t (ring_queue ?n ?r)"
  proof (rule nth_equalityI)
    fix k assume "k < length (map pkt_slot_index (take t pk'))"
    then have k: "k < t" by simp
    then show "map pkt_slot_index (take t pk') ! k = take t (ring_queue ?n ?r) ! k"
      using got t lpk len by (fastforce simp: rx_done_def split: option.splits)
  qed (use t lpk len in simp)
  have q': "ring_queue ?n ?r = map pkt_slot_index (take t pk') @ ring_queue ?n r"
    using q by (simp only: idx)
  have run: "ufp_rx_clean plane i buf pk = Some (plane_set_port plane i ?p', pk', t)"
    using L by (simp add: ufp_rx_clean_def port)
  have ok': "port_ok ops buf i ?p'" using ok r by (simp add: port_ok_def)
  have "mset (ring_queue ?n ?r) = mset (map pkt_slot_index (take t pk')) + mset (ring_queue ?n r)"
    by (subst q') (simp only: mset_append)
  then have "port_held ?p' + (held + mset (map pkt_slot_index (take t pk'))) = port_held p + held"
    by (simp add: port_held_def)
  then have "io_inv ops (plane_set_port plane i ?p') (buf\<lparr>slots := slots buf\<rparr>)
      (held + mset (map pkt_slot_index (take t pk')))"
    using io_inv_update [OF inv i ok', of "slots buf"] by (simp add: p_def)
  then have "io_inv ops (plane_set_port plane i ?p') buf (held + mset (map pkt_slot_index (take t pk')))"
    by simp
  moreover have "t = unat (rx_budget p) \<or> t = ring_occ ?n ?r \<or> rx_not_ready ops ?n ?r t (pk ! t)"
    using nr t by linarith
  moreover have "ring_queue ?n ?r = map pkt_slot_index (take t pk') @ ring_queue ?n (rx_ring ?p')"
    using q' by simp
  ultimately show ?thesis using run t(1) lpk got by (intro exI [of _ ?p'] exI [of _ pk'] exI [of _ t]) simp
qed

lemma io_inv_tx_queue:
  assumes inv: "io_inv ops plane buf held" and i: "i < length (ports plane)"
  shows "distinct (ring_queue (num_tx_desc (ports plane ! i)) (tx_ring (ports plane ! i)))"
    "set (ring_queue (num_tx_desc (ports plane ! i)) (tx_ring (ports plane ! i))) \<subseteq> inflight buf"
proof -
  let ?q = "ring_queue (num_tx_desc (ports plane ! i)) (tx_ring (ports plane ! i))"
  have "mset ?q \<subseteq># port_held (ports plane ! i)" by (simp add: port_held_def)
  also have "\<dots> \<subseteq># plane_held plane"
    using i by (rule plane_held_split) simp
  also have "\<dots> \<subseteq># mset_set (inflight buf)"
    using inv unfolding io_inv_def by (metis mset_subset_eq_add_left)
  finally have le: "mset ?q \<subseteq># mset_set (inflight buf)" .
  show "set ?q \<subseteq> inflight buf" using set_mset_mono [OF le] by simp
  have "count (mset ?q) x \<le> 1" for x
    by (rule order_trans [OF mset_subset_eq_count [OF le]]) (simp add: count_mset_set')
  then show "distinct ?q" by (rule distinct_mset_le_1)
qed

lemma tx_clean_spec:
  assumes inv: "io_inv ops plane buf held" and i: "i < length (ports plane)"
  defines "p \<equiv> ports plane ! i"
  shows "\<exists>p' xs t. ufp_tx_clean plane i buf = Some (plane_set_port plane i p', buf\<lparr>slots := xs\<rparr>) \<and>
      io_inv ops (plane_set_port plane i p') (buf\<lparr>slots := xs\<rparr>) held \<and>
      ring_queue (num_tx_desc p) (tx_ring p) =
        take t (ring_queue (num_tx_desc p) (tx_ring p)) @ ring_queue (num_tx_desc p) (tx_ring p') \<and>
      inflight (buf\<lparr>slots := xs\<rparr>) = inflight buf - set (take t (ring_queue (num_tx_desc p) (tx_ring p))) \<and>
      rx_ring p' = rx_ring p \<and> num_rx_desc p' = num_rx_desc p \<and> num_tx_desc p' = num_tx_desc p \<and>
      count_tx_clean_total p' = count_tx_clean_total p + of_nat t \<and>
      t \<le> unat (tx_budget p) \<and> (\<forall>k<t. tx_ready ops (num_tx_desc p) (tx_ring p) k) \<and>
      (t = unat (tx_budget p) \<or> t = ring_occ (num_tx_desc p) (tx_ring p) \<or>
       \<not> tx_ready ops (num_tx_desc p) (tx_ring p) t)"
proof -
  let ?r = "tx_ring p" and ?n = "num_tx_desc p"
  let ?q = "ring_queue ?n ?r"
  have ok: "port_ok ops buf i p" using io_inv_portD [OF inv i] by (simp add: p_def)
  have pok: "port_ops p = ops" "ring_ok ?n ?r" using ok by (auto simp: port_ok_def)
  have port: "plane_port plane i = Some p" using i by (simp add: plane_port_def p_def)
  note dq = io_inv_tx_queue [OF inv i, folded p_def]
  from tx_clean_loop_spec [OF pok dq, of "unat (tx_budget p)" 0, unfolded add_0]
  obtain t r xs where L: "tx_clean_loop (unat (tx_budget p)) 0 p buf = Some (p\<lparr>tx_ring := r\<rparr>, buf\<lparr>slots := xs\<rparr>, t)"
    and q: "?q = take t ?q @ ring_queue ?n r"
    and infl: "inflight (buf\<lparr>slots := xs\<rparr>) = inflight buf - set (take t ?q)"
    and t: "t \<le> unat (tx_budget p)" "t \<le> ring_occ ?n ?r" and r: "ring_ok ?n r" and len: "length xs = length (slots buf)"
    and got: "\<forall>k<t. tx_ready ops ?n ?r k"
    and nr: "t < unat (tx_budget p) \<longrightarrow> t < ring_occ ?n ?r \<longrightarrow> \<not> tx_ready ops ?n ?r t"
    by (elim exE conjE)
  let ?p' = "p\<lparr>tx_ring := r, count_tx_clean_total := count_tx_clean_total p + of_nat t\<rparr>"
  have run: "ufp_tx_clean plane i buf = Some (plane_set_port plane i ?p', buf\<lparr>slots := xs\<rparr>)"
    using L by (simp add: ufp_tx_clean_def port)
  have ok': "port_ok ops buf i ?p'" using ok r by (simp add: port_ok_def)
  have sub: "set (take t ?q) \<subseteq> inflight buf" "distinct (take t ?q)"
    using dq set_take_subset [of t ?q] by auto
  have "mset_set (inflight buf) = mset_set (inflight buf - set (take t ?q)) + mset (take t ?q)"
  proof -
    have "inflight buf = (inflight buf - set (take t ?q)) \<union> set (take t ?q)" using sub by blast
    also have "mset_set \<dots> = mset_set (inflight buf - set (take t ?q)) + mset_set (set (take t ?q))"
      by (rule mset_set_Union) auto
    finally show ?thesis using sub(2) by (simp only: mset_set_set)
  qed
  moreover have "mset ?q = mset (take t ?q) + mset (ring_queue ?n r)"
    by (subst q) (simp only: mset_append)
  ultimately have "port_held ?p' + held + mset_set (inflight buf) =
      port_held p + held + mset_set (inflight (buf\<lparr>slots := xs\<rparr>))"
    using infl by (simp add: port_held_def)
  then have "io_inv ops (plane_set_port plane i ?p') (buf\<lparr>slots := xs\<rparr>) held"
    using io_inv_update [OF inv i ok' len] by (simp add: p_def)
  moreover have "t = unat (tx_budget p) \<or> t = ring_occ ?n ?r \<or> \<not> tx_ready ops ?n ?r t"
    using nr t by linarith
  moreover have "?q = take t ?q @ ring_queue ?n (tx_ring ?p')" using q by simp
  ultimately show ?thesis
    using run infl t(1) got by (intro exI [of _ ?p'] exI [of _ xs] exI [of _ t]) simp
qed

end

end
