(* ===== verification/I40e_Regs.thy ===== *)
theory I40e_Regs
  imports Ufp_Prelude
begin

text \<open>
  The device registers and register fields that the i40e driver uses, with the names of
  \<open>dev/i40e/i40e_regs.h\<close>: the offset of a register into the device's address space, the mask and
  the shift of a field. A register that exists several times takes its index as an argument. Most
  fields of that header that no code uses are left out.
\<close>

definition I40E_MASK :: "u32 \<Rightarrow> nat \<Rightarrow> u32" where
  "I40E_MASK m shift = push_bit shift m"

definition I40E_VPINT_LNKLST0 :: "u32 \<Rightarrow> u32" where
  "I40E_VPINT_LNKLST0 a0 = (0x0002A800 + (a0 * 4))"

definition I40E_VPINT_LNKLST0_FIRSTQ_INDX_SHIFT :: "nat" where
  "I40E_VPINT_LNKLST0_FIRSTQ_INDX_SHIFT = 0"

definition I40E_VPINT_LNKLSTN :: "u32 \<Rightarrow> u32" where
  "I40E_VPINT_LNKLSTN a0 = (0x00025000 + (a0 * 4))"

definition I40E_PFINT_ITRN :: "u32 \<Rightarrow> u32 \<Rightarrow> u32" where
  "I40E_PFINT_ITRN a0 a1 = (0x00030000 + (a0 * 2048 + a1 * 4))"

definition I40E_PFINT_DYN_CTLN :: "u32 \<Rightarrow> u32" where
  "I40E_PFINT_DYN_CTLN a0 = (0x00034800 + (a0 * 4))"

definition I40E_PFINT_DYN_CTLN_INTENA_SHIFT :: "nat" where
  "I40E_PFINT_DYN_CTLN_INTENA_SHIFT = 0"

definition I40E_PFINT_DYN_CTLN_INTENA_MASK :: "u32" where
  "I40E_PFINT_DYN_CTLN_INTENA_MASK = I40E_MASK 0x1 I40E_PFINT_DYN_CTLN_INTENA_SHIFT"

definition I40E_PFINT_DYN_CTLN_CLEARPBA_SHIFT :: "nat" where
  "I40E_PFINT_DYN_CTLN_CLEARPBA_SHIFT = 1"

definition I40E_PFINT_DYN_CTLN_CLEARPBA_MASK :: "u32" where
  "I40E_PFINT_DYN_CTLN_CLEARPBA_MASK = I40E_MASK 0x1 I40E_PFINT_DYN_CTLN_CLEARPBA_SHIFT"

definition I40E_PFINT_DYN_CTLN_ITR_INDX_SHIFT :: "nat" where
  "I40E_PFINT_DYN_CTLN_ITR_INDX_SHIFT = 3"

definition I40E_PFINT_RATEN :: "u32 \<Rightarrow> u32" where
  "I40E_PFINT_RATEN a0 = (0x00035800 + (a0 * 4))"

definition I40E_PFINT_ITR0 :: "u32 \<Rightarrow> u32" where
  "I40E_PFINT_ITR0 a0 = (0x00038000 + (a0 * 128))"

definition I40E_PFINT_STAT_CTL0 :: "u32" where
  "I40E_PFINT_STAT_CTL0 = 0x00038400"

definition I40E_PFINT_DYN_CTL0 :: "u32" where
  "I40E_PFINT_DYN_CTL0 = 0x00038480"

definition I40E_PFINT_DYN_CTL0_INTENA_SHIFT :: "nat" where
  "I40E_PFINT_DYN_CTL0_INTENA_SHIFT = 0"

definition I40E_PFINT_DYN_CTL0_INTENA_MASK :: "u32" where
  "I40E_PFINT_DYN_CTL0_INTENA_MASK = I40E_MASK 0x1 I40E_PFINT_DYN_CTL0_INTENA_SHIFT"

definition I40E_PFINT_DYN_CTL0_CLEARPBA_SHIFT :: "nat" where
  "I40E_PFINT_DYN_CTL0_CLEARPBA_SHIFT = 1"

definition I40E_PFINT_DYN_CTL0_CLEARPBA_MASK :: "u32" where
  "I40E_PFINT_DYN_CTL0_CLEARPBA_MASK = I40E_MASK 0x1 I40E_PFINT_DYN_CTL0_CLEARPBA_SHIFT"

definition I40E_PFINT_DYN_CTL0_ITR_INDX_SHIFT :: "nat" where
  "I40E_PFINT_DYN_CTL0_ITR_INDX_SHIFT = 3"

definition I40E_PFINT_LNKLST0 :: "u32" where
  "I40E_PFINT_LNKLST0 = 0x00038500"

definition I40E_PFINT_LNKLST0_FIRSTQ_INDX_SHIFT :: "nat" where
  "I40E_PFINT_LNKLST0_FIRSTQ_INDX_SHIFT = 0"

definition I40E_PFINT_LNKLSTN :: "u32 \<Rightarrow> u32" where
  "I40E_PFINT_LNKLSTN a0 = (0x00035000 + (a0 * 4))"

definition I40E_PFINT_LNKLSTN_FIRSTQ_INDX_SHIFT :: "nat" where
  "I40E_PFINT_LNKLSTN_FIRSTQ_INDX_SHIFT = 0"

definition I40E_PFINT_LNKLSTN_FIRSTQ_TYPE_SHIFT :: "nat" where
  "I40E_PFINT_LNKLSTN_FIRSTQ_TYPE_SHIFT = 11"

definition I40E_PFINT_ICR0 :: "u32" where
  "I40E_PFINT_ICR0 = 0x00038780"

definition I40E_PFINT_ICR0_ENA :: "u32" where
  "I40E_PFINT_ICR0_ENA = 0x00038800"

definition I40E_PFINT_ICR0_ENA_ECC_ERR_SHIFT :: "nat" where
  "I40E_PFINT_ICR0_ENA_ECC_ERR_SHIFT = 16"

definition I40E_PFINT_ICR0_ENA_ECC_ERR_MASK :: "u32" where
  "I40E_PFINT_ICR0_ENA_ECC_ERR_MASK = I40E_MASK 0x1 I40E_PFINT_ICR0_ENA_ECC_ERR_SHIFT"

definition I40E_PFINT_ICR0_ENA_MAL_DETECT_SHIFT :: "nat" where
  "I40E_PFINT_ICR0_ENA_MAL_DETECT_SHIFT = 19"

definition I40E_PFINT_ICR0_ENA_MAL_DETECT_MASK :: "u32" where
  "I40E_PFINT_ICR0_ENA_MAL_DETECT_MASK = I40E_MASK 0x1 I40E_PFINT_ICR0_ENA_MAL_DETECT_SHIFT"

definition I40E_PFINT_ICR0_ENA_GRST_SHIFT :: "nat" where
  "I40E_PFINT_ICR0_ENA_GRST_SHIFT = 20"

definition I40E_PFINT_ICR0_ENA_GRST_MASK :: "u32" where
  "I40E_PFINT_ICR0_ENA_GRST_MASK = I40E_MASK 0x1 I40E_PFINT_ICR0_ENA_GRST_SHIFT"

definition I40E_PFINT_ICR0_ENA_PCI_EXCEPTION_SHIFT :: "nat" where
  "I40E_PFINT_ICR0_ENA_PCI_EXCEPTION_SHIFT = 21"

definition I40E_PFINT_ICR0_ENA_PCI_EXCEPTION_MASK :: "u32" where
  "I40E_PFINT_ICR0_ENA_PCI_EXCEPTION_MASK = I40E_MASK 0x1 I40E_PFINT_ICR0_ENA_PCI_EXCEPTION_SHIFT"

definition I40E_PFINT_ICR0_ENA_GPIO_SHIFT :: "nat" where
  "I40E_PFINT_ICR0_ENA_GPIO_SHIFT = 22"

definition I40E_PFINT_ICR0_ENA_GPIO_MASK :: "u32" where
  "I40E_PFINT_ICR0_ENA_GPIO_MASK = I40E_MASK 0x1 I40E_PFINT_ICR0_ENA_GPIO_SHIFT"

definition I40E_PFINT_ICR0_ENA_HMC_ERR_SHIFT :: "nat" where
  "I40E_PFINT_ICR0_ENA_HMC_ERR_SHIFT = 26"

definition I40E_PFINT_ICR0_ENA_HMC_ERR_MASK :: "u32" where
  "I40E_PFINT_ICR0_ENA_HMC_ERR_MASK = I40E_MASK 0x1 I40E_PFINT_ICR0_ENA_HMC_ERR_SHIFT"

definition I40E_PFINT_ICR0_ENA_VFLR_SHIFT :: "nat" where
  "I40E_PFINT_ICR0_ENA_VFLR_SHIFT = 29"

definition I40E_PFINT_ICR0_ENA_VFLR_MASK :: "u32" where
  "I40E_PFINT_ICR0_ENA_VFLR_MASK = I40E_MASK 0x1 I40E_PFINT_ICR0_ENA_VFLR_SHIFT"

definition I40E_PFINT_ICR0_ENA_ADMINQ_SHIFT :: "nat" where
  "I40E_PFINT_ICR0_ENA_ADMINQ_SHIFT = 30"

definition I40E_PFINT_ICR0_ENA_ADMINQ_MASK :: "u32" where
  "I40E_PFINT_ICR0_ENA_ADMINQ_MASK = I40E_MASK 0x1 I40E_PFINT_ICR0_ENA_ADMINQ_SHIFT"

definition I40E_QINT_RQCTL :: "u32 \<Rightarrow> u32" where
  "I40E_QINT_RQCTL a0 = (0x0003A000 + (a0 * 4))"

definition I40E_QINT_RQCTL_MSIX_INDX_SHIFT :: "nat" where
  "I40E_QINT_RQCTL_MSIX_INDX_SHIFT = 0"

definition I40E_QINT_RQCTL_MSIX_INDX_MASK :: "u32" where
  "I40E_QINT_RQCTL_MSIX_INDX_MASK = I40E_MASK 0xFF I40E_QINT_RQCTL_MSIX_INDX_SHIFT"

definition I40E_QINT_RQCTL_ITR_INDX_SHIFT :: "nat" where
  "I40E_QINT_RQCTL_ITR_INDX_SHIFT = 11"

definition I40E_QINT_RQCTL_ITR_INDX_MASK :: "u32" where
  "I40E_QINT_RQCTL_ITR_INDX_MASK = I40E_MASK 0x3 I40E_QINT_RQCTL_ITR_INDX_SHIFT"

definition I40E_QINT_RQCTL_MSIX0_INDX_SHIFT :: "nat" where
  "I40E_QINT_RQCTL_MSIX0_INDX_SHIFT = 13"

definition I40E_QINT_RQCTL_MSIX0_INDX_MASK :: "u32" where
  "I40E_QINT_RQCTL_MSIX0_INDX_MASK = I40E_MASK 0x7 I40E_QINT_RQCTL_MSIX0_INDX_SHIFT"

definition I40E_QINT_RQCTL_NEXTQ_INDX_SHIFT :: "nat" where
  "I40E_QINT_RQCTL_NEXTQ_INDX_SHIFT = 16"

definition I40E_QINT_RQCTL_NEXTQ_INDX_MASK :: "u32" where
  "I40E_QINT_RQCTL_NEXTQ_INDX_MASK = I40E_MASK 0x7FF I40E_QINT_RQCTL_NEXTQ_INDX_SHIFT"

definition I40E_QINT_RQCTL_CAUSE_ENA_SHIFT :: "nat" where
  "I40E_QINT_RQCTL_CAUSE_ENA_SHIFT = 30"

definition I40E_QINT_RQCTL_CAUSE_ENA_MASK :: "u32" where
  "I40E_QINT_RQCTL_CAUSE_ENA_MASK = I40E_MASK 0x1 I40E_QINT_RQCTL_CAUSE_ENA_SHIFT"

definition I40E_QINT_RQCTL_INTEVENT_SHIFT :: "nat" where
  "I40E_QINT_RQCTL_INTEVENT_SHIFT = 31"

definition I40E_QINT_RQCTL_INTEVENT_MASK :: "u32" where
  "I40E_QINT_RQCTL_INTEVENT_MASK = I40E_MASK 0x1 I40E_QINT_RQCTL_INTEVENT_SHIFT"

definition I40E_QINT_TQCTL :: "u32 \<Rightarrow> u32" where
  "I40E_QINT_TQCTL a0 = (0x0003C000 + (a0 * 4))"

definition I40E_QINT_TQCTL_MSIX_INDX_SHIFT :: "nat" where
  "I40E_QINT_TQCTL_MSIX_INDX_SHIFT = 0"

definition I40E_QINT_TQCTL_MSIX_INDX_MASK :: "u32" where
  "I40E_QINT_TQCTL_MSIX_INDX_MASK = I40E_MASK 0xFF I40E_QINT_TQCTL_MSIX_INDX_SHIFT"

definition I40E_QINT_TQCTL_ITR_INDX_SHIFT :: "nat" where
  "I40E_QINT_TQCTL_ITR_INDX_SHIFT = 11"

definition I40E_QINT_TQCTL_ITR_INDX_MASK :: "u32" where
  "I40E_QINT_TQCTL_ITR_INDX_MASK = I40E_MASK 0x3 I40E_QINT_TQCTL_ITR_INDX_SHIFT"

definition I40E_QINT_TQCTL_MSIX0_INDX_SHIFT :: "nat" where
  "I40E_QINT_TQCTL_MSIX0_INDX_SHIFT = 13"

definition I40E_QINT_TQCTL_MSIX0_INDX_MASK :: "u32" where
  "I40E_QINT_TQCTL_MSIX0_INDX_MASK = I40E_MASK 0x7 I40E_QINT_TQCTL_MSIX0_INDX_SHIFT"

definition I40E_QINT_TQCTL_NEXTQ_INDX_SHIFT :: "nat" where
  "I40E_QINT_TQCTL_NEXTQ_INDX_SHIFT = 16"

definition I40E_QINT_TQCTL_NEXTQ_INDX_MASK :: "u32" where
  "I40E_QINT_TQCTL_NEXTQ_INDX_MASK = I40E_MASK 0x7FF I40E_QINT_TQCTL_NEXTQ_INDX_SHIFT"

definition I40E_QINT_TQCTL_CAUSE_ENA_SHIFT :: "nat" where
  "I40E_QINT_TQCTL_CAUSE_ENA_SHIFT = 30"

definition I40E_QINT_TQCTL_CAUSE_ENA_MASK :: "u32" where
  "I40E_QINT_TQCTL_CAUSE_ENA_MASK = I40E_MASK 0x1 I40E_QINT_TQCTL_CAUSE_ENA_SHIFT"

definition I40E_QINT_TQCTL_INTEVENT_SHIFT :: "nat" where
  "I40E_QINT_TQCTL_INTEVENT_SHIFT = 31"

definition I40E_QINT_TQCTL_INTEVENT_MASK :: "u32" where
  "I40E_QINT_TQCTL_INTEVENT_MASK = I40E_MASK 0x1 I40E_QINT_TQCTL_INTEVENT_SHIFT"

definition I40E_PF_ATQBAL :: "u32" where
  "I40E_PF_ATQBAL = 0x00080000"

definition I40E_PF_ARQBAL :: "u32" where
  "I40E_PF_ARQBAL = 0x00080080"

definition I40E_PF_ATQBAH :: "u32" where
  "I40E_PF_ATQBAH = 0x00080100"

definition I40E_PF_ARQBAH :: "u32" where
  "I40E_PF_ARQBAH = 0x00080180"

definition I40E_PF_ATQLEN :: "u32" where
  "I40E_PF_ATQLEN = 0x00080200"

definition I40E_PF_ATQLEN_ATQENABLE_SHIFT :: "nat" where
  "I40E_PF_ATQLEN_ATQENABLE_SHIFT = 31"

definition I40E_PF_ATQLEN_ATQENABLE_MASK :: "u32" where
  "I40E_PF_ATQLEN_ATQENABLE_MASK = I40E_MASK 0x1 I40E_PF_ATQLEN_ATQENABLE_SHIFT"

definition I40E_PF_ARQLEN :: "u32" where
  "I40E_PF_ARQLEN = 0x00080280"

definition I40E_PF_ARQLEN_ARQENABLE_SHIFT :: "nat" where
  "I40E_PF_ARQLEN_ARQENABLE_SHIFT = 31"

definition I40E_PF_ARQLEN_ARQENABLE_MASK :: "u32" where
  "I40E_PF_ARQLEN_ARQENABLE_MASK = I40E_MASK 0x1 I40E_PF_ARQLEN_ARQENABLE_SHIFT"

definition I40E_PF_ATQH :: "u32" where
  "I40E_PF_ATQH = 0x00080300"

definition I40E_PF_ARQH :: "u32" where
  "I40E_PF_ARQH = 0x00080380"

definition I40E_PF_ARQH_ARQH_SHIFT :: "nat" where
  "I40E_PF_ARQH_ARQH_SHIFT = 0"

definition I40E_PF_ARQH_ARQH_MASK :: "u32" where
  "I40E_PF_ARQH_ARQH_MASK = I40E_MASK 0x3FF I40E_PF_ARQH_ARQH_SHIFT"

definition I40E_PF_ATQT :: "u32" where
  "I40E_PF_ATQT = 0x00080400"

definition I40E_PF_ARQT :: "u32" where
  "I40E_PF_ARQT = 0x00080480"

definition I40E_PFGEN_CTRL :: "u32" where
  "I40E_PFGEN_CTRL = 0x00092400"

definition I40E_PFGEN_CTRL_PFSWR_SHIFT :: "nat" where
  "I40E_PFGEN_CTRL_PFSWR_SHIFT = 0"

definition I40E_PFGEN_CTRL_PFSWR_MASK :: "u32" where
  "I40E_PFGEN_CTRL_PFSWR_MASK = I40E_MASK 0x1 I40E_PFGEN_CTRL_PFSWR_SHIFT"

definition I40E_PF_FUNC_RID :: "u32" where
  "I40E_PF_FUNC_RID = 0x0009C000"

definition I40E_GLNVM_ULD :: "u32" where
  "I40E_GLNVM_ULD = 0x000B6008"

definition I40E_GLNVM_ULD_CONF_CORE_DONE_SHIFT :: "nat" where
  "I40E_GLNVM_ULD_CONF_CORE_DONE_SHIFT = 3"

definition I40E_GLNVM_ULD_CONF_CORE_DONE_MASK :: "u32" where
  "I40E_GLNVM_ULD_CONF_CORE_DONE_MASK = I40E_MASK 0x1 I40E_GLNVM_ULD_CONF_CORE_DONE_SHIFT"

definition I40E_GLNVM_ULD_CONF_GLOBAL_DONE_SHIFT :: "nat" where
  "I40E_GLNVM_ULD_CONF_GLOBAL_DONE_SHIFT = 4"

definition I40E_GLNVM_ULD_CONF_GLOBAL_DONE_MASK :: "u32" where
  "I40E_GLNVM_ULD_CONF_GLOBAL_DONE_MASK = I40E_MASK 0x1 I40E_GLNVM_ULD_CONF_GLOBAL_DONE_SHIFT"

definition I40E_GLGEN_STAT :: "u32" where
  "I40E_GLGEN_STAT = 0x000B612C"

definition I40E_GLGEN_RSTAT :: "u32" where
  "I40E_GLGEN_RSTAT = 0x000B8188"

definition I40E_GLGEN_RSTAT_DEVSTATE_SHIFT :: "nat" where
  "I40E_GLGEN_RSTAT_DEVSTATE_SHIFT = 0"

definition I40E_GLGEN_RSTAT_DEVSTATE_MASK :: "u32" where
  "I40E_GLGEN_RSTAT_DEVSTATE_MASK = I40E_MASK 0x3 I40E_GLGEN_RSTAT_DEVSTATE_SHIFT"

definition I40E_GLGEN_RSTCTL :: "u32" where
  "I40E_GLGEN_RSTCTL = 0x000B8180"

definition I40E_GLGEN_RSTCTL_GRSTDEL_SHIFT :: "nat" where
  "I40E_GLGEN_RSTCTL_GRSTDEL_SHIFT = 0"

definition I40E_GLGEN_RSTCTL_GRSTDEL_MASK :: "u32" where
  "I40E_GLGEN_RSTCTL_GRSTDEL_MASK = I40E_MASK 0x3F I40E_GLGEN_RSTCTL_GRSTDEL_SHIFT"

definition I40E_GLPCI_CNF2 :: "u32" where
  "I40E_GLPCI_CNF2 = 0x000BE494"

definition I40E_GLPCI_CNF2_MSI_X_PF_N_SHIFT :: "nat" where
  "I40E_GLPCI_CNF2_MSI_X_PF_N_SHIFT = 2"

definition I40E_GLPCI_CNF2_MSI_X_PF_N_MASK :: "u32" where
  "I40E_GLPCI_CNF2_MSI_X_PF_N_MASK = I40E_MASK 0x7FF I40E_GLPCI_CNF2_MSI_X_PF_N_SHIFT"

definition I40E_GLPCI_CNF2_MSI_X_VF_N_SHIFT :: "nat" where
  "I40E_GLPCI_CNF2_MSI_X_VF_N_SHIFT = 13"

definition I40E_GLPCI_CNF2_MSI_X_VF_N_MASK :: "u32" where
  "I40E_GLPCI_CNF2_MSI_X_VF_N_MASK = I40E_MASK 0x7FF I40E_GLPCI_CNF2_MSI_X_VF_N_SHIFT"

definition I40E_GLPCI_CAPSUP :: "u32" where
  "I40E_GLPCI_CAPSUP = 0x000BE4A8"

definition I40E_GLPCI_CAPSUP_ARI_EN_SHIFT :: "nat" where
  "I40E_GLPCI_CAPSUP_ARI_EN_SHIFT = 4"

definition I40E_GLPCI_CAPSUP_ARI_EN_MASK :: "u32" where
  "I40E_GLPCI_CAPSUP_ARI_EN_MASK = I40E_MASK 0x1 I40E_GLPCI_CAPSUP_ARI_EN_SHIFT"

definition I40E_PFHMC_SDCMD :: "u32" where
  "I40E_PFHMC_SDCMD = 0x000C0000"

definition I40E_PFHMC_SDCMD_PMSDWR_SHIFT :: "nat" where
  "I40E_PFHMC_SDCMD_PMSDWR_SHIFT = 31"

definition I40E_PFHMC_SDDATALOW :: "u32" where
  "I40E_PFHMC_SDDATALOW = 0x000C0100"

definition I40E_PFHMC_SDDATALOW_PMSDVALID_SHIFT :: "nat" where
  "I40E_PFHMC_SDDATALOW_PMSDVALID_SHIFT = 0"

definition I40E_PFHMC_SDDATALOW_PMSDTYPE_SHIFT :: "nat" where
  "I40E_PFHMC_SDDATALOW_PMSDTYPE_SHIFT = 1"

definition I40E_PFHMC_SDDATALOW_PMSDBPCOUNT_SHIFT :: "nat" where
  "I40E_PFHMC_SDDATALOW_PMSDBPCOUNT_SHIFT = 2"

definition I40E_PFHMC_SDDATAHIGH :: "u32" where
  "I40E_PFHMC_SDDATAHIGH = 0x000C0200"

definition I40E_PFHMC_PDINV :: "u32" where
  "I40E_PFHMC_PDINV = 0x000C0300"

definition I40E_PFHMC_PDINV_PMSDIDX_SHIFT :: "nat" where
  "I40E_PFHMC_PDINV_PMSDIDX_SHIFT = 0"

definition I40E_PFHMC_PDINV_PMPDIDX_SHIFT :: "nat" where
  "I40E_PFHMC_PDINV_PMPDIDX_SHIFT = 16"

definition I40E_GLHMC_LANTXOBJSZ :: "u32" where
  "I40E_GLHMC_LANTXOBJSZ = 0x000C2004"

definition I40E_GLHMC_LANQMAX :: "u32" where
  "I40E_GLHMC_LANQMAX = 0x000C2008"

definition I40E_GLHMC_LANRXOBJSZ :: "u32" where
  "I40E_GLHMC_LANRXOBJSZ = 0x000C200c"

definition I40E_GLHMC_LANTXBASE :: "u32 \<Rightarrow> u32" where
  "I40E_GLHMC_LANTXBASE a0 = (0x000C6200 + (a0 * 4))"

definition I40E_GLHMC_LANTXBASE_FPMLANTXBASE_SHIFT :: "nat" where
  "I40E_GLHMC_LANTXBASE_FPMLANTXBASE_SHIFT = 0"

definition I40E_GLHMC_LANTXBASE_FPMLANTXBASE_MASK :: "u32" where
  "I40E_GLHMC_LANTXBASE_FPMLANTXBASE_MASK = I40E_MASK 0xFFFFFF I40E_GLHMC_LANTXBASE_FPMLANTXBASE_SHIFT"

definition I40E_GLHMC_LANTXCNT :: "u32 \<Rightarrow> u32" where
  "I40E_GLHMC_LANTXCNT a0 = (0x000C6300 + (a0 * 4))"

definition I40E_GLHMC_LANRXBASE :: "u32 \<Rightarrow> u32" where
  "I40E_GLHMC_LANRXBASE a0 = (0x000C6400 + (a0 * 4))"

definition I40E_GLHMC_LANRXBASE_FPMLANRXBASE_SHIFT :: "nat" where
  "I40E_GLHMC_LANRXBASE_FPMLANRXBASE_SHIFT = 0"

definition I40E_GLHMC_LANRXBASE_FPMLANRXBASE_MASK :: "u32" where
  "I40E_GLHMC_LANRXBASE_FPMLANRXBASE_MASK = I40E_MASK 0xFFFFFF I40E_GLHMC_LANRXBASE_FPMLANRXBASE_SHIFT"

definition I40E_GLHMC_LANRXCNT :: "u32 \<Rightarrow> u32" where
  "I40E_GLHMC_LANRXCNT a0 = (0x000C6500 + (a0 * 4))"

definition I40E_QTX_HEAD :: "u32 \<Rightarrow> u32" where
  "I40E_QTX_HEAD a0 = (0x000E4000 + (a0 * 4))"

definition I40E_GLLAN_TXPRE_QDIS :: "u32 \<Rightarrow> u32" where
  "I40E_GLLAN_TXPRE_QDIS a0 = (0x000e6500 + (a0 * 4))"

definition I40E_GLLAN_TXPRE_QDIS_QINDX_SHIFT :: "nat" where
  "I40E_GLLAN_TXPRE_QDIS_QINDX_SHIFT = 0"

definition I40E_GLLAN_TXPRE_QDIS_QINDX_MASK :: "u32" where
  "I40E_GLLAN_TXPRE_QDIS_QINDX_MASK = I40E_MASK 0x7FF I40E_GLLAN_TXPRE_QDIS_QINDX_SHIFT"

definition I40E_GLLAN_TXPRE_QDIS_SET_QDIS_SHIFT :: "nat" where
  "I40E_GLLAN_TXPRE_QDIS_SET_QDIS_SHIFT = 30"

definition I40E_GLLAN_TXPRE_QDIS_SET_QDIS_MASK :: "u32" where
  "I40E_GLLAN_TXPRE_QDIS_SET_QDIS_MASK = I40E_MASK 0x1 I40E_GLLAN_TXPRE_QDIS_SET_QDIS_SHIFT"

definition I40E_GLLAN_TXPRE_QDIS_CLEAR_QDIS_SHIFT :: "nat" where
  "I40E_GLLAN_TXPRE_QDIS_CLEAR_QDIS_SHIFT = 31"

definition I40E_GLLAN_TXPRE_QDIS_CLEAR_QDIS_MASK :: "u32" where
  "I40E_GLLAN_TXPRE_QDIS_CLEAR_QDIS_MASK = I40E_MASK 0x1 I40E_GLLAN_TXPRE_QDIS_CLEAR_QDIS_SHIFT"

definition I40E_QTX_ENA :: "u32 \<Rightarrow> u32" where
  "I40E_QTX_ENA a0 = (0x00100000 + (a0 * 4))"

definition I40E_QTX_ENA_QENA_REQ_SHIFT :: "nat" where
  "I40E_QTX_ENA_QENA_REQ_SHIFT = 0"

definition I40E_QTX_ENA_QENA_REQ_MASK :: "u32" where
  "I40E_QTX_ENA_QENA_REQ_MASK = I40E_MASK 0x1 I40E_QTX_ENA_QENA_REQ_SHIFT"

definition I40E_QTX_ENA_QENA_STAT_SHIFT :: "nat" where
  "I40E_QTX_ENA_QENA_STAT_SHIFT = 2"

definition I40E_QTX_ENA_QENA_STAT_MASK :: "u32" where
  "I40E_QTX_ENA_QENA_STAT_MASK = I40E_MASK 0x1 I40E_QTX_ENA_QENA_STAT_SHIFT"

definition I40E_QTX_CTL :: "u32 \<Rightarrow> u32" where
  "I40E_QTX_CTL a0 = (0x00104000 + (a0 * 4))"

definition I40E_QTX_CTL_PF_QUEUE :: "u32" where
  "I40E_QTX_CTL_PF_QUEUE = 0x2"

definition I40E_QTX_CTL_PF_INDX_SHIFT :: "nat" where
  "I40E_QTX_CTL_PF_INDX_SHIFT = 2"

definition I40E_QTX_CTL_PF_INDX_MASK :: "u32" where
  "I40E_QTX_CTL_PF_INDX_MASK = I40E_MASK 0xF I40E_QTX_CTL_PF_INDX_SHIFT"

definition I40E_QTX_TAIL :: "u32 \<Rightarrow> u32" where
  "I40E_QTX_TAIL a0 = (0x00108000 + (a0 * 4))"

definition I40E_QRX_ENA :: "u32 \<Rightarrow> u32" where
  "I40E_QRX_ENA a0 = (0x00120000 + (a0 * 4))"

definition I40E_QRX_ENA_QENA_REQ_SHIFT :: "nat" where
  "I40E_QRX_ENA_QENA_REQ_SHIFT = 0"

definition I40E_QRX_ENA_QENA_REQ_MASK :: "u32" where
  "I40E_QRX_ENA_QENA_REQ_MASK = I40E_MASK 0x1 I40E_QRX_ENA_QENA_REQ_SHIFT"

definition I40E_QRX_ENA_QENA_STAT_SHIFT :: "nat" where
  "I40E_QRX_ENA_QENA_STAT_SHIFT = 2"

definition I40E_QRX_ENA_QENA_STAT_MASK :: "u32" where
  "I40E_QRX_ENA_QENA_STAT_MASK = I40E_MASK 0x1 I40E_QRX_ENA_QENA_STAT_SHIFT"

definition I40E_QRX_TAIL :: "u32 \<Rightarrow> u32" where
  "I40E_QRX_TAIL a0 = (0x00128000 + (a0 * 4))"

definition I40E_GLLAN_RCTL_0 :: "u32" where
  "I40E_GLLAN_RCTL_0 = 0x0012A500"

definition I40E_PFLAN_QALLOC :: "u32" where
  "I40E_PFLAN_QALLOC = 0x001C0400"

definition I40E_PFLAN_QALLOC_FIRSTQ_SHIFT :: "nat" where
  "I40E_PFLAN_QALLOC_FIRSTQ_SHIFT = 0"

definition I40E_PFLAN_QALLOC_FIRSTQ_MASK :: "u32" where
  "I40E_PFLAN_QALLOC_FIRSTQ_MASK = I40E_MASK 0x7FF I40E_PFLAN_QALLOC_FIRSTQ_SHIFT"

definition I40E_PFLAN_QALLOC_LASTQ_SHIFT :: "nat" where
  "I40E_PFLAN_QALLOC_LASTQ_SHIFT = 16"

definition I40E_PFLAN_QALLOC_LASTQ_MASK :: "u32" where
  "I40E_PFLAN_QALLOC_LASTQ_MASK = I40E_MASK 0x7FF I40E_PFLAN_QALLOC_LASTQ_SHIFT"

definition I40E_PFLAN_QALLOC_VALID_SHIFT :: "nat" where
  "I40E_PFLAN_QALLOC_VALID_SHIFT = 31"

definition I40E_PFLAN_QALLOC_VALID_MASK :: "u32" where
  "I40E_PFLAN_QALLOC_VALID_MASK = I40E_MASK 0x1 I40E_PFLAN_QALLOC_VALID_SHIFT"

definition I40E_PF_VT_PFALLOC :: "u32" where
  "I40E_PF_VT_PFALLOC = 0x001C0500"

definition I40E_PF_VT_PFALLOC_FIRSTVF_SHIFT :: "nat" where
  "I40E_PF_VT_PFALLOC_FIRSTVF_SHIFT = 0"

definition I40E_PF_VT_PFALLOC_FIRSTVF_MASK :: "u32" where
  "I40E_PF_VT_PFALLOC_FIRSTVF_MASK = I40E_MASK 0xFF I40E_PF_VT_PFALLOC_FIRSTVF_SHIFT"

definition I40E_PF_VT_PFALLOC_LASTVF_SHIFT :: "nat" where
  "I40E_PF_VT_PFALLOC_LASTVF_SHIFT = 8"

definition I40E_PF_VT_PFALLOC_LASTVF_MASK :: "u32" where
  "I40E_PF_VT_PFALLOC_LASTVF_MASK = I40E_MASK 0xFF I40E_PF_VT_PFALLOC_LASTVF_SHIFT"

definition I40E_PF_VT_PFALLOC_VALID_SHIFT :: "nat" where
  "I40E_PF_VT_PFALLOC_VALID_SHIFT = 31"

definition I40E_PF_VT_PFALLOC_VALID_MASK :: "u32" where
  "I40E_PF_VT_PFALLOC_VALID_MASK = I40E_MASK 0x1 I40E_PF_VT_PFALLOC_VALID_SHIFT"

definition I40E_PFQF_CTL_0 :: "u32" where
  "I40E_PFQF_CTL_0 = 0x001C0AC0"

definition I40E_PFQF_CTL_0_PEHSIZE_SHIFT :: "nat" where
  "I40E_PFQF_CTL_0_PEHSIZE_SHIFT = 0"

definition I40E_PFQF_CTL_0_PEHSIZE_MASK :: "u32" where
  "I40E_PFQF_CTL_0_PEHSIZE_MASK = I40E_MASK 0x1F I40E_PFQF_CTL_0_PEHSIZE_SHIFT"

definition I40E_PFQF_CTL_0_PEDSIZE_SHIFT :: "nat" where
  "I40E_PFQF_CTL_0_PEDSIZE_SHIFT = 5"

definition I40E_PFQF_CTL_0_PEDSIZE_MASK :: "u32" where
  "I40E_PFQF_CTL_0_PEDSIZE_MASK = I40E_MASK 0x1F I40E_PFQF_CTL_0_PEDSIZE_SHIFT"

definition I40E_PFQF_CTL_0_PFFCHSIZE_SHIFT :: "nat" where
  "I40E_PFQF_CTL_0_PFFCHSIZE_SHIFT = 10"

definition I40E_PFQF_CTL_0_PFFCHSIZE_MASK :: "u32" where
  "I40E_PFQF_CTL_0_PFFCHSIZE_MASK = I40E_MASK 0xF I40E_PFQF_CTL_0_PFFCHSIZE_SHIFT"

definition I40E_PFQF_CTL_0_PFFCDSIZE_SHIFT :: "nat" where
  "I40E_PFQF_CTL_0_PFFCDSIZE_SHIFT = 14"

definition I40E_PFQF_CTL_0_PFFCDSIZE_MASK :: "u32" where
  "I40E_PFQF_CTL_0_PFFCDSIZE_MASK = I40E_MASK 0x3 I40E_PFQF_CTL_0_PFFCDSIZE_SHIFT"

definition I40E_PFQF_CTL_0_HASHLUTSIZE_SHIFT :: "nat" where
  "I40E_PFQF_CTL_0_HASHLUTSIZE_SHIFT = 16"

definition I40E_PFQF_CTL_0_HASHLUTSIZE_MASK :: "u32" where
  "I40E_PFQF_CTL_0_HASHLUTSIZE_MASK = I40E_MASK 0x1 I40E_PFQF_CTL_0_HASHLUTSIZE_SHIFT"

definition I40E_PFQF_CTL_0_FD_ENA_SHIFT :: "nat" where
  "I40E_PFQF_CTL_0_FD_ENA_SHIFT = 17"

definition I40E_PFQF_CTL_0_FD_ENA_MASK :: "u32" where
  "I40E_PFQF_CTL_0_FD_ENA_MASK = I40E_MASK 0x1 I40E_PFQF_CTL_0_FD_ENA_SHIFT"

definition I40E_PFQF_CTL_0_ETYPE_ENA_SHIFT :: "nat" where
  "I40E_PFQF_CTL_0_ETYPE_ENA_SHIFT = 18"

definition I40E_PFQF_CTL_0_ETYPE_ENA_MASK :: "u32" where
  "I40E_PFQF_CTL_0_ETYPE_ENA_MASK = I40E_MASK 0x1 I40E_PFQF_CTL_0_ETYPE_ENA_SHIFT"

definition I40E_PFQF_CTL_0_MACVLAN_ENA_SHIFT :: "nat" where
  "I40E_PFQF_CTL_0_MACVLAN_ENA_SHIFT = 19"

definition I40E_PFQF_CTL_0_MACVLAN_ENA_MASK :: "u32" where
  "I40E_PFQF_CTL_0_MACVLAN_ENA_MASK = I40E_MASK 0x1 I40E_PFQF_CTL_0_MACVLAN_ENA_SHIFT"

definition I40E_PFQF_HLUT :: "u32 \<Rightarrow> u32" where
  "I40E_PFQF_HLUT a0 = (0x00240000 + (a0 * 128))"

definition I40E_PFQF_HLUT_MAX_INDEX :: "nat" where
  "I40E_PFQF_HLUT_MAX_INDEX = 127"

definition I40E_PFQF_HKEY :: "u32 \<Rightarrow> u32" where
  "I40E_PFQF_HKEY a0 = (0x00244800 + (a0 * 128))"

definition I40E_PFQF_HKEY_MAX_INDEX :: "nat" where
  "I40E_PFQF_HKEY_MAX_INDEX = 12"

definition I40E_PFQF_HENA :: "u32 \<Rightarrow> u32" where
  "I40E_PFQF_HENA a0 = (0x00245900 + (a0 * 128))"

lemmas reg_defs =
  I40E_MASK_def
  I40E_VPINT_LNKLST0_def
  I40E_VPINT_LNKLST0_FIRSTQ_INDX_SHIFT_def
  I40E_VPINT_LNKLSTN_def
  I40E_PFINT_ITRN_def
  I40E_PFINT_DYN_CTLN_def
  I40E_PFINT_DYN_CTLN_INTENA_SHIFT_def
  I40E_PFINT_DYN_CTLN_INTENA_MASK_def
  I40E_PFINT_DYN_CTLN_CLEARPBA_SHIFT_def
  I40E_PFINT_DYN_CTLN_CLEARPBA_MASK_def
  I40E_PFINT_DYN_CTLN_ITR_INDX_SHIFT_def
  I40E_PFINT_RATEN_def
  I40E_PFINT_ITR0_def
  I40E_PFINT_STAT_CTL0_def
  I40E_PFINT_DYN_CTL0_def
  I40E_PFINT_DYN_CTL0_INTENA_SHIFT_def
  I40E_PFINT_DYN_CTL0_INTENA_MASK_def
  I40E_PFINT_DYN_CTL0_CLEARPBA_SHIFT_def
  I40E_PFINT_DYN_CTL0_CLEARPBA_MASK_def
  I40E_PFINT_DYN_CTL0_ITR_INDX_SHIFT_def
  I40E_PFINT_LNKLST0_def
  I40E_PFINT_LNKLST0_FIRSTQ_INDX_SHIFT_def
  I40E_PFINT_LNKLSTN_def
  I40E_PFINT_LNKLSTN_FIRSTQ_INDX_SHIFT_def
  I40E_PFINT_LNKLSTN_FIRSTQ_TYPE_SHIFT_def
  I40E_PFINT_ICR0_def
  I40E_PFINT_ICR0_ENA_def
  I40E_PFINT_ICR0_ENA_ECC_ERR_SHIFT_def
  I40E_PFINT_ICR0_ENA_ECC_ERR_MASK_def
  I40E_PFINT_ICR0_ENA_MAL_DETECT_SHIFT_def
  I40E_PFINT_ICR0_ENA_MAL_DETECT_MASK_def
  I40E_PFINT_ICR0_ENA_GRST_SHIFT_def
  I40E_PFINT_ICR0_ENA_GRST_MASK_def
  I40E_PFINT_ICR0_ENA_PCI_EXCEPTION_SHIFT_def
  I40E_PFINT_ICR0_ENA_PCI_EXCEPTION_MASK_def
  I40E_PFINT_ICR0_ENA_GPIO_SHIFT_def
  I40E_PFINT_ICR0_ENA_GPIO_MASK_def
  I40E_PFINT_ICR0_ENA_HMC_ERR_SHIFT_def
  I40E_PFINT_ICR0_ENA_HMC_ERR_MASK_def
  I40E_PFINT_ICR0_ENA_VFLR_SHIFT_def
  I40E_PFINT_ICR0_ENA_VFLR_MASK_def
  I40E_PFINT_ICR0_ENA_ADMINQ_SHIFT_def
  I40E_PFINT_ICR0_ENA_ADMINQ_MASK_def
  I40E_QINT_RQCTL_def
  I40E_QINT_RQCTL_MSIX_INDX_SHIFT_def
  I40E_QINT_RQCTL_MSIX_INDX_MASK_def
  I40E_QINT_RQCTL_ITR_INDX_SHIFT_def
  I40E_QINT_RQCTL_ITR_INDX_MASK_def
  I40E_QINT_RQCTL_MSIX0_INDX_SHIFT_def
  I40E_QINT_RQCTL_MSIX0_INDX_MASK_def
  I40E_QINT_RQCTL_NEXTQ_INDX_SHIFT_def
  I40E_QINT_RQCTL_NEXTQ_INDX_MASK_def
  I40E_QINT_RQCTL_CAUSE_ENA_SHIFT_def
  I40E_QINT_RQCTL_CAUSE_ENA_MASK_def
  I40E_QINT_RQCTL_INTEVENT_SHIFT_def
  I40E_QINT_RQCTL_INTEVENT_MASK_def
  I40E_QINT_TQCTL_def
  I40E_QINT_TQCTL_MSIX_INDX_SHIFT_def
  I40E_QINT_TQCTL_MSIX_INDX_MASK_def
  I40E_QINT_TQCTL_ITR_INDX_SHIFT_def
  I40E_QINT_TQCTL_ITR_INDX_MASK_def
  I40E_QINT_TQCTL_MSIX0_INDX_SHIFT_def
  I40E_QINT_TQCTL_MSIX0_INDX_MASK_def
  I40E_QINT_TQCTL_NEXTQ_INDX_SHIFT_def
  I40E_QINT_TQCTL_NEXTQ_INDX_MASK_def
  I40E_QINT_TQCTL_CAUSE_ENA_SHIFT_def
  I40E_QINT_TQCTL_CAUSE_ENA_MASK_def
  I40E_QINT_TQCTL_INTEVENT_SHIFT_def
  I40E_QINT_TQCTL_INTEVENT_MASK_def
  I40E_PF_ATQBAL_def
  I40E_PF_ARQBAL_def
  I40E_PF_ATQBAH_def
  I40E_PF_ARQBAH_def
  I40E_PF_ATQLEN_def
  I40E_PF_ATQLEN_ATQENABLE_SHIFT_def
  I40E_PF_ATQLEN_ATQENABLE_MASK_def
  I40E_PF_ARQLEN_def
  I40E_PF_ARQLEN_ARQENABLE_SHIFT_def
  I40E_PF_ARQLEN_ARQENABLE_MASK_def
  I40E_PF_ATQH_def
  I40E_PF_ARQH_def
  I40E_PF_ARQH_ARQH_SHIFT_def
  I40E_PF_ARQH_ARQH_MASK_def
  I40E_PF_ATQT_def
  I40E_PF_ARQT_def
  I40E_PFGEN_CTRL_def
  I40E_PFGEN_CTRL_PFSWR_SHIFT_def
  I40E_PFGEN_CTRL_PFSWR_MASK_def
  I40E_PF_FUNC_RID_def
  I40E_GLNVM_ULD_def
  I40E_GLNVM_ULD_CONF_CORE_DONE_SHIFT_def
  I40E_GLNVM_ULD_CONF_CORE_DONE_MASK_def
  I40E_GLNVM_ULD_CONF_GLOBAL_DONE_SHIFT_def
  I40E_GLNVM_ULD_CONF_GLOBAL_DONE_MASK_def
  I40E_GLGEN_STAT_def
  I40E_GLGEN_RSTAT_def
  I40E_GLGEN_RSTAT_DEVSTATE_SHIFT_def
  I40E_GLGEN_RSTAT_DEVSTATE_MASK_def
  I40E_GLGEN_RSTCTL_def
  I40E_GLGEN_RSTCTL_GRSTDEL_SHIFT_def
  I40E_GLGEN_RSTCTL_GRSTDEL_MASK_def
  I40E_GLPCI_CNF2_def
  I40E_GLPCI_CNF2_MSI_X_PF_N_SHIFT_def
  I40E_GLPCI_CNF2_MSI_X_PF_N_MASK_def
  I40E_GLPCI_CNF2_MSI_X_VF_N_SHIFT_def
  I40E_GLPCI_CNF2_MSI_X_VF_N_MASK_def
  I40E_GLPCI_CAPSUP_def
  I40E_GLPCI_CAPSUP_ARI_EN_SHIFT_def
  I40E_GLPCI_CAPSUP_ARI_EN_MASK_def
  I40E_PFHMC_SDCMD_def
  I40E_PFHMC_SDCMD_PMSDWR_SHIFT_def
  I40E_PFHMC_SDDATALOW_def
  I40E_PFHMC_SDDATALOW_PMSDVALID_SHIFT_def
  I40E_PFHMC_SDDATALOW_PMSDTYPE_SHIFT_def
  I40E_PFHMC_SDDATALOW_PMSDBPCOUNT_SHIFT_def
  I40E_PFHMC_SDDATAHIGH_def
  I40E_PFHMC_PDINV_def
  I40E_PFHMC_PDINV_PMSDIDX_SHIFT_def
  I40E_PFHMC_PDINV_PMPDIDX_SHIFT_def
  I40E_GLHMC_LANTXOBJSZ_def
  I40E_GLHMC_LANQMAX_def
  I40E_GLHMC_LANRXOBJSZ_def
  I40E_GLHMC_LANTXBASE_def
  I40E_GLHMC_LANTXBASE_FPMLANTXBASE_SHIFT_def
  I40E_GLHMC_LANTXBASE_FPMLANTXBASE_MASK_def
  I40E_GLHMC_LANTXCNT_def
  I40E_GLHMC_LANRXBASE_def
  I40E_GLHMC_LANRXBASE_FPMLANRXBASE_SHIFT_def
  I40E_GLHMC_LANRXBASE_FPMLANRXBASE_MASK_def
  I40E_GLHMC_LANRXCNT_def
  I40E_QTX_HEAD_def
  I40E_GLLAN_TXPRE_QDIS_def
  I40E_GLLAN_TXPRE_QDIS_QINDX_SHIFT_def
  I40E_GLLAN_TXPRE_QDIS_QINDX_MASK_def
  I40E_GLLAN_TXPRE_QDIS_SET_QDIS_SHIFT_def
  I40E_GLLAN_TXPRE_QDIS_SET_QDIS_MASK_def
  I40E_GLLAN_TXPRE_QDIS_CLEAR_QDIS_SHIFT_def
  I40E_GLLAN_TXPRE_QDIS_CLEAR_QDIS_MASK_def
  I40E_QTX_ENA_def
  I40E_QTX_ENA_QENA_REQ_SHIFT_def
  I40E_QTX_ENA_QENA_REQ_MASK_def
  I40E_QTX_ENA_QENA_STAT_SHIFT_def
  I40E_QTX_ENA_QENA_STAT_MASK_def
  I40E_QTX_CTL_def
  I40E_QTX_CTL_PF_QUEUE_def
  I40E_QTX_CTL_PF_INDX_SHIFT_def
  I40E_QTX_CTL_PF_INDX_MASK_def
  I40E_QTX_TAIL_def
  I40E_QRX_ENA_def
  I40E_QRX_ENA_QENA_REQ_SHIFT_def
  I40E_QRX_ENA_QENA_REQ_MASK_def
  I40E_QRX_ENA_QENA_STAT_SHIFT_def
  I40E_QRX_ENA_QENA_STAT_MASK_def
  I40E_QRX_TAIL_def
  I40E_GLLAN_RCTL_0_def
  I40E_PFLAN_QALLOC_def
  I40E_PFLAN_QALLOC_FIRSTQ_SHIFT_def
  I40E_PFLAN_QALLOC_FIRSTQ_MASK_def
  I40E_PFLAN_QALLOC_LASTQ_SHIFT_def
  I40E_PFLAN_QALLOC_LASTQ_MASK_def
  I40E_PFLAN_QALLOC_VALID_SHIFT_def
  I40E_PFLAN_QALLOC_VALID_MASK_def
  I40E_PF_VT_PFALLOC_def
  I40E_PF_VT_PFALLOC_FIRSTVF_SHIFT_def
  I40E_PF_VT_PFALLOC_FIRSTVF_MASK_def
  I40E_PF_VT_PFALLOC_LASTVF_SHIFT_def
  I40E_PF_VT_PFALLOC_LASTVF_MASK_def
  I40E_PF_VT_PFALLOC_VALID_SHIFT_def
  I40E_PF_VT_PFALLOC_VALID_MASK_def
  I40E_PFQF_CTL_0_def
  I40E_PFQF_CTL_0_PEHSIZE_SHIFT_def
  I40E_PFQF_CTL_0_PEHSIZE_MASK_def
  I40E_PFQF_CTL_0_PEDSIZE_SHIFT_def
  I40E_PFQF_CTL_0_PEDSIZE_MASK_def
  I40E_PFQF_CTL_0_PFFCHSIZE_SHIFT_def
  I40E_PFQF_CTL_0_PFFCHSIZE_MASK_def
  I40E_PFQF_CTL_0_PFFCDSIZE_SHIFT_def
  I40E_PFQF_CTL_0_PFFCDSIZE_MASK_def
  I40E_PFQF_CTL_0_HASHLUTSIZE_SHIFT_def
  I40E_PFQF_CTL_0_HASHLUTSIZE_MASK_def
  I40E_PFQF_CTL_0_FD_ENA_SHIFT_def
  I40E_PFQF_CTL_0_FD_ENA_MASK_def
  I40E_PFQF_CTL_0_ETYPE_ENA_SHIFT_def
  I40E_PFQF_CTL_0_ETYPE_ENA_MASK_def
  I40E_PFQF_CTL_0_MACVLAN_ENA_SHIFT_def
  I40E_PFQF_CTL_0_MACVLAN_ENA_MASK_def
  I40E_PFQF_HLUT_def
  I40E_PFQF_HLUT_MAX_INDEX_def
  I40E_PFQF_HKEY_def
  I40E_PFQF_HKEY_MAX_INDEX_def
  I40E_PFQF_HENA_def

end
