(* ===== verification/I40e_Desc.thy ===== *)
theory I40e_Desc
  imports Ufp_Plane I40e_Regs
begin

text \<open>
  The receive and transmit descriptors of the i40e driver, \<open>dev/i40e/i40e_io.c\<close> and
  \<open>dev/i40e/i40e_io.h\<close>. A descriptor is 16 bytes, here its two 64-bit words in the byte order of
  the host; \<open>le64toh\<close> and \<open>htole64\<close> are the identity on the little-endian hosts the device is
  used with. The driver is shown to provide the interface \<open>desc_ops\<close>, so that every fact of
  \<open>Ufp_Plane\<close> holds for the program as it is built.
\<close>

subsection \<open>Layout\<close>

record i40e_desc =
  qword0 :: u64
  qword1 :: u64

definition I40E_RX_DESC_STATUS_DD_SHIFT :: nat where "I40E_RX_DESC_STATUS_DD_SHIFT = 0"
definition I40E_RX_DESC_STATUS_EOF_SHIFT :: nat where "I40E_RX_DESC_STATUS_EOF_SHIFT = 1"
definition I40E_RXD_QW1_ERROR_SHIFT :: nat where "I40E_RXD_QW1_ERROR_SHIFT = 19"
definition I40E_RXD_QW1_ERROR_MASK :: u64 where
  "I40E_RXD_QW1_ERROR_MASK = push_bit I40E_RXD_QW1_ERROR_SHIFT 0xFF"
definition I40E_RXD_QW1_LENGTH_PBUF_SHIFT :: nat where "I40E_RXD_QW1_LENGTH_PBUF_SHIFT = 38"
definition I40E_RXD_QW1_LENGTH_PBUF_MASK :: u64 where
  "I40E_RXD_QW1_LENGTH_PBUF_MASK = push_bit I40E_RXD_QW1_LENGTH_PBUF_SHIFT 0x3FFF"

definition I40E_TX_DESC_DTYPE_DATA :: u64 where "I40E_TX_DESC_DTYPE_DATA = 0x0"
definition I40E_TX_DESC_DTYPE_DESC_DONE :: u64 where "I40E_TX_DESC_DTYPE_DESC_DONE = 0xF"
definition I40E_TX_DESC_CMD_EOP :: u32 where "I40E_TX_DESC_CMD_EOP = 0x0001"
definition I40E_TX_DESC_CMD_RS :: u32 where "I40E_TX_DESC_CMD_RS = 0x0002"
definition I40E_TX_DESC_CMD_ICRC :: u32 where "I40E_TX_DESC_CMD_ICRC = 0x0004"
definition I40E_TXD_QW1_DTYPE_SHIFT :: nat where "I40E_TXD_QW1_DTYPE_SHIFT = 0"
definition I40E_TXD_QW1_DTYPE_MASK :: u64 where
  "I40E_TXD_QW1_DTYPE_MASK = push_bit I40E_TXD_QW1_DTYPE_SHIFT 0xF"
definition I40E_TXD_QW1_CMD_SHIFT :: nat where "I40E_TXD_QW1_CMD_SHIFT = 4"
definition I40E_TXD_QW1_OFFSET_SHIFT :: nat where "I40E_TXD_QW1_OFFSET_SHIFT = 16"
definition I40E_TXD_QW1_TX_BUF_SZ_SHIFT :: nat where "I40E_TXD_QW1_TX_BUF_SZ_SHIFT = 34"
definition I40E_TXD_QW1_L2TAG1_SHIFT :: nat where "I40E_TXD_QW1_L2TAG1_SHIFT = 48"

lemmas desc_consts =
  I40E_RX_DESC_STATUS_DD_SHIFT_def I40E_RX_DESC_STATUS_EOF_SHIFT_def I40E_RXD_QW1_ERROR_SHIFT_def
  I40E_RXD_QW1_ERROR_MASK_def I40E_RXD_QW1_LENGTH_PBUF_SHIFT_def I40E_RXD_QW1_LENGTH_PBUF_MASK_def
  I40E_TX_DESC_DTYPE_DATA_def I40E_TX_DESC_DTYPE_DESC_DONE_def I40E_TX_DESC_CMD_EOP_def
  I40E_TX_DESC_CMD_RS_def I40E_TX_DESC_CMD_ICRC_def I40E_TXD_QW1_DTYPE_SHIFT_def
  I40E_TXD_QW1_DTYPE_MASK_def I40E_TXD_QW1_CMD_SHIFT_def I40E_TXD_QW1_OFFSET_SHIFT_def
  I40E_TXD_QW1_TX_BUF_SZ_SHIFT_def I40E_TXD_QW1_L2TAG1_SHIFT_def
  UFP_PACKET_EOF_def UFP_PACKET_ERROR_def

text \<open>The descriptor at an index (\<open>I40E_RX_DESC\<close>, \<open>I40E_TX_DESC\<close>).\<close>

definition I40E_DESC :: "i40e_desc ufp_ring \<Rightarrow> u16 \<Rightarrow> i40e_desc option" where
  "I40E_DESC ring i = (if unat i < length (ring_mem ring) then Some (ring_mem ring ! unat i) else None)"

definition desc_store :: "i40e_desc ufp_ring \<Rightarrow> u16 \<Rightarrow> i40e_desc \<Rightarrow> i40e_desc ufp_ring" where
  "desc_store ring i d = ring\<lparr>ring_mem := (ring_mem ring)[unat i := d]\<rparr>"

subsection \<open>Operations\<close>

definition i40e_rx_desc_fetch ::
  "i40e_desc ufp_ring \<Rightarrow> u16 \<Rightarrow> ufp_packet \<Rightarrow> (int \<times> ufp_packet) option" where
  "i40e_rx_desc_fetch ring index packet =
     do { rx_desc \<leftarrow> I40E_DESC ring index;
          let qw = qword1 rx_desc;
          if qw AND push_bit I40E_RX_DESC_STATUS_DD_SHIFT 1 = 0 then Some (-1, packet)
          else do {
            let packet = packet\<lparr>pkt_slot_size :=
              ucast (drop_bit I40E_RXD_QW1_LENGTH_PBUF_SHIFT (qw AND I40E_RXD_QW1_LENGTH_PBUF_MASK))\<rparr>;
            let packet = packet\<lparr>pkt_flag := 0\<rparr>;
            let packet = (if qw AND push_bit I40E_RX_DESC_STATUS_EOF_SHIFT 1 \<noteq> 0
                          then packet\<lparr>pkt_flag := pkt_flag packet OR UFP_PACKET_EOF\<rparr> else packet);
            let packet = (if qw AND I40E_RXD_QW1_ERROR_MASK \<noteq> 0
                          then packet\<lparr>pkt_flag := pkt_flag packet OR UFP_PACKET_ERROR\<rparr> else packet);
            Some (0, packet) } }"

definition i40e_tx_desc_fetch :: "i40e_desc ufp_ring \<Rightarrow> u16 \<Rightarrow> int option" where
  "i40e_tx_desc_fetch ring index =
     do { tx_desc \<leftarrow> I40E_DESC ring index;
          let qw = qword1 tx_desc;
          Some (if qw AND I40E_TXD_QW1_DTYPE_MASK \<noteq> I40E_TX_DESC_DTYPE_DESC_DONE then -1 else 0) }"

definition i40e_rx_desc_fill ::
  "i40e_desc ufp_ring \<Rightarrow> u16 \<Rightarrow> u64 \<Rightarrow> i40e_desc ufp_ring option" where
  "i40e_rx_desc_fill ring index addr_dma =
     do { rx_desc \<leftarrow> I40E_DESC ring index;
          let rx_desc = rx_desc\<lparr>qword0 := addr_dma\<rparr>;
          let rx_desc = rx_desc\<lparr>qword1 := 0\<rparr>;
          Some (desc_store ring index rx_desc) }"

definition i40e_tx_desc_fill ::
  "i40e_desc ufp_ring \<Rightarrow> u16 \<Rightarrow> u64 \<Rightarrow> ufp_packet \<Rightarrow> i40e_desc ufp_ring option" where
  "i40e_tx_desc_fill ring index addr_dma packet =
     do { tx_desc \<leftarrow> I40E_DESC ring index;
          let tx_offset = (0 :: u32);
          let tx_tag = (0 :: u32);
          let tx_cmd = I40E_TX_DESC_CMD_ICRC OR I40E_TX_DESC_CMD_RS;
          let tx_cmd = (if pkt_flag packet AND UFP_PACKET_EOF \<noteq> 0
                        then tx_cmd OR I40E_TX_DESC_CMD_EOP else tx_cmd);
          let tx_desc = tx_desc\<lparr>qword0 := addr_dma\<rparr>;
          let tx_desc = tx_desc\<lparr>qword1 :=
            I40E_TX_DESC_DTYPE_DATA OR
            push_bit I40E_TXD_QW1_CMD_SHIFT (ucast tx_cmd) OR
            push_bit I40E_TXD_QW1_OFFSET_SHIFT (ucast tx_offset) OR
            push_bit I40E_TXD_QW1_TX_BUF_SZ_SHIFT (ucast (pkt_slot_size packet)) OR
            push_bit I40E_TXD_QW1_L2TAG1_SHIFT (ucast tx_tag)\<rparr>;
          Some (desc_store ring index tx_desc) }"

text \<open>The register that enables an interrupt again, \<open>i40e_update_enable_itr\<close>.\<close>

definition I40E_ITR_NONE :: u32 where "I40E_ITR_NONE = 3"

definition i40e_update_enable_itr :: "addr \<Rightarrow> u16 \<Rightarrow> mmio" where
  "i40e_update_enable_itr bar entry_idx =
     (let val = I40E_PFINT_DYN_CTLN_INTENA_MASK OR
                push_bit I40E_PFINT_DYN_CTLN_ITR_INDX_SHIFT I40E_ITR_NONE
      in [(bar + unat (I40E_PFINT_DYN_CTLN (ucast entry_idx - 1)), val)])"

definition i40e_ops :: "i40e_desc ufp_ops" where
  "i40e_ops = \<lparr>unmask_queues = i40e_update_enable_itr,
     fill_rx_desc = i40e_rx_desc_fill, fetch_rx_desc = i40e_rx_desc_fetch,
     fill_tx_desc = i40e_tx_desc_fill, fetch_tx_desc = i40e_tx_desc_fetch\<rparr>"

subsection \<open>The driver as a provider of descriptors\<close>

lemma fetch_cases:
  "unat i < length (ring_mem r) \<Longrightarrow> I40E_DESC r i = Some (ring_mem r ! unat i)"
  by (simp add: I40E_DESC_def)

interpretation i40e: desc_ops i40e_ops
proof
  fix i :: u16 and r :: "i40e_desc ufp_ring" and a p
  assume "unat i < length (ring_mem r)"
  note d = fetch_cases [OF this]
  show "\<exists>d. fill_rx_desc i40e_ops r i a = Some (r\<lparr>ring_mem := (ring_mem r)[unat i := d]\<rparr>)"
    by (simp add: i40e_ops_def i40e_rx_desc_fill_def d desc_store_def) blast
  show "\<exists>d. fill_tx_desc i40e_ops r i a p = Some (r\<lparr>ring_mem := (ring_mem r)[unat i := d]\<rparr>)"
    by (simp add: i40e_ops_def i40e_tx_desc_fill_def d desc_store_def Let_def) blast
  show "\<exists>e p'. fetch_rx_desc i40e_ops r i p = Some (e, p')"
    by (simp add: i40e_ops_def i40e_rx_desc_fetch_def d Let_def)
  show "\<exists>e. fetch_tx_desc i40e_ops r i = Some e"
    by (simp add: i40e_ops_def i40e_tx_desc_fetch_def d)
next
  fix r :: "i40e_desc ufp_ring" and c i p
  show "fetch_rx_desc i40e_ops (r\<lparr>next_to_clean := c\<rparr>) i p = fetch_rx_desc i40e_ops r i p"
    by (simp add: i40e_ops_def i40e_rx_desc_fetch_def I40E_DESC_def)
  show "fetch_tx_desc i40e_ops (r\<lparr>next_to_clean := c\<rparr>) i = fetch_tx_desc i40e_ops r i"
    by (simp add: i40e_ops_def i40e_tx_desc_fetch_def I40E_DESC_def)
qed

subsection \<open>The fields of a descriptor\<close>

lemma and_field_0_iff:
  fixes q :: "'a::len word"
  assumes "k + n \<le> LENGTH('a)"
  shows "q AND push_bit k (mask n) = 0 \<longleftrightarrow> (\<forall>b \<in> {k..<k + n}. \<not> bit q b)"
proof -
  have "bit (q AND push_bit k (mask n)) b \<longleftrightarrow> bit q b \<and> k \<le> b \<and> b < k + n" for b
    using bit_imp_le_length [of q b] by (auto simp: bit_and_iff bit_push_bit_iff bit_mask_iff)
  then show ?thesis by (simp add: bit_eq_iff) (use bit_imp_le_length [of q] in auto)
qed

lemma drop_field:
  fixes q :: "'a::len word"
  shows "drop_bit k (q AND push_bit k (mask n)) = take_bit n (drop_bit k q)"
  by (rule bit_word_eqI)
    (auto simp: bit_drop_bit_eq bit_and_iff bit_push_bit_iff bit_mask_iff bit_take_bit_iff dest: bit_imp_le_length)

lemma i40e_rx_fetch_eq:
  assumes "unat i < length (ring_mem r)"
  defines "q \<equiv> qword1 (ring_mem r ! unat i)"
  shows "i40e_rx_desc_fetch r i p =
    Some (if \<not> bit q 0 then (-1, p)
          else (0, p\<lparr>pkt_slot_size := ucast (take_bit 14 (drop_bit 38 q)),
                    pkt_flag := (if bit q 1 then UFP_PACKET_EOF else 0) OR
                      (if \<exists>b \<in> {19..26}. bit q b then UFP_PACKET_ERROR else 0)\<rparr>))"
proof -
  have m8: "(0xFF :: u64) = mask 8" and m14: "(0x3FFF :: u64) = mask 14" and m1: "(1 :: u64) = mask 1"
    by (simp_all add: mask_eq_exp_minus_1)
  have dd: "q AND push_bit I40E_RX_DESC_STATUS_DD_SHIFT 1 = 0 \<longleftrightarrow> \<not> bit q 0"
    unfolding m1 I40E_RX_DESC_STATUS_DD_SHIFT_def by (subst and_field_0_iff) simp_all
  have eof: "q AND push_bit I40E_RX_DESC_STATUS_EOF_SHIFT 1 = 0 \<longleftrightarrow> \<not> bit q 1"
    unfolding m1 I40E_RX_DESC_STATUS_EOF_SHIFT_def by (subst and_field_0_iff) simp_all
  have "{19..<19 + 8} = {19..26 :: nat}" by auto
  then have err: "q AND I40E_RXD_QW1_ERROR_MASK = 0 \<longleftrightarrow> \<not> (\<exists>b \<in> {19..26}. bit q b)"
    unfolding I40E_RXD_QW1_ERROR_MASK_def I40E_RXD_QW1_ERROR_SHIFT_def m8
    by (subst and_field_0_iff) simp_all
  have len: "drop_bit I40E_RXD_QW1_LENGTH_PBUF_SHIFT (q AND I40E_RXD_QW1_LENGTH_PBUF_MASK) =
      take_bit 14 (drop_bit 38 q)"
    unfolding I40E_RXD_QW1_LENGTH_PBUF_MASK_def I40E_RXD_QW1_LENGTH_PBUF_SHIFT_def m14
    by (rule drop_field)
  have q: "qword1 (ring_mem r ! unat i) = q" by (simp add: q_def)
  show ?thesis
    unfolding i40e_rx_desc_fetch_def fetch_cases [OF assms(1)] Option.bind.bind_lunit Let_def q
    unfolding dd eof err len by simp
qed

text \<open>C28. Reading a receive descriptor. \<open>i40e_rx_desc_fetch\<close> leaves the packet alone and returns -1 until
  the device has set the descriptor-done bit (bit 0 of the second word). After that the size of the
  packet is the 14-bit length field at bit 38, the end-of-frame flag is bit 1, the error flag says
  whether one of the eight error bits from bit 19 on is set, and no other flag is set.
\<close>

theorem i40e_rx_fetch_fields:
  assumes "unat i < length (ring_mem r)"
  defines "q \<equiv> qword1 (ring_mem r ! unat i)"
  shows "i40e_rx_desc_fetch r i p =
    Some (if \<not> bit q 0 then (-1, p)
          else (0, p\<lparr>pkt_slot_size := ucast (take_bit 14 (drop_bit 38 q)),
                    pkt_flag := (if bit q 1 then UFP_PACKET_EOF else 0) OR
                      (if \<exists>b \<in> {19..26}. bit q b then UFP_PACKET_ERROR else 0)\<rparr>))"
  unfolding q_def by (rule i40e_rx_fetch_eq [OF assms(1)])

definition ring_ex :: "u64 \<Rightarrow> i40e_desc ufp_ring" where
  "ring_ex q = \<lparr>ring_addr_virt = 0x1000, ring_addr_dma = 0x1000, tail = 0x8000, next_to_use = 1,
     next_to_clean = 0, slot_index = [0, 1, 2, 3],
     ring_mem = replicate 4 \<lparr>qword0 = 0x2000, qword1 = q\<rparr>\<rparr>"

definition packet_ex :: ufp_packet where
  "packet_ex = \<lparr>pkt_slot_buf = 0, pkt_slot_size = 64, pkt_slot_index = 0, pkt_flag = UFP_PACKET_EOF\<rparr>"

theorem i40e_rx_fetch_fields_witness:
  "i40e_rx_desc_fetch (ring_ex 0x100000080003) 0 packet_ex =
    Some (0, packet_ex\<lparr>pkt_slot_size := 64, pkt_flag := UFP_PACKET_EOF OR UFP_PACKET_ERROR\<rparr>)"
proof -
  have "\<exists>b \<in> {19..26}. bit (0x100000080003 :: u64) b" by (rule bexI [of _ 19]) simp_all
  then show ?thesis
    using i40e_rx_fetch_fields [of 0 "ring_ex 0x100000080003" packet_ex]
    by (simp add: ring_ex_def nth_append) 
qed

text \<open>C29. Writing a transmit descriptor. \<open>i40e_tx_desc_fill\<close> changes the one descriptor it is given. Read
  back by the layout of the header, the descriptor holds the address and, for sizes that fit the
  14-bit field, the size of the packet, no tag, the type of a data descriptor, the commands for the
  checksum and the status report, and the end-of-packet command exactly for the last part of a
  frame; and it does not count as sent before the device has written it back.
\<close>

theorem i40e_tx_fill_fields:
  assumes i: "unat i < length (ring_mem r)" and sz: "pkt_slot_size p < 0x4000"
  shows "\<exists>r' q. i40e_tx_desc_fill r i a p = Some r' \<and>
    ring_mem r' = (ring_mem r)[unat i := \<lparr>qword0 = a, qword1 = q\<rparr>] \<and>
    q AND I40E_TXD_QW1_DTYPE_MASK = I40E_TX_DESC_DTYPE_DATA \<and>
    take_bit 12 (drop_bit 4 q) =
      (if bit (pkt_flag p) 1 then 7 else 6) \<and>
    take_bit 18 (drop_bit 16 q) = 0 \<and>
    take_bit 14 (drop_bit 34 q) = ucast (pkt_slot_size p) \<and>
    drop_bit 48 q = 0 \<and>
    i40e_tx_desc_fetch r' i = Some (-1)"
proof -
  define c :: u64 where "c = (if bit (pkt_flag p) 1 then 7 else 6)"
  define q :: u64 where "q = push_bit 4 c OR push_bit 34 (ucast (pkt_slot_size p))"
  let ?z = "ucast (pkt_slot_size p) :: u64"
  have zbit: "bit ?z n \<Longrightarrow> n < 14" for n
  proof (rule ccontr)
    assume "bit ?z n" "\<not> n < 14"
    moreover have "take_bit 14 (pkt_slot_size p) = pkt_slot_size p"
      using sz by (simp add: word_unat_eq_iff unsigned_take_bit_eq take_bit_nat_eq_self_iff word_less_nat_alt)
    ultimately show False by (metis bit_take_bit_iff bit_ucast_iff)
  qed
  have cbit: "bit c n \<Longrightarrow> n < 3" for n
  proof -
    have "take_bit 3 c = c" by (simp add: c_def)
    then show "bit c n \<Longrightarrow> n < 3" by (metis bit_take_bit_iff)
  qed
  have eof: "pkt_flag p AND UFP_PACKET_EOF \<noteq> 0 \<longleftrightarrow> bit (pkt_flag p) 1"
    using and_field_0_iff [of 1 1 "pkt_flag p"] by (simp add: UFP_PACKET_EOF_def)
  have fill: "i40e_tx_desc_fill r i a p = Some (desc_store r i \<lparr>qword0 = a, qword1 = q\<rparr>)"
    unfolding i40e_tx_desc_fill_def fetch_cases [OF i] Option.bind.bind_lunit Let_def eof
    by (cases "ring_mem r ! unat i") (simp add: q_def c_def desc_consts)
  have qbit: "bit q n \<longleftrightarrow> (4 \<le> n \<and> n < 7 \<and> bit c (n - 4)) \<or> (34 \<le> n \<and> n < 48 \<and> bit ?z (n - 34))" for n
    using cbit [of "n - 4"] zbit [of "n - 34"] unfolding q_def
    by (auto simp: bit_or_iff bit_push_bit_iff)
  have f1: "q AND I40E_TXD_QW1_DTYPE_MASK = I40E_TX_DESC_DTYPE_DATA"
    using and_field_0_iff [of 0 4 q] by (simp add: desc_consts mask_eq_exp_minus_1 qbit)
  have f2: "take_bit 12 (drop_bit 4 q) = c"
    by (rule bit_word_eqI) (auto simp: bit_take_bit_iff bit_drop_bit_eq qbit dest: cbit)
  have f3: "take_bit 18 (drop_bit 16 q) = 0"
    by (rule bit_word_eqI) (auto simp: bit_take_bit_iff bit_drop_bit_eq qbit)
  have f4: "take_bit 14 (drop_bit 34 q) = ?z"
    by (rule bit_word_eqI) (auto simp: bit_take_bit_iff bit_drop_bit_eq qbit dest: zbit)
  have f5: "drop_bit 48 q = 0"
    by (rule bit_word_eqI) (auto simp: bit_drop_bit_eq qbit)
  let ?r' = "desc_store r i \<lparr>qword0 = a, qword1 = q\<rparr>"
  have "I40E_DESC ?r' i = Some \<lparr>qword0 = a, qword1 = q\<rparr>"
    using i by (simp add: I40E_DESC_def desc_store_def)
  then have "i40e_tx_desc_fetch ?r' i = Some (-1)"
    using f1 by (simp add: i40e_tx_desc_fetch_def I40E_TX_DESC_DTYPE_DATA_def I40E_TX_DESC_DTYPE_DESC_DONE_def)
  then show ?thesis
    using fill f1 f2 f3 f4 f5 by (intro exI [of _ ?r'] exI [of _ q]) (simp add: desc_store_def c_def)
qed

theorem i40e_tx_fill_fields_witness:
  "\<exists>r' q. i40e_tx_desc_fill (ring_ex 0) 1 0x3000 packet_ex = Some r' \<and>
    ring_mem r' ! 1 = \<lparr>qword0 = 0x3000, qword1 = q\<rparr> \<and> take_bit 14 (drop_bit 34 q) = 64 \<and>
    i40e_tx_desc_fetch r' 1 = Some (-1)"
  using i40e_tx_fill_fields [where i = 1 and r = "ring_ex 0" and p = packet_ex and a = "0x3000"]
  by (auto simp: ring_ex_def packet_ex_def)

end
