(* ===== verification/Ufp_Flow.thy ===== *)
theory Ufp_Flow
  imports I40e_Desc
begin

text \<open>
  The life of a buffer slot in a forwarding thread: a step relation whose steps are the operations
  of \<open>lib/lib_io.c\<close> with the i40e driver, in any order and on any port, and the writes of the
  device, which may change any descriptor to anything. The state is the plane, the buffer and the
  multiset of the slots that the thread holds as packets.
\<close>

type_synonym flow = "i40e_desc ufp_plane \<times> ufp_buf \<times> int multiset"

text \<open>What the device may do: new contents for the descriptors of a ring.\<close>

definition device_rx :: "i40e_desc ufp_port \<Rightarrow> i40e_desc list \<Rightarrow> i40e_desc ufp_port" where
  "device_rx p m = p\<lparr>rx_ring := (rx_ring p)\<lparr>ring_mem := m\<rparr>\<rparr>"

definition device_tx :: "i40e_desc ufp_port \<Rightarrow> i40e_desc list \<Rightarrow> i40e_desc ufp_port" where
  "device_tx p m = p\<lparr>tx_ring := (tx_ring p)\<lparr>ring_mem := m\<rparr>\<rparr>"

inductive flow_step :: "flow \<Rightarrow> flow \<Rightarrow> bool" where
  rx_assign: "ufp_rx_assign plane i buf = Some (plane', buf', w) \<Longrightarrow>
    flow_step (plane, buf, held) (plane', buf', held)"
| rx_clean: "plane_port plane i = Some p \<Longrightarrow> unat (rx_budget p) \<le> length pk \<Longrightarrow>
    ufp_rx_clean plane i buf pk = Some (plane', pk', t) \<Longrightarrow>
    flow_step (plane, buf, held) (plane', buf, held + mset (map pkt_slot_index (take t pk')))"
| tx_assign: "pkt_slot_index pkt \<in># held \<Longrightarrow>
    ufp_tx_assign plane i buf pkt = Some (plane', buf') \<Longrightarrow>
    flow_step (plane, buf, held) (plane', buf', held - {#pkt_slot_index pkt#})"
| tx_xmit: "ufp_tx_xmit plane i = Some (plane', w) \<Longrightarrow>
    flow_step (plane, buf, held) (plane', buf, held)"
| tx_clean: "ufp_tx_clean plane i buf = Some (plane', buf') \<Longrightarrow>
    flow_step (plane, buf, held) (plane', buf', held)"
| slot_assign: "plane_port plane i = Some p \<Longrightarrow> ufp_slot_assign buf p = Some (si, buf', p') \<Longrightarrow>
    flow_step (plane, buf, held) (plane_set_port plane i p', buf', if si < 0 then held else add_mset si held)"
| release: "si \<in># held \<Longrightarrow> ufp_slot_release buf si = Some buf' \<Longrightarrow>
    flow_step (plane, buf, held) (plane, buf', held - {#si#})"
| device_rx: "plane_port plane i = Some p \<Longrightarrow> length m = length (ring_mem (rx_ring p)) \<Longrightarrow>
    flow_step (plane, buf, held) (plane_set_port plane i (device_rx p m), buf, held)"
| device_tx: "plane_port plane i = Some p \<Longrightarrow> length m = length (ring_mem (tx_ring p)) \<Longrightarrow>
    flow_step (plane, buf, held) (plane_set_port plane i (device_tx p m), buf, held)"

inductive_cases flow_stepE: "flow_step (plane, buf, held) s'"

lemma plane_portD:
  "plane_port plane i = Some p \<Longrightarrow> i < length (ports plane) \<and> p = ports plane ! i"
  by (simp add: plane_port_def split: if_splits)

lemma io_inv_device:
  assumes inv: "io_inv i40e_ops plane buf held" and p: "plane_port plane i = Some p"
  shows "length m = length (ring_mem (rx_ring p)) \<Longrightarrow>
      io_inv i40e_ops (plane_set_port plane i (device_rx p m)) buf held"
    and "length m = length (ring_mem (tx_ring p)) \<Longrightarrow>
      io_inv i40e_ops (plane_set_port plane i (device_tx p m)) buf held"
proof -
  have i: "i < length (ports plane)" "p = ports plane ! i" using plane_portD [OF p] by auto
  have ok: "port_ok i40e_ops buf i p" using io_inv_portD [OF inv i(1)] i(2) by simp
  {
    assume "length m = length (ring_mem (rx_ring p))"
    then have "port_ok i40e_ops buf i (device_rx p m)"
      using ok by (simp add: port_ok_def device_rx_def ring_ok_mem)
    moreover have "port_held (device_rx p m) = port_held p" by (simp add: port_held_def device_rx_def)
    ultimately show "io_inv i40e_ops (plane_set_port plane i (device_rx p m)) buf held"
      using io_inv_update [OF inv i(1), of _ "slots buf" held] i(2) by simp
  }
  {
    assume "length m = length (ring_mem (tx_ring p))"
    then have "port_ok i40e_ops buf i (device_tx p m)"
      using ok by (simp add: port_ok_def device_tx_def ring_ok_mem)
    moreover have "port_held (device_tx p m) = port_held p" by (simp add: port_held_def device_tx_def)
    ultimately show "io_inv i40e_ops (plane_set_port plane i (device_tx p m)) buf held"
      using io_inv_update [OF inv i(1), of _ "slots buf" held] i(2) by simp
  }
qed

lemma port_in_range:
  "ufp_rx_assign plane i buf = Some x \<Longrightarrow> i < length (ports plane)"
  "ufp_tx_assign plane i buf pkt = Some y \<Longrightarrow> i < length (ports plane)"
  "ufp_tx_xmit plane i = Some z \<Longrightarrow> i < length (ports plane)"
  "ufp_tx_clean plane i buf = Some u \<Longrightarrow> i < length (ports plane)"
  by (auto simp: ufp_rx_assign_def ufp_tx_assign_def ufp_tx_xmit_def ufp_tx_clean_def plane_port_def
      split: if_splits)

text \<open>A slot that the thread takes itself, for a packet of the host, is one that was at no place.\<close>

lemma io_inv_slot_assign:
  assumes inv: "io_inv i40e_ops plane buf held" and p: "plane_port plane i = Some p" and a: "ufp_slot_assign buf p = Some (si, buf', p')"
  shows "io_inv i40e_ops (plane_set_port plane i p') buf' (if si < 0 then held else add_mset si held)"
proof -
  have i: "i < length (ports plane)" "p = ports plane ! i" using plane_portD [OF p] by auto
  have ok: "port_ok i40e_ops buf i p" using io_inv_portD [OF inv i(1)] i(2) by simp
  then have "slot_ok (rx_slot_offset p) (rx_slot_next p) buf" by (simp add: port_ok_def)
  then show ?thesis
  proof (cases rule: slot_assign_cases)
    case full
    then have "p' = ports plane ! i" "buf' = buf" "si = -1" using a i by simp_all
    then show ?thesis using inv by (simp add: plane_set_port_def)
  next
    case (slot k n xs)
    have "port_ok i40e_ops buf i (p\<lparr>rx_slot_next := n\<rparr>)" using ok slot(4,6) by (simp add: port_ok_def slot_ok_def)
    moreover have "mset_set (inflight (buf\<lparr>slots := xs\<rparr>)) = add_mset (int k) (mset_set (inflight buf))"
      using slot(3,5) finite_inflight by simp
    ultimately have "io_inv i40e_ops (plane_set_port plane i (p\<lparr>rx_slot_next := n\<rparr>)) (buf\<lparr>slots := xs\<rparr>) (add_mset (int k) held)"
      using i(2) by (intro io_inv_update [OF inv i(1)]) (simp_all add: slot(4) port_held_def)
    then show ?thesis using a slot(1) by simp
  qed
qed

lemma flow_step_inv:
  assumes "flow_step s s'" "s = (plane, buf, held)" "io_inv i40e_ops plane buf held"
  shows "case s' of (plane', buf', held') \<Rightarrow> io_inv i40e_ops plane' buf' held'"
  using assms
proof (induction rule: flow_step.induct)
  case (rx_assign plane i buf plane' buf' w held)
  then show ?case
    using i40e.rx_assign_spec [of plane buf held i] port_in_range(1) [OF rx_assign(1)] by fastforce
next
  case (rx_clean plane i p pk buf plane' pk' t held)
  then show ?case
    using i40e.rx_clean_spec [of plane buf held i pk] plane_portD [OF rx_clean(1)] by fastforce
next
  case (tx_assign pkt held plane i buf plane' buf')
  then show ?case
    using i40e.tx_assign_spec [of plane buf held i pkt] port_in_range(2) [OF tx_assign(2)] by fastforce
next
  case (tx_xmit plane i plane' w buf held)
  then show ?case
    using i40e.tx_xmit_spec [of plane buf held i] port_in_range(3) [OF tx_xmit(1)] by fastforce
next
  case (tx_clean plane i buf plane' buf' held)
  then show ?case
    using i40e.tx_clean_spec [of plane buf held i] port_in_range(4) [OF tx_clean(1)] by fastforce
next
  case (slot_assign plane i p buf si buf' p' held)
  then show ?case using io_inv_slot_assign [of plane buf held i p si buf' p'] by simp
next
  case (release si held buf buf' plane)
  then show ?case using i40e.release_spec [of plane buf held si] by fastforce
next
  case (device_rx plane i p m buf held)
  then show ?case using io_inv_device(1) [of plane buf held i p m] by simp
next
  case (device_tx plane i p m buf held)
  then show ?case using io_inv_device(2) [of plane buf held i p m] by simp
qed

lemma flow_steps_inv:
  assumes "flow_step\<^sup>*\<^sup>* s s'" "s = (plane, buf, held)" "io_inv i40e_ops plane buf held"
  shows "case s' of (plane', buf', held') \<Rightarrow> io_inv i40e_ops plane' buf' held'"
  using assms
proof (induction rule: rtranclp_induct)
  case (step y z)
  obtain pl b h where y: "y = (pl, b, h)" by (cases y)
  then have "io_inv i40e_ops pl b h" using step by simp
  then show ?case using flow_step_inv [OF step(2) y] by simp
qed simp

subsection \<open>Properties\<close>

text \<open>C14. No slot is in two places, as long as the thread sends and releases only slots that it holds. In any order of calls of the library on any port (posting and
  fetching receive buffers, taking a slot, sending, cleaning up, releasing) and of changes of the device, where a slot that is sent or released is one of a
  packet that was received, or a slot that was taken, and not given away since: a slot is on a ring or held as a packet exactly if it is marked as in flight, and then at one
  place only, once on one ring of one port or once among the held ones. The thread does not always keep to that: it also releases the slot of a packet that it has sent.
\<close>

theorem slots_conserved:
  assumes "io_inv i40e_ops plane buf held" "flow_step\<^sup>*\<^sup>* (plane, buf, held) (plane', buf', held')"
  shows "plane_ok i40e_ops plane' buf' \<and>
    (\<forall>si. count (plane_held plane' + held') si = (if si \<in> inflight buf' then 1 else 0))"
proof -
  have "io_inv i40e_ops plane' buf' held'" using flow_steps_inv [OF assms(2) refl assms(1)] by simp
  then show ?thesis by (simp add: io_inv_def count_mset_set')
qed

text \<open>C21. Posting receive buffers. \<open>ufp_rx_assign\<close> never faults; it puts free slots of the port's own
  segment, marked as in flight, behind those already on the ring, until the ring is full or the
  segment has no free slot left, and tells the device about them exactly if there are any.
\<close>

theorem rx_assign_correct:
  assumes "io_inv i40e_ops plane buf held" "i < length (ports plane)" "p = ports plane ! i"
  shows "\<exists>p' xs new. ufp_rx_assign plane i buf = Some (plane_set_port plane i p', buf\<lparr>slots := xs\<rparr>,
        if new = [] then [] else [(tail (rx_ring p), ucast (next_to_use (rx_ring p')))]) \<and>
      io_inv i40e_ops (plane_set_port plane i p') (buf\<lparr>slots := xs\<rparr>) held \<and>
      ring_queue (num_rx_desc p) (rx_ring p') = ring_queue (num_rx_desc p) (rx_ring p) @ new \<and>
      set new \<subseteq> segment (rx_slot_offset p) buf - inflight buf \<and>
      inflight (buf\<lparr>slots := xs\<rparr>) = inflight buf \<union> set new \<and>
      (length new = unat (ufp_desc_unused (rx_ring p) (ucast (num_rx_desc p))) \<or>
       segment (rx_slot_offset p) buf \<subseteq> inflight (buf\<lparr>slots := xs\<rparr>))"
  using i40e.rx_assign_spec [OF assms(1,2)] unfolding assms(3) by blast

text \<open>C22. Taking received packets. \<open>ufp_rx_clean\<close> never faults; it hands out the packets that the
  device has finished, in the order of the ring and with their slots, and stops at the budget, at the
  end of what was posted, or at the first descriptor that is not done. The slots
  leave the ring and are the caller's.
\<close>

theorem rx_clean_correct:
  assumes "io_inv i40e_ops plane buf held" "i < length (ports plane)" "p = ports plane ! i"
    "unat (rx_budget p) \<le> length pk"
  shows "\<exists>p' pk' t. ufp_rx_clean plane i buf pk = Some (plane_set_port plane i p', pk', t) \<and>
      io_inv i40e_ops (plane_set_port plane i p') buf (held + mset (map pkt_slot_index (take t pk'))) \<and>
      ring_queue (num_rx_desc p) (rx_ring p) =
        map pkt_slot_index (take t pk') @ ring_queue (num_rx_desc p) (rx_ring p') \<and>
      count_rx_clean_total p' = count_rx_clean_total p + of_nat t \<and> t \<le> unat (rx_budget p) \<and>
      (\<forall>k<t. rx_done i40e_ops (num_rx_desc p) (rx_ring p) buf k (pk ! k) (pk' ! k)) \<and>
      (t = unat (rx_budget p) \<or> t = ring_occ (num_rx_desc p) (rx_ring p) \<or>
       rx_not_ready i40e_ops (num_rx_desc p) (rx_ring p) t (pk ! t))"
  using i40e.rx_clean_spec [OF assms(1,2), of pk] assms(4) unfolding assms(3) by blast

text \<open>C23. Sending a packet. \<open>ufp_tx_assign\<close> on a packet that the caller holds never faults: with a free
  descriptor the slot goes to the end of the transmit ring and stays in flight; without one the
  packet is counted as failed and its slot is free again. The other slots are where they were.
\<close>

theorem tx_assign_correct:
  assumes "io_inv i40e_ops plane buf held" "i < length (ports plane)" "p = ports plane ! i"
    "pkt_slot_index pkt \<in># held"
  shows "\<exists>p' xs. ufp_tx_assign plane i buf pkt = Some (plane_set_port plane i p', buf\<lparr>slots := xs\<rparr>) \<and>
      io_inv i40e_ops (plane_set_port plane i p') (buf\<lparr>slots := xs\<rparr>) (held - {#pkt_slot_index pkt#}) \<and>
      (if ufp_desc_unused (tx_ring p) (ucast (num_tx_desc p)) = 0
       then tx_ring p' = tx_ring p \<and> count_tx_xmit_failed p' = count_tx_xmit_failed p + 1 \<and>
         inflight (buf\<lparr>slots := xs\<rparr>) = inflight buf - {pkt_slot_index pkt}
       else ring_queue (num_tx_desc p) (tx_ring p') =
           ring_queue (num_tx_desc p) (tx_ring p) @ [pkt_slot_index pkt] \<and>
         tx_suspended p' = tx_suspended p + 1 \<and> xs = slots buf)"
proof -
  obtain p' xs where "ufp_tx_assign plane i buf pkt = Some (plane_set_port plane i p', buf\<lparr>slots := xs\<rparr>)"
      "io_inv i40e_ops (plane_set_port plane i p') (buf\<lparr>slots := xs\<rparr>) (held - {#pkt_slot_index pkt#})"
      "if ufp_desc_unused (tx_ring p) (ucast (num_tx_desc p)) = 0
       then tx_ring p' = tx_ring p \<and> tx_suspended p' = tx_suspended p \<and>
         count_tx_xmit_failed p' = count_tx_xmit_failed p + 1 \<and>
         inflight (buf\<lparr>slots := xs\<rparr>) = inflight buf - {pkt_slot_index pkt}
       else ring_queue (num_tx_desc p) (tx_ring p') =
           ring_queue (num_tx_desc p) (tx_ring p) @ [pkt_slot_index pkt] \<and>
         tx_suspended p' = tx_suspended p + 1 \<and> xs = slots buf"
    using i40e.tx_assign_spec [OF assms(1,2,4)] unfolding assms(3) by blast
  then show ?thesis by (intro exI [of _ p'] exI [of _ xs]) (simp split: if_splits)
qed

text \<open>C24. Collecting sent packets. \<open>ufp_tx_clean\<close> never faults; it frees the slots of the packets that the
  device has sent, from the front of the transmit ring, up to the budget or the first that is not
  sent.
\<close>

theorem tx_clean_correct:
  assumes "io_inv i40e_ops plane buf held" "i < length (ports plane)" "p = ports plane ! i"
  shows "\<exists>p' xs t. ufp_tx_clean plane i buf = Some (plane_set_port plane i p', buf\<lparr>slots := xs\<rparr>) \<and>
      io_inv i40e_ops (plane_set_port plane i p') (buf\<lparr>slots := xs\<rparr>) held \<and>
      ring_queue (num_tx_desc p) (tx_ring p) =
        take t (ring_queue (num_tx_desc p) (tx_ring p)) @ ring_queue (num_tx_desc p) (tx_ring p') \<and>
      inflight (buf\<lparr>slots := xs\<rparr>) = inflight buf - set (take t (ring_queue (num_tx_desc p) (tx_ring p))) \<and>
      t \<le> unat (tx_budget p) \<and> (\<forall>k<t. tx_ready i40e_ops (num_tx_desc p) (tx_ring p) k) \<and>
      (t = unat (tx_budget p) \<or> t = ring_occ (num_tx_desc p) (tx_ring p) \<or>
       \<not> tx_ready i40e_ops (num_tx_desc p) (tx_ring p) t)"
  using i40e.tx_clean_spec [OF assms(1,2)] unfolding assms(3) by blast

end
