(* ===== verification/Forward.thy ===== *)
theory Forward
  imports Neigh Ufp_Flow
begin

text \<open>
  The forwarding path of the application, \<open>src/forward.c\<close>, and the state of a forwarding thread,
  \<open>struct ufpd_thread\<close> of \<open>src/thread.h\<close>.

  The memory of a slot is the list of its bytes, found by the address of the slot. The objects of
  each routing and neighbour table are kept with the table that owns them; the pool is shared. A
  \<open>write\<close> to a tap device is recorded as the pair of descriptor and bytes, in order.
\<close>

subsection \<open>The state of a thread\<close>

record fib_store =
  fs_fib :: fib
  fs_objs :: "addr \<rightharpoonup> fib_entry"

record neigh_store =
  ns_neigh :: neigh_table
  ns_objs :: "addr \<rightharpoonup> neigh_entry"

record ufpd_thread =
  th_plane :: "i40e_desc ufp_plane"
  th_mpool :: ufp_mpool
  th_buf :: ufp_buf
  th_neigh_inet :: "neigh_store list"
  th_neigh_inet6 :: "neigh_store list"
  th_fib_inet :: fib_store
  th_fib_inet6 :: fib_store
  th_id :: u32
  th_num_ports :: u32
  th_read_size :: nat
  th_mem :: "addr \<Rightarrow> u8 list"
  th_tun :: "(int \<times> u8 list) list"
  th_mmio :: mmio

definition fib_mem :: "ufpd_thread \<Rightarrow> fib_store \<Rightarrow> fib_entry lpm_mem" where
  "fib_mem thread fs = \<lparr>lm_pool = th_mpool thread, lm_objs = fs_objs fs\<rparr>"

definition neigh_mem :: "ufpd_thread \<Rightarrow> neigh_store \<Rightarrow> neigh_entry lpm_mem" where
  "neigh_mem thread ns = \<lparr>lm_pool = th_mpool thread, lm_objs = ns_objs ns\<rparr>"

subsection \<open>Frames\<close>

definition ETH_HLEN :: nat where "ETH_HLEN = 14"
definition ETH_P_IP :: u16 where "ETH_P_IP = 0x0800"
definition ETH_P_ARP :: u16 where "ETH_P_ARP = 0x0806"
definition ETH_P_IPV6 :: u16 where "ETH_P_IPV6 = 0x86DD"

text \<open>Offsets of \<open>struct ethhdr\<close>, \<open>struct iphdr\<close> and \<open>struct ip6_hdr\<close>.\<close>

definition OFF_H_DEST :: nat where "OFF_H_DEST = 0"
definition OFF_H_SOURCE :: nat where "OFF_H_SOURCE = 6"
definition OFF_H_PROTO :: nat where "OFF_H_PROTO = 12"
definition OFF_TTL :: nat where "OFF_TTL = ETH_HLEN + 8"
definition OFF_CHECK :: nat where "OFF_CHECK = ETH_HLEN + 10"
definition OFF_DADDR :: nat where "OFF_DADDR = ETH_HLEN + 16"
definition OFF_HLIM :: nat where "OFF_HLIM = ETH_HLEN + 7"
definition OFF_IP6_DST :: nat where "OFF_IP6_DST = ETH_HLEN + 24"
definition IP_HDR_END :: nat where "IP_HDR_END = ETH_HLEN + 20"
definition IP6_HDR_END :: nat where "IP6_HDR_END = ETH_HLEN + 40"

lemmas frame_offsets = ETH_HLEN_def OFF_H_DEST_def OFF_H_SOURCE_def OFF_H_PROTO_def OFF_TTL_def
  OFF_CHECK_def OFF_DADDR_def OFF_HLIM_def OFF_IP6_DST_def IP_HDR_END_def IP6_HDR_END_def

text \<open>The bytes from an offset on, as the routing table reads them.\<close>

definition frame_ptr :: "u8 list \<Rightarrow> nat \<Rightarrow> bytes" where
  "frame_ptr frame off = (\<lambda>i. frame ! (off + i))"

definition frame_slice :: "u8 list \<Rightarrow> nat \<Rightarrow> nat \<Rightarrow> u8 list" where
  "frame_slice frame off n = take n (drop off frame)"

definition frame_store :: "u8 list \<Rightarrow> nat \<Rightarrow> u8 list \<Rightarrow> u8 list" where
  "frame_store frame off bs = take off frame @ bs @ drop (off + length bs) frame"

text \<open>A 16-bit field in the byte order of the (little-endian) host, and in network byte order.\<close>

definition frame_le16 :: "u8 list \<Rightarrow> nat \<Rightarrow> u16" where
  "frame_le16 frame off = ucast (frame ! off) OR push_bit 8 (ucast (frame ! (off + 1)))"

definition le16_bytes :: "u16 \<Rightarrow> u8 list" where
  "le16_bytes w = [ucast w, ucast (drop_bit 8 w)]"

definition ntohs :: "u16 \<Rightarrow> u16" where
  "ntohs w = push_bit 8 (take_bit 8 w) OR drop_bit 8 w"

text \<open>\<open>IN6_IS_ADDR_LINKLOCAL\<close>: the prefix \<open>fe80::/10\<close>.\<close>

definition in6_is_addr_linklocal :: "u8 list \<Rightarrow> nat \<Rightarrow> bool" where
  "in6_is_addr_linklocal frame off \<longleftrightarrow> frame ! off = 0xfe \<and> (frame ! (off + 1)) AND 0xc0 = 0x80"

subsection \<open>Operations\<close>

text \<open>\<open>write\<close> of the packet to the tap device of a port; its result is not used.\<close>

definition tun_write :: "ufpd_thread \<Rightarrow> nat \<Rightarrow> ufp_packet \<Rightarrow> ufpd_thread option" where
  "tun_write thread port_index packet =
     do { fd \<leftarrow> ufp_tun_fd (th_plane thread) port_index;
          let frame = th_mem thread (pkt_slot_buf packet);
          if unat (pkt_slot_size packet) \<le> length frame
          then Some (thread\<lparr>th_tun := th_tun thread @ [(fd, take (unat (pkt_slot_size packet)) frame)]\<rparr>)
          else None }"

definition forward_arp_process :: "ufpd_thread \<Rightarrow> nat \<Rightarrow> ufp_packet \<Rightarrow> (int \<times> ufpd_thread) option" where
  "forward_arp_process thread port_index packet =
     do { thread \<leftarrow> tun_write thread port_index packet; Some (-1, thread) }"

text \<open>The choice of the neighbour entry, the \<open>switch\<close> that both versions of IP share.\<close>

datatype hop = Hop_Local | Hop_Drop | Hop_To int addr

definition forward_hop ::
  "ufpd_thread \<Rightarrow> fib_store \<Rightarrow> neigh_store list \<Rightarrow> u8 list \<Rightarrow> nat \<Rightarrow> nat \<Rightarrow> hop option" where
  "forward_hop thread fs neighs frame off n =
     do { r \<leftarrow> fib_lookup (fs_fib fs) (frame_ptr frame off);
          case r of None \<Rightarrow> Some Hop_Drop
          | Some p \<Rightarrow> do {
              fib_entry \<leftarrow> fs_objs fs p;
              let port = fe_port_index fib_entry;
              if port < 0 then Some Hop_Local
              else (case fe_type fib_entry of
                  FIB_TYPE_LOCAL \<Rightarrow> Some Hop_Local
                | FIB_TYPE_LINK \<Rightarrow>
                    if nat port < length neighs then do {
                      neigh_entry \<leftarrow> neigh_lookup (ns_neigh (neighs ! nat port)) (frame_slice frame off n)
                        (neigh_mem thread (neighs ! nat port));
                      Some (case neigh_entry of None \<Rightarrow> Hop_Local | Some a \<Rightarrow> Hop_To port a) }
                    else None
                | FIB_TYPE_FORWARD \<Rightarrow>
                    if nat port < length neighs then do {
                      neigh_entry \<leftarrow> neigh_lookup (ns_neigh (neighs ! nat port)) (fe_nexthop fib_entry)
                        (neigh_mem thread (neighs ! nat port));
                      Some (case neigh_entry of None \<Rightarrow> Hop_Local | Some a \<Rightarrow> Hop_To port a) }
                    else None) } }"

text \<open>The new Ethernet header: the neighbour's address and the address of the port.\<close>

definition forward_macs ::
  "ufpd_thread \<Rightarrow> neigh_store list \<Rightarrow> int \<Rightarrow> addr \<Rightarrow> u8 list \<Rightarrow> u8 list option" where
  "forward_macs thread neighs port a frame =
     do { neigh_entry \<leftarrow> ns_objs (neighs ! nat port) a;
          src_mac \<leftarrow> ufp_macaddr (th_plane thread) (nat port);
          let frame = frame_store frame OFF_H_DEST (ne_dst_mac neigh_entry);
          Some (frame_store frame OFF_H_SOURCE src_mac) }"

text \<open>The update of the header checksum for a time to live that is one less.\<close>

definition ip_check_update :: "u16 \<Rightarrow> u16" where
  "ip_check_update old =
     (let check = (ucast old :: u32) + ucast (ntohs 0x0100)
      in ucast (check + (if check \<ge> 0xFFFF then 1 else 0)))"

definition forward_ip_process :: "ufpd_thread \<Rightarrow> nat \<Rightarrow> ufp_packet \<Rightarrow> (int \<times> ufpd_thread) option" where
  "forward_ip_process thread port_index packet =
     (let frame = th_mem thread (pkt_slot_buf packet);
          local = do { thread \<leftarrow> tun_write thread port_index packet; Some (-1, thread) } in
      if length frame < IP_HDR_END then None
      else do {
        hop \<leftarrow> forward_hop thread (th_fib_inet thread) (th_neigh_inet thread) frame OFF_DADDR 4;
        case hop of Hop_Drop \<Rightarrow> Some (-1, thread)
        | Hop_Local \<Rightarrow> local
        | Hop_To port a \<Rightarrow>
            if frame ! OFF_TTL = 1 then local
            else do {
              let frame = frame[OFF_TTL := frame ! OFF_TTL - 1];
              let frame = frame_store frame OFF_CHECK (le16_bytes (ip_check_update (frame_le16 frame OFF_CHECK)));
              frame \<leftarrow> forward_macs thread (th_neigh_inet thread) port a frame;
              Some (port, thread\<lparr>th_mem := (th_mem thread)(pkt_slot_buf packet := frame)\<rparr>) } })"

definition forward_ip6_process :: "ufpd_thread \<Rightarrow> nat \<Rightarrow> ufp_packet \<Rightarrow> (int \<times> ufpd_thread) option" where
  "forward_ip6_process thread port_index packet =
     (let frame = th_mem thread (pkt_slot_buf packet);
          local = do { thread \<leftarrow> tun_write thread port_index packet; Some (-1, thread) } in
      if length frame < IP6_HDR_END then None
      else if in6_is_addr_linklocal frame OFF_IP6_DST then local
      else do {
        hop \<leftarrow> forward_hop thread (th_fib_inet6 thread) (th_neigh_inet6 thread) frame OFF_IP6_DST 16;
        case hop of Hop_Drop \<Rightarrow> Some (-1, thread)
        | Hop_Local \<Rightarrow> local
        | Hop_To port a \<Rightarrow>
            if frame ! OFF_HLIM = 1 then local
            else do {
              let frame = frame[OFF_HLIM := frame ! OFF_HLIM - 1];
              frame \<leftarrow> forward_macs thread (th_neigh_inet6 thread) port a frame;
              Some (port, thread\<lparr>th_mem := (th_mem thread)(pkt_slot_buf packet := frame)\<rparr>) } })"

text \<open>The \<open>switch\<close> over the protocol, and one turn of the loop of \<open>forward_process\<close>.\<close>

definition forward_one :: "ufpd_thread \<Rightarrow> nat \<Rightarrow> ufp_packet \<Rightarrow> (int \<times> ufpd_thread) option" where
  "forward_one thread port_index packet =
     (let frame = th_mem thread (pkt_slot_buf packet) in
      if length frame < ETH_HLEN then None
      else let proto = ntohs (frame_le16 frame OFF_H_PROTO) in
        if proto = ETH_P_ARP then forward_arp_process thread port_index packet
        else if proto = ETH_P_IP then forward_ip_process thread port_index packet
        else if proto = ETH_P_IPV6 then forward_ip6_process thread port_index packet
        else Some (-1, thread))"

definition forward_packet :: "ufpd_thread \<Rightarrow> nat \<Rightarrow> ufp_packet \<Rightarrow> ufpd_thread option" where
  "forward_packet thread port_index packet =
     do { let drop_packet = (\<lambda>thread. do {
            buf \<leftarrow> ufp_slot_release (th_buf thread) (pkt_slot_index packet);
            Some (thread\<lparr>th_buf := buf\<rparr>) });
          if pkt_flag packet AND UFP_PACKET_ERROR \<noteq> 0 then drop_packet thread
          else do {
            (ret, thread) \<leftarrow> forward_one thread port_index packet;
            if ret < 0 then drop_packet thread
            else do {
              (plane, buf) \<leftarrow> ufp_tx_assign (th_plane thread) (nat ret) (th_buf thread) packet;
              drop_packet (thread\<lparr>th_plane := plane, th_buf := buf\<rparr>) } } }"

fun forward_process :: "ufpd_thread \<Rightarrow> nat \<Rightarrow> ufp_packet list \<Rightarrow> ufpd_thread option" where
  "forward_process thread port_index [] = Some thread"
| "forward_process thread port_index (packet # packets) =
     do { thread \<leftarrow> forward_packet thread port_index packet;
          forward_process thread port_index packets }"

definition forward_process_tun :: "ufpd_thread \<Rightarrow> nat \<Rightarrow> u8 list \<Rightarrow> ufpd_thread option" where
  "forward_process_tun thread port_index read_buf =
     (if length read_buf > unat (ufp_slot_size (th_buf thread)) then Some thread
      else do {
        port \<leftarrow> plane_port (th_plane thread) port_index;
        (si, buf, port) \<leftarrow> ufp_slot_assign (th_buf thread) port;
        if si < 0 then Some thread
        else do {
          let plane = plane_set_port (th_plane thread) port_index port;
          let slot_buf = ufp_slot_addr_virt buf (of_int si);
          let frame = read_buf @ drop (length read_buf) (th_mem thread slot_buf);
          let packet = \<lparr>pkt_slot_buf = slot_buf, pkt_slot_size = of_nat (length read_buf),
                        pkt_slot_index = si, pkt_flag = UFP_PACKET_EOF\<rparr>;
          (plane, buf) \<leftarrow> ufp_tx_assign plane port_index buf packet;
          Some (thread\<lparr>th_plane := plane, th_buf := buf,
                  th_mem := (th_mem thread)(slot_buf := frame)\<rparr>) } })"

end
