(* ===== verification/Forward_Spec.thy ===== *)
theory Forward_Spec
  imports Forward
begin

text \<open>
  What the forwarding path promises: the decision for a packet follows the longest matching prefix
  and the neighbour table of its port, a forwarded frame keeps a correct header checksum, and what
  becomes of the slot of a packet.
\<close>

subsection \<open>The Internet checksum\<close>

text \<open>
  The ones' complement sum of 16-bit words (RFC 1071). A header is intact when the sum over its
  words, checksum included and in network byte order, is \<open>0xFFFF\<close>.
\<close>

definition ones_add :: "nat \<Rightarrow> nat \<Rightarrow> nat" where
  "ones_add a b = (if a + b \<ge> 65536 then a + b - 65535 else a + b)"

definition ones_sum :: "nat list \<Rightarrow> nat" where
  "ones_sum ws = foldl ones_add 0 ws"

definition be16 :: "u8 list \<Rightarrow> nat \<Rightarrow> nat" where
  "be16 frame off = 256 * unat (frame ! off) + unat (frame ! (off + 1))"

definition ip_words :: "nat \<Rightarrow> u8 list \<Rightarrow> nat list" where
  "ip_words n frame = map (\<lambda>k. be16 frame (ETH_HLEN + 2 * k)) [0..<n]"

definition ip_check_ok :: "nat \<Rightarrow> u8 list \<Rightarrow> bool" where
  "ip_check_ok n frame \<longleftrightarrow> ones_sum (ip_words n frame) = 0xFFFF"

lemma ones_add_mod: "ones_add a b mod 65535 = (a + b) mod 65535"
  by (simp add: ones_add_def le_mod_geq)

lemma ones_add_bound: "a \<le> 65535 \<Longrightarrow> b \<le> 65535 \<Longrightarrow> ones_add a b \<le> 65535"
  unfolding ones_add_def by (split if_split) linarith

lemma ones_add_0_iff: "ones_add a b = 0 \<longleftrightarrow> a = 0 \<and> b = 0"
  by (auto simp: ones_add_def)

lemma ones_fold:
  assumes "a \<le> 65535" "\<forall>w \<in> set ws. w \<le> 65535"
  shows "foldl ones_add a ws \<le> 65535 \<and>
    foldl ones_add a ws mod 65535 = (a + sum_list ws) mod 65535 \<and>
    (foldl ones_add a ws = 0 \<longleftrightarrow> a + sum_list ws = 0)"
  using assms
proof (induction ws arbitrary: a)
  case (Cons w ws)
  have b: "ones_add a w \<le> 65535" using Cons.prems by (simp add: ones_add_bound)
  have "(ones_add a w + sum_list ws) mod 65535 = (a + sum_list (w # ws)) mod 65535"
    using mod_add_cong [OF ones_add_mod [of a w] refl, of "sum_list ws"] by (simp add: add.assoc)
  moreover have "ones_add a w + sum_list ws = 0 \<longleftrightarrow> a + sum_list (w # ws) = 0"
    by (simp add: ones_add_0_iff)
  moreover have "\<forall>w \<in> set ws. w \<le> 65535" using Cons.prems by simp
  ultimately show ?case using Cons.IH [OF b] by (simp only: foldl_Cons)
qed simp

lemma ones_sum_ok_iff:
  assumes "\<forall>w \<in> set ws. w \<le> 65535"
  shows "ones_sum ws = 65535 \<longleftrightarrow> sum_list ws mod 65535 = 0 \<and> sum_list ws \<noteq> 0"
proof -
  have f: "ones_sum ws \<le> 65535" "ones_sum ws mod 65535 = sum_list ws mod 65535"
      "ones_sum ws = 0 \<longleftrightarrow> sum_list ws = 0"
    using ones_fold [of 0 ws] assms by (simp_all add: ones_sum_def)
  show ?thesis
  proof (cases "ones_sum ws < 65535")
    case True
    then show ?thesis using f by auto
  next
    case False
    then have "ones_sum ws = 65535" using f(1) by simp
    then show ?thesis using f by auto
  qed
qed

lemma u8_bound: "unat (b :: u8) \<le> 255"
proof -
  have "unat b < 2 ^ LENGTH(8)" by (rule unsigned_less)
  then show ?thesis by simp
qed

lemma be16_bound: "be16 frame off \<le> 65535"
  using u8_bound [of "frame ! off"] u8_bound [of "frame ! (off + 1)"] by (simp add: be16_def)

lemma ip_words_bound: "\<forall>w \<in> set (ip_words n frame). w \<le> 65535"
  by (auto simp: ip_words_def be16_bound)

text \<open>The incremental update adds one in ones' complement arithmetic, in the order of the host.\<close>

lemma frame_le16_unat: "unat (frame_le16 frame off) = unat (frame ! off) + 256 * unat (frame ! (off + 1))"
proof -
  have "frame_le16 frame off = ucast (frame ! off) + push_bit 8 (ucast (frame ! (off + 1)))"
    unfolding frame_le16_def
    by (rule disjunctive_add [symmetric]) (auto simp: bit_ucast_iff bit_push_bit_iff dest: bit_imp_le_length)
  also have "unat \<dots> = unat (frame ! off) + 256 * unat (frame ! (off + 1))"
  proof -
    have "unat (push_bit 8 (ucast (frame ! (off + 1)) :: u16)) = 256 * unat (frame ! (off + 1))"
      using u8_bound [of "frame ! (off + 1)"]
      by (simp add: unsigned_push_bit_eq unat_ucast_up push_bit_nat_def take_bit_nat_eq_self_iff mult.commute)
    moreover have "unat (ucast (frame ! off) :: u16) = unat (frame ! off)" by (simp add: unat_ucast_up)
    ultimately show ?thesis
      using u8_bound [of "frame ! off"] u8_bound [of "frame ! (off + 1)"] by (simp add: unat_word_ariths)
  qed
  finally show ?thesis .
qed

lemma ip_check_update_mod: "unat (ip_check_update w) mod 65535 = (unat w + 1) mod 65535"
proof -
  have wb: "unat w < 65536" using unsigned_less [of w, where ?'a = nat] by simp
  have h: "(ucast (ntohs 0x0100) :: u32) = 1" by (simp add: ntohs_def)
  have c: "unat ((ucast w :: u32) + 1) = unat w + 1"
    using wb by (simp add: unat_word_ariths)
  have ge: "(ucast w :: u32) + 1 \<ge> 0xFFFF \<longleftrightarrow> unat w + 1 \<ge> 65535"
    unfolding word_le_nat_alt c by simp
  show ?thesis
  proof (cases "unat w + 1 \<ge> 65535")
    case False
    then have "unat (ip_check_update w) = unat w + 1"
      unfolding ip_check_update_def h Let_def using ge c
      by (simp add: unsigned_ucast_eq take_bit_nat_eq_self_iff)
    then show ?thesis by simp
  next
    case True
    then have "unat w = 65534 \<or> unat w = 65535" using wb by linarith
    then have "w = 65534 \<or> w = 65535" by (auto simp: word_unat_eq_iff)
    then show ?thesis by (auto simp: ip_check_update_def h)
  qed
qed

lemma le16_bytes_nth:
  "256 * unat (le16_bytes w ! 0) + unat (le16_bytes w ! 1) = 256 * (unat w mod 256) + unat w div 256"
proof -
  have "unat (drop_bit 8 w) = unat w div 256" by (simp add: unat_drop_bit)
  moreover have "unat w div 256 < 256" using unsigned_less [of w, where ?'a = nat] by simp
  ultimately show ?thesis
    by (simp add: le16_bytes_def unsigned_ucast_eq take_bit_eq_mod)
qed

subsection \<open>The forwarded frame\<close>

lemma length_frame_store [simp]:
  "off + length bs \<le> length frame \<Longrightarrow> length (frame_store frame off bs) = length frame"
  by (simp add: frame_store_def)

lemma nth_frame_store:
  assumes "off + length bs \<le> length frame" "i < length frame"
  shows "frame_store frame off bs ! i =
    (if off \<le> i \<and> i < off + length bs then bs ! (i - off) else frame ! i)"
  using assms by (auto simp: frame_store_def nth_append min_def)

text \<open>The time to live and the checksum of the header, before the addresses are written.\<close>

definition ip_hop :: "u8 list \<Rightarrow> u8 list" where
  "ip_hop frame = (let frame = frame[OFF_TTL := frame ! OFF_TTL - 1] in
     frame_store frame OFF_CHECK (le16_bytes (ip_check_update (frame_le16 frame OFF_CHECK))))"

lemma ip_hop_nth:
  assumes "IP_HDR_END \<le> length frame" "i < length frame"
  shows "ip_hop frame ! i =
    (if i = 22 then frame ! 22 - 1
     else if i = 24 then le16_bytes (ip_check_update (frame_le16 frame 24)) ! 0
     else if i = 25 then le16_bytes (ip_check_update (frame_le16 frame 24)) ! 1
     else frame ! i)"
  using assms
  by (auto simp: ip_hop_def Let_def nth_frame_store frame_offsets le16_bytes_def nth_list_update
      frame_le16_def less_Suc_eq numeral_2_eq_2 nth_Cons' )

lemma length_ip_hop [simp]: "IP_HDR_END \<le> length frame \<Longrightarrow> length (ip_hop frame) = length frame"
  by (simp add: ip_hop_def Let_def frame_offsets le16_bytes_def)

lemma swap_mod: "(256 * (x mod 256) + x div 256) mod 65535 = (256 * x) mod (65535 :: nat)"
proof -
  have "256 * x = (256 * (x mod 256) + x div 256) + 65535 * (x div 256)"
    using mult_div_mod_eq [of 256 x] by linarith
  then show ?thesis by (metis mod_mult_self2)
qed

lemma be16_swap:
  "be16 frame off = 256 * (unat (frame_le16 frame off) mod 256) + unat (frame_le16 frame off) div 256"
  using u8_bound [of "frame ! off"] by (simp add: frame_le16_unat be16_def)

lemma mod_add_cancel_nat: "((a :: nat) + c) mod m = (b + c) mod m \<Longrightarrow> a mod m = b mod m"
proof -
  assume "(a + c) mod m = (b + c) mod m"
  then have "int (a + c) mod int m = int (b + c) mod int m" by (metis zmod_int)
  then have "(int a + int c - int c) mod int m = (int b + int c - int c) mod int m"
    by (metis mod_diff_left_eq of_nat_add)
  then show "a mod m = b mod m" by (simp flip: zmod_int)
qed

text \<open>One hop keeps the sum of the header's words in ones' complement arithmetic.\<close>

lemma ip_hop_words:
  assumes n: "10 \<le> n" and len: "ETH_HLEN + 2 * n \<le> length frame" and ttl: "1 < unat (frame ! OFF_TTL)"
    and same: "length frame' = length frame" "\<And>i. 12 \<le> i \<Longrightarrow> i < length frame \<Longrightarrow> frame' ! i = ip_hop frame ! i"
  shows "ip_words n frame' = (ip_words n frame)
      [4 := be16 frame 22 - 256, 5 := be16 frame' 24]"
    "256 \<le> be16 frame 22" "be16 frame 22 \<noteq> 256"
    "be16 frame' 24 mod 65535 = (be16 frame 24 + 256) mod 65535"
proof -
  have hdr: "IP_HDR_END \<le> length frame" using n len by (simp add: frame_offsets)
  have nth: "frame' ! i = (if i = 22 then frame ! 22 - 1
     else if i = 24 then le16_bytes (ip_check_update (frame_le16 frame 24)) ! 0
     else if i = 25 then le16_bytes (ip_check_update (frame_le16 frame 24)) ! 1
     else frame ! i)" if "12 \<le> i" "i < length frame" for i
    using same(2) [OF that] ip_hop_nth [OF hdr that(2)] by simp
  have t: "1 < unat (frame ! 22)" using ttl by (simp add: frame_offsets)
  have t1: "unat (frame ! 22 - 1) = unat (frame ! 22) - 1"
    using t by (simp add: unat_sub word_le_nat_alt)
  show "256 \<le> be16 frame 22" "be16 frame 22 \<noteq> 256" using t by (auto simp: be16_def)
  have w: "be16 frame' (ETH_HLEN + 2 * k) = (if k = 4 then be16 frame 22 - 256
      else if k = 5 then be16 frame' 24 else be16 frame (ETH_HLEN + 2 * k))" if "k < n" for k
  proof -
    have i: "14 + 2 * k < length frame" "15 + 2 * k < length frame" using that len by (auto simp: ETH_HLEN_def)
    consider "k = 4" | "k = 5" | "k \<noteq> 4" "k \<noteq> 5" by blast
    then show ?thesis
    proof cases
      case 1
      then show ?thesis using i t t1 by (simp add: be16_def nth ETH_HLEN_def)
    next
      case 2
      then show ?thesis by (simp add: ETH_HLEN_def)
    next
      case 3
      then have "14 + 2 * k \<noteq> 22" "14 + 2 * k \<noteq> 24" "14 + 2 * k \<noteq> 25"
          "15 + 2 * k \<noteq> 22" "15 + 2 * k \<noteq> 24" "15 + 2 * k \<noteq> 25" by presburger+
      then show ?thesis using 3 i nth [of "14 + 2 * k"] nth [of "15 + 2 * k"]
        by (simp add: be16_def ETH_HLEN_def)
    qed
  qed
  show "ip_words n frame' = (ip_words n frame)[4 := be16 frame 22 - 256, 5 := be16 frame' 24]"
    using n by (intro nth_equalityI) (auto simp: ip_words_def w nth_list_update)
  let ?c = "frame_le16 frame 24"
  let ?c' = "ip_check_update ?c"
  have l: "24 < length frame" "25 < length frame" using hdr by (auto simp: frame_offsets)
  have "be16 frame' 24 = 256 * (unat ?c' mod 256) + unat ?c' div 256"
    using le16_bytes_nth [of ?c'] nth [of 24] nth [of 25] l by (simp add: be16_def)
  then have "be16 frame' 24 mod 65535 = (256 * unat ?c') mod 65535" by (simp only: swap_mod)
  also have "\<dots> = (256 * (unat ?c + 1)) mod 65535"
    using ip_check_update_mod [of ?c] by (rule mod_mult_cong [OF refl])
  also have "\<dots> = (256 * unat ?c + 256) mod 65535" by (simp add: algebra_simps)
  also have "\<dots> = (be16 frame 24 + 256) mod 65535"
    unfolding be16_swap by (rule mod_add_cong [OF swap_mod [symmetric] refl])
  finally show "be16 frame' 24 mod 65535 = (be16 frame 24 + 256) mod 65535" .
qed

lemma sum_list_update_nat:
  assumes "i < length xs"
  shows "sum_list (xs[i := x]) + xs ! i = sum_list xs + (x :: nat)"
proof -
  obtain C where "\<And>x. sum_list (map id (xs[i := x])) = C + id x"
    using sum_list_update_frame [OF assms] by metis
  then have C: "sum_list (xs[i := x]) = C + x" for x by simp
  have "sum_list xs = C + xs ! i" using C [of "xs ! i"] by simp
  then show ?thesis using C [of x] by simp
qed

lemma ip_hop_check:
  assumes n: "10 \<le> n" and len: "ETH_HLEN + 2 * n \<le> length frame" and ttl: "1 < unat (frame ! OFF_TTL)"
    and same: "length frame' = length frame" "\<And>i. 12 \<le> i \<Longrightarrow> i < length frame \<Longrightarrow> frame' ! i = ip_hop frame ! i"
    and ok: "ip_check_ok n frame"
  shows "ip_check_ok n frame'"
proof -
  note W = ip_hop_words [OF assms(1-5)]
  let ?ws = "ip_words n frame" and ?ws' = "ip_words n frame'"
  let ?a = "be16 frame 22" and ?c = "be16 frame 24" and ?c' = "be16 frame' 24"
  have at: "?ws ! 4 = ?a" "?ws ! 5 = ?c" "length ?ws = n" using n by (simp_all add: ip_words_def ETH_HLEN_def)
  have "sum_list (?ws[4 := ?a - 256]) + ?a = sum_list ?ws + (?a - 256)"
    using sum_list_update_nat [of 4 ?ws "?a - 256"] n at by simp
  moreover have "sum_list ?ws' + ?c = sum_list (?ws[4 := ?a - 256]) + ?c'"
    using sum_list_update_nat [of 5 "?ws[4 := ?a - 256]" ?c'] n at W(1) by simp
  ultimately have sum: "sum_list ?ws' + (?c + 256) = sum_list ?ws + ?c'" using W(2) by linarith
  have "(sum_list ?ws' + (?c + 256)) mod 65535 = (sum_list ?ws + (?c + 256)) mod 65535"
    unfolding sum by (rule mod_add_cong [OF refl W(4)])
  then have eq: "sum_list ?ws' mod 65535 = sum_list ?ws mod 65535"
    by (rule mod_add_cancel_nat)
  have "?ws' ! 4 \<noteq> 0" using W n at by simp
  moreover have "?ws' ! 4 \<in> set ?ws'" using n by (intro nth_mem) (simp add: ip_words_def)
  ultimately have "sum_list ?ws' \<noteq> 0" by (metis sum_list_eq_0_iff)
  note nz = this
  show ?thesis
    using eq nz ok ones_sum_ok_iff [OF ip_words_bound [of n frame]] ones_sum_ok_iff [OF ip_words_bound [of n frame']]
    by (simp add: ip_check_ok_def)
qed

subsection \<open>The decision\<close>

text \<open>
  The tables of one family as the forwarding path finds them: the routing table stands for the
  routes \<open>rib\<close> with contents \<open>D\<close>, every port has a neighbour table, and the routes name ports
  that exist.
\<close>

definition tables_ok ::
  "ufpd_thread \<Rightarrow> int \<Rightarrow> fib_store \<Rightarrow> neigh_store list \<Rightarrow> (addr \<Rightarrow> fib_entry) \<Rightarrow> route list \<Rightarrow> bool" where
  "tables_ok thread family fs neighs D rib \<longleftrightarrow>
     (\<exists>W. fib_inv (fs_fib fs) (fib_mem thread fs) D rib W) \<and>
     (\<forall>ns \<in> set neighs. (\<exists>V. neigh_inv (ns_neigh ns) family (neigh_mem thread ns) V) \<and>
        (\<forall>e \<in> ran (ns_objs ns). length (ne_dst_mac e) = ETH_ALEN)) \<and>
     (\<forall>s \<in> set rib. fe_port_index (D (rt_ptr s)) < int (length neighs) \<and>
        length (fe_nexthop (D (rt_ptr s))) = addr_size family) \<and>
     length neighs \<le> length (ports (th_plane thread)) \<and>
     (\<forall>p \<in> set (ports (th_plane thread)). length (port_mac_addr p) = ETH_ALEN)"

text \<open>A route of maximal length among those that contain the destination.\<close>

definition best_route :: "route list \<Rightarrow> bytes \<Rightarrow> route \<Rightarrow> bool" where
  "best_route rib dst s \<longleftrightarrow> s \<in> set rib \<and> rt_covers s dst \<and>
     (\<forall>t \<in> set rib. rt_covers t dst \<longrightarrow> rt_len t \<le> rt_len s)"

text \<open>The address whose neighbour a route leads to.\<close>

definition hop_key :: "fib_entry \<Rightarrow> u8 list \<Rightarrow> u8 list" where
  "hop_key e dst = (if fe_type e = FIB_TYPE_LINK then dst else fe_nexthop e)"

text \<open>Where a packet goes by a route: to the host, or to the neighbour of its port.\<close>

definition hop_result :: "ufpd_thread \<Rightarrow> neigh_store list \<Rightarrow> fib_entry \<Rightarrow> u8 list \<Rightarrow> hop \<Rightarrow> bool" where
  "hop_result thread neighs e dst hop \<longleftrightarrow>
     (let port = fe_port_index e; m = neigh_mem thread (neighs ! nat port) in
      if port < 0 \<or> fe_type e = FIB_TYPE_LOCAL then hop = Hop_Local
      else if \<exists>a. neigh_of m (hop_key e dst) a
      then \<exists>a. neigh_of m (hop_key e dst) a \<and> hop = Hop_To port a
      else hop = Hop_Local)"

lemma hop_result_refcount: "hop_result thread neighs (e\<lparr>fe_refcount := c\<rparr>) dst hop = hop_result thread neighs e dst hop"
  by (simp add: hop_result_def hop_key_def)

lemma forward_hop_spec:
  assumes ok: "tables_ok thread family fs neighs D rib"
    and len: "off + addr_size family \<le> length frame"
  defines "dst \<equiv> frame_ptr frame off"
  shows "\<exists>hop. forward_hop thread fs neighs frame off (addr_size family) = Some hop \<and>
    (if \<exists>s. best_route rib dst s
     then \<exists>s. best_route rib dst s \<and>
       hop_result thread neighs (D (rt_ptr s)) (frame_slice frame off (addr_size family)) hop
     else hop = Hop_Drop)"
proof -
  obtain W where inv: "fib_inv (fs_fib fs) (fib_mem thread fs) D rib W" using ok by (auto simp: tables_ok_def)
  obtain r where r: "fib_lookup (fs_fib fs) dst = Some r"
      "case r of
       None \<Rightarrow> (\<forall>s\<in>set rib. \<not> rt_covers s dst)
     | Some p \<Rightarrow> (\<exists>s\<in>set rib. rt_ptr s = p \<and> rt_covers s dst \<and>
         (\<forall>t\<in>set rib. rt_covers t dst \<longrightarrow> rt_len t \<le> rt_len s)) \<and>
         (\<exists>e. lm_objs (fib_mem thread fs) p = Some e \<and> e\<lparr>fe_refcount := 0\<rparr> = D p)"
    using fib_lookup_spec [OF inv, of dst] by blast
  show ?thesis
  proof (cases r)
    case None
    then have "\<not> (\<exists>s. best_route rib dst s)" using r(2) by (auto simp: best_route_def)
    then show ?thesis using r(1) None by (simp add: forward_hop_def dst_def)
  next
    case (Some p)
    then obtain s e where s: "best_route rib dst s" "rt_ptr s = p" and e: "fs_objs fs p = Some e"
        "e\<lparr>fe_refcount := 0\<rparr> = D p"
      using r(2) by (auto simp: best_route_def fib_mem_def)
    have fe: "fe_port_index (D p) = fe_port_index e" "fe_type (D p) = fe_type e" "fe_nexthop (D p) = fe_nexthop e"
      unfolding e(2) [symmetric] by simp_all
    let ?port = "fe_port_index e"
    let ?ns = "neighs ! nat ?port" and ?key = "hop_key e (frame_slice frame off (addr_size family))"
    have sr: "?port < int (length neighs)" "length (fe_nexthop e) = addr_size family"
      using ok s fe by (auto simp: tables_ok_def best_route_def)
    have goal: "forward_hop thread fs neighs frame off (addr_size family) = Some hop \<Longrightarrow>
        hop_result thread neighs e (frame_slice frame off (addr_size family)) hop \<Longrightarrow> ?thesis" for hop
      using s e(2) hop_result_refcount [of thread neighs 0 e] by (intro exI [of _ hop]) auto
    show ?thesis
    proof (cases "?port < 0 \<or> fe_type e = FIB_TYPE_LOCAL")
      case True
      then have "forward_hop thread fs neighs frame off (addr_size family) = Some Hop_Local"
        using r(1) Some e by (auto simp: forward_hop_def dst_def Let_def)
      then show ?thesis using True by (intro goal) (simp_all add: hop_result_def)
    next
      case False
      then have ix: "nat ?port < length neighs" using sr by auto
      then obtain V where V: "neigh_inv (ns_neigh ?ns) family (neigh_mem thread ?ns) V"
        using ok nth_mem [OF ix] unfolding tables_ok_def by blast
      have klen: "length ?key = addr_size family" using sr(2) len by (simp add: hop_key_def frame_slice_def)
      obtain q where q: "neigh_lookup (ns_neigh ?ns) ?key (neigh_mem thread ?ns) = Some q"
          "\<forall>p. q = Some p \<longleftrightarrow> neigh_of (neigh_mem thread ?ns) ?key p"
        using neigh_lookup_spec [OF V klen] by blast
      have run: "forward_hop thread fs neighs frame off (addr_size family) =
          Some (case q of None \<Rightarrow> Hop_Local | Some a \<Rightarrow> Hop_To ?port a)"
        using r(1) Some e False ix q(1) by (cases "fe_type e") (auto simp: forward_hop_def dst_def hop_key_def)
      show ?thesis
        using q(2) False by (intro goal [OF run]) (auto simp: hop_result_def split: option.splits)
    qed
  qed
qed

subsection \<open>Forwarding a packet\<close>

lemma tun_write_ok:
  assumes "i < length (ports (th_plane thread))"
    "unat (pkt_slot_size packet) \<le> length (th_mem thread (pkt_slot_buf packet))"
  shows "tun_write thread i packet = Some (thread\<lparr>th_tun := th_tun thread @
    [(port_tap_fd (ports (th_plane thread) ! i),
      take (unat (pkt_slot_size packet)) (th_mem thread (pkt_slot_buf packet)))]\<rparr>)"
  using assms by (simp add: tun_write_def ufp_tun_fd_def plane_port_def)

text \<open>The new addresses of a frame that leaves by a port for a neighbour.\<close>

lemma forward_macs_spec:
  assumes ok: "tables_ok thread family fs neighs D rib" and port: "0 \<le> port" "port < int (length neighs)"
    and a: "neigh_of (neigh_mem thread (neighs ! nat port)) key a" and len: "12 \<le> length frame"
  shows "\<exists>mac frame'. forward_macs thread neighs port a frame = Some frame' \<and>
    map_option ne_dst_mac (ns_objs (neighs ! nat port) a) = Some mac \<and>
    length frame' = length frame \<and>
    take 6 frame' = mac \<and> take 6 (drop 6 frame') = port_mac_addr (ports (th_plane thread) ! nat port) \<and>
    drop 12 frame' = drop 12 frame"
proof -
  obtain e where e: "ns_objs (neighs ! nat port) a = Some e" using a by (auto simp: neigh_of_def neigh_mem_def)
  have ix: "nat port < length neighs" "nat port < length (ports (th_plane thread))"
    using port ok by (auto simp: tables_ok_def)
  have l: "length (ne_dst_mac e) = 6"
    using ok nth_mem [OF ix(1)] ranI [where m = "ns_objs (neighs ! nat port)", OF e] unfolding tables_ok_def ETH_ALEN_def by blast
  have l': "length (port_mac_addr (ports (th_plane thread) ! nat port)) = 6"
    using ok ix by (auto simp: tables_ok_def ETH_ALEN_def)
  have m: "ufp_macaddr (th_plane thread) (nat port) = Some (port_mac_addr (ports (th_plane thread) ! nat port))"
    using ix by (simp add: ufp_macaddr_def plane_port_def)
  show ?thesis
    using len l l' by (simp add: forward_macs_def e m frame_store_def frame_offsets min_def)
qed

text \<open>
  What a forwarded IPv4 frame looks like, in terms of the frame that came in: the addresses of the
  neighbour and of the port, a time to live that is one less, a new checksum, the rest unchanged.
\<close>

definition ip_forwarded :: "u8 list \<Rightarrow> u8 list \<Rightarrow> u8 list \<Rightarrow> u8 list \<Rightarrow> bool" where
  "ip_forwarded frame dst_mac src_mac frame' \<longleftrightarrow> length frame' = length frame \<and>
     take 6 frame' = dst_mac \<and> take 6 (drop 6 frame') = src_mac \<and>
     frame' ! OFF_TTL = frame ! OFF_TTL - 1 \<and>
     (\<forall>i. 12 \<le> i \<longrightarrow> i < length frame \<longrightarrow> i \<noteq> OFF_TTL \<longrightarrow> i \<noteq> OFF_CHECK \<longrightarrow> i \<noteq> OFF_CHECK + 1 \<longrightarrow>
        frame' ! i = frame ! i) \<and>
     (\<forall>n. 10 \<le> n \<longrightarrow> ETH_HLEN + 2 * n \<le> length frame \<longrightarrow> frame ! OFF_TTL \<noteq> 0 \<longrightarrow>
        ip_check_ok n frame \<longrightarrow> ip_check_ok n frame')"

lemma ip_hop_forwarded:
  assumes len: "IP_HDR_END \<le> length frame" and ttl: "frame ! OFF_TTL \<noteq> 1"
    and f: "length frame' = length (ip_hop frame)" "take 6 frame' = d" "take 6 (drop 6 frame') = s"
      "drop 12 frame' = drop 12 (ip_hop frame)"
  shows "ip_forwarded frame d s frame'"
proof -
  have same: "frame' ! i = ip_hop frame ! i" if "12 \<le> i" "i < length frame" for i
  proof -
    have "drop 12 frame' ! (i - 12) = drop 12 (ip_hop frame) ! (i - 12)" using f(4) by simp
    then show ?thesis using that f(1) len by simp
  qed
  have chk: "ip_check_ok n frame'"
    if "10 \<le> n" "ETH_HLEN + 2 * n \<le> length frame" "frame ! OFF_TTL \<noteq> 0" "ip_check_ok n frame" for n
  proof -
    have "1 < unat (frame ! OFF_TTL)"
      using ttl that(3) by (metis less_one linorder_neqE_nat unat_eq_0 unsigned_1 word_unat_eq_iff)
    then show ?thesis using ip_hop_check [OF that(1,2) _ _ same that(4)] f(1) len by simp
  qed
  show ?thesis
    unfolding ip_forwarded_def
    using f chk same ip_hop_nth [OF len] len by (auto simp: frame_offsets)
qed

text \<open>
  The outcome of the forwarding of a packet, for both versions of IP: \<open>off\<close> and \<open>n\<close> locate the
  destination address, \<open>hl\<close> the time to live, and \<open>fwd\<close> relates the frame that leaves to the one
  that came in and the two link-layer addresses.
\<close>

definition to_host :: "ufpd_thread \<Rightarrow> nat \<Rightarrow> ufp_packet \<Rightarrow> ufpd_thread" where
  "to_host thread i packet = thread\<lparr>th_tun := th_tun thread @
     [(port_tap_fd (ports (th_plane thread) ! i),
       take (unat (pkt_slot_size packet)) (th_mem thread (pkt_slot_buf packet)))]\<rparr>"

definition fwd_outcome ::
  "(u8 list \<Rightarrow> u8 list \<Rightarrow> u8 list \<Rightarrow> u8 list \<Rightarrow> bool) \<Rightarrow> nat \<Rightarrow> nat \<Rightarrow> nat \<Rightarrow> ufpd_thread \<Rightarrow> neigh_store list \<Rightarrow>
   (addr \<Rightarrow> fib_entry) \<Rightarrow> route list \<Rightarrow> nat \<Rightarrow> ufp_packet \<Rightarrow> int \<Rightarrow> ufpd_thread \<Rightarrow> bool" where
  "fwd_outcome fwd off n hl thread neighs D rib i packet ret thread' \<longleftrightarrow>
     (let frame = th_mem thread (pkt_slot_buf packet); dst = frame_ptr frame off in
      if \<nexists>s. best_route rib dst s then ret = -1 \<and> thread' = thread
      else \<exists>s hop. best_route rib dst s \<and>
        hop_result thread neighs (D (rt_ptr s)) (frame_slice frame off n) hop \<and>
        (case hop of
           Hop_To port a \<Rightarrow>
             if frame ! hl = 1 then ret = -1 \<and> thread' = to_host thread i packet
             else ret = port \<and> (\<exists>mac frame'. thread' = thread\<lparr>th_mem := (th_mem thread)(pkt_slot_buf packet := frame')\<rparr> \<and>
               map_option ne_dst_mac (ns_objs (neighs ! nat port) a) = Some mac \<and>
               fwd frame mac (port_mac_addr (ports (th_plane thread) ! nat port)) frame')
         | _ \<Rightarrow> ret = -1 \<and> thread' = to_host thread i packet))"

text \<open>
  The common part of the two versions: given what the processing of one version does with a hop,
  its outcome follows.
\<close>

lemma fwd_outcomeI:
  fixes packet :: ufp_packet
  assumes ok: "tables_ok thread family fs neighs D rib"
    and len: "off + addr_size family \<le> length (th_mem thread (pkt_slot_buf packet))"
    and hop: "\<And>hop. forward_hop thread fs neighs (th_mem thread (pkt_slot_buf packet)) off (addr_size family) = Some hop \<Longrightarrow>
      process = (case hop of Hop_Drop \<Rightarrow> Some (-1, thread) | Hop_Local \<Rightarrow> Some (-1, to_host thread i packet)
        | Hop_To port a \<Rightarrow> if th_mem thread (pkt_slot_buf packet) ! hl = 1 then Some (-1, to_host thread i packet)
            else do { frame \<leftarrow> forward_macs thread neighs port a (step (th_mem thread (pkt_slot_buf packet)));
                      Some (port, thread\<lparr>th_mem := (th_mem thread)(pkt_slot_buf packet := frame)\<rparr>) })"
    and step: "12 \<le> length (step (th_mem thread (pkt_slot_buf packet)))"
    and fwd: "\<And>d s frame'. th_mem thread (pkt_slot_buf packet) ! hl \<noteq> 1 \<Longrightarrow>
      length frame' = length (step (th_mem thread (pkt_slot_buf packet))) \<Longrightarrow> take 6 frame' = d \<Longrightarrow>
      take 6 (drop 6 frame') = s \<Longrightarrow> drop 12 frame' = drop 12 (step (th_mem thread (pkt_slot_buf packet))) \<Longrightarrow>
      fwd (th_mem thread (pkt_slot_buf packet)) d s frame'"
  shows "\<exists>ret thread'. process = Some (ret, thread') \<and>
    fwd_outcome fwd off (addr_size family) hl thread neighs D rib i packet ret thread'"
proof -
  let ?frame = "th_mem thread (pkt_slot_buf packet)"
  let ?dst = "frame_ptr ?frame off" and ?key = "frame_slice ?frame off (addr_size family)"
  obtain hop where h: "forward_hop thread fs neighs ?frame off (addr_size family) = Some hop"
      "if \<exists>s. best_route rib ?dst s
       then \<exists>s. best_route rib ?dst s \<and> hop_result thread neighs (D (rt_ptr s)) ?key hop
       else hop = Hop_Drop"
    using forward_hop_spec [OF ok len] by blast
  note P = hop [OF h(1)]
  show ?thesis
  proof (cases "\<exists>s. best_route rib ?dst s")
    case False
    then have "hop = Hop_Drop" using h(2) by simp
    then show ?thesis using False P by (auto simp: fwd_outcome_def)
  next
    case True
    then obtain s where s: "best_route rib ?dst s" "hop_result thread neighs (D (rt_ptr s)) ?key hop"
      using h(2) by auto
    then have out: "fwd_outcome fwd off (addr_size family) hl thread neighs D rib i packet ret thread'"
      if "case hop of
           Hop_To port a \<Rightarrow>
             if ?frame ! hl = 1 then ret = -1 \<and> thread' = to_host thread i packet
             else ret = port \<and> (\<exists>mac frame'. thread' = thread\<lparr>th_mem := (th_mem thread)(pkt_slot_buf packet := frame')\<rparr> \<and>
               map_option ne_dst_mac (ns_objs (neighs ! nat port) a) = Some mac \<and>
               fwd ?frame mac (port_mac_addr (ports (th_plane thread) ! nat port)) frame')
         | _ \<Rightarrow> ret = -1 \<and> thread' = to_host thread i packet" for ret thread'
    proof -
      have "\<not> (\<nexists>s. best_route rib ?dst s)" using True by blast
      then show ?thesis
        unfolding fwd_outcome_def Let_def using s that by (subst if_not_P) (assumption, intro exI conjI)
    qed
    have nd: "hop \<noteq> Hop_Drop" using s(2) by (auto simp: hop_result_def Let_def split: if_splits)
    show ?thesis
    proof (cases "\<exists>port a. hop = Hop_To port a \<and> ?frame ! hl \<noteq> 1")
      case False
      then have "process = Some (-1, to_host thread i packet)" using P nd by (auto split: hop.splits)
      moreover have "fwd_outcome fwd off (addr_size family) hl thread neighs D rib i packet (-1) (to_host thread i packet)"
        using False nd by (intro out) (auto split: hop.splits)
      ultimately show ?thesis by blast
    next
      case fwd': True
      then obtain port a where hop: "hop = Hop_To port a" and ttl: "?frame ! hl \<noteq> 1" by blast
      note res = s(2) [unfolded hop_result_def Let_def hop]
      then have port: "port = fe_port_index (D (rt_ptr s))" "0 \<le> port"
          "neigh_of (neigh_mem thread (neighs ! nat port)) (hop_key (D (rt_ptr s)) ?key) a"
        by (auto split: if_splits)
      have "port < int (length neighs)" using ok s(1) port(1) by (auto simp: tables_ok_def best_route_def)
      from forward_macs_spec [OF ok port(2) this port(3) step]
      obtain mac frame' where f: "forward_macs thread neighs port a (step ?frame) = Some frame'"
          "map_option ne_dst_mac (ns_objs (neighs ! nat port) a) = Some mac" "length frame' = length (step ?frame)"
          "take 6 frame' = mac" "take 6 (drop 6 frame') = port_mac_addr (ports (th_plane thread) ! nat port)"
          "drop 12 frame' = drop 12 (step ?frame)"
        by blast
      have "process = Some (port, thread\<lparr>th_mem := (th_mem thread)(pkt_slot_buf packet := frame')\<rparr>)"
        using P hop ttl f(1) by simp
      moreover have "fwd_outcome fwd off (addr_size family) hl thread neighs D rib i packet port
          (thread\<lparr>th_mem := (th_mem thread)(pkt_slot_buf packet := frame')\<rparr>)"
        using hop ttl f(2) fwd [OF ttl f(3-6)] by (intro out) auto
      ultimately show ?thesis by blast
    qed
  qed
qed

lemma forward_ip_spec:
  assumes "tables_ok thread AF_INET (th_fib_inet thread) (th_neigh_inet thread) D rib"
    "i < length (ports (th_plane thread))"
    "IP_HDR_END \<le> length (th_mem thread (pkt_slot_buf packet))"
    "unat (pkt_slot_size packet) \<le> length (th_mem thread (pkt_slot_buf packet))"
  shows "\<exists>ret thread'. forward_ip_process thread i packet = Some (ret, thread') \<and>
    fwd_outcome ip_forwarded OFF_DADDR 4 OFF_TTL thread (th_neigh_inet thread) D rib i packet ret thread'"
proof -
  have host: "tun_write thread i packet = Some (to_host thread i packet)"
    using tun_write_ok [OF assms(2,4)] by (simp add: to_host_def)
  have a4: "addr_size AF_INET = 4" by (simp add: addr_size_def)
  show ?thesis
    unfolding a4 [symmetric]
  proof (rule fwd_outcomeI [OF assms(1), where step = ip_hop])
    fix hop assume "forward_hop thread (th_fib_inet thread) (th_neigh_inet thread)
      (th_mem thread (pkt_slot_buf packet)) OFF_DADDR (addr_size AF_INET) = Some hop"
    then show "forward_ip_process thread i packet = (case hop of Hop_Drop \<Rightarrow> Some (-1, thread)
        | Hop_Local \<Rightarrow> Some (-1, to_host thread i packet)
        | Hop_To port a \<Rightarrow> if th_mem thread (pkt_slot_buf packet) ! OFF_TTL = 1 then Some (-1, to_host thread i packet)
            else do { frame \<leftarrow> forward_macs thread (th_neigh_inet thread) port a (ip_hop (th_mem thread (pkt_slot_buf packet)));
                      Some (port, thread\<lparr>th_mem := (th_mem thread)(pkt_slot_buf packet := frame)\<rparr>) })"
      using assms(3) host by (cases hop) (simp_all add: forward_ip_process_def a4 Let_def ip_hop_def)
  qed (use assms(3) ip_hop_forwarded [OF assms(3)] in \<open>auto simp: frame_offsets addr_size_def AF_INET_def\<close>)
qed

text \<open>C15. Forwarding an IPv4 packet. On tables that stand for the routes \<open>rib\<close> the call never faults.
  Without a route for the destination the packet is dropped and nothing changes. Otherwise a
  longest matching route decides: a local route, a route without a port, an unresolved next hop
  (for a directly connected route, an unresolved destination) and a time to live of one all hand the
  packet, unchanged, to the tap device of the port it came in on and return -1; every other packet
  returns the port of the route, and its frame gets the link-layer addresses of the neighbour and of
  that port, a time to live one less and a checksum that is correct if it was correct before (for a
  time to live other than zero), with every other byte unchanged.
\<close>

theorem forward_ip_process_correct:
  assumes "tables_ok thread AF_INET (th_fib_inet thread) (th_neigh_inet thread) D rib"
    "i < length (ports (th_plane thread))"
    "IP_HDR_END \<le> length (th_mem thread (pkt_slot_buf packet))"
    "unat (pkt_slot_size packet) \<le> length (th_mem thread (pkt_slot_buf packet))"
  shows "\<exists>ret thread'. forward_ip_process thread i packet = Some (ret, thread') \<and>
    fwd_outcome ip_forwarded OFF_DADDR 4 OFF_TTL thread (th_neigh_inet thread) D rib i packet ret thread'"
  using assms by (rule forward_ip_spec)

text \<open>The frame of a forwarded IPv6 packet; there is no checksum.\<close>

definition ip6_forwarded :: "u8 list \<Rightarrow> u8 list \<Rightarrow> u8 list \<Rightarrow> u8 list \<Rightarrow> bool" where
  "ip6_forwarded frame dst_mac src_mac frame' \<longleftrightarrow> length frame' = length frame \<and>
     take 6 frame' = dst_mac \<and> take 6 (drop 6 frame') = src_mac \<and>
     drop 12 frame' = drop 12 (frame[OFF_HLIM := frame ! OFF_HLIM - 1])"

lemma forward_ip6_spec:
  assumes "tables_ok thread AF_INET6 (th_fib_inet6 thread) (th_neigh_inet6 thread) D rib"
    "i < length (ports (th_plane thread))"
    "IP6_HDR_END \<le> length (th_mem thread (pkt_slot_buf packet))"
    "unat (pkt_slot_size packet) \<le> length (th_mem thread (pkt_slot_buf packet))"
  shows "if in6_is_addr_linklocal (th_mem thread (pkt_slot_buf packet)) OFF_IP6_DST
    then forward_ip6_process thread i packet = Some (-1, to_host thread i packet)
    else \<exists>ret thread'. forward_ip6_process thread i packet = Some (ret, thread') \<and>
      fwd_outcome ip6_forwarded OFF_IP6_DST 16 OFF_HLIM thread (th_neigh_inet6 thread) D rib i packet ret thread'"
proof (cases "in6_is_addr_linklocal (th_mem thread (pkt_slot_buf packet)) OFF_IP6_DST")
  case True
  then show ?thesis
    using assms(3) tun_write_ok [OF assms(2,4)] by (simp add: forward_ip6_process_def to_host_def)
next
  case False
  have host: "tun_write thread i packet = Some (to_host thread i packet)"
    using tun_write_ok [OF assms(2,4)] by (simp add: to_host_def)
  have a16: "addr_size AF_INET6 = 16" by (simp add: addr_size_def AF_INET_def AF_INET6_def)
  have "\<exists>ret thread'. forward_ip6_process thread i packet = Some (ret, thread') \<and>
      fwd_outcome ip6_forwarded OFF_IP6_DST 16 OFF_HLIM thread (th_neigh_inet6 thread) D rib i packet ret thread'"
    unfolding a16 [symmetric]
  proof (rule fwd_outcomeI [OF assms(1), where step = "\<lambda>frame. frame[OFF_HLIM := frame ! OFF_HLIM - 1]"])
    fix hop assume "forward_hop thread (th_fib_inet6 thread) (th_neigh_inet6 thread)
      (th_mem thread (pkt_slot_buf packet)) OFF_IP6_DST (addr_size AF_INET6) = Some hop"
    then show "forward_ip6_process thread i packet = (case hop of Hop_Drop \<Rightarrow> Some (-1, thread)
        | Hop_Local \<Rightarrow> Some (-1, to_host thread i packet)
        | Hop_To port a \<Rightarrow> if th_mem thread (pkt_slot_buf packet) ! OFF_HLIM = 1 then Some (-1, to_host thread i packet)
            else do { frame \<leftarrow> forward_macs thread (th_neigh_inet6 thread) port a
                        ((th_mem thread (pkt_slot_buf packet))[OFF_HLIM := th_mem thread (pkt_slot_buf packet) ! OFF_HLIM - 1]);
                      Some (port, thread\<lparr>th_mem := (th_mem thread)(pkt_slot_buf packet := frame)\<rparr>) })"
      using assms(3) host False by (cases hop) (simp_all add: forward_ip6_process_def a16 Let_def)
  qed (use assms(3) in \<open>auto simp: frame_offsets a16 ip6_forwarded_def\<close>)
  then show ?thesis using False by simp
qed

text \<open>C16. Forwarding an IPv6 packet: the same for the tables of that family. A packet to a link-local
  address goes to the host without a look at the routes; a forwarded frame differs from the one that came in by its two
  link-layer addresses and a hop limit that is one less.
\<close>

theorem forward_ip6_process_correct:
  assumes "tables_ok thread AF_INET6 (th_fib_inet6 thread) (th_neigh_inet6 thread) D rib"
    "i < length (ports (th_plane thread))"
    "IP6_HDR_END \<le> length (th_mem thread (pkt_slot_buf packet))"
    "unat (pkt_slot_size packet) \<le> length (th_mem thread (pkt_slot_buf packet))"
  shows "if in6_is_addr_linklocal (th_mem thread (pkt_slot_buf packet)) OFF_IP6_DST
    then forward_ip6_process thread i packet = Some (-1, to_host thread i packet)
    else \<exists>ret thread'. forward_ip6_process thread i packet = Some (ret, thread') \<and>
      fwd_outcome ip6_forwarded OFF_IP6_DST 16 OFF_HLIM thread (th_neigh_inet6 thread) D rib i packet ret thread'"
  using assms by (rule forward_ip6_spec)

end
