(* ===== verification/Forward_Slots.thy ===== *)
theory Forward_Slots
  imports Forward_Spec
begin

text \<open>
  What becomes of the buffer slots of received packets: packets that are dropped or handed to the
  host give their slot back, but a packet that is forwarded has its slot both on the transmit ring
  and free.
\<close>

lemma tun_write_keeps:
  "tun_write thread i packet = Some thread' \<Longrightarrow> th_plane thread' = th_plane thread \<and> th_buf thread' = th_buf thread"
  by (auto simp: tun_write_def Let_def split: if_splits bind_splits)

lemma forward_one_keeps:
  assumes "forward_one thread i packet = Some (ret, thread')"
  shows "th_plane thread' = th_plane thread \<and> th_buf thread' = th_buf thread"
  using assms
  by (auto simp: forward_one_def forward_arp_process_def forward_ip_process_def forward_ip6_process_def Let_def
      dest: tun_write_keeps split: if_splits bind_splits hop.splits)

text \<open>A packet of the host keeps to the discipline of the slots: it is a slot that is taken and sent.\<close>

lemma forward_process_tun_flow:
  assumes "forward_process_tun thread i bs = Some thread'"
  shows "flow_step\<^sup>*\<^sup>* (th_plane thread, th_buf thread, held) (th_plane thread', th_buf thread', held)"
proof -
  from assms consider "thread' = thread"
    | p si buf p' where "plane_port (th_plane thread) i = Some p" "ufp_slot_assign (th_buf thread) p = Some (si, buf, p')" "\<not> si < 0"
      "ufp_tx_assign (plane_set_port (th_plane thread) i p') i buf \<lparr>pkt_slot_buf = ufp_slot_addr_virt buf (of_int si), pkt_slot_size = of_nat (length bs),
         pkt_slot_index = si, pkt_flag = UFP_PACKET_EOF\<rparr> = Some (th_plane thread', th_buf thread')"
    by (auto simp: forward_process_tun_def Let_def split: if_splits bind_splits)
  then show ?thesis
  proof cases
    case (2 p si buf p')
    have "flow_step (th_plane thread, th_buf thread, held) (plane_set_port (th_plane thread) i p', buf, add_mset si held)"
      using flow_step.slot_assign [OF 2(1,2), of held] 2(3) by simp
    moreover have "flow_step (plane_set_port (th_plane thread) i p', buf, add_mset si held) (th_plane thread', th_buf thread', held)"
      using flow_step.tx_assign [OF _ 2(4), of "add_mset si held"] by simp
    ultimately show ?thesis by (meson converse_rtranclp_into_rtranclp r_into_rtranclp)
  qed simp
qed

text \<open>C26. A packet that is not forwarded gives its slot back: when the packet has an error flag, or
  when the protocol's processing returns -1, \<open>forward_process\<close> releases the slot of the packet and the
  accounting of all slots holds for the remaining packets.
\<close>

theorem forward_drop_releases:
  assumes "io_inv i40e_ops (th_plane thread) (th_buf thread) held" "pkt_slot_index packet \<in># held"
    "pkt_flag packet AND UFP_PACKET_ERROR \<noteq> 0 \<or>
     (\<exists>ret thread1. forward_one thread i packet = Some (ret, thread1) \<and> ret < 0)"
  shows "\<exists>thread'. forward_process thread i [packet] = Some thread' \<and>
    io_inv i40e_ops (th_plane thread') (th_buf thread') (held - {#pkt_slot_index packet#}) \<and>
    pkt_slot_index packet \<notin> inflight (th_buf thread')"
proof -
  obtain xs where xs: "ufp_slot_release (th_buf thread) (pkt_slot_index packet) = Some ((th_buf thread)\<lparr>slots := xs\<rparr>)"
      "io_inv i40e_ops (th_plane thread) ((th_buf thread)\<lparr>slots := xs\<rparr>) (held - {#pkt_slot_index packet#})"
      "inflight ((th_buf thread)\<lparr>slots := xs\<rparr>) = inflight (th_buf thread) - {pkt_slot_index packet}"
    using i40e.release_spec [OF assms(1,2)] by blast
  show ?thesis
  proof (cases "pkt_flag packet AND UFP_PACKET_ERROR \<noteq> 0")
    case True
    then show ?thesis using xs by (simp add: forward_packet_def)
  next
    case False
    then obtain ret thread1 where f: "forward_one thread i packet = Some (ret, thread1)" "ret < 0"
      using assms(3) by blast
    then show ?thesis
      using False xs forward_one_keeps [OF f(1)] by (simp add: forward_packet_def)
  qed
qed

text \<open>C27. A packet that is forwarded has its slot released although it was just put on the transmit
  ring: after the call of \<open>ufp_tx_assign\<close> the code falls through to the label \<open>packet_drop\<close>. The slot
  is on the ring of the port and counts as free, so that no accounting of slots holds any more and
  the next search of the port that owns the slot may post it for receiving while the device still sends from it.
\<close>

theorem forward_releases_sent_slot:
  assumes inv: "io_inv i40e_ops (th_plane thread) (th_buf thread) held"
    and held: "pkt_slot_index packet \<in># held" and noerr: "pkt_flag packet AND UFP_PACKET_ERROR = 0"
    and fwd: "forward_one thread i packet = Some (port, thread1)" "0 \<le> port"
    and port: "nat port < length (ports (th_plane thread))"
    and room: "ufp_desc_unused (tx_ring (ports (th_plane thread) ! nat port))
      (ucast (num_tx_desc (ports (th_plane thread) ! nat port))) \<noteq> 0"
  shows "\<exists>thread' p'. forward_process thread i [packet] = Some thread' \<and>
    plane_port (th_plane thread') (nat port) = Some p' \<and>
    pkt_slot_index packet \<in> set (ring_queue (num_tx_desc p') (tx_ring p')) \<and>
    pkt_slot_index packet \<notin> inflight (th_buf thread') \<and>
    (\<nexists>h. io_inv i40e_ops (th_plane thread') (th_buf thread') h)"
proof -
  let ?plane = "th_plane thread" and ?buf = "th_buf thread" and ?s = "pkt_slot_index packet"
  let ?p = "ports ?plane ! nat port"
  obtain p' xs where T: "ufp_tx_assign ?plane (nat port) ?buf packet =
        Some (plane_set_port ?plane (nat port) p', ?buf\<lparr>slots := xs\<rparr>)"
      "io_inv i40e_ops (plane_set_port ?plane (nat port) p') (?buf\<lparr>slots := xs\<rparr>) (held - {#?s#})"
      "ring_queue (num_tx_desc ?p) (tx_ring p') = ring_queue (num_tx_desc ?p) (tx_ring ?p) @ [?s]"
      "xs = slots ?buf" "num_tx_desc p' = num_tx_desc ?p"
    using i40e.tx_assign_spec [OF inv port held] room by auto
  let ?plane' = "plane_set_port ?plane (nat port) p'"
  have pp: "plane_port ?plane' (nat port) = Some p'" using port by (simp add: plane_port_def plane_set_port_def)
  have mem: "?s \<in> inflight ?buf" by (rule io_inv_held [OF inv held])
  obtain ys where ys: "ufp_slot_release ?buf ?s = Some (?buf\<lparr>slots := ys\<rparr>)"
      "inflight (?buf\<lparr>slots := ys\<rparr>) = inflight ?buf - {?s}"
    using slot_release_spec [OF mem] by blast
  let ?t = "thread1\<lparr>th_plane := ?plane', th_buf := ?buf\<lparr>slots := ys\<rparr>\<rparr>"
  have run: "forward_process thread i [packet] = Some ?t"
    using noerr fwd forward_one_keeps [OF fwd(1)] T(1,4) ys(1) by (simp add: forward_packet_def)
  have q: "?s \<in> set (ring_queue (num_tx_desc p') (tx_ring p'))" using T(3,5) by simp
  have "\<not> io_inv i40e_ops ?plane' (?buf\<lparr>slots := ys\<rparr>) h" for h
  proof
    assume h: "io_inv i40e_ops ?plane' (?buf\<lparr>slots := ys\<rparr>) h"
    have "nat port < length (ports ?plane')" using port by (simp add: plane_set_port_def)
    from i40e.io_inv_tx_queue(2) [OF h this] q pp ys(2) show False
      using port by (auto simp: plane_port_def split: if_splits)
  qed
  then show ?thesis using run pp q ys(2) by (intro exI [of _ ?t] exI [of _ p']) simp
qed

end
