(* ===== verification/Tables.thy ===== *)
theory Tables
  imports Forward
begin

text \<open>
  Tables that share a pool. Every routing and neighbour table owns blocks of the pool; a table stays
  what it is when another one allocates or frees blocks, as long as its own blocks stay live, and an
  operation on a table keeps the blocks of all the others.
\<close>

subsection \<open>Owned blocks\<close>

definition fs_owned :: "fib_store \<Rightarrow> addr set" where
  "fs_owned fs = set_mset (tab_own (fib_table (fs_fib fs))) \<union> dom (fs_objs fs)"

definition ns_owned :: "neigh_store \<Rightarrow> addr set" where
  "ns_owned ns = dom (ns_objs ns)"

definition fs_ok :: "ufp_mpool \<Rightarrow> fib_store \<Rightarrow> (addr \<Rightarrow> fib_entry) \<Rightarrow> route list \<Rightarrow> bool" where
  "fs_ok mp fs D rib \<longleftrightarrow> (\<exists>W. fib_inv (fs_fib fs) \<lparr>lm_pool = mp, lm_objs = fs_objs fs\<rparr> D rib W)"

definition ns_ok :: "ufp_mpool \<Rightarrow> int \<Rightarrow> neigh_store \<Rightarrow> bool" where
  "ns_ok mp family ns \<longleftrightarrow> (\<exists>V. neigh_inv (ns_neigh ns) family \<lparr>lm_pool = mp, lm_objs = ns_objs ns\<rparr> V)"

lemma fib_inv_mem:
  "fib_inv fib m D rib W \<Longrightarrow>
   lpm_mem_ok fib_key fib_refc (fib_good D) (fib_key \<circ> D) m (tab_own (fib_table fib) + W) (tab_refs (fib_table fib))"
  by (simp add: fib_inv_def)

lemma lpm_mem_surj: "\<lparr>lm_pool = lm_pool m, lm_objs = lm_objs m\<rparr> = (m :: 'e lpm_mem)"
  by simp

lemma fib_inv_live:
  assumes "fib_inv (fs_fib fs) \<lparr>lm_pool = mp, lm_objs = fs_objs fs\<rparr> D rib W"
  shows "mp_wf mp" "mp_live mp = fs_owned fs \<union> set_mset W" "fs_owned fs \<inter> set_mset W = {}"
proof -
  let ?o = "tab_own (fib_table (fs_fib fs))"
  have ok: "mp_wf mp" "\<forall>a. count (?o + W) a \<le> 1"
      "mp_live mp = set_mset (?o + W) \<union> dom (fs_objs fs)" "set_mset (?o + W) \<inter> dom (fs_objs fs) = {}"
    using fib_inv_mem [OF assms] unfolding lpm_mem_ok_def by simp_all
  show "mp_wf mp" "mp_live mp = fs_owned fs \<union> set_mset W" using ok by (auto simp: fs_owned_def)
  have "set_mset ?o \<inter> set_mset W = {}"
  proof (rule ccontr)
    assume "set_mset ?o \<inter> set_mset W \<noteq> {}"
    then obtain a where "a \<in># ?o" "a \<in># W" by blast
    then have "1 \<le> count ?o a" "1 \<le> count W a" by (simp_all add: Suc_le_eq)
    moreover have "count ?o a + count W a \<le> 1" using ok(2) by (simp only: count_union)
    ultimately show False by linarith
  qed
  then show "fs_owned fs \<inter> set_mset W = {}" using ok(4) by (auto simp: fs_owned_def)
qed

text \<open>A table on another state of the pool.\<close>

lemma fib_inv_frame:
  assumes inv: "fib_inv (fs_fib fs) \<lparr>lm_pool = mp, lm_objs = fs_objs fs\<rparr> D rib W"
    and wf: "mp_wf mp'" and own: "fs_owned fs \<subseteq> mp_live mp'"
  shows "fib_inv (fs_fib fs) \<lparr>lm_pool = mp', lm_objs = fs_objs fs\<rparr> D rib (mset_set (mp_live mp' - fs_owned fs))"
proof -
  let ?o = "tab_own (fib_table (fs_fib fs))" and ?V = "mset_set (mp_live mp' - fs_owned fs)"
  have fin: "finite (mp_live mp')" by (rule finite_mp_live [OF wf])
  have c: "count (?o + W) a \<le> 1" for a using inv by (auto simp: fib_inv_def lpm_mem_ok_def)
  have "count (?o + ?V) a \<le> 1" for a
  proof (cases "a \<in># ?o")
    case True
    then have "a \<in> fs_owned fs" by (simp add: fs_owned_def)
    then show ?thesis using c [of a] by (simp add: count_mset_set')
  next
    case False
    then show ?thesis by (simp add: count_mset_set' not_in_iff)
  qed
  moreover have "mp_live mp' = set_mset (?o + ?V) \<union> dom (fs_objs fs)"
    using own fin by (auto simp: fs_owned_def)
  moreover have "set_mset (?o + ?V) \<inter> dom (fs_objs fs) = {}"
  proof -
    have "set_mset (?o + W) \<inter> dom (fs_objs fs) = {}" using fib_inv_mem [OF inv] unfolding lpm_mem_ok_def by simp
    then show ?thesis using fin by (auto simp: fs_owned_def)
  qed
  ultimately have "lpm_mem_ok fib_key fib_refc (fib_good D) (fib_key \<circ> D) \<lparr>lm_pool = mp', lm_objs = fs_objs fs\<rparr>
      (?o + ?V) (tab_refs (fib_table (fs_fib fs)))"
    using fib_inv_mem [OF inv] wf unfolding lpm_mem_ok_def by simp
  then show ?thesis using inv by (simp add: fib_inv_def)
qed

lemma fs_ok_frame:
  "fs_ok mp fs D rib \<Longrightarrow> mp_wf mp' \<Longrightarrow> fs_owned fs \<subseteq> mp_live mp' \<Longrightarrow> fs_ok mp' fs D rib"
  unfolding fs_ok_def using fib_inv_frame by blast

lemma fs_okD:
  assumes "fs_ok mp fs D rib"
  shows "mp_wf mp" "fs_owned fs \<subseteq> mp_live mp"
    "fib_inv (fs_fib fs) \<lparr>lm_pool = mp, lm_objs = fs_objs fs\<rparr> D rib (mset_set (mp_live mp - fs_owned fs))"
proof -
  obtain W where W: "fib_inv (fs_fib fs) \<lparr>lm_pool = mp, lm_objs = fs_objs fs\<rparr> D rib W"
    using assms by (auto simp: fs_ok_def)
  note L = fib_inv_live [OF W]
  show "mp_wf mp" "fs_owned fs \<subseteq> mp_live mp" using L by auto
  then show "fib_inv (fs_fib fs) \<lparr>lm_pool = mp, lm_objs = fs_objs fs\<rparr> D rib (mset_set (mp_live mp - fs_owned fs))"
    using fib_inv_frame [OF W] by blast
qed

lemma ns_okD:
  assumes "ns_ok mp family ns"
  shows "mp_wf mp" "ns_owned ns \<subseteq> mp_live mp"
    "neigh_inv (ns_neigh ns) family \<lparr>lm_pool = mp, lm_objs = ns_objs ns\<rparr> (mp_live mp - ns_owned ns)"
  using assms by (auto simp: ns_ok_def neigh_inv_def hash_ok_def ns_owned_def)

lemma ns_ok_frame:
  assumes "ns_ok mp family ns" "mp_wf mp'" "ns_owned ns \<subseteq> mp_live mp'"
  shows "ns_ok mp' family ns"
proof -
  have "neigh_inv (ns_neigh ns) family \<lparr>lm_pool = mp', lm_objs = ns_objs ns\<rparr> (mp_live mp' - ns_owned ns)"
    using assms by (auto simp: ns_ok_def neigh_inv_def hash_ok_def ns_owned_def)
  then show ?thesis by (auto simp: ns_ok_def)
qed

subsection \<open>Operations keep the blocks of the other tables\<close>

lemma fs_ok_step:
  assumes "fs_ok mp fs D rib"
    and "fib_inv fib' m' D' rib' (mset_set (mp_live mp - fs_owned fs))"
  defines "fs' \<equiv> \<lparr>fs_fib = fib', fs_objs = lm_objs m'\<rparr>"
  shows "fs_ok (lm_pool m') fs' D' rib'" "mp_wf (lm_pool m')"
    "mp_live (lm_pool m') = fs_owned fs' \<union> (mp_live mp - fs_owned fs)" "fs_owned fs' \<inter> (mp_live mp - fs_owned fs) = {}"
proof -
  let ?W = "mset_set (mp_live mp - fs_owned fs)"
  have inv: "fib_inv (fs_fib fs') \<lparr>lm_pool = lm_pool m', lm_objs = fs_objs fs'\<rparr> D' rib' ?W"
    using assms(2) unfolding fs'_def fib_store.simps lpm_mem_surj .
  show "fs_ok (lm_pool m') fs' D' rib'" using inv by (auto simp: fs_ok_def)
  note L = fib_inv_live [OF inv]
  show "mp_wf (lm_pool m')" by (rule L(1))
  have "finite (mp_live mp)" by (rule finite_mp_live [OF fs_okD(1) [OF assms(1)]])
  then have W: "set_mset ?W = mp_live mp - fs_owned fs" by simp
  then show "mp_live (lm_pool m') = fs_owned fs' \<union> (mp_live mp - fs_owned fs)" "fs_owned fs' \<inter> (mp_live mp - fs_owned fs) = {}"
    using L(2,3) unfolding W by simp_all
qed

lemma ns_ok_step:
  assumes "ns_ok mp family ns"
    and "neigh_inv neigh' family m' (mp_live mp - ns_owned ns)"
  defines "ns' \<equiv> \<lparr>ns_neigh = neigh', ns_objs = lm_objs m'\<rparr>"
  shows "ns_ok (lm_pool m') family ns'" "mp_wf (lm_pool m')"
    "mp_live (lm_pool m') = ns_owned ns' \<union> (mp_live mp - ns_owned ns)" "ns_owned ns' \<inter> (mp_live mp - ns_owned ns) = {}"
proof -
  have inv: "neigh_inv (ns_neigh ns') family \<lparr>lm_pool = lm_pool m', lm_objs = ns_objs ns'\<rparr> (mp_live mp - ns_owned ns)"
    using assms(2) unfolding ns'_def neigh_store.simps lpm_mem_surj .
  show "ns_ok (lm_pool m') family ns'" using inv by (auto simp: ns_ok_def)
  show "mp_wf (lm_pool m')" using neigh_pool(1) [OF assms(2)] .
  show "mp_live (lm_pool m') = ns_owned ns' \<union> (mp_live mp - ns_owned ns)" "ns_owned ns' \<inter> (mp_live mp - ns_owned ns) = {}"
    using neigh_pool(2,3) [OF inv] unfolding ns_owned_def lpm_mem.simps by (simp_all add: Un_commute Int_commute)
qed

end
