(* ===== verification/Netlink.thy ===== *)
theory Netlink
  imports Tables
begin

text \<open>
  The messages of the kernel about routes and neighbours, \<open>src/netlink.c\<close>. A message is the bytes of
  the buffer from an offset on; the macros of the kernel headers (\<open>NLMSG_OK\<close>, \<open>RTA_NEXT\<close> and the
  others) are written out on offsets and remaining lengths. A read outside of the buffer, or a copy into a local array
  that is too small for it, is undefined, and so is reading a prefix past its array.
\<close>

subsection \<open>Constants of the interface\<close>

definition RTM_NEWROUTE :: nat where "RTM_NEWROUTE = 24"
definition RTM_DELROUTE :: nat where "RTM_DELROUTE = 25"
definition RTM_NEWNEIGH :: nat where "RTM_NEWNEIGH = 28"
definition RTM_DELNEIGH :: nat where "RTM_DELNEIGH = 29"
definition RTA_DST :: nat where "RTA_DST = 1"
definition RTA_OIF :: nat where "RTA_OIF = 4"
definition RTA_GATEWAY :: nat where "RTA_GATEWAY = 5"
definition NDA_DST :: nat where "NDA_DST = 1"
definition NDA_LLADDR :: nat where "NDA_LLADDR = 2"
definition RT_TABLE_LOCAL :: nat where "RT_TABLE_LOCAL = 255"
definition NLMSG_HDRLEN :: nat where "NLMSG_HDRLEN = 16"
definition RTA_HDRLEN :: nat where "RTA_HDRLEN = 4"

text \<open>\<open>sizeof(struct rtmsg)\<close>, which is also \<open>sizeof(struct ndmsg)\<close>.\<close>

definition RTMSG_LEN :: nat where "RTMSG_LEN = 12"

lemmas nl_consts = RTM_NEWROUTE_def RTM_DELROUTE_def RTM_NEWNEIGH_def RTM_DELNEIGH_def RTA_DST_def
  RTA_OIF_def RTA_GATEWAY_def NDA_DST_def NDA_LLADDR_def RT_TABLE_LOCAL_def NLMSG_HDRLEN_def
  RTA_HDRLEN_def RTMSG_LEN_def

definition align4 :: "nat \<Rightarrow> nat" where
  "align4 n = (n + 3) div 4 * 4"

subsection \<open>Reading the buffer\<close>

definition rd8 :: "u8 list \<Rightarrow> nat \<Rightarrow> nat option" where
  "rd8 buf off = (if off < length buf then Some (unat (buf ! off)) else None)"

definition rd16 :: "u8 list \<Rightarrow> nat \<Rightarrow> nat option" where
  "rd16 buf off = (if off + 2 \<le> length buf then Some (unat (le_bytes (take 2 (drop off buf)) :: u16)) else None)"

definition rd32 :: "u8 list \<Rightarrow> nat \<Rightarrow> u32 option" where
  "rd32 buf off = (if off + 4 \<le> length buf then Some (le_bytes (take 4 (drop off buf))) else None)"

definition rd_bytes :: "u8 list \<Rightarrow> nat \<Rightarrow> nat \<Rightarrow> u8 list option" where
  "rd_bytes buf off n = (if off + n \<le> length buf then Some (take n (drop off buf)) else None)"

text \<open>\<open>memcpy\<close> to the start of a local array.\<close>

definition arr_copy :: "u8 list \<Rightarrow> u8 list \<Rightarrow> u8 list option" where
  "arr_copy dst bs = (if length bs \<le> length dst then Some (bs @ drop (length bs) dst) else None)"

subsection \<open>Attributes\<close>

text \<open>
  The loop over the attributes of a message, with the body of its \<open>switch\<close> as a parameter: \<open>f\<close> gets
  the type of the attribute, the offset of its data and the length of the data.
\<close>

function rta_loop ::
  "(nat \<Rightarrow> nat \<Rightarrow> nat \<Rightarrow> 's \<Rightarrow> 's option) \<Rightarrow> u8 list \<Rightarrow> nat \<Rightarrow> int \<Rightarrow> 's \<Rightarrow> 's option" where
  "rta_loop f buf off len s =
     (if len < int RTA_HDRLEN then Some s
      else case rd16 buf off of
        None \<Rightarrow> None
      | Some rta_len \<Rightarrow>
          if rta_len < RTA_HDRLEN \<or> int rta_len > len then Some s
          else case rd16 buf (off + 2) of
            None \<Rightarrow> None
          | Some rta_type \<Rightarrow>
              (case f rta_type (off + RTA_HDRLEN) (rta_len - RTA_HDRLEN) s of
                 None \<Rightarrow> None
               | Some s' \<Rightarrow> rta_loop f buf (off + align4 rta_len) (len - int (align4 rta_len)) s'))"
  by auto

lemma align4_ge: "n \<le> align4 n"
  unfolding align4_def by presburger

termination rta_loop
proof (relation "measure (\<lambda>(f, buf, off, len, s). nat len)", goal_cases)
  case (2 f buf off len s rta_len rta_type s')
  then have "4 \<le> align4 rta_len" using align4_ge [of rta_len] by (simp add: RTA_HDRLEN_def)
  then show ?case using 2 by (simp add: RTA_HDRLEN_def)
qed simp

declare rta_loop.simps [simp del]

subsection \<open>Routes\<close>

record route_msg =
  rm_prefix :: "u8 list"
  rm_nexthop :: "u8 list"
  rm_ifindex :: int
  rm_type :: fib_type

definition route_attr_step :: "u8 list \<Rightarrow> nat \<Rightarrow> nat \<Rightarrow> nat \<Rightarrow> route_msg \<Rightarrow> route_msg option" where
  "route_attr_step buf rta_type data payload s =
     (if rta_type = RTA_DST then do {
        bs \<leftarrow> rd_bytes buf data payload;
        p \<leftarrow> arr_copy (rm_prefix s) bs;
        Some (s\<lparr>rm_prefix := p\<rparr>) }
      else if rta_type = RTA_GATEWAY then do {
        bs \<leftarrow> rd_bytes buf data payload;
        p \<leftarrow> arr_copy (rm_nexthop s) bs;
        Some (s\<lparr>rm_nexthop := p, rm_type := FIB_TYPE_FORWARD\<rparr>) }
      else if rta_type = RTA_OIF then do {
        w \<leftarrow> rd32 buf data;
        Some (s\<lparr>rm_ifindex := sint w\<rparr>) }
      else Some s)"

text \<open>The port whose tap device has an interface index, the loop of both kinds of message.\<close>

fun netlink_port :: "i40e_desc ufp_plane \<Rightarrow> int \<Rightarrow> nat \<Rightarrow> nat \<Rightarrow> int option" where
  "netlink_port plane ifindex i 0 = Some (-1)"
| "netlink_port plane ifindex i (Suc left) =
     (case ufp_tun_index plane i of
        None \<Rightarrow> None
      | Some x \<Rightarrow> if x = ifindex then Some (int i) else netlink_port plane ifindex (i + 1) left)"

text \<open>
  The length of the prefix is not checked: adding and deleting a prefix of more bits than the array \<open>prefix\<close> has read past its end (\<open>lpm_index\<close> at the deeper
  tables). That is taken as a fault whenever such a length is used, also where the walk over the tables ends before it gets there.
\<close>

definition route_update_store ::
  "ufpd_thread \<Rightarrow> fib_store \<Rightarrow> int \<Rightarrow> nat \<Rightarrow> route_msg \<Rightarrow> nat \<Rightarrow> int \<Rightarrow> (fib_store \<times> ufp_mpool) option" where
  "route_update_store thread fs family nlmsg_type s prefix_len port_index =
     (let prefix = (\<lambda>i. rm_prefix s ! i); nexthop = (\<lambda>i. rm_nexthop s ! i) in
      if nlmsg_type \<in> {RTM_NEWROUTE, RTM_DELROUTE} \<and> 8 * length (rm_prefix s) < prefix_len then None
      else if nlmsg_type = RTM_NEWROUTE then do {
        (ret, fib, m) \<leftarrow> fib_route_update (fs_fib fs) family (rm_type s) prefix prefix_len nexthop port_index
          (of_int (rm_ifindex s)) (fib_mem thread fs);
        Some (\<lparr>fs_fib = fib, fs_objs = lm_objs m\<rparr>, lm_pool m) }
      else if nlmsg_type = RTM_DELROUTE then do {
        (ret, fib, m) \<leftarrow> fib_route_delete (fs_fib fs) prefix prefix_len (of_int (rm_ifindex s)) (fib_mem thread fs);
        Some (\<lparr>fs_fib = fib, fs_objs = lm_objs m\<rparr>, lm_pool m) }
      else Some (fs, th_mpool thread))"

text \<open>What is done with a route message once its attributes are read.\<close>

definition route_apply :: "ufpd_thread \<Rightarrow> nat \<Rightarrow> nat \<Rightarrow> nat \<Rightarrow> nat \<Rightarrow> route_msg \<Rightarrow> ufpd_thread option" where
  "route_apply thread nlmsg_type family prefix_len rtm_table s =
     do { let s = (if rtm_table = RT_TABLE_LOCAL then s\<lparr>rm_type := FIB_TYPE_LOCAL\<rparr> else s);
          port_index \<leftarrow> netlink_port (th_plane thread) (rm_ifindex s) 0 (unat (th_num_ports thread));
          if int family = AF_INET then do {
            (fs, mp) \<leftarrow> route_update_store thread (th_fib_inet thread) (int family) nlmsg_type s prefix_len port_index;
            Some (thread\<lparr>th_fib_inet := fs, th_mpool := mp\<rparr>) }
          else if int family = AF_INET6 then do {
            (fs, mp) \<leftarrow> route_update_store thread (th_fib_inet6 thread) (int family) nlmsg_type s prefix_len port_index;
            Some (thread\<lparr>th_fib_inet6 := fs, th_mpool := mp\<rparr>) }
          else Some thread }"

definition route_msg_init :: route_msg where
  "route_msg_init = \<lparr>rm_prefix = replicate 16 0, rm_nexthop = replicate 16 0, rm_ifindex = -1, rm_type = FIB_TYPE_LINK\<rparr>"

definition netlink_route :: "ufpd_thread \<Rightarrow> u8 list \<Rightarrow> nat \<Rightarrow> ufpd_thread option" where
  "netlink_route thread buf nlh =
     do { nlmsg_len \<leftarrow> rd32 buf nlh;
          nlmsg_type \<leftarrow> rd16 buf (nlh + 4);
          let route_entry = nlh + NLMSG_HDRLEN;
          family \<leftarrow> rd8 buf route_entry;
          prefix_len \<leftarrow> rd8 buf (route_entry + 1);
          s \<leftarrow> rta_loop (route_attr_step buf) buf (route_entry + RTMSG_LEN)
                 (int (unat nlmsg_len) - int (NLMSG_HDRLEN + RTMSG_LEN)) route_msg_init;
          rtm_table \<leftarrow> rd8 buf (route_entry + 4);
          route_apply thread nlmsg_type family prefix_len rtm_table s }"

subsection \<open>Neighbours\<close>

record neigh_msg =
  nm_dst_addr :: "u8 list"
  nm_dst_mac :: "u8 list"

definition neigh_attr_step :: "u8 list \<Rightarrow> nat \<Rightarrow> nat \<Rightarrow> nat \<Rightarrow> neigh_msg \<Rightarrow> neigh_msg option" where
  "neigh_attr_step buf rta_type data payload s =
     (if rta_type = NDA_DST then do {
        bs \<leftarrow> rd_bytes buf data payload;
        p \<leftarrow> arr_copy (nm_dst_addr s) bs;
        Some (s\<lparr>nm_dst_addr := p\<rparr>) }
      else if rta_type = NDA_LLADDR then do {
        bs \<leftarrow> rd_bytes buf data payload;
        p \<leftarrow> arr_copy (nm_dst_mac s) bs;
        Some (s\<lparr>nm_dst_mac := p\<rparr>) }
      else Some s)"

text \<open>The table is handed the bytes of the address that it reads, 4 or 16 of the 16 of the array.\<close>

definition neigh_update_store ::
  "ufpd_thread \<Rightarrow> neigh_store list \<Rightarrow> nat \<Rightarrow> int \<Rightarrow> nat \<Rightarrow> neigh_msg \<Rightarrow> (neigh_store list \<times> ufp_mpool) option" where
  "neigh_update_store thread neighs port family nlmsg_type s =
     (if port < length neighs then
        let ns = neighs ! port in
        if nlmsg_type = RTM_NEWNEIGH then do {
          (ret, neigh, m) \<leftarrow> neigh_add (ns_neigh ns) family (\<lambda>i. nm_dst_addr s ! i) (\<lambda>i. nm_dst_mac s ! i)
            (neigh_mem thread ns);
          Some (neighs[port := \<lparr>ns_neigh = neigh, ns_objs = lm_objs m\<rparr>], lm_pool m) }
        else if nlmsg_type = RTM_DELNEIGH then do {
          (ret, neigh, m) \<leftarrow> neigh_delete (ns_neigh ns) (take (addr_size family) (nm_dst_addr s)) (neigh_mem thread ns);
          Some (neighs[port := \<lparr>ns_neigh = neigh, ns_objs = lm_objs m\<rparr>], lm_pool m) }
        else Some (neighs, th_mpool thread)
      else None)"

definition neigh_msg_init :: neigh_msg where
  "neigh_msg_init = \<lparr>nm_dst_addr = replicate 16 0, nm_dst_mac = replicate ETH_ALEN 0\<rparr>"

definition neigh_apply :: "ufpd_thread \<Rightarrow> nat \<Rightarrow> nat \<Rightarrow> int \<Rightarrow> neigh_msg \<Rightarrow> ufpd_thread option" where
  "neigh_apply thread nlmsg_type family port_index s =
     (if int family = AF_INET then do {
        (neighs, mp) \<leftarrow> neigh_update_store thread (th_neigh_inet thread) (nat port_index) (int family) nlmsg_type s;
        Some (thread\<lparr>th_neigh_inet := neighs, th_mpool := mp\<rparr>) }
      else if int family = AF_INET6 then do {
        (neighs, mp) \<leftarrow> neigh_update_store thread (th_neigh_inet6 thread) (nat port_index) (int family) nlmsg_type s;
        Some (thread\<lparr>th_neigh_inet6 := neighs, th_mpool := mp\<rparr>) }
      else Some thread)"

definition netlink_neigh :: "ufpd_thread \<Rightarrow> u8 list \<Rightarrow> nat \<Rightarrow> ufpd_thread option" where
  "netlink_neigh thread buf nlh =
     do { nlmsg_len \<leftarrow> rd32 buf nlh;
          nlmsg_type \<leftarrow> rd16 buf (nlh + 4);
          let neigh_entry = nlh + NLMSG_HDRLEN;
          family \<leftarrow> rd8 buf neigh_entry;
          ifindex \<leftarrow> rd32 buf (neigh_entry + 4);
          port_index \<leftarrow> netlink_port (th_plane thread) (sint ifindex) 0 (unat (th_num_ports thread));
          if port_index < 0 then Some thread
          else do {
            s \<leftarrow> rta_loop (neigh_attr_step buf) buf (neigh_entry + RTMSG_LEN)
                   (int (unat nlmsg_len) - int (NLMSG_HDRLEN + RTMSG_LEN)) neigh_msg_init;
            neigh_apply thread nlmsg_type family port_index s } }"

subsection \<open>Messages\<close>

function netlink_loop :: "ufpd_thread \<Rightarrow> u8 list \<Rightarrow> nat \<Rightarrow> int \<Rightarrow> ufpd_thread option" where
  "netlink_loop thread buf nlh read_size =
     (if read_size < int NLMSG_HDRLEN then Some thread
      else case rd32 buf nlh of
        None \<Rightarrow> None
      | Some w \<Rightarrow>
          if unat w < NLMSG_HDRLEN \<or> int (unat w) > read_size then Some thread
          else case rd16 buf (nlh + 4) of
            None \<Rightarrow> None
          | Some nlmsg_type \<Rightarrow>
              (case (if nlmsg_type = RTM_NEWROUTE \<or> nlmsg_type = RTM_DELROUTE then netlink_route thread buf nlh
                     else if nlmsg_type = RTM_NEWNEIGH \<or> nlmsg_type = RTM_DELNEIGH then netlink_neigh thread buf nlh
                     else Some thread) of
                 None \<Rightarrow> None
               | Some thread' \<Rightarrow>
                   netlink_loop thread' buf (nlh + align4 (unat w)) (read_size - int (align4 (unat w)))))"
  by auto

termination netlink_loop
proof (relation "measure (\<lambda>(thread, buf, nlh, read_size). nat read_size)", goal_cases)
  case (2 thread buf nlh read_size w nlmsg_type thread')
  then have "16 \<le> align4 (unat w)" using align4_ge [of "unat w"] by (simp add: NLMSG_HDRLEN_def)
  then show ?case using 2 by (simp add: NLMSG_HDRLEN_def)
qed simp

declare netlink_loop.simps [simp del]

definition netlink_process :: "ufpd_thread \<Rightarrow> u8 list \<Rightarrow> int \<Rightarrow> ufpd_thread option" where
  "netlink_process thread read_buf read_size = netlink_loop thread read_buf 0 read_size"

end
