(* ===== verification/Netlink_Spec.thy ===== *)
theory Netlink_Spec
  imports Netlink Forward_Spec
begin

text \<open>
  What the messages of the kernel do to the tables of a thread. A message is written down by its
  contents and its bytes are derived from them; reading the bytes back is shown to have the effect
  of the contents, whatever the fields are that the program does not look at.
\<close>

subsection \<open>Little-endian numbers\<close>

definition le_enc :: "nat \<Rightarrow> nat \<Rightarrow> u8 list" where
  "le_enc n v = map (\<lambda>i. of_nat (v div 256 ^ i)) [0 ..< n]"

lemma length_le_enc [simp]: "length (le_enc n v) = n"
  by (simp add: le_enc_def)

lemma le_enc_Suc: "le_enc (Suc n) v = of_nat v # le_enc n (v div 256)"
  by (simp add: le_enc_def upt_conv_Cons map_Suc_upt [symmetric] div_mult2_eq del: upt_Suc)

lemma le_bytes_enc:
  assumes "8 * n \<le> LENGTH('a)"
  shows "(le_bytes (le_enc n v) :: 'a :: len word) = of_nat (v mod 256 ^ n)"
  using assms
proof (induction n arbitrary: v)
  case 0
  then show ?case by (simp add: le_enc_def)
next
  case (Suc n)
  have "ucast (of_nat v :: u8) = (of_nat (v mod 256) :: 'a word)"
    using Suc.prems by (simp add: unsigned_of_nat take_bit_eq_mod)
  then have "(le_bytes (le_enc (Suc n) v) :: 'a word) = of_nat (v mod 256) OR push_bit 8 (of_nat (v div 256 mod 256 ^ n))"
    using Suc by (simp add: le_enc_Suc)
  also have "\<dots> = of_nat (v mod 256) + push_bit 8 (of_nat (v div 256 mod 256 ^ n))"
  proof (rule disjunctive_add_eq_or [symmetric])
    show "of_nat (v mod 256) AND push_bit 8 (of_nat (v div 256 mod 256 ^ n)) = (0 :: 'a word)"
    proof (rule bit_word_eqI)
      fix k assume "k < LENGTH('a)"
      have "\<not> bit (v mod 256) k" if "8 \<le> k"
      proof -
        have "bit (take_bit 8 v) k = False" using that by (simp add: bit_take_bit_iff)
        then show ?thesis by (simp add: take_bit_eq_mod)
      qed
      then show "bit (of_nat (v mod 256) AND push_bit 8 (of_nat (v div 256 mod 256 ^ n)) :: 'a word) k = bit (0 :: 'a word) k"
        by (auto simp: bit_and_iff bit_push_bit_iff bit_of_nat_iff)
    qed
  qed
  also have "\<dots> = of_nat (v mod 256 + 256 * (v div 256 mod 256 ^ n))" by (simp add: push_bit_eq_mult)
  also have "v mod 256 + 256 * (v div 256 mod 256 ^ n) = v mod 256 ^ Suc n"
    by (simp add: mod_mult2_eq)
  finally show ?case .
qed

lemma le_bytes_16: "v < 65536 \<Longrightarrow> unat (le_bytes (le_enc 2 v) :: u16) = v"
  by (simp add: le_bytes_enc unsigned_of_nat take_bit_eq_mod)

lemma le_bytes_32: "v < 2 ^ 32 \<Longrightarrow> unat (le_bytes (le_enc 4 v) :: u32) = v"
  by (simp add: le_bytes_enc unsigned_of_nat take_bit_eq_mod)

text \<open>Bytes at an offset.\<close>

definition at_off :: "u8 list \<Rightarrow> nat \<Rightarrow> u8 list \<Rightarrow> bool" where
  "at_off buf off bs \<longleftrightarrow> off + length bs \<le> length buf \<and> take (length bs) (drop off buf) = bs"

lemma at_off_append: "at_off buf off (xs @ ys) \<longleftrightarrow> at_off buf off xs \<and> at_off buf (off + length xs) ys"
proof -
  have "take (length xs + length ys) (drop off buf) =
      take (length xs) (drop off buf) @ take (length ys) (drop (off + length xs) buf)"
    by (simp add: take_add add.commute)
  then show ?thesis by (auto simp: at_off_def add.assoc min_def append_eq_append_conv_if)
qed

lemma at_off_whole: "at_off buf 0 buf"
  by (simp add: at_off_def)

lemma rd8_at: "at_off buf off [b] \<Longrightarrow> rd8 buf off = Some (unat b)"
  by (auto simp: at_off_def rd8_def take_Suc_conv_app_nth hd_drop_conv_nth take_Suc neq_Nil_conv)

lemma rd16_at: "at_off buf off (le_enc 2 v) \<Longrightarrow> v < 65536 \<Longrightarrow> rd16 buf off = Some v"
  by (simp add: at_off_def rd16_def le_bytes_16)

lemma rd32_at: "at_off buf off (le_enc 4 v) \<Longrightarrow> rd32 buf off = Some (le_bytes (le_enc 4 v))"
  by (simp add: at_off_def rd32_def)

lemma rd32_at_bytes: "at_off buf off bs \<Longrightarrow> length bs = 4 \<Longrightarrow> rd32 buf off = Some (le_bytes bs)"
  by (simp add: at_off_def rd32_def)

lemma rd_bytes_at: "at_off buf off bs \<Longrightarrow> rd_bytes buf off (length bs) = Some bs"
  by (simp add: at_off_def rd_bytes_def)

subsection \<open>Attributes\<close>

record nl_attr =
  at_type :: nat
  at_data :: "u8 list"

definition attr_bytes :: "nl_attr \<Rightarrow> u8 list" where
  "attr_bytes a = le_enc 2 (RTA_HDRLEN + length (at_data a)) @ le_enc 2 (at_type a) @ at_data a @
     replicate (align4 (length (at_data a)) - length (at_data a)) 0"

definition attr_wf :: "nl_attr \<Rightarrow> bool" where
  "attr_wf a \<longleftrightarrow> at_type a < 65536 \<and> RTA_HDRLEN + length (at_data a) < 65536"

lemma length_attr_bytes: "length (attr_bytes a) = align4 (RTA_HDRLEN + length (at_data a))"
proof -
  have "align4 (4 + n) = 4 + align4 n" for n unfolding align4_def by presburger
  then show ?thesis using align4_ge [of "length (at_data a)"] by (simp add: attr_bytes_def RTA_HDRLEN_def)
qed

lemma rta_loop_attrs:
  assumes "at_off buf off (concat (map attr_bytes as))" "\<forall>a \<in> set as. attr_wf a"
    and "\<And>a off s. a \<in> set as \<Longrightarrow> at_off buf off (at_data a) \<Longrightarrow> P s \<Longrightarrow>
      f (at_type a) off (length (at_data a)) s = Some (g a s) \<and> P (g a s)" "P s"
  shows "rta_loop f buf off (int (length (concat (map attr_bytes as)))) s = Some (fold g as s)"
  using assms
proof (induction as arbitrary: off s)
  case Nil
  then show ?case by (simp add: rta_loop.simps RTA_HDRLEN_def)
next
  case (Cons a as)
  let ?n = "RTA_HDRLEN + length (at_data a)"
  have a: "at_off buf off (attr_bytes a)" and rest: "at_off buf (off + length (attr_bytes a)) (concat (map attr_bytes as))"
    using Cons.prems(1) by (simp_all add: at_off_append)
  have parts: "at_off buf off (le_enc 2 ?n)" "at_off buf (off + 2) (le_enc 2 (at_type a))"
      "at_off buf (off + RTA_HDRLEN) (at_data a)"
    using a by (simp_all add: attr_bytes_def at_off_append RTA_HDRLEN_def numeral_eq_Suc)
  have wf: "?n < 65536" "at_type a < 65536" using Cons.prems(2) by (auto simp: attr_wf_def)
  have len: "?n \<le> length (attr_bytes a)" using align4_ge [of ?n] by (simp add: length_attr_bytes)
  have f: "f (at_type a) (off + RTA_HDRLEN) (?n - RTA_HDRLEN) s = Some (g a s)" "P (g a s)"
    using Cons.prems(3) [OF _ parts(3) Cons.prems(4)] by simp_all
  have "rta_loop f buf off (int (length (concat (map attr_bytes (a # as))))) s =
      rta_loop f buf (off + align4 ?n) (int (length (concat (map attr_bytes (a # as)))) - int (align4 ?n)) (g a s)"
    using len f rd16_at [OF parts(1) wf(1)] rd16_at [OF parts(2) wf(2)]
    by (subst rta_loop.simps) (simp del: add_2_eq_Suc add_2_eq_Suc')
  also have "\<dots> = rta_loop f buf (off + length (attr_bytes a)) (int (length (concat (map attr_bytes as)))) (g a s)"
    by (simp add: length_attr_bytes)
  also have "\<dots> = Some (fold g as (g a s))" using Cons.IH [OF rest _ _ f(2)] Cons.prems(2,3) by simp
  finally show ?case by simp
qed

text \<open>The effect of an attribute on what is collected from a message.\<close>

definition over :: "u8 list \<Rightarrow> u8 list \<Rightarrow> u8 list" where
  "over bs dst = bs @ drop (length bs) dst"

definition route_attr :: "nl_attr \<Rightarrow> route_msg \<Rightarrow> route_msg" where
  "route_attr a s =
     (if at_type a = RTA_DST then s\<lparr>rm_prefix := over (at_data a) (rm_prefix s)\<rparr>
      else if at_type a = RTA_GATEWAY
      then s\<lparr>rm_nexthop := over (at_data a) (rm_nexthop s), rm_type := FIB_TYPE_FORWARD\<rparr>
      else if at_type a = RTA_OIF then s\<lparr>rm_ifindex := sint (le_bytes (at_data a) :: u32)\<rparr>
      else s)"

definition neigh_attr :: "nl_attr \<Rightarrow> neigh_msg \<Rightarrow> neigh_msg" where
  "neigh_attr a s =
     (if at_type a = NDA_DST then s\<lparr>nm_dst_addr := over (at_data a) (nm_dst_addr s)\<rparr>
      else if at_type a = NDA_LLADDR then s\<lparr>nm_dst_mac := over (at_data a) (nm_dst_mac s)\<rparr>
      else s)"

definition route_attr_wf :: "nl_attr \<Rightarrow> bool" where
  "route_attr_wf a \<longleftrightarrow> attr_wf a \<and> (at_type a \<in> {RTA_DST, RTA_GATEWAY} \<longrightarrow> length (at_data a) \<le> 16) \<and>
     (at_type a = RTA_OIF \<longrightarrow> length (at_data a) = 4)"

definition neigh_attr_wf :: "nl_attr \<Rightarrow> bool" where
  "neigh_attr_wf a \<longleftrightarrow> attr_wf a \<and> (at_type a = NDA_DST \<longrightarrow> length (at_data a) \<le> 16) \<and>
     (at_type a = NDA_LLADDR \<longrightarrow> length (at_data a) \<le> ETH_ALEN)"

text \<open>The arrays keep their sizes.\<close>

definition route_msg_wf :: "route_msg \<Rightarrow> bool" where
  "route_msg_wf s \<longleftrightarrow> length (rm_prefix s) = 16 \<and> length (rm_nexthop s) = 16"

definition neigh_msg_wf :: "neigh_msg \<Rightarrow> bool" where
  "neigh_msg_wf s \<longleftrightarrow> length (nm_dst_addr s) = 16 \<and> length (nm_dst_mac s) = ETH_ALEN"

lemma arr_copy_over: "length bs \<le> length dst \<Longrightarrow> arr_copy dst bs = Some (over bs dst)"
  by (simp add: arr_copy_def over_def)

lemma length_over: "length bs \<le> length dst \<Longrightarrow> length (over bs dst) = length dst"
  by (simp add: over_def)

lemma route_attr_keeps: "route_attr_wf a \<Longrightarrow> route_msg_wf s \<Longrightarrow> route_msg_wf (route_attr a s)"
  by (auto simp: route_attr_def route_msg_wf_def route_attr_wf_def length_over)

lemma neigh_attr_keeps: "neigh_attr_wf a \<Longrightarrow> neigh_msg_wf s \<Longrightarrow> neigh_msg_wf (neigh_attr a s)"
  by (auto simp: neigh_attr_def neigh_msg_wf_def neigh_attr_wf_def length_over)

lemma fold_keeps:
  assumes "\<And>a s. a \<in> set as \<Longrightarrow> P s \<Longrightarrow> P (g a s)" "P s"
  shows "P (fold g as s)"
  using assms by (induction as arbitrary: s) auto

lemma route_attr_step_at:
  assumes "route_attr_wf a" "at_off buf off (at_data a)" "route_msg_wf s"
  shows "route_attr_step buf (at_type a) off (length (at_data a)) s = Some (route_attr a s)"
  using assms
  by (auto simp: route_attr_step_def route_attr_def route_attr_wf_def route_msg_wf_def rd_bytes_at rd32_at_bytes
      arr_copy_over)

lemma neigh_attr_step_at:
  assumes "neigh_attr_wf a" "at_off buf off (at_data a)" "neigh_msg_wf s"
  shows "neigh_attr_step buf (at_type a) off (length (at_data a)) s = Some (neigh_attr a s)"
  using assms
  by (auto simp: neigh_attr_step_def neigh_attr_def neigh_attr_wf_def neigh_msg_wf_def rd_bytes_at arr_copy_over)

subsection \<open>Messages\<close>

text \<open>
  A message by its contents: the flag says new or deleted, and the function gives the bytes of the
  headers that the program does not read, by their offset.
\<close>

datatype nl_msg =
    Nl_Route bool (fill: "nat \<Rightarrow> u8") u8 u8 u8 "nl_attr list"
  | Nl_Neigh bool (fill: "nat \<Rightarrow> u8") u8 u32 "nl_attr list"
  | Nl_Other nat (fill: "nat \<Rightarrow> u8") "u8 list"

fun msg_type :: "nl_msg \<Rightarrow> nat" where
  "msg_type (Nl_Route new h family len tab as) = (if new then RTM_NEWROUTE else RTM_DELROUTE)"
| "msg_type (Nl_Neigh new h family ifindex as) = (if new then RTM_NEWNEIGH else RTM_DELNEIGH)"
| "msg_type (Nl_Other t h body) = t"

fun msg_body :: "nl_msg \<Rightarrow> u8 list" where
  "msg_body (Nl_Route new h family len tab as) =
     [family] @ [len] @ [h 18, h 19] @ [tab] @ map h [21 ..< 28] @ concat (map attr_bytes as)"
| "msg_body (Nl_Neigh new h family ifindex as) =
     [family] @ [h 17, h 18, h 19] @ le_enc 4 (unat ifindex) @ map h [24 ..< 28] @ concat (map attr_bytes as)"
| "msg_body (Nl_Other t h body) = body"

definition msg_len :: "nl_msg \<Rightarrow> nat" where
  "msg_len msg = NLMSG_HDRLEN + length (msg_body msg)"

definition msg_bytes :: "nl_msg \<Rightarrow> u8 list" where
  "msg_bytes msg = le_enc 4 (msg_len msg) @ le_enc 2 (msg_type msg) @ map (fill msg) [6 ..< 16] @
     msg_body msg @ replicate (align4 (msg_len msg) - msg_len msg) 0"

fun msg_wf :: "nl_msg \<Rightarrow> bool" where
  "msg_wf (Nl_Route new h family len tab as) \<longleftrightarrow> (\<forall>a \<in> set as. route_attr_wf a) \<and>
     msg_len (Nl_Route new h family len tab as) < 2 ^ 32"
| "msg_wf (Nl_Neigh new h family ifindex as) \<longleftrightarrow> (\<forall>a \<in> set as. neigh_attr_wf a) \<and>
     msg_len (Nl_Neigh new h family ifindex as) < 2 ^ 32"
| "msg_wf (Nl_Other t h body) \<longleftrightarrow> t < 65536 \<and> t \<notin> {RTM_NEWROUTE, RTM_DELROUTE, RTM_NEWNEIGH, RTM_DELNEIGH} \<and>
     msg_len (Nl_Other t h body) < 2 ^ 32"

text \<open>What a message means for the tables.\<close>

fun msg_apply :: "nl_msg \<Rightarrow> ufpd_thread \<Rightarrow> ufpd_thread option" where
  "msg_apply (Nl_Route new h family len tab as) thread =
     route_apply thread (if new then RTM_NEWROUTE else RTM_DELROUTE) (unat family) (unat len) (unat tab)
       (fold route_attr as route_msg_init)"
| "msg_apply (Nl_Neigh new h family ifindex as) thread =
     do { port_index \<leftarrow> netlink_port (th_plane thread) (sint ifindex) 0 (unat (th_num_ports thread));
          if port_index < 0 then Some thread
          else neigh_apply thread (if new then RTM_NEWNEIGH else RTM_DELNEIGH) (unat family) port_index
                 (fold neigh_attr as neigh_msg_init) }"
| "msg_apply (Nl_Other t h body) thread = Some thread"

fun msgs_run :: "nl_msg list \<Rightarrow> ufpd_thread \<Rightarrow> ufpd_thread option" where
  "msgs_run [] thread = Some thread"
| "msgs_run (msg # msgs) thread = do { thread \<leftarrow> msg_apply msg thread; msgs_run msgs thread }"

lemma route_loop_at:
  assumes "at_off buf off (concat (map attr_bytes as))" "\<forall>a \<in> set as. route_attr_wf a"
  shows "rta_loop (route_attr_step buf) buf off (int (length (concat (map attr_bytes as)))) route_msg_init =
    Some (fold route_attr as route_msg_init)"
proof (rule rta_loop_attrs [OF assms(1), where P = route_msg_wf])
  show "\<forall>a \<in> set as. attr_wf a" using assms(2) by (auto simp: route_attr_wf_def)
  show "route_msg_wf route_msg_init" by (simp add: route_msg_wf_def route_msg_init_def)
qed (use assms(2) route_attr_step_at route_attr_keeps in blast)

lemma neigh_loop_at:
  assumes "at_off buf off (concat (map attr_bytes as))" "\<forall>a \<in> set as. neigh_attr_wf a"
  shows "rta_loop (neigh_attr_step buf) buf off (int (length (concat (map attr_bytes as)))) neigh_msg_init =
    Some (fold neigh_attr as neigh_msg_init)"
proof (rule rta_loop_attrs [OF assms(1), where P = neigh_msg_wf])
  show "\<forall>a \<in> set as. attr_wf a" using assms(2) by (auto simp: neigh_attr_wf_def)
  show "neigh_msg_wf neigh_msg_init" by (simp add: neigh_msg_wf_def neigh_msg_init_def)
qed (use assms(2) neigh_attr_step_at neigh_attr_keeps in blast)

lemma msg_head_at:
  assumes "at_off buf nlh (msg_bytes msg)" "msg_wf msg"
  shows "rd32 buf nlh = Some (of_nat (msg_len msg))" "unat (of_nat (msg_len msg) :: u32) = msg_len msg"
    "rd16 buf (nlh + 4) = Some (msg_type msg)" "at_off buf (nlh + 16) (msg_body msg)"
proof -
  have len: "msg_len msg < 2 ^ 32" "msg_type msg < 65536" using assms(2) by (cases msg; simp add: nl_consts)+
  have p: "at_off buf nlh (le_enc 4 (msg_len msg))" "at_off buf (nlh + 4) (le_enc 2 (msg_type msg))"
      "at_off buf (nlh + 4 + 2 + 10) (msg_body msg)"
    using assms(1) unfolding msg_bytes_def at_off_append length_append length_le_enc length_map length_upt by simp_all
  show "rd32 buf nlh = Some (of_nat (msg_len msg))" using rd32_at [OF p(1)] len(1) by (simp add: le_bytes_enc)
  show "unat (of_nat (msg_len msg) :: u32) = msg_len msg" using len(1) by (simp add: unsigned_of_nat take_bit_eq_mod)
  show "rd16 buf (nlh + 4) = Some (msg_type msg)" by (rule rd16_at [OF p(2) len(2)])
  show "at_off buf (nlh + 16) (msg_body msg)" using p(3) by (simp add: add.commute)
qed

lemma netlink_route_at:
  assumes "at_off buf nlh (msg_bytes msg)" "msg_wf msg" "msg = Nl_Route new h family len tab as"
  shows "netlink_route thread buf nlh = msg_apply msg thread"
proof -
  note H = msg_head_at [OF assms(1,2)]
  have p: "at_off buf (nlh + 16) [family]" "at_off buf (nlh + 16 + 1) [len]" "at_off buf (nlh + 16 + 4) [tab]"
      "at_off buf (nlh + 28) (concat (map attr_bytes as))"
    using H(4) unfolding assms(3) msg_body.simps at_off_append by (simp_all add: add.commute [of nlh] eval_nat_numeral)
  have wf: "\<forall>a \<in> set as. route_attr_wf a" using assms(2,3) by simp
  have l: "msg_len msg = 28 + length (concat (map attr_bytes as))"
    unfolding assms(3) msg_len_def msg_body.simps by (simp add: NLMSG_HDRLEN_def)
  have e: "int (unat (of_nat (msg_len msg) :: u32)) - int (NLMSG_HDRLEN + RTMSG_LEN) = int (length (concat (map attr_bytes as)))"
    unfolding H(2) by (simp add: l nl_consts)
  have o: "nlh + 16 + RTMSG_LEN = nlh + 28" "nlh + NLMSG_HDRLEN = nlh + 16" by (simp_all add: nl_consts)
  show ?thesis
    unfolding netlink_route_def Let_def H(1,3) bind.bind_lunit rd8_at [OF p(1)] o rd8_at [OF p(2)] rd8_at [OF p(3)] e
      route_loop_at [OF p(4) wf]
    unfolding assms(3) msg_type.simps msg_apply.simps bind.bind_lunit by (rule refl)
qed

lemma netlink_neigh_at:
  assumes "at_off buf nlh (msg_bytes msg)" "msg_wf msg" "msg = Nl_Neigh new h family ifindex as"
  shows "netlink_neigh thread buf nlh = msg_apply msg thread"
proof -
  note H = msg_head_at [OF assms(1,2)]
  have p: "at_off buf (nlh + 16) [family]" "at_off buf (nlh + 16 + 4) (le_enc 4 (unat ifindex))"
      "at_off buf (nlh + 28) (concat (map attr_bytes as))"
    using H(4) unfolding assms(3) msg_body.simps at_off_append by (simp_all add: add.commute [of nlh] eval_nat_numeral)
  have wf: "\<forall>a \<in> set as. neigh_attr_wf a" using assms(2,3) by simp
  have l: "msg_len msg = 28 + length (concat (map attr_bytes as))"
    unfolding assms(3) msg_len_def msg_body.simps by (simp add: NLMSG_HDRLEN_def)
  have e: "int (unat (of_nat (msg_len msg) :: u32)) - int (NLMSG_HDRLEN + RTMSG_LEN) = int (length (concat (map attr_bytes as)))"
    unfolding H(2) by (simp add: l nl_consts)
  have o: "nlh + 16 + RTMSG_LEN = nlh + 28" "nlh + NLMSG_HDRLEN = nlh + 16" by (simp_all add: nl_consts)
  have "unat ifindex < 2 ^ 32" by (rule order_less_le_trans [OF unsigned_less]) simp
  then have i: "rd32 buf (nlh + 16 + 4) = Some ifindex" using rd32_at [OF p(2)] by (simp add: le_bytes_enc)
  show ?thesis
    unfolding netlink_neigh_def Let_def H(1,3) bind.bind_lunit rd8_at [OF p(1)] o i e neigh_loop_at [OF p(3) wf]
    unfolding assms(3) msg_type.simps msg_apply.simps bind.bind_lunit by (rule refl)
qed

lemma length_msg_bytes: "length (msg_bytes msg) = align4 (msg_len msg)"
  using align4_ge [of "msg_len msg"] by (simp add: msg_bytes_def msg_len_def NLMSG_HDRLEN_def)

lemma netlink_loop_msgs:
  assumes "at_off buf nlh (concat (map msg_bytes msgs))" "\<forall>msg \<in> set msgs. msg_wf msg"
  shows "netlink_loop thread buf nlh (int (length (concat (map msg_bytes msgs)))) = msgs_run msgs thread"
  using assms
proof (induction msgs arbitrary: nlh thread)
  case Nil
  then show ?case by (simp add: netlink_loop.simps NLMSG_HDRLEN_def)
next
  case (Cons msg msgs)
  have m: "at_off buf nlh (msg_bytes msg)" and rest: "at_off buf (nlh + length (msg_bytes msg)) (concat (map msg_bytes msgs))"
    using Cons.prems(1) by (simp_all add: at_off_append)
  have wf: "msg_wf msg" using Cons.prems(2) by simp
  note H = msg_head_at [OF m wf]
  have len: "msg_len msg \<le> length (msg_bytes msg)" "NLMSG_HDRLEN \<le> msg_len msg"
    using align4_ge [of "msg_len msg"] by (simp_all add: length_msg_bytes msg_len_def)
  have body: "(if msg_type msg = RTM_NEWROUTE \<or> msg_type msg = RTM_DELROUTE then netlink_route thread buf nlh
      else if msg_type msg = RTM_NEWNEIGH \<or> msg_type msg = RTM_DELNEIGH then netlink_neigh thread buf nlh
      else Some thread) = msg_apply msg thread"
    using netlink_route_at [OF m wf] netlink_neigh_at [OF m wf] wf by (cases msg) (auto simp: nl_consts)
  have IH: "netlink_loop t buf (nlh + length (msg_bytes msg)) (int (length (concat (map msg_bytes msgs)))) = msgs_run msgs t" for t
    using Cons.IH [OF rest] Cons.prems(2) by simp
  have "netlink_loop thread buf nlh (int (length (concat (map msg_bytes (msg # msgs))))) =
      (case msg_apply msg thread of None \<Rightarrow> None
       | Some t \<Rightarrow> netlink_loop t buf (nlh + align4 (msg_len msg))
           (int (length (concat (map msg_bytes (msg # msgs)))) - int (align4 (msg_len msg))))"
    using len H(1,2,3) body by (subst netlink_loop.simps) (simp split: option.split)
  also have "\<dots> = msgs_run (msg # msgs) thread"
    using IH by (simp add: length_msg_bytes split: option.split)
  finally show ?case .
qed

text \<open>C17. Messages are read as what they say. For any sequence of well-formed messages, whatever the
  parts of their headers contain that the program does not use, \<open>netlink_process\<close> on their bytes has
  the effect of the messages one after the other: route messages with the destination, gateway and
  interface of their attributes (the last attribute of a kind counts), the type that table and gateway imply, and
  the port with the interface index; neighbour messages on the table of their port; nothing for the
  others. The loops over messages and attributes end and no byte outside of the buffer is read.
\<close>

theorem netlink_reads_messages:
  assumes "\<forall>msg \<in> set msgs. msg_wf msg"
  shows "netlink_process thread (concat (map msg_bytes msgs)) (int (length (concat (map msg_bytes msgs)))) =
    msgs_run msgs thread"
  unfolding netlink_process_def by (rule netlink_loop_msgs [OF at_off_whole assms])

definition route_msg_ex :: "bool \<Rightarrow> nl_msg" where
  "route_msg_ex new = Nl_Route new (\<lambda>i. 7) 2 16 254
     [\<lparr>at_type = RTA_DST, at_data = [10, 0, 0, 0]\<rparr>, \<lparr>at_type = RTA_GATEWAY, at_data = [10, 0, 0, 1]\<rparr>,
      \<lparr>at_type = RTA_OIF, at_data = [1, 0, 0, 0]\<rparr>]"

lemma route_msg_ex_wf: "msg_wf (route_msg_ex new)"
  by (simp add: route_msg_ex_def route_attr_wf_def attr_wf_def nl_consts msg_len_def length_attr_bytes align4_def)

theorem netlink_reads_messages_witness:
  "msg_wf (route_msg_ex True) \<and> msg_wf (Nl_Other 3 (\<lambda>i. 0) [1]) \<and> (\<forall>thread.
   netlink_process thread (msg_bytes (route_msg_ex True) @ msg_bytes (Nl_Other 3 (\<lambda>i. 0) [1]))
     (int (length (msg_bytes (route_msg_ex True) @ msg_bytes (Nl_Other 3 (\<lambda>i. 0) [1])))) =
   msgs_run [route_msg_ex True, Nl_Other 3 (\<lambda>i. 0) [1]] thread)"
proof -
  have w: "msg_wf (route_msg_ex True)" "msg_wf (Nl_Other 3 (\<lambda>i. 0) [1])"
    using route_msg_ex_wf by (simp_all add: nl_consts msg_len_def)
  then have "\<forall>msg \<in> set [route_msg_ex True, Nl_Other 3 (\<lambda>i. 0) [1]]. msg_wf msg" by simp
  from netlink_reads_messages [OF this] w show ?thesis by simp
qed

end
