(* ===== verification/Netlink_Tables.thy ===== *)
theory Netlink_Tables
  imports Netlink_Spec
begin

text \<open>
  All tables of a thread together: the routing tables and the neighbour tables of both families live
  in one pool, no block belongs to two of them, and a message changes the table it names and
  no other.
\<close>

subsection \<open>The tables of a thread\<close>

text \<open>The tables by the version of IP, \<open>True\<close> for version 6.\<close>

definition fam :: "bool \<Rightarrow> int" where
  "fam v = (if v then AF_INET6 else AF_INET)"

definition fib_at :: "bool \<Rightarrow> ufpd_thread \<Rightarrow> fib_store" where
  "fib_at v thread = (if v then th_fib_inet6 thread else th_fib_inet thread)"

definition neighs_at :: "bool \<Rightarrow> ufpd_thread \<Rightarrow> neigh_store list" where
  "neighs_at v thread = (if v then th_neigh_inet6 thread else th_neigh_inet thread)"

definition set_fib :: "bool \<Rightarrow> fib_store \<Rightarrow> ufp_mpool \<Rightarrow> ufpd_thread \<Rightarrow> ufpd_thread" where
  "set_fib v fs mp thread =
     (if v then thread\<lparr>th_fib_inet6 := fs, th_mpool := mp\<rparr> else thread\<lparr>th_fib_inet := fs, th_mpool := mp\<rparr>)"

definition set_neighs :: "bool \<Rightarrow> neigh_store list \<Rightarrow> ufp_mpool \<Rightarrow> ufpd_thread \<Rightarrow> ufpd_thread" where
  "set_neighs v ns mp thread =
     (if v then thread\<lparr>th_neigh_inet6 := ns, th_mpool := mp\<rparr> else thread\<lparr>th_neigh_inet := ns, th_mpool := mp\<rparr>)"

lemma set_fib_sel [simp]:
  "fib_at w (set_fib v fs mp thread) = (if w = v then fs else fib_at w thread)"
  "neighs_at w (set_fib v fs mp thread) = neighs_at w thread"
  "th_mpool (set_fib v fs mp thread) = mp" "th_plane (set_fib v fs mp thread) = th_plane thread"
  "th_num_ports (set_fib v fs mp thread) = th_num_ports thread"
  by (auto simp: set_fib_def fib_at_def neighs_at_def)

lemma set_neighs_sel [simp]:
  "fib_at w (set_neighs v ns mp thread) = fib_at w thread"
  "neighs_at w (set_neighs v ns mp thread) = (if w = v then ns else neighs_at w thread)"
  "th_mpool (set_neighs v ns mp thread) = mp" "th_plane (set_neighs v ns mp thread) = th_plane thread"
  "th_num_ports (set_neighs v ns mp thread) = th_num_ports thread"
  by (auto simp: set_neighs_def fib_at_def neighs_at_def)

datatype table = Fib_Table bool | Neigh_Table bool nat

fun owned :: "ufpd_thread \<Rightarrow> table \<Rightarrow> addr set" where
  "owned thread (Fib_Table v) = fs_owned (fib_at v thread)"
| "owned thread (Neigh_Table v i) =
     (if i < length (neighs_at v thread) then ns_owned (neighs_at v thread ! i) else {})"

definition thread_ok :: "ufpd_thread \<Rightarrow> (bool \<Rightarrow> addr \<Rightarrow> fib_entry) \<Rightarrow> (bool \<Rightarrow> route list) \<Rightarrow> bool" where
  "thread_ok thread D R \<longleftrightarrow>
     (\<forall>v. tables_ok thread (fam v) (fib_at v thread) (neighs_at v thread) (D v) (R v)) \<and>
     (\<forall>v. length (neighs_at v thread) = unat (th_num_ports thread)) \<and>
     (\<forall>t u. t \<noteq> u \<longrightarrow> owned thread t \<inter> owned thread u = {})"

lemma tables_ok_alt:
  "tables_ok thread family fs neighs D rib \<longleftrightarrow>
     fs_ok (th_mpool thread) fs D rib \<and>
     (\<forall>ns \<in> set neighs. ns_ok (th_mpool thread) family ns \<and> (\<forall>e \<in> ran (ns_objs ns). length (ne_dst_mac e) = ETH_ALEN)) \<and>
     (\<forall>s \<in> set rib. fe_port_index (D (rt_ptr s)) < int (length neighs) \<and>
        length (fe_nexthop (D (rt_ptr s))) = addr_size family) \<and>
     length neighs \<le> length (ports (th_plane thread)) \<and>
     (\<forall>p \<in> set (ports (th_plane thread)). length (port_mac_addr p) = ETH_ALEN)"
  by (simp add: tables_ok_def fs_ok_def ns_ok_def fib_mem_def neigh_mem_def)

lemma thread_okD:
  assumes "thread_ok thread D R"
  shows "fs_ok (th_mpool thread) (fib_at v thread) (D v) (R v)"
    "i < length (neighs_at v thread) \<Longrightarrow> ns_ok (th_mpool thread) (fam v) (neighs_at v thread ! i)"
    "t \<noteq> u \<Longrightarrow> owned thread t \<inter> owned thread u = {}"
    "owned thread t \<subseteq> mp_live (th_mpool thread)"
proof -
  have T: "tables_ok thread (fam v) (fib_at v thread) (neighs_at v thread) (D v) (R v)" for v
    using assms by (simp add: thread_ok_def)
  show fs: "fs_ok (th_mpool thread) (fib_at v thread) (D v) (R v)" for v using T by (simp add: tables_ok_alt)
  show ns: "i < length (neighs_at v thread) \<Longrightarrow> ns_ok (th_mpool thread) (fam v) (neighs_at v thread ! i)" for i v
    using T [of v] by (simp add: tables_ok_alt)
  show "t \<noteq> u \<Longrightarrow> owned thread t \<inter> owned thread u = {}" using assms by (simp add: thread_ok_def)
  show "owned thread t \<subseteq> mp_live (th_mpool thread)"
    using fs_okD(2) [OF fs] ns_okD(2) [OF ns] by (cases t) auto
qed

text \<open>A step of the pool for one table: the blocks of the others stay.\<close>

definition pool_step :: "ufp_mpool \<Rightarrow> addr set \<Rightarrow> ufp_mpool \<Rightarrow> addr set \<Rightarrow> bool" where
  "pool_step mp own mp' own' \<longleftrightarrow> mp_wf mp' \<and> mp_live mp' = own' \<union> (mp_live mp - own) \<and> own' \<inter> (mp_live mp - own) = {}"

lemma pool_step_others:
  assumes "thread_ok thread D R" "pool_step (th_mpool thread) (owned thread t) mp' own'" "u \<noteq> t"
  shows "owned thread u \<subseteq> mp_live mp'" "owned thread u \<inter> own' = {}"
  using assms thread_okD(3) [OF assms(1,3)] thread_okD(4) [OF assms(1), of u] by (auto simp: pool_step_def)

lemma thread_ok_fib:
  assumes ok: "thread_ok thread D R" and fs: "fs_ok mp' fs' D' rib'"
    and st: "pool_step (th_mpool thread) (fs_owned (fib_at v thread)) mp' (fs_owned fs')"
    and rib: "\<forall>s \<in> set rib'. fe_port_index (D' (rt_ptr s)) < int (unat (th_num_ports thread)) \<and>
      length (fe_nexthop (D' (rt_ptr s))) = addr_size (fam v)"
  shows "thread_ok (set_fib v fs' mp' thread) (D(v := D')) (R(v := rib'))"
proof -
  let ?t = "set_fib v fs' mp' thread"
  have st': "pool_step (th_mpool thread) (owned thread (Fib_Table v)) mp' (fs_owned fs')" using st by simp
  note O = pool_step_others [OF ok st']
  have wf: "mp_wf mp'" using st by (simp add: pool_step_def)
  have n: "length (neighs_at w thread) = unat (th_num_ports thread)" for w using ok by (simp add: thread_ok_def)
  have T: "tables_ok thread (fam w) (fib_at w thread) (neighs_at w thread) (D w) (R w)" for w
    using ok by (simp add: thread_ok_def)
  have own: "owned ?t u = (if u = Fib_Table v then fs_owned fs' else owned thread u)" for u by (cases u) auto
  have "fs_ok mp' (fib_at w ?t) ((D(v := D')) w) ((R(v := rib')) w)" for w
    using fs fs_ok_frame [OF thread_okD(1) [OF ok] wf, of w] O(1) [of "Fib_Table w"] by auto
  moreover have "ns_ok mp' (fam w) ns" if m: "ns \<in> set (neighs_at w thread)" for w ns
  proof -
    obtain i where "i < length (neighs_at w thread)" "ns = neighs_at w thread ! i" using m by (auto simp: in_set_conv_nth)
    then show ?thesis
      using ns_ok_frame [OF thread_okD(2) [OF ok] wf, of i w] O(1) [of "Neigh_Table w i"] by auto
  qed
  ultimately have "tables_ok ?t (fam w) (fib_at w ?t) (neighs_at w ?t) ((D(v := D')) w) ((R(v := rib')) w)" for w
    using T [of w] rib n by (auto simp: tables_ok_alt)
  moreover have "owned ?t t \<inter> owned ?t u = {}" if "t \<noteq> u" for t u
    using that O(2) thread_okD(3) [OF ok] unfolding own by auto
  ultimately show ?thesis using n by (simp add: thread_ok_def)
qed

lemma thread_ok_neigh:
  assumes ok: "thread_ok thread D R" and i: "i < length (neighs_at v thread)"
    and ns: "ns_ok mp' (fam v) ns'" "\<forall>e \<in> ran (ns_objs ns'). length (ne_dst_mac e) = ETH_ALEN"
    and st: "pool_step (th_mpool thread) (ns_owned (neighs_at v thread ! i)) mp' (ns_owned ns')"
  shows "thread_ok (set_neighs v ((neighs_at v thread)[i := ns']) mp' thread) D R"
proof -
  let ?t = "set_neighs v ((neighs_at v thread)[i := ns']) mp' thread"
  have st': "pool_step (th_mpool thread) (owned thread (Neigh_Table v i)) mp' (ns_owned ns')" using st i by simp
  note O = pool_step_others [OF ok st']
  have wf: "mp_wf mp'" using st by (simp add: pool_step_def)
  have n: "length (neighs_at w thread) = unat (th_num_ports thread)" for w using ok by (simp add: thread_ok_def)
  have T: "tables_ok thread (fam w) (fib_at w thread) (neighs_at w thread) (D w) (R w)" for w
    using ok by (simp add: thread_ok_def)
  have own: "owned ?t u = (if u = Neigh_Table v i then ns_owned ns' else owned thread u)" for u
    using i by (cases u) (auto simp: nth_list_update)
  have "fs_ok mp' (fib_at w ?t) (D w) (R w)" for w
    using fs_ok_frame [OF thread_okD(1) [OF ok] wf, of w] O(1) [of "Fib_Table w"] by auto
  moreover have "ns_ok mp' (fam w) (neighs_at w ?t ! j)" if j: "j < length (neighs_at w ?t)" for w j
    using ns(1) ns_ok_frame [OF thread_okD(2) [OF ok] wf, of j w] O(1) [of "Neigh_Table w j"] j i
    by (cases "w = v \<and> j = i") (auto simp: nth_list_update split: if_splits)
  moreover have "\<forall>e \<in> ran (ns_objs (neighs_at w ?t ! j)). length (ne_dst_mac e) = ETH_ALEN"
    if j: "j < length (neighs_at w ?t)" for w j
    using T [of w] ns(2) j i
    by (cases "w = v \<and> j = i") (auto simp: tables_ok_alt nth_list_update split: if_splits)
  ultimately have "tables_ok ?t (fam w) (fib_at w ?t) (neighs_at w ?t) (D w) (R w)" for w
    using T [of w] n by (auto simp: tables_ok_alt all_set_conv_all_nth)
  moreover have "owned ?t t \<inter> owned ?t u = {}" if "t \<noteq> u" for t u
    using that O(2) thread_okD(3) [OF ok] unfolding own by auto
  ultimately show ?thesis using n by (simp add: thread_ok_def)
qed

text \<open>
  A change of the tables only: the blocks outside of them, their structures and the rest of the
  thread stay.
\<close>

definition others :: "ufpd_thread \<Rightarrow> addr set" where
  "others thread = mp_live (th_mpool thread) - (\<Union>t. owned thread t)"

definition tables_step :: "ufpd_thread \<Rightarrow> ufpd_thread \<Rightarrow> bool" where
  "tables_step thread thread' \<longleftrightarrow> others thread' = others thread \<and>
     (\<forall>v. fib_addr (fs_fib (fib_at v thread')) = fib_addr (fs_fib (fib_at v thread)) \<and>
       map (nt_addr \<circ> ns_neigh) (neighs_at v thread') = map (nt_addr \<circ> ns_neigh) (neighs_at v thread)) \<and>
     th_plane thread' = th_plane thread \<and> th_buf thread' = th_buf thread \<and> th_id thread' = th_id thread \<and>
     th_num_ports thread' = th_num_ports thread \<and> th_read_size thread' = th_read_size thread \<and>
     th_mem thread' = th_mem thread \<and> th_tun thread' = th_tun thread \<and> th_mmio thread' = th_mmio thread"

lemma tables_step_refl [simp]: "tables_step thread thread"
  by (simp add: tables_step_def)

lemma tables_step_trans: "tables_step a b \<Longrightarrow> tables_step b c \<Longrightarrow> tables_step a c"
  by (simp add: tables_step_def)

lemma others_step:
  assumes ok: "thread_ok thread D R" and st: "pool_step (th_mpool thread) (owned thread t) mp' own'"
    and t: "th_mpool thread' = mp'" "\<And>u. owned thread' u = (if u = t then own' else owned thread u)"
  shows "others thread' = others thread"
proof -
  have "(\<Union>u. owned thread' u) = own' \<union> (\<Union>u \<in> - {t}. owned thread u)" unfolding t(2) by (auto split: if_splits)
  moreover have "(\<Union>u. owned thread u) = owned thread t \<union> (\<Union>u \<in> - {t}. owned thread u)" by blast
  moreover have "L' - (own' \<union> X) = L - (P \<union> X)" if "L' = own' \<union> (L - P)" "own' \<inter> (L - P) = {}" for L L' P X :: "addr set"
    using that by blast
  ultimately show ?thesis using st unfolding others_def t(1) pool_step_def by presburger
qed

lemma tables_step_fib:
  assumes ok: "thread_ok thread D R" and st: "pool_step (th_mpool thread) (fs_owned (fib_at v thread)) mp' (fs_owned fs')"
    and a: "fib_addr (fs_fib fs') = fib_addr (fs_fib (fib_at v thread))"
  shows "tables_step thread (set_fib v fs' mp' thread)"
proof -
  have st': "pool_step (th_mpool thread) (owned thread (Fib_Table v)) mp' (fs_owned fs')" using st by simp
  have "owned (set_fib v fs' mp' thread) u = (if u = Fib_Table v then fs_owned fs' else owned thread u)" for u by (cases u) auto
  from others_step [OF ok st' _ this] have "others (set_fib v fs' mp' thread) = others thread" by simp
  then show ?thesis using a by (auto simp: tables_step_def) (simp_all add: set_fib_def)
qed

lemma tables_step_neigh:
  assumes ok: "thread_ok thread D R" and i: "i < length (neighs_at v thread)"
    and st: "pool_step (th_mpool thread) (ns_owned (neighs_at v thread ! i)) mp' (ns_owned ns')"
    and a: "nt_addr (ns_neigh ns') = nt_addr (ns_neigh (neighs_at v thread ! i))"
  shows "tables_step thread (set_neighs v ((neighs_at v thread)[i := ns']) mp' thread)" (is "tables_step thread ?t")
proof -
  have st': "pool_step (th_mpool thread) (owned thread (Neigh_Table v i)) mp' (ns_owned ns')" using st i by simp
  have "owned ?t u = (if u = Neigh_Table v i then ns_owned ns' else owned thread u)" for u
    using i by (cases u) (auto simp: nth_list_update)
  from others_step [OF ok st' _ this] have "others ?t = others thread" by simp
  moreover have "map (nt_addr \<circ> ns_neigh) ((neighs_at v thread)[i := ns']) = map (nt_addr \<circ> ns_neigh) (neighs_at v thread)"
    unfolding map_update comp_apply a using i by (simp add: list_update_same_conv)
  ultimately show ?thesis by (auto simp: tables_step_def) (simp_all add: set_neighs_def)
qed

text \<open>The operations do not move the structures of the tables.\<close>

lemma fib_addr_kept:
  "fib_route_update fib family type prefix len nexthop port eid m = Some (ret, fib', m') \<Longrightarrow> fib_addr fib' = fib_addr fib"
  "fib_route_delete fib prefix len eid m = Some (ret, fib', m') \<Longrightarrow> fib_addr fib' = fib_addr fib"
  by (auto simp: fib_route_update_def fib_route_delete_def split: option.splits prod.splits if_splits)

lemma nt_addr_kept:
  "neigh_add neigh family dst mac m = Some (ret, neigh', m') \<Longrightarrow> nt_addr neigh' = nt_addr neigh"
  "neigh_delete neigh key m = Some (ret, neigh', m') \<Longrightarrow> nt_addr neigh' = nt_addr neigh"
  by (auto simp: neigh_add_def neigh_delete_def Let_def split: option.splits prod.splits if_splits)

subsection \<open>Messages\<close>

lemma netlink_port_range:
  "i + n \<le> length (ports plane) \<Longrightarrow> \<exists>r. netlink_port plane ifindex i n = Some r \<and> r < int (i + n) \<and> -1 \<le> r"
proof (induction n arbitrary: i)
  case (Suc n)
  then have "ufp_tun_index plane i = Some (port_tap_index (ports plane ! i))"
    by (simp add: ufp_tun_index_def plane_port_def)
  with Suc.IH [of "i + 1"] Suc.prems show ?case by auto
qed simp

text \<open>The port of an interface index, for a thread whose tables are as they should be.\<close>

definition port_of :: "ufpd_thread \<Rightarrow> int \<Rightarrow> int" where
  "port_of thread ifindex = the (netlink_port (th_plane thread) ifindex 0 (unat (th_num_ports thread)))"

lemma port_of:
  assumes "thread_ok thread D R"
  shows "netlink_port (th_plane thread) ifindex 0 (unat (th_num_ports thread)) = Some (port_of thread ifindex)"
    "port_of thread ifindex < int (unat (th_num_ports thread))" "-1 \<le> port_of thread ifindex"
proof -
  have "unat (th_num_ports thread) \<le> length (ports (th_plane thread))"
    using assms unfolding thread_ok_def tables_ok_def by metis
  then obtain r where "netlink_port (th_plane thread) ifindex 0 (unat (th_num_ports thread)) = Some r"
      "r < int (unat (th_num_ports thread))" "-1 \<le> r"
    using netlink_port_range [of 0 "unat (th_num_ports thread)" "th_plane thread" ifindex] by auto
  then show "netlink_port (th_plane thread) ifindex 0 (unat (th_num_ports thread)) = Some (port_of thread ifindex)"
    "port_of thread ifindex < int (unat (th_num_ports thread))" "-1 \<le> port_of thread ifindex"
    by (simp_all add: port_of_def)
qed

lemma port_in_tables:
  assumes "thread_ok thread D R" "port_of thread ifindex = int i"
  shows "i < length (neighs_at v thread)"
  using port_of(2) [OF assms(1), of ifindex] assms(1) unfolding thread_ok_def assms(2) of_nat_less_iff by metis

lemma thread_ok_macs:
  assumes "thread_ok thread D R" "i < length (neighs_at v thread)"
  shows "\<forall>e \<in> ran (ns_objs (neighs_at v thread ! i)). length (ne_dst_mac e) = ETH_ALEN"
proof -
  have "tables_ok thread (fam v) (fib_at v thread) (neighs_at v thread) (D v) (R v)"
    using assms(1) by (simp add: thread_ok_def)
  then show ?thesis using nth_mem [OF assms(2)] unfolding tables_ok_def by blast
qed

lemma route_apply_fam:
  assumes "thread_ok thread D R" "int family = fam v"
  shows "route_apply thread t family len tab s =
    do { let s = (if tab = RT_TABLE_LOCAL then s\<lparr>rm_type := FIB_TYPE_LOCAL\<rparr> else s);
         (fs, mp) \<leftarrow> route_update_store thread (fib_at v thread) (fam v) t s len (port_of thread (rm_ifindex s));
         Some (set_fib v fs mp thread) }"
  unfolding route_apply_def Let_def port_of(1) [OF assms(1)] bind.bind_lunit assms(2)
  by (simp add: fam_def fib_at_def set_fib_def AF_INET_def AF_INET6_def)

lemma pool_step_fib:
  assumes "fs_ok mp fs D rib" "fib_inv fib' m' D' rib' (mset_set (mp_live mp - fs_owned fs))"
  shows "fs_ok (lm_pool m') \<lparr>fs_fib = fib', fs_objs = lm_objs m'\<rparr> D' rib'"
    "pool_step mp (fs_owned fs) (lm_pool m') (fs_owned \<lparr>fs_fib = fib', fs_objs = lm_objs m'\<rparr>)"
  using fs_ok_step [OF assms] by (simp_all add: pool_step_def)

lemma pool_step_neigh:
  assumes "ns_ok mp family ns" "neigh_inv neigh' family m' (mp_live mp - ns_owned ns)"
  shows "ns_ok (lm_pool m') family \<lparr>ns_neigh = neigh', ns_objs = lm_objs m'\<rparr>"
    "pool_step mp (ns_owned ns) (lm_pool m') (ns_owned \<lparr>ns_neigh = neigh', ns_objs = lm_objs m'\<rparr>)"
  using ns_ok_step [OF assms] by (simp_all add: pool_step_def)

lemma one_message:
  "msg_wf msg \<Longrightarrow> netlink_process thread (msg_bytes msg) (int (length (msg_bytes msg))) = msg_apply msg thread"
  using netlink_loop_msgs [OF at_off_whole, of "[msg]" thread]
  by (cases "msg_apply msg thread") (simp_all add: netlink_process_def)

text \<open>What a route message says: the prefix, the identity of the route and the entry it leads to.\<close>

definition said_prefix :: "nl_attr list \<Rightarrow> bytes" where
  "said_prefix as = (\<lambda>i. rm_prefix (fold route_attr as route_msg_init) ! i)"

definition said_id :: "nl_attr list \<Rightarrow> u32" where
  "said_id as = of_int (rm_ifindex (fold route_attr as route_msg_init))"

definition said_entry :: "ufpd_thread \<Rightarrow> bool \<Rightarrow> u8 \<Rightarrow> u8 \<Rightarrow> nl_attr list \<Rightarrow> fib_entry" where
  "said_entry thread v len tab as =
     (let s = fold route_attr as route_msg_init; n = addr_size (fam v) in
      \<lparr>fe_prefix = map (said_prefix as) [0 ..< n], fe_prefix_len = unat len,
       fe_nexthop = map (\<lambda>i. rm_nexthop s ! i) [0 ..< n], fe_port_index = port_of thread (rm_ifindex s),
       fe_type = (if unat tab = RT_TABLE_LOCAL then FIB_TYPE_LOCAL else rm_type s),
       fe_id = said_id as, fe_refcount = 0\<rparr>)"

lemma fill_said:
  "fib_entry_fill (fam v) (fe_type (said_entry thread v len tab as)) (said_prefix as) (unat len)
     (\<lambda>i. rm_nexthop (fold route_attr as route_msg_init) ! i)
     (port_of thread (rm_ifindex (fold route_attr as route_msg_init))) (said_id as) = Some (said_entry thread v len tab as)"
  by (simp add: fib_entry_fill_def said_entry_def fam_def addr_size_def Let_def AF_INET_def AF_INET6_def)

lemma said_entry_ok:
  assumes "thread_ok thread D R"
  shows "fe_port_index (said_entry thread v len tab as) < int (unat (th_num_ports thread)) \<and>
    length (fe_nexthop (said_entry thread v len tab as)) = addr_size (fam v)"
  using port_of(2) [OF assms] by (simp add: said_entry_def Let_def)

lemma rib_entries_ok:
  assumes "thread_ok thread D R"
  shows "\<forall>s \<in> set (R v). fe_port_index (D v (rt_ptr s)) < int (unat (th_num_ports thread)) \<and>
    length (fe_nexthop (D v (rt_ptr s))) = addr_size (fam v)"
  using assms unfolding thread_ok_def tables_ok_def by metis

lemma said_prefix_length:
  assumes "\<forall>a \<in> set as. route_attr_wf a"
  shows "length (rm_prefix (fold route_attr as route_msg_init)) = 16"
proof -
  have "route_msg_wf (fold route_attr as route_msg_init)"
    by (rule fold_keeps) (use assms route_attr_keeps in \<open>auto simp: route_msg_wf_def route_msg_init_def\<close>)
  then show ?thesis by (simp add: route_msg_wf_def)
qed

lemma new_route_spec:
  assumes ok: "thread_ok thread D R"
    and msg: "msg = Nl_Route True h family len tab as" "msg_wf msg" "int (unat family) = fam v" "unat len \<le> 128"
    and room: "rib_has (said_prefix as) (unat len) (said_id as) (R v) \<or>
      roomy (sizeof_fib_entry # tab_need (said_prefix as) (unat len) (fib_table (fs_fib (fib_at v thread)))) (th_mpool thread)"
  shows "\<exists>thread' p. netlink_process thread (msg_bytes msg) (int (length (msg_bytes msg))) = Some thread' \<and>
    (\<exists>fs mp. thread' = set_fib v fs mp thread) \<and> tables_step thread thread' \<and>
    (if rib_has (said_prefix as) (unat len) (said_id as) (R v) then thread_ok thread' D R
     else p \<notin> rt_ptr ` set (R v) \<and>
       thread_ok thread' (D(v := (D v)(p := said_entry thread v len tab as)))
         (R(v := rib_add \<lparr>rt_pfx = said_prefix as, rt_len = unat len, rt_id = said_id as, rt_ptr = p\<rparr> (R v))))"
proof -
  let ?fs = "fib_at v thread" and ?s = "fold route_attr as route_msg_init"
  let ?e = "said_entry thread v len tab as" and ?W = "mset_set (mp_live (th_mpool thread) - fs_owned (fib_at v thread))"
  have L: "\<not> 8 * length (rm_prefix ?s) < unat len" using said_prefix_length msg(1,2,4) by simp
  note fs = thread_okD(1) [OF ok, of v]
  have inv: "fib_inv (fs_fib ?fs) (fib_mem thread ?fs) (D v) (R v) ?W" using fs_okD(3) [OF fs] by (simp add: fib_mem_def)
  obtain ret fib' m' where U: "fib_route_update (fs_fib ?fs) (fam v) (fe_type ?e) (said_prefix as) (unat len)
        (\<lambda>i. rm_nexthop ?s ! i) (port_of thread (rm_ifindex ?s)) (said_id as) (fib_mem thread ?fs) = Some (ret, fib', m')"
      "if rib_has (said_prefix as) (unat len) (said_id as) (R v) then fib_inv fib' m' (D v) (R v) ?W
       else \<exists>p. p \<notin> rt_ptr ` set (R v) \<and> fib_inv fib' m' ((D v)(p := ?e))
         (rib_add \<lparr>rt_pfx = said_prefix as, rt_len = unat len, rt_id = said_id as, rt_ptr = p\<rparr> (R v)) ?W"
    using fib_route_update_spec [OF inv, of "said_prefix as" "unat len" "said_id as" "fam v" "fe_type ?e"
        "\<lambda>i. rm_nexthop ?s ! i" "port_of thread (rm_ifindex ?s)"] room
    unfolding fill_said by (fastforce simp: fib_mem_def)
  let ?t = "set_fib v \<lparr>fs_fib = fib', fs_objs = lm_objs m'\<rparr> (lm_pool m') thread"
  have run: "netlink_process thread (msg_bytes msg) (int (length (msg_bytes msg))) = Some ?t"
    using U(1) L unfolding one_message [OF msg(2)]
    unfolding msg(1) msg_apply.simps route_apply_fam [OF ok msg(3)] route_update_store_def Let_def
    by (cases "unat tab = RT_TABLE_LOCAL") (simp_all add: said_prefix_def said_id_def said_entry_def Let_def)
  have addr: "fib_addr fib' = fib_addr (fs_fib ?fs)" by (rule fib_addr_kept(1) [OF U(1)])
  show ?thesis
  proof (cases "rib_has (said_prefix as) (unat len) (said_id as) (R v)")
    case True
    with U(2) have I: "fib_inv fib' m' (D v) (R v) ?W" by simp
    from thread_ok_fib [OF ok pool_step_fib [OF fs I] rib_entries_ok [OF ok]]
    have "thread_ok ?t D R" by simp
    with run True tables_step_fib [OF ok pool_step_fib(2) [OF fs I]] addr show ?thesis by auto
  next
    case False
    with U(2) obtain p where p: "p \<notin> rt_ptr ` set (R v)" "fib_inv fib' m' ((D v)(p := ?e))
        (rib_add \<lparr>rt_pfx = said_prefix as, rt_len = unat len, rt_id = said_id as, rt_ptr = p\<rparr> (R v)) ?W" by auto
    have "thread_ok ?t (D(v := (D v)(p := ?e)))
        (R(v := rib_add \<lparr>rt_pfx = said_prefix as, rt_len = unat len, rt_id = said_id as, rt_ptr = p\<rparr> (R v)))"
      using rib_entries_ok [OF ok, of v] said_entry_ok [OF ok] p(1)
      by (intro thread_ok_fib [OF ok pool_step_fib [OF fs p(2)]]) auto
    with run False p(1) tables_step_fib [OF ok pool_step_fib(2) [OF fs p(2)]] addr show ?thesis by auto
  qed
qed

text \<open>C18. A new route. When the kernel announces a route of either version of IP, with a prefix of at most 128 bits, to a thread whose tables
  are well-formed and share no block, and the pool has room for the route (and no \<open>malloc\<close> of the pool fails) or the route is known, then the
  message is processed without a fault, all tables stay well-formed and keep to their own blocks,
  and the routing table of that version stands for the old routes and the announced one, if it is
  new; the routes of the other version are those of before.
\<close>

theorem netlink_new_route:
  assumes ok: "thread_ok thread D R"
    and msg: "msg = Nl_Route True h family len tab as" "msg_wf msg" "int (unat family) = fam v" "unat len \<le> 128"
    and room: "rib_has (said_prefix as) (unat len) (said_id as) (R v) \<or>
      roomy (sizeof_fib_entry # tab_need (said_prefix as) (unat len) (fib_table (fs_fib (fib_at v thread)))) (th_mpool thread)"
  shows "\<exists>thread' p. netlink_process thread (msg_bytes msg) (int (length (msg_bytes msg))) = Some thread' \<and>
    (if rib_has (said_prefix as) (unat len) (said_id as) (R v) then thread_ok thread' D R
     else p \<notin> rt_ptr ` set (R v) \<and>
       thread_ok thread' (D(v := (D v)(p := said_entry thread v len tab as)))
         (R(v := rib_add \<lparr>rt_pfx = said_prefix as, rt_len = unat len, rt_id = said_id as, rt_ptr = p\<rparr> (R v))))"
  using new_route_spec [OF assms] by blast

lemma del_route_spec:
  assumes ok: "thread_ok thread D R"
    and msg: "msg = Nl_Route False h family len tab as" "msg_wf msg" "int (unat family) = fam v" "unat len \<le> 128"
  shows "\<exists>thread'. netlink_process thread (msg_bytes msg) (int (length (msg_bytes msg))) = Some thread' \<and> tables_step thread thread' \<and>
    thread_ok thread' D (R(v := rib_del (said_prefix as) (unat len) (said_id as) (R v)))"
proof -
  let ?fs = "fib_at v thread" and ?s = "fold route_attr as route_msg_init"
  let ?W = "mset_set (mp_live (th_mpool thread) - fs_owned (fib_at v thread))"
  let ?rib = "rib_del (said_prefix as) (unat len) (said_id as) (R v)"
  have L: "\<not> 8 * length (rm_prefix ?s) < unat len" using said_prefix_length msg(1,2,4) by simp
  note fs = thread_okD(1) [OF ok, of v]
  have inv: "fib_inv (fs_fib ?fs) (fib_mem thread ?fs) (D v) (R v) ?W" using fs_okD(3) [OF fs] by (simp add: fib_mem_def)
  have absent: "?rib = R v" if "\<not> rib_has (said_prefix as) (unat len) (said_id as) (R v)"
    using that by (auto simp: rib_has_def rib_del_def filter_id_conv)
  obtain ret fib' m' where U: "fib_route_delete (fs_fib ?fs) (said_prefix as) (unat len) (said_id as) (fib_mem thread ?fs) =
        Some (ret, fib', m')" "fib_inv fib' m' (D v) ?rib ?W"
    using fib_route_delete_spec [OF inv, of "said_prefix as" "unat len" "said_id as"] absent inv
    by (fastforce split: if_splits)
  let ?t = "set_fib v \<lparr>fs_fib = fib', fs_objs = lm_objs m'\<rparr> (lm_pool m') thread"
  have run: "netlink_process thread (msg_bytes msg) (int (length (msg_bytes msg))) = Some ?t"
    using U(1) L unfolding one_message [OF msg(2)]
    unfolding msg(1) msg_apply.simps route_apply_fam [OF ok msg(3)] route_update_store_def Let_def
    by (simp add: said_prefix_def said_id_def nl_consts cong: if_cong)
  have "thread_ok ?t (D(v := D v)) (R(v := ?rib))"
    using rib_entries_ok [OF ok, of v]
    by (intro thread_ok_fib [OF ok pool_step_fib [OF fs U(2)]]) (simp add: rib_del_def)
  with run tables_step_fib [OF ok pool_step_fib(2) [OF fs U(2)]] fib_addr_kept(2) [OF U(1)] show ?thesis by simp
qed

text \<open>C19. A route that is gone. A message that deletes a route with a prefix of at most 128 bits is processed without a fault and without
  a need for memory; the routing table of its version then stands for the routes that differ from the announced one in
  length, interface or prefix, and all tables stay well-formed.
\<close>

theorem netlink_del_route:
  assumes ok: "thread_ok thread D R"
    and msg: "msg = Nl_Route False h family len tab as" "msg_wf msg" "int (unat family) = fam v" "unat len \<le> 128"
  shows "\<exists>thread'. netlink_process thread (msg_bytes msg) (int (length (msg_bytes msg))) = Some thread' \<and>
    thread_ok thread' D (R(v := rib_del (said_prefix as) (unat len) (said_id as) (R v)))"
  using del_route_spec [OF assms] by blast

text \<open>A longer prefix is not refused: the message of a route with more than 128 bits makes the program read past the array of the prefix.\<close>

lemma netlink_long_prefix:
  assumes ok: "thread_ok thread D R"
    and msg: "msg = Nl_Route new h family len tab as" "msg_wf msg" "int (unat family) = fam v" "128 < unat len"
  shows "netlink_process thread (msg_bytes msg) (int (length (msg_bytes msg))) = None"
proof -
  have "length (rm_prefix (fold route_attr as route_msg_init)) = 16" using said_prefix_length msg(1,2) by simp
  then show ?thesis using msg(4) unfolding one_message [OF msg(2)]
    unfolding msg(1) msg_apply.simps route_apply_fam [OF ok msg(3)] route_update_store_def Let_def by (cases new) auto
qed

subsection \<open>Neighbours\<close>

text \<open>What a neighbour message says.\<close>

definition said_addr :: "bool \<Rightarrow> nl_attr list \<Rightarrow> u8 list" where
  "said_addr v as = take (addr_size (fam v)) (nm_dst_addr (fold neigh_attr as neigh_msg_init))"

definition said_mac :: "nl_attr list \<Rightarrow> u8 list" where
  "said_mac as = nm_dst_mac (fold neigh_attr as neigh_msg_init)"

lemma said_neigh:
  assumes "\<forall>a \<in> set as. neigh_attr_wf a"
  shows "map (\<lambda>i. nm_dst_addr (fold neigh_attr as neigh_msg_init) ! i) [0 ..< addr_size (fam v)] = said_addr v as"
    "map (\<lambda>i. nm_dst_mac (fold neigh_attr as neigh_msg_init) ! i) [0 ..< ETH_ALEN] = said_mac as"
    "length (said_addr v as) = addr_size (fam v)" "length (said_mac as) = ETH_ALEN"
proof -
  have "neigh_msg_wf (fold neigh_attr as neigh_msg_init)"
    by (rule fold_keeps) (use assms neigh_attr_keeps in \<open>auto simp: neigh_msg_wf_def neigh_msg_init_def\<close>)
  then have l: "length (nm_dst_addr (fold neigh_attr as neigh_msg_init)) = 16"
      "length (nm_dst_mac (fold neigh_attr as neigh_msg_init)) = ETH_ALEN"
    by (simp_all add: neigh_msg_wf_def)
  have a: "addr_size (fam v) \<le> 16" by (simp add: addr_size_def)
  show "map (\<lambda>i. nm_dst_addr (fold neigh_attr as neigh_msg_init) ! i) [0 ..< addr_size (fam v)] = said_addr v as"
    using l a by (simp add: said_addr_def list_eq_iff_nth_eq)
  show "map (\<lambda>i. nm_dst_mac (fold neigh_attr as neigh_msg_init) ! i) [0 ..< ETH_ALEN] = said_mac as"
    using l by (simp add: said_mac_def list_eq_iff_nth_eq)
  show "length (said_addr v as) = addr_size (fam v)" "length (said_mac as) = ETH_ALEN"
    using l a by (simp_all add: said_addr_def said_mac_def)
qed

lemma neigh_apply_fam:
  assumes "int family = fam v"
  shows "neigh_apply thread t family port s =
    do { (neighs, mp) \<leftarrow> neigh_update_store thread (neighs_at v thread) (nat port) (fam v) t s;
         Some (set_neighs v neighs mp thread) }"
  unfolding neigh_apply_def assms by (simp add: fam_def neighs_at_def set_neighs_def AF_INET_def AF_INET6_def)

text \<open>The entries of a neighbour table after a new neighbour and after one less.\<close>

definition neigh_macs :: "neigh_store \<Rightarrow> u8 list \<Rightarrow> u8 list \<Rightarrow> bool" where
  "neigh_macs ns k mac \<longleftrightarrow> (\<exists>p e. ns_objs ns p = Some e \<and> ne_dst_addr e = k \<and> ne_dst_mac e = mac)"

lemma neigh_of_mem: "neigh_of (neigh_mem thread ns) k p \<longleftrightarrow> (\<exists>e. ns_objs ns p = Some e \<and> ne_dst_addr e = k)"
  by (simp add: neigh_of_def neigh_mem_def)

lemma ex_map_upd: "f p = None \<Longrightarrow> (\<exists>q e. (f(p \<mapsto> x)) q = Some e \<and> P e) \<longleftrightarrow> (\<exists>q e. f q = Some e \<and> P e) \<or> P x"
  by (metis fun_upd_apply option.distinct(1) option.inject)

lemma neigh_macs_add:
  assumes "ns_objs ns p = None"
    and "objs = (if \<exists>q e. ns_objs ns q = Some e \<and> ne_dst_addr e = a then ns_objs ns
      else (ns_objs ns)(p \<mapsto> \<lparr>ne_dst_mac = b, ne_dst_addr = a\<rparr>))"
  shows "neigh_macs \<lparr>ns_neigh = neigh', ns_objs = objs\<rparr> k mac \<longleftrightarrow>
    neigh_macs ns k mac \<or> k = a \<and> mac = b \<and> (\<nexists>old. neigh_macs ns k old)"
proof (cases "\<exists>q e. ns_objs ns q = Some e \<and> ne_dst_addr e = a")
  case True
  then show ?thesis unfolding assms(2) neigh_macs_def by auto
next
  case False
  then have "neigh_macs \<lparr>ns_neigh = neigh', ns_objs = objs\<rparr> k mac \<longleftrightarrow> neigh_macs ns k mac \<or> a = k \<and> b = mac"
    unfolding assms(2) if_not_P [OF False] neigh_macs_def neigh_store.simps ex_map_upd [where f = "ns_objs ns" and p = p, OF assms(1)] by simp
  then show ?thesis using False by (auto simp: neigh_macs_def)
qed

lemma new_neigh_spec:
  assumes ok: "thread_ok thread D R"
    and msg: "msg = Nl_Neigh True h family ifindex as" "msg_wf msg" "int (unat family) = fam v"
    and port: "port_of thread (sint ifindex) = int i"
    and room: "ufp_mem_alloc (th_mpool thread) sizeof_neigh_entry = Some (Some p, mp)"
  shows "\<exists>thread' ns'. netlink_process thread (msg_bytes msg) (int (length (msg_bytes msg))) = Some thread' \<and> tables_step thread thread' \<and>
    thread_ok thread' D R \<and> neighs_at v thread' = (neighs_at v thread)[i := ns'] \<and>
    neighs_at (\<not> v) thread' = neighs_at (\<not> v) thread \<and>
    (\<forall>k mac. neigh_macs ns' k mac \<longleftrightarrow>
       neigh_macs (neighs_at v thread ! i) k mac \<or>
       k = said_addr v as \<and> mac = said_mac as \<and> (\<nexists>old. neigh_macs (neighs_at v thread ! i) k old))"
proof -
  let ?ns = "neighs_at v thread ! i" and ?s = "fold neigh_attr as neigh_msg_init"
  let ?W = "mp_live (th_mpool thread) - ns_owned ?ns"
  have wf: "\<forall>a \<in> set as. neigh_attr_wf a" using msg(1,2) by simp
  note S = said_neigh [OF wf]
  have i: "i < length (neighs_at v thread)"
    by (rule port_in_tables [OF ok port])
  note ns = thread_okD(2) [OF ok i]
  have inv: "neigh_inv (ns_neigh ?ns) (fam v) (neigh_mem thread ?ns) ?W" using ns_okD(3) [OF ns] by (simp add: neigh_mem_def)
  have room': "ufp_mem_alloc (lm_pool (neigh_mem thread ?ns)) sizeof_neigh_entry = Some (Some p, mp)"
    using room by (simp add: neigh_mem_def)
  have fresh: "ns_objs ?ns p = None"
    using pool.alloc_fresh [OF ns_okD(1) [OF ns] neigh_size_ok(2) room] ns_okD(2) [OF ns]
    by (auto simp: ns_owned_def)
  obtain ret neigh' m' where U: "neigh_add (ns_neigh ?ns) (fam v) (\<lambda>i. nm_dst_addr ?s ! i) (\<lambda>i. nm_dst_mac ?s ! i)
        (neigh_mem thread ?ns) = Some (ret, neigh', m')" "neigh_inv neigh' (fam v) m' ?W"
      "lm_objs m' = (if \<exists>q. neigh_of (neigh_mem thread ?ns) (said_addr v as) q then ns_objs ?ns
        else (ns_objs ?ns)(p \<mapsto> \<lparr>ne_dst_mac = said_mac as, ne_dst_addr = said_addr v as\<rparr>))"
    using neigh_add_spec [OF inv room', of "\<lambda>i. nm_dst_addr ?s ! i" "\<lambda>i. nm_dst_mac ?s ! i"]
    unfolding S by (fastforce simp: neigh_mem_def split: if_splits)
  let ?ns' = "\<lparr>ns_neigh = neigh', ns_objs = lm_objs m'\<rparr>"
  let ?t = "set_neighs v ((neighs_at v thread)[i := ?ns']) (lm_pool m') thread"
  have run: "netlink_process thread (msg_bytes msg) (int (length (msg_bytes msg))) = Some ?t"
    using U(1) i unfolding one_message [OF msg(2)]
    unfolding msg(1) msg_apply.simps port_of(1) [OF ok] neigh_apply_fam [OF msg(3)] neigh_update_store_def Let_def port
    by simp
  have "\<forall>e \<in> ran (ns_objs ?ns). length (ne_dst_mac e) = ETH_ALEN"
    by (rule thread_ok_macs [OF ok i])
  then have macs: "\<forall>e \<in> ran (ns_objs ?ns'). length (ne_dst_mac e) = ETH_ALEN"
    using U(3) S(4) by (auto simp: ran_def split: if_splits)
  have t: "thread_ok ?t D R"
    by (rule thread_ok_neigh [OF ok i pool_step_neigh(1) [OF ns U(2)] macs pool_step_neigh(2) [OF ns U(2)]])
  have "neigh_macs ?ns' k mac \<longleftrightarrow> neigh_macs ?ns k mac \<or>
      k = said_addr v as \<and> mac = said_mac as \<and> (\<nexists>old. neigh_macs ?ns k old)" for k mac
    by (rule neigh_macs_add [OF fresh U(3) [unfolded neigh_of_mem]])
  moreover have "tables_step thread ?t"
    by (rule tables_step_neigh [OF ok i pool_step_neigh(2) [OF ns U(2)]]) (simp add: nt_addr_kept(1) [OF U(1)])
  ultimately show ?thesis using run t by (intro exI [of _ ?t] exI [of _ ?ns']) auto
qed

text \<open>C20. A new neighbour. A message about a neighbour on an interface of the program is processed
  without a fault when the pool has room for an entry; all tables stay well-formed. An address that
  the table of the port does not have gets the announced link-layer address, every other address of the
  table and all other tables keep what they have. An address that is known already keeps
  the link-layer address it had: the announced one is dropped.
\<close>

theorem netlink_new_neigh:
  assumes ok: "thread_ok thread D R"
    and msg: "msg = Nl_Neigh True h family ifindex as" "msg_wf msg" "int (unat family) = fam v"
    and port: "port_of thread (sint ifindex) = int i"
    and room: "ufp_mem_alloc (th_mpool thread) sizeof_neigh_entry = Some (Some p, mp)"
  shows "\<exists>thread' ns'. netlink_process thread (msg_bytes msg) (int (length (msg_bytes msg))) = Some thread' \<and>
    thread_ok thread' D R \<and> neighs_at v thread' = (neighs_at v thread)[i := ns'] \<and>
    neighs_at (\<not> v) thread' = neighs_at (\<not> v) thread \<and>
    (\<forall>k mac. neigh_macs ns' k mac \<longleftrightarrow>
       neigh_macs (neighs_at v thread ! i) k mac \<or>
       k = said_addr v as \<and> mac = said_mac as \<and> (\<nexists>old. neigh_macs (neighs_at v thread ! i) k old))"
  using new_neigh_spec [OF assms] by blast

lemma del_neigh_spec:
  assumes ok: "thread_ok thread D R"
    and msg: "msg = Nl_Neigh False h family ifindex as" "msg_wf msg" "int (unat family) = fam v"
    and port: "port_of thread (sint ifindex) = int i"
  shows "\<exists>thread' ns'. netlink_process thread (msg_bytes msg) (int (length (msg_bytes msg))) = Some thread' \<and> tables_step thread thread' \<and>
    thread_ok thread' D R \<and> neighs_at v thread' = (neighs_at v thread)[i := ns'] \<and>
    neighs_at (\<not> v) thread' = neighs_at (\<not> v) thread \<and>
    (\<forall>k mac. neigh_macs ns' k mac \<longleftrightarrow> neigh_macs (neighs_at v thread ! i) k mac \<and> k \<noteq> said_addr v as)"
proof -
  let ?ns = "neighs_at v thread ! i" and ?s = "fold neigh_attr as neigh_msg_init"
  let ?W = "mp_live (th_mpool thread) - ns_owned ?ns" and ?m = "neigh_mem thread (neighs_at v thread ! i)"
  have wf: "\<forall>a \<in> set as. neigh_attr_wf a" using msg(1,2) by simp
  note S = said_neigh [OF wf]
  have i: "i < length (neighs_at v thread)"
    by (rule port_in_tables [OF ok port])
  note ns = thread_okD(2) [OF ok i]
  have inv: "neigh_inv (ns_neigh ?ns) (fam v) ?m ?W" using ns_okD(3) [OF ns] by (simp add: neigh_mem_def)
  have uniq: "p = q" if "neigh_of ?m k p" "neigh_of ?m k q" for k p q
  proof -
    have "length k = addr_size (fam v)" using inv that(1) by (auto simp: neigh_inv_def neigh_of_def ran_def)
    from neigh_lookup_spec [OF inv this] that show ?thesis by (metis option.inject)
  qed
  obtain ret neigh' m' where U: "neigh_delete (ns_neigh ?ns) (said_addr v as) ?m = Some (ret, neigh', m')"
      "neigh_inv neigh' (fam v) m' ?W"
      "\<forall>p e. lm_objs m' p = Some e \<longleftrightarrow> ns_objs ?ns p = Some e \<and> ne_dst_addr e \<noteq> said_addr v as"
  proof (cases "\<exists>p. neigh_of ?m (said_addr v as) p")
    case True
    then obtain p neigh' m' where d: "neigh_of ?m (said_addr v as) p"
        "neigh_delete (ns_neigh ?ns) (said_addr v as) ?m = Some (0, neigh', m')"
        "lm_objs m' = (lm_objs ?m)(p := None)" "neigh_inv neigh' (fam v) m' ?W"
      using neigh_delete_spec [OF inv S(3)] by auto
    have "lm_objs m' q = Some e \<longleftrightarrow> ns_objs ?ns q = Some e \<and> ne_dst_addr e \<noteq> said_addr v as" for q e
    proof (cases "q = p")
      case True
      then show ?thesis using d(1,3) by (auto simp: neigh_of_mem)
    next
      case False
      then have "\<not> neigh_of ?m (said_addr v as) q" using uniq [OF d(1)] by blast
      then show ?thesis using False d(3) by (auto simp: neigh_of_def neigh_mem_def)
    qed
    with d(2,4) show ?thesis by (intro that [of 0 neigh' m']) simp_all
  next
    case False
    then have "neigh_delete (ns_neigh ?ns) (said_addr v as) ?m = Some (-1, ns_neigh ?ns, ?m)"
      using neigh_delete_spec [OF inv S(3)] by simp
    with inv False show ?thesis by (intro that [of "-1" "ns_neigh ?ns" ?m]) (auto simp: neigh_of_def neigh_mem_def)
  qed
  let ?ns' = "\<lparr>ns_neigh = neigh', ns_objs = lm_objs m'\<rparr>"
  let ?t = "set_neighs v ((neighs_at v thread)[i := ?ns']) (lm_pool m') thread"
  have run: "netlink_process thread (msg_bytes msg) (int (length (msg_bytes msg))) = Some ?t"
    using U(1) i unfolding one_message [OF msg(2)]
    unfolding msg(1) msg_apply.simps port_of(1) [OF ok] neigh_apply_fam [OF msg(3)] neigh_update_store_def Let_def port
    by (simp add: said_addr_def nl_consts)
  have "\<forall>e \<in> ran (ns_objs ?ns). length (ne_dst_mac e) = ETH_ALEN"
    by (rule thread_ok_macs [OF ok i])
  then have macs: "\<forall>e \<in> ran (ns_objs ?ns'). length (ne_dst_mac e) = ETH_ALEN"
    using U(3) by (auto simp: ran_def)
  have t: "thread_ok ?t D R"
    by (rule thread_ok_neigh [OF ok i pool_step_neigh(1) [OF ns U(2)] macs pool_step_neigh(2) [OF ns U(2)]])
  have "neigh_macs ?ns' k mac \<longleftrightarrow> neigh_macs ?ns k mac \<and> k \<noteq> said_addr v as" for k mac
    using U(3) by (auto simp: neigh_macs_def)
  moreover have "tables_step thread ?t"
    by (rule tables_step_neigh [OF ok i pool_step_neigh(2) [OF ns U(2)]]) (simp add: nt_addr_kept(2) [OF U(1)])
  ultimately show ?thesis using run t by (intro exI [of _ ?t] exI [of _ ?ns']) auto
qed

text \<open>A neighbour that is gone. A message that deletes a neighbour is processed without a fault and
  without a need for memory: the table of its port then has the other addresses with what they had, and nothing else changes.
\<close>

theorem netlink_del_neigh:
  assumes ok: "thread_ok thread D R"
    and msg: "msg = Nl_Neigh False h family ifindex as" "msg_wf msg" "int (unat family) = fam v"
    and port: "port_of thread (sint ifindex) = int i"
  shows "\<exists>thread' ns'. netlink_process thread (msg_bytes msg) (int (length (msg_bytes msg))) = Some thread' \<and>
    thread_ok thread' D R \<and> neighs_at v thread' = (neighs_at v thread)[i := ns'] \<and>
    neighs_at (\<not> v) thread' = neighs_at (\<not> v) thread \<and>
    (\<forall>k mac. neigh_macs ns' k mac \<longleftrightarrow> neigh_macs (neighs_at v thread ! i) k mac \<and> k \<noteq> said_addr v as)"
  using del_neigh_spec [OF assms] by blast

end
