(* ===== verification/Netlink_Safe.thy ===== *)
theory Netlink_Safe
  imports Netlink_Tables
begin

text \<open>
  Any message of the kernel on a thread whose tables are well-formed: it is processed without a fault and
  keeps the tables well-formed, and the pool gets back what the tables no longer use. The conditions are that the prefix of a route fits its array, since
  the length is not checked, and room in the pool for a new route, since the program does not survive running out of memory there.
\<close>

definition msg_room :: "ufpd_thread \<Rightarrow> nl_msg \<Rightarrow> bool" where
  "msg_room thread msg \<longleftrightarrow>
     (case msg of
        Nl_Route new h family len tab as \<Rightarrow> unat len \<le> 128 \<and> (\<forall>v. new \<longrightarrow> int (unat family) = fam v \<longrightarrow>
          roomy (sizeof_fib_entry # tab_need (said_prefix as) (unat len) (fib_table (fs_fib (fib_at v thread)))) (th_mpool thread))
      | _ \<Rightarrow> True)"

lemma neigh_add_null:
  assumes "neigh_inv neigh family m W" "ufp_mem_alloc (lm_pool m) sizeof_neigh_entry = Some (None, mp)"
  shows "neigh_add neigh family dst mac m = Some (-1, neigh, m\<lparr>lm_pool := mp\<rparr>)" "neigh_inv neigh family (m\<lparr>lm_pool := mp\<rparr>) W"
proof -
  show "neigh_add neigh family dst mac m = Some (-1, neigh, m\<lparr>lm_pool := mp\<rparr>)" using assms(2) by (simp add: neigh_add_def)
  show "neigh_inv neigh family (m\<lparr>lm_pool := mp\<rparr>) W"
    using pool.alloc_fail [OF neigh_pool(1) [OF assms(1)] neigh_size_ok(2) assms(2)] by (intro neigh_inv_pool [OF assms(1)]) simp_all
qed

lemma neigh_full_safe:
  assumes ok: "thread_ok thread D R" and i: "i < length (neighs_at v thread)"
    and full: "ufp_mem_alloc (th_mpool thread) sizeof_neigh_entry = Some (None, mp)" and fam: "int family = fam v"
  shows "\<exists>thread'. neigh_apply thread RTM_NEWNEIGH family (int i) s = Some thread' \<and>
    thread_ok thread' D R \<and> tables_step thread thread'"
proof -
  let ?ns = "neighs_at v thread ! i"
  let ?W = "mp_live (th_mpool thread) - ns_owned ?ns" and ?m = "neigh_mem thread ?ns"
  note ns = thread_okD(2) [OF ok i]
  have inv: "neigh_inv (ns_neigh ?ns) (fam v) ?m ?W" using ns_okD(3) [OF ns] by (simp add: neigh_mem_def)
  have "ufp_mem_alloc (lm_pool ?m) sizeof_neigh_entry = Some (None, mp)" using full by (simp add: neigh_mem_def)
  note N = neigh_add_null [OF inv this]
  note st = pool_step_neigh [OF ns N(2)]
  let ?ns' = "\<lparr>ns_neigh = ns_neigh ?ns, ns_objs = lm_objs (?m\<lparr>lm_pool := mp\<rparr>)\<rparr>"
  let ?t = "set_neighs v ((neighs_at v thread)[i := ?ns']) (lm_pool (?m\<lparr>lm_pool := mp\<rparr>)) thread"
  have "neigh_apply thread RTM_NEWNEIGH family (int i) s = Some ?t"
    using N(1) i unfolding neigh_apply_fam [OF fam] neigh_update_store_def Let_def by simp
  moreover have "thread_ok ?t D R"
    using thread_ok_macs [OF ok i] by (intro thread_ok_neigh [OF ok i st(1) _ st(2)]) (simp add: neigh_mem_def)
  moreover have "tables_step thread ?t" by (rule tables_step_neigh [OF ok i st(2)]) simp
  ultimately show ?thesis by blast
qed

lemma neigh_msg_safe:
  assumes ok: "thread_ok thread D R" and wf: "msg_wf (Nl_Neigh new h family ifindex as)"
  shows "\<exists>thread'. msg_apply (Nl_Neigh new h family ifindex as) thread = Some thread' \<and>
    thread_ok thread' D R \<and> tables_step thread thread'"
proof (cases "port_of thread (sint ifindex) < 0 \<or> (\<forall>v. int (unat family) \<noteq> fam v)")
  case True
  have "int (unat family) \<noteq> AF_INET \<and> int (unat family) \<noteq> AF_INET6" if "\<forall>v. int (unat family) \<noteq> fam v"
    using that [rule_format, of True] that [rule_format, of False] by (simp add: fam_def)
  then have "msg_apply (Nl_Neigh new h family ifindex as) thread = Some thread"
    using True by (auto simp: port_of(1) [OF ok] neigh_apply_def)
  then show ?thesis using ok by simp
next
  case False
  then obtain v where v: "int (unat family) = fam v" by blast
  obtain i where port: "port_of thread (sint ifindex) = int i" using False by (metis nonneg_int_cases not_less)
  note i = port_in_tables [OF ok port]
  let ?msg = "Nl_Neigh new h family ifindex as"
  obtain r mp where a: "ufp_mem_alloc (th_mpool thread) sizeof_neigh_entry = Some (r, mp)"
    using pool.alloc_total [OF _ neigh_size_ok(2)] ns_okD(1) [OF thread_okD(2) [OF ok i]] by blast
  show ?thesis
  proof (cases "new \<and> r = None")
    case True
    then obtain thread' where "neigh_apply thread RTM_NEWNEIGH (unat family) (int i) (fold neigh_attr as neigh_msg_init) = Some thread'"
        "thread_ok thread' D R" "tables_step thread thread'"
      using neigh_full_safe [OF ok i _ v] a by blast
    then show ?thesis using True by (intro exI [of _ thread']) (simp add: port_of(1) [OF ok] port)
  next
    case False
    have "\<exists>thread'. netlink_process thread (msg_bytes ?msg) (int (length (msg_bytes ?msg))) = Some thread' \<and>
        thread_ok thread' D R \<and> tables_step thread thread'"
    proof (cases new)
      case True
      then obtain p where "ufp_mem_alloc (th_mpool thread) sizeof_neigh_entry = Some (Some p, mp)" using a False by auto
      from new_neigh_spec [OF ok _ wf v port this] True show ?thesis by blast
    next
      case False
      with del_neigh_spec [OF ok _ wf v port] show ?thesis by blast
    qed
    then show ?thesis unfolding one_message [OF wf] .
  qed
qed

lemma route_msg_safe:
  assumes ok: "thread_ok thread D R" and wf: "msg_wf (Nl_Route new h family len tab as)"
    and room: "msg_room thread (Nl_Route new h family len tab as)"
  shows "\<exists>thread' D' R'. msg_apply (Nl_Route new h family len tab as) thread = Some thread' \<and>
    thread_ok thread' D' R' \<and> tables_step thread thread'"
proof (cases "\<exists>v. int (unat family) = fam v")
  case False
  then have "int (unat family) \<noteq> AF_INET \<and> int (unat family) \<noteq> AF_INET6"
    by (metis fam_def)
  then have "msg_apply (Nl_Route new h family len tab as) thread = Some thread"
    by (simp add: route_apply_def Let_def port_of(1) [OF ok])
  then show ?thesis using ok by auto
next
  case True
  then obtain v where v: "int (unat family) = fam v" by blast
  have len: "unat len \<le> 128" using room by (simp add: msg_room_def)
  show ?thesis
  proof (cases new)
    case True
    have "roomy (sizeof_fib_entry # tab_need (said_prefix as) (unat len) (fib_table (fs_fib (fib_at v thread)))) (th_mpool thread)"
      using room True v by (simp add: msg_room_def)
    from new_route_spec [OF ok _ wf v len disjI2 [OF this]] True show ?thesis
      unfolding one_message [OF wf] by (fastforce split: if_splits)
  next
    case False
    from del_route_spec [OF ok _ wf v len] False show ?thesis unfolding one_message [OF wf] by blast
  qed
qed

lemma msg_safe:
  assumes "thread_ok thread D R" "msg_wf msg" "msg_room thread msg"
  shows "\<exists>thread' D' R'. msg_apply msg thread = Some thread' \<and> thread_ok thread' D' R' \<and> tables_step thread thread'"
proof (cases msg)
  case (Nl_Route new h family len tab as)
  then show ?thesis using route_msg_safe assms by blast
next
  case (Nl_Neigh new h family ifindex as)
  then show ?thesis using neigh_msg_safe assms by blast
next
  case (Nl_Other t h body)
  then show ?thesis using assms by auto
qed

text \<open>Room for each message of a sequence when its turn comes.\<close>

fun msgs_room :: "ufpd_thread \<Rightarrow> nl_msg list \<Rightarrow> bool" where
  "msgs_room thread [] = True"
| "msgs_room thread (msg # msgs) \<longleftrightarrow> msg_room thread msg \<and>
     (case msg_apply msg thread of None \<Rightarrow> True | Some thread' \<Rightarrow> msgs_room thread' msgs)"

lemma msgs_safe:
  assumes "thread_ok thread D R" "\<forall>msg \<in> set msgs. msg_wf msg" "msgs_room thread msgs"
  shows "\<exists>thread' D' R'. netlink_process thread (concat (map msg_bytes msgs)) (int (length (concat (map msg_bytes msgs)))) = Some thread' \<and>
    thread_ok thread' D' R' \<and> tables_step thread thread'"
proof -
  have "\<exists>thread' D' R'. msgs_run msgs thread = Some thread' \<and> thread_ok thread' D' R' \<and> tables_step thread thread'"
    using assms
  proof (induction msgs arbitrary: thread D R)
    case (Cons msg msgs)
    obtain t1 D1 R1 where t1: "msg_apply msg thread = Some t1" "thread_ok t1 D1 R1" "tables_step thread t1"
      using msg_safe [OF Cons.prems(1)] Cons.prems(2,3) by (metis list.set_intros(1) msgs_room.simps(2))
    with Cons.IH [OF t1(2)] Cons.prems(2,3) show ?case by (auto intro: tables_step_trans)
  qed auto
  then show ?thesis unfolding netlink_process_def netlink_loop_msgs [OF at_off_whole assms(2)] .
qed

end
