(* ===== verification/Thread_Ex.thy ===== *)
theory Thread_Ex
  imports Netlink_Tables Forward_Slots
begin

text \<open>
  A thread with one port and a neighbour, and the same thread after a route was announced to it: the
  states at which the properties of forwarding and of the kernel's messages are applied.
\<close>

subsection \<open>A port and its buffer\<close>

definition ring4 :: "i40e_desc ufp_ring" where
  "ring4 = \<lparr>ring_addr_virt = 4096, ring_addr_dma = 4096, tail = 64, next_to_use = 0, next_to_clean = 0,
     slot_index = [0, 0, 0, 0], ring_mem = replicate 4 \<lparr>qword0 = 0, qword1 = 0\<rparr>\<rparr>"

definition irq_ex :: ufp_irq where
  "irq_ex = \<lparr>irq_fd = 9, irq_entry_idx = 1, irq_vector = 40\<rparr>"

definition port_ex :: "i40e_desc ufp_port" where
  "port_ex = \<lparr>port_bar = 0, port_ops = i40e_ops, port_dev_idx = 0, rx_ring = ring4, tx_ring = ring4,
     rx_irq = irq_ex, tx_irq = irq_ex, port_mtu_frame = 1518, num_tx_desc = 4, num_rx_desc = 4, port_num_qps = 1,
     rx_budget = 4, tx_budget = 4, port_mac_addr = [2, 0, 0, 0, 0, 1], port_tap_fd = 5, port_tap_index = 1,
     rx_slot_next = 0, rx_slot_offset = 0, tx_suspended = 0, count_rx_alloc_failed = 0,
     count_rx_clean_total = 0, count_tx_xmit_failed = 0, count_tx_clean_total = 0\<rparr>"

definition plane_ex :: "i40e_desc ufp_plane" where
  "plane_ex = \<lparr>ports = [port_ex], num_ports = 1\<rparr>"

definition buf_ex :: "int list \<Rightarrow> ufp_buf" where
  "buf_ex xs = \<lparr>buf_addr_virt = 8192, buf_addr_dma = 8192, buf_slot_size = 2048, buf_size = 8192,
     buf_count = 4, slots = xs\<rparr>"

lemma ring4_ok: "ring_ok 4 ring4" "ring_queue 4 ring4 = []"
  by (simp_all add: ring_ok_def ring4_def ring_queue_def ring_occ_def)

lemma plane_ex_inv:
  "io_inv i40e_ops plane_ex (buf_ex [1, 0, 0, 0]) {#0#}" "io_inv i40e_ops plane_ex (buf_ex [0, 0, 0, 0]) {#}"
proof -
  have ok: "plane_ok i40e_ops plane_ex (buf_ex [x, 0, 0, 0])" for x
    using ring4_ok(1) by (simp add: plane_ok_def port_ok_def slot_ok_def plane_ex_def port_ex_def buf_ex_def)
  have h: "plane_held plane_ex = {#}"
    using ring4_ok(2) by (simp add: plane_held_def port_held_def plane_ex_def port_ex_def)
  have c: "nat si < 4 \<Longrightarrow> 0 \<le> si \<Longrightarrow> si = 0 \<or> si = 1 \<or> si = 2 \<or> si = 3" for si by linarith
  have "inflight (buf_ex [1, 0, 0, 0]) = {0}" "inflight (buf_ex [0, 0, 0, 0]) = {}"
    by (auto simp: inflight_def buf_ex_def UFP_SLOT_INFLIGHT_def dest!: c [rotated])
  then show "io_inv i40e_ops plane_ex (buf_ex [1, 0, 0, 0]) {#0#}" "io_inv i40e_ops plane_ex (buf_ex [0, 0, 0, 0]) {#}"
    using ok h by (simp_all add: io_inv_def)
qed

text \<open>The properties of rings and slots at this port.\<close>

theorem ring_fifo_witness:
  "ring_ok 4 ring4 \<and> (\<exists>r' ins outs. rq.run 4 [Push 7, Push 8, Pop] ring4 = Some (r', ins, outs) \<and> ins = outs @ ring_queue 4 r')"
  using ring_fifo [OF ring4_ok(1), of "[Push 7, Push 8, Pop]"] ring4_ok by auto

lemma plane_ex_port: "0 < length (ports plane_ex)" "port_ex = ports plane_ex ! 0"
  by (simp_all add: plane_ex_def)

lemma buf_ex_inflight: "inflight (buf_ex [1, 0, 0, 0]) = {0}" "inflight (buf_ex [0, 0, 0, 0]) = {}"
proof -
  have c: "nat si < 4 \<Longrightarrow> 0 \<le> si \<Longrightarrow> si = 0 \<or> si = 1 \<or> si = 2 \<or> si = 3" for si by linarith
  show "inflight (buf_ex [1, 0, 0, 0]) = {0}" "inflight (buf_ex [0, 0, 0, 0]) = {}"
    by (auto simp: inflight_def buf_ex_def UFP_SLOT_INFLIGHT_def dest!: c [rotated])
qed

theorem rx_assign_correct_witness:
  "io_inv i40e_ops plane_ex (buf_ex [0, 0, 0, 0]) {#} \<and>
   (\<exists>p' xs new w. ufp_rx_assign plane_ex 0 (buf_ex [0, 0, 0, 0]) = Some (plane_set_port plane_ex 0 p', (buf_ex [0, 0, 0, 0])\<lparr>slots := xs\<rparr>, w) \<and>
      ring_queue 4 (rx_ring p') = new \<and> (length new = 3 \<or> segment 0 (buf_ex [0, 0, 0, 0]) \<subseteq> set new))"
proof -
  have u: "unat (ufp_desc_unused (rx_ring port_ex) (ucast (num_rx_desc port_ex))) = 3"
    by (simp add: port_ex_def ring4_def ufp_desc_unused_def Let_def)
  have q: "num_rx_desc port_ex = 4" "ring_queue 4 (rx_ring port_ex) = []" "rx_slot_offset port_ex = 0"
    using ring4_ok(2) by (simp_all add: port_ex_def)
  obtain p' xs new w where r: "ufp_rx_assign plane_ex 0 (buf_ex [0, 0, 0, 0]) = Some (plane_set_port plane_ex 0 p', (buf_ex [0, 0, 0, 0])\<lparr>slots := xs\<rparr>, w)"
      "ring_queue 4 (rx_ring p') = [] @ new" "inflight ((buf_ex [0, 0, 0, 0])\<lparr>slots := xs\<rparr>) = {} \<union> set new"
      "length new = 3 \<or> segment 0 (buf_ex [0, 0, 0, 0]) \<subseteq> inflight ((buf_ex [0, 0, 0, 0])\<lparr>slots := xs\<rparr>)"
    using rx_assign_correct [OF plane_ex_inv(2) plane_ex_port] unfolding u unfolding q buf_ex_inflight
    by (elim exE conjE) (rule that, assumption+)
  have "ring_queue 4 (rx_ring p') = new" "length new = 3 \<or> segment 0 (buf_ex [0, 0, 0, 0]) \<subseteq> set new"
    using r(2,4) unfolding r(3) by simp_all
  with r(1) plane_ex_inv(2) show ?thesis by blast
qed

theorem slots_conserved_witness:
  "io_inv i40e_ops plane_ex (buf_ex [1, 0, 0, 0]) {#0#} \<and>
   flow_step\<^sup>*\<^sup>* (plane_ex, buf_ex [1, 0, 0, 0], {#0#}) (plane_ex, buf_ex [0, 0, 0, 0], {#}) \<and>
   (\<forall>si. count (plane_held plane_ex + {#}) si = (if si \<in> inflight (buf_ex [0, 0, 0, 0]) then 1 else 0))"
proof -
  have "flow_step (plane_ex, buf_ex [1, 0, 0, 0], {#0#}) (plane_ex, buf_ex [0, 0, 0, 0], {#0#} - {#0#})"
    by (rule flow_step.release) (simp_all add: ufp_slot_release_def buf_ex_def)
  then have s: "flow_step\<^sup>*\<^sup>* (plane_ex, buf_ex [1, 0, 0, 0], {#0#}) (plane_ex, buf_ex [0, 0, 0, 0], {#})" by simp
  from slots_conserved [OF plane_ex_inv(1) s] plane_ex_inv(1) s show ?thesis by simp
qed

definition packet_none :: ufp_packet where
  "packet_none = \<lparr>pkt_slot_buf = 0, pkt_slot_size = 0, pkt_slot_index = 0, pkt_flag = 0\<rparr>"

theorem rx_clean_correct_witness:
  "io_inv i40e_ops plane_ex (buf_ex [1, 0, 0, 0]) {#0#} \<and>
   (\<exists>p' pk' t. ufp_rx_clean plane_ex 0 (buf_ex [1, 0, 0, 0]) (replicate 4 packet_none) = Some (plane_set_port plane_ex 0 p', pk', t) \<and>
      take t pk' = [] \<and> io_inv i40e_ops (plane_set_port plane_ex 0 p') (buf_ex [1, 0, 0, 0]) {#0#})"
proof -
  have b: "unat (rx_budget port_ex) \<le> length (replicate 4 packet_none)" by (simp add: port_ex_def)
  have q: "ring_queue (num_rx_desc port_ex) (rx_ring port_ex) = []" using ring4_ok(2) by (simp add: port_ex_def)
  obtain p' pk' t where r: "ufp_rx_clean plane_ex 0 (buf_ex [1, 0, 0, 0]) (replicate 4 packet_none) = Some (plane_set_port plane_ex 0 p', pk', t)"
      "io_inv i40e_ops (plane_set_port plane_ex 0 p') (buf_ex [1, 0, 0, 0]) ({#0#} + mset (map pkt_slot_index (take t pk')))"
      "[] = map pkt_slot_index (take t pk') @ ring_queue (num_rx_desc port_ex) (rx_ring p')"
    using rx_clean_correct [OF plane_ex_inv(1) plane_ex_port b] unfolding q by blast
  have e: "take t pk' = []" using r(3) by simp
  have "io_inv i40e_ops (plane_set_port plane_ex 0 p') (buf_ex [1, 0, 0, 0]) {#0#}" using r(2) unfolding e by simp
  with r(1) e plane_ex_inv(1) show ?thesis by blast
qed

theorem tx_assign_correct_witness:
  "io_inv i40e_ops plane_ex (buf_ex [1, 0, 0, 0]) {#0#} \<and>
   (\<exists>p' xs. ufp_tx_assign plane_ex 0 (buf_ex [1, 0, 0, 0]) packet_none = Some (plane_set_port plane_ex 0 p', (buf_ex [1, 0, 0, 0])\<lparr>slots := xs\<rparr>) \<and>
      io_inv i40e_ops (plane_set_port plane_ex 0 p') ((buf_ex [1, 0, 0, 0])\<lparr>slots := xs\<rparr>) {#} \<and>
      ring_queue 4 (tx_ring p') = [0] \<and> xs = [1, 0, 0, 0])"
proof -
  have u: "ufp_desc_unused (tx_ring port_ex) (ucast (num_tx_desc port_ex)) \<noteq> 0"
    by (simp add: port_ex_def ring4_def ufp_desc_unused_def Let_def)
  have q: "num_tx_desc port_ex = 4" "ring_queue 4 (tx_ring port_ex) = []" "slots (buf_ex [1, 0, 0, 0]) = [1, 0, 0, 0]"
    using ring4_ok(2) by (simp_all add: port_ex_def buf_ex_def)
  have k: "pkt_slot_index packet_none \<in># {#0#}" "pkt_slot_index packet_none = 0" by (simp_all add: packet_none_def)
  obtain p' xs where r: "ufp_tx_assign plane_ex 0 (buf_ex [1, 0, 0, 0]) packet_none = Some (plane_set_port plane_ex 0 p', (buf_ex [1, 0, 0, 0])\<lparr>slots := xs\<rparr>)"
      "io_inv i40e_ops (plane_set_port plane_ex 0 p') ((buf_ex [1, 0, 0, 0])\<lparr>slots := xs\<rparr>) ({#0#} - {#0#})"
      "ring_queue 4 (tx_ring p') = [] @ [0]" "xs = [1, 0, 0, 0]"
    using tx_assign_correct [OF plane_ex_inv(1) plane_ex_port k(1)] unfolding if_not_P [OF u] unfolding q k(2) by blast
  have "ring_queue 4 (tx_ring p') = [0]" "({#0#} - {#0#} :: int multiset) = {#}" using r(3) by simp_all
  with r(1,2,4) plane_ex_inv(1) show ?thesis by metis
qed

theorem tx_clean_correct_witness:
  "io_inv i40e_ops plane_ex (buf_ex [1, 0, 0, 0]) {#0#} \<and>
   (\<exists>p' xs. ufp_tx_clean plane_ex 0 (buf_ex [1, 0, 0, 0]) = Some (plane_set_port plane_ex 0 p', (buf_ex [1, 0, 0, 0])\<lparr>slots := xs\<rparr>) \<and>
      io_inv i40e_ops (plane_set_port plane_ex 0 p') ((buf_ex [1, 0, 0, 0])\<lparr>slots := xs\<rparr>) {#0#} \<and> ring_queue 4 (tx_ring p') = [])"
proof -
  have q: "num_tx_desc port_ex = 4" "ring_queue 4 (tx_ring port_ex) = []" using ring4_ok(2) by (simp_all add: port_ex_def)
  obtain p' xs t where r: "ufp_tx_clean plane_ex 0 (buf_ex [1, 0, 0, 0]) = Some (plane_set_port plane_ex 0 p', (buf_ex [1, 0, 0, 0])\<lparr>slots := xs\<rparr>)"
      "io_inv i40e_ops (plane_set_port plane_ex 0 p') ((buf_ex [1, 0, 0, 0])\<lparr>slots := xs\<rparr>) {#0#}"
      "[] = take t [] @ ring_queue 4 (tx_ring p')"
    using tx_clean_correct [OF plane_ex_inv(1) plane_ex_port] unfolding q by blast
  have "ring_queue 4 (tx_ring p') = []" using r(3) by simp
  with r(1,2) plane_ex_inv(1) show ?thesis by blast
qed

subsection \<open>A thread with a neighbour\<close>

definition frame_ex :: "u8 list" where
  "frame_ex = [2, 0, 0, 0, 0, 1, 2, 0, 0, 0, 0, 9, 8, 0,
     0x45, 0, 0, 46, 0, 0, 0, 0, 64, 17, 0, 0, 10, 0, 9, 9, 10, 0, 5, 6] @ replicate 26 0"

definition neigh_entry_ex :: neigh_entry where
  "neigh_entry_ex = \<lparr>ne_dst_mac = replicate 6 1, ne_dst_addr = [10, 0, 0, 1]\<rparr>"

definition neigh6_ex :: neigh_table where
  "neigh6_ex = \<lparr>nt_addr = 0, nt_ops = neigh_ops_v6, nt_table = hash_init\<rparr>"

definition thread_ex :: "neigh_store \<Rightarrow> ufp_mpool \<Rightarrow> ufpd_thread" where
  "thread_ex ns mp = \<lparr>th_plane = plane_ex, th_mpool = mp, th_buf = buf_ex [1, 0, 0, 0],
     th_neigh_inet = [ns], th_neigh_inet6 = [\<lparr>ns_neigh = neigh6_ex, ns_objs = Map.empty\<rparr>],
     th_fib_inet = \<lparr>fs_fib = fib_ex, fs_objs = Map.empty\<rparr>, th_fib_inet6 = \<lparr>fs_fib = fib_ex, fs_objs = Map.empty\<rparr>,
     th_id = 0, th_num_ports = 1, th_read_size = 4096, th_mem = (\<lambda>a. frame_ex), th_tun = [], th_mmio = []\<rparr>"

lemma fs_empty_ok: "mp_wf mp \<Longrightarrow> fs_ok mp \<lparr>fs_fib = fib_ex, fs_objs = Map.empty\<rparr> D []"
proof -
  assume wf: "mp_wf mp"
  have "fs_ok pool_ex \<lparr>fs_fib = fib_ex, fs_objs = Map.empty\<rparr> D []"
    using fib_ex_inv by (auto simp: fs_ok_def fib_mem_ex_def)
  then show ?thesis by (rule fs_ok_frame [OF _ wf]) (simp add: fs_owned_def fib_ex_def)
qed

lemma tab_need_16: "tab_need pfx 16 tab = [sizeof_lpm_entry]"
  by (simp add: tab_need_def)

lemma pool_ex_room:
  "\<exists>mp. ufp_mem_alloc pool_ex sizeof_neigh_entry = Some (Some 4104, mp) \<and> roomy [sizeof_fib_entry, sizeof_lpm_entry] mp \<and>
     (\<exists>q mp'. ufp_mem_alloc mp sizeof_neigh_entry = Some (Some q, mp'))"
  by (simp add: sizeof_neigh_entry_def sizeof_fib_entry_def sizeof_lpm_entry_def ufp_mem_alloc_def mem_alloc_at_def
      pool_ex_def size_header_def size_t_mod_def ufp_mem_alloc_node.simps mem_split_def ufp_mnode_alloc_def Let_def)

lemma neigh_store_ex:
  "\<exists>ns mp. ns_ok mp AF_INET ns \<and> ns_objs ns = [4104 \<mapsto> neigh_entry_ex] \<and> mp_live mp = {4104} \<and>
     roomy [sizeof_fib_entry, sizeof_lpm_entry] mp \<and>
     (\<exists>q mp'. ufp_mem_alloc mp sizeof_neigh_entry = Some (Some q, mp'))"
proof -
  obtain mp where a: "ufp_mem_alloc pool_ex sizeof_neigh_entry = Some (Some 4104, mp)"
      "roomy [sizeof_fib_entry, sizeof_lpm_entry] mp" "\<exists>q mp'. ufp_mem_alloc mp sizeof_neigh_entry = Some (Some q, mp')"
    using pool_ex_room by blast
  let ?m = "neigh_mem_ex\<lparr>lm_pool := mp, lm_objs := (lm_objs neigh_mem_ex)(4104 \<mapsto> neigh_entry_ex)\<rparr>"
  have mp: "mp_wf mp" "mp_live mp = insert 4104 (mp_live (lm_pool neigh_mem_ex))"
    using pool.alloc_fresh [OF pool_ex_wf(1) neigh_size_ok(2) a(1)] by (simp_all add: neigh_mem_ex_def)
  have ok: "neigh4.hok (nt_table neigh_ex) neigh_mem_ex {}"
    using neigh_ex_inv by (simp add: neigh_inv_def neigh4.hok_def addr_size_def)
  have e: "4104 \<notin> dom (lm_objs neigh_mem_ex)" "4104 \<notin> ({} :: addr set)" "length (ne_dst_addr neigh_entry_ex) = 4"
    by (simp_all add: neigh_mem_ex_def neigh_entry_ex_def)
  have "\<nexists>q. neigh_of neigh_mem_ex (ne_dst_addr neigh_entry_ex) q" by (simp add: neigh_of_def neigh_mem_ex_def)
  then obtain tab where "neigh4.hok tab ?m {}"
    using neigh4.add_spec [OF ok e refl mp] unfolding hash_map_neigh by blast
  then have "neigh_inv (neigh_ex\<lparr>nt_table := tab\<rparr>) AF_INET ?m {}"
    by (intro neigh_invI) (simp_all add: neigh_ex_def)
  then have "ns_ok mp AF_INET \<lparr>ns_neigh = neigh_ex\<lparr>nt_table := tab\<rparr>, ns_objs = [4104 \<mapsto> neigh_entry_ex]\<rparr>"
    by (auto simp: ns_ok_def neigh_mem_ex_def)
  with a mp pool_ex_wf show ?thesis
    by (intro exI [of _ "\<lparr>ns_neigh = neigh_ex\<lparr>nt_table := tab\<rparr>, ns_objs = [4104 \<mapsto> neigh_entry_ex]\<rparr>"] exI [of _ mp])
      (simp add: neigh_mem_ex_def)
qed

lemma ns6_empty_ok: "mp_wf mp \<Longrightarrow> ns_ok mp AF_INET6 \<lparr>ns_neigh = neigh6_ex, ns_objs = Map.empty\<rparr>"
proof -
  assume wf: "mp_wf mp"
  let ?m = "\<lparr>lm_pool = mp, lm_objs = Map.empty\<rparr> :: neigh_entry lpm_mem"
  have "hash_ok ne_dst_addr bucket off hash_init ?m (mp_live mp)" for bucket off
    by (rule hash_init_ok) (simp_all add: wf)
  moreover have "nt_table neigh6_ex = hash_init" "neigh_family neigh6_ex AF_INET6"
    by (simp_all add: neigh6_ex_def neigh_family_def)
  ultimately have "neigh_inv neigh6_ex AF_INET6 ?m (mp_live mp)"
    unfolding neigh_inv_def by (simp only: lpm_mem.simps ran_empty ball_empty simp_thms)
  then show ?thesis unfolding ns_ok_def neigh_store.simps by blast
qed

lemma thread_ex_ok:
  assumes "ns_ok mp AF_INET ns" "ns_objs ns = [4104 \<mapsto> neigh_entry_ex]"
  shows "thread_ok (thread_ex ns mp) D (\<lambda>v. [])"
proof -
  let ?t = "thread_ex ns mp"
  have wf: "mp_wf mp" by (rule ns_okD(1) [OF assms(1)])
  have "tables_ok ?t (fam v) (fib_at v ?t) (neighs_at v ?t) (D v) []" for v
    using fs_empty_ok [OF wf] ns6_empty_ok [OF wf] assms
    by (simp add: tables_ok_alt thread_ex_def fam_def fib_at_def neighs_at_def plane_ex_def port_ex_def neigh_entry_ex_def ETH_ALEN_def)
  moreover have "length (neighs_at v ?t) = unat (th_num_ports ?t)" for v by (simp add: thread_ex_def neighs_at_def)
  moreover have e: "owned ?t u = {}" if "u \<noteq> Neigh_Table False 0" for u
    using that by (cases u) (auto simp: thread_ex_def neighs_at_def fib_at_def fs_owned_def ns_owned_def fib_ex_def split: if_splits)
  have "owned ?t t \<inter> owned ?t u = {}" if "t \<noteq> u" for t u
    using e [of t] e [of u] that by (cases "t = Neigh_Table False 0") (simp_all del: owned.simps)
  ultimately show ?thesis by (simp add: thread_ok_def)
qed

subsection \<open>The thread after a route was announced\<close>

definition attrs_ex :: "nl_attr list" where
  "attrs_ex = [\<lparr>at_type = RTA_DST, at_data = [10, 0, 0, 0]\<rparr>, \<lparr>at_type = RTA_GATEWAY, at_data = [10, 0, 0, 1]\<rparr>,
     \<lparr>at_type = RTA_OIF, at_data = [1, 0, 0, 0]\<rparr>]"

lemma attrs_ex_said:
  "fold route_attr attrs_ex route_msg_init = \<lparr>rm_prefix = [10, 0, 0, 0] @ replicate 12 0,
     rm_nexthop = [10, 0, 0, 1] @ replicate 12 0, rm_ifindex = 1, rm_type = FIB_TYPE_FORWARD\<rparr>"
  by (simp add: attrs_ex_def route_attr_def route_msg_init_def nl_consts over_def)

lemma thread_ex_port: "port_of (thread_ex ns mp) 1 = 0"
  by (simp add: port_of_def thread_ex_def plane_ex_def port_ex_def ufp_tun_index_def plane_port_def)

definition route_ex :: "addr \<Rightarrow> route" where
  "route_ex p = \<lparr>rt_pfx = said_prefix attrs_ex, rt_len = 16, rt_id = 1, rt_ptr = p\<rparr>"

definition routed :: "ufpd_thread \<Rightarrow> (bool \<Rightarrow> addr \<Rightarrow> fib_entry) \<Rightarrow> (bool \<Rightarrow> route list) \<Rightarrow> addr \<Rightarrow> bool" where
  "routed thread D R p \<longleftrightarrow> thread_ok thread D R \<and> R False = [route_ex p] \<and>
     fe_type (D False p) = FIB_TYPE_FORWARD \<and> fe_port_index (D False p) = 0 \<and> fe_nexthop (D False p) = [10, 0, 0, 1] \<and>
     th_plane thread = plane_ex \<and> th_buf thread = buf_ex [1, 0, 0, 0] \<and> th_mem thread = (\<lambda>a. frame_ex) \<and>
     (\<exists>ns. th_neigh_inet thread = [ns] \<and> ns_objs ns = [4104 \<mapsto> neigh_entry_ex])"

lemma routed_ex: "\<exists>thread D R p. routed thread D R p"
proof -
  obtain ns mp where ns: "ns_ok mp AF_INET ns" "ns_objs ns = [4104 \<mapsto> neigh_entry_ex]"
      "roomy [sizeof_fib_entry, sizeof_lpm_entry] mp"
    using neigh_store_ex by blast
  let ?t = "thread_ex ns mp" and ?D = "\<lambda>v a. undefined"
  note ok = thread_ex_ok [OF ns(1,2), of ?D]
  have msg: "route_msg_ex True = Nl_Route True (\<lambda>i. 7) 2 16 254 attrs_ex" by (simp add: route_msg_ex_def attrs_ex_def)
  have f: "int (unat (2 :: u8)) = fam False" by (simp add: fam_def AF_INET_def)
  have eid: "said_id attrs_ex = 1" by (simp add: said_id_def attrs_ex_said)
  have "roomy (sizeof_fib_entry # tab_need (said_prefix attrs_ex) (unat (16 :: u8)) (fib_table (fs_fib (fib_at False ?t)))) (th_mpool ?t)"
    using ns(3) by (simp add: tab_need_16 thread_ex_def)
  then obtain t' p where r: "\<exists>fs mp. t' = set_fib False fs mp ?t"
      "thread_ok t' ((\<lambda>v a. undefined)(False := (\<lambda>a. undefined)(p := said_entry ?t False 16 254 attrs_ex))) ((\<lambda>v. [])(False := [route_ex p]))"
    using new_route_spec [OF ok msg route_msg_ex_wf f] eid
    by (fastforce simp: rib_has_def rib_add_def route_ex_def)
  have "said_entry ?t False 16 254 attrs_ex = \<lparr>fe_prefix = [10, 0, 0, 0], fe_prefix_len = 16, fe_nexthop = [10, 0, 0, 1],
      fe_port_index = 0, fe_type = FIB_TYPE_FORWARD, fe_id = 1, fe_refcount = 0\<rparr>"
    by (simp add: said_entry_def said_prefix_def attrs_ex_said thread_ex_port eid fam_def addr_size_def nl_consts Let_def upt_rec)
  with r ns(2) show ?thesis
    by (intro exI [of _ t'] exI [of _ "(\<lambda>v a. undefined)(False := (\<lambda>a. undefined)(p := said_entry ?t False 16 254 attrs_ex))"]
        exI [of _ "(\<lambda>v. [])(False := [route_ex p])"] exI [of _ p])
      (auto simp: routed_def set_fib_def thread_ex_def)
qed

subsection \<open>Witnesses\<close>

definition packet0 :: ufp_packet where
  "packet0 = \<lparr>pkt_slot_buf = 8192, pkt_slot_size = 60, pkt_slot_index = 0, pkt_flag = UFP_PACKET_EOF\<rparr>"

lemma frame_ex_dst: "frame_ptr frame_ex OFF_DADDR 0 = 10" "frame_ptr frame_ex OFF_DADDR 1 = 0"
  by (simp_all add: frame_ptr_def frame_ex_def frame_offsets)

lemma route_ex_covers: "rt_covers (route_ex p) (frame_ptr frame_ex OFF_DADDR)"
proof -
  have "said_prefix attrs_ex i = frame_ptr frame_ex OFF_DADDR i" if "i < 2" for i
    using that frame_ex_dst by (cases "i = 0") (auto simp: said_prefix_def attrs_ex_said less_2_cases_iff)
  then show ?thesis by (simp add: rt_covers_def pmatch_def abit_def route_ex_def)
qed

lemma routed_best:
  assumes "routed thread D R p"
  shows "best_route (R False) (frame_ptr frame_ex OFF_DADDR) s \<longleftrightarrow> s = route_ex p"
  using assms route_ex_covers by (auto simp: routed_def best_route_def)

lemma routed_tables:
  "routed thread D R p \<Longrightarrow> tables_ok thread AF_INET (th_fib_inet thread) (th_neigh_inet thread) (D False) (R False)"
  unfolding routed_def thread_ok_def by (auto dest: spec [of _ False] simp: fam_def fib_at_def neighs_at_def)

lemma routed_outcome:
  assumes r: "routed thread D R p"
    and o: "fwd_outcome ip_forwarded OFF_DADDR 4 OFF_TTL thread (th_neigh_inet thread) (D False) (R False) 0 packet0 ret thread'"
  shows "ret = 0 \<and> (\<exists>frame'. ip_forwarded frame_ex (replicate 6 1) [2, 0, 0, 0, 0, 1] frame' \<and>
    thread' = thread\<lparr>th_mem := (th_mem thread)(8192 := frame')\<rparr>)"
proof -
  obtain ns where ns: "th_neigh_inet thread = [ns]" "ns_objs ns = [4104 \<mapsto> neigh_entry_ex]" using r by (auto simp: routed_def)
  have R: "fe_type (D False p) = FIB_TYPE_FORWARD" "fe_port_index (D False p) = 0" "fe_nexthop (D False p) = [10, 0, 0, 1]"
      "th_plane thread = plane_ex" "th_mem thread = (\<lambda>a. frame_ex)" using r by (auto simp: routed_def)
  have "neigh_of (neigh_mem thread ns) [10, 0, 0, 1] a \<longleftrightarrow> a = 4104" for a
    by (auto simp: neigh_of_mem ns(2) neigh_entry_ex_def)
  then have hop: "hop_result thread (th_neigh_inet thread) (D False p) x hop \<longleftrightarrow> hop = Hop_To 0 4104" for x hop
    by (simp add: hop_result_def hop_key_def R ns(1) Let_def)
  have ttl: "frame_ex ! OFF_TTL \<noteq> 1" by (simp add: frame_ex_def frame_offsets)
  have ptr: "rt_ptr (route_ex p) = p" by (simp add: route_ex_def)
  from o show ?thesis
    unfolding fwd_outcome_def Let_def R(5) routed_best [OF r] ptr
    using ttl by (auto simp: hop [unfolded ns(1)] ptr ns R(4) plane_ex_def port_ex_def packet0_def neigh_entry_ex_def)
qed

lemma routed_forward:
  assumes r: "routed thread D R p"
  shows "\<exists>thread'. forward_ip_process thread 0 packet0 = Some (0, thread')"
proof -
  have f: "0 < length (ports (th_plane thread))" "IP_HDR_END \<le> length (th_mem thread (pkt_slot_buf packet0))"
      "unat (pkt_slot_size packet0) \<le> length (th_mem thread (pkt_slot_buf packet0))"
    using r by (simp_all add: routed_def plane_ex_def frame_ex_def packet0_def frame_offsets)
  from forward_ip_spec [OF routed_tables [OF r] f] routed_outcome [OF r] show ?thesis by blast
qed

theorem forward_ip_process_correct_witness:
  "\<exists>thread D R p ret thread'. routed thread D R p \<and>
     tables_ok thread AF_INET (th_fib_inet thread) (th_neigh_inet thread) (D False) (R False) \<and>
     forward_ip_process thread 0 packet0 = Some (ret, thread') \<and> ret = 0 \<and>
     (\<exists>frame'. ip_forwarded frame_ex (replicate 6 1) [2, 0, 0, 0, 0, 1] frame' \<and> th_mem thread' 8192 = frame')"
proof -
  obtain thread D R p where r: "routed thread D R p" using routed_ex by blast
  note T = routed_tables [OF r]
  have f: "0 < length (ports (th_plane thread))" "IP_HDR_END \<le> length (th_mem thread (pkt_slot_buf packet0))"
      "unat (pkt_slot_size packet0) \<le> length (th_mem thread (pkt_slot_buf packet0))"
    using r by (simp_all add: routed_def plane_ex_def frame_ex_def packet0_def frame_offsets)
  obtain ret thread' where o: "forward_ip_process thread 0 packet0 = Some (ret, thread')"
      "fwd_outcome ip_forwarded OFF_DADDR 4 OFF_TTL thread (th_neigh_inet thread) (D False) (R False) 0 packet0 ret thread'"
    using forward_ip_process_correct [OF T f] by blast
  from routed_outcome [OF r o(2)] have "ret = 0" "\<exists>frame'. ip_forwarded frame_ex (replicate 6 1) [2, 0, 0, 0, 0, 1] frame' \<and> th_mem thread' 8192 = frame'"
    by auto
  with r T o(1) show ?thesis by blast
qed

theorem forward_releases_sent_slot_witness:
  "\<exists>thread D R p thread' p'. routed thread D R p \<and> io_inv i40e_ops (th_plane thread) (th_buf thread) {#0#} \<and>
     forward_process thread 0 [packet0] = Some thread' \<and> plane_port (th_plane thread') 0 = Some p' \<and>
     0 \<in> set (ring_queue (num_tx_desc p') (tx_ring p')) \<and> 0 \<notin> inflight (th_buf thread') \<and>
     (\<nexists>h. io_inv i40e_ops (th_plane thread') (th_buf thread') h)"
proof -
  obtain thread D R p where r: "routed thread D R p" using routed_ex by blast
  obtain thread1 where f: "forward_ip_process thread 0 packet0 = Some (0, thread1)"
    using routed_forward [OF r] by blast
  have m: "th_mem thread (pkt_slot_buf packet0) = frame_ex" and pl: "th_plane thread = plane_ex" "th_buf thread = buf_ex [1, 0, 0, 0]"
    using r by (simp_all add: routed_def)
  have "forward_one thread 0 packet0 = Some (0, thread1)"
    using f by (simp add: forward_one_def m Let_def)
      (simp add: frame_ex_def frame_offsets frame_le16_def ntohs_def ETH_P_ARP_def ETH_P_IP_def ETH_P_IPV6_def)
  moreover have inv: "io_inv i40e_ops (th_plane thread) (th_buf thread) {#0#}" using plane_ex_inv(1) pl by simp
  moreover have "pkt_slot_index packet0 \<in># {#0#}" "pkt_flag packet0 AND UFP_PACKET_ERROR = 0"
    by (simp_all add: packet0_def UFP_PACKET_EOF_def UFP_PACKET_ERROR_def)
  moreover have "nat 0 < length (ports (th_plane thread))"
      "ufp_desc_unused (tx_ring (ports (th_plane thread) ! nat 0)) (ucast (num_tx_desc (ports (th_plane thread) ! nat 0))) \<noteq> 0"
    by (simp_all add: pl plane_ex_def port_ex_def ring4_def ufp_desc_unused_def Let_def)
  ultimately have "\<exists>thread' p'. forward_process thread 0 [packet0] = Some thread' \<and>
      plane_port (th_plane thread') (nat 0) = Some p' \<and>
      pkt_slot_index packet0 \<in> set (ring_queue (num_tx_desc p') (tx_ring p')) \<and>
      pkt_slot_index packet0 \<notin> inflight (th_buf thread') \<and>
      (\<nexists>h. io_inv i40e_ops (th_plane thread') (th_buf thread') h)"
    by (intro forward_releases_sent_slot [of thread "{#0#}" packet0 0 0 thread1]) simp_all
  with r inv show ?thesis by (auto simp: packet0_def)
qed

theorem forward_drop_releases_witness:
  "io_inv i40e_ops plane_ex (buf_ex [1, 0, 0, 0]) {#0#} \<and>
   (\<forall>ns mp. \<exists>thread'. forward_process (thread_ex ns mp) 0 [packet0\<lparr>pkt_flag := UFP_PACKET_ERROR\<rparr>] = Some thread' \<and>
      io_inv i40e_ops (th_plane thread') (th_buf thread') {#} \<and> 0 \<notin> inflight (th_buf thread'))"
proof (intro conjI allI plane_ex_inv(1))
  fix ns mp
  let ?k = "packet0\<lparr>pkt_flag := UFP_PACKET_ERROR\<rparr>"
  have "io_inv i40e_ops (th_plane (thread_ex ns mp)) (th_buf (thread_ex ns mp)) {#0#}" "pkt_slot_index ?k \<in># {#0#}"
      "pkt_flag ?k AND UFP_PACKET_ERROR \<noteq> 0"
    using plane_ex_inv(1) by (simp_all add: thread_ex_def packet0_def UFP_PACKET_ERROR_def)
  from forward_drop_releases [OF this(1,2) disjI1 [OF this(3)], of 0]
  show "\<exists>thread'. forward_process (thread_ex ns mp) 0 [?k] = Some thread' \<and>
      io_inv i40e_ops (th_plane thread') (th_buf thread') {#} \<and> 0 \<notin> inflight (th_buf thread')"
    by (simp add: packet0_def)
qed

theorem forward_ip6_process_correct_witness:
  "\<exists>ns mp ret thread'. tables_ok (thread_ex ns mp) AF_INET6 (th_fib_inet6 (thread_ex ns mp)) (th_neigh_inet6 (thread_ex ns mp)) (\<lambda>a. undefined) [] \<and>
     forward_ip6_process (thread_ex ns mp) 0 packet0 = Some (ret, thread') \<and> ret = -1 \<and> thread' = thread_ex ns mp"
proof -
  obtain ns mp where ns: "ns_ok mp AF_INET ns" "ns_objs ns = [4104 \<mapsto> neigh_entry_ex]" using neigh_store_ex by blast
  let ?t = "thread_ex ns mp"
  have T: "tables_ok ?t AF_INET6 (th_fib_inet6 ?t) (th_neigh_inet6 ?t) (\<lambda>a. undefined) []"
    using thread_ex_ok [OF ns, of "\<lambda>v a. undefined"] unfolding thread_ok_def
    by (auto dest: spec [of _ True] simp: fam_def fib_at_def neighs_at_def)
  have f: "0 < length (ports (th_plane ?t))" "IP6_HDR_END \<le> length (th_mem ?t (pkt_slot_buf packet0))"
      "unat (pkt_slot_size packet0) \<le> length (th_mem ?t (pkt_slot_buf packet0))"
    by (simp_all add: thread_ex_def plane_ex_def frame_ex_def packet0_def frame_offsets)
  have "\<not> in6_is_addr_linklocal (th_mem ?t (pkt_slot_buf packet0)) OFF_IP6_DST"
    by (simp add: thread_ex_def frame_ex_def frame_offsets in6_is_addr_linklocal_def)
  with forward_ip6_process_correct [OF T f] T show ?thesis by (fastforce simp: fwd_outcome_def best_route_def Let_def)
qed

lemma msg_ex_eq: "route_msg_ex new = Nl_Route new (\<lambda>i. 7) 2 16 254 attrs_ex"
  by (simp add: route_msg_ex_def attrs_ex_def)

lemma fam_byte: "int (unat (2 :: u8)) = fam False"
  by (simp add: fam_def AF_INET_def)

lemma len_byte: "unat (16 :: u8) \<le> 128"
  by simp

theorem netlink_new_route_witness:
  "\<exists>ns mp thread' p. thread_ok (thread_ex ns mp) (\<lambda>v a. undefined) (\<lambda>v. []) \<and>
     netlink_process (thread_ex ns mp) (msg_bytes (route_msg_ex True)) (int (length (msg_bytes (route_msg_ex True)))) = Some thread' \<and>
     thread_ok thread' ((\<lambda>v a. undefined)(False := (\<lambda>a. undefined)(p := said_entry (thread_ex ns mp) False 16 254 attrs_ex)))
       ((\<lambda>v. [])(False := [route_ex p]))"
proof -
  obtain ns mp where ns: "ns_ok mp AF_INET ns" "ns_objs ns = [4104 \<mapsto> neigh_entry_ex]"
      "roomy [sizeof_fib_entry, sizeof_lpm_entry] mp"
    using neigh_store_ex by blast
  let ?t = "thread_ex ns mp"
  note ok = thread_ex_ok [OF ns(1,2), of "\<lambda>v a. undefined"]
  have eid: "said_id attrs_ex = 1" by (simp add: said_id_def attrs_ex_said)
  have "roomy (sizeof_fib_entry # tab_need (said_prefix attrs_ex) (unat (16 :: u8)) (fib_table (fs_fib (fib_at False ?t)))) (th_mpool ?t)"
    using ns(3) by (simp add: tab_need_16 thread_ex_def)
  with netlink_new_route [OF ok msg_ex_eq route_msg_ex_wf fam_byte len_byte] eid ok show ?thesis
    by (fastforce simp: rib_has_def rib_add_def route_ex_def)
qed

theorem netlink_del_route_witness:
  "\<exists>thread D R p thread'. thread_ok thread D R \<and> R False = [route_ex p] \<and>
     netlink_process thread (msg_bytes (route_msg_ex False)) (int (length (msg_bytes (route_msg_ex False)))) = Some thread' \<and>
     thread_ok thread' D (R(False := []))"
proof -
  obtain thread D R p where r: "routed thread D R p" using routed_ex by blast
  then have ok: "thread_ok thread D R" and R: "R False = [route_ex p]" by (simp_all add: routed_def)
  have "rib_del (said_prefix attrs_ex) (unat (16 :: u8)) (said_id attrs_ex) (R False) = []"
    by (simp add: R rib_del_def rt_same_def route_ex_def said_id_def attrs_ex_said)
  with netlink_del_route [OF ok msg_ex_eq route_msg_ex_wf fam_byte len_byte] ok R show ?thesis by metis
qed

definition neigh_msg_ex :: "bool \<Rightarrow> u8 \<Rightarrow> nl_msg" where
  "neigh_msg_ex new b = Nl_Neigh new (\<lambda>i. 7) 2 1
     [\<lparr>at_type = NDA_DST, at_data = [10, 0, 0, b]\<rparr>, \<lparr>at_type = NDA_LLADDR, at_data = [2, 2, 2, 2, 2, 2]\<rparr>]"

lemma neigh_msg_ex_wf: "msg_wf (neigh_msg_ex new b)"
  by (simp add: neigh_msg_ex_def neigh_attr_wf_def attr_wf_def nl_consts msg_len_def length_attr_bytes align4_def ETH_ALEN_def)

lemma neigh_msg_ex_said:
  "said_addr False [\<lparr>at_type = NDA_DST, at_data = [10, 0, 0, b]\<rparr>, \<lparr>at_type = NDA_LLADDR, at_data = [2, 2, 2, 2, 2, 2]\<rparr>] = [10, 0, 0, b]"
  "said_mac [\<lparr>at_type = NDA_DST, at_data = [10, 0, 0, b]\<rparr>, \<lparr>at_type = NDA_LLADDR, at_data = [2, 2, 2, 2, 2, 2]\<rparr>] = [2, 2, 2, 2, 2, 2]"
  by (simp_all add: said_addr_def said_mac_def neigh_attr_def neigh_msg_init_def nl_consts over_def addr_size_def fam_def ETH_ALEN_def)

lemma thread_ex_macs:
  "ns_objs ns = [4104 \<mapsto> neigh_entry_ex] \<Longrightarrow>
   neigh_macs (neighs_at False (thread_ex ns mp) ! 0) k mac \<longleftrightarrow> k = [10, 0, 0, 1] \<and> mac = replicate 6 1"
  by (auto simp: neigh_macs_def thread_ex_def neighs_at_def neigh_entry_ex_def)

theorem netlink_new_neigh_witness:
  "\<exists>ns mp thread' ns'. thread_ok (thread_ex ns mp) (\<lambda>v a. undefined) (\<lambda>v. []) \<and>
     netlink_process (thread_ex ns mp) (msg_bytes (neigh_msg_ex True 2)) (int (length (msg_bytes (neigh_msg_ex True 2)))) = Some thread' \<and>
     thread_ok thread' (\<lambda>v a. undefined) (\<lambda>v. []) \<and> neighs_at False thread' = [ns'] \<and>
     neigh_macs ns' [10, 0, 0, 1] (replicate 6 1) \<and> neigh_macs ns' [10, 0, 0, 2] [2, 2, 2, 2, 2, 2]"
proof -
  obtain ns mp q mp' where ns: "ns_ok mp AF_INET ns" "ns_objs ns = [4104 \<mapsto> neigh_entry_ex]"
      "ufp_mem_alloc mp sizeof_neigh_entry = Some (Some q, mp')"
    using neigh_store_ex by blast
  let ?t = "thread_ex ns mp"
  note ok = thread_ex_ok [OF ns(1,2), of "\<lambda>v a. undefined"]
  have port: "port_of ?t (sint (1 :: u32)) = int 0" by (simp add: thread_ex_port)
  have room: "ufp_mem_alloc (th_mpool ?t) sizeof_neigh_entry = Some (Some q, mp')" using ns(3) by (simp add: thread_ex_def)
  have n: "(neighs_at False ?t)[0 := ns'] = [ns']" for ns' by (simp add: thread_ex_def neighs_at_def)
  obtain thread' ns' where r: "netlink_process ?t (msg_bytes (neigh_msg_ex True 2)) (int (length (msg_bytes (neigh_msg_ex True 2)))) = Some thread'"
      "thread_ok thread' (\<lambda>v a. undefined) (\<lambda>v. [])" "neighs_at False thread' = [ns']"
      "\<forall>k mac. neigh_macs ns' k mac \<longleftrightarrow> k = [10, 0, 0, 1] \<and> mac = replicate 6 1 \<or>
        k = [10, 0, 0, 2] \<and> mac = [2, 2, 2, 2, 2, 2] \<and> (\<nexists>old. k = [10, 0, 0, 1] \<and> old = (replicate 6 1 :: u8 list))"
    using netlink_new_neigh [OF ok neigh_msg_ex_def neigh_msg_ex_wf fam_byte port room, of 2]
    unfolding n neigh_msg_ex_said thread_ex_macs [OF ns(2)] by blast
  have "neigh_macs ns' [10, 0, 0, 1] (replicate 6 1)" "neigh_macs ns' [10, 0, 0, 2] [2, 2, 2, 2, 2, 2]"
    unfolding r(4) [rule_format] by simp_all
  with ok r(1,2,3) show ?thesis by blast
qed

theorem netlink_del_neigh_witness:
  "\<exists>ns mp thread' ns'. thread_ok (thread_ex ns mp) (\<lambda>v a. undefined) (\<lambda>v. []) \<and>
     neigh_macs (neighs_at False (thread_ex ns mp) ! 0) [10, 0, 0, 1] (replicate 6 1) \<and>
     netlink_process (thread_ex ns mp) (msg_bytes (neigh_msg_ex False 1)) (int (length (msg_bytes (neigh_msg_ex False 1)))) = Some thread' \<and>
     thread_ok thread' (\<lambda>v a. undefined) (\<lambda>v. []) \<and> neighs_at False thread' = [ns'] \<and> (\<forall>k mac. \<not> neigh_macs ns' k mac)"
proof -
  obtain ns mp where ns: "ns_ok mp AF_INET ns" "ns_objs ns = [4104 \<mapsto> neigh_entry_ex]"
    using neigh_store_ex by blast
  let ?t = "thread_ex ns mp"
  note ok = thread_ex_ok [OF ns(1,2), of "\<lambda>v a. undefined"]
  have port: "port_of ?t (sint (1 :: u32)) = int 0" by (simp add: thread_ex_port)
  have n: "(neighs_at False ?t)[0 := ns'] = [ns']" for ns' by (simp add: thread_ex_def neighs_at_def)
  obtain thread' ns' where r: "netlink_process ?t (msg_bytes (neigh_msg_ex False 1)) (int (length (msg_bytes (neigh_msg_ex False 1)))) = Some thread'"
      "thread_ok thread' (\<lambda>v a. undefined) (\<lambda>v. [])" "neighs_at False thread' = [ns']"
      "\<forall>k mac. neigh_macs ns' k mac \<longleftrightarrow> (k = [10, 0, 0, 1] \<and> mac = replicate 6 1) \<and> k \<noteq> [10, 0, 0, 1]"
    using netlink_del_neigh [OF ok neigh_msg_ex_def neigh_msg_ex_wf fam_byte port, of 1]
    unfolding n neigh_msg_ex_said thread_ex_macs [OF ns(2)] by blast
  have "\<forall>k mac. \<not> neigh_macs ns' k mac" "neigh_macs (neighs_at False ?t ! 0) [10, 0, 0, 1] (replicate 6 1)"
    unfolding r(4) [rule_format] thread_ex_macs [OF ns(2)] by blast+
  with ok r(1,2,3) show ?thesis by blast
qed

end
