(* ===== verification/Ufp_List.thy ===== *)
theory Ufp_List
  imports Ufp_Prelude
begin

text \<open>
  The doubly linked lists of \<open>lib/lib_list.h\<close>: circular lists with a head node, and lists with a
  single pointer as head whose nodes point back to the pointer that points to them. The operations
  are on a heap of nodes; reading or writing a node that is not there is undefined. Every operation
  is shown to be the operation on the sequence of the nodes that the other components use in its place.
\<close>

subsection \<open>Circular lists\<close>

record list_node =
  ln_next :: addr
  ln_prev :: addr

type_synonym list_heap = "addr \<rightharpoonup> list_node"

definition ld_next :: "list_heap \<Rightarrow> addr \<Rightarrow> addr option" where
  "ld_next h a = map_option ln_next (h a)"

definition ld_prev :: "list_heap \<Rightarrow> addr \<Rightarrow> addr option" where
  "ld_prev h a = map_option ln_prev (h a)"

definition st_next :: "list_heap \<Rightarrow> addr \<Rightarrow> addr \<Rightarrow> list_heap option" where
  "st_next h a v = map_option (\<lambda>n. h(a \<mapsto> n\<lparr>ln_next := v\<rparr>)) (h a)"

definition st_prev :: "list_heap \<Rightarrow> addr \<Rightarrow> addr \<Rightarrow> list_heap option" where
  "st_prev h a v = map_option (\<lambda>n. h(a \<mapsto> n\<lparr>ln_prev := v\<rparr>)) (h a)"

definition list_add_before :: "list_heap \<Rightarrow> addr \<Rightarrow> addr \<Rightarrow> list_heap option" where
  "list_add_before h node new =
     do { h \<leftarrow> st_next h new node;
          p \<leftarrow> ld_prev h node;
          h \<leftarrow> st_prev h new p;
          p \<leftarrow> ld_prev h node;
          h \<leftarrow> st_next h p new;
          st_prev h node new }"

definition list_add_after :: "list_heap \<Rightarrow> addr \<Rightarrow> addr \<Rightarrow> list_heap option" where
  "list_add_after h node new =
     do { n \<leftarrow> ld_next h node;
          h \<leftarrow> st_next h new n;
          h \<leftarrow> st_prev h new node;
          n \<leftarrow> ld_next h node;
          h \<leftarrow> st_prev h n new;
          st_next h node new }"

definition list_add_first :: "list_heap \<Rightarrow> addr \<Rightarrow> addr \<Rightarrow> list_heap option" where
  "list_add_first h head new = list_add_after h head new"

definition list_add_last :: "list_heap \<Rightarrow> addr \<Rightarrow> addr \<Rightarrow> list_heap option" where
  "list_add_last h head new = list_add_before h head new"

definition list_del :: "list_heap \<Rightarrow> addr \<Rightarrow> list_heap option" where
  "list_del h node =
     do { p \<leftarrow> ld_prev h node;
          n \<leftarrow> ld_next h node;
          h \<leftarrow> st_next h p n;
          n \<leftarrow> ld_next h node;
          p \<leftarrow> ld_prev h node;
          st_prev h n p }"

definition list_del_first :: "list_heap \<Rightarrow> addr \<Rightarrow> list_heap option" where
  "list_del_first h head = do { n \<leftarrow> ld_next h head; list_del h n }"

definition list_del_last :: "list_heap \<Rightarrow> addr \<Rightarrow> list_heap option" where
  "list_del_last h head = do { p \<leftarrow> ld_prev h head; list_del h p }"

definition list_empty :: "list_heap \<Rightarrow> addr \<Rightarrow> bool option" where
  "list_empty h head = do { n \<leftarrow> ld_next h head; Some (n = head) }"

definition list_init :: "list_heap \<Rightarrow> addr \<Rightarrow> list_heap option" where
  "list_init h head = do { h \<leftarrow> st_next h head head; st_prev h head head }"

definition list_first_entry :: "list_heap \<Rightarrow> addr \<Rightarrow> addr option option" where
  "list_first_entry h head =
     do { e \<leftarrow> list_empty h head;
          if e then Some None else do { n \<leftarrow> ld_next h head; Some (Some n) } }"

text \<open>
  The nodes that \<open>list_for_each_dir\<close> visits, the direction being the pointer that is followed;
  \<open>None\<close> also when the walk never gets back to the head.
\<close>

partial_function (option) list_walk :: "(addr \<Rightarrow> addr option) \<Rightarrow> addr \<Rightarrow> addr \<Rightarrow> addr list option" where
  "list_walk dir head cur =
     (if cur = head then Some []
      else Option.bind (dir cur) (\<lambda>n. Option.bind (list_walk dir head n) (\<lambda>xs. Some (cur # xs))))"

definition list_for_each :: "list_heap \<Rightarrow> addr \<Rightarrow> addr list option" where
  "list_for_each h head = do { n \<leftarrow> ld_next h head; list_walk (ld_next h) head n }"

definition list_for_each_rev :: "list_heap \<Rightarrow> addr \<Rightarrow> addr list option" where
  "list_for_each_rev h head = do { p \<leftarrow> ld_prev h head; list_walk (ld_prev h) head p }"

subsection \<open>What a heap represents\<close>

fun linked :: "(addr \<Rightarrow> addr option) \<Rightarrow> (addr \<Rightarrow> addr option) \<Rightarrow> addr list \<Rightarrow> bool" where
  "linked nx pv (a # b # ys) \<longleftrightarrow> nx a = Some b \<and> pv b = Some a \<and> linked nx pv (b # ys)"
| "linked nx pv ys \<longleftrightarrow> True"

definition clist :: "list_heap \<Rightarrow> addr \<Rightarrow> addr list \<Rightarrow> bool" where
  "clist h head xs \<longleftrightarrow> distinct (head # xs) \<and> linked (ld_next h) (ld_prev h) (head # xs @ [head])"

lemma linked_append: "linked nx pv (xs @ a # ys) \<longleftrightarrow> linked nx pv (xs @ [a]) \<and> linked nx pv (a # ys)"
  by (induction nx pv xs rule: linked.induct) (auto simp: neq_Nil_conv split: list.split)

lemma linked_cong:
  "\<forall>x \<in> set (butlast ys). nx' x = nx x \<Longrightarrow> \<forall>x \<in> set (tl ys). pv' x = pv x \<Longrightarrow>
   linked nx' pv' ys \<longleftrightarrow> linked nx pv ys"
  by (induction nx pv ys rule: linked.induct) auto

lemma st_next_sel:
  assumes "st_next h a v = Some h'"
  shows "ld_next h' = (ld_next h)(a := Some v)" "ld_prev h' = ld_prev h" "dom h' = dom h"
  using assms by (auto simp: st_next_def ld_next_def ld_prev_def dom_def split: if_splits)

lemma st_prev_sel:
  assumes "st_prev h a v = Some h'"
  shows "ld_prev h' = (ld_prev h)(a := Some v)" "ld_next h' = ld_next h" "dom h' = dom h"
  using assms by (auto simp: st_prev_def ld_next_def ld_prev_def dom_def split: if_splits)

lemma st_ok: "a \<in> dom h \<Longrightarrow> \<exists>h'. st_next h a v = Some h'" "a \<in> dom h \<Longrightarrow> \<exists>h'. st_prev h a v = Some h'"
  by (auto simp: st_next_def st_prev_def)

lemma ld_dom: "ld_next h a = Some b \<Longrightarrow> a \<in> dom h" "ld_prev h a = Some b \<Longrightarrow> a \<in> dom h"
  by (auto simp: ld_next_def ld_prev_def)

text \<open>A node between two that follow each other.\<close>

lemma linked_insert:
  assumes "linked nx pv (xs @ a # b # ys)" "new \<notin> set (xs @ a # b # ys)"
    "a \<notin> set xs" "a \<notin> set (butlast (b # ys))" "b \<notin> set ys" "b \<notin> set (tl (xs @ [a]))"
  shows "linked (nx(new := Some b, a := Some new)) (pv(new := Some a, b := Some new)) (xs @ a # new # b # ys)"
proof -
  let ?nx = "nx(new := Some b, a := Some new)" and ?pv = "pv(new := Some a, b := Some new)"
  have l: "linked nx pv (xs @ [a])" "linked nx pv (b # ys)"
    using assms(1) linked_append [of nx pv xs a "b # ys"] by simp_all
  have d: "new \<noteq> a" "new \<noteq> b" using assms(2) by auto
  have "linked ?nx ?pv (xs @ [a]) \<longleftrightarrow> linked nx pv (xs @ [a])"
  proof (rule linked_cong; intro ballI)
    show "?nx x = nx x" if "x \<in> set (butlast (xs @ [a]))" for x using that assms(2,3) by auto
    show "?pv x = pv x" if "x \<in> set (tl (xs @ [a]))" for x
      using that assms(2,6) list.set_sel(2) [of "xs @ [a]" x] by fastforce
  qed
  moreover have "linked ?nx ?pv (b # ys) \<longleftrightarrow> linked nx pv (b # ys)"
  proof (rule linked_cong; intro ballI)
    show "?nx x = nx x" if "x \<in> set (butlast (b # ys))" for x
      using that assms(2,4) in_set_butlastD [of x "b # ys"] by fastforce
    show "?pv x = pv x" if "x \<in> set (tl (b # ys))" for x using that assms(2,5) by auto
  qed
  ultimately show ?thesis using l d linked_append [of ?nx ?pv xs a "new # b # ys"] by simp
qed

text \<open>Two nodes around one that is taken out.\<close>

lemma linked_remove:
  assumes "linked nx pv (xs @ a # c # b # ys)"
    "a \<notin> set xs" "a \<notin> set (butlast (b # ys))" "b \<notin> set ys" "b \<notin> set (tl (xs @ [a]))"
  shows "linked (nx(a := Some b)) (pv(b := Some a)) (xs @ a # b # ys)"
proof -
  let ?nx = "nx(a := Some b)" and ?pv = "pv(b := Some a)"
  have l: "linked nx pv (xs @ [a])" "linked nx pv (b # ys)"
    using assms(1) linked_append [of nx pv xs a "c # b # ys"] by simp_all
  have "linked ?nx ?pv (xs @ [a]) \<longleftrightarrow> linked nx pv (xs @ [a])"
    by (rule linked_cong) (use assms(2,5) in auto)
  moreover have "linked ?nx ?pv (b # ys) \<longleftrightarrow> linked nx pv (b # ys)"
    by (rule linked_cong) (use assms(3,4) in auto)
  ultimately show ?thesis using l linked_append [of ?nx ?pv xs a "b # ys"] by simp
qed

lemma linked_rev: "linked nx pv ys \<longleftrightarrow> linked pv nx (rev ys)"
proof (induction nx pv ys rule: linked.induct)
  case (1 nx pv a b ys)
  then show ?case using linked_append [of pv nx "rev ys" b "[a]"] by auto
qed simp_all

text \<open>The neighbours of a place in a circular list: the node before it and the node after it.\<close>

definition before :: "addr \<Rightarrow> addr list \<Rightarrow> addr" where
  "before head xs = last (head # xs)"

definition after :: "addr \<Rightarrow> addr list \<Rightarrow> addr" where
  "after head ys = hd (ys @ [head])"

lemma ring_split:
  "head # xs @ ys @ [head] = butlast (head # xs) @ before head xs # after head ys # tl (ys @ [head])"
proof -
  have "head # xs = butlast (head # xs) @ [before head xs]" by (simp add: before_def)
  moreover have "ys @ [head] = after head ys # tl (ys @ [head])" by (cases ys) (simp_all add: after_def)
  ultimately show ?thesis by (metis append_Cons append_assoc append_Nil)
qed

lemma ring_sides:
  assumes "distinct (head # xs @ ys)"
  shows "before head xs \<notin> set (butlast (head # xs))" "before head xs \<notin> set (butlast (after head ys # tl (ys @ [head])))"
    "after head ys \<notin> set (tl (ys @ [head]))" "after head ys \<notin> set (tl (butlast (head # xs) @ [before head xs]))"
    "before head xs \<in> set (head # xs)" "after head ys \<in> set (ys @ [head])"
proof -
  let ?a = "before head xs" and ?b = "after head ys"
  have x: "butlast (head # xs) @ [?a] = head # xs" by (simp add: before_def)
  have y: "?b # tl (ys @ [head]) = ys @ [head]" by (cases ys) (simp_all add: after_def)
  show a: "?a \<in> set (head # xs)" unfolding before_def by (rule last_in_set) simp
  show "?b \<in> set (ys @ [head])" by (metis y list.set_intros(1))
  have "distinct (butlast (head # xs) @ [?a])" "distinct (?b # tl (ys @ [head]))"
    unfolding x y using assms by auto
  then show "?a \<notin> set (butlast (head # xs))" "?b \<notin> set (tl (ys @ [head]))" by auto
  show "?a \<notin> set (butlast (?b # tl (ys @ [head])))" unfolding y using a assms by auto
  have "?b = head \<or> ?b \<in> set ys" by (cases ys) (simp_all add: after_def)
  then show "?b \<notin> set (tl (butlast (head # xs) @ [?a]))" unfolding x using assms by auto
qed

lemma clistD:
  assumes "clist h head (xs @ ys)"
  shows "ld_next h (before head xs) = Some (after head ys)" "ld_prev h (after head ys) = Some (before head xs)"
proof -
  have "linked (ld_next h) (ld_prev h) (butlast (head # xs) @ before head xs # after head ys # tl (ys @ [head]))"
    using assms unfolding clist_def ring_split [symmetric] by simp
  then have "linked (ld_next h) (ld_prev h) (before head xs # after head ys # tl (ys @ [head]))"
    using linked_append by blast
  then show "ld_next h (before head xs) = Some (after head ys)" "ld_prev h (after head ys) = Some (before head xs)"
    by simp_all
qed

lemma clist_insert:
  assumes "clist h head (xs @ ys)" "new \<notin> set (head # xs @ ys)"
    and "ld_next h' = (ld_next h)(new := Some (after head ys), before head xs := Some new)"
    and "ld_prev h' = (ld_prev h)(new := Some (before head xs), after head ys := Some new)"
  shows "clist h' head (xs @ new # ys)"
proof -
  let ?P = "butlast (head # xs)" and ?a = "before head xs" and ?b = "after head ys" and ?Q = "tl (ys @ [head])"
  have d: "distinct (head # xs @ ys)" using assms(1) by (simp add: clist_def)
  have "linked (ld_next h) (ld_prev h) (?P @ ?a # ?b # ?Q)"
    using assms(1) unfolding clist_def ring_split [symmetric] by simp
  moreover have "new \<notin> set (?P @ ?a # ?b # ?Q)" unfolding ring_split [symmetric] using assms(2) by simp
  ultimately have "linked (ld_next h') (ld_prev h') (?P @ ?a # new # ?b # ?Q)"
    unfolding assms(3,4) by (rule linked_insert) (rule ring_sides [OF d])+
  moreover have "?P @ ?a # new # ?b # ?Q = head # xs @ new # ys @ [head]"
  proof -
    have "?P @ [?a] = head # xs" by (simp add: before_def)
    moreover have "?b # ?Q = ys @ [head]" by (cases ys) (simp_all add: after_def)
    ultimately show ?thesis by (metis append_Cons append_assoc append_Nil)
  qed
  ultimately show ?thesis using d assms(2) by (auto simp: clist_def)
qed

lemma clist_remove:
  assumes "clist h head (xs @ c # ys)"
    and "ld_next h' = (ld_next h)(before head xs := Some (after head ys))"
    and "ld_prev h' = (ld_prev h)(after head ys := Some (before head xs))"
  shows "clist h' head (xs @ ys)"
proof -
  let ?P = "butlast (head # xs)" and ?a = "before head xs" and ?b = "after head ys" and ?Q = "tl (ys @ [head])"
  have d: "distinct (head # xs @ ys)" using assms(1) by (auto simp: clist_def)
  have "?P @ ?a # c # ?b # ?Q = head # xs @ c # ys @ [head]"
  proof -
    have "?P @ [?a] = head # xs" by (simp add: before_def)
    moreover have "?b # ?Q = ys @ [head]" by (cases ys) (simp_all add: after_def)
    ultimately show ?thesis by (metis append_Cons append_assoc append_Nil)
  qed
  then have "linked (ld_next h) (ld_prev h) (?P @ ?a # c # ?b # ?Q)" using assms(1) by (simp add: clist_def)
  then have "linked (ld_next h') (ld_prev h') (?P @ ?a # ?b # ?Q)"
    unfolding assms(2,3) by (rule linked_remove) (rule ring_sides [OF d])+
  then show ?thesis using d unfolding ring_split [symmetric] by (simp add: clist_def)
qed

subsection \<open>The operations\<close>

definition frame_of :: "addr set \<Rightarrow> list_heap \<Rightarrow> list_heap \<Rightarrow> bool" where
  "frame_of A h h' \<longleftrightarrow> dom h' = dom h \<and> (\<forall>x. x \<notin> A \<longrightarrow> h' x = h x)"

lemma st_frame: "st_next h a v = Some h' \<Longrightarrow> frame_of {a} h h'" "st_prev h a v = Some h' \<Longrightarrow> frame_of {a} h h'"
  by (auto simp: frame_of_def st_next_def st_prev_def dom_def split: if_splits)

lemma frame_trans: "frame_of A h h1 \<Longrightarrow> frame_of B h1 h2 \<Longrightarrow> A \<union> B \<subseteq> C \<Longrightarrow> frame_of C h h2"
  unfolding frame_of_def by (metis UnCI subsetD)

lemma st_nextE:
  assumes "a \<in> dom h"
  obtains h' where "st_next h a v = Some h'" "ld_next h' = (ld_next h)(a := Some v)" "ld_prev h' = ld_prev h"
    "dom h' = dom h" "frame_of {a} h h'"
  using st_ok(1) [OF assms] st_next_sel st_frame(1) by metis

lemma st_prevE:
  assumes "a \<in> dom h"
  obtains h' where "st_prev h a v = Some h'" "ld_prev h' = (ld_prev h)(a := Some v)" "ld_next h' = ld_next h"
    "dom h' = dom h" "frame_of {a} h h'"
  using st_ok(2) [OF assms] st_prev_sel st_frame(2) by metis

lemma list_add_after_ok:
  assumes "clist h head (xs @ ys)" "new \<in> dom h" "new \<notin> set (head # xs @ ys)"
  shows "\<exists>h'. list_add_after h (before head xs) new = Some h' \<and> clist h' head (xs @ new # ys) \<and>
    frame_of (insert new (set (head # xs @ ys))) h h'"
proof -
  let ?a = "before head xs" and ?b = "after head ys"
  note L = clistD [OF assms(1)]
  have ab: "?a \<in> set (head # xs @ ys)" "?b \<in> set (head # xs @ ys)" "?a \<in> dom h" "?b \<in> dom h"
    using ring_sides(5,6) [of head xs ys] assms(1) ld_dom(1) [OF L(1)] ld_dom(2) [OF L(2)] by (auto simp: clist_def)
  then have ne: "?a \<noteq> new" "?b \<noteq> new" using assms(3) by auto
  obtain h1 where 1: "st_next h new ?b = Some h1" "ld_next h1 = (ld_next h)(new := Some ?b)" "ld_prev h1 = ld_prev h"
      "dom h1 = dom h" "frame_of {new} h h1" using st_nextE [OF assms(2)] by metis
  obtain h2 where 2: "st_prev h1 new ?a = Some h2" "ld_prev h2 = (ld_prev h1)(new := Some ?a)" "ld_next h2 = ld_next h1"
      "dom h2 = dom h1" "frame_of {new} h1 h2" using st_prevE [of new h1] assms(2) 1(4) by metis
  obtain h3 where 3: "st_prev h2 ?b new = Some h3" "ld_prev h3 = (ld_prev h2)(?b := Some new)" "ld_next h3 = ld_next h2"
      "dom h3 = dom h2" "frame_of {?b} h2 h3" using st_prevE [of ?b h2] ab 1(4) 2(4) by metis
  obtain h4 where 4: "st_next h3 ?a new = Some h4" "ld_next h4 = (ld_next h3)(?a := Some new)" "ld_prev h4 = ld_prev h3"
      "frame_of {?a} h3 h4" using st_nextE [of ?a h3] ab 1(4) 2(4) 3(4) by metis
  have "ld_next h2 ?a = Some ?b" using L(1) ne by (simp add: 1(2) 2(3))
  then have "list_add_after h ?a new = Some h4" using L(1) 1(1) 2(1) 3(1) 4(1) by (simp add: list_add_after_def)
  moreover have "clist h4 head (xs @ new # ys)"
    by (rule clist_insert [OF assms(1,3)]) (simp_all add: 1(2,3) 2(2,3) 3(2,3) 4(2,3))
  moreover have "frame_of (insert new (set (head # xs @ ys))) h h4"
  proof -
    have "frame_of {new} h h2" using frame_trans [OF 1(5) 2(5)] by simp
    then have "frame_of {new, ?b} h h3" using frame_trans [OF _ 3(5)] by blast
    then show ?thesis using frame_trans [OF _ 4(4)] ab(1,2) by (simp add: insert_absorb)
  qed
  ultimately show ?thesis by blast
qed

lemma list_add_before_ok:
  assumes "clist h head (xs @ ys)" "new \<in> dom h" "new \<notin> set (head # xs @ ys)"
  shows "\<exists>h'. list_add_before h (after head ys) new = Some h' \<and> clist h' head (xs @ new # ys) \<and>
    frame_of (insert new (set (head # xs @ ys))) h h'"
proof -
  let ?a = "before head xs" and ?b = "after head ys"
  note L = clistD [OF assms(1)]
  have ab: "?a \<in> set (head # xs @ ys)" "?b \<in> set (head # xs @ ys)" "?a \<in> dom h" "?b \<in> dom h"
    using ring_sides(5,6) [of head xs ys] assms(1) ld_dom(1) [OF L(1)] ld_dom(2) [OF L(2)] by (auto simp: clist_def)
  then have ne: "?a \<noteq> new" "?b \<noteq> new" using assms(3) by auto
  obtain h1 where 1: "st_next h new ?b = Some h1" "ld_next h1 = (ld_next h)(new := Some ?b)" "ld_prev h1 = ld_prev h"
      "dom h1 = dom h" "frame_of {new} h h1" using st_nextE [OF assms(2)] by metis
  obtain h2 where 2: "st_prev h1 new ?a = Some h2" "ld_prev h2 = (ld_prev h1)(new := Some ?a)" "ld_next h2 = ld_next h1"
      "dom h2 = dom h1" "frame_of {new} h1 h2" using st_prevE [of new h1] assms(2) 1(4) by metis
  obtain h3 where 3: "st_next h2 ?a new = Some h3" "ld_next h3 = (ld_next h2)(?a := Some new)" "ld_prev h3 = ld_prev h2"
      "dom h3 = dom h2" "frame_of {?a} h2 h3" using st_nextE [of ?a h2] ab 1(4) 2(4) by metis
  obtain h4 where 4: "st_prev h3 ?b new = Some h4" "ld_prev h4 = (ld_prev h3)(?b := Some new)" "ld_next h4 = ld_next h3"
      "frame_of {?b} h3 h4" using st_prevE [of ?b h3] ab 1(4) 2(4) 3(4) by metis
  have "ld_prev h1 ?b = Some ?a" "ld_prev h2 ?b = Some ?a" using L(2) ne by (simp_all add: 1(3) 2(2))
  then have "list_add_before h ?b new = Some h4" using 1(1) 2(1) 3(1) 4(1) by (simp add: list_add_before_def)
  moreover have "clist h4 head (xs @ new # ys)"
    by (rule clist_insert [OF assms(1,3)]) (simp_all add: 1(2,3) 2(2,3) 3(2,3) 4(2,3))
  moreover have "frame_of (insert new (set (head # xs @ ys))) h h4"
  proof -
    have "frame_of {new} h h2" using frame_trans [OF 1(5) 2(5)] by simp
    then have "frame_of {new, ?a} h h3" using frame_trans [OF _ 3(5)] by blast
    then show ?thesis using frame_trans [OF _ 4(4)] ab(1,2) by (simp add: insert_absorb)
  qed
  ultimately show ?thesis by blast
qed

lemma list_del_ok:
  assumes "clist h head (xs @ c # ys)"
  shows "\<exists>h'. list_del h c = Some h' \<and> clist h' head (xs @ ys) \<and> frame_of (set (head # xs @ ys)) h h'"
proof -
  let ?a = "before head xs" and ?b = "after head ys"
  have s1: "after head (c # ys) = c" "before head (xs @ [c]) = c" by (simp_all add: after_def before_def)
  have "clist h head ((xs @ [c]) @ ys)" using assms by simp
  note L = clistD [OF assms, unfolded s1] clistD [OF this, unfolded s1]
  have d: "distinct (head # xs @ ys)" "c \<notin> set (head # xs @ ys)" using assms by (auto simp: clist_def)
  have ab: "?a \<in> set (head # xs @ ys)" "?b \<in> set (head # xs @ ys)" "?a \<in> dom h" "?b \<in> dom h"
    using ring_sides(5,6) [OF d(1)] ld_dom(1) [OF L(1)] ld_dom(2) [OF L(4)] by auto
  then have ne: "?a \<noteq> c" "?b \<noteq> c" using d(2) by auto
  obtain h1 where 1: "st_next h ?a ?b = Some h1" "ld_next h1 = (ld_next h)(?a := Some ?b)" "ld_prev h1 = ld_prev h"
      "dom h1 = dom h" "frame_of {?a} h h1" using st_nextE [OF ab(3)] by metis
  obtain h2 where 2: "st_prev h1 ?b ?a = Some h2" "ld_prev h2 = (ld_prev h1)(?b := Some ?a)" "ld_next h2 = ld_next h1"
      "frame_of {?b} h1 h2" using st_prevE [of ?b h1] ab 1(4) by metis
  have "ld_next h1 c = Some ?b" "ld_prev h1 c = Some ?a" using L ne by (simp_all add: 1(2,3))
  then have "list_del h c = Some h2" using L 1(1) 2(1) by (simp add: list_del_def)
  moreover have "clist h2 head (xs @ ys)"
    by (rule clist_remove [OF assms]) (simp_all add: 1(2,3) 2(2,3))
  moreover have "frame_of (set (head # xs @ ys)) h h2" using frame_trans [OF 1(5) 2(4)] ab(1,2) by blast
  ultimately show ?thesis by blast
qed

lemma list_walk_linked:
  assumes "linked nx pv (ys @ [head])" "head \<notin> set ys"
  shows "list_walk nx head (hd (ys @ [head])) = Some ys"
  using assms
proof (induction ys)
  case Nil
  then show ?case by (simp add: list_walk.simps)
next
  case (Cons y ys)
  have "nx y = Some (hd (ys @ [head]))" using Cons.prems(1) by (cases ys) auto
  moreover have "linked nx pv (ys @ [head])" using Cons.prems(1) by (cases ys) auto
  ultimately show ?case using Cons by (subst list_walk.simps) simp
qed

lemma list_for_each_ok:
  assumes "clist h head xs"
  shows "list_for_each h head = Some xs" "list_for_each_rev h head = Some (rev xs)"
    "list_empty h head = Some (xs = [])"
proof -
  have l: "linked (ld_next h) (ld_prev h) (head # xs @ [head])" "head \<notin> set xs" "distinct xs"
    using assms by (auto simp: clist_def)
  have c: "clist h head ([] @ xs)" "clist h head (xs @ [])" using assms by simp_all
  have n: "ld_next h head = Some (hd (xs @ [head]))" using clistD(1) [OF c(1)] by (simp add: before_def after_def)
  have "linked (ld_next h) (ld_prev h) (xs @ [head])" using l(1) by (cases xs) auto
  from list_walk_linked [OF this l(2)] n show "list_for_each h head = Some xs" by (simp add: list_for_each_def)
  have "linked (ld_prev h) (ld_next h) (head # rev xs @ [head])" using l(1) linked_rev [of "ld_next h" "ld_prev h" "head # xs @ [head]"] by simp
  then have r: "linked (ld_prev h) (ld_next h) (rev xs @ [head])" by (cases "rev xs") auto
  have p: "ld_prev h head = Some (hd (rev xs @ [head]))"
    using clistD(2) [OF c(2)] by (cases xs rule: rev_cases) (simp_all add: before_def after_def)
  from list_walk_linked [OF r] l(2) p show "list_for_each_rev h head = Some (rev xs)" by (simp add: list_for_each_rev_def)
  show "list_empty h head = Some (xs = [])" using n l(2) by (cases xs) (auto simp: list_empty_def)
qed

lemma list_init_ok: "head \<in> dom h \<Longrightarrow> \<exists>h'. list_init h head = Some h' \<and> clist h' head [] \<and> frame_of {head} h h'"
  by (auto simp: list_init_def clist_def st_next_def st_prev_def ld_next_def ld_prev_def frame_of_def)

text \<open>C35. The circular lists of \<open>lib_list.h\<close> are sequences. On a heap that holds a circular list with the
  nodes \<open>xs @ ys\<close> and a node that is not in it, adding the node after or before a node of the list
  gives the sequence with the node at that place; deleting a node gives the sequence without it; the
  loops visit the nodes in the order of the sequence or the reverse order and end; and
  \<open>list_empty\<close> tells whether there are none. No other node changes.
\<close>

theorem list_ops_refine:
  assumes "clist h head (xs @ ys)" "new \<in> dom h" "new \<notin> set (head # xs @ ys)"
  shows "(\<exists>h'. list_add_after h (last (head # xs)) new = Some h' \<and> clist h' head (xs @ new # ys) \<and>
      frame_of (insert new (set (head # xs @ ys))) h h') \<and>
    (\<exists>h'. list_add_before h (hd (ys @ [head])) new = Some h' \<and> clist h' head (xs @ new # ys) \<and>
      frame_of (insert new (set (head # xs @ ys))) h h' \<and>
      (\<exists>h''. list_del h' new = Some h'' \<and> clist h'' head (xs @ ys) \<and> frame_of (set (head # xs @ ys)) h' h'')) \<and>
    list_for_each h head = Some (xs @ ys) \<and> list_for_each_rev h head = Some (rev (xs @ ys)) \<and>
    list_empty h head = Some (xs @ ys = [])"
  using list_add_after_ok [OF assms] list_add_before_ok [OF assms] list_del_ok list_for_each_ok [OF assms(1)]
  unfolding before_def after_def by blast

theorem list_ops_refine_witness:
  "\<exists>h'. clist [1 \<mapsto> \<lparr>ln_next = 1, ln_prev = 1\<rparr>, 2 \<mapsto> \<lparr>ln_next = 0, ln_prev = 0\<rparr>] 1 ([] @ []) \<and>
     list_add_after [1 \<mapsto> \<lparr>ln_next = 1, ln_prev = 1\<rparr>, 2 \<mapsto> \<lparr>ln_next = 0, ln_prev = 0\<rparr>] (last [1]) 2 = Some h' \<and>
     clist h' 1 [2]"
proof -
  let ?h = "[1 \<mapsto> \<lparr>ln_next = 1, ln_prev = 1\<rparr>, 2 \<mapsto> \<lparr>ln_next = 0, ln_prev = 0\<rparr>] :: list_heap"
  have c: "clist ?h 1 ([] @ [])" by (simp add: clist_def ld_next_def ld_prev_def)
  have "2 \<in> dom ?h" "2 \<notin> set (1 # [] @ [] :: addr list)" by simp_all
  from list_ops_refine [OF c this] c show ?thesis by (metis append_Nil)
qed

end
