(* ===== verification/Ufp_Hlist.thy ===== *)
theory Ufp_Hlist
  imports Ufp_List
begin

text \<open>
  The lists of \<open>lib/lib_list.h\<close> with a single pointer as head. A node has the next node, or none, and
  the address of the pointer that points to it: the \<open>first\<close> of a head or the \<open>next\<close> of a node.
\<close>

subsection \<open>Operations\<close>

datatype hcell = First addr | Next addr

record hlist_node =
  hn_next :: "addr option"
  hn_prev :: hcell

record hlist_heap =
  hh_first :: "addr \<rightharpoonup> addr option"
  hh_node :: "addr \<rightharpoonup> hlist_node"

fun ld_cell :: "hlist_heap \<Rightarrow> hcell \<Rightarrow> addr option option" where
  "ld_cell h (First a) = hh_first h a"
| "ld_cell h (Next a) = map_option hn_next (hh_node h a)"

fun st_cell :: "hlist_heap \<Rightarrow> hcell \<Rightarrow> addr option \<Rightarrow> hlist_heap option" where
  "st_cell h (First a) v = (if a \<in> dom (hh_first h) then Some (h\<lparr>hh_first := (hh_first h)(a \<mapsto> v)\<rparr>) else None)"
| "st_cell h (Next a) v = map_option (\<lambda>n. h\<lparr>hh_node := (hh_node h)(a \<mapsto> n\<lparr>hn_next := v\<rparr>)\<rparr>) (hh_node h a)"

definition ld_hprev :: "hlist_heap \<Rightarrow> addr \<Rightarrow> hcell option" where
  "ld_hprev h a = map_option hn_prev (hh_node h a)"

definition st_hprev :: "hlist_heap \<Rightarrow> addr \<Rightarrow> hcell \<Rightarrow> hlist_heap option" where
  "st_hprev h a c = map_option (\<lambda>n. h\<lparr>hh_node := (hh_node h)(a \<mapsto> n\<lparr>hn_prev := c\<rparr>)\<rparr>) (hh_node h a)"

definition hlist_add_before :: "hlist_heap \<Rightarrow> addr \<Rightarrow> addr \<Rightarrow> hlist_heap option" where
  "hlist_add_before h node new =
     do { h \<leftarrow> st_cell h (Next new) (Some node);
          c \<leftarrow> ld_hprev h node;
          h \<leftarrow> st_hprev h new c;
          h \<leftarrow> st_hprev h node (Next new);
          c \<leftarrow> ld_hprev h new;
          st_cell h c (Some new) }"

definition hlist_add_after :: "hlist_heap \<Rightarrow> addr \<Rightarrow> addr \<Rightarrow> hlist_heap option" where
  "hlist_add_after h node new =
     do { n \<leftarrow> ld_cell h (Next node);
          h \<leftarrow> st_cell h (Next new) n;
          h \<leftarrow> st_hprev h new (Next node);
          n \<leftarrow> ld_cell h (Next new);
          h \<leftarrow> (case n of None \<Rightarrow> Some h | Some x \<Rightarrow> st_hprev h x (Next new));
          st_cell h (Next node) (Some new) }"

definition hlist_add_first :: "hlist_heap \<Rightarrow> addr \<Rightarrow> addr \<Rightarrow> hlist_heap option" where
  "hlist_add_first h head new =
     do { f \<leftarrow> ld_cell h (First head);
          h \<leftarrow> st_cell h (Next new) f;
          h \<leftarrow> st_hprev h new (First head);
          f \<leftarrow> ld_cell h (First head);
          h \<leftarrow> (case f of None \<Rightarrow> Some h | Some x \<Rightarrow> st_hprev h x (Next new));
          st_cell h (First head) (Some new) }"

definition hlist_del :: "hlist_heap \<Rightarrow> addr \<Rightarrow> hlist_heap option" where
  "hlist_del h node =
     do { n \<leftarrow> ld_cell h (Next node);
          h \<leftarrow> (case n of None \<Rightarrow> Some h
               | Some x \<Rightarrow> do { c \<leftarrow> ld_hprev h node; st_hprev h x c });
          c \<leftarrow> ld_hprev h node;
          n \<leftarrow> ld_cell h (Next node);
          st_cell h c n }"

definition hlist_del_first :: "hlist_heap \<Rightarrow> addr \<Rightarrow> hlist_heap option" where
  "hlist_del_first h head =
     do { f \<leftarrow> ld_cell h (First head); case f of None \<Rightarrow> None | Some x \<Rightarrow> hlist_del h x }"

definition hlist_empty :: "hlist_heap \<Rightarrow> addr \<Rightarrow> bool option" where
  "hlist_empty h head = do { f \<leftarrow> ld_cell h (First head); Some (f = None) }"

definition hlist_init :: "hlist_heap \<Rightarrow> addr \<Rightarrow> hlist_heap option" where
  "hlist_init h head = st_cell h (First head) None"

partial_function (option) hlist_walk :: "hlist_heap \<Rightarrow> addr option \<Rightarrow> addr list option" where
  "hlist_walk h cur =
     (case cur of None \<Rightarrow> Some []
      | Some a \<Rightarrow> Option.bind (ld_cell h (Next a)) (\<lambda>n. Option.bind (hlist_walk h n) (\<lambda>xs. Some (a # xs))))"

definition hlist_for_each :: "hlist_heap \<Rightarrow> addr \<Rightarrow> addr list option" where
  "hlist_for_each h head = do { f \<leftarrow> ld_cell h (First head); hlist_walk h f }"

subsection \<open>What a heap represents\<close>

fun hseg :: "(hcell \<Rightarrow> addr option option) \<Rightarrow> (addr \<Rightarrow> hcell option) \<Rightarrow> hcell \<Rightarrow> addr list \<Rightarrow> bool" where
  "hseg ld pv c [] \<longleftrightarrow> True"
| "hseg ld pv c (x # xs) \<longleftrightarrow> ld c = Some (Some x) \<and> pv x = Some c \<and> hseg ld pv (Next x) xs"

definition end_cell :: "hcell \<Rightarrow> addr list \<Rightarrow> hcell" where
  "end_cell c xs = (if xs = [] then c else Next (last xs))"

definition hchain :: "hlist_heap \<Rightarrow> hcell \<Rightarrow> addr list \<Rightarrow> bool" where
  "hchain h c xs \<longleftrightarrow> hseg (ld_cell h) (ld_hprev h) c xs \<and> ld_cell h (end_cell c xs) = Some None"

definition hlist :: "hlist_heap \<Rightarrow> addr \<Rightarrow> addr list \<Rightarrow> bool" where
  "hlist h head xs \<longleftrightarrow> distinct xs \<and> hchain h (First head) xs"

lemma end_cell_simps [simp]:
  "end_cell c [] = c" "end_cell c (x # xs) = end_cell (Next x) xs" "end_cell c (xs @ y # ys) = end_cell (Next y) ys"
  by (simp_all add: end_cell_def)

lemma hseg_append: "hseg ld pv c (xs @ ys) \<longleftrightarrow> hseg ld pv c xs \<and> hseg ld pv (end_cell c xs) ys"
  by (induction xs arbitrary: c) auto

lemma hseg_cong:
  "\<forall>d. d = c \<or> d \<in> Next ` set (butlast xs) \<longrightarrow> ld' d = ld d \<Longrightarrow> \<forall>x \<in> set xs. pv' x = pv x \<Longrightarrow>
   hseg ld' pv' c xs \<longleftrightarrow> hseg ld pv c xs"
proof (induction xs arbitrary: c)
  case (Cons x xs)
  have "hseg ld' pv' (Next x) xs \<longleftrightarrow> hseg ld pv (Next x) xs"
  proof (cases xs)
    case (Cons y ys)
    then show ?thesis using Cons.IH [of "Next x"] Cons.prems by (auto split: if_splits)
  qed simp
  then show ?case using Cons.prems by auto
qed simp

text \<open>The pointer that leads to the rest of a list.\<close>

lemma hlist_parts:
  assumes "hlist h head (xs @ ys)"
  defines "c \<equiv> end_cell (First head) xs"
  shows "hseg (ld_cell h) (ld_hprev h) (First head) xs" "hchain h c ys"
    "ld_cell h c = Some (if ys = [] then None else Some (hd ys))" "distinct (xs @ ys)"
    "c \<notin> Next ` (set (butlast xs) \<union> set ys)" "xs \<noteq> [] \<Longrightarrow> c \<noteq> First head"
proof -
  have d: "distinct (xs @ ys)" and s: "hseg (ld_cell h) (ld_hprev h) (First head) (xs @ ys)"
      and e: "ld_cell h (end_cell (First head) (xs @ ys)) = Some None"
    using assms by (auto simp: hlist_def hchain_def)
  show "distinct (xs @ ys)" by (rule d)
  show "hseg (ld_cell h) (ld_hprev h) (First head) xs" using s by (simp add: hseg_append)
  have ee: "end_cell (First head) (xs @ ys) = end_cell c ys"
    by (cases ys) (simp_all add: c_def end_cell_def)
  show ch: "hchain h c ys" using s e unfolding ee by (simp add: hseg_append c_def hchain_def)
  then show "ld_cell h c = Some (if ys = [] then None else Some (hd ys))" by (cases ys) (auto simp: hchain_def)
  show "c \<notin> Next ` (set (butlast xs) \<union> set ys)"
  proof (cases xs rule: rev_cases)
    case (snoc zs z)
    then show ?thesis using d by (auto simp: c_def end_cell_def)
  qed (auto simp: c_def end_cell_def)
  show "xs \<noteq> [] \<Longrightarrow> c \<noteq> First head" by (simp add: c_def end_cell_def)
qed

lemma hlist_insert:
  assumes H: "hlist h head (xs @ ys)" and new: "new \<notin> set (xs @ ys)"
  defines "c \<equiv> end_cell (First head) xs"
  assumes ld: "ld_cell h' = (ld_cell h)(Next new := Some (if ys = [] then None else Some (hd ys)), c := Some (Some new))"
    and pv: "ld_hprev h' = (if ys = [] then ld_hprev h else (ld_hprev h)(hd ys := Some (Next new)))(new := Some c)"
  shows "hlist h' head (xs @ new # ys)"
proof -
  note P = hlist_parts [OF H, folded c_def]
  have nc: "Next new \<noteq> c" using new P(5) by (cases xs rule: rev_cases) (auto simp: c_def end_cell_def)
  have "hseg (ld_cell h') (ld_hprev h') (First head) xs \<longleftrightarrow> hseg (ld_cell h) (ld_hprev h) (First head) xs"
  proof (cases "xs = []")
    case False
    have "Next new \<notin> Next ` set (butlast xs)" using new in_set_butlastD by fastforce
    moreover have "hd ys \<notin> set xs" if "ys \<noteq> []" using that P(4) by (cases ys) auto
    ultimately show ?thesis using P(5,6) False new by (intro hseg_cong) (auto simp: ld pv)
  qed simp
  then have 1: "hseg (ld_cell h') (ld_hprev h') (First head) xs" using P(1) by simp
  have 2: "ld_cell h' c = Some (Some new)" "ld_hprev h' new = Some c"
      "ld_cell h' (Next new) = Some (if ys = [] then None else Some (hd ys))"
    using nc by (simp_all add: ld pv)
  have 3: "hchain h' (Next new) ys"
  proof (cases ys)
    case Nil
    then show ?thesis using 2(3) by (simp add: hchain_def)
  next
    case (Cons y zs)
    have ch: "hchain h (Next y) zs" using P(2) Cons by (auto simp: hchain_def)
    have "hseg (ld_cell h') (ld_hprev h') (Next y) zs \<longleftrightarrow> hseg (ld_cell h) (ld_hprev h) (Next y) zs"
    proof (rule hseg_cong; intro allI ballI impI)
      fix d assume "d = Next y \<or> d \<in> Next ` set (butlast zs)"
      then have "d \<in> Next ` set ys" using Cons in_set_butlastD by fastforce
      then show "ld_cell h' d = ld_cell h d" using new P(5) by (auto simp: ld)
    next
      fix x assume "x \<in> set zs"
      then show "ld_hprev h' x = ld_hprev h x" using new P(4) Cons by (auto simp: pv)
    qed
    moreover have "ld_cell h' (end_cell (Next y) zs) = ld_cell h (end_cell (Next y) zs)"
    proof -
      have "end_cell (Next y) zs \<in> Next ` set ys" using Cons by (cases zs rule: rev_cases) (auto simp: end_cell_def)
      then show ?thesis using new P(5) by (auto simp: ld)
    qed
    ultimately show ?thesis using ch 2(3) Cons new by (auto simp: hchain_def pv)
  qed
  have "hchain h' (First head) (xs @ new # ys)"
    using 1 2 3 by (simp add: hchain_def hseg_append c_def)
  then show ?thesis using P(4) new by (auto simp: hlist_def)
qed

lemma hlist_remove:
  assumes H: "hlist h head (xs @ x # ys)"
  defines "c \<equiv> end_cell (First head) xs"
  assumes ld: "ld_cell h' = (ld_cell h)(c := Some (if ys = [] then None else Some (hd ys)))"
    and pv: "ld_hprev h' = (if ys = [] then ld_hprev h else (ld_hprev h)(hd ys := Some c))"
  shows "hlist h' head (xs @ ys)"
proof -
  note P = hlist_parts [OF H, folded c_def]
  have "hseg (ld_cell h') (ld_hprev h') (First head) xs \<longleftrightarrow> hseg (ld_cell h) (ld_hprev h) (First head) xs"
  proof (cases "xs = []")
    case False
    moreover have "hd ys \<notin> set xs" if "ys \<noteq> []" using that P(4) by (cases ys) auto
    ultimately show ?thesis using P(5,6) by (intro hseg_cong) (auto simp: ld pv)
  qed simp
  then have 1: "hseg (ld_cell h') (ld_hprev h') (First head) xs" using P(1) by simp
  have 2: "ld_cell h' c = Some (if ys = [] then None else Some (hd ys))" by (simp add: ld)
  have 3: "hchain h' c ys"
  proof (cases ys)
    case Nil
    then show ?thesis using 2 by (simp add: hchain_def)
  next
    case (Cons y zs)
    have ch: "hchain h (Next y) zs" using P(2) Cons by (auto simp: hchain_def)
    have "hseg (ld_cell h') (ld_hprev h') (Next y) zs \<longleftrightarrow> hseg (ld_cell h) (ld_hprev h) (Next y) zs"
    proof (rule hseg_cong; intro allI ballI impI)
      fix d assume "d = Next y \<or> d \<in> Next ` set (butlast zs)"
      then have "d \<in> Next ` set ys" using Cons in_set_butlastD by fastforce
      then show "ld_cell h' d = ld_cell h d" using P(5) by (auto simp: ld)
    next
      fix z assume "z \<in> set zs"
      then show "ld_hprev h' z = ld_hprev h z" using P(4) Cons by (auto simp: pv)
    qed
    moreover have "ld_cell h' (end_cell (Next y) zs) = ld_cell h (end_cell (Next y) zs)"
    proof -
      have "end_cell (Next y) zs \<in> Next ` set ys" using Cons by (cases zs rule: rev_cases) (auto simp: end_cell_def)
      then show ?thesis using P(5) by (auto simp: ld)
    qed
    ultimately show ?thesis using ch 2 Cons by (auto simp: hchain_def pv)
  qed
  have "end_cell (First head) (xs @ ys) = end_cell c ys" by (cases ys) (simp_all add: c_def end_cell_def)
  then have "hchain h' (First head) (xs @ ys)" using 1 3 by (simp add: hchain_def hseg_append c_def)
  then show ?thesis using P(4) by (auto simp: hlist_def)
qed

subsection \<open>The operations on lists\<close>

lemma st_cellE:
  assumes "ld_cell h c = Some u"
  obtains h' where "st_cell h c v = Some h'" "ld_cell h' = (ld_cell h)(c := Some v)" "ld_hprev h' = ld_hprev h"
proof -
  obtain h' where h': "st_cell h c v = Some h'"
  proof (cases c)
    case (First a)
    then have "a \<in> dom (hh_first h)" using assms by auto
    then show ?thesis using First that by simp
  qed (use assms that in auto)
  have "ld_cell h' d = ((ld_cell h)(c := Some v)) d" for d using h' by (cases c; cases d) (auto split: if_splits)
  moreover have "ld_hprev h' a = ld_hprev h a" for a using h' by (cases c) (auto simp: ld_hprev_def split: if_splits)
  ultimately show thesis using h' that by blast
qed

lemma st_hprevE:
  assumes "ld_hprev h a = Some u"
  obtains h' where "st_hprev h a c = Some h'" "ld_hprev h' = (ld_hprev h)(a := Some c)" "ld_cell h' = ld_cell h"
proof -
  obtain h' where h': "st_hprev h a c = Some h'" using assms by (auto simp: st_hprev_def ld_hprev_def)
  have "ld_cell h' d = ld_cell h d" for d using h' by (cases d) (auto simp: st_hprev_def)
  moreover have "ld_hprev h' x = ((ld_hprev h)(a := Some c)) x" for x using h' by (auto simp: ld_hprev_def st_hprev_def)
  ultimately show thesis using h' that by blast
qed

lemma hh_node_ld: "new \<in> dom (hh_node h) \<longleftrightarrow> (\<exists>u. ld_hprev h new = Some u)" "new \<in> dom (hh_node h) \<longleftrightarrow> (\<exists>u. ld_cell h (Next new) = Some u)"
  by (auto simp: ld_hprev_def)

text \<open>The work that \<open>hlist_add_first\<close> and \<open>hlist_add_after\<close> share: a node behind a pointer.\<close>

lemma hlist_put:
  assumes H: "hlist h head (xs @ ys)" and new: "new \<notin> set (xs @ ys)" "new \<in> dom (hh_node h)"
  defines "c \<equiv> end_cell (First head) xs"
  shows "\<exists>h1 h2 h3 h4. ld_cell h c = Some (if ys = [] then None else Some (hd ys)) \<and>
    st_cell h (Next new) (if ys = [] then None else Some (hd ys)) = Some h1 \<and> st_hprev h1 new c = Some h2 \<and>
    ld_cell h2 c = Some (if ys = [] then None else Some (hd ys)) \<and>
    ld_cell h2 (Next new) = Some (if ys = [] then None else Some (hd ys)) \<and>
    (if ys = [] then Some h2 else st_hprev h2 (hd ys) (Next new)) = Some h3 \<and>
    st_cell h3 c (Some new) = Some h4 \<and> hlist h4 head (xs @ new # ys)"
proof -
  note P = hlist_parts [OF H, folded c_def]
  have nc: "Next new \<noteq> c" using new(1) P(5) by (cases xs rule: rev_cases) (auto simp: c_def end_cell_def)
  let ?y = "if ys = [] then None else Some (hd ys)"
  obtain u v where "ld_cell h (Next new) = Some u" "ld_hprev h new = Some v" using new(2) hh_node_ld by blast
  then obtain h1 where 1: "st_cell h (Next new) ?y = Some h1" "ld_cell h1 = (ld_cell h)(Next new := Some ?y)"
      "ld_hprev h1 = ld_hprev h" using st_cellE by metis
  then obtain h2 where 2: "st_hprev h1 new c = Some h2" "ld_hprev h2 = (ld_hprev h)(new := Some c)" "ld_cell h2 = ld_cell h1"
    using st_hprevE [of h1 new v c] \<open>ld_hprev h new = Some v\<close> by metis
  have "\<exists>h3. (if ys = [] then Some h2 else st_hprev h2 (hd ys) (Next new)) = Some h3 \<and> ld_cell h3 = ld_cell h2 \<and>
      ld_hprev h3 = (if ys = [] then ld_hprev h2 else (ld_hprev h2)(hd ys := Some (Next new)))"
  proof (cases ys)
    case (Cons y zs)
    then have "ld_hprev h y = Some c" using P(2) by (simp add: hchain_def)
    moreover have "y \<noteq> new" using new(1) Cons by auto
    ultimately have "ld_hprev h2 y = Some c" by (simp add: 2(2))
    then show ?thesis using st_hprevE [of h2 y c "Next new"] Cons by auto
  qed simp
  then obtain h3 where 3: "(if ys = [] then Some h2 else st_hprev h2 (hd ys) (Next new)) = Some h3" "ld_cell h3 = ld_cell h2"
      "ld_hprev h3 = (if ys = [] then ld_hprev h2 else (ld_hprev h2)(hd ys := Some (Next new)))" by blast
  have c3: "ld_cell h3 c = Some ?y" using P(3) nc by (simp add: 3(2) 2(3) 1(2))
  then obtain h4 where 4: "st_cell h3 c (Some new) = Some h4" "ld_cell h4 = (ld_cell h3)(c := Some (Some new))" "ld_hprev h4 = ld_hprev h3"
    using st_cellE by metis
  have "hlist h4 head (xs @ new # ys)"
  proof (rule hlist_insert [OF H new(1)])
    show "ld_cell h4 = (ld_cell h)(Next new := Some ?y, end_cell (First head) xs := Some (Some new))"
      by (simp add: 4(2) 3(2) 2(3) 1(2) c_def)
    have "hd ys \<noteq> new" if "ys \<noteq> []" using new(1) that by (cases ys) auto
    then show "ld_hprev h4 = (if ys = [] then ld_hprev h else (ld_hprev h)(hd ys := Some (Next new)))(new := Some (end_cell (First head) xs))"
      by (auto simp: 4(3) 3(3) 2(2) c_def fun_upd_twist)
  qed
  then show ?thesis using P(3) 1(1) 2(1) 3(1) 4(1) c3 nc by (intro exI [of _ h1] exI [of _ h2] exI [of _ h3] exI [of _ h4]) (simp add: 3(2) 2(3) 1(2))
qed

lemma hlist_add_first_ok:
  assumes "hlist h head ys" "new \<notin> set ys" "new \<in> dom (hh_node h)"
  shows "\<exists>h'. hlist_add_first h head new = Some h' \<and> hlist h' head (new # ys)"
proof -
  have "hlist h head ([] @ ys)" "new \<notin> set ([] @ ys)" using assms(1,2) by simp_all
  from hlist_put [OF this assms(3), unfolded end_cell_simps append_Nil] show ?thesis
    unfolding hlist_add_first_def by (cases ys) auto
qed

lemma hlist_add_after_ok:
  assumes "hlist h head (xs @ node # ys)" "new \<notin> set (xs @ node # ys)" "new \<in> dom (hh_node h)"
  shows "\<exists>h'. hlist_add_after h node new = Some h' \<and> hlist h' head (xs @ node # new # ys)"
proof -
  have "hlist h head ((xs @ [node]) @ ys)" "new \<notin> set ((xs @ [node]) @ ys)" using assms(1,2) by simp_all
  from hlist_put [OF this assms(3), unfolded end_cell_simps] show ?thesis
    unfolding hlist_add_after_def by (cases ys) auto
qed

lemma hlist_del_ok:
  assumes H: "hlist h head (xs @ x # ys)"
  shows "\<exists>h'. hlist_del h x = Some h' \<and> hlist h' head (xs @ ys)"
proof -
  let ?c = "end_cell (First head) xs" and ?y = "if ys = [] then None else Some (hd ys)"
  note P = hlist_parts [OF H]
  have x: "ld_hprev h x = Some ?c" "ld_cell h ?c = Some (Some x)" using P(2,3) by (simp_all add: hchain_def)
  have "hlist h head ((xs @ [x]) @ ys)" using H by simp
  from hlist_parts(2,3) [OF this] have n: "hchain h (Next x) ys" "ld_cell h (Next x) = Some ?y" by simp_all
  have xc: "Next x \<noteq> ?c" using P(5) by auto
  have "\<exists>h1. (case ?y of None \<Rightarrow> Some h | Some z \<Rightarrow> do { c \<leftarrow> ld_hprev h x; st_hprev h z c }) = Some h1 \<and> ld_cell h1 = ld_cell h \<and>
      ld_hprev h1 = (if ys = [] then ld_hprev h else (ld_hprev h)(hd ys := Some ?c)) \<and> ld_hprev h1 x = Some ?c"
  proof (cases ys)
    case (Cons y zs)
    then have "ld_hprev h y = Some (Next x)" using n(1) by (simp add: hchain_def)
    from st_hprevE [OF this, of ?c] x(1) P(4) Cons show ?thesis by fastforce
  qed (simp add: x)
  then obtain h1 where 1: "(case ?y of None \<Rightarrow> Some h | Some z \<Rightarrow> do { c \<leftarrow> ld_hprev h x; st_hprev h z c }) = Some h1" "ld_cell h1 = ld_cell h"
      "ld_hprev h1 = (if ys = [] then ld_hprev h else (ld_hprev h)(hd ys := Some ?c))" "ld_hprev h1 x = Some ?c" by blast
  obtain h2 where 2: "st_cell h1 ?c ?y = Some h2" "ld_cell h2 = (ld_cell h1)(?c := Some ?y)" "ld_hprev h2 = ld_hprev h1"
    using st_cellE [of h1 ?c] x(2) 1(2) by metis
  have "hlist_del h x = Some h2"
    unfolding hlist_del_def n(2) bind.bind_lunit 1(1) 1(4) using n(2) 2(1) by (simp add: 1(2) del: ld_cell.simps)
  moreover have "hlist h2 head (xs @ ys)" by (rule hlist_remove [OF H]) (simp_all add: 2(2,3) 1(2,3))
  ultimately show ?thesis by blast
qed

lemma hlist_add_before_ok:
  assumes H: "hlist h head (xs @ node # ys)" and new: "new \<notin> set (xs @ node # ys)" "new \<in> dom (hh_node h)"
  shows "\<exists>h'. hlist_add_before h node new = Some h' \<and> hlist h' head (xs @ new # node # ys)"
proof -
  let ?c = "end_cell (First head) xs"
  note P = hlist_parts [OF H]
  have n: "ld_hprev h node = Some ?c" "ld_cell h ?c = Some (Some node)" using P(2,3) by (simp_all add: hchain_def)
  have nn: "node \<noteq> new" using new(1) by auto
  have nc: "Next new \<noteq> ?c" using new(1) by (cases xs rule: rev_cases) (auto simp: end_cell_def)
  obtain u v where uv: "ld_cell h (Next new) = Some u" "ld_hprev h new = Some v" using new(2) hh_node_ld by blast
  obtain h1 where 1: "st_cell h (Next new) (Some node) = Some h1" "ld_cell h1 = (ld_cell h)(Next new := Some (Some node))"
      "ld_hprev h1 = ld_hprev h" using st_cellE [OF uv(1)] by metis
  obtain h2 where 2: "st_hprev h1 new ?c = Some h2" "ld_hprev h2 = (ld_hprev h)(new := Some ?c)" "ld_cell h2 = ld_cell h1"
    using st_hprevE [of h1 new v ?c] uv(2) 1(3) by metis
  obtain h3 where 3: "st_hprev h2 node (Next new) = Some h3" "ld_hprev h3 = (ld_hprev h2)(node := Some (Next new))" "ld_cell h3 = ld_cell h2"
    using st_hprevE [of h2 node ?c "Next new"] n(1) nn 2(2) by (metis fun_upd_apply)
  obtain h4 where 4: "st_cell h3 ?c (Some new) = Some h4" "ld_cell h4 = (ld_cell h3)(?c := Some (Some new))" "ld_hprev h4 = ld_hprev h3"
    using st_cellE [of h3 ?c "Some node" "Some new"] n(2) nc 3(3) 2(3) 1(2) by (metis fun_upd_apply)
  have "hlist_add_before h node new = Some h4"
    using 1(1) 2(1) 3(1) 4(1) n(1) nn by (simp add: hlist_add_before_def 1(3) 3(2) 2(2) del: st_cell.simps)
  moreover have "hlist h4 head (xs @ new # node # ys)"
    using nn by (intro hlist_insert [OF H new(1)]) (simp_all add: 4(2,3) 3(2,3) 2(2,3) 1(2) fun_upd_twist)
  ultimately show ?thesis by blast
qed

lemma hlist_walk_chain:
  "hchain h c xs \<Longrightarrow> \<exists>f. ld_cell h c = Some f \<and> hlist_walk h f = Some xs"
proof (induction xs arbitrary: c)
  case Nil
  then show ?case by (auto simp: hchain_def hlist_walk.simps)
next
  case (Cons x xs)
  then obtain f where "ld_cell h (Next x) = Some f" "hlist_walk h f = Some xs" by (fastforce simp: hchain_def)
  then have "hlist_walk h (Some x) = Some (x # xs)" by (subst hlist_walk.simps) (simp del: ld_cell.simps)
  then show ?case using Cons.prems by (auto simp: hchain_def)
qed

text \<open>C36. The lists with a pointer as head are sequences: adding a node first, after or before a node of
  the list, deleting a node of the list and visiting the nodes have the effect of
  the operations on the sequence, with the pointers to pointers of every node kept right.
\<close>

theorem hlist_ops_refine:
  assumes "hlist h head (xs @ node # ys)" "new \<notin> set (xs @ node # ys)" "new \<in> dom (hh_node h)"
  shows "(\<exists>h'. hlist_add_first h head new = Some h' \<and> hlist h' head (new # xs @ node # ys)) \<and>
    (\<exists>h'. hlist_add_after h node new = Some h' \<and> hlist h' head (xs @ node # new # ys)) \<and>
    (\<exists>h'. hlist_add_before h node new = Some h' \<and> hlist h' head (xs @ new # node # ys)) \<and>
    (\<exists>h'. hlist_del h node = Some h' \<and> hlist h' head (xs @ ys)) \<and>
    hlist_for_each h head = Some (xs @ node # ys)"
proof -
  have "hlist_for_each h head = Some (xs @ node # ys)"
    using hlist_walk_chain [of h "First head" "xs @ node # ys"] assms(1) by (auto simp: hlist_for_each_def hlist_def)
  then show ?thesis
    using hlist_add_first_ok [OF assms] hlist_add_after_ok [OF assms] hlist_add_before_ok [OF assms] hlist_del_ok [OF assms(1)]
    by blast
qed

definition hheap_ex :: hlist_heap where
  "hheap_ex = \<lparr>hh_first = [1 \<mapsto> Some 2],
     hh_node = [2 \<mapsto> \<lparr>hn_next = None, hn_prev = First 1\<rparr>, 3 \<mapsto> \<lparr>hn_next = None, hn_prev = First 0\<rparr>]\<rparr>"

theorem hlist_ops_refine_witness:
  "hlist hheap_ex 1 ([] @ 2 # []) \<and> (\<exists>h'. hlist_add_after hheap_ex 2 3 = Some h' \<and> hlist h' 1 [2, 3])"
proof -
  have h: "hlist hheap_ex 1 ([] @ 2 # [])" by (simp add: hheap_ex_def hlist_def hchain_def ld_hprev_def)
  have "3 \<notin> set ([] @ 2 # [] :: addr list)" "3 \<in> dom (hh_node hheap_ex)" by (simp_all add: hheap_ex_def)
  from hlist_ops_refine [OF h this] h show ?thesis by simp
qed

end
