(* ===== verification/Ufp_Os.thy ===== *)
theory Ufp_Os
  imports Ufp_Prelude
begin

text \<open>
  What the set-up code asks of the operating system and the C library: memory, file descriptors and
  mappings that it gets and has to give back. The state says which calls will succeed, in order, and
  which resources are held; giving back what is not held is undefined. The theorems about set-up
  and tear-down are about the multiset of the held resources.
\<close>

text \<open>
  A resource: memory of \<open>malloc\<close>, an open descriptor, a mapping of \<open>mmap\<close>, a mapping for DMA, an open
  directory, a loaded library.
\<close>

datatype res = Heap nat | Fd nat | Mmap nat | Iova u64 | Dir nat | Dl nat

text \<open>
  The requests that change a device, with what they are given: those of \<open>ioctl\<close>, and the masks written for
  the interrupt with a vector; and a signal to the main thread.
\<close>

datatype req =
    TUNSETIFF string u16
  | TUNSETPERSIST int
  | SIOCSIFHWADDR string "u8 list"
  | SIOCSIFMTU string u32
  | SIOCSIFFLAGS string u16
  | VFIO_DEVICE_SET_IRQS u32 "int list"
  | SMP_AFFINITY u32 u32 u32
  | PTHREAD_KILL int

text \<open>
  The state: the outcomes of the coming calls, the values that the coming successful queries give,
  the next handle, what is held, the addresses of the mappings for DMA that the kernel refused to remove, the requests
  that were made, and the page size.
\<close>

record os =
  os_calls :: "bool list"
  os_vals :: "int list"
  os_next :: nat
  os_live :: "res multiset"
  os_stuck :: "u64 multiset"
  os_log :: "req list"
  os_page :: nat

definition os_ask :: "os \<Rightarrow> bool \<times> os" where
  "os_ask s = (case c_malloc (os_calls s) of (b, cs) \<Rightarrow> (b, s\<lparr>os_calls := cs\<rparr>))"

definition os_get :: "(nat \<Rightarrow> res) \<Rightarrow> os \<Rightarrow> nat option \<times> os" where
  "os_get k s =
     (case os_ask s of
        (True, s) \<Rightarrow> (Some (os_next s), s\<lparr>os_next := Suc (os_next s), os_live := add_mset (k (os_next s)) (os_live s)\<rparr>)
      | (False, s) \<Rightarrow> (None, s))"

definition os_put :: "res \<Rightarrow> os \<Rightarrow> os option" where
  "os_put r s = (if r \<in># os_live s then Some (s\<lparr>os_live := os_live s - {#r#}\<rparr>) else None)"

text \<open>Descriptors as C has them: a failed \<open>open\<close> gives -1, on which every \<open>ioctl\<close> fails and \<open>close\<close> does nothing.\<close>

definition os_open :: "os \<Rightarrow> int \<times> os" where
  "os_open s = (case os_get Fd s of (None, s) \<Rightarrow> (-1, s) | (Some n, s) \<Rightarrow> (int n, s))"

definition os_close :: "int \<Rightarrow> os \<Rightarrow> os option" where
  "os_close fd s = (if fd < 0 then Some s else os_put (Fd (nat fd)) s)"

definition os_ioctl :: "int \<Rightarrow> os \<Rightarrow> int \<times> os" where
  "os_ioctl fd s = (if fd < 0 then (-1, s) else case os_ask s of (b, s) \<Rightarrow> (if b then 0 else -1, s))"

definition os_request :: "req \<Rightarrow> int \<Rightarrow> os \<Rightarrow> int \<times> os" where
  "os_request q fd s =
     (case os_ioctl fd s of (err, s) \<Rightarrow> (err, if err < 0 then s else s\<lparr>os_log := os_log s @ [q]\<rparr>))"

text \<open>A query: the value that the kernel fills in, or none.\<close>

definition os_query :: "int \<Rightarrow> os \<Rightarrow> int option \<times> os" where
  "os_query fd s =
     (case os_ioctl fd s of
        (err, s) \<Rightarrow> if err < 0 then (None, s)
          else (case os_vals s of [] \<Rightarrow> (Some 0, s) | v # vs \<Rightarrow> (Some v, s\<lparr>os_vals := vs\<rparr>)))"

text \<open>A number read from a file or a string.\<close>

definition os_read :: "os \<Rightarrow> int option \<times> os" where
  "os_read s =
     (case os_ask s of
        (False, s) \<Rightarrow> (None, s)
      | (True, s) \<Rightarrow> (case os_vals s of [] \<Rightarrow> (Some 0, s) | v # vs \<Rightarrow> (Some v, s\<lparr>os_vals := vs\<rparr>)))"

subsection \<open>What is held\<close>

text \<open>The second state holds what the first one holds and \<open>R\<close>.\<close>

definition holds :: "os \<Rightarrow> res multiset \<Rightarrow> os \<Rightarrow> bool" where
  "holds s R s' \<longleftrightarrow> os_live s' = os_live s + R \<and> os_page s' = os_page s"

lemma holds_refl [simp]: "holds s {#} s"
  by (simp add: holds_def)

lemma holds_trans: "holds s R s1 \<Longrightarrow> holds s1 Q s2 \<Longrightarrow> holds s (R + Q) s2"
  by (simp add: holds_def)

lemma os_ask_holds: "os_ask s = (b, s') \<Longrightarrow> holds s {#} s'"
  by (auto simp: os_ask_def holds_def split: prod.splits)

lemma os_get_holds: "os_get k s = (r, s') \<Longrightarrow> holds s (case r of None \<Rightarrow> {#} | Some n \<Rightarrow> {#k n#}) s'"
  by (auto simp: os_get_def os_ask_def holds_def split: prod.splits bool.splits)

lemma os_put_holds: "holds s (add_mset r R) s1 \<Longrightarrow> \<exists>s2. os_put r s1 = Some s2 \<and> holds s R s2"
  by (simp add: os_put_def holds_def)

definition fd_res :: "int \<Rightarrow> res multiset" where
  "fd_res fd = (if fd < 0 then {#} else {#Fd (nat fd)#})"

lemma os_open_holds: "os_open s = (fd, s') \<Longrightarrow> holds s (fd_res fd) s'"
  by (auto simp: os_open_def fd_res_def split: prod.splits option.splits dest: os_get_holds)

lemma os_close_holds: "holds s (fd_res fd + R) s1 \<Longrightarrow> \<exists>s2. os_close fd s1 = Some s2 \<and> holds s R s2"
  using os_put_holds [of s _ R s1] by (auto simp: os_close_def fd_res_def)

lemma os_ioctl_holds: "os_ioctl fd s = (r, s') \<Longrightarrow> holds s {#} s'"
  by (auto simp: os_ioctl_def split: if_splits prod.splits dest: os_ask_holds)

lemma os_request_holds: "os_request q fd s = (r, s') \<Longrightarrow> holds s {#} s'"
  by (auto simp: os_request_def holds_def split: prod.splits if_splits dest: os_ioctl_holds)

lemma os_query_holds: "os_query fd s = (r, s') \<Longrightarrow> holds s {#} s'"
  by (auto simp: os_query_def holds_def split: prod.splits if_splits list.splits dest: os_ioctl_holds)

lemma os_read_holds: "os_read s = (r, s') \<Longrightarrow> holds s {#} s'"
  by (auto simp: os_read_def os_ask_def holds_def split: prod.splits bool.splits list.splits)

lemma os_ioctl_range: "os_ioctl fd s = (r, s') \<Longrightarrow> r = 0 \<or> r = -1" "os_ioctl fd s = (0, s') \<Longrightarrow> 0 \<le> fd"
  by (auto simp: os_ioctl_def split: if_splits prod.splits)

text \<open>Closing the first descriptors of an array, and all of them.\<close>

fun os_close_all :: "int list \<Rightarrow> os \<Rightarrow> os option" where
  "os_close_all [] s = Some s"
| "os_close_all (fd # fds) s = do { s \<leftarrow> os_close fd s; os_close_all fds s }"

definition fds_res :: "int list \<Rightarrow> res multiset" where
  "fds_res fds = sum_list (map fd_res fds)"

lemma fds_res_simps [simp]: "fds_res [] = {#}" "fds_res (fd # fds) = fd_res fd + fds_res fds" "fds_res (xs @ ys) = fds_res xs + fds_res ys"
  by (simp_all add: fds_res_def)

lemma os_close_all_holds:
  "holds s (fds_res fds + R) s1 \<Longrightarrow> \<exists>s2. os_close_all fds s1 = Some s2 \<and> holds s R s2"
proof (induction fds arbitrary: s1)
  case (Cons fd fds)
  then obtain s2 where "os_close fd s1 = Some s2" "holds s (fds_res fds + R) s2"
    using os_close_holds [of s fd "fds_res fds + R" s1] by (auto simp: add.assoc)
  then show ?case using Cons.IH by simp
qed simp

text \<open>Memory of \<open>malloc\<close> and open directory streams only, the latter with their descriptor: what some error paths of the code do not give back.\<close>

definition leaks :: "res multiset \<Rightarrow> bool" where
  "leaks R \<longleftrightarrow> (\<forall>r \<in># R. (\<exists>p. r = Heap p) \<or> (\<exists>d. r = Dir d))"

lemma leaks_simps [simp]: "leaks {#}" "leaks (add_mset (Heap p) R) \<longleftrightarrow> leaks R" "leaks (add_mset (Dir d) R) \<longleftrightarrow> leaks R"
    "leaks (A + B) \<longleftrightarrow> leaks A \<and> leaks B"
  by (auto simp: leaks_def)

lemma leaks_heap [simp]: "leaks (image_mset (\<lambda>x. Heap (f x)) M)"
  by (auto simp: leaks_def)

text \<open>The same facts as equations of what is held, for code without loops.\<close>

lemma os_live_eqs:
  "os_ask s = (b, s') \<Longrightarrow> os_live s' = os_live s \<and> os_page s' = os_page s"
  "os_get k s = (None, s') \<Longrightarrow> os_live s' = os_live s \<and> os_page s' = os_page s"
  "os_get k s = (Some n, s') \<Longrightarrow> os_live s' = add_mset (k n) (os_live s) \<and> os_page s' = os_page s"
  "os_ioctl fd s = (r, s') \<Longrightarrow> os_live s' = os_live s \<and> os_page s' = os_page s"
  "os_query fd s = (v, s') \<Longrightarrow> os_live s' = os_live s \<and> os_page s' = os_page s"
  "os_read s = (v, s') \<Longrightarrow> os_live s' = os_live s \<and> os_page s' = os_page s"
  using os_ask_holds [of s b s'] os_get_holds [of k s] os_ioctl_holds [of fd s r s'] os_query_holds [of fd s v s']
    os_read_holds [of s v s'] by (fastforce simp: holds_def)+

end
