(* ===== verification/Ufp_Iface.thy ===== *)
theory Ufp_Iface
  imports Ufp_Io Ufp_Os
begin

text \<open>
  Interfaces and devices, \<open>struct ufp_iface\<close> and \<open>struct ufp_dev\<close> of \<open>lib/lib_main.h\<close>. A pointer to an
  array or object that the code allocates and frees is kept as the pair of its handle and what it points to.
\<close>

record 'd ufp_iface =
  if_tx_ring :: "nat \<times> (nat \<times> 'd ufp_ring) list"
  if_rx_ring :: "nat \<times> (nat \<times> 'd ufp_ring) list"
  if_rx_irq :: "nat \<times> (nat \<times> ufp_irq) list"
  if_tx_irq :: "nat \<times> (nat \<times> ufp_irq) list"
  if_num_tx_desc :: u32
  if_size_tx_desc :: nat
  if_num_rx_desc :: u32
  if_size_rx_desc :: nat
  if_rx_budget :: u32
  if_tx_budget :: u32
  if_num_qps :: u32
  if_irq_rate :: u32
  if_promisc :: u32
  if_buf_size :: u32
  if_mtu_frame :: u32
  if_mac_addr :: "u8 list"
  if_tap_fds :: "nat \<times> int list"
  if_tap_index :: int
  if_name :: string

record 'd ufp_dev =
  dev_fd :: int
  dev_bar :: addr
  dev_bar_size :: nat
  dev_name :: string
  dev_ops :: "'d ufp_ops"
  dev_iface :: "'d ufp_iface list"
  dev_num_ifaces :: u16
  dev_num_misc_irqs :: u32
  dev_misc_irq :: "nat \<times> (nat \<times> ufp_irq) list"
  dev_device_id :: u16
  dev_vendor_id :: u16

end
