(* ===== verification/Ufp_Vfio.thy ===== *)
theory Ufp_Vfio
  imports Ufp_Iface
begin

text \<open>
  Access to the device through VFIO, \<open>lib/lib_vfio.c\<close>: the container, the group and the device, the mappings for
  DMA, the registers of the device, and its interrupts.
\<close>

subsection \<open>Container and mappings\<close>

record ufp_vfio =
  vf_container :: int
  vf_iommu_type :: int

definition VFIO_TYPE1_IOMMU :: int where "VFIO_TYPE1_IOMMU = 1"

text \<open>The version and the extension are answers of \<open>ioctl\<close>: whether they are the wanted ones is part of its outcome.\<close>

definition ufp_vfio_container_open :: "ufp_vfio \<Rightarrow> os \<Rightarrow> (int \<times> ufp_vfio \<times> os) option" where
  "ufp_vfio_container_open vfio s =
     do { let (fd, s) = os_open s;
          let vfio = vfio\<lparr>vf_container := fd\<rparr>;
          if fd < 0 then Some (-1, vfio, s)
          else do {
            let (err, s) = os_ioctl fd s;
            if err < 0 then do { s \<leftarrow> os_close fd s; Some (-1, vfio, s) }
            else do {
              let (err, s) = os_ioctl fd s;
              if err < 0 then do { s \<leftarrow> os_close fd s; Some (-1, vfio, s) }
              else Some (0, vfio, s) } } }"

definition ufp_vfio_container_close :: "ufp_vfio \<Rightarrow> os \<Rightarrow> os option" where
  "ufp_vfio_container_close vfio s = os_close (vf_container vfio) s"

definition ufp_vfio_iommu_type_set :: "ufp_vfio \<Rightarrow> os \<Rightarrow> int \<times> ufp_vfio \<times> os" where
  "ufp_vfio_iommu_type_set vfio s =
     (if vf_iommu_type vfio \<noteq> 0 then (0, vfio, s)
      else case os_ioctl (vf_container vfio) s of
        (err, s) \<Rightarrow> if err < 0 then (-1, vfio, s)
      else case os_ioctl (vf_container vfio) s of
        (err, s) \<Rightarrow> if err < 0 then (-1, vfio, s)
      else (0, vfio\<lparr>vf_iommu_type := VFIO_TYPE1_IOMMU\<rparr>, s))"

text \<open>
  A mapping for DMA has the address of the memory; \<open>None\<close> stands for the result -1. A mapping that the kernel does
  not remove is no longer held by the program, which never asks for it again.
\<close>

definition ufp_vfio_dma_map :: "addr \<Rightarrow> nat \<Rightarrow> os \<Rightarrow> u64 option \<times> os" where
  "ufp_vfio_dma_map addr_virt sz s =
     (case os_ask s of
        (False, s) \<Rightarrow> (None, s)
      | (True, s) \<Rightarrow> (Some (of_nat addr_virt), s\<lparr>os_live := add_mset (Iova (of_nat addr_virt)) (os_live s)\<rparr>))"

definition ufp_vfio_dma_unmap :: "u64 \<Rightarrow> nat \<Rightarrow> os \<Rightarrow> (int \<times> os) option" where
  "ufp_vfio_dma_unmap iova sz s =
     do { let (b, s) = os_ask s;
          s \<leftarrow> os_put (Iova iova) s;
          Some (if b then (0, s) else (-1, s\<lparr>os_stuck := add_mset iova (os_stuck s)\<rparr>)) }"

subsection \<open>Device\<close>

text \<open>The flag of the region is part of the answer of \<open>ioctl\<close>, its size a value of it.\<close>

definition ufp_vfio_map_bar0 :: "'d ufp_dev \<Rightarrow> os \<Rightarrow> int \<times> 'd ufp_dev \<times> os" where
  "ufp_vfio_map_bar0 dev s =
     (case os_query (dev_fd dev) s of
        (None, s) \<Rightarrow> (-1, dev, s)
      | (Some sz, s) \<Rightarrow>
          (case os_ask s of
             (False, s) \<Rightarrow> (-1, dev, s)
           | (True, s) \<Rightarrow>
               let dev = dev\<lparr>dev_bar_size := nat sz\<rparr> in
               (case os_get Mmap s of
                  (None, s) \<Rightarrow> (-1, dev, s)
                | (Some bar, s) \<Rightarrow> (0, dev\<lparr>dev_bar := bar\<rparr>, s))))"

definition PCI_COMMAND_MASTER :: u16 where "PCI_COMMAND_MASTER = 0x4"

text \<open>The result has the new value of the command register of the device.\<close>

definition ufp_vfio_bus_master_set :: "'d ufp_dev \<Rightarrow> os \<Rightarrow> u16 option \<times> os" where
  "ufp_vfio_bus_master_set dev s =
     (case os_ioctl (dev_fd dev) s of
        (err, s) \<Rightarrow> if err < 0 then (None, s)
      else case os_read s of
        (None, s) \<Rightarrow> (None, s)
      | (Some v, s) \<Rightarrow>
          let reg = (of_int v :: u16) OR PCI_COMMAND_MASTER in
          (case os_ask s of (b, s) \<Rightarrow> (if b then Some reg else None, s)))"

definition ufp_vfio_vendor_id :: "'d ufp_dev \<Rightarrow> os \<Rightarrow> (int \<times> 'd ufp_dev \<times> os) option" where
  "ufp_vfio_vendor_id dev s =
     do { let (f, s) = os_get Fd s;
          case f of None \<Rightarrow> Some (-1, dev, s)
          | Some file \<Rightarrow> do {
              let (v, s) = os_read s;
              s \<leftarrow> os_put (Fd file) s;
              Some (case v of None \<Rightarrow> (-1, dev, s) | Some v \<Rightarrow> (0, dev\<lparr>dev_vendor_id := of_int v\<rparr>, s)) } }"

definition ufp_vfio_device_id :: "'d ufp_dev \<Rightarrow> os \<Rightarrow> (int \<times> 'd ufp_dev \<times> os) option" where
  "ufp_vfio_device_id dev s =
     do { let (f, s) = os_get Fd s;
          case f of None \<Rightarrow> Some (-1, dev, s)
          | Some file \<Rightarrow> do {
              let (v, s) = os_read s;
              s \<leftarrow> os_put (Fd file) s;
              Some (case v of None \<Rightarrow> (-1, dev, s) | Some v \<Rightarrow> (0, dev\<lparr>dev_device_id := of_int v\<rparr>, s)) } }"

definition ufp_vfio_group_id :: "os \<Rightarrow> (int \<times> os) option" where
  "ufp_vfio_group_id s =
     do { let (p, s) = os_get Heap s;
          case p of None \<Rightarrow> Some (-1, s)
          | Some linkpath \<Rightarrow> do {
              let (v, s) = os_read s;
              s \<leftarrow> os_put (Heap linkpath) s;
              Some (case v of None \<Rightarrow> -1 | Some v \<Rightarrow> sint (of_int v :: u32), s) } }"

definition ufp_vfio_group_open :: "ufp_vfio \<Rightarrow> os \<Rightarrow> (int \<times> ufp_vfio \<times> os) option" where
  "ufp_vfio_group_open vfio s =
     do { (group_id, s) \<leftarrow> ufp_vfio_group_id s;
          if group_id < 0 then Some (-1, vfio, s)
          else do {
            let (group_fd, s) = os_open s;
            if group_fd < 0 then Some (-1, vfio, s)
            else do {
              let err = (\<lambda>vfio s. do { s \<leftarrow> os_close group_fd s; Some (-1, vfio, s) });
              let (e, s) = os_ioctl group_fd s;
              if e < 0 then err vfio s
              else do {
                let (viable, s) = os_ask s;
                if \<not> viable then err vfio s
                else do {
                  let (container_set, s) = os_ask s;
                  let (e, s) = (if container_set then (0, s) else os_ioctl group_fd s);
                  if e < 0 then err vfio s
                  else do {
                    let (e, vfio, s) = ufp_vfio_iommu_type_set vfio s;
                    if e < 0 then err vfio s else Some (group_fd, vfio, s) } } } } } }"

definition ufp_vfio_device_open :: "'d ufp_dev \<Rightarrow> int \<Rightarrow> os \<Rightarrow> (int \<times> 'd ufp_dev \<times> os) option" where
  "ufp_vfio_device_open dev group_fd s =
     do { let (fd, s) = os_open s;
          let dev = dev\<lparr>dev_fd := fd\<rparr>;
          if fd < 0 then Some (-1, dev, s)
          else do {
            let err_map_bar0 = (\<lambda>dev s. do { s \<leftarrow> os_close fd s; Some (-1, dev, s) });
            let err_bus_master = (\<lambda>dev s. do { s \<leftarrow> os_put (Mmap (dev_bar dev)) s; s \<leftarrow> os_close fd s; Some (-1, dev, s) });
            let (e, s) = os_ioctl fd s;
            if e < 0 then err_map_bar0 dev s
            else do {
              let (has_regions, s) = os_ask s;
              if \<not> has_regions then err_map_bar0 dev s
              else do {
                let (e, dev, s) = ufp_vfio_map_bar0 dev s;
                if e < 0 then err_map_bar0 dev s
                else do {
                  let (r, s) = ufp_vfio_bus_master_set dev s;
                  if r = None then err_bus_master dev s
                  else do {
                    (e, dev, s) \<leftarrow> ufp_vfio_vendor_id dev s;
                    if e < 0 then err_bus_master dev s
                    else do {
                      (e, dev, s) \<leftarrow> ufp_vfio_device_id dev s;
                      if e < 0 then err_bus_master dev s
                      else do {
                        let (e, s) = os_ioctl fd s;
                        if e < 0 then err_bus_master dev s else Some (0, dev, s) } } } } } } } }"

subsection \<open>Interrupts\<close>

text \<open>The first elements of an array of interrupts, undefined when it is shorter.\<close>

definition irq_prefix :: "u32 \<Rightarrow> (nat \<times> ufp_irq) list \<Rightarrow> ufp_irq list option" where
  "irq_prefix n irqs = (if unat n \<le> length irqs then Some (map snd (take (unat n) irqs)) else None)"

text \<open>The interrupts of a device in the order in which its vectors are given: misc, then receive and transmit of each interface.\<close>

fun iface_irqs :: "'d ufp_iface list \<Rightarrow> ufp_irq list option" where
  "iface_irqs [] = Some []"
| "iface_irqs (iface # ifaces) =
     do { rx \<leftarrow> irq_prefix (if_num_qps iface) (snd (if_rx_irq iface));
          tx \<leftarrow> irq_prefix (if_num_qps iface) (snd (if_tx_irq iface));
          rest \<leftarrow> iface_irqs ifaces;
          Some (rx @ tx @ rest) }"

definition dev_irqs :: "'d ufp_dev \<Rightarrow> ufp_irq list option" where
  "dev_irqs dev =
     do { misc \<leftarrow> irq_prefix (dev_num_misc_irqs dev) (snd (dev_misc_irq dev));
          rest \<leftarrow> iface_irqs (dev_iface dev);
          Some (misc @ rest) }"

text \<open>The buffer has room for \<open>num_irqs\<close> descriptors: writing more of them is undefined.\<close>

definition ufp_vfio_irq_set :: "'d ufp_dev \<Rightarrow> u32 \<Rightarrow> os \<Rightarrow> (int \<times> os) option" where
  "ufp_vfio_irq_set dev num_irqs s =
     do { let (err, s) = os_ioctl (dev_fd dev) s;
          if err < 0 then Some (-1, s)
          else do {
            let (eventfd, s) = os_ask s;
            if \<not> eventfd then Some (-1, s)
            else do {
              let (p, s) = os_get Heap s;
              case p of None \<Rightarrow> Some (-1, s)
              | Some irq_set_buf \<Rightarrow> do {
                  irqs \<leftarrow> dev_irqs dev;
                  if unat num_irqs < length irqs then None
                  else do {
                    let (err, s) = os_request (VFIO_DEVICE_SET_IRQS num_irqs (map irq_fd irqs)) (dev_fd dev) s;
                    s \<leftarrow> os_put (Heap irq_set_buf) s;
                    Some (if err < 0 then -1 else 0, s) } } } } }"

definition ufp_vfio_irq_unset :: "'d ufp_dev \<Rightarrow> os \<Rightarrow> int \<times> os" where
  "ufp_vfio_irq_unset dev s =
     (case os_request (VFIO_DEVICE_SET_IRQS 0 []) (dev_fd dev) s of (err, s) \<Rightarrow> (if err < 0 then -1 else 0, s))"

text \<open>
  The list of the vectors found in a directory: an element is the memory of a \<open>struct ufp_vfio_irq_entry\<close> and
  its vector. The index of the last entry with a smaller vector, and the insertion after it.
\<close>

type_synonym irq_entries = "(nat \<times> u32) list"

fun irq_prior :: "u32 \<Rightarrow> irq_entries \<Rightarrow> nat \<Rightarrow> nat option \<Rightarrow> nat option" where
  "irq_prior v [] i prior = prior"
| "irq_prior v (e # es) i prior = irq_prior v es (Suc i) (if snd e < v then Some i else prior)"

definition irq_insert :: "nat \<times> u32 \<Rightarrow> irq_entries \<Rightarrow> irq_entries" where
  "irq_insert e head =
     (case irq_prior (snd e) head 0 None of
        None \<Rightarrow> e # head
      | Some i \<Rightarrow> take (Suc i) head @ e # drop (Suc i) head)"

text \<open>The loop over the directory, whose entries are given as what \<open>sscanf\<close> reads of their names.\<close>

fun irq_dir_loop :: "u32 option list \<Rightarrow> irq_entries \<Rightarrow> os \<Rightarrow> bool \<times> irq_entries \<times> os" where
  "irq_dir_loop [] head s = (True, head, s)"
| "irq_dir_loop (None # entries) head s = irq_dir_loop entries head s"
| "irq_dir_loop (Some vector # entries) head s =
     (case os_get Heap s of
        (None, s) \<Rightarrow> (False, head, s)
      | (Some p, s) \<Rightarrow> irq_dir_loop entries (irq_insert (p, vector) head) s)"

text \<open>Giving the first vectors of the list to the first \<open>n\<close> interrupts; it ends early without vectors.\<close>

fun irq_assign :: "nat \<Rightarrow> (nat \<times> ufp_irq) list \<Rightarrow> irq_entries \<Rightarrow> (bool \<times> (nat \<times> ufp_irq) list \<times> irq_entries) option" where
  "irq_assign 0 irqs head = Some (True, irqs, head)"
| "irq_assign (Suc n) irqs [] = Some (False, irqs, [])"
| "irq_assign (Suc n) [] (e # head) = None"
| "irq_assign (Suc n) ((p, irq) # irqs) (e # head) =
     do { (ok, irqs, head) \<leftarrow> irq_assign n irqs head;
          Some (ok, (p, irq\<lparr>irq_vector := snd e\<rparr>) # irqs, head) }"

fun iface_assign :: "'d ufp_iface list \<Rightarrow> irq_entries \<Rightarrow> (bool \<times> 'd ufp_iface list \<times> irq_entries) option" where
  "iface_assign [] head = Some (True, [], head)"
| "iface_assign (iface # ifaces) head =
     do { (ok, irqs, head) \<leftarrow> irq_assign (unat (if_num_qps iface)) (snd (if_rx_irq iface)) head;
          let iface = iface\<lparr>if_rx_irq := (fst (if_rx_irq iface), irqs)\<rparr>;
          if \<not> ok then Some (False, iface # ifaces, head)
          else do {
            (ok, irqs, head) \<leftarrow> irq_assign (unat (if_num_qps iface)) (snd (if_tx_irq iface)) head;
            let iface = iface\<lparr>if_tx_irq := (fst (if_tx_irq iface), irqs)\<rparr>;
            if \<not> ok then Some (False, iface # ifaces, head)
            else do {
              (ok, ifaces, head) \<leftarrow> iface_assign ifaces head;
              Some (ok, iface # ifaces, head) } } }"

text \<open>The entries are taken off the list, but their memory is never freed; a failed \<open>malloc\<close> leaves the directory open.\<close>

definition ufp_vfio_irq_vector_get :: "u32 option list \<Rightarrow> 'd ufp_dev \<Rightarrow> os \<Rightarrow> (int \<times> 'd ufp_dev \<times> os) option" where
  "ufp_vfio_irq_vector_get entries dev s =
     do { let (d, s) = os_get Dir s;
          case d of None \<Rightarrow> Some (-1, dev, s)
          | Some dir \<Rightarrow> do {
              let (ok, head, s) = irq_dir_loop entries [] s;
              if \<not> ok then Some (-1, dev, s)
              else do {
                s \<leftarrow> os_put (Dir dir) s;
                (ok, irqs, head) \<leftarrow> irq_assign (unat (dev_num_misc_irqs dev)) (snd (dev_misc_irq dev)) head;
                let dev = dev\<lparr>dev_misc_irq := (fst (dev_misc_irq dev), irqs)\<rparr>;
                if \<not> ok then Some (-1, dev, s)
                else do {
                  (ok, ifaces, head) \<leftarrow> iface_assign (dev_iface dev) head;
                  let dev = dev\<lparr>dev_iface := ifaces\<rparr>;
                  Some (if ok then 0 else -1, dev, s) } } } }"

subsection \<open>What is held\<close>

lemma container_open_spec:
  "\<exists>ret vfio' s'. ufp_vfio_container_open vfio s = Some (ret, vfio', s') \<and>
     (if ret = 0 then 0 \<le> vf_container vfio' \<and> holds s (fd_res (vf_container vfio')) s' else ret = -1 \<and> holds s {#} s')"
proof -
  obtain fd s1 where o: "os_open s = (fd, s1)" by fastforce
  obtain e s2 where 2: "os_ioctl fd s1 = (e, s2)" by fastforce
  obtain e' s3 where 3: "os_ioctl fd s2 = (e', s3)" by fastforce
  have h1: "holds s (fd_res fd) s1" by (rule os_open_holds [OF o])
  have h2: "holds s (fd_res fd) s2" using holds_trans [OF h1 os_ioctl_holds [OF 2]] by simp
  have h3: "holds s (fd_res fd) s3" using holds_trans [OF h2 os_ioctl_holds [OF 3]] by simp
  obtain t2 where t2: "os_close fd s2 = Some t2" "holds s {#} t2" using os_close_holds [of s fd "{#}" s2] h2 by auto
  obtain t3 where t3: "os_close fd s3 = Some t3" "holds s {#} t3" using os_close_holds [of s fd "{#}" s3] h3 by auto
  have run: "ufp_vfio_container_open vfio s =
     (if fd < 0 then Some (-1, vfio\<lparr>vf_container := fd\<rparr>, s1)
      else if e < 0 then Some (-1, vfio\<lparr>vf_container := fd\<rparr>, t2)
      else if e' < 0 then Some (-1, vfio\<lparr>vf_container := fd\<rparr>, t3) else Some (0, vfio\<lparr>vf_container := fd\<rparr>, s3))"
    by (simp add: ufp_vfio_container_open_def o 2 3 t2(1) t3(1))
  show ?thesis
    unfolding run using h1 h3 t2(2) t3(2) by (auto simp: fd_res_def)
qed

lemma dma_map_holds: "ufp_vfio_dma_map a n s = (r, s') \<Longrightarrow> holds s (case r of None \<Rightarrow> {#} | Some d \<Rightarrow> {#Iova d#}) s'"
  by (auto simp: ufp_vfio_dma_map_def holds_def split: prod.splits bool.splits dest!: os_live_eqs)

lemma dma_unmap_holds:
  assumes "holds s (add_mset (Iova d) R) s1"
  shows "\<exists>r s2. ufp_vfio_dma_unmap d n s1 = Some (r, s2) \<and> holds s R s2"
  using assms by (cases "os_ask s1") (auto simp: ufp_vfio_dma_unmap_def holds_def os_put_def dest!: os_live_eqs)

lemma group_id_spec: "\<exists>r s'. ufp_vfio_group_id s = Some (r, s') \<and> holds s {#} s'"
  by (auto simp: ufp_vfio_group_id_def os_put_def holds_def split: prod.splits option.splits dest!: os_live_eqs)

lemma iommu_type_holds: "ufp_vfio_iommu_type_set vfio s = (r, vfio', s') \<Longrightarrow> holds s {#} s'"
  by (auto simp: ufp_vfio_iommu_type_set_def holds_def split: prod.splits if_splits dest!: os_live_eqs)

lemma group_open_spec:
  "\<exists>ret vfio' s'. ufp_vfio_group_open vfio s = Some (ret, vfio', s') \<and> (0 \<le> ret \<or> ret = -1) \<and> holds s (fd_res ret) s'"
proof -
  obtain g s1 where g: "ufp_vfio_group_id s = Some (g, s1)" "holds s {#} s1" using group_id_spec by blast
  obtain fd s2 where o: "os_open s1 = (fd, s2)" by fastforce
  have h2: "holds s (fd_res fd) s2" using holds_trans [OF g(2) os_open_holds [OF o]] by simp
  have close: "\<exists>t'. os_close fd t = Some t' \<and> holds s {#} t'" if "holds s (fd_res fd) t" for t
    using os_close_holds [of s fd "{#}" t] that by auto
  obtain e3 s3 where 3: "os_ioctl fd s2 = (e3, s3)" by fastforce
  have h3: "holds s (fd_res fd) s3" using holds_trans [OF h2 os_ioctl_holds [OF 3]] by simp
  obtain b4 s4 where 4: "os_ask s3 = (b4, s4)" by fastforce
  have h4: "holds s (fd_res fd) s4" using holds_trans [OF h3 os_ask_holds [OF 4]] by simp
  obtain b5 s5 where 5: "os_ask s4 = (b5, s5)" by fastforce
  have h5: "holds s (fd_res fd) s5" using holds_trans [OF h4 os_ask_holds [OF 5]] by simp
  obtain e6 s6 where 6: "(if b5 then (0, s5) else os_ioctl fd s5) = (e6, s6)" by fastforce
  have h6: "holds s (fd_res fd) s6"
    using 6 h5 holds_trans [OF h5 os_ioctl_holds [of fd s5 e6 s6]] by (cases b5) auto
  obtain e7 v7 s7 where 7: "ufp_vfio_iommu_type_set vfio s6 = (e7, v7, s7)" by (cases "ufp_vfio_iommu_type_set vfio s6")
  have h7: "holds s (fd_res fd) s7" using holds_trans [OF h6 iommu_type_holds [OF 7]] by simp
  note C = close [OF h3] close [OF h4] close [OF h6] close [OF h7]
  have run: "ufp_vfio_group_open vfio s =
     (if g < 0 then Some (-1, vfio, s1) else if fd < 0 then Some (-1, vfio, s2)
      else if e3 < 0 then do { s \<leftarrow> os_close fd s3; Some (-1, vfio, s) }
      else if \<not> b4 then do { s \<leftarrow> os_close fd s4; Some (-1, vfio, s) }
      else if e6 < 0 then do { s \<leftarrow> os_close fd s6; Some (-1, vfio, s) }
      else if e7 < 0 then do { s \<leftarrow> os_close fd s7; Some (-1, v7, s) } else Some (fd, v7, s7))"
    by (simp add: ufp_vfio_group_open_def g(1) o 3 4 5 6 7)
  show ?thesis
    unfolding run using g(2) h2 h7 C by (auto simp: fd_res_def)
qed

text \<open>What the opening of the device adds: its descriptor and the mapping of its registers.\<close>

definition dev_res :: "'d ufp_dev \<Rightarrow> res multiset" where
  "dev_res dev = add_mset (Mmap (dev_bar dev)) (fd_res (dev_fd dev))"

definition dev_opened :: "'d ufp_dev \<Rightarrow> 'd ufp_dev \<Rightarrow> bool" where
  "dev_opened dev dev' \<longleftrightarrow>
     (\<exists>fd bar sz v d. dev' = dev\<lparr>dev_fd := fd, dev_bar := bar, dev_bar_size := sz, dev_vendor_id := v, dev_device_id := d\<rparr>)"

lemma map_bar0_spec:
  "ufp_vfio_map_bar0 dev s = (e, dev', s') \<Longrightarrow> dev_opened dev dev' \<and> dev_fd dev' = dev_fd dev \<and>
     (if e = 0 then holds s {#Mmap (dev_bar dev')#} s' else e = -1 \<and> holds s {#} s')"
  unfolding dev_opened_def
  by (cases dev) (auto simp: ufp_vfio_map_bar0_def holds_def Let_def split: prod.splits option.splits bool.splits dest!: os_live_eqs)

lemma bus_master_holds: "ufp_vfio_bus_master_set dev s = (r, s') \<Longrightarrow> holds s {#} s'"
  by (auto simp: ufp_vfio_bus_master_set_def holds_def Let_def split: prod.splits option.splits if_splits dest!: os_live_eqs)

lemma vendor_id_spec:
  "\<exists>e dev' s'. ufp_vfio_vendor_id dev s = Some (e, dev', s') \<and> (e = 0 \<or> e = -1) \<and> (\<exists>v. dev' = dev\<lparr>dev_vendor_id := v\<rparr>) \<and> holds s {#} s'"
  by (cases dev) (auto simp: ufp_vfio_vendor_id_def os_put_def holds_def split: prod.splits option.splits dest!: os_live_eqs)

lemma device_id_spec:
  "\<exists>e dev' s'. ufp_vfio_device_id dev s = Some (e, dev', s') \<and> (e = 0 \<or> e = -1) \<and> (\<exists>v. dev' = dev\<lparr>dev_device_id := v\<rparr>) \<and> holds s {#} s'"
  by (cases dev) (auto simp: ufp_vfio_device_id_def os_put_def holds_def split: prod.splits option.splits dest!: os_live_eqs)

lemma dev_opened_trans: "dev_opened a b \<Longrightarrow> dev_opened b c \<Longrightarrow> dev_opened a c"
  unfolding dev_opened_def by (elim exE) (simp, blast)

lemma dev_opened_steps: "dev_opened d (d\<lparr>dev_fd := fd\<rparr>)" "dev_opened d (d\<lparr>dev_vendor_id := v\<rparr>)" "dev_opened d (d\<lparr>dev_device_id := v\<rparr>)"
  unfolding dev_opened_def by (cases d, simp)+

lemma device_open_spec:
  "\<exists>ret dev' s'. ufp_vfio_device_open dev group_fd s = Some (ret, dev', s') \<and> dev_opened dev dev' \<and>
     (if ret = 0 then 0 \<le> dev_fd dev' \<and> holds s (dev_res dev') s' else ret = -1 \<and> holds s {#} s')"
proof -
  obtain fd s1 where 1: "os_open s = (fd, s1)" by fastforce
  define d1 where "d1 = dev\<lparr>dev_fd := fd\<rparr>"
  have h1: "holds s (fd_res fd) s1" by (rule os_open_holds [OF 1])
  obtain e2 s2 where 2: "os_ioctl fd s1 = (e2, s2)" by fastforce
  have h2: "holds s (fd_res fd) s2" using holds_trans [OF h1 os_ioctl_holds [OF 2]] by simp
  obtain b3 s3 where 3: "os_ask s2 = (b3, s3)" by fastforce
  have h3: "holds s (fd_res fd) s3" using holds_trans [OF h2 os_ask_holds [OF 3]] by simp
  obtain e4 d4 s4 where 4: "ufp_vfio_map_bar0 d1 s3 = (e4, d4, s4)" by (cases "ufp_vfio_map_bar0 d1 s3")
  note m = map_bar0_spec [OF 4]
  have o4: "dev_opened dev d4" using m dev_opened_steps(1) dev_opened_trans unfolding d1_def by blast
  have fd4: "dev_fd d4 = fd" using m by (simp add: d1_def)
  let ?R = "add_mset (Mmap (dev_bar d4)) (fd_res fd)"
  have e4: "e4 = 0 \<or> e4 = -1" using m by (auto split: if_splits)
  have h4: "if e4 = 0 then holds s ?R s4 else holds s (fd_res fd) s4"
    using m h3 by (cases "e4 = 0") (simp_all add: holds_def)
  obtain r5 s5 where 5: "ufp_vfio_bus_master_set d4 s4 = (r5, s5)" by fastforce
  note h5 = bus_master_holds [OF 5]
  obtain e6 d6 s6 where 6: "ufp_vfio_vendor_id d4 s5 = Some (e6, d6, s6)" "\<exists>v. d6 = d4\<lparr>dev_vendor_id := v\<rparr>" "holds s5 {#} s6"
    using vendor_id_spec by blast
  obtain e7 d7 s7 where 7: "ufp_vfio_device_id d6 s6 = Some (e7, d7, s7)" "\<exists>v. d7 = d6\<lparr>dev_device_id := v\<rparr>" "holds s6 {#} s7"
    using device_id_spec by blast
  have o6: "dev_opened dev d6" "dev_bar d6 = dev_bar d4" "dev_fd d6 = fd"
    using 6(2) o4 fd4 dev_opened_steps(2) dev_opened_trans by auto blast
  have o7: "dev_opened dev d7" "dev_bar d7 = dev_bar d4" "dev_fd d7 = fd"
    using 7(2) o6 dev_opened_steps(3) dev_opened_trans by auto blast
  obtain e8 s8 where 8: "os_ioctl fd s7 = (e8, s8)" by fastforce
  note h8 = os_ioctl_holds [OF 8]
  have close: "\<exists>t'. os_close fd t = Some t' \<and> holds s {#} t'" if "holds s (fd_res fd) t" for t
    using os_close_holds [of s fd "{#}" t] that by simp
  have unmap: "\<exists>t' t''. os_put (Mmap (dev_bar d4)) t = Some t' \<and> os_close fd t' = Some t'' \<and> holds s {#} t''" if "holds s ?R t" for t
    using os_put_holds [OF that] close by blast
  have hs: "e4 = 0 \<Longrightarrow> holds s ?R s5" "e4 = 0 \<Longrightarrow> holds s ?R s6" "e4 = 0 \<Longrightarrow> holds s ?R s7" "e4 = 0 \<Longrightarrow> holds s ?R s8"
    using h4 h5 6(3) 7(3) h8 by (simp_all add: holds_def)
  let ?un = "\<lambda>d t. do { t \<leftarrow> os_put (Mmap (dev_bar d4)) t; t \<leftarrow> os_close fd t; Some (-1 :: int, d, t) }"
  have run: "ufp_vfio_device_open dev group_fd s =
     (if fd < 0 then Some (-1, d1, s1)
      else if e2 < 0 then do { t \<leftarrow> os_close fd s2; Some (-1, d1, t) }
      else if \<not> b3 then do { t \<leftarrow> os_close fd s3; Some (-1, d1, t) }
      else if e4 < 0 then do { t \<leftarrow> os_close fd s4; Some (-1, d4, t) }
      else if r5 = None then ?un d4 s5
      else if e6 < 0 then ?un d6 s6 else if e7 < 0 then ?un d7 s7 else if e8 < 0 then ?un d7 s8 else Some (0, d7, s8))"
    unfolding ufp_vfio_device_open_def 1 d1_def [symmetric] Let_def case_prod_conv 2 3 4 5 6(1) 7(1) 8 by (simp add: o6(2) o7(2) 7(1) 8)
  have o1: "dev_opened dev d1" unfolding d1_def by (rule dev_opened_steps)
  have fail: ?thesis if "ufp_vfio_device_open dev group_fd s = Some (-1, d, t)" "dev_opened dev d" "holds s {#} t" for d t
    using that by (intro exI [of _ "-1"] exI [of _ d] exI [of _ t]) simp
  have shut: ?thesis if "ufp_vfio_device_open dev group_fd s = do { t \<leftarrow> os_close fd t; Some (-1, d, t) }" "dev_opened dev d"
      "holds s (fd_res fd) t" for d t
    using close [OF that(3)] that(1,2) by (elim exE conjE) (rule fail, simp_all)
  have un: ?thesis if "ufp_vfio_device_open dev group_fd s = ?un d t" "dev_opened dev d" "holds s ?R t" for d t
    using unmap [OF that(3)] that(1,2) by (elim exE conjE) (rule fail, simp_all)
  consider "fd < 0" | "\<not> fd < 0" "e2 < 0" | "\<not> fd < 0" "\<not> e2 < 0" "\<not> b3" | "\<not> fd < 0" "\<not> e2 < 0" "b3" "e4 = -1"
    | "\<not> fd < 0" "\<not> e2 < 0" "b3" "e4 = 0" using e4 by blast
  then show ?thesis
  proof cases
    case 1 then show ?thesis using h1 o1 by (intro fail [of d1 s1]) (simp_all add: run fd_res_def)
  next
    case 2 then show ?thesis using h2 o1 by (intro shut [of s2 d1]) (simp_all add: run)
  next
    case 3 then show ?thesis using h3 o1 by (intro shut [of s3 d1]) (simp_all add: run)
  next
    case 4 then show ?thesis using h4 o4 by (intro shut [of s4 d4]) (simp_all add: run)
  next
    case 5
    then have r: "ufp_vfio_device_open dev group_fd s =
      (if r5 = None then ?un d4 s5 else if e6 < 0 then ?un d6 s6 else if e7 < 0 then ?un d7 s7
       else if e8 < 0 then ?un d7 s8 else Some (0, d7, s8))" by (simp add: run)
    consider "r5 = None" | "r5 \<noteq> None" "e6 < 0" | "r5 \<noteq> None" "\<not> e6 < 0" "e7 < 0"
      | "r5 \<noteq> None" "\<not> e6 < 0" "\<not> e7 < 0" "e8 < 0" | "r5 \<noteq> None" "\<not> e6 < 0" "\<not> e7 < 0" "\<not> e8 < 0" by blast
    then show ?thesis
    proof cases
      case 1 then show ?thesis using hs(1) o4 5 by (intro un [of s5 d4]) (simp_all add: r del: not_None_eq)
    next
      case 2 then show ?thesis using hs(2) o6 5 by (intro un [of s6 d6]) (simp_all add: r del: not_None_eq)
    next
      case 3 then show ?thesis using hs(3) o7 5 by (intro un [of s7 d7]) (simp_all add: r del: not_None_eq)
    next
      case 4 then show ?thesis using hs(4) o7 5 by (intro un [of s8 d7]) (simp_all add: r del: not_None_eq)
    next
      case 5
      have "holds s (dev_res d7) s8" using hs(4) \<open>e4 = 0\<close> o7 by (simp add: dev_res_def)
      with 5 show ?thesis using \<open>\<not> fd < 0\<close> o7 by (simp add: r del: not_None_eq)
    qed
  qed
qed

subsection \<open>Interrupts\<close>

lemma irq_prior_shift: "irq_prior v es (n + i) (map_option ((+) n) p) = map_option ((+) n) (irq_prior v es i p)"
proof (induction es arbitrary: i p)
  case (Cons e es)
  show ?case using Cons.IH [of "Suc i" "Some i"] Cons.IH [of "Suc i" p] by (cases "snd e < v") simp_all
qed simp

text \<open>In a list that is sorted by vector, the entries before the new one are those with a smaller vector.\<close>

lemma irq_prior_sorted:
  "sorted (map snd es) \<Longrightarrow>
   irq_prior v es 0 None = (case length (takeWhile (\<lambda>e. snd e < v) es) of 0 \<Rightarrow> None | Suc k \<Rightarrow> Some k)"
proof (induction es)
  case (Cons e es)
  show ?case
  proof (cases "snd e < v")
    case True
    have "irq_prior v es 1 (Some 0) = (case irq_prior v es 0 None of None \<Rightarrow> Some 0 | Some k \<Rightarrow> Some (Suc k))"
    proof -
      have "irq_prior v es i (Some j) = (case irq_prior v es i None of None \<Rightarrow> Some j | Some k \<Rightarrow> Some k)" for i j
        by (induction es arbitrary: i j) (auto split: option.splits)
      from this [of 1 0] show ?thesis
        using irq_prior_shift [of v es 1 0 None] by (auto split: option.splits)
    qed
    then show ?thesis using Cons True by (auto split: nat.splits)
  next
    case False
    have "irq_prior v es i None = None" if "\<forall>x \<in> set es. \<not> snd x < v" for i
      using that by (induction es arbitrary: i) auto
    then show ?thesis using Cons.prems False by (fastforce simp: not_less intro: order_trans)
  qed
qed simp

lemma irq_insert_sorted:
  "sorted (map snd es) \<Longrightarrow>
   irq_insert e es = takeWhile (\<lambda>x. snd x < snd e) es @ e # dropWhile (\<lambda>x. snd x < snd e) es"
  using takeWhile_eq_take [of "\<lambda>x. snd x < snd e" es] dropWhile_eq_drop [of "\<lambda>x. snd x < snd e" es]
  by (cases "length (takeWhile (\<lambda>x. snd x < snd e) es)") (simp_all add: irq_insert_def irq_prior_sorted)

lemma irq_insert_insort:
  assumes "sorted (map snd es)"
  shows "map snd (irq_insert e es) = insort (snd e) (map snd es)"
  unfolding irq_insert_sorted [OF assms] using assms
proof (induction es)
  case (Cons a es)
  then show ?case by (cases "snd a < snd e") (auto simp: not_less insort_is_Cons)
qed simp

lemma irq_insert_mset: "sorted (map snd es) \<Longrightarrow> mset (irq_insert e es) = add_mset e (mset es)"
  unfolding irq_insert_sorted by simp (metis mset_append takeWhile_dropWhile_id union_mset_add_mset_right)

text \<open>The memory of the entries, which is never given back.\<close>

definition entries_res :: "irq_entries \<Rightarrow> res multiset" where
  "entries_res es = image_mset (\<lambda>e. Heap (fst e)) (mset es)"

lemma irq_dir_loop_spec:
  "irq_dir_loop entries head s = (ok, head', s') \<Longrightarrow> sorted (map snd head) \<Longrightarrow> holds s0 (R + entries_res head) s \<Longrightarrow>
   sorted (map snd head') \<and> holds s0 (R + entries_res head') s' \<and>
   (ok \<longrightarrow> mset (map snd head') = mset (map snd head) + mset (List.map_filter id entries))"
proof (induction entries head s rule: irq_dir_loop.induct)
  case (1 head s)
  then show ?case by (simp add: map_filter_simps)
next
  case (2 entries head s)
  then show ?case by (simp add: map_filter_simps)
next
  case (3 v entries head s)
  obtain p s1 where g: "os_get Heap s = (p, s1)" by fastforce
  show ?case
  proof (cases p)
    case None
    then show ?thesis using 3 g os_live_eqs(2) [of Heap s s1] by (simp add: holds_def)
  next
    case (Some q)
    have so: "sorted (map snd (irq_insert (q, v) head))" using 3 by (simp add: irq_insert_insort sorted_insort)
    have ho: "holds s0 (R + entries_res (irq_insert (q, v) head)) s1"
      using 3 g Some os_live_eqs(3) [of Heap s q s1] by (simp add: holds_def entries_res_def irq_insert_mset)
    show ?thesis
      using 3(1) [OF g [symmetric] Some] 3 g Some so ho by (simp add: map_filter_simps irq_insert_insort del: mset_map)
  qed
qed

definition set_vector :: "ufp_irq \<Rightarrow> u32 \<Rightarrow> ufp_irq" where
  "set_vector irq v = irq\<lparr>irq_vector := v\<rparr>"

text \<open>The same interrupts but for their vectors.\<close>

definition irqs_same :: "(nat \<times> ufp_irq) list \<Rightarrow> (nat \<times> ufp_irq) list \<Rightarrow> bool" where
  "irqs_same irqs irqs' \<longleftrightarrow> map (\<lambda>(p, q). (p, irq_fd q, irq_entry_idx q)) irqs' = map (\<lambda>(p, q). (p, irq_fd q, irq_entry_idx q)) irqs"

lemma irq_assign_spec:
  "n \<le> length irqs \<Longrightarrow> \<exists>irqs'. irq_assign n irqs head = Some (n \<le> length head, irqs', drop n head) \<and> irqs_same irqs irqs' \<and>
     (n \<le> length head \<longrightarrow> map snd (take n irqs') = map2 set_vector (map snd (take n irqs)) (map snd head))"
proof (induction n irqs head rule: irq_assign.induct)
  case (4 n p irq irqs e head)
  then obtain irqs' where "irq_assign n irqs head = Some (n \<le> length head, irqs', drop n head)" "irqs_same irqs irqs'"
     "n \<le> length head \<longrightarrow> map snd (take n irqs') = map2 set_vector (map snd (take n irqs)) (map snd head)" by auto
  then show ?case by (auto simp: irqs_same_def set_vector_def)
qed (simp_all add: irqs_same_def)

definition iface_same :: "'d ufp_iface \<Rightarrow> 'd ufp_iface \<Rightarrow> bool" where
  "iface_same iface iface' \<longleftrightarrow>
     (\<exists>rx tx. iface' = iface\<lparr>if_rx_irq := (fst (if_rx_irq iface), rx), if_tx_irq := (fst (if_tx_irq iface), tx)\<rparr> \<and>
        irqs_same (snd (if_rx_irq iface)) rx \<and> irqs_same (snd (if_tx_irq iface)) tx)"

lemma irqs_same_refl [simp]: "irqs_same irqs irqs"
  by (simp add: irqs_same_def)

lemma iface_same_refl: "iface_same iface iface"
  unfolding iface_same_def by (rule exI [of _ "snd (if_rx_irq iface)"], rule exI [of _ "snd (if_tx_irq iface)"]) simp

lemma irqs_same_length: "irqs_same irqs irqs' \<Longrightarrow> length irqs' = length irqs"
  unfolding irqs_same_def by (erule map_eq_imp_length_eq)

lemma map2_append_drop: "map2 f (xs @ ys) vs = map2 f xs vs @ map2 f ys (drop (length xs) vs)"
proof (induction xs arbitrary: vs)
  case (Cons x xs)
  then show ?case by (cases vs) simp_all
qed simp

lemma iface_assign_spec:
  "iface_irqs ifaces = Some irqs \<Longrightarrow>
   \<exists>ifaces' head'. iface_assign ifaces head = Some (length irqs \<le> length head, ifaces', head') \<and> list_all2 iface_same ifaces ifaces' \<and>
     (length irqs \<le> length head \<longrightarrow> iface_irqs ifaces' = Some (map2 set_vector irqs (map snd head)))"
proof (induction ifaces arbitrary: irqs head)
  case (Cons iface ifaces)
  let ?n = "unat (if_num_qps iface)"
  obtain rest where rest: "iface_irqs ifaces = Some rest" and n: "?n \<le> length (snd (if_rx_irq iface))" "?n \<le> length (snd (if_tx_irq iface))"
    and irqs: "irqs = map snd (take ?n (snd (if_rx_irq iface))) @ map snd (take ?n (snd (if_tx_irq iface))) @ rest"
    using Cons.prems by (auto simp: irq_prefix_def bind_eq_Some_conv split: if_splits)
  obtain rx where rx: "irq_assign ?n (snd (if_rx_irq iface)) head = Some (?n \<le> length head, rx, drop ?n head)" "irqs_same (snd (if_rx_irq iface)) rx"
      "?n \<le> length head \<longrightarrow> map snd (take ?n rx) = map2 set_vector (map snd (take ?n (snd (if_rx_irq iface)))) (map snd head)"
    using irq_assign_spec [OF n(1)] by blast
  obtain tx where tx: "irq_assign ?n (snd (if_tx_irq iface)) (drop ?n head) = Some (?n \<le> length (drop ?n head), tx, drop ?n (drop ?n head))"
      "irqs_same (snd (if_tx_irq iface)) tx"
      "?n \<le> length (drop ?n head) \<longrightarrow> map snd (take ?n tx) = map2 set_vector (map snd (take ?n (snd (if_tx_irq iface)))) (map snd (drop ?n head))"
    using irq_assign_spec [OF n(2)] by blast
  obtain ifs' h' where ih: "iface_assign ifaces (drop ?n (drop ?n head)) = Some (length rest \<le> length (drop ?n (drop ?n head)), ifs', h')"
      "list_all2 iface_same ifaces ifs'"
      "length rest \<le> length (drop ?n (drop ?n head)) \<longrightarrow> iface_irqs ifs' = Some (map2 set_vector rest (map snd (drop ?n (drop ?n head))))"
    using Cons.IH [OF rest] by blast
  have len: "length irqs = ?n + (?n + length rest)" using n by (simp add: irqs)
  have keep: "list_all2 iface_same ifaces ifaces" by (simp add: list_all2_refl iface_same_refl)
  let ?i1 = "iface\<lparr>if_rx_irq := (fst (if_rx_irq iface), rx)\<rparr>"
  let ?i2 = "?i1\<lparr>if_tx_irq := (fst (if_tx_irq iface), tx)\<rparr>"
  have s2: "iface_same iface ?i2" using rx(2) tx(2) unfolding iface_same_def by blast
  have s1: "iface_same iface ?i1" using rx(2) unfolding iface_same_def
    by (intro exI [of _ rx] exI [of _ "snd (if_tx_irq iface)"]) simp
  consider "\<not> ?n \<le> length head" | "?n \<le> length head" "\<not> ?n \<le> length head - ?n" | "?n \<le> length head" "?n \<le> length head - ?n" by blast
  then show ?case
  proof cases
    case 1 then show ?thesis using rx(1) s1 keep len by auto
  next
    case 2 then show ?thesis using rx(1) tx(1) s2 keep len by auto
  next
    case 3
    have ok: "length irqs \<le> length head \<longleftrightarrow> length rest \<le> length head - ?n - ?n" using 3 len by auto
    have "iface_irqs (?i2 # ifs') = Some (map2 set_vector irqs (map snd head))" if "length irqs \<le> length head"
      using that 3 rx(3) tx(3) ih(3) n irqs_same_length [OF rx(2)] irqs_same_length [OF tx(2)] ok
      by (simp add: irq_prefix_def irqs map2_append_drop drop_map)
    then show ?thesis using 3 rx(1) tx(1) ih(1,2) s2 ok by auto
  qed
qed simp

definition dev_same :: "'d ufp_dev \<Rightarrow> 'd ufp_dev \<Rightarrow> bool" where
  "dev_same dev dev' \<longleftrightarrow>
     (\<exists>misc ifaces. dev' = dev\<lparr>dev_misc_irq := (fst (dev_misc_irq dev), misc), dev_iface := ifaces\<rparr> \<and>
        irqs_same (snd (dev_misc_irq dev)) misc \<and> list_all2 iface_same (dev_iface dev) ifaces)"

lemma dev_same_refl: "dev_same dev dev"
  unfolding dev_same_def by (intro exI [of _ "snd (dev_misc_irq dev)"] exI [of _ "dev_iface dev"]) (simp add: list_all2_refl iface_same_refl)

lemma sorted_vectors: "sorted vs \<Longrightarrow> mset vs = mset xs \<Longrightarrow> sort xs = vs"
  by (rule properties_for_sort) simp_all

lemma irq_vector_get_spec:
  assumes "dev_irqs dev = Some irqs"
  shows "\<exists>ret dev' s'. ufp_vfio_irq_vector_get entries dev s = Some (ret, dev', s') \<and> dev_same dev dev' \<and>
     (if ret = 0 then length irqs \<le> length (List.map_filter id entries) \<and>
        dev_irqs dev' = Some (map2 set_vector irqs (sort (List.map_filter id entries))) \<and>
        (\<exists>es. length es = length (List.map_filter id entries) \<and> holds s (image_mset Heap (mset es)) s')
      else ret = -1 \<and> (\<exists>leak. holds s leak s' \<and> leaks leak))"
proof -
  obtain d s1 where 1: "os_get Dir s = (d, s1)" by fastforce
  obtain ok head s2 where 2: "irq_dir_loop entries [] s1 = (ok, head, s2)" by (cases "irq_dir_loop entries [] s1")
  let ?vs = "List.map_filter id entries"
  have fail: ?thesis if "ufp_vfio_irq_vector_get entries dev s = Some (-1, dev', s')" "dev_same dev dev'" "holds s leak s'" "leaks leak" for leak dev' s'
    using that by (intro exI [of _ "-1"] exI [of _ dev'] exI [of _ s']) auto
  show ?thesis
  proof (cases d)
    case None
    then show ?thesis using 1 os_get_holds [OF 1] dev_same_refl by (intro fail [of dev s1 "{#}"]) (simp_all add: ufp_vfio_irq_vector_get_def)
  next
    case (Some dir)
    have h1: "holds s ({#Dir dir#} + entries_res []) s1" using os_get_holds [OF 1] Some by (simp add: entries_res_def)
    have l: "sorted (map snd head)" "holds s ({#Dir dir#} + entries_res head) s2" "ok \<longrightarrow> mset (map snd head) = mset ?vs"
      using irq_dir_loop_spec [OF 2 _ h1] by simp_all
    show ?thesis
    proof (cases ok)
      case False
      then show ?thesis using 1 2 Some l(2) dev_same_refl by (intro fail [of dev s2 "{#Dir dir#} + entries_res head"]) (simp_all add: ufp_vfio_irq_vector_get_def entries_res_def)
    next
      case True
      have vs: "sort ?vs = map snd head" using sorted_vectors [OF l(1)] l(3) True by simp
      then have len: "length head = length ?vs" by (metis length_map length_sort)
      obtain s3 where 3: "os_put (Dir dir) s2 = Some s3" "holds s (entries_res head) s3" using os_put_holds [of s "Dir dir" "entries_res head" s2] l(2) by auto
      let ?n = "unat (dev_num_misc_irqs dev)"
      obtain rest where n: "?n \<le> length (snd (dev_misc_irq dev))" and r: "iface_irqs (dev_iface dev) = Some rest"
        and irqs: "irqs = map snd (take ?n (snd (dev_misc_irq dev))) @ rest"
        using assms by (auto simp: dev_irqs_def irq_prefix_def bind_eq_Some_conv split: if_splits)
      obtain misc where misc: "irq_assign ?n (snd (dev_misc_irq dev)) head = Some (?n \<le> length head, misc, drop ?n head)"
        "irqs_same (snd (dev_misc_irq dev)) misc"
        "?n \<le> length head \<longrightarrow> map snd (take ?n misc) = map2 set_vector (map snd (take ?n (snd (dev_misc_irq dev)))) (map snd head)"
        using irq_assign_spec [OF n] by blast
      obtain ifs h' where ifs: "iface_assign (dev_iface dev) (drop ?n head) = Some (length rest \<le> length (drop ?n head), ifs, h')"
        "list_all2 iface_same (dev_iface dev) ifs"
        "length rest \<le> length (drop ?n head) \<longrightarrow> iface_irqs ifs = Some (map2 set_vector rest (map snd (drop ?n head)))"
        using iface_assign_spec [OF r] by blast
      let ?d1 = "dev\<lparr>dev_misc_irq := (fst (dev_misc_irq dev), misc)\<rparr>"
      let ?d2 = "?d1\<lparr>dev_iface := ifs\<rparr>"
      have s1: "dev_same dev ?d1" using misc(2) unfolding dev_same_def
        by (intro exI [of _ misc] exI [of _ "dev_iface dev"]) (simp add: list_all2_refl iface_same_refl)
      have s2: "dev_same dev ?d2" using misc(2) ifs(2) unfolding dev_same_def by blast
      have entries_leak: "leaks (entries_res head)" by (simp add: entries_res_def)
      have run: "ufp_vfio_irq_vector_get entries dev s =
          (if \<not> ?n \<le> length head then Some (-1, ?d1, s3)
           else Some (if length rest \<le> length head - ?n then 0 else -1, ?d2, s3))"
        using 1 2 3(1) Some True misc(1) ifs(1) by (simp add: ufp_vfio_irq_vector_get_def)
      show ?thesis
      proof (cases "?n \<le> length head \<and> length rest \<le> length head - ?n")
        case False
        then show ?thesis
          using 3(2) s1 s2 fail [of ?d1 s3 "entries_res head"] fail [of ?d2 s3 "entries_res head"] entries_leak unfolding run by (cases "?n \<le> length head") simp_all
      next
        case True
        have "dev_irqs ?d2 = Some (map2 set_vector irqs (map snd head))"
          using True misc(3) ifs(3) n irqs_same_length [OF misc(2)] by (simp add: dev_irqs_def irq_prefix_def irqs map2_append_drop drop_map)
        moreover have "length irqs \<le> length ?vs" using True n len by (auto simp: irqs)
        moreover have "\<exists>es. length es = length ?vs \<and> holds s (image_mset Heap (mset es)) s3"
          using 3(2) len by (intro exI [of _ "map fst head"]) (simp add: entries_res_def image_mset.compositionality comp_def)
        ultimately show ?thesis using True s2 unfolding run vs by simp
      qed
    qed
  qed
qed

lemma irq_set_spec:
  assumes "dev_irqs dev = Some irqs" "length irqs \<le> unat n"
  shows "\<exists>ret s'. ufp_vfio_irq_set dev n s = Some (ret, s') \<and> (ret = 0 \<or> ret = -1) \<and> holds s {#} s' \<and>
     (ret = 0 \<longrightarrow> os_log s' = os_log s @ [VFIO_DEVICE_SET_IRQS n (map irq_fd irqs)])"
  using assms
  by (auto simp: ufp_vfio_irq_set_def os_put_def holds_def os_get_def os_ask_def os_ioctl_def os_request_def
      split: prod.splits option.splits bool.splits)

lemma irq_unset_holds: "ufp_vfio_irq_unset dev s = (r, s') \<Longrightarrow> holds s {#} s'"
  by (auto simp: ufp_vfio_irq_unset_def split: prod.splits dest: os_request_holds)

end
