(* ===== verification/Ufp_Tap.thy ===== *)
theory Ufp_Tap
  imports Ufp_Iface
begin

text \<open>
  The tap device that stands for an interface in the host, \<open>lib/lib_tap.c\<close>: opened once per
  queue, with the hardware address and the MTU of the interface, and taken up and down.
\<close>

subsection \<open>Requests\<close>

definition IFF_TAP :: u16 where "IFF_TAP = 0x0002"
definition IFF_NO_PI :: u16 where "IFF_NO_PI = 0x1000"
definition IFF_MULTI_QUEUE :: u16 where "IFF_MULTI_QUEUE = 0x0100"
definition IFF_UP :: u16 where "IFF_UP = 0x1"
definition ETH_FCS_LEN :: u32 where "ETH_FCS_LEN = 4"

definition ufp_tun_iff :: "int \<Rightarrow> string \<Rightarrow> os \<Rightarrow> int \<times> os" where
  "ufp_tun_iff fd ifname s =
     (case os_request (TUNSETIFF ifname (IFF_TAP OR IFF_NO_PI OR IFF_MULTI_QUEUE)) fd s of
        (err, s) \<Rightarrow> (if err < 0 then -1 else 0, s))"

definition ufp_tun_persist :: "int \<Rightarrow> string \<Rightarrow> int \<Rightarrow> os \<Rightarrow> int \<times> os" where
  "ufp_tun_persist fd ifname flag s =
     (case os_request (TUNSETPERSIST flag) fd s of (err, s) \<Rightarrow> (if err < 0 then -1 else 0, s))"

definition ufp_tun_macaddr_set :: "int \<Rightarrow> string \<Rightarrow> u8 list \<Rightarrow> os \<Rightarrow> int \<times> os" where
  "ufp_tun_macaddr_set sock ifname src_mac s =
     (case os_request (SIOCSIFHWADDR ifname src_mac) sock s of (err, s) \<Rightarrow> (if err < 0 then -1 else 0, s))"

definition ufp_tun_mtu_set :: "int \<Rightarrow> string \<Rightarrow> u32 \<Rightarrow> os \<Rightarrow> int \<times> os" where
  "ufp_tun_mtu_set sock ifname mtu_frame s =
     (case os_request (SIOCSIFMTU ifname (mtu_frame - (14 + ETH_FCS_LEN))) sock s of
        (err, s) \<Rightarrow> (if err < 0 then -1 else 0, s))"

definition ufp_tun_flags_set :: "int \<Rightarrow> string \<Rightarrow> u16 \<Rightarrow> os \<Rightarrow> int \<times> os" where
  "ufp_tun_flags_set sock ifname flags s =
     (case os_request (SIOCSIFFLAGS ifname flags) sock s of (err, s) \<Rightarrow> (if err < 0 then -1 else 0, s))"

text \<open>The flags are a \<open>short\<close>, and so is the -1 of a failure.\<close>

definition ufp_tun_flags_get :: "int \<Rightarrow> string \<Rightarrow> os \<Rightarrow> u16 \<times> os" where
  "ufp_tun_flags_get sock ifname s =
     (case os_query sock s of (None, s) \<Rightarrow> (-1, s) | (Some v, s) \<Rightarrow> (of_int v, s))"

definition ufp_tun_index_get :: "int \<Rightarrow> string \<Rightarrow> os \<Rightarrow> int \<times> os" where
  "ufp_tun_index_get sock ifname s =
     (case os_query sock s of (None, s) \<Rightarrow> (-1, s) | (Some v, s) \<Rightarrow> (v, s))"

lemmas tun_request_defs = ufp_tun_iff_def ufp_tun_persist_def ufp_tun_macaddr_set_def ufp_tun_mtu_set_def
  ufp_tun_flags_set_def ufp_tun_flags_get_def ufp_tun_index_get_def

subsection \<open>Operations\<close>

definition ufp_tun_open :: "string \<Rightarrow> os \<Rightarrow> (int \<times> os) option" where
  "ufp_tun_open name s =
     do { let (fd, s) = os_open s;
          if fd < 0 then Some (-1, s)
          else do {
            let (err, s) = ufp_tun_iff fd name s;
            if err < 0 then do { s \<leftarrow> os_close fd s; Some (-1, s) }
            else do {
              let (err, s) = ufp_tun_persist fd name 1 s;
              if err < 0 then do { s \<leftarrow> os_close fd s; Some (-1, s) }
              else do { s \<leftarrow> os_close fd s; Some (0, s) } } } }"

definition ufp_tun_close :: "string \<Rightarrow> os \<Rightarrow> os option" where
  "ufp_tun_close name s =
     do { let (fd, s) = os_open s;
          if fd < 0 then Some s
          else do {
            let (err, s) = ufp_tun_iff fd name s;
            if err < 0 then os_close fd s
            else do {
              let (err, s) = ufp_tun_persist fd name 0 s;
              os_close fd s } } }"

text \<open>
  The loop of \<open>ufp_tun_up\<close>, with the number of descriptors left and those that are open. The test of
  the result of \<open>open\<close> is on the array instead of its element, so it never holds and a failed \<open>open\<close> is seen by
  the request that follows.
\<close>

fun tun_up_loop :: "nat \<Rightarrow> string \<Rightarrow> int list \<Rightarrow> os \<Rightarrow> (bool \<times> int list \<times> os) option" where
  "tun_up_loop 0 name fds s = Some (True, fds, s)"
| "tun_up_loop (Suc left) name fds s =
     do { let (fd, s) = os_open s;
          let (err, s) = ufp_tun_iff fd name s;
          if err < 0 then do { s \<leftarrow> os_close fd s; Some (False, fds, s) }
          else tun_up_loop left name (fds @ [fd]) s }"

text \<open>The requests on the socket: the index of the tap device, or none after a failure.\<close>

definition tun_up_sock :: "'d ufp_iface \<Rightarrow> int \<Rightarrow> os \<Rightarrow> int option \<times> os" where
  "tun_up_sock iface sock s =
     (case ufp_tun_macaddr_set sock (if_name iface) (if_mac_addr iface) s of
        (err, s) \<Rightarrow> if err < 0 then (None, s)
      else case ufp_tun_index_get sock (if_name iface) s of
        (tap_index, s) \<Rightarrow> if tap_index < 0 then (None, s)
      else case ufp_tun_mtu_set sock (if_name iface) (if_mtu_frame iface) s of
        (err, s) \<Rightarrow> if err < 0 then (None, s)
      else case ufp_tun_flags_get sock (if_name iface) s of
        (flags, s) \<Rightarrow> if sint flags < 0 then (None, s)
      else case ufp_tun_flags_set sock (if_name iface) (flags OR IFF_UP) s of
        (err, s) \<Rightarrow> if err < 0 then (None, s) else (Some tap_index, s))"

definition ufp_tun_up :: "'d ufp_iface \<Rightarrow> os \<Rightarrow> (int \<times> 'd ufp_iface \<times> os) option" where
  "ufp_tun_up iface s =
     do { let (p, s) = os_get Heap s;
          case p of None \<Rightarrow> Some (-1, iface, s)
          | Some p \<Rightarrow> do {
              let err_queues = (\<lambda>fds s. do {
                s \<leftarrow> os_close_all fds s;
                s \<leftarrow> os_put (Heap p) s;
                Some (-1, iface, s) });
              (ok, fds, s) \<leftarrow> tun_up_loop (unat (if_num_qps iface)) (if_name iface) [] s;
              if \<not> ok then err_queues fds s
              else do {
                let (sock, s) = os_open s;
                if sock < 0 then err_queues fds s
                else do {
                  let (r, s) = tun_up_sock iface sock s;
                  s \<leftarrow> os_close sock s;
                  case r of None \<Rightarrow> err_queues fds s
                  | Some tap_index \<Rightarrow>
                      Some (0, iface\<lparr>if_tap_fds := (p, fds), if_tap_index := tap_index\<rparr>, s) } } } }"

definition ufp_tun_down :: "'d ufp_iface \<Rightarrow> os \<Rightarrow> os option" where
  "ufp_tun_down iface s =
     do { let (sock, s) = os_open s;
          s \<leftarrow> (if sock < 0 then Some s
               else do {
                 let (flags, s) = ufp_tun_flags_get sock (if_name iface) s;
                 let s = (if sint flags < 0 then s
                          else snd (ufp_tun_flags_set sock (if_name iface) (flags AND NOT IFF_UP) s));
                 os_close sock s });
          s \<leftarrow> os_close_all (take (unat (if_num_qps iface)) (snd (if_tap_fds iface))) s;
          os_put (Heap (fst (if_tap_fds iface))) s }"

subsection \<open>What is held\<close>

lemma tun_requests_hold:
  "ufp_tun_iff fd name s = (r, s') \<Longrightarrow> holds s {#} s'"
  "ufp_tun_persist fd name f s = (r, s') \<Longrightarrow> holds s {#} s'"
  "ufp_tun_macaddr_set fd name m s = (r, s') \<Longrightarrow> holds s {#} s'"
  "ufp_tun_mtu_set fd name u s = (r, s') \<Longrightarrow> holds s {#} s'"
  "ufp_tun_flags_set fd name fl s = (r, s') \<Longrightarrow> holds s {#} s'"
  "ufp_tun_flags_get fd name s = (rf, s') \<Longrightarrow> holds s {#} s'"
  "ufp_tun_index_get fd name s = (r, s') \<Longrightarrow> holds s {#} s'"
  by (auto simp: tun_request_defs split: prod.splits if_splits option.splits dest: os_request_holds os_query_holds)

lemma tun_iff_ok: "ufp_tun_iff fd name s = (r, s') \<Longrightarrow> \<not> r < 0 \<Longrightarrow> 0 \<le> fd"
  by (auto simp: ufp_tun_iff_def os_request_def os_ioctl_def split: prod.splits if_splits)

lemma tun_up_loop_spec:
  "holds s0 (fds_res fds) s \<Longrightarrow> \<forall>fd \<in> set fds. 0 \<le> fd \<Longrightarrow>
   \<exists>ok fds' s'. tun_up_loop n name fds s = Some (ok, fds', s') \<and> holds s0 (fds_res fds') s' \<and>
     (\<forall>fd \<in> set fds'. 0 \<le> fd) \<and> (ok \<longrightarrow> length fds' = length fds + n)"
proof (induction n arbitrary: fds s)
  case (Suc n)
  obtain fd s1 where o: "os_open s = (fd, s1)" by fastforce
  obtain err s2 where i: "ufp_tun_iff fd name s1 = (err, s2)" by fastforce
  have h: "holds s0 (fds_res fds + fd_res fd) s2"
    using holds_trans [OF holds_trans [OF Suc.prems(1) os_open_holds [OF o]] tun_requests_hold(1) [OF i]] by simp
  show ?case
  proof (cases "err < 0")
    case True
    obtain s3 where "os_close fd s2 = Some s3" "holds s0 (fds_res fds) s3"
      using os_close_holds [of s0 fd "fds_res fds" s2] h by (auto simp: add.commute)
    then show ?thesis using o i True Suc.prems(2) by auto
  next
    case False
    have "\<forall>x \<in> set (fds @ [fd]). 0 \<le> x" using Suc.prems(2) tun_iff_ok [OF i False] by simp
    moreover have "holds s0 (fds_res (fds @ [fd])) s2" using h by simp
    ultimately show ?thesis using Suc.IH [of "fds @ [fd]" s2] o i False by auto
  qed
qed auto

lemma tun_up_sock_holds: "tun_up_sock iface sock s = (r, s') \<Longrightarrow> holds s {#} s'"
  unfolding tun_up_sock_def
  by (auto split: prod.splits if_splits dest!: tun_requests_hold simp: holds_def)

text \<open>The descriptors and the array of an interface that is up.\<close>

definition tun_res :: "'d ufp_iface \<Rightarrow> res multiset" where
  "tun_res iface = add_mset (Heap (fst (if_tap_fds iface))) (fds_res (snd (if_tap_fds iface)))"

lemma tun_up_spec:
  "\<exists>ret iface' s'. ufp_tun_up iface s = Some (ret, iface', s') \<and>
     (if ret = 0 then holds s (tun_res iface') s' \<and>
        length (snd (if_tap_fds iface')) = unat (if_num_qps iface) \<and> (\<forall>fd \<in> set (snd (if_tap_fds iface')). 0 \<le> fd) \<and>
        iface' = iface\<lparr>if_tap_fds := if_tap_fds iface', if_tap_index := if_tap_index iface'\<rparr>
      else ret = -1 \<and> holds s {#} s' \<and> iface' = iface)"
proof (cases "os_get Heap s")
  case (Pair p s1)
  note h1 = os_get_holds [OF Pair]
  show ?thesis
  proof (cases p)
    case None
    then show ?thesis using Pair h1 by (simp add: ufp_tun_up_def)
  next
    case (Some q)
    obtain ok fds s2 where l: "tun_up_loop (unat (if_num_qps iface)) (if_name iface) [] s1 = Some (ok, fds, s2)"
        "holds s1 (fds_res fds) s2" "\<forall>fd \<in> set fds. 0 \<le> fd" "ok \<longrightarrow> length fds = unat (if_num_qps iface)"
      using tun_up_loop_spec [of s1 "[]" s1 "unat (if_num_qps iface)" "if_name iface"] by (auto simp del: tun_up_loop.simps)
    have fail: ?thesis if "ufp_tun_up iface s = Some (-1, iface, s5)" "holds s {#} s5" for s5
      using that by (intro exI [of _ "-1"] exI [of _ iface] exI [of _ s5]) simp
    have undo: "\<exists>s5. do { t \<leftarrow> os_close_all fds s4; t \<leftarrow> os_put (Heap q) t; Some (-1 :: int, iface, t) } = Some (-1, iface, s5) \<and> holds s {#} s5"
      if "holds s1 (fds_res fds) s4" for s4
    proof -
      have "holds s (fds_res fds + {#Heap q#}) s4" using holds_trans [OF h1 that] Some by (simp add: add.commute)
      then obtain s5 where "os_close_all fds s4 = Some s5" "holds s {#Heap q#} s5" using os_close_all_holds by blast
      then show ?thesis using os_put_holds [of s "Heap q" "{#}" s5] by auto
    qed
    show ?thesis
    proof (cases ok)
      case False
      from undo [OF l(2)] obtain s5 where "do { t \<leftarrow> os_close_all fds s2; t \<leftarrow> os_put (Heap q) t; Some (-1 :: int, iface, t) } = Some (-1, iface, s5)" "holds s {#} s5"
        by blast
      then show ?thesis using False Pair Some l(1) by (intro fail [of s5]) (simp_all add: ufp_tun_up_def)
    next
      case True
      obtain sock s3 where o: "os_open s2 = (sock, s3)" by fastforce
      note h3 = holds_trans [OF l(2) os_open_holds [OF o]]
      show ?thesis
      proof (cases "sock < 0")
        case True
        then have "holds s1 (fds_res fds) s3" using h3 by (simp add: fd_res_def)
        from undo [OF this] obtain s5 where "do { t \<leftarrow> os_close_all fds s3; t \<leftarrow> os_put (Heap q) t; Some (-1 :: int, iface, t) } = Some (-1, iface, s5)" "holds s {#} s5"
          by blast
        then show ?thesis using Pair Some l(1) \<open>ok\<close> o True by (intro fail [of s5]) (simp_all add: ufp_tun_up_def)
      next
        case False
        obtain r s4 where k: "tun_up_sock iface sock s3 = (r, s4)" by fastforce
        have "holds s1 (fd_res sock + fds_res fds) s4"
          using holds_trans [OF h3 tun_up_sock_holds [OF k]] by (simp add: add.commute)
        then obtain s5 where c: "os_close sock s4 = Some s5" "holds s1 (fds_res fds) s5" using os_close_holds by blast
        show ?thesis
        proof (cases r)
          case None
          from undo [OF c(2)] obtain s6 where "do { t \<leftarrow> os_close_all fds s5; t \<leftarrow> os_put (Heap q) t; Some (-1 :: int, iface, t) } = Some (-1, iface, s6)" "holds s {#} s6"
            by blast
          then show ?thesis using None Pair Some l(1) \<open>ok\<close> o False k c(1) by (intro fail [of s6]) (simp_all add: ufp_tun_up_def)
        next
          case (Some ti)
          have "holds s (add_mset (Heap q) (fds_res fds)) s5" using holds_trans [OF h1 c(2)] \<open>p = Some q\<close> by simp
          then show ?thesis using Pair \<open>p = Some q\<close> l \<open>ok\<close> o False k c(1) Some by (simp add: ufp_tun_up_def tun_res_def)
        qed
      qed
    qed
  qed
qed

lemma tun_down_spec:
  assumes "holds s (tun_res iface + R) s1" "length (snd (if_tap_fds iface)) = unat (if_num_qps iface)"
  shows "\<exists>s2. ufp_tun_down iface s1 = Some s2 \<and> holds s R s2"
proof -
  obtain sock s3 where o: "os_open s1 = (sock, s3)" by fastforce
  note h3 = holds_trans [OF assms(1) os_open_holds [OF o]]
  obtain flags s4 where f: "ufp_tun_flags_get sock (if_name iface) s3 = (flags, s4)" by fastforce
  let ?s5 = "if sint flags < 0 then s4 else snd (ufp_tun_flags_set sock (if_name iface) (flags AND NOT IFF_UP) s4)"
  have "holds s4 {#} ?s5"
    using tun_requests_hold(5) [of sock "if_name iface" "flags AND NOT IFF_UP" s4] by (cases "ufp_tun_flags_set sock (if_name iface) (flags AND NOT IFF_UP) s4") auto
  from holds_trans [OF holds_trans [OF h3 tun_requests_hold(6) [OF f]] this]
  have "holds s (fd_res sock + (tun_res iface + R)) ?s5" by (simp add: add.commute)
  then obtain s6 where c: "os_close sock ?s5 = Some s6" "holds s (tun_res iface + R) s6" using os_close_holds by blast
  have "\<exists>s6. (if sock < 0 then Some s3 else os_close sock ?s5) = Some s6 \<and> holds s (fds_res (snd (if_tap_fds iface)) + add_mset (Heap (fst (if_tap_fds iface))) R) s6"
    using c h3 by (cases "sock < 0") (auto simp: tun_res_def fd_res_def)
  then obtain s7 where s7: "(if sock < 0 then Some s3 else os_close sock ?s5) = Some s7"
      "holds s (fds_res (snd (if_tap_fds iface)) + add_mset (Heap (fst (if_tap_fds iface))) R) s7" by blast
  obtain s8 where 8: "os_close_all (snd (if_tap_fds iface)) s7 = Some s8" "holds s (add_mset (Heap (fst (if_tap_fds iface))) R) s8"
    using os_close_all_holds [OF s7(2)] by blast
  obtain s9 where 9: "os_put (Heap (fst (if_tap_fds iface))) s8 = Some s9" "holds s R s9" using os_put_holds [OF 8(2)] by blast
  have "ufp_tun_down iface s1 = Some s9"
    using s7(1) 8(1) 9(1) assms(2) unfolding ufp_tun_down_def o f Let_def case_prod_conv by (cases "sock < 0") simp_all
  with 9(2) show ?thesis by blast
qed

end
