(* ===== verification/Ufp_World.thy ===== *)
theory Ufp_World
  imports Ufp_Mem Ufp_Vfio Ufp_Tap
begin

text \<open>
  The memory pools and the operating system together, with one account of all that the set-up code holds.
\<close>

subsection \<open>Blocks of the pools\<close>

type_synonym mpools = "ufp_mpool list"

definition mpool_alloc :: "nat \<Rightarrow> nat \<Rightarrow> mpools \<Rightarrow> os \<Rightarrow> (addr option \<times> mpools) option" where
  "mpool_alloc i sz P s =
     (if i < length P
      then do { (r, mp) \<leftarrow> ufp_mem_alloc_align (os_page s) (P ! i) sz (os_page s); Some (r, P[i := mp]) }
      else None)"

definition mpool_free :: "nat \<Rightarrow> addr \<Rightarrow> mpools \<Rightarrow> mpools option" where
  "mpool_free i a P =
     (if i < length P then do { mp \<leftarrow> ufp_mem_free (P ! i) a; Some (P[i := mp]) } else None)"

subsection \<open>The account\<close>

text \<open>The blocks in use, with the number of their pool.\<close>

type_synonym blks = "(nat \<times> addr) multiset"

definition pool_blks :: "nat \<Rightarrow> ufp_mpool \<Rightarrow> blks" where
  "pool_blks i mp = image_mset (Pair i) (mset_set (mp_live mp))"

definition pools_live :: "mpools \<Rightarrow> blks" where
  "pools_live P = (\<Sum>i<length P. pool_blks i (P ! i))"

definition pools_wf :: "mpools \<Rightarrow> bool" where
  "pools_wf P \<longleftrightarrow> (\<forall>i < length P. mp_wf (P ! i))"

lemma pools_wf_upd: "pools_wf P \<Longrightarrow> mp_wf mp \<Longrightarrow> pools_wf (P[i := mp])"
  unfolding pools_wf_def
proof (intro allI impI)
  fix j assume "\<forall>j < length P. mp_wf (P ! j)" "mp_wf mp" "j < length (P[i := mp])"
  then show "mp_wf (P[i := mp] ! j)" by (cases "j = i") simp_all
qed

text \<open>The second pair of pools and system has all that the first one has, and the blocks \<open>B\<close> and the resources \<open>R\<close>.\<close>

definition held :: "mpools \<Rightarrow> os \<Rightarrow> blks \<Rightarrow> res multiset \<Rightarrow> mpools \<Rightarrow> os \<Rightarrow> bool" where
  "held P s B R P' s' \<longleftrightarrow> length P' = length P \<and> pools_wf P' \<and>
     pools_live P' = pools_live P + B \<and> holds s R s'"

lemma held_refl: "pools_wf P \<Longrightarrow> held P s {#} {#} P s"
  by (simp add: held_def)

lemma held_os: "held P s B R P1 s1 \<Longrightarrow> holds s1 Q s2 \<Longrightarrow> held P s B (R + Q) P1 s2"
  using holds_trans by (auto simp: held_def)

lemma held_trans: "held P s B R P1 s1 \<Longrightarrow> held P1 s1 C Q P2 s2 \<Longrightarrow> held P s (B + C) (R + Q) P2 s2"
  using holds_trans by (auto simp: held_def add.assoc)

lemma pools_live_upd:
  assumes "i < length P" "pool_blks i mp + Q = pool_blks i (P ! i) + R"
  shows "pools_live (P[i := mp]) + Q = pools_live P + R"
proof -
  have "pools_live (P[i := mp]) = pool_blks i mp + (\<Sum>j\<in>{..<length P} - {i}. pool_blks j (P ! j))"
    unfolding pools_live_def using assms(1) by (subst sum.remove [of _ i]) (auto intro!: sum.cong)
  moreover have "pools_live P = pool_blks i (P ! i) + (\<Sum>j\<in>{..<length P} - {i}. pool_blks j (P ! j))"
    unfolding pools_live_def using assms(1) by (subst sum.remove [of _ i]) auto
  ultimately show ?thesis using assms(2) by (simp add: add.commute add.left_commute)
qed

text \<open>A page size is a power of two, and the request with its padding does not overflow.\<close>

definition size_fits :: "nat \<Rightarrow> nat \<Rightarrow> bool" where
  "size_fits page n \<longleftrightarrow> 0 < page \<and> page + size_header + n < size_t_mod"

lemma mpool_alloc_spec:
  assumes h: "held P0 s0 B R P s" and i: "i < length P" and n: "size_fits (os_page s) n"
  shows "\<exists>r P'. mpool_alloc i n P s = Some (r, P') \<and>
    (case r of None \<Rightarrow> held P0 s0 B R P' s
     | Some a \<Rightarrow> a mod os_page s = 0 \<and> held P0 s0 (add_mset (i, a) B) R P' s \<and>
         {a ..< a + n} \<subseteq> mp_range (P' ! i) a \<and>
         (\<forall>b. (i, b) \<in># pools_live P \<longrightarrow> mp_range (P' ! i) a \<inter> mp_range (P' ! i) b = {}))"
proof -
  have wf: "mp_wf (P ! i)" using h i by (simp add: held_def pools_wf_def)
  obtain r mp where a: "ufp_mem_alloc_align (os_page s) (P ! i) n (os_page s) = Some (r, mp)" "mp_wf mp"
    and c: "case r of None \<Rightarrow> mp_live mp = mp_live (P ! i)
       | Some a \<Rightarrow> a mod (max (os_page s) (os_page s)) = 0 \<and> a \<notin> mp_live (P ! i) \<and>
         mp_live mp = insert a (mp_live (P ! i)) \<and> {a - size_header ..< a + n} \<subseteq> mp_range mp a \<and>
         (\<forall>b \<in> mp_live (P ! i). mp_range mp a \<inter> mp_range mp b = {})"
    using mem_alloc_align_spec [OF wf, of "os_page s" "os_page s" n] n unfolding size_fits_def by auto
  have wf': "pools_wf (P[i := mp])" using h a(2) pools_wf_upd by (auto simp: held_def)
  have run: "mpool_alloc i n P s = Some (r, P[i := mp])" using a(1) i by (simp add: mpool_alloc_def)
  show ?thesis
  proof (cases r)
    case None
    then have "pool_blks i mp = pool_blks i (P ! i)" using c by (simp add: pool_blks_def)
    then have "pools_live (P[i := mp]) = pools_live P" using pools_live_upd [OF i, of mp "{#}" "{#}"] by simp
    then show ?thesis using h wf' run None by (simp add: held_def)
  next
    case (Some a)
    then have "pool_blks i mp = add_mset ((i, a)) (pool_blks i (P ! i))" using c finite_mp_live [OF wf] by (simp add: pool_blks_def)
    then have l: "pools_live (P[i := mp]) = add_mset ((i, a)) (pools_live P)"
      using pools_live_upd [OF i, of mp "{#}" "{#(i, a)#}"] by simp
    have "b \<in> mp_live (P ! i)" if "(i, b) \<in># pools_live P" for b
      using that finite_mp_live [OF wf] i by (auto simp: pools_live_def pool_blks_def set_mset_sum)
    moreover have "{a ..< a + n} \<subseteq> mp_range mp a" using c Some by (auto simp: subset_iff)
    ultimately show ?thesis using h wf' run Some c i l by (auto simp: held_def)
  qed
qed

lemma mpool_free_spec:
  assumes h: "held P0 s0 (add_mset (i, a) B) R P s" and i: "i < length P0"
  shows "\<exists>P'. mpool_free i a P = Some P' \<and> held P0 s0 B R P' s"
proof -
  have i': "i < length P" and wf: "mp_wf (P ! i)" using h i by (auto simp: held_def pools_wf_def)
  have "(i, a) \<in># pools_live P" using h by (auto simp: held_def)
  then have "a \<in> mp_live (P ! i)" using finite_mp_live [OF wf] by (auto simp: pools_live_def pool_blks_def set_mset_sum)
  from mem_free_spec [OF wf this] obtain mp where f: "ufp_mem_free (P ! i) a = Some mp" "mp_wf mp" "mp_live mp = mp_live (P ! i) - {a}" by blast
  have "pool_blks i mp + {#(i, a)#} = pool_blks i (P ! i)"
    using f(3) \<open>a \<in> mp_live (P ! i)\<close> finite_mp_live [OF wf] by (simp add: pool_blks_def mset_set.remove)
  then have "pools_live (P[i := mp]) + {#(i, a)#} = pools_live P" using pools_live_upd [OF i', of mp "{#(i, a)#}" "{#}"] by simp
  then have "held P0 s0 B R (P[i := mp]) s"
    using h f(2) pools_wf_upd [of P mp i] by (auto simp: held_def)
  then show ?thesis using f(1) i' by (simp add: mpool_free_def)
qed

end
