(* ===== verification/Ufp_Rings.thy ===== *)
theory Ufp_Rings
  imports Ufp_World
begin

text \<open>
  The descriptor rings of an interface: \<open>ufp_alloc_ring\<close>, \<open>ufp_release_ring\<close>, \<open>ufp_alloc_rings\<close> and
  \<open>ufp_release_rings\<close> of \<open>lib/lib_main.c\<close>.
\<close>

subsection \<open>Operations\<close>

text \<open>The macros \<open>ALIGN\<close> and \<open>__ALIGN_MASK\<close>, on \<open>unsigned long\<close>.\<close>

definition ALIGN_MASK :: "u64 \<Rightarrow> u64 \<Rightarrow> u64" where
  "ALIGN_MASK x m = (x + m) AND NOT m"

definition ALIGN :: "u64 \<Rightarrow> u64 \<Rightarrow> u64" where
  "ALIGN x a = ALIGN_MASK x (a - 1)"

definition page_align :: "os \<Rightarrow> nat \<Rightarrow> nat" where
  "page_align s n = unat (ALIGN (of_nat n) (of_nat (os_page s)))"

text \<open>
  What is in memory before it is written: the integers of a block of \<open>malloc\<close>, the descriptors of a block of
  the pool, their size, and the rings of a new array.
\<close>

record 'd junk =
  junk_int :: "nat \<Rightarrow> nat \<Rightarrow> int"
  junk_desc :: "addr \<Rightarrow> nat \<Rightarrow> 'd"
  junk_desc_size :: nat
  junk_ring :: "'d ufp_ring"

text \<open>A ring comes with the handle of its array \<open>slot_index\<close>. The pool is given by its number.\<close>

definition ufp_alloc_ring ::
  "'d junk \<Rightarrow> nat \<Rightarrow> u32 \<Rightarrow> nat \<Rightarrow> mpools \<Rightarrow> os \<Rightarrow> ((nat \<times> 'd ufp_ring) option \<times> mpools \<times> os) option" where
  "ufp_alloc_ring J size_desc num_desc i P s =
     do { let size_desc_align = page_align s size_desc;
          (r, P) \<leftarrow> mpool_alloc i size_desc_align P s;
          case r of None \<Rightarrow> Some (None, P, s)
          | Some addr_virt \<Rightarrow> do {
              let (d, s) = ufp_vfio_dma_map addr_virt size_desc_align s;
              case d of None \<Rightarrow> do { P \<leftarrow> mpool_free i addr_virt P; Some (None, P, s) }
              | Some addr_dma \<Rightarrow> do {
                  let (p, s) = os_get Heap s;
                  case p of None \<Rightarrow> do {
                      (err, s) \<leftarrow> ufp_vfio_dma_unmap addr_dma size_desc_align s;
                      P \<leftarrow> mpool_free i addr_virt P;
                      Some (None, P, s) }
                  | Some p \<Rightarrow>
                      Some (Some (p, (junk_ring J)\<lparr>ring_addr_virt := addr_virt, ring_addr_dma := addr_dma,
                        next_to_use := 0, next_to_clean := 0,
                        slot_index := map (junk_int J p) [0..<unat num_desc],
                        ring_mem := map (junk_desc J addr_virt) [0..<size_desc div junk_desc_size J]\<rparr>), P, s) } } }"

definition ufp_release_ring :: "nat \<times> 'd ufp_ring \<Rightarrow> nat \<Rightarrow> nat \<Rightarrow> mpools \<Rightarrow> os \<Rightarrow> (mpools \<times> os) option" where
  "ufp_release_ring ring size_desc i P s =
     do { let size_desc_align = page_align s size_desc;
          s \<leftarrow> os_put (Heap (fst ring)) s;
          (err, s) \<leftarrow> ufp_vfio_dma_unmap (ring_addr_dma (snd ring)) size_desc_align s;
          P \<leftarrow> mpool_free i (ring_addr_virt (snd ring)) P;
          Some (P, s) }"

text \<open>Releasing the first rings of both arrays, counting up.\<close>

fun release_rings_loop ::
  "nat \<Rightarrow> (nat \<times> 'd ufp_ring) list \<Rightarrow> (nat \<times> 'd ufp_ring) list \<Rightarrow> nat \<Rightarrow> nat \<Rightarrow> mpools \<Rightarrow> os \<Rightarrow> (mpools \<times> os) option" where
  "release_rings_loop i (tx # txs) (rx # rxs) size_tx size_rx P s =
     do { (P, s) \<leftarrow> ufp_release_ring tx size_tx i P s;
          (P, s) \<leftarrow> ufp_release_ring rx size_rx i P s;
          release_rings_loop (Suc i) txs rxs size_tx size_rx P s }"
| "release_rings_loop i _ _ size_tx size_rx P s = Some (P, s)"

text \<open>The loop of \<open>ufp_alloc_rings\<close>: the rings made so far, and how many are left.\<close>

fun alloc_rings_loop ::
  "'d junk \<Rightarrow> 'd ufp_iface \<Rightarrow> nat \<Rightarrow> (nat \<times> 'd ufp_ring) list \<Rightarrow> (nat \<times> 'd ufp_ring) list \<Rightarrow> mpools \<Rightarrow> os \<Rightarrow>
   (bool \<times> (nat \<times> 'd ufp_ring) list \<times> (nat \<times> 'd ufp_ring) list \<times> mpools \<times> os) option" where
  "alloc_rings_loop J iface 0 txs rxs P s = Some (True, txs, rxs, P, s)"
| "alloc_rings_loop J iface (Suc left) txs rxs P s =
     do { let i = length rxs;
          (r, P, s) \<leftarrow> ufp_alloc_ring J (if_size_rx_desc iface) (if_num_rx_desc iface) i P s;
          case r of None \<Rightarrow> Some (False, txs, rxs, P, s)
          | Some rx \<Rightarrow> do {
              (r, P, s) \<leftarrow> ufp_alloc_ring J (if_size_tx_desc iface) (if_num_tx_desc iface) i P s;
              case r of None \<Rightarrow> do {
                  (P, s) \<leftarrow> ufp_release_ring rx (if_size_rx_desc iface) i P s;
                  Some (False, txs, rxs, P, s) }
              | Some tx \<Rightarrow> alloc_rings_loop J iface left (txs @ [tx]) (rxs @ [rx]) P s } }"

text \<open>After a failed ring the array \<open>rx_ring\<close> is not freed.\<close>

definition ufp_alloc_rings ::
  "'d junk \<Rightarrow> 'd ufp_iface \<Rightarrow> mpools \<Rightarrow> os \<Rightarrow> (int \<times> 'd ufp_iface \<times> mpools \<times> os) option" where
  "ufp_alloc_rings J iface P s =
     do { let (tp, s) = os_get Heap s;
          case tp of None \<Rightarrow> Some (-1, iface, P, s)
          | Some tp \<Rightarrow> do {
              let (rp, s) = os_get Heap s;
              case rp of None \<Rightarrow> do { s \<leftarrow> os_put (Heap tp) s; Some (-1, iface, P, s) }
              | Some rp \<Rightarrow> do {
                  (ok, txs, rxs, P, s) \<leftarrow> alloc_rings_loop J iface (unat (if_num_qps iface)) [] [] P s;
                  let iface = iface\<lparr>if_tx_ring := (tp, txs), if_rx_ring := (rp, rxs)\<rparr>;
                  if ok then Some (0, iface, P, s)
                  else do {
                    (P, s) \<leftarrow> release_rings_loop 0 txs rxs (if_size_tx_desc iface) (if_size_rx_desc iface) P s;
                    s \<leftarrow> os_put (Heap tp) s;
                    Some (-1, iface, P, s) } } } }"

definition ufp_release_rings :: "'d ufp_iface \<Rightarrow> mpools \<Rightarrow> os \<Rightarrow> (mpools \<times> os) option" where
  "ufp_release_rings iface P s =
     do { let n = unat (if_num_qps iface);
          if length (snd (if_tx_ring iface)) < n \<or> length (snd (if_rx_ring iface)) < n then None
          else do {
            (P, s) \<leftarrow> release_rings_loop 0 (take n (snd (if_tx_ring iface))) (take n (snd (if_rx_ring iface)))
                        (if_size_tx_desc iface) (if_size_rx_desc iface) P s;
            s \<leftarrow> os_put (Heap (fst (if_rx_ring iface))) s;
            s \<leftarrow> os_put (Heap (fst (if_tx_ring iface))) s;
            Some (P, s) } }"

subsection \<open>Alignment\<close>

definition align_fits :: "nat \<Rightarrow> nat \<Rightarrow> bool" where
  "align_fits page n \<longleftrightarrow> (\<exists>k. page = 2 ^ k) \<and> n + 2 * page + size_header < size_t_mod"

lemma and_not_mask_unat:
  fixes y :: u64
  shows "unat (y AND NOT (mask k)) = unat y div 2 ^ k * 2 ^ k"
proof -
  have "y AND NOT (mask k) = push_bit k (drop_bit k y)"
    by (rule bit_word_eqI) (auto simp: bit_simps)
  then have "unat (y AND NOT (mask k)) = take_bit 64 (push_bit k (drop_bit k (unat y)))"
    by (simp add: unsigned_push_bit_eq unat_drop_bit_eq)
  also have "push_bit k (drop_bit k (unat y)) = unat y div 2 ^ k * 2 ^ k"
    by (simp add: push_bit_eq_mult drop_bit_eq_div)
  also have "take_bit 64 (unat y div 2 ^ k * 2 ^ k) = unat y div 2 ^ k * 2 ^ k"
    using unsigned_less [of y, where ?'a = nat] by (intro take_bit_nat_eq_self) (auto intro: le_less_trans [OF div_times_less_eq_dividend])
  finally show ?thesis .
qed

lemma page_align_spec:
  assumes "align_fits (os_page s) n"
  shows "page_align s n = (n + (os_page s - 1)) div os_page s * os_page s"
    "n \<le> page_align s n" "page_align s n < n + os_page s" "os_page s dvd page_align s n" "size_fits (os_page s) (page_align s n)"
proof -
  obtain k where k: "os_page s = 2 ^ k" using assms by (auto simp: align_fits_def)
  have b: "n + 2 * os_page s + size_header < 2 ^ 64" using assms by (simp add: align_fits_def size_t_mod_def)
  then have "(2 :: nat) ^ k < 2 ^ 64" by (simp add: k)
  then have k64: "k < 64" by (rule power_less_imp_less_exp [rotated]) simp
  have m: "of_nat (os_page s) - 1 = (mask k :: u64)" by (simp add: k mask_eq_exp_minus_1)
  have um: "unat (mask k :: u64) = os_page s - 1" 
  proof -
    have "(mask k :: u64) = of_nat (2 ^ k - 1)" by (simp add: mask_eq_exp_minus_1 of_nat_diff)
    moreover have "(2 :: nat) ^ k - 1 < 2 ^ 64" using \<open>(2 :: nat) ^ k < 2 ^ 64\<close> by linarith
    moreover have "unat (of_nat m :: u64) = m" if "m < 2 ^ 64" for m using that by (simp add: unat_of_nat)
    ultimately show ?thesis by (simp only: k)
  qed
  have un: "unat (of_nat n :: u64) = n" using b by (simp add: unat_of_nat)
  have sum: "unat (of_nat n + mask k :: u64) = n + (os_page s - 1)" using b by (simp add: unat_word_ariths un um)
  show e: "page_align s n = (n + (os_page s - 1)) div os_page s * os_page s"
    unfolding page_align_def ALIGN_def ALIGN_MASK_def m and_not_mask_unat sum by (simp only: k)
  have p: "0 < os_page s" by (simp add: k)
  let ?x = "n + (os_page s - 1)"
  have "?x div os_page s * os_page s + ?x mod os_page s = ?x" by (rule div_mult_mod_eq)
  moreover have "?x mod os_page s < os_page s" using p by simp
  ultimately show "n \<le> page_align s n" "page_align s n < n + os_page s" unfolding e using p by linarith+
  then show "size_fits (os_page s) (page_align s n)" using b p by (auto simp: size_fits_def size_t_mod_def)
  show "os_page s dvd page_align s n" unfolding e by simp
qed

subsection \<open>What is held\<close>

definition ring_res :: "nat \<times> 'd ufp_ring \<Rightarrow> res multiset" where
  "ring_res r = {#Heap (fst r), Iova (ring_addr_dma (snd r))#}"

definition ring_blk :: "nat \<Rightarrow> nat \<times> 'd ufp_ring \<Rightarrow> nat \<times> addr" where
  "ring_blk i r = (i, ring_addr_virt (snd r))"

text \<open>A new ring: empty, with its descriptors in a block of the pool of its own.\<close>

definition ring_new :: "nat \<Rightarrow> nat \<Rightarrow> u32 \<Rightarrow> nat \<Rightarrow> 'd ufp_ring \<Rightarrow> bool" where
  "ring_new page size_desc num_desc dsize ring \<longleftrightarrow>
     next_to_use ring = 0 \<and> next_to_clean ring = 0 \<and> length (slot_index ring) = unat num_desc \<and>
     length (ring_mem ring) = size_desc div dsize \<and> page dvd ring_addr_virt ring \<and>
     ring_addr_dma ring = of_nat (ring_addr_virt ring)"

lemma held_page: "held P0 s0 B R P s \<Longrightarrow> os_page s = os_page s0" "held P0 s0 B R P s \<Longrightarrow> length P = length P0"
  by (simp_all add: held_def holds_def)

lemma held_put: "held P0 s0 B (add_mset r R) P s \<Longrightarrow> \<exists>s'. os_put r s = Some s' \<and> held P0 s0 B R P s'"
  using os_put_holds by (auto simp: held_def)

lemma held_unmap: "held P0 s0 B (add_mset (Iova d) R) P s \<Longrightarrow> \<exists>r s'. ufp_vfio_dma_unmap d n s = Some (r, s') \<and> held P0 s0 B R P s'"
  using dma_unmap_holds by (auto simp: held_def)

lemma alloc_ring_spec:
  assumes h: "held P0 s0 B R P s" and i: "i < length P" and f: "align_fits (os_page s) size_desc"
  shows "\<exists>r P' s'. ufp_alloc_ring J size_desc num_desc i P s = Some (r, P', s') \<and>
    (case r of None \<Rightarrow> held P0 s0 B R P' s'
     | Some ring \<Rightarrow> held P0 s0 (add_mset (ring_blk i ring) B) (ring_res ring + R) P' s' \<and>
         ring_new (os_page s) size_desc num_desc (junk_desc_size J) (snd ring) \<and>
         {ring_addr_virt (snd ring) ..< ring_addr_virt (snd ring) + size_desc} \<subseteq> mp_range (P' ! i) (ring_addr_virt (snd ring)) \<and>
         (\<forall>b. (i, b) \<in># pools_live P \<longrightarrow> mp_range (P' ! i) (ring_addr_virt (snd ring)) \<inter> mp_range (P' ! i) b = {}))"
proof -
  note al = page_align_spec [OF f]
  let ?n = "page_align s size_desc"
  obtain r P1 where r: "mpool_alloc i ?n P s = Some (r, P1)" "case r of None \<Rightarrow> held P0 s0 B R P1 s
     | Some a \<Rightarrow> a mod os_page s = 0 \<and> held P0 s0 (add_mset (i, a) B) R P1 s \<and> {a ..< a + ?n} \<subseteq> mp_range (P1 ! i) a \<and>
         (\<forall>b. (i, b) \<in># pools_live P \<longrightarrow> mp_range (P1 ! i) a \<inter> mp_range (P1 ! i) b = {})"
    using mpool_alloc_spec [OF h i al(5)] by blast
  have i0: "i < length P0" using i held_page(2) [OF h] by simp
  show ?thesis
  proof (cases r)
    case None
    then show ?thesis using r by (simp add: ufp_alloc_ring_def)
  next
    case (Some a)
    then have a: "a mod os_page s = 0" "held P0 s0 (add_mset (i, a) B) R P1 s" "{a ..< a + ?n} \<subseteq> mp_range (P1 ! i) a"
      "\<forall>b. (i, b) \<in># pools_live P \<longrightarrow> mp_range (P1 ! i) a \<inter> mp_range (P1 ! i) b = {}" using r(2) by simp_all
    obtain d s1 where d: "ufp_vfio_dma_map a ?n s = (d, s1)" by fastforce
    note h1 = held_os [OF a(2) dma_map_holds [OF d]]
    show ?thesis
    proof (cases d)
      case None
      obtain P2 where "mpool_free i a P1 = Some P2" "held P0 s0 B R P2 s1"
        using mpool_free_spec [OF _ i0, of s0 a B R P1 s1] h1 None by auto
      then show ?thesis using r(1) Some d None by (simp add: ufp_alloc_ring_def)
    next
      case (Some dma)
      have dma: "dma = of_nat a" using d Some by (auto simp: ufp_vfio_dma_map_def split: prod.splits bool.splits)
      obtain p s2 where p: "os_get Heap s1 = (p, s2)" by fastforce
      note h2 = held_os [OF h1 os_get_holds [OF p]]
      show ?thesis
      proof (cases p)
        case None
        then have "held P0 s0 (add_mset (i, a) B) (add_mset (Iova dma) R) P1 s2" using h2 Some by simp
        from held_unmap [OF this] obtain e s3 where u: "ufp_vfio_dma_unmap dma ?n s2 = Some (e, s3)"
          "held P0 s0 (add_mset (i, a) B) R P1 s3" by blast
        obtain P2 where "mpool_free i a P1 = Some P2" "held P0 s0 B R P2 s3" using mpool_free_spec [OF u(2) i0] by blast
        then show ?thesis using r(1) \<open>r = Some a\<close> d Some p None u(1) by (simp add: ufp_alloc_ring_def)
      next
        case (Some q)
        have "{a ..< a + size_desc} \<subseteq> mp_range (P1 ! i) a" using a(3) al(2) by auto
        moreover have "held P0 s0 (add_mset (i, a) B) (add_mset (Heap q) (add_mset (Iova dma) R)) P1 s2"
          using h2 \<open>d = Some dma\<close> Some by (simp add: add_mset_commute)
        ultimately show ?thesis
          using r(1) \<open>r = Some a\<close> d \<open>d = Some dma\<close> p Some a(1,4) dma
          by (simp add: ufp_alloc_ring_def ring_blk_def ring_res_def ring_new_def mod_eq_0_iff_dvd)
      qed
    qed
  qed
qed

lemma release_ring_spec:
  assumes "held P0 s0 (add_mset (ring_blk i ring) B) (ring_res ring + R) P s" "i < length P0"
  shows "\<exists>P' s'. ufp_release_ring ring size_desc i P s = Some (P', s') \<and> held P0 s0 B R P' s'"
proof -
  have "held P0 s0 (add_mset (ring_blk i ring) B) (add_mset (Heap (fst ring)) (add_mset (Iova (ring_addr_dma (snd ring))) R)) P s"
    using assms(1) by (simp add: ring_res_def)
  from held_put [OF this] obtain s1 where 1: "os_put (Heap (fst ring)) s = Some s1"
    "held P0 s0 (add_mset (ring_blk i ring) B) (add_mset (Iova (ring_addr_dma (snd ring))) R) P s1" by blast
  from held_unmap [OF 1(2)] obtain e s2 where 2: "ufp_vfio_dma_unmap (ring_addr_dma (snd ring)) (page_align s size_desc) s1 = Some (e, s2)"
    "held P0 s0 (add_mset (ring_blk i ring) B) R P s2" by blast
  from mpool_free_spec [OF 2(2) [unfolded ring_blk_def] assms(2)] obtain P' where
    "mpool_free i (ring_addr_virt (snd ring)) P = Some P'" "held P0 s0 B R P' s2" by blast
  with 1(1) 2(1) show ?thesis by (simp add: ufp_release_ring_def)
qed

subsection \<open>All rings of an interface\<close>

fun rings_blks :: "nat \<Rightarrow> (nat \<times> 'd ufp_ring) list \<Rightarrow> blks" where
  "rings_blks i [] = {#}"
| "rings_blks i (r # rs) = add_mset (ring_blk i r) (rings_blks (Suc i) rs)"

definition rings_res :: "(nat \<times> 'd ufp_ring) list \<Rightarrow> res multiset" where
  "rings_res rs = sum_list (map ring_res rs)"

lemma rings_res_simps [simp]: "rings_res [] = {#}" "rings_res (r # rs) = ring_res r + rings_res rs" "rings_res (rs @ [r]) = ring_res r + rings_res rs"
  by (simp_all add: rings_res_def add.commute)

lemma rings_blks_snoc [simp]: "rings_blks i (rs @ [r]) = add_mset (ring_blk (i + length rs) r) (rings_blks i rs)"
  by (induction rs arbitrary: i) simp_all

lemma release_rings_loop_spec:
  "held P0 s0 (rings_blks i txs + rings_blks i rxs + B) (rings_res txs + rings_res rxs + R) P s \<Longrightarrow> length txs = length rxs \<Longrightarrow>
   i + length rxs \<le> length P0 \<Longrightarrow>
   \<exists>P' s'. release_rings_loop i txs rxs stx srx P s = Some (P', s') \<and> held P0 s0 B R P' s'"
proof (induction i txs rxs stx srx P s rule: release_rings_loop.induct)
  case (1 i tx txs rx rxs stx srx P s)
  have i: "i < length P0" using 1 by simp
  have "held P0 s0 (add_mset (ring_blk i tx) (add_mset (ring_blk i rx) (rings_blks (Suc i) txs + rings_blks (Suc i) rxs + B)))
    (ring_res tx + (ring_res rx + (rings_res txs + rings_res rxs + R))) P s"
    using 1 by (simp add: add_ac)
  from release_ring_spec [OF this i] obtain P1 s1 where 2: "ufp_release_ring tx stx i P s = Some (P1, s1)"
    "held P0 s0 (add_mset (ring_blk i rx) (rings_blks (Suc i) txs + rings_blks (Suc i) rxs + B)) (ring_res rx + (rings_res txs + rings_res rxs + R)) P1 s1"
    by blast
  from release_ring_spec [OF 2(2) i] obtain P2 s2 where 3: "ufp_release_ring rx srx i P1 s1 = Some (P2, s2)"
    "held P0 s0 (rings_blks (Suc i) txs + rings_blks (Suc i) rxs + B) (rings_res txs + rings_res rxs + R) P2 s2" by blast
  from 1(1) [OF 2(1) refl 3(1) refl 3(2)] 1 show ?case using 2(1) 3(1) by simp
qed simp_all

definition iface_rings_ok :: "nat \<Rightarrow> nat \<Rightarrow> 'd ufp_iface \<Rightarrow> (nat \<times> 'd ufp_ring) list \<Rightarrow> (nat \<times> 'd ufp_ring) list \<Rightarrow> bool" where
  "iface_rings_ok page dsize iface txs rxs \<longleftrightarrow> length txs = length rxs \<and>
     list_all (\<lambda>r. ring_new page (if_size_tx_desc iface) (if_num_tx_desc iface) dsize (snd r)) txs \<and>
     list_all (\<lambda>r. ring_new page (if_size_rx_desc iface) (if_num_rx_desc iface) dsize (snd r)) rxs"

lemma alloc_rings_loop_spec:
  assumes f: "align_fits (os_page s0) (if_size_tx_desc iface)" "align_fits (os_page s0) (if_size_rx_desc iface)"
  shows "held P0 s0 (rings_blks 0 txs + rings_blks 0 rxs + B) (rings_res txs + rings_res rxs + R) P s \<Longrightarrow>
    iface_rings_ok (os_page s0) (junk_desc_size J) iface txs rxs \<Longrightarrow> length rxs + n \<le> length P0 \<Longrightarrow>
    \<exists>ok txs' rxs' P' s'. alloc_rings_loop J iface n txs rxs P s = Some (ok, txs', rxs', P', s') \<and>
      held P0 s0 (rings_blks 0 txs' + rings_blks 0 rxs' + B) (rings_res txs' + rings_res rxs' + R) P' s' \<and>
      iface_rings_ok (os_page s0) (junk_desc_size J) iface txs' rxs' \<and> length rxs' \<le> length P0 \<and>
      (ok \<longrightarrow> length rxs' = length rxs + n)"
proof (induction n arbitrary: txs rxs P s)
  case (Suc n)
  let ?i = "length rxs"
  have i: "?i < length P" "?i < length P0" using Suc.prems held_page(2) [OF Suc.prems(1)] by simp_all
  have len: "length txs = length rxs" using Suc.prems(2) by (simp add: iface_rings_ok_def)
  have pg: "os_page s = os_page s0" by (rule held_page [OF Suc.prems(1)])
  obtain r P1 s1 where 1: "ufp_alloc_ring J (if_size_rx_desc iface) (if_num_rx_desc iface) ?i P s = Some (r, P1, s1)"
    "case r of None \<Rightarrow> held P0 s0 (rings_blks 0 txs + rings_blks 0 rxs + B) (rings_res txs + rings_res rxs + R) P1 s1
     | Some ring \<Rightarrow> held P0 s0 (add_mset (ring_blk ?i ring) (rings_blks 0 txs + rings_blks 0 rxs + B))
         (ring_res ring + (rings_res txs + rings_res rxs + R)) P1 s1 \<and>
         ring_new (os_page s0) (if_size_rx_desc iface) (if_num_rx_desc iface) (junk_desc_size J) (snd ring)"
    using alloc_ring_spec [OF Suc.prems(1) i(1), of "if_size_rx_desc iface" J "if_num_rx_desc iface"] f(2) unfolding pg
    by (fastforce split: option.splits)
  show ?case
  proof (cases r)
    case None
    then show ?thesis using 1 Suc.prems(2) i(2) by auto
  next
    case (Some rx)
    then have h1: "held P0 s0 (add_mset (ring_blk ?i rx) (rings_blks 0 txs + rings_blks 0 rxs + B))
         (ring_res rx + (rings_res txs + rings_res rxs + R)) P1 s1"
      and n1: "ring_new (os_page s0) (if_size_rx_desc iface) (if_num_rx_desc iface) (junk_desc_size J) (snd rx)" using 1(2) by simp_all
    have i1: "?i < length P1" using i(2) held_page(2) [OF h1] by simp
    have pg1: "os_page s1 = os_page s0" by (rule held_page [OF h1])
    obtain q P2 s2 where 2: "ufp_alloc_ring J (if_size_tx_desc iface) (if_num_tx_desc iface) ?i P1 s1 = Some (q, P2, s2)"
      "case q of None \<Rightarrow> held P0 s0 (add_mset (ring_blk ?i rx) (rings_blks 0 txs + rings_blks 0 rxs + B))
           (ring_res rx + (rings_res txs + rings_res rxs + R)) P2 s2
       | Some ring \<Rightarrow> held P0 s0 (add_mset (ring_blk ?i ring) (add_mset (ring_blk ?i rx) (rings_blks 0 txs + rings_blks 0 rxs + B)))
           (ring_res ring + (ring_res rx + (rings_res txs + rings_res rxs + R))) P2 s2 \<and>
           ring_new (os_page s0) (if_size_tx_desc iface) (if_num_tx_desc iface) (junk_desc_size J) (snd ring)"
      using alloc_ring_spec [OF h1 i1, of "if_size_tx_desc iface" J "if_num_tx_desc iface"] f(1) unfolding pg1
      by (fastforce split: option.splits)
    show ?thesis
    proof (cases q)
      case None
      then have "held P0 s0 (add_mset (ring_blk ?i rx) (rings_blks 0 txs + rings_blks 0 rxs + B))
           (ring_res rx + (rings_res txs + rings_res rxs + R)) P2 s2" using 2(2) by simp
      from release_ring_spec [OF this i(2)] obtain P3 s3 where "ufp_release_ring rx (if_size_rx_desc iface) ?i P2 s2 = Some (P3, s3)"
        "held P0 s0 (rings_blks 0 txs + rings_blks 0 rxs + B) (rings_res txs + rings_res rxs + R) P3 s3" by blast
      then show ?thesis using 1(1) Some 2(1) None Suc.prems(2) i(2) by auto
    next
      case (Some tx)
      then have h2: "held P0 s0 (rings_blks 0 (txs @ [tx]) + rings_blks 0 (rxs @ [rx]) + B)
          (rings_res (txs @ [tx]) + rings_res (rxs @ [rx]) + R) P2 s2"
        using 2(2) len by (simp add: add_ac)
      have ok2: "iface_rings_ok (os_page s0) (junk_desc_size J) iface (txs @ [tx]) (rxs @ [rx])"
        using Suc.prems(2) n1 2(2) Some by (simp add: iface_rings_ok_def)
      show ?thesis using Suc.IH [OF h2 ok2] Suc.prems(3) 1(1) \<open>r = Some rx\<close> 2(1) Some by auto
    qed
  qed
qed (auto simp: iface_rings_ok_def)

text \<open>What an interface with rings holds, and what is left of it.\<close>

definition iface_blks :: "'d ufp_iface \<Rightarrow> blks" where
  "iface_blks iface = rings_blks 0 (snd (if_tx_ring iface)) + rings_blks 0 (snd (if_rx_ring iface))"

definition iface_ring_res :: "'d ufp_iface \<Rightarrow> res multiset" where
  "iface_ring_res iface = {#Heap (fst (if_rx_ring iface)), Heap (fst (if_tx_ring iface))#} +
     (rings_res (snd (if_tx_ring iface)) + rings_res (snd (if_rx_ring iface)))"

definition iface_rings :: "nat \<Rightarrow> nat \<Rightarrow> 'd ufp_iface \<Rightarrow> bool" where
  "iface_rings page dsize iface \<longleftrightarrow> length (snd (if_rx_ring iface)) = unat (if_num_qps iface) \<and>
     iface_rings_ok page dsize iface (snd (if_tx_ring iface)) (snd (if_rx_ring iface))"

lemma held_get:
  assumes "held P0 s0 B R P s" "os_get k s = (r, s')"
  shows "held P0 s0 B ((case r of None \<Rightarrow> {#} | Some n \<Rightarrow> {#k n#}) + R) P s'"
  using held_os [OF assms(1) os_get_holds [OF assms(2)]] by (simp add: add.commute)

lemma alloc_rings_spec:
  assumes h: "held P0 s0 B R P s" and n: "unat (if_num_qps iface) \<le> length P0"
    and f: "align_fits (os_page s0) (if_size_tx_desc iface)" "align_fits (os_page s0) (if_size_rx_desc iface)"
  shows "\<exists>ret iface' P' s'. ufp_alloc_rings J iface P s = Some (ret, iface', P', s') \<and>
    iface' = iface\<lparr>if_tx_ring := if_tx_ring iface', if_rx_ring := if_rx_ring iface'\<rparr> \<and>
    (if ret = 0 then held P0 s0 (iface_blks iface' + B) (iface_ring_res iface' + R) P' s' \<and>
       iface_rings (os_page s0) (junk_desc_size J) iface'
     else ret = -1 \<and> (\<exists>leak. held P0 s0 B (leak + R) P' s' \<and> (leak = {#} \<or> (\<exists>p. leak = {#Heap p#}))))"
proof -
  have fail: ?thesis if "ufp_alloc_rings J iface P s = Some (-1, iface', P', s')" "held P0 s0 B (leak + R) P' s'"
      "leak = {#} \<or> (\<exists>p. leak = {#Heap p#})"
      "iface' = iface\<lparr>if_tx_ring := if_tx_ring iface', if_rx_ring := if_rx_ring iface'\<rparr>" for iface' P' s' leak
    using that by (intro exI [of _ "-1"] exI [of _ iface'] exI [of _ P'] exI [of _ s']) auto
  obtain t s1 where 1: "os_get Heap s = (t, s1)" by fastforce
  note h1 = held_get [OF h 1]
  show ?thesis
  proof (cases t)
    case None
    then show ?thesis using h1 1 by (intro fail [of iface P s1 "{#}"]) (simp_all add: ufp_alloc_rings_def)
  next
    case (Some tp)
    obtain r s2 where 2: "os_get Heap s1 = (r, s2)" by fastforce
    note h2 = held_get [OF h1 2]
    show ?thesis
    proof (cases r)
      case None
      then have "held P0 s0 B (add_mset (Heap tp) R) P s2" using h2 Some by simp
      from held_put [OF this] obtain s3 where "os_put (Heap tp) s2 = Some s3" "held P0 s0 B R P s3" by blast
      then show ?thesis using 1 2 Some None by (intro fail [of iface P s3 "{#}"]) (simp_all add: ufp_alloc_rings_def)
    next
      case (Some rp)
      let ?R = "{#Heap rp, Heap tp#} + R"
      have h2: "held P0 s0 (rings_blks 0 [] + rings_blks 0 [] + B) (rings_res [] + rings_res [] + ?R) P s2"
        using h2 Some \<open>t = Some tp\<close> by (simp add: add_mset_commute)
      obtain ok txs rxs P3 s3 where 3: "alloc_rings_loop J iface (unat (if_num_qps iface)) [] [] P s2 = Some (ok, txs, rxs, P3, s3)"
        "held P0 s0 (rings_blks 0 txs + rings_blks 0 rxs + B) (rings_res txs + rings_res rxs + ?R) P3 s3"
        "iface_rings_ok (os_page s0) (junk_desc_size J) iface txs rxs" "length rxs \<le> length P0" "ok \<longrightarrow> length rxs = unat (if_num_qps iface)"
        using alloc_rings_loop_spec [OF f h2, of J "unat (if_num_qps iface)"] n by (auto simp: iface_rings_ok_def simp del: alloc_rings_loop.simps)
      let ?if = "iface\<lparr>if_tx_ring := (tp, txs), if_rx_ring := (rp, rxs)\<rparr>"
      show ?thesis
      proof (cases ok)
        case True
        have "held P0 s0 (iface_blks ?if + B) (iface_ring_res ?if + R) P3 s3"
          using 3(2) by (simp add: iface_blks_def iface_ring_res_def add_ac)
        moreover have "iface_rings (os_page s0) (junk_desc_size J) ?if"
          using 3(3,5) True by (simp add: iface_rings_def iface_rings_ok_def)
        ultimately show ?thesis using 1 2 Some \<open>t = Some tp\<close> 3(1) True by (simp add: ufp_alloc_rings_def)
      next
        case False
        have len: "length txs = length rxs" "0 + length rxs \<le> length P0" using 3(3,4) by (simp_all add: iface_rings_ok_def)
        obtain P4 s4 where 4: "release_rings_loop 0 txs rxs (if_size_tx_desc iface) (if_size_rx_desc iface) P3 s3 = Some (P4, s4)"
          "held P0 s0 B ?R P4 s4" using release_rings_loop_spec [OF 3(2) len] by blast
        have "held P0 s0 B (add_mset (Heap tp) ({#Heap rp#} + R)) P4 s4" using 4(2) by (simp add: add_mset_commute)
        from held_put [OF this] obtain s5 where "os_put (Heap tp) s4 = Some s5" "held P0 s0 B ({#Heap rp#} + R) P4 s5" by blast
        then show ?thesis using 1 2 Some \<open>t = Some tp\<close> 3(1) False 4(1)
          by (intro fail [of ?if P4 s5 "{#Heap rp#}"]) (simp_all add: ufp_alloc_rings_def)
      qed
    qed
  qed
qed

lemma release_rings_spec:
  assumes h: "held P0 s0 (iface_blks iface + B) (iface_ring_res iface + R) P s"
    and len: "length (snd (if_rx_ring iface)) = unat (if_num_qps iface)" "length (snd (if_tx_ring iface)) = unat (if_num_qps iface)"
    and n: "unat (if_num_qps iface) \<le> length P0"
  shows "\<exists>P' s'. ufp_release_rings iface P s = Some (P', s') \<and> held P0 s0 B R P' s'"
proof -
  let ?tx = "snd (if_tx_ring iface)" and ?rx = "snd (if_rx_ring iface)"
  let ?R = "add_mset (Heap (fst (if_rx_ring iface))) (add_mset (Heap (fst (if_tx_ring iface))) R)"
  have "held P0 s0 (rings_blks 0 ?tx + rings_blks 0 ?rx + B) (rings_res ?tx + rings_res ?rx + ?R) P s"
    using h by (simp add: iface_blks_def iface_ring_res_def add_ac)
  from release_rings_loop_spec [OF this, of "if_size_tx_desc iface" "if_size_rx_desc iface"] len n obtain P1 s1 where
    1: "release_rings_loop 0 ?tx ?rx (if_size_tx_desc iface) (if_size_rx_desc iface) P s = Some (P1, s1)" "held P0 s0 B ?R P1 s1" by auto
  obtain s2 where 2: "os_put (Heap (fst (if_rx_ring iface))) s1 = Some s2"
    "held P0 s0 B (add_mset (Heap (fst (if_tx_ring iface))) R) P1 s2" using held_put [OF 1(2)] by blast
  obtain s3 where 3: "os_put (Heap (fst (if_tx_ring iface))) s2 = Some s3" "held P0 s0 B R P1 s3" using held_put [OF 2(2)] by blast
  show ?thesis using 1(1) 2(1) 3 len by (simp add: ufp_release_rings_def)
qed

end
