(* ===== verification/Ufp_Up.thy ===== *)
theory Ufp_Up
  imports Ufp_Rings
begin

text \<open>
  Bringing interfaces and devices up and down: interrupts, \<open>ufp_up_iface\<close>, \<open>ufp_down_iface\<close>, \<open>ufp_up\<close> and
  \<open>ufp_down\<close> of \<open>lib/lib_main.c\<close>.
\<close>

subsection \<open>Interrupts\<close>

definition ufp_irq_open :: "u32 \<Rightarrow> os \<Rightarrow> ((nat \<times> ufp_irq) option \<times> os) option" where
  "ufp_irq_open entry_idx s =
     do { let (efd, s) = os_open s;
          if efd < 0 then Some (None, s)
          else do {
            let (p, s) = os_get Heap s;
            case p of None \<Rightarrow> do { s \<leftarrow> os_close efd s; Some (None, s) }
            | Some irq \<Rightarrow> Some (Some (irq, \<lparr>irq_fd = efd, irq_entry_idx = ucast entry_idx, irq_vector = 0\<rparr>), s) } }"

definition ufp_irq_close :: "nat \<times> ufp_irq \<Rightarrow> os \<Rightarrow> os option" where
  "ufp_irq_close irq s = do { s \<leftarrow> os_close (irq_fd (snd irq)) s; os_put (Heap (fst irq)) s }"

text \<open>Opening the given number of interrupts, counting \<open>irq_idx\<close> up, and closing a list of them.\<close>

fun irq_open_loop :: "nat \<Rightarrow> u32 \<Rightarrow> (nat \<times> ufp_irq) list \<Rightarrow> os \<Rightarrow> (bool \<times> (nat \<times> ufp_irq) list \<times> u32 \<times> os) option" where
  "irq_open_loop 0 irq_idx irqs s = Some (True, irqs, irq_idx, s)"
| "irq_open_loop (Suc left) irq_idx irqs s =
     do { (r, s) \<leftarrow> ufp_irq_open irq_idx s;
          case r of None \<Rightarrow> Some (False, irqs, irq_idx + 1, s)
          | Some irq \<Rightarrow> irq_open_loop left (irq_idx + 1) (irqs @ [irq]) s }"

fun irq_close_loop :: "(nat \<times> ufp_irq) list \<Rightarrow> os \<Rightarrow> os option" where
  "irq_close_loop [] s = Some s"
| "irq_close_loop (irq # irqs) s = do { s \<leftarrow> ufp_irq_close irq s; irq_close_loop irqs s }"

subsection \<open>Interfaces\<close>

text \<open>
  The part of \<open>ufp_up_iface\<close> that opens the interrupts, with the clean-up of it. After a failed interrupt
  the array \<open>tx_irq\<close> is not freed.
\<close>

definition up_iface_irqs :: "'d ufp_iface \<Rightarrow> os \<Rightarrow> (int \<times> 'd ufp_iface \<times> os) option" where
  "up_iface_irqs iface s =
     do { let (rp, s) = os_get Heap s;
          case rp of None \<Rightarrow> Some (-1, iface, s)
          | Some rp \<Rightarrow> do {
              let err_alloc_tx_irq = (\<lambda>iface s. do { s \<leftarrow> os_put (Heap rp) s; Some (-1, iface, s) });
              let (tp, s) = os_get Heap s;
              case tp of None \<Rightarrow> err_alloc_tx_irq iface s
              | Some tp \<Rightarrow> do {
                  (ok, rxs, irq_idx, s) \<leftarrow> irq_open_loop (unat (if_num_qps iface)) 1 [] s;
                  let iface = iface\<lparr>if_rx_irq := (rp, rxs)\<rparr>;
                  let err_rx_irq = (\<lambda>iface s. do { s \<leftarrow> irq_close_loop rxs s; err_alloc_tx_irq iface s });
                  if \<not> ok then err_rx_irq iface s
                  else do {
                    (ok, txs, irq_idx, s) \<leftarrow> irq_open_loop (unat (if_num_qps iface)) irq_idx [] s;
                    let iface = iface\<lparr>if_tx_irq := (tp, txs)\<rparr>;
                    if \<not> ok then do { s \<leftarrow> irq_close_loop txs s; err_rx_irq iface s }
                    else Some (0, iface, s) } } } }"

definition ufp_up_iface :: "'d junk \<Rightarrow> 'd ufp_iface \<Rightarrow> mpools \<Rightarrow> os \<Rightarrow> (int \<times> 'd ufp_iface \<times> mpools \<times> os) option" where
  "ufp_up_iface J iface P s =
     do { (err, iface, P, s) \<leftarrow> ufp_alloc_rings J iface P s;
          if err < 0 then Some (-1, iface, P, s)
          else do {
            (err, iface, s) \<leftarrow> ufp_tun_up iface s;
            if err < 0 then do { (P, s) \<leftarrow> ufp_release_rings iface P s; Some (-1, iface, P, s) }
            else do {
              (err, iface, s) \<leftarrow> up_iface_irqs iface s;
              if err < 0
              then do { s \<leftarrow> ufp_tun_down iface s; (P, s) \<leftarrow> ufp_release_rings iface P s; Some (-1, iface, P, s) }
              else Some (0, iface, P, s) } } }"

definition ufp_down_iface :: "'d ufp_iface \<Rightarrow> mpools \<Rightarrow> os \<Rightarrow> (mpools \<times> os) option" where
  "ufp_down_iface iface P s =
     do { let n = unat (if_num_qps iface);
          if length (snd (if_rx_irq iface)) < n \<or> length (snd (if_tx_irq iface)) < n then None
          else do {
            s \<leftarrow> irq_close_loop (take n (snd (if_rx_irq iface))) s;
            s \<leftarrow> irq_close_loop (take n (snd (if_tx_irq iface))) s;
            s \<leftarrow> os_put (Heap (fst (if_tx_irq iface))) s;
            s \<leftarrow> os_put (Heap (fst (if_rx_irq iface))) s;
            s \<leftarrow> ufp_tun_down iface s;
            ufp_release_rings iface P s } }"

subsection \<open>Devices\<close>

record settings =
  set_num_qps :: u32
  set_buf_size :: u32
  set_mtu_frame :: u32
  set_promisc :: u32
  set_rx_budget :: u32
  set_tx_budget :: u32

definition iface_set :: "settings \<Rightarrow> 'd ufp_iface \<Rightarrow> 'd ufp_iface" where
  "iface_set S iface = iface\<lparr>if_buf_size := set_buf_size S, if_mtu_frame := set_mtu_frame S, if_promisc := set_promisc S,
     if_rx_budget := set_rx_budget S, if_tx_budget := set_tx_budget S, if_num_qps := set_num_qps S\<rparr>"

text \<open>The loop over the interfaces: those that are up, and the others; \<open>irq_idx\<close> counts the interrupts.\<close>

fun up_ifaces ::
  "'d junk \<Rightarrow> settings \<Rightarrow> 'd ufp_iface list \<Rightarrow> 'd ufp_iface list \<Rightarrow> u32 \<Rightarrow> mpools \<Rightarrow> os \<Rightarrow>
   (bool \<times> 'd ufp_iface list \<times> 'd ufp_iface list \<times> u32 \<times> mpools \<times> os) option" where
  "up_ifaces J S ups [] irq_idx P s = Some (True, ups, [], irq_idx, P, s)"
| "up_ifaces J S ups (iface # ifaces) irq_idx P s =
     do { (err, iface, P, s) \<leftarrow> ufp_up_iface J (iface_set S iface) P s;
          if err < 0 then Some (False, ups, iface # ifaces, irq_idx, P, s)
          else up_ifaces J S (ups @ [iface]) ifaces (irq_idx + if_num_qps iface * 2) P s }"

fun down_ifaces :: "'d ufp_iface list \<Rightarrow> mpools \<Rightarrow> os \<Rightarrow> (mpools \<times> os) option" where
  "down_ifaces [] P s = Some (P, s)"
| "down_ifaces (iface # ifaces) P s = do { (P, s) \<leftarrow> ufp_down_iface iface P s; down_ifaces ifaces P s }"

text \<open>
  The operations of the driver are arguments, as they are pointers of \<open>struct ufp_ops\<close>; so is what the driver keeps of the
  device, \<open>drv_data\<close>, and the entries of the directory of the interrupt vectors.
\<close>

definition ufp_up ::
  "('n \<Rightarrow> 'd ufp_dev \<Rightarrow> os \<Rightarrow> (int \<times> 'n \<times> 'd ufp_dev \<times> os) option) \<Rightarrow> u32 option list \<Rightarrow> 'd junk \<Rightarrow> settings \<Rightarrow>
   'n \<Rightarrow> 'd ufp_dev \<Rightarrow> mpools \<Rightarrow> os \<Rightarrow> (int \<times> 'n \<times> 'd ufp_dev \<times> mpools \<times> os) option" where
  "ufp_up ops_up entries J S n dev P s =
     do { let (mp, s) = os_get Heap s;
          case mp of None \<Rightarrow> Some (-1, n, dev, P, s)
          | Some mp \<Rightarrow> do {
              (ok, misc, irq_idx, s) \<leftarrow> irq_open_loop (unat (dev_num_misc_irqs dev)) 0 [] s;
              let dev = dev\<lparr>dev_misc_irq := (mp, misc)\<rparr>;
              let err_misc_irq = (\<lambda>n dev P s. do {
                s \<leftarrow> irq_close_loop (snd (dev_misc_irq dev)) s;
                s \<leftarrow> os_put (Heap (fst (dev_misc_irq dev))) s;
                Some (-1, n, dev, P, s) });
              if \<not> ok then err_misc_irq n dev P s
              else do {
                (ok, ups, rest, irq_idx, P, s) \<leftarrow> up_ifaces J S [] (dev_iface dev) irq_idx P s;
                let dev = dev\<lparr>dev_iface := ups @ rest\<rparr>;
                let err_irq_set = (\<lambda>n dev s. do {
                  (P, s) \<leftarrow> down_ifaces (take (length ups) (dev_iface dev)) P s;
                  err_misc_irq n dev P s });
                if \<not> ok then err_irq_set n dev s
                else do {
                  (err, s) \<leftarrow> ufp_vfio_irq_set dev irq_idx s;
                  if err < 0 then err_irq_set n dev s
                  else do {
                    (err, dev, s) \<leftarrow> ufp_vfio_irq_vector_get entries dev s;
                    if err < 0 then do { let s = snd (ufp_vfio_irq_unset dev s); err_irq_set n dev s }
                    else do {
                      (err, n, dev, s) \<leftarrow> ops_up n dev s;
                      if err < 0 then do { let s = snd (ufp_vfio_irq_unset dev s); err_irq_set n dev s }
                      else Some (0, n, dev, P, s) } } } } } }"

definition ufp_down ::
  "('n \<Rightarrow> 'd ufp_dev \<Rightarrow> os \<Rightarrow> ('n \<times> 'd ufp_dev \<times> os) option) \<Rightarrow> 'n \<Rightarrow> 'd ufp_dev \<Rightarrow> mpools \<Rightarrow> os \<Rightarrow> ('n \<times> 'd ufp_dev \<times> mpools \<times> os) option" where
  "ufp_down ops_down n dev P s =
     do { (n, dev, s) \<leftarrow> ops_down n dev s;
          let s = snd (ufp_vfio_irq_unset dev s);
          (P, s) \<leftarrow> down_ifaces (dev_iface dev) P s;
          if length (snd (dev_misc_irq dev)) < unat (dev_num_misc_irqs dev) then None
          else do {
            s \<leftarrow> irq_close_loop (take (unat (dev_num_misc_irqs dev)) (snd (dev_misc_irq dev))) s;
            s \<leftarrow> os_put (Heap (fst (dev_misc_irq dev))) s;
            Some (n, dev, P, s) } }"

subsection \<open>What interrupts hold\<close>

definition irq_res :: "nat \<times> ufp_irq \<Rightarrow> res multiset" where
  "irq_res irq = add_mset (Heap (fst irq)) (fd_res (irq_fd (snd irq)))"

definition irqs_res :: "(nat \<times> ufp_irq) list \<Rightarrow> res multiset" where
  "irqs_res irqs = sum_list (map irq_res irqs)"

lemma irqs_res_simps [simp]: "irqs_res [] = {#}" "irqs_res (r # rs) = irq_res r + irqs_res rs" "irqs_res (rs @ [r]) = irq_res r + irqs_res rs"
  by (simp_all add: irqs_res_def add.commute)

text \<open>The interrupts of a loop have consecutive numbers.\<close>

definition irqs_numbered :: "u32 \<Rightarrow> (nat \<times> ufp_irq) list \<Rightarrow> bool" where
  "irqs_numbered first irqs \<longleftrightarrow> map (irq_entry_idx \<circ> snd) irqs = map (\<lambda>k. ucast (first + of_nat k)) [0..<length irqs]"

lemma irq_open_spec:
  "\<exists>r s'. ufp_irq_open idx s = Some (r, s') \<and>
     (case r of None \<Rightarrow> holds s {#} s' | Some irq \<Rightarrow> holds s (irq_res irq) s' \<and> irq_entry_idx (snd irq) = ucast idx)"
proof -
  obtain fd s1 where 1: "os_open s = (fd, s1)" by fastforce
  obtain p s2 where 2: "os_get Heap s1 = (p, s2)" by fastforce
  note h1 = os_open_holds [OF 1]
  note h2 = holds_trans [OF h1 os_get_holds [OF 2]]
  show ?thesis
  proof (cases "fd < 0 \<or> p \<noteq> None")
    case True
    then show ?thesis using 1 2 h1 h2 by (auto simp: ufp_irq_open_def fd_res_def irq_res_def add_mset_commute split: option.splits)
  next
    case False
    then have "holds s (fd_res fd + {#}) s2" using h2 by simp
    from os_close_holds [OF this] False show ?thesis using 1 2 by (auto simp: ufp_irq_open_def)
  qed
qed

lemma irq_close_spec: "holds s0 (irq_res irq + R) s \<Longrightarrow> \<exists>s'. ufp_irq_close irq s = Some s' \<and> holds s0 R s'"
proof -
  assume "holds s0 (irq_res irq + R) s"
  then have "holds s0 (fd_res (irq_fd (snd irq)) + add_mset (Heap (fst irq)) R) s" by (simp add: irq_res_def)
  from os_close_holds [OF this] obtain s1 where "os_close (irq_fd (snd irq)) s = Some s1" "holds s0 (add_mset (Heap (fst irq)) R) s1" by blast
  with os_put_holds show ?thesis by (auto simp: ufp_irq_close_def)
qed

lemma irq_close_loop_spec: "holds s0 (irqs_res irqs + R) s \<Longrightarrow> \<exists>s'. irq_close_loop irqs s = Some s' \<and> holds s0 R s'"
proof (induction irqs arbitrary: s)
  case (Cons irq irqs)
  then have "holds s0 (irq_res irq + (irqs_res irqs + R)) s" by (simp add: add.assoc)
  from irq_close_spec [OF this] obtain s1 where "ufp_irq_close irq s = Some s1" "holds s0 (irqs_res irqs + R) s1" by blast
  with Cons.IH show ?case by simp
qed simp

lemma irq_open_loop_spec:
  "holds s0 (irqs_res irqs + R) s \<Longrightarrow> irqs_numbered first irqs \<Longrightarrow> idx = first + of_nat (length irqs) \<Longrightarrow>
   \<exists>ok irqs' idx' s'. irq_open_loop n idx irqs s = Some (ok, irqs', idx', s') \<and> holds s0 (irqs_res irqs' + R) s' \<and>
     (ok \<longrightarrow> length irqs' = length irqs + n \<and> irqs_numbered first irqs' \<and> idx' = first + of_nat (length irqs'))"
proof (induction n arbitrary: idx irqs s)
  case (Suc n)
  obtain r s1 where 1: "ufp_irq_open idx s = Some (r, s1)"
    "case r of None \<Rightarrow> holds s {#} s1 | Some irq \<Rightarrow> holds s (irq_res irq) s1 \<and> irq_entry_idx (snd irq) = ucast idx"
    using irq_open_spec by blast
  show ?case
  proof (cases r)
    case None
    then show ?thesis using 1 holds_trans [OF Suc.prems(1), of "{#}" s1] by auto
  next
    case (Some irq)
    have "holds s0 (irqs_res (irqs @ [irq]) + R) s1"
      using 1(2) Some holds_trans [OF Suc.prems(1), of "irq_res irq" s1] by (simp add: add_ac)
    moreover have "irqs_numbered first (irqs @ [irq])"
      using Suc.prems(2,3) 1(2) Some by (simp add: irqs_numbered_def)
    ultimately show ?thesis using Suc.IH [of "irqs @ [irq]" s1 "idx + 1"] Suc.prems(3) 1(1) Some by (auto simp: add_ac)
  qed
qed auto

subsection \<open>Interfaces that are up\<close>

lemma heldD: "held P0 s0 B R P s \<Longrightarrow> holds s0 R s"
  by (simp add: held_def)

lemma held_swap: "held P0 s0 B R P s \<Longrightarrow> holds s0 Q s' \<Longrightarrow> held P0 s0 B Q P s'"
  by (simp add: held_def)

definition iface_irq_res :: "'d ufp_iface \<Rightarrow> res multiset" where
  "iface_irq_res iface = {#Heap (fst (if_tx_irq iface)), Heap (fst (if_rx_irq iface))#} +
     (irqs_res (snd (if_rx_irq iface)) + irqs_res (snd (if_tx_irq iface)))"

definition iface_res :: "'d ufp_iface \<Rightarrow> res multiset" where
  "iface_res iface = iface_irq_res iface + (tun_res iface + iface_ring_res iface)"

text \<open>An interface is up: its rings are new, and there are a descriptor and two numbered interrupts for each of them.\<close>

definition iface_up :: "nat \<Rightarrow> nat \<Rightarrow> 'd ufp_iface \<Rightarrow> bool" where
  "iface_up page dsize iface \<longleftrightarrow> iface_rings page dsize iface \<and>
     length (snd (if_tap_fds iface)) = unat (if_num_qps iface) \<and> (\<forall>fd \<in> set (snd (if_tap_fds iface)). 0 \<le> fd) \<and>
     length (snd (if_rx_irq iface)) = unat (if_num_qps iface) \<and> length (snd (if_tx_irq iface)) = unat (if_num_qps iface) \<and>
     irqs_numbered 1 (snd (if_rx_irq iface)) \<and> irqs_numbered (1 + if_num_qps iface) (snd (if_tx_irq iface))"

text \<open>What bringing an interface up changes.\<close>

definition iface_keep :: "'d ufp_iface \<Rightarrow> 'd ufp_iface \<Rightarrow> bool" where
  "iface_keep iface iface' \<longleftrightarrow> (\<exists>tr rr tf ti ri xi. iface' = iface\<lparr>if_tx_ring := tr, if_rx_ring := rr,
     if_tap_fds := tf, if_tap_index := ti, if_rx_irq := ri, if_tx_irq := xi\<rparr>)"

lemma iface_keep_refl: "iface_keep iface iface"
  unfolding iface_keep_def by (cases iface) simp

lemma iface_keep_rings: "iface_keep i j \<Longrightarrow> iface_keep i (j\<lparr>if_tx_ring := tr, if_rx_ring := rr\<rparr>)"
  unfolding iface_keep_def by (cases i; cases j) auto

lemma iface_keep_tap: "iface_keep i j \<Longrightarrow> iface_keep i (j\<lparr>if_tap_fds := tf, if_tap_index := ti\<rparr>)"
  unfolding iface_keep_def by (cases i; cases j) auto

lemma iface_keep_irqs: "iface_keep i j \<Longrightarrow> iface_keep i (j\<lparr>if_rx_irq := ri, if_tx_irq := xi\<rparr>)"
  unfolding iface_keep_def by (cases i; cases j) auto

lemmas iface_keep_upds = iface_keep_rings iface_keep_tap iface_keep_irqs

lemma down_iface_spec:
  assumes h: "held P0 s0 (iface_blks iface + B) (iface_res iface + R) P s" and up: "iface_up page dsize iface"
    and n: "unat (if_num_qps iface) \<le> length P0"
  shows "\<exists>P' s'. ufp_down_iface iface P s = Some (P', s') \<and> held P0 s0 B R P' s'"
proof -
  let ?rx = "if_rx_irq iface" and ?tx = "if_tx_irq iface"
  let ?R1 = "tun_res iface + (iface_ring_res iface + R)"
  have "holds s0 (irqs_res (snd ?rx) + (irqs_res (snd ?tx) + (add_mset (Heap (fst ?tx)) (add_mset (Heap (fst ?rx)) ?R1)))) s"
    using heldD [OF h] by (simp add: iface_res_def iface_irq_res_def add_ac)
  from irq_close_loop_spec [OF this] obtain s1 where 1: "irq_close_loop (snd ?rx) s = Some s1"
    "holds s0 (irqs_res (snd ?tx) + (add_mset (Heap (fst ?tx)) (add_mset (Heap (fst ?rx)) ?R1))) s1" by blast
  from irq_close_loop_spec [OF 1(2)] obtain s2 where 2: "irq_close_loop (snd ?tx) s1 = Some s2"
    "holds s0 (add_mset (Heap (fst ?tx)) (add_mset (Heap (fst ?rx)) ?R1)) s2" by blast
  from os_put_holds [OF 2(2)] obtain s3 where 3: "os_put (Heap (fst ?tx)) s2 = Some s3" "holds s0 (add_mset (Heap (fst ?rx)) ?R1) s3" by blast
  from os_put_holds [OF 3(2)] obtain s4 where 4: "os_put (Heap (fst ?rx)) s3 = Some s4" "holds s0 ?R1 s4" by blast
  have len: "length (snd (if_tap_fds iface)) = unat (if_num_qps iface)" "length (snd ?rx) = unat (if_num_qps iface)"
    "length (snd ?tx) = unat (if_num_qps iface)" "length (snd (if_rx_ring iface)) = unat (if_num_qps iface)"
    "length (snd (if_tx_ring iface)) = unat (if_num_qps iface)"
    using up by (simp_all add: iface_up_def iface_rings_def iface_rings_ok_def)
  from tun_down_spec [OF 4(2) len(1)] obtain s5 where 5: "ufp_tun_down iface s4 = Some s5" "holds s0 (iface_ring_res iface + R) s5" by blast
  from release_rings_spec [OF held_swap [OF h 5(2)] len(4,5) n] obtain P' s' where
    "ufp_release_rings iface P s5 = Some (P', s')" "held P0 s0 B R P' s'" by blast
  then show ?thesis using 1(1) 2(1) 3(1) 4(1) 5(1) len by (simp add: ufp_down_iface_def)
qed

lemma irq_open_loop_0:
  assumes "holds s0 R s"
  obtains ok irqs idx' s' where "irq_open_loop n first [] s = Some (ok, irqs, idx', s')" "holds s0 (irqs_res irqs + R) s'"
    "ok \<longrightarrow> length irqs = n \<and> irqs_numbered first irqs \<and> idx' = first + of_nat n"
  using irq_open_loop_spec [of s0 "[]" R s first first n] assms by (auto simp: irqs_numbered_def simp del: irq_open_loop.simps)

lemma up_iface_irqs_spec:
  assumes h: "holds s0 R s"
  shows "\<exists>ret ri xi s'. up_iface_irqs iface s = Some (ret, iface\<lparr>if_rx_irq := ri, if_tx_irq := xi\<rparr>, s') \<and>
    (if ret = 0 then holds s0 (iface_irq_res (iface\<lparr>if_rx_irq := ri, if_tx_irq := xi\<rparr>) + R) s' \<and>
       length (snd ri) = unat (if_num_qps iface) \<and> length (snd xi) = unat (if_num_qps iface) \<and>
       irqs_numbered 1 (snd ri) \<and> irqs_numbered (1 + if_num_qps iface) (snd xi)
     else ret = -1 \<and> (\<exists>leak. holds s0 (leak + R) s' \<and> leaks leak))"
proof -
  have fail: ?thesis if "up_iface_irqs iface s = Some (-1, iface\<lparr>if_rx_irq := ri, if_tx_irq := xi\<rparr>, s')" "holds s0 (leak + R) s'"
      "leaks leak" for ri xi s' leak
    using that by (intro exI [of _ "-1"] exI [of _ ri] exI [of _ xi] exI [of _ s']) auto
  obtain r s1 where 1: "os_get Heap s = (r, s1)" by fastforce
  note h1 = holds_trans [OF h os_get_holds [OF 1]]
  show ?thesis
  proof (cases r)
    case None
    then show ?thesis using 1 h1 by (intro fail [of "if_tx_irq iface" "if_rx_irq iface" s1 "{#}"]) (simp_all add: up_iface_irqs_def)
  next
    case (Some rp)
    obtain x s2 where 2: "os_get Heap s1 = (x, s2)" by fastforce
    note h2 = holds_trans [OF h1 os_get_holds [OF 2]]
    have undo: "\<exists>s'. os_put (Heap rp) t = Some s' \<and> holds s0 (leak + R) s'" if "holds s0 (add_mset (Heap rp) (leak + R)) t" for t leak
      using os_put_holds [OF that] .
    show ?thesis
    proof (cases x)
      case None
      then obtain s3 where "os_put (Heap rp) s2 = Some s3" "holds s0 ({#} + R) s3" using undo [of "{#}" s2] h2 Some by auto
      then show ?thesis using 1 Some 2 None by (intro fail [of "if_tx_irq iface" "if_rx_irq iface" s3 "{#}"]) (simp_all add: up_iface_irqs_def)
    next
      case (Some tp)
      let ?R = "add_mset (Heap rp) ({#Heap tp#} + R)"
      have "holds s0 ?R s2" using h2 \<open>r = Some rp\<close> Some by (simp add: add_mset_commute)
      then obtain ok rxs idx s3 where 3: "irq_open_loop (unat (if_num_qps iface)) 1 [] s2 = Some (ok, rxs, idx, s3)" "holds s0 (irqs_res rxs + ?R) s3"
        "ok \<longrightarrow> length rxs = unat (if_num_qps iface) \<and> irqs_numbered 1 rxs \<and> idx = 1 + of_nat (unat (if_num_qps iface))"
        by (rule irq_open_loop_0)
      have undo2: "\<exists>s1 s'. irq_close_loop rxs t = Some s1 \<and> os_put (Heap rp) s1 = Some s' \<and> holds s0 ({#Heap tp#} + R) s'"
        if "holds s0 (irqs_res rxs + ?R) t" for t
        using irq_close_loop_spec [OF that] undo by blast
      show ?thesis
      proof (cases ok)
        case False
        obtain t s' where "irq_close_loop rxs s3 = Some t" "os_put (Heap rp) t = Some s'" "holds s0 ({#Heap tp#} + R) s'" using undo2 [OF 3(2)] by blast
        then show ?thesis using 1 \<open>r = Some rp\<close> 2 Some 3(1) False
          by (intro fail [of "if_tx_irq iface" "(rp, rxs)" s' "{#Heap tp#}"]) (simp_all add: up_iface_irqs_def)
      next
        case True
        obtain ok' txs idx' s4 where 4: "irq_open_loop (unat (if_num_qps iface)) idx [] s3 = Some (ok', txs, idx', s4)"
          "holds s0 (irqs_res txs + (irqs_res rxs + ?R)) s4"
          "ok' \<longrightarrow> length txs = unat (if_num_qps iface) \<and> irqs_numbered idx txs \<and> idx' = idx + of_nat (unat (if_num_qps iface))"
          using 3(2) by (rule irq_open_loop_0)
        show ?thesis
        proof (cases ok')
          case False
          obtain t where t: "irq_close_loop txs s4 = Some t" "holds s0 (irqs_res rxs + ?R) t" using irq_close_loop_spec [OF 4(2)] by blast
          obtain t' s' where "irq_close_loop rxs t = Some t'" "os_put (Heap rp) t' = Some s'" "holds s0 ({#Heap tp#} + R) s'" using undo2 [OF t(2)] by blast
          then show ?thesis using 1 \<open>r = Some rp\<close> 2 Some 3(1) True 4(1) False t(1)
            by (intro fail [of "(tp, txs)" "(rp, rxs)" s' "{#Heap tp#}"]) (simp_all add: up_iface_irqs_def)
        next
          case ok': True
          have "holds s0 (iface_irq_res (iface\<lparr>if_rx_irq := (rp, rxs), if_tx_irq := (tp, txs)\<rparr>) + R) s4"
            using 4(2) by (simp add: iface_irq_res_def add_ac add_mset_commute)
          then show ?thesis using 1 \<open>r = Some rp\<close> 2 Some 3(1) True 4(1) ok' 3(3) 4(3)
            by (intro exI [of _ 0] exI [of _ "(rp, rxs)"] exI [of _ "(tp, txs)"] exI [of _ s4]) (simp add: up_iface_irqs_def)
        qed
      qed
    qed
  qed
qed

lemma up_iface_spec:
  assumes h: "held P0 s0 B R P s" and n: "unat (if_num_qps iface) \<le> length P0"
    and f: "align_fits (os_page s0) (if_size_tx_desc iface)" "align_fits (os_page s0) (if_size_rx_desc iface)"
  shows "\<exists>ret iface' P' s'. ufp_up_iface J iface P s = Some (ret, iface', P', s') \<and> iface_keep iface iface' \<and>
    (if ret = 0 then held P0 s0 (iface_blks iface' + B) (iface_res iface' + R) P' s' \<and>
       iface_up (os_page s0) (junk_desc_size J) iface'
     else ret = -1 \<and> (\<exists>leak. held P0 s0 B (leak + R) P' s' \<and> leaks leak))"
proof -
  have fail: ?thesis if "ufp_up_iface J iface P s = Some (-1, i', P', s')" "held P0 s0 B (leak + R) P' s'" "leaks leak"
      "iface_keep iface i'" for i' P' s' leak
    using that by (intro exI [of _ "-1"] exI [of _ i'] exI [of _ P'] exI [of _ s']) auto
  obtain e1 i1 P1 s1 where 1: "ufp_alloc_rings J iface P s = Some (e1, i1, P1, s1)"
    "i1 = iface\<lparr>if_tx_ring := if_tx_ring i1, if_rx_ring := if_rx_ring i1\<rparr>"
    "if e1 = 0 then held P0 s0 (iface_blks i1 + B) (iface_ring_res i1 + R) P1 s1 \<and> iface_rings (os_page s0) (junk_desc_size J) i1
     else e1 = -1 \<and> (\<exists>leak. held P0 s0 B (leak + R) P1 s1 \<and> (leak = {#} \<or> (\<exists>p. leak = {#Heap p#})))"
    using alloc_rings_spec [OF h n f, of J] by blast
  have k1: "iface_keep iface i1" by (subst 1(2)) (intro iface_keep_upds iface_keep_refl)
  have q1: "if_num_qps i1 = if_num_qps iface" by (subst 1(2)) simp
  show ?thesis
  proof (cases "e1 = 0")
    case False
    then show ?thesis using 1(1,3) k1 by (auto intro!: fail simp: ufp_up_iface_def)
  next
    case True
    then have h1: "held P0 s0 (iface_blks i1 + B) (iface_ring_res i1 + R) P1 s1" and r1: "iface_rings (os_page s0) (junk_desc_size J) i1"
      using 1(3) by simp_all
    have release: "\<exists>P' s'. ufp_release_rings i P1 t = Some (P', s') \<and> held P0 s0 B (leak + R) P' s'"
      if "holds s0 (iface_ring_res i1 + (leak + R)) t" "if_tx_ring i = if_tx_ring i1" "if_rx_ring i = if_rx_ring i1" "if_num_qps i = if_num_qps i1" for i t leak
    proof -
      have "iface_blks i = iface_blks i1" "iface_ring_res i = iface_ring_res i1" using that by (simp_all add: iface_blks_def iface_ring_res_def)
      then show ?thesis using release_rings_spec [of P0 s0 i B "leak + R" P1 t] held_swap [OF h1 that(1)] that r1 n q1
        by (simp add: iface_rings_def iface_rings_ok_def)
    qed
    obtain e2 i2 s2 where 2: "ufp_tun_up i1 s1 = Some (e2, i2, s2)"
      "if e2 = 0 then holds s1 (tun_res i2) s2 \<and> length (snd (if_tap_fds i2)) = unat (if_num_qps i1) \<and>
         (\<forall>fd \<in> set (snd (if_tap_fds i2)). 0 \<le> fd) \<and> i2 = i1\<lparr>if_tap_fds := if_tap_fds i2, if_tap_index := if_tap_index i2\<rparr>
       else e2 = -1 \<and> holds s1 {#} s2 \<and> i2 = i1"
      using tun_up_spec by blast
    show ?thesis
    proof (cases "e2 = 0")
      case False
      then have "holds s0 (iface_ring_res i1 + ({#} + R)) s2" using 2(2) holds_trans [OF heldD [OF h1], of "{#}" s2] by simp
      from release [OF this refl refl refl] obtain P3 s3 where "ufp_release_rings i1 P1 s2 = Some (P3, s3)" "held P0 s0 B ({#} + R) P3 s3" by blast
      then show ?thesis using 1(1) True 2 False k1 by (intro fail [of i1 P3 s3 "{#}"]) (simp_all add: ufp_up_iface_def)
    next
      case e2: True
      then have t2: "holds s1 (tun_res i2) s2" "length (snd (if_tap_fds i2)) = unat (if_num_qps i1)"
        "\<forall>fd \<in> set (snd (if_tap_fds i2)). 0 \<le> fd" and i2: "i2 = i1\<lparr>if_tap_fds := if_tap_fds i2, if_tap_index := if_tap_index i2\<rparr>"
        using 2(2) by simp_all
      have eq2: "if_num_qps i2 = if_num_qps i1" "if_tx_ring i2 = if_tx_ring i1" "if_rx_ring i2 = if_rx_ring i1"
        "iface_ring_res i2 = iface_ring_res i1" "iface_blks i2 = iface_blks i1"
        by (subst i2, simp add: iface_ring_res_def iface_blks_def)+
      have r2: "iface_rings (os_page s0) (junk_desc_size J) i2"
        using r1 by (subst i2) (simp add: iface_rings_def iface_rings_ok_def)
      have k2: "iface_keep iface (i2\<lparr>if_rx_irq := a, if_tx_irq := b\<rparr>)" for a b
        by (subst i2) (intro iface_keep_upds k1)
      have "holds s0 (tun_res i2 + (iface_ring_res i1 + R)) s2" using holds_trans [OF heldD [OF h1] t2(1)] by (simp add: add_ac)
      from up_iface_irqs_spec [OF this, of i2] obtain e3 ri xi s3 where 3: "up_iface_irqs i2 s2 = Some (e3, i2\<lparr>if_rx_irq := ri, if_tx_irq := xi\<rparr>, s3)"
        "if e3 = 0 then holds s0 (iface_irq_res (i2\<lparr>if_rx_irq := ri, if_tx_irq := xi\<rparr>) + (tun_res i2 + (iface_ring_res i1 + R))) s3 \<and>
           length (snd ri) = unat (if_num_qps i2) \<and> length (snd xi) = unat (if_num_qps i2) \<and>
           irqs_numbered 1 (snd ri) \<and> irqs_numbered (1 + if_num_qps i2) (snd xi)
         else e3 = -1 \<and> (\<exists>leak. holds s0 (leak + (tun_res i2 + (iface_ring_res i1 + R))) s3 \<and> leaks leak)" by blast
      let ?i3 = "i2\<lparr>if_rx_irq := ri, if_tx_irq := xi\<rparr>"
      have t3: "tun_res ?i3 = tun_res i2" by (simp add: tun_res_def)
      show ?thesis
      proof (cases "e3 = 0")
        case False
        then obtain leak where leak: "holds s0 (leak + (tun_res i2 + (iface_ring_res i1 + R))) s3" "leaks leak" using 3(2) by auto
        then have "holds s0 (tun_res ?i3 + (iface_ring_res i1 + (leak + R))) s3" by (simp add: t3 add_ac)
        from tun_down_spec [OF this] t2(2) obtain s4 where 4: "ufp_tun_down ?i3 s3 = Some s4" "holds s0 (iface_ring_res i1 + (leak + R)) s4" by (auto simp: eq2)
        from release [OF 4(2), of ?i3] obtain P5 s5 where "ufp_release_rings ?i3 P1 s4 = Some (P5, s5)" "held P0 s0 B (leak + R) P5 s5" by (auto simp: eq2)
        then show ?thesis using 1(1) True 2(1) e2 3 False 4(1) leak(2) k2
          by (intro fail [of ?i3 P5 s5 leak]) (simp_all add: ufp_up_iface_def)
      next
        case e3: True
        have "held P0 s0 (iface_blks ?i3 + B) (iface_res ?i3 + R) P1 s3"
          using held_swap [OF h1, of "iface_res ?i3 + R" s3] 3(2) e3 eq2
          by (simp add: iface_res_def t3 iface_blks_def iface_ring_res_def add_ac)
        moreover have "iface_up (os_page s0) (junk_desc_size J) ?i3"
          using r2 t2 3(2) e3 by (simp add: iface_up_def iface_rings_def iface_rings_ok_def eq2)
        ultimately show ?thesis using 1(1) True 2(1) e2 3(1) e3 k2 by (simp add: ufp_up_iface_def)
      qed
    qed
  qed
qed

subsection \<open>Devices that are up\<close>

definition ifaces_res :: "'d ufp_iface list \<Rightarrow> res multiset" where
  "ifaces_res ifaces = sum_list (map iface_res ifaces)"

definition ifaces_blks :: "'d ufp_iface list \<Rightarrow> blks" where
  "ifaces_blks ifaces = sum_list (map iface_blks ifaces)"

lemma ifaces_simps [simp]:
  "ifaces_res [] = {#}" "ifaces_res (i # is) = iface_res i + ifaces_res is" "ifaces_res (is @ [i]) = iface_res i + ifaces_res is"
  "ifaces_blks [] = {#}" "ifaces_blks (i # is) = iface_blks i + ifaces_blks is" "ifaces_blks (is @ [i]) = iface_blks i + ifaces_blks is"
  by (simp_all add: ifaces_res_def ifaces_blks_def add.commute)

lemma down_ifaces_spec:
  "held P0 s0 (ifaces_blks ifaces + B) (ifaces_res ifaces + R) P s \<Longrightarrow>
   list_all (\<lambda>i. iface_up page dsize i \<and> unat (if_num_qps i) \<le> length P0) ifaces \<Longrightarrow>
   \<exists>P' s'. down_ifaces ifaces P s = Some (P', s') \<and> held P0 s0 B R P' s'"
proof (induction ifaces arbitrary: P s)
  case (Cons i ifaces)
  then have "held P0 s0 (iface_blks i + (ifaces_blks ifaces + B)) (iface_res i + (ifaces_res ifaces + R)) P s" by (simp add: add.assoc)
  from down_iface_spec [OF this, of page dsize] Cons.prems(2) obtain P1 s1 where
    "ufp_down_iface i P s = Some (P1, s1)" "held P0 s0 (ifaces_blks ifaces + B) (ifaces_res ifaces + R) P1 s1" by auto
  with Cons.IH Cons.prems(2) show ?case by simp
qed simp

text \<open>The interfaces of a device before: the sizes of their rings fit.\<close>

definition iface_fits :: "nat \<Rightarrow> 'd ufp_iface \<Rightarrow> bool" where
  "iface_fits page iface \<longleftrightarrow> align_fits page (if_size_tx_desc iface) \<and> align_fits page (if_size_rx_desc iface)"

lemma iface_keep_num_qps: "iface_keep i j \<Longrightarrow> if_num_qps j = if_num_qps i"
  by (auto simp: iface_keep_def)

lemma up_ifaces_spec:
  "held P0 s0 (ifaces_blks ups + B) (ifaces_res ups + R) P s \<Longrightarrow> unat (set_num_qps S) \<le> length P0 \<Longrightarrow>
   list_all (iface_fits (os_page s0)) ifaces \<Longrightarrow>
   list_all (\<lambda>i. iface_up (os_page s0) (junk_desc_size J) i \<and> if_num_qps i = set_num_qps S) ups \<Longrightarrow>
   \<exists>ok ups' rest idx' P' s' leak. up_ifaces J S ups ifaces idx P s = Some (ok, ups @ ups', rest, idx', P', s') \<and>
     held P0 s0 (ifaces_blks (ups @ ups') + B) (leak + (ifaces_res (ups @ ups') + R)) P' s' \<and> leaks leak \<and>
     list_all (\<lambda>i. iface_up (os_page s0) (junk_desc_size J) i \<and> if_num_qps i = set_num_qps S) (ups @ ups') \<and>
     length ups' + length rest = length ifaces \<and> (ok \<longrightarrow> leak = {#} \<and> rest = [] \<and> list_all2 iface_keep (map (iface_set S) ifaces) ups' \<and>
        idx' = idx + of_nat (length ifaces) * (set_num_qps S * 2))"
proof (induction ifaces arbitrary: ups idx P s)
  case Nil
  then show ?case by (intro exI [of _ True] exI [of _ "[]"] exI [of _ "{#}"] exI) auto
next
  case (Cons i ifaces)
  have "unat (if_num_qps (iface_set S i)) \<le> length P0" "align_fits (os_page s0) (if_size_tx_desc (iface_set S i))"
    "align_fits (os_page s0) (if_size_rx_desc (iface_set S i))" using Cons.prems by (simp_all add: iface_set_def iface_fits_def)
  from up_iface_spec [OF Cons.prems(1) this, of J] obtain e i' P1 s1 where
    1: "ufp_up_iface J (iface_set S i) P s = Some (e, i', P1, s1)" and k: "iface_keep (iface_set S i) i'" and
    2: "if e = 0 then held P0 s0 (iface_blks i' + (ifaces_blks ups + B)) (iface_res i' + (ifaces_res ups + R)) P1 s1 \<and>
          iface_up (os_page s0) (junk_desc_size J) i'
        else e = -1 \<and> (\<exists>leak. held P0 s0 (ifaces_blks ups + B) (leak + (ifaces_res ups + R)) P1 s1 \<and> leaks leak)" by blast
  show ?case
  proof (cases "e = 0")
    case False
    then obtain leak where "held P0 s0 (ifaces_blks ups + B) (leak + (ifaces_res ups + R)) P1 s1" "leaks leak" "e = -1" using 2 by auto
    then show ?thesis using 1 Cons.prems(4)
      by (intro exI [of _ False] exI [of _ "[]"] exI [of _ "i' # ifaces"] exI [of _ idx] exI [of _ P1] exI [of _ s1] exI [of _ leak]) simp
  next
    case True
    have q: "if_num_qps i' = set_num_qps S" using iface_keep_num_qps [OF k] by (simp add: iface_set_def)
    have h: "held P0 s0 (ifaces_blks (ups @ [i']) + B) (ifaces_res (ups @ [i']) + R) P1 s1" using 2 True by (simp add: add.assoc)
    have ok: "list_all (\<lambda>i. iface_up (os_page s0) (junk_desc_size J) i \<and> if_num_qps i = set_num_qps S) (ups @ [i'])" using Cons.prems(4) 2 True q by simp
    have fits: "list_all (iface_fits (os_page s0)) ifaces" using Cons.prems(3) by simp
    from Cons.IH [OF h Cons.prems(2) fits ok, of "idx + if_num_qps i' * 2"] obtain okk ups' rest idx' P' s' leak where
      r: "up_ifaces J S (ups @ [i']) ifaces (idx + if_num_qps i' * 2) P1 s1 = Some (okk, (ups @ [i']) @ ups', rest, idx', P', s')" and
      c: "held P0 s0 (ifaces_blks ((ups @ [i']) @ ups') + B) (leak + (ifaces_res ((ups @ [i']) @ ups') + R)) P' s'" "leaks leak"
        "list_all (\<lambda>i. iface_up (os_page s0) (junk_desc_size J) i \<and> if_num_qps i = set_num_qps S) ((ups @ [i']) @ ups')"
        "length ups' + length rest = length ifaces" "okk \<longrightarrow> leak = {#} \<and> rest = [] \<and> list_all2 iface_keep (map (iface_set S) ifaces) ups' \<and>
          idx' = idx + if_num_qps i' * 2 + of_nat (length ifaces) * (set_num_qps S * 2)" by blast
    show ?thesis using 1 True r c k q
      by (intro exI [of _ okk] exI [of _ "i' # ups'"] exI [of _ rest] exI [of _ idx'] exI [of _ P'] exI [of _ s'] exI [of _ leak])
         (simp add: algebra_simps)
  qed
qed

text \<open>What a device that is up holds.\<close>

definition dev_up_res :: "'d ufp_dev \<Rightarrow> res multiset" where
  "dev_up_res dev = ifaces_res (dev_iface dev) + add_mset (Heap (fst (dev_misc_irq dev))) (irqs_res (snd (dev_misc_irq dev)))"

definition dev_up_blks :: "'d ufp_dev \<Rightarrow> blks" where
  "dev_up_blks dev = ifaces_blks (dev_iface dev)"

definition dev_is_up :: "nat \<Rightarrow> nat \<Rightarrow> nat \<Rightarrow> 'd ufp_dev \<Rightarrow> bool" where
  "dev_is_up page dsize n dev \<longleftrightarrow>
     list_all (\<lambda>i. iface_up page dsize i \<and> unat (if_num_qps i) \<le> n) (dev_iface dev) \<and>
     length (snd (dev_misc_irq dev)) = unat (dev_num_misc_irqs dev) \<and> irqs_numbered 0 (snd (dev_misc_irq dev))"

subsection \<open>What others may change of a device that is up\<close>

text \<open>Interfaces that are up alike and hold the same.\<close>

definition iface_like :: "'d ufp_iface \<Rightarrow> 'd ufp_iface \<Rightarrow> bool" where
  "iface_like i i' \<longleftrightarrow> iface_res i' = iface_res i \<and> iface_blks i' = iface_blks i \<and> if_num_qps i' = if_num_qps i \<and>
     (\<forall>page dsize. iface_up page dsize i \<longrightarrow> iface_up page dsize i')"

text \<open>What says which device it is and how it is reached.\<close>

definition dev_base where
  "dev_base dev = (dev_fd dev, dev_bar dev, dev_vendor_id dev, dev_device_id dev)"

definition dev_like :: "'d ufp_dev \<Rightarrow> 'd ufp_dev \<Rightarrow> bool" where
  "dev_like dev dev' \<longleftrightarrow> fst (dev_misc_irq dev') = fst (dev_misc_irq dev) \<and> irqs_same (snd (dev_misc_irq dev)) (snd (dev_misc_irq dev')) \<and>
     dev_num_misc_irqs dev' = dev_num_misc_irqs dev \<and> list_all2 iface_like (dev_iface dev) (dev_iface dev') \<and> dev_base dev' = dev_base dev"

lemma irqs_same_res: "irqs_same irqs irqs' \<Longrightarrow> irqs_res irqs' = irqs_res irqs"
proof -
  have e: "irqs_res is = sum_list (map (\<lambda>(p, fd, e). add_mset (Heap p) (fd_res fd)) (map (\<lambda>(p, q). (p, irq_fd q, irq_entry_idx q)) is))" for "is"
    by (induction "is") (auto simp: irq_res_def)
  assume "irqs_same irqs irqs'"
  then show ?thesis unfolding irqs_same_def e [of irqs] e [of irqs'] by (simp only:)
qed

lemma irqs_same_numbered: "irqs_same irqs irqs' \<Longrightarrow> irqs_numbered n irqs \<Longrightarrow> irqs_numbered n irqs'"
proof -
  have e: "map (irq_entry_idx \<circ> snd) is = map (\<lambda>(p, fd, e). e) (map (\<lambda>(p, q). (p, irq_fd q, irq_entry_idx q)) is)" for "is"
    by (induction "is") auto
  assume s: "irqs_same irqs irqs'" and n: "irqs_numbered n irqs"
  have "map (irq_entry_idx \<circ> snd) irqs' = map (irq_entry_idx \<circ> snd) irqs"
    unfolding e [of irqs] e [of irqs'] using s unfolding irqs_same_def by (simp only:)
  with n irqs_same_length [OF s] show ?thesis by (simp add: irqs_numbered_def)
qed

lemma iface_same_like: "iface_same i i' \<Longrightarrow> iface_like i i'"
  unfolding iface_same_def
proof (elim exE conjE)
  fix rx tx assume i: "i' = i\<lparr>if_rx_irq := (fst (if_rx_irq i), rx), if_tx_irq := (fst (if_tx_irq i), tx)\<rparr>"
    and s: "irqs_same (snd (if_rx_irq i)) rx" "irqs_same (snd (if_tx_irq i)) tx"
  show "iface_like i i'"
    using irqs_same_res [OF s(1)] irqs_same_res [OF s(2)] irqs_same_length [OF s(1)] irqs_same_length [OF s(2)]
      irqs_same_numbered [OF s(1)] irqs_same_numbered [OF s(2)]
    by (simp add: i iface_like_def iface_res_def iface_irq_res_def tun_res_def iface_ring_res_def iface_blks_def iface_up_def
        iface_rings_def iface_rings_ok_def)
qed

lemma dev_same_like: "dev_same dev dev' \<Longrightarrow> dev_like dev dev'"
  unfolding dev_same_def dev_like_def by (auto elim!: list_all2_mono simp: iface_same_like dev_base_def)

text \<open>A driver may set the addresses of the tail registers of the rings.\<close>

definition ring_tailed :: "nat \<times> 'd ufp_ring \<Rightarrow> nat \<times> 'd ufp_ring \<Rightarrow> bool" where
  "ring_tailed r r' \<longleftrightarrow> (\<exists>a. r' = (fst r, (snd r)\<lparr>tail := a\<rparr>))"

definition iface_tailed :: "'d ufp_iface \<Rightarrow> 'd ufp_iface \<Rightarrow> bool" where
  "iface_tailed i i' \<longleftrightarrow> (\<exists>txs rxs. i' = i\<lparr>if_tx_ring := (fst (if_tx_ring i), txs), if_rx_ring := (fst (if_rx_ring i), rxs)\<rparr> \<and>
     list_all2 ring_tailed (snd (if_tx_ring i)) txs \<and> list_all2 ring_tailed (snd (if_rx_ring i)) rxs)"

definition dev_tailed :: "'d ufp_dev \<Rightarrow> 'd ufp_dev \<Rightarrow> bool" where
  "dev_tailed dev dev' \<longleftrightarrow> (\<exists>ifs. dev' = dev\<lparr>dev_iface := ifs\<rparr> \<and> list_all2 iface_tailed (dev_iface dev) ifs)"

lemma ring_tailed_refl: "ring_tailed r r"
  unfolding ring_tailed_def by (rule exI [of _ "tail (snd r)"]) simp

lemma rings_tailed_refl: "list_all2 ring_tailed rs rs"
  by (simp add: list_all2_refl ring_tailed_refl)

lemma ifaces_tailed_refl: "list_all2 iface_tailed is is"
proof (rule list_all2_refl)
  show "iface_tailed i i" for i :: "'a ufp_iface"
    unfolding iface_tailed_def
    by (intro exI [of _ "snd (if_tx_ring i)"] exI [of _ "snd (if_rx_ring i)"]) (simp add: rings_tailed_refl)
qed

lemma dev_tailed_refl: "dev_tailed dev dev"
  unfolding dev_tailed_def by (intro exI [of _ "dev_iface dev"]) (simp add: ifaces_tailed_refl)

lemma rings_tailed:
  assumes "list_all2 ring_tailed rs rs'"
  shows "rings_res rs' = rings_res rs" "rings_blks i rs' = rings_blks i rs" "length rs' = length rs"
    "list_all (\<lambda>r. ring_new page sz n d (snd r)) rs' = list_all (\<lambda>r. ring_new page sz n d (snd r)) rs"
  using assms
  by (induction rs rs' arbitrary: i rule: list_all2_induct)
     (auto simp: ring_tailed_def ring_res_def ring_blk_def ring_new_def)

lemma iface_tailed_like: "iface_tailed i i' \<Longrightarrow> iface_like i i'"
  unfolding iface_tailed_def
proof (elim exE conjE)
  fix txs rxs assume i: "i' = i\<lparr>if_tx_ring := (fst (if_tx_ring i), txs), if_rx_ring := (fst (if_rx_ring i), rxs)\<rparr>"
    and t: "list_all2 ring_tailed (snd (if_tx_ring i)) txs" and r: "list_all2 ring_tailed (snd (if_rx_ring i)) rxs"
  show "iface_like i i'"
    by (simp add: i iface_like_def iface_res_def iface_irq_res_def tun_res_def iface_ring_res_def iface_blks_def iface_up_def
        iface_rings_def iface_rings_ok_def rings_tailed [OF t] rings_tailed [OF r])
qed

lemma dev_tailed_like: "dev_tailed dev dev' \<Longrightarrow> dev_like dev dev'"
  unfolding dev_tailed_def dev_like_def by (auto elim!: list_all2_mono simp: iface_tailed_like dev_base_def)

lemma iface_like_trans: "iface_like a b \<Longrightarrow> iface_like b c \<Longrightarrow> iface_like a c"
  by (simp add: iface_like_def)

lemma dev_like_trans: "dev_like a b \<Longrightarrow> dev_like b c \<Longrightarrow> dev_like a c"
  unfolding dev_like_def irqs_same_def by (auto intro: list_all2_trans [OF iface_like_trans])

lemma ifaces_like:
  assumes "list_all2 iface_like is is'"
  shows "ifaces_res is' = ifaces_res is" "ifaces_blks is' = ifaces_blks is"
    "list_all (\<lambda>i. iface_up page dsize i \<and> unat (if_num_qps i) \<le> n) is \<Longrightarrow> list_all (\<lambda>i. iface_up page dsize i \<and> unat (if_num_qps i) \<le> n) is'"
  using assms by (induction "is" is' rule: list_all2_induct) (auto simp: iface_like_def)

lemma dev_like_up:
  assumes "dev_like dev dev'"
  shows "dev_up_res dev' = dev_up_res dev" "dev_up_blks dev' = dev_up_blks dev"
    "dev_is_up page dsize n dev \<Longrightarrow> dev_is_up page dsize n dev'"
proof -
  note l = assms [unfolded dev_like_def]
  have i: "list_all2 iface_like (dev_iface dev) (dev_iface dev')" and s: "irqs_same (snd (dev_misc_irq dev)) (snd (dev_misc_irq dev'))" using l by auto
  show "dev_up_res dev' = dev_up_res dev" "dev_up_blks dev' = dev_up_blks dev"
    using l by (simp_all add: dev_up_res_def dev_up_blks_def ifaces_like(1,2) [OF i] irqs_same_res [OF s])
  assume "dev_is_up page dsize n dev"
  then show "dev_is_up page dsize n dev'"
    using l ifaces_like(3) [OF i] irqs_same_length [OF s] irqs_same_numbered [OF s] by (simp add: dev_is_up_def)
qed

subsection \<open>The interrupts of a device that is up\<close>

lemma iface_irqs_length:
  "list_all (\<lambda>i. iface_up page dsize i \<and> if_num_qps i = q) ifs \<Longrightarrow>
   \<exists>irqs. iface_irqs ifs = Some irqs \<and> length irqs = length ifs * (2 * unat q)"
  by (induction ifs) (auto simp: iface_up_def irq_prefix_def)

lemma dev_irqs_length:
  assumes "dev_is_up page dsize n dev" "list_all (\<lambda>i. if_num_qps i = q) (dev_iface dev)"
  shows "\<exists>irqs. dev_irqs dev = Some irqs \<and> length irqs = unat (dev_num_misc_irqs dev) + length (dev_iface dev) * (2 * unat q)"
proof -
  have "list_all (\<lambda>i. iface_up page dsize i \<and> if_num_qps i = q) (dev_iface dev)"
    using assms by (auto simp: dev_is_up_def list_all_iff)
  from iface_irqs_length [OF this] show ?thesis using assms(1) by (auto simp: dev_irqs_def dev_is_up_def irq_prefix_def)
qed

lemma iface_tailed_irqs: "list_all2 iface_tailed ifs ifs' \<Longrightarrow> iface_irqs ifs' = iface_irqs ifs"
  by (induction ifs ifs' rule: list_all2_induct) (auto simp: iface_tailed_def)

lemma dev_tailed_irqs: "dev_tailed dev dev' \<Longrightarrow> dev_irqs dev' = dev_irqs dev"
  by (auto simp: dev_tailed_def dev_irqs_def iface_tailed_irqs)

lemma map2_set_vector:
  "length irqs \<le> length vs \<Longrightarrow> map irq_vector (map2 set_vector irqs vs) = take (length irqs) vs"
  "length irqs \<le> length vs \<Longrightarrow> length (map2 set_vector irqs vs) = length irqs"
  "length irqs \<le> length vs \<Longrightarrow> map irq_entry_idx (map2 set_vector irqs vs) = map irq_entry_idx irqs"
  by (induction irqs vs rule: list_induct2') (simp_all add: set_vector_def)

subsection \<open>Up and down\<close>

definition up_undo :: "nat \<Rightarrow> 'n \<Rightarrow> 'd ufp_dev \<Rightarrow> mpools \<Rightarrow> os \<Rightarrow> (int \<times> 'n \<times> 'd ufp_dev \<times> mpools \<times> os) option" where
  "up_undo k n dev P s =
     do { (P, s) \<leftarrow> down_ifaces (take k (dev_iface dev)) P s;
          s \<leftarrow> irq_close_loop (snd (dev_misc_irq dev)) s;
          s \<leftarrow> os_put (Heap (fst (dev_misc_irq dev))) s;
          Some (-1, n, dev, P, s) }"

lemma up_undo_spec:
  assumes h: "held P0 s0 (ifaces_blks (take k (dev_iface dev)) + B)
      (ifaces_res (take k (dev_iface dev)) + (irqs_res (snd (dev_misc_irq dev)) + add_mset (Heap (fst (dev_misc_irq dev))) R)) P s"
    and u: "list_all (\<lambda>i. iface_up page dsize i \<and> unat (if_num_qps i) \<le> length P0) (take k (dev_iface dev))"
  shows "\<exists>P' s'. up_undo k n dev P s = Some (-1, n, dev, P', s') \<and> held P0 s0 B R P' s'"
proof -
  from down_ifaces_spec [OF h u] obtain P1 s1 where 1: "down_ifaces (take k (dev_iface dev)) P s = Some (P1, s1)"
    "held P0 s0 B (irqs_res (snd (dev_misc_irq dev)) + add_mset (Heap (fst (dev_misc_irq dev))) R) P1 s1" by blast
  from irq_close_loop_spec [OF heldD [OF 1(2)]] obtain s2 where 2: "irq_close_loop (snd (dev_misc_irq dev)) s1 = Some s2"
    "holds s0 (add_mset (Heap (fst (dev_misc_irq dev))) R) s2" by blast
  from os_put_holds [OF 2(2)] obtain s3 where 3: "os_put (Heap (fst (dev_misc_irq dev))) s2 = Some s3" "holds s0 R s3" by blast
  show ?thesis using 1(1) 2(1) 3(1) held_swap [OF 1(2) 3(2)] by (simp add: up_undo_def)
qed

text \<open>The same once all interfaces are up.\<close>

lemma up_undo_all:
  assumes h: "held P0 s0 (dev_up_blks dev + B) (dev_up_res dev + R) P s" and u: "dev_is_up page dsize (length P0) dev"
    and k: "k = length (dev_iface dev)"
  shows "\<exists>P' s'. up_undo k n dev P s = Some (-1, n, dev, P', s') \<and> held P0 s0 B R P' s'"
proof (rule up_undo_spec)
  show "list_all (\<lambda>i. iface_up page dsize i \<and> unat (if_num_qps i) \<le> length P0) (take k (dev_iface dev))"
    using u k by (simp add: dev_is_up_def)
qed (use h k in \<open>simp add: dev_up_res_def dev_up_blks_def add_ac\<close>)

subsection \<open>The contract of a driver\<close>

text \<open>
  What the library relies on in a driver that is ready for so many interfaces of so many queues. On a device whose rings and interrupts are
  there, \<open>up\<close> returns, changes nothing of the device but the addresses of the tail registers, and holds what the driver accounts for; afterwards \<open>down\<close> can
  be called, which does no more either. The rest of what is held is not touched.
\<close>

locale dev_driver =
  fixes ops_up :: "'n \<Rightarrow> 'd ufp_dev \<Rightarrow> os \<Rightarrow> (int \<times> 'n \<times> 'd ufp_dev \<times> os) option"
    and ops_down :: "'n \<Rightarrow> 'd ufp_dev \<Rightarrow> os \<Rightarrow> ('n \<times> 'd ufp_dev \<times> os) option"
    and up_ready :: "'n \<Rightarrow> u32 \<Rightarrow> nat \<Rightarrow> bool"
    and down_ready :: "'n \<Rightarrow> nat \<Rightarrow> bool"
    and drv_held :: "'n \<Rightarrow> res multiset"
  assumes ready: "up_ready n q k \<Longrightarrow> down_ready n k"
    and driver_up: "up_ready n q (length (dev_iface dev)) \<Longrightarrow> dev_is_up page dsize m dev \<Longrightarrow>
      list_all (\<lambda>i. if_num_qps i = q) (dev_iface dev) \<Longrightarrow> holds s0 (drv_held n + R) s \<Longrightarrow>
      \<exists>ret n' dev' s'. ops_up n dev s = Some (ret, n', dev', s') \<and> (ret = 0 \<or> ret = -1) \<and> holds s0 (drv_held n' + R) s' \<and>
        dev_tailed dev dev' \<and> down_ready n' (length (dev_iface dev))"
    and driver_down: "down_ready n (length (dev_iface dev)) \<Longrightarrow> holds s0 (drv_held n + R) s \<Longrightarrow>
      \<exists>n' dev' s'. ops_down n dev s = Some (n', dev', s') \<and> holds s0 (drv_held n' + R) s' \<and> dev_tailed dev dev' \<and>
        down_ready n' (length (dev_iface dev))"
begin

lemma down_spec:
  assumes h: "held P0 s0 (dev_up_blks dev + B) (dev_up_res dev + (drv_held n + R)) P s" and u: "dev_is_up page dsize (length P0) dev"
    and d: "down_ready n (length (dev_iface dev))"
  shows "\<exists>n' dev' P' s'. ufp_down ops_down n dev P s = Some (n', dev', P', s') \<and> dev_like dev dev' \<and> held P0 s0 B (drv_held n' + R) P' s' \<and> down_ready n' (length (dev_iface dev))"
proof -
  have "holds s0 (drv_held n + (dev_up_res dev + R)) s" using heldD [OF h] by (simp add: add_ac)
  from driver_down [OF d this] obtain n1 dev1 s1 where 1: "ops_down n dev s = Some (n1, dev1, s1)" "holds s0 (drv_held n1 + (dev_up_res dev + R)) s1"
    "dev_tailed dev dev1" "down_ready n1 (length (dev_iface dev))" by blast
  note l = dev_like_up [OF dev_tailed_like [OF 1(3)]]
  obtain e s2 where 2: "ufp_vfio_irq_unset dev1 s1 = (e, s2)" by fastforce
  have "holds s0 (dev_up_res dev1 + (drv_held n1 + R)) s2"
    using holds_trans [OF 1(2) irq_unset_holds [OF 2]] by (simp add: l add_ac)
  then have h2: "held P0 s0 (dev_up_blks dev1 + B) (dev_up_res dev1 + (drv_held n1 + R)) P s2" using held_swap [OF h] by (simp add: l)
  have u1: "dev_is_up page dsize (length P0) dev1" by (rule l(3) [OF u])
  from up_undo_all [OF h2 u1 refl, of n1] obtain P' s' where 3: "up_undo (length (dev_iface dev1)) n1 dev1 P s2 = Some (-1, n1, dev1, P', s')"
    "held P0 s0 B (drv_held n1 + R) P' s'" by blast
  have "length (snd (dev_misc_irq dev1)) = unat (dev_num_misc_irqs dev1)" using u1 by (simp add: dev_is_up_def)
  with 3 1(1,4) 2 dev_tailed_like [OF 1(3)] show ?thesis by (auto simp: ufp_down_def up_undo_def bind_eq_Some_conv)
qed

end

end
