(* ===== verification/Ufp_Up_Spec.thy ===== *)
theory Ufp_Up_Spec
  imports Ufp_Up
begin

text \<open>
  Bringing a device up and down again gives everything back, whatever fails on the way.
\<close>

text \<open>What the library relies on when a device is brought up.\<close>

definition up_pre :: "settings \<Rightarrow> 'd ufp_dev \<Rightarrow> nat \<Rightarrow> os \<Rightarrow> bool" where
  "up_pre S dev npools s \<longleftrightarrow> unat (set_num_qps S) \<le> npools \<and>
     list_all (iface_fits (os_page s)) (dev_iface dev) \<and>
     unat (dev_num_misc_irqs dev) + length (dev_iface dev) * (2 * unat (set_num_qps S)) < 2 ^ 32"

text \<open>The device is up: numbered interrupts with the smallest vectors in order, and the interfaces with the settings.\<close>

definition up_post :: "u32 option list \<Rightarrow> settings \<Rightarrow> 'd ufp_dev \<Rightarrow> 'd ufp_dev \<Rightarrow> bool" where
  "up_post entries S dev dev' \<longleftrightarrow>
     (\<exists>irqs. dev_irqs dev' = Some irqs \<and> length irqs = unat (dev_num_misc_irqs dev) + length (dev_iface dev) * (2 * unat (set_num_qps S)) \<and>
        map irq_vector irqs = take (length irqs) (sort (List.map_filter id entries)) \<and>
        (dev_num_misc_irqs dev = 1 \<and> length (dev_iface dev) = 1 \<longrightarrow>
          map irq_entry_idx irqs = map (\<lambda>k. ucast (of_nat k :: u32)) [0..<length irqs]))"

text \<open>With one interrupt for the rest and one interface, the numbers of the interrupts are their places in the list for the kernel.\<close>

lemma irqs_numbered_from:
  "irqs_numbered (of_nat a) irqs \<Longrightarrow>
   map (irq_entry_idx \<circ> snd) irqs = map (\<lambda>k. ucast (of_nat k :: u32)) [a..<a + length irqs]"
proof -
  have "[a..<a + n] = map (\<lambda>k. a + k) [0..<n]" for n by (induction n) simp_all
  then show "irqs_numbered (of_nat a) irqs \<Longrightarrow> ?thesis" by (simp add: irqs_numbered_def)
qed

lemma irqs_numbered_all:
  assumes "dev_is_up page dsize n dev" "dev_num_misc_irqs dev = 1" "length (dev_iface dev) = 1" "dev_irqs dev = Some irqs"
  shows "map irq_entry_idx irqs = map (\<lambda>k. ucast (of_nat k :: u32)) [0..<length irqs]"
proof -
  obtain i where i: "dev_iface dev = [i]" using assms(3) by (cases "dev_iface dev") auto
  let ?q = "unat (if_num_qps i)"
  have u: "iface_up page dsize i" "length (snd (dev_misc_irq dev)) = 1" "irqs_numbered 0 (snd (dev_misc_irq dev))"
    using assms(1,2) i by (auto simp: dev_is_up_def)
  have irqs: "irqs = map snd (snd (dev_misc_irq dev)) @ map snd (snd (if_rx_irq i)) @ map snd (snd (if_tx_irq i))"
    using assms(2,4) u by (auto simp: dev_irqs_def i irq_prefix_def iface_up_def)
  have n: "irqs_numbered (of_nat 0) (snd (dev_misc_irq dev))" "irqs_numbered (of_nat 1) (snd (if_rx_irq i))"
    "irqs_numbered (of_nat (1 + ?q)) (snd (if_tx_irq i))" using u by (simp_all add: iface_up_def)
  have l: "length (snd (if_rx_irq i)) = ?q" "length (snd (if_tx_irq i)) = ?q" using u by (simp_all add: iface_up_def)
  have "[0..<length irqs] = [0..<1] @ [1..<1 + ?q] @ [1 + ?q..<1 + ?q + ?q]"
    using upt_add_eq_append [of 0 1 "?q + ?q"] upt_add_eq_append [of 1 "1 + ?q" ?q] u(2) l by (simp add: irqs add.assoc)
  then show ?thesis
    using irqs_numbered_from [OF n(1)] irqs_numbered_from [OF n(2)] irqs_numbered_from [OF n(3)] l u(2)
    by (simp add: irqs)
qed

text \<open>The vectors are given to the interrupts in order.\<close>

lemma vectors_post:
  assumes u: "dev_is_up page dsize n dev" and q: "list_all (\<lambda>i. if_num_qps i = set_num_qps S) (dev_iface dev)"
    and irqs: "dev_irqs dev = Some irqs" and vs: "length irqs \<le> length (List.map_filter id entries)"
    and d: "dev_irqs dev' = Some (map2 set_vector irqs (sort (List.map_filter id entries)))"
  shows "up_post entries S dev dev'"
proof -
  let ?irqs = "map2 set_vector irqs (sort (List.map_filter id entries))"
  have "length irqs \<le> length (sort (List.map_filter id entries))" using vs by simp
  note mv = map2_set_vector [OF this]
  have len: "length irqs = unat (dev_num_misc_irqs dev) + length (dev_iface dev) * (2 * unat (set_num_qps S))"
    using dev_irqs_length [OF u q] irqs by auto
  have num: "map irq_entry_idx ?irqs = map (\<lambda>k. ucast (of_nat k :: u32)) [0..<length ?irqs]"
    if "dev_num_misc_irqs dev = 1 \<and> length (dev_iface dev) = 1"
    unfolding mv(2,3) using irqs_numbered_all [OF u _ _ irqs] that by blast
  show ?thesis unfolding up_post_def
  proof (intro exI [of _ ?irqs] conjI impI)
    show "map irq_vector ?irqs = take (length ?irqs) (sort (List.map_filter id entries))" unfolding mv(1,2) ..
    show "length ?irqs = unat (dev_num_misc_irqs dev) + length (dev_iface dev) * (2 * unat (set_num_qps S))" unfolding mv(2) len ..
  qed (use d num in blast)+
qed

lemma dev_like_qps:
  assumes "dev_like dev dev'"
  shows "length (dev_iface dev') = length (dev_iface dev)"
    "list_all (\<lambda>i. if_num_qps i = q) (dev_iface dev) \<Longrightarrow> list_all (\<lambda>i. if_num_qps i = q) (dev_iface dev')"
proof -
  have l: "list_all2 iface_like (dev_iface dev) (dev_iface dev')" using assms by (simp add: dev_like_def)
  then show "length (dev_iface dev') = length (dev_iface dev)" by (simp add: list_all2_lengthD)
  show "list_all (\<lambda>i. if_num_qps i = q) (dev_iface dev) \<Longrightarrow> list_all (\<lambda>i. if_num_qps i = q) (dev_iface dev')"
    using l by (induction rule: list_all2_induct) (auto simp: iface_like_def)
qed

subsection \<open>The outcome of bringing a device up\<close>

text \<open>
  Either the device is up and what is held is its blocks and resources, or none of it is held; in both cases the driver can be called again, and
  beside what it accounts for memory of \<open>malloc\<close> can be left.
\<close>

definition up_done ::
  "('n \<Rightarrow> nat \<Rightarrow> bool) \<Rightarrow> u32 option list \<Rightarrow> settings \<Rightarrow> nat \<Rightarrow> nat \<Rightarrow> 'd ufp_dev \<Rightarrow> mpools \<Rightarrow> os \<Rightarrow> blks \<Rightarrow> ('n \<Rightarrow> res multiset) \<Rightarrow>
   (int \<times> 'n \<times> 'd ufp_dev \<times> mpools \<times> os) option \<Rightarrow> bool" where
  "up_done ready entries S page dsize dev P0 s0 B R r \<longleftrightarrow>
     (\<exists>ret n' dev' P' s' leak. r = Some (ret, n', dev', P', s') \<and> leaks leak \<and> ready n' (length (dev_iface dev)) \<and>
        dev_base dev' = dev_base dev \<and> length (dev_iface dev') = length (dev_iface dev) \<and>
        (if ret = 0 then held P0 s0 (dev_up_blks dev' + B) (dev_up_res dev' + (leak + R n')) P' s' \<and> dev_is_up page dsize (length P0) dev' \<and> up_post entries S dev dev'
         else ret = -1 \<and> held P0 s0 B (leak + R n') P' s'))"

lemma up_done_failed:
  "held P0 s0 B (leak + R n) P' s' \<Longrightarrow> leaks leak \<Longrightarrow> ready n (length (dev_iface dev)) \<Longrightarrow>
   dev_base d = dev_base dev \<Longrightarrow> length (dev_iface d) = length (dev_iface dev) \<Longrightarrow> up_done ready entries S page dsize dev P0 s0 B R (Some (-1, n, d, P', s'))"
  unfolding up_done_def by (intro exI [of _ "-1"] exI [of _ n] exI [of _ d] exI [of _ P'] exI [of _ s'] exI [of _ leak]) simp

lemma up_done_up:
  "held P0 s0 (dev_up_blks dev' + B) (dev_up_res dev' + (leak + R n')) P' s' \<Longrightarrow> leaks leak \<Longrightarrow> dev_is_up page dsize (length P0) dev' \<Longrightarrow>
   dev_base dev' = dev_base dev \<Longrightarrow> length (dev_iface dev') = length (dev_iface dev) \<Longrightarrow> ready n' (length (dev_iface dev)) \<Longrightarrow> up_post entries S dev dev' \<Longrightarrow>
   up_done ready entries S page dsize dev P0 s0 B R (Some (0, n', dev', P', s'))"
  unfolding up_done_def by (intro exI [of _ "0 :: int"] exI [of _ n'] exI [of _ dev'] exI [of _ P'] exI [of _ s'] exI [of _ leak]) simp

lemma up_done_undo:
  assumes h: "held P0 s0 (dev_up_blks dev + B) R' P s" and u: "dev_is_up page dsize (length P0) dev"
    and t: "holds s0 (dev_up_res dev + (leak + R n)) t" and l: "dev_like dev dev1" and k: "leaks leak" and r: "ready n (length (dev_iface dev))"
  shows "up_done ready entries S page dsize dev P0 s0 B R (up_undo (length (dev_iface dev)) n dev1 P t)"
proof -
  note like = dev_like_up [OF l]
  have "held P0 s0 (dev_up_blks dev1 + B) (dev_up_res dev1 + (leak + R n)) P t" using held_swap [OF h t] by (simp add: like)
  from up_undo_all [OF this like(3) [OF u] dev_like_qps(1) [OF l, symmetric], of n] obtain P' s' where
    "up_undo (length (dev_iface dev)) n dev1 P t = Some (-1, n, dev1, P', s')" "held P0 s0 B (leak + R n) P' s'" by blast
  moreover have "dev_base dev1 = dev_base dev" using l by (simp add: dev_like_def)
  ultimately show ?thesis using up_done_failed [where R = R and ready = ready, OF _ k r] dev_like_qps(1) [OF l] by metis
qed

text \<open>The last steps of \<open>ufp_up\<close>, once all interfaces are up.\<close>

definition up_unset where
  "up_unset k n dev P s = up_undo k n dev P (snd (ufp_vfio_irq_unset dev s))"

definition up_call where
  "up_call ops_up k n dev P s =
     do { (err, n, dev, s) \<leftarrow> ops_up n dev s; if err < 0 then up_unset k n dev P s else Some (0, n, dev, P, s) }"

definition up_last where
  "up_last ops_up entries irq_idx k n dev P s =
     do { (err, s) \<leftarrow> ufp_vfio_irq_set dev irq_idx s;
          if err < 0 then up_undo k n dev P s
          else do { (err, dev, s) \<leftarrow> ufp_vfio_irq_vector_get entries dev s;
                    if err < 0 then up_unset k n dev P s else up_call ops_up k n dev P s } }"

definition up_rest where
  "up_rest ops_up entries J S idx n dev P s =
     do { (ok, ups, rest, irq_idx, P, s) \<leftarrow> up_ifaces J S [] (dev_iface dev) idx P s;
          let dev = dev\<lparr>dev_iface := ups @ rest\<rparr>;
          if \<not> ok then up_undo (length ups) n dev P s else up_last ops_up entries irq_idx (length ups) n dev P s }"

lemma ufp_up_parts:
  "ufp_up ops_up entries J S n dev P s =
     (case os_get Heap s of
        (None, s) \<Rightarrow> Some (-1, n, dev, P, s)
      | (Some mp, s) \<Rightarrow>
          do { (ok, misc, idx, s) \<leftarrow> irq_open_loop (unat (dev_num_misc_irqs dev)) 0 [] s;
               let dev = dev\<lparr>dev_misc_irq := (mp, misc)\<rparr>;
               if \<not> ok then up_undo 0 n dev P s else up_rest ops_up entries J S idx n dev P s })"
  by (simp add: ufp_up_def up_rest_def up_last_def up_call_def up_unset_def up_undo_def Let_def split: prod.split option.split
      cong: prod.case_cong if_cong)

lemma up_done_unset:
  assumes "held P0 s0 (dev_up_blks dev + B) R' P s" "dev_is_up page dsize (length P0) dev"
    "holds s0 (dev_up_res dev + (leak + R n)) t" "dev_like dev dev1" "leaks leak" "ready n (length (dev_iface dev))"
  shows "up_done ready entries S page dsize dev P0 s0 B R (up_unset (length (dev_iface dev)) n dev1 P t)"
proof -
  obtain e t' where 1: "ufp_vfio_irq_unset dev1 t = (e, t')" by fastforce
  have "holds s0 (dev_up_res dev + (leak + R n)) t'" using holds_trans [OF assms(3) irq_unset_holds [OF 1]] by simp
  from up_done_undo [where R = R and ready = ready, OF assms(1,2) this assms(4-6)] show ?thesis by (simp add: up_unset_def 1)
qed

subsection \<open>With any driver that keeps its contract\<close>

context dev_driver
begin

lemma up_call_done:
  assumes h: "held P0 s0 (dev_up_blks dev + B) R' P s" and u: "dev_is_up page dsize (length P0) dev"
    and q: "list_all (\<lambda>i. if_num_qps i = set_num_qps S) (dev_iface dev)" and drv: "up_ready n (set_num_qps S) (length (dev_iface dev))"
    and t: "holds s0 (dev_up_res dev + (leak + (drv_held n + R))) t" and l: "dev_like dev dev1" and k: "leaks leak"
    and post: "\<And>dev2. dev_irqs dev2 = dev_irqs dev1 \<Longrightarrow> up_post entries S dev dev2"
  shows "up_done down_ready entries S page dsize dev P0 s0 B (\<lambda>n. drv_held n + R) (up_call ops_up (length (dev_iface dev)) n dev1 P t)"
proof -
  note len = dev_like_qps(1) [OF l]
  have "holds s0 (drv_held n + (dev_up_res dev + (leak + R))) t" using t by (simp add: add_ac)
  from driver_up [OF drv [folded len] dev_like_up(3) [OF l u] dev_like_qps(2) [OF l q] this] obtain e n2 d2 s2 where
    1: "ops_up n dev1 t = Some (e, n2, d2, s2)" "dev_tailed dev1 d2" "e = 0 \<or> e = -1"
    and h2: "holds s0 (dev_up_res dev + (leak + (drv_held n2 + R))) s2" and r: "down_ready n2 (length (dev_iface dev))" unfolding len by (auto simp: add_ac)
  have like: "dev_like dev d2" by (rule dev_like_trans [OF l dev_tailed_like [OF 1(2)]])
  show ?thesis
  proof (cases "e = 0")
    case True
    note l2 = dev_like_up [OF like]
    have "held P0 s0 (dev_up_blks d2 + B) (dev_up_res d2 + (leak + (drv_held n2 + R))) P s2" using held_swap [OF h h2] by (simp add: l2)
    from up_done_up [where R = "\<lambda>n. drv_held n + R" and ready = down_ready, OF this k l2(3) [OF u] _ dev_like_qps(1) [OF like] r post [OF dev_tailed_irqs [OF 1(2)]]]
    show ?thesis using 1(1) True like by (simp add: up_call_def dev_like_def)
  next
    case False
    then show ?thesis using 1(1,3) up_done_unset [where R = "\<lambda>n. drv_held n + R" and ready = down_ready, OF h u h2 like k r] by (auto simp: up_call_def)
  qed
qed

lemma up_last_done:
  assumes h: "held P0 s0 (dev_up_blks dev + B) (dev_up_res dev + (drv_held n + R)) P s" and u: "dev_is_up page dsize (length P0) dev"
    and q: "list_all (\<lambda>i. if_num_qps i = set_num_qps S) (dev_iface dev)"
    and num: "unat (dev_num_misc_irqs dev) + length (dev_iface dev) * (2 * unat (set_num_qps S)) \<le> unat idx"
    and drv: "up_ready n (set_num_qps S) (length (dev_iface dev))"
  shows "up_done down_ready entries S page dsize dev P0 s0 B (\<lambda>n. drv_held n + R) (up_last ops_up entries idx (length (dev_iface dev)) n dev P s)"
proof -
  obtain irqs where irqs: "dev_irqs dev = Some irqs" "length irqs = unat (dev_num_misc_irqs dev) + length (dev_iface dev) * (2 * unat (set_num_qps S))"
    using dev_irqs_length [OF u q] by blast
  from irq_set_spec [OF irqs(1), of idx s] num irqs(2) obtain e1 s1 where 1: "ufp_vfio_irq_set dev idx s = Some (e1, s1)" "e1 = 0 \<or> e1 = -1" "holds s {#} s1" by auto
  have h1: "holds s0 (dev_up_res dev + ({#} + (drv_held n + R))) s1" using holds_trans [OF heldD [OF h] 1(3)] by simp
  obtain e2 d2 s2 where 2: "ufp_vfio_irq_vector_get entries dev s1 = Some (e2, d2, s2)" "dev_same dev d2"
    "if e2 = 0 then length irqs \<le> length (List.map_filter id entries) \<and>
        dev_irqs d2 = Some (map2 set_vector irqs (sort (List.map_filter id entries))) \<and>
        (\<exists>es. length es = length (List.map_filter id entries) \<and> holds s1 (image_mset Heap (mset es)) s2)
      else e2 = -1 \<and> (\<exists>leak. holds s1 leak s2 \<and> leaks leak)"
    using irq_vector_get_spec [OF irqs(1), of entries s1] by blast
  have "\<exists>leak. holds s1 leak s2 \<and> leaks leak" using 2(3) leaks_heap [of "\<lambda>x. x"] by (cases "e2 = 0") auto
  then obtain leak where leak: "holds s1 leak s2" "leaks leak" by blast
  have h2: "holds s0 (dev_up_res dev + (leak + (drv_held n + R))) s2" using holds_trans [OF h1 leak(1)] by (simp add: add_ac)
  note like = dev_same_like [OF 2(2)]
  consider "e1 < 0" | "e1 = 0" "e2 < 0" | "e1 = 0" "e2 = 0" using 1(2) 2(3) by (auto split: if_splits)
  then show ?thesis
  proof cases
    case 1
    then show ?thesis using \<open>ufp_vfio_irq_set dev idx s = Some (e1, s1)\<close> up_done_undo [where R = "\<lambda>n. drv_held n + R" and ready = down_ready, OF h u h1 dev_same_like [OF dev_same_refl] _ ready [OF drv]] by (simp add: up_last_def)
  next
    case 2
    then show ?thesis using 1(1) \<open>ufp_vfio_irq_vector_get entries dev s1 = Some (e2, d2, s2)\<close> up_done_unset [where R = "\<lambda>n. drv_held n + R" and ready = down_ready, OF h u h2 like leak(2) ready [OF drv]] by (simp add: up_last_def)
  next
    case 3
    then have "up_post entries S dev dev2" if "dev_irqs dev2 = dev_irqs d2" for dev2 using vectors_post [OF u q irqs(1)] 2(3) that by simp
    from up_call_done [OF h u q drv h2 like leak(2) this] 3 1(1) 2(1) show ?thesis by (simp add: up_last_def)
  qed
qed

lemma up_rest_done:
  fixes dev :: "'d ufp_dev" and misc mp
  defines "d1 \<equiv> dev\<lparr>dev_misc_irq := (mp, misc)\<rparr>"
  assumes h: "held P0 s0 B (irqs_res misc + add_mset (Heap mp) (drv_held n + R)) P s" and pre: "up_pre S dev (length P0) s0"
    and drv: "up_ready n (set_num_qps S) (length (dev_iface dev))"
    and m: "length misc = unat (dev_num_misc_irqs dev)" "irqs_numbered 0 misc" "idx = of_nat (unat (dev_num_misc_irqs dev))"
  shows "up_done down_ready entries S (os_page s0) (junk_desc_size J) dev P0 s0 B (\<lambda>n. drv_held n + R) (up_rest ops_up entries J S idx n d1 P s)"
proof -
  let ?N = "unat (dev_num_misc_irqs dev) + length (dev_iface dev) * (2 * unat (set_num_qps S))"
  let ?up = "\<lambda>i. iface_up (os_page s0) (junk_desc_size J) i"
  have pr: "unat (set_num_qps S) \<le> length P0" "list_all (iface_fits (os_page s0)) (dev_iface dev)" "?N < 2 ^ 32" using pre by (simp_all add: up_pre_def)
  have h0: "held P0 s0 (ifaces_blks [] + B) (ifaces_res [] + (irqs_res misc + add_mset (Heap mp) (drv_held n + R))) P s" using h by simp
  have none: "list_all (\<lambda>i. ?up i \<and> if_num_qps i = set_num_qps S) []" by simp
  from up_ifaces_spec [OF h0 pr(1,2) none, of idx] obtain ok ups rest idx' P1 s1 leak where
    1: "up_ifaces J S [] (dev_iface dev) idx P s = Some (ok, ups, rest, idx', P1, s1)"
    "held P0 s0 (ifaces_blks ups + B) (leak + (ifaces_res ups + (irqs_res misc + add_mset (Heap mp) (drv_held n + R)))) P1 s1" "leaks leak"
    "list_all (\<lambda>i. ?up i \<and> if_num_qps i = set_num_qps S) ups"
    "length ups + length rest = length (dev_iface dev)" "ok \<longrightarrow> leak = {#} \<and> rest = [] \<and> list_all2 iface_keep (map (iface_set S) (dev_iface dev)) ups \<and>
      idx' = idx + of_nat (length (dev_iface dev)) * (set_num_qps S * 2)"
    unfolding append_Nil by blast
  have all: "list_all (\<lambda>i. ?up i \<and> unat (if_num_qps i) \<le> length P0) ups" using 1(4) pr(1) by (auto simp: list_all_iff)
  let ?d = "d1\<lparr>dev_iface := ups @ rest\<rparr>"
  show ?thesis
  proof (cases ok)
    case False
    have "held P0 s0 (ifaces_blks (take (length ups) (dev_iface ?d)) + B)
        (ifaces_res (take (length ups) (dev_iface ?d)) + (irqs_res (snd (dev_misc_irq ?d)) + add_mset (Heap (fst (dev_misc_irq ?d))) (leak + (drv_held n + R)))) P1 s1"
      using 1(2) by (simp add: add_ac d1_def)
    from up_undo_spec [OF this, of "os_page s0" "junk_desc_size J" n] all obtain P' s' where
      "up_undo (length ups) n ?d P1 s1 = Some (-1, n, ?d, P', s')" "held P0 s0 B (leak + (drv_held n + R)) P' s'" by auto
    then show ?thesis using 1(1,3,5) False up_done_failed [where R = "\<lambda>n. drv_held n + R" and ready = down_ready, OF _ _ ready [OF drv]]
      by (simp add: up_rest_def d1_def dev_base_def)
  next
    case True
    then have 2: "leak = {#}" "rest = []" "length ups = length (dev_iface dev)" "idx' = of_nat ?N"
      using 1(6) m(3) by (auto simp: algebra_simps dest: list_all2_lengthD)
    moreover have "unat (of_nat ?N :: u32) = ?N" using pr(3) by (simp only: unat_of_nat) simp
    ultimately have num: "unat (dev_num_misc_irqs ?d) + length (dev_iface ?d) * (2 * unat (set_num_qps S)) \<le> unat idx'" by (simp add: d1_def)
    have "held P0 s0 (dev_up_blks ?d + B) (dev_up_res ?d + (drv_held n + R)) P1 s1" using 1(2) 2 by (simp add: dev_up_blks_def dev_up_res_def add_ac d1_def)
    moreover have "dev_is_up (os_page s0) (junk_desc_size J) (length P0) ?d" using all m 2 by (simp add: dev_is_up_def d1_def)
    moreover have "list_all (\<lambda>i. if_num_qps i = set_num_qps S) (dev_iface ?d)" using 1(4) 2 by (auto simp: list_all_iff)
    moreover have "up_ready n (set_num_qps S) (length (dev_iface ?d))" using drv 2 by simp
    ultimately have "up_done down_ready entries S (os_page s0) (junk_desc_size J) ?d P0 s0 B (\<lambda>n. drv_held n + R) (up_last ops_up entries idx' (length (dev_iface ?d)) n ?d P1 s1)"
      using up_last_done [OF _ _ _ num] by blast
    moreover have "up_post entries S ?d = up_post entries S dev" using 2 by (intro ext) (simp add: up_post_def d1_def)
    moreover have "up_rest ops_up entries J S idx n d1 P s = up_last ops_up entries idx' (length (dev_iface ?d)) n ?d P1 s1"
      using 1(1) 2(2) True by (simp add: up_rest_def d1_def)
    moreover have "length (dev_iface ?d) = length (dev_iface dev)" "dev_base ?d = dev_base dev" using 2 by (simp_all add: d1_def dev_base_def)
    ultimately show ?thesis unfolding up_done_def by (simp only:)
  qed
qed

lemma up_spec:
  assumes h: "held P0 s0 B (drv_held n + R) P s" and pre: "up_pre S dev (length P0) s0"
    and drv: "up_ready n (set_num_qps S) (length (dev_iface dev))"
  shows "up_done down_ready entries S (os_page s0) (junk_desc_size J) dev P0 s0 B (\<lambda>n. drv_held n + R) (ufp_up ops_up entries J S n dev P s)"
proof (cases "os_get Heap s")
  case g: (Pair m s1)
  note h1 = held_get [OF h g]
  show ?thesis
  proof (cases m)
    case None
    then show ?thesis using g h1 up_done_failed [where R = "\<lambda>n. drv_held n + R" and leak = "{#}" and ready = down_ready, OF _ _ ready [OF drv]] by (simp add: ufp_up_parts dev_base_def)
  next
    case (Some mp)
    then have "holds s0 (add_mset (Heap mp) (drv_held n + R)) s1" using heldD [OF h1] by simp
    then obtain ok misc idx s2 where 2: "irq_open_loop (unat (dev_num_misc_irqs dev)) 0 [] s1 = Some (ok, misc, idx, s2)"
      "holds s0 (irqs_res misc + add_mset (Heap mp) (drv_held n + R)) s2"
      "ok \<longrightarrow> length misc = unat (dev_num_misc_irqs dev) \<and> irqs_numbered 0 misc \<and> idx = 0 + of_nat (unat (dev_num_misc_irqs dev))"
      by (rule irq_open_loop_0)
    let ?d = "dev\<lparr>dev_misc_irq := (mp, misc)\<rparr>"
    have h2: "held P0 s0 B (irqs_res misc + add_mset (Heap mp) (drv_held n + R)) P s2" by (rule held_swap [OF h 2(2)])
    show ?thesis
    proof (cases ok)
      case False
      have "held P0 s0 (ifaces_blks (take 0 (dev_iface ?d)) + B)
          (ifaces_res (take 0 (dev_iface ?d)) + (irqs_res (snd (dev_misc_irq ?d)) + add_mset (Heap (fst (dev_misc_irq ?d))) ({#} + (drv_held n + R)))) P s2"
        using h2 by simp
      from up_undo_spec [OF this, of _ _ n] obtain P' s' where "up_undo 0 n ?d P s2 = Some (-1, n, ?d, P', s')" "held P0 s0 B ({#} + (drv_held n + R)) P' s'" by auto
      then show ?thesis using g Some 2(1) False up_done_failed [where R = "\<lambda>n. drv_held n + R" and leak = "{#}" and ready = down_ready, OF _ _ ready [OF drv]] by (simp add: ufp_up_parts dev_base_def)
    next
      case True
      then show ?thesis using g Some 2(1,3) up_rest_done [OF h2 pre drv] by (simp add: ufp_up_parts)
    qed
  qed
qed

text \<open>Up and down are balanced.\<close>

lemma up_down:
  assumes "pools_wf P" "holds s0 (drv_held n + R) s" "up_pre S dev (length P) s0" "up_ready n (set_num_qps S) (length (dev_iface dev))"
  shows "\<exists>ret n' dev' P' s' leak. ufp_up ops_up entries J S n dev P s = Some (ret, n', dev', P', s') \<and> leaks leak \<and>
    dev_base dev' = dev_base dev \<and> length (dev_iface dev') = length (dev_iface dev) \<and>
    (if ret = 0 then up_post entries S dev dev' \<and>
       (\<exists>n'' dev'' P'' s''. ufp_down ops_down n' dev' P' s' = Some (n'', dev'', P'', s'') \<and> held P s0 {#} (leak + (drv_held n'' + R)) P'' s'' \<and>
          dev_like dev' dev'' \<and> down_ready n'' (length (dev_iface dev)))
     else ret = -1 \<and> held P s0 {#} (leak + (drv_held n' + R)) P' s' \<and> down_ready n' (length (dev_iface dev)))"
proof -
  have "held P s0 {#} (drv_held n + R) P s" using assms(1,2) by (simp add: held_def)
  from up_spec [OF this assms(3,4), of entries J] obtain ret n' dev' P' s' leak where
    r: "ufp_up ops_up entries J S n dev P s = Some (ret, n', dev', P', s')" "leaks leak" "down_ready n' (length (dev_iface dev))"
      "dev_base dev' = dev_base dev" "length (dev_iface dev') = length (dev_iface dev)"
    and c: "if ret = 0 then held P s0 (dev_up_blks dev' + {#}) (dev_up_res dev' + (leak + (drv_held n' + R))) P' s' \<and>
       dev_is_up (os_page s0) (junk_desc_size J) (length P) dev' \<and> up_post entries S dev dev'
     else ret = -1 \<and> held P s0 {#} (leak + (drv_held n' + R)) P' s'"
    unfolding up_done_def by blast
  show ?thesis
  proof (cases "ret = 0")
    case True
    then have d: "held P s0 (dev_up_blks dev' + {#}) (dev_up_res dev' + (drv_held n' + (leak + R))) P' s'"
      "dev_is_up (os_page s0) (junk_desc_size J) (length P) dev'" "down_ready n' (length (dev_iface dev'))" using c r(3,5) by (simp_all add: add_ac)
    from down_spec [OF d] obtain n'' dev'' P'' s'' where "ufp_down ops_down n' dev' P' s' = Some (n'', dev'', P'', s'')"
      "held P s0 {#} (leak + (drv_held n'' + R)) P'' s''" "dev_like dev' dev''" "down_ready n'' (length (dev_iface dev))" using r(5) by (auto simp: add_ac)
    then show ?thesis using r c True by (intro exI [of _ ret] exI [of _ n'] exI [of _ dev'] exI [of _ P'] exI [of _ s'] exI [of _ leak]) auto
  next
    case False
    then show ?thesis using r c by auto
  qed
qed

end

end
