(* ===== verification/Ufp_Buf.thy ===== *)
theory Ufp_Buf
  imports Ufp_Up_Spec Ufp_Flow
begin

text \<open>
  The buffer and the plane of a thread: \<open>ufp_alloc_buf\<close>, \<open>ufp_release_buf\<close>, \<open>ufp_irq_setaffinity\<close>,
  \<open>ufp_plane_alloc\<close> and \<open>ufp_plane_release\<close> of \<open>lib/lib_main.c\<close>.
\<close>

subsection \<open>Buffer\<close>

text \<open>
  The number of slots is an \<open>int\<close>, kept as its bits; its product with the size of a slot has 32 bits. A buffer
  comes with the handles of its two blocks of \<open>malloc\<close>: the structure and the array of slots.
\<close>

definition num_bufs :: "'d ufp_dev list \<Rightarrow> u32 \<Rightarrow> u32" where
  "num_bufs devs nslots = foldl (\<lambda>n dev. n + ucast (dev_num_ifaces dev) * nslots) 0 devs"

definition ufp_alloc_buf ::
  "'d ufp_dev list \<Rightarrow> u32 \<Rightarrow> u32 \<Rightarrow> nat \<Rightarrow> mpools \<Rightarrow> os \<Rightarrow> ((nat \<times> nat \<times> ufp_buf) option \<times> mpools \<times> os) option" where
  "ufp_alloc_buf devs slot_size nslots i P s =
     do { let (b, s) = os_get Heap s;
          case b of None \<Rightarrow> Some (None, P, s)
          | Some b \<Rightarrow> do {
              let n = num_bufs devs nslots;
              let size = (ucast (slot_size * n) :: u64);
              let size_buf_align = page_align s (unat size);
              (r, P) \<leftarrow> mpool_alloc i size_buf_align P s;
              let err_mem_alloc = (\<lambda>P s. do { s \<leftarrow> os_put (Heap b) s; Some (None, P, s) });
              case r of None \<Rightarrow> err_mem_alloc P s
              | Some addr_virt \<Rightarrow> do {
                  let (d, s) = ufp_vfio_dma_map addr_virt size_buf_align s;
                  let err_dma_map = (\<lambda>s. do { P \<leftarrow> mpool_free i addr_virt P; err_mem_alloc P s });
                  case d of None \<Rightarrow> err_dma_map s
                  | Some addr_dma \<Rightarrow> do {
                      let (p, s) = os_get Heap s;
                      case p of None \<Rightarrow> do { (err, s) \<leftarrow> ufp_vfio_dma_unmap addr_dma size_buf_align s; err_dma_map s }
                      | Some p \<Rightarrow>
                          Some (Some (b, p, \<lparr>buf_addr_virt = addr_virt, buf_addr_dma = addr_dma, buf_slot_size = slot_size,
                            buf_size = size, buf_count = nslots, slots = replicate (nat (sint n)) 0\<rparr>), P, s) } } } }"

definition ufp_release_buf :: "nat \<times> nat \<times> ufp_buf \<Rightarrow> nat \<Rightarrow> mpools \<Rightarrow> os \<Rightarrow> (mpools \<times> os) option" where
  "ufp_release_buf b i P s =
     (case b of (h, p, buf) \<Rightarrow>
        do { s \<leftarrow> os_put (Heap p) s;
             let size_buf_align = page_align s (unat (buf_size buf));
             (err, s) \<leftarrow> ufp_vfio_dma_unmap (buf_addr_dma buf) size_buf_align s;
             P \<leftarrow> mpool_free i (buf_addr_virt buf) P;
             s \<leftarrow> os_put (Heap h) s;
             Some (P, s) })"

subsection \<open>Affinity of interrupts\<close>

text \<open>Shifting by 32 bits or more is undefined.\<close>

definition affinity_masks :: "u32 \<Rightarrow> (u32 \<times> u32) option" where
  "affinity_masks core_id =
     do { let mask_low = (if core_id \<le> 31 then push_bit (unat core_id) 1 else 0);
          mask_high \<leftarrow> (if core_id \<le> 31 then Some 0
                       else if unat (core_id - 31) < 32 then Some (push_bit (unat (core_id - 31)) 1) else None);
          Some (mask_high, mask_low) }"

definition ufp_irq_setaffinity :: "ufp_irq \<Rightarrow> u32 \<Rightarrow> os \<Rightarrow> (int \<times> os) option" where
  "ufp_irq_setaffinity irq core_id s =
     do { (mask_high, mask_low) \<leftarrow> affinity_masks core_id;
          let (f, s) = os_get Fd s;
          case f of None \<Rightarrow> Some (-1, s)
          | Some file \<Rightarrow> do {
              let (err, s) = os_request (SMP_AFFINITY (irq_vector irq) mask_high mask_low) (int file) s;
              s \<leftarrow> os_put (Fd file) s;
              Some (if err < 0 then -1 else 0, s) } }"

subsection \<open>Plane\<close>

text \<open>The element of an array of an interface that belongs to the thread, undefined when there is none.\<close>

definition thread_elem :: "'a list \<Rightarrow> nat \<Rightarrow> 'a option" where
  "thread_elem xs i = (if i < length xs then Some (xs ! i) else None)"

definition plane_port_init :: "'d ufp_dev \<Rightarrow> nat \<Rightarrow> 'd ufp_iface \<Rightarrow> nat \<Rightarrow> ufp_buf \<Rightarrow> nat \<Rightarrow> 'd ufp_port option" where
  "plane_port_init dev dev_idx iface port_idx buf thread_id =
     do { rxr \<leftarrow> thread_elem (snd (if_rx_ring iface)) thread_id;
          txr \<leftarrow> thread_elem (snd (if_tx_ring iface)) thread_id;
          rxi \<leftarrow> thread_elem (snd (if_rx_irq iface)) thread_id;
          txi \<leftarrow> thread_elem (snd (if_tx_irq iface)) thread_id;
          fd \<leftarrow> thread_elem (snd (if_tap_fds iface)) thread_id;
          Some \<lparr>port_bar = dev_bar dev, port_ops = dev_ops dev, port_dev_idx = of_nat dev_idx,
            rx_ring = snd rxr, tx_ring = snd txr, rx_irq = snd rxi, tx_irq = snd txi,
            port_mtu_frame = if_mtu_frame iface, num_tx_desc = if_num_tx_desc iface, num_rx_desc = if_num_rx_desc iface,
            port_num_qps = if_num_qps iface, rx_budget = if_rx_budget iface, tx_budget = if_tx_budget iface,
            port_mac_addr = if_mac_addr iface, port_tap_fd = fd, port_tap_index = if_tap_index iface,
            rx_slot_next = 0, rx_slot_offset = of_nat port_idx * buf_count buf, tx_suspended = 0,
            count_rx_alloc_failed = 0, count_rx_clean_total = 0, count_tx_xmit_failed = 0, count_tx_clean_total = 0\<rparr> }"

text \<open>The loops over devices and their interfaces, as one loop over the pairs of both; the ports made so far.\<close>

fun plane_ports ::
  "nat \<Rightarrow> (nat \<times> 'd ufp_dev \<times> 'd ufp_iface) list \<Rightarrow> 'd ufp_port list \<Rightarrow> ufp_buf \<Rightarrow> nat \<Rightarrow> u32 \<Rightarrow> os \<Rightarrow>
   (bool \<times> 'd ufp_port list \<times> os) option" where
  "plane_ports n [] ps buf thread_id core_id s = Some (True, ps, s)"
| "plane_ports n ((i, dev, iface) # rest) ps buf thread_id core_id s =
     (if \<not> length ps < n then None
      else do {
        port \<leftarrow> plane_port_init dev i iface (length ps) buf thread_id;
        (err, s) \<leftarrow> ufp_irq_setaffinity (rx_irq port) core_id s;
        if err < 0 then Some (False, ps @ [port], s)
        else do {
          (err, s) \<leftarrow> ufp_irq_setaffinity (tx_irq port) core_id s;
          if err < 0 then Some (False, ps @ [port], s)
          else plane_ports n rest (ps @ [port]) buf thread_id core_id s } })"

definition dev_ifaces :: "'d ufp_dev list \<Rightarrow> (nat \<times> 'd ufp_dev \<times> 'd ufp_iface) list" where
  "dev_ifaces devs = concat (map (\<lambda>(i, dev). map (\<lambda>iface. (i, dev, iface)) (dev_iface dev)) (enumerate 0 devs))"

text \<open>
  A plane comes with the handles of its two blocks of \<open>malloc\<close>; \<open>junk_port\<close> is what the array of ports holds
  before it is written.
\<close>

definition ufp_plane_alloc ::
  "(nat \<Rightarrow> 'd ufp_port) \<Rightarrow> 'd ufp_dev list \<Rightarrow> ufp_buf \<Rightarrow> nat \<Rightarrow> u32 \<Rightarrow> os \<Rightarrow>
   ((nat \<times> nat \<times> 'd ufp_plane) option \<times> os) option" where
  "ufp_plane_alloc junk_port devs buf thread_id core_id s =
     do { let (h, s) = os_get Heap s;
          case h of None \<Rightarrow> Some (None, s)
          | Some h \<Rightarrow> do {
              let n = sum_list (map (\<lambda>dev. unat (dev_num_ifaces dev)) devs);
              let (p, s) = os_get Heap s;
              case p of None \<Rightarrow> do { s \<leftarrow> os_put (Heap h) s; Some (None, s) }
              | Some p \<Rightarrow> do {
                  (ok, ps, s) \<leftarrow> plane_ports n (dev_ifaces devs) [] buf thread_id core_id s;
                  if ok then Some (Some (h, p, \<lparr>ports = ps @ map junk_port [length ps..<n], num_ports = of_nat n\<rparr>), s)
                  else do { s \<leftarrow> os_put (Heap p) s; s \<leftarrow> os_put (Heap h) s; Some (None, s) } } } }"

definition ufp_plane_release :: "nat \<times> nat \<times> 'd ufp_plane \<Rightarrow> os \<Rightarrow> os option" where
  "ufp_plane_release plane s =
     do { s \<leftarrow> os_put (Heap (fst (snd plane))) s; os_put (Heap (fst plane)) s }"

subsection \<open>Lemmas\<close>

definition buf_res :: "nat \<times> nat \<times> ufp_buf \<Rightarrow> res multiset" where
  "buf_res b = {#Heap (fst b), Heap (fst (snd b)), Iova (buf_addr_dma (snd (snd b)))#}"

lemma alloc_buf_spec:
  assumes h: "held P0 s0 B R P s" and i: "i < length P0"
    and f: "align_fits (os_page s0) (unat (ucast (slot_size * num_bufs devs nslots) :: u64))"
  shows "\<exists>r P' s'. ufp_alloc_buf devs slot_size nslots i P s = Some (r, P', s') \<and>
    (case r of None \<Rightarrow> held P0 s0 B R P' s'
     | Some b \<Rightarrow> held P0 s0 (add_mset (i, buf_addr_virt (snd (snd b))) B) (buf_res b + R) P' s' \<and>
         buf_slot_size (snd (snd b)) = slot_size \<and> buf_count (snd (snd b)) = nslots \<and>
         slots (snd (snd b)) = replicate (nat (sint (num_bufs devs nslots))) 0)"
proof -
  obtain m s1 where 1: "os_get Heap s = (m, s1)" by fastforce
  note h1 = held_get [OF h 1]
  show ?thesis
  proof (cases m)
    case None
    then show ?thesis using 1 h1 by (simp add: ufp_alloc_buf_def)
  next
    case (Some b)
    let ?n = "page_align s1 (unat (ucast (slot_size * num_bufs devs nslots) :: u64))"
    let ?R = "add_mset (Heap b) R"
    have h1: "held P0 s0 B ?R P s1" using h1 Some by simp
    note pg = held_page [OF h1]
    have undo: "\<exists>s'. os_put (Heap b) t = Some s' \<and> held P0 s0 B R P' s'" if "held P0 s0 B ?R P' t" for P' t
      using held_put [OF that] .
    obtain r P2 where 2: "mpool_alloc i ?n P s1 = Some (r, P2)" "case r of None \<Rightarrow> held P0 s0 B ?R P2 s1
       | Some a \<Rightarrow> held P0 s0 (add_mset (i, a) B) ?R P2 s1"
      using mpool_alloc_spec [OF h1, of i ?n] page_align_spec(5) [of s1] f i pg by (fastforce split: option.splits)
    show ?thesis
    proof (cases r)
      case None
      then obtain s' where "os_put (Heap b) s1 = Some s'" "held P0 s0 B R P2 s'" using undo 2(2) by auto
      then show ?thesis using 1 Some 2(1) None by (simp add: ufp_alloc_buf_def)
    next
      case (Some a)
      then have h2: "held P0 s0 (add_mset (i, a) B) ?R P2 s1" using 2(2) by simp
      obtain d s3 where 3: "ufp_vfio_dma_map a ?n s1 = (d, s3)" by fastforce
      note h3 = held_os [OF h2 dma_map_holds [OF 3]]
      have undo2: "\<exists>P' s'. mpool_free i a P2 = Some P' \<and> os_put (Heap b) t = Some s' \<and> held P0 s0 B R P' s'"
        if "held P0 s0 (add_mset (i, a) B) ?R P2 t" for t
        using mpool_free_spec [OF that i] undo by blast
      show ?thesis
      proof (cases d)
        case None
        then obtain P' s' where "mpool_free i a P2 = Some P'" "os_put (Heap b) s3 = Some s'" "held P0 s0 B R P' s'" using undo2 [of s3] h3 by auto
        then show ?thesis using 1 \<open>m = Some b\<close> 2(1) Some 3 None by (simp add: ufp_alloc_buf_def)
      next
        case (Some dma)
        obtain p s4 where 4: "os_get Heap s3 = (p, s4)" by fastforce
        note h4 = held_get [OF h3 4]
        show ?thesis
        proof (cases p)
          case None
          then have "held P0 s0 (add_mset (i, a) B) (add_mset (Iova dma) ?R) P2 s4" using h4 Some by (simp add: add_mset_commute)
          from held_unmap [OF this] obtain e s5 where 5: "ufp_vfio_dma_unmap dma ?n s4 = Some (e, s5)" "held P0 s0 (add_mset (i, a) B) ?R P2 s5" by blast
          obtain P' s' where "mpool_free i a P2 = Some P'" "os_put (Heap b) s5 = Some s'" "held P0 s0 B R P' s'" using undo2 [OF 5(2)] by blast
          then show ?thesis using 1 \<open>m = Some b\<close> 2(1) \<open>r = Some a\<close> 3 Some 4 None 5(1) by (simp add: ufp_alloc_buf_def)
        next
          case (Some p)
          then show ?thesis using 1 \<open>m = Some b\<close> 2(1) \<open>r = Some a\<close> 3 \<open>d = Some dma\<close> 4 h4
            by (simp add: ufp_alloc_buf_def buf_res_def add_mset_commute Let_def)
        qed
      qed
    qed
  qed
qed

lemma release_buf_spec:
  assumes h: "held P0 s0 (add_mset (i, buf_addr_virt (snd (snd b))) B) (buf_res b + R) P s" and i: "i < length P0"
  shows "\<exists>P' s'. ufp_release_buf b i P s = Some (P', s') \<and> held P0 s0 B R P' s'"
proof -
  obtain h p buf where b: "b = (h, p, buf)" by (cases b)
  have "held P0 s0 (add_mset (i, buf_addr_virt buf) B) (add_mset (Heap p) (add_mset (Iova (buf_addr_dma buf)) (add_mset (Heap h) R))) P s"
    using assms(1) by (simp add: b buf_res_def add_mset_commute)
  from held_put [OF this] obtain s1 where 1: "os_put (Heap p) s = Some s1"
    "held P0 s0 (add_mset (i, buf_addr_virt buf) B) (add_mset (Iova (buf_addr_dma buf)) (add_mset (Heap h) R)) P s1" by blast
  from held_unmap [OF 1(2)] obtain e s2 where 2: "ufp_vfio_dma_unmap (buf_addr_dma buf) (page_align s1 (unat (buf_size buf))) s1 = Some (e, s2)"
    "held P0 s0 (add_mset (i, buf_addr_virt buf) B) (add_mset (Heap h) R) P s2" by blast
  from mpool_free_spec [OF 2(2) i] obtain P' where 3: "mpool_free i (buf_addr_virt buf) P = Some P'" "held P0 s0 B (add_mset (Heap h) R) P' s2" by blast
  from held_put [OF 3(2)] show ?thesis using 1(1) 2(1) 3(1) by (auto simp: b ufp_release_buf_def)
qed

subsection \<open>Affinity\<close>

lemma affinity_masks_low: "core_id \<le> 31 \<Longrightarrow> affinity_masks core_id = Some (0, push_bit (unat core_id) 1)"
  by (simp add: affinity_masks_def)

lemma affinity_masks_high:
  assumes "32 \<le> core_id" "core_id \<le> 62"
  shows "affinity_masks core_id = Some (push_bit (unat core_id - 31) 1, 0)"
proof -
  have u: "32 \<le> unat core_id" "unat core_id \<le> 62" using assms by (simp_all add: word_le_nat_alt)
  then have "unat (core_id - 31) = unat core_id - 31" by (simp add: unat_sub word_le_nat_alt)
  moreover have "\<not> core_id \<le> 31" using u by (simp add: word_le_nat_alt)
  ultimately show ?thesis using u by (simp add: affinity_masks_def)
qed

lemma affinity_masks_some: "core_id \<le> 62 \<Longrightarrow> \<exists>hi lo. affinity_masks core_id = Some (hi, lo)"
proof (cases "core_id \<le> 31")
  case False
  assume "core_id \<le> 62"
  moreover have "32 \<le> core_id" using False by (simp add: word_le_nat_alt)
  ultimately show ?thesis using affinity_masks_high by blast
qed (use affinity_masks_low in blast)

lemma setaffinity_spec:
  assumes "core_id \<le> 62"
  shows "\<exists>e s'. ufp_irq_setaffinity irq core_id s = Some (e, s') \<and> (e = 0 \<or> e = -1) \<and> holds s {#} s'"
proof -
  obtain hi lo where m: "affinity_masks core_id = Some (hi, lo)" using affinity_masks_some [OF assms] by blast
  obtain f s1 where 1: "os_get Fd s = (f, s1)" by fastforce
  note h1 = os_get_holds [OF 1]
  show ?thesis
  proof (cases f)
    case None
    then show ?thesis using 1 h1 m by (simp add: ufp_irq_setaffinity_def)
  next
    case (Some fd)
    obtain e s2 where 2: "os_request (SMP_AFFINITY (irq_vector irq) hi lo) (int fd) s1 = (e, s2)" by fastforce
    have "holds s {#Fd fd#} s2" using holds_trans [OF h1 os_request_holds [OF 2]] Some by simp
    from os_put_holds [OF this] show ?thesis using 1 Some 2 m by (auto simp: ufp_irq_setaffinity_def)
  qed
qed

subsection \<open>Plane\<close>

definition iface_has_thread :: "nat \<Rightarrow> 'd ufp_iface \<Rightarrow> bool" where
  "iface_has_thread t iface \<longleftrightarrow> t < length (snd (if_rx_ring iface)) \<and> t < length (snd (if_tx_ring iface)) \<and>
     t < length (snd (if_rx_irq iface)) \<and> t < length (snd (if_tx_irq iface)) \<and> t < length (snd (if_tap_fds iface))"

definition port_of :: "nat \<times> 'd ufp_dev \<times> 'd ufp_iface \<Rightarrow> nat \<Rightarrow> ufp_buf \<Rightarrow> nat \<Rightarrow> 'd ufp_port" where
  "port_of x k buf t = the (plane_port_init (fst (snd x)) (fst x) (snd (snd x)) k buf t)"

lemma port_init_some:
  "iface_has_thread t iface \<Longrightarrow> plane_port_init dev i iface k buf t = Some (port_of (i, dev, iface) k buf t)"
  by (simp add: plane_port_init_def thread_elem_def iface_has_thread_def port_of_def)

lemma plane_ports_spec:
  assumes c: "core_id \<le> 62"
  shows "list_all (\<lambda>x. iface_has_thread t (snd (snd x))) rest \<Longrightarrow> length ps + length rest \<le> n \<Longrightarrow>
    \<exists>ok ps' s'. plane_ports n rest ps buf t core_id s = Some (ok, ps @ ps', s') \<and> holds s {#} s' \<and>
      (ok \<longrightarrow> ps' = map (\<lambda>k. port_of (rest ! k) (length ps + k) buf t) [0..<length rest])"
proof (induction rest arbitrary: ps s)
  case (Cons x rest)
  obtain i dev iface where x: "x = (i, dev, iface)" by (cases x)
  let ?p = "port_of x (length ps) buf t"
  have 0: "plane_port_init dev i iface (length ps) buf t = Some ?p" using Cons.prems(1) by (auto simp: x port_init_some)
  obtain e1 s1 where 1: "ufp_irq_setaffinity (rx_irq ?p) core_id s = Some (e1, s1)" "holds s {#} s1" using setaffinity_spec [OF c] by blast
  obtain e2 s2 where 2: "ufp_irq_setaffinity (tx_irq ?p) core_id s1 = Some (e2, s2)" "holds s1 {#} s2" using setaffinity_spec [OF c] by blast
  have h2: "holds s {#} s2" using holds_trans [OF 1(2) 2(2)] by simp
  have run: "plane_ports n (x # rest) ps buf t core_id s =
      (if e1 < 0 then Some (False, ps @ [?p], s1) else if e2 < 0 then Some (False, ps @ [?p], s2)
       else plane_ports n rest (ps @ [?p]) buf t core_id s2)"
    using Cons.prems(2) 0 1(1) 2(1) by (simp add: x)
  obtain ok ps' s' where 3: "plane_ports n rest (ps @ [?p]) buf t core_id s2 = Some (ok, (ps @ [?p]) @ ps', s')" "holds s2 {#} s'"
    "ok \<longrightarrow> ps' = map (\<lambda>k. port_of (rest ! k) (length (ps @ [?p]) + k) buf t) [0..<length rest]"
    using Cons.IH [of "ps @ [?p]" s2] Cons.prems by auto
  have h3: "holds s {#} s'" using holds_trans [OF h2 3(2)] by simp
  have "map (\<lambda>k. port_of ((x # rest) ! k) (length ps + k) buf t) [0..<length (x # rest)] =
      ?p # map (\<lambda>k. port_of (rest ! k) (Suc (length ps) + k) buf t) [0..<length rest]"
    by (simp add: upt_conv_Cons map_Suc_upt [symmetric] del: upt_Suc)
  with 3 h3 show ?case
    unfolding run using 1(2) h2 by (cases "e1 < 0"; cases "e2 < 0") auto
qed auto

text \<open>What a new thread relies on: devices that are up, with the thread among those the interfaces were set up for.\<close>

definition dev_ready :: "'d ufp_ops \<Rightarrow> nat \<Rightarrow> nat \<Rightarrow> nat \<Rightarrow> 'd ufp_dev \<Rightarrow> bool" where
  "dev_ready ops page dsize t dev \<longleftrightarrow> dev_ops dev = ops \<and> length (dev_iface dev) = unat (dev_num_ifaces dev) \<and>
     list_all (\<lambda>i. iface_up page dsize i \<and> t < unat (if_num_qps i) \<and>
       if_size_rx_desc i div dsize = unat (if_num_rx_desc i) \<and> 0 < if_num_rx_desc i \<and> unat (if_num_rx_desc i) \<le> 65536 \<and>
       if_size_tx_desc i div dsize = unat (if_num_tx_desc i) \<and> 0 < if_num_tx_desc i \<and> unat (if_num_tx_desc i) \<le> 65536) (dev_iface dev)"

lemma ring_new_ok:
  assumes "ring_new page sz n dsize r" "sz div dsize = unat n" "0 < n" "unat n \<le> 65536"
  shows "ring_ok n r" "ring_queue n r = []"
proof -
  have "0 < unat n" using assms(3) by (simp add: word_less_nat_alt)
  then show "ring_ok n r" "ring_queue n r = []"
    using assms by (auto simp: ring_new_def ring_ok_def ring_queue_def ring_occ_def)
qed

lemma dev_ready_port:
  assumes r: "dev_ready ops page dsize t dev" and i: "iface \<in> set (dev_iface dev)"
  shows "iface_has_thread t iface"
    "port_ops (port_of (d, dev, iface) k buf t) = ops"
    "rx_slot_offset (port_of (d, dev, iface) k buf t) = of_nat k * buf_count buf"
    "rx_slot_next (port_of (d, dev, iface) k buf t) = 0"
    "ring_ok (num_rx_desc (port_of (d, dev, iface) k buf t)) (rx_ring (port_of (d, dev, iface) k buf t))"
    "ring_ok (num_tx_desc (port_of (d, dev, iface) k buf t)) (tx_ring (port_of (d, dev, iface) k buf t))"
    "port_held (port_of (d, dev, iface) k buf t) = {#}"
proof -
  let ?p = "port_of (d, dev, iface) k buf t"
  have u: "iface_up page dsize iface" "t < unat (if_num_qps iface)" "dev_ops dev = ops"
    and rx: "if_size_rx_desc iface div dsize = unat (if_num_rx_desc iface)" "0 < if_num_rx_desc iface" "unat (if_num_rx_desc iface) \<le> 65536"
    and tx: "if_size_tx_desc iface div dsize = unat (if_num_tx_desc iface)" "0 < if_num_tx_desc iface" "unat (if_num_tx_desc iface) \<le> 65536"
    using r i by (auto simp: dev_ready_def list_all_iff)
  show th: "iface_has_thread t iface" using u by (simp add: iface_has_thread_def iface_up_def iface_rings_def iface_rings_ok_def)
  note p = th [unfolded iface_has_thread_def]
  show "port_ops ?p = ops" "rx_slot_offset ?p = of_nat k * buf_count buf" "rx_slot_next ?p = 0"
    using u(3) p by (simp_all add: port_of_def plane_port_init_def thread_elem_def)
  have f: "rx_ring ?p = snd (snd (if_rx_ring iface) ! t)" "tx_ring ?p = snd (snd (if_tx_ring iface) ! t)"
    "num_rx_desc ?p = if_num_rx_desc iface" "num_tx_desc ?p = if_num_tx_desc iface"
    using p by (simp_all add: port_of_def plane_port_init_def thread_elem_def)
  have new: "ring_new page (if_size_rx_desc iface) (if_num_rx_desc iface) dsize (rx_ring ?p)"
    "ring_new page (if_size_tx_desc iface) (if_num_tx_desc iface) dsize (tx_ring ?p)"
    using u(1) th unfolding f by (simp_all add: iface_up_def iface_rings_def iface_rings_ok_def list_all_length iface_has_thread_def)
  show "ring_ok (num_rx_desc ?p) (rx_ring ?p)" "ring_ok (num_tx_desc ?p) (tx_ring ?p)" "port_held ?p = {#}"
    using ring_new_ok [OF new(1) rx] ring_new_ok [OF new(2) tx] by (simp_all add: f port_held_def)
qed

definition num_ifaces :: "'d ufp_dev list \<Rightarrow> nat" where
  "num_ifaces devs = sum_list (map (\<lambda>dev. unat (dev_num_ifaces dev)) devs)"

lemma dev_ifaces_props:
  assumes "\<forall>dev \<in> set devs. dev_ready ops page dsize t dev"
  shows "length (dev_ifaces devs) = num_ifaces devs"
    "x \<in> set (dev_ifaces devs) \<Longrightarrow> \<exists>d dev iface. x = (d, dev, iface) \<and> dev_ready ops page dsize t dev \<and> iface \<in> set (dev_iface dev)"
proof -
  have "length (concat (map (\<lambda>(i, dev). map (\<lambda>iface. (i, dev, iface)) (dev_iface dev)) (enumerate m devs))) = num_ifaces devs" for m
    using assms by (induction devs arbitrary: m) (auto simp: num_ifaces_def dev_ready_def)
  then show "length (dev_ifaces devs) = num_ifaces devs" by (simp add: dev_ifaces_def)
  show "x \<in> set (dev_ifaces devs) \<Longrightarrow> \<exists>d dev iface. x = (d, dev, iface) \<and> dev_ready ops page dsize t dev \<and> iface \<in> set (dev_iface dev)"
    using assms by (auto simp: dev_ifaces_def in_set_enumerate_eq)
qed

text \<open>A buffer with all slots free, one segment for each interface.\<close>

definition buf_fresh :: "'d ufp_dev list \<Rightarrow> ufp_buf \<Rightarrow> bool" where
  "buf_fresh devs buf \<longleftrightarrow> 0 < buf_count buf \<and> num_ifaces devs * unat (buf_count buf) < 2 ^ 31 \<and>
     slots buf = replicate (num_ifaces devs * unat (buf_count buf)) 0"

lemma num_bufs_eq: "num_bufs devs c = of_nat (num_ifaces devs) * c"
proof -
  have "foldl (\<lambda>n dev. n + ucast (dev_num_ifaces dev) * c) a devs = a + of_nat (num_ifaces devs) * c" for a
    by (induction devs arbitrary: a) (simp_all add: num_ifaces_def algebra_simps)
  then show ?thesis by (simp add: num_bufs_def)
qed

lemma fresh_plane_inv:
  assumes devs: "\<forall>dev \<in> set devs. dev_ready ops page dsize t dev" and buf: "buf_fresh devs buf"
    and ps: "ports plane = map (\<lambda>k. port_of (dev_ifaces devs ! k) k buf t) [0..<num_ifaces devs]"
  shows "io_inv ops plane buf {#}"
proof -
  note d = dev_ifaces_props [OF devs]
  let ?c = "unat (buf_count buf)"
  have c: "0 < ?c" "num_ifaces devs * ?c < 2 ^ 31" "slots buf = replicate (num_ifaces devs * ?c) 0"
    using buf by (auto simp: buf_fresh_def word_less_nat_alt)
  have port: "port_ok ops buf k (port_of (dev_ifaces devs ! k) k buf t) \<and> port_held (port_of (dev_ifaces devs ! k) k buf t) = {#}"
    if k: "k < num_ifaces devs" for k
  proof -
    obtain e dev iface where x: "dev_ifaces devs ! k = (e, dev, iface)" "dev_ready ops page dsize t dev" "iface \<in> set (dev_iface dev)"
      using d(2) [of "dev_ifaces devs ! k"] k d(1) nth_mem by metis
    note p = dev_ready_port [OF x(2,3)]
    have le: "k * ?c + ?c \<le> num_ifaces devs * ?c" using k mult_le_mono1 [of "Suc k" "num_ifaces devs" ?c] by (simp add: add.commute)
    then have b: "k * ?c < 2 ^ 31" using c(2) by linarith
    have "unat (of_nat k * buf_count buf) = k * ?c"
    proof -
      have "of_nat k * buf_count buf = of_nat (k * ?c)" by simp
      moreover have "unat (of_nat m :: u32) = m" if "m < 2 ^ 31" for m using that by (simp add: unat_of_nat)
      ultimately show ?thesis using b by metis
    qed
    then have "slot_ok (of_nat k * buf_count buf) 0 buf" using c le by (simp add: slot_ok_def word_less_nat_alt)
    with p \<open>unat _ = k * ?c\<close> show ?thesis unfolding x(1) by (simp add: port_ok_def)
  qed
  have "inflight buf = {}" using c(3) by (auto simp: inflight_def)
  moreover have "plane_held plane = {#}" 
  proof -
    have "map port_held (ports plane) = map (\<lambda>k. {#}) [0..<num_ifaces devs]" unfolding ps using port by simp
    then show ?thesis by (simp add: plane_held_def)
  qed
  moreover have "plane_ok ops plane buf" using port by (simp add: plane_ok_def ps)
  ultimately show ?thesis by (simp add: io_inv_def)
qed

lemma buf_slots_fresh:
  assumes "0 < c" "num_ifaces devs * unat c < 2 ^ 31"
  shows "nat (sint (num_bufs devs c)) = num_ifaces devs * unat c"
proof -
  let ?n = "num_ifaces devs * unat c"
  have "num_bufs devs c = of_nat ?n" by (simp add: num_bufs_eq)
  moreover have "nat (sint (of_nat m :: u32)) = m" if "m < 2 ^ 31" for m
    using that by (simp add: sint_uint unsigned_of_nat take_bit_nat_eq_self signed_take_bit_int_eq_self)
  ultimately show ?thesis using assms(2) by metis
qed

subsection \<open>Properties\<close>

text \<open>C34. A thread starts with a consistent plane. On devices that are up, and with the free buffer that \<open>ufp_alloc_buf\<close>
  makes, and for a core with a number of at most 62, \<open>ufp_plane_alloc\<close> always returns (for a greater number it shifts by the width of the type). A failure leaves nothing behind; otherwise every port has two empty rings
  of its own and a segment of the buffer of its own, so the invariant of packet input and output holds with no slot in
  flight, and \<open>ufp_plane_release\<close> gives back what was taken.
\<close>

theorem plane_starts_consistent:
  assumes "\<forall>dev \<in> set devs. dev_ready ops page dsize t dev" "buf_fresh devs buf" "core_id \<le> 62"
  shows "\<exists>r s'. ufp_plane_alloc junk_port devs buf t core_id s = Some (r, s') \<and>
    (case r of None \<Rightarrow> holds s {#} s'
     | Some (h, p, plane) \<Rightarrow> length (ports plane) = num_ifaces devs \<and> io_inv ops plane buf {#} \<and>
         (\<exists>s''. ufp_plane_release (h, p, plane) s' = Some s'' \<and> holds s {#} s''))"
proof -
  note d = dev_ifaces_props [OF assms(1)]
  obtain m s1 where 1: "os_get Heap s = (m, s1)" by fastforce
  note h1 = os_get_holds [OF 1]
  show ?thesis
  proof (cases m)
    case None
    then show ?thesis using 1 h1 by (simp add: ufp_plane_alloc_def)
  next
    case (Some h)
    obtain p s2 where 2: "os_get Heap s1 = (p, s2)" by fastforce
    note h2 = holds_trans [OF h1 os_get_holds [OF 2]]
    show ?thesis
    proof (cases p)
      case None
      then have "holds s (add_mset (Heap h) {#}) s2" using h2 Some by simp
      from os_put_holds [OF this] show ?thesis using 1 Some 2 None by (auto simp: ufp_plane_alloc_def)
    next
      case (Some p)
      have th: "list_all (\<lambda>x. iface_has_thread t (snd (snd x))) (dev_ifaces devs)"
        using d(2) dev_ready_port(1) by (fastforce simp: list_all_iff)
      obtain ok ps s3 where 3: "plane_ports (num_ifaces devs) (dev_ifaces devs) [] buf t core_id s2 = Some (ok, ps, s3)" "holds s2 {#} s3"
        "ok \<longrightarrow> ps = map (\<lambda>k. port_of (dev_ifaces devs ! k) k buf t) [0..<num_ifaces devs]"
        using plane_ports_spec [OF assms(3) th, of "[]" "num_ifaces devs" buf s2] d(1) by auto
      have "holds s (add_mset (Heap p) (add_mset (Heap h) {#})) s3"
        using holds_trans [OF h2 3(2)] Some \<open>m = Some h\<close> by (simp add: add_mset_commute)
      from os_put_holds [OF this] obtain s4 where 4: "os_put (Heap p) s3 = Some s4" "holds s (add_mset (Heap h) {#}) s4" by blast
      from os_put_holds [OF 4(2)] obtain s5 where 5: "os_put (Heap h) s4 = Some s5" "holds s {#} s5" by blast
      note eqs = 1 \<open>m = Some h\<close> 2 Some 3(1)
      show ?thesis
      proof (cases ok)
        case False
        then show ?thesis using eqs 4(1) 5 by (simp add: ufp_plane_alloc_def num_ifaces_def [symmetric])
      next
        case True
        let ?plane = "\<lparr>ports = ps, num_ports = of_nat (num_ifaces devs)\<rparr>"
        have len: "length ps = num_ifaces devs" using 3(3) True by simp
        have "io_inv ops ?plane buf {#}" using fresh_plane_inv [OF assms(1,2), of ?plane] 3(3) True by simp
        moreover have "ufp_plane_alloc junk_port devs buf t core_id s = Some (Some (h, p, ?plane), s3)"
          using eqs True len by (simp add: ufp_plane_alloc_def num_ifaces_def [symmetric])
        ultimately show ?thesis using len 4(1) 5 by (simp add: ufp_plane_release_def)
      qed
    qed
  qed
qed

text \<open>The masks of \<open>ufp_irq_setaffinity\<close>. For the first 32 cores the two masks have exactly the bit of the core, and
  the interrupt goes to it. From core 32 on the mask is the one of the next core: the upper half is shifted by one too far.
\<close>

theorem affinity_mask_value:
  "core_id \<le> 62 \<Longrightarrow> \<exists>hi lo. affinity_masks core_id = Some (hi, lo) \<and>
     (push_bit 32 (ucast hi) OR ucast lo :: u64) = push_bit (if core_id \<le> 31 then unat core_id else unat core_id + 1) 1"
proof (cases "core_id \<le> 31")
  case True
  then have "unat core_id < 32" by (simp add: word_le_nat_alt)
  then have "(ucast (push_bit (unat core_id) 1 :: u32) :: u64) = push_bit (unat core_id) 1"
    by (intro bit_word_eqI) (auto simp: bit_simps)
  then show ?thesis using True affinity_masks_low by simp
next
  case False
  assume c: "core_id \<le> 62"
  have ge: "32 \<le> core_id" using False by (simp add: word_le_nat_alt)
  have u: "32 \<le> unat core_id" "unat core_id \<le> 62" using c ge by (simp_all add: word_le_nat_alt)
  have "(push_bit 32 (ucast (push_bit (unat core_id - 31) 1 :: u32)) :: u64) = push_bit (unat core_id + 1) 1"
    using u by (intro bit_word_eqI) (auto simp: bit_simps)
  then show ?thesis using False affinity_masks_high [OF ge c] by simp
qed

theorem affinity_mask_value_witness:
  "(40 :: u32) \<le> 62 \<and> (\<exists>hi lo. affinity_masks 40 = Some (hi, lo) \<and> (push_bit 32 (ucast hi) OR ucast lo :: u64) = push_bit 41 1)"
  using affinity_mask_value [of 40] by simp

end
