(* ===== verification/Ufp_Setup_Ex.thy ===== *)
theory Ufp_Setup_Ex
  imports Ufp_Buf
begin

text \<open>
  A concrete device: the properties of set-up and tear-down applied to it.
\<close>

definition os_ex :: os where
  "os_ex = \<lparr>os_calls = [], os_vals = [], os_next = 1, os_live = {#}, os_stuck = {#}, os_log = [], os_page = 4096\<rparr>"

definition iface_down_ex :: "i40e_desc ufp_iface" where
  "iface_down_ex = \<lparr>if_tx_ring = (0, []), if_rx_ring = (0, []), if_rx_irq = (0, []), if_tx_irq = (0, []),
     if_num_tx_desc = 4096, if_size_tx_desc = 65536, if_num_rx_desc = 4096, if_size_rx_desc = 65536,
     if_rx_budget = 0, if_tx_budget = 0, if_num_qps = 0, if_irq_rate = 0, if_promisc = 0, if_buf_size = 0, if_mtu_frame = 0,
     if_mac_addr = [2, 0, 0, 0, 0, 1], if_tap_fds = (0, []), if_tap_index = 0, if_name = ''unp3s0f0''\<rparr>"

definition dev_down_ex :: "i40e_desc ufp_dev" where
  "dev_down_ex = \<lparr>dev_fd = 7, dev_bar = 0, dev_bar_size = 4096, dev_name = ''0000:03:00.0'', dev_ops = i40e_ops,
     dev_iface = [iface_down_ex], dev_num_ifaces = 1, dev_num_misc_irqs = 1, dev_misc_irq = (0, []),
     dev_device_id = 0x1572, dev_vendor_id = 0x8086\<rparr>"

definition settings_ex :: settings where
  "settings_ex = \<lparr>set_num_qps = 1, set_buf_size = 2048, set_mtu_frame = 1518, set_promisc = 1, set_rx_budget = 1024, set_tx_budget = 4096\<rparr>"

definition junk_ex :: "i40e_desc junk" where
  "junk_ex = \<lparr>junk_int = (\<lambda>p k. 0), junk_desc = (\<lambda>a k. \<lparr>qword0 = 0, qword1 = 0\<rparr>), junk_desc_size = 16,
     junk_ring = \<lparr>ring_addr_virt = 0, ring_addr_dma = 0, tail = 0, next_to_use = 0, next_to_clean = 0, slot_index = [], ring_mem = []\<rparr>\<rparr>"

lemma up_pre_ex: "up_pre settings_ex dev_down_ex (length [pool_ex]) os_ex"
proof -
  have "align_fits 4096 65536" unfolding align_fits_def
    by (intro conjI exI [of _ 12]) (simp_all add: size_header_def size_t_mod_def)
  then show ?thesis
    by (simp add: up_pre_def settings_ex_def dev_down_ex_def iface_down_ex_def iface_fits_def os_ex_def)
qed

definition ring_up_ex :: "nat \<times> i40e_desc ufp_ring" where
  "ring_up_ex = (20, \<lparr>ring_addr_virt = 4096, ring_addr_dma = 4096, tail = 0, next_to_use = 0, next_to_clean = 0,
     slot_index = [0, 0], ring_mem = replicate 2 \<lparr>qword0 = 0, qword1 = 0\<rparr>\<rparr>)"

definition dev_up_ex :: "i40e_desc ufp_dev" where
  "dev_up_ex = dev_down_ex\<lparr>dev_iface := [iface_down_ex\<lparr>if_tx_ring := (21, [ring_up_ex]), if_rx_ring := (22, [ring_up_ex]),
     if_rx_irq := (23, [(24, \<lparr>irq_fd = 3, irq_entry_idx = 1, irq_vector = 33\<rparr>)]),
     if_tx_irq := (25, [(26, \<lparr>irq_fd = 4, irq_entry_idx = 2, irq_vector = 34\<rparr>)]),
     if_num_tx_desc := 2, if_size_tx_desc := 32, if_num_rx_desc := 2, if_size_rx_desc := 32, if_num_qps := 1, if_tap_fds := (27, [5])\<rparr>]\<rparr>"

definition buf_free_ex :: ufp_buf where
  "buf_free_ex = \<lparr>buf_addr_virt = 8192, buf_addr_dma = 8192, buf_slot_size = 2048, buf_size = 8192, buf_count = 4, slots = replicate 4 0\<rparr>"

lemma dev_ready_ex: "dev_ready i40e_ops 4096 16 0 dev_up_ex"
  by (simp add: dev_ready_def dev_up_ex_def dev_down_ex_def iface_down_ex_def iface_up_def iface_rings_def iface_rings_ok_def
      ring_up_ex_def ring_new_def irqs_numbered_def)

theorem plane_starts_consistent_witness:
  "dev_ready i40e_ops 4096 16 0 dev_up_ex \<and> buf_fresh [dev_up_ex] buf_free_ex \<and> (3 :: u32) \<le> 62 \<and>
   (\<exists>r s'. ufp_plane_alloc (\<lambda>k. undefined) [dev_up_ex] buf_free_ex 0 3 os_ex = Some (r, s'))"
proof -
  have b: "buf_fresh [dev_up_ex] buf_free_ex"
    by (simp add: buf_fresh_def num_ifaces_def dev_up_ex_def dev_down_ex_def buf_free_ex_def)
  have d: "\<forall>dev \<in> set [dev_up_ex]. dev_ready i40e_ops 4096 16 0 dev" using dev_ready_ex by simp
  from plane_starts_consistent [OF d b, of 3 "\<lambda>k. undefined" os_ex] b dev_ready_ex show ?thesis by auto
qed

end
