(* ===== verification/Io_Safe.thy ===== *)
theory Io_Safe
  imports Ufp_Flow "HOL-Library.Sublist"
begin

text \<open>
  Packet input and output without the accounting of slots. The forwarding path frees the slot of a
  packet that is on a transmit ring, after which a slot can be on several rings; what is left
  then is that the rings stay well-formed and hold slots of the buffer only. This is enough for the operations
  of \<open>lib/lib_io.c\<close> to never touch memory outside of the rings and of the buffer.
\<close>

subsection \<open>The invariant\<close>

definition slot_in :: "ufp_buf \<Rightarrow> int \<Rightarrow> bool" where
  "slot_in buf si \<longleftrightarrow> 0 \<le> si \<and> nat si < length (slots buf)"

definition io_safe :: "i40e_desc ufp_plane \<Rightarrow> ufp_buf \<Rightarrow> bool" where
  "io_safe plane buf \<longleftrightarrow> plane_ok i40e_ops plane buf \<and>
     (\<forall>p \<in> set (ports plane). \<forall>si \<in># port_held p. slot_in buf si)"

text \<open>What no packet operation changes of a port, a plane and a buffer.\<close>

definition port_static :: "'d ufp_port \<Rightarrow> 'd ufp_port \<Rightarrow> bool" where
  "port_static p p' \<longleftrightarrow> port_bar p' = port_bar p \<and> port_ops p' = port_ops p \<and> port_mac_addr p' = port_mac_addr p \<and>
     port_tap_fd p' = port_tap_fd p \<and> port_tap_index p' = port_tap_index p \<and> rx_irq p' = rx_irq p \<and> tx_irq p' = tx_irq p \<and>
     rx_budget p' = rx_budget p \<and> tx_budget p' = tx_budget p \<and> port_mtu_frame p' = port_mtu_frame p \<and>
     num_rx_desc p' = num_rx_desc p \<and> num_tx_desc p' = num_tx_desc p \<and>
     length (ring_mem (rx_ring p')) = length (ring_mem (rx_ring p)) \<and> length (ring_mem (tx_ring p')) = length (ring_mem (tx_ring p))"

definition plane_static :: "'d ufp_plane \<Rightarrow> 'd ufp_plane \<Rightarrow> bool" where
  "plane_static plane plane' \<longleftrightarrow> list_all2 port_static (ports plane) (ports plane')"

definition buf_static :: "ufp_buf \<Rightarrow> ufp_buf \<Rightarrow> bool" where
  "buf_static buf buf' \<longleftrightarrow> (\<exists>xs. buf' = buf\<lparr>slots := xs\<rparr> \<and> length xs = length (slots buf))"

lemma port_static_refl [simp]: "port_static p p"
  by (simp add: port_static_def)

lemma port_static_trans: "port_static p q \<Longrightarrow> port_static q r \<Longrightarrow> port_static p r"
  by (simp add: port_static_def)

lemma plane_static_refl [simp]: "plane_static plane plane"
  by (simp add: plane_static_def list_all2_refl)

lemma plane_static_trans: "plane_static a b \<Longrightarrow> plane_static b c \<Longrightarrow> plane_static a c"
  unfolding plane_static_def by (rule list_all2_trans [OF port_static_trans])

lemma plane_static_length: "plane_static a b \<Longrightarrow> length (ports b) = length (ports a)"
  unfolding plane_static_def by (simp add: list_all2_lengthD)

lemma plane_static_nth: "plane_static a b \<Longrightarrow> i < length (ports a) \<Longrightarrow> port_static (ports a ! i) (ports b ! i)"
  unfolding plane_static_def by (simp add: list_all2_nthD)

lemma plane_static_set:
  assumes "port_static (ports plane ! i) p'"
  shows "plane_static plane (plane_set_port plane i p')"
  unfolding plane_static_def list_all2_conv_all_nth plane_set_port_def
proof (intro conjI allI impI)
  fix k assume "k < length (ports plane)"
  then show "port_static (ports plane ! k) (ports (plane\<lparr>ports := (ports plane)[i := p']\<rparr>) ! k)"
    using assms by (cases "k = i") simp_all
qed simp

lemma buf_static_refl [simp]: "buf_static buf buf"
  unfolding buf_static_def by (intro exI [of _ "slots buf"]) simp

lemma buf_static_trans: "buf_static a b \<Longrightarrow> buf_static b c \<Longrightarrow> buf_static a c"
  by (auto simp: buf_static_def)

lemma slot_in_static [simp]: "buf_static buf buf' \<Longrightarrow> slot_in buf' si = slot_in buf si"
  by (auto simp: buf_static_def slot_in_def)

lemma io_safe_set:
  assumes s: "io_safe plane buf" and b: "buf_static buf buf'" and ok: "i < length (ports plane) \<Longrightarrow> port_ok i40e_ops buf i p'"
    and h: "\<forall>si \<in># port_held p'. slot_in buf si"
  shows "io_safe (plane_set_port plane i p') buf'"
proof -
  have s': "plane_ok i40e_ops (plane_set_port plane i p') buf"
  proof (cases "i < length (ports plane)")
    case True
    then show ?thesis using s plane_ok_set [OF _ ok] by (auto simp: io_safe_def)
  next
    case False
    then have "plane_set_port plane i p' = plane" by (simp add: plane_set_port_def list_update_beyond)
    then show ?thesis using s by (simp add: io_safe_def)
  qed
  then have "plane_ok i40e_ops (plane_set_port plane i p') buf'"
    using b by (auto simp: buf_static_def plane_ok_slots)
  moreover have "slot_in buf' si" if "p \<in> set (ports (plane_set_port plane i p'))" "si \<in># port_held p" for p si
  proof -
    have "p = p' \<or> p \<in> set (ports plane)" using that(1) set_update_subset_insert [of "ports plane" i p'] by (auto simp: plane_set_port_def)
    then show ?thesis using that(2) h s b by (auto simp: io_safe_def)
  qed
  ultimately show ?thesis by (simp add: io_safe_def)
qed

lemma io_safe_portD:
  assumes "io_safe plane buf" "i < length (ports plane)"
  shows "port_ok i40e_ops buf i (ports plane ! i)" "si \<in># port_held (ports plane ! i) \<Longrightarrow> slot_in buf si"
  using assms by (auto simp: io_safe_def plane_ok_def)

text \<open>The accounting implies it.\<close>

lemma io_inv_safe:
  assumes "io_inv i40e_ops plane buf held"
  shows "io_safe plane buf"
  unfolding io_safe_def
proof (intro conjI ballI)
  show "plane_ok i40e_ops plane buf" using assms by (simp add: io_inv_def)
  fix p si assume "p \<in> set (ports plane)" "si \<in># port_held p"
  then have "si \<in># plane_held plane" by (auto simp: plane_held_def set_mset_sum_list)
  then have "si \<in># mset_set (inflight buf)" using assms unfolding io_inv_def by (metis union_iff)
  then have "si \<in> inflight buf" by simp
  then show "slot_in buf si" by (simp add: inflight_def slot_in_def)
qed

text \<open>The posted receive buffers of a port, and a change of a plane that only takes from their front.\<close>

definition rx_posted :: "'d ufp_plane \<Rightarrow> nat \<Rightarrow> int list" where
  "rx_posted plane i = (if i < length (ports plane) then ring_queue (num_rx_desc (ports plane ! i)) (rx_ring (ports plane ! i)) else [])"

definition rx_drains :: "'d ufp_plane \<Rightarrow> 'd ufp_plane \<Rightarrow> bool" where
  "rx_drains plane plane' \<longleftrightarrow> (\<forall>i. suffix (rx_posted plane' i) (rx_posted plane i))"

lemma rx_drains_refl [simp]: "rx_drains plane plane"
  by (simp add: rx_drains_def)

lemma rx_drains_trans: "rx_drains a b \<Longrightarrow> rx_drains b c \<Longrightarrow> rx_drains a c"
  unfolding rx_drains_def using suffix_order.trans by blast

lemma rx_drains_set:
  assumes "suffix (ring_queue (num_rx_desc p') (rx_ring p')) (ring_queue (num_rx_desc (ports plane ! i)) (rx_ring (ports plane ! i)))"
  shows "rx_drains plane (plane_set_port plane i p')"
  unfolding rx_drains_def
proof
  fix k show "suffix (rx_posted (plane_set_port plane i p') k) (rx_posted plane k)"
    using assms by (cases "k = i") (simp_all add: rx_posted_def plane_set_port_def)
qed

lemma tx_assign_drains: "ufp_tx_assign plane i buf pkt = Some (plane', buf') \<Longrightarrow> rx_drains plane plane'"
  by (auto simp: ufp_tx_assign_def Let_def plane_port_def split: if_splits bind_splits intro!: rx_drains_set)

lemma tx_xmit_drains: "ufp_tx_xmit plane i = Some (plane', w) \<Longrightarrow> rx_drains plane plane'"
  by (auto simp: ufp_tx_xmit_def plane_port_def split: if_splits bind_splits intro!: rx_drains_set)

subsection \<open>Operations\<close>

lemma slot_release_safe:
  assumes "slot_in buf si"
  shows "\<exists>buf'. ufp_slot_release buf si = Some buf' \<and> buf_static buf buf'"
  using assms by (auto simp: ufp_slot_release_def slot_in_def buf_static_def)

lemma io_safe_slots: "io_safe plane buf \<Longrightarrow> buf_static buf buf' \<Longrightarrow> io_safe plane buf'"
  by (auto simp: io_safe_def buf_static_def plane_ok_slots slot_in_def)

lemma segment_in: "slot_ok off nxt buf \<Longrightarrow> si \<in> segment off buf \<Longrightarrow> slot_in buf si"
  unfolding slot_ok_def segment_def slot_in_def atLeastLessThan_iff by linarith

lemma ring_ok_len: "ring_ok n r \<Longrightarrow> length (ring_mem r) = unat n"
  by (simp add: ring_ok_def)

lemma ring_at_bound:
  assumes "ring_ok n r"
  shows "unat (ring_at n r k) < length (ring_mem r)"
proof -
  have b: "unat n \<le> 65536" "unat (next_to_clean r) < unat n" using assms by (auto simp: ring_ok_def)
  then have "(unat (next_to_clean r) + k) mod unat n < unat n" by simp
  with b(1) show ?thesis
    unfolding ring_at_def ring_ok_len [OF assms] by (simp add: unsigned_of_nat take_bit_nat_eq_self)
qed

lemma rx_assign_safe:
  assumes s: "io_safe plane buf" and i: "i < length (ports plane)"
  shows "\<exists>plane' buf' w. ufp_rx_assign plane i buf = Some (plane', buf', w) \<and>
    io_safe plane' buf' \<and> plane_static plane plane' \<and> buf_static buf buf'"
proof -
  let ?p = "ports plane ! i"
  note ok = io_safe_portD [OF s i]
  have port: "plane_port plane i = Some ?p" using i by (simp add: plane_port_def)
  let ?max = "ufp_desc_unused (rx_ring ?p) (ucast (num_rx_desc ?p))"
  show ?thesis
  proof (cases "?max = 0")
    case True
    then show ?thesis using port s by (simp add: ufp_rx_assign_def)
  next
    case False
    obtain new r nxt xs where L: "rx_assign_loop (unat ?max) ?p buf =
        Some (?p\<lparr>rx_ring := r, rx_slot_next := nxt,
              count_rx_alloc_failed := count_rx_alloc_failed ?p + of_nat (unat ?max - length new)\<rparr>, buf\<lparr>slots := xs\<rparr>, length new)"
        "ring_queue (num_rx_desc ?p) r = ring_queue (num_rx_desc ?p) (rx_ring ?p) @ new"
        "ring_ok (num_rx_desc ?p) r" "slot_ok (rx_slot_offset ?p) nxt (buf\<lparr>slots := xs\<rparr>)" "length xs = length (slots buf)"
        "set new \<subseteq> segment (rx_slot_offset ?p) buf - inflight buf"
      using i40e.rx_assign_loop_spec [OF ok(1) order_refl] by (elim exE conjE)
    let ?p' = "?p\<lparr>rx_ring := r, rx_slot_next := nxt,
              count_rx_alloc_failed := count_rx_alloc_failed ?p + of_nat (unat ?max - length new)\<rparr>"
    have b: "buf_static buf (buf\<lparr>slots := xs\<rparr>)" using L(5) by (auto simp: buf_static_def)
    have ok': "port_ok i40e_ops buf i ?p'" using ok(1) L(3,4,5) by (simp add: port_ok_def slot_ok_def)
    have sl: "slot_ok (rx_slot_offset ?p) (rx_slot_next ?p) buf" using ok(1) by (simp add: port_ok_def)
    have "slot_in buf si" if "si \<in># port_held ?p'" for si
    proof -
      have "si \<in># port_held ?p \<or> si \<in> segment (rx_slot_offset ?p) buf"
        using that L(2,6) by (auto simp: port_held_def)
      then show ?thesis using ok(2) segment_in [OF sl] by blast
    qed
    then have "io_safe (plane_set_port plane i ?p') (buf\<lparr>slots := xs\<rparr>)" by (intro io_safe_set [OF s b ok']) auto
    moreover have "plane_static plane (plane_set_port plane i ?p')"
      using ring_ok_len [OF L(3)] ok(1) ring_ok_len [of "num_rx_desc ?p" "rx_ring ?p"]
      by (intro plane_static_set) (simp add: port_static_def port_ok_def)
    moreover have "\<exists>w. ufp_rx_assign plane i buf = Some (plane_set_port plane i ?p', buf\<lparr>slots := xs\<rparr>, w)"
      using False L(1) port by (auto simp: ufp_rx_assign_def Let_def)
    ultimately show ?thesis using b by blast
  qed
qed

lemma tx_assign_safe:
  assumes s: "io_safe plane buf" and i: "i < length (ports plane)" and si: "slot_in buf (pkt_slot_index pkt)"
  shows "\<exists>plane' buf'. ufp_tx_assign plane i buf pkt = Some (plane', buf') \<and>
    io_safe plane' buf' \<and> plane_static plane plane' \<and> buf_static buf buf'"
proof -
  let ?p = "ports plane ! i" and ?s = "pkt_slot_index pkt"
  let ?r = "tx_ring ?p" and ?n = "num_tx_desc ?p"
  note ok = io_safe_portD [OF s i]
  have port: "plane_port plane i = Some ?p" using i by (simp add: plane_port_def)
  show ?thesis
  proof (cases "ufp_desc_unused ?r (ucast ?n) = 0")
    case True
    obtain buf' where b: "ufp_slot_release buf ?s = Some buf'" "buf_static buf buf'" using slot_release_safe [OF si] by blast
    let ?p' = "?p\<lparr>count_tx_xmit_failed := count_tx_xmit_failed ?p + 1\<rparr>"
    have "io_safe (plane_set_port plane i ?p') buf'"
      using ok by (intro io_safe_set [OF s b(2)]) (auto simp: port_ok_def port_held_def)
    moreover have "plane_static plane (plane_set_port plane i ?p')" by (intro plane_static_set) (simp add: port_static_def)
    ultimately show ?thesis using True b port by (simp add: ufp_tx_assign_def)
  next
    case False
    let ?a = "ufp_slot_addr_dma buf ?s"
    have rok: "ring_ok ?n ?r" using ok(1) by (simp add: port_ok_def)
    then have "unat (next_to_use ?r) < length (ring_mem ?r)" by (simp add: ring_ok_def)
    then obtain d where d: "fill_tx_desc i40e_ops ?r (next_to_use ?r) ?a pkt = Some (?r\<lparr>ring_mem := (ring_mem ?r)[unat (next_to_use ?r) := d]\<rparr>)"
      using i40e.fill_tx by blast
    let ?r1 = "?r\<lparr>ring_mem := (ring_mem ?r)[unat (next_to_use ?r) := d]\<rparr>"
    have "ring_ok ?n ?r1" using rok by (simp add: ring_ok_mem)
    then obtain r where r: "ring_push ?n ?r1 ?s = Some r" "ring_ok ?n r" "ring_queue ?n r = ring_queue ?n ?r @ [?s]"
      using ring_push_queue [of ?n ?r1 ?s] False by auto
    let ?p' = "?p\<lparr>tx_ring := r, tx_suspended := tx_suspended ?p + 1\<rparr>"
    have run: "ufp_tx_assign plane i buf pkt = Some (plane_set_port plane i ?p', buf)"
      using r(1) d ok(1) False port
      by (auto simp: ufp_tx_assign_def ring_push_def ufp_slot_attach_def port_ok_def split: if_splits)
    have "io_safe (plane_set_port plane i ?p') buf"
      using ok r si by (intro io_safe_set [OF s]) (auto simp: port_ok_def port_held_def)
    moreover have "plane_static plane (plane_set_port plane i ?p')"
      using ring_ok_len [OF r(2)] ring_ok_len [OF rok] by (intro plane_static_set) (simp add: port_static_def)
    ultimately show ?thesis using run by simp
  qed
qed

lemma tx_xmit_safe:
  assumes s: "io_safe plane buf" and i: "i < length (ports plane)"
  shows "\<exists>plane' w. ufp_tx_xmit plane i = Some (plane', w) \<and> io_safe plane' buf \<and> plane_static plane plane'"
proof -
  let ?p = "ports plane ! i"
  note ok = io_safe_portD [OF s i]
  have port: "plane_port plane i = Some ?p" using i by (simp add: plane_port_def)
  have "io_safe (plane_set_port plane i (?p\<lparr>tx_suspended := 0\<rparr>)) buf"
    using ok by (intro io_safe_set [OF s]) (auto simp: port_ok_def port_held_def)
  moreover have "plane_static plane (plane_set_port plane i (?p\<lparr>tx_suspended := 0\<rparr>))"
    by (intro plane_static_set) (simp add: port_static_def)
  ultimately show ?thesis using s port by (auto simp: ufp_tx_xmit_def)
qed

text \<open>The length that the device has written into a receive descriptor.\<close>

definition rx_length :: "i40e_desc \<Rightarrow> nat" where
  "rx_length d = unat (take_bit 14 (drop_bit 38 (qword1 d)))"

lemma fetch_rx_length:
  assumes "unat i < length (ring_mem r)" "i40e_rx_desc_fetch r i p = Some (e, q)" "0 \<le> e"
  shows "unat (pkt_slot_size q) = rx_length (ring_mem r ! unat i)"
proof -
  let ?w = "take_bit 14 (drop_bit 38 (qword1 (ring_mem r ! unat i)))"
  have "unat ?w < 2 ^ 14" unfolding unsigned_take_bit_eq by (rule take_bit_nat_less_exp)
  then have "unat (ucast ?w :: u32) = unat ?w" by (simp add: unsigned_ucast_eq take_bit_nat_eq_self)
  then show ?thesis
    using assms i40e_rx_fetch_eq [OF assms(1), of p] by (auto simp: rx_length_def split: if_splits)
qed


lemma rx_clean_safe:
  assumes s: "io_safe plane buf" and i: "i < length (ports plane)" and len: "unat (rx_budget (ports plane ! i)) \<le> length pk"
    and rx: "\<forall>d \<in> set (ring_mem (rx_ring (ports plane ! i))). rx_length d \<le> n"
  shows "\<exists>plane' pk' t. ufp_rx_clean plane i buf pk = Some (plane', pk', t) \<and> io_safe plane' buf \<and> plane_static plane plane' \<and>
    (\<forall>pkt \<in> set (take t pk'). slot_in buf (pkt_slot_index pkt) \<and> unat (pkt_slot_size pkt) \<le> n \<and>
       pkt_slot_buf pkt = ufp_slot_addr_virt buf (of_int (pkt_slot_index pkt))) \<and> length pk' = length pk \<and>
    rx_drains plane plane'"
proof -
  let ?p = "ports plane ! i"
  let ?r = "rx_ring ?p" and ?n = "num_rx_desc ?p"
  note ok = io_safe_portD [OF s i]
  have pok: "port_ops ?p = i40e_ops" "ring_ok ?n ?r" using ok(1) by (auto simp: port_ok_def)
  have port: "plane_port plane i = Some ?p" using i by (simp add: plane_port_def)
  have "0 + unat (rx_budget ?p) \<le> length pk" using len by simp
  from i40e.rx_clean_loop_spec [OF pok this, of buf, unfolded add_0]
  obtain t r pk' where L: "rx_clean_loop (unat (rx_budget ?p)) 0 ?p buf pk = Some (?p\<lparr>rx_ring := r\<rparr>, pk', t)"
    and q: "ring_queue ?n ?r = take t (ring_queue ?n ?r) @ ring_queue ?n r"
    and t: "t \<le> unat (rx_budget ?p)" "t \<le> ring_occ ?n ?r" and r: "ring_ok ?n r" and lpk: "length pk' = length pk"
    and got: "\<forall>k<t. rx_done i40e_ops ?n ?r buf k (pk ! k) (pk' ! k)"
    by (elim exE conjE)
  let ?p' = "?p\<lparr>rx_ring := r, count_rx_clean_total := count_rx_clean_total ?p + of_nat t\<rparr>"
  have run: "ufp_rx_clean plane i buf pk = Some (plane_set_port plane i ?p', pk', t)"
    using L by (simp add: ufp_rx_clean_def port)
  have sub: "set (ring_queue ?n r) \<subseteq> set (ring_queue ?n ?r)" using arg_cong [OF q, of set] by auto
  have "io_safe (plane_set_port plane i ?p') buf"
  proof (rule io_safe_set [OF s])
    show "port_ok i40e_ops buf i ?p'" using ok(1) r by (simp add: port_ok_def)
    show "\<forall>si \<in># port_held ?p'. slot_in buf si" using ok(2) sub by (auto simp: port_held_def)
  qed simp
  moreover have "plane_static plane (plane_set_port plane i ?p')"
    using ring_ok_len [OF r] ring_ok_len [OF pok(2)] by (intro plane_static_set) (simp add: port_static_def)
  moreover have "slot_in buf (pkt_slot_index pkt) \<and> unat (pkt_slot_size pkt) \<le> n \<and>
      pkt_slot_buf pkt = ufp_slot_addr_virt buf (of_int (pkt_slot_index pkt))" if m: "pkt \<in> set (take t pk')" for pkt
  proof -
    obtain k where k: "k < t" "pkt = pk' ! k" using m by (auto simp: in_set_conv_nth)
    let ?at = "ring_at ?n ?r k"
    have at: "unat ?at < length (ring_mem ?r)"
      by (rule ring_at_bound [OF pok(2)])
    obtain e q where f: "i40e_rx_desc_fetch ?r ?at (pk ! k) = Some (e, q)" "0 \<le> e"
        "pkt = q\<lparr>pkt_slot_index := ring_queue ?n ?r ! k, pkt_slot_buf := ufp_slot_addr_virt buf (of_int (ring_queue ?n ?r ! k))\<rparr>"
      using got k by (auto simp: rx_done_def i40e_ops_def split: option.splits)
    have "ring_queue ?n ?r ! k \<in> set (ring_queue ?n ?r)" using k(1) t(2) by (intro nth_mem) simp
    then have "slot_in buf (ring_queue ?n ?r ! k)" using ok(2) by (simp add: port_held_def)
    moreover have "unat (pkt_slot_size q) \<le> n"
      unfolding fetch_rx_length [OF at f(1,2)] using rx at by simp
    ultimately show ?thesis using f(3) by simp
  qed
  moreover have "suffix (ring_queue ?n r) (ring_queue ?n ?r)" by (rule suffixI [OF q])
  then have "rx_drains plane (plane_set_port plane i ?p')" by (intro rx_drains_set) simp
  ultimately show ?thesis using run lpk by (intro exI [of _ "plane_set_port plane i ?p'"] exI [of _ pk'] exI [of _ t]) auto
qed

lemma tx_clean_loop_safe:
  assumes "port_ops p = i40e_ops" "ring_ok (num_tx_desc p) (tx_ring p)" "\<forall>si \<in> set (ring_queue (num_tx_desc p) (tx_ring p)). slot_in buf si"
  shows "\<exists>r buf' t. tx_clean_loop left tot p buf = Some (p\<lparr>tx_ring := r\<rparr>, buf', t) \<and> ring_ok (num_tx_desc p) r \<and>
    set (ring_queue (num_tx_desc p) r) \<subseteq> set (ring_queue (num_tx_desc p) (tx_ring p)) \<and> buf_static buf buf'"
  using assms
proof (induction left arbitrary: tot p buf)
  case 0
  then show ?case by (intro exI [of _ "tx_ring p"] exI [of _ buf]) simp
next
  case (Suc left)
  let ?r = "tx_ring p" and ?n = "num_tx_desc p"
  let ?c = "next_to_clean ?r"
  have stop: ?case if "tx_clean_loop (Suc left) tot p buf = Some (p, buf, tot)"
    using that Suc.prems(2) by (intro exI [of _ ?r] exI [of _ buf]) simp
  show ?case
  proof (cases "?c = next_to_use ?r")
    case False
    have "unat ?c < length (ring_mem ?r)" using Suc.prems(2) by (simp add: ring_ok_def)
    then obtain e where f: "fetch_tx_desc i40e_ops ?r ?c = Some e" using i40e.fetch_tx by blast
    show ?thesis
    proof (cases "e < 0")
      case True
      then show ?thesis using False f Suc.prems(1) by (intro stop) (simp add: Let_def)
    next
      case nn: False
      let ?r1 = "?r\<lparr>next_to_clean := ring_next ?c ?n\<rparr>"
      note pop = ring_pop_head [OF Suc.prems(2) False]
      have mem: "set (ring_queue ?n ?r) = insert (hd (ring_queue ?n ?r)) (set (ring_queue ?n ?r1))"
        by (subst pop(1)) simp
      obtain b1 where b1: "ufp_slot_release buf (hd (ring_queue ?n ?r)) = Some b1" "buf_static buf b1"
        using slot_release_safe Suc.prems(3) mem by blast
      have step: "tx_clean_loop (Suc left) tot p buf = tx_clean_loop left (Suc tot) (p\<lparr>tx_ring := ?r1\<rparr>) b1"
        using False f nn pop(3) b1(1) Suc.prems(1) by (simp add: Let_def)
      have "\<forall>si \<in> set (ring_queue ?n ?r1). slot_in b1 si" using Suc.prems(3) mem b1(2) by simp
      with Suc.IH [of "p\<lparr>tx_ring := ?r1\<rparr>" b1 "Suc tot"] Suc.prems(1) pop(2)
      obtain r buf' t where I: "tx_clean_loop left (Suc tot) (p\<lparr>tx_ring := ?r1\<rparr>) b1 = Some (p\<lparr>tx_ring := r\<rparr>, buf', t)"
          "ring_ok ?n r" "set (ring_queue ?n r) \<subseteq> set (ring_queue ?n ?r1)" "buf_static b1 buf'" by auto
      then show ?thesis unfolding step using mem buf_static_trans [OF b1(2) I(4)] by blast
    qed
  qed (intro stop, simp add: Let_def)
qed

lemma tx_clean_safe:
  assumes s: "io_safe plane buf" and i: "i < length (ports plane)"
  shows "\<exists>plane' buf'. ufp_tx_clean plane i buf = Some (plane', buf') \<and>
    io_safe plane' buf' \<and> plane_static plane plane' \<and> buf_static buf buf'"
proof -
  let ?p = "ports plane ! i"
  note ok = io_safe_portD [OF s i]
  have port: "plane_port plane i = Some ?p" using i by (simp add: plane_port_def)
  have pok: "port_ops ?p = i40e_ops" "ring_ok (num_tx_desc ?p) (tx_ring ?p)"
      "\<forall>si \<in> set (ring_queue (num_tx_desc ?p) (tx_ring ?p)). slot_in buf si"
    using ok by (auto simp: port_ok_def port_held_def)
  obtain r buf' t where L: "tx_clean_loop (unat (tx_budget ?p)) 0 ?p buf = Some (?p\<lparr>tx_ring := r\<rparr>, buf', t)" "ring_ok (num_tx_desc ?p) r"
      "set (ring_queue (num_tx_desc ?p) r) \<subseteq> set (ring_queue (num_tx_desc ?p) (tx_ring ?p))" "buf_static buf buf'"
    using tx_clean_loop_safe [OF pok] by blast
  let ?p' = "?p\<lparr>tx_ring := r, count_tx_clean_total := count_tx_clean_total ?p + of_nat t\<rparr>"
  have "io_safe (plane_set_port plane i ?p') buf'"
  proof (rule io_safe_set [OF s L(4)])
    show "port_ok i40e_ops buf i ?p'" using ok(1) L(2) by (simp add: port_ok_def)
    show "\<forall>si \<in># port_held ?p'. slot_in buf si" using ok(2) L(3) by (auto simp: port_held_def)
  qed
  moreover have "plane_static plane (plane_set_port plane i ?p')"
    using ring_ok_len [OF L(2)] ring_ok_len [OF pok(2)] by (intro plane_static_set) (simp add: port_static_def)
  ultimately show ?thesis using L(1,4) port by (simp add: ufp_tx_clean_def)
qed

end
