(* ===== verification/Epoll.thy ===== *)
theory Epoll
  imports Ufp_Os Ufp_Io "HOL-Library.Sublist"
begin

text \<open>
  The descriptors that a forwarding thread waits on, \<open>src/epoll.c\<close>, and the set it makes of them,
  \<open>thread_fd_prepare\<close> and \<open>thread_fd_destroy\<close> of \<open>src/thread.c\<close>. A result of \<open>None\<close> is an access
  outside of the ports of the plane or giving back what is not held.
\<close>

subsection \<open>Descriptors\<close>

definition EPOLL_MAXEVENTS :: nat where "EPOLL_MAXEVENTS = 16"

datatype epoll_type = EPOLL_IRQ_RX | EPOLL_IRQ_TX | EPOLL_TUN | EPOLL_SIGNAL | EPOLL_NETLINK

text \<open>\<open>ep_ptr\<close> is the memory of the structure; \<open>ep_data\<close> is set for interrupts only, the port also for the tap device.\<close>

record epoll_desc =
  ep_ptr :: nat
  ep_fd :: int
  ep_type :: epoll_type
  ep_port_index :: nat
  ep_data :: "ufp_irq option"

definition epoll_add :: "int \<Rightarrow> int \<Rightarrow> os \<Rightarrow> int \<times> os" where
  "epoll_add fd_ep fd s = (case os_ioctl fd_ep s of (ret, s) \<Rightarrow> (if ret < 0 then -1 else 0, s))"

definition epoll_del :: "int \<Rightarrow> int \<Rightarrow> os \<Rightarrow> int \<times> os" where
  "epoll_del fd_ep fd s = (case os_ioctl fd_ep s of (ret, s) \<Rightarrow> (if ret < 0 then -1 else 0, s))"

definition epoll_desc_alloc_irq ::
  "'d ufp_plane \<Rightarrow> nat \<Rightarrow> ufp_irq_type \<Rightarrow> os \<Rightarrow> (epoll_desc option \<times> os) option" where
  "epoll_desc_alloc_irq plane port_index type s =
     (case os_get Heap s of
        (None, s) \<Rightarrow> Some (None, s)
      | (Some ptr, s) \<Rightarrow> do {
          let ep_type = (case type of UFP_IRQ_RX \<Rightarrow> EPOLL_IRQ_RX | UFP_IRQ_TX \<Rightarrow> EPOLL_IRQ_TX);
          fd \<leftarrow> ufp_irq_fd plane port_index type;
          irq \<leftarrow> ufp_irq_of plane port_index type;
          Some (Some \<lparr>ep_ptr = ptr, ep_fd = fd, ep_type = ep_type, ep_port_index = port_index, ep_data = Some irq\<rparr>, s) })"

definition epoll_desc_release_irq :: "epoll_desc \<Rightarrow> os \<Rightarrow> os option" where
  "epoll_desc_release_irq ep_desc s = os_put (Heap (ep_ptr ep_desc)) s"

definition epoll_desc_alloc_signalfd :: "os \<Rightarrow> (epoll_desc option \<times> os) option" where
  "epoll_desc_alloc_signalfd s =
     (case os_get Heap s of
        (None, s) \<Rightarrow> Some (None, s)
      | (Some ptr, s) \<Rightarrow> do {
          let (fd, s) = os_open s;
          if fd < 0 then do { s \<leftarrow> os_put (Heap ptr) s; Some (None, s) }
          else Some (Some \<lparr>ep_ptr = ptr, ep_fd = fd, ep_type = EPOLL_SIGNAL, ep_port_index = 0, ep_data = None\<rparr>, s) })"

definition epoll_desc_release_signalfd :: "epoll_desc \<Rightarrow> os \<Rightarrow> os option" where
  "epoll_desc_release_signalfd ep_desc s = do { s \<leftarrow> os_close (ep_fd ep_desc) s; os_put (Heap (ep_ptr ep_desc)) s }"

definition epoll_desc_alloc_tun :: "'d ufp_plane \<Rightarrow> nat \<Rightarrow> os \<Rightarrow> (epoll_desc option \<times> os) option" where
  "epoll_desc_alloc_tun plane port_index s =
     (case os_get Heap s of
        (None, s) \<Rightarrow> Some (None, s)
      | (Some ptr, s) \<Rightarrow> do {
          fd \<leftarrow> ufp_tun_fd plane port_index;
          Some (Some \<lparr>ep_ptr = ptr, ep_fd = fd, ep_type = EPOLL_TUN, ep_port_index = port_index, ep_data = None\<rparr>, s) })"

definition epoll_desc_release_tun :: "epoll_desc \<Rightarrow> os \<Rightarrow> os option" where
  "epoll_desc_release_tun ep_desc s = os_put (Heap (ep_ptr ep_desc)) s"

definition epoll_desc_alloc_netlink :: "os \<Rightarrow> (epoll_desc option \<times> os) option" where
  "epoll_desc_alloc_netlink s =
     (case os_get Heap s of
        (None, s) \<Rightarrow> Some (None, s)
      | (Some ptr, s) \<Rightarrow> do {
          let (fd, s) = os_open s;
          if fd < 0 then do { s \<leftarrow> os_put (Heap ptr) s; Some (None, s) }
          else do {
            let (ret, s) = os_ioctl fd s;
            if ret < 0 then do { s \<leftarrow> os_close fd s; s \<leftarrow> os_put (Heap ptr) s; Some (None, s) }
            else Some (Some \<lparr>ep_ptr = ptr, ep_fd = fd, ep_type = EPOLL_NETLINK, ep_port_index = 0, ep_data = None\<rparr>, s) } })"

definition epoll_desc_release_netlink :: "epoll_desc \<Rightarrow> os \<Rightarrow> os option" where
  "epoll_desc_release_netlink ep_desc s = do { s \<leftarrow> os_close (ep_fd ep_desc) s; os_put (Heap (ep_ptr ep_desc)) s }"

subsection \<open>The set of descriptors of a thread\<close>

text \<open>The \<open>switch\<close> of \<open>thread_fd_destroy\<close> has no case for \<open>EPOLL_NETLINK\<close>.\<close>

definition fd_release :: "epoll_desc \<Rightarrow> os \<Rightarrow> os option" where
  "fd_release ep_desc s =
     (case ep_type ep_desc of
        EPOLL_IRQ_RX \<Rightarrow> epoll_desc_release_irq ep_desc s
      | EPOLL_IRQ_TX \<Rightarrow> epoll_desc_release_irq ep_desc s
      | EPOLL_SIGNAL \<Rightarrow> epoll_desc_release_signalfd ep_desc s
      | EPOLL_TUN \<Rightarrow> epoll_desc_release_tun ep_desc s
      | _ \<Rightarrow> Some s)"

fun fd_release_all :: "int \<Rightarrow> epoll_desc list \<Rightarrow> os \<Rightarrow> os option" where
  "fd_release_all fd_ep [] s = Some s"
| "fd_release_all fd_ep (ep_desc # eps) s =
     do { let (ret, s) = epoll_del fd_ep (ep_fd ep_desc) s;
          s \<leftarrow> fd_release ep_desc s;
          fd_release_all fd_ep eps s }"

definition thread_fd_destroy :: "epoll_desc list \<Rightarrow> int \<Rightarrow> os \<Rightarrow> os option" where
  "thread_fd_destroy eps fd_ep s = do { s \<leftarrow> fd_release_all fd_ep eps s; os_close fd_ep s }"

text \<open>
  One registration: the structure goes to the end of the list, then to the set. The result says whether
  to go on.
\<close>

definition fd_register ::
  "int \<Rightarrow> (os \<Rightarrow> (epoll_desc option \<times> os) option) \<Rightarrow> epoll_desc list \<times> os \<Rightarrow> (bool \<times> epoll_desc list \<times> os) option" where
  "fd_register fd_ep alloc es =
     (case es of (eps, s) \<Rightarrow> do {
        (ep_desc, s) \<leftarrow> alloc s;
        case ep_desc of
          None \<Rightarrow> Some (False, eps, s)
        | Some ep_desc \<Rightarrow> do {
            let eps = eps @ [ep_desc];
            let (ret, s) = epoll_add fd_ep (ep_fd ep_desc) s;
            Some (\<not> ret < 0, eps, s) } })"

fun fd_register_all ::
  "int \<Rightarrow> (os \<Rightarrow> (epoll_desc option \<times> os) option) list \<Rightarrow> epoll_desc list \<times> os \<Rightarrow> (bool \<times> epoll_desc list \<times> os) option" where
  "fd_register_all fd_ep [] es = Some (True, es)"
| "fd_register_all fd_ep (a # as) es =
     do { (go, es) \<leftarrow> fd_register fd_ep a es;
          if go then fd_register_all fd_ep as es else Some (False, es) }"

text \<open>The registrations in their order: three for each port, then the signals and the kernel's messages.\<close>

definition fd_allocs :: "'d ufp_plane \<Rightarrow> nat \<Rightarrow> (os \<Rightarrow> (epoll_desc option \<times> os) option) list" where
  "fd_allocs plane n =
     concat (map (\<lambda>i. [epoll_desc_alloc_irq plane i UFP_IRQ_RX, epoll_desc_alloc_irq plane i UFP_IRQ_TX, epoll_desc_alloc_tun plane i]) [0..<n]) @
     [epoll_desc_alloc_signalfd, epoll_desc_alloc_netlink]"

definition thread_fd_prepare :: "'d ufp_plane \<Rightarrow> u32 \<Rightarrow> os \<Rightarrow> (int \<times> epoll_desc list \<times> os) option" where
  "thread_fd_prepare plane n s =
     do { let (fd_ep, s) = os_open s;
          if fd_ep < 0 then Some (-1, [], s)
          else do {
            (go, eps, s) \<leftarrow> fd_register_all fd_ep (fd_allocs plane (unat n)) ([], s);
            if go then Some (fd_ep, eps, s)
            else do { s \<leftarrow> thread_fd_destroy eps fd_ep s; Some (-1, [], s) } } }"

subsection \<open>What the set holds\<close>

text \<open>The resources of a descriptor: its memory, and its own descriptor if it opened one.\<close>

definition ep_res :: "epoll_desc \<Rightarrow> res multiset" where
  "ep_res e = add_mset (Heap (ep_ptr e)) (if ep_type e = EPOLL_SIGNAL \<or> ep_type e = EPOLL_NETLINK then fd_res (ep_fd e) else {#})"

definition eps_res :: "epoll_desc list \<Rightarrow> res multiset" where
  "eps_res eps = sum_list (map ep_res eps)"

text \<open>What is left of it when the set is destroyed.\<close>

definition eps_left :: "epoll_desc list \<Rightarrow> res multiset" where
  "eps_left eps = sum_list (map ep_res (filter (\<lambda>e. ep_type e = EPOLL_NETLINK) eps))"

lemma fd_release_spec:
  assumes "holds s0 (ep_res e + R) s"
  shows "\<exists>s'. fd_release e s = Some s' \<and> holds s0 ((if ep_type e = EPOLL_NETLINK then ep_res e else {#}) + R) s'"
proof -
  have put: "\<exists>s'. os_put (Heap (ep_ptr e)) s1 = Some s' \<and> holds s0 R s'" if "holds s0 (add_mset (Heap (ep_ptr e)) R) s1" for s1
    by (rule os_put_holds [OF that])
  have sig: "\<exists>s'. epoll_desc_release_signalfd e s = Some s' \<and> holds s0 R s'" if "ep_type e = EPOLL_SIGNAL"
  proof -
    have "holds s0 (fd_res (ep_fd e) + add_mset (Heap (ep_ptr e)) R) s" using assms that by (simp add: ep_res_def add.commute)
    from os_close_holds [OF this] obtain s1 where "os_close (ep_fd e) s = Some s1" "holds s0 (add_mset (Heap (ep_ptr e)) R) s1" by blast
    with put show ?thesis by (simp add: epoll_desc_release_signalfd_def)
  qed
  show ?thesis
    using assms put sig
    by (cases "ep_type e") (simp_all add: fd_release_def ep_res_def epoll_desc_release_irq_def epoll_desc_release_tun_def)
qed

lemma fd_release_all_spec:
  "holds s0 (eps_res eps + R) s \<Longrightarrow> \<exists>s'. fd_release_all fd_ep eps s = Some s' \<and> holds s0 (eps_left eps + R) s'"
proof (induction eps arbitrary: s R)
  case (Cons e eps)
  obtain ret s1 where d: "epoll_del fd_ep (ep_fd e) s = (ret, s1)" by (cases "epoll_del fd_ep (ep_fd e) s")
  then have "holds s {#} s1" by (auto simp: epoll_del_def split: prod.splits dest: os_ioctl_holds)
  then have "holds s0 (ep_res e + (eps_res eps + R)) s1"
    using holds_trans [OF Cons.prems, of "{#}" s1] by (simp add: eps_res_def add.assoc)
  from fd_release_spec [OF this] obtain s2 where s2: "fd_release e s1 = Some s2"
      "holds s0 (eps_res eps + ((if ep_type e = EPOLL_NETLINK then ep_res e else {#}) + R)) s2"
    by (auto simp: add.left_commute)
  from Cons.IH [OF s2(2)] d s2(1) show ?case
    by (cases "ep_type e = EPOLL_NETLINK") (auto simp: eps_left_def add.assoc add.left_commute)
qed (simp add: eps_left_def eps_res_def)

lemma thread_fd_destroy_spec:
  assumes "holds s0 (fd_res fd_ep + eps_res eps + R) s"
  shows "\<exists>s'. thread_fd_destroy eps fd_ep s = Some s' \<and> holds s0 (eps_left eps + R) s'"
proof -
  have "holds s0 (eps_res eps + (fd_res fd_ep + R)) s" using assms by (simp add: ac_simps)
  from fd_release_all_spec [OF this, of fd_ep] obtain s1 where s1: "fd_release_all fd_ep eps s = Some s1"
      "holds s0 (fd_res fd_ep + (eps_left eps + R)) s1" by (auto simp: ac_simps)
  from os_close_holds [OF s1(2)] s1(1) show ?thesis by (auto simp: thread_fd_destroy_def)
qed

text \<open>What the constructors of descriptors have in common.\<close>

definition ep_alloc_ok :: "epoll_type \<Rightarrow> (os \<Rightarrow> (epoll_desc option \<times> os) option) \<Rightarrow> bool" where
  "ep_alloc_ok ty alloc \<longleftrightarrow> (\<forall>s. \<exists>r s'. alloc s = Some (r, s') \<and>
     (case r of None \<Rightarrow> holds s {#} s' | Some e \<Rightarrow> holds s (ep_res e) s' \<and> ep_type e = ty))"

lemma ep_alloc_port:
  assumes "i < length (ports plane)"
  shows "ep_alloc_ok (case t of UFP_IRQ_RX \<Rightarrow> EPOLL_IRQ_RX | UFP_IRQ_TX \<Rightarrow> EPOLL_IRQ_TX) (epoll_desc_alloc_irq plane i t)"
    "ep_alloc_ok EPOLL_TUN (epoll_desc_alloc_tun plane i)"
proof -
  have p: "plane_port plane i = Some (ports plane ! i)" using assms by (simp add: plane_port_def)
  show "ep_alloc_ok (case t of UFP_IRQ_RX \<Rightarrow> EPOLL_IRQ_RX | UFP_IRQ_TX \<Rightarrow> EPOLL_IRQ_TX) (epoll_desc_alloc_irq plane i t)"
    unfolding ep_alloc_ok_def
  proof
    fix s
    obtain r s1 where g: "os_get Heap s = (r, s1)" by (cases "os_get Heap s")
    show "\<exists>r s'. epoll_desc_alloc_irq plane i t s = Some (r, s') \<and> (case r of None \<Rightarrow> holds s {#} s'
      | Some e \<Rightarrow> holds s (ep_res e) s' \<and> ep_type e = (case t of UFP_IRQ_RX \<Rightarrow> EPOLL_IRQ_RX | UFP_IRQ_TX \<Rightarrow> EPOLL_IRQ_TX))"
      using os_get_holds [OF g] g
      by (cases r; cases t) (simp_all add: epoll_desc_alloc_irq_def ufp_irq_fd_def ufp_irq_of_def p ep_res_def)
  qed
  show "ep_alloc_ok EPOLL_TUN (epoll_desc_alloc_tun plane i)"
    unfolding ep_alloc_ok_def
  proof
    fix s
    obtain r s1 where g: "os_get Heap s = (r, s1)" by (cases "os_get Heap s")
    show "\<exists>r s'. epoll_desc_alloc_tun plane i s = Some (r, s') \<and> (case r of None \<Rightarrow> holds s {#} s'
      | Some e \<Rightarrow> holds s (ep_res e) s' \<and> ep_type e = EPOLL_TUN)"
      using os_get_holds [OF g] g
      by (cases r) (simp_all add: epoll_desc_alloc_tun_def ufp_tun_fd_def p ep_res_def)
  qed
qed

lemma ep_alloc_signalfd: "ep_alloc_ok EPOLL_SIGNAL epoll_desc_alloc_signalfd"
  unfolding ep_alloc_ok_def
proof
  fix s
  obtain r s1 where g: "os_get Heap s = (r, s1)" by (cases "os_get Heap s")
  show "\<exists>r s'. epoll_desc_alloc_signalfd s = Some (r, s') \<and> (case r of None \<Rightarrow> holds s {#} s'
    | Some e \<Rightarrow> holds s (ep_res e) s' \<and> ep_type e = EPOLL_SIGNAL)"
  proof (cases r)
    case (Some p)
    obtain fd s2 where o: "os_open s1 = (fd, s2)" by (cases "os_open s1")
    have h: "holds s (add_mset (Heap p) (fd_res fd)) s2"
      using holds_trans [OF os_get_holds [OF g] os_open_holds [OF o]] Some by simp
    show ?thesis
      using g o Some h os_put_holds [OF h] by (auto simp: epoll_desc_alloc_signalfd_def ep_res_def fd_res_def split: if_splits)
  qed (use g os_get_holds [OF g] in \<open>simp add: epoll_desc_alloc_signalfd_def\<close>)
qed

lemma ep_alloc_netlink: "ep_alloc_ok EPOLL_NETLINK epoll_desc_alloc_netlink"
  unfolding ep_alloc_ok_def
proof
  fix s
  obtain r s1 where g: "os_get Heap s = (r, s1)" by (cases "os_get Heap s")
  show "\<exists>r s'. epoll_desc_alloc_netlink s = Some (r, s') \<and> (case r of None \<Rightarrow> holds s {#} s'
    | Some e \<Rightarrow> holds s (ep_res e) s' \<and> ep_type e = EPOLL_NETLINK)"
  proof (cases r)
    case (Some p)
    obtain fd s2 where o: "os_open s1 = (fd, s2)" by (cases "os_open s1")
    obtain ret s3 where b: "os_ioctl fd s2 = (ret, s3)" by (cases "os_ioctl fd s2")
    have h: "holds s (add_mset (Heap p) (fd_res fd)) s2"
      using holds_trans [OF os_get_holds [OF g] os_open_holds [OF o]] Some by simp
    then have h3: "holds s (fd_res fd + {#Heap p#}) s3" using holds_trans [OF h os_ioctl_holds [OF b]] by simp
    from os_close_holds [OF this] obtain s4 where c: "os_close fd s3 = Some s4" "holds s {#Heap p#} s4" by blast
    show ?thesis
      using g o b c Some h h3 os_put_holds [OF h] os_put_holds [OF c(2)]
      by (auto simp: epoll_desc_alloc_netlink_def ep_res_def fd_res_def split: if_splits)
  qed (use g os_get_holds [OF g] in \<open>simp add: epoll_desc_alloc_netlink_def\<close>)
qed


lemma fd_register_all_spec:
  assumes "list_all2 ep_alloc_ok tys as" "holds s0 (eps_res eps) s"
  shows "\<exists>go eps' s'. fd_register_all fd_ep as (eps, s) = Some (go, eps @ eps', s') \<and> holds s0 (eps_res (eps @ eps')) s' \<and>
    (if go then map ep_type eps' = tys else prefix (map ep_type eps') tys)"
  using assms
proof (induction tys as arbitrary: eps s rule: list_all2_induct)
  case (Cons ty tys' a as)
  obtain r s1 where r: "a s = Some (r, s1)"
      "case r of None \<Rightarrow> holds s {#} s1 | Some e \<Rightarrow> holds s (ep_res e) s1 \<and> ep_type e = ty"
    using Cons.hyps(1) unfolding ep_alloc_ok_def by blast
  show ?case
  proof (cases r)
    case None
    then have "holds s0 (eps_res eps) s1" using holds_trans [OF Cons.prems, of "{#}" s1] r(2) by simp
    then show ?thesis using r(1) None by (intro exI [of _ False] exI [of _ "[]"] exI [of _ s1]) (simp add: fd_register_def)
  next
    case (Some e)
    obtain ret s2 where d: "epoll_add fd_ep (ep_fd e) s1 = (ret, s2)" by (cases "epoll_add fd_ep (ep_fd e) s1")
    then have "holds s1 {#} s2" by (auto simp: epoll_add_def split: prod.splits dest: os_ioctl_holds)
    with r(2) Some have e: "holds s (ep_res e) s2" "ep_type e = ty" using holds_trans [of s "ep_res e" s1 "{#}" s2] by auto
    have h: "holds s0 (eps_res (eps @ [e])) s2" using holds_trans [OF Cons.prems e(1)] by (simp add: eps_res_def)
    have reg: "fd_register fd_ep a (eps, s) = Some (\<not> ret < 0, eps @ [e], s2)" using r(1) Some d by (simp add: fd_register_def)
    show ?thesis
    proof (cases "ret < 0")
      case True
      then show ?thesis using reg h e(2) by (intro exI [of _ False] exI [of _ "[e]"] exI [of _ s2]) simp
    next
      case False
      from Cons.IH [OF h] obtain go eps' s' where
        "fd_register_all fd_ep as (eps @ [e], s2) = Some (go, (eps @ [e]) @ eps', s')" "holds s0 (eps_res ((eps @ [e]) @ eps')) s'"
        "if go then map ep_type eps' = tys' else prefix (map ep_type eps') tys'" by blast
      then show ?thesis using reg False e(2) by (intro exI [of _ go] exI [of _ "e # eps'"] exI [of _ s']) (simp split: if_splits)
    qed
  qed
qed auto

definition fd_types :: "nat \<Rightarrow> epoll_type list" where
  "fd_types n = concat (replicate n [EPOLL_IRQ_RX, EPOLL_IRQ_TX, EPOLL_TUN]) @ [EPOLL_SIGNAL, EPOLL_NETLINK]"

lemma fd_types_ok:
  assumes "n \<le> length (ports plane)"
  shows "list_all2 ep_alloc_ok (fd_types n) (fd_allocs plane n)"
proof -
  have "list_all2 ep_alloc_ok (concat (replicate n [EPOLL_IRQ_RX, EPOLL_IRQ_TX, EPOLL_TUN]))
      (concat (map (\<lambda>i. [epoll_desc_alloc_irq plane i UFP_IRQ_RX, epoll_desc_alloc_irq plane i UFP_IRQ_TX, epoll_desc_alloc_tun plane i]) [0..<n]))"
    using assms
  proof (induction n)
    case (Suc n)
    have "list_all2 ep_alloc_ok [EPOLL_IRQ_RX, EPOLL_IRQ_TX, EPOLL_TUN]
        [epoll_desc_alloc_irq plane n UFP_IRQ_RX, epoll_desc_alloc_irq plane n UFP_IRQ_TX, epoll_desc_alloc_tun plane n]"
      using ep_alloc_port [of n plane] ep_alloc_port(1) [of n plane UFP_IRQ_RX] ep_alloc_port(1) [of n plane UFP_IRQ_TX] Suc.prems by simp
    with Suc show ?case
      unfolding replicate_Suc replicate_append_same [symmetric] upt_Suc_append [OF le0] map_append concat_append
      by (intro list_all2_appendI) simp_all
  qed simp
  then show ?thesis
    unfolding fd_types_def fd_allocs_def using ep_alloc_signalfd ep_alloc_netlink by (intro list_all2_appendI) simp_all
qed

lemma fd_types_netlink: "filter (\<lambda>t. t = EPOLL_NETLINK) (fd_types n) = [EPOLL_NETLINK]"
  by (induction n) (simp_all add: fd_types_def)

text \<open>The memory and the socket of the kernel's messages.\<close>

definition netlink_res :: "res multiset \<Rightarrow> bool" where
  "netlink_res L \<longleftrightarrow> (\<exists>p fd. L = add_mset (Heap p) (fd_res fd))"

lemma filter_map_ep: "map ep_type (filter (\<lambda>e. ep_type e = t) eps) = filter (\<lambda>x. x = t) (map ep_type eps)"
  by (induction eps) simp_all

lemma eps_left_one:
  assumes "filter (\<lambda>x. x = EPOLL_NETLINK) (map ep_type eps) = [EPOLL_NETLINK]"
  shows "netlink_res (eps_left eps)"
proof -
  have "map ep_type (filter (\<lambda>e. ep_type e = EPOLL_NETLINK) eps) = [EPOLL_NETLINK]" using assms by (simp only: filter_map_ep)
  then obtain e where "filter (\<lambda>e. ep_type e = EPOLL_NETLINK) eps = [e]" "ep_type e = EPOLL_NETLINK" by auto
  then show ?thesis by (auto simp: eps_left_def ep_res_def netlink_res_def)
qed

lemma eps_left_prefix:
  assumes "prefix (map ep_type eps) (fd_types n)"
  shows "eps_left eps = {#} \<or> netlink_res (eps_left eps)"
proof -
  let ?f = "filter (\<lambda>x. x = EPOLL_NETLINK)"
  have "prefix (?f (map ep_type eps)) (?f (fd_types n))" using assms by (auto simp: prefix_def)
  then have "?f (map ep_type eps) = [] \<or> ?f (map ep_type eps) = [EPOLL_NETLINK]"
    unfolding fd_types_netlink by (auto simp: prefix_Cons)
  moreover have "eps_left eps = {#}" if "?f (map ep_type eps) = []"
  proof -
    have "filter (\<lambda>e. ep_type e = EPOLL_NETLINK) eps = []" using that by (simp add: filter_map_ep [symmetric])
    then show ?thesis by (simp add: eps_left_def)
  qed
  ultimately show ?thesis using eps_left_one by blast
qed

lemma thread_fd_prepare_spec:
  assumes n: "unat n \<le> length (ports plane)"
  shows "\<exists>fd_ep eps s'. thread_fd_prepare plane n s = Some (fd_ep, eps, s') \<and>
    (if fd_ep < 0 then \<exists>L. (L = {#} \<or> netlink_res L) \<and> holds s L s'
     else map ep_type eps = fd_types (unat n) \<and> holds s (fd_res fd_ep + eps_res eps) s')"
proof -
  obtain fd_ep s1 where o: "os_open s = (fd_ep, s1)" by (cases "os_open s")
  note h1 = os_open_holds [OF o]
  show ?thesis
  proof (cases "fd_ep < 0")
    case True
    then show ?thesis using o h1 by (auto simp: thread_fd_prepare_def fd_res_def)
  next
    case False
    obtain go eps s2 where g: "fd_register_all fd_ep (fd_allocs plane (unat n)) ([], s1) = Some (go, eps, s2)"
        "holds s1 (eps_res eps) s2" "if go then map ep_type eps = fd_types (unat n) else prefix (map ep_type eps) (fd_types (unat n))"
      using fd_register_all_spec [OF fd_types_ok [OF n], of s1 "[]" s1 fd_ep] by (auto simp: eps_res_def)
    have h2: "holds s (fd_res fd_ep + eps_res eps) s2" by (rule holds_trans [OF h1 g(2)])
    show ?thesis
    proof (cases go)
      case True
      then show ?thesis using o False g h2 by (simp add: thread_fd_prepare_def)
    next
      case False': False
      have "holds s (fd_res fd_ep + eps_res eps + {#}) s2" using h2 by simp
      from thread_fd_destroy_spec [OF this] obtain s3 where "thread_fd_destroy eps fd_ep s2 = Some s3" "holds s (eps_left eps) s3" by auto
      then show ?thesis using o False g(1,3) False' eps_left_prefix [of eps "unat n"] by (auto simp: thread_fd_prepare_def)
    qed
  qed
qed

end
