(* ===== verification/Thread.thy ===== *)
theory Thread
  imports Netlink_Safe Forward_Slots Io_Safe Epoll
begin

text \<open>
  A forwarding thread, \<open>src/thread.c\<close>: it builds its tables, registers its descriptors, posts the first
  receive buffers, handles events until a signal comes or an error occurs, and gives
  everything back.

  What happens outside of the thread is data: an event carries what the devices have written to the
  rings and the buffer before it is handled, and what \<open>read\<close> gives (nothing for an error). The calls of
  \<open>epoll_wait\<close> are a list of their events, \<open>None\<close> for one that fails; the call after the last one fails.
\<close>

subsection \<open>The devices\<close>

record device =
  dv_rx :: "i40e_desc list list"
  dv_tx :: "i40e_desc list list"
  dv_mem :: "addr \<Rightarrow> u8 list"

fun device_ports :: "i40e_desc ufp_port list \<Rightarrow> i40e_desc list list \<Rightarrow> i40e_desc list list \<Rightarrow> i40e_desc ufp_port list" where
  "device_ports (p # ps) (rx # rxs) (tx # txs) = device_tx (device_rx p rx) tx # device_ports ps rxs txs"
| "device_ports ps _ _ = ps"

definition device_write :: "device \<Rightarrow> ufpd_thread \<Rightarrow> ufpd_thread" where
  "device_write dv thread =
     thread\<lparr>th_plane := (th_plane thread)\<lparr>ports := device_ports (ports (th_plane thread)) (dv_rx dv) (dv_tx dv)\<rparr>,
       th_mem := dv_mem dv\<rparr>"

record event =
  ev_desc :: epoll_desc
  ev_device :: device
  ev_read :: "u8 list option"

subsection \<open>Events\<close>

definition UFPD_RX_BUDGET :: nat where "UFPD_RX_BUDGET = 1024"

text \<open>\<open>read\<close> of at most \<open>thread->read_size\<close> bytes into \<open>thread->read_buf\<close>.\<close>

definition thread_read :: "ufpd_thread \<Rightarrow> u8 list option \<Rightarrow> u8 list option" where
  "thread_read thread r = map_option (take (th_read_size thread)) r"

fun tx_xmit_loop :: "nat \<Rightarrow> nat \<Rightarrow> ufpd_thread \<Rightarrow> ufpd_thread option" where
  "tx_xmit_loop i 0 thread = Some thread"
| "tx_xmit_loop i (Suc left) thread =
     do { (plane, w) \<leftarrow> ufp_tx_xmit (th_plane thread) i;
          tx_xmit_loop (i + 1) left (thread\<lparr>th_plane := plane, th_mmio := th_mmio thread @ w\<rparr>) }"

fun rx_assign_ports :: "nat \<Rightarrow> nat \<Rightarrow> ufpd_thread \<Rightarrow> ufpd_thread option" where
  "rx_assign_ports i 0 thread = Some thread"
| "rx_assign_ports i (Suc left) thread =
     do { (plane, buf, w) \<leftarrow> ufp_rx_assign (th_plane thread) i (th_buf thread);
          rx_assign_ports (i + 1) left (thread\<lparr>th_plane := plane, th_buf := buf, th_mmio := th_mmio thread @ w\<rparr>) }"

text \<open>The end of the two interrupt handlers: the event counter is read and the interrupt enabled again.\<close>

definition irq_finish :: "ufpd_thread \<Rightarrow> epoll_desc \<Rightarrow> u8 list option \<Rightarrow> (int \<times> ufpd_thread) option" where
  "irq_finish thread ep_desc r =
     (case thread_read thread r of
        None \<Rightarrow> Some (-1, thread)
      | Some bs \<Rightarrow> do {
          irq \<leftarrow> ep_data ep_desc;
          w \<leftarrow> ufp_irq_unmask_queues (th_plane thread) (ep_port_index ep_desc) irq;
          Some (0, thread\<lparr>th_mmio := th_mmio thread @ w\<rparr>) })"

definition thread_process_irq_rx ::
  "ufpd_thread \<Rightarrow> epoll_desc \<Rightarrow> ufp_packet list \<Rightarrow> u8 list option \<Rightarrow> (int \<times> ufpd_thread \<times> ufp_packet list) option" where
  "thread_process_irq_rx thread ep_desc packet r =
     do { let port_index = ep_port_index ep_desc;
          (plane, packet, ret) \<leftarrow> ufp_rx_clean (th_plane thread) port_index (th_buf thread) packet;
          thread \<leftarrow> forward_process (thread\<lparr>th_plane := plane\<rparr>) port_index (take ret packet);
          thread \<leftarrow> tx_xmit_loop 0 (unat (th_num_ports thread)) thread;
          (ret, thread) \<leftarrow> irq_finish thread ep_desc r;
          Some (ret, thread, packet) }"

definition thread_process_irq_tx :: "ufpd_thread \<Rightarrow> epoll_desc \<Rightarrow> u8 list option \<Rightarrow> (int \<times> ufpd_thread) option" where
  "thread_process_irq_tx thread ep_desc r =
     do { let port_index = ep_port_index ep_desc;
          (plane, buf) \<leftarrow> ufp_tx_clean (th_plane thread) port_index (th_buf thread);
          thread \<leftarrow> rx_assign_ports 0 (unat (th_num_ports thread)) (thread\<lparr>th_plane := plane, th_buf := buf\<rparr>);
          irq_finish thread ep_desc r }"

definition thread_process_tun :: "ufpd_thread \<Rightarrow> epoll_desc \<Rightarrow> u8 list option \<Rightarrow> (int \<times> ufpd_thread) option" where
  "thread_process_tun thread ep_desc r =
     (case thread_read thread r of
        None \<Rightarrow> Some (-1, thread)
      | Some bs \<Rightarrow> do {
          thread \<leftarrow> forward_process_tun thread (ep_port_index ep_desc) bs;
          thread \<leftarrow> tx_xmit_loop 0 (unat (th_num_ports thread)) thread;
          Some (0, thread) })"

definition thread_process_netlink :: "ufpd_thread \<Rightarrow> u8 list option \<Rightarrow> (int \<times> ufpd_thread) option" where
  "thread_process_netlink thread r =
     (case thread_read thread r of
        None \<Rightarrow> Some (-1, thread)
      | Some bs \<Rightarrow> do { thread \<leftarrow> netlink_process thread bs (int (length bs)); Some (0, thread) })"

definition thread_process_signal :: "ufpd_thread \<Rightarrow> u8 list option \<Rightarrow> int" where
  "thread_process_signal thread r = (case thread_read thread r of None \<Rightarrow> -1 | Some bs \<Rightarrow> 0)"

subsection \<open>The loop\<close>

text \<open>What to do after an event: go on, leave by \<open>out\<close>, or leave by \<open>err_process\<close>.\<close>

datatype ctl = Go | Out | Err

definition ctl_of :: "int \<Rightarrow> ctl" where
  "ctl_of err = (if err < 0 then Err else Go)"

definition thread_event :: "ufpd_thread \<Rightarrow> ufp_packet list \<Rightarrow> event \<Rightarrow> (ctl \<times> ufpd_thread \<times> ufp_packet list) option" where
  "thread_event thread packet ev =
     (let thread = device_write (ev_device ev) thread; ep_desc = ev_desc ev in
      case ep_type ep_desc of
        EPOLL_IRQ_RX \<Rightarrow> do {
          (err, thread, packet) \<leftarrow> thread_process_irq_rx thread ep_desc packet (ev_read ev);
          Some (ctl_of err, thread, packet) }
      | EPOLL_IRQ_TX \<Rightarrow> do {
          (err, thread) \<leftarrow> thread_process_irq_tx thread ep_desc (ev_read ev);
          Some (ctl_of err, thread, packet) }
      | EPOLL_TUN \<Rightarrow> do {
          (err, thread) \<leftarrow> thread_process_tun thread ep_desc (ev_read ev);
          Some (ctl_of err, thread, packet) }
      | EPOLL_NETLINK \<Rightarrow> do {
          (err, thread) \<leftarrow> thread_process_netlink thread (ev_read ev);
          Some (ctl_of err, thread, packet) }
      | EPOLL_SIGNAL \<Rightarrow>
          Some (if thread_process_signal thread (ev_read ev) < 0 then Err else Out, thread, packet))"

fun thread_events ::
  "ufpd_thread \<Rightarrow> ufp_packet list \<Rightarrow> event list \<Rightarrow> (ctl \<times> ufpd_thread \<times> ufp_packet list) option" where
  "thread_events thread packet [] = Some (Go, thread, packet)"
| "thread_events thread packet (ev # evs) =
     do { (c, thread, packet) \<leftarrow> thread_event thread packet ev;
          case c of Go \<Rightarrow> thread_events thread packet evs | _ \<Rightarrow> Some (c, thread, packet) }"

fun thread_wait :: "ufpd_thread \<Rightarrow> ufp_packet list \<Rightarrow> event list option list \<Rightarrow> (int \<times> ufpd_thread) option" where
  "thread_wait thread packet [] = Some (-1, thread)"
| "thread_wait thread packet (None # waits) = Some (-1, thread)"
| "thread_wait thread packet (Some events # waits) =
     do { (c, thread, packet) \<leftarrow> thread_events thread packet (take EPOLL_MAXEVENTS events);
          case c of Go \<Rightarrow> thread_wait thread packet waits | Out \<Rightarrow> Some (0, thread) | Err \<Rightarrow> Some (-1, thread) }"

subsection \<open>The life of a thread\<close>

text \<open>A routing table and a neighbour table on the pool of the thread.\<close>

definition fib_new :: "ufpd_thread \<Rightarrow> (fib_store option \<times> ufpd_thread) option" where
  "fib_new thread =
     do { (r, m) \<leftarrow> fib_alloc \<lparr>lm_pool = th_mpool thread, lm_objs = Map.empty\<rparr>;
          Some (map_option (\<lambda>fib. \<lparr>fs_fib = fib, fs_objs = lm_objs m\<rparr>) r, thread\<lparr>th_mpool := lm_pool m\<rparr>) }"

definition neigh_new :: "ufpd_thread \<Rightarrow> int \<Rightarrow> (neigh_store option \<times> ufpd_thread) option" where
  "neigh_new thread family =
     do { (r, m) \<leftarrow> neigh_alloc \<lparr>lm_pool = th_mpool thread, lm_objs = Map.empty\<rparr> family;
          Some (map_option (\<lambda>neigh. \<lparr>ns_neigh = neigh, ns_objs = lm_objs m\<rparr>) r, thread\<lparr>th_mpool := lm_pool m\<rparr>) }"

definition fib_drop :: "fib_store \<Rightarrow> ufpd_thread \<Rightarrow> ufpd_thread option" where
  "fib_drop fs thread = do { m \<leftarrow> fib_release (fs_fib fs) (fib_mem thread fs); Some (thread\<lparr>th_mpool := lm_pool m\<rparr>) }"

definition neigh_drop :: "neigh_store \<Rightarrow> ufpd_thread \<Rightarrow> ufpd_thread option" where
  "neigh_drop ns thread = do { m \<leftarrow> neigh_release (ns_neigh ns) (neigh_mem thread ns); Some (thread\<lparr>th_mpool := lm_pool m\<rparr>) }"

definition block_drop :: "addr \<Rightarrow> ufpd_thread \<Rightarrow> ufpd_thread option" where
  "block_drop a thread = do { mp \<leftarrow> ufp_mem_free (th_mpool thread) a; Some (thread\<lparr>th_mpool := mp\<rparr>) }"

text \<open>
  The loop over the ports. The lists of the thread are the elements of the arrays that are assigned
  so far; the result says whether all are.
\<close>

fun neigh_setup :: "nat \<Rightarrow> nat \<Rightarrow> ufpd_thread \<Rightarrow> (bool \<times> ufpd_thread) option" where
  "neigh_setup i 0 thread = Some (True, thread)"
| "neigh_setup i (Suc left) thread =
     do { (r4, thread) \<leftarrow> neigh_new thread AF_INET;
          case r4 of None \<Rightarrow> Some (False, thread)
          | Some ns4 \<Rightarrow> do {
              (r6, thread) \<leftarrow> neigh_new thread AF_INET6;
              case r6 of None \<Rightarrow> do { thread \<leftarrow> neigh_drop ns4 thread; Some (False, thread) }
              | Some ns6 \<Rightarrow> do {
                  mtu \<leftarrow> ufp_framemtu (th_plane thread) i;
                  neigh_setup (i + 1) left
                    (thread\<lparr>th_neigh_inet := th_neigh_inet thread @ [ns4], th_neigh_inet6 := th_neigh_inet6 thread @ [ns6],
                       th_read_size := (if unat mtu > th_read_size thread then unat mtu else th_read_size thread)\<rparr>) } } }"

fun neigh_teardown :: "(neigh_store \<times> neigh_store) list \<Rightarrow> ufpd_thread \<Rightarrow> ufpd_thread option" where
  "neigh_teardown [] thread = Some thread"
| "neigh_teardown ((ns6, ns4) # rest) thread =
     do { thread \<leftarrow> neigh_drop ns6 thread; thread \<leftarrow> neigh_drop ns4 thread; neigh_teardown rest thread }"

definition SIGINT :: int where "SIGINT = 2"

text \<open>The labels at the end of \<open>thread_process_interrupt\<close>, from the last one up.\<close>

definition err_fib_inet_alloc :: "ufpd_thread \<Rightarrow> os \<Rightarrow> (ufpd_thread \<times> os) option" where
  "err_fib_inet_alloc thread s = Some (thread, s\<lparr>os_log := os_log s @ [PTHREAD_KILL SIGINT]\<rparr>)"

definition err_fib_inet6_alloc :: "ufpd_thread \<Rightarrow> os \<Rightarrow> (ufpd_thread \<times> os) option" where
  "err_fib_inet6_alloc thread s = do { thread \<leftarrow> fib_drop (th_fib_inet thread) thread; err_fib_inet_alloc thread s }"

definition err_neigh_table_inet :: "ufpd_thread \<Rightarrow> os \<Rightarrow> (ufpd_thread \<times> os) option" where
  "err_neigh_table_inet thread s = do { thread \<leftarrow> fib_drop (th_fib_inet6 thread) thread; err_fib_inet6_alloc thread s }"

definition err_neigh_table_inet6 :: "addr \<Rightarrow> ufpd_thread \<Rightarrow> os \<Rightarrow> (ufpd_thread \<times> os) option" where
  "err_neigh_table_inet6 a4 thread s = do { thread \<leftarrow> block_drop a4 thread; err_neigh_table_inet thread s }"

definition err_assign_ports :: "addr \<Rightarrow> addr \<Rightarrow> ufpd_thread \<Rightarrow> os \<Rightarrow> (ufpd_thread \<times> os) option" where
  "err_assign_ports a4 a6 thread s =
     do { thread \<leftarrow> neigh_teardown (zip (th_neigh_inet6 thread) (th_neigh_inet thread)) thread;
          thread \<leftarrow> block_drop a6 thread;
          err_neigh_table_inet6 a4 thread s }"

text \<open>From the tables on: the read buffer, the descriptors, the first receive buffers and the loop.\<close>

definition thread_serve ::
  "ufp_packet list \<Rightarrow> event list option list \<Rightarrow> ufpd_thread \<Rightarrow> os \<Rightarrow> (ufpd_thread \<times> os) option" where
  "thread_serve packet waits thread s =
     (case os_get Heap s of
        (None, s) \<Rightarrow> Some (thread, s)
      | (Some read_buf, s) \<Rightarrow> do {
          (fd_ep, eps, s) \<leftarrow> thread_fd_prepare (th_plane thread) (th_num_ports thread) s;
          if fd_ep < 0 then do { s \<leftarrow> os_put (Heap read_buf) s; Some (thread, s) }
          else do {
            thread \<leftarrow> rx_assign_ports 0 (unat (th_num_ports thread)) thread;
            (ret, thread) \<leftarrow> thread_wait thread packet waits;
            s \<leftarrow> thread_fd_destroy eps fd_ep s;
            s \<leftarrow> os_put (Heap read_buf) s;
            Some (thread, s) } })"

text \<open>
  The construction of the tables, up to the label that is jumped to when something fails; the arrays
  that are allocated by then come with the label.
\<close>

datatype stage =
    To_err_fib_inet_alloc
  | To_err_fib_inet6_alloc
  | To_err_neigh_table_inet
  | To_err_neigh_table_inet6 addr
  | To_err_assign_ports addr addr
  | Ready addr addr

definition thread_setup :: "nat \<Rightarrow> ufpd_thread \<Rightarrow> (stage \<times> ufpd_thread) option" where
  "thread_setup page thread =
     do { let thread = thread\<lparr>th_read_size := page\<rparr>;
          (r, thread) \<leftarrow> fib_new thread;
          case r of None \<Rightarrow> Some (To_err_fib_inet_alloc, thread)
          | Some fs4 \<Rightarrow> do {
              (r, thread) \<leftarrow> fib_new (thread\<lparr>th_fib_inet := fs4\<rparr>);
              case r of None \<Rightarrow> Some (To_err_fib_inet6_alloc, thread)
              | Some fs6 \<Rightarrow> do {
                  let thread = thread\<lparr>th_fib_inet6 := fs6\<rparr>;
                  (r, mp) \<leftarrow> ufp_mem_alloc (th_mpool thread) (8 * unat (th_num_ports thread));
                  let thread = thread\<lparr>th_mpool := mp\<rparr>;
                  case r of None \<Rightarrow> Some (To_err_neigh_table_inet, thread)
                  | Some a4 \<Rightarrow> do {
                      (r, mp) \<leftarrow> ufp_mem_alloc (th_mpool thread) (8 * unat (th_num_ports thread));
                      let thread = thread\<lparr>th_mpool := mp\<rparr>;
                      case r of None \<Rightarrow> Some (To_err_neigh_table_inet6 a4, thread)
                      | Some a6 \<Rightarrow> do {
                          (all, thread) \<leftarrow> neigh_setup 0 (unat (th_num_ports thread))
                            (thread\<lparr>th_neigh_inet := [], th_neigh_inet6 := []\<rparr>);
                          Some (if all then Ready a4 a6 else To_err_assign_ports a4 a6, thread) } } } } }"

definition thread_process_interrupt ::
  "ufpd_thread \<Rightarrow> ufp_packet list \<Rightarrow> event list option list \<Rightarrow> os \<Rightarrow> (ufpd_thread \<times> os) option" where
  "thread_process_interrupt thread packet waits s =
     do { (st, thread) \<leftarrow> thread_setup (os_page s) thread;
          case st of
            To_err_fib_inet_alloc \<Rightarrow> err_fib_inet_alloc thread s
          | To_err_fib_inet6_alloc \<Rightarrow> err_fib_inet6_alloc thread s
          | To_err_neigh_table_inet \<Rightarrow> err_neigh_table_inet thread s
          | To_err_neigh_table_inet6 a4 \<Rightarrow> err_neigh_table_inet6 a4 thread s
          | To_err_assign_ports a4 a6 \<Rightarrow> err_assign_ports a4 a6 thread s
          | Ready a4 a6 \<Rightarrow> do {
              (thread, s) \<leftarrow> thread_serve packet waits thread s;
              err_assign_ports a4 a6 thread s } }"

end
