(* ===== verification/Thread_Loop.thy ===== *)
theory Thread_Loop
  imports Thread
begin

text \<open>
  The event loop of a forwarding thread. Its state keeps to an invariant through every event, whatever
  the devices, the host and the kernel send: the tables are well-formed, the rings hold slots of the buffer, and
  the memory of the slots is as long as their size.
\<close>

subsection \<open>The invariant\<close>

definition mem_ok :: "ufpd_thread \<Rightarrow> bool" where
  "mem_ok thread \<longleftrightarrow> IP6_HDR_END \<le> unat (buf_slot_size (th_buf thread)) \<and>
     (\<forall>si. slot_in (th_buf thread) si \<longrightarrow>
        unat (buf_slot_size (th_buf thread)) \<le> length (th_mem thread (ufp_slot_addr_virt (th_buf thread) (of_int si))))"

definition thread_inv :: "ufpd_thread \<Rightarrow> bool" where
  "thread_inv thread \<longleftrightarrow> (\<exists>D R. thread_ok thread D R) \<and> io_safe (th_plane thread) (th_buf thread) \<and> mem_ok thread \<and>
     length (ports (th_plane thread)) = unat (th_num_ports thread) \<and>
     (\<forall>p \<in> set (ports (th_plane thread)). unat (rx_budget p) \<le> UFPD_RX_BUDGET)"

text \<open>What the loop does not change: the structures of the tables, the blocks outside of them and all sizes.\<close>

definition thread_same :: "ufpd_thread \<Rightarrow> ufpd_thread \<Rightarrow> bool" where
  "thread_same thread thread' \<longleftrightarrow> others thread' = others thread \<and>
     (\<forall>v. fib_addr (fs_fib (fib_at v thread')) = fib_addr (fs_fib (fib_at v thread)) \<and>
       map (nt_addr \<circ> ns_neigh) (neighs_at v thread') = map (nt_addr \<circ> ns_neigh) (neighs_at v thread)) \<and>
     plane_static (th_plane thread) (th_plane thread') \<and> buf_static (th_buf thread) (th_buf thread') \<and>
     th_num_ports thread' = th_num_ports thread \<and> th_read_size thread' = th_read_size thread \<and>
     (\<forall>a. length (th_mem thread' a) = length (th_mem thread a))"

lemma thread_same_refl [simp]: "thread_same thread thread"
  by (simp add: thread_same_def)

lemma thread_same_trans: "thread_same a b \<Longrightarrow> thread_same b c \<Longrightarrow> thread_same a c"
  unfolding thread_same_def using plane_static_trans buf_static_trans by metis

lemma slot_addr_static: "buf_static buf buf' \<Longrightarrow> ufp_slot_addr_virt buf' si = ufp_slot_addr_virt buf si \<and> buf_slot_size buf' = buf_slot_size buf"
  by (auto simp: buf_static_def ufp_slot_addr_virt_def)

lemma thread_inv_same:
  assumes inv: "thread_inv thread" and same: "thread_same thread thread'"
    and ok: "\<exists>D R. thread_ok thread' D R" "io_safe (th_plane thread') (th_buf thread')"
  shows "thread_inv thread'"
proof -
  have b: "buf_static (th_buf thread) (th_buf thread')" and p: "plane_static (th_plane thread) (th_plane thread')"
    using same by (auto simp: thread_same_def)
  have "mem_ok thread'"
    using inv same slot_addr_static [OF b] slot_in_static [OF b] by (auto simp: thread_inv_def thread_same_def mem_ok_def)
  moreover have "length (ports (th_plane thread')) = unat (th_num_ports thread')"
    using inv same plane_static_length [OF p] by (simp add: thread_inv_def thread_same_def)
  moreover have "\<forall>p \<in> set (ports (th_plane thread')). unat (rx_budget p) \<le> UFPD_RX_BUDGET"
    using inv plane_static_nth [OF p] plane_static_length [OF p]
    by (auto simp: thread_inv_def all_set_conv_all_nth port_static_def)
  ultimately show ?thesis using ok by (simp add: thread_inv_def)
qed

text \<open>The tables do not depend on the packets.\<close>

lemma thread_ok_io:
  assumes ok: "thread_ok thread D R" and p: "plane_static (th_plane thread) plane"
  shows "thread_ok (thread\<lparr>th_plane := plane, th_buf := buf, th_mem := mem, th_tun := tun, th_mmio := w\<rparr>) D R"
proof -
  let ?t = "thread\<lparr>th_plane := plane, th_buf := buf, th_mem := mem, th_tun := tun, th_mmio := w\<rparr>"
  have at: "fib_at v ?t = fib_at v thread" "neighs_at v ?t = neighs_at v thread" for v by (simp_all add: fib_at_def neighs_at_def)
  have own: "owned ?t = owned thread"
  proof
    show "owned ?t u = owned thread u" for u by (cases u) (simp_all add: at)
  qed
  have mac: "\<forall>p \<in> set (ports plane). length (port_mac_addr p) = ETH_ALEN"
    if "\<forall>p \<in> set (ports (th_plane thread)). length (port_mac_addr p) = ETH_ALEN"
    using that plane_static_nth [OF p] plane_static_length [OF p] by (auto simp: all_set_conv_all_nth port_static_def)
  have "tables_ok ?t (fam v) (fib_at v ?t) (neighs_at v ?t) (D v) (R v)" for v
  proof -
    have "tables_ok thread (fam v) (fib_at v thread) (neighs_at v thread) (D v) (R v)" using ok by (simp add: thread_ok_def)
    then show ?thesis unfolding tables_ok_alt at using mac plane_static_length [OF p] by simp
  qed
  then show ?thesis using ok unfolding thread_ok_def own at by simp
qed

lemma thread_inv_io:
  fixes tun :: "(int \<times> u8 list) list" and w :: mmio
  assumes inv: "thread_inv thread" and safe: "io_safe plane buf" and st: "plane_static (th_plane thread) plane" "buf_static (th_buf thread) buf"
    and mem: "\<And>a. length (mem a) = length (th_mem thread a)"
  defines "thread' \<equiv> thread\<lparr>th_plane := plane, th_buf := buf, th_mem := mem, th_tun := tun, th_mmio := w\<rparr>"
  shows "thread_inv thread'" "thread_same thread thread'"
proof -
  have at: "fib_at v thread' = fib_at v thread" "neighs_at v thread' = neighs_at v thread" for v
    by (simp_all add: fib_at_def neighs_at_def thread'_def)
  have "owned thread' u = owned thread u" for u by (cases u) (simp_all add: at)
  then have "others thread' = others thread" by (simp add: others_def thread'_def)
  then show same: "thread_same thread thread'" unfolding thread_same_def at using st mem by (simp add: thread'_def)
  show "thread_inv thread'"
  proof (rule thread_inv_same [OF inv same])
    obtain D R where "thread_ok thread D R" using inv by (auto simp: thread_inv_def)
    then show "\<exists>D R. thread_ok thread' D R" unfolding thread'_def using thread_ok_io [OF _ st(1)] by blast
    show "io_safe (th_plane thread') (th_buf thread')" using safe by (simp add: thread'_def)
  qed
qed

lemma thread_invD:
  assumes "thread_inv thread"
  obtains D R where "thread_ok thread D R" "\<And>v. tables_ok thread (fam v) (fib_at v thread) (neighs_at v thread) (D v) (R v)"
    "\<And>v. length (neighs_at v thread) = unat (th_num_ports thread)"
    "io_safe (th_plane thread) (th_buf thread)" "mem_ok thread" "length (ports (th_plane thread)) = unat (th_num_ports thread)"
  using assms by (auto simp: thread_inv_def thread_ok_def)

subsection \<open>Packets\<close>

text \<open>A received packet: a slot of the buffer, its memory, and a size that fits.\<close>

definition pkt_ok :: "ufp_buf \<Rightarrow> ufp_packet \<Rightarrow> bool" where
  "pkt_ok buf pkt \<longleftrightarrow> slot_in buf (pkt_slot_index pkt) \<and> unat (pkt_slot_size pkt) \<le> unat (buf_slot_size buf) \<and>
     pkt_slot_buf pkt = ufp_slot_addr_virt buf (of_int (pkt_slot_index pkt))"

lemma pkt_ok_static [simp]: "buf_static buf buf' \<Longrightarrow> pkt_ok buf' pkt = pkt_ok buf pkt"
  using slot_addr_static by (auto simp: pkt_ok_def)

text \<open>What the processing of a frame changes: frames, which keep their length, and what was handed to the host.\<close>

definition frame_step :: "ufpd_thread \<Rightarrow> ufpd_thread \<Rightarrow> bool" where
  "frame_step thread thread' \<longleftrightarrow> (\<exists>tun mem. thread' = thread\<lparr>th_mem := mem, th_tun := tun\<rparr> \<and>
     (\<forall>a. length (mem a) = length (th_mem thread a)))"

lemma frame_step_refl: "frame_step thread thread"
  unfolding frame_step_def by (intro exI [of _ "th_tun thread"] exI [of _ "th_mem thread"]) simp

lemma frame_step_host: "frame_step thread (to_host thread i packet)"
  unfolding frame_step_def to_host_def
  by (intro exI [of _ "th_tun (to_host thread i packet)"] exI [of _ "th_mem thread"]) (simp add: to_host_def)

lemma fwd_outcome_step:
  assumes ok: "tables_ok thread family fs neighs D rib"
    and out: "fwd_outcome fwd off n hl thread neighs D rib i packet ret thread'"
    and len: "\<And>f d s f'. fwd f d s f' \<Longrightarrow> length f' = length f"
  shows "frame_step thread thread' \<and> ret < int (length neighs)"
proof -
  let ?frame = "th_mem thread (pkt_slot_buf packet)"
  have upd: "frame_step thread (thread\<lparr>th_mem := (th_mem thread)(pkt_slot_buf packet := f)\<rparr>)" if "length f = length ?frame" for f
    unfolding frame_step_def using that
    by (intro exI [of _ "th_tun thread"] exI [of _ "(th_mem thread)(pkt_slot_buf packet := f)"]) simp
  show ?thesis
  proof (cases "\<exists>s. best_route rib (frame_ptr ?frame off) s")
    case False
    then show ?thesis using out frame_step_refl by (simp add: fwd_outcome_def)
  next
    case True
    then obtain s hop where s: "best_route rib (frame_ptr ?frame off) s"
        "hop_result thread neighs (D (rt_ptr s)) (frame_slice ?frame off n) hop"
        "case hop of Hop_To port a \<Rightarrow>
             if ?frame ! hl = 1 then ret = -1 \<and> thread' = to_host thread i packet
             else ret = port \<and> (\<exists>mac frame'. thread' = thread\<lparr>th_mem := (th_mem thread)(pkt_slot_buf packet := frame')\<rparr> \<and>
               map_option ne_dst_mac (ns_objs (neighs ! nat port) a) = Some mac \<and>
               fwd ?frame mac (port_mac_addr (ports (th_plane thread) ! nat port)) frame')
         | _ \<Rightarrow> ret = -1 \<and> thread' = to_host thread i packet"
      using out unfolding fwd_outcome_def Let_def not_not if_not_P [of "\<not> _", unfolded not_not, OF True] by blast
    have port: "port < int (length neighs)" if "hop = Hop_To port a" for port a
      using s(1,2) ok that by (auto simp: hop_result_def tables_ok_def best_route_def Let_def split: if_splits)
    show ?thesis
      using s(3) port frame_step_host upd len by (auto split: hop.splits if_splits)
  qed
qed

lemma frame_offsets_le: "ETH_HLEN \<le> IP6_HDR_END" "IP_HDR_END \<le> IP6_HDR_END"
  by (simp_all add: frame_offsets)

lemma forward_one_safe:
  assumes inv: "thread_inv thread" and i: "i < length (ports (th_plane thread))" and pkt: "pkt_ok (th_buf thread) packet"
  shows "\<exists>ret thread'. forward_one thread i packet = Some (ret, thread') \<and> frame_step thread thread' \<and>
    ret < int (length (ports (th_plane thread)))"
proof -
  let ?frame = "th_mem thread (pkt_slot_buf packet)"
  obtain D R where T: "\<And>v. tables_ok thread (fam v) (fib_at v thread) (neighs_at v thread) (D v) (R v)"
      "\<And>v. length (neighs_at v thread) = unat (th_num_ports thread)" "mem_ok thread" "length (ports (th_plane thread)) = unat (th_num_ports thread)"
    using inv by (rule thread_invD) blast
  have len: "IP6_HDR_END \<le> length ?frame" "unat (pkt_slot_size packet) \<le> length ?frame"
    using T(3) pkt by (auto simp: mem_ok_def pkt_ok_def)
  have T4: "tables_ok thread AF_INET (th_fib_inet thread) (th_neigh_inet thread) (D False) (R False)"
    and T6: "tables_ok thread AF_INET6 (th_fib_inet6 thread) (th_neigh_inet6 thread) (D True) (R True)"
    using T(1) [of False] T(1) [of True] by (simp_all add: fam_def fib_at_def neighs_at_def)
  have n: "length (th_neigh_inet thread) = length (ports (th_plane thread))" "length (th_neigh_inet6 thread) = length (ports (th_plane thread))"
    using T(2) [of False] T(2) [of True] T(4) by (simp_all add: neighs_at_def)
  have host: "tun_write thread i packet = Some (to_host thread i packet)"
    using tun_write_ok [OF i len(2)] by (simp add: to_host_def)
  have ip: "\<exists>ret thread'. forward_ip_process thread i packet = Some (ret, thread') \<and> frame_step thread thread' \<and>
      ret < int (length (ports (th_plane thread)))"
  proof -
    have "IP_HDR_END \<le> length ?frame" using len(1) frame_offsets_le by linarith
    from forward_ip_spec [OF T4 i this len(2)] obtain ret thread' where r: "forward_ip_process thread i packet = Some (ret, thread')"
        "fwd_outcome ip_forwarded OFF_DADDR 4 OFF_TTL thread (th_neigh_inet thread) (D False) (R False) i packet ret thread'" by blast
    from fwd_outcome_step [OF T4 r(2)] r(1) n show ?thesis by (auto simp: ip_forwarded_def)
  qed
  have ip6: "\<exists>ret thread'. forward_ip6_process thread i packet = Some (ret, thread') \<and> frame_step thread thread' \<and>
      ret < int (length (ports (th_plane thread)))"
  proof (cases "in6_is_addr_linklocal ?frame OFF_IP6_DST")
    case True
    then show ?thesis using forward_ip6_spec [OF T6 i len] frame_step_host by simp
  next
    case False
    then obtain ret thread' where r: "forward_ip6_process thread i packet = Some (ret, thread')"
        "fwd_outcome ip6_forwarded OFF_IP6_DST 16 OFF_HLIM thread (th_neigh_inet6 thread) (D True) (R True) i packet ret thread'"
      using forward_ip6_spec [OF T6 i len] by auto
    from fwd_outcome_step [OF T6 r(2)] r(1) n show ?thesis by (auto simp: ip6_forwarded_def)
  qed
  have arp: "\<exists>ret thread'. forward_arp_process thread i packet = Some (ret, thread') \<and> frame_step thread thread' \<and>
      ret < int (length (ports (th_plane thread)))"
    using host frame_step_host by (simp add: forward_arp_process_def)
  have "\<not> length ?frame < ETH_HLEN" using len(1) frame_offsets_le(1) by linarith
  then show ?thesis using ip ip6 arp frame_step_refl by (simp add: forward_one_def Let_def)
qed

lemma forward_packet_safe:
  assumes inv: "thread_inv thread" and i: "i < length (ports (th_plane thread))" and pkt: "pkt_ok (th_buf thread) packet"
  shows "\<exists>thread'. forward_packet thread i packet = Some thread' \<and> thread_inv thread' \<and> thread_same thread thread'"
proof -
  let ?drop = "\<lambda>thread. do { buf \<leftarrow> ufp_slot_release (th_buf thread) (pkt_slot_index packet); Some (thread\<lparr>th_buf := buf\<rparr>) }"
  have drop: "\<exists>thread'. ?drop t = Some thread' \<and> thread_inv thread' \<and> thread_same thread thread'"
    if t: "frame_step thread t0" "t = t0\<lparr>th_plane := plane, th_buf := buf\<rparr>" "io_safe plane buf"
      "plane_static (th_plane thread) plane" "buf_static (th_buf thread) buf" for t t0 plane buf
  proof -
    obtain tun mem where t0: "t0 = thread\<lparr>th_mem := mem, th_tun := tun\<rparr>" "\<And>a. length (mem a) = length (th_mem thread a)"
      using t(1) by (auto simp: frame_step_def)
    have "slot_in buf (pkt_slot_index packet)" using pkt t(5) by (simp add: pkt_ok_def)
    from slot_release_safe [OF this] obtain buf' where b: "ufp_slot_release buf (pkt_slot_index packet) = Some buf'" "buf_static buf buf'"
      by blast
    have "?drop t = Some (thread\<lparr>th_plane := plane, th_buf := buf', th_mem := mem, th_tun := tun, th_mmio := th_mmio thread\<rparr>)"
      using b(1) t(2) t0(1) by simp
    with thread_inv_io [OF inv io_safe_slots [OF t(3) b(2)] t(4) buf_static_trans [OF t(5) b(2)] t0(2), where tun = tun and w = "th_mmio thread"]
    show ?thesis by blast
  qed
  have safe: "io_safe (th_plane thread) (th_buf thread)" using inv by (simp add: thread_inv_def)
  show ?thesis
  proof (cases "pkt_flag packet AND UFP_PACKET_ERROR \<noteq> 0")
    case True
    then show ?thesis
      using drop [OF frame_step_refl _ safe, of thread] by (simp add: forward_packet_def)
  next
    case False
    obtain ret t1 where f: "forward_one thread i packet = Some (ret, t1)" "frame_step thread t1" "ret < int (length (ports (th_plane thread)))"
      using forward_one_safe [OF assms] by blast
    have k: "th_plane t1 = th_plane thread" "th_buf t1 = th_buf thread" using f(2) by (auto simp: frame_step_def)
    show ?thesis
    proof (cases "ret < 0")
      case True
      have "t1 = t1\<lparr>th_plane := th_plane thread, th_buf := th_buf thread\<rparr>" by (simp flip: k)
      from drop [OF f(2) this safe] True False f(1) k show ?thesis by (simp add: forward_packet_def)
    next
      case nn: False
      then have "nat ret < length (ports (th_plane thread))" using f(3) by linarith
      moreover have "slot_in (th_buf thread) (pkt_slot_index packet)" using pkt by (simp add: pkt_ok_def)
      ultimately obtain plane buf where x: "ufp_tx_assign (th_plane thread) (nat ret) (th_buf thread) packet = Some (plane, buf)"
          "io_safe plane buf" "plane_static (th_plane thread) plane" "buf_static (th_buf thread) buf"
        using tx_assign_safe [OF safe] by blast
      from drop [OF f(2) refl x(2-4)] x(1) nn False f(1) k show ?thesis by (simp add: forward_packet_def)
    qed
  qed
qed

lemma forward_process_safe:
  assumes "thread_inv thread" "i < length (ports (th_plane thread))" "\<forall>packet \<in> set packets. pkt_ok (th_buf thread) packet"
  shows "\<exists>thread'. forward_process thread i packets = Some thread' \<and> thread_inv thread' \<and> thread_same thread thread'"
  using assms
proof (induction packets arbitrary: thread)
  case (Cons packet packets)
  obtain t1 where t1: "forward_packet thread i packet = Some t1" "thread_inv t1" "thread_same thread t1"
    using forward_packet_safe [OF Cons.prems(1,2)] Cons.prems(3) by auto
  have "i < length (ports (th_plane t1))" "\<forall>packet \<in> set packets. pkt_ok (th_buf t1) packet"
    using t1(3) Cons.prems(2,3) plane_static_length [of "th_plane thread" "th_plane t1"] by (auto simp: thread_same_def)
  from Cons.IH [OF t1(2) this] t1 show ?case by (auto intro: thread_same_trans)
qed simp


lemma forward_process_tun_safe:
  assumes inv: "thread_inv thread" and i: "i < length (ports (th_plane thread))"
  shows "\<exists>thread'. forward_process_tun thread i bs = Some thread' \<and> thread_inv thread' \<and> thread_same thread thread'"
proof (cases "length bs > unat (ufp_slot_size (th_buf thread))")
  case True
  then show ?thesis using inv by (simp add: forward_process_tun_def)
next
  case False
  let ?plane = "th_plane thread" and ?buf = "th_buf thread"
  let ?p = "ports ?plane ! i"
  have safe: "io_safe ?plane ?buf" and mem: "mem_ok thread" using inv by (auto simp: thread_inv_def)
  have port: "plane_port ?plane i = Some ?p" using i by (simp add: plane_port_def)
  note pok = io_safe_portD [OF safe i]
  have sl: "slot_ok (rx_slot_offset ?p) (rx_slot_next ?p) ?buf" using pok(1) by (simp add: port_ok_def)
  from sl show ?thesis
  proof (cases rule: slot_assign_cases)
    case full
    then show ?thesis using False port inv by (simp add: forward_process_tun_def)
  next
    case (slot k n xs)
    let ?b = "?buf\<lparr>slots := xs\<rparr>" and ?p1 = "?p\<lparr>rx_slot_next := n\<rparr>"
    let ?pl = "plane_set_port ?plane i ?p1" and ?a = "ufp_slot_addr_virt (?buf\<lparr>slots := xs\<rparr>) (word_of_int (int k))"
    have b: "buf_static ?buf ?b" using slot(4) by (auto simp: buf_static_def)
    have kin: "slot_in ?buf (int k)" by (rule segment_in [OF sl slot(2)])
    have s1: "io_safe ?pl ?b"
      using pok slot(6) slot(4) by (intro io_safe_set [OF safe b]) (auto simp: port_ok_def port_held_def slot_ok_def)
    have st1: "plane_static ?plane ?pl" by (rule plane_static_set) (simp add: port_static_def)
    let ?pkt = "\<lparr>pkt_slot_buf = ?a, pkt_slot_size = of_nat (length bs), pkt_slot_index = int k, pkt_flag = UFP_PACKET_EOF\<rparr>"
    have i1: "i < length (ports ?pl)" using i by (simp add: plane_set_port_def)
    have "slot_in ?b (pkt_slot_index ?pkt)" using kin b by simp
    from tx_assign_safe [OF s1 i1 this] obtain plane' buf' where x: "ufp_tx_assign ?pl i ?b ?pkt = Some (plane', buf')"
        "io_safe plane' buf'" "plane_static ?pl plane'" "buf_static ?b buf'" by blast
    let ?mem = "(th_mem thread)(?a := bs @ drop (length bs) (th_mem thread ?a))"
    let ?t = "thread\<lparr>th_plane := plane', th_buf := buf', th_mem := ?mem, th_tun := th_tun thread, th_mmio := th_mmio thread\<rparr>"
    have run: "forward_process_tun thread i bs = Some ?t"
      using False port slot(1) x(1) by (simp add: forward_process_tun_def Let_def)
    have "?a = ufp_slot_addr_virt ?buf (of_int (int k))" by (simp add: ufp_slot_addr_virt_def)
    then have "unat (buf_slot_size ?buf) \<le> length (th_mem thread ?a)" using mem kin unfolding mem_ok_def by metis
    then have l: "length (?mem a) = length (th_mem thread a)" for a using False by (simp add: ufp_slot_size_def)
    from thread_inv_io [OF inv x(2) plane_static_trans [OF st1 x(3)] buf_static_trans [OF b x(4)] l, where tun = "th_tun thread" and w = "th_mmio thread"] run
    show ?thesis by blast
  qed
qed

subsection \<open>Handlers\<close>

lemma tx_xmit_loop_safe:
  "thread_inv thread \<Longrightarrow> i + n \<le> length (ports (th_plane thread)) \<Longrightarrow>
   \<exists>thread'. tx_xmit_loop i n thread = Some thread' \<and> thread_inv thread' \<and> thread_same thread thread'"
proof (induction n arbitrary: i thread)
  case (Suc n)
  have safe: "io_safe (th_plane thread) (th_buf thread)" using Suc.prems(1) by (simp add: thread_inv_def)
  obtain plane w where x: "ufp_tx_xmit (th_plane thread) i = Some (plane, w)" "io_safe plane (th_buf thread)" "plane_static (th_plane thread) plane"
    using tx_xmit_safe [OF safe, of i] Suc.prems(2) by auto
  let ?t = "thread\<lparr>th_plane := plane, th_mmio := th_mmio thread @ w\<rparr>"
  have t: "thread_inv ?t" "thread_same thread ?t"
    using thread_inv_io [OF Suc.prems(1) x(2,3) buf_static_refl refl, where tun = "th_tun thread" and w = "th_mmio thread @ w"] by simp_all
  have "Suc i + n \<le> length (ports (th_plane ?t))" using Suc.prems(2) plane_static_length [OF x(3)] by simp
  from Suc.IH [OF t(1) this] x(1) t(2) show ?case by (auto intro: thread_same_trans)
qed simp

lemma rx_assign_ports_safe:
  "thread_inv thread \<Longrightarrow> i + n \<le> length (ports (th_plane thread)) \<Longrightarrow>
   \<exists>thread'. rx_assign_ports i n thread = Some thread' \<and> thread_inv thread' \<and> thread_same thread thread'"
proof (induction n arbitrary: i thread)
  case (Suc n)
  have safe: "io_safe (th_plane thread) (th_buf thread)" using Suc.prems(1) by (simp add: thread_inv_def)
  obtain plane buf w where x: "ufp_rx_assign (th_plane thread) i (th_buf thread) = Some (plane, buf, w)" "io_safe plane buf"
      "plane_static (th_plane thread) plane" "buf_static (th_buf thread) buf"
    using rx_assign_safe [OF safe, of i] Suc.prems(2) by auto
  let ?t = "thread\<lparr>th_plane := plane, th_buf := buf, th_mmio := th_mmio thread @ w\<rparr>"
  have t: "thread_inv ?t" "thread_same thread ?t"
    using thread_inv_io [OF Suc.prems(1) x(2,3,4) refl, where tun = "th_tun thread" and w = "th_mmio thread @ w"] by simp_all
  have "Suc i + n \<le> length (ports (th_plane ?t))" using Suc.prems(2) plane_static_length [OF x(3)] by simp
  from Suc.IH [OF t(1) this] x(1) t(2) show ?case by (auto intro: thread_same_trans)
qed simp

lemma irq_finish_safe:
  assumes inv: "thread_inv thread" and e: "ep_port_index e < length (ports (th_plane thread))" "ep_data e \<noteq> None"
  shows "\<exists>err thread'. irq_finish thread e r = Some (err, thread') \<and> thread_inv thread' \<and> thread_same thread thread' \<and> (err < 0 \<longleftrightarrow> r = None)"
proof -
  obtain irq where irq: "ep_data e = Some irq" using e(2) by blast
  have safe: "io_safe (th_plane thread) (th_buf thread)" using inv by (simp add: thread_inv_def)
  obtain w where w: "ufp_irq_unmask_queues (th_plane thread) (ep_port_index e) irq = Some w"
    using e(1) by (simp add: ufp_irq_unmask_queues_def plane_port_def)
  have "thread_inv (thread\<lparr>th_mmio := th_mmio thread @ w\<rparr>)" "thread_same thread (thread\<lparr>th_mmio := th_mmio thread @ w\<rparr>)"
    using thread_inv_io [OF inv safe plane_static_refl buf_static_refl refl, where tun = "th_tun thread" and w = "th_mmio thread @ w"] by simp_all
  then show ?thesis using inv irq w by (cases r) (simp_all add: irq_finish_def thread_read_def)
qed

text \<open>The packets on the stack of \<open>thread_wait\<close>, and what the devices may have written.\<close>

definition device_ok :: "ufpd_thread \<Rightarrow> device \<Rightarrow> bool" where
  "device_ok thread dv \<longleftrightarrow>
     list_all2 (\<lambda>p m. length m = length (ring_mem (rx_ring p)) \<and> (\<forall>d \<in> set m. rx_length d \<le> unat (buf_slot_size (th_buf thread))))
       (ports (th_plane thread)) (dv_rx dv) \<and>
     list_all2 (\<lambda>p m. length m = length (ring_mem (tx_ring p))) (ports (th_plane thread)) (dv_tx dv) \<and>
     (\<forall>a. length (dv_mem dv a) = length (th_mem thread a))"

lemma device_ports_nth:
  assumes "length rxs = length ps" "length txs = length ps"
  shows "length (device_ports ps rxs txs) = length ps"
    "i < length ps \<Longrightarrow> device_ports ps rxs txs ! i = device_tx (device_rx (ps ! i) (rxs ! i)) (txs ! i)"
proof -
  have "length (device_ports ps rxs txs) = length ps \<and>
      (\<forall>i < length ps. device_ports ps rxs txs ! i = device_tx (device_rx (ps ! i) (rxs ! i)) (txs ! i))"
    using assms
  proof (induction ps rxs txs rule: device_ports.induct)
    case (1 p ps rx rxs tx txs)
    then show ?case by (auto simp: nth_Cons split: nat.splits)
  qed auto
  then show "length (device_ports ps rxs txs) = length ps"
    "i < length ps \<Longrightarrow> device_ports ps rxs txs ! i = device_tx (device_rx (ps ! i) (rxs ! i)) (txs ! i)" by auto
qed

lemma device_write_safe:
  assumes inv: "thread_inv thread" and dv: "device_ok thread dv"
  shows "thread_inv (device_write dv thread)" "thread_same thread (device_write dv thread)"
    "\<And>i. i < length (ports (th_plane thread)) \<Longrightarrow>
      \<forall>d \<in> set (ring_mem (rx_ring (ports (th_plane (device_write dv thread)) ! i))). rx_length d \<le> unat (buf_slot_size (th_buf thread))"
proof -
  let ?ps = "ports (th_plane thread)" and ?qs = "device_ports (ports (th_plane thread)) (dv_rx dv) (dv_tx dv)"
  let ?plane = "(th_plane thread)\<lparr>ports := ?qs\<rparr>"
  have len: "length (dv_rx dv) = length ?ps" "length (dv_tx dv) = length ?ps"
    using dv by (auto simp: device_ok_def dest: list_all2_lengthD)
  have d: "length (dv_rx dv ! i) = length (ring_mem (rx_ring (?ps ! i)))" "length (dv_tx dv ! i) = length (ring_mem (tx_ring (?ps ! i)))"
      "\<forall>d \<in> set (dv_rx dv ! i). rx_length d \<le> unat (buf_slot_size (th_buf thread))" if "i < length ?ps" for i
    using dv that by (auto simp: device_ok_def dest: list_all2_nthD)
  note N = device_ports_nth [OF len]
  have safe: "io_safe (th_plane thread) (th_buf thread)" using inv by (simp add: thread_inv_def)
  have port: "port_ok i40e_ops (th_buf thread) i (?qs ! i)" "port_held (?qs ! i) = port_held (?ps ! i)" "port_static (?ps ! i) (?qs ! i)"
    if i: "i < length ?ps" for i
    using io_safe_portD(1) [OF safe i] d [OF i]
    by (simp_all add: N(2) [OF i] device_rx_def device_tx_def port_ok_def ring_ok_mem port_held_def port_static_def)
  have "io_safe ?plane (th_buf thread)"
    using port N(1) safe by (auto simp: io_safe_def plane_ok_def all_set_conv_all_nth)
  moreover have "plane_static (th_plane thread) ?plane"
    using port(3) N(1) by (simp add: plane_static_def list_all2_conv_all_nth)
  moreover have "length (dv_mem dv a) = length (th_mem thread a)" for a using dv by (simp add: device_ok_def)
  ultimately show "thread_inv (device_write dv thread)" "thread_same thread (device_write dv thread)"
    using thread_inv_io [OF inv _ _ buf_static_refl, where tun = "th_tun thread" and w = "th_mmio thread", of ?plane "dv_mem dv"]
    by (simp_all add: device_write_def)
  show "\<forall>d \<in> set (ring_mem (rx_ring (ports (th_plane (device_write dv thread)) ! i))). rx_length d \<le> unat (buf_slot_size (th_buf thread))"
    if i: "i < length ?ps" for i
    using d(3) [OF i] by (simp add: device_write_def N(2) [OF i] device_rx_def device_tx_def)
qed


lemma device_write_drains:
  assumes dv: "device_ok thread dv"
  shows "rx_drains (th_plane thread) (th_plane (device_write dv thread))"
proof -
  let ?ps = "ports (th_plane thread)"
  have len: "length (dv_rx dv) = length ?ps" "length (dv_tx dv) = length ?ps"
    using dv by (auto simp: device_ok_def dest: list_all2_lengthD)
  note N = device_ports_nth [OF len]
  have "rx_posted (th_plane (device_write dv thread)) i = rx_posted (th_plane thread) i" for i
    using N by (simp add: rx_posted_def device_write_def device_rx_def device_tx_def)
  then show ?thesis by (simp add: rx_drains_def)
qed

text \<open>What the handlers other than the one for transmit interrupts do to the posted receive buffers.\<close>

lemma forward_packet_drains: "forward_packet thread i packet = Some thread' \<Longrightarrow> rx_drains (th_plane thread) (th_plane thread')"
  by (auto simp: forward_packet_def Let_def dest!: forward_one_keeps tx_assign_drains split: if_splits bind_splits)

lemma forward_process_drains: "forward_process thread i packets = Some thread' \<Longrightarrow> rx_drains (th_plane thread) (th_plane thread')"
  by (induction packets arbitrary: thread) (auto dest: forward_packet_drains intro: rx_drains_trans split: bind_splits)

lemma tx_xmit_loop_drains: "tx_xmit_loop i n thread = Some thread' \<Longrightarrow> rx_drains (th_plane thread) (th_plane thread')"
  by (induction n arbitrary: i thread) (fastforce dest: tx_xmit_drains intro: rx_drains_trans split: bind_splits)+

lemma irq_finish_plane: "irq_finish thread e r = Some (err, thread') \<Longrightarrow> th_plane thread' = th_plane thread"
  by (auto simp: irq_finish_def split: option.splits bind_splits)

lemma forward_process_tun_drains:
  assumes r: "forward_process_tun thread i bs = Some thread'"
  shows "rx_drains (th_plane thread) (th_plane thread')"
proof (cases "length bs > unat (ufp_slot_size (th_buf thread))")
  case True
  then show ?thesis using r by (simp add: forward_process_tun_def)
next
  case False
  obtain port si buf port' where p: "plane_port (th_plane thread) i = Some port" "ufp_slot_assign (th_buf thread) port = Some (si, buf, port')"
    using r False by (auto simp: forward_process_tun_def split: bind_splits)
  have "rx_ring port' = rx_ring port \<and> num_rx_desc port' = num_rx_desc port"
    using p(2) by (auto simp: ufp_slot_assign_def split: option.splits prod.splits)
  then have d: "rx_drains (th_plane thread) (plane_set_port (th_plane thread) i port')"
    using p(1) by (intro rx_drains_set) (auto simp: plane_port_def split: if_splits)
  show ?thesis
    using r False p d by (auto simp: forward_process_tun_def Let_def dest!: tx_assign_drains intro: rx_drains_trans split: if_splits bind_splits)
qed

subsection \<open>Events\<close>

lemma irq_rx_safe:
  assumes inv: "thread_inv thread" and e: "ep_port_index e < length (ports (th_plane thread))" "ep_data e \<noteq> None"
    and rx: "\<forall>d \<in> set (ring_mem (rx_ring (ports (th_plane thread) ! ep_port_index e))). rx_length d \<le> unat (buf_slot_size (th_buf thread))"
    and len: "length packet = UFPD_RX_BUDGET"
  shows "\<exists>err thread' packet'. thread_process_irq_rx thread e packet r = Some (err, thread', packet') \<and>
    thread_inv thread' \<and> thread_same thread thread' \<and> length packet' = UFPD_RX_BUDGET \<and> (err < 0 \<longleftrightarrow> r = None) \<and>
    rx_drains (th_plane thread) (th_plane thread')"
proof -
  let ?i = "ep_port_index e"
  have safe: "io_safe (th_plane thread) (th_buf thread)" and bud: "unat (rx_budget (ports (th_plane thread) ! ?i)) \<le> length packet"
    using inv e(1) len by (auto simp: thread_inv_def)
  obtain plane pk t where x: "ufp_rx_clean (th_plane thread) ?i (th_buf thread) packet = Some (plane, pk, t)"
      "io_safe plane (th_buf thread)" "plane_static (th_plane thread) plane" "length pk = length packet"
      "\<forall>pkt \<in> set (take t pk). pkt_ok (th_buf thread) pkt" "rx_drains (th_plane thread) plane"
    using rx_clean_safe [OF safe e(1) bud rx] unfolding pkt_ok_def by auto
  let ?t = "thread\<lparr>th_plane := plane\<rparr>"
  have t: "thread_inv ?t" "thread_same thread ?t"
    using thread_inv_io [OF inv x(2,3) buf_static_refl refl, where tun = "th_tun thread" and w = "th_mmio thread"] by simp_all
  have "?i < length (ports (th_plane ?t))" "\<forall>pkt \<in> set (take t pk). pkt_ok (th_buf ?t) pkt"
    using e(1) x(5) plane_static_length [OF x(3)] by simp_all
  from forward_process_safe [OF t(1) this] obtain t1 where t1: "forward_process ?t ?i (take t pk) = Some t1" "thread_inv t1" "thread_same ?t t1"
    by blast
  have "0 + unat (th_num_ports t1) \<le> length (ports (th_plane t1))" using t1(2) by (simp add: thread_inv_def)
  from tx_xmit_loop_safe [OF t1(2) this] obtain t2 where t2: "tx_xmit_loop 0 (unat (th_num_ports t1)) t1 = Some t2" "thread_inv t2" "thread_same t1 t2"
    by blast
  have same: "thread_same thread t2" by (rule thread_same_trans [OF t(2) thread_same_trans [OF t1(3) t2(3)]])
  then have "?i < length (ports (th_plane t2))"
    using e(1) plane_static_length [of "th_plane thread" "th_plane t2"] by (simp add: thread_same_def)
  from irq_finish_safe [OF t2(2) this e(2)] obtain err t3 where t3: "irq_finish t2 e r = Some (err, t3)" "thread_inv t3" "thread_same t2 t3" "err < 0 \<longleftrightarrow> r = None"
    by blast
  have "rx_drains (th_plane thread) (th_plane t3)"
    using rx_drains_trans [OF x(6)] forward_process_drains [OF t1(1)] tx_xmit_loop_drains [OF t2(1)] irq_finish_plane [OF t3(1)]
    by (auto intro: rx_drains_trans)
  then show ?thesis using t3 x(1,4) t1(1) t2(1) len thread_same_trans [OF same t3(3)] by (auto simp: thread_process_irq_rx_def)
qed

lemma irq_tx_safe:
  assumes inv: "thread_inv thread" and e: "ep_port_index e < length (ports (th_plane thread))" "ep_data e \<noteq> None"
  shows "\<exists>err thread'. thread_process_irq_tx thread e r = Some (err, thread') \<and>
    thread_inv thread' \<and> thread_same thread thread' \<and> (err < 0 \<longleftrightarrow> r = None)"
proof -
  let ?i = "ep_port_index e"
  have safe: "io_safe (th_plane thread) (th_buf thread)" using inv by (simp add: thread_inv_def)
  obtain plane buf where x: "ufp_tx_clean (th_plane thread) ?i (th_buf thread) = Some (plane, buf)" "io_safe plane buf"
      "plane_static (th_plane thread) plane" "buf_static (th_buf thread) buf"
    using tx_clean_safe [OF safe e(1)] by blast
  let ?t = "thread\<lparr>th_plane := plane, th_buf := buf\<rparr>"
  have t: "thread_inv ?t" "thread_same thread ?t"
    using thread_inv_io [OF inv x(2,3,4) refl, where tun = "th_tun thread" and w = "th_mmio thread"] by simp_all
  have "0 + unat (th_num_ports ?t) \<le> length (ports (th_plane ?t))" using t(1) by (simp add: thread_inv_def)
  from rx_assign_ports_safe [OF t(1) this] obtain t2 where t2: "rx_assign_ports 0 (unat (th_num_ports thread)) ?t = Some t2" "thread_inv t2" "thread_same ?t t2"
    by auto
  have same: "thread_same thread t2" by (rule thread_same_trans [OF t(2) t2(3)])
  then have "?i < length (ports (th_plane t2))"
    using e(1) plane_static_length [of "th_plane thread" "th_plane t2"] by (simp add: thread_same_def)
  from irq_finish_safe [OF t2(2) this e(2)] obtain err t3 where t3: "irq_finish t2 e r = Some (err, t3)" "thread_inv t3" "thread_same t2 t3" "err < 0 \<longleftrightarrow> r = None"
    by blast
  then show ?thesis using x(1) t2(1) thread_same_trans [OF same t3(3)] by (auto simp: thread_process_irq_tx_def)
qed

lemma tun_safe:
  assumes inv: "thread_inv thread" and e: "ep_port_index e < length (ports (th_plane thread))"
  shows "\<exists>err thread'. thread_process_tun thread e r = Some (err, thread') \<and>
    thread_inv thread' \<and> thread_same thread thread' \<and> (err < 0 \<longleftrightarrow> r = None) \<and>
    rx_drains (th_plane thread) (th_plane thread')"
proof (cases r)
  case None
  then show ?thesis using inv by (simp add: thread_process_tun_def thread_read_def)
next
  case (Some bs)
  let ?bs = "take (th_read_size thread) bs"
  obtain t1 where t1: "forward_process_tun thread (ep_port_index e) ?bs = Some t1" "thread_inv t1" "thread_same thread t1"
    using forward_process_tun_safe [OF inv e] by blast
  have "0 + unat (th_num_ports t1) \<le> length (ports (th_plane t1))" using t1(2) by (simp add: thread_inv_def)
  from tx_xmit_loop_safe [OF t1(2) this] obtain t2 where t2: "tx_xmit_loop 0 (unat (th_num_ports t1)) t1 = Some t2" "thread_inv t2" "thread_same t1 t2"
    by blast
  have "rx_drains (th_plane thread) (th_plane t2)"
    by (rule rx_drains_trans [OF forward_process_tun_drains [OF t1(1)] tx_xmit_loop_drains [OF t2(1)]])
  then show ?thesis using t2 t1(1) Some thread_same_trans [OF t1(3) t2(3)] by (simp add: thread_process_tun_def thread_read_def)
qed

lemma tables_step_same: "tables_step thread thread' \<Longrightarrow> thread_same thread thread'"
  by (simp add: tables_step_def thread_same_def)

definition nl_input :: "ufpd_thread \<Rightarrow> u8 list \<Rightarrow> bool" where
  "nl_input thread bs \<longleftrightarrow> (\<exists>msgs. bs = concat (map msg_bytes msgs) \<and> (\<forall>msg \<in> set msgs. msg_wf msg) \<and> msgs_room thread msgs)"

lemma netlink_safe:
  assumes inv: "thread_inv thread" and r: "\<forall>bs. thread_read thread r = Some bs \<longrightarrow> nl_input thread bs"
  shows "\<exists>err thread'. thread_process_netlink thread r = Some (err, thread') \<and>
    thread_inv thread' \<and> thread_same thread thread' \<and> (err < 0 \<longleftrightarrow> r = None) \<and>
    th_plane thread' = th_plane thread"
proof (cases "thread_read thread r")
  case None
  then show ?thesis using inv by (simp add: thread_process_netlink_def thread_read_def)
next
  case (Some bs)
  then obtain msgs where m: "bs = concat (map msg_bytes msgs)" "\<forall>msg \<in> set msgs. msg_wf msg" "msgs_room thread msgs"
    using r by (auto simp: nl_input_def)
  obtain D R where ok: "thread_ok thread D R" using inv by (auto simp: thread_inv_def)
  obtain t1 D' R' where t1: "netlink_process thread bs (int (length bs)) = Some t1" "thread_ok t1 D' R'" "tables_step thread t1"
    using msgs_safe [OF ok m(2,3)] unfolding m(1) by blast
  note same = tables_step_same [OF t1(3)]
  have "io_safe (th_plane t1) (th_buf t1)" using t1(3) inv by (simp add: tables_step_def thread_inv_def)
  then have "thread_inv t1" using thread_inv_same [OF inv same] t1(2) by blast
  moreover have "r \<noteq> None" using Some by (auto simp: thread_read_def)
  moreover have "th_plane t1 = th_plane thread" using t1(3) by (simp add: tables_step_def)
  ultimately show ?thesis using t1(1) same Some by (simp add: thread_process_netlink_def)
qed

text \<open>
  What an event may be: one of a registered descriptor, after writes of the devices that keep to the
  sizes they were told; and what the kernel sends are messages, with room for new routes.
\<close>

definition event_ok :: "ufpd_thread \<Rightarrow> event \<Rightarrow> bool" where
  "event_ok thread ev \<longleftrightarrow> device_ok thread (ev_device ev) \<and>
     (let e = ev_desc ev; port = ep_port_index e < length (ports (th_plane thread)) in
      case ep_type e of
        EPOLL_IRQ_RX \<Rightarrow> port \<and> ep_data e \<noteq> None
      | EPOLL_IRQ_TX \<Rightarrow> port \<and> ep_data e \<noteq> None
      | EPOLL_TUN \<Rightarrow> port
      | EPOLL_NETLINK \<Rightarrow> \<forall>bs. thread_read thread (ev_read ev) = Some bs \<longrightarrow> nl_input (device_write (ev_device ev) thread) bs
      | EPOLL_SIGNAL \<Rightarrow> True)"

lemma event_safe:
  assumes inv: "thread_inv thread" and ev: "event_ok thread ev" and len: "length packet = UFPD_RX_BUDGET"
  shows "\<exists>c thread' packet'. thread_event thread packet ev = Some (c, thread', packet') \<and> thread_inv thread' \<and>
    thread_same thread thread' \<and> length packet' = UFPD_RX_BUDGET \<and>
    c = (if ev_read ev = None then Err else if ep_type (ev_desc ev) = EPOLL_SIGNAL then Out else Go) \<and>
    (ep_type (ev_desc ev) \<noteq> EPOLL_IRQ_TX \<longrightarrow> rx_drains (th_plane thread) (th_plane thread'))"
proof -
  let ?t = "device_write (ev_device ev) thread" and ?e = "ev_desc ev"
  have dv: "device_ok thread (ev_device ev)" using ev by (simp add: event_ok_def)
  note W = device_write_safe [OF inv dv]
  have n: "length (ports (th_plane ?t)) = length (ports (th_plane thread))"
    using W(2) plane_static_length [of "th_plane thread" "th_plane ?t"] by (simp add: thread_same_def)
  have b: "th_buf ?t = th_buf thread" "th_read_size ?t = th_read_size thread" by (simp_all add: device_write_def)
  note drains = rx_drains_trans [OF device_write_drains [OF dv]]
  show ?thesis
  proof (cases "ep_type ?e")
    case EPOLL_IRQ_RX
    then have e: "ep_port_index ?e < length (ports (th_plane ?t))" "ep_data ?e \<noteq> None" using ev n by (auto simp: event_ok_def Let_def)
    from irq_rx_safe [OF W(1) e _ len, of "ev_read ev"] W(3) e(1) n b
    obtain err t1 pk where "thread_process_irq_rx ?t ?e packet (ev_read ev) = Some (err, t1, pk)" "thread_inv t1" "thread_same ?t t1"
        "length pk = UFPD_RX_BUDGET" "err < 0 \<longleftrightarrow> ev_read ev = None" "rx_drains (th_plane ?t) (th_plane t1)" by auto
    then show ?thesis using EPOLL_IRQ_RX thread_same_trans [OF W(2)] drains by (simp add: thread_event_def ctl_of_def)
  next
    case EPOLL_IRQ_TX
    then have e: "ep_port_index ?e < length (ports (th_plane ?t))" "ep_data ?e \<noteq> None" using ev n by (auto simp: event_ok_def Let_def)
    from irq_tx_safe [OF W(1) e, of "ev_read ev"]
    obtain err t1 where "thread_process_irq_tx ?t ?e (ev_read ev) = Some (err, t1)" "thread_inv t1" "thread_same ?t t1" "err < 0 \<longleftrightarrow> ev_read ev = None"
      by auto
    then show ?thesis using EPOLL_IRQ_TX len thread_same_trans [OF W(2)] by (simp add: thread_event_def ctl_of_def)
  next
    case EPOLL_TUN
    then have e: "ep_port_index ?e < length (ports (th_plane ?t))" using ev n by (auto simp: event_ok_def Let_def)
    from tun_safe [OF W(1) e, of "ev_read ev"]
    obtain err t1 where "thread_process_tun ?t ?e (ev_read ev) = Some (err, t1)" "thread_inv t1" "thread_same ?t t1" "err < 0 \<longleftrightarrow> ev_read ev = None"
        "rx_drains (th_plane ?t) (th_plane t1)"
      by auto
    then show ?thesis using EPOLL_TUN len thread_same_trans [OF W(2)] drains by (simp add: thread_event_def ctl_of_def)
  next
    case EPOLL_NETLINK
    then have "\<forall>bs. thread_read ?t (ev_read ev) = Some bs \<longrightarrow> nl_input ?t bs" using ev b by (simp add: event_ok_def thread_read_def)
    from netlink_safe [OF W(1) this]
    obtain err t1 where "thread_process_netlink ?t (ev_read ev) = Some (err, t1)" "thread_inv t1" "thread_same ?t t1" "err < 0 \<longleftrightarrow> ev_read ev = None"
        "th_plane t1 = th_plane ?t"
      by auto
    then show ?thesis using EPOLL_NETLINK len thread_same_trans [OF W(2)] device_write_drains [OF dv] by (simp add: thread_event_def ctl_of_def)
  next
    case EPOLL_SIGNAL
    then show ?thesis using W(1,2) len device_write_drains [OF dv]
      by (cases "ev_read ev") (simp_all add: thread_event_def thread_process_signal_def thread_read_def)
  qed
qed

text \<open>Events that are as they should be when their turn comes.\<close>

fun events_ok :: "ufpd_thread \<Rightarrow> ufp_packet list \<Rightarrow> event list \<Rightarrow> bool" where
  "events_ok thread packet [] = True"
| "events_ok thread packet (ev # evs) \<longleftrightarrow> event_ok thread ev \<and>
     (case thread_event thread packet ev of Some (Go, thread', packet') \<Rightarrow> events_ok thread' packet' evs | _ \<Rightarrow> True)"

fun waits_ok :: "ufpd_thread \<Rightarrow> ufp_packet list \<Rightarrow> event list option list \<Rightarrow> bool" where
  "waits_ok thread packet [] = True"
| "waits_ok thread packet (None # waits) = True"
| "waits_ok thread packet (Some events # waits) \<longleftrightarrow> events_ok thread packet (take EPOLL_MAXEVENTS events) \<and>
     (case thread_events thread packet (take EPOLL_MAXEVENTS events) of
        Some (Go, thread', packet') \<Rightarrow> waits_ok thread' packet' waits | _ \<Rightarrow> True)"

text \<open>The event that ends a sequence: the first one whose \<open>read\<close> fails or that is a signal.\<close>

fun events_end :: "event list \<Rightarrow> ctl" where
  "events_end [] = Go"
| "events_end (ev # evs) = (if ev_read ev = None then Err else if ep_type (ev_desc ev) = EPOLL_SIGNAL then Out else events_end evs)"

lemma events_safe:
  assumes "thread_inv thread" "events_ok thread packet evs" "length packet = UFPD_RX_BUDGET"
  shows "\<exists>thread' packet'. thread_events thread packet evs = Some (events_end evs, thread', packet') \<and> thread_inv thread' \<and>
    thread_same thread thread' \<and> length packet' = UFPD_RX_BUDGET \<and>
    ((\<forall>ev \<in> set evs. ep_type (ev_desc ev) \<noteq> EPOLL_IRQ_TX) \<longrightarrow> rx_drains (th_plane thread) (th_plane thread'))"
  using assms
proof (induction evs arbitrary: thread packet)
  case (Cons ev evs)
  then have ok: "event_ok thread ev" by simp
  obtain c t1 p1 where e: "thread_event thread packet ev = Some (c, t1, p1)" "thread_inv t1" "thread_same thread t1" "length p1 = UFPD_RX_BUDGET"
      "c = (if ev_read ev = None then Err else if ep_type (ev_desc ev) = EPOLL_SIGNAL then Out else Go)"
      "ep_type (ev_desc ev) \<noteq> EPOLL_IRQ_TX \<longrightarrow> rx_drains (th_plane thread) (th_plane t1)"
    using event_safe [OF Cons.prems(1) ok Cons.prems(3)] by blast
  show ?case
  proof (cases "c = Go")
    case True
    then have "events_ok t1 p1 evs" using Cons.prems(2) e(1) by simp
    from Cons.IH [OF e(2) this e(4)] e True show ?thesis by (auto split: if_splits intro: thread_same_trans rx_drains_trans)
  next
    case False
    then show ?thesis using e by (auto split: if_splits)
  qed
qed simp

fun waits_end :: "event list option list \<Rightarrow> int" where
  "waits_end [] = -1"
| "waits_end (None # waits) = -1"
| "waits_end (Some events # waits) =
     (case events_end (take EPOLL_MAXEVENTS events) of Go \<Rightarrow> waits_end waits | Out \<Rightarrow> 0 | Err \<Rightarrow> -1)"

lemma thread_wait_safe:
  assumes "thread_inv thread" "waits_ok thread packet waits" "length packet = UFPD_RX_BUDGET"
  shows "\<exists>thread'. thread_wait thread packet waits = Some (waits_end waits, thread') \<and> thread_inv thread' \<and> thread_same thread thread'"
  using assms
proof (induction thread packet waits rule: thread_wait.induct)
  case (3 thread packet events waits)
  have ok: "events_ok thread packet (take EPOLL_MAXEVENTS events)" using 3(3) by simp
  obtain t1 p1 where e: "thread_events thread packet (take EPOLL_MAXEVENTS events) = Some (events_end (take EPOLL_MAXEVENTS events), t1, p1)"
      "thread_inv t1" "thread_same thread t1" "length p1 = UFPD_RX_BUDGET"
    using events_safe [OF 3(2) ok 3(4)] by blast
  show ?case
  proof (cases "events_end (take EPOLL_MAXEVENTS events)")
    case Go
    have "waits_ok t1 p1 waits" using 3(3) e(1) Go by simp
    from 3(1) [OF e(1) refl refl Go e(2) this e(4)] e(1,3) Go show ?thesis by (auto intro: thread_same_trans)
  qed (use e in simp_all)
qed auto


text \<open>C38. Receive buffers are posted by transmit interrupts only. Any events that contain no transmit interrupt
  (receive interrupts on all ports, frames from the host, messages of the kernel, after any writes of the devices) are handled
  without a fault, and the posted receive buffers of every port are afterwards a rest of those before. A port
  that has used up its buffers while nothing is sent, because its packets are dropped or handed to the
  host, does not receive again until something is sent.
\<close>

theorem rx_refill_needs_tx:
  assumes "thread_inv thread" "events_ok thread packet evs" "length packet = UFPD_RX_BUDGET"
    "\<forall>ev \<in> set evs. ep_type (ev_desc ev) \<noteq> EPOLL_IRQ_TX"
  shows "\<exists>c thread' packet'. thread_events thread packet evs = Some (c, thread', packet') \<and> thread_inv thread' \<and>
    (\<forall>i. suffix (rx_posted (th_plane thread') i) (rx_posted (th_plane thread) i))"
  using events_safe [OF assms(1-3)] assms(4) unfolding rx_drains_def by blast

end
