(* ===== verification/Thread_Life.thy ===== *)
theory Thread_Life
  imports Thread_Loop
begin

text \<open>
  The life of a forwarding thread: whatever happens while it builds its tables and while it serves
  events, the pool has at the end the blocks it had at the beginning.
\<close>

subsection \<open>The account of the pool\<close>

text \<open>The blocks in use are those of \<open>B\<close> and those of \<open>M\<close>, each once.\<close>

definition acct :: "ufp_mpool \<Rightarrow> addr set \<Rightarrow> addr multiset \<Rightarrow> bool" where
  "acct mp B M \<longleftrightarrow> mp_wf mp \<and> mset_set (mp_live mp) = mset_set B + M"

definition fs_ms :: "fib_store \<Rightarrow> addr multiset" where
  "fs_ms fs = add_mset (fib_addr (fs_fib fs)) (mset_set (fs_owned fs))"

definition ns_ms :: "neigh_store \<Rightarrow> addr multiset" where
  "ns_ms ns = add_mset (nt_addr (ns_neigh ns)) (mset_set (ns_owned ns))"

lemma acct_in:
  assumes "acct mp B M" "a \<in># M"
  shows "a \<in> mp_live mp"
proof -
  have "finite (mp_live mp)" using assms(1) finite_mp_live by (simp add: acct_def)
  moreover have "a \<in># mset_set (mp_live mp)" using assms by (simp add: acct_def)
  ultimately show ?thesis by simp
qed

lemma acct_remove:
  assumes a: "acct mp B (M + mset_set F)" and F: "finite F" and mp': "mp_wf mp'" "mp_live mp' = mp_live mp - F"
  shows "acct mp' B M"
proof -
  have fin: "finite (mp_live mp)" using a finite_mp_live by (simp add: acct_def)
  have "F \<subseteq> mp_live mp" using acct_in [OF a] F by auto
  then have "mset_set (mp_live mp') = mset_set (mp_live mp) - mset_set F" unfolding mp'(2) by (rule mset_set_Diff [OF fin])
  then show ?thesis using a mp'(1) by (simp add: acct_def)
qed

lemma acct_disjoint:
  assumes "acct mp B (M + add_mset a N)"
  shows "a \<notin># N" "a \<notin># M"
proof -
  have "count (mset_set (mp_live mp)) a \<le> 1" by (simp add: count_mset_set')
  then have "count N a = 0" "count M a = 0" using assms by (auto simp: acct_def)
  then show "a \<notin># N" "a \<notin># M" by (simp_all add: count_eq_zero_iff)
qed

lemma acct_alloc:
  assumes a: "acct mp B M" and n: "mem_size_ok n"
  shows "\<exists>r mp'. ufp_mem_alloc mp n = Some (r, mp') \<and> (case r of None \<Rightarrow> acct mp' B M | Some x \<Rightarrow> acct mp' B (add_mset x M))"
proof -
  have wf: "mp_wf mp" using a by (simp add: acct_def)
  obtain r mp' where r: "ufp_mem_alloc mp n = Some (r, mp')" using pool.alloc_total [OF wf n] by blast
  show ?thesis
  proof (cases r)
    case None
    then show ?thesis using pool.alloc_fail [OF wf n] r a by (simp add: acct_def)
  next
    case (Some x)
    then have "mp_wf mp'" "x \<notin> mp_live mp" "mp_live mp' = insert x (mp_live mp)" using pool.alloc_fresh [OF wf n] r by auto
    then show ?thesis using Some r a finite_mp_live [OF wf] by (simp add: acct_def)
  qed
qed

lemma acct_free:
  assumes "acct mp B (add_mset a M)"
  shows "\<exists>mp'. ufp_mem_free mp a = Some mp' \<and> acct mp' B M"
proof -
  have "mp_wf mp" "a \<in> mp_live mp" using assms acct_in [OF assms, of a] by (auto simp: acct_def)
  from pool.release_live [OF this] obtain mp' where m: "ufp_mem_free mp a = Some mp'" "mp_wf mp'" "mp_live mp' = mp_live mp - {a}" by blast
  have "acct mp B (M + mset_set {a})" using assms by simp
  from acct_remove [OF this _ m(2,3)] m(1) show ?thesis by simp
qed

subsection \<open>Tables that come and go\<close>

lemma fs_ms_insert: "fs_ok mp fs D rib \<Longrightarrow> fib_addr (fs_fib fs) \<notin> fs_owned fs \<Longrightarrow>
    fs_ms fs = mset_set (insert (fib_addr (fs_fib fs)) (fs_owned fs)) \<and> finite (fs_owned fs)"
  using finite_subset [OF fs_okD(2)] finite_mp_live [OF fs_okD(1)] by (auto simp: fs_ms_def)

lemma ns_ms_insert: "ns_ok mp family ns \<Longrightarrow> nt_addr (ns_neigh ns) \<notin> ns_owned ns \<Longrightarrow>
    ns_ms ns = mset_set (insert (nt_addr (ns_neigh ns)) (ns_owned ns)) \<and> finite (ns_owned ns)"
  using finite_subset [OF ns_okD(2)] finite_mp_live [OF ns_okD(1)] by (auto simp: ns_ms_def)

lemma fs_ok_acct:
  assumes "acct mp B (M + fs_ms fs)" "fs_ok mp0 fs D rib"
  shows "fs_ok mp fs D rib"
proof -
  have "finite (fs_owned fs)" using finite_subset [OF fs_okD(2) [OF assms(2)]] finite_mp_live [OF fs_okD(1) [OF assms(2)]] .
  then have "fs_owned fs \<subseteq> mp_live mp" using acct_in [OF assms(1)] by (auto simp: fs_ms_def)
  then show ?thesis using fs_ok_frame [OF assms(2)] assms(1) by (simp add: acct_def)
qed

lemma ns_ok_acct:
  assumes "acct mp B (M + ns_ms ns)" "ns_ok mp0 family ns"
  shows "ns_ok mp family ns"
proof -
  have "finite (ns_owned ns)" using finite_subset [OF ns_okD(2) [OF assms(2)]] finite_mp_live [OF ns_okD(1) [OF assms(2)]] .
  then have "ns_owned ns \<subseteq> mp_live mp" using acct_in [OF assms(1)] by (auto simp: ns_ms_def)
  then show ?thesis using ns_ok_frame [OF assms(2)] assms(1) by (simp add: acct_def)
qed

lemma fib_drop_acct:
  assumes a: "acct (th_mpool thread) B (M + fs_ms fs)" and ok0: "fs_ok mp0 fs D rib"
  shows "\<exists>mp. fib_drop fs thread = Some (thread\<lparr>th_mpool := mp\<rparr>) \<and> acct mp B M"
proof -
  let ?mp = "th_mpool thread" and ?a = "fib_addr (fs_fib fs)"
  note ok = fs_ok_acct [OF a ok0]
  have fin: "finite (fs_owned fs)" using finite_subset [OF fs_okD(2) [OF ok]] finite_mp_live [OF fs_okD(1) [OF ok]] .
  have new: "?a \<notin> fs_owned fs" using acct_disjoint(1) [of ?mp B M ?a "mset_set (fs_owned fs)"] a fin by (simp add: fs_ms_def)
  have "?a \<in> mp_live ?mp" using acct_in [OF a] by (simp add: fs_ms_def)
  then have W: "mset_set (mp_live ?mp - fs_owned fs) = add_mset ?a (mset_set (mp_live ?mp - fs_owned fs - {?a}))"
    using finite_mp_live [OF fs_okD(1) [OF ok]] new by (simp add: mset_set.remove)
  have "fib_inv (fs_fib fs) (fib_mem thread fs) D rib (add_mset ?a (mset_set (mp_live ?mp - fs_owned fs - {?a})))"
    using fs_okD(3) [OF ok] unfolding W fib_mem_def .
  from fib_release_spec [OF this] obtain m' where m: "fib_release (fs_fib fs) (fib_mem thread fs) = Some m'" "mp_wf (lm_pool m')"
      "mp_live (lm_pool m') = mp_live ?mp - insert ?a (fs_owned fs)"
    using finite_mp_live [OF fs_okD(1) [OF ok]] Diff_insert [of "mp_live ?mp" ?a "fs_owned fs"] by auto
  have "acct ?mp B (M + mset_set (insert ?a (fs_owned fs)))" using a fs_ms_insert [OF ok new] by simp
  from acct_remove [OF this _ m(2,3)] fin m(1) show ?thesis by (auto simp: fib_drop_def)
qed

lemma neigh_release_spec:
  assumes "neigh_inv neigh family m W" "nt_addr neigh \<in> W"
  shows "\<exists>m'. neigh_release neigh m = Some m' \<and> mp_wf (lm_pool m') \<and> mp_live (lm_pool m') = W - {nt_addr neigh}"
proof -
  obtain tab m1 where d: "hash_delete_all (nt_ops neigh) (nt_table neigh) m = Some (tab, m1)" "mp_wf (lm_pool m1)" "mp_live (lm_pool m1) = W"
    using assms(1)
  proof (cases rule: neigh_inv_cases)
    case v4
    then show ?thesis using neigh4.delete_all_spec [OF v4(4)] that by auto
  next
    case v6
    then show ?thesis using neigh6.delete_all_spec [OF v6(4)] that by auto
  qed
  from pool.release_live [OF d(2), of "nt_addr neigh"] d(3) assms(2)
  obtain mp where "ufp_mem_free (lm_pool m1) (nt_addr neigh) = Some mp" "mp_wf mp" "mp_live mp = W - {nt_addr neigh}" by auto
  then show ?thesis using d(1) by (simp add: neigh_release_def lpm_mem_free_def)
qed

lemma neigh_drop_acct:
  assumes a: "acct (th_mpool thread) B (M + ns_ms ns)" and ok0: "ns_ok mp0 family ns"
  shows "\<exists>mp. neigh_drop ns thread = Some (thread\<lparr>th_mpool := mp\<rparr>) \<and> acct mp B M"
proof -
  let ?mp = "th_mpool thread" and ?a = "nt_addr (ns_neigh ns)"
  note ok = ns_ok_acct [OF a ok0]
  have fin: "finite (ns_owned ns)" using finite_subset [OF ns_okD(2) [OF ok]] finite_mp_live [OF ns_okD(1) [OF ok]] .
  have new: "?a \<notin> ns_owned ns" using acct_disjoint(1) [of ?mp B M ?a "mset_set (ns_owned ns)"] a fin by (simp add: ns_ms_def)
  have "?a \<in> mp_live ?mp - ns_owned ns" using acct_in [OF a] new by (simp add: ns_ms_def)
  from neigh_release_spec [OF ns_okD(3) [OF ok] this] obtain m' where
    m: "neigh_release (ns_neigh ns) (neigh_mem thread ns) = Some m'" "mp_wf (lm_pool m')" "mp_live (lm_pool m') = mp_live ?mp - insert ?a (ns_owned ns)"
    unfolding neigh_mem_def Diff_insert [of "mp_live ?mp" ?a "ns_owned ns"] by blast
  have "acct ?mp B (M + mset_set (insert ?a (ns_owned ns)))" using a ns_ms_insert [OF ok new] by simp
  from acct_remove [OF this _ m(2,3)] fin m(1) show ?thesis by (auto simp: neigh_drop_def)
qed

text \<open>New tables.\<close>

definition fs_new :: "fib_store \<Rightarrow> bool" where
  "fs_new fs \<longleftrightarrow> (\<exists>a. fs = \<lparr>fs_fib = \<lparr>fib_addr = a, fib_table = lpm_init\<rparr>, fs_objs = Map.empty\<rparr>)"

definition ns_new :: "bool \<Rightarrow> neigh_store \<Rightarrow> bool" where
  "ns_new v ns \<longleftrightarrow> (\<exists>a. ns = \<lparr>ns_neigh = \<lparr>nt_addr = a, nt_ops = (if v then neigh_ops_v6 else neigh_ops_v4), nt_table = hash_init\<rparr>,
     ns_objs = Map.empty\<rparr>)"

lemma fs_new_ok:
  assumes "fs_new fs" "mp_wf mp"
  shows "fs_ok mp fs D []" "fs_owned fs = {}" "fs_ms fs = {#fib_addr (fs_fib fs)#}"
proof -
  obtain a where fs: "fs = \<lparr>fs_fib = \<lparr>fib_addr = a, fib_table = lpm_init\<rparr>, fs_objs = Map.empty\<rparr>" using assms(1) by (auto simp: fs_new_def)
  have "fib_inv \<lparr>fib_addr = a, fib_table = lpm_init\<rparr> \<lparr>lm_pool = mp, lm_objs = Map.empty\<rparr> D [] (mset_set (mp_live mp))"
    using assms(2) finite_mp_live [OF assms(2)] by (auto simp: fib_inv_def lpm_mem_ok_def rib_ok_def rib_routes_def count_mset_set')
  then show "fs_ok mp fs D []" by (auto simp: fs_ok_def fs)
  show "fs_owned fs = {}" "fs_ms fs = {#fib_addr (fs_fib fs)#}" by (simp_all add: fs_ms_def fs_owned_def fs)
qed

lemma ns_new_ok:
  assumes "ns_new v ns" "mp_wf mp"
  shows "ns_ok mp (fam v) ns" "ns_objs ns = Map.empty" "ns_owned ns = {}" "ns_ms ns = {#nt_addr (ns_neigh ns)#}"
proof -
  obtain a where ns: "ns = \<lparr>ns_neigh = \<lparr>nt_addr = a, nt_ops = (if v then neigh_ops_v6 else neigh_ops_v4), nt_table = hash_init\<rparr>,
     ns_objs = Map.empty\<rparr>" using assms(1) by (auto simp: ns_new_def)
  have "hash_ok ne_dst_addr (if fam v = AF_INET then neigh_bucket_v4 else neigh_bucket_v6) neigh_key_off hash_init
      \<lparr>lm_pool = mp, lm_objs = Map.empty\<rparr> (mp_live mp)"
    using assms(2) by (intro hash_init_ok) simp_all
  then have "neigh_inv (ns_neigh ns) (fam v) \<lparr>lm_pool = mp, lm_objs = ns_objs ns\<rparr> (mp_live mp)"
    by (cases v) (simp_all add: neigh_inv_def neigh_family_def ns fam_def)
  then show "ns_ok mp (fam v) ns" by (auto simp: ns_ok_def)
  show "ns_objs ns = Map.empty" "ns_owned ns = {}" "ns_ms ns = {#nt_addr (ns_neigh ns)#}" by (simp_all add: ns_ms_def ns_owned_def ns)
qed

lemma fib_new_acct:
  assumes a: "acct (th_mpool thread) B M"
  shows "\<exists>r mp. fib_new thread = Some (r, thread\<lparr>th_mpool := mp\<rparr>) \<and>
    (case r of None \<Rightarrow> acct mp B M | Some fs \<Rightarrow> fs_new fs \<and> acct mp B (M + fs_ms fs))"
proof -
  obtain r mp where r: "ufp_mem_alloc (th_mpool thread) sizeof_fib = Some (r, mp)"
      "case r of None \<Rightarrow> acct mp B M | Some x \<Rightarrow> acct mp B (add_mset x M)"
    using acct_alloc [OF a fib_size_ok(1)] by blast
  then show ?thesis
    by (cases r) (auto simp: fib_new_def fib_alloc_def fs_new_def fs_ms_def fs_owned_def)
qed

lemma neigh_new_acct:
  assumes a: "acct (th_mpool thread) B M"
  shows "\<exists>r mp. neigh_new thread (fam v) = Some (r, thread\<lparr>th_mpool := mp\<rparr>) \<and>
    (case r of None \<Rightarrow> acct mp B M | Some ns \<Rightarrow> ns_new v ns \<and> acct mp B (M + ns_ms ns))"
proof -
  obtain r mp where r: "ufp_mem_alloc (th_mpool thread) sizeof_neigh_table = Some (r, mp)"
      "case r of None \<Rightarrow> acct mp B M | Some x \<Rightarrow> acct mp B (add_mset x M)"
    using acct_alloc [OF a neigh_size_ok(1)] by blast
  then show ?thesis
    by (cases r; cases v)
      (auto simp: neigh_new_def neigh_alloc_def ns_new_def ns_ms_def ns_owned_def fam_def AF_INET_def AF_INET6_def)
qed


subsection \<open>Setting up and tearing down\<close>

definition nss_ms :: "neigh_store list \<Rightarrow> addr multiset" where
  "nss_ms nss = sum_list (map ns_ms nss)"

lemma nss_ms_simps [simp]: "nss_ms [] = {#}" "nss_ms (ns # nss) = ns_ms ns + nss_ms nss" "nss_ms (xs @ ys) = nss_ms xs + nss_ms ys"
  by (simp_all add: nss_ms_def)

text \<open>The state of the neighbour tables: how far the loop came.\<close>

lemma neigh_setup_acct:
  assumes "acct (th_mpool thread) B M" "i + left \<le> length (ports (th_plane thread))"
  shows "\<exists>all n4 n6 mp rs. neigh_setup i left thread =
      Some (all, thread\<lparr>th_mpool := mp, th_neigh_inet := th_neigh_inet thread @ n4, th_neigh_inet6 := th_neigh_inet6 thread @ n6, th_read_size := rs\<rparr>) \<and>
    acct mp B (M + nss_ms n4 + nss_ms n6) \<and> length n6 = length n4 \<and> (all \<longrightarrow> length n4 = left) \<and>
    (\<forall>ns \<in> set n4. ns_new False ns) \<and> (\<forall>ns \<in> set n6. ns_new True ns)"
  using assms
proof (induction left arbitrary: i thread M)
  case 0
  then show ?case
    by (intro exI [of _ True] exI [of _ "[]"] exI [of _ "th_mpool thread"] exI [of _ "th_read_size thread"]) simp
next
  case (Suc left)
  let ?up = "\<lambda>mp. thread\<lparr>th_mpool := mp\<rparr>"
  have fail: ?case if "neigh_setup i (Suc left) thread = Some (False, ?up mp)" "acct mp B M" for mp
    using that by (intro exI [of _ False] exI [of _ "[]"] exI [of _ mp] exI [of _ "th_read_size thread"]) simp
  obtain r4 mp4 where r4: "neigh_new thread AF_INET = Some (r4, ?up mp4)"
      "case r4 of None \<Rightarrow> acct mp4 B M | Some ns \<Rightarrow> ns_new False ns \<and> acct mp4 B (M + ns_ms ns)"
    using neigh_new_acct [OF Suc.prems(1), of False] by (auto simp: fam_def)
  show ?case
  proof (cases r4)
    case None
    then show ?thesis using r4 by (intro fail [of mp4]) simp_all
  next
    case (Some ns4)
    then have n4: "ns_new False ns4" "acct (th_mpool (?up mp4)) B (M + ns_ms ns4)" using r4(2) by simp_all
    obtain r6 mp6 where r6: "neigh_new (?up mp4) AF_INET6 = Some (r6, ?up mp6)"
        "case r6 of None \<Rightarrow> acct mp6 B (M + ns_ms ns4) | Some ns \<Rightarrow> ns_new True ns \<and> acct mp6 B (M + ns_ms ns4 + ns_ms ns)"
      using neigh_new_acct [OF n4(2), of True] by (auto simp: fam_def)
    show ?thesis
    proof (cases r6)
      case None
      then have a: "acct (th_mpool (?up mp6)) B (M + ns_ms ns4)" using r6(2) by simp
      have "mp_wf mp6" using a by (simp add: acct_def)
      from neigh_drop_acct [OF a ns_new_ok(1) [OF n4(1) this]] obtain mp where
        d: "neigh_drop ns4 (?up mp6) = Some (?up mp)" "acct mp B M" by auto
      then show ?thesis using r4(1) Some r6(1) None by (intro fail [of mp]) simp_all
    next
      case (Some ns6)
      let ?port = "ports (th_plane thread) ! i"
      have mtu: "ufp_framemtu (th_plane (?up mp6)) i = Some (port_mtu_frame ?port)"
        using Suc.prems(2) by (simp add: ufp_framemtu_def plane_port_def)
      let ?rs = "if unat (port_mtu_frame ?port) > th_read_size thread then unat (port_mtu_frame ?port) else th_read_size thread"
      let ?t = "thread\<lparr>th_mpool := mp6, th_neigh_inet := th_neigh_inet thread @ [ns4], th_neigh_inet6 := th_neigh_inet6 thread @ [ns6], th_read_size := ?rs\<rparr>"
      have step: "neigh_setup i (Suc left) thread = neigh_setup (i + 1) left ?t"
        using r4(1) \<open>r4 = Some ns4\<close> r6(1) Some mtu by simp
      have "acct (th_mpool ?t) B (M + ns_ms ns4 + ns_ms ns6)" using r6(2) Some by simp
      from Suc.IH [OF this, of "i + 1"] Suc.prems(2) obtain all n4' n6' mp rs where
        I: "neigh_setup (i + 1) left ?t = Some (all, ?t\<lparr>th_mpool := mp, th_neigh_inet := th_neigh_inet ?t @ n4', th_neigh_inet6 := th_neigh_inet6 ?t @ n6', th_read_size := rs\<rparr>)"
          "acct mp B (M + ns_ms ns4 + ns_ms ns6 + nss_ms n4' + nss_ms n6')" "length n6' = length n4'" "all \<longrightarrow> length n4' = left"
          "\<forall>ns \<in> set n4'. ns_new False ns" "\<forall>ns \<in> set n6'. ns_new True ns" by auto
      have "acct mp B (M + nss_ms (ns4 # n4') + nss_ms (ns6 # n6'))" using I(2) by (simp add: ac_simps)
      then show ?thesis
        unfolding step I(1) using I(3-6) n4(1) r6(2) Some
        by (intro exI [of _ all] exI [of _ "ns4 # n4'"] exI [of _ "ns6 # n6'"] exI [of _ mp] exI [of _ rs]) simp
    qed
  qed
qed

lemma neigh_teardown_acct:
  assumes "acct (th_mpool thread) B (M + nss_ms n6 + nss_ms n4)" "length n6 = length n4"
    "\<forall>ns \<in> set n6. ns_ok mp0 AF_INET6 ns" "\<forall>ns \<in> set n4. ns_ok mp0 AF_INET ns"
  shows "\<exists>mp. neigh_teardown (zip n6 n4) thread = Some (thread\<lparr>th_mpool := mp\<rparr>) \<and> acct mp B M"
  using assms(2,1,3,4)
proof (induction n6 n4 arbitrary: thread rule: list_induct2)
  case Nil
  then show ?case by (intro exI [of _ "th_mpool thread"]) simp
next
  case (Cons a as b bs)
  let ?N = "M + nss_ms as + nss_ms bs"
  have "acct (th_mpool thread) B (?N + ns_ms b + ns_ms a)" using Cons.prems(1) by (simp add: ac_simps)
  from neigh_drop_acct [OF this, of mp0 AF_INET6] Cons.prems(2) obtain mp1 where
    d1: "neigh_drop a thread = Some (thread\<lparr>th_mpool := mp1\<rparr>)" "acct mp1 B (?N + ns_ms b)" by auto
  then have "acct (th_mpool (thread\<lparr>th_mpool := mp1\<rparr>)) B (?N + ns_ms b)" by simp
  from neigh_drop_acct [OF this, of mp0 AF_INET] Cons.prems(3) obtain mp2 where
    d2: "neigh_drop b (thread\<lparr>th_mpool := mp1\<rparr>) = Some (thread\<lparr>th_mpool := mp2\<rparr>)" "acct mp2 B ?N" by auto
  with Cons.IH [of "thread\<lparr>th_mpool := mp2\<rparr>"] Cons.prems(2,3) d1(1) show ?case by auto
qed

text \<open>The thread has these tables and arrays, and nothing else.\<close>

definition fibs_ms :: "ufpd_thread \<Rightarrow> addr multiset" where
  "fibs_ms thread = fs_ms (th_fib_inet thread) + fs_ms (th_fib_inet6 thread)"

text \<open>The end of the thread: its pool has the blocks \<open>B\<close>, and the main thread is told.\<close>

definition ended :: "addr set \<Rightarrow> os \<Rightarrow> (ufpd_thread \<times> os) option \<Rightarrow> bool" where
  "ended B s r \<longleftrightarrow> (\<exists>thread. r = Some (thread, s\<lparr>os_log := os_log s @ [PTHREAD_KILL SIGINT]\<rparr>) \<and> acct (th_mpool thread) B {#})"

lemma err_fib_inet6_ends:
  assumes "acct (th_mpool thread) B (fs_ms (th_fib_inet thread))" "fs_ok mp0 (th_fib_inet thread) D rib"
  shows "ended B s (err_fib_inet6_alloc thread s)"
  using fib_drop_acct [of thread B "{#}" "th_fib_inet thread", OF _ assms(2)] assms(1)
  by (auto simp: ended_def err_fib_inet6_alloc_def err_fib_inet_alloc_def)

lemma err_neigh_table_inet_ends:
  assumes "acct (th_mpool thread) B (fibs_ms thread)"
    "fs_ok mp0 (th_fib_inet thread) D rib" "fs_ok mp0 (th_fib_inet6 thread) D' rib'"
  shows "ended B s (err_neigh_table_inet thread s)"
proof -
  obtain mp where d: "fib_drop (th_fib_inet6 thread) thread = Some (thread\<lparr>th_mpool := mp\<rparr>)" "acct mp B (fs_ms (th_fib_inet thread))"
    using fib_drop_acct [OF assms(1) [unfolded fibs_ms_def] assms(3)] by blast
  have "ended B s (err_fib_inet6_alloc (thread\<lparr>th_mpool := mp\<rparr>) s)" by (rule err_fib_inet6_ends [of _ _ mp0]) (use d assms(2) in simp_all)
  then show ?thesis using d(1) by (simp add: err_neigh_table_inet_def)
qed

lemma err_neigh_table_inet6_ends:
  assumes "acct (th_mpool thread) B (add_mset a4 (fibs_ms thread))"
    "fs_ok mp0 (th_fib_inet thread) D rib" "fs_ok mp0 (th_fib_inet6 thread) D' rib'"
  shows "ended B s (err_neigh_table_inet6 a4 thread s)"
proof -
  obtain mp where d: "ufp_mem_free (th_mpool thread) a4 = Some mp" "acct mp B (fibs_ms thread)" using acct_free [OF assms(1)] by blast
  have "ended B s (err_neigh_table_inet (thread\<lparr>th_mpool := mp\<rparr>) s)"
    by (rule err_neigh_table_inet_ends [of _ _ mp0]) (use d(2) assms(2,3) in \<open>simp_all add: fibs_ms_def\<close>)
  then show ?thesis using d(1) by (simp add: err_neigh_table_inet6_def block_drop_def)
qed

text \<open>All tables of the thread and its two arrays.\<close>

definition tabs_ms :: "addr \<Rightarrow> addr \<Rightarrow> ufpd_thread \<Rightarrow> addr multiset" where
  "tabs_ms a4 a6 thread = {#a4, a6#} + fibs_ms thread + nss_ms (th_neigh_inet6 thread) + nss_ms (th_neigh_inet thread)"

lemma err_assign_ports_ends:
  assumes a: "acct (th_mpool thread) B (tabs_ms a4 a6 thread)" and len: "length (th_neigh_inet6 thread) = length (th_neigh_inet thread)"
    and ok: "\<forall>ns \<in> set (th_neigh_inet6 thread). ns_ok mp0 AF_INET6 ns" "\<forall>ns \<in> set (th_neigh_inet thread). ns_ok mp0 AF_INET ns"
      "fs_ok mp0 (th_fib_inet thread) D rib" "fs_ok mp0 (th_fib_inet6 thread) D' rib'"
  shows "ended B s (err_assign_ports a4 a6 thread s)"
proof -
  obtain mp where d: "neigh_teardown (zip (th_neigh_inet6 thread) (th_neigh_inet thread)) thread = Some (thread\<lparr>th_mpool := mp\<rparr>)"
      "acct mp B ({#a4, a6#} + fibs_ms thread)"
    using neigh_teardown_acct [OF _ len ok(1,2)] a unfolding tabs_ms_def by blast
  have "acct mp B (add_mset a6 (add_mset a4 (fibs_ms thread)))" using d(2) by (simp add: add_mset_commute)
  from acct_free [OF this] obtain mp' where f: "ufp_mem_free mp a6 = Some mp'" "acct mp' B (add_mset a4 (fibs_ms thread))" by blast
  have "ended B s (err_neigh_table_inet6 a4 (thread\<lparr>th_mpool := mp'\<rparr>) s)"
    by (rule err_neigh_table_inet6_ends [of _ _ _ mp0]) (use f(2) ok(3,4) in \<open>simp_all add: fibs_ms_def\<close>)
  then show ?thesis using d(1) f(1) by (simp add: err_assign_ports_def block_drop_def)
qed


subsection \<open>Building the tables\<close>

lemma owned_new: "\<forall>v. fs_owned (fib_at v thread) = {} \<Longrightarrow> \<forall>v. \<forall>ns \<in> set (neighs_at v thread). ns_owned ns = {} \<Longrightarrow> owned thread t = {}"
  by (cases t) (simp, metis nth_mem owned.simps(2))

lemma thread_ok_new:
  assumes wf: "mp_wf (th_mpool thread)" and f: "\<forall>v. fs_new (fib_at v thread)" and n: "\<forall>v. \<forall>ns \<in> set (neighs_at v thread). ns_new v ns"
    and len: "\<forall>v. length (neighs_at v thread) = unat (th_num_ports thread)" "unat (th_num_ports thread) \<le> length (ports (th_plane thread))"
    and mac: "\<forall>p \<in> set (ports (th_plane thread)). length (port_mac_addr p) = ETH_ALEN"
  shows "thread_ok thread (\<lambda>v a. undefined) (\<lambda>v. [])"
proof -
  have "\<forall>v. fs_owned (fib_at v thread) = {}" "\<forall>v. \<forall>ns \<in> set (neighs_at v thread). ns_owned ns = {}"
    using fs_new_ok(2) [OF _ wf] ns_new_ok(3) [OF _ wf] f n by blast+
  note own = owned_new [OF this]
  have "tables_ok thread (fam v) (fib_at v thread) (neighs_at v thread) (\<lambda>a. undefined) []" for v
  proof -
    have "ns_ok (th_mpool thread) (fam v) ns \<and> ran (ns_objs ns) = {}" if "ns \<in> set (neighs_at v thread)" for ns
      using ns_new_ok(1,2) [OF _ wf] n that by (metis ran_empty)
    then show ?thesis unfolding tables_ok_alt using fs_new_ok(1) [OF _ wf] f len mac by auto
  qed
  then show ?thesis using len(1) own by (simp add: thread_ok_def)
qed

text \<open>What the construction leaves at each label.\<close>

definition setup_post :: "addr set \<Rightarrow> stage \<Rightarrow> ufpd_thread \<Rightarrow> bool" where
  "setup_post B st thread \<longleftrightarrow>
     (let f4 = fs_new (th_fib_inet thread); f6 = fs_new (th_fib_inet6 thread);
          ns = length (th_neigh_inet6 thread) = length (th_neigh_inet thread) \<and>
            (\<forall>ns \<in> set (th_neigh_inet thread). ns_new False ns) \<and> (\<forall>ns \<in> set (th_neigh_inet6 thread). ns_new True ns);
          mp = th_mpool thread in
      case st of
        To_err_fib_inet_alloc \<Rightarrow> acct mp B {#}
      | To_err_fib_inet6_alloc \<Rightarrow> f4 \<and> acct mp B (fs_ms (th_fib_inet thread))
      | To_err_neigh_table_inet \<Rightarrow> f4 \<and> f6 \<and> acct mp B (fibs_ms thread)
      | To_err_neigh_table_inet6 a4 \<Rightarrow> f4 \<and> f6 \<and> acct mp B (add_mset a4 (fibs_ms thread))
      | To_err_assign_ports a4 a6 \<Rightarrow> f4 \<and> f6 \<and> ns \<and> acct mp B (tabs_ms a4 a6 thread)
      | Ready a4 a6 \<Rightarrow> f4 \<and> f6 \<and> ns \<and> acct mp B (tabs_ms a4 a6 thread) \<and>
          length (th_neigh_inet thread) = unat (th_num_ports thread))"

definition setup_same :: "ufpd_thread \<Rightarrow> ufpd_thread \<Rightarrow> bool" where
  "setup_same thread thread' \<longleftrightarrow> th_plane thread' = th_plane thread \<and> th_buf thread' = th_buf thread \<and>
     th_num_ports thread' = th_num_ports thread \<and> th_mem thread' = th_mem thread"

lemma ports_array_size: "mem_size_ok (8 * unat (n :: u32))"
proof -
  have "unat n < 2 ^ 32" by (rule order_less_le_trans [OF unsigned_less]) simp
  then show ?thesis by (simp add: mem_size_ok_def size_header_def size_t_mod_def)
qed

lemma thread_setup_spec:
  assumes a: "acct (th_mpool thread) B {#}" and n: "unat (th_num_ports thread) \<le> length (ports (th_plane thread))"
  shows "\<exists>st thread'. thread_setup page thread = Some (st, thread') \<and> setup_post B st thread' \<and> setup_same thread thread'"
proof -
  have stop: ?thesis if "thread_setup page thread = Some (st, t)" "setup_post B st t" "setup_same thread t" for st t
    using that by blast
  let ?t0 = "thread\<lparr>th_read_size := page\<rparr>"
  have a0: "acct (th_mpool ?t0) B {#}" using a by simp
  obtain r1 mp1 where r1: "fib_new ?t0 = Some (r1, ?t0\<lparr>th_mpool := mp1\<rparr>)"
      "case r1 of None \<Rightarrow> acct mp1 B {#} | Some fs \<Rightarrow> fs_new fs \<and> acct mp1 B ({#} + fs_ms fs)" using fib_new_acct [OF a0] by blast
  show ?thesis
  proof (cases r1)
    case None
    then show ?thesis using r1
      by (intro stop [of To_err_fib_inet_alloc "?t0\<lparr>th_mpool := mp1\<rparr>"]) (simp_all add: thread_setup_def setup_post_def setup_same_def)
  next
    case (Some fs4)
    let ?t1 = "?t0\<lparr>th_mpool := mp1, th_fib_inet := fs4\<rparr>"
    have f4: "fs_new fs4" "acct (th_mpool ?t1) B (fs_ms fs4)" using r1(2) Some by simp_all
    obtain r2 mp2 where r2: "fib_new ?t1 = Some (r2, ?t1\<lparr>th_mpool := mp2\<rparr>)"
        "case r2 of None \<Rightarrow> acct mp2 B (fs_ms fs4) | Some fs \<Rightarrow> fs_new fs \<and> acct mp2 B (fs_ms fs4 + fs_ms fs)" using fib_new_acct [OF f4(2)] by blast
    have s1: "fib_new ?t0 = Some (Some fs4, ?t0\<lparr>th_mpool := mp1\<rparr>)" using r1(1) Some by simp
    show ?thesis
    proof (cases r2)
      case None
      then show ?thesis using r2 s1 f4(1)
        by (intro stop [of To_err_fib_inet6_alloc "?t1\<lparr>th_mpool := mp2\<rparr>"]) (simp_all add: thread_setup_def setup_post_def setup_same_def)
    next
      case (Some fs6)
      let ?t2 = "?t1\<lparr>th_mpool := mp2, th_fib_inet6 := fs6\<rparr>" and ?n = "8 * unat (th_num_ports thread)"
      have f6: "fs_new fs6" "acct mp2 B (fs_ms fs4 + fs_ms fs6)" using r2(2) Some by simp_all
      have s2: "fib_new ?t1 = Some (Some fs6, ?t1\<lparr>th_mpool := mp2\<rparr>)" using r2(1) Some by simp
      obtain r3 mp3 where r3: "ufp_mem_alloc mp2 ?n = Some (r3, mp3)"
          "case r3 of None \<Rightarrow> acct mp3 B (fs_ms fs4 + fs_ms fs6) | Some x \<Rightarrow> acct mp3 B (add_mset x (fs_ms fs4 + fs_ms fs6))"
        using acct_alloc [OF f6(2) ports_array_size] by blast
      show ?thesis
      proof (cases r3)
        case None
        then show ?thesis using r3 s1 s2 f4(1) f6(1)
          by (intro stop [of To_err_neigh_table_inet "?t2\<lparr>th_mpool := mp3\<rparr>"]) (simp_all add: thread_setup_def setup_post_def setup_same_def fibs_ms_def)
      next
        case a4: (Some a4)
        then have f3: "acct mp3 B (add_mset a4 (fs_ms fs4 + fs_ms fs6))" using r3(2) by simp
        obtain r4 mp4 where r4: "ufp_mem_alloc mp3 ?n = Some (r4, mp4)"
            "case r4 of None \<Rightarrow> acct mp4 B (add_mset a4 (fs_ms fs4 + fs_ms fs6)) | Some x \<Rightarrow> acct mp4 B (add_mset x (add_mset a4 (fs_ms fs4 + fs_ms fs6)))"
          using acct_alloc [OF f3 ports_array_size] by blast
        show ?thesis
        proof (cases r4)
          case None
          then show ?thesis using r3(1) a4 r4 s1 s2 f4(1) f6(1)
            by (intro stop [of "To_err_neigh_table_inet6 a4" "?t2\<lparr>th_mpool := mp4\<rparr>"]) (simp_all add: thread_setup_def setup_post_def setup_same_def fibs_ms_def)
        next
          case a6: (Some a6)
          let ?t3 = "?t2\<lparr>th_mpool := mp4, th_neigh_inet := [], th_neigh_inet6 := []\<rparr>"
          have "acct (th_mpool ?t3) B ({#a4, a6#} + (fs_ms fs4 + fs_ms fs6))" using r4(2) a6 by (simp add: add_mset_commute)
          from neigh_setup_acct [OF this, of 0 "unat (th_num_ports thread)"] n obtain all n4 n6 mp rs where
            S: "neigh_setup 0 (unat (th_num_ports thread)) ?t3 =
                Some (all, ?t3\<lparr>th_mpool := mp, th_neigh_inet := n4, th_neigh_inet6 := n6, th_read_size := rs\<rparr>)"
              "acct mp B ({#a4, a6#} + (fs_ms fs4 + fs_ms fs6) + nss_ms n4 + nss_ms n6)" "length n6 = length n4"
              "all \<longrightarrow> length n4 = unat (th_num_ports thread)" "\<forall>ns \<in> set n4. ns_new False ns" "\<forall>ns \<in> set n6. ns_new True ns" by auto
          let ?t4 = "?t3\<lparr>th_mpool := mp, th_neigh_inet := n4, th_neigh_inet6 := n6, th_read_size := rs\<rparr>"
          have run: "thread_setup page thread = Some (if all then Ready a4 a6 else To_err_assign_ports a4 a6, ?t4)"
            using r3(1) a4 r4(1) a6 s1 s2 S(1) by (simp add: thread_setup_def)
          have "acct mp B (tabs_ms a4 a6 ?t4)" using S(2) by (simp add: tabs_ms_def fibs_ms_def ac_simps)
          then show ?thesis using S(3-6) f4(1) f6(1)
            by (intro stop [OF run]) (auto simp: setup_post_def setup_same_def)
        qed
      qed
    qed
  qed
qed


subsection \<open>The account while events are served\<close>

lemma mset_set_UN:
  assumes "distinct ts" "\<forall>t \<in> set ts. finite (f t)" "\<forall>t u. t \<noteq> u \<longrightarrow> f t \<inter> f u = {}"
  shows "mset_set (\<Union>t \<in> set ts. f t) = sum_list (map (\<lambda>t. mset_set (f t)) ts)"
  using assms(1,2)
proof (induction ts)
  case (Cons t ts)
  have "f t \<inter> f u = {}" if "u \<in> set ts" for u using assms(3) Cons.prems(1) that by (metis distinct.simps(2))
  then have "f t \<inter> (\<Union>t \<in> set ts. f t) = {}" by blast
  then have "mset_set (f t \<union> (\<Union>t \<in> set ts. f t)) = mset_set (f t) + mset_set (\<Union>t \<in> set ts. f t)"
    using Cons.prems by (intro mset_set_Union) auto
  then show ?case using Cons by simp
qed simp

definition all_tables :: "ufpd_thread \<Rightarrow> table list" where
  "all_tables thread = [Fib_Table False, Fib_Table True] @ map (Neigh_Table True) [0..<length (th_neigh_inet6 thread)] @
     map (Neigh_Table False) [0..<length (th_neigh_inet thread)]"

definition structs_ms :: "ufpd_thread \<Rightarrow> addr multiset" where
  "structs_ms thread = {#fib_addr (fs_fib (th_fib_inet thread)), fib_addr (fs_fib (th_fib_inet6 thread))#} +
     mset (map (nt_addr \<circ> ns_neigh) (th_neigh_inet6 thread)) + mset (map (nt_addr \<circ> ns_neigh) (th_neigh_inet thread))"

lemma owned_all: "(\<Union>t. owned thread t) = (\<Union>t \<in> set (all_tables thread). owned thread t)"
proof -
  have "owned thread t = {}" if "t \<notin> set (all_tables thread)" for t
  proof (cases t)
    case (Fib_Table v)
    then show ?thesis using that by (cases v) (simp_all add: all_tables_def)
  next
    case (Neigh_Table v i)
    then show ?thesis using that by (cases v) (auto simp: all_tables_def neighs_at_def)
  qed
  then show ?thesis by blast
qed

lemma nss_ms_split: "nss_ms nss = mset (map (nt_addr \<circ> ns_neigh) nss) + sum_list (map (\<lambda>ns. mset_set (ns_owned ns)) nss)"
  by (induction nss) (simp_all add: ns_ms_def)

lemma map_Neigh_Table:
  "map (\<lambda>t. mset_set (owned thread t)) (map (Neigh_Table v) [0..<length (neighs_at v thread)]) =
   map (\<lambda>ns. mset_set (ns_owned ns)) (neighs_at v thread)"
  by (rule nth_equalityI) simp_all

lemma tabs_ms_split:
  "tabs_ms a4 a6 thread = {#a4, a6#} + structs_ms thread + sum_list (map (\<lambda>t. mset_set (owned thread t)) (all_tables thread))"
proof -
  have "sum_list (map (\<lambda>t. mset_set (owned thread t)) (all_tables thread)) =
      mset_set (fs_owned (th_fib_inet thread)) + (mset_set (fs_owned (th_fib_inet6 thread)) +
      (sum_list (map (\<lambda>ns. mset_set (ns_owned ns)) (th_neigh_inet6 thread)) + sum_list (map (\<lambda>ns. mset_set (ns_owned ns)) (th_neigh_inet thread))))"
    using map_Neigh_Table [of thread True] map_Neigh_Table [of thread False] unfolding all_tables_def map_append
    by (simp add: neighs_at_def fib_at_def)
  then show ?thesis by (simp add: tabs_ms_def fibs_ms_def fs_ms_def nss_ms_split structs_ms_def ac_simps)
qed

lemma thread_live:
  assumes ok: "thread_ok thread D R"
  shows "mset_set (mp_live (th_mpool thread)) = mset_set (others thread) + sum_list (map (\<lambda>t. mset_set (owned thread t)) (all_tables thread))"
proof -
  let ?own = "\<Union>t \<in> set (all_tables thread). owned thread t"
  have fin: "finite (mp_live (th_mpool thread))" using fs_okD(1) [OF thread_okD(1) [OF ok]] by (rule finite_mp_live)
  have sub: "owned thread t \<subseteq> mp_live (th_mpool thread)" for t by (rule thread_okD(4) [OF ok])
  have live: "mp_live (th_mpool thread) = others thread \<union> ?own" "others thread \<inter> ?own = {}"
    unfolding owned_all [symmetric] others_def using sub by blast+
  have "mset_set (others thread \<union> ?own) = mset_set (others thread) + mset_set ?own"
    using fin sub live(2) by (intro mset_set_Union) (auto simp: others_def intro: finite_subset)
  moreover have "distinct (all_tables thread)" by (auto simp: all_tables_def distinct_map inj_on_def)
  then have "mset_set ?own = sum_list (map (\<lambda>t. mset_set (owned thread t)) (all_tables thread))"
    using thread_okD(3) [OF ok] finite_subset [OF sub fin] by (intro mset_set_UN) auto
  ultimately show ?thesis unfolding live(1) by simp
qed

lemma acct_run:
  assumes a: "acct (th_mpool thread) B (tabs_ms a4 a6 thread)" and ok: "thread_ok thread D R" "thread_ok thread' D' R'"
    and same: "thread_same thread thread'"
  shows "acct (th_mpool thread') B (tabs_ms a4 a6 thread')"
proof -
  have "mset_set (others thread) = mset_set B + {#a4, a6#} + structs_ms thread"
    using a thread_live [OF ok(1)] by (simp add: acct_def tabs_ms_split)
  moreover have "others thread' = others thread" using same by (simp add: thread_same_def)
  moreover have "structs_ms thread' = structs_ms thread"
  proof -
    have "fib_addr (fs_fib (fib_at v thread')) = fib_addr (fs_fib (fib_at v thread)) \<and>
        map (nt_addr \<circ> ns_neigh) (neighs_at v thread') = map (nt_addr \<circ> ns_neigh) (neighs_at v thread)" for v
      using same by (simp add: thread_same_def)
    from this [of True] this [of False] show ?thesis unfolding structs_ms_def by (simp only: fib_at_def neighs_at_def if_True if_False)
  qed
  moreover have "mp_wf (th_mpool thread')" by (rule fs_okD(1) [OF thread_okD(1) [OF ok(2)]])
  ultimately show ?thesis using thread_live [OF ok(2)] by (simp add: acct_def tabs_ms_split ac_simps)
qed

lemma thread_serve_spec:
  assumes inv: "thread_inv thread" and len: "length packet = UFPD_RX_BUDGET"
    and waits: "\<And>t. rx_assign_ports 0 (unat (th_num_ports thread)) thread = Some t \<Longrightarrow> waits_ok t packet waits"
  shows "\<exists>thread' s' L. thread_serve packet waits thread s = Some (thread', s') \<and> thread_inv thread' \<and> thread_same thread thread' \<and>
    holds s L s' \<and> (L = {#} \<or> netlink_res L)"
proof -
  obtain r s1 where g: "os_get Heap s = (r, s1)" by (cases "os_get Heap s")
  have n: "0 + unat (th_num_ports thread) \<le> length (ports (th_plane thread))" using inv by (simp add: thread_inv_def)
  show ?thesis
  proof (cases r)
    case None
    then show ?thesis using g os_get_holds [OF g] inv by (auto simp: thread_serve_def)
  next
    case (Some p)
    then have h1: "holds s {#Heap p#} s1" using os_get_holds [OF g] by simp
    obtain fd eps s2 where f: "thread_fd_prepare (th_plane thread) (th_num_ports thread) s1 = Some (fd, eps, s2)"
        "if fd < 0 then \<exists>L. (L = {#} \<or> netlink_res L) \<and> holds s1 L s2
         else map ep_type eps = fd_types (unat (th_num_ports thread)) \<and> holds s1 (fd_res fd + eps_res eps) s2"
      using thread_fd_prepare_spec [of "th_num_ports thread" "th_plane thread" s1] n by auto
    show ?thesis
    proof (cases "fd < 0")
      case True
      then obtain L where L: "L = {#} \<or> netlink_res L" "holds s1 L s2" using f(2) by auto
      have "holds s (add_mset (Heap p) L) s2" using holds_trans [OF h1 L(2)] by simp
      from os_put_holds [OF this] obtain s3 where "os_put (Heap p) s2 = Some s3" "holds s L s3" by blast
      then show ?thesis using g Some f(1) True L(1) inv by (auto simp: thread_serve_def)
    next
      case False
      then have e: "map ep_type eps = fd_types (unat (th_num_ports thread))" "holds s1 (fd_res fd + eps_res eps) s2" using f(2) by auto
      obtain t1 where t1: "rx_assign_ports 0 (unat (th_num_ports thread)) thread = Some t1" "thread_inv t1" "thread_same thread t1"
        using rx_assign_ports_safe [OF inv n] by blast
      obtain t2 where t2: "thread_wait t1 packet waits = Some (waits_end waits, t2)" "thread_inv t2" "thread_same t1 t2"
        using thread_wait_safe [OF t1(2) waits [OF t1(1)] len] by blast
      have "holds s (fd_res fd + eps_res eps + {#Heap p#}) s2" using holds_trans [OF h1 e(2)] by (simp add: ac_simps)
      from thread_fd_destroy_spec [OF this] obtain s3 where d: "thread_fd_destroy eps fd s2 = Some s3" "holds s (add_mset (Heap p) (eps_left eps)) s3"
        by auto
      from os_put_holds [OF d(2)] obtain s4 where p: "os_put (Heap p) s3 = Some s4" "holds s (eps_left eps) s4" by blast
      have "netlink_res (eps_left eps)" using eps_left_one [of eps] e(1) fd_types_netlink by simp
      then show ?thesis
        using g Some f(1) False t1(1) t2 d(1) p thread_same_trans [OF t1(3) t2(3)] by (auto simp: thread_serve_def)
    qed
  qed
qed

subsection \<open>The theorem\<close>

text \<open>The state in which a thread enters its loop, if it gets there.\<close>

definition loop_entry :: "nat \<Rightarrow> ufpd_thread \<Rightarrow> ufpd_thread option" where
  "loop_entry page thread =
     (case thread_setup page thread of
        Some (Ready a4 a6, thread) \<Rightarrow> rx_assign_ports 0 (unat (th_num_ports thread)) thread
      | _ \<Rightarrow> None)"

lemma ready_inv:
  assumes post: "setup_post B (Ready a4 a6) t" and same: "setup_same thread t"
    and io: "io_safe (th_plane thread) (th_buf thread)" "mem_ok thread" "length (ports (th_plane thread)) = unat (th_num_ports thread)"
      "\<forall>p \<in> set (ports (th_plane thread)). unat (rx_budget p) \<le> UFPD_RX_BUDGET \<and> length (port_mac_addr p) = ETH_ALEN"
  shows "thread_inv t" "\<exists>D R. thread_ok t D R"
proof -
  have P: "fs_new (th_fib_inet t)" "fs_new (th_fib_inet6 t)" "length (th_neigh_inet6 t) = length (th_neigh_inet t)"
      "\<forall>ns \<in> set (th_neigh_inet t). ns_new False ns" "\<forall>ns \<in> set (th_neigh_inet6 t). ns_new True ns"
      "mp_wf (th_mpool t)" "length (th_neigh_inet t) = unat (th_num_ports t)"
    using post unfolding setup_post_def Let_def stage.case acct_def by blast+
  have "thread_ok t (\<lambda>v a. undefined) (\<lambda>v. [])"
    using P same io(3,4) by (intro thread_ok_new) (auto simp: fib_at_def neighs_at_def setup_same_def)
  then show ok: "\<exists>D R. thread_ok t D R" by blast
  show "thread_inv t" using ok same io by (simp add: thread_inv_def setup_same_def mem_ok_def)
qed

lemma setup_fail_ends:
  assumes post: "setup_post B st t"
  shows "st = To_err_fib_inet_alloc \<Longrightarrow> ended B s (err_fib_inet_alloc t s)"
    "st = To_err_fib_inet6_alloc \<Longrightarrow> ended B s (err_fib_inet6_alloc t s)"
    "st = To_err_neigh_table_inet \<Longrightarrow> ended B s (err_neigh_table_inet t s)"
    "st = To_err_neigh_table_inet6 a4 \<Longrightarrow> ended B s (err_neigh_table_inet6 a4 t s)"
    "st = To_err_assign_ports a4 a6 \<Longrightarrow> ended B s (err_assign_ports a4 a6 t s)"
proof -
  show "ended B s (err_fib_inet_alloc t s)" if "st = To_err_fib_inet_alloc"
    using post that by (auto simp: setup_post_def ended_def err_fib_inet_alloc_def)
  have wf: "mp_wf (th_mpool t)" using post by (cases st) (simp_all add: setup_post_def acct_def Let_def)
  let ?D = "\<lambda>a :: addr. undefined :: fib_entry"
  note fs = fs_new_ok(1) [OF _ wf, of _ ?D] and ns = ns_new_ok(1) [OF _ wf]
  show "ended B s (err_fib_inet6_alloc t s)" if "st = To_err_fib_inet6_alloc"
    using err_fib_inet6_ends [of t B "th_mpool t" ?D "[]" s] post that fs by (simp add: setup_post_def Let_def)
  show "ended B s (err_neigh_table_inet t s)" if "st = To_err_neigh_table_inet"
    using err_neigh_table_inet_ends [of t B "th_mpool t" ?D "[]" ?D "[]" s] post that fs by (simp add: setup_post_def Let_def)
  show "ended B s (err_neigh_table_inet6 a4 t s)" if "st = To_err_neigh_table_inet6 a4"
    using err_neigh_table_inet6_ends [of t B a4 "th_mpool t" ?D "[]" ?D "[]" s] post that fs by (simp add: setup_post_def Let_def)
  show "ended B s (err_assign_ports a4 a6 t s)" if "st = To_err_assign_ports a4 a6"
    using err_assign_ports_ends [of t B a4 a6 "th_mpool t" ?D "[]" ?D "[]" s] post that fs ns [of False] ns [of True]
    by (simp add: setup_post_def Let_def fam_def)
qed

lemma ready_ends:
  assumes post: "setup_post B (Ready a4 a6) t" and inv: "thread_inv t'" and same: "thread_same t t'" and ok: "\<exists>D R. thread_ok t D R"
  shows "ended B s (err_assign_ports a4 a6 t' s)"
proof -
  have a: "acct (th_mpool t) B (tabs_ms a4 a6 t)" using post by (simp add: setup_post_def Let_def)
  obtain D R D' R' where oks: "thread_ok t D R" "thread_ok t' D' R'" using ok inv by (auto simp: thread_inv_def)
  have T: "tables_ok t' (fam v) (fib_at v t') (neighs_at v t') (D' v) (R' v)" "length (neighs_at v t') = unat (th_num_ports t')" for v
    using oks(2) by (simp_all add: thread_ok_def)
  show ?thesis
    using err_assign_ports_ends [OF acct_run [OF a oks same], of "th_mpool t'" "D' False" "R' False" "D' True" "R' True"] T [of True] T [of False]
    by (simp add: tables_ok_alt fam_def fib_at_def neighs_at_def)
qed

text \<open>C37. The life of a thread. A thread is started with a well-formed pool, one whose calls of \<open>malloc\<close> succeed, and with rings and a buffer as
  the library sets them up, whose slots have room for the headers. It sets up its tables, where requests to the pool may find no room and calls of the system
  may fail, and then handles the events of finitely many calls of \<open>epoll_wait\<close>, after which a call fails if no event has ended the loop before:
  interrupts of any port after any writes of the devices that keep to the slot size, frames from the host of any length, failing reads, a signal, in any order, and messages of
  the kernel that are well-formed, whose routes have at most 128 bits and for whose new routes the pool has room when their turn comes. Then it never
  touches memory that is not its own, leaves the loop by a signal, a failed read or a failed wait, and returns. Its pool has the blocks it had at the start, no more and no less, the read
  buffer, the descriptors and the other resources are given back, and the main thread gets a signal.
  What stays behind is at most the structure and the socket of the kernel's messages.
\<close>

theorem thread_life:
  assumes wf: "mp_wf (th_mpool thread)"
    and io: "io_safe (th_plane thread) (th_buf thread)" "mem_ok thread" "length (ports (th_plane thread)) = unat (th_num_ports thread)"
      "\<forall>p \<in> set (ports (th_plane thread)). unat (rx_budget p) \<le> UFPD_RX_BUDGET \<and> length (port_mac_addr p) = ETH_ALEN"
    and len: "length packet = UFPD_RX_BUDGET"
    and waits: "\<And>t. loop_entry (os_page s) thread = Some t \<Longrightarrow> waits_ok t packet waits"
  shows "\<exists>thread' s' L. thread_process_interrupt thread packet waits s = Some (thread', s') \<and>
    mp_wf (th_mpool thread') \<and> mp_live (th_mpool thread') = mp_live (th_mpool thread) \<and>
    holds s L s' \<and> (L = {#} \<or> netlink_res L) \<and> last (os_log s') = PTHREAD_KILL SIGINT"
proof -
  let ?B = "mp_live (th_mpool thread)"
  have a: "acct (th_mpool thread) ?B {#}" using wf by (simp add: acct_def)
  obtain st t where S: "thread_setup (os_page s) thread = Some (st, t)" "setup_post ?B st t" "setup_same thread t"
    using thread_setup_spec [OF a, of "os_page s"] io(3) by auto
  have fin: ?thesis if r: "thread_process_interrupt thread packet waits s = r" and e: "ended ?B s1 r" and h: "holds s L s1" and L: "L = {#} \<or> netlink_res L" for r s1 L
  proof -
    obtain t' where t': "r = Some (t', s1\<lparr>os_log := os_log s1 @ [PTHREAD_KILL SIGINT]\<rparr>)" "acct (th_mpool t') ?B {#}"
      using e by (auto simp: ended_def)
    then have wf': "mp_wf (th_mpool t')" "mset_set (mp_live (th_mpool t')) = mset_set ?B" by (simp_all add: acct_def)
    then have "mp_live (th_mpool t') = ?B"
      using finite_mp_live [OF wf'(1)] finite_mp_live [OF wf] by (metis finite_set_mset_mset_set)
    moreover have "holds s L (s1\<lparr>os_log := os_log s1 @ [PTHREAD_KILL SIGINT]\<rparr>)" using h by (simp add: holds_def)
    ultimately show ?thesis using r L t'(1) wf'(1)
      by (intro exI [of _ t'] exI [of _ "s1\<lparr>os_log := os_log s1 @ [PTHREAD_KILL SIGINT]\<rparr>"] exI [of _ L]) simp
  qed
  note F = setup_fail_ends [OF S(2)]
  show ?thesis
  proof (cases st)
    case (Ready a4 a6)
    note post = S(2) [unfolded Ready]
    note R = ready_inv [OF post S(3) io]
    have W: "waits_ok t' packet waits" if "rx_assign_ports 0 (unat (th_num_ports t)) t = Some t'" for t'
      using waits [of t'] that S(1) Ready by (simp add: loop_entry_def)
    obtain t' s1 L where V: "thread_serve packet waits t s = Some (t', s1)" "thread_inv t'" "thread_same t t'" "holds s L s1" "L = {#} \<or> netlink_res L"
      using thread_serve_spec [OF R(1) len W] by blast
    show ?thesis
      using S(1) Ready V(1) ready_ends [OF post V(2,3) R(2)] V(4,5) by (intro fin) (simp_all add: thread_process_interrupt_def)
  next
    case To_err_fib_inet_alloc
    then show ?thesis using S(1) F(1) by (intro fin [OF _ _ holds_refl]) (simp_all add: thread_process_interrupt_def)
  next
    case To_err_fib_inet6_alloc
    then show ?thesis using S(1) F(2) by (intro fin [OF _ _ holds_refl]) (simp_all add: thread_process_interrupt_def)
  next
    case To_err_neigh_table_inet
    then show ?thesis using S(1) F(3) by (intro fin [OF _ _ holds_refl]) (simp_all add: thread_process_interrupt_def)
  next
    case (To_err_neigh_table_inet6 a4)
    then show ?thesis using S(1) F(4) [of a4 s] by (intro fin [OF _ _ holds_refl]) (simp_all add: thread_process_interrupt_def)
  next
    case (To_err_assign_ports a4 a6)
    then show ?thesis using S(1) F(5) [of a4 a6 s] by (intro fin [OF _ _ holds_refl]) (simp_all add: thread_process_interrupt_def)
  qed
qed


text \<open>The state at the loop has the sizes of the state at the start.\<close>

lemma loop_entry_static:
  assumes "mp_wf (th_mpool thread)" and io: "io_safe (th_plane thread) (th_buf thread)" "mem_ok thread" "length (ports (th_plane thread)) = unat (th_num_ports thread)"
      "\<forall>p \<in> set (ports (th_plane thread)). unat (rx_budget p) \<le> UFPD_RX_BUDGET \<and> length (port_mac_addr p) = ETH_ALEN"
    and e: "loop_entry page thread = Some t"
  shows "thread_inv t" "plane_static (th_plane thread) (th_plane t)" "buf_static (th_buf thread) (th_buf t)"
    "\<forall>a. length (th_mem t a) = length (th_mem thread a)"
proof -
  have a: "acct (th_mpool thread) (mp_live (th_mpool thread)) {#}" using assms(1) by (simp add: acct_def)
  obtain st t1 where S: "thread_setup page thread = Some (st, t1)" "setup_post (mp_live (th_mpool thread)) st t1" "setup_same thread t1"
    using thread_setup_spec [OF a, of page] io(3) by auto
  then obtain a4 a6 where st: "st = Ready a4 a6" "rx_assign_ports 0 (unat (th_num_ports t1)) t1 = Some t"
    using e by (auto simp: loop_entry_def split: stage.splits)
  have inv: "thread_inv t1" using ready_inv(1) [OF _ S(3) io] S(2) st(1) by blast
  then have "0 + unat (th_num_ports t1) \<le> length (ports (th_plane t1))" by (simp add: thread_inv_def)
  from rx_assign_ports_safe [OF inv this] st(2) have r: "thread_inv t" "thread_same t1 t" by auto
  then show "thread_inv t" "plane_static (th_plane thread) (th_plane t)" "buf_static (th_buf thread) (th_buf t)"
    "\<forall>a. length (th_mem t a) = length (th_mem thread a)"
    using S(3) by (auto simp: thread_same_def setup_same_def)
qed

lemma device_ok_static:
  assumes p: "plane_static (th_plane thread) (th_plane t)" and b: "buf_static (th_buf thread) (th_buf t)"
    and m: "\<forall>a. length (th_mem t a) = length (th_mem thread a)" and d: "device_ok thread dv"
  shows "device_ok t dv"
proof -
  have s: "buf_slot_size (th_buf t) = buf_slot_size (th_buf thread)" using slot_addr_static [OF b] by blast
  show ?thesis
    using d m plane_static_nth [OF p] plane_static_length [OF p]
    unfolding device_ok_def list_all2_conv_all_nth s by (auto simp: port_static_def)
qed

end
