(* ===== verification/Thread_Life_Ex.thy ===== *)
theory Thread_Life_Ex
  imports Thread_Life Thread_Ex Ufp_Setup_Ex
begin

text \<open>A run of a thread with one port: a receive interrupt, then the signal to stop.\<close>

definition pool_big :: ufp_mpool where
  "pool_big = \<lparr>mp_node = Mnode False 0 0x1000000 4096 None None, mp_addr_virt = 4096, mp_hdr = Map.empty, mp_mallocs = []\<rparr>"

definition thread_start :: ufpd_thread where
  "thread_start = \<lparr>th_plane = plane_ex, th_mpool = pool_big, th_buf = buf_ex [0, 0, 0, 0], th_neigh_inet = [], th_neigh_inet6 = [],
     th_fib_inet = \<lparr>fs_fib = fib_ex, fs_objs = Map.empty\<rparr>, th_fib_inet6 = \<lparr>fs_fib = fib_ex, fs_objs = Map.empty\<rparr>,
     th_id = 0, th_num_ports = 1, th_read_size = 0, th_mem = (\<lambda>a. replicate 2048 0), th_tun = [], th_mmio = []\<rparr>"

definition device_ex :: device where
  "device_ex = \<lparr>dv_rx = [replicate 4 \<lparr>qword0 = 0, qword1 = 0x100000000003\<rparr>], dv_tx = [replicate 4 \<lparr>qword0 = 0, qword1 = 0\<rparr>],
     dv_mem = (\<lambda>a. replicate 2048 1)\<rparr>"

definition event_of :: "epoll_type \<Rightarrow> event" where
  "event_of ty = \<lparr>ev_desc = \<lparr>ep_ptr = 1, ep_fd = 9, ep_type = ty, ep_port_index = 0, ep_data = Some irq_ex\<rparr>,
     ev_device = device_ex, ev_read = Some [1, 0, 0, 0, 0, 0, 0, 0]\<rparr>"

definition packets_ex :: "ufp_packet list" where
  "packets_ex = replicate UFPD_RX_BUDGET packet_none"

lemma pool_big_wf: "mp_wf pool_big" "mp_live pool_big = {}"
  by (auto simp: pool_big_def mp_wf_def mp_live_def)

lemma start_ok:
  "mp_wf (th_mpool thread_start)" "io_safe (th_plane thread_start) (th_buf thread_start)" "mem_ok thread_start"
  "length (ports (th_plane thread_start)) = unat (th_num_ports thread_start)"
  "\<forall>p \<in> set (ports (th_plane thread_start)). unat (rx_budget p) \<le> UFPD_RX_BUDGET \<and> length (port_mac_addr p) = ETH_ALEN"
  using pool_big_wf io_inv_safe [OF plane_ex_inv(2)]
  by (simp_all add: thread_start_def mem_ok_def buf_ex_def frame_offsets plane_ex_def port_ex_def UFPD_RX_BUDGET_def ETH_ALEN_def)

lemma device_ex_ok: "device_ok thread_start device_ex"
proof -
  have "rx_length \<lparr>qword0 = 0, qword1 = 0x100000000003\<rparr> = 64" by (simp add: rx_length_def)
  then show ?thesis
    by (simp add: device_ok_def device_ex_def thread_start_def plane_ex_def port_ex_def ring4_def buf_ex_def)
qed

definition events_ex :: "event list" where
  "events_ex = [event_of EPOLL_IRQ_RX, event_of EPOLL_SIGNAL]"

lemma events_ex_static:
  assumes L: "thread_inv t" "plane_static (th_plane thread_start) (th_plane t)" "buf_static (th_buf thread_start) (th_buf t)"
    "\<forall>a. length (th_mem t a) = length (th_mem thread_start a)"
  shows "events_ok t packets_ex events_ex"
proof -
  have len: "length packets_ex = UFPD_RX_BUDGET" by (simp add: packets_ex_def)
  have n: "length (ports (th_plane t)) = 1" using plane_static_length [OF L(2)] by (simp add: thread_start_def plane_ex_def)
  have d: "device_ok t device_ex" by (rule device_ok_static [OF L(2,3,4) device_ex_ok])
  have ev: "event_ok t (event_of EPOLL_IRQ_RX)" using d n by (simp add: event_ok_def event_of_def)
  have next': "event_ok t' (event_of EPOLL_SIGNAL)" if "thread_event t packets_ex (event_of EPOLL_IRQ_RX) = Some (c, t', pk)" for c t' pk
  proof -
    obtain c' t'' pk' where "thread_event t packets_ex (event_of EPOLL_IRQ_RX) = Some (c', t'', pk')" "thread_same t t''"
      using event_safe [OF L(1) ev len] by blast
    then have s: "thread_same t t'" using that by simp
    have "device_ok t' device_ex" by (rule device_ok_static [OF _ _ _ d]) (use s in \<open>simp_all add: thread_same_def\<close>)
    then show ?thesis by (simp add: event_ok_def event_of_def)
  qed
  obtain c thread' packet' where c: "thread_event t packets_ex (event_of EPOLL_IRQ_RX) = Some (c, thread', packet')"
      "c = (if ev_read (event_of EPOLL_IRQ_RX) = None then Err else if ep_type (ev_desc (event_of EPOLL_IRQ_RX)) = EPOLL_SIGNAL then Out else Go)"
    using event_safe [OF L(1) ev len] by blast
  then have "c = Go" by (simp add: event_of_def)
  with c(1) ev next' show ?thesis by (simp add: events_ex_def split: option.splits ctl.splits)
qed

lemma events_ex_ok:
  assumes e: "loop_entry page thread_start = Some t"
  shows "waits_ok t packets_ex [Some events_ex]"
proof -
  note L = loop_entry_static [OF start_ok e]
  have "length packets_ex = UFPD_RX_BUDGET" "events_end events_ex = Out" by (simp_all add: packets_ex_def events_ex_def event_of_def)
  then obtain t2 p2 where "thread_events t packets_ex events_ex = Some (Out, t2, p2)"
    using events_safe [OF L(1) events_ex_static [OF L]] by auto
  moreover have "take EPOLL_MAXEVENTS events_ex = events_ex" by (simp add: events_ex_def EPOLL_MAXEVENTS_def)
  ultimately show ?thesis using events_ex_static [OF L] by simp
qed

theorem thread_life_witness:
  "mp_wf (th_mpool thread_start) \<and> io_safe (th_plane thread_start) (th_buf thread_start) \<and> mem_ok thread_start \<and>
   (\<exists>thread' s' L. thread_process_interrupt thread_start packets_ex [Some events_ex] os_ex = Some (thread', s') \<and>
     mp_live (th_mpool thread') = {} \<and> holds os_ex L s' \<and> (L = {#} \<or> netlink_res L) \<and> last (os_log s') = PTHREAD_KILL SIGINT)"
proof -
  have len: "length packets_ex = UFPD_RX_BUDGET" by (simp add: packets_ex_def)
  have "mp_live (th_mpool thread_start) = {}" using pool_big_wf by (simp add: thread_start_def)
  with thread_life [OF start_ok len events_ex_ok [of "os_page os_ex"], of os_ex] start_ok(1-3) show ?thesis by auto
qed

text \<open>A thread with empty tables that has posted its first receive buffers.\<close>

definition neigh4_ex :: neigh_table where
  "neigh4_ex = \<lparr>nt_addr = 0, nt_ops = neigh_ops_v4, nt_table = hash_init\<rparr>"

definition thread_idle :: ufpd_thread where
  "thread_idle = thread_start\<lparr>th_neigh_inet := [\<lparr>ns_neigh = neigh4_ex, ns_objs = Map.empty\<rparr>],
     th_neigh_inet6 := [\<lparr>ns_neigh = neigh6_ex, ns_objs = Map.empty\<rparr>]\<rparr>"

lemma thread_idle_inv: "thread_inv thread_idle" "thread_same thread_idle thread_idle"
proof -
  have "thread_ok thread_idle (\<lambda>v a. undefined) (\<lambda>v. [])"
    using pool_big_wf(1)
    by (intro thread_ok_new) (auto simp: thread_idle_def thread_start_def fib_at_def neighs_at_def fs_new_def ns_new_def
        fib_ex_def neigh4_ex_def neigh6_ex_def plane_ex_def port_ex_def ETH_ALEN_def)
  with start_ok show "thread_inv thread_idle" by (auto simp: thread_inv_def thread_idle_def mem_ok_def)
qed simp

theorem rx_refill_needs_tx_witness:
  "\<exists>t c t' packet'. rx_assign_ports 0 1 thread_idle = Some t \<and> thread_inv t \<and> events_ok t packets_ex events_ex \<and>
     thread_events t packets_ex events_ex = Some (c, t', packet') \<and> thread_inv t' \<and>
     suffix (rx_posted (th_plane t') 0) (rx_posted (th_plane t) 0)"
proof -
  obtain t where t: "rx_assign_ports 0 1 thread_idle = Some t" "thread_inv t" "thread_same thread_idle t"
    using rx_assign_ports_safe [OF thread_idle_inv(1), of 0 1] by (auto simp: thread_idle_def thread_start_def plane_ex_def)
  have ok: "events_ok t packets_ex events_ex"
    using t(3) by (intro events_ex_static [OF t(2)]) (simp_all add: thread_same_def thread_idle_def)
  moreover have "length packets_ex = UFPD_RX_BUDGET" "\<forall>ev \<in> set events_ex. ep_type (ev_desc ev) \<noteq> EPOLL_IRQ_TX"
    by (simp_all add: packets_ex_def events_ex_def event_of_def)
  ultimately obtain c t' packet' where "thread_events t packets_ex events_ex = Some (c, t', packet')" "thread_inv t'"
      "\<forall>i. suffix (rx_posted (th_plane t') i) (rx_posted (th_plane t) i)"
    using rx_refill_needs_tx [OF t(2)] by blast
  with t ok show ?thesis by blast
qed

end
