(* ===== verification/Ufp_Dev.thy ===== *)
theory Ufp_Dev
  imports Ufp_Rings
begin

text \<open>
  The services of the library for drivers, \<open>lib/lib_dev.c\<close>: memory for DMA, the table of the devices that drivers
  know, and the loading of drivers.
\<close>

subsection \<open>Memory for DMA\<close>

text \<open>The structure comes with the handle of its own memory.\<close>

record ufp_dev_buf =
  db_ptr :: nat
  db_addr_virt :: addr
  db_addr_dma :: u64
  db_size :: nat

definition ufp_dev_dma_alloc :: "nat \<Rightarrow> os \<Rightarrow> (ufp_dev_buf option \<times> os) option" where
  "ufp_dev_dma_alloc sz s =
     do { let (p, s) = os_get Heap s;
          case p of None \<Rightarrow> Some (None, s)
          | Some buf \<Rightarrow> do {
              let size_align = page_align s sz;
              let (v, s) = os_get Mmap s;
              case v of None \<Rightarrow> do { s \<leftarrow> os_put (Heap buf) s; Some (None, s) }
              | Some addr_virt \<Rightarrow> do {
                  let (d, s) = ufp_vfio_dma_map addr_virt size_align s;
                  case d of None \<Rightarrow> do { s \<leftarrow> os_put (Mmap addr_virt) s; s \<leftarrow> os_put (Heap buf) s; Some (None, s) }
                  | Some addr_dma \<Rightarrow>
                      Some (Some \<lparr>db_ptr = buf, db_addr_virt = addr_virt, db_addr_dma = addr_dma, db_size = sz\<rparr>, s) } } }"

text \<open>The structure itself is not freed.\<close>

definition ufp_dev_dma_free :: "ufp_dev_buf \<Rightarrow> os \<Rightarrow> os option" where
  "ufp_dev_dma_free buf s =
     do { let size_align = page_align s (db_size buf);
          (err, s) \<leftarrow> ufp_vfio_dma_unmap (db_addr_dma buf) size_align s;
          os_put (Mmap (db_addr_virt buf)) s }"

subsection \<open>Devices and drivers\<close>

text \<open>What a driver gives for its devices: two functions, which the table hands on as they are.\<close>

record pci_id =
  id_vendor_id :: u32
  id_device_id :: u32

record ('i, 'j) pci_driver =
  drv_id_table :: "pci_id list"
  drv_init :: 'i
  drv_destroy :: 'j

record ('i, 'j) pci_entry =
  pe_ptr :: nat
  pe_vendor_id :: u32
  pe_device_id :: u32
  pe_init :: 'i
  pe_destroy :: 'j

definition pe_id :: "('i, 'j) pci_entry \<Rightarrow> pci_id" where
  "pe_id e = \<lparr>id_vendor_id = pe_vendor_id e, id_device_id = pe_device_id e\<rparr>"

text \<open>The entry of a device, the first one with its numbers.\<close>

definition dev_id :: "'d ufp_dev \<Rightarrow> pci_id" where
  "dev_id dev = \<lparr>id_vendor_id = ucast (dev_vendor_id dev), id_device_id = ucast (dev_device_id dev)\<rparr>"

fun entry_find :: "pci_id \<Rightarrow> ('i, 'j) pci_entry list \<Rightarrow> ('i, 'j) pci_entry option" where
  "entry_find target [] = None"
| "entry_find target (e # es) = (if pe_id e = target then Some e else entry_find target es)"

type_synonym ('x, 'o) drv_fn = "'x \<Rightarrow> 'o \<Rightarrow> os \<Rightarrow> (int \<times> 'x \<times> 'o \<times> os) option"

definition ufp_dev_init ::
  "(('x, 'o) drv_fn, 'j) pci_entry list \<Rightarrow> pci_id \<Rightarrow> ('x, 'o) drv_fn" where
  "ufp_dev_init pci_entries target dev ops s =
     (case entry_find target pci_entries of
        None \<Rightarrow> Some (-1, dev, ops, s)
      | Some e \<Rightarrow> do { (err, dev, ops, s) \<leftarrow> pe_init e dev ops s; Some (if err \<noteq> 0 then -1 else 0, dev, ops, s) })"

definition ufp_dev_destroy ::
  "('i, 'x \<Rightarrow> 'o \<Rightarrow> os \<Rightarrow> ('x \<times> 'o \<times> os) option) pci_entry list \<Rightarrow> pci_id \<Rightarrow> ('x, 'o) drv_fn" where
  "ufp_dev_destroy pci_entries target dev ops s =
     (case entry_find target pci_entries of
        None \<Rightarrow> Some (-1, dev, ops, s)
      | Some e \<Rightarrow> do { (dev, ops, s) \<leftarrow> pe_destroy e dev ops s; Some (0, dev, ops, s) })"

definition ufp_dev_register_device ::
  "('i, 'j) pci_driver \<Rightarrow> pci_id \<Rightarrow> ('i, 'j) pci_entry list \<Rightarrow> os \<Rightarrow> int \<times> ('i, 'j) pci_entry list \<times> os" where
  "ufp_dev_register_device driver target pci_entries s =
     (if entry_find target pci_entries \<noteq> None then (-1, pci_entries, s)
      else case os_get Heap s of
        (None, s) \<Rightarrow> (-1, pci_entries, s)
      | (Some p, s) \<Rightarrow> (0, pci_entries @ [\<lparr>pe_ptr = p, pe_vendor_id = id_vendor_id target, pe_device_id = id_device_id target,
          pe_init = drv_init driver, pe_destroy = drv_destroy driver\<rparr>], s))"

fun ufp_dev_unregister_device :: "pci_id \<Rightarrow> ('i, 'j) pci_entry list \<Rightarrow> os \<Rightarrow> (('i, 'j) pci_entry list \<times> os) option" where
  "ufp_dev_unregister_device target [] s = Some ([], s)"
| "ufp_dev_unregister_device target (e # es) s =
     (if pe_id e = target then do { s \<leftarrow> os_put (Heap (pe_ptr e)) s; Some (es, s) }
      else do { (es, s) \<leftarrow> ufp_dev_unregister_device target es s; Some (e # es, s) })"

fun unregister_all :: "pci_id list \<Rightarrow> ('i, 'j) pci_entry list \<Rightarrow> os \<Rightarrow> (('i, 'j) pci_entry list \<times> os) option" where
  "unregister_all [] entries s = Some (entries, s)"
| "unregister_all (t # ts) entries s =
     do { (entries, s) \<leftarrow> ufp_dev_unregister_device t entries s; unregister_all ts entries s }"

text \<open>The identifiers of a table up to its last entry, which has the device number 0.\<close>

fun register_loop ::
  "('i, 'j) pci_driver \<Rightarrow> pci_id list \<Rightarrow> nat \<Rightarrow> ('i, 'j) pci_entry list \<Rightarrow> os \<Rightarrow> (int \<times> ('i, 'j) pci_entry list \<times> os) option" where
  "register_loop driver [] registered entries s = None"
| "register_loop driver (t # ts) registered entries s =
     (if id_device_id t = 0 then Some (0, entries, s)
      else case ufp_dev_register_device driver t entries s of
        (err, entries, s) \<Rightarrow>
          if err \<noteq> 0 then do { (entries, s) \<leftarrow> unregister_all (take registered (drv_id_table driver)) entries s; Some (-1, entries, s) }
          else register_loop driver ts (registered + 1) entries s)"

definition ufp_dev_register ::
  "('i, 'j) pci_driver \<Rightarrow> ('i, 'j) pci_entry list \<Rightarrow> os \<Rightarrow> (int \<times> ('i, 'j) pci_entry list \<times> os) option" where
  "ufp_dev_register driver entries s = register_loop driver (drv_id_table driver) 0 entries s"

definition id_list :: "pci_id list \<Rightarrow> pci_id list" where
  "id_list table = takeWhile (\<lambda>t. id_device_id t \<noteq> 0) table"

definition ufp_dev_unregister :: "('i, 'j) pci_driver \<Rightarrow> ('i, 'j) pci_entry list \<Rightarrow> os \<Rightarrow> (('i, 'j) pci_entry list \<times> os) option" where
  "ufp_dev_unregister driver entries s =
     (if id_list (drv_id_table driver) = drv_id_table driver then None
      else unregister_all (id_list (drv_id_table driver)) entries s)"

subsection \<open>Libraries\<close>

text \<open>The libraries that are loaded, with the handle of the structure and that of the library.\<close>

type_synonym dylibs = "(nat \<times> nat) list"

fun ufp_dev_unload_lib :: "dylibs \<Rightarrow> os \<Rightarrow> os option" where
  "ufp_dev_unload_lib [] s = Some s"
| "ufp_dev_unload_lib ((p, h) # ds) s = do { s \<leftarrow> os_put (Dl h) s; s \<leftarrow> os_put (Heap p) s; ufp_dev_unload_lib ds s }"

text \<open>The extension of a name: what \<open>strrchr\<close> gives for the dot.\<close>

definition name_ext :: "string \<Rightarrow> string option" where
  "name_ext name = (if CHR ''.'' \<in> set name then Some (CHR ''.'' # rev (takeWhile (\<lambda>c. c \<noteq> CHR ''.'') (rev name))) else None)"

text \<open>The loop over the names in the directory; the result says whether all libraries could be loaded.\<close>

fun load_loop :: "string list \<Rightarrow> dylibs \<Rightarrow> os \<Rightarrow> (bool \<times> dylibs \<times> os) option" where
  "load_loop [] ds s = Some (True, ds, s)"
| "load_loop (n # ns) ds s =
     (if name_ext n = Some ''.so'' then do {
        let (p, s) = os_get Heap s;
        case p of None \<Rightarrow> Some (False, ds, s)
        | Some p \<Rightarrow> do {
            let (h, s) = os_get Dl s;
            case h of None \<Rightarrow> do { s \<leftarrow> os_put (Heap p) s; Some (False, ds, s) }
            | Some h \<Rightarrow> load_loop ns (ds @ [(p, h)]) s } }
      else load_loop ns ds s)"

definition ufp_dev_load_lib :: "string list \<Rightarrow> dylibs \<Rightarrow> os \<Rightarrow> (int \<times> dylibs \<times> os) option" where
  "ufp_dev_load_lib names dylibs s =
     do { let (d, s) = os_get Dir s;
          case d of None \<Rightarrow> Some (-1, dylibs, s)
          | Some d \<Rightarrow> do {
              (ok, dylibs, s) \<leftarrow> load_loop names dylibs s;
              if ok then do { s \<leftarrow> os_put (Dir d) s; Some (0, dylibs, s) }
              else do { s \<leftarrow> ufp_dev_unload_lib dylibs s; s \<leftarrow> os_put (Dir d) s; Some (-1, [], s) } } }"

subsection \<open>What is held\<close>

definition dma_res :: "ufp_dev_buf \<Rightarrow> res multiset" where
  "dma_res buf = {#Mmap (db_addr_virt buf), Iova (db_addr_dma buf)#}"

lemma dma_alloc_spec:
  "\<exists>r s'. ufp_dev_dma_alloc sz s = Some (r, s') \<and>
     (case r of None \<Rightarrow> holds s {#} s' | Some buf \<Rightarrow> db_size buf = sz \<and> holds s (add_mset (Heap (db_ptr buf)) (dma_res buf)) s')"
proof -
  obtain p s1 where 1: "os_get Heap s = (p, s1)" by fastforce
  obtain v s2 where 2: "os_get Mmap s1 = (v, s2)" by fastforce
  obtain b s3 where 3: "os_ask s2 = (b, s3)" by fastforce
  have "os_live s1 = (case p of None \<Rightarrow> os_live s | Some n \<Rightarrow> add_mset (Heap n) (os_live s))" "os_page s1 = os_page s"
    using os_get_holds [OF 1] by (auto simp: holds_def split: option.splits)
  moreover have "os_live s2 = (case v of None \<Rightarrow> os_live s1 | Some n \<Rightarrow> add_mset (Mmap n) (os_live s1))" "os_page s2 = os_page s1"
    using os_get_holds [OF 2] by (auto simp: holds_def split: option.splits)
  moreover have "os_live s3 = os_live s2" "os_page s3 = os_page s2" using os_ask_holds [OF 3] by (auto simp: holds_def)
  ultimately show ?thesis
    using 1 2 3 by (cases p; cases v; cases b)
      (simp_all add: ufp_dev_dma_alloc_def ufp_vfio_dma_map_def os_put_def holds_def dma_res_def add_mset_commute)
qed

lemma dma_free_spec:
  assumes "holds s (dma_res buf + R) s1"
  shows "\<exists>s2. ufp_dev_dma_free buf s1 = Some s2 \<and> holds s R s2"
proof -
  have "holds s (add_mset (Iova (db_addr_dma buf)) (add_mset (Mmap (db_addr_virt buf)) R)) s1"
    using assms by (simp add: dma_res_def add_mset_commute)
  from dma_unmap_holds [OF this] obtain e s2 where u: "ufp_vfio_dma_unmap (db_addr_dma buf) (page_align s1 (db_size buf)) s1 = Some (e, s2)"
      "holds s (add_mset (Mmap (db_addr_virt buf)) R) s2" by blast
  with os_put_holds [OF u(2)] show ?thesis by (auto simp: ufp_dev_dma_free_def)
qed

definition pci_res :: "('i, 'j) pci_entry list \<Rightarrow> res multiset" where
  "pci_res es = image_mset (\<lambda>e. Heap (pe_ptr e)) (mset es)"

definition driver_entry :: "('i, 'j) pci_driver \<Rightarrow> pci_id \<Rightarrow> ('i, 'j) pci_entry \<Rightarrow> bool" where
  "driver_entry driver t e \<longleftrightarrow> pe_id e = t \<and> pe_init e = drv_init driver \<and> pe_destroy e = drv_destroy driver"

lemma entry_find_None: "entry_find t es = None \<longleftrightarrow> t \<notin> set (map pe_id es)"
  by (induction es) auto

lemma entry_find_append: "entry_find t (es @ es') = (case entry_find t es of None \<Rightarrow> entry_find t es' | Some e \<Rightarrow> Some e)"
  by (induction es) auto

text \<open>Removing what was appended, in order.\<close>

lemma unregister_device_skip:
  "t \<notin> set (map pe_id es) \<Longrightarrow> ufp_dev_unregister_device t (es @ e # es') s =
     (if pe_id e = t then do { s \<leftarrow> os_put (Heap (pe_ptr e)) s; Some (es @ es', s) }
      else do { (r, s) \<leftarrow> ufp_dev_unregister_device t es' s; Some (es @ e # r, s) })"
  by (induction es) (auto split: Option.bind_splits)

lemma unregister_all_spec:
  assumes "holds s (pci_res new + R) s1" "map pe_id new = ts" "set ts \<inter> set (map pe_id es) = {}"
  shows "\<exists>s2. unregister_all ts (es @ new) s1 = Some (es, s2) \<and> holds s R s2"
  using assms
proof (induction new arbitrary: ts s1)
  case (Cons e new)
  then obtain ts' where ts: "ts = pe_id e # ts'" "map pe_id new = ts'" "pe_id e \<notin> set (map pe_id es)" by auto
  have "holds s (add_mset (Heap (pe_ptr e)) (pci_res new + R)) s1" using Cons.prems(1) by (simp add: pci_res_def)
  from os_put_holds [OF this] obtain s2 where s2: "os_put (Heap (pe_ptr e)) s1 = Some s2" "holds s (pci_res new + R) s2" by blast
  have "set ts' \<inter> set (map pe_id es) = {}" using Cons.prems(3) ts(1) by auto
  from Cons.IH [OF s2(2) ts(2) this] s2(1) ts(1) show ?case by (auto simp: unregister_device_skip [OF ts(3)])
qed (simp add: pci_res_def)

text \<open>
  Registration: either the identifiers of the driver are appended in their order, or the table is as before and nothing
  is kept.
\<close>

lemma register_loop_spec:
  assumes "holds s (pci_res new + R) s1" "map pe_id new = take registered (drv_id_table driver)"
    and "set (map pe_id new) \<inter> set (map pe_id es) = {}" "drop registered (drv_id_table driver) = ts" "id_list ts \<noteq> ts"
    and "list_all2 (driver_entry driver) (map pe_id new) new"
  shows "\<exists>ret es' s'. register_loop driver ts registered (es @ new) s1 = Some (ret, es', s') \<and>
    (if ret = 0 then \<exists>new'. es' = es @ new' \<and> holds s (pci_res new' + R) s' \<and>
       list_all2 (driver_entry driver) (take registered (drv_id_table driver) @ id_list ts) new' \<and>
       set (id_list ts) \<inter> set (map pe_id (es @ new)) = {} \<and> distinct (id_list ts)
     else ret = -1 \<and> es' = es \<and> holds s R s')"
  using assms
proof (induction ts arbitrary: registered new s1)
  case (Cons t ts)
  show ?case
  proof (cases "id_device_id t = 0")
    case True
    then show ?thesis using Cons.prems by (auto simp: id_list_def)
  next
    case False
    obtain err es1 s2 where r: "ufp_dev_register_device driver t (es @ new) s1 = (err, es1, s2)" by (metis prod_cases3)
    show ?thesis
    proof (cases "err = 0")
      case True
      define e where "e = last es1"
      obtain p where p: "os_get Heap s1 = (Some p, s2)" "es1 = es @ new @ [e]" "pe_ptr e = p" "driver_entry driver t e" "t \<notin> set (map pe_id (es @ new))"
        using r True by (auto simp: ufp_dev_register_device_def e_def driver_entry_def pe_id_def entry_find_None split: if_splits prod.splits option.splits)
      have id: "pe_id e = t" using p(4) by (simp add: driver_entry_def)
      have h: "holds s (pci_res (new @ [e]) + R) s2"
        using holds_trans [OF Cons.prems(1) os_get_holds [OF p(1)]] p(3) by (simp add: pci_res_def)
      have "registered < length (drv_id_table driver)" using Cons.prems(4) by (metis drop_eq_Nil list.distinct(1) not_le)
      moreover have "drv_id_table driver ! registered = t" using Cons.prems(4) by (rule nth_via_drop)
      ultimately have tk: "take (registered + 1) (drv_id_table driver) = take registered (drv_id_table driver) @ [t]"
        by (simp add: take_Suc_conv_app_nth)
      have dr: "drop (registered + 1) (drv_id_table driver) = ts"
        using Cons.prems(4) by (metis Suc_eq_plus1 drop_Suc list.sel(3) tl_drop)
      have "\<exists>ret es' s'. register_loop driver ts (registered + 1) (es @ (new @ [e])) s2 = Some (ret, es', s') \<and>
        (if ret = 0 then \<exists>new'. es' = es @ new' \<and> holds s (pci_res new' + R) s' \<and>
           list_all2 (driver_entry driver) (take (registered + 1) (drv_id_table driver) @ id_list ts) new' \<and>
           set (id_list ts) \<inter> set (map pe_id (es @ (new @ [e]))) = {} \<and> distinct (id_list ts)
         else ret = -1 \<and> es' = es \<and> holds s R s')"
      proof (rule Cons.IH [OF h _ _ dr])
        show "map pe_id (new @ [e]) = take (registered + 1) (drv_id_table driver)" using Cons.prems(2) tk id by simp
        show "set (map pe_id (new @ [e])) \<inter> set (map pe_id es) = {}" using Cons.prems(3) id p(5) by auto
        show "id_list ts \<noteq> ts" using Cons.prems(5) False by (simp add: id_list_def)
        show "list_all2 (driver_entry driver) (map pe_id (new @ [e])) (new @ [e])" using Cons.prems(6) p(4) id by (simp add: list_all2_appendI)
      qed
      then show ?thesis using False r True p(2,5) tk id by (auto simp: id_list_def split: if_splits)
    next
      case err: False
      then have e: "err = -1" "es1 = es @ new" "holds s1 {#} s2"
        using r by (auto simp: ufp_dev_register_device_def split: if_splits prod.splits option.splits dest: os_get_holds)
      have "holds s (pci_res new + R) s2" using holds_trans [OF Cons.prems(1) e(3)] by simp
      from unregister_all_spec [OF this Cons.prems(2) Cons.prems(3) [unfolded Cons.prems(2)]]
      obtain s3 where "unregister_all (take registered (drv_id_table driver)) (es @ new) s2 = Some (es, s3)" "holds s R s3" by blast
      then show ?thesis using False r e by auto
    qed
  qed
qed (simp add: id_list_def)

lemma register_spec:
  assumes "holds s R s1" "id_list (drv_id_table driver) \<noteq> drv_id_table driver"
  shows "\<exists>ret es' s'. ufp_dev_register driver es s1 = Some (ret, es', s') \<and>
    (if ret = 0 then \<exists>new. es' = es @ new \<and> holds s (pci_res new + R) s' \<and>
       list_all2 (driver_entry driver) (id_list (drv_id_table driver)) new \<and>
       set (id_list (drv_id_table driver)) \<inter> set (map pe_id es) = {} \<and> distinct (id_list (drv_id_table driver))
     else ret = -1 \<and> es' = es \<and> holds s R s')"
proof -
  have "holds s (pci_res [] + R) s1" using assms(1) by (simp add: pci_res_def)
  note spec = register_loop_spec [OF this, of 0 driver es "drv_id_table driver"]
  show ?thesis
    unfolding ufp_dev_register_def by (rule spec [unfolded append_Nil2 take_0 append_Nil]) (use assms(2) in simp_all)
qed

lemma driver_entries_ids: "list_all2 (driver_entry driver) ts new \<Longrightarrow> map pe_id new = ts"
  by (induction rule: list_all2_induct) (auto simp: driver_entry_def)

lemma unregister_spec:
  assumes "holds s (pci_res new + R) s1" "id_list (drv_id_table driver) \<noteq> drv_id_table driver"
    "list_all2 (driver_entry driver) (id_list (drv_id_table driver)) new" "set (id_list (drv_id_table driver)) \<inter> set (map pe_id es) = {}"
  shows "\<exists>s2. ufp_dev_unregister driver (es @ new) s1 = Some (es, s2) \<and> holds s R s2"
  using unregister_all_spec [OF assms(1) driver_entries_ids [OF assms(3)] assms(4)] assms(2) by (simp add: ufp_dev_unregister_def)

lemma entry_find_new:
  assumes "list_all2 (driver_entry driver) ts new" "t \<in> set ts" "t \<notin> set (map pe_id es)"
  shows "\<exists>e. entry_find t (es @ new) = Some e \<and> driver_entry driver t e"
proof -
  have "\<exists>e. entry_find t new = Some e \<and> driver_entry driver t e"
    using assms(1,2) by (induction rule: list_all2_induct) (auto simp: driver_entry_def)
  moreover have "entry_find t es = None" using assms(3) by (simp add: entry_find_None)
  ultimately show ?thesis by (auto simp: entry_find_append)
qed

text \<open>Libraries: all or none are loaded.\<close>

definition libs_res :: "dylibs \<Rightarrow> res multiset" where
  "libs_res ds = image_mset (\<lambda>d. Heap (fst d)) (mset ds) + image_mset (\<lambda>d. Dl (snd d)) (mset ds)"

lemma unload_spec: "holds s (libs_res ds + R) s1 \<Longrightarrow> \<exists>s2. ufp_dev_unload_lib ds s1 = Some s2 \<and> holds s R s2"
proof (induction ds arbitrary: s1)
  case (Cons d ds)
  have "holds s (add_mset (Dl (snd d)) (add_mset (Heap (fst d)) (libs_res ds + R))) s1"
    using Cons.prems by (simp add: libs_res_def add_mset_commute)
  from os_put_holds [OF this] obtain s2 where 2: "os_put (Dl (snd d)) s1 = Some s2" "holds s (add_mset (Heap (fst d)) (libs_res ds + R)) s2" by blast
  from os_put_holds [OF 2(2)] obtain s3 where 3: "os_put (Heap (fst d)) s2 = Some s3" "holds s (libs_res ds + R) s3" by blast
  from Cons.IH [OF 3(2)] 2(1) 3(1) show ?case by (cases d) auto
qed (simp add: libs_res_def)

lemma load_loop_spec:
  "holds s (libs_res ds + R) s1 \<Longrightarrow>
   \<exists>ok ds' s'. load_loop ns ds s1 = Some (ok, ds', s') \<and> holds s (libs_res ds' + R) s' \<and>
     (ok \<longrightarrow> length ds' = length ds + length (filter (\<lambda>n. name_ext n = Some ''.so'') ns))"
proof (induction ns arbitrary: ds s1)
  case (Cons n ns)
  show ?case
  proof (cases "name_ext n = Some ''.so''")
    case so: True
    obtain p s2 where 2: "os_get Heap s1 = (p, s2)" by fastforce
    note h2 = holds_trans [OF Cons.prems os_get_holds [OF 2]]
    show ?thesis
    proof (cases p)
      case None
      then show ?thesis using so 2 h2 by auto
    next
      case p: (Some q)
      obtain h s3 where 3: "os_get Dl s2 = (h, s3)" by fastforce
      note h3 = holds_trans [OF h2 os_get_holds [OF 3]]
      show ?thesis
      proof (cases h)
        case None
        then have "holds s (add_mset (Heap q) (libs_res ds + R)) s3" using h3 p by simp
        from os_put_holds [OF this] show ?thesis using so 2 3 p None by auto
      next
        case (Some l)
        then have "holds s (libs_res (ds @ [(q, l)]) + R) s3" using h3 p by (simp add: libs_res_def add_mset_commute)
        from Cons.IH [OF this] show ?thesis using so 2 3 p Some by auto
      qed
    qed
  qed (use Cons in simp)
qed auto

lemma load_lib_spec:
  assumes "holds s (libs_res ds + R) s1"
  shows "\<exists>ret ds' s'. ufp_dev_load_lib ns ds s1 = Some (ret, ds', s') \<and>
    (if ret = 0 then holds s (libs_res ds' + R) s' else ret = -1 \<and> (holds s (libs_res ds + R) s' \<and> ds' = ds \<or> holds s R s' \<and> ds' = []))"
proof -
  obtain d s2 where 2: "os_get Dir s1 = (d, s2)" by fastforce
  note h2 = holds_trans [OF assms os_get_holds [OF 2]]
  show ?thesis
  proof (cases d)
    case None
    then show ?thesis using 2 h2 by (auto simp: ufp_dev_load_lib_def)
  next
    case (Some h)
    have "holds s (libs_res ds + add_mset (Dir h) R) s2" using h2 Some by simp
    from load_loop_spec [OF this, of ns] obtain ok ds' s3 where 3: "load_loop ns ds s2 = Some (ok, ds', s3)" "holds s (libs_res ds' + add_mset (Dir h) R) s3"
      by blast
    have 4: "\<exists>s4. os_put (Dir h) t = Some s4 \<and> holds s Q s4" if "holds s (add_mset (Dir h) Q) t" for t Q using os_put_holds [OF that] .
    show ?thesis
    proof (cases ok)
      case True
      have "holds s (add_mset (Dir h) (libs_res ds' + R)) s3" using 3(2) by simp
      from 4 [OF this] show ?thesis using 2 Some 3(1) True by (auto simp: ufp_dev_load_lib_def)
    next
      case False
      from unload_spec [OF 3(2)] obtain s4 where 5: "ufp_dev_unload_lib ds' s3 = Some s4" "holds s (add_mset (Dir h) R) s4" by blast
      from 4 [OF this(2)] obtain s5 where "os_put (Dir h) s4 = Some s5" "holds s R s5" by blast
      then show ?thesis using 2 Some 3(1) False 5(1)
        by (intro exI [of _ "-1"] exI [of _ "[]"] exI [of _ s5]) (simp add: ufp_dev_load_lib_def)
    qed
  qed
qed

text \<open>C39. Registration of a driver and its round trip. Registering returns for a table that has its end mark. On success every identifier of the driver, none of
  which was known before, is found with the functions of the driver, every other identifier is found as before, and
  unregistering leaves exactly the table from before and gives back the memory of every entry. On failure, after an identifier that is known already
  or when memory runs out, the table is as before and nothing is held.\<close>

theorem driver_registration:
  assumes "id_list (drv_id_table driver) \<noteq> drv_id_table driver"
  shows "\<exists>ret es' s'. ufp_dev_register driver es s = Some (ret, es', s') \<and>
    (if ret = 0 then
       (\<forall>t. if t \<in> set (id_list (drv_id_table driver)) then entry_find t es = None \<and> (\<exists>e. entry_find t es' = Some e \<and> driver_entry driver t e)
            else entry_find t es' = entry_find t es) \<and>
       (\<exists>s2. ufp_dev_unregister driver es' s' = Some (es, s2) \<and> os_live s2 = os_live s)
     else ret = -1 \<and> es' = es \<and> os_live s' = os_live s)"
proof -
  let ?ids = "id_list (drv_id_table driver)"
  have "holds s {#} s" by simp
  from register_spec [OF this assms] obtain ret es' s' where r: "ufp_dev_register driver es s = Some (ret, es', s')"
      "if ret = 0 then \<exists>new. es' = es @ new \<and> holds s (pci_res new + {#}) s' \<and> list_all2 (driver_entry driver) ?ids new \<and>
         set ?ids \<inter> set (map pe_id es) = {} \<and> distinct ?ids
       else ret = -1 \<and> es' = es \<and> holds s {#} s'" by blast
  show ?thesis
  proof (cases "ret = 0")
    case True
    then obtain new where n: "es' = es @ new" "holds s (pci_res new + {#}) s'" "list_all2 (driver_entry driver) ?ids new"
        "set ?ids \<inter> set (map pe_id es) = {}" using r(2) by auto
    obtain s2 where "ufp_dev_unregister driver es' s' = Some (es, s2)" "os_live s2 = os_live s"
      using unregister_spec [OF n(2) assms n(3,4)] n(1) by (auto simp: holds_def)
    moreover have "entry_find t es' = entry_find t es" if "t \<notin> set ?ids" for t
    proof -
      have "entry_find t new = None" using that driver_entries_ids [OF n(3)] by (simp add: entry_find_None)
      then show ?thesis using n(1) by (simp add: entry_find_append split: option.splits)
    qed
    moreover have "entry_find t es = None \<and> (\<exists>e. entry_find t es' = Some e \<and> driver_entry driver t e)" if "t \<in> set ?ids" for t
    proof -
      have "t \<notin> set (map pe_id es)" using that n(4) by blast
      then show ?thesis using entry_find_new [OF n(3) that] n(1) entry_find_None by blast
    qed
    ultimately show ?thesis using r(1) True by (intro exI [of _ ret] exI [of _ es'] exI [of _ s']) simp
  next
    case False
    then show ?thesis using r by (auto simp: holds_def)
  qed
qed

end
