(* ===== verification/I40e_Ctx.thy ===== *)
theory I40e_Ctx
  imports Ufp_Prelude
begin

text \<open>
  The queue contexts of the device, \<open>dev/i40e/i40e_hmc.c\<close> and \<open>i40e_hmc.h\<close>. A context is a bit string in memory of
  the host; the driver keeps it as a C structure and copies the structure field by field to its place in
  the bit string. The tables of the fields are those of the header, with the offsets and sizes that the structures have
  where pointers are 8 bytes and integers are aligned to their size, in little-endian order.
\<close>

subsection \<open>Bits of bytes\<close>

definition lbit :: "u8 list \<Rightarrow> nat \<Rightarrow> bool" where
  "lbit bs n \<longleftrightarrow> n < 8 * length bs \<and> bit (bs ! (n div 8)) (n mod 8)"

lemma lbit_Nil [simp]: "\<not> lbit [] n"
  by (simp add: lbit_def)

lemma lbit_Cons: "lbit (b # bs) n \<longleftrightarrow> (if n < 8 then bit b n else lbit bs (n - 8))"
proof (cases "n < 8")
  case False
  then have "n div 8 = Suc ((n - 8) div 8)" "n mod 8 = (n - 8) mod 8" by (simp_all add: div_if mod_if)
  with False show ?thesis by (auto simp: lbit_def)
qed (simp add: lbit_def)

lemma lbit_append: "lbit (xs @ ys) n \<longleftrightarrow> (if n < 8 * length xs then lbit xs n else lbit ys (n - 8 * length xs))"
  by (induction xs arbitrary: n) (auto simp: lbit_Cons)

lemma lbit_replicate [simp]: "\<not> lbit (replicate m 0) n"
  by (auto simp: lbit_def)

lemma lbit_drop: "lbit (drop m xs) n \<longleftrightarrow> lbit xs (n + 8 * m)"
proof -
  have "(n + 8 * m) div 8 = m + n div 8" "(n + 8 * m) mod 8 = n mod 8" by simp_all
  then show ?thesis by (auto simp: lbit_def)
qed

lemma lbit_take: "lbit (take m xs) n \<longleftrightarrow> n < 8 * m \<and> lbit xs n"
proof -
  have "n div 8 < m" if "n < 8 * m" using that by (simp add: less_mult_imp_div_less mult.commute)
  then show ?thesis by (auto simp: lbit_def)
qed

text \<open>The bytes of an integer.\<close>

definition le_of :: "nat \<Rightarrow> 'a :: len word \<Rightarrow> u8 list" where
  "le_of n w = map (\<lambda>i. ucast (drop_bit (8 * i) w)) [0..<n]"

lemma length_le_of [simp]: "length (le_of n w) = n"
  by (simp add: le_of_def)

lemma lbit_le_of: "lbit (le_of n w) k \<longleftrightarrow> k < 8 * n \<and> bit w k"
proof (cases "k < 8 * n")
  case True
  then have "k div 8 < n" by (simp add: less_mult_imp_div_less mult.commute)
  moreover have "8 * (k div 8) + k mod 8 = k" by simp
  ultimately show ?thesis using True by (simp add: lbit_def le_of_def bit_ucast_iff bit_drop_bit_eq)
qed (simp add: lbit_def)

subsection \<open>Fields\<close>

record i40e_hmc_ce =
  ce_offset :: nat
  ce_size_of :: nat
  ce_width :: u16
  ce_lsb :: u16

text \<open>The masks of the bytes of a field; the number of bits that remain is kept in 16 bits.\<close>

definition hmc_mask :: "u16 \<Rightarrow> nat \<Rightarrow> u8" where
  "hmc_mask width i =
     (let width_remain = width - of_nat (i * 8) in push_bit (min (unat width_remain) 8) 1 - 1)"

fun hmc_write_loop :: "nat \<Rightarrow> u8 \<Rightarrow> u8 \<Rightarrow> u8 list \<Rightarrow> u8 list \<Rightarrow> u8 list \<Rightarrow> u8 list option" where
  "hmc_write_loop shift_width prev_data prev_mask (d # data) (m # masks) (x # dst) =
     (let byte_data = push_bit shift_width d OR prev_data;
          byte_mask = push_bit shift_width m OR prev_mask
      in do { dst \<leftarrow> hmc_write_loop shift_width (drop_bit (8 - shift_width) d) (drop_bit (8 - shift_width) m) data masks dst;
              Some ((byte_data OR (NOT byte_mask AND x)) # dst) })"
| "hmc_write_loop _ _ _ (d # data) _ _ = None"
| "hmc_write_loop _ _ _ [] _ dst = Some dst"

definition i40e_hmc_write :: "u8 list \<Rightarrow> i40e_hmc_ce \<Rightarrow> u8 list \<Rightarrow> u8 list option" where
  "i40e_hmc_write hmc_bits ce host_buf =
     (let data = take (ce_size_of ce) (drop (ce_offset ce) host_buf);
          masks = map (hmc_mask (ce_width ce)) [0..<ce_size_of ce];
          shift_width = unat (ce_lsb ce) mod 8;
          dst = unat (ce_lsb ce) div 8
      in if length data < ce_size_of ce then None
         else do { ds \<leftarrow> hmc_write_loop shift_width 0 0 data masks (drop dst hmc_bits);
                   Some (take dst hmc_bits @ ds) })"

text \<open>The loop of the reader runs from the last byte to the first; it gives the bits it hands to the byte before.\<close>

fun hmc_read_loop :: "nat \<Rightarrow> u8 list \<Rightarrow> u8 list \<Rightarrow> (u8 list \<times> u8) option" where
  "hmc_read_loop shift_width (m # masks) (x # src) =
     do { (data, next_data) \<leftarrow> hmc_read_loop shift_width masks src;
          Some (((drop_bit shift_width x OR next_data) AND m) # data, push_bit (8 - shift_width) x) }"
| "hmc_read_loop _ (m # masks) [] = None"
| "hmc_read_loop _ [] src = Some ([], 0)"

definition i40e_hmc_read :: "u8 list \<Rightarrow> i40e_hmc_ce \<Rightarrow> u8 list \<Rightarrow> u8 list option" where
  "i40e_hmc_read hmc_bits ce host_buf =
     (let masks = map (hmc_mask (ce_width ce)) [0..<ce_size_of ce];
          shift_width = unat (ce_lsb ce) mod 8;
          src = drop (unat (ce_lsb ce) div 8) hmc_bits
      in if length host_buf < ce_offset ce + ce_size_of ce then None
         else do { (data, _) \<leftarrow> hmc_read_loop shift_width masks src;
                   Some (take (ce_offset ce) host_buf @ data @ drop (ce_offset ce + ce_size_of ce) host_buf) })"

text \<open>The loop over a table, up to the entry of width 0.\<close>

fun hmc_write_all :: "i40e_hmc_ce list \<Rightarrow> u8 list \<Rightarrow> u8 list \<Rightarrow> u8 list option" where
  "hmc_write_all (ce # ces) host_buf hmc_bits =
     (if ce_width ce = 0 then Some hmc_bits
      else do { hmc_bits \<leftarrow> i40e_hmc_write hmc_bits ce host_buf; hmc_write_all ces host_buf hmc_bits })"
| "hmc_write_all [] host_buf hmc_bits = None"

subsection \<open>The contexts\<close>

record i40e_hmc_ctx_rx =
  rxc_head :: u16
  rxc_cpuid :: u16
  rxc_base :: u64
  rxc_qlen :: u16
  rxc_dbuff :: u16
  rxc_hbuff :: u16
  rxc_dtype :: u8
  rxc_dsize :: u8
  rxc_crcstrip :: u8
  rxc_fc_en :: u8
  rxc_l2tsel :: u8
  rxc_hsplit_0 :: u8
  rxc_hsplit_1 :: u8
  rxc_showiv :: u8
  rxc_rxmax :: u32
  rxc_tphrdesc_en :: u8
  rxc_tphwdesc_en :: u8
  rxc_tphdata_en :: u8
  rxc_tphhead_en :: u8
  rxc_lrxqthresh :: u16
  rxc_pref_en :: u8

text \<open>The memory of the structure, padding included.\<close>

definition ctx_rx_bytes :: "i40e_hmc_ctx_rx \<Rightarrow> u8 list" where
  "ctx_rx_bytes c =
     le_of 2 (rxc_head c) @ le_of 2 (rxc_cpuid c) @ replicate 4 0 @ le_of 8 (rxc_base c) @ le_of 2 (rxc_qlen c) @
     le_of 2 (rxc_dbuff c) @ le_of 2 (rxc_hbuff c) @
     [rxc_dtype c, rxc_dsize c, rxc_crcstrip c, rxc_fc_en c, rxc_l2tsel c, rxc_hsplit_0 c, rxc_hsplit_1 c, rxc_showiv c] @
     replicate 2 0 @ le_of 4 (rxc_rxmax c) @
     [rxc_tphrdesc_en c, rxc_tphwdesc_en c, rxc_tphdata_en c, rxc_tphhead_en c] @ le_of 2 (rxc_lrxqthresh c) @
     [rxc_pref_en c] @ replicate 5 0"

abbreviation fld :: "nat \<Rightarrow> nat \<Rightarrow> u16 \<Rightarrow> u16 \<Rightarrow> i40e_hmc_ce" where
  "fld off sz width lsb \<equiv> \<lparr>ce_offset = off, ce_size_of = sz, ce_width = width, ce_lsb = lsb\<rparr>"

definition I40E_HMC_CE_RX :: "i40e_hmc_ce list" where
  "I40E_HMC_CE_RX = [
     fld 0 2 13 0, fld 2 2 8 13, fld 8 8 57 32, fld 16 2 13 89, fld 18 2 7 102, fld 20 2 5 109, fld 22 1 2 114, fld 23 1 1 116,
     fld 24 1 1 117, fld 25 1 1 118, fld 26 1 1 119, fld 27 1 4 120, fld 28 1 2 124, fld 29 1 1 127, fld 32 4 14 174,
     fld 36 1 1 193, fld 37 1 1 194, fld 38 1 1 195, fld 39 1 1 196, fld 40 2 3 198, fld 42 1 1 201, fld 0 0 0 0]"

record i40e_hmc_ctx_tx =
  txc_head :: u16
  txc_new_context :: u8
  txc_base :: u64
  txc_fc_en :: u8
  txc_timesync_en :: u8
  txc_fd_en :: u8
  txc_alt_vlan_en :: u8
  txc_thead_wb :: u16
  txc_cpuid :: u8
  txc_head_wb_en :: u8
  txc_qlen :: u16
  txc_tphrdesc_en :: u8
  txc_tphrpkt_en :: u8
  txc_tphwdesc_en :: u8
  txc_headwb_addr :: u64
  txc_crc :: u32
  txc_rdylist :: u16
  txc_rdylist_act :: u8

definition ctx_tx_bytes :: "i40e_hmc_ctx_tx \<Rightarrow> u8 list" where
  "ctx_tx_bytes c =
     le_of 2 (txc_head c) @ [txc_new_context c] @ replicate 5 0 @ le_of 8 (txc_base c) @
     [txc_fc_en c, txc_timesync_en c, txc_fd_en c, txc_alt_vlan_en c] @ le_of 2 (txc_thead_wb c) @
     [txc_cpuid c, txc_head_wb_en c] @ le_of 2 (txc_qlen c) @ [txc_tphrdesc_en c, txc_tphrpkt_en c, txc_tphwdesc_en c] @
     replicate 3 0 @ le_of 8 (txc_headwb_addr c) @ le_of 4 (txc_crc c) @ le_of 2 (txc_rdylist c) @ [txc_rdylist_act c] @
     replicate 1 0"

definition I40E_HMC_CE_TX :: "i40e_hmc_ce list" where
  "I40E_HMC_CE_TX = [
     fld 0 2 13 0, fld 2 1 1 30, fld 8 8 57 32, fld 16 1 1 89, fld 17 1 1 90, fld 18 1 1 91, fld 19 1 1 92, fld 22 1 8 96,
     fld 20 2 13 (0 + 128), fld 23 1 1 (32 + 128), fld 24 2 13 (33 + 128), fld 26 1 1 (46 + 128), fld 27 1 1 (47 + 128),
     fld 28 1 1 (48 + 128), fld 32 8 64 (64 + 128), fld 40 4 32 (0 + (7 * 128)), fld 44 2 10 (84 + (7 * 128)),
     fld 46 1 1 (94 + (7 * 128)), fld 0 0 0 0]"

end
