(* ===== verification/I40e_Aq.thy ===== *)
theory I40e_Aq
  imports Ufp_Dev I40e_Regs I40e_Ctx "HOL-Library.Stream"
begin

text \<open>
  The admin queues of the i40e driver, \<open>dev/i40e/i40e_aq.c\<close> with \<open>i40e_aq.h\<close>: two rings over which the driver sends commands
  to the firmware and gets its answers.

  The device is data of the state. A register has the values that its coming reads give; writes are recorded. What the
  firmware has done to a ring by the time the driver reads the head register is a \<open>look\<close>: the head and the
  contents of descriptors and buffers. One call of \<open>i40e_aq_asq_clean\<close> is a list of looks: the values that
  its loop reads one after the other, as long as it runs; if the list ends before the loop does, the call has not returned
  and the result is \<open>None\<close>. When no list is left the device does nothing more.
\<close>

subsection \<open>Constants\<close>

definition I40E_AQ_LARGE_BUF :: nat where "I40E_AQ_LARGE_BUF = 512"
definition I40E_ASQ_CMD_TIMEOUT :: nat where "I40E_ASQ_CMD_TIMEOUT = 250"
definition I40E_ADMINQ_DESC_ALIGNMENT :: u64 where "I40E_ADMINQ_DESC_ALIGNMENT = 4096"
definition I40E_MAX_AQ_BUF_SIZE :: nat where "I40E_MAX_AQ_BUF_SIZE = 4096"
definition I40E_AQ_LEN :: u16 where "I40E_AQ_LEN = 128"
definition I40E_AQ_FLAG_ERR :: u16 where "I40E_AQ_FLAG_ERR = push_bit 2 1"
definition I40E_AQ_FLAG_LB :: u16 where "I40E_AQ_FLAG_LB = push_bit 9 1"
definition I40E_AQ_FLAG_RD :: u16 where "I40E_AQ_FLAG_RD = push_bit 10 1"
definition I40E_AQ_FLAG_BUF :: u16 where "I40E_AQ_FLAG_BUF = push_bit 12 1"
definition I40E_AQ_RC_OK :: int where "I40E_AQ_RC_OK = 0"
definition I40E_AQ_RC_EPERM :: int where "I40E_AQ_RC_EPERM = 1"
definition I40E_AQ_RC_ESRCH :: int where "I40E_AQ_RC_ESRCH = 3"
definition I40E_AQ_RC_EEXIST :: int where "I40E_AQ_RC_EEXIST = 13"

definition upper32 :: "u64 \<Rightarrow> u32" where "upper32 n = ucast (drop_bit 16 (drop_bit 16 n))"
definition lower32 :: "u64 \<Rightarrow> u32" where "lower32 n = ucast n"

subsection \<open>State\<close>

text \<open>A descriptor; its 16 bytes of parameters are kept as bytes.\<close>

record i40e_aq_desc =
  aqd_flags :: u16
  aqd_opcode :: u16
  aqd_datalen :: u16
  aqd_retval :: u16
  aqd_cookie_high :: u32
  aqd_cookie_low :: u32
  aqd_params :: "u8 list"

definition sizeof_i40e_aq_desc :: nat where "sizeof_i40e_aq_desc = 32"

text \<open>
  A ring, with the handle of its structure; the memory of the descriptors; the handle of the array of the buffers, the
  buffers and their memory.
\<close>

record i40e_aq_ring =
  aqr_ptr :: nat
  aqr_desc :: ufp_dev_buf
  aqr_mem :: "i40e_aq_desc list"
  aqr_bufs :: "nat \<times> ufp_dev_buf list"
  aqr_bufmem :: "u8 list list"
  aqr_num_desc :: u16
  aqr_next_to_use :: u16
  aqr_next_to_clean :: u16
  aqr_head :: u32
  aqr_tail :: u32
  aqr_len :: u32
  aqr_bah :: u32
  aqr_bal :: u32

text \<open>
  A session: the handle of its memory, which is also the cookie of its command, and the union of
  the two things a command can give, in 32 bits.
\<close>

record i40e_aq_session =
  aqs_ptr :: nat
  aqs_retval :: int
  aqs_data :: u32

record aq_look =
  lk_head :: u32
  lk_mem :: "i40e_aq_desc list"
  lk_bufs :: "u8 list list"

record i40e_elem =
  el_type :: u8
  el_seid :: u16
  el_seid_uplink :: u16
  el_seid_downlink :: u16
  el_element_info :: u16

record i40e_version =
  fw_major :: u16
  fw_minor :: u16
  fw_build :: u32
  api_major :: u16
  api_minor :: u16

datatype i40e_vsi_type = I40E_VSI_MAIN | I40E_VSI_VMDQ1 | I40E_VSI_VMDQ2 | I40E_VSI_CTRL | I40E_VSI_FCOE | I40E_VSI_MIRROR
  | I40E_VSI_SRIOV | I40E_VSI_FDIR | I40E_VSI_TYPE_UNKNOWN

record i40e_iface =
  ei_type :: i40e_vsi_type
  ei_seid :: u16
  ei_id :: u16
  ei_base_qp :: u16
  ei_qs_handles :: "u16 list"

record i40e_hmc_obj =
  ho_base :: u64
  ho_count :: u32
  ho_size :: u64

text \<open>A segment: its page of addresses and the contents of it, and its pages.\<close>

record i40e_hmc_sd_entry =
  sd_pd_addrs :: ufp_dev_buf
  sd_addrs :: "u64 list"
  sd_pd :: "ufp_dev_buf list"

record i40e_hmc =
  hmc_obj_tx :: i40e_hmc_obj
  hmc_obj_rx :: i40e_hmc_obj
  hmc_sd_count :: u32
  hmc_sd_entry :: "nat \<times> i40e_hmc_sd_entry list"

text \<open>
  The driver and its device: the answers of the registers, the writes to them, the looks at the command
  queue, what memory holds before it is written, on the heap and at the offsets of a structure on the stack; the memory of the pages of
  the contexts; \<open>struct i40e_dev\<close> with its handle; and the data of the driver for every interface of the device, in their order, with its
  handle.
\<close>

record i40e =
  nic_in :: "u32 \<Rightarrow> u32 stream"
  nic_out :: "(u32 \<times> u32) list"
  nic_polls :: "aq_look list stream"
  nic_junk :: u32
  nic_stack :: "nat \<Rightarrow> u8"
  nic_pages :: "addr \<Rightarrow> u8 list"
  ed_ptr :: nat
  ed_pf_id :: u8
  ed_pf_lan_mac :: "u8 list"
  ed_tx_ring :: "i40e_aq_ring option"
  ed_rx_ring :: "i40e_aq_ring option"
  ed_session :: "i40e_aq_session list"
  ed_hmc :: i40e_hmc
  ed_version :: i40e_version
  ed_elem :: "(nat \<times> i40e_elem) list"
  ed_ifaces :: "(nat \<times> i40e_iface) list"

definition UFP_READ32 :: "u32 \<Rightarrow> i40e \<Rightarrow> u32 \<times> i40e" where
  "UFP_READ32 reg n = (shd (nic_in n reg), n\<lparr>nic_in := (nic_in n)(reg := stl (nic_in n reg))\<rparr>)"

definition UFP_WRITE32 :: "u32 \<Rightarrow> u32 \<Rightarrow> i40e \<Rightarrow> i40e" where
  "UFP_WRITE32 reg val n = n\<lparr>nic_out := nic_out n @ [(reg, val)]\<rparr>"

subsection \<open>Rings\<close>

fun dma_alloc_loop :: "nat \<Rightarrow> nat \<Rightarrow> ufp_dev_buf list \<Rightarrow> os \<Rightarrow> (bool \<times> ufp_dev_buf list \<times> os) option" where
  "dma_alloc_loop 0 sz bufs s = Some (True, bufs, s)"
| "dma_alloc_loop (Suc left) sz bufs s =
     do { (r, s) \<leftarrow> ufp_dev_dma_alloc sz s;
          case r of None \<Rightarrow> Some (False, bufs, s) | Some buf \<Rightarrow> dma_alloc_loop left sz (bufs @ [buf]) s }"

fun dma_free_loop :: "ufp_dev_buf list \<Rightarrow> os \<Rightarrow> os option" where
  "dma_free_loop [] s = Some s"
| "dma_free_loop (buf # bufs) s = do { s \<leftarrow> ufp_dev_dma_free buf s; dma_free_loop bufs s }"

definition aq_desc_zero :: i40e_aq_desc where
  "aq_desc_zero = \<lparr>aqd_flags = 0, aqd_opcode = 0, aqd_datalen = 0, aqd_retval = 0, aqd_cookie_high = 0, aqd_cookie_low = 0,
     aqd_params = replicate 16 0\<rparr>"

text \<open>
  The memory of a ring; \<open>mmap\<close> gives pages of zeros. When a buffer cannot be allocated, the array of
  the buffers is not freed.
\<close>

definition i40e_aq_ring_alloc :: "i40e_aq_ring \<Rightarrow> os \<Rightarrow> (int \<times> i40e_aq_ring \<times> os) option" where
  "i40e_aq_ring_alloc ring s =
     do { let ring = ring\<lparr>aqr_next_to_use := 0, aqr_next_to_clean := 0\<rparr>;
          let num = unat (aqr_num_desc ring);
          let sz = unat (ALIGN (of_nat (num * sizeof_i40e_aq_desc)) I40E_ADMINQ_DESC_ALIGNMENT);
          (d, s) \<leftarrow> ufp_dev_dma_alloc sz s;
          case d of None \<Rightarrow> Some (-1, ring, s)
          | Some desc \<Rightarrow> do {
              let (b, s) = os_get Heap s;
              case b of None \<Rightarrow> do { s \<leftarrow> ufp_dev_dma_free desc s; Some (-1, ring, s) }
              | Some bp \<Rightarrow> do {
                  (ok, bufs, s) \<leftarrow> dma_alloc_loop num I40E_MAX_AQ_BUF_SIZE [] s;
                  if \<not> ok then do { s \<leftarrow> dma_free_loop bufs s; s \<leftarrow> ufp_dev_dma_free desc s; Some (-1, ring, s) }
                  else Some (0, ring\<lparr>aqr_desc := desc, aqr_mem := replicate (sz div sizeof_i40e_aq_desc) aq_desc_zero,
                    aqr_bufs := (bp, bufs), aqr_bufmem := replicate num (replicate I40E_MAX_AQ_BUF_SIZE 0)\<rparr>, s) } } }"

definition i40e_aq_ring_release :: "i40e_aq_ring \<Rightarrow> os \<Rightarrow> os option" where
  "i40e_aq_ring_release ring s =
     (if length (snd (aqr_bufs ring)) < unat (aqr_num_desc ring) then None
      else do { s \<leftarrow> dma_free_loop (take (unat (aqr_num_desc ring)) (snd (aqr_bufs ring))) s;
                s \<leftarrow> os_put (Heap (fst (aqr_bufs ring))) s;
                ufp_dev_dma_free (aqr_desc ring) s })"

text \<open>The two functions differ in the mask that enables the queue.\<close>

definition aq_configure :: "u32 \<Rightarrow> i40e_aq_ring \<Rightarrow> i40e \<Rightarrow> int \<times> i40e" where
  "aq_configure enable ring n =
     (let n = UFP_WRITE32 (aqr_head ring) 0 n;
          n = UFP_WRITE32 (aqr_tail ring) 0 n;
          n = UFP_WRITE32 (aqr_len ring) (ucast (aqr_num_desc ring) OR enable) n;
          n = UFP_WRITE32 (aqr_bal ring) (lower32 (db_addr_dma (aqr_desc ring))) n;
          n = UFP_WRITE32 (aqr_bah ring) (upper32 (db_addr_dma (aqr_desc ring))) n;
          (reg, n) = UFP_READ32 (aqr_bal ring) n
      in (if reg \<noteq> lower32 (db_addr_dma (aqr_desc ring)) then -1 else 0, n))"

definition i40e_aq_asq_configure :: "i40e_aq_ring \<Rightarrow> i40e \<Rightarrow> int \<times> i40e" where
  "i40e_aq_asq_configure = aq_configure I40E_PF_ATQLEN_ATQENABLE_MASK"

definition i40e_aq_arq_configure :: "i40e_aq_ring \<Rightarrow> i40e \<Rightarrow> int \<times> i40e" where
  "i40e_aq_arq_configure = aq_configure I40E_PF_ARQLEN_ARQENABLE_MASK"

definition i40e_aq_desc_unused :: "i40e_aq_ring \<Rightarrow> u16 \<Rightarrow> u16" where
  "i40e_aq_desc_unused ring num_desc =
     (let next_to_clean = aqr_next_to_clean ring; next_to_use = aqr_next_to_use ring in
      if next_to_clean > next_to_use then next_to_clean - next_to_use - 1
      else (num_desc - next_to_use) + next_to_clean - 1)"

text \<open>The index behind the given one.\<close>

definition aq_next :: "i40e_aq_ring \<Rightarrow> u16 \<Rightarrow> u16" where
  "aq_next ring i = (if i + 1 < aqr_num_desc ring then i + 1 else 0)"

text \<open>The address of the buffer in the parameters of a descriptor.\<close>

definition params_addr :: "ufp_dev_buf \<Rightarrow> u8 list \<Rightarrow> u8 list" where
  "params_addr buf ps = take 8 ps @ le_of 4 (upper32 (db_addr_dma buf)) @ le_of 4 (lower32 (db_addr_dma buf))"

definition desc_arq :: "ufp_dev_buf \<Rightarrow> i40e_aq_desc" where
  "desc_arq buf = \<lparr>aqd_flags = I40E_AQ_FLAG_BUF OR I40E_AQ_FLAG_LB, aqd_opcode = 0, aqd_datalen = of_nat I40E_MAX_AQ_BUF_SIZE,
     aqd_retval = 0, aqd_cookie_high = 0, aqd_cookie_low = 0, aqd_params = params_addr buf (replicate 8 0)\<rparr>"

fun arq_assign_loop :: "nat \<Rightarrow> i40e_aq_ring \<Rightarrow> i40e_aq_ring option" where
  "arq_assign_loop 0 ring = Some ring"
| "arq_assign_loop (Suc left) ring =
     (let i = unat (aqr_next_to_use ring) in
      if i < length (snd (aqr_bufs ring)) \<and> i < length (aqr_mem ring)
      then arq_assign_loop left (ring\<lparr>aqr_mem := (aqr_mem ring)[i := desc_arq (snd (aqr_bufs ring) ! i)],
        aqr_next_to_use := aq_next ring (aqr_next_to_use ring)\<rparr>)
      else None)"

definition i40e_aq_arq_assign :: "i40e \<Rightarrow> i40e option" where
  "i40e_aq_arq_assign n =
     do { ring \<leftarrow> ed_rx_ring n;
          let max_allocation = i40e_aq_desc_unused ring (aqr_num_desc ring);
          if max_allocation = 0 then Some n
          else do {
            ring \<leftarrow> arq_assign_loop (unat max_allocation) ring;
            Some (UFP_WRITE32 (aqr_tail ring) (ucast (aqr_next_to_use ring)) (n\<lparr>ed_rx_ring := Some ring\<rparr>)) } }"

text \<open>What the two initialisations have in common; the registers are those of the structure.\<close>

definition aq_ring_init ::
  "(i40e_aq_ring \<Rightarrow> i40e \<Rightarrow> int \<times> i40e) \<Rightarrow> i40e_aq_ring \<Rightarrow> i40e \<Rightarrow> os \<Rightarrow> (i40e_aq_ring option \<times> i40e \<times> os) option" where
  "aq_ring_init configure ring n s =
     do { let (p, s) = os_get Heap s;
          case p of None \<Rightarrow> Some (None, n, s)
          | Some p \<Rightarrow> do {
              (err, ring, s) \<leftarrow> i40e_aq_ring_alloc (ring\<lparr>aqr_ptr := p\<rparr>) s;
              if err < 0 then do { s \<leftarrow> os_put (Heap p) s; Some (None, n, s) }
              else do {
                let (err, n) = configure ring n;
                if err < 0 then do { s \<leftarrow> i40e_aq_ring_release ring s; s \<leftarrow> os_put (Heap p) s; Some (None, n, s) }
                else Some (Some ring, n, s) } } }"

text \<open>The structure of a ring before its memory is allocated.\<close>

definition aq_ring_regs :: "u32 \<Rightarrow> u32 \<Rightarrow> u32 \<Rightarrow> u32 \<Rightarrow> u32 \<Rightarrow> i40e_aq_ring" where
  "aq_ring_regs t h l bal bah = \<lparr>aqr_ptr = 0, aqr_desc = \<lparr>db_ptr = 0, db_addr_virt = 0, db_addr_dma = 0, db_size = 0\<rparr>, aqr_mem = [],
     aqr_bufs = (0, []), aqr_bufmem = [], aqr_num_desc = I40E_AQ_LEN, aqr_next_to_use = 0, aqr_next_to_clean = 0,
     aqr_head = h, aqr_tail = t, aqr_len = l, aqr_bah = bah, aqr_bal = bal\<rparr>"

definition i40e_aq_asq_init :: "i40e \<Rightarrow> os \<Rightarrow> (int \<times> i40e \<times> os) option" where
  "i40e_aq_asq_init n s =
     do { (r, n, s) \<leftarrow> aq_ring_init i40e_aq_asq_configure
            (aq_ring_regs I40E_PF_ATQT I40E_PF_ATQH I40E_PF_ATQLEN I40E_PF_ATQBAL I40E_PF_ATQBAH) n s;
          case r of None \<Rightarrow> Some (-1, n, s) | Some ring \<Rightarrow> Some (0, n\<lparr>ed_tx_ring := Some ring\<rparr>, s) }"

definition i40e_aq_arq_init :: "i40e \<Rightarrow> os \<Rightarrow> (int \<times> i40e \<times> os) option" where
  "i40e_aq_arq_init n s =
     do { (r, n, s) \<leftarrow> aq_ring_init i40e_aq_arq_configure
            (aq_ring_regs I40E_PF_ARQT I40E_PF_ARQH I40E_PF_ARQLEN I40E_PF_ARQBAL I40E_PF_ARQBAH) n s;
          case r of None \<Rightarrow> Some (-1, n, s)
          | Some ring \<Rightarrow> do { n \<leftarrow> i40e_aq_arq_assign (n\<lparr>ed_rx_ring := Some ring\<rparr>); Some (0, n, s) } }"

definition aq_shutdown :: "i40e_aq_ring \<Rightarrow> i40e \<Rightarrow> os \<Rightarrow> (i40e \<times> os) option" where
  "aq_shutdown ring n s =
     do { let n = UFP_WRITE32 (aqr_head ring) 0 n;
          let n = UFP_WRITE32 (aqr_tail ring) 0 n;
          let n = UFP_WRITE32 (aqr_len ring) 0 n;
          let n = UFP_WRITE32 (aqr_bal ring) 0 n;
          let n = UFP_WRITE32 (aqr_bah ring) 0 n;
          s \<leftarrow> i40e_aq_ring_release ring s;
          s \<leftarrow> os_put (Heap (aqr_ptr ring)) s;
          Some (n, s) }"

definition i40e_aq_asq_shutdown :: "i40e \<Rightarrow> os \<Rightarrow> (i40e \<times> os) option" where
  "i40e_aq_asq_shutdown n s = do { ring \<leftarrow> ed_tx_ring n; aq_shutdown ring n s }"

definition i40e_aq_arq_shutdown :: "i40e \<Rightarrow> os \<Rightarrow> (i40e \<times> os) option" where
  "i40e_aq_arq_shutdown n s = do { ring \<leftarrow> ed_rx_ring n; aq_shutdown ring n s }"

definition i40e_aq_init :: "i40e \<Rightarrow> os \<Rightarrow> (int \<times> i40e \<times> os) option" where
  "i40e_aq_init n s =
     do { (err, n, s) \<leftarrow> i40e_aq_asq_init n s;
          if err < 0 then Some (-1, n, s)
          else do {
            (err, n, s) \<leftarrow> i40e_aq_arq_init n s;
            if err < 0 then do { (n, s) \<leftarrow> i40e_aq_asq_shutdown n s; Some (-1, n, s) }
            else Some (0, n\<lparr>ed_session := []\<rparr>, s) } }"

subsection \<open>Events of the firmware\<close>

text \<open>No event is known: every branch ends without an effect. The loop reads the head register as long as it is not the next index.\<close>

definition i40e_aq_arq_process :: "i40e_aq_desc \<Rightarrow> i40e \<Rightarrow> i40e" where
  "i40e_aq_arq_process desc n = (if aqd_flags desc AND I40E_AQ_FLAG_ERR \<noteq> 0 then n else case aqd_opcode desc of _ \<Rightarrow> n)"

partial_function (option) arq_clean_loop :: "i40e \<Rightarrow> i40e option" where
  "arq_clean_loop n =
     do { ring \<leftarrow> ed_rx_ring n;
          case UFP_READ32 (aqr_head ring) n of (head, n) \<Rightarrow>
            if ucast (aqr_next_to_clean ring) = head AND I40E_PF_ARQH_ARQH_MASK then Some n
            else if length (aqr_mem ring) \<le> unat (aqr_next_to_clean ring) \<or> length (snd (aqr_bufs ring)) \<le> unat (aqr_next_to_clean ring) then None
            else arq_clean_loop ((i40e_aq_arq_process (aqr_mem ring ! unat (aqr_next_to_clean ring)) n)
                   \<lparr>ed_rx_ring := Some (ring\<lparr>aqr_next_to_clean := aq_next ring (aqr_next_to_clean ring)\<rparr>)\<rparr>) }"

definition i40e_aq_arq_clean :: "i40e \<Rightarrow> i40e option" where
  "i40e_aq_arq_clean n = arq_clean_loop n"

subsection \<open>Sessions\<close>

text \<open>The data of a session is not initialised.\<close>

definition i40e_aq_session_create :: "i40e \<Rightarrow> os \<Rightarrow> nat option \<times> i40e \<times> os" where
  "i40e_aq_session_create n s =
     (case os_get Heap s of
        (None, s) \<Rightarrow> (None, n, s)
      | (Some p, s) \<Rightarrow> (Some p, n\<lparr>ed_session := ed_session n @ [\<lparr>aqs_ptr = p, aqs_retval = 0xffff, aqs_data = nic_junk n\<rparr>]\<rparr>, s))"

definition session_find :: "nat \<Rightarrow> i40e \<Rightarrow> i40e_aq_session option" where
  "session_find p n = List.find (\<lambda>x. aqs_ptr x = p) (ed_session n)"

definition session_update :: "nat \<Rightarrow> (i40e_aq_session \<Rightarrow> i40e_aq_session) \<Rightarrow> i40e \<Rightarrow> i40e" where
  "session_update p f n = n\<lparr>ed_session := map (\<lambda>x. if aqs_ptr x = p then f x else x) (ed_session n)\<rparr>"

definition i40e_aq_session_delete :: "nat \<Rightarrow> i40e \<Rightarrow> os \<Rightarrow> (i40e \<times> os) option" where
  "i40e_aq_session_delete p n s =
     do { s \<leftarrow> os_put (Heap p) s; Some (n\<lparr>ed_session := filter (\<lambda>x. aqs_ptr x \<noteq> p) (ed_session n)\<rparr>, s) }"

subsection \<open>Commands\<close>

text \<open>
  A command in the next free descriptor. The data is given as the bytes at its pointer, if it has one, and its size.
\<close>

definition asq_data_ok :: "u16 \<Rightarrow> u8 list option \<Rightarrow> nat \<Rightarrow> bool" where
  "asq_data_ok flags data data_size \<longleftrightarrow>
     (case data of Some d \<Rightarrow> flags AND I40E_AQ_FLAG_RD \<noteq> 0 \<longrightarrow> data_size \<le> length d \<and> data_size \<le> I40E_MAX_AQ_BUF_SIZE | None \<Rightarrow> True)"

definition desc_buf :: "u16 \<Rightarrow> nat \<Rightarrow> ufp_dev_buf \<Rightarrow> i40e_aq_desc \<Rightarrow> i40e_aq_desc" where
  "desc_buf flags data_size buf desc =
     (let desc = (if data_size \<noteq> 0
                  then (let desc = desc\<lparr>aqd_datalen := of_nat data_size\<rparr> in
                        if data_size > I40E_AQ_LARGE_BUF then desc\<lparr>aqd_flags := aqd_flags desc OR I40E_AQ_FLAG_LB\<rparr> else desc)
                  else desc\<lparr>aqd_datalen := of_nat I40E_MAX_AQ_BUF_SIZE, aqd_flags := aqd_flags desc OR I40E_AQ_FLAG_LB\<rparr>)
      in desc\<lparr>aqd_params := params_addr buf (aqd_params desc)\<rparr>)"

definition i40e_aq_asq_assign :: "u16 \<Rightarrow> u16 \<Rightarrow> u8 list \<Rightarrow> u8 list option \<Rightarrow> nat \<Rightarrow> u64 \<Rightarrow> i40e \<Rightarrow> i40e option" where
  "i40e_aq_asq_assign opcode flags cmd data data_size cookie n =
     do { ring \<leftarrow> ed_tx_ring n;
          if i40e_aq_desc_unused ring (aqr_num_desc ring) = 0 then Some n
          else do {
            let i = unat (aqr_next_to_use ring);
            if length (aqr_mem ring) \<le> i \<or> length (snd (aqr_bufs ring)) \<le> i \<or> length (aqr_bufmem ring) \<le> i \<or>
               length cmd > 16 \<or> \<not> asq_data_ok flags data data_size then None
            else do {
              let desc = (aqr_mem ring ! i)\<lparr>aqd_flags := flags, aqd_opcode := opcode\<rparr>;
              let desc = desc\<lparr>aqd_params := cmd @ drop (length cmd) (aqd_params desc)\<rparr>;
              let bufmem = aqr_bufmem ring ! i;
              let bufmem = (if flags AND I40E_AQ_FLAG_BUF \<noteq> 0 \<and> flags AND I40E_AQ_FLAG_RD \<noteq> 0
                            then (case data of Some d \<Rightarrow> take data_size d @ drop data_size bufmem | None \<Rightarrow> bufmem) else bufmem);
              let desc = (if flags AND I40E_AQ_FLAG_BUF \<noteq> 0 then desc_buf flags data_size (snd (aqr_bufs ring) ! i) desc else desc);
              let desc = desc\<lparr>aqd_cookie_high := upper32 cookie, aqd_cookie_low := lower32 cookie\<rparr>;
              let ring = ring\<lparr>aqr_mem := (aqr_mem ring)[i := desc], aqr_bufmem := (aqr_bufmem ring)[i := bufmem],
                aqr_next_to_use := aq_next ring (aqr_next_to_use ring)\<rparr>;
              Some (UFP_WRITE32 (aqr_tail ring) (ucast (aqr_next_to_use ring)) (n\<lparr>ed_tx_ring := Some ring\<rparr>)) } } }"

end
