(* ===== verification/I40e_Aqc.thy ===== *)
theory I40e_Aqc
  imports I40e_Aq
begin

text \<open>
  The commands of the i40e driver and the answers to them, \<open>dev/i40e/i40e_aqc.c\<close> with \<open>i40e_aqc.h\<close>, and the cleaning of the command queue,
  \<open>i40e_aq.c\<close>. A command is the 16 bytes of its structure. The byte orders of host and device are the same.
\<close>

subsection \<open>Constants\<close>

definition i40e_aq_opc_firmware_version :: u16 where "i40e_aq_opc_firmware_version = 0x0001"
definition i40e_aq_opc_driver_version :: u16 where "i40e_aq_opc_driver_version = 0x0002"
definition i40e_aq_opc_queue_shutdown :: u16 where "i40e_aq_opc_queue_shutdown = 0x0003"
definition i40e_aq_opc_macaddr_read :: u16 where "i40e_aq_opc_macaddr_read = 0x0107"
definition i40e_aq_opc_clear_pxemode :: u16 where "i40e_aq_opc_clear_pxemode = 0x0110"
definition i40e_aq_opc_get_swconf :: u16 where "i40e_aq_opc_get_swconf = 0x0200"
definition i40e_aq_opc_set_swconf :: u16 where "i40e_aq_opc_set_swconf = 0x0205"
definition i40e_aq_opc_rxctl_read :: u16 where "i40e_aq_opc_rxctl_read = 0x0206"
definition i40e_aq_opc_rxctl_write :: u16 where "i40e_aq_opc_rxctl_write = 0x0207"
definition i40e_aq_opc_update_vsi :: u16 where "i40e_aq_opc_update_vsi = 0x0211"
definition i40e_aq_opc_get_vsi :: u16 where "i40e_aq_opc_get_vsi = 0x0212"
definition i40e_aq_opc_promisc_mode :: u16 where "i40e_aq_opc_promisc_mode = 0x0254"
definition i40e_aq_opc_set_phyintmask :: u16 where "i40e_aq_opc_set_phyintmask = 0x0613"
definition i40e_aq_opc_stop_lldp :: u16 where "i40e_aq_opc_stop_lldp = 0x0A05"
definition i40e_aq_opc_set_rsskey :: u16 where "i40e_aq_opc_set_rsskey = 0x0B02"
definition i40e_aq_opc_set_rsslut :: u16 where "i40e_aq_opc_set_rsslut = 0x0B03"

definition I40E_DRV_VERSION_MAJOR :: u8 where "I40E_DRV_VERSION_MAJOR = 1"
definition I40E_DRV_VERSION_MINOR :: u8 where "I40E_DRV_VERSION_MINOR = 5"
definition I40E_DRV_VERSION_BUILD :: u8 where "I40E_DRV_VERSION_BUILD = 16"
definition I40E_AQ_DRIVER_UNLOADING :: u32 where "I40E_AQ_DRIVER_UNLOADING = 0x1"
definition I40E_AQC_PORT_ADDR_VALID :: u16 where "I40E_AQC_PORT_ADDR_VALID = 0x40"
definition I40E_AQ_LLDP_AGENT_SHUTDOWN :: u8 where "I40E_AQ_LLDP_AGENT_SHUTDOWN = 0x1"
definition I40E_AQC_SET_VSI_PROMISC_UNICAST :: u16 where "I40E_AQC_SET_VSI_PROMISC_UNICAST = 0x01"
definition I40E_AQC_SET_VSI_PROMISC_MULTICAST :: u16 where "I40E_AQC_SET_VSI_PROMISC_MULTICAST = 0x02"
definition I40E_AQC_SET_VSI_PROMISC_BROADCAST :: u16 where "I40E_AQC_SET_VSI_PROMISC_BROADCAST = 0x04"
definition I40E_AQC_SET_RSS_KEY_VSI_VALID :: u16 where "I40E_AQC_SET_RSS_KEY_VSI_VALID = push_bit 15 1"
definition I40E_AQC_SET_RSS_KEY_VSI_ID_SHIFT :: nat where "I40E_AQC_SET_RSS_KEY_VSI_ID_SHIFT = 0"
definition I40E_AQC_SET_RSS_KEY_VSI_ID_MASK :: u16 where "I40E_AQC_SET_RSS_KEY_VSI_ID_MASK = push_bit I40E_AQC_SET_RSS_KEY_VSI_ID_SHIFT 0x3FF"
definition I40E_AQC_SET_RSS_LUT_VSI_VALID :: u16 where "I40E_AQC_SET_RSS_LUT_VSI_VALID = push_bit 15 1"
definition I40E_AQC_SET_RSS_LUT_VSI_ID_SHIFT :: nat where "I40E_AQC_SET_RSS_LUT_VSI_ID_SHIFT = 0"
definition I40E_AQC_SET_RSS_LUT_VSI_ID_MASK :: u16 where "I40E_AQC_SET_RSS_LUT_VSI_ID_MASK = push_bit I40E_AQC_SET_RSS_LUT_VSI_ID_SHIFT 0x3FF"
definition I40E_AQC_SET_RSS_LUT_TABLE_TYPE_SHIFT :: nat where "I40E_AQC_SET_RSS_LUT_TABLE_TYPE_SHIFT = 0"
definition I40E_AQC_SET_RSS_LUT_TABLE_TYPE_MASK :: u16 where "I40E_AQC_SET_RSS_LUT_TABLE_TYPE_MASK = push_bit I40E_AQC_SET_RSS_LUT_TABLE_TYPE_SHIFT 0x1"
definition I40E_AQC_SET_RSS_LUT_TABLE_TYPE_VSI :: u16 where "I40E_AQC_SET_RSS_LUT_TABLE_TYPE_VSI = 0"
definition I40E_AQC_SET_RSS_LUT_TABLE_TYPE_PF :: u16 where "I40E_AQC_SET_RSS_LUT_TABLE_TYPE_PF = 1"
definition sizeof_i40e_aq_buf_vsi_data :: nat where "sizeof_i40e_aq_buf_vsi_data = 128"
definition I40E_MAX_TRAFFIC_CLASS :: nat where "I40E_MAX_TRAFFIC_CLASS = 8"

subsection \<open>Requests\<close>

text \<open>The cookie of a command is the address of its session.\<close>

abbreviation cookie :: "nat \<Rightarrow> u64" where "cookie session \<equiv> of_nat session"

definition i40e_aqc_req_firmware_version :: "nat \<Rightarrow> i40e \<Rightarrow> i40e option" where
  "i40e_aqc_req_firmware_version session =
     i40e_aq_asq_assign i40e_aq_opc_firmware_version 0 (replicate 16 0) None 0 (cookie session)"

text \<open>The string is what \<open>snprintf\<close> makes of the version, \<open>1.5.16.0\<close>.\<close>

definition driver_string :: "u8 list" where
  "driver_string = map (\<lambda>c. of_nat (of_char c)) ''1.5.16.0''"

definition i40e_aqc_req_driver_version :: "nat \<Rightarrow> i40e \<Rightarrow> i40e option" where
  "i40e_aqc_req_driver_version session =
     i40e_aq_asq_assign i40e_aq_opc_driver_version (I40E_AQ_FLAG_BUF OR I40E_AQ_FLAG_RD)
       ([I40E_DRV_VERSION_MAJOR, I40E_DRV_VERSION_MINOR, I40E_DRV_VERSION_BUILD, 0] @ replicate 12 0)
       (Some driver_string) (length driver_string) (cookie session)"

definition i40e_aqc_req_queue_shutdown :: "nat \<Rightarrow> i40e \<Rightarrow> i40e option" where
  "i40e_aqc_req_queue_shutdown session =
     i40e_aq_asq_assign i40e_aq_opc_queue_shutdown 0 (le_of 4 I40E_AQ_DRIVER_UNLOADING @ replicate 12 0) None 0 (cookie session)"

definition i40e_aqc_req_macaddr_read :: "nat \<Rightarrow> i40e \<Rightarrow> i40e option" where
  "i40e_aqc_req_macaddr_read session =
     i40e_aq_asq_assign i40e_aq_opc_macaddr_read I40E_AQ_FLAG_BUF (replicate 16 0) None 0 (cookie session)"

definition i40e_aqc_req_clear_pxemode :: "nat \<Rightarrow> i40e \<Rightarrow> i40e option" where
  "i40e_aqc_req_clear_pxemode session =
     i40e_aq_asq_assign i40e_aq_opc_clear_pxemode 0 (0x2 # replicate 15 0) None 0 (cookie session)"

text \<open>The session is always given; its offset are the low 16 bits of its data.\<close>

definition i40e_aqc_req_get_swconf :: "nat \<Rightarrow> i40e \<Rightarrow> i40e option" where
  "i40e_aqc_req_get_swconf session n =
     do { x \<leftarrow> session_find session n;
          i40e_aq_asq_assign i40e_aq_opc_get_swconf I40E_AQ_FLAG_BUF (le_of 2 (ucast (aqs_data x) :: u16) @ replicate 14 0)
            None 0 (cookie session) n }"

definition i40e_aqc_req_set_swconf :: "u16 \<Rightarrow> u16 \<Rightarrow> nat \<Rightarrow> i40e \<Rightarrow> i40e option" where
  "i40e_aqc_req_set_swconf flags valid_flags session =
     i40e_aq_asq_assign i40e_aq_opc_set_swconf 0 (le_of 2 flags @ le_of 2 valid_flags @ replicate 12 0) None 0 (cookie session)"

definition i40e_aqc_req_rxctl_write :: "u32 \<Rightarrow> u32 \<Rightarrow> nat \<Rightarrow> i40e \<Rightarrow> i40e option" where
  "i40e_aqc_req_rxctl_write reg_addr reg_val session =
     i40e_aq_asq_assign i40e_aq_opc_rxctl_write 0
       (replicate 4 0 @ le_of 4 reg_addr @ replicate 4 0 @ le_of 4 reg_val) None 0 (cookie session)"

definition i40e_aqc_req_rxctl_read :: "u32 \<Rightarrow> nat \<Rightarrow> i40e \<Rightarrow> i40e option" where
  "i40e_aqc_req_rxctl_read reg_addr session =
     i40e_aq_asq_assign i40e_aq_opc_rxctl_read 0 (replicate 4 0 @ le_of 4 reg_addr @ replicate 8 0) None 0 (cookie session)"

definition i40e_aqc_req_update_vsi :: "i40e_iface \<Rightarrow> u8 list \<Rightarrow> nat \<Rightarrow> i40e \<Rightarrow> i40e option" where
  "i40e_aqc_req_update_vsi iface buf session =
     i40e_aq_asq_assign i40e_aq_opc_update_vsi (I40E_AQ_FLAG_BUF OR I40E_AQ_FLAG_RD) (le_of 2 (ei_seid iface) @ replicate 14 0)
       (Some buf) sizeof_i40e_aq_buf_vsi_data (cookie session)"

definition i40e_aqc_req_get_vsi :: "i40e_iface \<Rightarrow> nat \<Rightarrow> i40e \<Rightarrow> i40e option" where
  "i40e_aqc_req_get_vsi iface session =
     i40e_aq_asq_assign i40e_aq_opc_get_vsi I40E_AQ_FLAG_BUF (le_of 2 (ei_seid iface) @ replicate 14 0)
       None sizeof_i40e_aq_buf_vsi_data (cookie session)"

definition i40e_aqc_req_promisc_mode :: "i40e_iface \<Rightarrow> u16 \<Rightarrow> nat \<Rightarrow> i40e \<Rightarrow> i40e option" where
  "i40e_aqc_req_promisc_mode iface promisc_flags session =
     i40e_aq_asq_assign i40e_aq_opc_promisc_mode 0
       (le_of 2 promisc_flags @
        le_of 2 (I40E_AQC_SET_VSI_PROMISC_UNICAST OR I40E_AQC_SET_VSI_PROMISC_MULTICAST OR I40E_AQC_SET_VSI_PROMISC_BROADCAST) @
        le_of 2 (ei_seid iface) @ replicate 10 0) None 0 (cookie session)"

definition i40e_aqc_req_set_phyintmask :: "u16 \<Rightarrow> nat \<Rightarrow> i40e \<Rightarrow> i40e option" where
  "i40e_aqc_req_set_phyintmask event_mask session =
     i40e_aq_asq_assign i40e_aq_opc_set_phyintmask 0 (replicate 8 0 @ le_of 2 event_mask @ replicate 6 0) None 0 (cookie session)"

definition i40e_aqc_req_stop_lldp :: "nat \<Rightarrow> i40e \<Rightarrow> i40e option" where
  "i40e_aqc_req_stop_lldp session =
     i40e_aq_asq_assign i40e_aq_opc_stop_lldp 0 (I40E_AQ_LLDP_AGENT_SHUTDOWN # replicate 15 0) None 0 (cookie session)"

definition i40e_aqc_req_set_rsskey :: "i40e_iface \<Rightarrow> u8 list \<Rightarrow> nat \<Rightarrow> i40e \<Rightarrow> i40e option" where
  "i40e_aqc_req_set_rsskey iface key session =
     (let vsi_id = (push_bit I40E_AQC_SET_RSS_KEY_VSI_ID_SHIFT (ei_id iface) AND I40E_AQC_SET_RSS_KEY_VSI_ID_MASK)
                   OR I40E_AQC_SET_RSS_KEY_VSI_VALID
      in i40e_aq_asq_assign i40e_aq_opc_set_rsskey (I40E_AQ_FLAG_BUF OR I40E_AQ_FLAG_RD) (le_of 2 vsi_id @ replicate 14 0)
           (Some key) (length key) (cookie session))"

definition i40e_aqc_req_set_rsslut :: "i40e_iface \<Rightarrow> u8 list \<Rightarrow> nat \<Rightarrow> i40e \<Rightarrow> i40e option" where
  "i40e_aqc_req_set_rsslut iface lut session =
     (let vsi_id = (push_bit I40E_AQC_SET_RSS_LUT_VSI_ID_SHIFT (ei_id iface) AND I40E_AQC_SET_RSS_LUT_VSI_ID_MASK)
                   OR I40E_AQC_SET_RSS_LUT_VSI_VALID;
          flags = push_bit I40E_AQC_SET_RSS_LUT_TABLE_TYPE_SHIFT
                    (if ei_type iface = I40E_VSI_MAIN then I40E_AQC_SET_RSS_LUT_TABLE_TYPE_PF else I40E_AQC_SET_RSS_LUT_TABLE_TYPE_VSI)
                  AND I40E_AQC_SET_RSS_LUT_TABLE_TYPE_MASK
      in i40e_aq_asq_assign i40e_aq_opc_set_rsslut (I40E_AQ_FLAG_BUF OR I40E_AQ_FLAG_RD) (le_of 2 vsi_id @ le_of 2 flags @ replicate 12 0)
           (Some lut) (length lut) (cookie session))"

subsection \<open>Answers\<close>

text \<open>An integer in a byte string; reading behind its end is undefined.\<close>

definition rd :: "nat \<Rightarrow> nat \<Rightarrow> u8 list \<Rightarrow> 'a :: len word option" where
  "rd off len bs = (if off + len \<le> length bs then Some (le_bytes (take len (drop off bs))) else None)"

definition session_fail :: "nat option \<Rightarrow> i40e \<Rightarrow> i40e" where
  "session_fail session n = (case session of None \<Rightarrow> n | Some p \<Rightarrow> session_update p (\<lambda>x. x\<lparr>aqs_retval := -1\<rparr>) n)"

definition i40e_aqc_resp_firmware_version :: "u8 list \<Rightarrow> i40e \<Rightarrow> i40e option" where
  "i40e_aqc_resp_firmware_version cmd n =
     do { build \<leftarrow> rd 4 4 cmd; maj \<leftarrow> rd 8 2 cmd; min \<leftarrow> rd 10 2 cmd; amaj \<leftarrow> rd 12 2 cmd; amin \<leftarrow> rd 14 2 cmd;
          Some (n\<lparr>ed_version := \<lparr>fw_major = maj, fw_minor = min, fw_build = build, api_major = amaj, api_minor = amin\<rparr>\<rparr>) }"

definition ETH_ALEN :: nat where "ETH_ALEN = 6"

definition i40e_aqc_resp_macaddr_read :: "u8 list \<Rightarrow> u8 list \<Rightarrow> nat option \<Rightarrow> i40e \<Rightarrow> i40e option" where
  "i40e_aqc_resp_macaddr_read cmd buf session n =
     do { flags \<leftarrow> rd 0 2 cmd;
          if (flags :: u16) AND I40E_AQC_PORT_ADDR_VALID = 0 then Some (session_fail session n)
          else if length buf < ETH_ALEN then None
          else Some (n\<lparr>ed_pf_lan_mac := take ETH_ALEN buf\<rparr>) }"

definition i40e_aqc_resp_clear_pxemode :: "i40e \<Rightarrow> i40e" where
  "i40e_aqc_resp_clear_pxemode n = UFP_WRITE32 I40E_GLLAN_RCTL_0 0x1 n"

text \<open>
  The elements that are reported, each of 16 bytes behind a header of 16. The result says whether all of them could be kept.
\<close>

fun swconf_loop :: "nat \<Rightarrow> nat \<Rightarrow> u8 list \<Rightarrow> i40e \<Rightarrow> os \<Rightarrow> (bool \<times> i40e \<times> os) option" where
  "swconf_loop 0 off buf n s = Some (True, n, s)"
| "swconf_loop (Suc left) off buf n s =
     (case os_get Heap s of
        (None, s) \<Rightarrow> Some (False, n, s)
      | (Some p, s) \<Rightarrow> do {
          ty \<leftarrow> rd off 1 buf; seid \<leftarrow> rd (off + 2) 2 buf; up \<leftarrow> rd (off + 4) 2 buf; down \<leftarrow> rd (off + 6) 2 buf;
          info \<leftarrow> rd (off + 14) 2 buf;
          swconf_loop left (off + 16) buf
            (n\<lparr>ed_elem := ed_elem n @ [(p, \<lparr>el_type = ty, el_seid = seid, el_seid_uplink = up, el_seid_downlink = down,
               el_element_info = info\<rparr>)]\<rparr>) s })"

text \<open>The offset of a session is the low half of its data.\<close>

definition set_seid_offset :: "u16 \<Rightarrow> i40e_aq_session \<Rightarrow> i40e_aq_session" where
  "set_seid_offset v x = x\<lparr>aqs_data := (aqs_data x AND 0xFFFF0000) OR ucast v\<rparr>"

definition seid_offset :: "i40e_aq_session \<Rightarrow> u16" where
  "seid_offset x = ucast (aqs_data x)"

definition i40e_aqc_resp_get_swconf :: "u8 list \<Rightarrow> u8 list \<Rightarrow> nat option \<Rightarrow> i40e \<Rightarrow> os \<Rightarrow> (i40e \<times> os) option" where
  "i40e_aqc_resp_get_swconf cmd buf session n s =
     do { num_reported \<leftarrow> rd 0 2 buf;
          (ok, n, s) \<leftarrow> swconf_loop (unat (num_reported :: u16)) 16 buf n s;
          if \<not> ok then Some (session_fail session n, s)
          else do {
            off \<leftarrow> rd 0 2 cmd;
            Some (case session of None \<Rightarrow> n | Some p \<Rightarrow> session_update p (set_seid_offset off) n, s) } }"

definition i40e_aqc_resp_rxctl_read :: "u8 list \<Rightarrow> nat option \<Rightarrow> i40e \<Rightarrow> i40e option" where
  "i40e_aqc_resp_rxctl_read cmd session n =
     do { v \<leftarrow> rd 12 4 cmd;
          Some (case session of None \<Rightarrow> n | Some p \<Rightarrow> session_update p (\<lambda>x. x\<lparr>aqs_data := v\<rparr>) n) }"

text \<open>The first interface with the identifier of the answer gets the handles of the scheduler.\<close>

fun vsi_update_first :: "u16 \<Rightarrow> u16 list \<Rightarrow> (nat \<times> i40e_iface) list \<Rightarrow> (nat \<times> i40e_iface) list option" where
  "vsi_update_first seid qs [] = None"
| "vsi_update_first seid qs ((p, i) # is) =
     (if ei_seid i = seid then Some ((p, i\<lparr>ei_qs_handles := qs\<rparr>) # is)
      else do { is \<leftarrow> vsi_update_first seid qs is; Some ((p, i) # is) })"

definition i40e_aqc_resp_get_vsi :: "u8 list \<Rightarrow> u8 list \<Rightarrow> nat option \<Rightarrow> i40e \<Rightarrow> i40e option" where
  "i40e_aqc_resp_get_vsi cmd buf session n =
     do { seid \<leftarrow> rd 0 2 cmd;
          if length buf < 96 + 2 * I40E_MAX_TRAFFIC_CLASS then None
          else case vsi_update_first seid (map (\<lambda>i. le_bytes (take 2 (drop (96 + 2 * i) buf))) [0..<I40E_MAX_TRAFFIC_CLASS]) (ed_ifaces n) of
            None \<Rightarrow> Some (session_fail session n)
          | Some is \<Rightarrow> Some (n\<lparr>ed_ifaces := is\<rparr>) }"

definition i40e_aq_asq_process :: "i40e_aq_desc \<Rightarrow> u8 list \<Rightarrow> nat option \<Rightarrow> i40e \<Rightarrow> os \<Rightarrow> (i40e \<times> os) option" where
  "i40e_aq_asq_process desc buf session n s =
     do { let n = (case session of None \<Rightarrow> n | Some p \<Rightarrow> session_update p (\<lambda>x. x\<lparr>aqs_retval := uint (aqd_retval desc)\<rparr>) n);
          let opcode = aqd_opcode desc;
          if uint (aqd_retval desc) \<noteq> I40E_AQ_RC_OK then Some (n, s)
          else if opcode = i40e_aq_opc_firmware_version then do { n \<leftarrow> i40e_aqc_resp_firmware_version (aqd_params desc) n; Some (n, s) }
          else if opcode = i40e_aq_opc_macaddr_read then do { n \<leftarrow> i40e_aqc_resp_macaddr_read (aqd_params desc) buf session n; Some (n, s) }
          else if opcode = i40e_aq_opc_clear_pxemode then Some (i40e_aqc_resp_clear_pxemode n, s)
          else if opcode = i40e_aq_opc_get_swconf then i40e_aqc_resp_get_swconf (aqd_params desc) buf session n s
          else if opcode = i40e_aq_opc_rxctl_read then do { n \<leftarrow> i40e_aqc_resp_rxctl_read (aqd_params desc) session n; Some (n, s) }
          else if opcode = i40e_aq_opc_get_vsi then do { n \<leftarrow> i40e_aqc_resp_get_vsi (aqd_params desc) buf session n; Some (n, s) }
          else Some (n, s) }"

subsection \<open>Cleaning the command queue\<close>

definition desc_cookie :: "i40e_aq_desc \<Rightarrow> u64" where
  "desc_cookie desc = ucast (aqd_cookie_low desc) OR push_bit 32 (ucast (aqd_cookie_high desc))"

text \<open>The session of a cookie, if it is still in the list; the cookie 0 belongs to none.\<close>

definition cookie_session :: "u64 \<Rightarrow> i40e \<Rightarrow> nat option" where
  "cookie_session c n = (if c = 0 then None else map_option aqs_ptr (List.find (\<lambda>x. of_nat (aqs_ptr x) = c) (ed_session n)))"

fun asq_clean_loop :: "aq_look list \<Rightarrow> i40e \<Rightarrow> os \<Rightarrow> (i40e \<times> os) option" where
  "asq_clean_loop [] n s = None"
| "asq_clean_loop (l # ls) n s =
     do { ring \<leftarrow> ed_tx_ring n;
          let ring = ring\<lparr>aqr_mem := lk_mem l, aqr_bufmem := lk_bufs l\<rparr>;
          let n = n\<lparr>ed_tx_ring := Some ring\<rparr>;
          let i = unat (aqr_next_to_clean ring);
          if ucast (aqr_next_to_clean ring) = lk_head l then Some (n, s)
          else if length (lk_mem l) \<le> i \<or> length (lk_bufs l) \<le> i then None
          else do {
            let desc = lk_mem l ! i;
            (n, s) \<leftarrow> i40e_aq_asq_process desc (lk_bufs l ! i) (cookie_session (desc_cookie desc) n) n s;
            ring \<leftarrow> ed_tx_ring n;
            asq_clean_loop ls (n\<lparr>ed_tx_ring := Some (ring\<lparr>aqr_next_to_clean := aq_next ring (aqr_next_to_clean ring)\<rparr>)\<rparr>) s } }"

definition i40e_aq_asq_clean :: "i40e \<Rightarrow> os \<Rightarrow> (i40e \<times> os) option" where
  "i40e_aq_asq_clean n s =
     (let p = shd (nic_polls n); n = n\<lparr>nic_polls := stl (nic_polls n)\<rparr>
      in if p = [] then Some (n, s) else asq_clean_loop p n s)"

text \<open>The wait for the answer to a command, at most 250 times.\<close>

fun wait_loop :: "nat \<Rightarrow> nat \<Rightarrow> i40e \<Rightarrow> os \<Rightarrow> (int \<times> i40e \<times> os) option" where
  "wait_loop session timeout n s =
     do { (n, s) \<leftarrow> i40e_aq_asq_clean n s;
          x \<leftarrow> session_find session n;
          if aqs_retval x \<noteq> 0xffff then Some (0, n, s)
          else (case timeout of 0 \<Rightarrow> Some (-1, n, s) | Suc t \<Rightarrow> wait_loop session t n s) }"

definition i40e_aqc_wait_cmd :: "nat \<Rightarrow> i40e \<Rightarrow> os \<Rightarrow> (int \<times> i40e \<times> os) option" where
  "i40e_aqc_wait_cmd session n s = wait_loop session (I40E_ASQ_CMD_TIMEOUT - 1) n s"

text \<open>
  The way in which all commands are sent: a session, the request, the wait, a look at the returned value, and the end of
  the session. The result is the session at its end, if the command was answered with an accepted value.
\<close>

definition aq_command ::
  "(nat \<Rightarrow> i40e \<Rightarrow> i40e option) \<Rightarrow> int list \<Rightarrow> i40e \<Rightarrow> os \<Rightarrow> (i40e_aq_session option \<times> i40e \<times> os) option" where
  "aq_command req accepted n s =
     do { let (p, n, s) = i40e_aq_session_create n s;
          case p of None \<Rightarrow> Some (None, n, s)
          | Some session \<Rightarrow> do {
              n \<leftarrow> req session n;
              (err, n, s) \<leftarrow> i40e_aqc_wait_cmd session n s;
              x \<leftarrow> session_find session n;
              (n, s) \<leftarrow> i40e_aq_session_delete session n s;
              Some (if err < 0 \<or> aqs_retval x \<notin> set accepted then None else Some x, n, s) } }"

definition i40e_aq_destroy :: "i40e \<Rightarrow> os \<Rightarrow> (i40e \<times> os) option" where
  "i40e_aq_destroy n s =
     do { (r, n, s) \<leftarrow> aq_command i40e_aqc_req_queue_shutdown [I40E_AQ_RC_OK] n s;
          (n, s) \<leftarrow> i40e_aq_asq_shutdown n s;
          i40e_aq_arq_shutdown n s }"

end
