(* ===== verification/I40e_Ctx_Spec.thy ===== *)
theory I40e_Ctx_Spec
  imports I40e_Ctx
begin

text \<open>
  A context in memory is the bit string of its table: every field has the bits of its member in the C structure, and all
  other bits are zero.
\<close>

subsection \<open>One field\<close>

text \<open>The bits of a byte string behind \<open>sh\<close> bits of what comes before.\<close>

definition cat_bits :: "nat \<Rightarrow> u8 \<Rightarrow> u8 list \<Rightarrow> nat \<Rightarrow> bool" where
  "cat_bits sh p xs n \<longleftrightarrow> (if sh \<le> n then lbit xs (n - sh) else bit p n)"

lemma cat_bits_next:
  assumes "sh < 8" "8 \<le> n"
  shows "cat_bits sh (drop_bit (8 - sh) x) xs (n - 8) \<longleftrightarrow> cat_bits sh p (x # xs) n"
proof -
  have "n - 8 - sh = n - sh - 8" "n - 8 < sh \<Longrightarrow> 8 - sh + (n - 8) = n - sh" using assms by simp_all
  then show ?thesis using assms by (auto simp: cat_bits_def lbit_Cons bit_drop_bit_eq)
qed

lemma cat_bits_byte:
  fixes x p :: u8
  assumes "n < 8" "\<And>k. sh \<le> k \<Longrightarrow> \<not> bit p k"
  shows "bit (push_bit sh x OR p) n \<longleftrightarrow> cat_bits sh p (x # xs) n"
  using assms by (auto simp: cat_bits_def lbit_Cons bit_or_iff bit_push_bit_iff)

lemma drop_bit_above: "sh < 8 \<Longrightarrow> sh \<le> k \<Longrightarrow> \<not> bit (drop_bit (8 - sh) (x :: u8)) k"
  using bit_imp_le_length [of x "8 - sh + k"] by (auto simp: bit_drop_bit_eq)

lemma hmc_write_loop_bits:
  assumes "sh < 8" "length masks = length data" "length data \<le> length dst"
    and "\<And>k. sh \<le> k \<Longrightarrow> \<not> bit pd k" "\<And>k. sh \<le> k \<Longrightarrow> \<not> bit pm k"
  shows "\<exists>ds. hmc_write_loop sh pd pm data masks dst = Some ds \<and> length ds = length dst \<and>
    (\<forall>n. lbit ds n \<longleftrightarrow> (if n < 8 * length data then cat_bits sh pd data n \<or> (\<not> cat_bits sh pm masks n \<and> lbit dst n) else lbit dst n))"
  using assms(2-)
proof (induction data arbitrary: masks dst pd pm)
  case (Cons d data)
  obtain m ms where ms: "masks = m # ms" "length ms = length data" using Cons.prems(1) by (cases masks) auto
  obtain x dst' where dst: "dst = x # dst'" "length data \<le> length dst'" using Cons.prems(2) by (cases dst) auto
  let ?b = "(push_bit sh d OR pd) OR (NOT (push_bit sh m OR pm) AND x)"
  obtain ds where ds: "hmc_write_loop sh (drop_bit (8 - sh) d) (drop_bit (8 - sh) m) data ms dst' = Some ds" "length ds = length dst'"
      "\<And>n. lbit ds n \<longleftrightarrow> (if n < 8 * length data then cat_bits sh (drop_bit (8 - sh) d) data n \<or>
          (\<not> cat_bits sh (drop_bit (8 - sh) m) ms n \<and> lbit dst' n) else lbit dst' n)"
    using Cons.IH [OF ms(2) dst(2)] drop_bit_above [OF assms(1)] by blast
  have "lbit (?b # ds) n \<longleftrightarrow> (if n < 8 * length (d # data) then cat_bits sh pd (d # data) n \<or> (\<not> cat_bits sh pm (m # ms) n \<and> lbit (x # dst') n)
      else lbit (x # dst') n)" for n
  proof (cases "n < 8")
    case True
    have e: "bit (push_bit sh d OR pd) n \<longleftrightarrow> cat_bits sh pd (d # data) n" "bit (push_bit sh m OR pm) n \<longleftrightarrow> cat_bits sh pm (m # ms) n"
      using cat_bits_byte [OF True] Cons.prems(3,4) by blast+
    have "bit ?b n \<longleftrightarrow> bit (push_bit sh d OR pd) n \<or> (\<not> bit (push_bit sh m OR pm) n \<and> bit x n)"
      using True by (auto simp: bit_or_iff bit_and_iff bit_not_iff)
    then show ?thesis using True unfolding e by (simp add: lbit_Cons)
  next
    case False
    then show ?thesis using cat_bits_next [OF assms(1), of n d data pd] cat_bits_next [OF assms(1), of n m ms pm]
      by (auto simp: lbit_Cons ds(3))
  qed
  then show ?case using ds(1,2) ms dst by (simp add: Let_def)
qed simp

lemma lbit_masks:
  assumes "sz \<le> 8"
  shows "lbit (map (hmc_mask w) [0..<sz]) k \<longleftrightarrow> k < 8 * sz \<and> (k < unat w \<or> unat w < k div 8 * 8)"
proof (cases "k < 8 * sz")
  case True
  define i j r where "i = k div 8" and "j = k mod 8" and "r = w - of_nat (i * 8)"
  have i: "i < sz" "k = i * 8 + j" "j < 8" using True by (auto simp: i_def j_def less_mult_imp_div_less mult.commute)
  have "push_bit n 1 - 1 = (mask n :: u8)" for n by (simp add: mask_eq_exp_minus_1 push_bit_eq_mult)
  then have m: "bit (hmc_mask w i) j \<longleftrightarrow> j < unat r" using i(3) by (simp add: hmc_mask_def Let_def bit_mask_iff r_def)
  have "unat (of_nat (i * 8) :: u16) = i * 8"
    using i assms by (simp only: unsigned_of_nat) (simp add: take_bit_nat_eq_self)
  then have "unat r = (if i * 8 \<le> unat w then unat w - i * 8 else unat w + 2 ^ 16 - i * 8)"
    using unat_sub_if' [of w "of_nat (i * 8)"] by (simp add: word_le_nat_alt r_def)
  moreover have "i * 8 \<le> 64" using i assms by simp
  ultimately have "j < unat r \<longleftrightarrow> k < unat w \<or> unat w < i * 8" using i by (simp split: if_splits) linarith
  then show ?thesis using True i m by (simp add: lbit_def flip: i_def j_def)
qed (simp add: lbit_def)

text \<open>A field that keeps to its width, with room for its bytes.\<close>

definition ce_bytes :: "i40e_hmc_ce \<Rightarrow> u8 list \<Rightarrow> u8 list" where
  "ce_bytes ce host = take (ce_size_of ce) (drop (ce_offset ce) host)"

definition ce_top :: "i40e_hmc_ce \<Rightarrow> nat" where
  "ce_top ce = unat (ce_lsb ce) + unat (ce_width ce)"

definition ce_ok :: "nat \<Rightarrow> nat \<Rightarrow> i40e_hmc_ce \<Rightarrow> bool" where
  "ce_ok host_len bits_len ce \<longleftrightarrow> ce_size_of ce \<le> 8 \<and> ce_offset ce + ce_size_of ce \<le> host_len \<and>
     unat (ce_lsb ce) div 8 + ce_size_of ce \<le> bits_len \<and>
     unat (ce_lsb ce) mod 8 + unat (ce_width ce) \<le> 8 * ce_size_of ce"

lemma hmc_write_field:
  assumes ok: "ce_ok (length host) (length bits) ce" and fit: "\<And>k. unat (ce_width ce) \<le> k \<Longrightarrow> \<not> lbit (ce_bytes ce host) k"
  shows "\<exists>bits'. i40e_hmc_write bits ce host = Some bits' \<and> length bits' = length bits \<and>
    (\<forall>n < unat (ce_lsb ce). lbit bits' n = lbit bits n) \<and>
    (\<forall>k < unat (ce_width ce). lbit bits' (unat (ce_lsb ce) + k) = lbit (ce_bytes ce host) k) \<and>
    (\<forall>n \<ge> ce_top ce. lbit bits' n \<longrightarrow> lbit bits n)"
proof -
  define L w sz where "L = unat (ce_lsb ce)" and "w = unat (ce_width ce)" and "sz = ce_size_of ce"
  let ?data = "ce_bytes ce host" and ?masks = "map (hmc_mask (ce_width ce)) [0..<sz]" and ?sh = "L mod 8" and ?d = "L div 8"
  have ok': "sz \<le> 8" "length ?data = sz" "?d + sz \<le> length bits" "?sh + w \<le> 8 * sz"
    using ok by (auto simp: ce_ok_def ce_bytes_def L_def w_def sz_def)
  have L: "L = 8 * ?d + ?sh" by simp
  obtain ds where ds: "hmc_write_loop ?sh 0 0 ?data ?masks (drop ?d bits) = Some ds" "length ds = length bits - ?d"
      "\<forall>n. lbit ds n \<longleftrightarrow> (if n < 8 * sz then cat_bits ?sh 0 ?data n \<or> (\<not> cat_bits ?sh 0 ?masks n \<and> lbit (drop ?d bits) n) else lbit (drop ?d bits) n)"
  proof -
    have "?sh < 8" "length ?masks = length ?data" "length ?data \<le> length (drop ?d bits)" using ok' by simp_all
    from hmc_write_loop_bits [OF this, of 0 0, simplified] show thesis using ok'(2) by (elim exE conjE) (rule that, simp_all)
  qed
  let ?bits' = "take ?d bits @ ds"
  have len: "length (take ?d bits) = ?d" using ok'(3) by simp
  have low: "lbit ?bits' n = lbit bits n" if "n < 8 * ?d" for n using that len by (simp add: lbit_append lbit_take)
  have high: "lbit ?bits' (8 * ?d + n) \<longleftrightarrow> (if n < 8 * sz then (?sh \<le> n \<and> lbit ?data (n - ?sh)) \<or>
      (\<not> (?sh \<le> n \<and> (n - ?sh < w \<or> w < (n - ?sh) div 8 * 8)) \<and> lbit bits (8 * ?d + n)) else lbit bits (8 * ?d + n))" for n
    using len ok'(1) by (auto simp: lbit_append spec [OF ds(3)] lbit_drop cat_bits_def lbit_masks w_def add.commute)
  have "i40e_hmc_write bits ce host = Some ?bits'"
    using ds(1) ok'(2) by (simp add: i40e_hmc_write_def ce_bytes_def L_def sz_def Let_def)
  moreover have "length ?bits' = length bits" using ds(2) ok'(3) by simp
  moreover have "lbit ?bits' n = lbit bits n" if "n < L" for n
  proof (cases "n < 8 * ?d")
    case False
    then have "\<not> ?sh \<le> n - 8 * ?d" using that L by linarith
    with False show ?thesis using high [of "n - 8 * ?d"] by simp
  qed (rule low)
  moreover have "lbit ?bits' (L + k) = lbit ?data k" if "k < w" for k
    using that high [of "?sh + k"] L ok'(4) by (simp add: add.assoc [symmetric])
  moreover have "lbit bits n" if "lbit ?bits' n" "L + w \<le> n" for n
    using that fit high [of "n - 8 * ?d"] L by (auto simp: w_def split: if_splits)
  ultimately show ?thesis by (intro exI [of _ ?bits']) (simp add: L_def w_def ce_top_def)
qed

text \<open>
  Reading a field: its bits, and those of whole bytes behind its width, for which the mask is not
  cut off because the count of the bits that remain has wrapped.
\<close>

lemma hmc_read_loop_bits:
  assumes "sh < 8" "length masks \<le> length src"
  shows "\<exists>data. hmc_read_loop sh masks src = Some (data, if masks = [] then 0 else push_bit (8 - sh) (src ! 0)) \<and>
    length data = length masks \<and>
    (\<forall>k. lbit data k \<longleftrightarrow> lbit masks k \<and> k + sh < 8 * length masks \<and> lbit src (k + sh))"
  using assms(2)
proof (induction masks arbitrary: src)
  case (Cons m masks)
  obtain x src' where src: "src = x # src'" "length masks \<le> length src'" using Cons.prems by (cases src) auto
  let ?next = "if masks = [] then 0 else push_bit (8 - sh) (src' ! 0)"
  obtain data where d: "hmc_read_loop sh masks src' = Some (data, ?next)" "length data = length masks"
      "\<forall>k. lbit data k \<longleftrightarrow> lbit masks k \<and> k + sh < 8 * length masks \<and> lbit src' (k + sh)"
    using Cons.IH [OF src(2)] by blast
  have "lbit (((drop_bit sh x OR ?next) AND m) # data) k \<longleftrightarrow>
      lbit (m # masks) k \<and> k + sh < 8 * length (m # masks) \<and> lbit (x # src') (k + sh)" for k
  proof (cases "k < 8")
    case True
    have b0: "bit x (sh + k) \<longrightarrow> sh + k < 8" using bit_imp_le_length [of x "sh + k"] by auto
    have b1: "masks \<noteq> [] \<Longrightarrow> lbit src' j \<longleftrightarrow> bit (src' ! 0) j" if "j < 8" for j using that src(2) by (cases src') (auto simp: lbit_Cons)
    have "bit ?next k \<longleftrightarrow> masks \<noteq> [] \<and> 8 - sh \<le> k \<and> lbit src' (k + sh - 8)"
      using True assms(1) b1 [of "k - (8 - sh)"] by (auto simp: bit_push_bit_iff)
    moreover have "masks = [] \<or> k + sh < 8 + 8 * length masks" using True assms(1) by (cases masks) auto
    ultimately show ?thesis
      using True b0 assms(1) by (auto simp: lbit_Cons bit_and_iff bit_or_iff bit_drop_bit_eq add.commute Suc_le_eq)
  next
    case False
    then have "lbit (x # src') (k + sh) = lbit src' (k - 8 + sh)" "k + sh < 8 * length (m # masks) \<longleftrightarrow> k - 8 + sh < 8 * length masks"
      by (auto simp: lbit_Cons)
    then show ?thesis using False spec [OF d(3), of "k - 8"] by (simp add: lbit_Cons [of _ _ k])
  qed
  then show ?case using d(1,2) src by simp
qed simp

lemma hmc_read_field:
  assumes ok: "ce_ok (length host) (length bits) ce" and tight: "8 * ce_size_of ce \<le> unat (ce_width ce) + 8"
  shows "\<exists>host'. i40e_hmc_read bits ce host = Some host' \<and> length host' = length host \<and>
    (\<forall>i < ce_offset ce. host' ! i = host ! i) \<and> (\<forall>i. ce_offset ce + ce_size_of ce \<le> i \<longrightarrow> i < length host \<longrightarrow> host' ! i = host ! i) \<and>
    (\<forall>k. lbit (ce_bytes ce host') k \<longleftrightarrow> k < unat (ce_width ce) \<and> lbit bits (unat (ce_lsb ce) + k))"
proof -
  define L w sz off where "L = unat (ce_lsb ce)" and "w = unat (ce_width ce)" and "sz = ce_size_of ce" and "off = ce_offset ce"
  note def = L_def w_def sz_def off_def
  let ?masks = "map (hmc_mask (ce_width ce)) [0..<sz]" and ?sh = "L mod 8" and ?d = "L div 8"
  have ok': "sz \<le> 8" "off + sz \<le> length host" "?d + sz \<le> length bits" "?sh + w \<le> 8 * sz"
    using ok by (auto simp: ce_ok_def def)
  have L: "L = 8 * ?d + ?sh" by simp
  have "?sh < 8" "length ?masks \<le> length (drop ?d bits)" using ok'(3) by simp_all
  then obtain data nx where d: "hmc_read_loop ?sh ?masks (drop ?d bits) = Some (data, nx)" "length data = sz"
      "\<forall>k. lbit data k \<longleftrightarrow> lbit ?masks k \<and> k + ?sh < 8 * sz \<and> lbit (drop ?d bits) (k + ?sh)"
    using hmc_read_loop_bits [of ?sh ?masks "drop ?d bits"] by auto
  let ?host = "take off host @ data @ drop (off + sz) host"
  have "lbit data k \<longleftrightarrow> k < w \<and> lbit bits (L + k)" for k
  proof -
    have "lbit ?masks k \<longleftrightarrow> k < 8 * sz \<and> (k < w \<or> w < k div 8 * 8)" using lbit_masks [OF ok'(1)] by (simp add: w_def)
    moreover have "k div 8 * 8 \<le> w" if "k < 8 * sz"
    proof -
      have "k div 8 < sz" using that by (simp add: less_mult_imp_div_less mult.commute)
      then show ?thesis using tight by (simp add: w_def sz_def)
    qed
    moreover have "k + ?sh + 8 * ?d = L + k" using L by linarith
    ultimately have "lbit data k \<longleftrightarrow> k < 8 * sz \<and> k < w \<and> k + ?sh < 8 * sz \<and> lbit bits (L + k)"
      using spec [OF d(3), of k] unfolding lbit_drop by (metis not_le)
    then show ?thesis using ok'(4) by auto
  qed
  moreover have "i40e_hmc_read bits ce host = Some ?host"
    using d(1) ok'(2) by (simp add: i40e_hmc_read_def def [symmetric] Let_def)
  moreover have "ce_bytes ce ?host = data" "length ?host = length host" using d(2) ok'(2) by (simp_all add: ce_bytes_def def [symmetric])
  moreover have "?host ! i = host ! i" if "i < off" for i using that ok'(2) by (simp add: nth_append)
  moreover have "?host ! i = host ! i" if "off + sz \<le> i" "i < length host" for i
  proof -
    have "\<not> i - off < sz" using that by linarith
    then show ?thesis using that ok'(2) d(2) by (simp add: nth_append)
  qed
  ultimately show ?thesis by (intro exI [of _ ?host]) (simp add: def)
qed

subsection \<open>A table of fields\<close>

text \<open>The bit string of a table: what the data sheet says of the context.\<close>

definition ctx_image :: "i40e_hmc_ce list \<Rightarrow> u8 list \<Rightarrow> nat \<Rightarrow> bool" where
  "ctx_image ces host n \<longleftrightarrow>
     (\<exists>ce \<in> set ces. unat (ce_lsb ce) \<le> n \<and> n < ce_top ce \<and> lbit (ce_bytes ce host) (n - unat (ce_lsb ce)))"

definition ctx_fits :: "i40e_hmc_ce list \<Rightarrow> u8 list \<Rightarrow> bool" where
  "ctx_fits ces host \<longleftrightarrow>
     (\<forall>ce \<in> set ces. \<forall>k \<in> set [0..<8 * ce_size_of ce]. unat (ce_width ce) \<le> k \<longrightarrow> \<not> lbit (ce_bytes ce host) k)"

text \<open>Fields in the order of their place, each with its width, up to the end of the table.\<close>

fun ce_table :: "nat \<Rightarrow> nat \<Rightarrow> nat \<Rightarrow> i40e_hmc_ce list \<Rightarrow> bool" where
  "ce_table host_len bits_len from [] \<longleftrightarrow> False"
| "ce_table host_len bits_len from [z] \<longleftrightarrow> ce_width z = 0"
| "ce_table host_len bits_len from (ce # ces) \<longleftrightarrow>
     from \<le> unat (ce_lsb ce) \<and> ce_width ce \<noteq> 0 \<and> ce_ok host_len bits_len ce \<and> ce_table host_len bits_len (ce_top ce) ces"

lemma ctx_image_Cons:
  "ctx_image (ce # ces) host n \<longleftrightarrow>
     (unat (ce_lsb ce) \<le> n \<and> n < ce_top ce \<and> lbit (ce_bytes ce host) (n - unat (ce_lsb ce))) \<or> ctx_image ces host n"
  by (simp add: ctx_image_def)

lemma ctx_fits_field:
  assumes "ctx_fits ces host" "ce \<in> set ces" "unat (ce_width ce) \<le> k"
  shows "\<not> lbit (ce_bytes ce host) k"
proof (cases "k < 8 * ce_size_of ce")
  case False
  have "length (ce_bytes ce host) \<le> ce_size_of ce" by (simp add: ce_bytes_def)
  with False show ?thesis by (simp add: lbit_def)
qed (use assms in \<open>auto simp: ctx_fits_def\<close>)

lemma hmc_write_all_image:
  assumes "ce_table (length host) (length bits) from ces" "ctx_fits ces host" "\<And>n. from \<le> n \<Longrightarrow> \<not> lbit bits n"
  shows "\<exists>bits'. hmc_write_all ces host bits = Some bits' \<and> length bits' = length bits \<and>
    (\<forall>n. lbit bits' n \<longleftrightarrow> lbit bits n \<or> ctx_image ces host n)"
  using assms
proof (induction "length host" "length bits" "from" ces arbitrary: bits rule: ce_table.induct)
  case (2 lo z)
  then show ?case by (auto simp: ctx_image_def ce_top_def)
next
  case (3 lo ce ce' ces)
  let ?L = "unat (ce_lsb ce)"
  have t: "lo \<le> ?L" "ce_width ce \<noteq> 0" "ce_ok (length host) (length bits) ce" "ce_table (length host) (length bits) (ce_top ce) (ce' # ces)"
    using "3.prems"(1) by simp_all
  obtain b1 where b1: "i40e_hmc_write bits ce host = Some b1" "length b1 = length bits" "\<forall>n < ?L. lbit b1 n = lbit bits n"
      "\<forall>k < unat (ce_width ce). lbit b1 (?L + k) = lbit (ce_bytes ce host) k" "\<forall>n \<ge> ce_top ce. lbit b1 n \<longrightarrow> lbit bits n"
    using hmc_write_field [OF t(3) ctx_fits_field [OF "3.prems"(2)]] by auto
  have old: "\<not> lbit bits n" if "?L \<le> n" for n using "3.prems"(3) t(1) that by simp
  have bits: "lbit b1 n \<longleftrightarrow> lbit bits n \<or> (?L \<le> n \<and> n < ce_top ce \<and> lbit (ce_bytes ce host) (n - ?L))" for n
  proof -
    consider "n < ?L" | "?L \<le> n" "n < ce_top ce" | "ce_top ce \<le> n" "?L \<le> n" unfolding ce_top_def by linarith
    then show ?thesis using b1(3-5) old by cases (auto simp: ce_top_def dest: spec [of _ "n - ?L"])
  qed
  have "\<not> lbit b1 n" if "ce_top ce \<le> n" for n using that bits old by (auto simp: ce_top_def)
  moreover have "ctx_fits (ce' # ces) host" using "3.prems"(2) by (simp add: ctx_fits_def)
  ultimately obtain b2 where "hmc_write_all (ce' # ces) host b1 = Some b2" "length b2 = length b1"
      "\<forall>n. lbit b2 n \<longleftrightarrow> lbit b1 n \<or> ctx_image (ce' # ces) host n"
    using "3.hyps" [of b1] t(4) b1(2) by auto
  then show ?case using b1(1,2) t(2) bits by (auto simp: ctx_image_Cons [of ce])
qed simp

text \<open>The two tables are such tables, for contexts of 32 and of 128 bytes.\<close>

lemma ctx_bytes_length [simp]: "length (ctx_rx_bytes c) = 48" "length (ctx_tx_bytes d) = 48"
  by (simp_all add: ctx_rx_bytes_def ctx_tx_bytes_def)

lemma ce_tables:
  "32 \<le> n \<Longrightarrow> ce_table 48 n 0 I40E_HMC_CE_RX" "128 \<le> n \<Longrightarrow> ce_table 48 n 0 I40E_HMC_CE_TX"
  by (simp_all add: I40E_HMC_CE_RX_def I40E_HMC_CE_TX_def ce_ok_def ce_top_def)

lemmas ctx_rx_written = hmc_write_all_image [of "ctx_rx_bytes c" "replicate n 0" 0 I40E_HMC_CE_RX, simplified, OF ce_tables(1)] for c n
lemmas ctx_tx_written = hmc_write_all_image [of "ctx_tx_bytes c" "replicate n 0" 0 I40E_HMC_CE_TX, simplified, OF ce_tables(2)] for c n

end
