(* ===== verification/I40e_Hmc.thy ===== *)
theory I40e_Hmc
  imports I40e_Aqc I40e_Ctx_Spec
begin

text \<open>
  The memory in which the device keeps the contexts of its queues, \<open>dev/i40e/i40e_hmc.c\<close>: segments of 512 pages that the driver
  allocates and tells the device, and the place of a context in them.
\<close>

subsection \<open>Constants\<close>

definition I40E_HMC_MAX_BP_COUNT :: nat where "I40E_HMC_MAX_BP_COUNT = 512"
definition I40E_HMC_DIRECT_BP_SIZE :: u64 where "I40E_HMC_DIRECT_BP_SIZE = 0x200000"
definition I40E_HMC_PAGED_BP_SIZE :: nat where "I40E_HMC_PAGED_BP_SIZE = 4096"
definition I40E_HMC_L2OBJ_BASE_ALIGNMENT :: u64 where "I40E_HMC_L2OBJ_BASE_ALIGNMENT = 512"

datatype i40e_sd_entry_type = I40E_SD_TYPE_INVALID | I40E_SD_TYPE_PAGED | I40E_SD_TYPE_DIRECT

text \<open>A shift by 64 or more is undefined.\<close>

definition BIT_ULL :: "nat \<Rightarrow> u64 option" where
  "BIT_ULL k = (if k < 64 then Some (push_bit k 1) else None)"

subsection \<open>Segments\<close>

definition sd_type_bit :: "i40e_sd_entry_type \<Rightarrow> u32" where
  "sd_type_bit ty = push_bit I40E_PFHMC_SDDATALOW_PMSDTYPE_SHIFT (if ty = I40E_SD_TYPE_PAGED then 0 else 1)"

definition i40e_set_pf_sd_entry :: "u64 \<Rightarrow> u32 \<Rightarrow> i40e_sd_entry_type \<Rightarrow> i40e \<Rightarrow> i40e" where
  "i40e_set_pf_sd_entry pa sd_index ty n =
     (let val1 = upper32 pa;
          val2 = lower32 pa OR push_bit I40E_PFHMC_SDDATALOW_PMSDBPCOUNT_SHIFT (of_nat I40E_HMC_MAX_BP_COUNT)
                 OR sd_type_bit ty OR push_bit I40E_PFHMC_SDDATALOW_PMSDVALID_SHIFT 1;
          val3 = sd_index OR push_bit I40E_PFHMC_SDCMD_PMSDWR_SHIFT 1;
          n = UFP_WRITE32 I40E_PFHMC_SDDATAHIGH val1 n;
          n = UFP_WRITE32 I40E_PFHMC_SDDATALOW val2 n
      in UFP_WRITE32 I40E_PFHMC_SDCMD val3 n)"

definition i40e_clear_pf_sd_entry :: "u32 \<Rightarrow> i40e_sd_entry_type \<Rightarrow> i40e \<Rightarrow> i40e" where
  "i40e_clear_pf_sd_entry sd_index ty n =
     (let val2 = push_bit I40E_PFHMC_SDDATALOW_PMSDBPCOUNT_SHIFT (of_nat I40E_HMC_MAX_BP_COUNT) OR sd_type_bit ty;
          val3 = sd_index OR push_bit I40E_PFHMC_SDCMD_PMSDWR_SHIFT 1;
          n = UFP_WRITE32 I40E_PFHMC_SDDATAHIGH 0 n;
          n = UFP_WRITE32 I40E_PFHMC_SDDATALOW val2 n
      in UFP_WRITE32 I40E_PFHMC_SDCMD val3 n)"

text \<open>A page of the segment is empty when it is allocated; its address is entered with the valid bit.\<close>

definition new_pages :: "ufp_dev_buf list \<Rightarrow> i40e \<Rightarrow> i40e" where
  "new_pages pds n = n\<lparr>nic_pages := (\<lambda>a. if a \<in> set (map db_addr_virt pds) then replicate I40E_HMC_PAGED_BP_SIZE 0 else nic_pages n a)\<rparr>"

definition i40e_hmc_sd_allocate :: "u32 \<Rightarrow> i40e \<Rightarrow> os \<Rightarrow> (i40e_hmc_sd_entry option \<times> i40e \<times> os) option" where
  "i40e_hmc_sd_allocate sd_index n s =
     do { (a, s) \<leftarrow> ufp_dev_dma_alloc I40E_HMC_PAGED_BP_SIZE s;
          case a of None \<Rightarrow> Some (None, n, s)
          | Some pd_addrs \<Rightarrow> do {
              (ok, pds, s) \<leftarrow> dma_alloc_loop I40E_HMC_MAX_BP_COUNT I40E_HMC_PAGED_BP_SIZE [] s;
              if \<not> ok then do { s \<leftarrow> dma_free_loop pds s; s \<leftarrow> ufp_dev_dma_free pd_addrs s; Some (None, n, s) }
              else Some (Some \<lparr>sd_pd_addrs = pd_addrs, sd_addrs = map (\<lambda>pd. db_addr_dma pd OR 0x1) pds, sd_pd = pds\<rparr>,
                     i40e_set_pf_sd_entry (db_addr_dma pd_addrs) sd_index I40E_SD_TYPE_PAGED (new_pages pds n), s) } }"

definition pd_invalidate :: "u32 \<Rightarrow> i40e \<Rightarrow> i40e" where
  "pd_invalidate sd_index n =
     fold (\<lambda>i. UFP_WRITE32 I40E_PFHMC_PDINV
       (push_bit I40E_PFHMC_PDINV_PMSDIDX_SHIFT sd_index OR push_bit I40E_PFHMC_PDINV_PMPDIDX_SHIFT (of_nat i)))
       [0..<I40E_HMC_MAX_BP_COUNT] n"

text \<open>The writes that invalidate the pages and the frees of them alternate; they do not depend on each other.\<close>

definition i40e_hmc_sd_release :: "i40e_hmc_sd_entry \<Rightarrow> u32 \<Rightarrow> i40e \<Rightarrow> os \<Rightarrow> (i40e \<times> os) option" where
  "i40e_hmc_sd_release sd_entry sd_index n s =
     (if length (sd_pd sd_entry) < I40E_HMC_MAX_BP_COUNT then None
      else do {
        let n = i40e_clear_pf_sd_entry sd_index I40E_SD_TYPE_PAGED n;
        let n = pd_invalidate sd_index n;
        s \<leftarrow> dma_free_loop (take I40E_HMC_MAX_BP_COUNT (sd_pd sd_entry)) s;
        s \<leftarrow> ufp_dev_dma_free (sd_pd_addrs sd_entry) s;
        Some (n, s) })"

fun sd_alloc_loop :: "nat \<Rightarrow> i40e_hmc_sd_entry list \<Rightarrow> i40e \<Rightarrow> os \<Rightarrow> (bool \<times> i40e_hmc_sd_entry list \<times> i40e \<times> os) option" where
  "sd_alloc_loop 0 sds n s = Some (True, sds, n, s)"
| "sd_alloc_loop (Suc left) sds n s =
     do { (r, n, s) \<leftarrow> i40e_hmc_sd_allocate (of_nat (length sds)) n s;
          case r of None \<Rightarrow> Some (False, sds, n, s) | Some sd \<Rightarrow> sd_alloc_loop left (sds @ [sd]) n s }"

fun sd_release_loop :: "nat \<Rightarrow> i40e_hmc_sd_entry list \<Rightarrow> i40e \<Rightarrow> os \<Rightarrow> (i40e \<times> os) option" where
  "sd_release_loop i [] n s = Some (n, s)"
| "sd_release_loop i (sd # sds) n s =
     do { (n, s) \<leftarrow> i40e_hmc_sd_release sd (of_nat i) n s; sd_release_loop (i + 1) sds n s }"

definition hmc_base :: "i40e_hmc_obj \<Rightarrow> u32 \<Rightarrow> u32" where
  "hmc_base obj m = ucast ((ho_base obj AND ucast m) div 512)"

definition i40e_hmc_configure :: "i40e \<Rightarrow> os \<Rightarrow> (int \<times> i40e \<times> os) option" where
  "i40e_hmc_configure n s =
     do { let hmc = ed_hmc n;
          (ok, sds, n, s) \<leftarrow> sd_alloc_loop (unat (hmc_sd_count hmc)) [] n s;
          if \<not> ok then do { (n, s) \<leftarrow> sd_release_loop 0 sds n s; Some (-1, n, s) }
          else do {
            let n = n\<lparr>ed_hmc := hmc\<lparr>hmc_sd_entry := (fst (hmc_sd_entry hmc), sds)\<rparr>\<rparr>;
            let pf = ucast (ed_pf_id n);
            let n = UFP_WRITE32 (I40E_GLHMC_LANTXBASE pf) (hmc_base (hmc_obj_tx hmc) I40E_GLHMC_LANTXBASE_FPMLANTXBASE_MASK) n;
            let n = UFP_WRITE32 (I40E_GLHMC_LANTXCNT pf) (ho_count (hmc_obj_tx hmc)) n;
            let n = UFP_WRITE32 (I40E_GLHMC_LANRXBASE pf) (hmc_base (hmc_obj_rx hmc) I40E_GLHMC_LANRXBASE_FPMLANRXBASE_MASK) n;
            let n = UFP_WRITE32 (I40E_GLHMC_LANRXCNT pf) (ho_count (hmc_obj_rx hmc)) n;
            Some (0, n, s) } }"

definition i40e_hmc_shutdown :: "i40e \<Rightarrow> os \<Rightarrow> (i40e \<times> os) option" where
  "i40e_hmc_shutdown n s =
     (if length (snd (hmc_sd_entry (ed_hmc n))) < unat (hmc_sd_count (ed_hmc n)) then None
      else sd_release_loop 0 (take (unat (hmc_sd_count (ed_hmc n))) (snd (hmc_sd_entry (ed_hmc n)))) n s)"

definition i40e_hmc_init :: "i40e \<Rightarrow> os \<Rightarrow> (int \<times> i40e \<times> os) option" where
  "i40e_hmc_init n s =
     do { let (queue_max, n) = UFP_READ32 I40E_GLHMC_LANQMAX n;
          let (tx_shift, n) = UFP_READ32 I40E_GLHMC_LANTXOBJSZ n;
          obj_size_tx \<leftarrow> BIT_ULL (unat tx_shift);
          let (rx_shift, n) = UFP_READ32 I40E_GLHMC_LANRXOBJSZ n;
          obj_size_rx \<leftarrow> BIT_ULL (unat rx_shift);
          let fpm_size = obj_size_tx + obj_size_rx;
          let obj_tx = \<lparr>ho_base = 0, ho_count = queue_max, ho_size = obj_size_tx\<rparr>;
          let obj_rx = \<lparr>ho_base = ho_base obj_tx + ALIGN (ucast queue_max * obj_size_tx) I40E_HMC_L2OBJ_BASE_ALIGNMENT,
            ho_count = queue_max, ho_size = obj_size_rx\<rparr>;
          let sd_count = ucast ((fpm_size + I40E_HMC_DIRECT_BP_SIZE - 1) div I40E_HMC_DIRECT_BP_SIZE);
          let (p, s) = os_get Heap s;
          case p of None \<Rightarrow> Some (-1, n\<lparr>ed_hmc := \<lparr>hmc_obj_tx = obj_tx, hmc_obj_rx = obj_rx, hmc_sd_count = sd_count, hmc_sd_entry = (0, [])\<rparr>\<rparr>, s)
          | Some p \<Rightarrow> do {
              let n = n\<lparr>ed_hmc := \<lparr>hmc_obj_tx = obj_tx, hmc_obj_rx = obj_rx, hmc_sd_count = sd_count, hmc_sd_entry = (p, [])\<rparr>\<rparr>;
              (err, n, s) \<leftarrow> i40e_hmc_configure n s;
              if err < 0 then do { s \<leftarrow> os_put (Heap p) s; Some (-1, n, s) } else Some (0, n, s) } }"

definition i40e_hmc_destroy :: "i40e \<Rightarrow> os \<Rightarrow> (i40e \<times> os) option" where
  "i40e_hmc_destroy n s =
     do { (n, s) \<leftarrow> i40e_hmc_shutdown n s; s \<leftarrow> os_put (Heap (fst (hmc_sd_entry (ed_hmc n)))) s; Some (n, s) }"

subsection \<open>Contexts\<close>

text \<open>The page of a context and the place in it; the first result is \<open>None\<close> if there is no such segment.\<close>

definition i40e_hmc_va :: "i40e_hmc \<Rightarrow> i40e_hmc_obj \<Rightarrow> u16 \<Rightarrow> (addr \<times> nat) option option" where
  "i40e_hmc_va hmc obj qp_idx =
     (let addr_fpm = ucast qp_idx * ho_size obj + ho_base obj;
          page_idx = ucast (addr_fpm div of_nat I40E_HMC_PAGED_BP_SIZE) :: u32;
          sd_idx = page_idx div of_nat I40E_HMC_MAX_BP_COUNT;
          pd_idx = page_idx mod of_nat I40E_HMC_MAX_BP_COUNT;
          offset = addr_fpm mod of_nat I40E_HMC_PAGED_BP_SIZE
      in if sd_idx \<ge> hmc_sd_count hmc then Some None
         else if length (snd (hmc_sd_entry hmc)) \<le> unat sd_idx then None
         else let sd_entry = snd (hmc_sd_entry hmc) ! unat sd_idx in
           if length (sd_pd sd_entry) \<le> unat pd_idx then None
           else Some (Some (db_addr_virt (sd_pd sd_entry ! unat pd_idx), unat offset)))"

text \<open>The context is cleared and its fields are written; nothing behind the page may be touched.\<close>

definition hmc_set_ctx :: "i40e_hmc_ce list \<Rightarrow> u8 list \<Rightarrow> i40e_hmc_obj \<Rightarrow> u16 \<Rightarrow> i40e \<Rightarrow> (int \<times> i40e) option" where
  "hmc_set_ctx ces ctx obj qp_idx n =
     do { va \<leftarrow> i40e_hmc_va (ed_hmc n) obj qp_idx;
          case va of None \<Rightarrow> Some (-1, n)
          | Some (page, off) \<Rightarrow>
              (let bits = drop off (nic_pages n page); sz = unat (ho_size obj) in
               if length bits < sz then None
               else do {
                 bits \<leftarrow> hmc_write_all ces ctx (replicate sz 0 @ drop sz bits);
                 Some (0, n\<lparr>nic_pages := (nic_pages n)(page := take off (nic_pages n page) @ bits)\<rparr>) }) }"

definition i40e_hmc_set_ctx_tx :: "i40e_hmc_ctx_tx \<Rightarrow> u16 \<Rightarrow> i40e \<Rightarrow> (int \<times> i40e) option" where
  "i40e_hmc_set_ctx_tx ctx qp_idx n = hmc_set_ctx I40E_HMC_CE_TX (ctx_tx_bytes ctx) (hmc_obj_tx (ed_hmc n)) qp_idx n"

definition i40e_hmc_set_ctx_rx :: "i40e_hmc_ctx_rx \<Rightarrow> u16 \<Rightarrow> i40e \<Rightarrow> (int \<times> i40e) option" where
  "i40e_hmc_set_ctx_rx ctx qp_idx n = hmc_set_ctx I40E_HMC_CE_RX (ctx_rx_bytes ctx) (hmc_obj_rx (ed_hmc n)) qp_idx n"

end
