(* ===== verification/I40e_Main.thy ===== *)
theory I40e_Main
  imports I40e_Hmc I40e_Desc Ufp_Iface
begin

text \<open>
  The device as a whole, \<open>dev/i40e/i40e_main.c\<close>: the reset, the commands that configure the function and its switch, the
  interrupt of the device, and \<open>i40e_open\<close> and \<open>i40e_close\<close>. Waiting is not modelled; every wait of the code is for an answer of the
  device that a later read gives.
\<close>

subsection \<open>Constants\<close>

definition I40E_MAX_NUM_DESCRIPTORS :: u32 where "I40E_MAX_NUM_DESCRIPTORS = 4096"
definition I40E_PF_RESET_WAIT_COUNT :: u32 where "I40E_PF_RESET_WAIT_COUNT = 200"
definition I40E_NUM_MISC_IRQS :: u16 where "I40E_NUM_MISC_IRQS = 1"
definition I40E_HASH_FILTER_SIZE_1K :: u32 where "I40E_HASH_FILTER_SIZE_1K = 0"
definition I40E_DMA_CNTX_SIZE_512 :: u32 where "I40E_DMA_CNTX_SIZE_512 = 0"
definition I40E_HASH_LUT_SIZE_128 :: u32 where "I40E_HASH_LUT_SIZE_128 = 0"
definition I40E_PFQF_CTL_0_HASHLUTSIZE_512 :: u32 where "I40E_PFQF_CTL_0_HASHLUTSIZE_512 = 0x00010000"
definition I40E_HKEY_ARRAY_SIZE :: nat where "I40E_HKEY_ARRAY_SIZE = (I40E_PFQF_HKEY_MAX_INDEX + 1) * 4"
definition I40E_HLUT_ARRAY_SIZE :: nat where "I40E_HLUT_ARRAY_SIZE = (I40E_PFQF_HLUT_MAX_INDEX + 1) * 4"
definition I40E_AQ_EVENT_LINK_UPDOWN :: u16 where "I40E_AQ_EVENT_LINK_UPDOWN = 0x0002"
definition I40E_AQ_EVENT_MEDIA_NA :: u16 where "I40E_AQ_EVENT_MEDIA_NA = 0x0004"
definition I40E_AQ_EVENT_MODULE_QUAL_FAIL :: u16 where "I40E_AQ_EVENT_MODULE_QUAL_FAIL = 0x0100"
definition I40E_AQ_SET_SWITCH_CFG_PROMISC :: u16 where "I40E_AQ_SET_SWITCH_CFG_PROMISC = 0x0001"
definition I40E_AQ_SW_ELEM_TYPE_VSI :: u8 where "I40E_AQ_SW_ELEM_TYPE_VSI = 19"
definition I40E_QUEUE_END_OF_LIST :: u32 where "I40E_QUEUE_END_OF_LIST = 0x7FF"
definition I40E_ITR_8K :: u32 where "I40E_ITR_8K = 0x003E"
definition I40E_IDX_ITR0 :: u32 where "I40E_IDX_ITR0 = 0"

text \<open>The packet types for which the hash is enabled, in the order of the code.\<close>

definition rss_pctypes :: "nat list" where
  "rss_pctypes = [31, 34, 33, 35, 36, 41, 43, 44, 45, 46, 63]"

subsection \<open>Ways of the code\<close>

text \<open>The next step, unless there was an error.\<close>

definition and_then :: "(int \<times> i40e \<times> os) option \<Rightarrow> (i40e \<Rightarrow> os \<Rightarrow> (int \<times> i40e \<times> os) option) \<Rightarrow> (int \<times> i40e \<times> os) option" where
  "and_then m f = do { (err, n, s) \<leftarrow> m; if err < 0 then Some (-1, n, s) else f n s }"

text \<open>Reading a register until it has a value as expected, at most so many times; with the last value.\<close>

fun poll_reg :: "nat \<Rightarrow> u32 \<Rightarrow> u32 \<Rightarrow> (u32 \<Rightarrow> bool) \<Rightarrow> i40e \<Rightarrow> bool \<times> u32 \<times> i40e" where
  "poll_reg 0 v reg ok n = (False, v, n)"
| "poll_reg (Suc left) v reg ok n =
     (case UFP_READ32 reg n of (v, n) \<Rightarrow> if ok v then (True, v, n) else poll_reg left v reg ok n)"

text \<open>The number of rounds of \<open>do ... while(--timeout)\<close>: from 0 the counter wraps around.\<close>

definition rounds :: "u32 \<Rightarrow> nat" where
  "rounds timeout = (if timeout = 0 then 2 ^ 32 else unat timeout)"

definition i40e_flush :: "i40e \<Rightarrow> i40e" where
  "i40e_flush n = snd (UFP_READ32 I40E_GLGEN_STAT n)"

definition write_each :: "(u32 \<Rightarrow> u32) \<Rightarrow> u32 \<Rightarrow> u32 \<Rightarrow> i40e \<Rightarrow> i40e" where
  "write_each reg num val n = fold (\<lambda>i. UFP_WRITE32 (reg (of_nat i)) val) [0..<unat num] n"

text \<open>A command whose result is only whether it was accepted.\<close>

definition aq_simple :: "(nat \<Rightarrow> i40e \<Rightarrow> i40e option) \<Rightarrow> int list \<Rightarrow> i40e \<Rightarrow> os \<Rightarrow> (int \<times> i40e \<times> os) option" where
  "aq_simple req accepted n s =
     do { (r, n, s) \<leftarrow> aq_command req accepted n s; Some (if r = None then -1 else 0, n, s) }"

subsection \<open>Commands\<close>

definition i40e_rxctl_write :: "u32 \<Rightarrow> u32 \<Rightarrow> i40e \<Rightarrow> os \<Rightarrow> (int \<times> i40e \<times> os) option" where
  "i40e_rxctl_write reg_addr reg_val = aq_simple (i40e_aqc_req_rxctl_write reg_addr reg_val) [I40E_AQ_RC_OK]"

text \<open>The value that was read, or \<open>None\<close> for an error.\<close>

definition i40e_rxctl_read :: "u32 \<Rightarrow> i40e \<Rightarrow> os \<Rightarrow> (u32 option \<times> i40e \<times> os) option" where
  "i40e_rxctl_read reg_addr n s =
     do { (r, n, s) \<leftarrow> aq_command (i40e_aqc_req_rxctl_read reg_addr) [I40E_AQ_RC_OK] n s; Some (map_option aqs_data r, n, s) }"

definition i40e_firmware_version :: "i40e \<Rightarrow> os \<Rightarrow> (int \<times> i40e \<times> os) option" where
  "i40e_firmware_version = aq_simple i40e_aqc_req_firmware_version [I40E_AQ_RC_OK]"

definition i40e_driver_version :: "i40e \<Rightarrow> os \<Rightarrow> (int \<times> i40e \<times> os) option" where
  "i40e_driver_version = aq_simple i40e_aqc_req_driver_version [I40E_AQ_RC_OK]"

definition i40e_clear_pxemode :: "i40e \<Rightarrow> os \<Rightarrow> (int \<times> i40e \<times> os) option" where
  "i40e_clear_pxemode = aq_simple i40e_aqc_req_clear_pxemode [I40E_AQ_RC_OK, I40E_AQ_RC_EEXIST]"

definition i40e_stop_lldp :: "i40e \<Rightarrow> os \<Rightarrow> (int \<times> i40e \<times> os) option" where
  "i40e_stop_lldp = aq_simple i40e_aqc_req_stop_lldp [I40E_AQ_RC_OK, I40E_AQ_RC_EPERM]"

definition i40e_macaddr_read :: "i40e \<Rightarrow> os \<Rightarrow> (int \<times> i40e \<times> os) option" where
  "i40e_macaddr_read = aq_simple i40e_aqc_req_macaddr_read [I40E_AQ_RC_OK]"

definition i40e_set_phyintmask :: "u16 \<Rightarrow> i40e \<Rightarrow> os \<Rightarrow> (int \<times> i40e \<times> os) option" where
  "i40e_set_phyintmask event_mask = aq_simple (i40e_aqc_req_set_phyintmask event_mask) [I40E_AQ_RC_OK]"

definition i40e_set_swconf :: "u16 \<Rightarrow> u16 \<Rightarrow> i40e \<Rightarrow> os \<Rightarrow> (int \<times> i40e \<times> os) option" where
  "i40e_set_swconf flags valid_flags = aq_simple (i40e_aqc_req_set_swconf flags valid_flags) [I40E_AQ_RC_OK]"

fun elems_free :: "(nat \<times> i40e_elem) list \<Rightarrow> os \<Rightarrow> os option" where
  "elems_free [] s = Some s"
| "elems_free ((p, e) # es) s = do { s \<leftarrow> os_put (Heap p) s; elems_free es s }"

definition i40e_clear_swconf :: "i40e \<Rightarrow> os \<Rightarrow> (i40e \<times> os) option" where
  "i40e_clear_swconf n s = do { s \<leftarrow> elems_free (ed_elem n) s; Some (n\<lparr>ed_elem := []\<rparr>, s) }"

definition swconf_req :: "u16 \<Rightarrow> nat \<Rightarrow> i40e \<Rightarrow> i40e option" where
  "swconf_req off session n = i40e_aqc_req_get_swconf session (session_update session (set_seid_offset off) n)"

text \<open>One command after the other, until the device says that there is no further element; it says so by an offset of 0.\<close>

partial_function (option) swconf_fetch :: "u16 \<Rightarrow> i40e \<Rightarrow> os \<Rightarrow> (bool \<times> i40e \<times> os) option" where
  "swconf_fetch off n s =
     do { (r, n, s) \<leftarrow> aq_command (swconf_req off) [I40E_AQ_RC_OK] n s;
          case r of None \<Rightarrow> Some (False, n, s)
          | Some x \<Rightarrow> if seid_offset x \<noteq> 0 then swconf_fetch (seid_offset x) n s else Some (True, n, s) }"

definition i40e_get_swconf :: "i40e \<Rightarrow> os \<Rightarrow> (int \<times> i40e \<times> os) option" where
  "i40e_get_swconf n s =
     do { (n, s) \<leftarrow> i40e_clear_swconf n s;
          (ok, n, s) \<leftarrow> swconf_fetch 0 n s;
          if ok then Some (0, n, s) else do { (n, s) \<leftarrow> i40e_clear_swconf n s; Some (-1, n, s) } }"

subsection \<open>Reset\<close>

definition i40e_reset_hw :: "i40e \<Rightarrow> int \<times> i40e" where
  "i40e_reset_hw n =
     (let (reg, n) = UFP_READ32 I40E_GLGEN_RSTCTL n;
          grst_del = drop_bit I40E_GLGEN_RSTCTL_GRSTDEL_SHIFT (reg AND I40E_GLGEN_RSTCTL_GRSTDEL_MASK);
          (ok, reg, n) = poll_reg (rounds (grst_del * 20)) 0 I40E_GLGEN_RSTAT (\<lambda>v. v AND I40E_GLGEN_RSTAT_DEVSTATE_MASK = 0) n
      in if \<not> ok then (-1, n)
         else let (ok, reg, n) = poll_reg (rounds I40E_PF_RESET_WAIT_COUNT) 0 I40E_GLNVM_ULD
                    (\<lambda>v. v AND I40E_GLNVM_ULD_CONF_CORE_DONE_MASK \<noteq> 0 \<and> v AND I40E_GLNVM_ULD_CONF_GLOBAL_DONE_MASK \<noteq> 0) n
              in if \<not> ok then (-1, n)
                 else let (reg, n) = UFP_READ32 I40E_PFGEN_CTRL n;
                          n = UFP_WRITE32 I40E_PFGEN_CTRL (reg OR I40E_PFGEN_CTRL_PFSWR_MASK) n;
                          (ok, reg, n) = poll_reg (rounds I40E_PF_RESET_WAIT_COUNT) 0 I40E_PFGEN_CTRL
                            (\<lambda>v. v AND I40E_PFGEN_CTRL_PFSWR_MASK = 0) n
                      in (if ok then 0 else -1, n))"

text \<open>A field of a register value.\<close>

abbreviation field :: "u32 \<Rightarrow> u32 \<Rightarrow> nat \<Rightarrow> u32" where "field val m sh \<equiv> drop_bit sh (val AND m)"

text \<open>The warning of the transmit unit that the queue will be disabled or enabled, for the absolute number of a queue.\<close>

definition txpre_write :: "u32 \<Rightarrow> u32 \<Rightarrow> i40e \<Rightarrow> i40e" where
  "txpre_write abs_queue_idx flag n =
     (let reg_block = abs_queue_idx div 128;
          abs_queue_idx = abs_queue_idx mod 128;
          (val, n) = UFP_READ32 (I40E_GLLAN_TXPRE_QDIS reg_block) n;
          val = (val AND NOT I40E_GLLAN_TXPRE_QDIS_QINDX_MASK)
                OR push_bit I40E_GLLAN_TXPRE_QDIS_QINDX_SHIFT abs_queue_idx OR flag
      in UFP_WRITE32 (I40E_GLLAN_TXPRE_QDIS reg_block) val n)"

definition queue_clear :: "u32 \<Rightarrow> i40e \<Rightarrow> i40e" where
  "queue_clear i n =
     UFP_WRITE32 (I40E_QRX_ENA i) 0 (UFP_WRITE32 (I40E_QINT_RQCTL i) 0 (UFP_WRITE32 (I40E_QTX_ENA i) 0 (UFP_WRITE32 (I40E_QINT_TQCTL i) 0 n)))"

definition i40e_clear_hw :: "i40e \<Rightarrow> i40e" where
  "i40e_clear_hw n =
     (let eol = 0x7ff;
          (val, n) = UFP_READ32 I40E_GLPCI_CNF2 n;
          num_pf_int = field val I40E_GLPCI_CNF2_MSI_X_PF_N_MASK I40E_GLPCI_CNF2_MSI_X_PF_N_SHIFT;
          num_vf_int = field val I40E_GLPCI_CNF2_MSI_X_VF_N_MASK I40E_GLPCI_CNF2_MSI_X_VF_N_SHIFT;
          (val, n) = UFP_READ32 I40E_PFLAN_QALLOC n;
          base_queue = field val I40E_PFLAN_QALLOC_FIRSTQ_MASK I40E_PFLAN_QALLOC_FIRSTQ_SHIFT;
          j = field val I40E_PFLAN_QALLOC_LASTQ_MASK I40E_PFLAN_QALLOC_LASTQ_SHIFT;
          num_queues = (if val AND I40E_PFLAN_QALLOC_VALID_MASK \<noteq> 0 then (j - base_queue) + 1 else 0);
          (val, n) = UFP_READ32 I40E_PF_VT_PFALLOC n;
          i = field val I40E_PF_VT_PFALLOC_FIRSTVF_MASK I40E_PF_VT_PFALLOC_FIRSTVF_SHIFT;
          j = field val I40E_PF_VT_PFALLOC_LASTVF_MASK I40E_PF_VT_PFALLOC_LASTVF_SHIFT;
          num_vfs = (if val AND I40E_PF_VT_PFALLOC_VALID_MASK \<noteq> 0 then (j - i) + 1 else 0);
          n = UFP_WRITE32 I40E_PFINT_ICR0_ENA 0 n;
          n = write_each I40E_PFINT_DYN_CTLN (num_pf_int - 2) (push_bit I40E_PFINT_DYN_CTLN_ITR_INDX_SHIFT 0x3) n;
          val = push_bit I40E_PFINT_LNKLST0_FIRSTQ_INDX_SHIFT eol;
          n = UFP_WRITE32 I40E_PFINT_LNKLST0 val n;
          n = write_each I40E_PFINT_LNKLSTN (num_pf_int - 2) val n;
          val = push_bit I40E_VPINT_LNKLST0_FIRSTQ_INDX_SHIFT eol;
          n = write_each I40E_VPINT_LNKLST0 num_vfs val n;
          n = write_each I40E_VPINT_LNKLSTN (num_vf_int - 2) val n;
          n = fold (\<lambda>i. txpre_write (base_queue + of_nat i) I40E_GLLAN_TXPRE_QDIS_SET_QDIS_MASK) [0..<unat num_queues] n
      in fold (\<lambda>i. queue_clear (of_nat i)) [0..<unat num_queues] n)"

subsection \<open>Configuration\<close>

definition i40e_configure_pf :: "i40e \<Rightarrow> os \<Rightarrow> (int \<times> i40e \<times> os) option" where
  "i40e_configure_pf n s =
     and_then (i40e_firmware_version n s) (\<lambda>n s.
     and_then (i40e_driver_version n s) (\<lambda>n s.
     and_then (i40e_clear_pxemode n s) (\<lambda>n s.
     and_then (i40e_stop_lldp n s) (\<lambda>n s.
     and_then (i40e_macaddr_read n s) (\<lambda>n s.
     and_then (i40e_set_phyintmask
       (NOT (I40E_AQ_EVENT_LINK_UPDOWN OR I40E_AQ_EVENT_MEDIA_NA OR I40E_AQ_EVENT_MODULE_QUAL_FAIL)) n s) (\<lambda>n s.
     Some (0, n, s)))))))"

definition i40e_setup_misc_irq :: "i40e \<Rightarrow> i40e" where
  "i40e_setup_misc_irq n =
     (let n = UFP_WRITE32 I40E_PFINT_ICR0_ENA 0 n;
          n = snd (UFP_READ32 I40E_PFINT_ICR0 n);
          val = I40E_PFINT_ICR0_ENA_ECC_ERR_MASK OR I40E_PFINT_ICR0_ENA_MAL_DETECT_MASK OR I40E_PFINT_ICR0_ENA_GRST_MASK
                OR I40E_PFINT_ICR0_ENA_PCI_EXCEPTION_MASK OR I40E_PFINT_ICR0_ENA_GPIO_MASK OR I40E_PFINT_ICR0_ENA_HMC_ERR_MASK
                OR I40E_PFINT_ICR0_ENA_VFLR_MASK OR I40E_PFINT_ICR0_ENA_ADMINQ_MASK;
          n = UFP_WRITE32 I40E_PFINT_ICR0_ENA val n;
          n = UFP_WRITE32 I40E_PFINT_STAT_CTL0 0 n;
          n = UFP_WRITE32 I40E_PFINT_LNKLST0 I40E_QUEUE_END_OF_LIST n;
          n = UFP_WRITE32 (I40E_PFINT_ITR0 I40E_IDX_ITR0) I40E_ITR_8K n
      in i40e_flush n)"

definition i40e_shutdown_misc_irq :: "i40e \<Rightarrow> i40e" where
  "i40e_shutdown_misc_irq n = i40e_flush (UFP_WRITE32 I40E_PFINT_ICR0_ENA 0 n)"

definition i40e_start_misc_irq :: "i40e \<Rightarrow> i40e" where
  "i40e_start_misc_irq n =
     i40e_flush (UFP_WRITE32 I40E_PFINT_DYN_CTL0
       (I40E_PFINT_DYN_CTL0_INTENA_MASK OR I40E_PFINT_DYN_CTL0_CLEARPBA_MASK
        OR push_bit I40E_PFINT_DYN_CTL0_ITR_INDX_SHIFT I40E_ITR_NONE) n)"

definition i40e_stop_misc_irq :: "i40e \<Rightarrow> i40e" where
  "i40e_stop_misc_irq n =
     i40e_flush (UFP_WRITE32 I40E_PFINT_DYN_CTL0 (push_bit I40E_PFINT_DYN_CTLN_ITR_INDX_SHIFT I40E_ITR_NONE) n)"

definition i40e_set_pf_id :: "i40e \<Rightarrow> i40e" where
  "i40e_set_pf_id n =
     (let (pci_cap, n) = UFP_READ32 I40E_GLPCI_CAPSUP n;
          pci_cap_ari = field pci_cap I40E_GLPCI_CAPSUP_ARI_EN_MASK I40E_GLPCI_CAPSUP_ARI_EN_SHIFT;
          (func_rid, n) = UFP_READ32 I40E_PF_FUNC_RID n
      in n\<lparr>ed_pf_id := ucast (func_rid AND (if pci_cap_ari \<noteq> 0 then 0xff else 0x7))\<rparr>)"

text \<open>A field of the filter register gets a value.\<close>

definition put_field :: "u32 \<Rightarrow> u32 \<Rightarrow> nat \<Rightarrow> u32 \<Rightarrow> u32" where
  "put_field x m sh val = (val AND NOT m) OR (push_bit sh x AND m)"

definition filter_ctl :: "u32 \<Rightarrow> u32" where
  "filter_ctl val =
     (let val = put_field I40E_HASH_FILTER_SIZE_1K I40E_PFQF_CTL_0_PEHSIZE_MASK I40E_PFQF_CTL_0_PEHSIZE_SHIFT val;
          val = put_field I40E_DMA_CNTX_SIZE_512 I40E_PFQF_CTL_0_PEDSIZE_MASK I40E_PFQF_CTL_0_PEDSIZE_SHIFT val;
          val = put_field I40E_HASH_FILTER_SIZE_1K I40E_PFQF_CTL_0_PFFCHSIZE_MASK I40E_PFQF_CTL_0_PFFCHSIZE_SHIFT val;
          val = put_field I40E_DMA_CNTX_SIZE_512 I40E_PFQF_CTL_0_PFFCDSIZE_MASK I40E_PFQF_CTL_0_PFFCDSIZE_SHIFT val;
          val = put_field I40E_HASH_LUT_SIZE_128 I40E_PFQF_CTL_0_HASHLUTSIZE_MASK I40E_PFQF_CTL_0_HASHLUTSIZE_SHIFT val
      in val OR I40E_PFQF_CTL_0_FD_ENA_MASK OR I40E_PFQF_CTL_0_ETYPE_ENA_MASK OR I40E_PFQF_CTL_0_MACVLAN_ENA_MASK)"

definition i40e_configure_filter :: "i40e \<Rightarrow> os \<Rightarrow> (int \<times> i40e \<times> os) option" where
  "i40e_configure_filter n s =
     do { (r, n, s) \<leftarrow> i40e_rxctl_read I40E_PFQF_CTL_0 n s;
          case r of None \<Rightarrow> Some (-1, n, s)
          | Some val \<Rightarrow> and_then (i40e_rxctl_write I40E_PFQF_CTL_0 (filter_ctl val) n s) (\<lambda>n s. Some (0, n, s)) }"

definition hena_of :: "u32 \<Rightarrow> u32 \<Rightarrow> u64" where
  "hena_of hena_low hena_high =
     fold (\<lambda>k hena. hena OR push_bit k 1) rss_pctypes (ucast hena_low OR push_bit 32 (ucast hena_high))"

definition i40e_configure_rss :: "i40e \<Rightarrow> os \<Rightarrow> (int \<times> i40e \<times> os) option" where
  "i40e_configure_rss n s =
     do { (r, n, s) \<leftarrow> i40e_rxctl_read (I40E_PFQF_HENA 0) n s;
          case r of None \<Rightarrow> Some (-1, n, s)
          | Some hena_low \<Rightarrow> do {
              (r, n, s) \<leftarrow> i40e_rxctl_read (I40E_PFQF_HENA 1) n s;
              case r of None \<Rightarrow> Some (-1, n, s)
              | Some hena_high \<Rightarrow>
                  (let hena = hena_of hena_low hena_high in
                   and_then (i40e_rxctl_write (I40E_PFQF_HENA 0) (lower32 hena) n s) (\<lambda>n s.
                   and_then (i40e_rxctl_write (I40E_PFQF_HENA 1) (upper32 hena) n s) (\<lambda>n s.
                   do { (r, n, s) \<leftarrow> i40e_rxctl_read I40E_PFQF_CTL_0 n s;
                        case r of None \<Rightarrow> Some (-1, n, s)
                        | Some reg_val \<Rightarrow>
                            and_then (i40e_rxctl_write I40E_PFQF_CTL_0 (reg_val OR I40E_PFQF_CTL_0_HASHLUTSIZE_512) n s)
                              (\<lambda>n s. Some (0, n, s)) }))) } }"

text \<open>The data of the interface that \<open>i40e_setup_pf_switch\<close> makes; its handles of the scheduler are not initialised.\<close>

definition iface_of_elem :: "i40e_elem \<Rightarrow> i40e \<Rightarrow> i40e_iface" where
  "iface_of_elem elem n = \<lparr>ei_type = I40E_VSI_MAIN, ei_seid = el_seid elem, ei_id = el_element_info elem, ei_base_qp = 0,
     ei_qs_handles = replicate I40E_MAX_TRAFFIC_CLASS (ucast (nic_junk n))\<rparr>"

definition iface_default :: "i40e \<Rightarrow> 'd ufp_iface \<Rightarrow> 'd ufp_iface" where
  "iface_default n iface = iface\<lparr>if_mac_addr := ed_pf_lan_mac n,
     if_num_rx_desc := I40E_MAX_NUM_DESCRIPTORS, if_size_rx_desc := unat I40E_MAX_NUM_DESCRIPTORS * 16,
     if_num_tx_desc := I40E_MAX_NUM_DESCRIPTORS, if_size_tx_desc := unat I40E_MAX_NUM_DESCRIPTORS * 16\<rparr>"

definition switch_iface :: "i40e \<Rightarrow> 'd ufp_dev \<Rightarrow> os \<Rightarrow> (int \<times> i40e \<times> 'd ufp_dev \<times> os) option" where
  "switch_iface n dev s =
     (case List.find (\<lambda>e. el_type (snd e) = I40E_AQ_SW_ELEM_TYPE_VSI) (ed_elem n) of
        None \<Rightarrow> do { (n, s) \<leftarrow> i40e_clear_swconf n s; Some (-1, n, dev, s) }
      | Some elem \<Rightarrow> do {
          let (p, s) = os_get Heap s;
          case p of None \<Rightarrow> do { (n, s) \<leftarrow> i40e_clear_swconf n s; Some (-1, n, dev, s) }
          | Some p \<Rightarrow>
              (case dev_iface dev of [] \<Rightarrow> None
               | iface # ifaces \<Rightarrow>
                   Some (0, n\<lparr>ed_ifaces := (p, iface_of_elem (snd elem) n) # drop 1 (ed_ifaces n)\<rparr>,
                     dev\<lparr>dev_iface := iface_default n iface # ifaces\<rparr>, s)) })"

definition i40e_setup_pf_switch :: "i40e \<Rightarrow> 'd ufp_dev \<Rightarrow> os \<Rightarrow> (int \<times> i40e \<times> 'd ufp_dev \<times> os) option" where
  "i40e_setup_pf_switch n dev s =
     do { (err, n, s) \<leftarrow>
            and_then (if ed_pf_id n = 0 then i40e_set_swconf 0 I40E_AQ_SET_SWITCH_CFG_PROMISC n s else Some (0, n, s)) (\<lambda>n s.
            and_then (i40e_configure_filter n s) (\<lambda>n s.
            and_then (i40e_configure_rss n s) (\<lambda>n s.
            i40e_get_swconf n s)));
          if err < 0 then Some (-1, n, dev, s) else switch_iface n dev s }"

definition i40e_open :: "i40e \<Rightarrow> 'd ufp_dev \<Rightarrow> os \<Rightarrow> (int \<times> i40e \<times> 'd ufp_dev \<times> os) option" where
  "i40e_open n dev s =
     do { let n = i40e_set_pf_id n;
          let n = i40e_clear_hw n;
          let (err, n) = i40e_reset_hw n;
          if err < 0 then Some (-1, n, dev, s)
          else do {
            (err, n, s) \<leftarrow> i40e_aq_init n s;
            if err < 0 then Some (-1, n, dev, s)
            else do {
              (err, n, s) \<leftarrow> i40e_configure_pf n s;
              if err \<noteq> 0 then do { (n, s) \<leftarrow> i40e_aq_destroy n s; Some (-1, n, dev, s) }
              else do {
                (err, n, dev, s) \<leftarrow> i40e_setup_pf_switch n dev s;
                if err \<noteq> 0 then do { (n, s) \<leftarrow> i40e_aq_destroy n s; Some (-1, n, dev, s) }
                else do {
                  (err, n, s) \<leftarrow> i40e_hmc_init n s;
                  if err < 0 then do { (n, s) \<leftarrow> i40e_aq_destroy n s; Some (-1, n, dev, s) }
                  else Some (0, n, dev, s) } } } } }"

definition i40e_close :: "i40e \<Rightarrow> os \<Rightarrow> (i40e \<times> os) option" where
  "i40e_close n s =
     do { (n, s) \<leftarrow> i40e_hmc_destroy n s;
          (n, s) \<leftarrow> i40e_clear_swconf n s;
          i40e_aq_destroy n s }"

subsection \<open>Key and table of the hash in registers\<close>

fun rsskey_loop :: "nat \<Rightarrow> u8 list \<Rightarrow> i40e \<Rightarrow> os \<Rightarrow> (int \<times> i40e \<times> os) option" where
  "rsskey_loop 0 key n s = Some (0, n, s)"
| "rsskey_loop (Suc left) key n s =
     (let i = I40E_PFQF_HKEY_MAX_INDEX - left in
      and_then (i40e_rxctl_write (I40E_PFQF_HKEY (of_nat i)) (le_bytes (take 4 (drop (4 * i) key))) n s)
        (\<lambda>n s. rsskey_loop left key n s))"

definition i40e_set_rsskey_reg :: "u8 list \<Rightarrow> i40e \<Rightarrow> os \<Rightarrow> (int \<times> i40e \<times> os) option" where
  "i40e_set_rsskey_reg key n s =
     (if length key \<noteq> I40E_HKEY_ARRAY_SIZE then Some (-1, n, s) else rsskey_loop (I40E_PFQF_HKEY_MAX_INDEX + 1) key n s)"

definition i40e_set_rsslut_reg :: "u8 list \<Rightarrow> i40e \<Rightarrow> int \<times> i40e" where
  "i40e_set_rsslut_reg lut n =
     (if length lut \<noteq> I40E_HLUT_ARRAY_SIZE then (-1, n)
      else (0, fold (\<lambda>i. UFP_WRITE32 (I40E_PFQF_HLUT (of_nat i)) (le_bytes (take 4 (drop (4 * i) lut)))) [0..<I40E_PFQF_HLUT_MAX_INDEX + 1] n))"

end
