(* ===== verification/I40e_Aq_Spec.thy ===== *)
theory I40e_Aq_Spec
  imports I40e_Main
begin

text \<open>
  Commands of the driver return, whatever the device answers, and what they leave behind. A device keeps to the laws of \<open>poll_ok\<close>: the head
  register is an index of the ring and does not move for ever during one call of \<open>i40e_aq_asq_clean\<close>, buffers and descriptors have their
  size, and the elements that it reports are in the buffer.
\<close>

subsection \<open>The device\<close>

definition desc_ok :: "i40e_aq_desc \<Rightarrow> u8 list \<Rightarrow> bool" where
  "desc_ok d b \<longleftrightarrow> length (aqd_params d) = 16 \<and> length b = I40E_MAX_AQ_BUF_SIZE \<and>
     (aqd_opcode d = i40e_aq_opc_get_swconf \<longrightarrow> 16 + 16 * unat (le_bytes (take 2 b) :: u16) \<le> I40E_MAX_AQ_BUF_SIZE)"

definition look_ok :: "nat \<Rightarrow> aq_look \<Rightarrow> bool" where
  "look_ok num l \<longleftrightarrow> num \<le> length (lk_mem l) \<and> num \<le> length (lk_bufs l) \<and> list_all (\<lambda>i. desc_ok (lk_mem l ! i) (lk_bufs l ! i)) [0..<num]"

definition poll_ok :: "nat \<Rightarrow> aq_look list \<Rightarrow> bool" where
  "poll_ok num p \<longleftrightarrow> p \<noteq> [] \<longrightarrow> num < length p \<and> list_all (look_ok num) p \<and> unat (lk_head (last p)) < num \<and>
     list_all (\<lambda>l. lk_head l = lk_head (last p)) (drop (length p - (num + 1)) p)"

subsection \<open>The driver\<close>

definition aq_ring_ok :: "i40e_aq_ring \<Rightarrow> bool" where
  "aq_ring_ok ring \<longleftrightarrow> (let num = unat (aqr_num_desc ring) in
     unat (aqr_next_to_use ring) < num \<and> unat (aqr_next_to_clean ring) < num \<and>
     num \<le> length (aqr_mem ring) \<and> num \<le> length (snd (aqr_bufs ring)) \<and> num \<le> length (aqr_bufmem ring))"

definition aq_inv :: "i40e \<Rightarrow> os \<Rightarrow> bool" where
  "aq_inv n s \<longleftrightarrow> (\<exists>ring. ed_tx_ring n = Some ring \<and> aq_ring_ok ring \<and> (\<forall>p \<in> sset (nic_polls n). poll_ok (unat (aqr_num_desc ring)) p)) \<and>
     list_all (\<lambda>x. aqs_ptr x < os_next s) (ed_session n) \<and> list_all (\<lambda>i. ei_qs_handles (snd i) \<noteq> []) (ed_ifaces n)"

text \<open>What no command changes: of a ring its memory and its registers, of an interface its identifiers, and the sessions that are open.\<close>

definition ring_core :: "i40e_aq_ring \<Rightarrow> i40e_aq_ring" where
  "ring_core ring = ring\<lparr>aqr_mem := [], aqr_bufmem := [], aqr_next_to_use := 0, aqr_next_to_clean := 0\<rparr>"

definition iface_core :: "nat \<times> i40e_iface \<Rightarrow> nat \<times> i40e_iface" where
  "iface_core i = (fst i, (snd i)\<lparr>ei_qs_handles := []\<rparr>)"

definition core where
  "core n = (ed_ptr n, ed_hmc n, nic_pages n, ed_rx_ring n, ed_pf_id n, map aqs_ptr (ed_session n), map iface_core (ed_ifaces n),
     map_option ring_core (ed_tx_ring n))"

definition elem_res :: "(nat \<times> i40e_elem) list \<Rightarrow> res multiset" where
  "elem_res es = image_mset (\<lambda>e. Heap (fst e)) (mset es)"

lemma elem_res_append [simp]: "elem_res [] = {#}" "elem_res (es @ es') = elem_res es + elem_res es'" "elem_res (e # es) = add_mset (Heap (fst e)) (elem_res es)"
  by (simp_all add: elem_res_def)

text \<open>The values that reads of registers will give are among those from before.\<close>

text \<open>A device that says nothing any more from the given look on; and the use of its looks up to one that says something.\<close>

definition quiet :: "nat \<Rightarrow> i40e \<Rightarrow> bool" where
  "quiet k n \<longleftrightarrow> (\<forall>i\<ge>k. nic_polls n !! i = [])"

definition polls_le :: "i40e \<Rightarrow> i40e \<Rightarrow> bool" where
  "polls_le n n' \<longleftrightarrow> (\<forall>k. quiet k n \<longrightarrow> quiet k n')"

definition polls_less :: "i40e \<Rightarrow> i40e \<Rightarrow> bool" where
  "polls_less n n' \<longleftrightarrow> (\<forall>k. quiet k n \<longrightarrow> (\<exists>k'. k = Suc k' \<and> quiet k' n'))"

lemma polls_same [simp]: "nic_polls n' = nic_polls n \<Longrightarrow> polls_le n n'"
  by (simp add: polls_le_def quiet_def)

lemma polls_trans: "polls_le n n1 \<Longrightarrow> polls_le n1 n2 \<Longrightarrow> polls_le n n2" "polls_le n n1 \<Longrightarrow> polls_less n1 n2 \<Longrightarrow> polls_less n n2"
    "polls_less n n1 \<Longrightarrow> polls_le n1 n2 \<Longrightarrow> polls_less n n2"
  unfolding polls_le_def polls_less_def by blast+

lemma polls_stl:
  assumes "nic_polls n' = stl (nic_polls n)"
  shows "polls_le n n'" "shd (nic_polls n) \<noteq> [] \<Longrightarrow> polls_less n n'"
proof -
  have q: "quiet k n'" if "quiet (Suc k) n" for k using that assms by (simp add: quiet_def flip: snth.simps(2))
  have "quiet (Suc k) n" if "quiet k n" for k using that by (simp add: quiet_def)
  with q show "polls_le n n'" by (auto simp: polls_le_def)
  assume s: "shd (nic_polls n) \<noteq> []"
  show "polls_less n n'" unfolding polls_less_def
  proof (intro allI impI)
    fix k assume k: "quiet k n"
    then have "k \<noteq> 0" using s by (metis quiet_def order_refl snth.simps(1))
    then show "\<exists>k'. k = Suc k' \<and> quiet k' n'" using k q by (cases k) auto
  qed
qed

text \<open>The device later: no new values of its registers, and as silent as before.\<close>

definition reads_sub :: "i40e \<Rightarrow> i40e \<Rightarrow> bool" where
  "reads_sub n n' \<longleftrightarrow> (\<forall>r. sset (nic_in n' r) \<subseteq> sset (nic_in n r)) \<and> polls_le n n'"

lemma reads_sub_same [simp]: "nic_in n' = nic_in n \<Longrightarrow> nic_polls n' = nic_polls n \<Longrightarrow> reads_sub n n'"
  by (simp add: reads_sub_def)

lemma reads_sub_trans: "reads_sub n n1 \<Longrightarrow> reads_sub n1 n2 \<Longrightarrow> reads_sub n n2"
  unfolding reads_sub_def using polls_trans(1) by blast

lemmas later_defs = reads_sub_def polls_le_def quiet_def

lemma reads_sub_quiet: "reads_sub n n' \<Longrightarrow> quiet k n \<Longrightarrow> quiet k n'"
  by (simp add: reads_sub_def polls_le_def)

lemma reads_sub_cong: "nic_in m = nic_in n \<Longrightarrow> nic_polls m = nic_polls n \<Longrightarrow> reads_sub n n' \<Longrightarrow> reads_sub m n'"
    "nic_in m = nic_in n' \<Longrightarrow> nic_polls m = nic_polls n' \<Longrightarrow> reads_sub n n' \<Longrightarrow> reads_sub n m"
  by (simp_all add: reads_sub_def polls_le_def quiet_def)

text \<open>A step of a command: the elements that were reported are new, and everything else that is held is as before.\<close>

definition aq_step :: "i40e \<Rightarrow> os \<Rightarrow> i40e \<Rightarrow> os \<Rightarrow> bool" where
  "aq_step n s n' s' \<longleftrightarrow> core n' = core n \<and> aq_inv n' s' \<and> os_next s \<le> os_next s' \<and> reads_sub n n' \<and>
     (\<exists>new. ed_elem n' = ed_elem n @ new \<and> holds s (elem_res new) s')"

lemma aq_step_refl: "aq_inv n s \<Longrightarrow> aq_step n s n s"
  by (auto simp: aq_step_def)

lemma aq_step_trans: "aq_step n s n1 s1 \<Longrightarrow> aq_step n1 s1 n2 s2 \<Longrightarrow> aq_step n s n2 s2"
  unfolding aq_step_def by (auto dest: holds_trans intro: reads_sub_trans polls_trans)

lemma aq_step_inv: "aq_step n s n' s' \<Longrightarrow> aq_inv n' s'"
  by (simp add: aq_step_def)

text \<open>Changes of the state that are steps.\<close>

lemma aq_step_upd:
  assumes "aq_inv n s" "core n' = core n" "ed_tx_ring n' = ed_tx_ring n" "nic_polls n' = nic_polls n" "ed_elem n' = ed_elem n"
    and "ed_ifaces n' = ed_ifaces n" "reads_sub n n'"
  shows "aq_step n s n' s"
proof -
  have "map aqs_ptr (ed_session n') = map aqs_ptr (ed_session n)" using assms(2) by (simp add: core_def)
  then have "list_all (\<lambda>x. aqs_ptr x < os_next s) (ed_session n') = list_all (\<lambda>x. aqs_ptr x < os_next s) (ed_session n)"
    using list.pred_map [of "\<lambda>p. p < os_next s" aqs_ptr] by (metis (no_types, lifting) comp_def list.pred_cong)
  then have "aq_inv n' s" using assms by (simp add: aq_inv_def)
  then show ?thesis using assms by (auto simp: aq_step_def)
qed

lemma session_update_core: "(\<And>x. aqs_ptr (f x) = aqs_ptr x) \<Longrightarrow> core (session_update p f n) = core n"
  by (simp add: core_def session_update_def comp_def)

lemma session_update_step:
  assumes "aq_inv n s" "\<And>x. aqs_ptr (f x) = aqs_ptr x"
  shows "aq_step n s (session_update p f n) s"
  by (rule aq_step_upd [OF assms(1) session_update_core [OF assms(2)]]) (simp_all add: session_update_def)

lemma session_update_keep [simp]:
  "ed_tx_ring (session_update p f n) = ed_tx_ring n" "nic_polls (session_update p f n) = nic_polls n"
  by (simp_all add: session_update_def)

lemma session_fail_step: "aq_inv n s \<Longrightarrow> aq_step n s (session_fail session n) s"
  by (cases session) (simp_all add: session_fail_def aq_step_refl session_update_step)

lemma session_fail_keep [simp]:
  "ed_tx_ring (session_fail session n) = ed_tx_ring n" "nic_polls (session_fail session n) = nic_polls n"
  by (cases session; simp add: session_fail_def)+

subsection \<open>Answers\<close>

text \<open>A step that keeps the ring.\<close>

definition aq_resp :: "i40e \<Rightarrow> os \<Rightarrow> i40e \<Rightarrow> os \<Rightarrow> bool" where
  "aq_resp n s n' s' \<longleftrightarrow> aq_step n s n' s' \<and> ed_tx_ring n' = ed_tx_ring n \<and> nic_polls n' = nic_polls n"

lemma aq_resp_trans: "aq_resp n s n1 s1 \<Longrightarrow> aq_resp n1 s1 n2 s2 \<Longrightarrow> aq_resp n s n2 s2"
  by (auto simp: aq_resp_def dest: aq_step_trans)

lemma aq_resp_upd:
  assumes "aq_inv n s" "core n' = core n" "ed_tx_ring n' = ed_tx_ring n" "nic_polls n' = nic_polls n" "ed_elem n' = ed_elem n"
    and "ed_ifaces n' = ed_ifaces n" "reads_sub n n'"
  shows "aq_resp n s n' s"
  using aq_step_upd [OF assms] assms by (simp add: aq_resp_def)

lemma aq_resp_fail: "aq_inv n s \<Longrightarrow> aq_resp n s (session_fail session n) s"
  by (simp add: aq_resp_def session_fail_step)

lemma aq_resp_update: "aq_inv n s \<Longrightarrow> (\<And>x. aqs_ptr (f x) = aqs_ptr x) \<Longrightarrow> aq_resp n s (session_update p f n) s"
  by (simp add: aq_resp_def session_update_step)

lemma rd_Some: "off + len \<le> length bs \<Longrightarrow> rd off len bs = Some (le_bytes (take len (drop off bs)))"
  by (simp add: rd_def)

lemma swconf_loop_step:
  assumes "aq_inv n s" "off + 16 * left \<le> length buf"
  shows "\<exists>ok n' s'. swconf_loop left off buf n s = Some (ok, n', s') \<and> aq_resp n s n' s'"
  using assms
proof (induction left arbitrary: off n s)
  case 0
  then show ?case by (intro exI [of _ True]) (simp add: aq_resp_def aq_step_refl)
next
  case (Suc left)
  obtain r s1 where g: "os_get Heap s = (r, s1)" by fastforce
  have h: "holds s (case r of None \<Rightarrow> {#} | Some p \<Rightarrow> {#Heap p#}) s1" by (rule os_get_holds [OF g])
  have nx: "os_next s \<le> os_next s1" using g by (auto simp: os_get_def os_ask_def split: prod.splits bool.splits)
  have inv: "aq_inv (n\<lparr>ed_elem := es\<rparr>) s1" for es
    using Suc.prems(1) nx by (auto simp: aq_inv_def list_all_iff)
  show ?case
  proof (cases r)
    case None
    have "aq_inv n s1" using inv [of "ed_elem n"] by simp
    with None show ?thesis using g h nx by (auto simp: aq_resp_def aq_step_def)
  next
    case (Some p)
    obtain e where e: "swconf_loop (Suc left) off buf n s = swconf_loop left (off + 16) buf (n\<lparr>ed_elem := ed_elem n @ [(p, e)]\<rparr>) s1"
      using Suc.prems(2) Some g by (simp add: rd_Some)
    have "aq_resp n s (n\<lparr>ed_elem := ed_elem n @ [(p, e)]\<rparr>) s1"
      using inv h nx Some by (auto simp: aq_resp_def aq_step_def core_def)
    moreover have "\<exists>ok n' s'. swconf_loop left (off + 16) buf (n\<lparr>ed_elem := ed_elem n @ [(p, e)]\<rparr>) s1 = Some (ok, n', s') \<and>
        aq_resp (n\<lparr>ed_elem := ed_elem n @ [(p, e)]\<rparr>) s1 n' s'"
      using Suc.prems(2) by (intro Suc.IH inv) simp
    ultimately show ?thesis using e aq_resp_trans by metis
  qed
qed

lemma aq_resp_inv: "aq_resp n s n' s' \<Longrightarrow> aq_inv n' s'"
  by (simp add: aq_resp_def aq_step_def)

lemma resp_get_swconf_step:
  assumes "aq_inv n s" "length cmd = 16" "length buf = I40E_MAX_AQ_BUF_SIZE" "16 + 16 * unat (le_bytes (take 2 buf) :: u16) \<le> I40E_MAX_AQ_BUF_SIZE"
  shows "\<exists>n' s'. i40e_aqc_resp_get_swconf cmd buf session n s = Some (n', s') \<and> aq_resp n s n' s'"
proof -
  have b: "rd 0 2 buf = Some (le_bytes (take 2 buf) :: u16)" using assms(3) by (simp add: rd_Some I40E_MAX_AQ_BUF_SIZE_def)
  obtain ok n1 s1 where l: "swconf_loop (unat (le_bytes (take 2 buf) :: u16)) 16 buf n s = Some (ok, n1, s1)" "aq_resp n s n1 s1"
    using swconf_loop_step [OF assms(1), of 16 "unat (le_bytes (take 2 buf) :: u16)" buf] assms(3,4) by auto
  have f: "aq_resp n s (session_fail session n1) s1" using l(2) aq_resp_trans aq_resp_fail aq_resp_inv by blast
  have u: "aq_resp n s (session_update p (set_seid_offset off) n1) s1" for p off
    using aq_resp_trans [OF l(2) aq_resp_update [OF aq_resp_inv [OF l(2)]]] by (simp add: set_seid_offset_def)
  show ?thesis
    using b l f u assms(2) by (cases ok; cases session) (simp_all add: i40e_aqc_resp_get_swconf_def rd_Some)
qed

lemma vsi_update_first_core:
  "vsi_update_first seid qs is = Some is' \<Longrightarrow> map iface_core is' = map iface_core is"
  by (induction seid qs "is" arbitrary: is' rule: vsi_update_first.induct) (auto simp: iface_core_def split: if_splits Option.bind_splits)

lemma vsi_update_first_qs:
  "vsi_update_first seid qs is = Some is' \<Longrightarrow> qs \<noteq> [] \<Longrightarrow> list_all (\<lambda>i. ei_qs_handles (snd i) \<noteq> []) is \<Longrightarrow>
   list_all (\<lambda>i. ei_qs_handles (snd i) \<noteq> []) is'"
  by (induction seid qs "is" arbitrary: is' rule: vsi_update_first.induct) (auto split: if_splits Option.bind_splits)

lemma resp_get_vsi_step:
  assumes "aq_inv n s" "length cmd = 16" "length buf = I40E_MAX_AQ_BUF_SIZE"
  shows "\<exists>n'. i40e_aqc_resp_get_vsi cmd buf session n = Some n' \<and> aq_resp n s n' s"
proof -
  let ?qs = "map (\<lambda>i. le_bytes (take 2 (drop (96 + 2 * i) buf)) :: u16) [0..<I40E_MAX_TRAFFIC_CLASS]"
  let ?r = "vsi_update_first (le_bytes (take 2 cmd)) ?qs (ed_ifaces n)"
  have run: "i40e_aqc_resp_get_vsi cmd buf session n = Some (case ?r of None \<Rightarrow> session_fail session n | Some is \<Rightarrow> n\<lparr>ed_ifaces := is\<rparr>)"
    using assms(2,3) by (simp add: i40e_aqc_resp_get_vsi_def rd_Some I40E_MAX_AQ_BUF_SIZE_def I40E_MAX_TRAFFIC_CLASS_def split: option.splits)
  have "aq_resp n s (n\<lparr>ed_ifaces := is\<rparr>) s" if r: "?r = Some is" for "is"
  proof -
    have "list_all (\<lambda>i. ei_qs_handles (snd i) \<noteq> []) (ed_ifaces n)" using assms(1) by (simp add: aq_inv_def)
    then have "list_all (\<lambda>i. ei_qs_handles (snd i) \<noteq> []) is" using vsi_update_first_qs [OF r] by (simp add: I40E_MAX_TRAFFIC_CLASS_def)
    then have "aq_inv (n\<lparr>ed_ifaces := is\<rparr>) s" using assms(1) by (simp add: aq_inv_def)
    then show ?thesis using vsi_update_first_core [OF r] by (simp add: aq_resp_def aq_step_def core_def)
  qed
  then show ?thesis using run aq_resp_fail [OF assms(1)] by (cases ?r) simp_all
qed

lemma asq_process_step:
  assumes "aq_inv n s" "desc_ok desc buf"
  shows "\<exists>n' s'. i40e_aq_asq_process desc buf session n s = Some (n', s') \<and> aq_resp n s n' s'"
proof -
  define n1 where "n1 = (case session of None \<Rightarrow> n | Some p \<Rightarrow> session_update p (\<lambda>x. x\<lparr>aqs_retval := uint (aqd_retval desc)\<rparr>) n)"
  have 1: "aq_resp n s n1 s" using assms(1) by (cases session) (simp_all add: n1_def aq_resp_update aq_resp_def aq_step_refl session_update_step)
  note inv = aq_resp_inv [OF 1] and len = assms(2) [unfolded desc_ok_def]
  have "\<exists>n'. i40e_aqc_resp_firmware_version (aqd_params desc) n1 = Some n' \<and> aq_resp n1 s n' s"
    using len inv by (auto simp: i40e_aqc_resp_firmware_version_def rd_Some core_def intro!: aq_resp_upd)
  moreover have "\<exists>n'. i40e_aqc_resp_macaddr_read (aqd_params desc) buf session n1 = Some n' \<and> aq_resp n1 s n' s"
    using len inv by (auto simp: i40e_aqc_resp_macaddr_read_def rd_Some core_def I40E_MAX_AQ_BUF_SIZE_def ETH_ALEN_def aq_resp_fail intro!: aq_resp_upd)
  moreover have "aq_resp n1 s (i40e_aqc_resp_clear_pxemode n1) s"
    using inv by (auto simp: i40e_aqc_resp_clear_pxemode_def UFP_WRITE32_def core_def intro!: aq_resp_upd)
  moreover have "aqd_opcode desc = i40e_aq_opc_get_swconf \<Longrightarrow>
      \<exists>n' s'. i40e_aqc_resp_get_swconf (aqd_params desc) buf session n1 s = Some (n', s') \<and> aq_resp n1 s n' s'"
    using len by (intro resp_get_swconf_step [OF inv]) auto
  moreover have "\<exists>n'. i40e_aqc_resp_rxctl_read (aqd_params desc) session n1 = Some n' \<and> aq_resp n1 s n' s"
    using len inv by (cases session) (simp_all add: i40e_aqc_resp_rxctl_read_def rd_Some aq_resp_update aq_resp_def aq_step_refl session_update_step)
  moreover have "\<exists>n'. i40e_aqc_resp_get_vsi (aqd_params desc) buf session n1 = Some n' \<and> aq_resp n1 s n' s"
    using len by (intro resp_get_vsi_step [OF inv]) auto
  moreover have "aq_resp n1 s n1 s" using inv by (simp add: aq_resp_def aq_step_refl)
  ultimately have "\<exists>n' s'. i40e_aq_asq_process desc buf session n s = Some (n', s') \<and> aq_resp n1 s n' s'"
    unfolding i40e_aq_asq_process_def n1_def [symmetric] Let_def by (elim exE conjE) simp
  then show ?thesis using aq_resp_trans [OF 1] by blast
qed

subsection \<open>Cleaning the queue\<close>

definition ring_num :: "i40e \<Rightarrow> nat" where
  "ring_num n = (case ed_tx_ring n of None \<Rightarrow> 0 | Some ring \<Rightarrow> unat (aqr_num_desc ring))"

definition ring_clean :: "i40e \<Rightarrow> nat" where
  "ring_clean n = (case ed_tx_ring n of None \<Rightarrow> 0 | Some ring \<Rightarrow> unat (aqr_next_to_clean ring))"

lemma ring_core_num: "ring_core ring' = ring_core ring \<Longrightarrow> aqr_num_desc ring' = aqr_num_desc ring"
  by (drule arg_cong [where f = aqr_num_desc]) (simp add: ring_core_def)

lemma unat_ucast_u16: "unat (ucast x :: u32) = unat x" for x :: u16
proof -
  have "unat x < 2 ^ LENGTH(16)" by (rule unsigned_less)
  then show ?thesis by (simp add: unsigned_ucast_eq take_bit_nat_eq_self)
qed

lemma ring_clean_less: "aq_inv n s \<Longrightarrow> ring_clean n < ring_num n"
  by (auto simp: aq_inv_def ring_clean_def ring_num_def aq_ring_ok_def Let_def)

lemma aq_step_num: "aq_step n s n' s' \<Longrightarrow> ring_num n' = ring_num n"
  unfolding aq_step_def ring_num_def core_def by (auto split: option.splits intro!: arg_cong [where f = unat] ring_core_num)

lemma aq_next_unat:
  assumes "unat i < unat (aqr_num_desc ring)"
  shows "unat (aq_next ring i) = (if unat i + 1 < unat (aqr_num_desc ring) then unat i + 1 else 0)"
proof -
  have "unat (aqr_num_desc ring) < 2 ^ LENGTH(16)" by (rule unsigned_less)
  then have "unat (i + 1) = unat i + 1" using assms by (simp add: unat_word_ariths)
  then show ?thesis by (simp add: aq_next_def word_less_nat_alt)
qed

lemma aq_next_less: "unat i < unat (aqr_num_desc ring) \<Longrightarrow> unat (aq_next ring i) < unat (aqr_num_desc ring)"
  by (simp add: aq_next_unat)

text \<open>A new ring with the same registers and memory.\<close>

lemma aq_step_ring:
  assumes "aq_inv n s" "ed_tx_ring n = Some ring" "aq_ring_ok ring'" "ring_core ring' = ring_core ring"
  shows "aq_step n s (n\<lparr>ed_tx_ring := Some ring'\<rparr>) s"
proof -
  have "aqr_num_desc ring' = aqr_num_desc ring" by (rule ring_core_num [OF assms(4)])
  then have "aq_inv (n\<lparr>ed_tx_ring := Some ring'\<rparr>) s" using assms(1-3) by (simp add: aq_inv_def)
  then show ?thesis using assms(2,4) by (simp add: aq_step_def core_def)
qed

lemma clean_round:
  assumes inv: "aq_inv n s" and l: "look_ok (ring_num n) l"
  shows "\<exists>n' s'. aq_step n s n' s' \<and> nic_polls n' = nic_polls n \<and>
    (if unat (lk_head l) = ring_clean n then \<forall>ls. asq_clean_loop (l # ls) n s = Some (n', s')
     else ring_clean n' = (if ring_clean n + 1 < ring_num n then ring_clean n + 1 else 0) \<and>
       (\<forall>ls. asq_clean_loop (l # ls) n s = asq_clean_loop ls n' s'))"
proof -
  obtain ring where r: "ed_tx_ring n = Some ring" "aq_ring_ok ring" using inv by (auto simp: aq_inv_def)
  define ring1 where "ring1 = ring\<lparr>aqr_mem := lk_mem l, aqr_bufmem := lk_bufs l\<rparr>"
  define n1 where "n1 = n\<lparr>ed_tx_ring := Some ring1\<rparr>"
  let ?i = "unat (aqr_next_to_clean ring)"
  have num: "ring_num n = unat (aqr_num_desc ring)" "ring_clean n = ?i" using r(1) by (simp_all add: ring_num_def ring_clean_def)
  have i: "?i < unat (aqr_num_desc ring)" using r(2) by (simp add: aq_ring_ok_def Let_def)
  have "aq_ring_ok ring1" using r(2) l num by (simp add: aq_ring_ok_def ring1_def look_ok_def Let_def)
  then have s1: "aq_step n s n1 s" unfolding n1_def by (intro aq_step_ring [OF inv r(1)]) (simp_all add: ring1_def ring_core_def)
  have hd: "ucast (aqr_next_to_clean ring1) = lk_head l \<longleftrightarrow> unat (lk_head l) = ring_clean n"
    by (auto simp: ring1_def num unat_ucast_u16 word_unat_eq_iff)
  show ?thesis
  proof (cases "unat (lk_head l) = ring_clean n")
    case True
    then have "asq_clean_loop (l # ls) n s = Some (n1, s)" for ls using r(1) hd by (simp add: ring1_def n1_def)
    with True s1 show ?thesis by (intro exI [of _ n1] exI [of _ s]) (simp add: n1_def)
  next
    case False
    have "?i < ring_num n" "?i < length (lk_mem l)" "?i < length (lk_bufs l)" using i l num by (simp_all add: look_ok_def)
    then have d: "desc_ok (lk_mem l ! ?i) (lk_bufs l ! ?i)" using l by (auto simp: look_ok_def list_all_iff)
    obtain n2 s2 where p: "i40e_aq_asq_process (lk_mem l ! ?i) (lk_bufs l ! ?i) (cookie_session (desc_cookie (lk_mem l ! ?i)) n1) n1 s = Some (n2, s2)"
        "aq_resp n1 s n2 s2"
      using asq_process_step [OF aq_step_inv [OF s1] d] by blast
    define ring3 where "ring3 = ring1\<lparr>aqr_next_to_clean := aq_next ring1 (aqr_next_to_clean ring1)\<rparr>"
    have r2: "ed_tx_ring n2 = Some ring1" "nic_polls n2 = nic_polls n" "aq_step n1 s n2 s2" using p(2) by (simp_all add: aq_resp_def n1_def)
    have nx: "unat (aqr_next_to_clean ring3) = (if ring_clean n + 1 < ring_num n then ring_clean n + 1 else 0)"
      using aq_next_unat [of "aqr_next_to_clean ring1" ring1] i by (simp add: ring3_def num ring1_def)
    then have "aq_ring_ok ring3" using \<open>aq_ring_ok ring1\<close> i by (simp add: aq_ring_ok_def ring3_def Let_def num ring1_def)
    then have s3: "aq_step n2 s2 (n2\<lparr>ed_tx_ring := Some ring3\<rparr>) s2"
      by (intro aq_step_ring [OF aq_step_inv [OF r2(3)] r2(1)]) (simp_all add: ring3_def ring_core_def)
    have "asq_clean_loop (l # ls) n s = asq_clean_loop ls (n2\<lparr>ed_tx_ring := Some ring3\<rparr>) s2" for ls
      using r(1) hd False p(1) r2(1) \<open>?i < length (lk_mem l)\<close> \<open>?i < length (lk_bufs l)\<close> by (simp add: ring1_def n1_def ring3_def)
    moreover have "ring_clean (n2\<lparr>ed_tx_ring := Some ring3\<rparr>) = (if ring_clean n + 1 < ring_num n then ring_clean n + 1 else 0)"
      using nx by (simp add: ring_clean_def)
    ultimately show ?thesis
      using aq_step_trans [OF aq_step_trans [OF s1 r2(3)] s3] False r2(2) by (intro exI [of _ "n2\<lparr>ed_tx_ring := Some ring3\<rparr>"] exI [of _ s2]) simp
  qed
qed

lemma clean_steady:
  assumes "aq_inv n s" "list_all (look_ok (ring_num n)) ls" "list_all (\<lambda>l. unat (lk_head l) = h) ls" "h < ring_num n"
    and "(if ring_clean n \<le> h then h - ring_clean n else h + ring_num n - ring_clean n) < length ls"
  shows "\<exists>n' s'. asq_clean_loop ls n s = Some (n', s') \<and> aq_step n s n' s' \<and> nic_polls n' = nic_polls n"
  using assms
proof (induction ls arbitrary: n s)
  case (Cons l ls)
  have h: "unat (lk_head l) = h" "look_ok (ring_num n) l" using Cons.prems by simp_all
  obtain n1 s1 where r: "aq_step n s n1 s1" "nic_polls n1 = nic_polls n"
      "if unat (lk_head l) = ring_clean n then \<forall>ls. asq_clean_loop (l # ls) n s = Some (n1, s1)
       else ring_clean n1 = (if ring_clean n + 1 < ring_num n then ring_clean n + 1 else 0) \<and>
         (\<forall>ls. asq_clean_loop (l # ls) n s = asq_clean_loop ls n1 s1)"
    using clean_round [OF Cons.prems(1) h(2)] by blast
  show ?case
  proof (cases "h = ring_clean n")
    case False
    have c: "ring_clean n < ring_num n" by (rule ring_clean_less [OF Cons.prems(1)])
    have e: "asq_clean_loop (l # ls) n s = asq_clean_loop ls n1 s1" "ring_clean n1 = (if ring_clean n + 1 < ring_num n then ring_clean n + 1 else 0)"
      using r(3) False h(1) by auto
    have "(if ring_clean n1 \<le> h then h - ring_clean n1 else h + ring_num n - ring_clean n1) < length ls"
      using Cons.prems(4,5) False c unfolding e(2) by (auto split: if_splits)
    then have "\<exists>n' s'. asq_clean_loop ls n1 s1 = Some (n', s') \<and> aq_step n1 s1 n' s' \<and> nic_polls n' = nic_polls n1"
      by (intro Cons.IH [OF aq_step_inv [OF r(1)]]) (use Cons.prems in \<open>simp_all add: aq_step_num [OF r(1)] split: if_split_asm\<close>)
    then show ?thesis using e(1) r(1,2) aq_step_trans by metis
  qed (use r h in auto)
qed simp

lemma clean_loop:
  assumes "aq_inv n s" "list_all (look_ok (ring_num n)) ls" "ring_num n < length ls" "h < ring_num n"
    and "list_all (\<lambda>l. unat (lk_head l) = h) (drop (length ls - (ring_num n + 1)) ls)"
  shows "\<exists>n' s'. asq_clean_loop ls n s = Some (n', s') \<and> aq_step n s n' s' \<and> nic_polls n' = nic_polls n"
  using assms
proof (induction ls arbitrary: n s)
  case (Cons l ls)
  show ?case
  proof (cases "length ls = ring_num n")
    case True
    then show ?thesis using Cons.prems ring_clean_less [OF Cons.prems(1)] by (intro clean_steady [where h = h]) auto
  next
    case False
    then have "ring_num n < length ls" using Cons.prems(3) by simp
    moreover have "list_all (\<lambda>l. unat (lk_head l) = h) (drop (length ls - (ring_num n + 1)) ls)"
      using Cons.prems(5) \<open>ring_num n < length ls\<close> by (simp add: Suc_diff_Suc drop_Cons' split: if_splits)
    moreover obtain n1 s1 where r: "aq_step n s n1 s1" "nic_polls n1 = nic_polls n"
        "if unat (lk_head l) = ring_clean n then \<forall>ls. asq_clean_loop (l # ls) n s = Some (n1, s1)
         else ring_clean n1 = (if ring_clean n + 1 < ring_num n then ring_clean n + 1 else 0) \<and>
           (\<forall>ls. asq_clean_loop (l # ls) n s = asq_clean_loop ls n1 s1)"
      using clean_round [OF Cons.prems(1), of l] Cons.prems(2) by auto
    ultimately have "\<exists>n' s'. asq_clean_loop ls n1 s1 = Some (n', s') \<and> aq_step n1 s1 n' s' \<and> nic_polls n' = nic_polls n1"
      using Cons.IH [OF aq_step_inv [OF r(1)]] Cons.prems(2,4) aq_step_num [OF r(1)] by simp
    then show ?thesis using r by (cases "unat (lk_head l) = ring_clean n") (auto dest: aq_step_trans)
  qed
qed simp

lemma asq_clean_step:
  assumes "aq_inv n s"
  shows "\<exists>n' s'. i40e_aq_asq_clean n s = Some (n', s') \<and> aq_step n s n' s' \<and> nic_polls n' = stl (nic_polls n) \<and>
    (shd (nic_polls n) = [] \<longrightarrow> ed_session n' = ed_session n)"
proof -
  let ?p = "shd (nic_polls n)" and ?n = "n\<lparr>nic_polls := stl (nic_polls n)\<rparr>"
  have p: "poll_ok (ring_num ?n) ?p" "aq_inv ?n s" using assms shd_sset [of "nic_polls n"] stl_sset [of _ "nic_polls n"] by (auto simp: aq_inv_def ring_num_def)
  have st: "aq_step n s ?n s" using p(2) polls_stl(1) [of ?n n] by (simp add: aq_step_def core_def reads_sub_def)
  show ?thesis
  proof (cases "?p = []")
    case True
    then show ?thesis using st by (simp add: i40e_aq_asq_clean_def)
  next
    case False
    obtain n' s' where r: "asq_clean_loop ?p ?n s = Some (n', s')" "aq_step ?n s n' s'" "nic_polls n' = stl (nic_polls n)"
      using clean_loop [OF p(2), of ?p "unat (lk_head (last ?p))"] p(1) False by (auto simp: poll_ok_def list_all_iff)
    then show ?thesis using aq_step_trans [OF st] False by (simp add: i40e_aq_asq_clean_def)
  qed
qed

text \<open>Without the assumption on the head register the loop is not left: a head outside the ring, such as a device that is gone returns, keeps it going, however often it looks.\<close>

lemma asq_clean_stuck:
  assumes "aq_inv n s" "list_all (\<lambda>l. look_ok (ring_num n) l \<and> ring_num n \<le> unat (lk_head l)) ls"
  shows "asq_clean_loop ls n s = None"
  using assms
proof (induction ls arbitrary: n s)
  case (Cons l ls)
  then obtain n1 s1 where r: "aq_step n s n1 s1" "asq_clean_loop (l # ls) n s = asq_clean_loop ls n1 s1"
    using clean_round [OF Cons.prems(1), of l] ring_clean_less [OF Cons.prems(1)] by fastforce
  then show ?case using Cons.IH [OF aq_step_inv [OF r(1)]] Cons.prems(2) aq_step_num [OF r(1)] by simp
qed simp

end
