(* ===== verification/I40e_Cmd_Spec.thy ===== *)
theory I40e_Cmd_Spec
  imports I40e_Aq_Spec
begin

text \<open>
  Commands as a whole: from the session to its end. A command always returns, the sessions that were open before are open afterwards, and
  nothing is held but the elements that the device has reported.
\<close>

subsection \<open>Waiting\<close>

lemma session_find_Some:
  assumes "p \<in> set (map aqs_ptr (ed_session n))"
  obtains x where "session_find p n = Some x"
proof (cases "session_find p n")
  case None
  then show thesis using assms by (auto simp: session_find_def find_None_iff)
qed (rule that)

lemma core_sessions: "core n' = core n \<Longrightarrow> map aqs_ptr (ed_session n') = map aqs_ptr (ed_session n)"
  by (simp add: core_def)

lemma aq_step_sessions: "aq_step n s n' s' \<Longrightarrow> map aqs_ptr (ed_session n') = map aqs_ptr (ed_session n)"
  by (rule core_sessions) (simp add: aq_step_def)

lemma asq_clean_session:
  assumes "aq_inv n s" "p \<in> set (map aqs_ptr (ed_session n))"
  obtains n1 s1 x where "i40e_aq_asq_clean n s = Some (n1, s1)" "aq_step n s n1 s1" "session_find p n1 = Some x"
    "\<forall>y. session_find p n = Some y \<longrightarrow> aqs_retval y = 0xffff \<longrightarrow> aqs_retval x \<noteq> 0xffff \<longrightarrow> polls_less n n1"
proof -
  obtain n1 s1 where c: "i40e_aq_asq_clean n s = Some (n1, s1)" "aq_step n s n1 s1" "nic_polls n1 = stl (nic_polls n)"
      "shd (nic_polls n) = [] \<longrightarrow> ed_session n1 = ed_session n" using asq_clean_step [OF assms(1)] by blast
  obtain x where x: "session_find p n1 = Some x" using session_find_Some [of p n1] assms(2) aq_step_sessions [OF c(2)] by metis
  have "session_find p n1 = session_find p n" if "shd (nic_polls n) = []" using that c(4) by (simp add: session_find_def)
  then show thesis using that [OF c(1,2) x] polls_stl(2) [OF c(3)] x by force
qed

lemma wait_loop_step:
  assumes "aq_inv n s" "p \<in> set (map aqs_ptr (ed_session n))"
  shows "\<exists>err n' s'. wait_loop p t n s = Some (err, n', s') \<and> (err = 0 \<or> err = -1) \<and> aq_step n s n' s' \<and>
    (err = 0 \<longrightarrow> (\<forall>x. session_find p n = Some x \<longrightarrow> aqs_retval x = 0xffff \<longrightarrow> polls_less n n'))"
  using assms
proof (induction t arbitrary: n s)
  case 0
  obtain n1 s1 x where c: "i40e_aq_asq_clean n s = Some (n1, s1)" "aq_step n s n1 s1" "session_find p n1 = Some x"
      "\<forall>y. session_find p n = Some y \<longrightarrow> aqs_retval y = 0xffff \<longrightarrow> aqs_retval x \<noteq> 0xffff \<longrightarrow> polls_less n n1"
    by (rule asq_clean_session [OF 0])
  then show ?case by auto
next
  case (Suc t)
  obtain n1 s1 x where c: "i40e_aq_asq_clean n s = Some (n1, s1)" "aq_step n s n1 s1" "session_find p n1 = Some x"
      "\<forall>y. session_find p n = Some y \<longrightarrow> aqs_retval y = 0xffff \<longrightarrow> aqs_retval x \<noteq> 0xffff \<longrightarrow> polls_less n n1"
    by (rule asq_clean_session [OF Suc.prems])
  have p: "p \<in> set (map aqs_ptr (ed_session n1))" using Suc.prems(2) aq_step_sessions [OF c(2)] by metis
  show ?case
  proof (cases "aqs_retval x = 0xffff")
    case True
    obtain err n2 s2 where w: "wait_loop p t n1 s1 = Some (err, n2, s2)" "err = 0 \<or> err = -1" "aq_step n1 s1 n2 s2"
        "err = 0 \<longrightarrow> (\<forall>x. session_find p n1 = Some x \<longrightarrow> aqs_retval x = 0xffff \<longrightarrow> polls_less n1 n2)"
      using Suc.IH [OF aq_step_inv [OF c(2)] p] by blast
    have "polls_le n n1" using c(2) by (simp add: aq_step_def reads_sub_def)
    then have "err = 0 \<longrightarrow> polls_less n n2" using w(4) c(3) True polls_trans(2) by blast
    then show ?thesis using w(1,2) aq_step_trans [OF c(2) w(3)] c(1,3) True by simp
  next
    case False
    then show ?thesis using c by auto
  qed
qed

declare wait_loop.simps [simp del]

subsection \<open>Requests\<close>

text \<open>What a request may do: it enters the ring or not, and keeps the sessions and what the device will do.\<close>

definition req_ok :: "(nat \<Rightarrow> i40e \<Rightarrow> i40e option) \<Rightarrow> bool" where
  "req_ok req \<longleftrightarrow> (\<forall>p n s. aq_inv n s \<longrightarrow> p \<in> set (map aqs_ptr (ed_session n)) \<longrightarrow>
     (\<exists>n'. req p n = Some n' \<and> aq_step n s n' s \<and> map aqs_retval (ed_session n') = map aqs_retval (ed_session n)))"

lemma asq_assign_step:
  assumes "aq_inv n s" "length cmd \<le> 16" "asq_data_ok flags data data_size"
  shows "\<exists>n'. i40e_aq_asq_assign opcode flags cmd data data_size c n = Some n' \<and> aq_step n s n' s \<and> ed_session n' = ed_session n"
proof -
  obtain ring where r: "ed_tx_ring n = Some ring" "aq_ring_ok ring" using assms(1) by (auto simp: aq_inv_def)
  let ?i = "unat (aqr_next_to_use ring)"
  have i: "?i < unat (aqr_num_desc ring)" "?i < length (aqr_mem ring)" "?i < length (snd (aqr_bufs ring))" "?i < length (aqr_bufmem ring)"
    using r(2) by (simp_all add: aq_ring_ok_def Let_def)
  show ?thesis
  proof (cases "i40e_aq_desc_unused ring (aqr_num_desc ring) = 0")
    case True
    then show ?thesis using r aq_step_refl [OF assms(1)] by (simp add: i40e_aq_asq_assign_def)
  next
    case False
    obtain mem bufmem where a: "i40e_aq_asq_assign opcode flags cmd data data_size c n =
        (let ring' = ring\<lparr>aqr_mem := (aqr_mem ring)[?i := mem], aqr_bufmem := (aqr_bufmem ring)[?i := bufmem],
           aqr_next_to_use := aq_next ring (aqr_next_to_use ring)\<rparr>
         in Some (UFP_WRITE32 (aqr_tail ring') (ucast (aqr_next_to_use ring')) (n\<lparr>ed_tx_ring := Some ring'\<rparr>)))"
      using False r(1) i assms(2,3) by (simp add: i40e_aq_asq_assign_def Let_def)
    define ring' where "ring' = ring\<lparr>aqr_mem := (aqr_mem ring)[?i := mem], aqr_bufmem := (aqr_bufmem ring)[?i := bufmem],
           aqr_next_to_use := aq_next ring (aqr_next_to_use ring)\<rparr>"
    have "aq_ring_ok ring'" using r(2) aq_next_less [OF i(1)] by (simp add: aq_ring_ok_def ring'_def Let_def)
    then have s1: "aq_step n s (n\<lparr>ed_tx_ring := Some ring'\<rparr>) s"
      by (intro aq_step_ring [OF assms(1) r(1)]) (simp_all add: ring'_def ring_core_def)
    moreover have "aq_step (n\<lparr>ed_tx_ring := Some ring'\<rparr>) s (UFP_WRITE32 reg v (n\<lparr>ed_tx_ring := Some ring'\<rparr>)) s" for reg v
      by (rule aq_step_upd [OF aq_step_inv [OF s1]]) (simp_all add: UFP_WRITE32_def core_def)
    ultimately have "aq_step n s (UFP_WRITE32 reg v (n\<lparr>ed_tx_ring := Some ring'\<rparr>)) s" for reg v using aq_step_trans by blast
    moreover have "ed_session (UFP_WRITE32 reg v (n\<lparr>ed_tx_ring := Some ring'\<rparr>)) = ed_session n" for reg v by (simp add: UFP_WRITE32_def)
    ultimately show ?thesis using a unfolding Let_def ring'_def [symmetric] by blast
  qed
qed

lemma req_ok_assign:
  assumes "\<And>p. req p = i40e_aq_asq_assign opcode flags cmd data data_size (cookie p)" "length cmd \<le> 16" "asq_data_ok flags data data_size"
  shows "req_ok req"
  unfolding req_ok_def
proof (intro allI impI)
  fix p n s assume "aq_inv n s"
  from asq_assign_step [OF this assms(2,3), of opcode "cookie p"] obtain n' where
    "i40e_aq_asq_assign opcode flags cmd data data_size (cookie p) n = Some n'" "aq_step n s n' s" "ed_session n' = ed_session n" by blast
  then show "\<exists>n'. req p n = Some n' \<and> aq_step n s n' s \<and> map aqs_retval (ed_session n') = map aqs_retval (ed_session n)"
    using assms(1) by simp
qed

lemma data_ok_simps [simp]: "asq_data_ok flags None k" "length d \<le> I40E_MAX_AQ_BUF_SIZE \<Longrightarrow> asq_data_ok flags (Some d) (length d)"
  by (simp_all add: asq_data_ok_def)

lemma req_ok_swconf: "req_ok (swconf_req off)"
  unfolding req_ok_def
proof (intro allI impI)
  fix p n s assume a: "aq_inv n s" "p \<in> set (map aqs_ptr (ed_session n))"
  let ?n = "session_update p (set_seid_offset off) n"
  have s1: "aq_step n s ?n s" by (rule session_update_step [OF a(1)]) (simp add: set_seid_offset_def)
  have r: "map aqs_retval (ed_session ?n) = map aqs_retval (ed_session n)" by (simp add: session_update_def set_seid_offset_def)
  obtain x where x: "session_find p ?n = Some x" using session_find_Some [of p ?n] a(2) aq_step_sessions [OF s1] by metis
  obtain n' where "i40e_aq_asq_assign i40e_aq_opc_get_swconf I40E_AQ_FLAG_BUF (le_of 2 (ucast (aqs_data x) :: u16) @ replicate 14 0) None 0 (cookie p) ?n = Some n'"
      "aq_step ?n s n' s" "ed_session n' = ed_session ?n"
    using asq_assign_step [OF aq_step_inv [OF s1], of "le_of 2 (ucast (aqs_data x) :: u16) @ replicate 14 0" I40E_AQ_FLAG_BUF None 0
        i40e_aq_opc_get_swconf "cookie p"] by auto
  then show "\<exists>n'. swconf_req off p n = Some n' \<and> aq_step n s n' s \<and> map aqs_retval (ed_session n') = map aqs_retval (ed_session n)"
    using x r aq_step_trans [OF s1] by (simp add: swconf_req_def i40e_aqc_req_get_swconf_def)
qed

lemma driver_string_ok: "asq_data_ok flags (Some driver_string) (length driver_string)"
  by (rule data_ok_simps) (simp add: driver_string_def I40E_MAX_AQ_BUF_SIZE_def)

lemmas req_defs =
  i40e_aqc_req_firmware_version_def i40e_aqc_req_driver_version_def i40e_aqc_req_queue_shutdown_def
  i40e_aqc_req_macaddr_read_def i40e_aqc_req_clear_pxemode_def i40e_aqc_req_stop_lldp_def i40e_aqc_req_set_swconf_def
  i40e_aqc_req_rxctl_write_def i40e_aqc_req_rxctl_read_def i40e_aqc_req_get_vsi_def i40e_aqc_req_promisc_mode_def
  i40e_aqc_req_set_phyintmask_def i40e_aqc_req_update_vsi_def i40e_aqc_req_set_rsskey_def i40e_aqc_req_set_rsslut_def

lemma req_ok_simple:
  "req_ok i40e_aqc_req_firmware_version" "req_ok i40e_aqc_req_driver_version" "req_ok i40e_aqc_req_queue_shutdown"
  "req_ok i40e_aqc_req_macaddr_read" "req_ok i40e_aqc_req_clear_pxemode" "req_ok i40e_aqc_req_stop_lldp"
  "req_ok (i40e_aqc_req_set_swconf f vf)" "req_ok (i40e_aqc_req_rxctl_write a v)" "req_ok (i40e_aqc_req_rxctl_read a)"
  "req_ok (i40e_aqc_req_get_vsi i)" "req_ok (i40e_aqc_req_promisc_mode i pf)" "req_ok (i40e_aqc_req_set_phyintmask m)"
  by (rule req_ok_assign [OF req_defs(1)] req_ok_assign [OF req_defs(2)] req_ok_assign [OF req_defs(3)] req_ok_assign [OF req_defs(4)]
      req_ok_assign [OF req_defs(5)] req_ok_assign [OF req_defs(6)] req_ok_assign [OF req_defs(7)] req_ok_assign [OF req_defs(8)]
      req_ok_assign [OF req_defs(9)] req_ok_assign [OF req_defs(10)] req_ok_assign [OF req_defs(11)] req_ok_assign [OF req_defs(12)];
      simp add: driver_string_ok)+

lemma req_ok_data:
  "length buf = sizeof_i40e_aq_buf_vsi_data \<Longrightarrow> req_ok (i40e_aqc_req_update_vsi i buf)"
  "length key \<le> I40E_MAX_AQ_BUF_SIZE \<Longrightarrow> req_ok (i40e_aqc_req_set_rsskey i key)"
  "length lut \<le> I40E_MAX_AQ_BUF_SIZE \<Longrightarrow> req_ok (i40e_aqc_req_set_rsslut i lut)"
  by (rule req_ok_assign [OF req_defs(13)] req_ok_assign [OF req_defs(14) [unfolded Let_def]] req_ok_assign [OF req_defs(15) [unfolded Let_def]];
      simp add: asq_data_ok_def I40E_MAX_AQ_BUF_SIZE_def sizeof_i40e_aq_buf_vsi_data_def)+

subsection \<open>Sessions\<close>

lemma os_get_next: "os_get k s = (r, s') \<Longrightarrow> os_next s' = (case r of None \<Rightarrow> os_next s | Some p \<Rightarrow> Suc p) \<and> (\<forall>p. r = Some p \<longrightarrow> p = os_next s)"
  by (auto simp: os_get_def os_ask_def split: prod.splits bool.splits)

lemma session_create_step:
  assumes "aq_inv n s"
  shows "\<exists>r n1 s1. i40e_aq_session_create n s = (r, n1, s1) \<and> aq_inv n1 s1 \<and>
    (case r of None \<Rightarrow> n1 = n \<and> aq_step n s n s1
     | Some p \<Rightarrow> p = os_next s \<and> os_next s1 = Suc p \<and> holds s {#Heap p#} s1 \<and> session_find p n1 \<noteq> None \<and>
         (\<forall>x. session_find p n1 = Some x \<longrightarrow> aqs_retval x = 0xffff) \<and>
         (\<exists>x. n1 = n\<lparr>ed_session := ed_session n @ [x]\<rparr> \<and> aqs_ptr x = p))"
proof -
  obtain r s1 where g: "os_get Heap s = (r, s1)" by fastforce
  note h = os_get_holds [OF g] and nx = os_get_next [OF g]
  have old: "List.find (\<lambda>x. aqs_ptr x = os_next s) (ed_session n) = None"
    using assms by (auto simp: find_None_iff aq_inv_def list_all_iff)
  have find: "List.find P (xs @ ys) = (case List.find P xs of None \<Rightarrow> List.find P ys | Some x \<Rightarrow> Some x)" for P and xs ys :: "i40e_aq_session list"
    by (induction xs) simp_all
  show ?thesis
  proof (cases r)
    case None
    then have "aq_inv n s1" using assms nx by (simp add: aq_inv_def)
    with None show ?thesis using g h nx by (simp add: i40e_aq_session_create_def aq_step_def)
  next
    case (Some p)
    let ?x = "\<lparr>aqs_ptr = p, aqs_retval = 0xffff, aqs_data = nic_junk n\<rparr>" let ?n = "n\<lparr>ed_session := ed_session n @ [?x]\<rparr>"
    have p: "p = os_next s" "os_next s1 = Suc p" using nx Some by simp_all
    have "aq_inv ?n s1" using assms p by (auto simp: aq_inv_def list_all_iff less_Suc_eq)
    moreover have "session_find p ?n = Some ?x" using old p(1) by (simp add: session_find_def find)
    moreover have "\<exists>x. ?n = n\<lparr>ed_session := ed_session n @ [x]\<rparr> \<and> aqs_ptr x = p" by (rule exI [of _ ?x]) simp
    ultimately show ?thesis
      using g h p Some by (intro exI [of _ "Some p"] exI [of _ ?n] exI [of _ s1]) (simp add: i40e_aq_session_create_def)
  qed
qed

lemma session_delete_step:
  assumes inv: "aq_inv n s" and s1: "holds s {#Heap p#} s1" "os_next s1 = Suc p" "p = os_next s"
    and n1: "n1 = n\<lparr>ed_session := ed_session n @ [x]\<rparr>" "aqs_ptr x = p" and st: "aq_step n1 s1 n2 s2"
  shows "\<exists>n3 s3. i40e_aq_session_delete p n2 s2 = Some (n3, s3) \<and> aq_step n s n3 s3 \<and> nic_polls n3 = nic_polls n2"
proof -
  obtain new where new: "ed_elem n2 = ed_elem n @ new" "holds s1 (elem_res new) s2" using st n1 by (auto simp: aq_step_def)
  have "holds s (add_mset (Heap p) (elem_res new)) s2" using holds_trans [OF s1(1) new(2)] by simp
  from os_put_holds [OF this] obtain s3 where s3: "os_put (Heap p) s2 = Some s3" "holds s (elem_res new) s3" by blast
  let ?n3 = "n2\<lparr>ed_session := filter (\<lambda>x. aqs_ptr x \<noteq> p) (ed_session n2)\<rparr>"
  have nx: "os_next s3 = os_next s2" using s3(1) by (auto simp: os_put_def split: if_splits)
  have flt: "map aqs_ptr (filter (\<lambda>x. aqs_ptr x \<noteq> p) xs) = filter (\<lambda>q. q \<noteq> p) (map aqs_ptr xs)" for xs :: "i40e_aq_session list"
    by (induction xs) simp_all
  have "\<forall>q \<in> set (map aqs_ptr (ed_session n)). q \<noteq> p" using inv s1(3) by (auto simp: aq_inv_def list_all_iff)
  then have "filter (\<lambda>q. q \<noteq> p) (map aqs_ptr (ed_session n2)) = map aqs_ptr (ed_session n)"
    unfolding aq_step_sessions [OF st] using n1 by (simp only: n1 i40e.simps map_append filter_append) (simp add: filter_id_conv n1(2))
  then have "map aqs_ptr (ed_session ?n3) = map aqs_ptr (ed_session n)" using flt [of "ed_session n2"] by simp
  then have "core ?n3 = core n" using st n1 by (simp add: aq_step_def core_def)
  moreover have "aq_inv ?n3 s3" using aq_step_inv [OF st] nx by (simp add: aq_inv_def list_all_iff)
  moreover have "os_next s \<le> os_next s2" "polls_le n ?n3" using st s1(2,3) n1 by (simp_all add: aq_step_def later_defs)
  moreover have "reads_sub n ?n3" using st n1 by (simp add: aq_step_def later_defs)
  ultimately show ?thesis using s3 nx new(1) by (auto simp: i40e_aq_session_delete_def aq_step_def)
qed

lemma session_find_retval:
  assumes "map aqs_ptr (ed_session n') = map aqs_ptr (ed_session n)" "map aqs_retval (ed_session n') = map aqs_retval (ed_session n)"
    and "session_find p n = Some x" "session_find p n' = Some x'"
  shows "aqs_retval x' = aqs_retval x"
proof -
  have "length xs' = length xs \<Longrightarrow> map aqs_ptr xs' = map aqs_ptr xs \<Longrightarrow> map aqs_retval xs' = map aqs_retval xs \<Longrightarrow>
      map_option aqs_retval (List.find (\<lambda>x. aqs_ptr x = p) xs') = map_option aqs_retval (List.find (\<lambda>x. aqs_ptr x = p) xs)" for xs xs'
    by (induction xs' xs rule: list_induct2) auto
  from this [of "ed_session n'" "ed_session n"] show ?thesis using assms map_eq_imp_length_eq [OF assms(1)] by (simp add: session_find_def)
qed

text \<open>
  A session with its request and the wait for the answer: what the driver does next, as long as it is a step, keeps the session, so that
  it can be deleted.
\<close>

definition sess_done :: "i40e \<Rightarrow> os \<Rightarrow> nat \<Rightarrow> i40e \<Rightarrow> os \<Rightarrow> bool" where
  "sess_done n s p n3 s3 \<longleftrightarrow> aq_inv n3 s3 \<and> (\<exists>x. session_find p n3 = Some x) \<and>
     (\<forall>n4 s4. aq_step n3 s3 n4 s4 \<longrightarrow> (\<exists>n5 s5. i40e_aq_session_delete p n4 s4 = Some (n5, s5) \<and> aq_step n s n5 s5 \<and> nic_polls n5 = nic_polls n4))"

lemma session_run:
  assumes "aq_inv n s" "req_ok req"
  obtains (none) s1 where "i40e_aq_session_create n s = (None, n, s1)" "aq_step n s n s1"
  | (answer) p n1 s1 n2 err n3 s3 where "i40e_aq_session_create n s = (Some p, n1, s1)" "req p n1 = Some n2"
      "i40e_aqc_wait_cmd p n2 s1 = Some (err, n3, s3)" "err = 0 \<or> err = -1" "err = 0 \<longrightarrow> polls_less n n3"
      "sess_done n s p n3 s3"
proof -
  obtain r n1 s1 where c: "i40e_aq_session_create n s = (r, n1, s1)" "aq_inv n1 s1"
      "case r of None \<Rightarrow> n1 = n \<and> aq_step n s n s1
       | Some p \<Rightarrow> p = os_next s \<and> os_next s1 = Suc p \<and> holds s {#Heap p#} s1 \<and> session_find p n1 \<noteq> None \<and>
           (\<forall>x. session_find p n1 = Some x \<longrightarrow> aqs_retval x = 0xffff) \<and> (\<exists>x. n1 = n\<lparr>ed_session := ed_session n @ [x]\<rparr> \<and> aqs_ptr x = p)"
    using session_create_step [OF assms(1)] by blast
  show thesis
  proof (cases r)
    case None
    then show thesis using none c by simp
  next
    case (Some p)
    then obtain x0 where p: "p = os_next s" "os_next s1 = Suc p" "holds s {#Heap p#} s1" "n1 = n\<lparr>ed_session := ed_session n @ [x0]\<rparr>" "aqs_ptr x0 = p"
        "\<forall>x. session_find p n1 = Some x \<longrightarrow> aqs_retval x = 0xffff" using c(3) by auto
    have mem: "p \<in> set (map aqs_ptr (ed_session n1))" using p(4,5) by simp
    obtain n2 where q: "req p n1 = Some n2" "aq_step n1 s1 n2 s1" "map aqs_retval (ed_session n2) = map aqs_retval (ed_session n1)"
      using assms(2) c(2) mem unfolding req_ok_def by blast
    have mem2: "p \<in> set (map aqs_ptr (ed_session n2))" using mem aq_step_sessions [OF q(2)] by metis
    obtain x1 x2 where x: "session_find p n1 = Some x1" "session_find p n2 = Some x2" using session_find_Some mem mem2 by metis
    have "aqs_retval x2 = 0xffff" using session_find_retval [OF aq_step_sessions [OF q(2)] q(3) x] p(6) x(1) by simp
    then obtain err n3 s3 where w: "wait_loop p (I40E_ASQ_CMD_TIMEOUT - 1) n2 s1 = Some (err, n3, s3)" "err = 0 \<or> err = -1" "aq_step n2 s1 n3 s3"
        "err = 0 \<longrightarrow> polls_less n2 n3"
      using wait_loop_step [OF aq_step_inv [OF q(2)] mem2, of "I40E_ASQ_CMD_TIMEOUT - 1"] x(2) by auto
    have st: "aq_step n1 s1 n3 s3" by (rule aq_step_trans [OF q(2) w(3)])
    obtain x3 where x3: "session_find p n3 = Some x3" using session_find_Some mem aq_step_sessions [OF st] by metis
    have "\<forall>n4 s4. aq_step n3 s3 n4 s4 \<longrightarrow>
        (\<exists>n5 s5. i40e_aq_session_delete p n4 s4 = Some (n5, s5) \<and> aq_step n s n5 s5 \<and> nic_polls n5 = nic_polls n4)"
      using session_delete_step [OF assms(1) p(3,2,1,4,5) aq_step_trans [OF st]] by blast
    then have "sess_done n s p n3 s3" using x3 aq_step_inv [OF st] by (simp add: sess_done_def)
    moreover have "polls_le n n2" using q(2) p(4) by (simp add: aq_step_def later_defs)
    then have "err = 0 \<longrightarrow> polls_less n n3" using w(4) polls_trans(2) by blast
    ultimately show thesis using answer [of p n1 s1 n2 err n3 s3] c(1) Some q(1) w(1,2) by (simp add: i40e_aqc_wait_cmd_def)
  qed
qed

lemma sess_done_end:
  assumes "sess_done n s p n3 s3" "aq_step n3 s3 n4 s4"
  obtains n5 s5 where "i40e_aq_session_delete p n4 s4 = Some (n5, s5)" "aq_step n s n5 s5" "nic_polls n5 = nic_polls n4"
  using assms unfolding sess_done_def by blast

lemma sess_doneD:
  assumes "sess_done n s p n3 s3"
  obtains x where "session_find p n3 = Some x" "aq_step n3 s3 n3 s3"
  using assms aq_step_refl unfolding sess_done_def by blast

text \<open>A command returns; one that is answered has used an answer of the device.\<close>

lemma aq_command_step:
  assumes "aq_inv n s" "req_ok req"
  shows "\<exists>r n' s'. aq_command req accepted n s = Some (r, n', s') \<and> aq_step n s n' s' \<and> (r \<noteq> None \<longrightarrow> polls_less n n')"
  using assms
proof (cases rule: session_run)
  case none
  then show ?thesis by (simp add: aq_command_def)
next
  case (answer p n1 s1 n2 err n3 s3)
  obtain x where x: "session_find p n3 = Some x" "aq_step n3 s3 n3 s3" using sess_doneD [OF answer(6)] .
  obtain n5 s5 where "i40e_aq_session_delete p n3 s3 = Some (n5, s5)" "aq_step n s n5 s5" "nic_polls n5 = nic_polls n3"
    using sess_done_end [OF answer(6) x(2)] .
  moreover from this have "polls_less n n3 \<Longrightarrow> polls_less n n5" using polls_trans(3) polls_same by blast
  ultimately show ?thesis using answer x(1) by (auto simp: aq_command_def)
qed

lemma aq_simple_step:
  assumes "aq_inv n s" "req_ok req"
  shows "\<exists>ret n' s'. aq_simple req accepted n s = Some (ret, n', s') \<and> (ret = 0 \<or> ret = -1) \<and> aq_step n s n' s'"
proof -
  obtain r n' s' where "aq_command req accepted n s = Some (r, n', s')" "aq_step n s n' s'" using aq_command_step [OF assms] by blast
  then show ?thesis by (cases r) (simp_all add: aq_simple_def)
qed

text \<open>Functions that send commands.\<close>

definition cmd_ok :: "(i40e \<Rightarrow> os \<Rightarrow> (int \<times> i40e \<times> os) option) \<Rightarrow> bool" where
  "cmd_ok f \<longleftrightarrow> (\<forall>n s. aq_inv n s \<longrightarrow> (\<exists>ret n' s'. f n s = Some (ret, n', s') \<and> (ret = 0 \<or> ret = -1) \<and> aq_step n s n' s'))"

lemma cmd_okD:
  assumes "cmd_ok f" "aq_inv n s"
  obtains ret n' s' where "f n s = Some (ret, n', s')" "ret = 0 \<or> ret = -1" "aq_step n s n' s'"
  using assms unfolding cmd_ok_def by blast

lemma cmd_ok_simple: "req_ok req \<Longrightarrow> cmd_ok (aq_simple req accepted)"
  by (simp add: cmd_ok_def aq_simple_step)

lemma cmd_ok_done: "cmd_ok (\<lambda>n s. Some (0, n, s))"
  by (simp add: cmd_ok_def aq_step_refl)

lemma cmd_ok_then:
  assumes "cmd_ok f" "cmd_ok g"
  shows "cmd_ok (\<lambda>n s. and_then (f n s) g)"
  unfolding cmd_ok_def
proof (intro allI impI)
  fix n s assume "aq_inv n s"
  from cmd_okD [OF assms(1) this] obtain ret n1 s1 where f: "f n s = Some (ret, n1, s1)" "ret = 0 \<or> ret = -1" "aq_step n s n1 s1" .
  from cmd_okD [OF assms(2) aq_step_inv [OF f(3)]] obtain ret2 n2 s2 where g: "g n1 s1 = Some (ret2, n2, s2)" "ret2 = 0 \<or> ret2 = -1" "aq_step n1 s1 n2 s2" .
  show "\<exists>ret n' s'. and_then (f n s) g = Some (ret, n', s') \<and> (ret = 0 \<or> ret = -1) \<and> aq_step n s n' s'"
    using f g aq_step_trans [OF f(3) g(3)] by (auto simp: and_then_def)
qed

lemma rxctl_read_step:
  assumes "aq_inv n s"
  shows "\<exists>r n' s'. i40e_rxctl_read a n s = Some (r, n', s') \<and> aq_step n s n' s'"
proof -
  obtain r n' s' where "aq_command (i40e_aqc_req_rxctl_read a) [I40E_AQ_RC_OK] n s = Some (r, n', s')" "aq_step n s n' s'"
    using aq_command_step [OF assms req_ok_simple(9)] by blast
  then show ?thesis by (simp add: i40e_rxctl_read_def)
qed

text \<open>A function that goes on with the value that was read.\<close>

lemma cmd_ok_read:
  assumes "\<And>v. cmd_ok (g v)"
  shows "cmd_ok (\<lambda>n s. do { (r, n, s) \<leftarrow> i40e_rxctl_read a n s; case r of None \<Rightarrow> Some (-1, n, s) | Some v \<Rightarrow> g v n s })"
  unfolding cmd_ok_def
proof (intro allI impI)
  fix n s assume "aq_inv n s"
  then obtain r n1 s1 where f: "i40e_rxctl_read a n s = Some (r, n1, s1)" "aq_step n s n1 s1" using rxctl_read_step by blast
  show "\<exists>ret n' s'. do { (r, n, s) \<leftarrow> i40e_rxctl_read a n s; case r of None \<Rightarrow> Some (-1, n, s) | Some v \<Rightarrow> g v n s } = Some (ret, n', s') \<and>
      (ret = 0 \<or> ret = -1) \<and> aq_step n s n' s'"
  proof (cases r)
    case (Some v)
    from cmd_okD [OF assms aq_step_inv [OF f(2)]] obtain ret n2 s2 where "g v n1 s1 = Some (ret, n2, s2)" "ret = 0 \<or> ret = -1" "aq_step n1 s1 n2 s2" .
    then show ?thesis using Some f aq_step_trans [OF f(2)] by simp
  qed (use f in simp)
qed

lemmas cmd_defs =
  i40e_rxctl_write_def i40e_firmware_version_def i40e_driver_version_def i40e_clear_pxemode_def i40e_stop_lldp_def i40e_macaddr_read_def
  i40e_set_phyintmask_def i40e_set_swconf_def

lemma cmds_ok:
  "cmd_ok (i40e_rxctl_write a v)" "cmd_ok i40e_firmware_version" "cmd_ok i40e_driver_version" "cmd_ok i40e_clear_pxemode" "cmd_ok i40e_stop_lldp"
  "cmd_ok i40e_macaddr_read" "cmd_ok (i40e_set_phyintmask m)" "cmd_ok (i40e_set_swconf f vf)"
  by (simp_all add: cmd_defs cmd_ok_simple req_ok_simple)

lemma configure_pf_ok: "cmd_ok i40e_configure_pf"
  unfolding i40e_configure_pf_def [abs_def] by (intro cmd_ok_then cmds_ok cmd_ok_done)

lemma configure_filter_ok: "cmd_ok i40e_configure_filter"
  unfolding i40e_configure_filter_def [abs_def] by (intro cmd_ok_read cmd_ok_then cmds_ok cmd_ok_done)

lemma configure_rss_ok: "cmd_ok i40e_configure_rss"
  unfolding i40e_configure_rss_def [abs_def] Let_def by (intro cmd_ok_read cmd_ok_then cmds_ok cmd_ok_done)

subsection \<open>The elements of the switch\<close>

lemma elems_free_holds:
  assumes "holds s (elem_res es + R) s1"
  shows "\<exists>s2. elems_free es s1 = Some s2 \<and> holds s R s2 \<and> os_next s2 = os_next s1"
  using assms
proof (induction es arbitrary: s1)
  case (Cons e es)
  obtain p x where e: "e = (p, x)" by (cases e)
  have "holds s (add_mset (Heap p) (elem_res es + R)) s1" using Cons.prems e by simp
  from os_put_holds [OF this] obtain s2 where s2: "os_put (Heap p) s1 = Some s2" "holds s (elem_res es + R) s2" by blast
  moreover have "os_next s2 = os_next s1" using s2(1) by (auto simp: os_put_def split: if_splits)
  ultimately show ?case using Cons.IH [OF s2(2)] e by auto
qed simp

text \<open>
  The state after so many rounds that were answered with a further offset, each with the offset of the answer before; none if a round was the last one.
\<close>

fun swconf_after :: "nat \<Rightarrow> u16 \<Rightarrow> i40e \<Rightarrow> os \<Rightarrow> (u16 \<times> i40e \<times> os) option" where
  "swconf_after 0 off n s = Some (off, n, s)"
| "swconf_after (Suc k) off n s =
     (case aq_command (swconf_req off) [I40E_AQ_RC_OK] n s of
        Some (Some x, n', s') \<Rightarrow> if seid_offset x \<noteq> 0 then swconf_after k (seid_offset x) n' s' else None
      | _ \<Rightarrow> None)"

lemma swconf_after_quiet: "aq_inv n s \<Longrightarrow> quiet k n \<Longrightarrow> swconf_after (Suc k) off n s = None"
proof (induction k arbitrary: off n s)
  case (Suc k)
  obtain r n1 s1 where c: "aq_command (swconf_req off) [I40E_AQ_RC_OK] n s = Some (r, n1, s1)" "aq_step n s n1 s1" "r \<noteq> None \<longrightarrow> polls_less n n1"
    using aq_command_step [OF Suc.prems(1) req_ok_swconf] by blast
  have "quiet k n1" if "r \<noteq> None" using c(3) that Suc.prems(2) by (auto simp: polls_less_def)
  then show ?case using c(1) Suc.IH [OF aq_step_inv [OF c(2)]] by (auto split: option.splits)
next
  case 0
  obtain r n1 s1 where c: "aq_command (swconf_req off) [I40E_AQ_RC_OK] n s = Some (r, n1, s1)" "r \<noteq> None \<longrightarrow> polls_less n n1"
    using aq_command_step [OF 0(1) req_ok_swconf] by blast
  then show ?case using 0(2) by (auto simp: polls_less_def split: option.splits)
qed

lemma swconf_fetch_ends:
  assumes "aq_inv n s" "swconf_after k off n s = None"
  shows "\<exists>ok n' s'. swconf_fetch off n s = Some (ok, n', s') \<and> aq_step n s n' s'"
  using assms
proof (induction k arbitrary: off n s)
  case (Suc k)
  obtain r n1 s1 where c: "aq_command (swconf_req off) [I40E_AQ_RC_OK] n s = Some (r, n1, s1)" "aq_step n s n1 s1"
    using aq_command_step [OF Suc.prems(1) req_ok_swconf] by blast
  show ?case
  proof (cases "\<exists>x. r = Some x \<and> seid_offset x \<noteq> 0")
    case True
    then obtain x where x: "r = Some x" "seid_offset x \<noteq> 0" by blast
    obtain ok n2 s2 where "swconf_fetch (seid_offset x) n1 s1 = Some (ok, n2, s2)" "aq_step n1 s1 n2 s2"
      using Suc.IH [OF aq_step_inv [OF c(2)], of "seid_offset x"] Suc.prems(2) c(1) x by auto
    then show ?thesis using c(1) x aq_step_trans [OF c(2)] by (subst swconf_fetch.simps) simp
  next
    case False
    then show ?thesis using c by (subst swconf_fetch.simps) (cases r; auto)
  qed
qed simp

lemma swconf_fetch_ended: "swconf_fetch off n s = Some r \<Longrightarrow> \<exists>k. swconf_after k off n s = None"
proof (erule swconf_fetch.raw_induct [rotated])
  fix fetch off n s r
  assume ih: "\<And>off n s r. fetch off n s = Some r \<Longrightarrow> \<exists>k. swconf_after k off n s = None"
    and r: "do { (x, n, s) \<leftarrow> aq_command (swconf_req off) [I40E_AQ_RC_OK] n s;
        case x of None \<Rightarrow> Some (False, n, s) | Some x \<Rightarrow> if seid_offset x \<noteq> 0 then fetch (seid_offset x) n s else Some (True, n, s) } = Some r"
  obtain x n1 s1 where c: "aq_command (swconf_req off) [I40E_AQ_RC_OK] n s = Some (x, n1, s1)" using r by (auto simp: bind_eq_Some_conv)
  show "\<exists>k. swconf_after k off n s = None"
  proof (cases "\<exists>y. x = Some y \<and> seid_offset y \<noteq> 0")
    case True
    then obtain y where y: "x = Some y" "seid_offset y \<noteq> 0" by blast
    then have "fetch (seid_offset y) n1 s1 = Some r" using r c by simp
    from ih [OF this] obtain k where "swconf_after k (seid_offset y) n1 s1 = None" ..
    then show ?thesis using c y by (intro exI [of _ "Suc k"]) simp
  next
    case False
    then show ?thesis using c by (intro exI [of _ 1]) (auto split: option.splits)
  qed
qed

lemma clear_swconf_step:
  assumes "aq_inv n s1" "holds s (elem_res (ed_elem n) + R) s1"
  shows "\<exists>n' s2. i40e_clear_swconf n s1 = Some (n', s2) \<and> holds s R s2 \<and> aq_inv n' s2 \<and> n' = n\<lparr>ed_elem := []\<rparr> \<and> os_next s2 = os_next s1"
proof -
  obtain s2 where "elems_free (ed_elem n) s1 = Some s2" "holds s R s2" "os_next s2 = os_next s1" using elems_free_holds [OF assms(2)] by blast
  then show ?thesis using assms(1) by (simp add: i40e_clear_swconf_def aq_inv_def)
qed

lemma get_swconf_step:
  assumes "aq_inv n s1" "holds s (elem_res (ed_elem n) + R) s1" and q: "quiet k n"
  shows "\<exists>ret n' s'. i40e_get_swconf n s1 = Some (ret, n', s') \<and> (ret = 0 \<or> ret = -1) \<and> (ret = -1 \<longrightarrow> ed_elem n' = []) \<and>
    core n' = core n \<and> aq_inv n' s' \<and> os_next s1 \<le> os_next s' \<and> reads_sub n n' \<and> quiet k n' \<and> holds s (elem_res (ed_elem n') + R) s'"
proof -
  let ?n = "n\<lparr>ed_elem := []\<rparr>"
  obtain s2 where c: "i40e_clear_swconf n s1 = Some (?n, s2)" "holds s R s2" "aq_inv ?n s2" "os_next s2 = os_next s1"
    using clear_swconf_step [OF assms(1,2)] by blast
  obtain ok n3 s3 where f: "swconf_fetch 0 ?n s2 = Some (ok, n3, s3)" "aq_step ?n s2 n3 s3" 
    using swconf_fetch_ends [OF c(3) swconf_after_quiet [OF c(3)], of k 0] q by (simp add: quiet_def) blast
  have "core ?n = core n" by (simp add: core_def)
  then have core: "core n3 = core n" using f(2) by (simp add: aq_step_def)
  have "holds s2 (elem_res (ed_elem n3)) s3" using f(2) by (simp add: aq_step_def)
  then have h: "holds s (elem_res (ed_elem n3) + R) s3" by (subst add.commute) (rule holds_trans [OF c(2)])
  have nx: "os_next s1 \<le> os_next s3" and rd: "reads_sub n n3" and q3: "quiet k n3"
    using f(2) c(4) q by (simp_all add: aq_step_def later_defs)
  show ?thesis
  proof (cases ok)
    case True
    then show ?thesis using c(1) f(1) h core aq_step_inv [OF f(2)] nx rd q3 by (simp add: i40e_get_swconf_def)
  next
    case False
    obtain s4 where d: "i40e_clear_swconf n3 s3 = Some (n3\<lparr>ed_elem := []\<rparr>, s4)" "holds s R s4" "aq_inv (n3\<lparr>ed_elem := []\<rparr>) s4" "os_next s4 = os_next s3"
      using clear_swconf_step [OF aq_step_inv [OF f(2)] h] by blast
    have "core (n3\<lparr>ed_elem := []\<rparr>) = core n" "reads_sub n (n3\<lparr>ed_elem := []\<rparr>)" using core rd by (simp_all add: core_def later_defs)
    then show ?thesis using False c(1) f(1) d nx q3 by (simp add: i40e_get_swconf_def quiet_def)
  qed
qed

text \<open>C33. When the driver has read the configuration of the switch. It asks again as long as an answer names a further offset, each time for the offset of the answer before;
  the loop returns exactly if, in this sequence of commands, at some point a command fails or its answer names no further offset. So a device that
  names further offsets for ever keeps the driver in the loop, and one that says nothing more from some look on is given up: after at most that many answered commands the
  loop is left. Then \<open>i40e_get_swconf\<close> returns, the elements of before are given back and exactly the listed ones are held, none after an error. The firmware is taken to answer in the form of the queue (\<open>aq_inv\<close>): the head register is an index of the ring and stands still during one clean-up, and
  the reported elements are inside the buffer.\<close>

theorem swconf_ends:
  assumes "aq_inv n s"
  shows "((\<exists>r. swconf_fetch off n s = Some r) \<longleftrightarrow> (\<exists>k. swconf_after k off n s = None)) \<and>
    (\<forall>k. quiet k n \<longrightarrow> swconf_after (Suc k) off n s = None \<and>
       (\<forall>s0 R. holds s0 (elem_res (ed_elem n) + R) s \<longrightarrow>
          (\<exists>ret n' s'. i40e_get_swconf n s = Some (ret, n', s') \<and> (ret = 0 \<or> ret = -1) \<and> (ret = -1 \<longrightarrow> ed_elem n' = []) \<and>
             aq_inv n' s' \<and> holds s0 (elem_res (ed_elem n') + R) s')))"
proof -
  have "(\<exists>r. swconf_fetch off n s = Some r) \<longleftrightarrow> (\<exists>k. swconf_after k off n s = None)"
    using swconf_fetch_ends [OF assms] swconf_fetch_ended by blast
  then show ?thesis using swconf_after_quiet [OF assms] get_swconf_step [OF assms] by blast
qed

end
