(* ===== verification/I40e_Vsi.thy ===== *)
theory I40e_Vsi
  imports I40e_Main
begin

text \<open>
  An interface of the device, the first part of \<open>dev/i40e/i40e_io.c\<close>: its configuration by commands, the contexts of its queues, its
  interrupts, and the start and stop of its queues. An interface is given by its place \<open>k\<close> in the device, at which the driver
  keeps its own data, \<open>iface->drv_data\<close>.
\<close>

definition drv_data :: "nat \<Rightarrow> i40e \<Rightarrow> i40e_iface option" where
  "drv_data k n = (if k < length (ed_ifaces n) then Some (snd (ed_ifaces n ! k)) else None)"

subsection \<open>Constants\<close>

definition I40E_MIN_RX_BUFFER :: u32 where "I40E_MIN_RX_BUFFER = 1024"
definition I40E_MAX_RX_BUFFER :: u32 where "I40E_MAX_RX_BUFFER = 16 * 1024 - 128"
definition I40E_MAX_CHAINED_RX_BUFFERS :: u32 where "I40E_MAX_CHAINED_RX_BUFFERS = 5"
definition I40E_MAX_MTU :: u32 where "I40E_MAX_MTU = 9728"
definition I40E_ITR_20K :: u32 where "I40E_ITR_20K = 0x0019"
definition I40E_ITR_DYNAMIC :: u32 where "I40E_ITR_DYNAMIC = 0x8000"
definition ITR_TO_REG :: "u32 \<Rightarrow> u32" where "ITR_TO_REG setting = drop_bit 1 (setting AND NOT I40E_ITR_DYNAMIC)"
definition INTRL_ENA :: u32 where "INTRL_ENA = 0x40"
definition INTRL_USEC_TO_REG :: "u32 \<Rightarrow> u32" where "INTRL_USEC_TO_REG x = (if x \<noteq> 0 then drop_bit 2 x OR INTRL_ENA else 0)"
definition I40E_QUEUE_WAIT_RETRY_LIMIT :: nat where "I40E_QUEUE_WAIT_RETRY_LIMIT = 10"
definition I40E_QUEUE_TYPE_RX :: u32 where "I40E_QUEUE_TYPE_RX = 0"
definition I40E_QUEUE_TYPE_TX :: u32 where "I40E_QUEUE_TYPE_TX = 1"
definition I40E_RXQ_CTX_DBUFF_SHIFT :: nat where "I40E_RXQ_CTX_DBUFF_SHIFT = 7"
definition I40E_AQ_VSI_PROP_VLAN_VALID :: u16 where "I40E_AQ_VSI_PROP_VLAN_VALID = 0x0004"
definition I40E_AQ_VSI_PROP_QUEUE_MAP_VALID :: u16 where "I40E_AQ_VSI_PROP_QUEUE_MAP_VALID = 0x0040"
definition I40E_AQ_VSI_PVLAN_MODE_ALL :: u8 where "I40E_AQ_VSI_PVLAN_MODE_ALL = 0x03"
definition I40E_AQ_VSI_PVLAN_EMOD_NOTHING :: u8 where "I40E_AQ_VSI_PVLAN_EMOD_NOTHING = 0x18"
definition I40E_AQ_VSI_QUE_MAP_CONTIG :: u16 where "I40E_AQ_VSI_QUE_MAP_CONTIG = 0x0"
definition I40E_AQ_VSI_TC_QUE_OFFSET_SHIFT :: nat where "I40E_AQ_VSI_TC_QUE_OFFSET_SHIFT = 0"
definition I40E_AQ_VSI_TC_QUE_NUMBER_SHIFT :: nat where "I40E_AQ_VSI_TC_QUE_NUMBER_SHIFT = 9"

subsection \<open>Commands\<close>

text \<open>
  The two commands for the hash. When the device does not know the command, the registers are written, while
  the session is still there.
\<close>

definition rss_command ::
  "(nat \<Rightarrow> i40e \<Rightarrow> i40e option) \<Rightarrow> (i40e \<Rightarrow> os \<Rightarrow> (int \<times> i40e \<times> os) option) \<Rightarrow> i40e \<Rightarrow> os \<Rightarrow> (int \<times> i40e \<times> os) option" where
  "rss_command req set_reg n s =
     do { let (p, n, s) = i40e_aq_session_create n s;
          case p of None \<Rightarrow> Some (-1, n, s)
          | Some session \<Rightarrow> do {
              n \<leftarrow> req session n;
              (err, n, s) \<leftarrow> i40e_aqc_wait_cmd session n s;
              x \<leftarrow> session_find session n;
              (err, n, s) \<leftarrow>
                (if err < 0 then Some (-1, n, s)
                 else if aqs_retval x \<noteq> I40E_AQ_RC_OK \<and> aqs_retval x \<noteq> I40E_AQ_RC_ESRCH then Some (-1, n, s)
                 else if aqs_retval x = I40E_AQ_RC_ESRCH then set_reg n s
                 else Some (0, n, s));
              (n, s) \<leftarrow> i40e_aq_session_delete session n s;
              Some (if err < 0 then -1 else 0, n, s) } }"

definition i40e_set_rsskey :: "nat \<Rightarrow> u8 list \<Rightarrow> i40e \<Rightarrow> os \<Rightarrow> (int \<times> i40e \<times> os) option" where
  "i40e_set_rsskey k key n s =
     do { iface \<leftarrow> drv_data k n; rss_command (i40e_aqc_req_set_rsskey iface key) (i40e_set_rsskey_reg key) n s }"

definition i40e_set_rsslut :: "nat \<Rightarrow> u8 list \<Rightarrow> i40e \<Rightarrow> os \<Rightarrow> (int \<times> i40e \<times> os) option" where
  "i40e_set_rsslut k lut n s =
     do { iface \<leftarrow> drv_data k n;
          rss_command (i40e_aqc_req_set_rsslut iface lut) (\<lambda>n s. case i40e_set_rsslut_reg lut n of (err, n) \<Rightarrow> Some (err, n, s)) n s }"

text \<open>The next power of two; the shift stays below 64, as the number has 32 bits.\<close>

function qps_pow :: "nat \<Rightarrow> nat \<Rightarrow> nat" where
  "qps_pow p num = (if 2 ^ p < num then qps_pow (p + 1) num else p)"
  by pat_completeness auto
termination
proof (relation "measure (\<lambda>(p, num). num - p)")
  show "((p + 1, num), p, num) \<in> measure (\<lambda>(p, num). num - p)" if "2 ^ p < num" for p num :: nat
  proof -
    have "p < num" using that less_trans [OF less_exp [of p]] by blast
    then show ?thesis by simp
  qed
qed simp

declare qps_pow.simps [simp del]

definition tc_map :: "u16 \<Rightarrow> u32 \<Rightarrow> u16" where
  "tc_map tc_qps_offset num_qps_tc =
     (if num_qps_tc \<noteq> 0 then tc_qps_offset else push_bit I40E_AQ_VSI_TC_QUE_OFFSET_SHIFT 0)
     OR push_bit I40E_AQ_VSI_TC_QUE_NUMBER_SHIFT (of_nat (qps_pow 0 (unat num_qps_tc)))"

fun tc_mapping_loop :: "nat \<Rightarrow> nat \<Rightarrow> u16 \<Rightarrow> u32 \<Rightarrow> u16 list" where
  "tc_mapping_loop 0 i tc_qps_offset num_qps = []"
| "tc_mapping_loop (Suc left) i tc_qps_offset num_qps =
     (let num_qps_tc = (if i = 0 then num_qps else 0)
      in tc_map tc_qps_offset num_qps_tc # tc_mapping_loop left (i + 1) (tc_qps_offset + ucast num_qps_tc) num_qps)"

definition put_bytes :: "nat \<Rightarrow> u8 list \<Rightarrow> u8 list \<Rightarrow> u8 list" where
  "put_bytes off bs xs = take off xs @ bs @ drop (off + length bs) xs"

text \<open>The structure that is sent; what the code does not set is what was on the stack.\<close>

definition vsi_data :: "i40e_iface \<Rightarrow> u32 \<Rightarrow> i40e \<Rightarrow> u8 list" where
  "vsi_data iface num_qps n =
     put_bytes 62 (concat (map (le_of 2) (tc_mapping_loop I40E_MAX_TRAFFIC_CLASS 0 0 num_qps)))
     (put_bytes 30 (le_of 2 (ei_base_qp iface))
     (put_bytes 28 (le_of 2 I40E_AQ_VSI_QUE_MAP_CONTIG)
     (put_bytes 12 [I40E_AQ_VSI_PVLAN_MODE_ALL OR I40E_AQ_VSI_PVLAN_EMOD_NOTHING]
     (put_bytes 0 (le_of 2 (I40E_AQ_VSI_PROP_VLAN_VALID OR I40E_AQ_VSI_PROP_QUEUE_MAP_VALID))
       (map (nic_stack n) [0..<sizeof_i40e_aq_buf_vsi_data])))))"

definition i40e_vsi_update :: "nat \<Rightarrow> 'd ufp_iface \<Rightarrow> i40e \<Rightarrow> os \<Rightarrow> (int \<times> i40e \<times> os) option" where
  "i40e_vsi_update k iface n s =
     do { i40e_iface \<leftarrow> drv_data k n;
          aq_simple (i40e_aqc_req_update_vsi i40e_iface (vsi_data i40e_iface (if_num_qps iface) n)) [I40E_AQ_RC_OK] n s }"

definition i40e_vsi_get :: "nat \<Rightarrow> i40e \<Rightarrow> os \<Rightarrow> (int \<times> i40e \<times> os) option" where
  "i40e_vsi_get k n s =
     do { i40e_iface \<leftarrow> drv_data k n; aq_simple (i40e_aqc_req_get_vsi i40e_iface) [I40E_AQ_RC_OK] n s }"

definition i40e_vsi_promisc_mode :: "nat \<Rightarrow> 'd ufp_iface \<Rightarrow> i40e \<Rightarrow> os \<Rightarrow> (int \<times> i40e \<times> os) option" where
  "i40e_vsi_promisc_mode k iface n s =
     do { i40e_iface \<leftarrow> drv_data k n;
          let promisc_flags = I40E_AQC_SET_VSI_PROMISC_MULTICAST OR I40E_AQC_SET_VSI_PROMISC_BROADCAST;
          let promisc_flags = (if if_promisc iface \<noteq> 0 then promisc_flags OR I40E_AQC_SET_VSI_PROMISC_UNICAST else promisc_flags);
          aq_simple (i40e_aqc_req_promisc_mode i40e_iface promisc_flags) [I40E_AQ_RC_OK] n s }"

definition rss_seed :: "u32 list" where
  "rss_seed = [0x6b793944, 0x23504cb5, 0x5bea75b6, 0x309f4f12, 0x3dc0a2b8, 0x024ddcdf, 0x339b8ca0, 0x4c4af64a,
     0x34fac605, 0x55d85839, 0x3a58997d, 0x2ec938e1, 0x66031581]"

definition rss_lut :: "u32 \<Rightarrow> u8 list" where
  "rss_lut num_qps = map (\<lambda>i. of_nat (i mod unat num_qps)) [0..<I40E_HLUT_ARRAY_SIZE]"

text \<open>Without queues the table divides by zero.\<close>

definition i40e_vsi_rss_config :: "nat \<Rightarrow> 'd ufp_iface \<Rightarrow> i40e \<Rightarrow> os \<Rightarrow> (int \<times> i40e \<times> os) option" where
  "i40e_vsi_rss_config k iface n s =
     and_then (i40e_set_rsskey k (concat (map (le_of 4) rss_seed)) n s) (\<lambda>n s.
       if if_num_qps iface = 0 then None
       else and_then (i40e_set_rsslut k (rss_lut (if_num_qps iface)) n s) (\<lambda>n s. Some (0, n, s)))"

subsection \<open>Contexts of the queues\<close>

definition ctx_tx_zero :: i40e_hmc_ctx_tx where
  "ctx_tx_zero = \<lparr>txc_head = 0, txc_new_context = 0, txc_base = 0, txc_fc_en = 0, txc_timesync_en = 0, txc_fd_en = 0,
     txc_alt_vlan_en = 0, txc_thead_wb = 0, txc_cpuid = 0, txc_head_wb_en = 0, txc_qlen = 0, txc_tphrdesc_en = 0,
     txc_tphrpkt_en = 0, txc_tphwdesc_en = 0, txc_headwb_addr = 0, txc_crc = 0, txc_rdylist = 0, txc_rdylist_act = 0\<rparr>"

definition ctx_rx_zero :: i40e_hmc_ctx_rx where
  "ctx_rx_zero = \<lparr>rxc_head = 0, rxc_cpuid = 0, rxc_base = 0, rxc_qlen = 0, rxc_dbuff = 0, rxc_hbuff = 0, rxc_dtype = 0,
     rxc_dsize = 0, rxc_crcstrip = 0, rxc_fc_en = 0, rxc_l2tsel = 0, rxc_hsplit_0 = 0, rxc_hsplit_1 = 0, rxc_showiv = 0,
     rxc_rxmax = 0, rxc_tphrdesc_en = 0, rxc_tphwdesc_en = 0, rxc_tphdata_en = 0, rxc_tphhead_en = 0, rxc_lrxqthresh = 0,
     rxc_pref_en = 0\<rparr>"

definition tx_ctx :: "i40e_iface \<Rightarrow> 'd ufp_iface \<Rightarrow> 'd ufp_ring \<Rightarrow> i40e_hmc_ctx_tx" where
  "tx_ctx i40e_iface iface ring = ctx_tx_zero\<lparr>txc_new_context := 1, txc_base := ring_addr_dma ring div 128,
     txc_qlen := ucast (if_num_tx_desc iface), txc_tphrdesc_en := 1, txc_tphwdesc_en := 1, txc_tphrpkt_en := 1,
     txc_head_wb_en := 0, txc_rdylist := ei_qs_handles i40e_iface ! 0, txc_rdylist_act := 0\<rparr>"

text \<open>The rings that are done are in front; the ring that fails and those behind it are unchanged.\<close>

fun configure_tx_loop ::
  "nat \<Rightarrow> addr \<Rightarrow> 'd ufp_iface \<Rightarrow> nat \<Rightarrow> nat \<Rightarrow> (nat \<times> 'd ufp_ring) list \<Rightarrow> i40e \<Rightarrow> (int \<times> (nat \<times> 'd ufp_ring) list \<times> i40e) option" where
  "configure_tx_loop k bar iface 0 i rings n = Some (0, rings, n)"
| "configure_tx_loop k bar iface (Suc left) i rings n =
     do { i40e_iface \<leftarrow> drv_data k n;
          if length rings \<le> i \<or> ei_qs_handles i40e_iface = [] then None
          else do {
            let qp_idx = ei_base_qp i40e_iface + of_nat i;
            let ring = snd (rings ! i);
            (err, n) \<leftarrow> i40e_hmc_set_ctx_tx (tx_ctx i40e_iface iface ring) qp_idx n;
            if err < 0 then Some (-1, rings, n)
            else do {
              let qtx_ctl = I40E_QTX_CTL_PF_QUEUE OR (push_bit I40E_QTX_CTL_PF_INDX_SHIFT (ucast (ed_pf_id n)) AND I40E_QTX_CTL_PF_INDX_MASK);
              let n = UFP_WRITE32 (I40E_QTX_CTL (ucast qp_idx)) qtx_ctl n;
              let n = i40e_flush n;
              let ring = ring\<lparr>tail := bar + unat (I40E_QTX_TAIL (ucast qp_idx))\<rparr>;
              configure_tx_loop k bar iface left (i + 1) (rings[i := (fst (rings ! i), ring)]) n } } }"

definition i40e_vsi_configure_tx :: "nat \<Rightarrow> addr \<Rightarrow> 'd ufp_iface \<Rightarrow> i40e \<Rightarrow> (int \<times> 'd ufp_iface \<times> i40e) option" where
  "i40e_vsi_configure_tx k bar iface n =
     do { (err, rings, n) \<leftarrow> configure_tx_loop k bar iface (unat (if_num_qps iface)) 0 (snd (if_tx_ring iface)) n;
          Some (err, iface\<lparr>if_tx_ring := (fst (if_tx_ring iface), rings)\<rparr>, n) }"

definition rx_buf_bad :: "'d ufp_iface \<Rightarrow> bool" where
  "rx_buf_bad iface \<longleftrightarrow> if_buf_size iface mod push_bit I40E_RXQ_CTX_DBUFF_SHIFT 1 \<noteq> 0 \<or>
     if_buf_size iface < I40E_MIN_RX_BUFFER \<or> if_buf_size iface > I40E_MAX_RX_BUFFER"

definition rx_mtu_bad :: "'d ufp_iface \<Rightarrow> bool" where
  "rx_mtu_bad iface \<longleftrightarrow> if_mtu_frame iface > min I40E_MAX_MTU (I40E_MAX_CHAINED_RX_BUFFERS * if_buf_size iface)"

definition rx_ctx :: "'d ufp_iface \<Rightarrow> 'd ufp_ring \<Rightarrow> i40e_hmc_ctx_rx" where
  "rx_ctx iface ring = ctx_rx_zero\<lparr>rxc_dbuff := ucast (drop_bit I40E_RXQ_CTX_DBUFF_SHIFT (if_buf_size iface)),
     rxc_base := ring_addr_dma ring div 128, rxc_qlen := ucast (if_num_rx_desc iface), rxc_dsize := 0, rxc_dtype := 0,
     rxc_hsplit_0 := 0, rxc_rxmax := if_mtu_frame iface, rxc_tphrdesc_en := 1, rxc_tphwdesc_en := 1, rxc_tphdata_en := 1,
     rxc_tphhead_en := 0, rxc_lrxqthresh := 2, rxc_crcstrip := 1, rxc_l2tsel := 1, rxc_showiv := 0, rxc_pref_en := 1\<rparr>"

fun configure_rx_loop ::
  "nat \<Rightarrow> addr \<Rightarrow> 'd ufp_iface \<Rightarrow> nat \<Rightarrow> nat \<Rightarrow> (nat \<times> 'd ufp_ring) list \<Rightarrow> i40e \<Rightarrow> (int \<times> (nat \<times> 'd ufp_ring) list \<times> i40e) option" where
  "configure_rx_loop k bar iface 0 i rings n = Some (0, rings, n)"
| "configure_rx_loop k bar iface (Suc left) i rings n =
     do { i40e_iface \<leftarrow> drv_data k n;
          if length rings \<le> i then None
          else do {
            let qp_idx = ei_base_qp i40e_iface + of_nat i;
            let ring = snd (rings ! i);
            if rx_buf_bad iface \<or> rx_mtu_bad iface then Some (-1, rings, n)
            else do {
              (err, n) \<leftarrow> i40e_hmc_set_ctx_rx (rx_ctx iface ring) qp_idx n;
              if err < 0 then Some (-1, rings, n)
              else do {
                let ring = ring\<lparr>tail := bar + unat (I40E_QRX_TAIL (ucast qp_idx))\<rparr>;
                let n = UFP_WRITE32 (I40E_QRX_TAIL (ucast qp_idx)) 0 n;
                configure_rx_loop k bar iface left (i + 1) (rings[i := (fst (rings ! i), ring)]) n } } } }"

definition i40e_vsi_configure_rx :: "nat \<Rightarrow> addr \<Rightarrow> 'd ufp_iface \<Rightarrow> i40e \<Rightarrow> (int \<times> 'd ufp_iface \<times> i40e) option" where
  "i40e_vsi_configure_rx k bar iface n =
     do { (err, rings, n) \<leftarrow> configure_rx_loop k bar iface (unat (if_num_qps iface)) 0 (snd (if_rx_ring iface)) n;
          Some (err, iface\<lparr>if_rx_ring := (fst (if_rx_ring iface), rings)\<rparr>, n) }"

subsection \<open>Interrupts\<close>

text \<open>What the two functions have in common: the throttling of the interrupt and the first queue of its list.\<close>

definition irq_throttle :: "u32 \<Rightarrow> u32 \<Rightarrow> u16 \<Rightarrow> u16 \<Rightarrow> i40e \<Rightarrow> i40e" where
  "irq_throttle ty irq_rate qp_idx irq_idx n =
     (let n = UFP_WRITE32 (I40E_PFINT_ITRN I40E_IDX_ITR0 (ucast irq_idx - 1)) (ITR_TO_REG I40E_ITR_20K) n;
          n = UFP_WRITE32 (I40E_PFINT_RATEN (ucast irq_idx - 1)) (INTRL_USEC_TO_REG irq_rate) n;
          val = push_bit I40E_PFINT_LNKLSTN_FIRSTQ_INDX_SHIFT (ucast qp_idx) OR push_bit I40E_PFINT_LNKLSTN_FIRSTQ_TYPE_SHIFT ty
      in UFP_WRITE32 (I40E_PFINT_LNKLSTN (ucast irq_idx - 1)) val n)"

definition i40e_vsi_configure_irq_rx :: "u32 \<Rightarrow> u16 \<Rightarrow> u16 \<Rightarrow> i40e \<Rightarrow> i40e" where
  "i40e_vsi_configure_irq_rx irq_rate qp_idx irq_idx n =
     UFP_WRITE32 (I40E_QINT_RQCTL (ucast qp_idx))
       (I40E_QINT_RQCTL_CAUSE_ENA_MASK OR push_bit I40E_QINT_RQCTL_ITR_INDX_SHIFT I40E_IDX_ITR0
        OR push_bit I40E_QINT_RQCTL_MSIX_INDX_SHIFT (ucast irq_idx)
        OR push_bit I40E_QINT_RQCTL_NEXTQ_INDX_SHIFT I40E_QUEUE_END_OF_LIST)
       (irq_throttle I40E_QUEUE_TYPE_RX irq_rate qp_idx irq_idx n)"

definition i40e_vsi_configure_irq_tx :: "u32 \<Rightarrow> u16 \<Rightarrow> u16 \<Rightarrow> i40e \<Rightarrow> i40e" where
  "i40e_vsi_configure_irq_tx irq_rate qp_idx irq_idx n =
     UFP_WRITE32 (I40E_QINT_TQCTL (ucast qp_idx))
       (I40E_QINT_TQCTL_CAUSE_ENA_MASK OR push_bit I40E_QINT_TQCTL_ITR_INDX_SHIFT I40E_IDX_ITR0
        OR push_bit I40E_QINT_TQCTL_MSIX_INDX_SHIFT (ucast irq_idx)
        OR push_bit I40E_QINT_TQCTL_NEXTQ_INDX_SHIFT I40E_QUEUE_END_OF_LIST)
       (irq_throttle I40E_QUEUE_TYPE_TX irq_rate qp_idx irq_idx n)"

definition lnklst_end :: "u16 \<Rightarrow> i40e \<Rightarrow> i40e" where
  "lnklst_end irq_idx n =
     (case UFP_READ32 (I40E_PFINT_LNKLSTN (ucast irq_idx - 1)) n of (val, n) \<Rightarrow>
        UFP_WRITE32 (I40E_PFINT_LNKLSTN (ucast irq_idx - 1))
          (val OR push_bit I40E_PFINT_LNKLSTN_FIRSTQ_INDX_SHIFT I40E_QUEUE_END_OF_LIST) n)"

definition i40e_vsi_shutdown_irq_rx :: "u16 \<Rightarrow> u16 \<Rightarrow> i40e \<Rightarrow> i40e" where
  "i40e_vsi_shutdown_irq_rx qp_idx irq_idx n =
     (case UFP_READ32 (I40E_QINT_RQCTL (ucast qp_idx)) (lnklst_end irq_idx n) of (val, n) \<Rightarrow>
        UFP_WRITE32 (I40E_QINT_RQCTL (ucast qp_idx))
          ((val AND NOT (I40E_QINT_RQCTL_MSIX_INDX_MASK OR I40E_QINT_RQCTL_MSIX0_INDX_MASK
                         OR I40E_QINT_RQCTL_CAUSE_ENA_MASK OR I40E_QINT_RQCTL_INTEVENT_MASK))
           OR (I40E_QINT_RQCTL_ITR_INDX_MASK OR I40E_QINT_RQCTL_NEXTQ_INDX_MASK)) n)"

definition i40e_vsi_shutdown_irq_tx :: "u16 \<Rightarrow> u16 \<Rightarrow> i40e \<Rightarrow> i40e" where
  "i40e_vsi_shutdown_irq_tx qp_idx irq_idx n =
     (case UFP_READ32 (I40E_QINT_TQCTL (ucast qp_idx)) (lnklst_end irq_idx n) of (val, n) \<Rightarrow>
        UFP_WRITE32 (I40E_QINT_TQCTL (ucast qp_idx))
          ((val AND NOT (I40E_QINT_TQCTL_MSIX_INDX_MASK OR I40E_QINT_TQCTL_MSIX0_INDX_MASK
                         OR I40E_QINT_TQCTL_CAUSE_ENA_MASK OR I40E_QINT_TQCTL_INTEVENT_MASK))
           OR (I40E_QINT_TQCTL_ITR_INDX_MASK OR I40E_QINT_TQCTL_NEXTQ_INDX_MASK)) n)"

definition irq_base :: "i40e_iface \<Rightarrow> u16" where
  "irq_base i40e_iface = ei_base_qp i40e_iface * 2 + I40E_NUM_MISC_IRQS"

text \<open>The interrupts of the receive queues come first, then those of the transmit queues.\<close>

definition each_irq :: "(u16 \<Rightarrow> u16 \<Rightarrow> i40e \<Rightarrow> i40e) \<Rightarrow> (u16 \<Rightarrow> u16 \<Rightarrow> i40e \<Rightarrow> i40e) \<Rightarrow> i40e_iface \<Rightarrow> u32 \<Rightarrow> i40e \<Rightarrow> i40e" where
  "each_irq rx tx i40e_iface num_qps n =
     (let num = unat num_qps;
          n = fold (\<lambda>i. rx (ei_base_qp i40e_iface + of_nat i) (irq_base i40e_iface + of_nat i)) [0..<num] n;
          n = fold (\<lambda>i. tx (ei_base_qp i40e_iface + of_nat i) (irq_base i40e_iface + of_nat num + of_nat i)) [0..<num] n
      in i40e_flush n)"

definition i40e_vsi_configure_irq :: "nat \<Rightarrow> 'd ufp_iface \<Rightarrow> i40e \<Rightarrow> i40e option" where
  "i40e_vsi_configure_irq k iface n =
     do { i40e_iface \<leftarrow> drv_data k n;
          Some (each_irq (i40e_vsi_configure_irq_rx (if_irq_rate iface)) (i40e_vsi_configure_irq_tx (if_irq_rate iface))
            i40e_iface (if_num_qps iface) n) }"

definition i40e_vsi_shutdown_irq :: "nat \<Rightarrow> 'd ufp_iface \<Rightarrow> i40e \<Rightarrow> i40e option" where
  "i40e_vsi_shutdown_irq k iface n =
     do { i40e_iface \<leftarrow> drv_data k n;
          Some (each_irq i40e_vsi_shutdown_irq_rx i40e_vsi_shutdown_irq_tx i40e_iface (if_num_qps iface) n) }"

definition irq_ctl_all :: "u32 \<Rightarrow> i40e_iface \<Rightarrow> u32 \<Rightarrow> i40e \<Rightarrow> i40e" where
  "irq_ctl_all val i40e_iface num_qps n =
     i40e_flush (fold (\<lambda>i. UFP_WRITE32 (I40E_PFINT_DYN_CTLN (ucast (irq_base i40e_iface + of_nat i) - 1)) val) [0..<unat (num_qps * 2)] n)"

definition i40e_vsi_start_irq :: "nat \<Rightarrow> 'd ufp_iface \<Rightarrow> i40e \<Rightarrow> i40e option" where
  "i40e_vsi_start_irq k iface n =
     do { i40e_iface \<leftarrow> drv_data k n;
          Some (irq_ctl_all (I40E_PFINT_DYN_CTLN_INTENA_MASK OR I40E_PFINT_DYN_CTLN_CLEARPBA_MASK
            OR push_bit I40E_PFINT_DYN_CTLN_ITR_INDX_SHIFT I40E_ITR_NONE) i40e_iface (if_num_qps iface) n) }"

definition i40e_vsi_stop_irq :: "nat \<Rightarrow> 'd ufp_iface \<Rightarrow> i40e \<Rightarrow> i40e option" where
  "i40e_vsi_stop_irq k iface n =
     do { i40e_iface \<leftarrow> drv_data k n; Some (irq_ctl_all 0 i40e_iface (if_num_qps iface) n) }"

subsection \<open>Start and stop of the queues\<close>

text \<open>A queue is settled when the requested state is the reported one; the code goes on after 50 rounds anyway.\<close>

definition ena_settle :: "nat \<Rightarrow> nat \<Rightarrow> u32 \<Rightarrow> i40e \<Rightarrow> u32 \<times> i40e" where
  "ena_settle req_shift stat_shift reg n =
     (case poll_reg 50 0 reg (\<lambda>v. drop_bit req_shift v AND 1 = drop_bit stat_shift v AND 1) n of (_, v, n) \<Rightarrow> (v, n))"

definition start_rx_queue :: "u16 \<Rightarrow> i40e \<Rightarrow> bool \<times> i40e" where
  "start_rx_queue qp_idx n =
     (let reg = I40E_QRX_ENA (ucast qp_idx);
          (rx_reg, n) = ena_settle I40E_QRX_ENA_QENA_REQ_SHIFT I40E_QRX_ENA_QENA_STAT_SHIFT reg n
      in if rx_reg AND I40E_QRX_ENA_QENA_STAT_MASK \<noteq> 0 then (True, n)
         else let n = UFP_WRITE32 reg (rx_reg OR I40E_QRX_ENA_QENA_REQ_MASK) n;
                  (ok, v, n) = poll_reg I40E_QUEUE_WAIT_RETRY_LIMIT 0 reg (\<lambda>v. v AND I40E_QRX_ENA_QENA_STAT_MASK \<noteq> 0) n
              in (ok, n))"

definition stop_rx_queue :: "u16 \<Rightarrow> i40e \<Rightarrow> bool \<times> i40e" where
  "stop_rx_queue qp_idx n =
     (let reg = I40E_QRX_ENA (ucast qp_idx);
          (rx_reg, n) = ena_settle I40E_QRX_ENA_QENA_REQ_SHIFT I40E_QRX_ENA_QENA_STAT_SHIFT reg n
      in if rx_reg AND I40E_QRX_ENA_QENA_STAT_MASK = 0 then (True, n)
         else let n = UFP_WRITE32 reg (rx_reg AND NOT I40E_QRX_ENA_QENA_REQ_MASK) n;
                  (ok, v, n) = poll_reg I40E_QUEUE_WAIT_RETRY_LIMIT 0 reg (\<lambda>v. v AND I40E_QRX_ENA_QENA_STAT_MASK = 0) n
              in (ok, n))"

definition pre_tx_queue :: "u32 \<Rightarrow> u32 \<Rightarrow> i40e \<Rightarrow> i40e" where
  "pre_tx_queue flag qp_idx n =
     (case UFP_READ32 I40E_PFLAN_QALLOC n of (reg_val, n) \<Rightarrow>
        txpre_write (field reg_val I40E_PFLAN_QALLOC_FIRSTQ_MASK I40E_PFLAN_QALLOC_FIRSTQ_SHIFT + qp_idx) flag n)"

definition i40e_pre_tx_queue_enable :: "u32 \<Rightarrow> i40e \<Rightarrow> i40e" where
  "i40e_pre_tx_queue_enable = pre_tx_queue I40E_GLLAN_TXPRE_QDIS_CLEAR_QDIS_MASK"

definition i40e_pre_tx_queue_disable :: "u32 \<Rightarrow> i40e \<Rightarrow> i40e" where
  "i40e_pre_tx_queue_disable = pre_tx_queue I40E_GLLAN_TXPRE_QDIS_SET_QDIS_MASK"

definition start_tx_queue :: "u16 \<Rightarrow> i40e \<Rightarrow> bool \<times> i40e" where
  "start_tx_queue qp_idx n =
     (let n = i40e_pre_tx_queue_enable (ucast qp_idx) n;
          reg = I40E_QTX_ENA (ucast qp_idx);
          (tx_reg, n) = ena_settle I40E_QTX_ENA_QENA_REQ_SHIFT I40E_QTX_ENA_QENA_STAT_SHIFT reg n
      in if tx_reg AND I40E_QTX_ENA_QENA_STAT_MASK \<noteq> 0 then (True, n)
         else let n = UFP_WRITE32 (I40E_QTX_HEAD (ucast qp_idx)) 0 n;
                  n = UFP_WRITE32 reg (tx_reg OR I40E_QTX_ENA_QENA_REQ_MASK) n;
                  (ok, v, n) = poll_reg I40E_QUEUE_WAIT_RETRY_LIMIT 0 reg (\<lambda>v. v AND I40E_QTX_ENA_QENA_STAT_MASK \<noteq> 0) n
              in (ok, n))"

definition stop_tx_queue :: "u16 \<Rightarrow> i40e \<Rightarrow> bool \<times> i40e" where
  "stop_tx_queue qp_idx n =
     (let n = i40e_pre_tx_queue_disable (ucast qp_idx) n;
          reg = I40E_QTX_ENA (ucast qp_idx);
          (tx_reg, n) = ena_settle I40E_QTX_ENA_QENA_REQ_SHIFT I40E_QTX_ENA_QENA_STAT_SHIFT reg n
      in if tx_reg AND I40E_QTX_ENA_QENA_STAT_MASK = 0 then (True, n)
         else let n = UFP_WRITE32 reg (tx_reg AND NOT I40E_QTX_ENA_QENA_REQ_MASK) n;
                  (ok, v, n) = poll_reg I40E_QUEUE_WAIT_RETRY_LIMIT 0 reg (\<lambda>v. v AND I40E_QTX_ENA_QENA_STAT_MASK = 0) n
              in (ok, n))"

fun each_queue :: "(u16 \<Rightarrow> i40e \<Rightarrow> bool \<times> i40e) \<Rightarrow> nat \<Rightarrow> u16 \<Rightarrow> i40e \<Rightarrow> int \<times> i40e" where
  "each_queue f 0 qp_idx n = (0, n)"
| "each_queue f (Suc left) qp_idx n =
     (case f qp_idx n of (ok, n) \<Rightarrow> if ok then each_queue f left (qp_idx + 1) n else (-1, n))"

definition vsi_queues :: "(u16 \<Rightarrow> i40e \<Rightarrow> bool \<times> i40e) \<Rightarrow> nat \<Rightarrow> 'd ufp_iface \<Rightarrow> i40e \<Rightarrow> (int \<times> i40e) option" where
  "vsi_queues f k iface n =
     do { i40e_iface \<leftarrow> drv_data k n; Some (each_queue f (unat (if_num_qps iface)) (ei_base_qp i40e_iface) n) }"

definition i40e_vsi_start_rx :: "nat \<Rightarrow> 'd ufp_iface \<Rightarrow> i40e \<Rightarrow> (int \<times> i40e) option" where
  "i40e_vsi_start_rx = vsi_queues start_rx_queue"

definition i40e_vsi_stop_rx :: "nat \<Rightarrow> 'd ufp_iface \<Rightarrow> i40e \<Rightarrow> (int \<times> i40e) option" where
  "i40e_vsi_stop_rx = vsi_queues stop_rx_queue"

definition i40e_vsi_start_tx :: "nat \<Rightarrow> 'd ufp_iface \<Rightarrow> i40e \<Rightarrow> (int \<times> i40e) option" where
  "i40e_vsi_start_tx = vsi_queues start_tx_queue"

definition i40e_vsi_stop_tx :: "nat \<Rightarrow> 'd ufp_iface \<Rightarrow> i40e \<Rightarrow> (int \<times> i40e) option" where
  "i40e_vsi_stop_tx = vsi_queues stop_tx_queue"

end
