(* ===== verification/I40e_Hmc_Spec.thy ===== *)
theory I40e_Hmc_Spec
  imports I40e_Hmc I40e_Vsi
begin

text \<open>
  The contexts in the memory of the device: a context that is written is the bit string of its table, in its place, and nothing else
  of the memory changes; and the fields of the contexts that the driver makes keep to their widths.
\<close>

subsection \<open>Writing in front of other contexts\<close>

lemma hmc_write_loop_append:
  "hmc_write_loop sh pd pm data masks dst = Some dst' \<Longrightarrow> hmc_write_loop sh pd pm data masks (dst @ xs) = Some (dst' @ xs)"
  by (induction sh pd pm data masks dst arbitrary: dst' rule: hmc_write_loop.induct) (auto simp: Let_def split: Option.bind_splits)

lemma hmc_write_loop_total:
  "length masks = length data \<Longrightarrow> length data \<le> length dst \<Longrightarrow>
   \<exists>dst'. hmc_write_loop sh pd pm data masks dst = Some dst' \<and> length dst' = length dst"
proof (induction data arbitrary: pd pm masks dst)
  case (Cons d data)
  then obtain m ms x xs where m: "masks = m # ms" "dst = x # xs" "length ms = length data" "length data \<le> length xs" by (cases masks; cases dst) auto
  obtain dst' where "hmc_write_loop sh (drop_bit (8 - sh) d) (drop_bit (8 - sh) m) data ms xs = Some dst'" "length dst' = length xs"
    using Cons.IH [OF m(3,4)] by blast
  then show ?case using m by (simp add: Let_def)
qed simp

lemma hmc_write_append:
  assumes "i40e_hmc_write bits ce host = Some bits'" "unat (ce_lsb ce) div 8 \<le> length bits"
  shows "i40e_hmc_write (bits @ xs) ce host = Some (bits' @ xs)"
  using assms by (auto simp: i40e_hmc_write_def Let_def hmc_write_loop_append split: if_splits Option.bind_splits)

lemma hmc_write_total:
  assumes "ce_ok (length host) (length bits) ce"
  shows "\<exists>bits'. i40e_hmc_write bits ce host = Some bits' \<and> length bits' = length bits"
proof -
  let ?d = "unat (ce_lsb ce) div 8" and ?data = "take (ce_size_of ce) (drop (ce_offset ce) host)"
  have l: "length ?data = ce_size_of ce" "?d + ce_size_of ce \<le> length bits" using assms by (auto simp: ce_ok_def)
  then obtain ds where "hmc_write_loop (unat (ce_lsb ce) mod 8) 0 0 ?data (map (hmc_mask (ce_width ce)) [0..<ce_size_of ce]) (drop ?d bits) = Some ds"
      "length ds = length (drop ?d bits)"
    using hmc_write_loop_total [of "map (hmc_mask (ce_width ce)) [0..<ce_size_of ce]" ?data "drop ?d bits"] by fastforce
  then show ?thesis using l by (simp add: i40e_hmc_write_def Let_def)
qed

lemma hmc_write_all_total:
  assumes "ce_table (length host) (length bits) from ces"
  shows "\<exists>bits'. hmc_write_all ces host bits = Some bits' \<and> length bits' = length bits \<and>
    (\<forall>xs. hmc_write_all ces host (bits @ xs) = Some (bits' @ xs))"
  using assms
proof (induction "length host" "length bits" "from" ces arbitrary: bits rule: ce_table.induct)
  case (3 lo ce ce' ces)
  have t: "ce_width ce \<noteq> 0" "ce_ok (length host) (length bits) ce" "ce_table (length host) (length bits) (ce_top ce) (ce' # ces)"
    using "3.prems" by simp_all
  from hmc_write_total [OF t(2)] obtain b1 where b1: "i40e_hmc_write bits ce host = Some b1" "length b1 = length bits" by blast
  have "unat (ce_lsb ce) div 8 \<le> length bits" using t(2) by (simp add: ce_ok_def)
  note app = hmc_write_append [OF b1(1) this]
  from "3.hyps" [of b1] t(3) b1(2) obtain b2 where "hmc_write_all (ce' # ces) host b1 = Some b2" "length b2 = length b1"
      "\<forall>xs. hmc_write_all (ce' # ces) host (b1 @ xs) = Some (b2 @ xs)" by auto
  then show ?case using b1 t(1) app by simp
qed simp_all

subsection \<open>A context in its page\<close>

text \<open>The context of the queue has its place at \<open>off\<close> in the page, with room for a context of so many bytes.\<close>

definition ctx_place :: "i40e \<Rightarrow> i40e_hmc_obj \<Rightarrow> u16 \<Rightarrow> nat \<Rightarrow> addr \<Rightarrow> nat \<Rightarrow> bool" where
  "ctx_place n obj qp_idx len page off \<longleftrightarrow> i40e_hmc_va (ed_hmc n) obj qp_idx = Some (Some (page, off)) \<and>
     len \<le> unat (ho_size obj) \<and> off + unat (ho_size obj) \<le> length (nic_pages n page)"

definition ctx_stored :: "i40e \<Rightarrow> i40e_hmc_obj \<Rightarrow> addr \<Rightarrow> nat \<Rightarrow> u8 list \<Rightarrow> i40e" where
  "ctx_stored n obj page off bits =
     n\<lparr>nic_pages := (nic_pages n)(page := take off (nic_pages n page) @ bits @ drop (off + unat (ho_size obj)) (nic_pages n page))\<rparr>"

lemma hmc_set_ctx_total:
  assumes "ctx_place n obj q len page off" "ce_table (length ctx) (unat (ho_size obj)) 0 ces"
  shows "\<exists>bits. hmc_set_ctx ces ctx obj q n = Some (0, ctx_stored n obj page off bits) \<and> length bits = unat (ho_size obj) \<and>
    hmc_write_all ces ctx (replicate (unat (ho_size obj)) 0) = Some bits"
proof -
  let ?sz = "unat (ho_size obj)"
  obtain bits where b: "hmc_write_all ces ctx (replicate ?sz 0) = Some bits" "length bits = ?sz"
      "\<forall>xs. hmc_write_all ces ctx (replicate ?sz 0 @ xs) = Some (bits @ xs)"
    using hmc_write_all_total [of ctx "replicate ?sz 0" 0 ces] assms(2) by auto
  have "drop ?sz (drop off (nic_pages n page)) = drop (off + ?sz) (nic_pages n page)" by (simp add: add.commute)
  moreover have "\<not> length (nic_pages n page) - off < ?sz" using assms(1) by (simp add: ctx_place_def) linarith
  ultimately show ?thesis using b assms(1) by (simp add: hmc_set_ctx_def ctx_place_def ctx_stored_def Let_def)
qed

lemma hmc_set_ctx_image:
  assumes "ctx_place n obj q len page off" "ce_table (length ctx) (unat (ho_size obj)) 0 ces" "ctx_fits ces ctx"
  shows "\<exists>bits. hmc_set_ctx ces ctx obj q n = Some (0, ctx_stored n obj page off bits) \<and> length bits = unat (ho_size obj) \<and>
    (\<forall>k. lbit bits k = ctx_image ces ctx k)"
proof -
  obtain bits where b: "hmc_set_ctx ces ctx obj q n = Some (0, ctx_stored n obj page off bits)" "length bits = unat (ho_size obj)"
      "hmc_write_all ces ctx (replicate (unat (ho_size obj)) 0) = Some bits"
    using hmc_set_ctx_total [OF assms(1,2)] by blast
  have "\<forall>k. lbit bits k = ctx_image ces ctx k"
    using hmc_write_all_image [of ctx "replicate (unat (ho_size obj)) 0" 0 ces] assms(2,3) b(3) by simp
  with b show ?thesis by blast
qed

subsection \<open>Widths\<close>

lemma bit_above: "unat w < 2 ^ m \<Longrightarrow> m \<le> k \<Longrightarrow> \<not> bit w k" for w :: "'a :: len word"
proof
  assume "unat w < 2 ^ m" "m \<le> k" "bit w k"
  have "bit (unat w) k" using \<open>bit w k\<close> by (simp add: bit_unsigned_iff)
  then have "2 ^ k \<le> unat w" by (metis bit_nat_def div_less dvd_0_right linorder_not_le bit_iff_odd)
  moreover have "(2 :: nat) ^ m \<le> 2 ^ k" using \<open>m \<le> k\<close> by (intro power_increasing) simp_all
  ultimately show False using \<open>unat w < 2 ^ m\<close> by linarith
qed

text \<open>A field of the structure, and that it keeps to its width.\<close>

definition field_fits :: "i40e_hmc_ce \<Rightarrow> u8 list \<Rightarrow> bool" where
  "field_fits ce host \<longleftrightarrow> (\<forall>k. unat (ce_width ce) \<le> k \<longrightarrow> \<not> lbit (ce_bytes ce host) k)"

lemma ctx_fits_all: "list_all (\<lambda>ce. field_fits ce host) ces \<Longrightarrow> ctx_fits ces host"
  by (auto simp: ctx_fits_def field_fits_def list_all_iff)

lemma field_fits_le_of:
  "ce_bytes ce host = le_of m w \<Longrightarrow> unat w < 2 ^ unat (ce_width ce) \<Longrightarrow> field_fits ce host"
  by (auto simp: field_fits_def lbit_le_of bit_above)

lemma field_fits_byte:
  "ce_bytes ce host = [w] \<Longrightarrow> unat w < 2 ^ unat (ce_width ce) \<Longrightarrow> field_fits ce host"
  by (auto simp: field_fits_def lbit_Cons bit_above split: if_splits)

lemma field_fits_none: "ce_size_of ce = 0 \<Longrightarrow> field_fits ce host"
  by (simp add: field_fits_def ce_bytes_def)

lemma dma_div: "unat (a div 128 :: u64) < 2 ^ 57"
proof -
  have "unat a < 2 ^ LENGTH(64)" by (rule unsigned_less)
  then show ?thesis by (simp add: unat_div)
qed

text \<open>What the code checks of an interface before it makes the contexts of its receive queues.\<close>

lemma rx_checked:
  assumes "\<not> rx_buf_bad iface" "\<not> rx_mtu_bad iface"
  shows "unat (ucast (drop_bit I40E_RXQ_CTX_DBUFF_SHIFT (if_buf_size iface)) :: u16) < 2 ^ 7" "unat (if_mtu_frame iface) < 2 ^ 14"
proof -
  have "unat (if_buf_size iface) \<le> 16256"
    using assms(1) by (simp add: rx_buf_bad_def I40E_MAX_RX_BUFFER_def word_le_nat_alt linorder_not_less)
  then have "unat (drop_bit 7 (if_buf_size iface)) < 128" by (simp add: unat_drop_bit_eq drop_bit_eq_div unat_div)
  then show "unat (ucast (drop_bit I40E_RXQ_CTX_DBUFF_SHIFT (if_buf_size iface)) :: u16) < 2 ^ 7"
    by (simp add: I40E_RXQ_CTX_DBUFF_SHIFT_def unsigned_ucast_eq take_bit_nat_eq_self)
  have "if_mtu_frame iface \<le> I40E_MAX_MTU" using assms(2) by (auto simp: rx_mtu_bad_def min_def split: if_splits)
  then show "unat (if_mtu_frame iface) < 2 ^ 14" by (simp add: I40E_MAX_MTU_def word_le_nat_alt)
qed

lemma rx_ctx_fits:
  assumes "\<not> rx_buf_bad iface" "\<not> rx_mtu_bad iface" "unat (ucast (if_num_rx_desc iface) :: u16) < 2 ^ 13"
  shows "ctx_fits I40E_HMC_CE_RX (ctx_rx_bytes (rx_ctx iface ring))"
proof (rule ctx_fits_all)
  note w = rx_checked [OF assms(1,2)] assms(3) dma_div [of "ring_addr_dma ring"]
  show "list_all (\<lambda>ce. field_fits ce (ctx_rx_bytes (rx_ctx iface ring))) I40E_HMC_CE_RX"
    using w [THEN bit_above] bit_above [of "1 :: u8" 1] bit_above [of "2 :: u16" 3]
    by (simp add: I40E_HMC_CE_RX_def ctx_rx_bytes_def rx_ctx_def ctx_rx_zero_def field_fits_def ce_bytes_def lbit_le_of lbit_Cons)
qed

text \<open>The handle of the scheduler has 10 bits; it is what the device has reported, and the code does not check it.\<close>

lemma tx_ctx_fits:
  assumes "unat (ucast (if_num_tx_desc iface) :: u16) < 2 ^ 13" "unat (ei_qs_handles i40e_iface ! 0) < 2 ^ 10"
  shows "ctx_fits I40E_HMC_CE_TX (ctx_tx_bytes (tx_ctx i40e_iface iface ring))"
proof (rule ctx_fits_all)
  note w = assms dma_div [of "ring_addr_dma ring"]
  show "list_all (\<lambda>ce. field_fits ce (ctx_tx_bytes (tx_ctx i40e_iface iface ring))) I40E_HMC_CE_TX"
    using w [THEN bit_above] bit_above [of "1 :: u8" 1]
    by (simp add: I40E_HMC_CE_TX_def ctx_tx_bytes_def tx_ctx_def ctx_tx_zero_def field_fits_def ce_bytes_def lbit_le_of lbit_Cons)
qed

text \<open>C32. The context of a queue in the memory of the device is the one of the data sheet. When the context of a receive queue that
  passed the checks of the driver, or of a transmit queue with a handle of 10 bits, is written to its place, the call succeeds; the bytes of its place are
  afterwards the bit string in which every field of the table of the device has its place and width, and all
  other bits are 0, whatever was there before; and no byte outside of this place changes.\<close>

theorem queue_contexts_written:
  "(\<forall>iface ring. ctx_place n (hmc_obj_rx (ed_hmc n)) q 32 page off \<longrightarrow> \<not> rx_buf_bad iface \<longrightarrow> \<not> rx_mtu_bad iface \<longrightarrow>
      unat (ucast (if_num_rx_desc iface) :: u16) < 2 ^ 13 \<longrightarrow>
      (\<exists>bits. i40e_hmc_set_ctx_rx (rx_ctx iface ring) q n = Some (0, ctx_stored n (hmc_obj_rx (ed_hmc n)) page off bits) \<and>
         length bits = unat (ho_size (hmc_obj_rx (ed_hmc n))) \<and>
         (\<forall>k. lbit bits k = ctx_image I40E_HMC_CE_RX (ctx_rx_bytes (rx_ctx iface ring)) k))) \<and>
   (\<forall>iface ring i40e_iface. ctx_place n (hmc_obj_tx (ed_hmc n)) q 128 page off \<longrightarrow>
      unat (ucast (if_num_tx_desc iface) :: u16) < 2 ^ 13 \<longrightarrow> unat (ei_qs_handles i40e_iface ! 0) < 2 ^ 10 \<longrightarrow>
      (\<exists>bits. i40e_hmc_set_ctx_tx (tx_ctx i40e_iface iface ring) q n = Some (0, ctx_stored n (hmc_obj_tx (ed_hmc n)) page off bits) \<and>
         length bits = unat (ho_size (hmc_obj_tx (ed_hmc n))) \<and>
         (\<forall>k. lbit bits k = ctx_image I40E_HMC_CE_TX (ctx_tx_bytes (tx_ctx i40e_iface iface ring)) k)))"
  unfolding i40e_hmc_set_ctx_rx_def i40e_hmc_set_ctx_tx_def
  by (intro conjI allI impI; rule hmc_set_ctx_image, assumption; simp add: rx_ctx_fits tx_ctx_fits ce_tables ctx_place_def)

end
