(* ===== verification/I40e_Ops.thy ===== *)
theory I40e_Ops
  imports I40e_Vsi Ufp_Up
begin

text \<open>
  The operations that the i40e driver gives the library: \<open>i40e_up\<close> and \<open>i40e_down\<close> of \<open>dev/i40e/i40e_main.c\<close>, and
  \<open>dev/i40e/i40e_ops.c\<close>.
\<close>

subsection \<open>An interface up and down\<close>

definition i40e_up :: "nat \<Rightarrow> addr \<Rightarrow> 'd ufp_iface \<Rightarrow> i40e \<Rightarrow> os \<Rightarrow> (int \<times> 'd ufp_iface \<times> i40e \<times> os) option" where
  "i40e_up k bar iface n s =
     do { (err, n, s) \<leftarrow>
            and_then (i40e_vsi_update k iface n s) (\<lambda>n s.
            and_then (i40e_vsi_get k n s) (\<lambda>n s.
            and_then (i40e_vsi_rss_config k iface n s) (\<lambda>n s.
            i40e_vsi_promisc_mode k iface n s)));
          if err < 0 then Some (-1, iface, n, s)
          else do {
            (err, iface, n) \<leftarrow> i40e_vsi_configure_rx k bar iface n;
            if err < 0 then Some (-1, iface, n, s)
            else do {
              (err, iface, n) \<leftarrow> i40e_vsi_configure_tx k bar iface n;
              if err < 0 then Some (-1, iface, n, s)
              else do {
                n \<leftarrow> i40e_vsi_configure_irq k iface n;
                (err, n) \<leftarrow> i40e_vsi_start_rx k iface n;
                if err < 0 then do { n \<leftarrow> i40e_vsi_shutdown_irq k iface n; Some (-1, iface, n, s) }
                else do {
                  (err, n) \<leftarrow> i40e_vsi_start_tx k iface n;
                  if err < 0
                  then do { (_, n) \<leftarrow> i40e_vsi_stop_rx k iface n; n \<leftarrow> i40e_vsi_shutdown_irq k iface n; Some (-1, iface, n, s) }
                  else do { n \<leftarrow> i40e_vsi_start_irq k iface n; Some (0, iface, n, s) } } } } } }"

definition i40e_down :: "nat \<Rightarrow> 'd ufp_iface \<Rightarrow> i40e \<Rightarrow> (int \<times> i40e) option" where
  "i40e_down k iface n =
     do { n \<leftarrow> i40e_vsi_stop_irq k iface n;
          (err, n) \<leftarrow> i40e_vsi_stop_tx k iface n;
          if err < 0 then Some (-1, n)
          else do {
            (err, n) \<leftarrow> i40e_vsi_stop_rx k iface n;
            if err < 0 then Some (-1, n)
            else do { n \<leftarrow> i40e_vsi_shutdown_irq k iface n; Some (0, n) } } }"

subsection \<open>A device up and down\<close>

fun ops_up_loop ::
  "nat \<Rightarrow> addr \<Rightarrow> 'd ufp_iface list \<Rightarrow> i40e \<Rightarrow> os \<Rightarrow> (int \<times> 'd ufp_iface list \<times> i40e \<times> os) option" where
  "ops_up_loop k bar [] n s = Some (0, [], n, s)"
| "ops_up_loop k bar (iface # ifaces) n s =
     do { (err, iface, n, s) \<leftarrow> i40e_up k bar iface n s;
          if err < 0 then Some (-1, iface # ifaces, n, s)
          else do { (err, ifaces, n, s) \<leftarrow> ops_up_loop (k + 1) bar ifaces n s; Some (err, iface # ifaces, n, s) } }"

definition i40e_ops_up :: "i40e \<Rightarrow> 'd ufp_dev \<Rightarrow> os \<Rightarrow> (int \<times> i40e \<times> 'd ufp_dev \<times> os) option" where
  "i40e_ops_up n dev s =
     do { let n = i40e_setup_misc_irq n;
          let n = i40e_start_misc_irq n;
          (err, ifaces, n, s) \<leftarrow> ops_up_loop 0 (dev_bar dev) (dev_iface dev) n s;
          let dev = dev\<lparr>dev_iface := ifaces\<rparr>;
          if err < 0 then Some (-1, i40e_shutdown_misc_irq (i40e_stop_misc_irq n), dev, s)
          else Some (0, n, dev, s) }"

fun ops_down_loop :: "nat \<Rightarrow> 'd ufp_iface list \<Rightarrow> i40e \<Rightarrow> i40e option" where
  "ops_down_loop k [] n = Some n"
| "ops_down_loop k (iface # ifaces) n =
     do { (err, n) \<leftarrow> i40e_down k iface n; if err < 0 then Some n else ops_down_loop (k + 1) ifaces n }"

definition i40e_ops_down :: "i40e \<Rightarrow> 'd ufp_dev \<Rightarrow> i40e option" where
  "i40e_ops_down n dev =
     do { n \<leftarrow> ops_down_loop 0 (dev_iface dev) n; Some (i40e_shutdown_misc_irq (i40e_stop_misc_irq n)) }"

definition i40e_ops_open :: "i40e \<Rightarrow> 'd ufp_dev \<Rightarrow> os \<Rightarrow> (int \<times> i40e \<times> 'd ufp_dev \<times> os) option" where
  "i40e_ops_open n dev s = do { (err, n, dev, s) \<leftarrow> i40e_open n dev s; Some (if err < 0 then -1 else 0, n, dev, s) }"

definition i40e_ops_close :: "i40e \<Rightarrow> os \<Rightarrow> (i40e \<times> os) option" where
  "i40e_ops_close n s = i40e_close n s"

subsection \<open>The driver and its devices\<close>

text \<open>
  The structure of the driver is allocated when a device is found; nothing of it but the list of the elements is initialised. The
  functions of \<open>struct ufp_ops\<close> that move packets are \<open>i40e_ops\<close>.
\<close>

definition i40e_ops_init ::
  "i40e \<times> i40e_desc ufp_dev \<Rightarrow> i40e_desc ufp_ops \<Rightarrow> os \<Rightarrow> (int \<times> (i40e \<times> i40e_desc ufp_dev) \<times> i40e_desc ufp_ops \<times> os) option" where
  "i40e_ops_init x ops s =
     (case os_get Heap s of
        (None, s) \<Rightarrow> Some (-1, x, ops, s)
      | (Some p, s) \<Rightarrow> (case x of (n, dev) \<Rightarrow>
          Some (0, (n\<lparr>ed_ptr := p, ed_elem := []\<rparr>, dev\<lparr>dev_num_misc_irqs := ucast I40E_NUM_MISC_IRQS\<rparr>), i40e_ops, s)))"

definition i40e_ops_destroy ::
  "i40e \<times> i40e_desc ufp_dev \<Rightarrow> i40e_desc ufp_ops \<Rightarrow> os \<Rightarrow> ((i40e \<times> i40e_desc ufp_dev) \<times> i40e_desc ufp_ops \<times> os) option" where
  "i40e_ops_destroy x ops s = do { s \<leftarrow> os_put (Heap (ed_ptr (fst x))) s; Some (x, ops, s) }"

definition I40E_INTEL_VENDOR_ID :: u32 where "I40E_INTEL_VENDOR_ID = 0x8086"
definition I40E_DEV_ID_SFP_XL710 :: u32 where "I40E_DEV_ID_SFP_XL710 = 0x1572"
definition I40E_DEV_ID_QEMU :: u32 where "I40E_DEV_ID_QEMU = 0x1574"
definition I40E_DEV_ID_KX_B :: u32 where "I40E_DEV_ID_KX_B = 0x1580"
definition I40E_DEV_ID_KX_C :: u32 where "I40E_DEV_ID_KX_C = 0x1581"
definition I40E_DEV_ID_QSFP_A :: u32 where "I40E_DEV_ID_QSFP_A = 0x1583"
definition I40E_DEV_ID_QSFP_B :: u32 where "I40E_DEV_ID_QSFP_B = 0x1584"
definition I40E_DEV_ID_QSFP_C :: u32 where "I40E_DEV_ID_QSFP_C = 0x1585"
definition I40E_DEV_ID_10G_BASE_T :: u32 where "I40E_DEV_ID_10G_BASE_T = 0x1586"
definition I40E_DEV_ID_20G_KR2 :: u32 where "I40E_DEV_ID_20G_KR2 = 0x1587"
definition I40E_DEV_ID_20G_KR2_A :: u32 where "I40E_DEV_ID_20G_KR2_A = 0x1588"
definition I40E_DEV_ID_10G_BASE_T4 :: u32 where "I40E_DEV_ID_10G_BASE_T4 = 0x1589"
definition I40E_DEV_ID_KX_X722 :: u32 where "I40E_DEV_ID_KX_X722 = 0x37CE"
definition I40E_DEV_ID_QSFP_X722 :: u32 where "I40E_DEV_ID_QSFP_X722 = 0x37CF"
definition I40E_DEV_ID_SFP_X722 :: u32 where "I40E_DEV_ID_SFP_X722 = 0x37D0"
definition I40E_DEV_ID_1G_BASE_T_X722 :: u32 where "I40E_DEV_ID_1G_BASE_T_X722 = 0x37D1"
definition I40E_DEV_ID_10G_BASE_T_X722 :: u32 where "I40E_DEV_ID_10G_BASE_T_X722 = 0x37D2"
definition I40E_DEV_ID_SFP_I_X722 :: u32 where "I40E_DEV_ID_SFP_I_X722 = 0x37D3"
definition I40E_DEV_ID_QSFP_I_X722 :: u32 where "I40E_DEV_ID_QSFP_I_X722 = 0x37D4"

lemmas dev_id_defs =
  I40E_INTEL_VENDOR_ID_def I40E_DEV_ID_SFP_XL710_def I40E_DEV_ID_QEMU_def I40E_DEV_ID_KX_B_def I40E_DEV_ID_KX_C_def
  I40E_DEV_ID_QSFP_A_def I40E_DEV_ID_QSFP_B_def I40E_DEV_ID_QSFP_C_def I40E_DEV_ID_10G_BASE_T_def I40E_DEV_ID_20G_KR2_def
  I40E_DEV_ID_20G_KR2_A_def I40E_DEV_ID_10G_BASE_T4_def I40E_DEV_ID_KX_X722_def I40E_DEV_ID_QSFP_X722_def
  I40E_DEV_ID_SFP_X722_def I40E_DEV_ID_1G_BASE_T_X722_def I40E_DEV_ID_10G_BASE_T_X722_def I40E_DEV_ID_SFP_I_X722_def
  I40E_DEV_ID_QSFP_I_X722_def

definition device_pci_tbl :: "pci_id list" where
  "device_pci_tbl =
     map (\<lambda>d. \<lparr>id_vendor_id = I40E_INTEL_VENDOR_ID, id_device_id = d\<rparr>)
       [I40E_DEV_ID_SFP_XL710, I40E_DEV_ID_QEMU, I40E_DEV_ID_KX_B, I40E_DEV_ID_KX_C, I40E_DEV_ID_QSFP_A, I40E_DEV_ID_QSFP_B,
        I40E_DEV_ID_QSFP_C, I40E_DEV_ID_10G_BASE_T, I40E_DEV_ID_10G_BASE_T4, I40E_DEV_ID_20G_KR2, I40E_DEV_ID_20G_KR2_A,
        I40E_DEV_ID_KX_X722, I40E_DEV_ID_QSFP_X722, I40E_DEV_ID_SFP_X722, I40E_DEV_ID_1G_BASE_T_X722,
        I40E_DEV_ID_10G_BASE_T_X722, I40E_DEV_ID_SFP_I_X722, I40E_DEV_ID_QSFP_I_X722]
     @ [\<lparr>id_vendor_id = 0, id_device_id = 0\<rparr>]"

type_synonym i40e_x = "i40e \<times> i40e_desc ufp_dev"

definition i40e_driver ::
  "((i40e_x, i40e_desc ufp_ops) drv_fn, i40e_x \<Rightarrow> i40e_desc ufp_ops \<Rightarrow> os \<Rightarrow> (i40e_x \<times> i40e_desc ufp_ops \<times> os) option) pci_driver" where
  "i40e_driver = \<lparr>drv_id_table = device_pci_tbl, drv_init = i40e_ops_init, drv_destroy = i40e_ops_destroy\<rparr>"

text \<open>The constructor and the destructor of the library; a registration that failed is not noticed.\<close>

definition i40e_ops_load where
  "i40e_ops_load entries s = do { (err, entries, s) \<leftarrow> ufp_dev_register i40e_driver entries s; Some (entries, s) }"

definition i40e_ops_unload where
  "i40e_ops_unload entries s = ufp_dev_unregister i40e_driver entries s"

end
