(* ===== verification/I40e_Up_Spec.thy ===== *)
theory I40e_Up_Spec
  imports I40e_Cmd_Spec I40e_Hmc_Spec I40e_Ops Ufp_Up_Spec
begin

text \<open>
  What the driver promises the library when a device is brought up and down: both return, nothing of the device structure changes but the
  addresses of the tail registers, and nothing is held but the elements that the device has reported.
\<close>

subsection \<open>Registers\<close>

definition regs_only :: "i40e \<Rightarrow> i40e \<Rightarrow> bool" where
  "regs_only n n' \<longleftrightarrow> (\<exists>i w. n' = n\<lparr>nic_in := i, nic_out := w\<rparr>) \<and> reads_sub n n'"

lemma regs_only_refl: "regs_only n n"
  unfolding regs_only_def by (intro conjI exI [of _ "nic_in n"] exI [of _ "nic_out n"]) simp_all

lemma regs_only_trans: "regs_only n n1 \<Longrightarrow> regs_only n1 n2 \<Longrightarrow> regs_only n n2"
  unfolding regs_only_def by (fastforce dest: reads_sub_trans)

lemma regs_only_upd: "regs_only n0 n \<Longrightarrow> (\<And>r. sset (i r) \<subseteq> sset (nic_in n r)) \<Longrightarrow> regs_only n0 (n\<lparr>nic_in := i, nic_out := w\<rparr>)"
  by (rule regs_only_trans) (auto simp: regs_only_def reads_sub_def)

lemma regs_only_write: "regs_only n0 n \<Longrightarrow> regs_only n0 (UFP_WRITE32 reg v n)"
  using regs_only_upd [of n0 n "nic_in n" "nic_out n @ [(reg, v)]"] by (simp add: UFP_WRITE32_def)

lemma regs_only_read: "regs_only n0 n \<Longrightarrow> regs_only n0 (snd (UFP_READ32 reg n))"
proof -
  have "sset (((nic_in n)(reg := stl (nic_in n reg))) r) \<subseteq> sset (nic_in n r)" for r by (auto intro: stl_sset)
  moreover assume "regs_only n0 n"
  ultimately show ?thesis using regs_only_upd [of n0 n "(nic_in n)(reg := stl (nic_in n reg))" "nic_out n"] by (simp add: UFP_READ32_def)
qed

lemma regs_only_fold:
  assumes "\<And>x n. regs_only n0 n \<Longrightarrow> regs_only n0 (f x n)" "regs_only n0 n"
  shows "regs_only n0 (fold f xs n)"
  using assms(2) by (induction xs arbitrary: n) (simp_all add: assms(1))

lemma regs_only_flush: "regs_only n0 n \<Longrightarrow> regs_only n0 (i40e_flush n)"
  by (simp add: i40e_flush_def regs_only_read)

lemma regs_only_poll: "regs_only n0 n \<Longrightarrow> regs_only n0 (snd (snd (poll_reg t v reg ok n)))"
  by (induction t arbitrary: v n) (simp_all add: split_def regs_only_read)

lemmas regs_only_intros = regs_only_write regs_only_read regs_only_fold regs_only_flush regs_only_poll

lemma regs_only_settle: "regs_only n0 n \<Longrightarrow> regs_only n0 (snd (ena_settle a b reg n))"
  by (simp add: ena_settle_def split_def regs_only_poll)

lemma regs_only_misc:
  "regs_only n0 n \<Longrightarrow> regs_only n0 (i40e_setup_misc_irq n)" "regs_only n0 n \<Longrightarrow> regs_only n0 (i40e_start_misc_irq n)"
  "regs_only n0 n \<Longrightarrow> regs_only n0 (i40e_stop_misc_irq n)" "regs_only n0 n \<Longrightarrow> regs_only n0 (i40e_shutdown_misc_irq n)"
  unfolding i40e_setup_misc_irq_def i40e_start_misc_irq_def i40e_stop_misc_irq_def i40e_shutdown_misc_irq_def Let_def
  by (intro regs_only_intros; assumption)+

lemma regs_only_irq:
  "regs_only n0 n \<Longrightarrow> regs_only n0 (i40e_vsi_configure_irq_rx rate q i n)" "regs_only n0 n \<Longrightarrow> regs_only n0 (i40e_vsi_configure_irq_tx rate q i n)"
  "regs_only n0 n \<Longrightarrow> regs_only n0 (i40e_vsi_shutdown_irq_rx q i n)" "regs_only n0 n \<Longrightarrow> regs_only n0 (i40e_vsi_shutdown_irq_tx q i n)"
  unfolding i40e_vsi_configure_irq_rx_def i40e_vsi_configure_irq_tx_def i40e_vsi_shutdown_irq_rx_def i40e_vsi_shutdown_irq_tx_def
    irq_throttle_def lnklst_end_def Let_def split_def
  by (intro regs_only_intros; assumption)+

lemma regs_only_each_irq:
  assumes "\<And>q i n. regs_only n0 n \<Longrightarrow> regs_only n0 (rx q i n)" "\<And>q i n. regs_only n0 n \<Longrightarrow> regs_only n0 (tx q i n)" "regs_only n0 n"
  shows "regs_only n0 (each_irq rx tx i40e_iface num n)"
  unfolding each_irq_def Let_def by (intro regs_only_flush regs_only_fold assms)

lemma regs_only_queue:
  "regs_only n0 n \<Longrightarrow> regs_only n0 (snd (start_rx_queue q n))" "regs_only n0 n \<Longrightarrow> regs_only n0 (snd (stop_rx_queue q n))"
  "regs_only n0 n \<Longrightarrow> regs_only n0 (snd (start_tx_queue q n))" "regs_only n0 n \<Longrightarrow> regs_only n0 (snd (stop_tx_queue q n))"
  by (simp_all add: start_rx_queue_def stop_rx_queue_def start_tx_queue_def stop_tx_queue_def Let_def split_def regs_only_intros
      regs_only_settle i40e_pre_tx_queue_enable_def i40e_pre_tx_queue_disable_def pre_tx_queue_def txpre_write_def)

lemma each_queue_regs:
  assumes "\<And>q n. regs_only n0 n \<Longrightarrow> regs_only n0 (snd (f q n))" "regs_only n0 n"
  shows "\<exists>err n'. each_queue f t q n = (err, n') \<and> (err = 0 \<or> err = -1) \<and> regs_only n0 n'"
  using assms(2)
proof (induction t arbitrary: q n)
  case (Suc t)
  obtain ok n1 where f: "f q n = (ok, n1)" by fastforce
  then show ?case using Suc.IH [of n1] assms(1) [OF Suc.prems, of q] by simp
qed simp

lemma rsslut_reg_regs: "\<exists>err n'. i40e_set_rsslut_reg lut n = (err, n') \<and> (err = 0 \<or> err = -1) \<and> regs_only n n'"
  unfolding i40e_set_rsslut_reg_def by (simp add: regs_only_refl regs_only_fold regs_only_write del: upt_Suc)

lemma regs_only_step: "aq_inv n s \<Longrightarrow> regs_only n n' \<Longrightarrow> aq_step n s n' s"
  unfolding regs_only_def by (elim exE conjE) (rule aq_step_upd; simp add: core_def)

subsection \<open>Commands of an interface\<close>

lemma cmd_ok_error: "cmd_ok (\<lambda>n s. Some (-1, n, s))"
  by (simp add: cmd_ok_def aq_step_refl)

lemma rsskey_loop_ok: "cmd_ok (rsskey_loop left key)"
proof (induction left)
  case 0
  show ?case by (simp add: cmd_ok_def aq_step_refl)
next
  case (Suc left)
  have "rsskey_loop (Suc left) key = (\<lambda>n s. and_then (i40e_rxctl_write (I40E_PFQF_HKEY (of_nat (I40E_PFQF_HKEY_MAX_INDEX - left)))
      (le_bytes (take 4 (drop (4 * (I40E_PFQF_HKEY_MAX_INDEX - left)) key))) n s) (rsskey_loop left key))"
    by (intro ext) (simp add: Let_def)
  then show ?case using cmd_ok_then [OF cmds_ok(1) Suc.IH] by simp
qed

lemma rsskey_reg_ok: "cmd_ok (i40e_set_rsskey_reg key)"
  unfolding i40e_set_rsskey_reg_def [abs_def] using rsskey_loop_ok cmd_ok_error
  by (cases "length key = I40E_HKEY_ARRAY_SIZE") (simp_all del: rsskey_loop.simps)

lemma rsslut_reg_ok: "cmd_ok (\<lambda>n s. case i40e_set_rsslut_reg lut n of (err, n) \<Rightarrow> Some (err, n, s))"
  unfolding cmd_ok_def
proof (intro allI impI)
  fix n s assume "aq_inv n s"
  moreover obtain err n' where "i40e_set_rsslut_reg lut n = (err, n')" "err = 0 \<or> err = -1" "regs_only n n'" using rsslut_reg_regs by blast
  ultimately show "\<exists>ret n' s'. (case i40e_set_rsslut_reg lut n of (err, n) \<Rightarrow> Some (err, n, s)) = Some (ret, n', s') \<and> (ret = 0 \<or> ret = -1) \<and> aq_step n s n' s'"
    using regs_only_step by simp
qed

lemma rss_command_ok:
  assumes "req_ok req" "cmd_ok set_reg"
  shows "cmd_ok (rss_command req set_reg)"
  unfolding cmd_ok_def
proof (intro allI impI)
  fix n s assume inv: "aq_inv n s"
  from inv assms(1) show "\<exists>ret n' s'. rss_command req set_reg n s = Some (ret, n', s') \<and> (ret = 0 \<or> ret = -1) \<and> aq_step n s n' s'"
  proof (cases rule: session_run)
    case none
    then show ?thesis by (simp add: rss_command_def)
  next
    case (answer p n1 s1 n2 err n3 s3)
    obtain x where x: "session_find p n3 = Some x" "aq_step n3 s3 n3 s3" using sess_doneD [OF answer(6)] .
    define m where "m = (if err < 0 then Some (-1, n3, s3)
                 else if aqs_retval x \<noteq> I40E_AQ_RC_OK \<and> aqs_retval x \<noteq> I40E_AQ_RC_ESRCH then Some (-1, n3, s3)
                 else if aqs_retval x = I40E_AQ_RC_ESRCH then set_reg n3 s3
                 else Some (0, n3, s3))"
    obtain err2 n4 s4 where r: "set_reg n3 s3 = Some (err2, n4, s4)" "aq_step n3 s3 n4 s4"
      using cmd_okD [OF assms(2) aq_step_inv [OF x(2)]] by metis
    have "\<exists>err4 n4 s4. m = Some (err4, n4, s4) \<and> aq_step n3 s3 n4 s4" using r x(2) by (simp add: m_def)
    then obtain err4 n4 s4 where m: "m = Some (err4, n4, s4)" "aq_step n3 s3 n4 s4" by blast
    obtain n5 s5 where "i40e_aq_session_delete p n4 s4 = Some (n5, s5)" "aq_step n s n5 s5" using sess_done_end [OF answer(6) m(2)] .
    then show ?thesis using answer(1-3) x(1) m(1) unfolding rss_command_def m_def by simp
  qed
qed

lemma put_bytes_length: "off + length bs \<le> length xs \<Longrightarrow> length (put_bytes off bs xs) = length xs"
  by (simp add: put_bytes_def)

lemma tc_mapping_length: "length (tc_mapping_loop t i off q) = t"
  by (induction t arbitrary: i off) (simp_all add: Let_def)

lemma vsi_data_length: "length (vsi_data i q n) = sizeof_i40e_aq_buf_vsi_data"
proof -
  have "length (concat (map (le_of 2) ws)) = 2 * length ws" for ws :: "u16 list" by (induction ws) simp_all
  then show ?thesis
    by (simp add: vsi_data_def put_bytes_length tc_mapping_length sizeof_i40e_aq_buf_vsi_data_def I40E_MAX_TRAFFIC_CLASS_def)
qed

lemma rss_sizes:
  "length (concat (map (le_of 4) rss_seed)) \<le> I40E_MAX_AQ_BUF_SIZE" "length (rss_lut q) \<le> I40E_MAX_AQ_BUF_SIZE"
  by (simp_all add: rss_seed_def rss_lut_def I40E_MAX_AQ_BUF_SIZE_def I40E_HLUT_ARRAY_SIZE_def I40E_PFQF_HLUT_MAX_INDEX_def)

lemma drv_data_Some: "k < length (ed_ifaces n) \<Longrightarrow> drv_data k n = Some (snd (ed_ifaces n ! k))"
  by (simp add: drv_data_def)

text \<open>A function of an interface: it needs the data of the driver.\<close>

definition vsi_cmd_ok :: "nat \<Rightarrow> (i40e \<Rightarrow> os \<Rightarrow> (int \<times> i40e \<times> os) option) \<Rightarrow> bool" where
  "vsi_cmd_ok k f \<longleftrightarrow> (\<forall>n s. aq_inv n s \<longrightarrow> k < length (ed_ifaces n) \<longrightarrow>
     (\<exists>ret n' s'. f n s = Some (ret, n', s') \<and> (ret = 0 \<or> ret = -1) \<and> aq_step n s n' s'))"

lemma aq_step_ifaces: "aq_step n s n' s' \<Longrightarrow> map iface_core (ed_ifaces n') = map iface_core (ed_ifaces n)"
  by (simp add: aq_step_def core_def)

lemma cmd_ok_at: "cmd_ok f \<Longrightarrow> aq_inv n s \<Longrightarrow> \<exists>ret n' s'. f n s = Some (ret, n', s') \<and> (ret = 0 \<or> ret = -1) \<and> aq_step n s n' s'"
  by (simp add: cmd_ok_def)

lemma vsi_cmd_ok_then:
  assumes "vsi_cmd_ok k f" "vsi_cmd_ok k g"
  shows "vsi_cmd_ok k (\<lambda>n s. and_then (f n s) g)"
  unfolding vsi_cmd_ok_def
proof (intro allI impI)
  fix n s assume a: "aq_inv n s" "k < length (ed_ifaces n)"
  obtain ret n1 s1 where f: "f n s = Some (ret, n1, s1)" "ret = 0 \<or> ret = -1" "aq_step n s n1 s1" using assms(1) a unfolding vsi_cmd_ok_def by blast
  have "k < length (ed_ifaces n1)" using a(2) map_eq_imp_length_eq [OF aq_step_ifaces [OF f(3)]] by simp
  then obtain ret2 n2 s2 where g: "g n1 s1 = Some (ret2, n2, s2)" "ret2 = 0 \<or> ret2 = -1" "aq_step n1 s1 n2 s2"
    using assms(2) aq_step_inv [OF f(3)] unfolding vsi_cmd_ok_def by blast
  then show "\<exists>ret n' s'. and_then (f n s) g = Some (ret, n', s') \<and> (ret = 0 \<or> ret = -1) \<and> aq_step n s n' s'"
    using f aq_step_trans [OF f(3) g(3)] by (auto simp: and_then_def)
qed

lemma vsi_cmds_ok:
  "vsi_cmd_ok k (i40e_vsi_update k iface)" "vsi_cmd_ok k (i40e_vsi_get k)" "vsi_cmd_ok k (i40e_vsi_promisc_mode k iface)"
  "vsi_cmd_ok k (i40e_set_rsskey k (concat (map (le_of 4) rss_seed)))" "vsi_cmd_ok k (i40e_set_rsslut k (rss_lut q))"
  unfolding vsi_cmd_ok_def i40e_vsi_update_def i40e_vsi_get_def i40e_vsi_promisc_mode_def Let_def i40e_set_rsskey_def i40e_set_rsslut_def
  by (intro allI impI; simp only: drv_data_Some Option.bind.bind_lunit; intro cmd_ok_at cmd_ok_simple rss_command_ok req_ok_simple req_ok_data
      vsi_data_length rss_sizes rsskey_reg_ok rsslut_reg_ok; assumption)+

lemma rss_config_ok:
  assumes "if_num_qps iface \<noteq> 0"
  shows "vsi_cmd_ok k (i40e_vsi_rss_config k iface)"
proof -
  have "vsi_cmd_ok k (\<lambda>n s. Some (0, n, s))" by (simp add: vsi_cmd_ok_def aq_step_refl)
  from vsi_cmd_ok_then [OF vsi_cmds_ok(4) vsi_cmd_ok_then [OF vsi_cmds_ok(5) this]] show ?thesis
    unfolding i40e_vsi_rss_config_def [abs_def] using assms by simp
qed

subsection \<open>Steps of the driver\<close>

text \<open>Unlike a command a step of the driver may write contexts.\<close>

definition drv_core where
  "drv_core n = (ed_ptr n, ed_hmc n, ed_rx_ring n, map aqs_ptr (ed_session n), map iface_core (ed_ifaces n), map_option ring_core (ed_tx_ring n))"

definition drv_step :: "i40e \<Rightarrow> os \<Rightarrow> i40e \<Rightarrow> os \<Rightarrow> bool" where
  "drv_step n s n' s' \<longleftrightarrow> drv_core n' = drv_core n \<and> (\<forall>p. length (nic_pages n' p) = length (nic_pages n p)) \<and> aq_inv n' s' \<and> reads_sub n n' \<and>
     (\<exists>new. ed_elem n' = ed_elem n @ new \<and> holds s (elem_res new) s')"

lemma drv_step_aq: "aq_step n s n' s' \<Longrightarrow> drv_step n s n' s'"
  by (auto simp: aq_step_def drv_step_def core_def drv_core_def)

lemma drv_step_trans: "drv_step n s n1 s1 \<Longrightarrow> drv_step n1 s1 n2 s2 \<Longrightarrow> drv_step n s n2 s2"
  unfolding drv_step_def by (auto dest: holds_trans intro: reads_sub_trans)

lemma drv_step_inv: "drv_step n s n' s' \<Longrightarrow> aq_inv n' s'"
  by (simp add: drv_step_def)

lemma drv_step_regs: "aq_inv n s \<Longrightarrow> regs_only n n' \<Longrightarrow> drv_step n s n' s"
  by (rule drv_step_aq [OF regs_only_step])

lemma drv_step_then_regs: "drv_step n s n1 s1 \<Longrightarrow> regs_only n1 n2 \<Longrightarrow> drv_step n s n2 s1"
  using drv_step_trans drv_step_regs drv_step_inv by blast

lemma drv_step_length: "drv_step n s n' s' \<Longrightarrow> length (ed_ifaces n') = length (ed_ifaces n)"
  unfolding drv_step_def drv_core_def using map_eq_imp_length_eq by blast

lemma drv_step_iface:
  assumes "drv_step n s n' s'" "k < length (ed_ifaces n)"
  shows "ei_base_qp (snd (ed_ifaces n' ! k)) = ei_base_qp (snd (ed_ifaces n ! k))"
proof -
  have "map iface_core (ed_ifaces n') ! k = map iface_core (ed_ifaces n) ! k" using assms(1) by (simp add: drv_step_def drv_core_def)
  then have "iface_core (ed_ifaces n' ! k) = iface_core (ed_ifaces n ! k)" using assms drv_step_length [OF assms(1)] by simp
  then show ?thesis by (cases "snd (ed_ifaces n' ! k)"; cases "snd (ed_ifaces n ! k)") (simp add: iface_core_def)
qed

text \<open>The places of the contexts of an interface are there, and it has its rings.\<close>

definition queues_placed :: "i40e \<Rightarrow> u16 \<Rightarrow> nat \<Rightarrow> bool" where
  "queues_placed n base num \<longleftrightarrow> (\<forall>i<num. (\<exists>page off. ctx_place n (hmc_obj_rx (ed_hmc n)) (base + of_nat i) 32 page off) \<and>
     (\<exists>page off. ctx_place n (hmc_obj_tx (ed_hmc n)) (base + of_nat i) 128 page off))"

definition vsi_ready :: "i40e \<Rightarrow> nat \<Rightarrow> 'd ufp_iface \<Rightarrow> bool" where
  "vsi_ready n k iface \<longleftrightarrow> k < length (ed_ifaces n) \<and> if_num_qps iface \<noteq> 0 \<and> unat (if_num_qps iface) \<le> length (snd (if_rx_ring iface)) \<and>
     unat (if_num_qps iface) \<le> length (snd (if_tx_ring iface)) \<and>
     queues_placed n (ei_base_qp (snd (ed_ifaces n ! k))) (unat (if_num_qps iface))"

lemma queues_placed_step: "drv_step n s n' s' \<Longrightarrow> queues_placed n' base num = queues_placed n base num"
  by (simp add: queues_placed_def ctx_place_def drv_step_def drv_core_def)

lemma vsi_ready_step: "drv_step n s n' s' \<Longrightarrow> vsi_ready n k iface \<Longrightarrow> vsi_ready n' k iface"
  by (simp add: vsi_ready_def drv_step_length drv_step_iface queues_placed_step)

lemma ctx_stored_step:
  assumes "aq_inv n s" "ctx_place n obj q len page off" "length bits = unat (ho_size obj)"
  shows "drv_step n s (ctx_stored n obj page off bits) s"
  using assms by (auto simp: drv_step_def drv_core_def ctx_stored_def ctx_place_def aq_inv_def)

lemma set_ctx_step:
  assumes "aq_inv n s" "queues_placed n base num" "i < num"
  shows "\<exists>n'. i40e_hmc_set_ctx_rx crx (base + of_nat i) n = Some (0, n') \<and> drv_step n s n' s"
    and "\<exists>n'. i40e_hmc_set_ctx_tx ctx (base + of_nat i) n = Some (0, n') \<and> drv_step n s n' s"
proof -
  let ?q = "base + of_nat i"
  obtain p1 o1 p2 o2 where pl: "ctx_place n (hmc_obj_rx (ed_hmc n)) ?q 32 p1 o1" "ctx_place n (hmc_obj_tx (ed_hmc n)) ?q 128 p2 o2"
    using assms(2,3) unfolding queues_placed_def by blast
  have sz: "32 \<le> unat (ho_size (hmc_obj_rx (ed_hmc n)))" "128 \<le> unat (ho_size (hmc_obj_tx (ed_hmc n)))" using pl by (simp_all add: ctx_place_def)
  have l: "length (ctx_rx_bytes crx) = 48" "length (ctx_tx_bytes ctx) = 48" by (simp_all add: ctx_rx_bytes_def ctx_tx_bytes_def)
  show "\<exists>n'. i40e_hmc_set_ctx_rx crx ?q n = Some (0, n') \<and> drv_step n s n' s"
    using hmc_set_ctx_total [OF pl(1), of "ctx_rx_bytes crx" I40E_HMC_CE_RX] ce_tables(1) [OF sz(1)] l(1) ctx_stored_step [OF assms(1) pl(1)]
    unfolding i40e_hmc_set_ctx_rx_def by auto
  show "\<exists>n'. i40e_hmc_set_ctx_tx ctx ?q n = Some (0, n') \<and> drv_step n s n' s"
    using hmc_set_ctx_total [OF pl(2), of "ctx_tx_bytes ctx" I40E_HMC_CE_TX] ce_tables(2) [OF sz(2)] l(2) ctx_stored_step [OF assms(1) pl(2)]
    unfolding i40e_hmc_set_ctx_tx_def by auto
qed

subsection \<open>Queues\<close>

lemma rings_tailed_trans: "list_all2 ring_tailed a b \<Longrightarrow> list_all2 ring_tailed b c \<Longrightarrow> list_all2 ring_tailed a c"
  by (rule list_all2_trans [of ring_tailed ring_tailed ring_tailed]) (auto simp: ring_tailed_def)

lemma rings_tailed_update: "list_all2 ring_tailed rs (rs[i := (fst (rs ! i), (snd (rs ! i))\<lparr>tail := a\<rparr>)])"
proof (cases "i < length rs")
  case True
  have "ring_tailed (rs ! i) (fst (rs ! i), (snd (rs ! i))\<lparr>tail := a\<rparr>)" unfolding ring_tailed_def by blast
  then show ?thesis using list_all2_update_cong [OF rings_tailed_refl, of "rs ! i" _ rs i] by simp
qed (simp add: rings_tailed_refl list_update_beyond)

text \<open>The tail registers of the queues from \<open>i\<close> to \<open>to\<close>.\<close>

definition tails_set :: "(u32 \<Rightarrow> u32) \<Rightarrow> addr \<Rightarrow> u16 \<Rightarrow> nat \<Rightarrow> nat \<Rightarrow> (nat \<times> 'd ufp_ring) list \<Rightarrow> bool" where
  "tails_set reg bar base i to rings \<longleftrightarrow> (\<forall>j. i \<le> j \<longrightarrow> j < to \<longrightarrow> tail (snd (rings ! j)) = bar + unat (reg (ucast (base + of_nat j))))"

text \<open>What both loops over the queues do, and the step from one round to the loop.\<close>

definition conf_done where
  "conf_done reg bar base i to n s rings res \<longleftrightarrow> (\<exists>ret rings' n'. res = Some (ret, rings', n') \<and> (ret = (0 :: int) \<or> ret = -1) \<and>
     drv_step n s n' s \<and> list_all2 ring_tailed rings rings' \<and> take i rings' = take i rings \<and> (ret = 0 \<longrightarrow> tails_set reg bar base i to rings'))"

lemma conf_done_step:
  assumes "conf_done reg bar base (i + 1) to n1 s rings1 res" "drv_step n s n1 s" "i < length rings"
    and "rings1 = rings[i := (fst (rings ! i), (snd (rings ! i))\<lparr>tail := bar + unat (reg (ucast (base + of_nat i)))\<rparr>)]"
  shows "conf_done reg bar base i to n s rings res"
proof -
  obtain ret rings' n' where r: "res = Some (ret, rings', n')" "ret = 0 \<or> ret = -1" "drv_step n1 s n' s" "list_all2 ring_tailed rings1 rings'"
      "take (i + 1) rings' = take (i + 1) rings1" "ret = 0 \<longrightarrow> tails_set reg bar base (i + 1) to rings'"
    using assms(1) unfolding conf_done_def by blast
  have l: "length rings' = length rings" using list_all2_lengthD [OF r(4)] assms(4) by simp
  have "take i (take (i + 1) rings') = take i (take (i + 1) rings1)" using r(5) by simp
  then have pre: "take i rings' = take i rings" using assms(4) by simp
  have "take (i + 1) rings' ! i = take (i + 1) rings1 ! i" using r(5) by simp
  then have at: "rings' ! i = rings1 ! i" by simp
  have "tails_set reg bar base i to rings'" if "ret = 0"
    unfolding tails_set_def
  proof (intro allI impI)
    fix j assume "i \<le> j" "j < to"
    then show "tail (snd (rings' ! j)) = bar + unat (reg (ucast (base + of_nat j)))"
      using r(6) that at assms(3,4) by (cases "j = i") (simp_all add: tails_set_def)
  qed
  then show ?thesis
    using r(1,2) drv_step_trans [OF assms(2) r(3)] rings_tailed_trans [OF _ r(4)] rings_tailed_update [of rings i] assms(4) pre
    unfolding conf_done_def by blast
qed

lemma conf_done_stop: "aq_inv n s \<Longrightarrow> (ret = 0 \<and> to \<le> i \<or> ret = -1) \<Longrightarrow> conf_done reg bar base i to n s rings (Some (ret, rings, n))"
  by (auto simp: conf_done_def rings_tailed_refl tails_set_def drv_step_aq aq_step_refl)

lemma loop_prems:
  assumes "drv_step n s n' s'" "k < length (ed_ifaces n)" "base = ei_base_qp (snd (ed_ifaces n ! k))" "queues_placed n base (i + Suc left)"
  shows "k < length (ed_ifaces n')" "base = ei_base_qp (snd (ed_ifaces n' ! k))" "queues_placed n' base (Suc (i + left))"
  using assms drv_step_length [OF assms(1)] drv_step_iface [OF assms(1,2)] queues_placed_step [OF assms(1)] by simp_all

lemma configure_rx_step:
  assumes "aq_inv n s" "k < length (ed_ifaces n)" "base = ei_base_qp (snd (ed_ifaces n ! k))" "queues_placed n base (i + left)" "i + left \<le> length rings"
  shows "conf_done I40E_QRX_TAIL bar base i (i + left) n s rings (configure_rx_loop k bar iface left i rings n)"
  using assms
proof (induction left arbitrary: i rings n)
  case 0
  then show ?case by (simp add: conf_done_stop)
next
  case (Suc left)
  show ?case
  proof (cases "rx_buf_bad iface \<or> rx_mtu_bad iface")
    case True
    then show ?thesis using Suc.prems by (simp add: drv_data_Some conf_done_stop)
  next
    case False
    obtain n1 where n1: "i40e_hmc_set_ctx_rx (rx_ctx iface (snd (rings ! i))) (base + of_nat i) n = Some (0, n1)" "drv_step n s n1 s"
      using set_ctx_step(1) [OF Suc.prems(1,4), of i] by auto
    let ?n = "UFP_WRITE32 (I40E_QRX_TAIL (ucast (base + of_nat i))) 0 n1"
      and ?rs = "rings[i := (fst (rings ! i), (snd (rings ! i))\<lparr>tail := bar + unat (I40E_QRX_TAIL (ucast (base + of_nat i)))\<rparr>)]"
    have st: "drv_step n s ?n s" by (rule drv_step_then_regs [OF n1(2) regs_only_write [OF regs_only_refl]])
    have "conf_done I40E_QRX_TAIL bar base (i + 1) (i + 1 + left) ?n s ?rs (configure_rx_loop k bar iface left (i + 1) ?rs ?n)"
      using loop_prems [OF st Suc.prems(2-4)] Suc.prems(5) by (intro Suc.IH drv_step_inv [OF st]) simp_all
    from conf_done_step [OF this st] show ?thesis using Suc.prems False n1(1) by (simp add: drv_data_Some Let_def)
  qed
qed

lemma handles_nonempty: "aq_inv n s \<Longrightarrow> k < length (ed_ifaces n) \<Longrightarrow> ei_qs_handles (snd (ed_ifaces n ! k)) \<noteq> []"
  by (auto simp: aq_inv_def list_all_iff)

lemma configure_tx_step:
  assumes "aq_inv n s" "k < length (ed_ifaces n)" "base = ei_base_qp (snd (ed_ifaces n ! k))" "queues_placed n base (i + left)" "i + left \<le> length rings"
  shows "conf_done I40E_QTX_TAIL bar base i (i + left) n s rings (configure_tx_loop k bar iface left i rings n)"
  using assms
proof (induction left arbitrary: i rings n)
  case 0
  then show ?case by (simp add: conf_done_stop)
next
  case (Suc left)
  let ?ei = "snd (ed_ifaces n ! k)"
  obtain n1 where n1: "i40e_hmc_set_ctx_tx (tx_ctx ?ei iface (snd (rings ! i))) (base + of_nat i) n = Some (0, n1)" "drv_step n s n1 s"
    using set_ctx_step(2) [OF Suc.prems(1,4), of i] by auto
  let ?v = "I40E_QTX_CTL_PF_QUEUE OR (push_bit I40E_QTX_CTL_PF_INDX_SHIFT (ucast (ed_pf_id n1)) AND I40E_QTX_CTL_PF_INDX_MASK)"
  let ?n = "i40e_flush (UFP_WRITE32 (I40E_QTX_CTL (ucast (base + of_nat i))) ?v n1)"
    and ?rs = "rings[i := (fst (rings ! i), (snd (rings ! i))\<lparr>tail := bar + unat (I40E_QTX_TAIL (ucast (base + of_nat i)))\<rparr>)]"
  have st: "drv_step n s ?n s" by (rule drv_step_then_regs [OF n1(2)]) (intro regs_only_intros regs_only_refl)
  have "conf_done I40E_QTX_TAIL bar base (i + 1) (i + 1 + left) ?n s ?rs (configure_tx_loop k bar iface left (i + 1) ?rs ?n)"
    using loop_prems [OF st Suc.prems(2-4)] Suc.prems(5) by (intro Suc.IH drv_step_inv [OF st]) simp_all
  from conf_done_step [OF this st] show ?case
    using Suc.prems n1(1) handles_nonempty [OF Suc.prems(1,2)] by (simp add: drv_data_Some Let_def)
qed

lemma vsi_irq_regs:
  assumes "k < length (ed_ifaces n)"
  shows "\<exists>n'. i40e_vsi_configure_irq k iface n = Some n' \<and> regs_only n n'" "\<exists>n'. i40e_vsi_shutdown_irq k iface n = Some n' \<and> regs_only n n'"
    "\<exists>n'. i40e_vsi_start_irq k iface n = Some n' \<and> regs_only n n'" "\<exists>n'. i40e_vsi_stop_irq k iface n = Some n' \<and> regs_only n n'"
  using assms
  by (auto simp: i40e_vsi_configure_irq_def i40e_vsi_shutdown_irq_def i40e_vsi_start_irq_def i40e_vsi_stop_irq_def drv_data_Some irq_ctl_all_def
      intro!: regs_only_each_irq regs_only_irq regs_only_intros regs_only_refl)

lemma vsi_queues_regs:
  assumes "k < length (ed_ifaces n)" "f \<in> {start_rx_queue, stop_rx_queue, start_tx_queue, stop_tx_queue}"
  shows "\<exists>err n'. vsi_queues f k iface n = Some (err, n') \<and> (err = 0 \<or> err = -1) \<and> regs_only n n'"
proof -
  have "\<And>n0 q n. regs_only n0 n \<Longrightarrow> regs_only n0 (snd (f q n))" using assms(2) regs_only_queue by auto
  from each_queue_regs [OF this regs_only_refl] show ?thesis using assms(1) by (fastforce simp: vsi_queues_def drv_data_Some)
qed

lemma regs_only_length: "regs_only n n' \<Longrightarrow> length (ed_ifaces n') = length (ed_ifaces n)"
  by (auto simp: regs_only_def)

subsection \<open>Down\<close>

lemma i40e_down_regs:
  assumes "k < length (ed_ifaces n)"
  shows "\<exists>ret n'. i40e_down k iface n = Some (ret, n') \<and> (ret = 0 \<or> ret = -1) \<and> regs_only n n'"
proof -
  obtain n1 where 1: "i40e_vsi_stop_irq k iface n = Some n1" "regs_only n n1" using vsi_irq_regs(4) [OF assms] by blast
  have k1: "k < length (ed_ifaces n1)" using assms regs_only_length [OF 1(2)] by simp
  obtain e2 n2 where 2: "vsi_queues stop_tx_queue k iface n1 = Some (e2, n2)" "e2 = 0 \<or> e2 = -1" "regs_only n1 n2" using vsi_queues_regs [OF k1] by blast
  have k2: "k < length (ed_ifaces n2)" using k1 regs_only_length [OF 2(3)] by simp
  obtain e3 n3 where 3: "vsi_queues stop_rx_queue k iface n2 = Some (e3, n3)" "e3 = 0 \<or> e3 = -1" "regs_only n2 n3" using vsi_queues_regs [OF k2] by blast
  have k3: "k < length (ed_ifaces n3)" using k2 regs_only_length [OF 3(3)] by simp
  obtain n4 where 4: "i40e_vsi_shutdown_irq k iface n3 = Some n4" "regs_only n3 n4" using vsi_irq_regs(2) [OF k3] by blast
  note r2 = regs_only_trans [OF 1(2) 2(3)] and r3 = regs_only_trans [OF regs_only_trans [OF 1(2) 2(3)] 3(3)]
  show ?thesis using 1 2 3 4 r2 r3 regs_only_trans [OF r3 4(2)] by (auto simp: i40e_down_def i40e_vsi_stop_tx_def i40e_vsi_stop_rx_def)
qed

lemma ops_down_loop_regs:
  "k + length ifaces \<le> length (ed_ifaces n) \<Longrightarrow> \<exists>n'. ops_down_loop k ifaces n = Some n' \<and> regs_only n n'"
proof (induction ifaces arbitrary: k n)
  case Nil
  then show ?case by (simp add: regs_only_refl)
next
  case (Cons iface ifaces)
  obtain ret n1 where d: "i40e_down k iface n = Some (ret, n1)" "ret = 0 \<or> ret = -1" "regs_only n n1" using i40e_down_regs [of k n iface] Cons.prems by auto
  then have "(k + 1) + length ifaces \<le> length (ed_ifaces n1)" using Cons.prems regs_only_length by simp
  from Cons.IH [OF this] show ?case using d regs_only_trans [OF d(3)] by auto
qed

subsection \<open>Up\<close>

text \<open>The tails of an interface that is up.\<close>

definition iface_tails :: "addr \<Rightarrow> u16 \<Rightarrow> 'd ufp_iface \<Rightarrow> bool" where
  "iface_tails bar base iface \<longleftrightarrow> tails_set I40E_QRX_TAIL bar base 0 (unat (if_num_qps iface)) (snd (if_rx_ring iface)) \<and>
     tails_set I40E_QTX_TAIL bar base 0 (unat (if_num_qps iface)) (snd (if_tx_ring iface))"

text \<open>The last part of \<open>i40e_up\<close>, which only uses registers, and the part before it.\<close>

definition up_start :: "nat \<Rightarrow> 'd ufp_iface \<Rightarrow> i40e \<Rightarrow> (int \<times> i40e) option" where
  "up_start k iface n =
     do { n \<leftarrow> i40e_vsi_configure_irq k iface n;
          (err, n) \<leftarrow> i40e_vsi_start_rx k iface n;
          if err < 0 then do { n \<leftarrow> i40e_vsi_shutdown_irq k iface n; Some (-1, n) }
          else do {
            (err, n) \<leftarrow> i40e_vsi_start_tx k iface n;
            if err < 0 then do { (_, n) \<leftarrow> i40e_vsi_stop_rx k iface n; n \<leftarrow> i40e_vsi_shutdown_irq k iface n; Some (-1, n) }
            else do { n \<leftarrow> i40e_vsi_start_irq k iface n; Some (0, n) } } }"

definition up_commands :: "nat \<Rightarrow> 'd ufp_iface \<Rightarrow> i40e \<Rightarrow> os \<Rightarrow> (int \<times> i40e \<times> os) option" where
  "up_commands k iface n s = and_then (i40e_vsi_update k iface n s) (\<lambda>n s. and_then (i40e_vsi_get k n s) (\<lambda>n s.
     and_then (i40e_vsi_rss_config k iface n s) (\<lambda>n s. i40e_vsi_promisc_mode k iface n s)))"

lemma i40e_up_parts:
  "i40e_up k bar iface n s =
     do { (err, n, s) \<leftarrow> up_commands k iface n s;
          if err < 0 then Some (-1, iface, n, s)
          else do {
            (err, iface, n) \<leftarrow> i40e_vsi_configure_rx k bar iface n;
            if err < 0 then Some (-1, iface, n, s)
            else do {
              (err, iface, n) \<leftarrow> i40e_vsi_configure_tx k bar iface n;
              if err < 0 then Some (-1, iface, n, s)
              else do { (err, n) \<leftarrow> up_start k iface n; Some (err, iface, n, s) } } } }"
  unfolding i40e_up_def up_commands_def up_start_def
  by (auto intro!: Option.bind_cong split: prod.splits if_splits)

lemma up_start_regs:
  assumes "k < length (ed_ifaces n)"
  shows "\<exists>ret n'. up_start k iface n = Some (ret, n') \<and> (ret = 0 \<or> ret = -1) \<and> regs_only n n'"
proof -
  have keep: "regs_only n n' \<Longrightarrow> k < length (ed_ifaces n')" for n' using assms regs_only_length by metis
  obtain n1 where 1: "i40e_vsi_configure_irq k iface n = Some n1" "regs_only n n1" using vsi_irq_regs(1) [OF assms] by blast
  obtain e2 n2 where 2: "vsi_queues start_rx_queue k iface n1 = Some (e2, n2)" "e2 = 0 \<or> e2 = -1" "regs_only n1 n2"
    using vsi_queues_regs [OF keep [OF 1(2)]] by blast
  note r2 = regs_only_trans [OF 1(2) 2(3)]
  obtain n2' where 7: "i40e_vsi_shutdown_irq k iface n2 = Some n2'" "regs_only n2 n2'" using vsi_irq_regs(2) [OF keep [OF r2]] by blast
  obtain e3 n3 where 3: "vsi_queues start_tx_queue k iface n2 = Some (e3, n3)" "e3 = 0 \<or> e3 = -1" "regs_only n2 n3"
    using vsi_queues_regs [OF keep [OF r2]] by blast
  note r3 = regs_only_trans [OF r2 3(3)]
  obtain e4 n4 where 4: "vsi_queues stop_rx_queue k iface n3 = Some (e4, n4)" "regs_only n3 n4" using vsi_queues_regs [OF keep [OF r3]] by blast
  note r4 = regs_only_trans [OF r3 4(2)]
  obtain n5 where 5: "i40e_vsi_shutdown_irq k iface n4 = Some n5" "regs_only n4 n5" using vsi_irq_regs(2) [OF keep [OF r4]] by blast
  obtain n6 where 6: "i40e_vsi_start_irq k iface n3 = Some n6" "regs_only n3 n6" using vsi_irq_regs(3) [OF keep [OF r3]] by blast
  show ?thesis
    using 1(1) 2(1,2) 7(1) 3(1,2) 4(1) 5(1) 6(1) regs_only_trans [OF r2 7(2)] regs_only_trans [OF r4 5(2)] regs_only_trans [OF r3 6(2)]
    by (auto simp: up_start_def i40e_vsi_start_rx_def i40e_vsi_start_tx_def i40e_vsi_stop_rx_def)
qed

lemma iface_tailedI:
  "list_all2 ring_tailed (snd (if_tx_ring i)) txs \<Longrightarrow> list_all2 ring_tailed (snd (if_rx_ring i)) rxs \<Longrightarrow>
   iface_tailed i (i\<lparr>if_rx_ring := (fst (if_rx_ring i), rxs), if_tx_ring := (fst (if_tx_ring i), txs)\<rparr>)"
  unfolding iface_tailed_def by (intro exI [of _ txs] exI [of _ rxs]) simp

lemma up_commands_ok: "if_num_qps iface \<noteq> 0 \<Longrightarrow> vsi_cmd_ok k (up_commands k iface)"
  unfolding up_commands_def [abs_def] by (intro vsi_cmd_ok_then vsi_cmds_ok rss_config_ok)

lemma i40e_up_step:
  assumes "aq_inv n s" "vsi_ready n k iface"
  shows "\<exists>ret iface' n' s'. i40e_up k bar iface n s = Some (ret, iface', n', s') \<and> (ret = 0 \<or> ret = -1) \<and> drv_step n s n' s' \<and>
    iface_tailed iface iface' \<and> (ret = 0 \<longrightarrow> iface_tails bar (ei_base_qp (snd (ed_ifaces n ! k))) iface')"
proof -
  let ?base = "ei_base_qp (snd (ed_ifaces n ! k))" and ?q = "unat (if_num_qps iface)"
  have k: "k < length (ed_ifaces n)" "if_num_qps iface \<noteq> 0" "?q \<le> length (snd (if_rx_ring iface))" "?q \<le> length (snd (if_tx_ring iface))"
      "queues_placed n ?base ?q" using assms(2) by (simp_all add: vsi_ready_def)
  obtain e1 n1 s1 where 1: "up_commands k iface n s = Some (e1, n1, s1)" "e1 = 0 \<or> e1 = -1" "aq_step n s n1 s1"
    using up_commands_ok [OF k(2), of k] assms(1) k(1) unfolding vsi_cmd_ok_def by blast
  note st1 = drv_step_aq [OF 1(3)]
  have k1: "k < length (ed_ifaces n1)" "ei_base_qp (snd (ed_ifaces n1 ! k)) = ?base" "queues_placed n1 ?base ?q"
    using k drv_step_length [OF st1] drv_step_iface [OF st1 k(1)] queues_placed_step [OF st1] by simp_all
  have "conf_done I40E_QRX_TAIL bar ?base 0 (0 + ?q) n1 s1 (snd (if_rx_ring iface)) (configure_rx_loop k bar iface ?q 0 (snd (if_rx_ring iface)) n1)"
    by (rule configure_rx_step [OF drv_step_inv [OF st1] k1(1)]) (simp_all add: k1 k)
  then obtain e2 rxs n2 where 2: "configure_rx_loop k bar iface ?q 0 (snd (if_rx_ring iface)) n1 = Some (e2, rxs, n2)" "e2 = 0 \<or> e2 = -1"
      "drv_step n1 s1 n2 s1" "list_all2 ring_tailed (snd (if_rx_ring iface)) rxs" "e2 = 0 \<longrightarrow> tails_set I40E_QRX_TAIL bar ?base 0 ?q rxs"
    unfolding conf_done_def by auto
  let ?i2 = "iface\<lparr>if_rx_ring := (fst (if_rx_ring iface), rxs)\<rparr>"
  note st2 = drv_step_trans [OF st1 2(3)]
  have k2: "k < length (ed_ifaces n2)" "ei_base_qp (snd (ed_ifaces n2 ! k)) = ?base" "queues_placed n2 ?base ?q"
    using k drv_step_length [OF st2] drv_step_iface [OF st2 k(1)] queues_placed_step [OF st2] by simp_all
  have "conf_done I40E_QTX_TAIL bar ?base 0 (0 + ?q) n2 s1 (snd (if_tx_ring iface)) (configure_tx_loop k bar ?i2 ?q 0 (snd (if_tx_ring iface)) n2)"
    by (rule configure_tx_step [OF drv_step_inv [OF st2] k2(1)]) (simp_all add: k2 k)
  then obtain e3 txs n3 where 3: "configure_tx_loop k bar ?i2 ?q 0 (snd (if_tx_ring iface)) n2 = Some (e3, txs, n3)" "e3 = 0 \<or> e3 = -1"
      "drv_step n2 s1 n3 s1" "list_all2 ring_tailed (snd (if_tx_ring iface)) txs" "e3 = 0 \<longrightarrow> tails_set I40E_QTX_TAIL bar ?base 0 ?q txs"
    unfolding conf_done_def by auto
  let ?i3 = "?i2\<lparr>if_tx_ring := (fst (if_tx_ring iface), txs)\<rparr>"
  note st3 = drv_step_trans [OF st2 3(3)]
  have k3: "k < length (ed_ifaces n3)" using k(1) drv_step_length [OF st3] by simp
  obtain e4 n4 where 4: "up_start k ?i3 n3 = Some (e4, n4)" "e4 = 0 \<or> e4 = -1" "regs_only n3 n4" using up_start_regs [OF k3] by blast
  note st4 = drv_step_then_regs [OF st3 4(3)]
  have t: "iface_tailed iface ?i3" "iface_tailed iface ?i2" "iface_tailed iface iface"
    using iface_tailedI [OF 3(4) 2(4)] iface_tailedI [OF rings_tailed_refl 2(4)] iface_tailedI [OF rings_tailed_refl rings_tailed_refl, of iface] by simp_all
  have "i40e_vsi_configure_rx k bar iface n1 = Some (e2, ?i2, n2)" "i40e_vsi_configure_tx k bar ?i2 n2 = Some (e3, ?i3, n3)"
    using 2(1) 3(1) by (simp_all add: i40e_vsi_configure_rx_def i40e_vsi_configure_tx_def)
  moreover have "iface_tails bar ?base ?i3" if "e2 = 0" "e3 = 0" using 2(5) 3(5) that by (simp add: iface_tails_def)
  ultimately show ?thesis
    using 1(1,2) 2(2) 3(2) 4(1,2) st1 st2 st3 st4 t by (auto simp: i40e_up_parts)
qed

lemma ops_up_loop_step:
  assumes "aq_inv n s" "\<forall>j<length ifaces. vsi_ready n (k + j) (ifaces ! j)"
  shows "\<exists>ret ifaces' n' s'. ops_up_loop k bar ifaces n s = Some (ret, ifaces', n', s') \<and> (ret = 0 \<or> ret = -1) \<and> drv_step n s n' s' \<and>
    list_all2 iface_tailed ifaces ifaces' \<and>
    (ret = 0 \<longrightarrow> (\<forall>j<length ifaces. iface_tails bar (ei_base_qp (snd (ed_ifaces n ! (k + j)))) (ifaces' ! j)))"
  using assms
proof (induction ifaces arbitrary: k n s)
  case Nil
  then show ?case by (simp add: drv_step_aq aq_step_refl)
next
  case (Cons iface ifaces)
  have r: "vsi_ready n k iface" "\<forall>j<length ifaces. vsi_ready n (k + 1 + j) (ifaces ! j)" using Cons.prems(2) by (simp_all add: All_less_Suc2)
  obtain ret iface' n1 s1 where u: "i40e_up k bar iface n s = Some (ret, iface', n1, s1)" "ret = 0 \<or> ret = -1" "drv_step n s n1 s1"
      "iface_tailed iface iface'" "ret = 0 \<longrightarrow> iface_tails bar (ei_base_qp (snd (ed_ifaces n ! k))) iface'"
    using i40e_up_step [OF Cons.prems(1) r(1)] by blast
  have "\<forall>j<length ifaces. vsi_ready n1 (k + 1 + j) (ifaces ! j)" using r(2) vsi_ready_step [OF u(3)] by blast
  from Cons.IH [OF drv_step_inv [OF u(3)] this] obtain ret2 ifaces' n2 s2 where l: "ops_up_loop (k + 1) bar ifaces n1 s1 = Some (ret2, ifaces', n2, s2)"
      "ret2 = 0 \<or> ret2 = -1" "drv_step n1 s1 n2 s2" "list_all2 iface_tailed ifaces ifaces'"
      "ret2 = 0 \<longrightarrow> (\<forall>j<length ifaces. iface_tails bar (ei_base_qp (snd (ed_ifaces n1 ! (k + 1 + j)))) (ifaces' ! j))" by blast
  have "\<forall>j<length ifaces. ei_base_qp (snd (ed_ifaces n1 ! (k + 1 + j))) = ei_base_qp (snd (ed_ifaces n ! (k + 1 + j)))"
    using r(2) drv_step_iface [OF u(3)] by (simp add: vsi_ready_def)
  then have tails: "ret2 = 0 \<longrightarrow> (\<forall>j<length ifaces. iface_tails bar (ei_base_qp (snd (ed_ifaces n ! (k + 1 + j)))) (ifaces' ! j))" using l(5) by simp
  show ?case
  proof (cases "ret = 0")
    case True
    then show ?thesis using u l tails drv_step_trans [OF u(3) l(3)] by (auto simp: All_less_Suc2)
  next
    case False
    then show ?thesis using u ifaces_tailed_refl by auto
  qed
qed

text \<open>The library keeps to the interfaces of the device: bringing it up is a step of the driver.\<close>

lemma ifaces_counted: "\<forall>k<length xs. vsi_ready n k (xs ! k) \<Longrightarrow> length xs \<le> length (ed_ifaces n)"
  by (cases "length xs") (auto simp: vsi_ready_def intro!: Suc_leI)

lemma ops_up_step:
  assumes "aq_inv n s" "\<forall>k<length (dev_iface dev). vsi_ready n k (dev_iface dev ! k)"
  shows "\<exists>ret n' dev' s'. i40e_ops_up n dev s = Some (ret, n', dev', s') \<and> (ret = 0 \<or> ret = -1) \<and> dev_tailed dev dev' \<and> drv_step n s n' s' \<and>
    (ret = 0 \<longrightarrow> (\<forall>k<length (dev_iface dev). iface_tails (dev_bar dev) (ei_base_qp (snd (ed_ifaces n ! k))) (dev_iface dev' ! k)))"
proof -
  let ?n0 = "i40e_start_misc_irq (i40e_setup_misc_irq n)"
  have "regs_only n ?n0" by (intro regs_only_misc regs_only_refl)
  then have st0: "drv_step n s ?n0 s" and if0: "ed_ifaces ?n0 = ed_ifaces n" using drv_step_regs [OF assms(1)] by (auto simp: regs_only_def)
  have "\<forall>j<length (dev_iface dev). vsi_ready ?n0 (0 + j) (dev_iface dev ! j)" using assms(2) vsi_ready_step [OF st0] by auto
  from ops_up_loop_step [OF drv_step_inv [OF st0] this] obtain ret ifs n1 s1 where u: "ops_up_loop 0 (dev_bar dev) (dev_iface dev) ?n0 s = Some (ret, ifs, n1, s1)"
      "ret = 0 \<or> ret = -1" "drv_step ?n0 s n1 s1" "list_all2 iface_tailed (dev_iface dev) ifs"
      "ret = 0 \<longrightarrow> (\<forall>j<length (dev_iface dev). iface_tails (dev_bar dev) (ei_base_qp (snd (ed_ifaces ?n0 ! (0 + j)))) (ifs ! j))" by blast
  define n' where "n' = (if ret < 0 then i40e_shutdown_misc_irq (i40e_stop_misc_irq n1) else n1)"
  have "regs_only n1 n'" unfolding n'_def by (simp add: regs_only_misc regs_only_refl)
  then have "drv_step n s n' s1" using drv_step_then_regs [OF drv_step_trans [OF st0 u(3)]] by blast
  moreover have "i40e_ops_up n dev s = Some (ret, n', dev\<lparr>dev_iface := ifs\<rparr>, s1)" using u(1,2) by (auto simp: i40e_ops_up_def n'_def)
  moreover have "dev_tailed dev (dev\<lparr>dev_iface := ifs\<rparr>)" using u(4) by (auto simp: dev_tailed_def)
  ultimately show ?thesis using u(2,5) if0 by fastforce
qed

lemma ops_down_regs:
  assumes "length (dev_iface dev) \<le> length (ed_ifaces n)"
  shows "\<exists>n'. i40e_ops_down n dev = Some n' \<and> regs_only n n'"
proof -
  from assms have "0 + length (dev_iface dev) \<le> length (ed_ifaces n)" by simp
  from ops_down_loop_regs [OF this] obtain n2 where "ops_down_loop 0 (dev_iface dev) n = Some n2" "regs_only n n2" by blast
  then show ?thesis using regs_only_misc by (auto simp: i40e_ops_down_def)
qed

lemma dev_tailed_length: "dev_tailed dev dev' \<Longrightarrow> length (dev_iface dev') = length (dev_iface dev)"
  by (auto simp: dev_tailed_def dest: list_all2_lengthD)

text \<open>C31. The driver keeps its contract with the library, for a firmware that answers in the form of the queue (\<open>aq_inv\<close>): at every look at the command queue the head register is
  an index of the ring and stands still for one round, or the device says nothing, and the elements that an answer counts are inside its buffer. The code
  checks none of this; on a head outside of the ring its clean-up never ends (\<open>asq_clean_stuck\<close>). For such a device, whose interfaces have their rings and their places of contexts,
  bringing it up returns, whatever values its answers and registers have, whether or not a command is answered, and whichever allocation fails; nothing of the structure of the device changes but the addresses of the tail
  registers of the rings; and exactly the elements that the device has reported meanwhile are held. After success the tail of every ring of every queue is the
  address of the register of its queue in the registers of the device. In both cases the device can be brought down, and that only uses registers.\<close>

theorem i40e_up_down:
  assumes "aq_inv n s" "\<forall>k<length (dev_iface dev). vsi_ready n k (dev_iface dev ! k)"
  shows "\<exists>ret n' dev' s'. i40e_ops_up n dev s = Some (ret, n', dev', s') \<and> (ret = 0 \<or> ret = -1) \<and> dev_tailed dev dev' \<and> aq_inv n' s' \<and>
    (\<exists>new. ed_elem n' = ed_elem n @ new \<and> os_live s' = os_live s + elem_res new) \<and>
    (ret = 0 \<longrightarrow> (\<forall>k<length (dev_iface dev). iface_tails (dev_bar dev) (ei_base_qp (snd (ed_ifaces n ! k))) (dev_iface dev' ! k))) \<and>
    (\<exists>n''. i40e_ops_down n' dev' = Some n'' \<and> regs_only n' n'')"
proof -
  obtain ret n' dev' s' where u: "i40e_ops_up n dev s = Some (ret, n', dev', s')" "ret = 0 \<or> ret = -1" "dev_tailed dev dev'" "drv_step n s n' s'"
      "ret = 0 \<longrightarrow> (\<forall>k<length (dev_iface dev). iface_tails (dev_bar dev) (ei_base_qp (snd (ed_ifaces n ! k))) (dev_iface dev' ! k))"
    using ops_up_step [OF assms] by blast
  have "length (dev_iface dev') \<le> length (ed_ifaces n')"
    using ifaces_counted [OF assms(2)] dev_tailed_length [OF u(3)] drv_step_length [OF u(4)] by simp
  note down = ops_down_regs [OF this]
  have "\<exists>new. ed_elem n' = ed_elem n @ new \<and> os_live s' = os_live s + elem_res new" using u(4) by (auto simp: drv_step_def holds_def)
  with u down drv_step_inv [OF u(4)] show ?thesis by blast
qed

subsection \<open>The driver in the library\<close>

text \<open>The operation as the library calls it; and what the driver needs for so many interfaces of so many queues: a working command queue with no command
  open, and a place for the context of every queue.\<close>

definition ops_down_call :: "i40e \<Rightarrow> 'd ufp_dev \<Rightarrow> os \<Rightarrow> (i40e \<times> 'd ufp_dev \<times> os) option" where
  "ops_down_call n dev s = do { n \<leftarrow> i40e_ops_down n dev; Some (n, dev, s) }"

definition i40e_ready :: "i40e \<Rightarrow> u32 \<Rightarrow> nat \<Rightarrow> bool" where
  "i40e_ready n q k \<longleftrightarrow> (\<forall>s. aq_inv n s) \<and> q \<noteq> 0 \<and> k \<le> length (ed_ifaces n) \<and>
     (\<forall>j<k. queues_placed n (ei_base_qp (snd (ed_ifaces n ! j))) (unat q))"

lemma i40e_ready_vsi:
  assumes "i40e_ready n q (length (dev_iface dev))" "dev_is_up page dsize m dev" "list_all (\<lambda>i. if_num_qps i = q) (dev_iface dev)"
  shows "\<forall>k<length (dev_iface dev). vsi_ready n k (dev_iface dev ! k)"
proof (intro allI impI)
  fix k assume k: "k < length (dev_iface dev)"
  then have "iface_up page dsize (dev_iface dev ! k)" "if_num_qps (dev_iface dev ! k) = q" using assms(2,3) by (simp_all add: dev_is_up_def list_all_length)
  then show "vsi_ready n k (dev_iface dev ! k)" using assms(1) k by (simp add: vsi_ready_def i40e_ready_def iface_up_def iface_rings_def iface_rings_ok_def)
qed

lemma leaks_elems: "leaks (elem_res es)"
  by (simp add: elem_res_def leaks_def)

text \<open>What the driver keeps while a device is up and down: all but the elements that commands of it add, which it holds.\<close>

definition drv_kept :: "i40e \<Rightarrow> i40e \<Rightarrow> bool" where
  "drv_kept n n' \<longleftrightarrow> drv_core n' = drv_core n \<and> (\<forall>p. length (nic_pages n' p) = length (nic_pages n p)) \<and> (\<forall>s. aq_inv n' s) \<and>
     (\<exists>new. ed_elem n' = ed_elem n @ new)"

definition new_elem_res :: "i40e \<Rightarrow> i40e \<Rightarrow> res multiset" where
  "new_elem_res n n' = elem_res (drop (length (ed_elem n)) (ed_elem n'))"

lemma leaks_new: "leaks (new_elem_res n n')"
  by (simp add: new_elem_res_def leaks_elems)

lemma new_elem_res_self [simp]: "new_elem_res n n = {#}"
  by (simp add: new_elem_res_def)

lemma aq_inv_any: "aq_inv n s \<Longrightarrow> ed_session n = [] \<Longrightarrow> aq_inv n t"
  by (simp add: aq_inv_def)

lemma aq_inv_no_session:
  assumes "\<forall>s. aq_inv n s"
  shows "ed_session n = []"
proof -
  have "aq_inv n (undefined\<lparr>os_next := 0\<rparr>)" using assms ..
  then show ?thesis by (cases "ed_session n") (simp_all add: aq_inv_def)
qed

lemma drv_kept_step:
  assumes k: "drv_kept n0 n" and st: "drv_step n s n' s'" and h: "holds t (new_elem_res n0 n + R) s"
  shows "drv_kept n0 n' \<and> holds t (new_elem_res n0 n' + R) s'"
proof -
  obtain a b where e: "ed_elem n = ed_elem n0 @ a" "ed_elem n' = ed_elem n @ b" "holds s (elem_res b) s'"
    using k st by (auto simp: drv_kept_def drv_step_def)
  have "ed_session n = []" using k aq_inv_no_session by (simp add: drv_kept_def)
  then have "ed_session n' = []" using st by (simp add: drv_step_def drv_core_def)
  then have "\<forall>s. aq_inv n' s" using aq_inv_any [OF drv_step_inv [OF st]] by blast
  then have "drv_kept n0 n'" using k st e by (simp add: drv_kept_def drv_step_def)
  moreover have "holds t (new_elem_res n0 n' + R) s'" using holds_trans [OF h e(3)] e(1,2) by (simp add: new_elem_res_def add_ac)
  ultimately show ?thesis ..
qed

interpretation i40e_drv: dev_driver i40e_ops_up ops_down_call "\<lambda>n q k. n = n0 \<and> i40e_ready n q k"
  "\<lambda>n k. k \<le> length (ed_ifaces n) \<and> drv_kept n0 n" "new_elem_res n0" for n0
proof
  fix n q k
  assume "n = n0 \<and> i40e_ready n q k"
  then show "k \<le> length (ed_ifaces n) \<and> drv_kept n0 n" by (auto simp: i40e_ready_def drv_kept_def)
next
  fix n q page dsize m s0 R s and dev :: "'d ufp_dev"
  assume r: "n = n0 \<and> i40e_ready n q (length (dev_iface dev))" "dev_is_up page dsize m dev" "list_all (\<lambda>i. if_num_qps i = q) (dev_iface dev)"
    and h: "holds s0 (new_elem_res n0 n + R) s"
  then have i: "i40e_ready n q (length (dev_iface dev))" and k: "drv_kept n0 n" by (auto simp: i40e_ready_def drv_kept_def)
  have "aq_inv n s" using i by (simp add: i40e_ready_def)
  from ops_up_step [OF this i40e_ready_vsi [OF i r(2,3)]] obtain ret n' dev' s' where
    u: "i40e_ops_up n dev s = Some (ret, n', dev', s')" "ret = 0 \<or> ret = -1" "dev_tailed dev dev'" "drv_step n s n' s'" by blast
  have "length (dev_iface dev) \<le> length (ed_ifaces n')" using i drv_step_length [OF u(4)] by (simp add: i40e_ready_def)
  then show "\<exists>ret n' dev' s'. i40e_ops_up n dev s = Some (ret, n', dev', s') \<and> (ret = 0 \<or> ret = -1) \<and> holds s0 (new_elem_res n0 n' + R) s' \<and>
      dev_tailed dev dev' \<and> length (dev_iface dev) \<le> length (ed_ifaces n') \<and> drv_kept n0 n'" using u drv_kept_step [OF k u(4) h] by blast
next
  fix n s0 R s and dev :: "'d ufp_dev"
  assume l: "length (dev_iface dev) \<le> length (ed_ifaces n) \<and> drv_kept n0 n" and h: "holds s0 (new_elem_res n0 n + R) s"
  then obtain n' where n': "i40e_ops_down n dev = Some n'" "regs_only n n'" using ops_down_regs by blast
  have "drv_step n s n' s" using l n'(2) by (intro drv_step_regs) (simp_all add: drv_kept_def)
  from drv_kept_step [OF _ this h] l n' regs_only_length [OF n'(2)]
  show "\<exists>n' dev' s'. ops_down_call n dev s = Some (n', dev', s') \<and> holds s0 (new_elem_res n0 n' + R) s' \<and> dev_tailed dev dev' \<and>
      length (dev_iface dev) \<le> length (ed_ifaces n') \<and> drv_kept n0 n'"
    using dev_tailed_refl by (auto simp: ops_down_call_def)
qed

text \<open>Up and down, with all that the driver holds afterwards.\<close>

lemma up_down_kept:
  assumes "pools_wf P" "holds s0 R s" "up_pre S dev (length P) s0" "i40e_ready n (set_num_qps S) (length (dev_iface dev))"
  shows "\<exists>ret n' dev' P' s' leak. ufp_up i40e_ops_up entries J S n dev P s = Some (ret, n', dev', P', s') \<and> leaks leak \<and>
    dev_base dev' = dev_base dev \<and> length (dev_iface dev') = length (dev_iface dev) \<and>
    (if ret = 0 then up_post entries S dev dev' \<and>
       (\<exists>n'' dev'' P'' s''. ufp_down ops_down_call n' dev' P' s' = Some (n'', dev'', P'', s'') \<and>
          held P s0 {#} (leak + (new_elem_res n n'' + R)) P'' s'' \<and> dev_like dev' dev'' \<and> drv_kept n n'')
     else ret = -1 \<and> held P s0 {#} (leak + (new_elem_res n n' + R)) P' s' \<and> drv_kept n n')"
proof -
  have h: "holds s0 (new_elem_res n n + R) s" and r: "n = n \<and> i40e_ready n (set_num_qps S) (length (dev_iface dev))" using assms(2,4) by simp_all
  from i40e_drv.up_down [OF assms(1) h assms(3) r, of entries J] show ?thesis by (elim exE) (auto split: if_splits)
qed

text \<open>C30. Up and down are balanced, for the library with this driver. Assumed are well-formed pools, whose calls of \<open>malloc\<close> succeed, page-aligned sizes that do not overflow, a driver that has places for the
  contexts of the queues, and a firmware that answers in the form of the queue: the head register is an index of the ring and steady during one clean-up, and the counted elements are inside the
  buffer (\<open>aq_inv\<close>, within \<open>i40e_ready\<close>). Then \<open>ufp_up\<close> always returns. If it fails, no block of a pool, no descriptor that it opened, no mapping and
  no DMA mapping is still held, whatever call failed on the way; what can be left is memory of \<open>malloc\<close> and an open directory stream with its own descriptor (\<open>leaks\<close>).
  If it succeeds, the interrupts have the smallest vectors in their order, each the place as its number where there is one interrupt of the device itself and one interface (\<open>up_post\<close>), and \<open>ufp_down\<close> never faults and
  gives back every block and descriptor, again up to memory of \<open>malloc\<close> and directory streams. A DMA mapping counts as given back once its removal was requested; one that the kernel
  refuses to remove is noted in \<open>os_stuck\<close>, since the code drops it and never tries again.
\<close>

theorem ufp_up_down:
  assumes "pools_wf P" "up_pre S dev (length P) s" "i40e_ready n (set_num_qps S) (length (dev_iface dev))"
  shows "\<exists>ret n' dev' P' s'. ufp_up i40e_ops_up entries J S n dev P s = Some (ret, n', dev', P', s') \<and>
    (if ret = 0 then up_post entries S dev dev' \<and>
       (\<exists>n'' dev'' P'' s'' leak. ufp_down ops_down_call n' dev' P' s' = Some (n'', dev'', P'', s'') \<and> held P s {#} leak P'' s'' \<and> leaks leak)
     else ret = -1 \<and> (\<exists>leak. held P s {#} leak P' s' \<and> leaks leak))"
proof -
  have fresh: "\<exists>leak. held P s {#} leak Q t \<and> leaks leak" if "held P s {#} (l + new_elem_res n m) Q t" "leaks l" for l m Q t
    using that leaks_new by (intro exI [of _ "l + new_elem_res n m"]) simp
  have "holds s {#} s" by simp
  from up_down_kept [OF assms(1) this assms(2,3), of entries J] show ?thesis
    by (elim exE) (auto split: if_splits dest: fresh)
qed

end
