(* ===== verification/I40e_Open_Spec.thy ===== *)
theory I40e_Open_Spec
  imports I40e_Up_Spec
begin

text \<open>
  Opening and closing a device, \<open>i40e_open\<close> and \<open>i40e_close\<close> of \<open>dev/i40e/i40e_main.c\<close>: both return, and what the driver holds of
  the operating system is given back, up to memory of \<open>malloc\<close> that the code never frees.
\<close>

subsection \<open>Memory for DMA\<close>

definition dmas_res :: "ufp_dev_buf list \<Rightarrow> res multiset" where
  "dmas_res bufs = sum_list (map dma_res bufs)"

lemma dmas_res_simps [simp]:
  "dmas_res [] = {#}" "dmas_res (b # bs) = dma_res b + dmas_res bs" "dmas_res (bs @ cs) = dmas_res bs + dmas_res cs"
  by (simp_all add: dmas_res_def)

lemmas res_ac = add_ac add_mset_commute

lemma dma_alloc_held:
  assumes "holds s0 R s"
  shows "\<exists>r s' leak. ufp_dev_dma_alloc sz s = Some (r, s') \<and> leaks leak \<and>
    (case r of None \<Rightarrow> holds s0 (leak + R) s' | Some buf \<Rightarrow> holds s0 (dma_res buf + (leak + R)) s')"
proof -
  obtain r s' where a: "ufp_dev_dma_alloc sz s = Some (r, s')"
      "case r of None \<Rightarrow> holds s {#} s' | Some buf \<Rightarrow> db_size buf = sz \<and> holds s (add_mset (Heap (db_ptr buf)) (dma_res buf)) s'"
    using dma_alloc_spec by blast
  show ?thesis
  proof (cases r)
    case None
    then show ?thesis using a holds_trans [OF assms, of "{#}" s'] by (intro exI [of _ None] exI [of _ s'] exI [of _ "{#}"]) simp
  next
    case (Some buf)
    have "holds s0 (R + add_mset (Heap (db_ptr buf)) (dma_res buf)) s'" using a(2) Some holds_trans [OF assms] by fastforce
    then show ?thesis using a(1) Some
      by (intro exI [of _ r] exI [of _ s'] exI [of _ "{#Heap (db_ptr buf)#}"]) (simp add: res_ac)
  qed
qed

lemma dma_alloc_loop_spec:
  "holds s0 (dmas_res bufs + R) s \<Longrightarrow>
   \<exists>ok bufs' s' leak. dma_alloc_loop k sz bufs s = Some (ok, bufs', s') \<and> leaks leak \<and> holds s0 (dmas_res bufs' + (leak + R)) s' \<and>
     (ok \<longrightarrow> length bufs' = length bufs + k)"
proof (induction k arbitrary: bufs R s)
  case 0
  then show ?case by (intro exI [of _ True] exI [of _ bufs] exI [of _ s] exI [of _ "{#}"]) simp
next
  case (Suc k)
  obtain r s1 leak where a: "ufp_dev_dma_alloc sz s = Some (r, s1)" "leaks leak"
      "case r of None \<Rightarrow> holds s0 (leak + (dmas_res bufs + R)) s1 | Some buf \<Rightarrow> holds s0 (dma_res buf + (leak + (dmas_res bufs + R))) s1"
    using dma_alloc_held [OF Suc.prems] by blast
  show ?case
  proof (cases r)
    case None
    then show ?thesis using a by (intro exI [of _ False] exI [of _ bufs] exI [of _ s1] exI [of _ leak]) (simp add: res_ac)
  next
    case (Some buf)
    then have "holds s0 (dmas_res (bufs @ [buf]) + (leak + R)) s1" using a(3) by (simp add: res_ac)
    from Suc.IH [OF this] obtain ok bufs' s' leak' where
      "dma_alloc_loop k sz (bufs @ [buf]) s1 = Some (ok, bufs', s')" "leaks leak'" "holds s0 (dmas_res bufs' + (leak' + (leak + R))) s'"
      "ok \<longrightarrow> length bufs' = length (bufs @ [buf]) + k" by blast
    then show ?thesis using a(1,2) Some
      by (intro exI [of _ ok] exI [of _ bufs'] exI [of _ s'] exI [of _ "leak' + leak"]) (simp add: res_ac)
  qed
qed

lemma dma_free_loop_spec: "holds s0 (dmas_res bufs + R) s \<Longrightarrow> \<exists>s'. dma_free_loop bufs s = Some s' \<and> holds s0 R s'"
proof (induction bufs arbitrary: s)
  case (Cons buf bufs)
  have "holds s0 (dma_res buf + (dmas_res bufs + R)) s" using Cons.prems by (simp add: res_ac)
  from dma_free_spec [OF this] obtain s1 where "ufp_dev_dma_free buf s = Some s1" "holds s0 (dmas_res bufs + R) s1" by blast
  with Cons.IH show ?case by fastforce
qed simp

subsection \<open>The command queues\<close>

text \<open>What a ring holds, and a ring of the size that the driver makes.\<close>

definition aq_ring_res :: "i40e_aq_ring \<Rightarrow> res multiset" where
  "aq_ring_res ring = dma_res (aqr_desc ring) + dmas_res (snd (aqr_bufs ring)) + {#Heap (fst (aqr_bufs ring)), Heap (aqr_ptr ring)#}"

definition aq_ring_made :: "i40e_aq_ring \<Rightarrow> bool" where
  "aq_ring_made ring \<longleftrightarrow> aqr_num_desc ring = I40E_AQ_LEN \<and> length (snd (aqr_bufs ring)) = unat I40E_AQ_LEN"

lemma ring_alloc_eq:
  assumes "aqr_num_desc ring = I40E_AQ_LEN"
  shows "i40e_aq_ring_alloc ring s =
    (let ring = ring\<lparr>aqr_next_to_use := 0, aqr_next_to_clean := 0\<rparr> in
     do { (d, s) \<leftarrow> ufp_dev_dma_alloc 4096 s;
          case d of None \<Rightarrow> Some (-1, ring, s)
          | Some desc \<Rightarrow> do {
              let (b, s) = os_get Heap s;
              case b of None \<Rightarrow> do { s \<leftarrow> ufp_dev_dma_free desc s; Some (-1, ring, s) }
              | Some bp \<Rightarrow> do {
                  (ok, bufs, s) \<leftarrow> dma_alloc_loop 128 I40E_MAX_AQ_BUF_SIZE [] s;
                  if \<not> ok then do { s \<leftarrow> dma_free_loop bufs s; s \<leftarrow> ufp_dev_dma_free desc s; Some (-1, ring, s) }
                  else Some (0, ring\<lparr>aqr_desc := desc, aqr_mem := replicate 128 aq_desc_zero,
                    aqr_bufs := (bp, bufs), aqr_bufmem := replicate 128 (replicate I40E_MAX_AQ_BUF_SIZE 0)\<rparr>, s) } } })"
proof -
  have n: "unat (aqr_num_desc (ring\<lparr>aqr_next_to_use := 0, aqr_next_to_clean := 0\<rparr>)) = 128" using assms by (simp add: I40E_AQ_LEN_def)
  have sz: "unat (ALIGN (of_nat (128 * sizeof_i40e_aq_desc)) I40E_ADMINQ_DESC_ALIGNMENT) = 4096" "4096 div sizeof_i40e_aq_desc = 128"
    by (simp_all add: ALIGN_def ALIGN_MASK_def sizeof_i40e_aq_desc_def I40E_ADMINQ_DESC_ALIGNMENT_def)
  show ?thesis unfolding i40e_aq_ring_alloc_def Let_def n sz ..
qed

lemma ring_alloc_spec:
  assumes h: "holds s0 (add_mset (Heap (aqr_ptr ring)) R) s" and n: "aqr_num_desc ring = I40E_AQ_LEN"
  shows "\<exists>ret ring' s' leak. i40e_aq_ring_alloc ring s = Some (ret, ring', s') \<and> leaks leak \<and>
    (if ret = 0 then aq_ring_made ring' \<and> aqr_ptr ring' = aqr_ptr ring \<and> aq_ring_ok ring' \<and>
       holds s0 (aq_ring_res ring' + (leak + R)) s'
     else ret = -1 \<and> holds s0 (add_mset (Heap (aqr_ptr ring)) (leak + R)) s')"
proof -
  let ?ring = "ring\<lparr>aqr_next_to_use := 0, aqr_next_to_clean := 0\<rparr>" and ?P = "{#Heap (aqr_ptr ring)#}"
  have num: "unat I40E_AQ_LEN = 128" by (simp add: I40E_AQ_LEN_def)
  note alloc = ring_alloc_eq [OF n]
  have fail: ?thesis if "i40e_aq_ring_alloc ring s = Some (-1, ?ring, t)" "holds s0 (leak + (?P + R)) t" "leaks leak" for t leak
    using that by (intro exI [of _ "-1"] exI [of _ ?ring] exI [of _ t] exI [of _ leak]) (simp add: res_ac)
  obtain d s1 l1 where 1: "ufp_dev_dma_alloc 4096 s = Some (d, s1)" "leaks l1"
      "case d of None \<Rightarrow> holds s0 (l1 + (?P + R)) s1 | Some desc \<Rightarrow> holds s0 (dma_res desc + (l1 + (?P + R))) s1"
    using dma_alloc_held [of s0 "?P + R" s 4096] h by auto
  show ?thesis
  proof (cases d)
    case None
    then show ?thesis using 1 by (intro fail [of s1 l1]) (simp_all add: alloc)
  next
    case (Some desc)
    obtain b s2 where 2: "os_get Heap s1 = (b, s2)" by fastforce
    show ?thesis
    proof (cases b)
      case None
      have "holds s0 (dma_res desc + (l1 + (?P + R))) s2" using 1(3) Some holds_trans [OF _ os_get_holds [OF 2]] None by fastforce
      from dma_free_spec [OF this] obtain s3 where "ufp_dev_dma_free desc s2 = Some s3" "holds s0 (l1 + (?P + R)) s3" by blast
      then show ?thesis using 1 2 Some None by (intro fail [of s3 l1]) (simp_all add: alloc)
    next
      case bp: (Some bp)
      have "holds s0 (dma_res desc + (l1 + (?P + R)) + {#Heap bp#}) s2" using 1(3) Some holds_trans [OF _ os_get_holds [OF 2]] bp by fastforce
      then have h2: "holds s0 (dmas_res [] + (dma_res desc + add_mset (Heap bp) (l1 + (?P + R)))) s2" by (simp add: res_ac)
      from dma_alloc_loop_spec [OF this, of 128 I40E_MAX_AQ_BUF_SIZE] obtain ok bufs s3 l3 where
        3: "dma_alloc_loop 128 I40E_MAX_AQ_BUF_SIZE [] s2 = Some (ok, bufs, s3)" "leaks l3"
        "holds s0 (dmas_res bufs + (l3 + (dma_res desc + add_mset (Heap bp) (l1 + (?P + R))))) s3" "ok \<longrightarrow> length bufs = 128" by auto
      show ?thesis
      proof (cases ok)
        case False
        from dma_free_loop_spec [OF 3(3)] obtain s4 where 4: "dma_free_loop bufs s3 = Some s4"
            "holds s0 (dma_res desc + (l3 + add_mset (Heap bp) (l1 + (?P + R)))) s4" by (auto simp: res_ac)
        from dma_free_spec [OF 4(2)] obtain s5 where 5: "ufp_dev_dma_free desc s4 = Some s5" "holds s0 (l3 + add_mset (Heap bp) (l1 + (?P + R))) s5" by blast
        then have "holds s0 (add_mset (Heap bp) (l3 + l1) + (?P + R)) s5" by (simp add: res_ac)
        then show ?thesis using 1 2 3 4 5 Some bp False by (intro fail [of s5 "add_mset (Heap bp) (l3 + l1)"]) (simp_all add: alloc)
      next
        case True
        let ?new = "?ring\<lparr>aqr_desc := desc, aqr_mem := replicate 128 aq_desc_zero,
            aqr_bufs := (bp, bufs), aqr_bufmem := replicate 128 (replicate I40E_MAX_AQ_BUF_SIZE 0)\<rparr>"
        have "holds s0 (aq_ring_res ?new + ((l3 + l1) + R)) s3" using 3(3) by (simp add: aq_ring_res_def res_ac)
        moreover have "aq_ring_made ?new" "aq_ring_ok ?new" using 3(4) True num n by (simp_all add: aq_ring_made_def aq_ring_ok_def)
        moreover have "i40e_aq_ring_alloc ring s = Some (0, ?new, s3)" using 1(1) 2 3(1) Some bp True by (simp add: alloc)
        ultimately show ?thesis using 1(2) 3(2)
          by (intro exI [of _ "0 :: int"] exI [of _ ?new] exI [of _ s3] exI [of _ "l3 + l1"]) simp
      qed
    qed
  qed
qed

lemma ring_release_spec:
  assumes "holds s0 (aq_ring_res ring + R) s" "aq_ring_made ring"
  shows "\<exists>s'. i40e_aq_ring_release ring s = Some s' \<and> holds s0 (add_mset (Heap (aqr_ptr ring)) R) s'"
proof -
  let ?Q = "add_mset (Heap (aqr_ptr ring)) R"
  have "holds s0 (dmas_res (snd (aqr_bufs ring)) + add_mset (Heap (fst (aqr_bufs ring))) (dma_res (aqr_desc ring) + ?Q)) s"
    using assms(1) by (simp add: aq_ring_res_def res_ac)
  from dma_free_loop_spec [OF this] obtain s1 where 1: "dma_free_loop (snd (aqr_bufs ring)) s = Some s1"
      "holds s0 (add_mset (Heap (fst (aqr_bufs ring))) (dma_res (aqr_desc ring) + ?Q)) s1" by blast
  from os_put_holds [OF 1(2)] obtain s2 where 2: "os_put (Heap (fst (aqr_bufs ring))) s1 = Some s2" "holds s0 (dma_res (aqr_desc ring) + ?Q) s2" by blast
  from dma_free_spec [OF 2(2)] obtain s3 where "ufp_dev_dma_free (aqr_desc ring) s2 = Some s3" "holds s0 ?Q s3" by blast
  then show ?thesis using 1(1) 2(1) assms(2) by (simp add: i40e_aq_ring_release_def aq_ring_made_def)
qed

lemma aq_shutdown_spec:
  assumes "holds s0 (aq_ring_res ring + R) s" "aq_ring_made ring"
  shows "\<exists>n' s'. aq_shutdown ring n s = Some (n', s') \<and> regs_only n n' \<and> holds s0 R s'"
proof -
  from ring_release_spec [OF assms] obtain s1 where 1: "i40e_aq_ring_release ring s = Some s1" "holds s0 (add_mset (Heap (aqr_ptr ring)) R) s1" by blast
  from os_put_holds [OF 1(2)] obtain s2 where 2: "os_put (Heap (aqr_ptr ring)) s1 = Some s2" "holds s0 R s2" by blast
  have "regs_only n (UFP_WRITE32 (aqr_bah ring) 0 (UFP_WRITE32 (aqr_bal ring) 0 (UFP_WRITE32 (aqr_len ring) 0
      (UFP_WRITE32 (aqr_tail ring) 0 (UFP_WRITE32 (aqr_head ring) 0 n)))))" by (intro regs_only_write regs_only_refl)
  then show ?thesis using 1(1) 2 by (simp add: aq_shutdown_def)
qed

lemma aq_ring_init_spec:
  assumes h: "holds s0 R s" and n: "aqr_num_desc ring = I40E_AQ_LEN"
    and c: "\<And>ring n. \<exists>e n'. configure ring n = (e, n') \<and> regs_only n n'"
  shows "\<exists>r n' s' leak. aq_ring_init configure ring n s = Some (r, n', s') \<and> regs_only n n' \<and> leaks leak \<and>
    (case r of None \<Rightarrow> holds s0 (leak + R) s'
     | Some ring' \<Rightarrow> aq_ring_made ring' \<and> aq_ring_ok ring' \<and> holds s0 (aq_ring_res ring' + (leak + R)) s')"
proof -
  have fail: ?thesis if "aq_ring_init configure ring n s = Some (None, n', t)" "regs_only n n'" "holds s0 (leak + R) t" "leaks leak" for n' t leak
    using that by (intro exI [of _ None] exI [of _ n'] exI [of _ t] exI [of _ leak]) simp
  obtain p s1 where 1: "os_get Heap s = (p, s1)" by fastforce
  note h1 = holds_trans [OF h os_get_holds [OF 1]]
  show ?thesis
  proof (cases p)
    case None
    then show ?thesis using 1 h1 by (intro fail [of n s1 "{#}"]) (simp_all add: aq_ring_init_def regs_only_refl)
  next
    case (Some p)
    let ?ring = "ring\<lparr>aqr_ptr := p\<rparr>"
    have ptr: "aqr_ptr ?ring = p" "aqr_num_desc ?ring = I40E_AQ_LEN" using n by simp_all
    have "holds s0 (add_mset (Heap (aqr_ptr ?ring)) R) s1" using h1 Some by simp
    from ring_alloc_spec [OF this ptr(2)] obtain ret ring' s2 leak where 2: "i40e_aq_ring_alloc ?ring s1 = Some (ret, ring', s2)" "leaks leak"
        "if ret = 0 then aq_ring_made ring' \<and> aqr_ptr ring' = p \<and> aq_ring_ok ring' \<and>
           holds s0 (aq_ring_res ring' + (leak + R)) s2
         else ret = -1 \<and> holds s0 (add_mset (Heap p) (leak + R)) s2" unfolding ptr(1) by blast
    obtain e n1 where 3: "configure ring' n = (e, n1)" "regs_only n n1" using c by blast
    have "ret = 0 \<or> ret = -1" using 2(3) by (cases "ret = 0") simp_all
    then consider "ret = -1" | "ret = 0" "e < 0" | "ret = 0" "\<not> e < 0" by blast
    then show ?thesis
    proof cases
      case 1
      then obtain s3 where "os_put (Heap p) s2 = Some s3" "holds s0 (leak + R) s3" using 2(3) os_put_holds by force
      then show ?thesis using \<open>os_get Heap s = (_, s1)\<close> 1 2(1,2) Some by (intro fail [of n s3 leak]) (simp_all add: aq_ring_init_def regs_only_refl)
    next
      case 2
      then have r: "aq_ring_made ring'" "aqr_ptr ring' = p" "holds s0 (aq_ring_res ring' + (leak + R)) s2"
        using \<open>if ret = 0 then _ else _\<close> by simp_all
      obtain s3 where 4: "i40e_aq_ring_release ring' s2 = Some s3" "holds s0 (add_mset (Heap p) (leak + R)) s3" using ring_release_spec [OF r(3,1)] r(2) by auto
      from os_put_holds [OF 4(2)] obtain s4 where "os_put (Heap p) s3 = Some s4" "holds s0 (leak + R) s4" by blast
      then show ?thesis using \<open>os_get Heap s = (_, s1)\<close> 2 \<open>i40e_aq_ring_alloc ?ring s1 = _\<close> \<open>leaks leak\<close> 3 4(1) Some
        by (intro fail [of n1 s4 leak]) (simp_all add: aq_ring_init_def)
    next
      case 3
      then have "aq_ring_init configure ring n s = Some (Some ring', n1, s2)"
        using 1 2(1) \<open>configure ring' n = (e, n1)\<close> Some by (simp add: aq_ring_init_def)
      then show ?thesis using 2(2,3) 3 \<open>regs_only n n1\<close>
        by (intro exI [of _ "Some ring'"] exI [of _ n1] exI [of _ s2] exI [of _ leak]) simp
    qed
  qed
qed

text \<open>Both queues: what they hold, and that they are there.\<close>

definition aq_res :: "i40e \<Rightarrow> res multiset" where
  "aq_res n = (case ed_tx_ring n of None \<Rightarrow> {#} | Some r \<Rightarrow> aq_ring_res r) + (case ed_rx_ring n of None \<Rightarrow> {#} | Some r \<Rightarrow> aq_ring_res r)"

definition aq_made :: "i40e \<Rightarrow> bool" where
  "aq_made n \<longleftrightarrow> (\<exists>tx rx. ed_tx_ring n = Some tx \<and> ed_rx_ring n = Some rx \<and> aq_ring_made tx \<and> aq_ring_made rx)"

lemma ring_core_res: "ring_core r' = ring_core r \<Longrightarrow> aq_ring_res r' = aq_ring_res r \<and> aq_ring_made r' = aq_ring_made r"
  by (cases r; cases r') (simp add: ring_core_def aq_ring_res_def aq_ring_made_def)

lemma aq_core:
  assumes "map_option ring_core (ed_tx_ring n') = map_option ring_core (ed_tx_ring n)" "ed_rx_ring n' = ed_rx_ring n"
  shows "aq_res n' = aq_res n" "aq_made n' \<longleftrightarrow> aq_made n"
proof -
  have "aq_res n' = aq_res n \<and> aq_made n' = aq_made n"
  proof (cases "ed_tx_ring n")
    case None
    then show ?thesis using assms by (simp add: aq_res_def aq_made_def)
  next
    case (Some r)
    then obtain r' where "ed_tx_ring n' = Some r'" "ring_core r' = ring_core r" using assms(1) by auto
    then show ?thesis using Some assms(2) ring_core_res [of r' r] by (simp add: aq_res_def aq_made_def)
  qed
  then show "aq_res n' = aq_res n" "aq_made n' \<longleftrightarrow> aq_made n" by simp_all
qed

lemma aq_step_res:
  assumes "aq_step n s n' s'"
  shows "aq_res n' = aq_res n" "aq_made n' \<longleftrightarrow> aq_made n"
  using aq_core [of n' n] assms by (auto simp: aq_step_def core_def)

text \<open>The receive queue is filled.\<close>

lemma arq_assign_loop_spec:
  "aq_ring_ok ring \<Longrightarrow> \<exists>ring'. arq_assign_loop k ring = Some ring' \<and> aq_ring_ok ring' \<and> ring_core ring' = ring_core ring"
proof (induction k arbitrary: ring)
  case (Suc k)
  let ?i = "unat (aqr_next_to_use ring)"
  let ?ring = "ring\<lparr>aqr_mem := (aqr_mem ring)[?i := desc_arq (snd (aqr_bufs ring) ! ?i)], aqr_next_to_use := aq_next ring (aqr_next_to_use ring)\<rparr>"
  have i: "?i < unat (aqr_num_desc ring)" "?i < length (snd (aqr_bufs ring))" "?i < length (aqr_mem ring)" using Suc.prems by (simp_all add: aq_ring_ok_def Let_def)
  have "unat (aq_next ring (aqr_next_to_use ring)) < unat (aqr_num_desc ring)" using aq_next_less [OF i(1)] by simp
  then have "aq_ring_ok ?ring" using Suc.prems by (simp add: aq_ring_ok_def Let_def)
  from Suc.IH [OF this] show ?case using i by (auto simp: Let_def ring_core_def)
qed simp

lemma arq_assign_spec:
  assumes "ed_rx_ring n = Some ring" "aq_ring_ok ring"
  shows "\<exists>n0 ring'. i40e_aq_arq_assign n = Some (n0\<lparr>ed_rx_ring := Some ring'\<rparr>) \<and> regs_only n n0 \<and> ring_core ring' = ring_core ring"
proof (cases "i40e_aq_desc_unused ring (aqr_num_desc ring) = 0")
  case True
  have "n = n\<lparr>ed_rx_ring := Some ring\<rparr>" using assms(1) by (cases n) simp
  then show ?thesis using True assms(1) regs_only_refl by (intro exI [of _ n] exI [of _ ring]) (simp add: i40e_aq_arq_assign_def)
next
  case False
  obtain ring' where r: "arq_assign_loop (unat (i40e_aq_desc_unused ring (aqr_num_desc ring))) ring = Some ring'" "ring_core ring' = ring_core ring"
    using arq_assign_loop_spec [OF assms(2)] by blast
  have "UFP_WRITE32 a v (n\<lparr>ed_rx_ring := x\<rparr>) = (UFP_WRITE32 a v n)\<lparr>ed_rx_ring := x\<rparr>" for a v x by (simp add: UFP_WRITE32_def)
  then have "i40e_aq_arq_assign n = Some ((UFP_WRITE32 (aqr_tail ring') (ucast (aqr_next_to_use ring')) n)\<lparr>ed_rx_ring := Some ring'\<rparr>)"
    using False r(1) assms(1) by (simp add: i40e_aq_arq_assign_def)
  then show ?thesis using r(2) regs_only_write [OF regs_only_refl] by blast
qed

lemma aq_configure_regs: "\<exists>e n'. aq_configure enable ring n = (e, n') \<and> regs_only n n'"
proof -
  let ?n = "UFP_WRITE32 (aqr_bah ring) (upper32 (db_addr_dma (aqr_desc ring))) (UFP_WRITE32 (aqr_bal ring) (lower32 (db_addr_dma (aqr_desc ring)))
      (UFP_WRITE32 (aqr_len ring) (ucast (aqr_num_desc ring) OR enable) (UFP_WRITE32 (aqr_tail ring) 0 (UFP_WRITE32 (aqr_head ring) 0 n))))"
  have "regs_only n (snd (UFP_READ32 (aqr_bal ring) ?n))" by (intro regs_only_read regs_only_write regs_only_refl)
  then show ?thesis by (simp add: aq_configure_def Let_def split_def)
qed

text \<open>What the initialisation of the queues does not change of the driver.\<close>

definition aq_rest where
  "aq_rest n = (nic_polls n, nic_pages n, ed_ptr n, ed_hmc n, ed_elem n, ed_ifaces n)"

definition aq_kept :: "i40e \<Rightarrow> i40e \<Rightarrow> bool" where
  "aq_kept n n' \<longleftrightarrow> reads_sub n n' \<and> aq_rest n' = aq_rest n"

lemma aq_kept_trans: "aq_kept n n1 \<Longrightarrow> aq_kept n1 n2 \<Longrightarrow> aq_kept n n2"
  by (auto simp: aq_kept_def intro: reads_sub_trans)

lemma aq_kept_regs: "regs_only n n' \<Longrightarrow> aq_kept n n'"
  by (auto simp: aq_kept_def regs_only_def aq_rest_def)

lemma aq_kept_set: "aq_kept n (n\<lparr>ed_tx_ring := tx\<rparr>)" "aq_kept n (n\<lparr>ed_rx_ring := rx\<rparr>)" "aq_kept n (n\<lparr>ed_session := ss\<rparr>)"
  by (simp_all add: aq_kept_def aq_rest_def)

lemmas aq_kept_intros = aq_kept_trans [OF _ aq_kept_regs] aq_kept_trans [OF _ aq_kept_set(1)] aq_kept_trans [OF _ aq_kept_set(2)]
  aq_kept_trans [OF _ aq_kept_set(3)]

lemma aq_init_spec:
  assumes h: "holds s0 R s" and p: "\<forall>p \<in> sset (nic_polls n). poll_ok 128 p" and f: "list_all (\<lambda>i. ei_qs_handles (snd i) \<noteq> []) (ed_ifaces n)"
  shows "\<exists>ret n' s' leak. i40e_aq_init n s = Some (ret, n', s') \<and> leaks leak \<and> aq_kept n n' \<and>
    (if ret = 0 then aq_made n' \<and> ed_session n' = [] \<and> (\<forall>t. aq_inv n' t) \<and> holds s0 (aq_res n' + (leak + R)) s'
     else ret = -1 \<and> holds s0 (leak + R) s')"
proof -
  have fail: ?thesis if "i40e_aq_init n s = Some (-1, n', t)" "aq_kept n n'" "holds s0 (leak + R) t" "leaks leak" for n' t leak
    using that by (intro exI [of _ "-1"] exI [of _ n'] exI [of _ t] exI [of _ leak]) simp
  let ?tx = "aq_ring_regs I40E_PF_ATQT I40E_PF_ATQH I40E_PF_ATQLEN I40E_PF_ATQBAL I40E_PF_ATQBAH"
  let ?rx = "aq_ring_regs I40E_PF_ARQT I40E_PF_ARQH I40E_PF_ARQLEN I40E_PF_ARQBAL I40E_PF_ARQBAH"
  have num: "aqr_num_desc ?tx = I40E_AQ_LEN" "aqr_num_desc ?rx = I40E_AQ_LEN" by (simp_all add: aq_ring_regs_def)
  have conf: "\<exists>e n'. i40e_aq_asq_configure r n = (e, n') \<and> regs_only n n'" "\<exists>e n'. i40e_aq_arq_configure r n = (e, n') \<and> regs_only n n'" for r n
    unfolding i40e_aq_asq_configure_def i40e_aq_arq_configure_def by (rule aq_configure_regs)+
  obtain a n1 s1 l1 where 1: "aq_ring_init i40e_aq_asq_configure ?tx n s = Some (a, n1, s1)" "regs_only n n1" "leaks l1"
      "case a of None \<Rightarrow> holds s0 (l1 + R) s1 | Some r \<Rightarrow> aq_ring_made r \<and> aq_ring_ok r \<and> holds s0 (aq_ring_res r + (l1 + R)) s1"
    using aq_ring_init_spec [where configure = i40e_aq_asq_configure, OF h num(1) conf(1)] by blast
  show ?thesis
  proof (cases a)
    case None
    then show ?thesis using 1 aq_kept_regs by (intro fail [of n1 s1 l1]) (simp_all add: i40e_aq_init_def i40e_aq_asq_init_def)
  next
    case (Some tx)
    then have tx: "aq_ring_made tx" "aq_ring_ok tx" "holds s0 (aq_ring_res tx + (l1 + R)) s1" using 1(4) by simp_all
    let ?n1 = "n1\<lparr>ed_tx_ring := Some tx\<rparr>"
    obtain b n2 s2 l2 where 2: "aq_ring_init i40e_aq_arq_configure ?rx ?n1 s1 = Some (b, n2, s2)" "regs_only ?n1 n2" "leaks l2"
        "case b of None \<Rightarrow> holds s0 (l2 + (aq_ring_res tx + (l1 + R))) s2
         | Some r \<Rightarrow> aq_ring_made r \<and> aq_ring_ok r \<and> holds s0 (aq_ring_res r + (l2 + (aq_ring_res tx + (l1 + R)))) s2"
      using aq_ring_init_spec [where configure = i40e_aq_arq_configure, OF tx(3) num(2) conf(2)] by blast
    have k2: "aq_kept n n2" by (rule aq_kept_intros(1) [OF aq_kept_intros(2) [OF aq_kept_regs [OF 1(2)]] 2(2)])
    have asq: "i40e_aq_asq_init n s = Some (0, ?n1, s1)" using 1(1) Some by (simp add: i40e_aq_asq_init_def)
    show ?thesis
    proof (cases b)
      case None
      then have "holds s0 (aq_ring_res tx + ((l1 + l2) + R)) s2" using 2(4) by (simp add: res_ac)
      from aq_shutdown_spec [OF this tx(1)] obtain n3 s3 where 3: "aq_shutdown tx n2 s2 = Some (n3, s3)" "regs_only n2 n3" "holds s0 ((l1 + l2) + R) s3" by blast
      have tx2: "ed_tx_ring n2 = Some tx" using 2(2) by (auto simp: regs_only_def)
      have "aq_kept n n3" by (rule aq_kept_intros(1) [OF k2 3(2)])
      then show ?thesis using asq 1(3) 2(1,3) 3 None tx2
        by (intro fail [of n3 s3 "l1 + l2"]) (simp_all add: i40e_aq_init_def i40e_aq_arq_init_def i40e_aq_asq_shutdown_def)
    next
      case rx: (Some rx)
      then have r: "aq_ring_made rx" "aq_ring_ok rx" "holds s0 (aq_ring_res rx + (l2 + (aq_ring_res tx + (l1 + R)))) s2" using 2(4) by simp_all
      let ?n2 = "n2\<lparr>ed_rx_ring := Some rx\<rparr>"
      obtain n3 rx' where 3: "i40e_aq_arq_assign ?n2 = Some (n3\<lparr>ed_rx_ring := Some rx'\<rparr>)" "regs_only ?n2 n3" "ring_core rx' = ring_core rx"
        using arq_assign_spec [of ?n2 rx] r(2) by auto
      let ?n = "n3\<lparr>ed_rx_ring := Some rx', ed_session := []\<rparr>"
      have k: "aq_kept n ?n"
        by (rule aq_kept_intros(4) [OF aq_kept_intros(3) [OF aq_kept_intros(1) [OF aq_kept_intros(3) [OF k2] 3(2)]]])
      have n3: "ed_tx_ring n3 = Some tx" using 2(2) 3(2) by (auto simp: regs_only_def)
      have "i40e_aq_init n s = Some (0, ?n, s2)" using asq 2(1) rx 3(1) by (simp add: i40e_aq_init_def i40e_aq_arq_init_def)
      moreover have "aq_made ?n" using n3 tx(1) r(1) ring_core_res [OF 3(3)] by (simp add: aq_made_def)
      moreover have "\<forall>t. aq_inv ?n t"
      proof
        fix t
        have "nic_polls ?n = nic_polls n" "ed_ifaces ?n = ed_ifaces n" using k by (simp_all add: aq_kept_def aq_rest_def)
        moreover have "unat (aqr_num_desc tx) = 128" using tx(1) by (simp add: aq_ring_made_def I40E_AQ_LEN_def)
        ultimately show "aq_inv ?n t" using n3 tx(2) p f by (simp add: aq_inv_def)
      qed
      moreover have "holds s0 (aq_res ?n + ((l1 + l2) + R)) s2" using r(3) n3 ring_core_res [OF 3(3)] by (simp add: aq_res_def res_ac)
      ultimately show ?thesis using k 1(3) 2(3)
        by (intro exI [of _ "0 :: int"] exI [of _ ?n] exI [of _ s2] exI [of _ "l1 + l2"]) simp
    qed
  qed
qed

lemma aq_destroy_spec:
  assumes inv: "aq_inv n s" and m: "aq_made n" and h: "holds s0 (aq_res n + R) s"
  shows "\<exists>n' s' leak. i40e_aq_destroy n s = Some (n', s') \<and> ed_ptr n' = ed_ptr n \<and> leaks leak \<and> holds s0 (leak + R) s'"
proof -
  obtain r n1 s1 where 1: "aq_command i40e_aqc_req_queue_shutdown [I40E_AQ_RC_OK] n s = Some (r, n1, s1)" "aq_step n s n1 s1"
    using aq_command_step [OF inv req_ok_simple(3)] by blast
  obtain new where "holds s (elem_res new) s1" using 1(2) by (auto simp: aq_step_def)
  from holds_trans [OF h this] have h1: "holds s0 (aq_res n1 + (elem_res new + R)) s1" using aq_step_res(1) [OF 1(2)] by (simp add: res_ac)
  obtain tx rx where t: "ed_tx_ring n1 = Some tx" "ed_rx_ring n1 = Some rx" "aq_ring_made tx" "aq_ring_made rx"
    using m aq_step_res(2) [OF 1(2)] by (auto simp: aq_made_def)
  have "holds s0 (aq_ring_res tx + (aq_ring_res rx + (elem_res new + R))) s1" using h1 t by (simp add: aq_res_def res_ac)
  from aq_shutdown_spec [OF this t(3)] obtain n2 s2 where 2: "aq_shutdown tx n1 s1 = Some (n2, s2)" "regs_only n1 n2"
    "holds s0 (aq_ring_res rx + (elem_res new + R)) s2" by blast
  from aq_shutdown_spec [OF 2(3) t(4)] obtain n3 s3 where 3: "aq_shutdown rx n2 s2 = Some (n3, s3)" "holds s0 (elem_res new + R) s3"
    "regs_only n2 n3" by blast
  have p: "ed_ptr n3 = ed_ptr n" using 1(2) 2(2) 3(3) by (auto simp: regs_only_def aq_step_def core_def)
  have "ed_rx_ring n2 = Some rx" using 2(2) t(2) by (auto simp: regs_only_def)
  then have "i40e_aq_destroy n s = Some (n3, s3)" using 1(1) 2(1) 3(1) t(1)
    by (simp add: i40e_aq_destroy_def i40e_aq_asq_shutdown_def i40e_aq_arq_shutdown_def)
  then show ?thesis using 3(2) p leaks_elems by blast
qed

subsection \<open>The memory of the contexts\<close>

definition sd_res :: "i40e_hmc_sd_entry \<Rightarrow> res multiset" where
  "sd_res sd = dma_res (sd_pd_addrs sd) + dmas_res (sd_pd sd)"

definition sds_res :: "i40e_hmc_sd_entry list \<Rightarrow> res multiset" where
  "sds_res sds = sum_list (map sd_res sds)"

lemma sds_res_simps [simp]: "sds_res [] = {#}" "sds_res (a # as) = sd_res a + sds_res as" "sds_res (as @ bs) = sds_res as + sds_res bs"
  by (simp_all add: sds_res_def)

text \<open>A segment has all its pages.\<close>

definition page_ok :: "i40e \<Rightarrow> addr \<Rightarrow> bool" where
  "page_ok n a \<longleftrightarrow> length (nic_pages n a) = I40E_HMC_PAGED_BP_SIZE"

definition sd_good :: "i40e \<Rightarrow> i40e_hmc_sd_entry \<Rightarrow> bool" where
  "sd_good n sd \<longleftrightarrow> length (sd_pd sd) = I40E_HMC_MAX_BP_COUNT \<and> list_all (\<lambda>b. page_ok n (db_addr_virt b)) (sd_pd sd)"

text \<open>What the set-up of this memory does not change.\<close>

definition hmc_rest where
  "hmc_rest n = (nic_polls n, ed_ptr n, ed_tx_ring n, ed_rx_ring n, ed_session n, ed_elem n, ed_ifaces n)"

definition hmc_kept :: "i40e \<Rightarrow> i40e \<Rightarrow> bool" where
  "hmc_kept n n' \<longleftrightarrow> hmc_rest n' = hmc_rest n \<and> (\<forall>a. page_ok n a \<longrightarrow> page_ok n' a)"

lemma hmc_kept_refl: "hmc_kept n n"
  by (simp add: hmc_kept_def)

lemma hmc_kept_trans: "hmc_kept n n1 \<Longrightarrow> hmc_kept n1 n2 \<Longrightarrow> hmc_kept n n2"
  by (simp add: hmc_kept_def)

lemma hmc_kept_regs: "regs_only n n' \<Longrightarrow> hmc_kept n n'"
  by (auto simp: hmc_kept_def hmc_rest_def regs_only_def page_ok_def)

lemma hmc_kept_hmc: "hmc_kept n (n\<lparr>ed_hmc := x\<rparr>)"
  by (simp add: hmc_kept_def hmc_rest_def page_ok_def)

lemma hmc_kept_aq:
  assumes "hmc_kept n n'"
  shows "aq_res n' = aq_res n" "aq_made n' \<longleftrightarrow> aq_made n" "aq_inv n' s \<longleftrightarrow> aq_inv n s" "ed_elem n' = ed_elem n" "ed_ifaces n' = ed_ifaces n"
  using assms by (simp_all add: hmc_kept_def hmc_rest_def aq_res_def aq_made_def aq_inv_def)

lemma sd_good_kept: "hmc_kept n n' \<Longrightarrow> sd_good n sd \<Longrightarrow> sd_good n' sd"
  by (simp add: sd_good_def hmc_kept_def list_all_iff)

lemma sd_allocate_spec:
  assumes "holds s0 R s"
  shows "\<exists>r n' s' leak. i40e_hmc_sd_allocate idx n s = Some (r, n', s') \<and> leaks leak \<and> hmc_kept n n' \<and>
    (case r of None \<Rightarrow> holds s0 (leak + R) s' | Some sd \<Rightarrow> sd_good n' sd \<and> holds s0 (sd_res sd + (leak + R)) s')"
proof -
  obtain a s1 l1 where 1: "ufp_dev_dma_alloc I40E_HMC_PAGED_BP_SIZE s = Some (a, s1)" "leaks l1"
      "case a of None \<Rightarrow> holds s0 (l1 + R) s1 | Some b \<Rightarrow> holds s0 (dma_res b + (l1 + R)) s1"
    using dma_alloc_held [OF assms] by blast
  show ?thesis
  proof (cases a)
    case None
    then show ?thesis using 1 hmc_kept_refl by (intro exI [of _ None] exI [of _ n] exI [of _ s1] exI [of _ l1]) (simp add: i40e_hmc_sd_allocate_def)
  next
    case (Some b)
    then have "holds s0 (dmas_res [] + (dma_res b + (l1 + R))) s1" using 1(3) by simp
    from dma_alloc_loop_spec [OF this, of I40E_HMC_MAX_BP_COUNT I40E_HMC_PAGED_BP_SIZE] obtain ok pds s2 l2 where
      2: "dma_alloc_loop I40E_HMC_MAX_BP_COUNT I40E_HMC_PAGED_BP_SIZE [] s1 = Some (ok, pds, s2)" "leaks l2"
        "holds s0 (dmas_res pds + (l2 + (dma_res b + (l1 + R)))) s2" "ok \<longrightarrow> length pds = I40E_HMC_MAX_BP_COUNT" by auto
    show ?thesis
    proof (cases ok)
      case False
      from dma_free_loop_spec [OF 2(3)] obtain s3 where 3: "dma_free_loop pds s2 = Some s3" "holds s0 (dma_res b + (l2 + (l1 + R))) s3" by (auto simp: res_ac)
      from dma_free_spec [OF 3(2)] obtain s4 where "ufp_dev_dma_free b s3 = Some s4" "holds s0 (l2 + (l1 + R)) s4" by blast
      then show ?thesis using 1(1,2) 2(1,2) 3(1) Some False hmc_kept_refl
        by (intro exI [of _ None] exI [of _ n] exI [of _ s4] exI [of _ "l2 + l1"]) (simp add: i40e_hmc_sd_allocate_def res_ac)
    next
      case True
      let ?sd = "\<lparr>sd_pd_addrs = b, sd_addrs = map (\<lambda>pd. db_addr_dma pd OR 0x1) pds, sd_pd = pds\<rparr>"
      let ?n = "i40e_set_pf_sd_entry (db_addr_dma b) idx I40E_SD_TYPE_PAGED (new_pages pds n)"
      have "hmc_kept n (new_pages pds n)" by (simp add: hmc_kept_def hmc_rest_def new_pages_def page_ok_def)
      moreover have r: "regs_only (new_pages pds n) ?n" unfolding i40e_set_pf_sd_entry_def Let_def by (intro regs_only_write regs_only_refl)
      ultimately have k: "hmc_kept n ?n" using hmc_kept_trans hmc_kept_regs by blast
      have "sd_good (new_pages pds n) ?sd" using 2(4) True by (simp add: sd_good_def page_ok_def new_pages_def list_all_iff)
      from sd_good_kept [OF hmc_kept_regs [OF r] this] show ?thesis using 1(1,2) 2(1,2,3) Some True k
        by (intro exI [of _ "Some ?sd"] exI [of _ ?n] exI [of _ s2] exI [of _ "l2 + l1"]) (simp add: i40e_hmc_sd_allocate_def sd_res_def res_ac)
    qed
  qed
qed

lemma sd_alloc_loop_spec:
  "holds s0 (sds_res sds + R) s \<Longrightarrow> list_all (sd_good n) sds \<Longrightarrow>
   \<exists>ok sds' n' s' leak. sd_alloc_loop k sds n s = Some (ok, sds', n', s') \<and> leaks leak \<and> hmc_kept n n' \<and> list_all (sd_good n') sds' \<and>
     holds s0 (sds_res sds' + (leak + R)) s' \<and> (ok \<longrightarrow> length sds' = length sds + k)"
proof (induction k arbitrary: sds n R s)
  case 0
  then show ?case using hmc_kept_refl by (intro exI [of _ True] exI [of _ sds] exI [of _ n] exI [of _ s] exI [of _ "{#}"]) simp
next
  case (Suc k)
  obtain r n1 s1 l1 where 1: "i40e_hmc_sd_allocate (of_nat (length sds)) n s = Some (r, n1, s1)" "leaks l1" "hmc_kept n n1"
      "case r of None \<Rightarrow> holds s0 (l1 + (sds_res sds + R)) s1 | Some sd \<Rightarrow> sd_good n1 sd \<and> holds s0 (sd_res sd + (l1 + (sds_res sds + R))) s1"
    using sd_allocate_spec [OF Suc.prems(1)] by blast
  have old: "list_all (sd_good n1) sds" using Suc.prems(2) sd_good_kept [OF 1(3)] by (auto simp: list_all_iff)
  show ?case
  proof (cases r)
    case None
    then show ?thesis using 1 old by (intro exI [of _ False] exI [of _ sds] exI [of _ n1] exI [of _ s1] exI [of _ l1]) (simp add: res_ac)
  next
    case (Some sd)
    then have "holds s0 (sds_res (sds @ [sd]) + (l1 + R)) s1" "list_all (sd_good n1) (sds @ [sd])" using 1(4) old by (simp_all add: res_ac)
    from Suc.IH [OF this] obtain ok sds' n' s' l2 where "sd_alloc_loop k (sds @ [sd]) n1 s1 = Some (ok, sds', n', s')" "leaks l2" "hmc_kept n1 n'"
      "list_all (sd_good n') sds'" "holds s0 (sds_res sds' + (l2 + (l1 + R))) s'" "ok \<longrightarrow> length sds' = length (sds @ [sd]) + k" by blast
    then show ?thesis using 1(1,2) Some hmc_kept_trans [OF 1(3)]
      by (intro exI [of _ ok] exI [of _ sds'] exI [of _ n'] exI [of _ s'] exI [of _ "l2 + l1"]) (simp add: res_ac)
  qed
qed

lemma sd_release_spec:
  assumes "holds s0 (sd_res sd + R) s" "length (sd_pd sd) = I40E_HMC_MAX_BP_COUNT"
  shows "\<exists>n' s'. i40e_hmc_sd_release sd idx n s = Some (n', s') \<and> regs_only n n' \<and> holds s0 R s'"
proof -
  have "holds s0 (dmas_res (sd_pd sd) + (dma_res (sd_pd_addrs sd) + R)) s" using assms(1) by (simp add: sd_res_def res_ac)
  from dma_free_loop_spec [OF this] obtain s1 where 1: "dma_free_loop (sd_pd sd) s = Some s1" "holds s0 (dma_res (sd_pd_addrs sd) + R) s1" by blast
  from dma_free_spec [OF 1(2)] obtain s2 where "ufp_dev_dma_free (sd_pd_addrs sd) s1 = Some s2" "holds s0 R s2" by blast
  moreover have "regs_only n (pd_invalidate idx (i40e_clear_pf_sd_entry idx I40E_SD_TYPE_PAGED n))"
    unfolding pd_invalidate_def i40e_clear_pf_sd_entry_def Let_def by (intro regs_only_fold regs_only_write regs_only_refl)
  ultimately show ?thesis using 1(1) assms(2) by (simp add: i40e_hmc_sd_release_def)
qed

lemma sd_release_loop_spec:
  "holds s0 (sds_res sds + R) s \<Longrightarrow> list_all (\<lambda>sd. length (sd_pd sd) = I40E_HMC_MAX_BP_COUNT) sds \<Longrightarrow>
   \<exists>n' s'. sd_release_loop i sds n s = Some (n', s') \<and> regs_only n n' \<and> holds s0 R s'"
proof (induction sds arbitrary: i n s)
  case Nil
  then show ?case by (simp add: regs_only_refl)
next
  case (Cons sd sds)
  have "holds s0 (sd_res sd + (sds_res sds + R)) s" "length (sd_pd sd) = I40E_HMC_MAX_BP_COUNT" using Cons.prems by (simp_all add: res_ac)
  from sd_release_spec [OF this] obtain n1 s1 where 1: "i40e_hmc_sd_release sd (of_nat i) n s = Some (n1, s1)" "regs_only n n1" "holds s0 (sds_res sds + R) s1" by blast
  have "list_all (\<lambda>sd. length (sd_pd sd) = I40E_HMC_MAX_BP_COUNT) sds" using Cons.prems(2) by simp
  from Cons.IH [OF 1(3) this] obtain n' s' where "sd_release_loop (i + 1) sds n1 s1 = Some (n', s')" "regs_only n1 n'" "holds s0 R s'" by blast
  then show ?case using 1 regs_only_trans by auto
qed

definition hmc_res :: "i40e \<Rightarrow> res multiset" where
  "hmc_res n = (case hmc_sd_entry (ed_hmc n) of (p, sds) \<Rightarrow> add_mset (Heap p) (sds_res sds))"

definition hmc_made :: "i40e \<Rightarrow> bool" where
  "hmc_made n \<longleftrightarrow> length (snd (hmc_sd_entry (ed_hmc n))) = unat (hmc_sd_count (ed_hmc n)) \<and> list_all (sd_good n) (snd (hmc_sd_entry (ed_hmc n)))"

lemma sd_good_length: "list_all (sd_good n) sds \<Longrightarrow> list_all (\<lambda>sd. length (sd_pd sd) = I40E_HMC_MAX_BP_COUNT) sds"
  by (auto simp: list_all_iff sd_good_def)

lemma hmc_configure_spec:
  assumes "holds s0 (add_mset (Heap (fst (hmc_sd_entry (ed_hmc n)))) R) s"
  shows "\<exists>ret n' s' leak. i40e_hmc_configure n s = Some (ret, n', s') \<and> leaks leak \<and> hmc_kept n n' \<and>
    (if ret = 0 then hmc_made n' \<and> holds s0 (hmc_res n' + (leak + R)) s' \<and> hmc_obj_tx (ed_hmc n') = hmc_obj_tx (ed_hmc n) \<and>
       hmc_obj_rx (ed_hmc n') = hmc_obj_rx (ed_hmc n) \<and> hmc_sd_count (ed_hmc n') = hmc_sd_count (ed_hmc n)
     else ret = -1 \<and> holds s0 (add_mset (Heap (fst (hmc_sd_entry (ed_hmc n)))) (leak + R)) s')"
proof -
  let ?hmc = "ed_hmc n" and ?Q = "add_mset (Heap (fst (hmc_sd_entry (ed_hmc n)))) R"
  have h: "holds s0 (sds_res [] + ?Q) s" using assms by simp
  obtain ok sds n1 s1 leak where 1: "sd_alloc_loop (unat (hmc_sd_count ?hmc)) [] n s = Some (ok, sds, n1, s1)" "leaks leak" "hmc_kept n n1"
      "list_all (sd_good n1) sds" "holds s0 (sds_res sds + (leak + ?Q)) s1" "ok \<longrightarrow> length sds = unat (hmc_sd_count ?hmc)"
    using sd_alloc_loop_spec [OF h, of n "unat (hmc_sd_count ?hmc)"] by auto
  show ?thesis
  proof (cases ok)
    case False
    from sd_release_loop_spec [OF 1(5) sd_good_length [OF 1(4)], of 0 n1] obtain n2 s2 where
      2: "sd_release_loop 0 sds n1 s1 = Some (n2, s2)" "regs_only n1 n2" "holds s0 (leak + ?Q) s2" by blast
    then show ?thesis using 1(1,2) False hmc_kept_trans [OF 1(3) hmc_kept_regs [OF 2(2)]]
      by (intro exI [of _ "-1 :: int"] exI [of _ n2] exI [of _ s2] exI [of _ leak]) (simp add: i40e_hmc_configure_def res_ac)
  next
    case True
    let ?n = "n1\<lparr>ed_hmc := ?hmc\<lparr>hmc_sd_entry := (fst (hmc_sd_entry ?hmc), sds)\<rparr>\<rparr>" and ?pf = "ucast (ed_pf_id n1) :: u32"
    define n' where "n' = UFP_WRITE32 (I40E_GLHMC_LANRXCNT ?pf) (ho_count (hmc_obj_rx ?hmc))
      (UFP_WRITE32 (I40E_GLHMC_LANRXBASE ?pf) (hmc_base (hmc_obj_rx ?hmc) I40E_GLHMC_LANRXBASE_FPMLANRXBASE_MASK)
      (UFP_WRITE32 (I40E_GLHMC_LANTXCNT ?pf) (ho_count (hmc_obj_tx ?hmc))
      (UFP_WRITE32 (I40E_GLHMC_LANTXBASE ?pf) (hmc_base (hmc_obj_tx ?hmc) I40E_GLHMC_LANTXBASE_FPMLANTXBASE_MASK) ?n)))"
    have r: "regs_only ?n n'" unfolding n'_def by (intro regs_only_write regs_only_refl)
    then have hmc: "ed_hmc n' = ?hmc\<lparr>hmc_sd_entry := (fst (hmc_sd_entry ?hmc), sds)\<rparr>" by (auto simp: regs_only_def)
    have k: "hmc_kept n1 n'" by (rule hmc_kept_trans [OF hmc_kept_hmc hmc_kept_regs [OF r]])
    have "list_all (sd_good n') sds" using 1(4) sd_good_kept [OF k] by (auto simp: list_all_iff)
    then have "hmc_made n'" using 1(6) True by (simp add: hmc_made_def hmc)
    moreover have "holds s0 (hmc_res n' + (leak + R)) s1" using 1(5) by (simp add: hmc_res_def hmc res_ac)
    moreover have "i40e_hmc_configure n s = Some (0, n', s1)" using 1(1) True by (simp add: i40e_hmc_configure_def n'_def Let_def)
    ultimately show ?thesis using 1(2) hmc_kept_trans [OF 1(3) k] hmc
      by (intro exI [of _ "0 :: int"] exI [of _ n'] exI [of _ s1] exI [of _ leak]) simp
  qed
qed

text \<open>The device reports the sizes and the number of contexts of the data sheet; where the objects are, for what the device has reported.\<close>

definition sheet_ok :: "i40e \<Rightarrow> bool" where
  "sheet_ok n \<longleftrightarrow> sset (nic_in n I40E_GLHMC_LANTXOBJSZ) \<subseteq> {7} \<and> sset (nic_in n I40E_GLHMC_LANRXOBJSZ) \<subseteq> {5} \<and>
     sset (nic_in n I40E_GLHMC_LANQMAX) \<subseteq> {..1536}"

definition ctx_sizes :: "i40e \<Rightarrow> bool" where
  "ctx_sizes n \<longleftrightarrow> ho_size (hmc_obj_tx (ed_hmc n)) = 128 \<and> ho_size (hmc_obj_rx (ed_hmc n)) = 32 \<and> ho_count (hmc_obj_tx (ed_hmc n)) \<le> 1536"

definition hmc_layout :: "i40e_hmc \<Rightarrow> bool" where
  "hmc_layout hmc \<longleftrightarrow> (let tx = hmc_obj_tx hmc; rx = hmc_obj_rx hmc in
     ho_base tx = 0 \<and> ho_base rx = ALIGN (ucast (ho_count tx) * ho_size tx) I40E_HMC_L2OBJ_BASE_ALIGNMENT \<and>
     hmc_sd_count hmc = ucast ((ho_size tx + ho_size rx + I40E_HMC_DIRECT_BP_SIZE - 1) div I40E_HMC_DIRECT_BP_SIZE))"

lemma sheet_ok_sub: "reads_sub n n' \<Longrightarrow> sheet_ok n \<Longrightarrow> sheet_ok n'"
  unfolding sheet_ok_def reads_sub_def by blast

lemma sheet_read:
  assumes "sheet_ok n"
  shows "fst (UFP_READ32 I40E_GLHMC_LANTXOBJSZ n) = 7" "fst (UFP_READ32 I40E_GLHMC_LANRXOBJSZ n) = 5" "fst (UFP_READ32 I40E_GLHMC_LANQMAX n) \<le> 1536"
proof -
  have "shd (nic_in n r) \<in> sset (nic_in n r)" for r by (rule shd_sset)
  then show "fst (UFP_READ32 I40E_GLHMC_LANTXOBJSZ n) = 7" "fst (UFP_READ32 I40E_GLHMC_LANRXOBJSZ n) = 5" "fst (UFP_READ32 I40E_GLHMC_LANQMAX n) \<le> 1536"
    using assms unfolding sheet_ok_def UFP_READ32_def fst_conv by blast+
qed

lemma hmc_init_spec:
  assumes h: "holds s0 R s" and o: "sheet_ok n"
  shows "\<exists>ret n' s' leak. i40e_hmc_init n s = Some (ret, n', s') \<and> leaks leak \<and> hmc_kept n n' \<and>
    (if ret = 0 then hmc_made n' \<and> hmc_layout (ed_hmc n') \<and> ctx_sizes n' \<and> holds s0 (hmc_res n' + (leak + R)) s' else ret = -1 \<and> holds s0 (leak + R) s')"
proof -
  have fail: ?thesis if "i40e_hmc_init n s = Some (-1, n', t)" "hmc_kept n n'" "holds s0 (leak + R) t" "leaks leak" for n' t leak
    using that by (intro exI [of _ "-1"] exI [of _ n'] exI [of _ t] exI [of _ leak]) simp
  obtain q n1 where 1: "UFP_READ32 I40E_GLHMC_LANQMAX n = (q, n1)" by fastforce
  obtain tsh n2 where 2: "UFP_READ32 I40E_GLHMC_LANTXOBJSZ n1 = (tsh, n2)" by fastforce
  obtain rsh n3 where 3: "UFP_READ32 I40E_GLHMC_LANRXOBJSZ n2 = (rsh, n3)" by fastforce
  have r: "regs_only n n1" "regs_only n n2" "regs_only n n3"
    using regs_only_read [of n n I40E_GLHMC_LANQMAX] regs_only_read [of n n1 I40E_GLHMC_LANTXOBJSZ] regs_only_read [of n n2 I40E_GLHMC_LANRXOBJSZ]
    by (simp_all add: 1 2 3 regs_only_refl)
  then have "sheet_ok n1" "sheet_ok n2" using sheet_ok_sub o by (auto simp: regs_only_def)
  then have v: "tsh = 7" "rsh = 5" "q \<le> 1536" using sheet_read(1) [of n1] sheet_read(2) [of n2] sheet_read(3) [OF o] 1 2 3 by simp_all
  define tsz rsz :: u64 where "tsz = 128" and "rsz = 32"
  have sz: "BIT_ULL (unat tsh) = Some tsz" "BIT_ULL (unat rsh) = Some rsz" by (simp_all add: v BIT_ULL_def tsz_def rsz_def)
  let ?tx = "\<lparr>ho_base = 0, ho_count = q, ho_size = tsz\<rparr>"
  let ?rx = "\<lparr>ho_base = ho_base ?tx + ALIGN (ucast q * tsz) I40E_HMC_L2OBJ_BASE_ALIGNMENT, ho_count = q, ho_size = rsz\<rparr>"
  let ?cnt = "ucast ((tsz + rsz + I40E_HMC_DIRECT_BP_SIZE - 1) div I40E_HMC_DIRECT_BP_SIZE) :: u32"
  let ?n = "\<lambda>p. n3\<lparr>ed_hmc := \<lparr>hmc_obj_tx = ?tx, hmc_obj_rx = ?rx, hmc_sd_count = ?cnt, hmc_sd_entry = (p, [])\<rparr>\<rparr>"
  have k: "hmc_kept n (?n p)" for p by (rule hmc_kept_trans [OF hmc_kept_regs [OF r(3)] hmc_kept_hmc])
  obtain m s1 where 4: "os_get Heap s = (m, s1)" by fastforce
  note h1 = holds_trans [OF h os_get_holds [OF 4]]
  note init = i40e_hmc_init_def [of n s] 1 2 3 4 sz Let_def
  show ?thesis
  proof (cases m)
    case None
    then show ?thesis using h1 k by (intro fail [of "?n 0" s1 "{#}"]) (simp_all add: init)
  next
    case (Some p)
    define nh where "nh = ?n p"
    have e: "fst (hmc_sd_entry (ed_hmc nh)) = p" "hmc_obj_tx (ed_hmc nh) = ?tx" "hmc_obj_rx (ed_hmc nh) = ?rx" "hmc_sd_count (ed_hmc nh) = ?cnt"
      by (simp_all add: nh_def)
    have "holds s0 (add_mset (Heap (fst (hmc_sd_entry (ed_hmc nh)))) R) s1" using h1 Some e by simp
    from hmc_configure_spec [OF this] obtain ret n4 s2 leak where 5: "i40e_hmc_configure nh s1 = Some (ret, n4, s2)" "leaks leak" "hmc_kept nh n4"
        "if ret = 0 then hmc_made n4 \<and> holds s0 (hmc_res n4 + (leak + R)) s2 \<and> hmc_obj_tx (ed_hmc n4) = ?tx \<and>
           hmc_obj_rx (ed_hmc n4) = ?rx \<and> hmc_sd_count (ed_hmc n4) = ?cnt
         else ret = -1 \<and> holds s0 (add_mset (Heap p) (leak + R)) s2" unfolding e by (elim exE conjE) (rule that)
    note k4 = hmc_kept_trans [OF k 5(3) [unfolded nh_def]]
    show ?thesis
    proof (cases "ret = 0")
      case True
      then have "hmc_layout (ed_hmc n4)" "ctx_sizes n4" using 5(4) v(3) by (simp_all add: hmc_layout_def ctx_sizes_def tsz_def rsz_def)
      then show ?thesis using 5 True Some k4 by (intro exI [of _ "0 :: int"] exI [of _ n4] exI [of _ s2] exI [of _ leak]) (simp add: init nh_def)
    next
      case False
      then have f: "ret = -1" "holds s0 (add_mset (Heap p) (leak + R)) s2" using 5(4) by simp_all
      from os_put_holds [OF f(2)] obtain s3 where "os_put (Heap p) s2 = Some s3" "holds s0 (leak + R) s3" by blast
      then show ?thesis using 5(1,2) f(1) Some k4 by (intro fail [of n4 s3 leak]) (simp_all add: init nh_def)
    qed
  qed
qed

lemma hmc_destroy_spec:
  assumes m: "hmc_made n" and h: "holds s0 (hmc_res n + R) s"
  shows "\<exists>n' s'. i40e_hmc_destroy n s = Some (n', s') \<and> regs_only n n' \<and> holds s0 R s'"
proof -
  let ?e = "hmc_sd_entry (ed_hmc n)"
  have l: "length (snd ?e) = unat (hmc_sd_count (ed_hmc n))" "list_all (sd_good n) (snd ?e)" using m by (simp_all add: hmc_made_def)
  have "holds s0 (sds_res (snd ?e) + add_mset (Heap (fst ?e)) R) s" using h by (simp add: hmc_res_def split_def)
  from sd_release_loop_spec [OF this sd_good_length [OF l(2)], of 0 n] obtain n1 s1 where
    1: "sd_release_loop 0 (snd ?e) n s = Some (n1, s1)" "regs_only n n1" "holds s0 (add_mset (Heap (fst ?e)) R) s1" by blast
  have e: "hmc_sd_entry (ed_hmc n1) = ?e" using 1(2) by (auto simp: regs_only_def)
  from os_put_holds [OF 1(3)] obtain s2 where "os_put (Heap (fst ?e)) s1 = Some s2" "holds s0 R s2" by blast
  then show ?thesis using 1(1,2) l(1) e by (simp add: i40e_hmc_destroy_def i40e_hmc_shutdown_def)
qed

subsection \<open>Reset\<close>

lemma regs_only_txpre: "regs_only n0 n \<Longrightarrow> regs_only n0 (txpre_write q flag n)"
  by (simp add: txpre_write_def Let_def split_def regs_only_write regs_only_read)

lemma regs_only_each: "regs_only n0 n \<Longrightarrow> regs_only n0 (write_each reg k v n)"
  unfolding write_each_def by (intro regs_only_fold regs_only_write)

lemma regs_only_queue_clear: "regs_only n0 n \<Longrightarrow> regs_only n0 (queue_clear i n)"
  by (simp add: queue_clear_def regs_only_write)

lemma clear_hw_regs: "regs_only n (i40e_clear_hw n)"
proof -
  obtain v1 n1 where 1: "UFP_READ32 I40E_GLPCI_CNF2 n = (v1, n1)" by fastforce
  obtain v2 n2 where 2: "UFP_READ32 I40E_PFLAN_QALLOC n1 = (v2, n2)" by fastforce
  obtain v3 n3 where 3: "UFP_READ32 I40E_PF_VT_PFALLOC n2 = (v3, n3)" by fastforce
  have r: "regs_only n n3"
    using regs_only_read [of n n I40E_GLPCI_CNF2] regs_only_read [of n n1 I40E_PFLAN_QALLOC] regs_only_read [of n n2 I40E_PF_VT_PFALLOC]
    by (simp add: 1 2 3 regs_only_refl)
  show ?thesis unfolding i40e_clear_hw_def 1 2 3 Let_def split
    by (intro regs_only_fold regs_only_queue_clear regs_only_txpre regs_only_each regs_only_write r)
qed

lemma reset_hw_regs: "\<exists>e n'. i40e_reset_hw n = (e, n') \<and> regs_only n n'"
proof -
  obtain v1 n1 where 1: "UFP_READ32 I40E_GLGEN_RSTCTL n = (v1, n1)" by fastforce
  have r1: "regs_only n n1" using regs_only_read [of n n I40E_GLGEN_RSTCTL] by (simp add: 1 regs_only_refl)
  show ?thesis unfolding i40e_reset_hw_def 1 Let_def split
    by (auto simp: split_def intro!: r1 regs_only_poll regs_only_read regs_only_write)
qed

subsection \<open>The switch\<close>

text \<open>Commands that may also drop elements of the list: what is held beside the list does not change.\<close>

definition sw_ok :: "os \<Rightarrow> res multiset \<Rightarrow> (i40e \<Rightarrow> os \<Rightarrow> (int \<times> i40e \<times> os) option) \<Rightarrow> bool" where
  "sw_ok s0 R f \<longleftrightarrow> (\<forall>n s. aq_inv n s \<longrightarrow> (\<exists>k. quiet k n) \<longrightarrow> holds s0 (elem_res (ed_elem n) + R) s \<longrightarrow>
     (\<exists>ret n' s'. f n s = Some (ret, n', s') \<and> (ret = 0 \<or> ret = -1) \<and> core n' = core n \<and> aq_inv n' s' \<and> reads_sub n n' \<and>
        holds s0 (elem_res (ed_elem n') + R) s'))"

lemma sw_ok_get: "sw_ok s0 R i40e_get_swconf"
  unfolding sw_ok_def using get_swconf_step by blast

lemma sw_ok_cmd: "cmd_ok f \<Longrightarrow> sw_ok s0 R f"
  unfolding sw_ok_def
proof (intro allI impI)
  fix n s assume "cmd_ok f" and inv: "aq_inv n s" and h: "holds s0 (elem_res (ed_elem n) + R) s"
  then obtain ret n' s' where f: "f n s = Some (ret, n', s')" "ret = 0 \<or> ret = -1" "aq_step n s n' s'" using cmd_okD by blast
  then obtain new where "ed_elem n' = ed_elem n @ new" "holds s (elem_res new) s'" by (auto simp: aq_step_def)
  with holds_trans [OF h] have "holds s0 (elem_res (ed_elem n') + R) s'" by (fastforce simp: res_ac)
  then show "\<exists>ret n' s'. f n s = Some (ret, n', s') \<and> (ret = 0 \<or> ret = -1) \<and> core n' = core n \<and> aq_inv n' s' \<and> reads_sub n n' \<and>
      holds s0 (elem_res (ed_elem n') + R) s'" using f by (auto simp: aq_step_def)
qed

lemma sw_ok_then:
  assumes "sw_ok s0 R f" "sw_ok s0 R g"
  shows "sw_ok s0 R (\<lambda>n s. and_then (f n s) g)"
  unfolding sw_ok_def
proof (intro allI impI)
  fix n s assume "aq_inv n s" and q: "\<exists>k. quiet k n" and "holds s0 (elem_res (ed_elem n) + R) s"
  then obtain ret n1 s1 where f: "f n s = Some (ret, n1, s1)" "ret = 0 \<or> ret = -1" "core n1 = core n" "aq_inv n1 s1" "reads_sub n n1"
      "holds s0 (elem_res (ed_elem n1) + R) s1" using assms(1) unfolding sw_ok_def by blast
  obtain ret2 n2 s2 where g: "g n1 s1 = Some (ret2, n2, s2)" "ret2 = 0 \<or> ret2 = -1" "core n2 = core n1" "aq_inv n2 s2" "reads_sub n1 n2"
      "holds s0 (elem_res (ed_elem n2) + R) s2" using assms(2) f(4,6) q reads_sub_quiet [OF f(5)] unfolding sw_ok_def by blast
  show "\<exists>ret n' s'. and_then (f n s) g = Some (ret, n', s') \<and> (ret = 0 \<or> ret = -1) \<and> core n' = core n \<and> aq_inv n' s' \<and> reads_sub n n' \<and>
      holds s0 (elem_res (ed_elem n') + R) s'"
    using f g reads_sub_trans [OF f(5) g(5)] by (auto simp: and_then_def)
qed

lemma sw_ok_if: "sw_ok s0 R f \<Longrightarrow> sw_ok s0 R g \<Longrightarrow> sw_ok s0 R (\<lambda>n s. if P n then f n s else g n s)"
  by (simp add: sw_ok_def)

lemma sw_ok_switch:
  "sw_ok s0 R (\<lambda>n s. and_then (if ed_pf_id n = 0 then i40e_set_swconf 0 I40E_AQ_SET_SWITCH_CFG_PROMISC n s else Some (0, n, s)) (\<lambda>n s.
     and_then (i40e_configure_filter n s) (\<lambda>n s. and_then (i40e_configure_rss n s) (\<lambda>n s. i40e_get_swconf n s))))"
  by (intro sw_ok_then sw_ok_if sw_ok_cmd [OF cmds_ok(8)] sw_ok_cmd [OF cmd_ok_done] sw_ok_cmd [OF configure_filter_ok]
      sw_ok_cmd [OF configure_rss_ok] sw_ok_get)

text \<open>The interface of the first element that is one; its data stays for good.\<close>

definition dev_defaulted :: "'d ufp_dev \<Rightarrow> 'd ufp_dev \<Rightarrow> bool" where
  "dev_defaulted dev dev' \<longleftrightarrow> (\<exists>n i is. dev_iface dev = i # is \<and> dev' = dev\<lparr>dev_iface := iface_default n i # is\<rparr>)"

definition dev_kept :: "'d ufp_dev \<Rightarrow> 'd ufp_dev \<Rightarrow> bool" where
  "dev_kept dev dev' \<longleftrightarrow> (\<exists>ifs. dev' = dev\<lparr>dev_iface := ifs\<rparr> \<and> length ifs = length (dev_iface dev))"

lemma dev_kept_refl [simp]: "dev_kept dev dev"
  unfolding dev_kept_def by (rule exI [of _ "dev_iface dev"]) simp

lemma dev_defaulted_kept: "dev_defaulted dev dev' \<Longrightarrow> dev_kept dev dev'"
  by (auto simp: dev_defaulted_def dev_kept_def)

definition switch_done :: "i40e \<Rightarrow> i40e \<Rightarrow> bool" where
  "switch_done n n' \<longleftrightarrow> ed_ptr n' = ed_ptr n \<and> ed_rx_ring n' = ed_rx_ring n \<and> map_option ring_core (ed_tx_ring n') = map_option ring_core (ed_tx_ring n) \<and>
     map aqs_ptr (ed_session n') = map aqs_ptr (ed_session n) \<and> reads_sub n n'"

lemma setup_switch_spec:
  assumes inv: "aq_inv n s" and h: "holds s0 (elem_res (ed_elem n) + R) s" and d: "dev_iface dev \<noteq> []" and q: "quiet k n"
  shows "\<exists>ret n' dev' s' leak. i40e_setup_pf_switch n dev s = Some (ret, n', dev', s') \<and> (ret = 0 \<or> ret = -1) \<and> leaks leak \<and> switch_done n n' \<and>
    aq_inv n' s' \<and> holds s0 (elem_res (ed_elem n') + (leak + R)) s' \<and>
    (if ret = 0 then dev_defaulted dev dev' else dev' = dev) \<and> (ret = 0 \<longrightarrow> (\<exists>i is. ed_ifaces n' = i # is \<and> ei_base_qp (snd i) = 0))"
proof -
  obtain err n1 s1 where 1: "and_then (if ed_pf_id n = 0 then i40e_set_swconf 0 I40E_AQ_SET_SWITCH_CFG_PROMISC n s else Some (0, n, s)) (\<lambda>n s.
       and_then (i40e_configure_filter n s) (\<lambda>n s. and_then (i40e_configure_rss n s) (\<lambda>n s. i40e_get_swconf n s))) = Some (err, n1, s1)"
      "err = 0 \<or> err = -1" "core n1 = core n" "aq_inv n1 s1" "reads_sub n n1" "holds s0 (elem_res (ed_elem n1) + R) s1"
    using sw_ok_switch [of s0 R] inv h q unfolding sw_ok_def by blast
  have sd: "switch_done n n1" using 1(3,5) by (simp add: switch_done_def core_def)
  obtain s2 where 2: "i40e_clear_swconf n1 s1 = Some (n1\<lparr>ed_elem := []\<rparr>, s2)" "holds s0 R s2" "aq_inv (n1\<lparr>ed_elem := []\<rparr>) s2"
    using clear_swconf_step [OF 1(4,6)] by blast
  let ?e = "List.find (\<lambda>e. el_type (snd e) = I40E_AQ_SW_ELEM_TYPE_VSI) (ed_elem n1)"
  obtain p s3 where 3: "os_get Heap s1 = (p, s3)" by fastforce
  have nx: "os_next s1 \<le> os_next s3" using os_get_next [OF 3] by (cases p) auto
  have h3: "holds s0 (elem_res (ed_elem n1) + ((case p of None \<Rightarrow> {#} | Some x \<Rightarrow> {#Heap x#}) + R)) s3"
    using holds_trans [OF 1(6) os_get_holds [OF 3]] by (simp add: res_ac)
  have inv3: "aq_inv n1 s3" using 1(4) nx by (auto simp: aq_inv_def list_all_iff)
  have clear: ?thesis if sw: "switch_iface n1 dev s1 = do { (n, s) \<leftarrow> i40e_clear_swconf n1 t; Some (-1, n, dev, s) }" "err = 0"
      and t: "aq_inv n1 t" "holds s0 (elem_res (ed_elem n1) + R) t" for t
  proof -
    obtain s4 where "i40e_clear_swconf n1 t = Some (n1\<lparr>ed_elem := []\<rparr>, s4)" "holds s0 R s4" "aq_inv (n1\<lparr>ed_elem := []\<rparr>) s4"
      using clear_swconf_step [OF t] by blast
    moreover have "switch_done n (n1\<lparr>ed_elem := []\<rparr>)" using sd by (simp add: switch_done_def later_defs)
    ultimately show ?thesis using 1(1) sw
      by (intro exI [of _ "-1 :: int"] exI [of _ "n1\<lparr>ed_elem := []\<rparr>"] exI [of _ dev] exI [of _ s4] exI [of _ "{#}"]) (simp add: i40e_setup_pf_switch_def)
  qed
  consider "err = -1" | "err = 0" "?e = None" | e where "err = 0" "?e = Some e" "p = None" | e x where "err = 0" "?e = Some e" "p = Some x"
    using 1(2) by (cases ?e; cases p) blast+
  then show ?thesis
  proof cases
    case 1
    then show ?thesis using \<open>and_then _ _ = _\<close> \<open>aq_inv n1 s1\<close> \<open>holds s0 (elem_res (ed_elem n1) + R) s1\<close> sd
      by (intro exI [of _ "-1 :: int"] exI [of _ n1] exI [of _ dev] exI [of _ s1] exI [of _ "{#}"]) (simp add: i40e_setup_pf_switch_def)
  next
    case 2
    then show ?thesis using 1(4,6) by (intro clear [of s1]) (simp_all add: switch_iface_def)
  next
    case 3
    then show ?thesis using \<open>os_get Heap s1 = _\<close> inv3 h3 by (intro clear [of s3]) (simp_all add: switch_iface_def)
  next
    case 4
    obtain iface ifaces where d: "dev_iface dev = iface # ifaces" using d by (cases "dev_iface dev") auto
    let ?n = "n1\<lparr>ed_ifaces := (x, iface_of_elem (snd e) n1) # drop 1 (ed_ifaces n1)\<rparr>"
    let ?dev = "dev\<lparr>dev_iface := iface_default n1 iface # ifaces\<rparr>"
    have "i40e_setup_pf_switch n dev s = Some (0, ?n, ?dev, s3)" using 1(1) 3 4 d by (simp add: i40e_setup_pf_switch_def switch_iface_def)
    moreover have "aq_inv ?n s3" using inv3
      by (auto simp: aq_inv_def iface_of_elem_def I40E_MAX_TRAFFIC_CLASS_def list_all_iff dest: in_set_dropD)
    moreover have "switch_done n ?n" using sd by (simp add: switch_done_def later_defs)
    moreover have "holds s0 (elem_res (ed_elem ?n) + ({#Heap x#} + R)) s3" using h3 4 by simp
    moreover have "dev_defaulted dev ?dev" using d by (auto simp: dev_defaulted_def)
    ultimately show ?thesis
      by (intro exI [of _ "0 :: int"] exI [of _ ?n] exI [of _ ?dev] exI [of _ s3] exI [of _ "{#Heap x#}"]) (simp add: iface_of_elem_def)
  qed
qed

subsection \<open>Opening and closing\<close>

text \<open>A device that is open, and what the driver holds of it.\<close>

definition opened :: "i40e \<Rightarrow> bool" where
  "opened n \<longleftrightarrow> aq_made n \<and> hmc_made n \<and> ed_session n = [] \<and> (\<forall>s. aq_inv n s)"

definition drv_res :: "i40e \<Rightarrow> res multiset" where
  "drv_res n = aq_res n + elem_res (ed_elem n) + hmc_res n"

lemma i40e_close_spec:
  assumes o: "opened n" and h: "holds s0 (drv_res n + R) s"
  shows "\<exists>n' s' leak. i40e_close n s = Some (n', s') \<and> ed_ptr n' = ed_ptr n \<and> leaks leak \<and> holds s0 (leak + R) s'"
proof -
  have "hmc_made n" "holds s0 (hmc_res n + (elem_res (ed_elem n) + (aq_res n + R))) s" using o h by (simp_all add: opened_def drv_res_def res_ac)
  from hmc_destroy_spec [OF this] obtain n1 s1 where 1: "i40e_hmc_destroy n s = Some (n1, s1)" "regs_only n n1"
    "holds s0 (elem_res (ed_elem n) + (aq_res n + R)) s1" by blast
  note k = hmc_kept_aq [OF hmc_kept_regs [OF 1(2)]]
  have inv: "aq_inv n1 s1" and m: "aq_made n1" using o k by (simp_all add: opened_def)
  have "holds s0 (elem_res (ed_elem n1) + (aq_res n1 + R)) s1" using 1(3) k by simp
  from clear_swconf_step [OF inv this] obtain s2 where 2: "i40e_clear_swconf n1 s1 = Some (n1\<lparr>ed_elem := []\<rparr>, s2)"
    "holds s0 (aq_res n1 + R) s2" "aq_inv (n1\<lparr>ed_elem := []\<rparr>) s2" by blast
  have "aq_made (n1\<lparr>ed_elem := []\<rparr>)" "holds s0 (aq_res (n1\<lparr>ed_elem := []\<rparr>) + R) s2" using m 2(2) by (simp_all add: aq_made_def aq_res_def)
  from aq_destroy_spec [OF 2(3) this] show ?thesis using 1(1,2) 2(1) by (auto simp: i40e_close_def regs_only_def)
qed

lemma start_kept:
  obtains err n' where "i40e_reset_hw (i40e_clear_hw (i40e_set_pf_id n)) = (err, n')" "aq_kept n n'"
proof -
  obtain c n1 where 1: "UFP_READ32 I40E_GLPCI_CAPSUP n = (c, n1)" by fastforce
  obtain f n2 where 2: "UFP_READ32 I40E_PF_FUNC_RID n1 = (f, n2)" by fastforce
  have "regs_only n n2" using regs_only_read [of n n I40E_GLPCI_CAPSUP] regs_only_read [of n n1 I40E_PF_FUNC_RID] by (simp add: 1 2 regs_only_refl)
  moreover have "aq_kept n2 (i40e_set_pf_id n)" by (simp add: i40e_set_pf_id_def 1 2 Let_def aq_kept_def aq_rest_def)
  moreover obtain err n3 where "i40e_reset_hw (i40e_clear_hw (i40e_set_pf_id n)) = (err, n3)" "regs_only (i40e_clear_hw (i40e_set_pf_id n)) n3"
    using reset_hw_regs by blast
  ultimately show thesis
    using that aq_kept_trans [OF aq_kept_trans [OF aq_kept_regs] aq_kept_regs] regs_only_trans [OF clear_hw_regs] by blast
qed

text \<open>From the command queues on.\<close>

definition open_rest :: "i40e \<Rightarrow> 'd ufp_dev \<Rightarrow> os \<Rightarrow> (int \<times> i40e \<times> 'd ufp_dev \<times> os) option" where
  "open_rest n dev s =
     do { let destroy = (\<lambda>n dev s. do { (n, s) \<leftarrow> i40e_aq_destroy n s; Some (-1, n, dev, s) });
          (err, n, s) \<leftarrow> i40e_configure_pf n s;
          if err \<noteq> 0 then destroy n dev s
          else do {
            (err, n, dev, s) \<leftarrow> i40e_setup_pf_switch n dev s;
            if err \<noteq> 0 then destroy n dev s
            else do {
              (err, n, s) \<leftarrow> i40e_hmc_init n s;
              if err < 0 then destroy n dev s else Some (0, n, dev, s) } } }"

lemma open_eq:
  "i40e_open n dev s =
     (case i40e_reset_hw (i40e_clear_hw (i40e_set_pf_id n)) of (err, n) \<Rightarrow>
        if err < 0 then Some (-1, n, dev, s)
        else do { (err, n, s) \<leftarrow> i40e_aq_init n s; if err < 0 then Some (-1, n, dev, s) else open_rest n dev s })"
  unfolding i40e_open_def open_rest_def Let_def ..

lemma open_rest_spec:
  assumes m: "aq_made n" "ed_session n = []" "aq_inv n s" and h: "holds s0 (elem_res (ed_elem n) + (aq_res n + R)) s"
    and o: "sheet_ok n" and d: "dev_iface dev \<noteq> []" and q: "quiet k n"
  shows "\<exists>ret n' dev' s' leak. open_rest n dev s = Some (ret, n', dev', s') \<and> ed_ptr n' = ed_ptr n \<and> leaks leak \<and>
    (if ret = 0 then opened n' \<and> hmc_layout (ed_hmc n') \<and> ctx_sizes n' \<and> (\<exists>i is. ed_ifaces n' = i # is \<and> ei_base_qp (snd i) = 0) \<and>
       dev_defaulted dev dev' \<and> holds s0 (drv_res n' + (leak + R)) s'
     else ret = -1 \<and> dev_kept dev dev' \<and> holds s0 (leak + R) s')"
proof -
  have fail: ?thesis if eq: "open_rest n dev s = do { (n, s) \<leftarrow> i40e_aq_destroy n' t; Some (-1, n, dev', s) }" and t: "aq_inv n' t" "aq_made n'"
      "holds s0 (aq_res n' + (leak + R)) t" "leaks leak" "ed_ptr n' = ed_ptr n" "dev_kept dev dev'" for n' dev' t leak
  proof -
    from aq_destroy_spec [OF t(1-3)] obtain n2 s2 l2 where "i40e_aq_destroy n' t = Some (n2, s2)" "ed_ptr n2 = ed_ptr n'" "leaks l2" "holds s0 (l2 + (leak + R)) s2" by blast
    then show ?thesis using eq t(4-6)
      by (intro exI [of _ "-1 :: int"] exI [of _ n2] exI [of _ dev'] exI [of _ s2] exI [of _ "l2 + leak"]) (simp add: res_ac)
  qed
  obtain e1 n1 s1 where 1: "i40e_configure_pf n s = Some (e1, n1, s1)" "core n1 = core n" "aq_inv n1 s1" "reads_sub n n1"
      "holds s0 (elem_res (ed_elem n1) + (aq_res n + R)) s1" "e1 = 0 \<or> e1 = -1"
    using sw_ok_cmd [OF configure_pf_ok, of s0 "aq_res n + R"] m(3) h q unfolding sw_ok_def by blast
  have a1: "aq_res n1 = aq_res n" "aq_made n1" using aq_core [of n1 n] 1(2) m(1) by (simp_all add: core_def)
  obtain e2 n2 dev2 s2 l2 where 2: "i40e_setup_pf_switch n1 dev s1 = Some (e2, n2, dev2, s2)" "e2 = 0 \<or> e2 = -1" "leaks l2" "switch_done n1 n2"
      "aq_inv n2 s2" "holds s0 (elem_res (ed_elem n2) + (l2 + (aq_res n + R))) s2"
      "if e2 = 0 then dev_defaulted dev dev2 else dev2 = dev" "e2 = 0 \<longrightarrow> (\<exists>i is. ed_ifaces n2 = i # is \<and> ei_base_qp (snd i) = 0)"
    using setup_switch_spec [OF 1(3,5) d reads_sub_quiet [OF 1(4) q]] by blast
  have a2: "aq_res n2 = aq_res n" "aq_made n2" using aq_core [of n2 n1] 2(4) a1 by (simp_all add: switch_done_def)
  have "sheet_ok n2" using o 1(4) 2(4) by (auto simp: switch_done_def dest: sheet_ok_sub)
  from hmc_init_spec [OF 2(6) this] obtain e3 n3 s3 l3 where 3: "i40e_hmc_init n2 s2 = Some (e3, n3, s3)" "leaks l3" "hmc_kept n2 n3"
      "if e3 = 0 then hmc_made n3 \<and> hmc_layout (ed_hmc n3) \<and> ctx_sizes n3 \<and> holds s0 (hmc_res n3 + (l3 + (elem_res (ed_elem n2) + (l2 + (aq_res n + R))))) s3
       else e3 = -1 \<and> holds s0 (l3 + (elem_res (ed_elem n2) + (l2 + (aq_res n + R)))) s3" by blast
  note k = hmc_kept_aq [OF 3(3)]
  have ss: "ed_session n2 = []" "ed_session n3 = []" using m(2) 1(2) 2(4) 3(3) by (simp_all add: core_def switch_done_def hmc_kept_def hmc_rest_def)
  have pt: "ed_ptr n1 = ed_ptr n" "ed_ptr n2 = ed_ptr n" "ed_ptr n3 = ed_ptr n"
    using 1(2) 2(4) 3(3) by (simp_all add: core_def switch_done_def hmc_kept_def hmc_rest_def)
  have dk: "dev_kept dev dev2" using 2(7) dev_defaulted_kept by (auto split: if_splits)
  have inv3: "\<forall>t. aq_inv n3 t" using k(3) aq_inv_any [OF 2(5) ss(1)] by blast
  have "e3 = 0 \<or> e3 = -1" using 3(4) by (cases "e3 = 0") simp_all
  then consider "e1 = -1" | "e1 = 0" "e2 = -1" | "e1 = 0" "e2 = 0" "e3 = -1" | "e1 = 0" "e2 = 0" "e3 = 0" using 1(6) 2(2) by blast
  then show ?thesis
  proof cases
    case c: 1
    have "holds s0 (aq_res n1 + (elem_res (ed_elem n1) + R)) s1" using 1(5) a1 by (simp add: res_ac)
    then show ?thesis using 1(1,3) a1(2) c leaks_elems pt by (intro fail [of n1 s1 dev "elem_res (ed_elem n1)"]) (simp_all add: open_rest_def)
  next
    case c: 2
    have "holds s0 (aq_res n2 + ((elem_res (ed_elem n2) + l2) + R)) s2" using 2(6) a2 by (simp add: res_ac)
    then show ?thesis using 1(1) 2(1,3,5) a2(2) c leaks_elems pt dk
      by (intro fail [of n2 s2 dev2 "elem_res (ed_elem n2) + l2"]) (simp_all add: open_rest_def)
  next
    case c: 3
    have "holds s0 (aq_res n3 + ((l3 + elem_res (ed_elem n2) + l2) + R)) s3" using 3(4) c a2 k by (simp add: res_ac)
    then show ?thesis using inv3 1(1) 2(1,3) 3(1,2) a2(2) k(2) c leaks_elems pt dk
      by (intro fail [of n3 s3 dev2 "l3 + elem_res (ed_elem n2) + l2"]) (simp_all add: open_rest_def)
  next
    case c: 4
    have "opened n3" unfolding opened_def using 3(4) c a2(2) k(2) inv3 ss(2) by simp
    moreover have "holds s0 (drv_res n3 + ((l3 + l2) + R)) s3" using 3(4) c a2(1) k by (simp add: drv_res_def res_ac)
    moreover have "open_rest n dev s = Some (0, n3, dev2, s3)" using 1(1) 2(1) 3(1) c by (simp add: open_rest_def)
    ultimately show ?thesis using 2(3,7,8) 3(2,4) c k(5) pt
      by (intro exI [of _ "0 :: int"] exI [of _ n3] exI [of _ dev2] exI [of _ s3] exI [of _ "l3 + l2"]) simp
  qed
qed

lemma i40e_open_spec:
  assumes h: "holds s0 R s" and p: "\<forall>p \<in> sset (nic_polls n). poll_ok 128 p" and o: "sheet_ok n"
    and e: "ed_elem n = []" and f: "list_all (\<lambda>i. ei_qs_handles (snd i) \<noteq> []) (ed_ifaces n)" and d: "dev_iface dev \<noteq> []" and q: "quiet k n"
  shows "\<exists>ret n' dev' s' leak. i40e_open n dev s = Some (ret, n', dev', s') \<and> ed_ptr n' = ed_ptr n \<and> leaks leak \<and>
    (if ret = 0 then opened n' \<and> hmc_layout (ed_hmc n') \<and> ctx_sizes n' \<and> (\<exists>i is. ed_ifaces n' = i # is \<and> ei_base_qp (snd i) = 0) \<and>
       dev_defaulted dev dev' \<and> holds s0 (drv_res n' + (leak + R)) s'
     else ret = -1 \<and> dev_kept dev dev' \<and> holds s0 (leak + R) s')"
proof -
  have fail: ?thesis if "i40e_open n dev s = Some (-1, n', dev, t)" "holds s0 (leak + R) t" "leaks leak" "ed_ptr n' = ed_ptr n" for n' t leak
    using that by (intro exI [of _ "-1 :: int"] exI [of _ n'] exI [of _ dev] exI [of _ t] exI [of _ leak]) simp
  obtain e0 n0 where 0: "i40e_reset_hw (i40e_clear_hw (i40e_set_pf_id n)) = (e0, n0)" "aq_kept n n0" by (rule start_kept)
  then have n0: "nic_polls n0 = nic_polls n" "ed_ifaces n0 = ed_ifaces n" "ed_elem n0 = []" "ed_ptr n0 = ed_ptr n" using e by (simp_all add: aq_kept_def aq_rest_def)
  show ?thesis
  proof (cases "e0 < 0")
    case True
    then show ?thesis using 0 h n0 by (intro fail [of n0 s "{#}"]) (simp_all add: i40e_open_def)
  next
    case False
    have "\<forall>p \<in> sset (nic_polls n0). poll_ok 128 p" "list_all (\<lambda>i. ei_qs_handles (snd i) \<noteq> []) (ed_ifaces n0)" using p f n0 by simp_all
    from aq_init_spec [OF h this] obtain e1 n1 s1 l1 where 1: "i40e_aq_init n0 s = Some (e1, n1, s1)" "leaks l1" "aq_kept n0 n1"
        "if e1 = 0 then aq_made n1 \<and> ed_session n1 = [] \<and> (\<forall>t. aq_inv n1 t) \<and> holds s0 (aq_res n1 + (l1 + R)) s1 else e1 = -1 \<and> holds s0 (l1 + R) s1"
      by blast
    have pt: "ed_ptr n1 = ed_ptr n" using 1(3) n0 by (simp add: aq_kept_def aq_rest_def)
    show ?thesis
    proof (cases "e1 = 0")
      case e1: False
      then show ?thesis using 0(1) 1 False pt by (intro fail [of n1 s1 l1]) (simp_all add: i40e_open_def)
    next
      case e1: True
      then have m: "aq_made n1" "ed_session n1 = []" "aq_inv n1 s1" "holds s0 (elem_res (ed_elem n1) + (aq_res n1 + (l1 + R))) s1"
        using 1(3,4) n0 by (simp_all add: aq_kept_def aq_rest_def)
      have "sheet_ok n1" using o 0(2) 1(3) by (auto simp: aq_kept_def dest: sheet_ok_sub)
      moreover have "quiet k n1" using q 1(3) n0 by (simp add: aq_kept_def aq_rest_def quiet_def)
      ultimately have rest: "sheet_ok n1" "quiet k n1" by blast+
      from open_rest_spec [OF m rest(1) d rest(2)] 1(2) obtain ret n' dev' s' leak where r: "open_rest n1 dev s1 = Some (ret, n', dev', s')" "leaks leak"
        "if ret = 0 then opened n' \<and> hmc_layout (ed_hmc n') \<and> ctx_sizes n' \<and> (\<exists>i is. ed_ifaces n' = i # is \<and> ei_base_qp (snd i) = 0) \<and>
           dev_defaulted dev dev' \<and> holds s0 (drv_res n' + (leak + (l1 + R))) s'
         else ret = -1 \<and> dev_kept dev dev' \<and> holds s0 (leak + (l1 + R)) s'" "ed_ptr n' = ed_ptr n1" by blast
      have "i40e_open n dev s = Some (ret, n', dev', s')" using 0(1) 1(1) False e1 r(1) by (simp add: open_eq)
      then show ?thesis using r(2,3) r(4) [unfolded pt] 1(2) unfolding add.assoc [symmetric, of leak]
        by (intro exI [of _ ret] exI [of _ n'] exI [of _ dev'] exI [of _ s'] exI [of _ "leak + l1"]) (simp only: leaks_simps simp_thms)
    qed
  qed
qed

text \<open>A device that is open has a place for the context of every queue, if contexts have the sizes of the data sheet.\<close>

lemma va_placed:
  assumes m: "hmc_made n" "hmc_sd_count (ed_hmc n) = 1" and a: "unat (ucast q * ho_size obj + ho_base obj) < 2 ^ 21"
  shows "\<exists>page. i40e_hmc_va (ed_hmc n) obj q = Some (Some (page, unat (ucast q * ho_size obj + ho_base obj) mod 4096)) \<and> page_ok n page"
proof -
  let ?a = "ucast q * ho_size obj + ho_base obj" and ?sds = "snd (hmc_sd_entry (ed_hmc n))"
  define p where "p = (ucast (?a div of_nat I40E_HMC_PAGED_BP_SIZE) :: u32)"
  have "unat (?a div of_nat I40E_HMC_PAGED_BP_SIZE) = unat ?a div 4096" by (simp add: I40E_HMC_PAGED_BP_SIZE_def unat_div)
  moreover have "unat ?a div 4096 < 512" using a by simp
  ultimately have p: "unat p < 512" unfolding p_def by (simp add: unsigned_ucast_eq take_bit_nat_eq_self)
  have "unat (p div of_nat I40E_HMC_MAX_BP_COUNT) = 0" "unat (p mod of_nat I40E_HMC_MAX_BP_COUNT) = unat p"
    using p by (simp_all add: I40E_HMC_MAX_BP_COUNT_def unat_div unat_mod)
  then have d: "p div of_nat I40E_HMC_MAX_BP_COUNT = 0" "unat (p mod of_nat I40E_HMC_MAX_BP_COUNT) = unat p" by (simp_all add: unat_eq_0)
  have l: "length ?sds = 1" "list_all (sd_good n) ?sds" using m by (simp_all add: hmc_made_def)
  then obtain sd where sd: "?sds = [sd]" "sd_good n sd" by (cases ?sds) auto
  then have g: "unat p < length (sd_pd sd)" "page_ok n (db_addr_virt (sd_pd sd ! unat p))"
    using p by (auto simp: sd_good_def I40E_HMC_MAX_BP_COUNT_def list_all_length)
  have "unat (?a mod of_nat I40E_HMC_PAGED_BP_SIZE) = unat ?a mod 4096" by (simp add: I40E_HMC_PAGED_BP_SIZE_def unat_mod)
  then show ?thesis using g m(2) sd(1) d unfolding i40e_hmc_va_def Let_def p_def [symmetric] by simp
qed

lemma align_512:
  fixes x :: u64
  shows "unat (ALIGN x I40E_HMC_L2OBJ_BASE_ALIGNMENT) = 512 * (unat (x + 511) div 512)"
proof -
  have "ALIGN x I40E_HMC_L2OBJ_BASE_ALIGNMENT = (x + 511) AND NOT (mask 9)"
    by (simp add: ALIGN_def ALIGN_MASK_def I40E_HMC_L2OBJ_BASE_ALIGNMENT_def mask_eq_exp_minus_1)
  also have "\<dots> = push_bit 9 (drop_bit 9 (x + 511))"
    by (rule bit_word_eqI) (auto simp: bit_simps)
  finally have e: "ALIGN x I40E_HMC_L2OBJ_BASE_ALIGNMENT = push_bit 9 (drop_bit 9 (x + 511))" .
  have lt: "unat (x + 511) < 2 ^ 64" using unsigned_less [of "x + 511"] by simp
  moreover have "512 * (unat (x + 511) div 512) \<le> unat (x + 511)" by simp
  ultimately have "512 * (unat (x + 511) div 512) mod 2 ^ 64 = 512 * (unat (x + 511) div 512)" "unat (x + 511) mod 2 ^ 64 = unat (x + 511)" by simp_all
  then show ?thesis unfolding e unsigned_push_bit_eq unsigned_drop_bit_eq
    by (simp add: push_bit_eq_mult drop_bit_eq_div take_bit_eq_mod mult.commute)
qed

lemma opened_ready:
  assumes o: "opened n" "hmc_layout (ed_hmc n)" "ctx_sizes n" and i: "ed_ifaces n = i # is" "ei_base_qp (snd i) = 0"
    and q: "q \<noteq> 0" "q \<le> 1536"
  shows "i40e_ready n q 1"
proof -
  let ?tx = "hmc_obj_tx (ed_hmc n)" and ?rx = "hmc_obj_rx (ed_hmc n)"
  have sz: "ho_size ?tx = 128" "ho_size ?rx = 32" and c: "unat (ho_count ?tx) \<le> 1536" using o(3) by (simp_all add: ctx_sizes_def word_le_nat_alt)
  have b: "ho_base ?tx = 0" "ho_base ?rx = ALIGN (ucast (ho_count ?tx) * 128) I40E_HMC_L2OBJ_BASE_ALIGNMENT" "hmc_sd_count (ed_hmc n) = 1"
    using o(2) sz by (simp_all add: hmc_layout_def Let_def I40E_HMC_DIRECT_BP_SIZE_def)
  have "unat (ucast (ho_count ?tx) * 128 + 511 :: u64) = unat (ho_count ?tx) * 128 + 511"
    using c by (simp add: unat_word_ariths unsigned_ucast_eq take_bit_nat_eq_self)
  then obtain k where k: "unat (ho_base ?rx) = 512 * k" "k \<le> 384" using c by (simp add: b align_512)
  have place: "\<exists>page off. ctx_place n ?rx (0 + of_nat j) 32 page off" "\<exists>page off. ctx_place n ?tx (0 + of_nat j) 128 page off" if "j < 1536" for j
  proof -
    have j: "unat (ucast (of_nat j :: u16) :: u64) = j" using that by (simp add: unsigned_ucast_eq unat_of_nat take_bit_nat_eq_self)
    have r: "unat (ucast (of_nat j :: u16) * ho_size ?rx + ho_base ?rx) = 32 * (j + 16 * k)"
      using that k by (simp add: unat_word_ariths j sz)
    have al: "32 * m mod 4096 + 32 \<le> 4096" for m :: nat using mod_mult_mult1 [of 32 m 128] mod_less_divisor [of 128 m] by simp
    have al2: "128 * j mod 4096 + 128 \<le> 4096" using mod_mult_mult1 [of 128 j 32] mod_less_divisor [of 32 j] by simp
    have t: "unat (ucast (of_nat j :: u16) * ho_size ?tx + ho_base ?tx) = 128 * j"
      using that by (simp add: unat_word_ariths j sz b)
    have "hmc_made n" using o(1) by (simp add: opened_def)
    note va = va_placed [OF this b(3)]
    show "\<exists>page off. ctx_place n ?rx (0 + of_nat j) 32 page off"
      using va [of "of_nat j" ?rx] that k(2) sz al [of "j + 16 * k"] unfolding r by (auto simp: ctx_place_def page_ok_def I40E_HMC_PAGED_BP_SIZE_def)
    show "\<exists>page off. ctx_place n ?tx (0 + of_nat j) 128 page off"
      using va [of "of_nat j" ?tx] that sz al2 unfolding t by (auto simp: ctx_place_def page_ok_def I40E_HMC_PAGED_BP_SIZE_def)
  qed
  have "unat q \<le> 1536" using q(2) by (simp add: word_le_nat_alt)
  then have "queues_placed n 0 (unat q)" unfolding queues_placed_def using place by auto
  then show ?thesis using o(1) q(1) i by (simp add: i40e_ready_def opened_def)
qed

text \<open>A device that was up and is down again is still open; it holds the elements that it got meanwhile.\<close>

lemma kept_opened:
  assumes o: "opened n" and k: "drv_kept n n'"
  shows "opened n'" "drv_res n' = new_elem_res n n' + drv_res n" "ed_ptr n' = ed_ptr n"
proof -
  have c: "ed_ptr n' = ed_ptr n" "ed_hmc n' = ed_hmc n" "ed_rx_ring n' = ed_rx_ring n" "map_option ring_core (ed_tx_ring n') = map_option ring_core (ed_tx_ring n)"
    using k by (simp_all add: drv_kept_def drv_core_def)
  obtain new where e: "ed_elem n' = ed_elem n @ new" using k by (auto simp: drv_kept_def)
  have "sd_good n' = sd_good n" using k by (intro ext) (simp add: sd_good_def page_ok_def drv_kept_def)
  then show "opened n'" using o k aq_inv_no_session [of n'] c(2) aq_core(2) [OF c(4,3)] by (simp add: opened_def hmc_made_def drv_kept_def)
  show "drv_res n' = new_elem_res n n' + drv_res n"
    by (simp add: drv_res_def hmc_res_def c(2) aq_core(1) [OF c(4,3)] e new_elem_res_def res_ac)
  show "ed_ptr n' = ed_ptr n" by (rule c(1))
qed

end
