(* ===== verification/Ufp_Scan.thy ===== *)
theory Ufp_Scan
  imports Ufp_Prelude
begin

text \<open>
  What the code uses of \<open>sscanf\<close> and \<open>snprintf\<close>: unsigned numbers in decimal and hexadecimal. Strings are without their
  terminator.
\<close>

definition isspace :: "char \<Rightarrow> bool" where
  "isspace c \<longleftrightarrow> (let k = of_char c :: nat in k = 32 \<or> (9 \<le> k \<and> k \<le> 13))"

definition digit_val :: "nat \<Rightarrow> char \<Rightarrow> nat option" where
  "digit_val base c =
     (let k = of_char c :: nat;
          v = (if 48 \<le> k \<and> k \<le> 57 then k - 48 else if 97 \<le> k \<and> k \<le> 102 then k - 87 else if 65 \<le> k \<and> k \<le> 70 then k - 55 else 16)
      in if v < base then Some v else None)"

definition isdig :: "nat \<Rightarrow> char \<Rightarrow> bool" where
  "isdig base c \<longleftrightarrow> digit_val base c \<noteq> None"

fun num_of :: "nat \<Rightarrow> nat \<Rightarrow> string \<Rightarrow> nat" where
  "num_of base v [] = v"
| "num_of base v (c # cs) = num_of base (v * base + the (digit_val base c)) cs"

definition has_0x :: "nat \<Rightarrow> nat \<Rightarrow> string \<Rightarrow> bool" where
  "has_0x base width str \<longleftrightarrow> base = 16 \<and> 2 \<le> width \<and> (take 2 str = ''0x'' \<or> take 2 str = ''0X'')"

text \<open>
  A number of at most \<open>width\<close> characters, without the space in front of it, with its sign and the prefix of hexadecimal numbers. The value is that
  of \<open>strtoul\<close>: the greatest value when the number is greater, negated when the sign is negative. The second part of the result is what is not read.
\<close>

definition scan_digits :: "nat \<Rightarrow> nat \<Rightarrow> string \<Rightarrow> (nat \<times> string) option" where
  "scan_digits base width str =
     (let (width, str) = (if has_0x base width str then (width - 2, drop 2 str) else (width, str));
          ds = takeWhile (isdig base) (take width str)
      in if ds = [] then None else Some (num_of base 0 ds, drop (length ds) str))"

definition scan_uint :: "nat \<Rightarrow> nat \<Rightarrow> string \<Rightarrow> (u64 \<times> string) option" where
  "scan_uint base width str =
     (let str = dropWhile isspace str in
      case str of [] \<Rightarrow> None
      | c # cs \<Rightarrow>
          (let signed = (c = CHR ''+'' \<or> c = CHR ''-'') \<and> 0 < width in
           case (if signed then scan_digits base (width - 1) cs else scan_digits base width str) of
             None \<Rightarrow> None
           | Some (v, rest) \<Rightarrow>
               (let w = (if 2 ^ 64 \<le> v then 2 ^ 64 - 1 else v) in
                Some (if signed \<and> c = CHR ''-'' \<and> v < 2 ^ 64 then - of_nat w else of_nat w, rest))))"

definition scan_lit :: "char \<Rightarrow> string \<Rightarrow> string option" where
  "scan_lit c str = (case str of [] \<Rightarrow> None | d # ds \<Rightarrow> if d = c then Some ds else None)"

text \<open>\<open>sscanf(str, "%u", ...) == 1\<close>, with the value.\<close>

definition scan_u :: "string \<Rightarrow> u32 option" where
  "scan_u str = map_option (\<lambda>x. ucast (fst x)) (scan_uint 10 (length str) str)"

subsection \<open>Printing\<close>

definition dec_digit :: "nat \<Rightarrow> char" where
  "dec_digit d = char_of (48 + d)"

fun dec_nat :: "nat \<Rightarrow> string" where
  "dec_nat v = (if v < 10 then [dec_digit v] else dec_nat (v div 10) @ [dec_digit (v mod 10)])"

declare dec_nat.simps [simp del]

text \<open>\<open>%d\<close>\<close>

definition dec_int :: "int \<Rightarrow> string" where
  "dec_int v = (if v < 0 then CHR ''-'' # dec_nat (nat (- v)) else dec_nat (nat v))"

text \<open>\<open>snprintf\<close> to the end of the string in an array of so many bytes.\<close>

definition sn_append :: "nat \<Rightarrow> string \<Rightarrow> string \<Rightarrow> string" where
  "sn_append size_of str txt = take (size_of - 1) (str @ txt)"

lemma of_char_digit: "d < 10 \<Longrightarrow> of_char (dec_digit d) = 48 + d"
  by (simp add: dec_digit_def)

lemma digit_val_dec: "d < 10 \<Longrightarrow> digit_val 10 (dec_digit d) = Some d"
  by (simp add: digit_val_def of_char_digit)

lemma isdig_dec: "d < 10 \<Longrightarrow> isdig 10 (dec_digit d)"
  by (simp add: isdig_def digit_val_dec)

lemma num_of_append: "num_of b v (xs @ ys) = num_of b (num_of b v xs) ys"
  by (induction xs arbitrary: v) auto

lemma dec_nat_digits: "\<forall>c \<in> set (dec_nat v). isdig 10 c"
  by (induction v rule: dec_nat.induct) (subst dec_nat.simps, auto simp: isdig_dec)

lemma dec_nat_ne: "dec_nat v \<noteq> []"
  by (subst dec_nat.simps) simp

lemma num_of_dec_nat: "num_of 10 0 (dec_nat v) = v"
proof (induction v rule: dec_nat.induct)
  case (1 v)
  show ?case
  proof (cases "v < 10")
    case True
    then show ?thesis by (subst dec_nat.simps) (simp add: digit_val_dec)
  next
    case False
    then show ?thesis using 1 by (subst dec_nat.simps) (simp add: num_of_append digit_val_dec)
  qed
qed

lemma isdig_char: "isdig 10 c \<Longrightarrow> \<not> isspace c \<and> c \<noteq> CHR ''+'' \<and> c \<noteq> CHR ''-'' \<and> c \<noteq> CHR '',''"
  by (auto simp: isdig_def digit_val_def isspace_def Let_def split: if_splits)

lemma scan_digits_dec:
  assumes "rest = [] \<or> \<not> isdig 10 (hd rest)" "length (dec_nat v) \<le> w"
  shows "scan_digits 10 w (dec_nat v @ rest) = Some (v, rest)"
proof -
  have "takeWhile (isdig 10) (take (w - length (dec_nat v)) rest) = []"
    using assms(1) by (cases rest) (auto simp: take_Cons')
  then have "takeWhile (isdig 10) (take w (dec_nat v @ rest)) = dec_nat v"
    using assms(2) dec_nat_digits by (simp add: takeWhile_append2)
  then show ?thesis by (simp add: scan_digits_def has_0x_def dec_nat_ne num_of_dec_nat)
qed

lemma scan_uint_dec:
  assumes "rest = [] \<or> \<not> isdig 10 (hd rest)" "length (dec_nat v) \<le> w" "v < 2 ^ 64"
  shows "scan_uint 10 w (dec_nat v @ rest) = Some (of_nat v, rest)"
proof -
  obtain c cs where c: "dec_nat v = c # cs" using dec_nat_ne by (cases "dec_nat v") auto
  then have "isdig 10 c" using dec_nat_digits [of v] by auto
  note i = isdig_char [OF this]
  have "scan_digits 10 w (c # cs @ rest) = Some (v, rest)" using scan_digits_dec [OF assms(1,2)] c by simp
  then show ?thesis using i assms(3) by (simp add: scan_uint_def c)
qed

lemma scan_u_dec: "v < 2 ^ 32 \<Longrightarrow> scan_u (dec_nat v) = Some (of_nat v)"
  using scan_uint_dec [of "[]" v "length (dec_nat v)"] by (simp add: scan_u_def unsigned_of_nat take_bit_nat_eq_self)

end
