(* ===== verification/Ufp_Open.thy ===== *)
theory Ufp_Open
  imports Ufp_Scan Ufp_Up Ufp_Dev
begin

text \<open>
  Opening and closing a device, \<open>ufp_open\<close> and \<open>ufp_close\<close> of \<open>lib/lib_main.c\<close>. The operations of the driver are arguments, as they are pointers of
  \<open>struct ufp_ops\<close>; what the driver keeps of a device is of an arbitrary type. What memory holds before it is written is an argument.
\<close>

subsection \<open>The name of an interface\<close>

definition IFNAMSIZ :: nat where "IFNAMSIZ = 16"

text \<open>The address of a device on its bus, \<open>sscanf\<close> with the format \<open>%04hx:%02hhx:%02hhx.%01hhx\<close>.\<close>

definition pci_scan :: "string \<Rightarrow> (u16 \<times> u8 \<times> u8 \<times> u8) option" where
  "pci_scan name =
     do { (domain, r) \<leftarrow> scan_uint 16 4 name; r \<leftarrow> scan_lit CHR '':'' r;
          (bus, r) \<leftarrow> scan_uint 16 2 r; r \<leftarrow> scan_lit CHR '':'' r;
          (slot, r) \<leftarrow> scan_uint 16 2 r; r \<leftarrow> scan_lit CHR ''.'' r;
          (func, r) \<leftarrow> scan_uint 16 1 r;
          Some (ucast domain, ucast bus, ucast slot, ucast func) }"

definition ifname_of :: "u16 \<Rightarrow> u8 \<Rightarrow> u8 \<Rightarrow> u8 \<Rightarrow> string" where
  "ifname_of domain bus slot func =
     (let name = sn_append IFNAMSIZ [] ''un'';
          name = (if domain \<noteq> 0 then sn_append IFNAMSIZ name (CHR ''P'' # dec_nat (unat domain)) else name);
          name = sn_append IFNAMSIZ name (CHR ''p'' # dec_nat (unat bus));
          name = sn_append IFNAMSIZ name (CHR ''s'' # dec_nat (unat slot))
      in sn_append IFNAMSIZ name (CHR ''f'' # dec_nat (unat func)))"

definition ufp_ifname_base :: "'d ufp_dev \<Rightarrow> 'd ufp_iface \<Rightarrow> int \<times> 'd ufp_iface" where
  "ufp_ifname_base dev iface =
     (case pci_scan (dev_name dev) of
        None \<Rightarrow> (-1, iface)
      | Some (domain, bus, slot, func) \<Rightarrow> (0, iface\<lparr>if_name := ifname_of domain bus slot func\<rparr>))"

subsection \<open>The operations of the driver\<close>

type_synonym ('n, 'd) entries =
  "(('n \<times> 'd ufp_dev, 'd ufp_ops) drv_fn, 'n \<times> 'd ufp_dev \<Rightarrow> 'd ufp_ops \<Rightarrow> os \<Rightarrow> (('n \<times> 'd ufp_dev) \<times> 'd ufp_ops \<times> os) option) pci_entry list"

definition ufp_ops_alloc ::
  "('n, 'd) entries \<Rightarrow> 'd ufp_ops \<Rightarrow> 'n \<times> 'd ufp_dev \<Rightarrow> os \<Rightarrow> ((nat \<times> 'd ufp_ops) option \<times> ('n \<times> 'd ufp_dev) \<times> os) option" where
  "ufp_ops_alloc entries null x s =
     do { let (p, s) = os_get Heap s;
          case p of None \<Rightarrow> Some (None, x, s)
          | Some p \<Rightarrow> do {
              (err, x, ops, s) \<leftarrow> ufp_dev_init entries (dev_id (snd x)) x null s;
              if err \<noteq> 0 then do { s \<leftarrow> os_put (Heap p) s; Some (None, x, s) } else Some (Some (p, ops), x, s) } }"

definition ufp_ops_release :: "('n, 'd) entries \<Rightarrow> nat \<Rightarrow> 'n \<times> 'd ufp_dev \<Rightarrow> os \<Rightarrow> (('n \<times> 'd ufp_dev) \<times> os) option" where
  "ufp_ops_release entries p x s =
     do { (err, x, ops, s) \<leftarrow> ufp_dev_destroy entries (dev_id (snd x)) x (dev_ops (snd x)) s;
          s \<leftarrow> os_put (Heap p) s;
          Some (x, s) }"

subsection \<open>Opening and closing\<close>

text \<open>An open device: the handles of its structure, of its operations and of its interfaces, what the driver keeps, and the structure.\<close>

record ('n, 'd) ufp_handle =
  h_ptr :: nat
  h_ops_ptr :: nat
  h_iface_ptrs :: "nat list"
  h_drv :: 'n
  h_dev :: "'d ufp_dev"

definition dev_close :: "'d ufp_dev \<Rightarrow> os \<Rightarrow> os option" where
  "dev_close dev s = os_close (dev_fd dev) s"

definition ufp_open ::
  "('n, 'd) entries \<Rightarrow> ('n \<Rightarrow> 'd ufp_dev \<Rightarrow> os \<Rightarrow> (int \<times> 'n \<times> 'd ufp_dev \<times> os) option) \<Rightarrow>
   'd ufp_ops \<Rightarrow> 'd ufp_dev \<Rightarrow> 'd ufp_iface \<Rightarrow> string \<Rightarrow> 'n \<Rightarrow> ufp_vfio \<Rightarrow> os \<Rightarrow>
   (('n, 'd) ufp_handle option \<times> ufp_vfio \<times> os) option" where
  "ufp_open entries ops_open null dev0 iface0 name n vfio s =
     do { let (dp, s) = os_get Heap s;
          case dp of None \<Rightarrow> Some (None, vfio, s)
          | Some dp \<Rightarrow> do {
              let err_group_open = (\<lambda>vfio s. do { s \<leftarrow> os_put (Heap dp) s; Some (None, vfio, s) });
              let dev = dev0\<lparr>dev_name := take IFNAMSIZ name\<rparr>;
              (group_fd, vfio, s) \<leftarrow> ufp_vfio_group_open vfio s;
              if group_fd < 0 then err_group_open vfio s
              else do {
                let err_device_open = (\<lambda>vfio s. do { s \<leftarrow> os_close group_fd s; err_group_open vfio s });
                (err, dev, s) \<leftarrow> ufp_vfio_device_open dev group_fd s;
                if err < 0 then err_device_open vfio s
                else do {
                  let err_ops_alloc = (\<lambda>dev vfio s. do { s \<leftarrow> dev_close dev s; err_device_open vfio s });
                  (ops, (n, dev), s) \<leftarrow> ufp_ops_alloc entries null (n, dev) s;
                  case ops of None \<Rightarrow> err_ops_alloc dev vfio s
                  | Some (op, ops) \<Rightarrow> do {
                      let dev = dev\<lparr>dev_ops := ops\<rparr>;
                      let err_alloc_iface = (\<lambda>n dev vfio s. do { ((n, dev), s) \<leftarrow> ufp_ops_release entries op (n, dev) s; err_ops_alloc dev vfio s });
                      let (ip, s) = os_get Heap s;
                      case ip of None \<Rightarrow> err_alloc_iface n dev vfio s
                      | Some ip \<Rightarrow> do {
                          let err_ifname = (\<lambda>n dev vfio s. do { s \<leftarrow> os_put (Heap ip) s; err_alloc_iface n dev vfio s });
                          let (err, iface) = ufp_ifname_base dev iface0;
                          let dev = dev\<lparr>dev_iface := [iface], dev_num_ifaces := 1\<rparr>;
                          if err < 0 then err_ifname n dev vfio s
                          else do {
                            (err, s) \<leftarrow> ufp_tun_open (if_name iface) s;
                            if err < 0 then err_ifname n dev vfio s
                            else do {
                              (err, n, dev, s) \<leftarrow> ops_open n dev s;
                              if err < 0 then do { s \<leftarrow> ufp_tun_close (if_name iface) s; err_ifname n dev vfio s }
                              else do {
                                s \<leftarrow> os_close group_fd s;
                                Some (Some \<lparr>h_ptr = dp, h_ops_ptr = op, h_iface_ptrs = [ip], h_drv = n, h_dev = dev\<rparr>, vfio, s) } } } } } } } } }"

fun close_ifaces :: "nat list \<Rightarrow> 'd ufp_iface list \<Rightarrow> os \<Rightarrow> os option" where
  "close_ifaces ps [] s = Some s"
| "close_ifaces [] (iface # ifaces) s = None"
| "close_ifaces (p # ps) (iface # ifaces) s =
     do { s \<leftarrow> ufp_tun_close (if_name iface) s; s \<leftarrow> os_put (Heap p) s; close_ifaces ps ifaces s }"

definition ufp_close ::
  "('n, 'd) entries \<Rightarrow> ('n \<Rightarrow> 'd ufp_dev \<Rightarrow> os \<Rightarrow> ('n \<times> 'd ufp_dev \<times> os) option) \<Rightarrow> ('n, 'd) ufp_handle \<Rightarrow> os \<Rightarrow> os option" where
  "ufp_close entries ops_close h s =
     do { (n, dev, s) \<leftarrow> ops_close (h_drv h) (h_dev h) s;
          s \<leftarrow> close_ifaces (h_iface_ptrs h) (dev_iface dev) s;
          ((n, dev), s) \<leftarrow> ufp_ops_release entries (h_ops_ptr h) (n, dev) s;
          s \<leftarrow> os_put (Mmap (dev_bar dev)) s;
          s \<leftarrow> os_close (dev_fd dev) s;
          os_put (Heap (h_ptr h)) s }"

end
