(* ===== verification/Ufp_Open_Spec.thy ===== *)
theory Ufp_Open_Spec
  imports Ufp_Open Ufp_Up_Spec
begin

text \<open>
  Opening and closing a device are balanced, for every driver that keeps its contract.
\<close>

subsection \<open>Taps\<close>

lemma os_close_back:
  assumes "holds s0 R s" "os_open s = (fd, s1)" "holds s1 {#} s2"
  shows "\<exists>s3. os_close fd s2 = Some s3 \<and> holds s0 R s3"
proof -
  have "holds s0 (R + fd_res fd) s2" using holds_trans [OF holds_trans [OF assms(1) os_open_holds [OF assms(2)]] assms(3)] by simp
  then have "holds s0 (fd_res fd + R) s2" by (simp add: add.commute)
  from os_close_holds [OF this] show ?thesis by blast
qed

lemma tun_open_spec:
  assumes "holds s0 R s"
  shows "\<exists>ret s'. ufp_tun_open name s = Some (ret, s') \<and> holds s0 R s'"
proof -
  obtain fd s1 where 1: "os_open s = (fd, s1)" by fastforce
  obtain e2 s2 where 2: "ufp_tun_iff fd name s1 = (e2, s2)" by fastforce
  obtain e3 s3 where 3: "ufp_tun_persist fd name 1 s2 = (e3, s3)" by fastforce
  have h2: "holds s1 {#} s2" by (rule tun_requests_hold(1) [OF 2])
  have h3: "holds s1 {#} s3" using holds_trans [OF h2 tun_requests_hold(2) [OF 3]] by simp
  have "fd < 0 \<Longrightarrow> holds s0 R s1" using holds_trans [OF assms os_open_holds [OF 1]] by (simp add: fd_res_def)
  then show ?thesis using os_close_back [OF assms 1 h2] os_close_back [OF assms 1 h3] by (auto simp: ufp_tun_open_def 1 2 3)
qed

lemma tun_close_spec:
  assumes "holds s0 R s"
  shows "\<exists>s'. ufp_tun_close name s = Some s' \<and> holds s0 R s'"
proof -
  obtain fd s1 where 1: "os_open s = (fd, s1)" by fastforce
  obtain e2 s2 where 2: "ufp_tun_iff fd name s1 = (e2, s2)" by fastforce
  obtain e3 s3 where 3: "ufp_tun_persist fd name 0 s2 = (e3, s3)" by fastforce
  have h2: "holds s1 {#} s2" by (rule tun_requests_hold(1) [OF 2])
  have h3: "holds s1 {#} s3" using holds_trans [OF h2 tun_requests_hold(2) [OF 3]] by simp
  have "fd < 0 \<Longrightarrow> holds s0 R s1" using holds_trans [OF assms os_open_holds [OF 1]] by (simp add: fd_res_def)
  then show ?thesis using os_close_back [OF assms 1 h2] os_close_back [OF assms 1 h3] by (auto simp: ufp_tun_close_def 1 2 3)
qed

lemma close_ifaces_spec:
  "holds s0 (image_mset Heap (mset ps) + R) s \<Longrightarrow> length ps = length ifs \<Longrightarrow> \<exists>s'. close_ifaces ps ifs s = Some s' \<and> holds s0 R s'"
proof (induction ps ifs arbitrary: s rule: list_induct2')
  case (4 p ps i ifs)
  from tun_close_spec [OF "4.prems"(1)] obtain s1 where 1: "ufp_tun_close (if_name i) s = Some s1" "holds s0 (image_mset Heap (mset (p # ps)) + R) s1" by blast
  from 1(2) have "holds s0 (add_mset (Heap p) (image_mset Heap (mset ps) + R)) s1" by simp
  from os_put_holds [OF this] obtain s2 where 2: "os_put (Heap p) s1 = Some s2" "holds s0 (image_mset Heap (mset ps) + R) s2" by blast
  from "4.IH" [OF 2(2)] "4.prems"(2) 1(1) 2(1) show ?case by auto
qed simp_all

subsection \<open>The steps of \<open>ufp_open\<close>\<close>

text \<open>The ways back.\<close>

definition undo_group where
  "undo_group dp g vfio s = do { s \<leftarrow> os_close g s; s \<leftarrow> os_put (Heap dp) s; Some (None, vfio, s) }"

definition undo_device where
  "undo_device dp g dev vfio s = do { s \<leftarrow> dev_close dev s; undo_group dp g vfio s }"

definition undo_ops where
  "undo_ops entries dp g op n dev vfio s = do { ((n, dev), s) \<leftarrow> ufp_ops_release entries op (n, dev) s; undo_device dp g dev vfio s }"

definition undo_iface where
  "undo_iface entries dp g op ip n dev vfio s = do { s \<leftarrow> os_put (Heap ip) s; undo_ops entries dp g op n dev vfio s }"

definition open_last where
  "open_last entries ops_open dp g op ip name n dev vfio s =
     do { (err, s) \<leftarrow> ufp_tun_open name s;
          if err < 0 then undo_iface entries dp g op ip n dev vfio s
          else do {
            (err, n, dev, s) \<leftarrow> ops_open n dev s;
            if err < 0 then do { s \<leftarrow> ufp_tun_close name s; undo_iface entries dp g op ip n dev vfio s }
            else do {
              s \<leftarrow> os_close g s;
              Some (Some \<lparr>h_ptr = dp, h_ops_ptr = op, h_iface_ptrs = [ip], h_drv = n, h_dev = dev\<rparr>, vfio, s) } } }"

definition open_iface where
  "open_iface entries ops_open iface0 dp g op n dev vfio s =
     (case os_get Heap s of
        (None, s) \<Rightarrow> undo_ops entries dp g op n dev vfio s
      | (Some ip, s) \<Rightarrow>
          (case ufp_ifname_base dev iface0 of (err, iface) \<Rightarrow>
             if err < 0 then undo_iface entries dp g op ip n (dev\<lparr>dev_iface := [iface], dev_num_ifaces := 1\<rparr>) vfio s
             else open_last entries ops_open dp g op ip (if_name iface) n (dev\<lparr>dev_iface := [iface], dev_num_ifaces := 1\<rparr>) vfio s))"

definition open_device where
  "open_device entries ops_open null dev iface0 dp g n vfio s =
     do { (err, dev, s) \<leftarrow> ufp_vfio_device_open dev g s;
          if err < 0 then undo_group dp g vfio s
          else do {
            (ops, (n, dev), s) \<leftarrow> ufp_ops_alloc entries null (n, dev) s;
            case ops of None \<Rightarrow> undo_device dp g dev vfio s
            | Some (op, ops) \<Rightarrow> open_iface entries ops_open iface0 dp g op n (dev\<lparr>dev_ops := ops\<rparr>) vfio s } }"

lemma ufp_open_parts:
  "ufp_open entries ops_open null dev0 iface0 name n vfio s =
     (case os_get Heap s of
        (None, s) \<Rightarrow> Some (None, vfio, s)
      | (Some dp, s) \<Rightarrow> do {
          (g, vfio, s) \<leftarrow> ufp_vfio_group_open vfio s;
          if g < 0 then do { s \<leftarrow> os_put (Heap dp) s; Some (None, vfio, s) }
          else open_device entries ops_open null (dev0\<lparr>dev_name := take IFNAMSIZ name\<rparr>) iface0 dp g n vfio s })"
  by (simp add: ufp_open_def open_device_def open_iface_def open_last_def undo_iface_def undo_ops_def undo_device_def undo_group_def Let_def
      split: prod.split option.split cong: prod.case_cong option.case_cong if_cong)

subsection \<open>The contract of a driver\<close>

text \<open>
  What the library relies on when a device is opened: \<open>init\<close> gives the driver its structure; \<open>open\<close> brings the driver into a state in which
  \<open>close\<close> can be called, or leaves nothing but memory of \<open>malloc\<close>; \<open>destroy\<close> gives back the structure. The arguments describe the driver before \<open>init\<close>, after
  it with the number of interrupts that it needs, the outcome of \<open>open\<close>, and when \<open>close\<close> can be called; then the structure of the driver, and what it holds when
  it is open.
\<close>

text \<open>After a failure of \<open>ufp_open\<close> the mapping of the registers can be left as well: no way back removes it.\<close>

definition bar_leaks :: "res multiset \<Rightarrow> bool" where
  "bar_leaks R \<longleftrightarrow> (\<exists>l b. leaks l \<and> (R = l \<or> R = add_mset (Mmap b) l))"

lemma leaks_bar: "leaks R \<Longrightarrow> bar_leaks R" "leaks R \<Longrightarrow> bar_leaks (add_mset (Mmap b) R)"
  by (auto simp: bar_leaks_def)

locale dev_opener =
  fixes entries :: "('n, 'd) entries"
    and ops_open :: "'n \<Rightarrow> 'd ufp_dev \<Rightarrow> os \<Rightarrow> (int \<times> 'n \<times> 'd ufp_dev \<times> os) option"
    and ops_close :: "'n \<Rightarrow> 'd ufp_dev \<Rightarrow> os \<Rightarrow> ('n \<times> 'd ufp_dev \<times> os) option"
    and seed :: "'n \<Rightarrow> bool"
    and fresh :: "'n \<Rightarrow> u32 \<Rightarrow> bool"
    and is_open :: "'n \<Rightarrow> 'd ufp_dev \<Rightarrow> bool"
    and can_close :: "'n \<Rightarrow> bool"
    and drv_mem :: "'n \<Rightarrow> res multiset"
    and drv_open :: "'n \<Rightarrow> res multiset"
  assumes init: "e \<in> set entries \<Longrightarrow> seed n \<Longrightarrow> holds s0 R s \<Longrightarrow>
      \<exists>ret n' dev' ops' s'. pe_init e (n, dev) ops s = Some (ret, (n', dev'), ops', s') \<and> dev_base dev' = dev_base dev \<and>
        (if ret = 0 then fresh n' (dev_num_misc_irqs dev') \<and> holds s0 (drv_mem n' + R) s' else holds s0 R s')"
    and destroy: "e \<in> set entries \<Longrightarrow> holds s0 (drv_mem n + R) s \<Longrightarrow>
      \<exists>n' dev' ops' s'. pe_destroy e (n, dev) ops s = Some ((n', dev'), ops', s') \<and> dev_base dev' = dev_base dev \<and> holds s0 R s'"
    and op_open: "fresh n (dev_num_misc_irqs dev) \<Longrightarrow> dev_iface dev = [i] \<Longrightarrow> holds s0 R s \<Longrightarrow>
      \<exists>ret n' dev' s' leak. ops_open n dev s = Some (ret, n', dev', s') \<and> leaks leak \<and> drv_mem n' = drv_mem n \<and> dev_base dev' = dev_base dev \<and>
        length (dev_iface dev') = 1 \<and>
        (if ret = 0 then is_open n' dev' \<and> holds s0 (drv_open n' + (leak + R)) s' else ret = -1 \<and> holds s0 (leak + R) s')"
    and closable: "is_open n dev \<Longrightarrow> can_close n"
    and op_close: "can_close n \<Longrightarrow> holds s0 (drv_open n + R) s \<Longrightarrow>
      \<exists>n' dev' s' leak. ops_close n dev s = Some (n', dev', s') \<and> leaks leak \<and> drv_mem n' = drv_mem n \<and> dev_base dev' = dev_base dev \<and>
        length (dev_iface dev') = length (dev_iface dev) \<and> holds s0 (leak + R) s'"
begin

text \<open>What an open device holds, and when it can be closed.\<close>

definition handle_res :: "('n, 'd) ufp_handle \<Rightarrow> res multiset" where
  "handle_res h = add_mset (Heap (h_ptr h)) (add_mset (Heap (h_ops_ptr h)) (image_mset Heap (mset (h_iface_ptrs h)) +
     (drv_mem (h_drv h) + (dev_res (h_dev h) + drv_open (h_drv h)))))"

definition handle_ok :: "('n, 'd) ufp_handle \<Rightarrow> bool" where
  "handle_ok h \<longleftrightarrow> can_close (h_drv h) \<and> entry_find (dev_id (h_dev h)) entries \<noteq> None \<and> length (h_iface_ptrs h) = length (dev_iface (h_dev h))"

lemma found: "entry_find t es = Some e \<Longrightarrow> e \<in> set es"
  by (induction es) (auto split: if_splits)

lemma dev_id_base: "dev_base dev' = dev_base dev \<Longrightarrow> dev_id dev' = dev_id dev"
  by (simp add: dev_base_def dev_id_def)

lemma release_spec:
  assumes f: "entry_find (dev_id dev) entries \<noteq> None" and h: "holds s0 (add_mset (Heap op) (drv_mem n + R)) s"
  shows "\<exists>n' dev' s'. ufp_ops_release entries op (n, dev) s = Some ((n', dev'), s') \<and> dev_base dev' = dev_base dev \<and> holds s0 R s'"
proof -
  obtain e where e: "entry_find (dev_id dev) entries = Some e" using f by blast
  have "holds s0 (drv_mem n + add_mset (Heap op) R) s" using h by simp
  from destroy [OF found [OF e] this, of dev "dev_ops dev"] obtain n' dev' ops' s1 where
    1: "pe_destroy e (n, dev) (dev_ops dev) s = Some ((n', dev'), ops', s1)" "dev_base dev' = dev_base dev" "holds s0 (add_mset (Heap op) R) s1" by blast
  from os_put_holds [OF 1(3)] show ?thesis using 1(1,2) e by (auto simp: ufp_ops_release_def ufp_dev_destroy_def)
qed

lemma alloc_spec:
  assumes n: "seed n" and h: "holds s0 R s"
  shows "\<exists>r n' dev' s'. ufp_ops_alloc entries null (n, dev) s = Some (r, (n', dev'), s') \<and> dev_base dev' = dev_base dev \<and>
    (case r of None \<Rightarrow> holds s0 R s'
     | Some (op, ops) \<Rightarrow> fresh n' (dev_num_misc_irqs dev') \<and> entry_find (dev_id dev') entries \<noteq> None \<and> holds s0 (add_mset (Heap op) (drv_mem n' + R)) s')"
proof -
  obtain p s1 where 1: "os_get Heap s = (p, s1)" by fastforce
  note h1 = holds_trans [OF h os_get_holds [OF 1]]
  show ?thesis
  proof (cases p)
    case None
    then show ?thesis using 1 h1 by (simp add: ufp_ops_alloc_def)
  next
    case (Some op)
    then have h2: "holds s0 (add_mset (Heap op) R) s1" using h1 by simp
    have free_op: "\<exists>s2. os_put (Heap op) t = Some s2 \<and> holds s0 R s2" if "holds s0 (add_mset (Heap op) R) t" for t
      by (rule os_put_holds [OF that])
    show ?thesis
    proof (cases "entry_find (dev_id dev) entries")
      case None
      then show ?thesis using 1 Some free_op [OF h2] by (auto simp: ufp_ops_alloc_def ufp_dev_init_def)
    next
      case e: (Some e)
      from init [OF found [OF e] n h2, of dev null] obtain ret n' dev' ops' s2 where
        2: "pe_init e (n, dev) null s1 = Some (ret, (n', dev'), ops', s2)" "dev_base dev' = dev_base dev"
          "if ret = 0 then fresh n' (dev_num_misc_irqs dev') \<and> holds s0 (drv_mem n' + add_mset (Heap op) R) s2 else holds s0 (add_mset (Heap op) R) s2" by blast
      show ?thesis
      proof (cases "ret = 0")
        case True
        then show ?thesis using 1 Some e 2 dev_id_base [OF 2(2)] by (simp add: ufp_ops_alloc_def ufp_dev_init_def)
      next
        case False
        then have "holds s0 (add_mset (Heap op) R) s2" using 2(3) by simp
        from free_op [OF this] show ?thesis using 1 Some e 2(1,2) False by (auto simp: ufp_ops_alloc_def ufp_dev_init_def)
      qed
    qed
  qed
qed

lemma close_spec:
  assumes k: "handle_ok h" and r: "holds s0 (handle_res h + R) s"
  shows "\<exists>s' leak. ufp_close entries ops_close h s = Some s' \<and> leaks leak \<and> holds s0 (leak + R) s'"
proof -
  let ?n = "h_drv h" and ?dev = "h_dev h"
  have "can_close ?n" using k by (simp add: handle_ok_def)
  moreover let ?Q = "add_mset (Heap (h_ptr h)) (add_mset (Heap (h_ops_ptr h)) (image_mset Heap (mset (h_iface_ptrs h)) + (drv_mem ?n + (dev_res ?dev + R))))"
  have "holds s0 (drv_open ?n + ?Q) s" using r by (simp add: handle_res_def add_ac)
  ultimately obtain n1 dev1 s1 leak where 1: "ops_close ?n ?dev s = Some (n1, dev1, s1)" "leaks leak" "drv_mem n1 = drv_mem ?n" "dev_base dev1 = dev_base ?dev"
      "length (dev_iface dev1) = length (dev_iface ?dev)" "holds s0 (leak + ?Q) s1" using op_close [of ?n s0 ?Q s ?dev] by blast
  have "holds s0 (image_mset Heap (mset (h_iface_ptrs h)) + add_mset (Heap (h_ops_ptr h)) (drv_mem n1 + add_mset (Heap (h_ptr h)) (dev_res ?dev + (leak + R)))) s1"
    using 1(3,6) by (simp add: add_ac add_mset_commute)
  from close_ifaces_spec [OF this, of "dev_iface dev1"] k 1(5) obtain s2 where 2: "close_ifaces (h_iface_ptrs h) (dev_iface dev1) s1 = Some s2"
      "holds s0 (add_mset (Heap (h_ops_ptr h)) (drv_mem n1 + add_mset (Heap (h_ptr h)) (dev_res ?dev + (leak + R)))) s2" by (auto simp: handle_ok_def)
  have "entry_find (dev_id dev1) entries \<noteq> None" using k dev_id_base [OF 1(4)] by (simp add: handle_ok_def)
  from release_spec [OF this 2(2)] obtain n3 dev3 s3 where 3: "ufp_ops_release entries (h_ops_ptr h) (n1, dev1) s2 = Some ((n3, dev3), s3)"
      "dev_base dev3 = dev_base dev1" "holds s0 (add_mset (Heap (h_ptr h)) (dev_res ?dev + (leak + R))) s3" by blast
  have b: "dev_bar dev3 = dev_bar ?dev" "dev_fd dev3 = dev_fd ?dev" using 1(4) 3(2) by (simp_all add: dev_base_def)
  have "holds s0 (add_mset (Mmap (dev_bar ?dev)) (fd_res (dev_fd ?dev) + add_mset (Heap (h_ptr h)) (leak + R))) s3" using 3(3) by (simp add: dev_res_def add_mset_commute)
  from os_put_holds [OF this] obtain s4 where 4: "os_put (Mmap (dev_bar ?dev)) s3 = Some s4" "holds s0 (fd_res (dev_fd ?dev) + add_mset (Heap (h_ptr h)) (leak + R)) s4" by blast
  from os_close_holds [OF 4(2)] obtain s5 where 5: "os_close (dev_fd ?dev) s4 = Some s5" "holds s0 (add_mset (Heap (h_ptr h)) (leak + R)) s5" by blast
  from os_put_holds [OF 5(2)] show ?thesis using 1(1,2) 2(1) 3(1) 4(1) 5(1) b by (auto simp: ufp_close_def)
qed

text \<open>The ways back.\<close>

lemma undo_group_spec:
  assumes "holds s0 (fd_res g + add_mset (Heap dp) Q) s"
  shows "\<exists>s'. undo_group dp g vfio s = Some (None, vfio, s') \<and> holds s0 Q s'"
proof -
  from os_close_holds [OF assms] obtain s1 where 1: "os_close g s = Some s1" "holds s0 (add_mset (Heap dp) Q) s1" by blast
  from os_put_holds [OF 1(2)] show ?thesis using 1(1) by (auto simp: undo_group_def)
qed

lemma undo_device_spec:
  assumes "holds s0 (dev_res dev + (fd_res g + add_mset (Heap dp) Q)) s"
  shows "\<exists>s'. undo_device dp g dev vfio s = Some (None, vfio, s') \<and> holds s0 (add_mset (Mmap (dev_bar dev)) Q) s'"
proof -
  have "holds s0 (fd_res (dev_fd dev) + (fd_res g + add_mset (Heap dp) (add_mset (Mmap (dev_bar dev)) Q))) s"
    using assms by (simp add: dev_res_def add_ac add_mset_commute)
  from os_close_holds [OF this] obtain s1 where 1: "os_close (dev_fd dev) s = Some s1"
    "holds s0 (fd_res g + add_mset (Heap dp) (add_mset (Mmap (dev_bar dev)) Q)) s1" by blast
  from undo_group_spec [OF 1(2)] show ?thesis using 1(1) by (simp add: undo_device_def dev_close_def)
qed

lemma undo_ops_spec:
  assumes f: "entry_find (dev_id dev) entries \<noteq> None"
    and h: "holds s0 (add_mset (Heap op) (drv_mem n + (dev_res dev + (fd_res g + add_mset (Heap dp) Q)))) s"
  shows "\<exists>s'. undo_ops entries dp g op n dev vfio s = Some (None, vfio, s') \<and> holds s0 (add_mset (Mmap (dev_bar dev)) Q) s'"
proof -
  from release_spec [OF f h] obtain n1 dev1 s1 where 1: "ufp_ops_release entries op (n, dev) s = Some ((n1, dev1), s1)" "dev_base dev1 = dev_base dev"
    "holds s0 (dev_res dev + (fd_res g + add_mset (Heap dp) Q)) s1" by blast
  then have "dev_res dev = dev_res dev1" "dev_bar dev = dev_bar dev1" by (simp_all add: dev_res_def dev_base_def)
  then show ?thesis using undo_device_spec [of s0 dev1 g dp Q s1] 1 by (simp add: undo_ops_def)
qed

lemma undo_iface_spec:
  assumes f: "entry_find (dev_id dev) entries \<noteq> None"
    and h: "holds s0 (add_mset (Heap ip) (add_mset (Heap op) (drv_mem n + (dev_res dev + (fd_res g + add_mset (Heap dp) Q))))) s"
  shows "\<exists>s'. undo_iface entries dp g op ip n dev vfio s = Some (None, vfio, s') \<and> holds s0 (add_mset (Mmap (dev_bar dev)) Q) s'"
proof -
  from os_put_holds [OF h] obtain s1 where 1: "os_put (Heap ip) s = Some s1"
    "holds s0 (add_mset (Heap op) (drv_mem n + (dev_res dev + (fd_res g + add_mset (Heap dp) Q)))) s1" by blast
  from undo_ops_spec [OF f 1(2)] show ?thesis using 1(1) by (simp add: undo_iface_def)
qed

text \<open>The outcome of opening.\<close>

definition open_done where
  "open_done s0 R r \<longleftrightarrow> (\<exists>h vfio' s' leak. r = Some (h, vfio' :: ufp_vfio, s') \<and>
     (case h of None \<Rightarrow> bar_leaks leak \<and> holds s0 (leak + R) s'
      | Some h \<Rightarrow> handle_ok h \<and> is_open (h_drv h) (h_dev h) \<and> length (dev_iface (h_dev h)) = 1 \<and> leaks leak \<and> holds s0 (handle_res h + (leak + R)) s'))"

lemma open_done_failed: "\<exists>s'. r = Some (None, vfio, s') \<and> holds s0 (leak + R) s' \<Longrightarrow> bar_leaks leak \<Longrightarrow> open_done s0 R r"
  unfolding open_done_def by (elim exE, rule exI [of _ None]) auto

lemma open_done_undone: "\<exists>s'. r = Some (None, vfio, s') \<and> holds s0 (add_mset (Mmap b) (leak + R)) s' \<Longrightarrow> leaks leak \<Longrightarrow> open_done s0 R r"
  by (rule open_done_failed [of r vfio s0 "add_mset (Mmap b) leak" R]) (simp_all add: leaks_bar)

lemma open_last_done:
  assumes f: "entry_find (dev_id dev) entries \<noteq> None" and d: "fresh n (dev_num_misc_irqs dev)" "dev_iface dev = [i]"
    and h: "holds s0 (add_mset (Heap ip) (add_mset (Heap op) (drv_mem n + (dev_res dev + (fd_res g + add_mset (Heap dp) R))))) s"
  shows "open_done s0 R (open_last entries ops_open dp g op ip name n dev vfio s)"
proof -
  let ?H = "\<lambda>n dev Q. add_mset (Heap ip) (add_mset (Heap op) (drv_mem n + (dev_res dev + (fd_res g + add_mset (Heap dp) Q))))"
  from tun_open_spec [OF h, of name] obtain e1 s1 where 1: "ufp_tun_open name s = Some (e1, s1)" "holds s0 (?H n dev R) s1" by blast
  from op_open [OF d 1(2)] obtain e2 n2 dev2 s2 leak where 2: "ops_open n dev s1 = Some (e2, n2, dev2, s2)" "leaks leak" "drv_mem n2 = drv_mem n"
      "dev_base dev2 = dev_base dev" "length (dev_iface dev2) = 1"
      "if e2 = 0 then is_open n2 dev2 \<and> holds s0 (drv_open n2 + (leak + ?H n dev R)) s2 else e2 = -1 \<and> holds s0 (leak + ?H n dev R) s2" by blast
  have r2: "dev_res dev2 = dev_res dev" "entry_find (dev_id dev2) entries \<noteq> None"
    using 2(4) f dev_id_base [OF 2(4)] by (simp_all add: dev_res_def dev_base_def)
  consider "e1 < 0" | "\<not> e1 < 0" "e2 = -1" | "\<not> e1 < 0" "e2 = 0" using 2(6) by (cases "e2 = 0") auto
  then show ?thesis
  proof cases
    case 1
    have "holds s0 (?H n dev ({#} + R)) s1" using \<open>holds s0 (?H n dev R) s1\<close> by simp
    from open_done_undone [OF undo_iface_spec [OF f this]] show ?thesis using \<open>ufp_tun_open name s = _\<close> 1 by (simp add: open_last_def)
  next
    case 2
    then have "holds s0 (?H n2 dev2 (leak + R)) s2" using \<open>if e2 = 0 then _ else _\<close> \<open>drv_mem n2 = _\<close> r2(1) by (simp add: add_ac add_mset_commute)
    from tun_close_spec [OF this, of name] obtain s3 where 3: "ufp_tun_close name s2 = Some s3" "holds s0 (?H n2 dev2 (leak + R)) s3" by blast
    from open_done_undone [OF undo_iface_spec [OF r2(2) 3(2)] \<open>leaks leak\<close>] show ?thesis using 1(1) \<open>ops_open n dev s1 = _\<close> 2 3(1)
      by (simp add: open_last_def)
  next
    case 3
    let ?h = "\<lparr>h_ptr = dp, h_ops_ptr = op, h_iface_ptrs = [ip], h_drv = n2, h_dev = dev2\<rparr>"
    have o: "is_open n2 dev2" "holds s0 (fd_res g + (handle_res ?h + (leak + R))) s2"
      using 3 2(3,6) r2(1) by (simp_all add: handle_res_def add_ac add_mset_commute)
    from os_close_holds [OF o(2)] obtain s3 where c: "os_close g s2 = Some s3" "holds s0 (handle_res ?h + (leak + R)) s3" by blast
    have "handle_ok ?h" using closable [OF o(1)] r2(2) 2(5) by (simp add: handle_ok_def)
    moreover have "open_last entries ops_open dp g op ip name n dev vfio s = Some (Some ?h, vfio, s3)" using 1(1) 2(1) c(1) 3 by (simp add: open_last_def)
    ultimately show ?thesis unfolding open_done_def using o(1) 2(2,5) c(2)
      by (intro exI [of _ "Some ?h"] exI [of _ vfio] exI [of _ s3] exI [of _ leak]) simp
  qed
qed

lemma open_iface_done:
  assumes f: "entry_find (dev_id dev) entries \<noteq> None" and d: "fresh n (dev_num_misc_irqs dev)"
    and h: "holds s0 (add_mset (Heap op) (drv_mem n + (dev_res dev + (fd_res g + add_mset (Heap dp) R)))) s"
  shows "open_done s0 R (open_iface entries ops_open iface0 dp g op n dev vfio s)"
proof -
  obtain p s1 where 1: "os_get Heap s = (p, s1)" by fastforce
  note h1 = holds_trans [OF h os_get_holds [OF 1]]
  obtain e i where 2: "ufp_ifname_base dev iface0 = (e, i)" by fastforce
  let ?dev = "dev\<lparr>dev_iface := [i], dev_num_ifaces := 1\<rparr>"
  have b: "dev_res ?dev = dev_res dev" "dev_id ?dev = dev_id dev" by (simp_all add: dev_res_def dev_id_def)
  show ?thesis
  proof (cases p)
    case None
    then have "holds s0 (add_mset (Heap op) (drv_mem n + (dev_res dev + (fd_res g + add_mset (Heap dp) ({#} + R))))) s1" using h1 by simp
    from open_done_undone [OF undo_ops_spec [OF f this]] show ?thesis using 1 None by (simp add: open_iface_def)
  next
    case (Some ip)
    have f2: "entry_find (dev_id ?dev) entries \<noteq> None" "fresh n (dev_num_misc_irqs ?dev)" "dev_iface ?dev = [i]" using f d b by simp_all
    have h2: "holds s0 (add_mset (Heap ip) (add_mset (Heap op) (drv_mem n + (dev_res ?dev + (fd_res g + add_mset (Heap dp) R))))) s1"
      using h1 Some unfolding b by simp
    then have "holds s0 (add_mset (Heap ip) (add_mset (Heap op) (drv_mem n + (dev_res ?dev + (fd_res g + add_mset (Heap dp) ({#} + R)))))) s1" by simp
    note undone = open_done_undone [OF undo_iface_spec [OF f2(1) this]]
    show ?thesis using 1 2 Some undone open_last_done [OF f2 h2] by (simp add: open_iface_def)
  qed
qed

lemma open_device_done:
  assumes n: "seed n" and h: "holds s0 (fd_res g + add_mset (Heap dp) R) s"
  shows "open_done s0 R (open_device entries ops_open null dev iface0 dp g n vfio s)"
proof -
  obtain e1 dev1 s1 where 1: "ufp_vfio_device_open dev g s = Some (e1, dev1, s1)"
      "if e1 = 0 then 0 \<le> dev_fd dev1 \<and> holds s (dev_res dev1) s1 else e1 = -1 \<and> holds s {#} s1" using device_open_spec by blast
  show ?thesis
  proof (cases "e1 = 0")
    case False
    then have "holds s0 (fd_res g + add_mset (Heap dp) ({#} + R)) s1" using holds_trans [OF h, of "{#}" s1] 1(2) by simp
    from open_done_failed [OF undo_group_spec [OF this] leaks_bar(1)] show ?thesis using 1 False by (simp add: open_device_def)
  next
    case True
    then have h1: "holds s0 (dev_res dev1 + (fd_res g + add_mset (Heap dp) R)) s1" using holds_trans [OF h, of "dev_res dev1" s1] 1(2) by (simp add: add_ac)
    from alloc_spec [OF n this, of null dev1] obtain r n2 dev2 s2 where 2: "ufp_ops_alloc entries null (n, dev1) s1 = Some (r, (n2, dev2), s2)"
        "dev_base dev2 = dev_base dev1"
        "case r of None \<Rightarrow> holds s0 (dev_res dev1 + (fd_res g + add_mset (Heap dp) R)) s2
         | Some (op, ops) \<Rightarrow> fresh n2 (dev_num_misc_irqs dev2) \<and> entry_find (dev_id dev2) entries \<noteq> None \<and>
             holds s0 (add_mset (Heap op) (drv_mem n2 + (dev_res dev1 + (fd_res g + add_mset (Heap dp) R)))) s2" by blast
    have b: "dev_res dev1 = dev_res dev2" using 2(2) by (simp add: dev_res_def dev_base_def)
    show ?thesis
    proof (cases r)
      case None
      then have "holds s0 (dev_res dev2 + (fd_res g + add_mset (Heap dp) ({#} + R))) s2" using 2(3) b by simp
      from open_done_undone [OF undo_device_spec [OF this]] show ?thesis using 1(1) 2(1) True None by (simp add: open_device_def)
    next
      case (Some x)
      obtain op ops where x: "x = (op, ops)" by fastforce
      let ?dev = "dev2\<lparr>dev_ops := ops\<rparr>"
      have e: "dev_res ?dev = dev_res dev2" "dev_id ?dev = dev_id dev2" by (simp_all add: dev_res_def dev_id_def)
      have "entry_find (dev_id ?dev) entries \<noteq> None" "fresh n2 (dev_num_misc_irqs ?dev)"
          "holds s0 (add_mset (Heap op) (drv_mem n2 + (dev_res ?dev + (fd_res g + add_mset (Heap dp) R)))) s2"
        using 2(3) Some x b e by simp_all
      from open_iface_done [OF this] show ?thesis using 1(1) 2(1) True Some x by (simp add: open_device_def)
    qed
  qed
qed

lemma open_spec:
  assumes n: "seed n" and h: "holds s0 R s"
  shows "open_done s0 R (ufp_open entries ops_open null dev0 iface0 name n vfio s)"
proof -
  obtain p s1 where 1: "os_get Heap s = (p, s1)" by fastforce
  note h1 = holds_trans [OF h os_get_holds [OF 1]]
  show ?thesis
  proof (cases p)
    case None
    then show ?thesis using 1 h1 open_done_failed [of _ vfio s0 "{#}" R] leaks_bar(1) by (simp add: ufp_open_parts)
  next
    case (Some dp)
    obtain g v2 s2 where 2: "ufp_vfio_group_open vfio s1 = Some (g, v2, s2)" "holds s1 (fd_res g) s2" using group_open_spec by blast
    have h2: "holds s0 (fd_res g + add_mset (Heap dp) R) s2" using holds_trans [OF h1 2(2)] Some by (simp add: add_ac)
    show ?thesis
    proof (cases "g < 0")
      case True
      then have "holds s0 (add_mset (Heap dp) ({#} + R)) s2" using h2 by (simp add: fd_res_def)
      from os_put_holds [OF this] obtain s3 where "os_put (Heap dp) s2 = Some s3" "holds s0 ({#} + R) s3" by blast
      then show ?thesis using 1 2(1) Some True open_done_failed [of _ v2 s0 "{#}" R] leaks_bar(1) by (simp add: ufp_open_parts)
    next
      case False
      then show ?thesis using open_device_done [OF n h2] 1 2(1) Some by (simp add: ufp_open_parts)
    qed
  qed
qed

end

end
