(* ===== verification/Ufpd_Args.thy ===== *)
theory Ufpd_Args
  imports Ufp_Scan Ufp_Os
begin

text \<open>
  The command line of the daemon, \<open>ufpd_parse_args\<close> and its helpers in \<open>src/main.c\<close>. The options are given as the pairs that \<open>getopt\<close> returns, in
  their order; an option that it does not know is \<open>?\<close>. \<open>None\<close> is behaviour that C does not define.
\<close>

definition UFPD_MAX_CORES :: nat where "UFPD_MAX_CORES = 16"
definition UFPD_MAX_ARGS :: nat where "UFPD_MAX_ARGS = 128"
definition UFPD_MAX_ARGLEN :: nat where "UFPD_MAX_ARGLEN = 1024"
definition UFPD_MAX_IFS :: nat where "UFPD_MAX_IFS = 64"

record ufpd =
  num_threads :: u32
  cores :: "u32 list"
  num_devices :: u32
  ifnames :: "string list"
  promisc :: u32
  mtu_frame :: u32
  buf_size :: u32
  buf_count :: u32
  numa_node :: u32

text \<open>The default values of \<open>main\<close>; the arrays hold what is there before.\<close>

definition ufpd_default :: "u32 list \<Rightarrow> string list \<Rightarrow> ufpd" where
  "ufpd_default cs ns = \<lparr>num_threads = 0, cores = cs, num_devices = 0, ifnames = ns, promisc = 0, mtu_frame = 1518, buf_size = 2048,
     buf_count = 8192, numa_node = 0\<rparr>"

subsection \<open>Ranges\<close>

text \<open>
  The numbers of a range as \<open>int\<close>. The counter of the loop is signed and its bound is not: a range from a
  number that is not negative to one that is not below \<open>INT_MAX\<close> makes the counter overflow, and one to the greatest number never ends.
\<close>

definition range_nums :: "u32 \<Rightarrow> u32 \<Rightarrow> int list option" where
  "range_nums lo hi =
     (if hi < lo then Some []
      else if unat lo < 2 ^ 31 \<and> 2 ^ 31 - 1 \<le> unat hi then None
      else if unat hi = 2 ^ 32 - 1 then None
      else Some (map (\<lambda>v. sint (of_nat v :: u32)) [unat lo..<unat hi + 1]))"

definition print_num :: "nat \<Rightarrow> int \<Rightarrow> string \<Rightarrow> string" where
  "print_num max_len num result =
     sn_append max_len result (if length result \<noteq> 0 then CHR '','' # dec_int num else dec_int num)"

text \<open>
  The loop over the characters, the terminator last. The state: the characters of the number, the lower end of the range if a \<open>-\<close> was
  seen, and the result so far. The inner result is \<open>None\<close> for an error.
\<close>

definition range_end :: "nat \<Rightarrow> string \<Rightarrow> u32 option \<Rightarrow> string \<Rightarrow> string option option" where
  "range_end max_len buf lo result =
     (case scan_u buf of
        None \<Rightarrow> Some None
      | Some hi \<Rightarrow> do {
          nums \<leftarrow> range_nums (case lo of None \<Rightarrow> hi | Some l \<Rightarrow> l) hi;
          Some (Some (fold (print_num max_len) nums result)) })"

fun parse_range_loop :: "nat \<Rightarrow> string \<Rightarrow> string \<Rightarrow> u32 option \<Rightarrow> string \<Rightarrow> string option option" where
  "parse_range_loop max_len [] buf lo result = range_end max_len buf lo result"
| "parse_range_loop max_len (c # cs) buf lo result =
     (if c = CHR '','' then do {
        r \<leftarrow> range_end max_len buf lo result;
        case r of None \<Rightarrow> Some None | Some result \<Rightarrow> parse_range_loop max_len cs [] None result }
      else if c = CHR ''-'' then
        (case scan_u buf of None \<Rightarrow> Some None | Some l \<Rightarrow> parse_range_loop max_len cs [] (Some l) result)
      else if length buf = UFPD_MAX_ARGLEN - 1 then Some None
      else parse_range_loop max_len cs (buf @ [c]) lo result)"

definition ufpd_parse_range :: "string \<Rightarrow> nat \<Rightarrow> string option option" where
  "ufpd_parse_range str max_len = parse_range_loop max_len str [] None []"

subsection \<open>Lists\<close>

text \<open>\<open>strncpy\<close> of a string that is shorter than the array.\<close>

definition list_store :: "nat \<Rightarrow> string \<Rightarrow> string list \<Rightarrow> string list" where
  "list_store num buf result = result[num := buf]"

fun parse_list_loop :: "nat \<Rightarrow> string \<Rightarrow> string \<Rightarrow> nat \<Rightarrow> string list \<Rightarrow> (int \<times> string list) option" where
  "parse_list_loop max_count [] buf num result =
     (if max_count \<le> num then Some (-1, result)
      else if length result \<le> num then None
      else Some (int num + 1, list_store num buf result))"
| "parse_list_loop max_count (c # cs) buf num result =
     (if c = CHR '','' then
        (if max_count \<le> num then Some (-1, result)
         else if length result \<le> num then None
         else parse_list_loop max_count cs [] (num + 1) (list_store num buf result))
      else if length buf = UFPD_MAX_ARGLEN - 1 then Some (-1, result)
      else parse_list_loop max_count cs (buf @ [c]) num result)"

definition ufpd_parse_list :: "string \<Rightarrow> string list \<Rightarrow> nat \<Rightarrow> (int \<times> string list) option" where
  "ufpd_parse_list str result max_count = parse_list_loop max_count str [] 0 result"

text \<open>The numbers are stored from the front; the loop stops at the end of the strings or of the array.\<close>

fun convert_loop :: "nat \<Rightarrow> string list \<Rightarrow> nat \<Rightarrow> u32 list \<Rightarrow> (int \<times> u32 list) option" where
  "convert_loop 0 strs i result = Some (0, result)"
| "convert_loop (Suc left) strs i result =
     (if length strs \<le> i \<or> length result \<le> i then None
      else case scan_u (strs ! i) of
        None \<Rightarrow> Some (-1, result)
      | Some v \<Rightarrow> convert_loop left strs (i + 1) (result[i := v]))"

definition ufpd_convert_list :: "string list \<Rightarrow> int \<Rightarrow> u32 list \<Rightarrow> nat \<Rightarrow> (int \<times> u32 list) option" where
  "ufpd_convert_list strs str_count result max_count = convert_loop (min (nat str_count) max_count) strs 0 result"

subsection \<open>Options\<close>

text \<open>
  The cores. The number of the list is stored in an unsigned variable: the test for an error, \<open>num_threads < 0\<close>, never holds, and as
  an \<open>int\<close> argument of the conversion the value is -1 again.
\<close>

definition opt_cores :: "string \<Rightarrow> ufpd \<Rightarrow> string list \<Rightarrow> (int \<times> ufpd \<times> string list) option" where
  "opt_cores optarg u argbuf =
     do { r \<leftarrow> ufpd_parse_range optarg UFPD_MAX_ARGLEN;
          case r of None \<Rightarrow> Some (-1, u, argbuf)
          | Some strbuf \<Rightarrow> do {
              (num, argbuf) \<leftarrow> ufpd_parse_list strbuf argbuf UFPD_MAX_ARGS;
              let u = u\<lparr>num_threads := of_int num\<rparr>;
              (err, cs) \<leftarrow> ufpd_convert_list argbuf (sint (num_threads u)) (cores u) UFPD_MAX_CORES;
              Some (if err < 0 then -1 else 0, u\<lparr>cores := cs\<rparr>, argbuf) } }"

definition opt_ifnames :: "string \<Rightarrow> ufpd \<Rightarrow> ufpd option" where
  "opt_ifnames optarg u =
     do { (num, names) \<leftarrow> ufpd_parse_list optarg (ifnames u) UFPD_MAX_IFS;
          Some (u\<lparr>num_devices := of_int num, ifnames := names\<rparr>) }"

definition opt_num :: "(u32 \<Rightarrow> ufpd) \<Rightarrow> string \<Rightarrow> ufpd \<Rightarrow> int \<times> ufpd" where
  "opt_num upd optarg u = (case scan_u optarg of None \<Rightarrow> (-1, u) | Some v \<Rightarrow> (0, upd v))"

fun opt_step :: "char \<Rightarrow> string \<Rightarrow> ufpd \<Rightarrow> string list \<Rightarrow> (int \<times> ufpd \<times> string list) option" where
  "opt_step opt optarg u argbuf =
     (if opt = CHR ''c'' then opt_cores optarg u argbuf
      else if opt = CHR ''p'' then do { u \<leftarrow> opt_ifnames optarg u; Some (0, u, argbuf) }
      else if opt = CHR ''n'' then (case opt_num (\<lambda>v. u\<lparr>numa_node := v\<rparr>) optarg u of (err, u) \<Rightarrow> Some (err, u, argbuf))
      else if opt = CHR ''m'' then (case opt_num (\<lambda>v. u\<lparr>mtu_frame := v\<rparr>) optarg u of (err, u) \<Rightarrow> Some (err, u, argbuf))
      else if opt = CHR ''b'' then (case opt_num (\<lambda>v. u\<lparr>buf_count := v\<rparr>) optarg u of (err, u) \<Rightarrow> Some (err, u, argbuf))
      else if opt = CHR ''a'' then Some (0, u\<lparr>promisc := 1\<rparr>, argbuf)
      else Some (-1, u, argbuf))"

fun parse_opts :: "(char \<times> string) list \<Rightarrow> ufpd \<Rightarrow> string list \<Rightarrow> (int \<times> ufpd) option" where
  "parse_opts [] u argbuf = Some (if num_devices u = 0 \<or> num_threads u = 0 then -1 else 0, u)"
| "parse_opts ((opt, optarg) # opts) u argbuf =
     do { (err, u, argbuf) \<leftarrow> opt_step opt optarg u argbuf;
          if err < 0 then Some (-1, u) else parse_opts opts u argbuf }"

fun argbuf_alloc :: "nat \<Rightarrow> nat list \<Rightarrow> os \<Rightarrow> bool \<times> nat list \<times> os" where
  "argbuf_alloc 0 ps s = (True, ps, s)"
| "argbuf_alloc (Suc left) ps s =
     (case os_get Heap s of (None, s) \<Rightarrow> (False, ps, s) | (Some p, s) \<Rightarrow> argbuf_alloc left (ps @ [p]) s)"

fun argbuf_free :: "nat list \<Rightarrow> os \<Rightarrow> os option" where
  "argbuf_free [] s = Some s"
| "argbuf_free (p # ps) s = do { s \<leftarrow> os_put (Heap p) s; argbuf_free ps s }"

text \<open>The buffers of the arguments are not initialised; \<open>junk\<close> is what they hold.\<close>

definition ufpd_parse_args :: "string list \<Rightarrow> (char \<times> string) list \<Rightarrow> ufpd \<Rightarrow> os \<Rightarrow> (int \<times> ufpd \<times> os) option" where
  "ufpd_parse_args junk opts u s =
     (case argbuf_alloc UFPD_MAX_ARGS [] s of (ok, ps, s) \<Rightarrow>
        if \<not> ok then do { s \<leftarrow> argbuf_free ps s; Some (-1, u, s) }
        else do {
          (err, u) \<leftarrow> parse_opts opts u junk;
          s \<leftarrow> argbuf_free ps s;
          Some (err, u, s) })"

end
