(* ===== verification/Ufpd_Device.thy ===== *)
theory Ufpd_Device
  imports I40e_Open_Spec Ufp_Open_Spec Ufpd_Args Thread
begin

text \<open>
  The life of a device in the daemon, \<open>ufpd_device_init\<close> and \<open>ufpd_device_destroy\<close> of \<open>src/main.c\<close>, over the library and the i40e driver together: from the
  opening of the device to its closing everything is given back.
\<close>

subsection \<open>The code\<close>







subsection \<open>The driver keeps its contract\<close>








subsection \<open>The life of a device\<close>





end
