(* ===== verification/I40e_Ex.thy ===== *)
theory I40e_Ex
  imports I40e_Up_Spec Ufp_Setup_Ex
begin

text \<open>
  A concrete device with one interface, a command queue of two entries and one page for the contexts: the properties of the driver applied to it.
\<close>

definition aq_desc_ex :: i40e_aq_desc where
  "aq_desc_ex = \<lparr>aqd_flags = 0, aqd_opcode = i40e_aq_opc_get_swconf, aqd_datalen = 0, aqd_retval = 0, aqd_cookie_high = 0, aqd_cookie_low = 1,
     aqd_params = replicate 16 0\<rparr>"

text \<open>A buffer with one element.\<close>

definition aq_buf_ex :: "u8 list" where
  "aq_buf_ex = 1 # replicate 4095 0"

definition dev_buf_ex :: ufp_dev_buf where
  "dev_buf_ex = \<lparr>db_ptr = 1, db_addr_virt = 65536, db_addr_dma = 0x20000, db_size = 4096\<rparr>"

definition aq_ring_ex :: i40e_aq_ring where
  "aq_ring_ex = \<lparr>aqr_ptr = 2, aqr_desc = dev_buf_ex, aqr_mem = replicate 2 aq_desc_ex, aqr_bufs = (3, replicate 2 dev_buf_ex),
     aqr_bufmem = replicate 2 aq_buf_ex, aqr_num_desc = 2, aqr_next_to_use = 0, aqr_next_to_clean = 0,
     aqr_head = 0x80300, aqr_tail = 0x80400, aqr_len = 0x80200, aqr_bah = 0x80100, aqr_bal = 0x80000\<rparr>"

definition look_ex :: aq_look where
  "look_ex = \<lparr>lk_head = 1, lk_mem = replicate 2 aq_desc_ex, lk_bufs = replicate 2 aq_buf_ex\<rparr>"

definition hmc_ex :: i40e_hmc where
  "hmc_ex = \<lparr>hmc_obj_tx = \<lparr>ho_base = 0, ho_count = 4, ho_size = 128\<rparr>, hmc_obj_rx = \<lparr>ho_base = 512, ho_count = 4, ho_size = 32\<rparr>,
     hmc_sd_count = 1, hmc_sd_entry = (4, [\<lparr>sd_pd_addrs = dev_buf_ex, sd_addrs = [0x20001], sd_pd = [dev_buf_ex]\<rparr>])\<rparr>"

definition i40e_ex :: i40e where
  "i40e_ex = \<lparr>nic_in = (\<lambda>_. sconst 0), nic_out = [], nic_polls = replicate 3 look_ex ## sconst [], nic_junk = 0, nic_stack = (\<lambda>_. 0), nic_pages = (\<lambda>_. replicate 4096 0xff),
     ed_ptr = 5, ed_pf_id = 0, ed_pf_lan_mac = replicate 6 0, ed_tx_ring = Some aq_ring_ex, ed_rx_ring = Some aq_ring_ex, ed_session = [],
     ed_hmc = hmc_ex, ed_version = \<lparr>fw_major = 0, fw_minor = 0, fw_build = 0, api_major = 0, api_minor = 0\<rparr>, ed_elem = [],
     ed_ifaces = [(6, \<lparr>ei_type = I40E_VSI_MAIN, ei_seid = 0, ei_id = 0, ei_base_qp = 1, ei_qs_handles = [3]\<rparr>)]\<rparr>"

definition ring_new_ex :: "i40e_desc ufp_ring" where
  "ring_new_ex = \<lparr>ring_addr_virt = 0, ring_addr_dma = 0x30000, tail = 0, next_to_use = 0, next_to_clean = 0, slot_index = [], ring_mem = []\<rparr>"

definition iface_set_ex :: "i40e_desc ufp_iface" where
  "iface_set_ex = iface_down_ex\<lparr>if_num_qps := 1, if_buf_size := 2048, if_mtu_frame := 1518, if_rx_ring := (7, [(8, ring_new_ex)]),
     if_tx_ring := (9, [(10, ring_new_ex)])\<rparr>"

definition dev_set_ex :: "i40e_desc ufp_dev" where
  "dev_set_ex = dev_down_ex\<lparr>dev_bar := 0x100000, dev_iface := [iface_set_ex]\<rparr>"

lemmas nic_ex_defs = i40e_ex_def hmc_ex_def dev_buf_ex_def

lemma aq_inv_ex: "aq_inv i40e_ex s"
proof -
  have "desc_ok aq_desc_ex aq_buf_ex"
    by (simp add: desc_ok_def aq_desc_ex_def aq_buf_ex_def I40E_MAX_AQ_BUF_SIZE_def take_Cons')
  then have "look_ok 2 look_ex" by (simp add: look_ok_def look_ex_def list_all_iff less_2_cases_iff)
  then have "poll_ok 2 (replicate 3 look_ex)" by (simp add: poll_ok_def numeral_3_eq_3) (simp add: look_ex_def)
  moreover have "aq_ring_ok aq_ring_ex" by (simp add: aq_ring_ok_def aq_ring_ex_def)
  ultimately show ?thesis by (auto simp: aq_inv_def i40e_ex_def aq_ring_ex_def poll_ok_def)
qed

lemma place_ex:
  "ctx_place i40e_ex (hmc_obj_rx (ed_hmc i40e_ex)) 1 32 65536 544" "ctx_place i40e_ex (hmc_obj_tx (ed_hmc i40e_ex)) 1 128 65536 128"
  by (simp_all add: ctx_place_def i40e_hmc_va_def nic_ex_defs Let_def I40E_HMC_PAGED_BP_SIZE_def I40E_HMC_MAX_BP_COUNT_def)

theorem queue_contexts_written_witness:
  "(\<exists>bits. i40e_hmc_set_ctx_rx (rx_ctx iface_set_ex ring_new_ex) 1 i40e_ex = Some (0, ctx_stored i40e_ex (hmc_obj_rx hmc_ex) 65536 544 bits) \<and> length bits = 32) \<and>
   (\<exists>bits. i40e_hmc_set_ctx_tx (tx_ctx (snd (ed_ifaces i40e_ex ! 0)) iface_set_ex ring_new_ex) 1 i40e_ex =
      Some (0, ctx_stored i40e_ex (hmc_obj_tx hmc_ex) 65536 128 bits) \<and> length bits = 128)"
proof -
  have "\<not> rx_buf_bad iface_set_ex" "\<not> rx_mtu_bad iface_set_ex"
    by (simp_all add: iface_set_ex_def rx_buf_bad_def rx_mtu_bad_def I40E_RXQ_CTX_DBUFF_SHIFT_def I40E_MIN_RX_BUFFER_def I40E_MAX_RX_BUFFER_def
        I40E_MAX_MTU_def I40E_MAX_CHAINED_RX_BUFFERS_def)
  moreover have "unat (ucast (if_num_rx_desc iface_set_ex) :: u16) < 2 ^ 13" "unat (ucast (if_num_tx_desc iface_set_ex) :: u16) < 2 ^ 13"
      "unat (ei_qs_handles (snd (ed_ifaces i40e_ex ! 0)) ! 0) < 2 ^ 10"
    by (simp_all add: iface_set_ex_def iface_down_ex_def i40e_ex_def)
  moreover have "ed_hmc i40e_ex = hmc_ex" "unat (ho_size (hmc_obj_rx hmc_ex)) = 32" "unat (ho_size (hmc_obj_tx hmc_ex)) = 128"
    by (simp_all add: i40e_ex_def hmc_ex_def)
  ultimately show ?thesis
    using queue_contexts_written [of i40e_ex 1 65536 544] queue_contexts_written [of i40e_ex 1 65536 128] place_ex by metis
qed

lemma quiet_ex: "quiet 1 i40e_ex"
  unfolding quiet_def
proof (intro allI impI)
  fix i :: nat assume "1 \<le> i"
  then show "nic_polls i40e_ex !! i = []" by (cases i) (simp_all add: i40e_ex_def)
qed

theorem swconf_ends_witness:
  "aq_inv i40e_ex os_ex \<and> quiet 1 i40e_ex \<and> swconf_after 2 0 i40e_ex os_ex = None \<and> (\<exists>r. swconf_fetch 0 i40e_ex os_ex = Some r) \<and>
   (\<exists>ret n' s'. i40e_get_swconf i40e_ex os_ex = Some (ret, n', s') \<and> holds os_ex (elem_res (ed_elem n')) s')"
proof -
  note e = swconf_ends [OF aq_inv_ex [of os_ex], of 0]
  have h: "holds os_ex (elem_res (ed_elem i40e_ex) + {#}) os_ex" by (simp add: i40e_ex_def elem_res_def)
  have "swconf_after (Suc 1) 0 i40e_ex os_ex = None" using e quiet_ex by blast
  moreover have "\<exists>ret n' s'. i40e_get_swconf i40e_ex os_ex = Some (ret, n', s') \<and> holds os_ex (elem_res (ed_elem n') + {#}) s'"
    using e quiet_ex h by blast
  ultimately show ?thesis using e aq_inv_ex quiet_ex unfolding Suc_1 add_0_right by blast
qed

lemma placed_ex: "queues_placed i40e_ex 1 1"
  unfolding queues_placed_def using place_ex by auto

theorem i40e_up_down_witness:
  "aq_inv i40e_ex os_ex \<and> vsi_ready i40e_ex 0 iface_set_ex \<and>
   (\<exists>ret n' dev' s'. i40e_ops_up i40e_ex dev_set_ex os_ex = Some (ret, n', dev', s') \<and> dev_tailed dev_set_ex dev')"
proof -
  have v: "vsi_ready i40e_ex 0 iface_set_ex" using placed_ex by (simp add: vsi_ready_def i40e_ex_def iface_set_ex_def)
  then have "\<forall>k<length (dev_iface dev_set_ex). vsi_ready i40e_ex k (dev_iface dev_set_ex ! k)" by (simp add: dev_set_ex_def)
  from i40e_up_down [OF aq_inv_ex this] show ?thesis using aq_inv_ex v by blast
qed

theorem ufp_up_down_witness:
  "pools_wf [pool_ex] \<and> up_pre settings_ex dev_down_ex 1 os_ex \<and> i40e_ready i40e_ex 1 1 \<and>
   (\<exists>ret n' dev' P' s'. ufp_up i40e_ops_up [None, Some 34, Some 33, Some 35] junk_ex settings_ex i40e_ex dev_down_ex [pool_ex] os_ex =
      Some (ret, n', dev', P', s'))"
proof -
  have p: "pools_wf [pool_ex]" using pool_ex_wf by (simp add: pools_wf_def)
  have "ei_base_qp (snd (ed_ifaces i40e_ex ! 0)) = 1" "length (ed_ifaces i40e_ex) = 1" by (simp_all add: i40e_ex_def)
  then have r: "i40e_ready i40e_ex 1 1" using aq_inv_ex placed_ex by (simp add: i40e_ready_def)
  moreover have "set_num_qps settings_ex = 1" "length (dev_iface dev_down_ex) = 1" by (simp_all add: settings_ex_def dev_down_ex_def)
  ultimately have "i40e_ready i40e_ex (set_num_qps settings_ex) (length (dev_iface dev_down_ex))" by (simp only:)
  from ufp_up_down [OF p up_pre_ex this, of "[None, Some 34, Some 33, Some 35]" junk_ex] show ?thesis
    using p up_pre_ex r by (simp, blast)
qed

theorem driver_registration_witness:
  "id_list (drv_id_table i40e_driver) \<noteq> drv_id_table i40e_driver \<and>
   (\<exists>ret es' s'. ufp_dev_register i40e_driver [] os_ex = Some (ret, es', s') \<and> (ret = 0 \<or> es' = []))"
proof -
  have i: "id_list (drv_id_table i40e_driver) \<noteq> drv_id_table i40e_driver"
    by (simp add: i40e_driver_def device_pci_tbl_def id_list_def dev_id_defs)
  from driver_registration [OF i, of "[]" os_ex] show ?thesis using i by metis
qed

end
