(* ===== verification/Ufpd_Device_Ex.thy ===== *)
theory Ufpd_Device_Ex
  imports Ufpd_Device I40e_Ex
begin

text \<open>
  A concrete device of the daemon: the life of a device applied to it.
\<close>






end
