(* ===== verification/Ufpd_Args_Spec.thy ===== *)
theory Ufpd_Args_Spec
  imports Ufpd_Args
begin

text \<open>
  The list of the cores: what is written as numbers and ranges is what the threads get; and what happens to a list that is too long.
\<close>

subsection \<open>Lists with commas\<close>

fun join :: "string list \<Rightarrow> string" where
  "join [] = []"
| "join [x] = x"
| "join (x # y # xs) = x @ CHR '','' # join (y # xs)"

lemma join_Cons: "xs \<noteq> [] \<Longrightarrow> join (x # xs) = x @ CHR '','' # join xs"
  by (cases xs) auto

lemma join_snoc: "join (xs @ [x]) = (if xs = [] then x else join xs @ CHR '','' # x)"
  by (induction xs rule: join.induct) auto

lemma join_Nil: "list_all (\<lambda>x. x \<noteq> []) xs \<Longrightarrow> join xs = [] \<longleftrightarrow> xs = []"
  by (cases xs rule: join.cases) auto

lemma length_join: "list_all (\<lambda>x. length x \<le> m) xs \<Longrightarrow> length (join xs) \<le> (m + 1) * length xs"
  by (induction xs rule: join.induct) auto

lemma length_join_append: "length (join xs) \<le> length (join (xs @ zs))"
proof -
  have "length x \<le> length (join (x # zs))" for x by (cases zs) auto
  then show ?thesis by (induction xs rule: join.induct) auto
qed

text \<open>A range of numbers as it is written.\<close>

definition range_text :: "nat \<times> nat \<Rightarrow> string" where
  "range_text r = (case r of (lo, hi) \<Rightarrow> if lo = hi then dec_nat lo else dec_nat lo @ CHR ''-'' # dec_nat hi)"

definition range_list :: "(nat \<times> nat) list \<Rightarrow> nat list" where
  "range_list rs = concat (map (\<lambda>(lo, hi). [lo..<hi + 1]) rs)"

definition range_ok :: "nat \<times> nat \<Rightarrow> bool" where
  "range_ok r \<longleftrightarrow> fst r \<le> snd r \<and> snd r < 2 ^ 31 - 1"

subsection \<open>Numbers\<close>

lemma length_dec_nat: "v < 10 ^ m \<Longrightarrow> 0 < m \<Longrightarrow> length (dec_nat v) \<le> m"
proof (induction m arbitrary: v)
  case (Suc m)
  show ?case
  proof (cases "v < 10")
    case False
    then have "v div 10 < 10 ^ m" "0 < m" using Suc.prems by (auto intro: gr0I)
    from Suc.IH [OF this] show ?thesis using False by (subst dec_nat.simps) simp
  qed (subst dec_nat.simps, simp)
qed simp

lemma length_dec_core: "v < 2 ^ 31 \<Longrightarrow> length (dec_nat v) \<le> 10"
  by (rule length_dec_nat) simp_all

lemma range_nums_list:
  assumes "lo \<le> hi" "hi < 2 ^ 31 - 1"
  shows "range_nums (of_nat lo) (of_nat hi) = Some (map int [lo..<hi + 1])"
proof -
  have u: "unat (of_nat lo :: u32) = lo" "unat (of_nat hi :: u32) = hi" using assms by (simp_all add: unsigned_of_nat take_bit_nat_eq_self)
  have "sint (of_nat v :: u32) = int v" if "v \<in> set [lo..<hi + 1]" for v
    using that assms by (auto simp: signed_of_nat intro!: signed_take_bit_int_eq_self)
  then have "map (\<lambda>v. sint (of_nat v :: u32)) [lo..<hi + 1] = map int [lo..<hi + 1]" by (intro map_cong) simp_all
  then show ?thesis using assms u by (simp add: range_nums_def word_less_nat_alt)
qed

subsection \<open>Ranges\<close>

lemma parse_range_digits:
  assumes "\<forall>c \<in> set ds. isdig 10 c" "length buf + length ds \<le> UFPD_MAX_ARGLEN - 1"
  shows "parse_range_loop ml (ds @ cs) buf lo res = parse_range_loop ml cs (buf @ ds) lo res"
  using assms by (induction ds arbitrary: buf) (auto dest: isdig_char)

lemma fold_print:
  assumes "list_all (\<lambda>x. x \<noteq> []) ys" "length (join (ys @ map dec_nat nums)) < ml"
  shows "fold (print_num ml) (map int nums) (join ys) = join (ys @ map dec_nat nums)"
  using assms
proof (induction nums arbitrary: ys)
  case (Cons v nums)
  have "length (join (ys @ [dec_nat v])) < ml" using Cons.prems(2) length_join_append [of "ys @ [dec_nat v]" "map dec_nat nums"] by simp
  then have "print_num ml (int v) (join ys) = join (ys @ [dec_nat v])"
    using join_Nil [OF Cons.prems(1)] by (auto simp: print_num_def sn_append_def dec_int_def join_snoc)
  then show ?case using Cons.IH [of "ys @ [dec_nat v]"] Cons.prems by (simp add: dec_nat_ne)
qed simp

lemma range_end_item:
  assumes "range_ok (lo, hi)" "list_all (\<lambda>x. x \<noteq> []) ys" "length (join (ys @ map dec_nat [lo..<hi + 1])) < ml"
    and "l = (if lo = hi then None else Some (of_nat lo))"
  shows "range_end ml (dec_nat hi) l (join ys) = Some (Some (join (ys @ map dec_nat [lo..<hi + 1])))"
proof -
  have r: "lo \<le> hi" "hi < 2 ^ 31 - 1" using assms(1) by (simp_all add: range_ok_def)
  have "scan_u (dec_nat hi) = Some (of_nat hi)" by (rule scan_u_dec) (use r in simp)
  moreover have "(case l of None \<Rightarrow> of_nat hi | Some l \<Rightarrow> l) = (of_nat lo :: u32)" using assms(4) by simp
  ultimately show ?thesis
    unfolding range_end_def using range_nums_list [OF r] fold_print [OF assms(2,3)] by (simp del: upt_Suc)
qed

lemma parse_range_item:
  assumes r: "range_ok (lo, hi)" and ys: "list_all (\<lambda>x. x \<noteq> []) ys" "length (join (ys @ map dec_nat [lo..<hi + 1])) < ml"
    and cs: "cs = [] \<or> (\<exists>cs'. cs = CHR '','' # cs')"
  shows "parse_range_loop ml (range_text (lo, hi) @ cs) [] None (join ys) =
    (if cs = [] then Some (Some (join (ys @ map dec_nat [lo..<hi + 1])))
     else parse_range_loop ml (tl cs) [] None (join (ys @ map dec_nat [lo..<hi + 1])))"
proof -
  have l: "length (dec_nat lo) \<le> 10" "length (dec_nat hi) \<le> 10" using r by (auto simp: range_ok_def intro!: length_dec_core)
  have fin: "parse_range_loop ml (dec_nat hi @ cs) [] l (join ys) =
      (if cs = [] then Some (Some (join (ys @ map dec_nat [lo..<hi + 1])))
       else parse_range_loop ml (tl cs) [] None (join (ys @ map dec_nat [lo..<hi + 1])))"
    if "l = (if lo = hi then None else Some (of_nat lo))" for l
    using parse_range_digits [OF dec_nat_digits, of "[]" hi ml cs l "join ys"] l range_end_item [OF r ys that] cs
    by (auto simp: UFPD_MAX_ARGLEN_def)
  show ?thesis
  proof (cases "lo = hi")
    case True
    then show ?thesis using fin [of None] by (simp add: range_text_def)
  next
    case False
    have "scan_u (dec_nat lo) = Some (of_nat lo)" by (rule scan_u_dec) (use r in \<open>simp add: range_ok_def\<close>)
    then show ?thesis
      using False fin [of "Some (of_nat lo)"] l
        parse_range_digits [OF dec_nat_digits, of "[]" lo ml "CHR ''-'' # dec_nat hi @ cs" None "join ys"]
      by (simp add: range_text_def UFPD_MAX_ARGLEN_def)
  qed
qed

lemma parse_range_list:
  assumes "rs \<noteq> []" "list_all range_ok rs" "list_all (\<lambda>x. x \<noteq> []) ys" "length (join (ys @ map dec_nat (range_list rs))) < ml"
  shows "parse_range_loop ml (join (map range_text rs)) [] None (join ys) = Some (Some (join (ys @ map dec_nat (range_list rs))))"
  using assms
proof (induction rs arbitrary: ys)
  case (Cons r rs)
  obtain lo hi where r: "r = (lo, hi)" "range_ok (lo, hi)" using Cons.prems(2) by (cases r) auto
  let ?ys = "ys @ map dec_nat [lo..<hi + 1]"
  have len: "length (join ?ys) < ml"
    using Cons.prems(4) length_join_append [of ?ys "map dec_nat (range_list rs)"] by (simp add: range_list_def r(1))
  have ne: "list_all (\<lambda>x. x \<noteq> []) ?ys" using Cons.prems(3) by (auto simp: list_all_iff dec_nat_ne dec_nat_ne [THEN not_sym])
  show ?case
  proof (cases "rs = []")
    case True
    then show ?thesis using parse_range_item [OF r(2) Cons.prems(3) len, of "[]"] by (simp add: r(1) range_list_def)
  next
    case False
    then have "parse_range_loop ml (join (map range_text rs)) [] None (join ?ys) = Some (Some (join (?ys @ map dec_nat (range_list rs))))"
      using Cons.IH [OF False _ ne] Cons.prems(2,4) by (simp add: range_list_def r(1))
    then show ?thesis
      using parse_range_item [OF r(2) Cons.prems(3) len, of "CHR '','' # join (map range_text rs)"] False
      by (simp add: r(1) range_list_def join_Cons)
  qed
qed simp

subsection \<open>Lists\<close>

text \<open>A string that the list can hold.\<close>

definition plain :: "string \<Rightarrow> bool" where
  "plain x \<longleftrightarrow> CHR '','' \<notin> set x \<and> length x < UFPD_MAX_ARGLEN"

lemma parse_list_plain:
  assumes "CHR '','' \<notin> set x" "length buf + length x < UFPD_MAX_ARGLEN"
  shows "parse_list_loop mc (x @ cs) buf num res = parse_list_loop mc cs (buf @ x) num res"
  using assms by (induction x arbitrary: buf) auto

lemma parse_list_join:
  assumes "xs \<noteq> []" "list_all plain xs" "num + length xs \<le> mc" "num + length xs \<le> length res"
  shows "parse_list_loop mc (join xs) [] num res = Some (int (num + length xs), take num res @ xs @ drop (num + length xs) res)"
  using assms
proof (induction xs arbitrary: num res)
  case (Cons x xs)
  have x: "CHR '','' \<notin> set x" "length [] + length x < UFPD_MAX_ARGLEN" using Cons.prems(2) by (simp_all add: plain_def)
  have upd: "res[num := x] = take num res @ x # drop (num + 1) res" using Cons.prems(4) by (simp add: upd_conv_take_nth_drop)
  show ?case
  proof (cases "xs = []")
    case True
    then show ?thesis using parse_list_plain [OF x, of mc "[]" num res] Cons.prems upd by (simp add: list_store_def)
  next
    case False
    have "parse_list_loop mc (join xs) [] (num + 1) (res[num := x]) =
        Some (int (num + 1 + length xs), take (num + 1) (res[num := x]) @ xs @ drop (num + 1 + length xs) (res[num := x]))"
      using Cons.prems by (intro Cons.IH [OF False]) simp_all
    moreover have "take (num + 1) (res[num := x]) = take num res @ [x]" using Cons.prems(4) by (simp add: upd take_Suc_conv_app_nth)
    moreover have "drop (num + 1 + length xs) (res[num := x]) = drop (num + 1 + length xs) res" by simp
    ultimately show ?thesis
      using parse_list_plain [OF x, of mc "CHR '','' # join xs" num res] Cons.prems False by (simp add: join_Cons list_store_def)
  qed
qed simp

lemma convert_loop_nums:
  assumes "i + length vs \<le> length strs" "i + length vs \<le> length res" "list_all (\<lambda>v. v < 2 ^ 32) vs"
    and "take (length vs) (drop i strs) = map dec_nat vs"
  shows "convert_loop (length vs) strs i res = Some (0, take i res @ map of_nat vs @ drop (i + length vs) res)"
  using assms
proof (induction vs arbitrary: i res)
  case (Cons v vs)
  have "drop i strs = strs ! i # drop (i + 1) strs" using Cons.prems(1) by (simp add: Cons_nth_drop_Suc)
  then have s: "strs ! i = dec_nat v" "take (length vs) (drop (i + 1) strs) = map dec_nat vs" using Cons.prems(4) by simp_all
  have upd: "res[i := of_nat v] = take i res @ of_nat v # drop (i + 1) res" using Cons.prems(2) by (simp add: upd_conv_take_nth_drop)
  have "convert_loop (length vs) strs (i + 1) (res[i := of_nat v]) =
      Some (0, take (i + 1) (res[i := of_nat v]) @ map of_nat vs @ drop (i + 1 + length vs) (res[i := of_nat v]))"
    using Cons.prems s(2) by (intro Cons.IH) simp_all
  moreover have "take (i + 1) (res[i := of_nat v]) = take i res @ [of_nat v]" using Cons.prems(2) by (simp add: upd)
  moreover have "drop (i + 1 + length vs) (res[i := of_nat v]) = drop (i + 1 + length vs) res" by simp
  ultimately show ?case using Cons.prems s(1) scan_u_dec [of v] by simp
qed simp

lemma parse_list_full:
  assumes "list_all plain xs" "mc < num + length xs" "num \<le> mc" "mc \<le> length res"
  shows "\<exists>res'. parse_list_loop mc (join xs) [] num res = Some (-1, res') \<and> length res' = length res"
  using assms
proof (induction xs arbitrary: num res)
  case (Cons x xs)
  have x: "CHR '','' \<notin> set x" "length [] + length x < UFPD_MAX_ARGLEN" using Cons.prems(1) by (simp_all add: plain_def)
  show ?case
  proof (cases "num = mc")
    case True
    then show ?thesis
      using parse_list_plain [OF x, of mc "[]" num res] parse_list_plain [OF x, of mc "CHR '','' # join xs" num res]
      by (cases "xs = []") (simp_all add: join_Cons)
  next
    case False
    then have "xs \<noteq> []" using Cons.prems(2,3) by auto
    moreover have "\<exists>res'. parse_list_loop mc (join xs) [] (num + 1) (list_store num x res) = Some (-1, res') \<and> length res' = length res"
      using Cons.IH [of "num + 1" "list_store num x res"] Cons.prems False by (simp add: list_store_def)
    ultimately show ?thesis
      using parse_list_plain [OF x, of mc "CHR '','' # join xs" num res] Cons.prems False by (simp add: join_Cons)
  qed
qed simp

subsection \<open>The option for the cores\<close>

lemma range_list_small: "list_all range_ok rs \<Longrightarrow> v \<in> set (range_list rs) \<Longrightarrow> v < 2 ^ 31"
  by (fastforce simp: range_list_def range_ok_def list_all_iff)

lemma dec_plain: "v < 2 ^ 31 \<Longrightarrow> plain (dec_nat v)"
  using length_dec_core [of v] dec_nat_digits [of v] isdig_char by (fastforce simp: plain_def UFPD_MAX_ARGLEN_def)

text \<open>C40. The cores of the command line. For a list of numbers and ranges, written in decimal with commas and dashes, whose expansion fits
  the buffer of 1024 bytes, the option is accepted. If it names at most 128 cores, there are as many threads as it
  names cores, and the cores of the first 16 threads are the first 16 numbers in the order in which they are written; the cores of further
  threads are not stored. If it names more than 128, the error is lost in an unsigned
  variable: the option is accepted with 4294967295 threads and the cores are unchanged.\<close>

theorem cores_option:
  fixes rs :: "(nat \<times> nat) list"
  defines "nums \<equiv> range_list rs"
  assumes rs: "rs \<noteq> []" "list_all range_ok rs" and fits: "length (join (map dec_nat nums)) < UFPD_MAX_ARGLEN"
    and arrays: "length (cores u) = UFPD_MAX_CORES" "length argbuf = UFPD_MAX_ARGS"
  shows "\<exists>argbuf'. length argbuf' = UFPD_MAX_ARGS \<and> opt_cores (join (map range_text rs)) u argbuf = Some (0,
    if length nums \<le> UFPD_MAX_ARGS
    then u\<lparr>num_threads := of_nat (length nums),
      cores := map of_nat (take UFPD_MAX_CORES nums) @ drop (length nums) (cores u)\<rparr>
    else u\<lparr>num_threads := 4294967295\<rparr>, argbuf')"
proof -
  have small: "v < 2 ^ 31" if "v \<in> set nums" for v using range_list_small [OF rs(2)] that by (simp add: nums_def)
  have range: "ufpd_parse_range (join (map range_text rs)) UFPD_MAX_ARGLEN = Some (Some (join (map dec_nat nums)))"
    unfolding ufpd_parse_range_def using parse_range_list [OF rs, of "[]" UFPD_MAX_ARGLEN] fits by (simp add: nums_def)
  have pl: "list_all plain (map dec_nat nums)" using small dec_plain by (simp add: list_all_iff)
  obtain r rs' where "rs = r # rs'" using rs(1) by (cases rs) auto
  then have ne: "nums \<noteq> []" using rs(2) by (auto simp: nums_def range_list_def range_ok_def split: prod.splits)
  show ?thesis
  proof (cases "length nums \<le> UFPD_MAX_ARGS")
    case True
    let ?buf = "map dec_nat nums @ drop (length nums) argbuf" and ?vs = "take UFPD_MAX_CORES nums"
    have list: "ufpd_parse_list (join (map dec_nat nums)) argbuf UFPD_MAX_ARGS = Some (int (length nums), ?buf)"
      unfolding ufpd_parse_list_def using parse_list_join [OF _ pl, of 0 UFPD_MAX_ARGS argbuf] ne True arrays(2) by simp
    have n: "sint (of_nat (length nums) :: u32) = int (length nums)"
      using True by (simp add: signed_of_nat UFPD_MAX_ARGS_def signed_take_bit_int_eq_self)
    have l: "length ?vs = min (length nums) UFPD_MAX_CORES" by simp
    have "convert_loop (length ?vs) ?buf 0 (cores u) = Some (0, take 0 (cores u) @ map of_nat ?vs @ drop (0 + length ?vs) (cores u))"
    proof (rule convert_loop_nums)
      show "list_all (\<lambda>v. v < 2 ^ 32) ?vs" using small by (fastforce simp: list_all_iff dest: in_set_takeD)
      have "take (min (length nums) UFPD_MAX_CORES) nums = ?vs" by (simp add: min_def)
      then show "take (length ?vs) (drop 0 ?buf) = map dec_nat ?vs" by (simp add: take_map)
    qed (use arrays True in simp_all)
    moreover have "drop (min (length nums) UFPD_MAX_CORES) (cores u) = drop (length nums) (cores u)" using arrays(1) by (simp add: min_def)
    ultimately have conv: "ufpd_convert_list ?buf (int (length nums)) (cores u) UFPD_MAX_CORES =
        Some (0, map of_nat ?vs @ drop (length nums) (cores u))"
      by (simp add: ufpd_convert_list_def)
    show ?thesis using True range list n conv arrays(2) by (intro exI [of _ ?buf]) (simp add: opt_cores_def)
  next
    case False
    obtain buf' where "ufpd_parse_list (join (map dec_nat nums)) argbuf UFPD_MAX_ARGS = Some (-1, buf')" "length buf' = length argbuf"
      using parse_list_full [OF pl, of UFPD_MAX_ARGS 0 argbuf] False arrays(2) by (auto simp: ufpd_parse_list_def)
    then show ?thesis using False range arrays(2) by (intro exI [of _ buf']) (simp add: opt_cores_def ufpd_convert_list_def)
  qed
qed

theorem cores_option_witness:
  "\<exists>argbuf'. opt_cores ''2,4-6'' (ufpd_default (replicate 16 0) []) (replicate 128 []) =
    Some (0, (ufpd_default ([2, 4, 5, 6] @ replicate 12 0) [])\<lparr>num_threads := 4\<rparr>, argbuf')"
proof -
  have "join (map range_text [(2, 2), (4, 6)]) = ''2,4-6''"
    by (simp add: range_text_def dec_nat.simps dec_digit_def char_of_def bit_iff_odd)
  moreover have "range_list [(2, 2), (4, 6)] = [2, 4, 5, 6]" by (simp add: range_list_def upt_rec)
  moreover have "length (join (map dec_nat [2, 4, 5, 6])) < UFPD_MAX_ARGLEN"
    by (simp add: dec_nat.simps UFPD_MAX_ARGLEN_def)
  ultimately show ?thesis
    using cores_option [of "[(2, 2), (4, 6)]" "ufpd_default (replicate 16 0) []" "replicate 128 []"]
    by (auto simp: range_ok_def ufpd_default_def UFPD_MAX_CORES_def UFPD_MAX_ARGS_def)
qed

end
