(* ===== verification/Spec2Isabelle.thy ===== *)
theory Spec2Isabelle
  imports Ufp_Mem Fib Neigh Ufp_Flow Forward_Slots Tables Netlink_Safe Thread_Ex Ufp_Hlist Ufp_Setup_Ex Thread_Life_Ex Ufpd_Device_Ex Ufpd_Args_Spec
begin

text \<open>
  Verification of \<open>ufp\<close>, a forwarding plane in user space: a daemon (\<open>src/src\<close>) that forwards IPv4 and IPv6 packets between the ports
  of network cards, a library (\<open>src/lib\<close>) that gives it memory, packet buffers, rings and access to devices through VFIO, and a driver of
  the Intel i40e cards (\<open>src/dev/i40e\<close>).

  \<^bold>\<open>The program.\<close> \<open>main\<close> parses the command line, makes one memory pool per thread, opens the devices, brings them
  up and starts a thread per core. A thread owns a plane (one receive and one transmit ring per port), a buffer that is cut into slots, a routing table and
  the neighbour tables of both families, all in its pool. It waits for interrupts of the rings, packets of the host on the tap devices, messages of
  the kernel about routes and neighbours, and signals. A received packet is looked up by its destination and put on the transmit ring of the
  port of its route, or handed to the host, or dropped. The driver is called by the library through a table of operations, both for the descriptors of a
  ring and to bring a device up and down; it talks to the card by registers, by a queue of commands and by the contexts of queues in memory.

  \<^bold>\<open>Conventions.\<close> Fixed-width integers are words of their width. A structure is a record, an enumeration a datatype, status codes are
  0 and -1 of type \<open>int\<close>. A call that can run into behaviour that C does not define, or that can fail to return, gives an \<open>option\<close> and is
  \<open>None\<close> there; a theorem that a call gives \<open>Some\<close> shows that it is safe and returns. Everything from outside is data of the state and thus
  universally quantified in the theorems: the outcome of every coming \<open>malloc\<close> and system call (\<open>os_calls\<close>, or a list of outcomes in the pool), the
  answers of queries (\<open>os_vals\<close>), the bytes of \<open>read\<close>, the events of \<open>epoll_wait\<close>, the descriptors and buffers as the card has written them,
  the values of its registers (\<open>nic_in\<close>, an endless sequence of reads for each register) and what its firmware has done to the command queue at each clean-up of it (\<open>nic_polls\<close>, endless as well; an empty one is a
  device that says nothing). What is written outside is recorded
  in order (\<open>os_log\<close>, \<open>nic_out\<close>, \<open>th_tun\<close>, \<open>th_mmio\<close>). The resources held of the operating system are a multiset, \<open>os_live\<close>; giving back what is not held is \<open>None\<close>. A mapping for DMA leaves it when its removal is requested; those that the kernel refuses to remove,
  which the code never asks for again, are kept in \<open>os_stuck\<close>. \<open>leaks\<close> names what some error paths do not give back: memory of \<open>malloc\<close>, and directory streams with their descriptor.

  \<^bold>\<open>Memory\<close> (\<open>lib/lib_mem.c\<close>). \<open>Ufp_Mem\<close>: the buddy allocator on a tree of nodes. Blocks that are given out are disjoint, aligned
  and inside of the pool; null is returned only when no free block is large enough; freeing gives back exactly one block; after all blocks are freed, in any order, the pool is one block again. The locale
  \<open>mem_pool\<close> is the interface that its clients use. A well-formed pool (\<open>mp_wf\<close>) is one whose coming calls of \<open>malloc\<close> for nodes succeed, which is thus assumed wherever a well-formed pool, table or thread is: after
  a failed one the allocator can hand out memory twice (\<open>mem_alloc_oom_overlap\<close>). \<open>Ufp_List\<close> and \<open>Ufp_Hlist\<close> (\<open>lib/lib_list.h\<close>): the pointer operations on linked lists refine those on
  sequences, which all other theories use in their place.

  \<^bold>\<open>Routes and neighbours\<close> (\<open>src/lpm.c\<close>, \<open>src/fib.c\<close>, \<open>src/hash.c\<close>, \<open>src/neigh.c\<close>). \<open>Lpm\<close>, \<open>Lpm_Bits\<close>, \<open>Lpm_Spec\<close>, \<open>Lpm_Ops\<close>, \<open>Lpm_Table\<close>:
  the multi-bit trie, with the locale \<open>lpm_client\<close> for the operations of its client on entries. \<open>Rib\<close>: the abstract table, a list of routes with the
  longest first. \<open>Fib\<close>: routes with reference counts; it interprets \<open>lpm_client\<close>, its update and delete refine the operations of \<open>Rib\<close> and
  its lookup gives the longest match. \<open>Hash\<close> has the locale \<open>hash_client\<close>, which \<open>Neigh\<close> interprets for both families. \<open>Tables\<close>: tables that share
  a pool do not disturb each other.

  \<^bold>\<open>Packets\<close> (\<open>lib/lib_io.c\<close>, \<open>lib/lib_api.c\<close>, descriptors of \<open>dev/i40e/i40e_io.c\<close>). \<open>Ufp_Io\<close>: the operations. \<open>Ufp_Ring\<close>: a ring is a bounded
  queue (locale \<open>bounded_queue\<close>). \<open>Ufp_Slot\<close>: the search for free slots. \<open>Ufp_Plane\<close>: every operation accounts for every slot, over the locale \<open>desc_ops\<close> of the driver,
  which \<open>I40e_Desc\<close> interprets. \<open>Ufp_Flow\<close>: the step relation of all operations in any order with arbitrary writes of the card in between, and the invariant
  of its reachable states, for a thread that sends and releases only slots it holds; the forwarding of the next paragraph does not always. \<open>Io_Safe\<close>: what holds without the accounting.

  \<^bold>\<open>Forwarding and messages\<close> (\<open>src/forward.c\<close>, \<open>src/netlink.c\<close>). \<open>Forward\<close>, \<open>Forward_Spec\<close>, \<open>Forward_Slots\<close>: the decision for a packet, its new headers with a
  correct checksum, and what becomes of its slot. \<open>Netlink\<close>: the parser on bytes. \<open>Netlink_Spec\<close>: it reads back what the encoding of any messages writes. \<open>Netlink_Tables\<close>:
  the effect of each message on the tables of a thread. \<open>Netlink_Safe\<close>: any message keeps the tables well-formed, when the prefix of a route has at most 128 bits (a longer one is read past the array that holds it, which is a fault) and
  the pool has room for a new route.

  \<^bold>\<open>Threads\<close> (\<open>src/epoll.c\<close>, \<open>src/thread.c\<close>). \<open>Epoll\<close>: the descriptors. \<open>Thread\<close>: the operations. \<open>Thread_Loop\<close>: the invariant of the loop, and that
  receive buffers are only posted by transmit interrupts. \<open>Thread_Life\<close>: from the start to the end of a thread.

  \<^bold>\<open>Set-up\<close> (\<open>lib/lib_main.c\<close>, \<open>lib/lib_tap.c\<close>, \<open>lib/lib_vfio.c\<close>, \<open>lib/lib_dev.c\<close>). \<open>Ufp_Os\<close>, \<open>Ufp_World\<close>: the operating system and the pools with one
  account of what is held. \<open>Ufp_Iface\<close>, \<open>Ufp_Tap\<close>, \<open>Ufp_Vfio\<close>, \<open>Ufp_Rings\<close>, \<open>Ufp_Up\<close>, \<open>Ufp_Up_Spec\<close>: interfaces, tap devices, VFIO, rings, and bringing a device up
  and down with nothing left behind. \<open>Ufp_Buf\<close>: buffers and planes; a new plane satisfies the invariant of packet input and output. \<open>Ufp_Dev\<close>: memory for DMA and the
  registration of drivers. The contract of a driver is the locale \<open>dev_driver\<close> of \<open>Ufp_Up\<close> for up and down, interpreted as \<open>i40e_drv\<close> in \<open>I40e_Up_Spec\<close>, and \<open>dev_opener\<close> of \<open>Ufp_Open_Spec\<close> for opening and closing,
  interpreted as \<open>i40e_life\<close> in \<open>Ufpd_Device\<close>. \<open>Ufp_Open\<close>, \<open>Ufp_Open_Spec\<close>: opening and closing of a device and their balance. \<open>Ufpd_Device\<close> (\<open>src/main.c\<close>): \<open>ufpd_device_init\<close> and \<open>ufpd_device_destroy\<close>, the life of a device from its opening to its closing over library and driver. \<open>Ufp_Scan\<close>, \<open>Ufpd_Args\<close>, \<open>Ufpd_Args_Spec\<close> (\<open>src/main.c\<close>): the command line.

  \<^bold>\<open>The driver\<close> (\<open>dev/i40e\<close>). \<open>I40e_Regs\<close>: registers. \<open>I40e_Ctx\<close>, \<open>I40e_Ctx_Spec\<close>, \<open>I40e_Hmc\<close>, \<open>I40e_Hmc_Spec\<close> (\<open>i40e_hmc.c\<close>): the contexts of queues; copying
  the structures byte by byte gives the bit string that the table of fields defines. \<open>I40e_Aq\<close>, \<open>I40e_Aqc\<close> (\<open>i40e_aq.c\<close>, \<open>i40e_aqc.c\<close>): the command queue, requests and
  answers. \<open>I40e_Main\<close>, \<open>I40e_Vsi\<close>, \<open>I40e_Ops\<close> (\<open>i40e_main.c\<close>, \<open>i40e_io.c\<close>, \<open>i40e_ops.c\<close>): reset, configuration, interfaces, interrupts and queues. \<open>I40e_Aq_Spec\<close>,
  \<open>I40e_Cmd_Spec\<close>, \<open>I40e_Up_Spec\<close>: every command returns with its session closed; the driver keeps what \<open>Ufp_Up\<close> relies on when a device is brought up. \<open>I40e_Open_Spec\<close>: the same for
  opening and closing, with the contexts of queues laid out as bringing up needs them.

  The theories with the suffix \<open>_Ex\<close> hold concrete devices, tables and threads, at which the properties are applied.

  \<^bold>\<open>Loops and bounds.\<close> Loops over data are structural recursion or have a measure. The loops over what comes from outside
  run along its list: the thread loop along the calls of \<open>epoll_wait\<close>, the loop of \<open>i40e_aq_asq_clean\<close> along the looks of the call. The waits of the driver count as the code does:
  \<open>wait_loop\<close> 250 rounds, \<open>poll_reg\<close> 200 rounds or what the register says, with the wrap-around of a counter that starts at 0. The loops that only the device ends
  (\<open>swconf_fetch\<close>, \<open>arq_clean_loop\<close>) and the walks over heap lists are partial functions, \<open>None\<close> where they do not end. The first does not end for a device that always names a further offset; \<open>I40e_Cmd_Spec\<close> shows exactly when it
  does, in particular for a device that says nothing more from some look on (\<open>quiet\<close>), which opening therefore assumes. The list theorems show that the walks end. Rings have up to 65536 descriptors.

  \<^bold>\<open>What is assumed of the device.\<close> \<open>poll_ok\<close>, part of \<open>aq_inv\<close>: at each clean-up of the command queue that is not silent, the head register is an index of the ring and stands still for one round, the descriptors and buffers
  have their size, and counted elements are inside the buffer. The code checks none of it; a head outside of the ring keeps it in the loop for ever (\<open>asq_clean_stuck\<close>). \<open>sheet_ok\<close>: the sizes of contexts and the
  greatest number of queues are those of the data sheet. All other values are arbitrary.

  \<^bold>\<open>Not modelled.\<close> The body of \<open>main\<close>, its loops over devices, the creation and end of threads, signals, the memory policy and the log (\<open>src/main.c\<close>) only arrange calls of the operating system.
  \<open>src/dev/old\<close> is named by no build file and calls functions that do not exist any more. Printing under \<open>DEBUG\<close> and constants of headers that no code uses are left
  out. Sleeping has no effect of its own, since what happens meanwhile is data. Threads share nothing but the devices' registers, so that a thread is modelled on its own; the byte order is
  little-endian throughout. \<open>getopt\<close>, \<open>dlopen\<close> and the kernel are the data that they give; of \<open>sscanf\<close> and \<open>snprintf\<close> the formats in use are written out.
\<close>

end
